(* ===== verification/Prelude.thy ===== *)
theory Prelude
  imports Main "HOL-Library.Word" "HOL-Library.List_Lexorder"
begin

text \<open>
  The vocabulary shared by every component: Rust's integer types as words, its
  \<open>Result\<close> type, checked arithmetic, range reads of slices, and the little- and
  big-endian byte forms of the integers (\<open>to_le_bytes\<close>, \<open>from_le_bytes\<close>, \<open>to_be_bytes\<close>).
  Byte strings are lists of \<open>8 word\<close>; they are ordered lexicographically
  (\<open>HOL-Library.List_Lexorder\<close>), as Rust orders byte slices. A \<open>usize\<close> is a natural
  number, and every \<open>checked_\<close> operation of the source writes out the bound of a 64-bit
  target. A fixed array \<open>[u8; 16]\<close> (the UUIDs) is the 128-bit word whose little-endian
  bytes are the array.
\<close>

named_theorems codec_simps \<open>reads of concatenated fixed-width fields\<close>
named_theorems eval_simps \<open>evaluation of closed byte-level terms\<close>
named_theorems result_simps \<open>case analysis of results\<close>

section \<open>Integer types and byte strings\<close>

type_synonym u8 = "8 word"
type_synonym u16 = "16 word"
type_synonym u32 = "32 word"
type_synonym u64 = "64 word"
type_synonym usize = nat
type_synonym uuid = "128 word"
type_synonym bytes = "8 word list"

section \<open>Results\<close>

datatype ('a, 'e) result = Ok 'a | Err 'e

fun and_then :: "('a, 'e) result \<Rightarrow> ('a \<Rightarrow> ('b, 'e) result) \<Rightarrow> ('b, 'e) result" where
  "and_then (Ok x) f = f x"
| "and_then (Err e) f = Err e"

fun map_ok :: "('a \<Rightarrow> 'b) \<Rightarrow> ('a, 'e) result \<Rightarrow> ('b, 'e) result" where
  "map_ok f (Ok x) = Ok (f x)"
| "map_ok f (Err e) = Err e"

fun map_err :: "('e \<Rightarrow> 'f) \<Rightarrow> ('a, 'e) result \<Rightarrow> ('a, 'f) result" where
  "map_err f (Ok x) = Ok x"
| "map_err f (Err e) = Err (f e)"

fun ok_or :: "'a option \<Rightarrow> 'e \<Rightarrow> ('a, 'e) result" where
  "ok_or (Some x) e = Ok x"
| "ok_or None e = Err e"

fun is_ok :: "('a, 'e) result \<Rightarrow> bool" where
  "is_ok (Ok x) = True"
| "is_ok (Err e) = False"

definition ensure :: "bool \<Rightarrow> 'e \<Rightarrow> (unit, 'e) result" where
  "ensure b e = (if b then Ok () else Err e)"

lemma and_then_Ok [result_simps]:
  "and_then r f = Ok y \<longleftrightarrow> (\<exists>x. r = Ok x \<and> f x = Ok y)"
  by (cases r) auto

lemma and_then_Err [result_simps]:
  "and_then r f = Err e \<longleftrightarrow> r = Err e \<or> (\<exists>x. r = Ok x \<and> f x = Err e)"
  by (cases r) auto

lemma map_ok_Ok [result_simps]: "map_ok f r = Ok y \<longleftrightarrow> (\<exists>x. r = Ok x \<and> y = f x)"
  by (cases r) auto

lemma map_ok_Err [result_simps]: "map_ok f r = Err e \<longleftrightarrow> r = Err e"
  by (cases r) auto

lemma map_err_Ok [simp]: "map_err f r = Ok y \<longleftrightarrow> r = Ok y"
  by (cases r) auto

lemma map_err_Err [result_simps]: "map_err f r = Err e \<longleftrightarrow> (\<exists>e'. r = Err e' \<and> e = f e')"
  by (cases r) auto

lemma ok_or_Ok [simp]: "ok_or v e = Ok x \<longleftrightarrow> v = Some x"
  by (cases v) auto

lemma ensure_Ok [simp]: "ensure b e = Ok u \<longleftrightarrow> b"
  by (simp add: ensure_def)

lemma ensure_simps [simp]: "ensure True e = Ok ()" "ensure False e = Err e"
  by (simp_all add: ensure_def)

lemma and_then_ensure [simp]:
  "b \<Longrightarrow> and_then (ensure b e) f = f ()"
  "\<not> b \<Longrightarrow> and_then (ensure b e) f = Err e"
  by (simp_all add: ensure_def)

lemma is_ok_iff: "is_ok r \<longleftrightarrow> (\<exists>x. r = Ok x)"
  by (cases r) auto

section \<open>Checked arithmetic\<close>

definition checked_add :: "'a::len word \<Rightarrow> 'a word \<Rightarrow> 'a word option" where
  "checked_add a b = (if unat a + unat b < 2 ^ LENGTH('a) then Some (a + b) else None)"

definition checked_sub :: "'a::len word \<Rightarrow> 'a word \<Rightarrow> 'a word option" where
  "checked_sub a b = (if b \<le> a then Some (a - b) else None)"

definition checked_mul :: "'a::len word \<Rightarrow> 'a word \<Rightarrow> 'a word option" where
  "checked_mul a b = (if unat a * unat b < 2 ^ LENGTH('a) then Some (a * b) else None)"

definition checked_div :: "'a::len word \<Rightarrow> 'a word \<Rightarrow> 'a word option" where
  "checked_div a b = (if b = 0 then None else Some (a div b))"

definition saturating_add :: "'a::len word \<Rightarrow> 'a word \<Rightarrow> 'a word" where
  "saturating_add a b = (if unat a + unat b < 2 ^ LENGTH('a) then a + b else - 1)"

definition is_multiple_of :: "'a::len word \<Rightarrow> 'a word \<Rightarrow> bool" where
  "is_multiple_of a b = (if b = 0 then a = 0 else a mod b = 0)"

definition usize_max :: usize where
  "usize_max = 18446744073709551615"

definition usize_checked_add :: "usize \<Rightarrow> usize \<Rightarrow> usize option" where
  "usize_checked_add a b = (if a + b \<le> usize_max then Some (a + b) else None)"

definition usize_checked_sub :: "usize \<Rightarrow> usize \<Rightarrow> usize option" where
  "usize_checked_sub a b = (if b \<le> a then Some (a - b) else None)"

definition usize_checked_mul :: "usize \<Rightarrow> usize \<Rightarrow> usize option" where
  "usize_checked_mul a b = (if a * b \<le> usize_max then Some (a * b) else None)"

text \<open>\<open>try_from\<close> between the integer types: the value if the target can hold it.\<close>

definition u16_try_from :: "nat \<Rightarrow> u16 option" where
  "u16_try_from n = (if n < 2 ^ 16 then Some (word_of_nat n) else None)"

definition u32_try_from :: "nat \<Rightarrow> u32 option" where
  "u32_try_from n = (if n < 2 ^ 32 then Some (word_of_nat n) else None)"

definition u64_try_from :: "nat \<Rightarrow> u64 option" where
  "u64_try_from n = (if n < 2 ^ 64 then Some (word_of_nat n) else None)"

lemma unat_less_2p: "unat (w :: 'a::len word) < 2 ^ LENGTH('a)"
  by (rule unsigned_less)

lemma checked_add_Some:
  "checked_add a b = Some c \<longleftrightarrow> unat (a::'a::len word) + unat b < 2 ^ LENGTH('a) \<and> c = a + b"
  by (auto simp: checked_add_def)

lemma unat_add_no_overflow:
  "unat (a::'a::len word) + unat b < 2 ^ LENGTH('a) \<Longrightarrow> unat (a + b) = unat a + unat b"
  by (simp add: unat_word_ariths)

lemma unat_mult_no_overflow:
  "unat (a::'a::len word) * unat b < 2 ^ LENGTH('a) \<Longrightarrow> unat (a * b) = unat a * unat b"
  by (simp add: unat_word_ariths)

lemma checked_add_unat:
  "checked_add a b = Some c \<Longrightarrow> unat c = unat a + unat b"
  by (auto simp: checked_add_Some unat_add_no_overflow)

lemma checked_sub_Some:
  "checked_sub a b = Some c \<longleftrightarrow> b \<le> a \<and> c = a - b"
  by (auto simp: checked_sub_def)

lemma unat_sub_no_borrow: "b \<le> a \<Longrightarrow> unat (a - b) = unat a - unat b"
  by (simp add: unat_sub)

lemma checked_sub_unat:
  "checked_sub a b = Some c \<Longrightarrow> unat c = unat a - unat b \<and> unat b \<le> unat a"
  by (auto simp: checked_sub_Some unat_sub word_le_nat_alt)

lemma u16_try_from_Some: "u16_try_from n = Some w \<longleftrightarrow> n < 2 ^ 16 \<and> w = word_of_nat n"
  by (auto simp: u16_try_from_def)

lemma u32_try_from_Some: "u32_try_from n = Some w \<longleftrightarrow> n < 2 ^ 32 \<and> w = word_of_nat n"
  by (auto simp: u32_try_from_def)

lemma u64_try_from_Some: "u64_try_from n = Some w \<longleftrightarrow> n < 2 ^ 64 \<and> w = word_of_nat n"
  by (auto simp: u64_try_from_def)

lemma unat_of_nat_small [simp]:
  "n < 2 ^ LENGTH('a::len) \<Longrightarrow> unat (word_of_nat n :: 'a word) = n"
  by (simp add: unat_of_nat take_bit_nat_eq_self)

lemma word_eq_of_nat: "unat w = n \<Longrightarrow> w = word_of_nat n"
  by auto

lemma u16_try_from_small:
  assumes "n < 65536"
  obtains w where "u16_try_from n = Some w" "unat w = n"
  by (rule that [of "word_of_nat n"]) (simp_all add: u16_try_from_def assms)

section \<open>Slices\<close>

definition slice_get :: "'a list \<Rightarrow> usize \<Rightarrow> usize \<Rightarrow> 'a list option" where
  "slice_get xs i j = (if i \<le> j \<and> j \<le> length xs then Some (take (j - i) (drop i xs)) else None)"

definition list_get :: "'a list \<Rightarrow> usize \<Rightarrow> 'a option" where
  "list_get xs i = (if i < length xs then Some (xs ! i) else None)"

lemma slice_get_Some [simp]:
  "i \<le> j \<Longrightarrow> j \<le> length xs \<Longrightarrow> slice_get xs i j = Some (take (j - i) (drop i xs))"
  by (simp add: slice_get_def)

lemma slice_get_eq_Some:
  "slice_get xs i j = Some ys \<longleftrightarrow> i \<le> j \<and> j \<le> length xs \<and> ys = take (j - i) (drop i xs)"
  by (auto simp: slice_get_def)

lemma list_get_Some [simp]: "i < length xs \<Longrightarrow> list_get xs i = Some (xs ! i)"
  by (simp add: list_get_def)

lemma list_get_eq_Some: "list_get xs i = Some x \<longleftrightarrow> i < length xs \<and> x = xs ! i"
  by (auto simp: list_get_def)

text \<open>A byte string cut into consecutive fields of the given widths.\<close>

fun cut_fields :: "nat list \<Rightarrow> 'a list \<Rightarrow> 'a list list" where
  "cut_fields [] xs = []"
| "cut_fields (w # ws) xs = take w xs # cut_fields ws (drop w xs)"

lemma concat_fields: "concat (cut_fields ws xs) = take (sum_list ws) xs"
  by (induction ws arbitrary: xs) (auto simp: take_add)

section \<open>Little- and big-endian byte forms\<close>

fun le_bytes :: "nat \<Rightarrow> nat \<Rightarrow> bytes" where
  "le_bytes 0 v = []"
| "le_bytes (Suc n) v = word_of_nat (v mod 256) # le_bytes n (v div 256)"

fun le_val :: "bytes \<Rightarrow> nat" where
  "le_val [] = 0"
| "le_val (b # bs) = unat b + 256 * le_val bs"

lemma length_le_bytes [simp]: "length (le_bytes n v) = n"
  by (induction n arbitrary: v) auto

lemma le_val_le_bytes [simp]: "le_val (le_bytes n v) = v mod 256 ^ n"
proof (induction n arbitrary: v)
  case 0
  then show ?case by simp
next
  case (Suc n)
  have "unat (word_of_nat (v mod 256) :: u8) = v mod 256"
    by (rule unat_of_nat_small) simp
  with Suc show ?case by (simp add: mod_mult2_eq)
qed

lemma unat_u8_lt [simp]: "unat (b :: u8) < 256"
  using unat_less_2p [of b] by simp

lemma le_bytes_le_val [simp]: "le_bytes (length bs) (le_val bs) = bs"
  by (induction bs) simp_all

lemma le_val_lt: "le_val bs < 256 ^ length bs"
proof (induction bs)
  case Nil
  then show ?case by simp
next
  case (Cons b bs)
  then have "unat b + 256 * le_val bs < 256 + 256 * le_val bs" by simp
  also have "\<dots> \<le> 256 * 256 ^ length bs" using Cons by simp
  finally show ?case by simp
qed

definition u16_to_le_bytes :: "u16 \<Rightarrow> bytes" where
  "u16_to_le_bytes w = le_bytes 2 (unat w)"

definition u32_to_le_bytes :: "u32 \<Rightarrow> bytes" where
  "u32_to_le_bytes w = le_bytes 4 (unat w)"

definition u64_to_le_bytes :: "u64 \<Rightarrow> bytes" where
  "u64_to_le_bytes w = le_bytes 8 (unat w)"

definition u64_to_be_bytes :: "u64 \<Rightarrow> bytes" where
  "u64_to_be_bytes w = rev (le_bytes 8 (unat w))"

definition uuid_bytes :: "uuid \<Rightarrow> bytes" where
  "uuid_bytes w = le_bytes 16 (unat w)"

definition u16_from_le_bytes :: "bytes \<Rightarrow> u16" where
  "u16_from_le_bytes bs = word_of_nat (le_val bs)"

definition u32_from_le_bytes :: "bytes \<Rightarrow> u32" where
  "u32_from_le_bytes bs = word_of_nat (le_val bs)"

definition u64_from_le_bytes :: "bytes \<Rightarrow> u64" where
  "u64_from_le_bytes bs = word_of_nat (le_val bs)"

definition u64_from_be_bytes :: "bytes \<Rightarrow> u64" where
  "u64_from_be_bytes bs = word_of_nat (le_val (rev bs))"

definition uuid_of_bytes :: "bytes \<Rightarrow> uuid" where
  "uuid_of_bytes bs = word_of_nat (le_val bs)"

lemma length_to_bytes [simp]:
  "length (u16_to_le_bytes a) = 2" "length (u32_to_le_bytes b) = 4"
  "length (u64_to_le_bytes c) = 8" "length (u64_to_be_bytes c) = 8"
  "length (uuid_bytes d) = 16"
  by (simp_all add: u16_to_le_bytes_def u32_to_le_bytes_def u64_to_le_bytes_def
      u64_to_be_bytes_def uuid_bytes_def)

lemma from_to_bytes [simp]:
  "u16_from_le_bytes (u16_to_le_bytes a) = a" "u32_from_le_bytes (u32_to_le_bytes b) = b"
  "u64_from_le_bytes (u64_to_le_bytes c) = c" "u64_from_be_bytes (u64_to_be_bytes c) = c"
  "uuid_of_bytes (uuid_bytes d) = d"
  using unat_less_2p [of a] unat_less_2p [of b] unat_less_2p [of c] unat_less_2p [of d]
  by (simp_all add: u16_to_le_bytes_def u32_to_le_bytes_def u64_to_le_bytes_def
      u64_to_be_bytes_def uuid_bytes_def u16_from_le_bytes_def u32_from_le_bytes_def
      u64_from_le_bytes_def u64_from_be_bytes_def uuid_of_bytes_def)

lemma to_from_bytes:
  "length bs = 2 \<Longrightarrow> u16_to_le_bytes (u16_from_le_bytes bs) = bs"
  "length bs = 4 \<Longrightarrow> u32_to_le_bytes (u32_from_le_bytes bs) = bs"
  "length bs = 8 \<Longrightarrow> u64_to_le_bytes (u64_from_le_bytes bs) = bs"
  "length bs = 8 \<Longrightarrow> u64_to_be_bytes (u64_from_be_bytes bs) = bs"
  "length bs = 16 \<Longrightarrow> uuid_bytes (uuid_of_bytes bs) = bs"
  using le_val_lt [of bs] le_val_lt [of "rev bs"] le_bytes_le_val [of bs]
    le_bytes_le_val [of "rev bs"]
  by (simp_all add: u16_to_le_bytes_def u32_to_le_bytes_def u64_to_le_bytes_def
      u64_to_be_bytes_def uuid_bytes_def u16_from_le_bytes_def u32_from_le_bytes_def
      u64_from_le_bytes_def u64_from_be_bytes_def uuid_of_bytes_def)

lemma from_bytes_eq_iff:
  "length bs = 2 \<Longrightarrow> u16_from_le_bytes bs = a \<longleftrightarrow> bs = u16_to_le_bytes a"
  "length bs = 4 \<Longrightarrow> u32_from_le_bytes bs = b \<longleftrightarrow> bs = u32_to_le_bytes b"
  "length bs = 8 \<Longrightarrow> u64_from_le_bytes bs = c \<longleftrightarrow> bs = u64_to_le_bytes c"
  "length bs = 8 \<Longrightarrow> u64_from_be_bytes bs = c \<longleftrightarrow> bs = u64_to_be_bytes c"
  "length bs = 16 \<Longrightarrow> uuid_of_bytes bs = d \<longleftrightarrow> bs = uuid_bytes d"
  by (auto simp: to_from_bytes)

lemma le_bytes_numeral [eval_simps]:
  "le_bytes (numeral k) v = word_of_nat (v mod 256) # le_bytes (pred_numeral k) (v div 256)"
  by (simp only: numeral_eq_Suc [of k] le_bytes.simps)

lemmas to_bytes_defs [eval_simps] = u16_to_le_bytes_def u32_to_le_bytes_def u64_to_le_bytes_def
  u64_to_be_bytes_def uuid_bytes_def u16_from_le_bytes_def u32_from_le_bytes_def
  u64_from_le_bytes_def u64_from_be_bytes_def uuid_of_bytes_def

end
