(* ===== verification/Errors.thy ===== *)
theory Errors
  imports Prelude
begin

text \<open>
  The structured errors of \<open>src/error.rs\<close>: the error record with its kind, the public
  operation, the protocol stage, the write outcome, the instance state and the retry advice,
  and the constructors every component builds its errors with. Every Rust function that
  returns \<open>Result<T>\<close> is modelled with values of \<open>('a, storage_error) result\<close>.
\<close>

datatype write_outcome = NotCommitted | CommitUnknown

datatype instance_state = Healthy | WriteStopped | Poisoned

datatype retry_advice =
  FixRequestAndRetrySameInstance
| RetrySameInstance
| FixEnvironmentAndReopen
| ReopenAndVerify
| RestoreOrRepair
| DoNotRetry

datatype storage_error_kind =
  InvalidArgument
| NotFound
| Busy
| Unsupported
| ResourceExhausted
| CapacityExceeded
| Io
| Corruption
| InvalidLayout
| IncompatibleFormat
| StorageWriteStopped
| StoragePoisoned
| Unrecoverable

datatype operation =
  Op_Open | Op_Put | Op_Delete | Op_WriteBatch | Op_Get | Op_Snapshot | Op_Iterator | Op_Range
| Op_Sync | Op_Destroy | Op_Drop | Op_Background | Op_Recovery

datatype protocol_stage =
  Admission | Preflight | VLogAppend | VLogSync | IndexCommit | DurableFrontierStage | ReadStage
| RecoveryStage | Maintenance | Lifecycle

datatype managed_object =
  MO_Lock | MO_Format | MO_FormatTemporary | MO_DatabaseIdentity | MO_IndexDirectory
| MO_VLogDirectory | MO_VLogFile u32

datatype destroy_stage = AcquireLock | Inventory | RemoveFile | RemoveTree | SyncDirectory

record destroy_failure_context =
  failed_object :: managed_object
  destroy_stage :: destroy_stage
  partially_deleted :: bool
  destroy_os_code :: "int option"

record storage_error =
  schema_version :: u16
  err_kind :: storage_error_kind
  err_operation :: operation
  err_stage :: protocol_stage
  err_outcome :: "write_outcome option"
  err_state :: "instance_state option"
  err_retry :: retry_advice
  err_os_code :: "int option"
  err_commit_seq :: "u64 option"
  err_tx_uuid :: "uuid option"
  err_vlog_file_id :: "u32 option"
  err_vlog_offset :: "u64 option"
  err_destroy_failure :: "destroy_failure_context option"
  err_message :: string
  err_source :: "string option"

type_synonym 'a res = "('a, storage_error) result"

definition StorageError_new ::
  "storage_error_kind \<Rightarrow> operation \<Rightarrow> protocol_stage \<Rightarrow> write_outcome option \<Rightarrow>
   instance_state option \<Rightarrow> retry_advice \<Rightarrow> storage_error" where
  "StorageError_new kind operation stage outcome state retry =
     \<lparr>schema_version = 1, err_kind = kind, err_operation = operation, err_stage = stage,
      err_outcome = outcome, err_state = state, err_retry = retry, err_os_code = None,
      err_commit_seq = None, err_tx_uuid = None, err_vlog_file_id = None,
      err_vlog_offset = None, err_destroy_failure = None, err_message = [], err_source = None\<rparr>"

definition unsupported ::
  "operation \<Rightarrow> protocol_stage \<Rightarrow> instance_state option \<Rightarrow> storage_error" where
  "unsupported operation stage state =
     StorageError_new Unsupported operation stage
       (if operation \<in> {Op_Put, Op_Delete, Op_WriteBatch, Op_Sync} then Some NotCommitted else None)
       state DoNotRetry"

definition invalid_batch :: "storage_error_kind \<Rightarrow> retry_advice \<Rightarrow> storage_error" where
  "invalid_batch kind retry =
     StorageError_new kind Op_WriteBatch Preflight (Some NotCommitted) None retry"

definition write_preflight_in_state ::
  "storage_error_kind \<Rightarrow> operation \<Rightarrow> instance_state \<Rightarrow> retry_advice \<Rightarrow> storage_error" where
  "write_preflight_in_state kind operation state retry =
     StorageError_new kind operation Preflight (Some NotCommitted) (Some state) retry"

definition write_preflight ::
  "storage_error_kind \<Rightarrow> operation \<Rightarrow> retry_advice \<Rightarrow> storage_error" where
  "write_preflight kind operation retry = write_preflight_in_state kind operation Healthy retry"

definition write_protocol ::
  "storage_error_kind \<Rightarrow> operation \<Rightarrow> protocol_stage \<Rightarrow> write_outcome \<Rightarrow> instance_state \<Rightarrow>
   retry_advice \<Rightarrow> storage_error" where
  "write_protocol kind operation stage outcome state retry =
     StorageError_new kind operation stage (Some outcome) (Some state) retry"

definition read_operation_error ::
  "storage_error_kind \<Rightarrow> operation \<Rightarrow> instance_state \<Rightarrow> retry_advice \<Rightarrow> storage_error" where
  "read_operation_error kind operation state retry =
     StorageError_new kind operation ReadStage None (Some state) retry"

definition read_error ::
  "storage_error_kind \<Rightarrow> instance_state \<Rightarrow> retry_advice \<Rightarrow> storage_error" where
  "read_error kind state retry = read_operation_error kind Op_Get state retry"

definition codec_error ::
  "storage_error_kind \<Rightarrow> operation \<Rightarrow> protocol_stage \<Rightarrow> write_outcome option \<Rightarrow>
   retry_advice \<Rightarrow> storage_error" where
  "codec_error kind operation stage outcome retry =
     StorageError_new kind operation stage outcome None retry"

lemmas error_constructors =
  StorageError_new_def unsupported_def invalid_batch_def write_preflight_in_state_def
  write_preflight_def write_protocol_def read_operation_error_def read_error_def codec_error_def

section \<open>The environment of the code\<close>

text \<open>
  What the code takes from outside \<open>src/\<close>. The checksum is the third-party crate
  \<open>crc32c\<close>: \<open>crc32c_append\<close> extends a running CRC by bytes, and \<open>crc32c data\<close> is
  documented as \<open>crc32c_append(0, data)\<close>. Every fallible allocation of the code
  (\<open>try_reserve\<close>) asks an allocator that may refuse any request: the model names the site by
  the source's own name for it and passes the requested number of elements. Nothing is assumed of
  either; theorems that need an allocation to succeed say so.
\<close>

type_synonym alloc_site = string

record env =
  crc32c_append_fn :: "u32 \<Rightarrow> bytes \<Rightarrow> u32"
  can_alloc :: "alloc_site \<Rightarrow> nat \<Rightarrow> bool"

definition crc32c_append :: "env \<Rightarrow> u32 \<Rightarrow> bytes \<Rightarrow> u32" where
  "crc32c_append E crc data = crc32c_append_fn E crc data"

definition crc32c :: "env \<Rightarrow> bytes \<Rightarrow> u32" where
  "crc32c E data = crc32c_append E 0 data"

definition try_reserve :: "env \<Rightarrow> alloc_site \<Rightarrow> nat \<Rightarrow> storage_error \<Rightarrow> unit res" where
  "try_reserve E site n err = ensure (can_alloc E site n) err"

text \<open>An allocator that never refuses.\<close>

definition allocates :: "env \<Rightarrow> bool" where
  "allocates E \<longleftrightarrow> (\<forall>site n. can_alloc E site n)"

lemma try_reserve_Ok [simp]: "try_reserve E site n err = Ok u \<longleftrightarrow> can_alloc E site n"
  by (simp add: try_reserve_def)

lemma try_reserve_allocates [simp]: "allocates E \<Longrightarrow> try_reserve E site n err = Ok ()"
  by (simp add: try_reserve_def allocates_def)

text \<open>
  A concrete environment for evaluation: a byte sum as the running checksum, and an
  allocator with room for every request.
\<close>

definition sample_env :: env where
  "sample_env =
     \<lparr>crc32c_append_fn = (\<lambda>c bs. foldl (\<lambda>s b. 31 * s + ucast b + 1) c bs),
      can_alloc = (\<lambda>_ _. True)\<rparr>"

lemma allocates_sample_env [simp]: "allocates sample_env"
  by (simp add: allocates_def sample_env_def)

end
