(* ===== verification/RootFormat.thy ===== *)
theory RootFormat
  imports Errors
begin

text \<open>
  The root \<open>FORMAT\<close> file (\<open>src/format.rs\<close>): the 36-byte metadata record, its
  encoder and decoder with every rejection branch, and the interface that all fixed-layout
  codecs of the code share.
\<close>

section \<open>The codec interface\<close>

text \<open>
  A codec turns a value into bytes or rejects it, and reads bytes back. The laws are those the
  callers rely on: what was written is read back, and only byte strings the encoder would
  write are accepted.
\<close>

locale codec =
  fixes enc :: "'a \<Rightarrow> bytes res"
    and dec :: "bytes \<Rightarrow> 'a res"
  assumes dec_enc: "enc x = Ok bs \<Longrightarrow> dec bs = Ok x"
    and enc_dec: "dec bs = Ok x \<Longrightarrow> enc x = Ok bs"
begin

lemma dec_iff_enc: "dec bs = Ok x \<longleftrightarrow> enc x = Ok bs"
  using dec_enc enc_dec by blast

lemma enc_inject: "enc x = Ok bs \<Longrightarrow> enc y = Ok bs \<Longrightarrow> x = y"
  by (metis dec_enc result.inject(1))

lemma dec_inject: "dec as = Ok x \<Longrightarrow> dec bs = Ok x \<Longrightarrow> as = bs"
  by (metis enc_dec result.inject(1))

lemma dec_rejects: "(\<And>x. enc x \<noteq> Ok bs) \<Longrightarrow> \<not> is_ok (dec bs)"
  using enc_dec by (auto simp: is_ok_iff)

end

locale fixed_codec = codec enc dec
  for enc :: "'a \<Rightarrow> bytes res" and dec :: "bytes \<Rightarrow> 'a res" +
  fixes width :: nat
  assumes enc_width: "enc x = Ok bs \<Longrightarrow> length bs = width"
begin

lemma dec_width: "dec bs = Ok x \<Longrightarrow> length bs = width"
  using enc_dec enc_width by blast

end

section \<open>FORMAT metadata\<close>

definition FORMAT_MAGIC :: bytes where
  "FORMAT_MAGIC = [0x52, 0x55, 0x53, 0x54, 0x4B, 0x56, 0x30, 0x30]"

definition FORMAT_VERSION :: u32 where "FORMAT_VERSION = 0"
definition FORMAT_ENCODED_LEN :: usize where "FORMAT_ENCODED_LEN = 36"
definition FORMAT_PAGE_SIZE :: u32 where "FORMAT_PAGE_SIZE = 65536"
definition FORMAT_MAX_KEY_VALUE_SIZE :: u32 where "FORMAT_MAX_KEY_VALUE_SIZE = 60000"

record format_metadata =
  fm_magic :: bytes
  fm_format_version :: u32
  fm_database_uuid :: uuid
  fm_page_size :: u32
  fm_max_key_value_size :: u32

definition format_encode_error :: storage_error where
  "format_encode_error =
     codec_error InvalidArgument Op_Open Preflight None FixRequestAndRetrySameInstance"

definition format_decode_error :: "storage_error_kind \<Rightarrow> storage_error" where
  "format_decode_error kind =
     codec_error kind Op_Open RecoveryStage None
       (if kind = IncompatibleFormat then DoNotRetry else RestoreOrRepair)"

definition FormatMetadata_validate_for_encode :: "format_metadata \<Rightarrow> unit res" where
  "FormatMetadata_validate_for_encode m =
     (if fm_magic m \<noteq> FORMAT_MAGIC
         \<or> fm_format_version m \<noteq> FORMAT_VERSION
         \<or> fm_database_uuid m = 0
         \<or> fm_page_size m \<noteq> FORMAT_PAGE_SIZE
         \<or> fm_max_key_value_size m \<noteq> FORMAT_MAX_KEY_VALUE_SIZE
      then Err format_encode_error
      else Ok ())"

definition FormatMetadata_new :: "uuid \<Rightarrow> format_metadata res" where
  "FormatMetadata_new database_uuid =
     (let metadata = \<lparr>fm_magic = FORMAT_MAGIC, fm_format_version = FORMAT_VERSION,
                      fm_database_uuid = database_uuid, fm_page_size = FORMAT_PAGE_SIZE,
                      fm_max_key_value_size = FORMAT_MAX_KEY_VALUE_SIZE\<rparr>
      in and_then (FormatMetadata_validate_for_encode metadata) (\<lambda>_. Ok metadata))"

definition FormatMetadata_encode :: "format_metadata \<Rightarrow> bytes res" where
  "FormatMetadata_encode m =
     and_then (FormatMetadata_validate_for_encode m) (\<lambda>_.
       Ok (fm_magic m
           @ u32_to_le_bytes (fm_format_version m)
           @ uuid_bytes (fm_database_uuid m)
           @ u32_to_le_bytes (fm_page_size m)
           @ u32_to_le_bytes (fm_max_key_value_size m)))"

definition FormatMetadata_decode :: "bytes \<Rightarrow> format_metadata res" where
  "FormatMetadata_decode encoded =
     (if length encoded \<noteq> FORMAT_ENCODED_LEN then Err (format_decode_error Corruption)
      else if take 8 encoded \<noteq> FORMAT_MAGIC then Err (format_decode_error Corruption)
      else
        let format_version = u32_from_le_bytes (take 4 (drop 8 encoded)) in
        if format_version \<noteq> FORMAT_VERSION then Err (format_decode_error IncompatibleFormat)
        else
          let database_uuid = uuid_of_bytes (take 16 (drop 12 encoded));
              page_size = u32_from_le_bytes (take 4 (drop 28 encoded));
              max_key_value_size = u32_from_le_bytes (take 4 (drop 32 encoded))
          in if database_uuid = 0 \<or> page_size \<noteq> FORMAT_PAGE_SIZE
                \<or> max_key_value_size \<noteq> FORMAT_MAX_KEY_VALUE_SIZE
             then Err (format_decode_error Corruption)
             else Ok \<lparr>fm_magic = FORMAT_MAGIC, fm_format_version = format_version,
                      fm_database_uuid = database_uuid, fm_page_size = page_size,
                      fm_max_key_value_size = max_key_value_size\<rparr>)"

lemmas format_defs = FormatMetadata_validate_for_encode_def FormatMetadata_encode_def
  FormatMetadata_decode_def FORMAT_ENCODED_LEN_def

lemma length_FORMAT_MAGIC [simp]: "length FORMAT_MAGIC = 8"
  by (simp add: FORMAT_MAGIC_def)

lemma FormatMetadata_dec_enc: "FormatMetadata_encode m = Ok bs \<Longrightarrow> FormatMetadata_decode bs = Ok m"
  by (auto simp: format_defs result_simps Let_def split: if_splits)

lemma FormatMetadata_enc_dec:
  assumes "FormatMetadata_decode bs = Ok m"
  shows "FormatMetadata_encode m = Ok bs"
proof -
  have "length bs = 36"
    using assms by (simp add: format_defs split: if_splits)
  with assms concat_fields [of "[8, 4, 16, 4, 4]" bs] show ?thesis
    by (auto simp: format_defs Let_def to_from_bytes from_bytes_eq_iff split: if_splits)
qed

interpretation fmt: fixed_codec FormatMetadata_encode FormatMetadata_decode 36
proof unfold_locales
  fix m bs
  show "FormatMetadata_encode m = Ok bs \<Longrightarrow> length bs = 36"
    by (auto simp: format_defs result_simps split: if_splits)
qed (rule FormatMetadata_dec_enc FormatMetadata_enc_dec, assumption)+

lemma FormatMetadata_new_encodes:
  "FormatMetadata_new u = Ok m \<Longrightarrow> \<exists>bs. FormatMetadata_encode m = Ok bs \<and> fm_database_uuid m = u"
  by (auto simp: FormatMetadata_new_def FormatMetadata_encode_def Let_def result_simps)

text \<open>
  The root metadata file. A byte string decodes to a metadata value exactly when it is that
  value's encoding, so no two databases share a FORMAT file and nothing else is accepted.
\<close>

theorem format_codec_exact: "FormatMetadata_decode bs = Ok m \<longleftrightarrow> FormatMetadata_encode m = Ok bs"
  by (rule fmt.dec_iff_enc)

end
