(* ===== verification/Batch.thy ===== *)
theory Batch
  imports Errors
begin

text \<open>
  Write batches (\<open>src/batch.rs\<close>): the ordered list of owned operations a client builds
  before an atomic write. Each mutating call returns the new batch and its result; on an
  error the returned batch is the old one, as the source pushes only after every check and
  allocation has succeeded.
\<close>

definition BATCH_MAX_KEY_VALUE_SIZE :: usize where "BATCH_MAX_KEY_VALUE_SIZE = 60000"

datatype batch_operation = Put (op_key: bytes) (op_value: bytes) | Delete (op_key: bytes)

record write_batch =
  operations :: "batch_operation list"

definition batch_invalid_argument :: storage_error where
  "batch_invalid_argument = invalid_batch InvalidArgument FixRequestAndRetrySameInstance"

definition batch_capacity_exceeded :: storage_error where
  "batch_capacity_exceeded = invalid_batch CapacityExceeded FixRequestAndRetrySameInstance"

definition batch_resource_exhausted :: storage_error where
  "batch_resource_exhausted = invalid_batch ResourceExhausted RetrySameInstance"

definition batch_validate_key :: "bytes \<Rightarrow> unit res" where
  "batch_validate_key key =
     (if key = [] \<or> length key > BATCH_MAX_KEY_VALUE_SIZE then Err batch_invalid_argument
      else and_then (ok_or (u16_try_from (length key)) batch_capacity_exceeded) (\<lambda>_. Ok ()))"

definition batch_validate_key_value :: "bytes \<Rightarrow> bytes \<Rightarrow> unit res" where
  "batch_validate_key_value key value =
     and_then (batch_validate_key key) (\<lambda>_.
     and_then (ok_or (u16_try_from (length value)) batch_capacity_exceeded) (\<lambda>_.
     and_then (ok_or (usize_checked_add (length key) (length value)) batch_capacity_exceeded)
       (\<lambda>total. if total > BATCH_MAX_KEY_VALUE_SIZE then Err batch_invalid_argument else Ok ())))"

definition batch_validate_next_operation_count :: "usize \<Rightarrow> unit res" where
  "batch_validate_next_operation_count current =
     and_then (ok_or (usize_checked_add current 1) batch_capacity_exceeded) (\<lambda>next.
     and_then (ok_or (u32_try_from next) batch_capacity_exceeded) (\<lambda>_. Ok ()))"

definition batch_try_clone_bytes :: "env \<Rightarrow> alloc_site \<Rightarrow> bytes \<Rightarrow> bytes res" where
  "batch_try_clone_bytes E site bs =
     and_then (try_reserve E site (length bs) batch_resource_exhausted) (\<lambda>_. Ok bs)"

definition batch_try_clone_key :: "env \<Rightarrow> bytes \<Rightarrow> bytes res" where
  "batch_try_clone_key E bs = batch_try_clone_bytes E ''Key'' bs"

definition batch_try_clone_value :: "env \<Rightarrow> bytes \<Rightarrow> bytes res" where
  "batch_try_clone_value E bs = batch_try_clone_bytes E ''Value'' bs"

definition reserve_operation :: "env \<Rightarrow> write_batch \<Rightarrow> unit res" where
  "reserve_operation E b =
     try_reserve E ''Operations'' (Suc (length (operations b))) batch_resource_exhausted"

definition WriteBatch_new :: write_batch where
  "WriteBatch_new = \<lparr>operations = []\<rparr>"

definition WriteBatch_push :: "write_batch \<Rightarrow> batch_operation \<Rightarrow> write_batch" where
  "WriteBatch_push b op = b\<lparr>operations := operations b @ [op]\<rparr>"

definition batch_put_operation :: "env \<Rightarrow> write_batch \<Rightarrow> bytes \<Rightarrow> bytes \<Rightarrow> batch_operation res" where
  "batch_put_operation E b key value =
     and_then (batch_validate_key_value key value) (\<lambda>_.
     and_then (batch_validate_next_operation_count (length (operations b))) (\<lambda>_.
     and_then (batch_try_clone_key E key) (\<lambda>key'.
     and_then (batch_try_clone_value E value) (\<lambda>value'.
     and_then (reserve_operation E b) (\<lambda>_. Ok (Put key' value'))))))"

definition WriteBatch_put :: "env \<Rightarrow> write_batch \<Rightarrow> bytes \<Rightarrow> bytes \<Rightarrow> write_batch \<times> unit res" where
  "WriteBatch_put E b key value =
     (case batch_put_operation E b key value of
        Ok operation \<Rightarrow> (WriteBatch_push b operation, Ok ())
      | Err e \<Rightarrow> (b, Err e))"

definition batch_delete_operation :: "env \<Rightarrow> write_batch \<Rightarrow> bytes \<Rightarrow> batch_operation res" where
  "batch_delete_operation E b key =
     and_then (batch_validate_key key) (\<lambda>_.
     and_then (batch_validate_next_operation_count (length (operations b))) (\<lambda>_.
     and_then (batch_try_clone_key E key) (\<lambda>key'.
     and_then (reserve_operation E b) (\<lambda>_. Ok (Delete key')))))"

definition WriteBatch_delete :: "env \<Rightarrow> write_batch \<Rightarrow> bytes \<Rightarrow> write_batch \<times> unit res" where
  "WriteBatch_delete E b key =
     (case batch_delete_operation E b key of
        Ok operation \<Rightarrow> (WriteBatch_push b operation, Ok ())
      | Err e \<Rightarrow> (b, Err e))"

definition WriteBatch_clear :: "write_batch \<Rightarrow> write_batch" where
  "WriteBatch_clear b = b\<lparr>operations := []\<rparr>"

definition WriteBatch_len :: "write_batch \<Rightarrow> usize" where
  "WriteBatch_len b = length (operations b)"

definition WriteBatch_is_empty :: "write_batch \<Rightarrow> bool" where
  "WriteBatch_is_empty b = (operations b = [])"

section \<open>The invariant of a batch\<close>

fun valid_operation :: "batch_operation \<Rightarrow> bool" where
  "valid_operation (Put k v) = (k \<noteq> [] \<and> length k + length v \<le> 60000)"
| "valid_operation (Delete k) = (k \<noteq> [] \<and> length k \<le> 60000)"

definition batch_inv :: "write_batch \<Rightarrow> bool" where
  "batch_inv b \<longleftrightarrow> list_all valid_operation (operations b) \<and> length (operations b) < 2 ^ 32"

lemmas batch_defs = batch_validate_key_def batch_validate_key_value_def
  batch_validate_next_operation_count_def batch_try_clone_key_def batch_try_clone_value_def
  batch_try_clone_bytes_def reserve_operation_def BATCH_MAX_KEY_VALUE_SIZE_def
  usize_checked_add_def usize_max_def WriteBatch_push_def

lemma batch_validate_key_Ok:
  "batch_validate_key k = Ok u \<longleftrightarrow> k \<noteq> [] \<and> length k \<le> 60000"
  by (auto simp: batch_defs result_simps u16_try_from_def)

lemma batch_validate_key_value_Ok:
  "batch_validate_key_value k v = Ok u \<longleftrightarrow> valid_operation (Put k v)"
  by (auto simp: batch_validate_key_value_def result_simps batch_validate_key_Ok u16_try_from_def
      usize_checked_add_def usize_max_def BATCH_MAX_KEY_VALUE_SIZE_def)

lemma batch_validate_count_Ok:
  "batch_validate_next_operation_count n = Ok u \<longleftrightarrow> Suc n < 2 ^ 32"
  by (auto simp: batch_validate_next_operation_count_def result_simps u32_try_from_def
      usize_checked_add_def usize_max_def)

lemma clone_Ok: "batch_try_clone_bytes E site bs = Ok cs \<longleftrightarrow> cs = bs \<and> can_alloc E site (length bs)"
  by (auto simp: batch_try_clone_bytes_def result_simps)

lemmas batch_Ok_iffs = batch_validate_key_Ok batch_validate_key_value_Ok batch_validate_count_Ok
  batch_try_clone_key_def batch_try_clone_value_def clone_Ok

lemma reserve_operation_Ok:
  "reserve_operation E b = Ok u \<longleftrightarrow> can_alloc E ''Operations'' (Suc (length (operations b)))"
  by (simp add: reserve_operation_def)

lemma batch_put_operation_Ok:
  "batch_put_operation E b k v = Ok op \<longleftrightarrow>
     op = Put k v \<and> valid_operation op \<and> Suc (length (operations b)) < 2 ^ 32
     \<and> can_alloc E ''Key'' (length k) \<and> can_alloc E ''Value'' (length v)
     \<and> can_alloc E ''Operations'' (Suc (length (operations b)))"
  by (auto simp: batch_put_operation_def result_simps batch_Ok_iffs reserve_operation_Ok)

lemma batch_delete_operation_Ok:
  "batch_delete_operation E b k = Ok op \<longleftrightarrow>
     op = Delete k \<and> valid_operation op \<and> Suc (length (operations b)) < 2 ^ 32
     \<and> can_alloc E ''Key'' (length k)
     \<and> can_alloc E ''Operations'' (Suc (length (operations b)))"
  by (auto simp: batch_delete_operation_def result_simps batch_Ok_iffs reserve_operation_Ok)

section \<open>Client sequences\<close>

text \<open>A client's calls on one batch, and the operations the accepted ones stand for.\<close>

datatype batch_call = Call_put bytes bytes | Call_delete bytes | Call_clear

fun apply_call :: "env \<Rightarrow> write_batch \<Rightarrow> batch_call \<Rightarrow> write_batch" where
  "apply_call E b (Call_put k v) = fst (WriteBatch_put E b k v)"
| "apply_call E b (Call_delete k) = fst (WriteBatch_delete E b k)"
| "apply_call E b Call_clear = WriteBatch_clear b"

fun batch_run :: "env \<Rightarrow> write_batch \<Rightarrow> batch_call list \<Rightarrow> write_batch" where
  "batch_run E b [] = b"
| "batch_run E b (c # cs) = batch_run E (apply_call E b c) cs"

lemma batch_inv_push:
  "batch_inv b \<Longrightarrow> valid_operation op \<Longrightarrow> Suc (length (operations b)) < 2 ^ 32
   \<Longrightarrow> batch_inv (WriteBatch_push b op)"
  by (simp add: batch_inv_def WriteBatch_push_def)

lemma apply_call_inv: "batch_inv b \<Longrightarrow> batch_inv (apply_call E b c)"
  by (cases c) (auto simp: WriteBatch_put_def WriteBatch_delete_def WriteBatch_clear_def
      batch_put_operation_Ok batch_delete_operation_Ok WriteBatch_push_def batch_inv_def
      split: result.splits)

lemma batch_run_inv: "batch_inv b \<Longrightarrow> batch_inv (batch_run E b cs)"
  by (induction cs arbitrary: b) (auto simp: apply_call_inv)

lemma batch_inv_new: "batch_inv WriteBatch_new"
  by (simp add: batch_inv_def WriteBatch_new_def)

section \<open>What the calls promise\<close>

definition put_accepted :: "env \<Rightarrow> write_batch \<Rightarrow> bytes \<Rightarrow> bytes \<Rightarrow> bool" where
  "put_accepted E b k v \<longleftrightarrow>
     k \<noteq> [] \<and> length k + length v \<le> 60000 \<and> Suc (length (operations b)) < 2 ^ 32
     \<and> can_alloc E ''Key'' (length k) \<and> can_alloc E ''Value'' (length v)
     \<and> can_alloc E ''Operations'' (Suc (length (operations b)))"

lemma batch_put_operation_accepted:
  "put_accepted E b k v \<Longrightarrow> batch_put_operation E b k v = Ok (Put k v)"
  by (simp add: batch_put_operation_Ok put_accepted_def)

lemma batch_put_operation_refused:
  "\<not> put_accepted E b k v \<Longrightarrow> \<exists>e. batch_put_operation E b k v = Err e"
  by (cases "batch_put_operation E b k v") (auto simp: batch_put_operation_Ok put_accepted_def)

lemma WriteBatch_put_iff:
  "snd (WriteBatch_put E b k v) = Ok () \<longleftrightarrow> put_accepted E b k v"
  "fst (WriteBatch_put E b k v) =
     (if put_accepted E b k v then b\<lparr>operations := operations b @ [Put k v]\<rparr> else b)"
  by (cases "put_accepted E b k v";
      auto simp: WriteBatch_put_def WriteBatch_push_def batch_put_operation_accepted
        dest: batch_put_operation_refused)+

section \<open>Properties\<close>

text \<open>
  C23: whatever calls a client makes on a new batch, and whichever of them the allocator or the
  limits refuse, the batch only ever holds operations within the limits of the format, fewer
  than the largest count a transaction can number.
\<close>

theorem batch_calls_keep_limits: "batch_inv (batch_run E WriteBatch_new calls)"
  by (rule batch_run_inv [OF batch_inv_new])

text \<open>
  \<open>put\<close> appends exactly one operation when it succeeds, leaves the batch as it was when it
  fails, and succeeds exactly when the key is not empty, key and value fit together, the
  operation can be numbered and the three allocations succeed.
\<close>

theorem put_appends_or_keeps:
  "WriteBatch_put E b k v =
     (if put_accepted E b k v then (b\<lparr>operations := operations b @ [Put k v]\<rparr>, Ok ())
      else (b, snd (WriteBatch_put E b k v)))
   \<and> (snd (WriteBatch_put E b k v) = Ok () \<longleftrightarrow> put_accepted E b k v)"
  using WriteBatch_put_iff [of E b k v] by (simp add: prod_eq_iff)

end
