(* ===== verification/VLogBase.thy ===== *)
theory VLogBase
  imports RootFormat
begin

text \<open>
  The first part of \<open>src/vlog/format.rs\<close>: its constants, error constructors and bounded
  reads, positions in the value log with their lexicographic order, the page geometry and the
  arithmetic of pages. All offsets keep their 64-bit width and every checked operation keeps
  its failing branch; the lemmas then restate the page arithmetic over natural numbers.
\<close>

section \<open>Constants\<close>

definition VALUE_POINTER_FORMAT_VERSION :: u16 where "VALUE_POINTER_FORMAT_VERSION = 0"
definition VALUE_POINTER_ENCODED_LEN :: usize where "VALUE_POINTER_ENCODED_LEN = 16"
definition MAX_VLOG_FILE_ID :: u32 where "MAX_VLOG_FILE_ID = 999999"
definition MAX_VLOG_FILE_SIZE :: u64 where "MAX_VLOG_FILE_SIZE = 4294967296"
definition VLOG_PAGE_SIZE :: u64 where "VLOG_PAGE_SIZE = 65536"
definition FIRST_PAGE_RECORD_AREA_START :: u64 where "FIRST_PAGE_RECORD_AREA_START = 64"
definition OTHER_PAGE_RECORD_AREA_OFFSET :: u64 where "OTHER_PAGE_RECORD_AREA_OFFSET = 16"
definition MIN_KV_RECORD_LEN :: u32 where "MIN_KV_RECORD_LEN = 56"
definition MAX_KV_RECORD_LEN :: u32 where "MAX_KV_RECORD_LEN = 60055"
definition MAX_KEY_VALUE_SIZE :: u32 where "MAX_KEY_VALUE_SIZE = 60000"
definition KV_RECORD_FIXED_LEN_WITH_CRC :: u32 where "KV_RECORD_FIXED_LEN_WITH_CRC = 55"
definition RECORD_CRC_LEN :: u32 where "RECORD_CRC_LEN = 4"
definition PAGE_HEADER_ENCODED_LEN :: usize where "PAGE_HEADER_ENCODED_LEN = 16"
definition FILE_HEADER_ENCODED_LEN :: usize where "FILE_HEADER_ENCODED_LEN = 48"
definition RECORD_HEADER_ENCODED_LEN :: usize where "RECORD_HEADER_ENCODED_LEN = 39"
definition TX_BEGIN_ENCODED_LEN :: u32 where "TX_BEGIN_ENCODED_LEN = 71"
definition MIN_DELETE_RECORD_LEN :: u32 where "MIN_DELETE_RECORD_LEN = 54"
definition TX_PREPARED_END_ENCODED_LEN :: u32 where "TX_PREPARED_END_ENCODED_LEN = 111"
definition PAGE_END_MIN_SIZE :: u32 where "PAGE_END_MIN_SIZE = 43"
definition PAGE_HEADER_MAGIC :: bytes where "PAGE_HEADER_MAGIC = [0x52, 0x4B, 0x56, 0x50]"
definition FILE_HEADER_MAGIC :: bytes where
  "FILE_HEADER_MAGIC = [0x52, 0x4B, 0x56, 0x4C, 0x4F, 0x47, 0x30, 0x30]"
definition RECORD_HEADER_MAGIC :: bytes where "RECORD_HEADER_MAGIC = [0x52, 0x4B, 0x56, 0x52]"
definition END_TRAILER_MAGIC :: bytes where "END_TRAILER_MAGIC = [0x52, 0x4B, 0x54, 0x45]"
definition ENVELOPE_CRC_MAGIC :: bytes where
  "ENVELOPE_CRC_MAGIC = [0x52, 0x4B, 0x45, 0x4E, 0x56, 0x30]"
definition VLOG_FORMAT_VERSION :: u16 where "VLOG_FORMAT_VERSION = 0"
definition FILE_FORMAT_VERSION :: u32 where "FILE_FORMAT_VERSION = 0"

lemmas vlog_consts = VALUE_POINTER_FORMAT_VERSION_def VALUE_POINTER_ENCODED_LEN_def
  MAX_VLOG_FILE_ID_def MAX_VLOG_FILE_SIZE_def VLOG_PAGE_SIZE_def FIRST_PAGE_RECORD_AREA_START_def
  OTHER_PAGE_RECORD_AREA_OFFSET_def MIN_KV_RECORD_LEN_def MAX_KV_RECORD_LEN_def
  MAX_KEY_VALUE_SIZE_def KV_RECORD_FIXED_LEN_WITH_CRC_def RECORD_CRC_LEN_def
  PAGE_HEADER_ENCODED_LEN_def FILE_HEADER_ENCODED_LEN_def RECORD_HEADER_ENCODED_LEN_def
  TX_BEGIN_ENCODED_LEN_def MIN_DELETE_RECORD_LEN_def TX_PREPARED_END_ENCODED_LEN_def
  PAGE_END_MIN_SIZE_def VLOG_FORMAT_VERSION_def FILE_FORMAT_VERSION_def

lemma length_magics [simp]:
  "length PAGE_HEADER_MAGIC = 4" "length FILE_HEADER_MAGIC = 8"
  "length RECORD_HEADER_MAGIC = 4" "length END_TRAILER_MAGIC = 4"
  by (simp_all add: PAGE_HEADER_MAGIC_def FILE_HEADER_MAGIC_def RECORD_HEADER_MAGIC_def
      END_TRAILER_MAGIC_def)

section \<open>Errors\<close>

definition invalid_vlog_error :: "storage_error_kind \<Rightarrow> storage_error" where
  "invalid_vlog_error kind =
     codec_error kind Op_WriteBatch VLogAppend (Some NotCommitted)
       (if kind = ResourceExhausted then RetrySameInstance
        else if kind = IncompatibleFormat then DoNotRetry
        else FixRequestAndRetrySameInstance)"

definition capacity_error :: storage_error where
  "capacity_error =
     codec_error CapacityExceeded Op_WriteBatch VLogAppend (Some NotCommitted) DoNotRetry"

definition encode_error :: storage_error where
  "encode_error =
     codec_error InvalidArgument Op_WriteBatch Preflight (Some NotCommitted)
       FixRequestAndRetrySameInstance"

definition decode_error :: "storage_error_kind \<Rightarrow> storage_error" where
  "decode_error kind =
     codec_error kind Op_Get ReadStage None
       (if kind = IncompatibleFormat then DoNotRetry else RestoreOrRepair)"

lemma err_kind_simps [simp]:
  "err_kind (invalid_vlog_error k) = k" "err_kind (decode_error k) = k"
  "err_kind capacity_error = CapacityExceeded" "err_kind encode_error = InvalidArgument"
  by (simp_all add: invalid_vlog_error_def decode_error_def capacity_error_def encode_error_def
      error_constructors)

section \<open>Bounded reads\<close>

definition read_range :: "bytes \<Rightarrow> usize \<Rightarrow> usize \<Rightarrow> bytes res" where
  "read_range encoded offset n =
     and_then (ok_or (usize_checked_add offset n) (decode_error Corruption)) (\<lambda>end.
       ok_or (slice_get encoded offset end) (decode_error Corruption))"

definition read_array_16 :: "bytes \<Rightarrow> usize \<Rightarrow> uuid res" where
  "read_array_16 encoded offset = map_ok uuid_of_bytes (read_range encoded offset 16)"

definition read_u16 :: "bytes \<Rightarrow> usize \<Rightarrow> u16 res" where
  "read_u16 encoded offset = map_ok u16_from_le_bytes (read_range encoded offset 2)"

definition read_u32 :: "bytes \<Rightarrow> usize \<Rightarrow> u32 res" where
  "read_u32 encoded offset = map_ok u32_from_le_bytes (read_range encoded offset 4)"

definition read_u64 :: "bytes \<Rightarrow> usize \<Rightarrow> u64 res" where
  "read_u64 encoded offset = map_ok u64_from_le_bytes (read_range encoded offset 8)"

lemma read_range_eval [codec_simps]:
  "offset + n \<le> length encoded \<Longrightarrow> offset + n \<le> usize_max \<Longrightarrow>
   read_range encoded offset n = Ok (take n (drop offset encoded))"
  by (simp add: read_range_def usize_checked_add_def)

lemma read_range_Ok:
  "read_range encoded offset n = Ok bs \<longleftrightarrow>
     offset + n \<le> usize_max \<and> offset + n \<le> length encoded \<and> bs = take n (drop offset encoded)"
  by (auto simp: read_range_def usize_checked_add_def result_simps slice_get_eq_Some)

lemmas read_defs = read_array_16_def read_u16_def read_u32_def read_u64_def

section \<open>Positions\<close>

datatype vlog_position = VLogPosition (pos_file_id: u32) (pos_offset: u64)

text \<open>The derived order of the source: by file, then by offset.\<close>

instantiation vlog_position :: linorder
begin

definition less_eq_vlog_position :: "vlog_position \<Rightarrow> vlog_position \<Rightarrow> bool" where
  "less_eq_vlog_position p q \<longleftrightarrow> pos_file_id p < pos_file_id q
     \<or> pos_file_id p = pos_file_id q \<and> pos_offset p \<le> pos_offset q"

definition less_vlog_position :: "vlog_position \<Rightarrow> vlog_position \<Rightarrow> bool" where
  "less_vlog_position p q \<longleftrightarrow> pos_file_id p < pos_file_id q
     \<or> pos_file_id p = pos_file_id q \<and> pos_offset p < pos_offset q"

instance
  by standard
    (auto simp: less_eq_vlog_position_def less_vlog_position_def vlog_position.expand)

end

definition VLogPosition_validate :: "vlog_position \<Rightarrow> unit res" where
  "VLogPosition_validate p =
     (if pos_file_id p > MAX_VLOG_FILE_ID \<or> pos_offset p > MAX_VLOG_FILE_SIZE
      then Err (decode_error Corruption) else Ok ())"

section \<open>Geometry\<close>

record vlog_geometry =
  page_size :: u64
  max_file_size :: u64
  max_file_id :: u32

definition PRODUCTION :: vlog_geometry where
  "PRODUCTION = \<lparr>page_size = VLOG_PAGE_SIZE, max_file_size = MAX_VLOG_FILE_SIZE,
                 max_file_id = MAX_VLOG_FILE_ID\<rparr>"

definition VLogGeometry_validate :: "vlog_geometry \<Rightarrow> unit res" where
  "VLogGeometry_validate g =
     (if page_size g \<le> FIRST_PAGE_RECORD_AREA_START
         \<or> page_size g > VLOG_PAGE_SIZE
         \<or> max_file_size g = 0
         \<or> max_file_size g > MAX_VLOG_FILE_SIZE
         \<or> \<not> is_multiple_of (max_file_size g) (page_size g)
         \<or> max_file_id g > MAX_VLOG_FILE_ID
      then Err (invalid_vlog_error InvalidArgument)
      else and_then (ok_or (checked_div (max_file_size g) (page_size g))
                      (invalid_vlog_error InvalidArgument)) (\<lambda>page_count.
             if page_count = 0 \<or> page_count > 65536
             then Err (invalid_vlog_error InvalidArgument) else Ok ()))"

definition VLogGeometry_test_only :: "u64 \<Rightarrow> u64 \<Rightarrow> u32 \<Rightarrow> vlog_geometry res" where
  "VLogGeometry_test_only psize fsize fid =
     (let geometry = \<lparr>page_size = psize, max_file_size = fsize, max_file_id = fid\<rparr>
      in and_then (VLogGeometry_validate geometry) (\<lambda>_. Ok geometry))"

definition validate_for_decode :: "vlog_geometry \<Rightarrow> unit res" where
  "validate_for_decode g = map_err (\<lambda>_. decode_error Corruption) (VLogGeometry_validate g)"

section \<open>Pages\<close>

definition page_end :: "u64 \<Rightarrow> vlog_geometry \<Rightarrow> u64 res" where
  "page_end offset g =
     (if offset \<ge> max_file_size g then Err (decode_error InvalidLayout)
      else and_then (ok_or (checked_div offset (page_size g)) (decode_error InvalidLayout))
        (\<lambda>page_no.
          ok_or (case checked_add page_no 1 of
                   None \<Rightarrow> None
                 | Some value \<Rightarrow>
                     (case checked_mul value (page_size g) of
                        None \<Rightarrow> None
                      | Some end \<Rightarrow> if end \<le> max_file_size g then Some end else None))
            (decode_error InvalidLayout)))"

definition remaining_in_page :: "u64 \<Rightarrow> vlog_geometry \<Rightarrow> u64 res" where
  "remaining_in_page offset g =
     and_then (page_end offset g) (\<lambda>end.
       ok_or (checked_sub end offset) (decode_error InvalidLayout))"

definition record_area_offset :: "u64 \<Rightarrow> vlog_geometry \<Rightarrow> u64" where
  "record_area_offset offset g =
     (if offset < page_size g then FIRST_PAGE_RECORD_AREA_START
      else OTHER_PAGE_RECORD_AREA_OFFSET)"

definition validate_record_start :: "vlog_position \<Rightarrow> vlog_geometry \<Rightarrow> unit res" where
  "validate_record_start position g =
     (if pos_file_id position > max_file_id g \<or> pos_offset position \<ge> max_file_size g
      then Err (decode_error InvalidLayout)
      else let page_offset = pos_offset position mod page_size g in
           if page_offset < record_area_offset (pos_offset position) g
           then Err (decode_error InvalidLayout) else Ok ())"

definition validate_record_bounds :: "bytes \<Rightarrow> vlog_position \<Rightarrow> vlog_geometry \<Rightarrow> unit res" where
  "validate_record_bounds encoded record_start g =
     and_then (map_err (\<lambda>_. decode_error Corruption) (validate_record_start record_start g)) (\<lambda>_.
     and_then (ok_or (u64_try_from (length encoded)) (decode_error Corruption)) (\<lambda>encoded_len.
     and_then (ok_or (checked_add (pos_offset record_start) encoded_len)
                (decode_error Corruption)) (\<lambda>record_end.
       if record_end > max_file_size g then Err (decode_error Corruption)
       else and_then (page_end (pos_offset record_start) g) (\<lambda>end.
              if record_end > end then Err (decode_error Corruption) else Ok ()))))"

definition validate_transaction_record_end :: "vlog_position \<Rightarrow> vlog_geometry \<Rightarrow> unit res" where
  "validate_transaction_record_end record_end g =
     (if pos_file_id record_end > max_file_id g \<or> pos_offset record_end > max_file_size g
      then Err (decode_error Corruption)
      else if pos_offset record_end = max_file_size g
              \<or> is_multiple_of (pos_offset record_end) (page_size g)
      then Ok ()
      else and_then (map_err (\<lambda>_. decode_error Corruption)
                      (remaining_in_page (pos_offset record_end) g)) (\<lambda>remaining.
             if remaining < ucast PAGE_END_MIN_SIZE then Err (decode_error Corruption) else Ok ()))"

record physical_chunk =
  chunk_position :: vlog_position
  chunk_bytes :: bytes

definition chunk_end :: "physical_chunk \<Rightarrow> vlog_geometry \<Rightarrow> vlog_position res" where
  "chunk_end chunk g =
     (if pos_file_id (chunk_position chunk) > max_file_id g then Err (decode_error Corruption)
      else and_then (ok_or (u64_try_from (length (chunk_bytes chunk))) (decode_error Corruption))
        (\<lambda>len.
        and_then (ok_or (checked_add (pos_offset (chunk_position chunk)) len)
                   (decode_error Corruption)) (\<lambda>offset.
          if offset > max_file_size g then Err (decode_error Corruption)
          else Ok (VLogPosition (pos_file_id (chunk_position chunk)) offset))))"

definition next_chunk_position :: "vlog_position \<Rightarrow> vlog_geometry \<Rightarrow> vlog_position res" where
  "next_chunk_position previous_end g =
     (if pos_offset previous_end < max_file_size g then Ok previous_end
      else if pos_offset previous_end \<noteq> max_file_size g
              \<or> pos_file_id previous_end \<ge> max_file_id g
      then Err (decode_error Corruption)
      else and_then (ok_or (checked_add (pos_file_id previous_end) 1) (decode_error Corruption))
             (\<lambda>file_id. Ok (VLogPosition file_id 0)))"

section \<open>Page arithmetic over natural numbers\<close>

definition geometry_ok :: "vlog_geometry \<Rightarrow> bool" where
  "geometry_ok g \<longleftrightarrow> 64 < unat (page_size g) \<and> unat (page_size g) \<le> 65536
     \<and> 0 < unat (max_file_size g) \<and> unat (max_file_size g) \<le> 4294967296
     \<and> unat (page_size g) dvd unat (max_file_size g)
     \<and> unat (max_file_size g) div unat (page_size g) \<le> 65536
     \<and> unat (max_file_id g) \<le> 999999"

lemmas word_nat_simps = word_le_nat_alt word_less_nat_alt unat_div_distrib unat_mod_distrib

lemma is_multiple_of_nat: "is_multiple_of a b \<longleftrightarrow> unat b dvd unat a"
  by (auto simp: is_multiple_of_def word_unat_eq_iff unat_mod_distrib mod_eq_0_iff_dvd
      simp flip: unat_eq_zero)

lemma VLogGeometry_validate_Ok: "VLogGeometry_validate g = Ok u \<longleftrightarrow> geometry_ok g"
  by (auto simp: VLogGeometry_validate_def geometry_ok_def result_simps checked_div_def vlog_consts
      is_multiple_of_nat word_nat_simps word_unat_eq_iff)

lemma geometry_okD:
  assumes "geometry_ok g"
  shows "64 < unat (page_size g)" "unat (page_size g) \<le> 65536"
    "unat (max_file_size g) \<le> 4294967296" "unat (page_size g) dvd unat (max_file_size g)"
    "unat (max_file_id g) \<le> 999999" "0 < unat (max_file_size g)"
    "unat (max_file_size g) div unat (page_size g) \<le> 65536" "page_size g \<noteq> 0"
  using assms by (auto simp: geometry_ok_def simp flip: unat_eq_zero)

definition npage_end :: "nat \<Rightarrow> nat \<Rightarrow> nat" where
  "npage_end p n = (n div p + 1) * p"

lemma npage_end_eq: "npage_end p n = n - n mod p + p"
  by (simp add: npage_end_def minus_mod_eq_div_mult algebra_simps)

lemma npage_end_gt:
  assumes "0 < p"
  shows "n < npage_end p n"
  using mod_less_divisor [OF assms, of n] mod_less_eq_dividend [of n p]
  unfolding npage_end_eq by linarith

lemma npage_end_le: "0 < p \<Longrightarrow> p dvd m \<Longrightarrow> n < m \<Longrightarrow> npage_end p n \<le> m"
  by (elim dvdE) (simp add: npage_end_def div_less_iff_less_mult mult.commute Suc_le_eq
      flip: mult_Suc_right)

lemma npage_end_remaining:
  assumes "0 < p"
  shows "npage_end p n - n = p - n mod p"
  using mod_less_divisor [OF assms, of n] mod_less_eq_dividend [of n p]
  unfolding npage_end_eq by linarith

lemma page_end_eval:
  assumes "geometry_ok g" and "unat offset < unat (max_file_size g)"
  shows "page_end offset g = Ok (word_of_nat (npage_end (unat (page_size g)) (unat offset)))"
proof -
  let ?p = "unat (page_size g)" and ?o = "unat offset" and ?m = "unat (max_file_size g)"
  note G = geometry_okD [OF assms(1)]
  have "npage_end ?p ?o \<le> ?m"
    using G assms(2) by (intro npage_end_le) auto
  then have le: "npage_end ?p ?o \<le> 4294967296" using G by simp
  have d: "unat (offset div page_size g) = ?o div ?p" by (simp add: unat_div_distrib)
  have "?o div ?p < 4294967296" using G assms(2) div_le_dividend [of ?o ?p] by linarith
  then have a: "unat (offset div page_size g + 1) = ?o div ?p + 1"
    by (subst unat_add_no_overflow) (simp_all add: d)
  have m: "unat ((offset div page_size g + 1) * page_size g) = npage_end ?p ?o"
    by (subst unat_mult_no_overflow) (use le in \<open>simp_all only: a npage_end_def, simp\<close>)
  have w: "(offset div page_size g + 1) * page_size g = word_of_nat (npage_end ?p ?o)"
    by (simp flip: m)
  have ca: "checked_add (offset div page_size g) 1 = Some (offset div page_size g + 1)"
    using \<open>?o div ?p < 4294967296\<close> by (simp add: checked_add_def d)
  have "(?o div ?p + 1) * ?p < 2 ^ LENGTH(64)"
    using le by (simp only: npage_end_def) simp
  then have cm: "checked_mul (offset div page_size g + 1) (page_size g)
      = Some ((offset div page_size g + 1) * page_size g)"
    by (simp only: checked_mul_def a if_True)
  show ?thesis
    using G assms(2) \<open>npage_end ?p ?o \<le> ?m\<close> le
    by (simp add: page_end_def checked_div_def ca cm word_nat_simps m w del: of_nat_add of_nat_mult)
qed

lemma unat_npage_end:
  assumes "geometry_ok g" and "n < unat (max_file_size g)"
  shows "unat (word_of_nat (npage_end (unat (page_size g)) n) :: u64) = npage_end (unat (page_size g)) n"
proof -
  have "npage_end (unat (page_size g)) n \<le> unat (max_file_size g)"
    using geometry_okD [OF assms(1)] assms(2) by (intro npage_end_le) auto
  then show ?thesis using geometry_okD(3) [OF assms(1)] by simp
qed

lemma remaining_in_page_eval:
  assumes "geometry_ok g" and "unat offset < unat (max_file_size g)"
  shows "remaining_in_page offset g =
    Ok (word_of_nat (unat (page_size g) - unat offset mod unat (page_size g)))"
proof -
  let ?p = "unat (page_size g)" and ?o = "unat offset"
  have "0 < ?p" using geometry_okD(1) [OF assms(1)] by simp
  let ?e = "word_of_nat (npage_end ?p ?o) :: u64"
  have le: "offset \<le> ?e"
    using npage_end_gt [OF \<open>0 < ?p\<close>, of ?o] by (simp add: word_le_nat_alt unat_npage_end [OF assms])
  then have r: "unat (?e - offset) = ?p - ?o mod ?p"
    using npage_end_remaining [OF \<open>0 < ?p\<close>, of ?o] by (simp add: unat_sub unat_npage_end [OF assms])
  have "?e - offset = word_of_nat (?p - ?o mod ?p)"
    by (simp flip: r)
  with le show ?thesis
    by (simp add: remaining_in_page_def page_end_eval [OF assms] checked_sub_def)
qed

section \<open>Record positions\<close>

text \<open>Where a record may start, and where a transaction record may end.\<close>

definition record_area_ok :: "vlog_geometry \<Rightarrow> nat \<Rightarrow> bool" where
  "record_area_ok g n \<longleftrightarrow>
     (if n < unat (page_size g) then 64 else 16) \<le> n mod unat (page_size g)"

lemma record_area_offset_nat:
  "unat (record_area_offset offset g) = (if unat offset < unat (page_size g) then 64 else 16)"
  by (simp add: record_area_offset_def vlog_consts word_less_nat_alt)

lemma validate_record_start_Ok:
  "validate_record_start pos g = Ok u \<longleftrightarrow>
     unat (pos_file_id pos) \<le> unat (max_file_id g) \<and> unat (pos_offset pos) < unat (max_file_size g)
     \<and> record_area_ok g (unat (pos_offset pos))"
  by (auto simp: validate_record_start_def record_area_ok_def word_nat_simps record_area_offset_nat)

lemma validate_record_bounds_Ok:
  assumes "geometry_ok g"
  shows "validate_record_bounds bs pos g = Ok u \<longleftrightarrow>
     validate_record_start pos g = Ok ()
     \<and> unat (pos_offset pos) + length bs \<le> npage_end (unat (page_size g)) (unat (pos_offset pos))"
proof (cases "validate_record_start pos g")
  case (Err e)
  then show ?thesis by (simp add: validate_record_bounds_def)
next
  case (Ok x)
  let ?o = "unat (pos_offset pos)" and ?p = "unat (page_size g)" and ?m = "unat (max_file_size g)"
  have lt: "?o < ?m" using Ok by (simp add: validate_record_start_Ok)
  note G = geometry_okD [OF assms]
  have le: "npage_end ?p ?o \<le> ?m" using G lt by (intro npage_end_le) auto
  have "unat (word_of_nat (npage_end ?p ?o) :: u64) = npage_end ?p ?o"
    by (rule unat_npage_end [OF assms lt])
  then show ?thesis
    using Ok G le lt
    by (auto simp: validate_record_bounds_def result_simps page_end_eval [OF assms lt]
        u64_try_from_def checked_add_Some word_nat_simps unat_add_no_overflow
        split: if_splits)
qed

end
