(* ===== verification/VLogHeaders.thy ===== *)
theory VLogHeaders
  imports VLogBase
begin

text \<open>
  The fixed-layout headers of the value log and the pointers into it
  (\<open>PageHeader\<close>, \<open>VLogFileHeader\<close>, \<open>RecordHeader\<close> and \<open>ValuePointer\<close> of
  \<open>src/vlog/format.rs\<close>). An array that the source zeroes and fills by consecutive
  \<open>copy_from_slice\<close> calls is the concatenation of those fields; the trailing checksum
  covers the bytes before it. Each codec satisfies the interface of fixed-width codecs in both
  directions, so that no two values share bytes and no other bytes are accepted.
\<close>

section \<open>Record types\<close>

datatype record_type = RT_TxBegin | RT_KvRecord | RT_DeleteRecord | RT_TxPreparedEnd | RT_PageEnd

fun record_type_byte :: "record_type \<Rightarrow> u8" where
  "record_type_byte RT_TxBegin = 0x01"
| "record_type_byte RT_KvRecord = 0x02"
| "record_type_byte RT_DeleteRecord = 0x03"
| "record_type_byte RT_TxPreparedEnd = 0x04"
| "record_type_byte RT_PageEnd = 0x05"

definition RecordType_decode :: "u8 \<Rightarrow> record_type res" where
  "RecordType_decode encoded =
     (if encoded = 0x01 then Ok RT_TxBegin
      else if encoded = 0x02 then Ok RT_KvRecord
      else if encoded = 0x03 then Ok RT_DeleteRecord
      else if encoded = 0x04 then Ok RT_TxPreparedEnd
      else if encoded = 0x05 then Ok RT_PageEnd
      else Err (decode_error Corruption))"

lemma RecordType_decode_iff [simp]: "RecordType_decode b = Ok t \<longleftrightarrow> b = record_type_byte t"
  by (cases t) (auto simp: RecordType_decode_def)

lemma RecordType_decode_byte [simp]: "RecordType_decode (record_type_byte t) = Ok t"
  by simp

section \<open>Page headers\<close>

record page_header =
  ph_file_id :: u32
  ph_page_no :: u32

definition with_crc :: "env \<Rightarrow> bytes \<Rightarrow> bytes" where
  "with_crc E body = body @ u32_to_le_bytes (crc32c E body)"

definition PageHeader_encode :: "env \<Rightarrow> page_header \<Rightarrow> bytes res" where
  "PageHeader_encode E h =
     (if ph_file_id h > MAX_VLOG_FILE_ID \<or> ph_page_no h > 65535
      then Err (invalid_vlog_error InvalidArgument)
      else Ok (with_crc E (PAGE_HEADER_MAGIC @ u32_to_le_bytes (ph_file_id h)
                           @ u32_to_le_bytes (ph_page_no h))))"

definition PageHeader_decode :: "env \<Rightarrow> bytes \<Rightarrow> page_header res" where
  "PageHeader_decode E encoded =
     (if length encoded \<noteq> PAGE_HEADER_ENCODED_LEN \<or> slice_get encoded 0 4 \<noteq> Some PAGE_HEADER_MAGIC
      then Err (decode_error Corruption)
      else and_then (read_u32 encoded 12) (\<lambda>stored_crc.
        if crc32c E (take 12 encoded) \<noteq> stored_crc then Err (decode_error Corruption)
        else and_then (read_u32 encoded 4) (\<lambda>file_id.
             and_then (read_u32 encoded 8) (\<lambda>page_no.
               if file_id > MAX_VLOG_FILE_ID \<or> page_no > 65535 then Err (decode_error Corruption)
               else Ok \<lparr>ph_file_id = file_id, ph_page_no = page_no\<rparr>))))"

section \<open>File headers\<close>

record vlog_file_header =
  fh_format_version :: u32
  fh_database_uuid :: uuid
  fh_file_id :: u32
  fh_page_size :: u32
  fh_max_file_size :: u64

definition VLogFileHeader_new :: "uuid \<Rightarrow> u32 \<Rightarrow> vlog_file_header" where
  "VLogFileHeader_new database_uuid file_id =
     \<lparr>fh_format_version = FILE_FORMAT_VERSION, fh_database_uuid = database_uuid,
      fh_file_id = file_id, fh_page_size = ucast VLOG_PAGE_SIZE,
      fh_max_file_size = MAX_VLOG_FILE_SIZE\<rparr>"

definition VLogFileHeader_validate :: "vlog_file_header \<Rightarrow> unit res" where
  "VLogFileHeader_validate h =
     (if fh_format_version h \<noteq> FILE_FORMAT_VERSION then Err (decode_error IncompatibleFormat)
      else if fh_database_uuid h = 0
              \<or> fh_file_id h > MAX_VLOG_FILE_ID
              \<or> fh_page_size h \<noteq> ucast VLOG_PAGE_SIZE
              \<or> fh_max_file_size h \<noteq> MAX_VLOG_FILE_SIZE
      then Err (decode_error Corruption)
      else Ok ())"

definition remap_encode_kind :: "storage_error \<Rightarrow> storage_error" where
  "remap_encode_kind e =
     invalid_vlog_error (if err_kind e = IncompatibleFormat then IncompatibleFormat
                         else InvalidArgument)"

definition VLogFileHeader_encode :: "env \<Rightarrow> vlog_file_header \<Rightarrow> bytes res" where
  "VLogFileHeader_encode E h =
     and_then (map_err remap_encode_kind (VLogFileHeader_validate h)) (\<lambda>_.
       Ok (with_crc E (FILE_HEADER_MAGIC @ u32_to_le_bytes (fh_format_version h)
             @ uuid_bytes (fh_database_uuid h) @ u32_to_le_bytes (fh_file_id h)
             @ u32_to_le_bytes (fh_page_size h) @ u64_to_le_bytes (fh_max_file_size h))))"

definition VLogFileHeader_decode :: "env \<Rightarrow> bytes \<Rightarrow> vlog_file_header res" where
  "VLogFileHeader_decode E encoded =
     (if length encoded \<noteq> FILE_HEADER_ENCODED_LEN \<or> slice_get encoded 0 8 \<noteq> Some FILE_HEADER_MAGIC
      then Err (decode_error Corruption)
      else and_then (read_u32 encoded 44) (\<lambda>stored_crc.
        if crc32c E (take 44 encoded) \<noteq> stored_crc then Err (decode_error Corruption)
        else and_then (read_u32 encoded 8) (\<lambda>format_version.
          if format_version \<noteq> FILE_FORMAT_VERSION then Err (decode_error IncompatibleFormat)
          else and_then (read_array_16 encoded 12) (\<lambda>database_uuid.
               and_then (read_u32 encoded 28) (\<lambda>file_id.
               and_then (read_u32 encoded 32) (\<lambda>psize.
               and_then (read_u64 encoded 36) (\<lambda>max_size.
                 let header = \<lparr>fh_format_version = format_version,
                               fh_database_uuid = database_uuid, fh_file_id = file_id,
                               fh_page_size = psize, fh_max_file_size = max_size\<rparr>
                 in and_then (VLogFileHeader_validate header) (\<lambda>_. Ok header))))))))"

section \<open>Record headers\<close>

record record_header =
  rh_format_version :: u16
  rh_record_type :: record_type
  rh_encoded_len :: u32
  rh_commit_seq :: u64
  rh_tx_uuid :: uuid

definition RecordHeader_new :: "record_type \<Rightarrow> u32 \<Rightarrow> u64 \<Rightarrow> uuid \<Rightarrow> record_header" where
  "RecordHeader_new type encoded_len commit_seq tx_uuid =
     \<lparr>rh_format_version = VLOG_FORMAT_VERSION, rh_record_type = type,
      rh_encoded_len = encoded_len, rh_commit_seq = commit_seq, rh_tx_uuid = tx_uuid\<rparr>"

definition RecordHeader_validate :: "record_header \<Rightarrow> unit res" where
  "RecordHeader_validate h =
     (if rh_format_version h \<noteq> VLOG_FORMAT_VERSION then Err (decode_error IncompatibleFormat)
      else if rh_commit_seq h = 0 \<or> rh_tx_uuid h = 0 then Err (decode_error Corruption)
      else Ok ())"

definition RecordHeader_encode :: "env \<Rightarrow> record_header \<Rightarrow> bytes res" where
  "RecordHeader_encode E h =
     and_then (map_err remap_encode_kind (RecordHeader_validate h)) (\<lambda>_.
       Ok (with_crc E (RECORD_HEADER_MAGIC @ u16_to_le_bytes (rh_format_version h)
             @ [record_type_byte (rh_record_type h)] @ u32_to_le_bytes (rh_encoded_len h)
             @ u64_to_le_bytes (rh_commit_seq h) @ uuid_bytes (rh_tx_uuid h))))"

definition RecordHeader_decode :: "env \<Rightarrow> bytes \<Rightarrow> record_header res" where
  "RecordHeader_decode E encoded =
     (if length encoded < RECORD_HEADER_ENCODED_LEN
         \<or> slice_get encoded 0 4 \<noteq> Some RECORD_HEADER_MAGIC
      then Err (decode_error Corruption)
      else and_then (read_u32 encoded 35) (\<lambda>stored_crc.
        if crc32c E (take 35 encoded) \<noteq> stored_crc then Err (decode_error Corruption)
        else and_then (read_u16 encoded 4) (\<lambda>format_version.
          if format_version \<noteq> VLOG_FORMAT_VERSION then Err (decode_error IncompatibleFormat)
          else and_then (ok_or (list_get encoded 6) (decode_error Corruption)) (\<lambda>tag.
               and_then (RecordType_decode tag) (\<lambda>type.
               and_then (read_u32 encoded 7) (\<lambda>encoded_len.
               and_then (read_u64 encoded 11) (\<lambda>commit_seq.
               and_then (read_array_16 encoded 19) (\<lambda>tx_uuid.
                 let header = \<lparr>rh_format_version = format_version, rh_record_type = type,
                               rh_encoded_len = encoded_len, rh_commit_seq = commit_seq,
                               rh_tx_uuid = tx_uuid\<rparr>
                 in and_then (RecordHeader_validate header) (\<lambda>_. Ok header)))))))))"

section \<open>Value pointers\<close>

record value_pointer =
  vp_format_version :: u16
  vp_file_id :: u32
  vp_record_offset :: u32
  vp_record_len :: u32
  vp_value_len :: u16

record value_pointer_layout =
  vl_key_len :: u16
  vl_value_relative_offset :: u32
  vl_value_start :: u64
  vl_value_end :: u64
  vl_record_end :: u64

definition ValuePointer_validate_fields :: "value_pointer \<Rightarrow> unit res" where
  "ValuePointer_validate_fields p =
     (if vp_format_version p \<noteq> VALUE_POINTER_FORMAT_VERSION
      then Err (decode_error IncompatibleFormat)
      else if vp_file_id p > MAX_VLOG_FILE_ID
              \<or> vp_record_len p < MIN_KV_RECORD_LEN
              \<or> vp_record_len p > MAX_KV_RECORD_LEN
              \<or> (ucast (vp_value_len p) :: u32) > MAX_KEY_VALUE_SIZE
      then Err (decode_error Corruption)
      else and_then (ok_or (checked_sub (vp_record_len p) KV_RECORD_FIXED_LEN_WITH_CRC)
                      (decode_error Corruption)) (\<lambda>payload_len.
           and_then (ok_or (checked_sub payload_len (ucast (vp_value_len p)))
                      (decode_error Corruption)) (\<lambda>key_len.
           and_then (ok_or (checked_add key_len (ucast (vp_value_len p)))
                      (decode_error Corruption)) (\<lambda>total.
             if key_len = 0 \<or> total > MAX_KEY_VALUE_SIZE then Err (decode_error Corruption)
             else Ok ()))))"

definition ValuePointer_encode :: "value_pointer \<Rightarrow> bytes res" where
  "ValuePointer_encode p =
     and_then (map_err (\<lambda>_. encode_error) (ValuePointer_validate_fields p)) (\<lambda>_.
       Ok (u16_to_le_bytes (vp_format_version p) @ u32_to_le_bytes (vp_file_id p)
           @ u32_to_le_bytes (vp_record_offset p) @ u32_to_le_bytes (vp_record_len p)
           @ u16_to_le_bytes (vp_value_len p)))"

definition ValuePointer_decode :: "bytes \<Rightarrow> value_pointer res" where
  "ValuePointer_decode encoded =
     (if length encoded \<noteq> VALUE_POINTER_ENCODED_LEN then Err (decode_error Corruption)
      else let format_version = u16_from_le_bytes (take 2 encoded) in
        if format_version \<noteq> VALUE_POINTER_FORMAT_VERSION then Err (decode_error IncompatibleFormat)
        else let pointer = \<lparr>vp_format_version = format_version,
                            vp_file_id = u32_from_le_bytes (take 4 (drop 2 encoded)),
                            vp_record_offset = u32_from_le_bytes (take 4 (drop 6 encoded)),
                            vp_record_len = u32_from_le_bytes (take 4 (drop 10 encoded)),
                            vp_value_len = u16_from_le_bytes (take 2 (drop 14 encoded))\<rparr>
             in and_then (ValuePointer_validate_fields pointer) (\<lambda>_. Ok pointer))"

definition ValuePointer_layout :: "value_pointer \<Rightarrow> value_pointer_layout res" where
  "ValuePointer_layout p =
     and_then (ValuePointer_validate_fields p) (\<lambda>_.
     and_then (ok_or (checked_sub (vp_record_len p) KV_RECORD_FIXED_LEN_WITH_CRC)
                (decode_error Corruption)) (\<lambda>payload_len.
     and_then (ok_or (checked_sub payload_len (ucast (vp_value_len p)))
                (decode_error Corruption)) (\<lambda>key_len.
     and_then (ok_or (u16_try_from (unat key_len)) (decode_error Corruption)) (\<lambda>key_len_u16.
     and_then (ok_or (case checked_sub (vp_record_len p) RECORD_CRC_LEN of
                        None \<Rightarrow> None
                      | Some len \<Rightarrow> checked_sub len (ucast (vp_value_len p)))
                (decode_error Corruption)) (\<lambda>value_relative_offset.
     let record_start = (ucast (vp_record_offset p) :: u64) in
     and_then (ok_or (checked_add record_start (ucast (vp_record_len p)))
                (decode_error Corruption)) (\<lambda>record_end.
     and_then (ok_or (checked_add record_start (ucast value_relative_offset))
                (decode_error Corruption)) (\<lambda>value_start.
     and_then (ok_or (checked_sub record_end (ucast RECORD_CRC_LEN))
                (decode_error Corruption)) (\<lambda>value_end.
       Ok \<lparr>vl_key_len = key_len_u16, vl_value_relative_offset = value_relative_offset,
           vl_value_start = value_start, vl_value_end = value_end,
           vl_record_end = record_end\<rparr>))))))))"

definition ValuePointer_validate_file_bounds :: "value_pointer \<Rightarrow> u64 \<Rightarrow> value_pointer_layout res" where
  "ValuePointer_validate_file_bounds p file_st_size =
     and_then (ValuePointer_layout p) (\<lambda>layout.
       if file_st_size > MAX_VLOG_FILE_SIZE
          \<or> vl_record_end layout > MAX_VLOG_FILE_SIZE
          \<or> vl_record_end layout > file_st_size
       then Err (decode_error Corruption)
       else
         let record_start = (ucast (vp_record_offset p) :: u64);
             page_no = record_start div VLOG_PAGE_SIZE in
         and_then (ok_or (checked_mul page_no VLOG_PAGE_SIZE) (decode_error Corruption))
           (\<lambda>page_start.
         and_then (if page_no = 0 then Ok FIRST_PAGE_RECORD_AREA_START
                   else ok_or (checked_add page_start OTHER_PAGE_RECORD_AREA_OFFSET)
                          (decode_error Corruption)) (\<lambda>record_area_start.
         and_then (ok_or (checked_add page_start VLOG_PAGE_SIZE) (decode_error Corruption))
           (\<lambda>page_end.
           if record_start < record_area_start \<or> vl_record_end layout > page_end
           then Err (decode_error Corruption) else Ok layout))))"

section \<open>Both directions of the header codecs\<close>

lemma with_crc_simps [simp]:
  "length (with_crc E body) = length body + 4"
  "take (length body) (with_crc E body) = body"
  by (simp_all add: with_crc_def)

lemma usize_max_big [simp]: "n \<le> 1000000 \<Longrightarrow> n \<le> usize_max"
  by (simp add: usize_max_def)

lemmas header_defs = PageHeader_encode_def PageHeader_decode_def VLogFileHeader_encode_def
  VLogFileHeader_decode_def VLogFileHeader_validate_def RecordHeader_encode_def
  RecordHeader_decode_def RecordHeader_validate_def with_crc_def read_defs
  PAGE_HEADER_ENCODED_LEN_def FILE_HEADER_ENCODED_LEN_def RECORD_HEADER_ENCODED_LEN_def

lemma PageHeader_dec_enc: "PageHeader_encode E h = Ok bs \<Longrightarrow> PageHeader_decode E bs = Ok h"
  by (auto simp: header_defs codec_simps split: if_splits)

lemma VLogFileHeader_dec_enc:
  "VLogFileHeader_encode E h = Ok bs \<Longrightarrow> VLogFileHeader_decode E bs = Ok h"
  by (auto simp: header_defs codec_simps result_simps split: if_splits)

lemma RecordHeader_encode_Ok:
  "RecordHeader_encode E h = Ok bs \<longleftrightarrow>
     rh_format_version h = VLOG_FORMAT_VERSION \<and> rh_commit_seq h \<noteq> 0 \<and> rh_tx_uuid h \<noteq> 0
     \<and> bs = with_crc E (RECORD_HEADER_MAGIC @ u16_to_le_bytes (rh_format_version h)
             @ [record_type_byte (rh_record_type h)] @ u32_to_le_bytes (rh_encoded_len h)
             @ u64_to_le_bytes (rh_commit_seq h) @ uuid_bytes (rh_tx_uuid h))"
  by (auto simp: RecordHeader_encode_def RecordHeader_validate_def result_simps)

lemma RecordHeader_dec_enc:
  assumes "RecordHeader_encode E h = Ok bs"
  shows "RecordHeader_decode E (bs @ rest) = Ok h"
proof -
  have v: "rh_format_version h = VLOG_FORMAT_VERSION" "rh_commit_seq h \<noteq> 0" "rh_tx_uuid h \<noteq> 0"
    and bs: "bs = with_crc E (RECORD_HEADER_MAGIC @ u16_to_le_bytes VLOG_FORMAT_VERSION
             @ [record_type_byte (rh_record_type h)] @ u32_to_le_bytes (rh_encoded_len h)
             @ u64_to_le_bytes (rh_commit_seq h) @ uuid_bytes (rh_tx_uuid h))"
    using assms by (simp_all add: RecordHeader_encode_Ok)
  show ?thesis
    unfolding bs RecordHeader_decode_def using v
    by (simp add: with_crc_def read_defs codec_simps nth_append RecordHeader_validate_def
        RECORD_HEADER_ENCODED_LEN_def del: split_paired_All)
qed

lemma with_crc_take:
  "length bs = n + 4 \<Longrightarrow> crc32c E (take n bs) = u32_from_le_bytes (take 4 (drop n bs)) \<Longrightarrow>
   with_crc E (take n bs) = bs"
  by (simp add: with_crc_def to_from_bytes)

lemma PageHeader_enc_dec:
  assumes "PageHeader_decode E bs = Ok h"
  shows "PageHeader_encode E h = Ok bs"
proof -
  have len: "length bs = 16" and crc: "with_crc E (take 12 bs) = bs"
    using assms by (auto simp: PageHeader_decode_def PAGE_HEADER_ENCODED_LEN_def result_simps
        read_defs read_range_Ok intro!: with_crc_take split: if_splits)
  show ?thesis
    using assms len concat_fields [of "[4, 4, 4]" bs]
    by (auto simp: PageHeader_decode_def PageHeader_encode_def PAGE_HEADER_ENCODED_LEN_def crc
        result_simps read_defs read_range_Ok to_from_bytes split: if_splits)
qed

lemma VLogFileHeader_enc_dec:
  assumes "VLogFileHeader_decode E bs = Ok h"
  shows "VLogFileHeader_encode E h = Ok bs"
proof -
  have len: "length bs = 48" and crc: "with_crc E (take 44 bs) = bs"
    using assms by (auto simp: VLogFileHeader_decode_def FILE_HEADER_ENCODED_LEN_def result_simps
        read_defs read_range_Ok intro!: with_crc_take split: if_splits)
  have h: "h = \<lparr>fh_format_version = u32_from_le_bytes (take 4 (drop 8 bs)),
      fh_database_uuid = uuid_of_bytes (take 16 (drop 12 bs)),
      fh_file_id = u32_from_le_bytes (take 4 (drop 28 bs)),
      fh_page_size = u32_from_le_bytes (take 4 (drop 32 bs)),
      fh_max_file_size = u64_from_le_bytes (take 8 (drop 36 bs))\<rparr>"
    and v: "VLogFileHeader_validate h = Ok ()" and m: "take 8 bs = FILE_HEADER_MAGIC"
    using assms by (auto simp: VLogFileHeader_decode_def FILE_HEADER_ENCODED_LEN_def result_simps
        read_defs read_range_Ok Let_def split: if_splits)
  show ?thesis
    unfolding VLogFileHeader_encode_def using v len m concat_fields [of "[8, 4, 16, 4, 4, 8]" bs]
    by (simp add: h to_from_bytes crc)
qed

lemma RecordHeader_decode_Ok:
  assumes "RecordHeader_decode E bs = Ok h"
  shows "39 \<le> length bs" and "RecordHeader_encode E h = Ok (take 39 bs)"
    and "RecordHeader_validate h = Ok ()"
proof -
  show len: "39 \<le> length bs"
    using assms by (simp add: RecordHeader_decode_def RECORD_HEADER_ENCODED_LEN_def split: if_splits)
  have crc: "with_crc E (take 35 bs) = take 39 bs" and m: "take 4 bs = RECORD_HEADER_MAGIC"
    and t: "bs ! 6 = record_type_byte (rh_record_type h)"
    and h: "u16_to_le_bytes (rh_format_version h) = take 2 (drop 4 bs)"
      "u32_to_le_bytes (rh_encoded_len h) = take 4 (drop 7 bs)"
      "u64_to_le_bytes (rh_commit_seq h) = take 8 (drop 11 bs)"
      "uuid_bytes (rh_tx_uuid h) = take 16 (drop 19 bs)"
    and v: "RecordHeader_validate h = Ok ()"
    using assms len with_crc_take [of "take 39 bs" 35 E]
    by (auto simp: RecordHeader_decode_def RECORD_HEADER_ENCODED_LEN_def result_simps
        read_defs read_range_Ok Let_def to_from_bytes from_bytes_eq_iff list_get_eq_Some drop_take
        min_def
        split: if_splits)
  show "RecordHeader_validate h = Ok ()" by (rule v)
  have "take 1 (drop 6 bs) = [bs ! 6]"
    using len by (simp flip: Cons_nth_drop_Suc)
  then show "RecordHeader_encode E h = Ok (take 39 bs)"
    unfolding RecordHeader_encode_def using v m concat_fields [of "[4, 2, 1, 4, 8, 16]" bs]
    by (simp add: h crc t [symmetric])
qed

section \<open>Pointers\<close>

definition pointer_ok :: "value_pointer \<Rightarrow> bool" where
  "pointer_ok p \<longleftrightarrow> vp_format_version p = 0 \<and> unat (vp_file_id p) \<le> 999999
     \<and> 56 + unat (vp_value_len p) \<le> unat (vp_record_len p) \<and> unat (vp_record_len p) \<le> 60055"

lemma unat_ucast_up [simp]:
  assumes "LENGTH('a) \<le> LENGTH('b)"
  shows "unat (ucast (w :: 'a::len word) :: 'b::len word) = unat w"
proof -
  have "unat w < 2 ^ LENGTH('b)"
    by (rule less_le_trans [OF unat_less_2p power_increasing [OF assms]]) simp
  then show ?thesis by (simp add: unsigned_ucast_eq take_bit_nat_eq_self_iff)
qed

lemma ValuePointer_validate_fields_Ok: "ValuePointer_validate_fields p = Ok u \<longleftrightarrow> pointer_ok p"
  by (auto simp: ValuePointer_validate_fields_def pointer_ok_def vlog_consts
      checked_sub_def checked_add_def word_nat_simps unat_sub unat_add_no_overflow
      simp flip: unat_eq_zero split: if_splits)

lemma ValuePointer_dec_enc: "ValuePointer_encode p = Ok bs \<Longrightarrow> ValuePointer_decode bs = Ok p"
  by (auto simp: ValuePointer_encode_def ValuePointer_decode_def result_simps Let_def
      ValuePointer_validate_fields_Ok VALUE_POINTER_ENCODED_LEN_def
      VALUE_POINTER_FORMAT_VERSION_def pointer_ok_def)

lemma ValuePointer_enc_dec:
  assumes "ValuePointer_decode bs = Ok p"
  shows "ValuePointer_encode p = Ok bs"
proof -
  have "length bs = 16"
    using assms by (simp add: ValuePointer_decode_def VALUE_POINTER_ENCODED_LEN_def split: if_splits)
  with assms concat_fields [of "[2, 4, 4, 4, 2]" bs] show ?thesis
    by (auto simp: ValuePointer_encode_def ValuePointer_decode_def result_simps Let_def
        from_bytes_eq_iff to_from_bytes split: if_splits)
qed

lemma ValuePointer_encode_Ok: "is_ok (ValuePointer_encode p) \<longleftrightarrow> pointer_ok p"
  by (auto simp: ValuePointer_encode_def is_ok_iff result_simps ValuePointer_validate_fields_Ok)

lemma encoded_widths:
  "PageHeader_encode E h = Ok bs \<Longrightarrow> length bs = 16"
  "VLogFileHeader_encode E f = Ok bs \<Longrightarrow> length bs = 48"
  "RecordHeader_encode E r = Ok bs \<Longrightarrow> length bs = 39"
  "ValuePointer_encode p = Ok bs \<Longrightarrow> length bs = 16"
  by (auto simp: PageHeader_encode_def VLogFileHeader_encode_def RecordHeader_encode_def
      ValuePointer_encode_def result_simps split: if_splits)

interpretation ph: fixed_codec "PageHeader_encode E" "PageHeader_decode E" 16 for E
  by unfold_locales (rule PageHeader_dec_enc PageHeader_enc_dec encoded_widths, assumption)+

interpretation fh: fixed_codec "VLogFileHeader_encode E" "VLogFileHeader_decode E" 48 for E
  by unfold_locales (rule VLogFileHeader_dec_enc VLogFileHeader_enc_dec encoded_widths, assumption)+

interpretation vp: fixed_codec ValuePointer_encode ValuePointer_decode 16
  by unfold_locales (rule ValuePointer_dec_enc ValuePointer_enc_dec encoded_widths, assumption)+

text \<open>
  The layout of an accepted pointer: the key and value it implies fill the record exactly, and
  the value ends where the record checksum starts.
\<close>

lemma ValuePointer_layout_Ok:
  assumes "pointer_ok p"
  obtains l where "ValuePointer_layout p = Ok l"
    "unat (vl_key_len l) + unat (vp_value_len p) + 55 = unat (vp_record_len p)"
    "0 < unat (vl_key_len l)"
    "unat (vl_value_relative_offset l) = 51 + unat (vl_key_len l)"
    "unat (vl_value_start l) = unat (vp_record_offset p) + 51 + unat (vl_key_len l)"
    "unat (vl_value_end l) = unat (vl_value_start l) + unat (vp_value_len p)"
    "unat (vl_record_end l) = unat (vp_record_offset p) + unat (vp_record_len p)"
proof -
  let ?kl = "vp_record_len p - 55 - ucast (vp_value_len p)"
  let ?ro = "vp_record_len p - 4 - ucast (vp_value_len p)"
  have b: "56 + unat (vp_value_len p) \<le> unat (vp_record_len p)" "unat (vp_record_len p) \<le> 60055"
    using assms by (auto simp: pointer_ok_def)
  have lt: "unat (vp_record_offset p) < 4294967296"
    using unat_less_2p [of "vp_record_offset p"] by simp
  have kl: "unat ?kl = unat (vp_record_len p) - 55 - unat (vp_value_len p)"
    using b by (simp add: unat_sub word_nat_simps)
  have ro: "unat ?ro = unat (vp_record_len p) - 4 - unat (vp_value_len p)"
    using b by (simp add: unat_sub word_nat_simps)
  let ?stop = "ucast (vp_record_offset p) + ucast (vp_record_len p) :: u64"
  have e: "unat ?stop = unat (vp_record_offset p) + unat (vp_record_len p)"
    using b lt by (subst unat_add_no_overflow) auto
  have v: "ValuePointer_validate_fields p = Ok ()"
    using assms by (simp add: ValuePointer_validate_fields_Ok)
  have c: "checked_sub (vp_record_len p) 55 = Some (vp_record_len p - 55)"
    "checked_sub (vp_record_len p - 55) (ucast (vp_value_len p)) = Some ?kl"
    "checked_sub (vp_record_len p) 4 = Some (vp_record_len p - 4)"
    "checked_sub (vp_record_len p - 4) (ucast (vp_value_len p)) = Some ?ro"
    using b by (auto simp: checked_sub_def word_nat_simps unat_sub)
  obtain K where k: "u16_try_from (unat ?kl) = Some K"
    and K: "unat K = unat (vp_record_len p) - 55 - unat (vp_value_len p)"
    using b by (auto simp: kl intro: u16_try_from_small [of "unat ?kl"])
  have d: "checked_add (ucast (vp_record_offset p) :: u64) (ucast (vp_record_len p)) = Some ?stop"
    "checked_add (ucast (vp_record_offset p) :: u64) (ucast ?ro)
       = Some (ucast (vp_record_offset p) + ucast ?ro)"
    "checked_sub ?stop 4 = Some (?stop - 4)"
    using b lt by (auto simp: checked_add_def checked_sub_def word_nat_simps ro e)
  have "ValuePointer_layout p = Ok \<lparr>vl_key_len = K,
      vl_value_relative_offset = ?ro, vl_value_start = ucast (vp_record_offset p) + ucast ?ro,
      vl_value_end = ?stop - 4, vl_record_end = ?stop\<rparr>"
    unfolding ValuePointer_layout_def KV_RECORD_FIXED_LEN_WITH_CRC_def RECORD_CRC_LEN_def
    by (simp only: v c k d and_then.simps ok_or.simps option.case Let_def) (simp add: d)
  then show thesis
    by (rule that) (use b lt in \<open>simp_all add: K ro e unat_sub word_nat_simps unat_add_no_overflow\<close>)
qed

text \<open>
  C19: page headers, file headers and value pointers. For each of the three, decoding accepts
  exactly the encodings, whatever the checksum function.
\<close>

theorem header_codecs_exact:
  "(PageHeader_decode E bs = Ok h \<longleftrightarrow> PageHeader_encode E h = Ok bs)
   \<and> (VLogFileHeader_decode E bs = Ok f \<longleftrightarrow> VLogFileHeader_encode E f = Ok bs)
   \<and> (ValuePointer_decode bs = Ok p \<longleftrightarrow> ValuePointer_encode p = Ok bs)"
  by (intro conjI ph.dec_iff_enc fh.dec_iff_enc vp.dec_iff_enc)

text \<open>
  C20: the layout a pointer implies. A pointer whose fields are accepted has a layout; the key and
  the value fill the record up to its fixed part, the value starts behind the key and ends where
  the record checksum starts, and no offset wraps around.
\<close>

theorem pointer_layout_fills_record:
  "is_ok (ValuePointer_encode p) \<longleftrightarrow>
    (\<exists>l. ValuePointer_layout p = Ok l \<and> 0 < unat (vl_key_len l)
      \<and> unat (vl_key_len l) + unat (vp_value_len p) + 55 = unat (vp_record_len p)
      \<and> unat (vl_value_start l) = unat (vp_record_offset p) + 51 + unat (vl_key_len l)
      \<and> unat (vl_value_end l) = unat (vl_value_start l) + unat (vp_value_len p)
      \<and> unat (vl_record_end l) = unat (vl_value_end l) + 4)"
proof (cases "pointer_ok p")
  case True
  then obtain l where "ValuePointer_layout p = Ok l"
    "unat (vl_key_len l) + unat (vp_value_len p) + 55 = unat (vp_record_len p)"
    "0 < unat (vl_key_len l)"
    "unat (vl_value_start l) = unat (vp_record_offset p) + 51 + unat (vl_key_len l)"
    "unat (vl_value_end l) = unat (vl_value_start l) + unat (vp_value_len p)"
    "unat (vl_record_end l) = unat (vp_record_offset p) + unat (vp_record_len p)"
    by (rule ValuePointer_layout_Ok)
  with True show ?thesis by (simp add: ValuePointer_encode_Ok)
next
  case False
  then have "ValuePointer_layout p \<noteq> Ok l" for l
    by (simp add: ValuePointer_layout_def result_simps ValuePointer_validate_fields_Ok)
  with False show ?thesis by (simp add: ValuePointer_encode_Ok)
qed

end
