(* ===== verification/VLogRecords.thy ===== *)
theory VLogRecords
  imports VLogHeaders
begin

text \<open>
  The transaction records of the value log (\<open>src/vlog/format.rs\<close>): \<open>TxBegin\<close>,
  key/value and delete records, \<open>TxPreparedEnd\<close> and the page filler, with their encoders,
  the positional decoder \<open>decode_record_at\<close> and the running envelope checksum. The main
  lemmas say that a record decodes at any position of the page it fits in, and nowhere it
  would cross a page.
\<close>

section \<open>Records\<close>

record tx_begin =
  tb_commit_seq :: u64
  tb_tx_uuid :: uuid
  tb_vlog_begin :: vlog_position
  tb_logical_op_count :: u64
  tb_distinct_key_count :: u64

record tx_prepared_end =
  te_commit_seq :: u64
  te_tx_uuid :: uuid
  te_vlog_begin :: vlog_position
  te_vlog_end :: vlog_position
  te_logical_op_count :: u64
  te_distinct_key_count :: u64
  te_kv_record_count :: u64
  te_delete_record_count :: u64
  te_envelope_crc32c :: u32

record kv_record =
  kv_commit_seq :: u64
  kv_tx_uuid :: uuid
  kv_op_index :: u64
  kv_key :: bytes
  kv_value :: bytes

record delete_record =
  dl_commit_seq :: u64
  dl_tx_uuid :: uuid
  dl_op_index :: u64
  dl_key :: bytes

datatype decoded_record =
  DR_TxBegin tx_begin
| DR_KvRecord kv_record
| DR_DeleteRecord delete_record
| DR_TxPreparedEnd tx_prepared_end
| DR_PageEnd

section \<open>Validation\<close>

definition validate_identity :: "u64 \<Rightarrow> uuid \<Rightarrow> unit res" where
  "validate_identity commit_seq tx_uuid =
     (if commit_seq = 0 \<or> tx_uuid = 0 then Err (decode_error Corruption) else Ok ())"

definition validate_tx_begin :: "tx_begin \<Rightarrow> unit res" where
  "validate_tx_begin b =
     and_then (validate_identity (tb_commit_seq b) (tb_tx_uuid b)) (\<lambda>_.
     and_then (VLogPosition_validate (tb_vlog_begin b)) (\<lambda>_.
       if tb_logical_op_count b = 0
          \<or> tb_distinct_key_count b = 0
          \<or> tb_distinct_key_count b > tb_logical_op_count b
       then Err (decode_error Corruption) else Ok ()))"

definition validate_tx_prepared_end :: "tx_prepared_end \<Rightarrow> unit res" where
  "validate_tx_prepared_end f =
     and_then (validate_identity (te_commit_seq f) (te_tx_uuid f)) (\<lambda>_.
     and_then (VLogPosition_validate (te_vlog_begin f)) (\<lambda>_.
     and_then (VLogPosition_validate (te_vlog_end f)) (\<lambda>_.
     and_then (ok_or (checked_add (te_kv_record_count f) (te_delete_record_count f))
                (decode_error Corruption)) (\<lambda>actual_count.
       if te_vlog_begin f \<ge> te_vlog_end f
          \<or> te_logical_op_count f = 0
          \<or> te_distinct_key_count f = 0
          \<or> te_distinct_key_count f > te_logical_op_count f
          \<or> actual_count \<noteq> te_logical_op_count f
       then Err (decode_error Corruption) else Ok ()))))"

section \<open>Encoders\<close>

definition zeroed_record :: "env \<Rightarrow> u32 \<Rightarrow> unit res" where
  "zeroed_record E encoded_len =
     try_reserve E ''RecordBytes'' (unat encoded_len) (invalid_vlog_error ResourceExhausted)"

definition position_bytes :: "vlog_position \<Rightarrow> bytes" where
  "position_bytes p = u32_to_le_bytes (pos_file_id p) @ u64_to_le_bytes (pos_offset p)"

definition encode_tx_begin :: "env \<Rightarrow> tx_begin \<Rightarrow> bytes res" where
  "encode_tx_begin E b =
     and_then (map_err (\<lambda>_. invalid_vlog_error InvalidArgument) (validate_tx_begin b)) (\<lambda>_.
     and_then (zeroed_record E TX_BEGIN_ENCODED_LEN) (\<lambda>_.
     and_then (RecordHeader_encode E (RecordHeader_new RT_TxBegin TX_BEGIN_ENCODED_LEN
                (tb_commit_seq b) (tb_tx_uuid b))) (\<lambda>header.
       Ok (with_crc E (header @ position_bytes (tb_vlog_begin b)
             @ u64_to_le_bytes (tb_logical_op_count b)
             @ u64_to_le_bytes (tb_distinct_key_count b))))))"

definition encode_kv_record :: "env \<Rightarrow> kv_record \<Rightarrow> bytes res" where
  "encode_kv_record E r =
     and_then (map_err (\<lambda>_. invalid_vlog_error InvalidArgument)
                (validate_identity (kv_commit_seq r) (kv_tx_uuid r))) (\<lambda>_.
     and_then (ok_or (u16_try_from (length (kv_key r))) (invalid_vlog_error InvalidArgument))
       (\<lambda>key_len.
     and_then (ok_or (u16_try_from (length (kv_value r))) (invalid_vlog_error InvalidArgument))
       (\<lambda>value_len.
     and_then (ok_or (usize_checked_add (length (kv_key r)) (length (kv_value r)))
                (invalid_vlog_error InvalidArgument)) (\<lambda>payload_len.
       if key_len = 0 \<or> payload_len > unat MAX_KEY_VALUE_SIZE
       then Err (invalid_vlog_error InvalidArgument)
       else
         and_then (ok_or (u32_try_from payload_len) (invalid_vlog_error InvalidArgument))
           (\<lambda>payload_len_u32.
         and_then (ok_or (checked_add KV_RECORD_FIXED_LEN_WITH_CRC payload_len_u32)
                    (invalid_vlog_error InvalidArgument)) (\<lambda>encoded_len.
         and_then (zeroed_record E encoded_len) (\<lambda>_.
         and_then (RecordHeader_encode E (RecordHeader_new RT_KvRecord encoded_len
                    (kv_commit_seq r) (kv_tx_uuid r))) (\<lambda>header.
           Ok (with_crc E (header @ u64_to_le_bytes (kv_op_index r) @ u16_to_le_bytes key_len
                 @ u16_to_le_bytes value_len @ kv_key r @ kv_value r))))))))))"

definition encode_delete_record :: "env \<Rightarrow> delete_record \<Rightarrow> bytes res" where
  "encode_delete_record E r =
     and_then (map_err (\<lambda>_. invalid_vlog_error InvalidArgument)
                (validate_identity (dl_commit_seq r) (dl_tx_uuid r))) (\<lambda>_.
     and_then (ok_or (u16_try_from (length (dl_key r))) (invalid_vlog_error InvalidArgument))
       (\<lambda>key_len.
       if key_len = 0 \<or> length (dl_key r) > unat MAX_KEY_VALUE_SIZE
       then Err (invalid_vlog_error InvalidArgument)
       else
         and_then (ok_or (checked_add 53 (ucast key_len)) (invalid_vlog_error InvalidArgument))
           (\<lambda>encoded_len.
         and_then (zeroed_record E encoded_len) (\<lambda>_.
         and_then (RecordHeader_encode E (RecordHeader_new RT_DeleteRecord encoded_len
                    (dl_commit_seq r) (dl_tx_uuid r))) (\<lambda>header.
           Ok (with_crc E (header @ u64_to_le_bytes (dl_op_index r) @ u16_to_le_bytes key_len
                 @ dl_key r)))))))"

definition encode_tx_prepared_end :: "env \<Rightarrow> tx_prepared_end \<Rightarrow> bytes res" where
  "encode_tx_prepared_end E f =
     and_then (map_err (\<lambda>_. invalid_vlog_error InvalidArgument) (validate_tx_prepared_end f)) (\<lambda>_.
     and_then (zeroed_record E TX_PREPARED_END_ENCODED_LEN) (\<lambda>_.
     and_then (RecordHeader_encode E (RecordHeader_new RT_TxPreparedEnd TX_PREPARED_END_ENCODED_LEN
                (te_commit_seq f) (te_tx_uuid f))) (\<lambda>header.
       let body = header @ position_bytes (te_vlog_begin f) @ position_bytes (te_vlog_end f)
             @ u64_to_le_bytes (te_logical_op_count f) @ u64_to_le_bytes (te_distinct_key_count f)
             @ u64_to_le_bytes (te_kv_record_count f) @ u64_to_le_bytes (te_delete_record_count f)
             @ u32_to_le_bytes (te_envelope_crc32c f);
           trailer = u32_to_le_bytes TX_PREPARED_END_ENCODED_LEN @ END_TRAILER_MAGIC;
           checksum = crc32c_append E (crc32c E body) trailer
       in Ok (body @ u32_to_le_bytes checksum @ trailer))))"

definition encode_page_end ::
  "env \<Rightarrow> u64 \<Rightarrow> uuid \<Rightarrow> vlog_position \<Rightarrow> vlog_geometry \<Rightarrow> bytes res" where
  "encode_page_end E commit_seq tx_uuid record_start g =
     and_then (map_err (\<lambda>_. invalid_vlog_error InvalidArgument)
                (validate_identity commit_seq tx_uuid)) (\<lambda>_.
     and_then (VLogGeometry_validate g) (\<lambda>_.
     and_then (map_err (\<lambda>_. invalid_vlog_error InvalidArgument)
                (validate_record_start record_start g)) (\<lambda>_.
     and_then (page_end (pos_offset record_start) g) (\<lambda>end.
     and_then (ok_or (checked_sub end (pos_offset record_start))
                (invalid_vlog_error InvalidArgument)) (\<lambda>encoded_len_u64.
     and_then (ok_or (u32_try_from (unat encoded_len_u64)) (invalid_vlog_error InvalidArgument))
       (\<lambda>encoded_len.
       if encoded_len < PAGE_END_MIN_SIZE then Err (invalid_vlog_error InvalidArgument)
       else and_then (zeroed_record E encoded_len) (\<lambda>_.
            and_then (RecordHeader_encode E
                       (RecordHeader_new RT_PageEnd encoded_len commit_seq tx_uuid)) (\<lambda>header.
              Ok (with_crc E (header @ replicate (unat encoded_len - 43) 0))))))))))"

section \<open>Decoders\<close>

definition verify_standard_record_crc :: "env \<Rightarrow> bytes \<Rightarrow> unit res" where
  "verify_standard_record_crc E encoded =
     and_then (ok_or (usize_checked_sub (length encoded) 4) (decode_error Corruption))
       (\<lambda>crc_offset.
     and_then (read_u32 encoded crc_offset) (\<lambda>stored_crc.
       if stored_crc \<noteq> crc32c E (take crc_offset encoded) then Err (decode_error Corruption)
       else Ok ()))"

definition read_position :: "bytes \<Rightarrow> usize \<Rightarrow> vlog_position res" where
  "read_position encoded offset =
     and_then (read_u32 encoded offset) (\<lambda>file_id.
     and_then (read_u64 encoded (offset + 4)) (\<lambda>off. Ok (VLogPosition file_id off)))"

definition decode_tx_begin :: "env \<Rightarrow> bytes \<Rightarrow> record_header \<Rightarrow> tx_begin res" where
  "decode_tx_begin E encoded header =
     (if rh_encoded_len header \<noteq> TX_BEGIN_ENCODED_LEN then Err (decode_error Corruption)
      else and_then (verify_standard_record_crc E encoded) (\<lambda>_.
           and_then (read_position encoded 39) (\<lambda>vlog_begin.
           and_then (read_u64 encoded 51) (\<lambda>logical_op_count.
           and_then (read_u64 encoded 59) (\<lambda>distinct_key_count.
             let begin = \<lparr>tb_commit_seq = rh_commit_seq header, tb_tx_uuid = rh_tx_uuid header,
                          tb_vlog_begin = vlog_begin, tb_logical_op_count = logical_op_count,
                          tb_distinct_key_count = distinct_key_count\<rparr>
             in and_then (validate_tx_begin begin) (\<lambda>_. Ok begin))))))"

definition decode_kv_record :: "env \<Rightarrow> bytes \<Rightarrow> record_header \<Rightarrow> kv_record res" where
  "decode_kv_record E encoded header =
     (if rh_encoded_len header < MIN_KV_RECORD_LEN \<or> rh_encoded_len header > MAX_KV_RECORD_LEN
      then Err (decode_error Corruption)
      else
        and_then (map_ok unat (read_u16 encoded 47)) (\<lambda>key_len.
        and_then (map_ok unat (read_u16 encoded 49)) (\<lambda>value_len.
        and_then (ok_or (usize_checked_add key_len value_len) (decode_error Corruption))
          (\<lambda>payload_len.
          if key_len = 0 \<or> payload_len > unat MAX_KEY_VALUE_SIZE
          then Err (decode_error Corruption)
          else and_then (ok_or (usize_checked_add 55 payload_len) (decode_error Corruption))
            (\<lambda>expected_len.
            if expected_len \<noteq> length encoded then Err (decode_error Corruption)
            else and_then (verify_standard_record_crc E encoded) (\<lambda>_.
                 and_then (ok_or (usize_checked_add 51 key_len) (decode_error Corruption))
                   (\<lambda>key_end.
                 and_then (ok_or (usize_checked_add key_end value_len) (decode_error Corruption))
                   (\<lambda>value_end.
                 and_then (ok_or (slice_get encoded 51 key_end) (decode_error Corruption))
                   (\<lambda>key.
                 and_then (ok_or (slice_get encoded key_end value_end) (decode_error Corruption))
                   (\<lambda>value.
                 and_then (read_u64 encoded 39) (\<lambda>op_index.
                   Ok \<lparr>kv_commit_seq = rh_commit_seq header, kv_tx_uuid = rh_tx_uuid header,
                       kv_op_index = op_index, kv_key = key, kv_value = value\<rparr>)))))))))))"

definition decode_delete_record :: "env \<Rightarrow> bytes \<Rightarrow> record_header \<Rightarrow> delete_record res" where
  "decode_delete_record E encoded header =
     (if rh_encoded_len header < MIN_DELETE_RECORD_LEN \<or> rh_encoded_len header > 60053
      then Err (decode_error Corruption)
      else
        and_then (map_ok unat (read_u16 encoded 47)) (\<lambda>key_len.
          if key_len = 0 \<or> key_len > unat MAX_KEY_VALUE_SIZE then Err (decode_error Corruption)
          else and_then (ok_or (usize_checked_add 53 key_len) (decode_error Corruption))
            (\<lambda>expected_len.
            if expected_len \<noteq> length encoded then Err (decode_error Corruption)
            else and_then (verify_standard_record_crc E encoded) (\<lambda>_.
                 and_then (ok_or (usize_checked_add 49 key_len) (decode_error Corruption))
                   (\<lambda>key_end.
                 and_then (ok_or (slice_get encoded 49 key_end) (decode_error Corruption))
                   (\<lambda>key.
                 and_then (read_u64 encoded 39) (\<lambda>op_index.
                   Ok \<lparr>dl_commit_seq = rh_commit_seq header, dl_tx_uuid = rh_tx_uuid header,
                       dl_op_index = op_index, dl_key = key\<rparr>)))))))"

definition decode_tx_prepared_end :: "env \<Rightarrow> bytes \<Rightarrow> record_header \<Rightarrow> tx_prepared_end res" where
  "decode_tx_prepared_end E encoded header =
     (if rh_encoded_len header \<noteq> TX_PREPARED_END_ENCODED_LEN
         \<or> slice_get encoded 107 111 \<noteq> Some END_TRAILER_MAGIC
      then Err (decode_error Corruption)
      else
        and_then (read_u32 encoded 103) (\<lambda>trailer_len.
          if trailer_len \<noteq> TX_PREPARED_END_ENCODED_LEN then Err (decode_error Corruption)
          else
            and_then (read_u32 encoded 99) (\<lambda>stored_crc.
              if stored_crc \<noteq> crc32c_append E (crc32c E (take 99 encoded)) (take 8 (drop 103 encoded))
              then Err (decode_error Corruption)
              else
                and_then (read_position encoded 39) (\<lambda>vlog_begin.
                and_then (read_position encoded 51) (\<lambda>vlog_end.
                and_then (read_u64 encoded 63) (\<lambda>logical_op_count.
                and_then (read_u64 encoded 71) (\<lambda>distinct_key_count.
                and_then (read_u64 encoded 79) (\<lambda>kv_record_count.
                and_then (read_u64 encoded 87) (\<lambda>delete_record_count.
                and_then (read_u32 encoded 95) (\<lambda>envelope_crc32c.
                  let footer = \<lparr>te_commit_seq = rh_commit_seq header,
                                te_tx_uuid = rh_tx_uuid header, te_vlog_begin = vlog_begin,
                                te_vlog_end = vlog_end, te_logical_op_count = logical_op_count,
                                te_distinct_key_count = distinct_key_count,
                                te_kv_record_count = kv_record_count,
                                te_delete_record_count = delete_record_count,
                                te_envelope_crc32c = envelope_crc32c\<rparr>
                  in and_then (validate_tx_prepared_end footer) (\<lambda>_. Ok footer)))))))))))"

definition decode_page_end :: "env \<Rightarrow> bytes \<Rightarrow> vlog_position \<Rightarrow> vlog_geometry \<Rightarrow> unit res" where
  "decode_page_end E encoded record_start g =
     and_then (ok_or (u32_try_from (length encoded)) (decode_error Corruption)) (\<lambda>encoded_len.
       if encoded_len < PAGE_END_MIN_SIZE then Err (decode_error Corruption)
       else
         and_then (ok_or (checked_add (pos_offset record_start) (ucast encoded_len))
                    (decode_error Corruption)) (\<lambda>end.
         and_then (page_end (pos_offset record_start) g) (\<lambda>pend.
           if end \<noteq> pend then Err (decode_error Corruption)
           else
             and_then (ok_or (usize_checked_sub (length encoded) 4) (decode_error Corruption))
               (\<lambda>padding_end.
             and_then (ok_or (slice_get encoded RECORD_HEADER_ENCODED_LEN padding_end)
                        (decode_error Corruption)) (\<lambda>padding.
               if \<exists>b \<in> set padding. b \<noteq> 0 then Err (decode_error Corruption)
               else verify_standard_record_crc E encoded)))))"

definition decode_record_at ::
  "env \<Rightarrow> bytes \<Rightarrow> vlog_position \<Rightarrow> vlog_geometry \<Rightarrow> decoded_record res" where
  "decode_record_at E encoded record_start g =
     and_then (validate_for_decode g) (\<lambda>_.
     and_then (validate_record_bounds encoded record_start g) (\<lambda>_.
     and_then (RecordHeader_decode E encoded) (\<lambda>header.
       if unat (rh_encoded_len header) \<noteq> length encoded then Err (decode_error Corruption)
       else case rh_record_type header of
         RT_TxBegin \<Rightarrow> map_ok DR_TxBegin (decode_tx_begin E encoded header)
       | RT_KvRecord \<Rightarrow> map_ok DR_KvRecord (decode_kv_record E encoded header)
       | RT_DeleteRecord \<Rightarrow> map_ok DR_DeleteRecord (decode_delete_record E encoded header)
       | RT_TxPreparedEnd \<Rightarrow>
           and_then (decode_tx_prepared_end E encoded header) (\<lambda>footer.
           and_then (ok_or (checked_add (pos_offset record_start) (ucast (rh_encoded_len header)))
                      (decode_error Corruption)) (\<lambda>physical_end.
             if te_vlog_end footer \<noteq> VLogPosition (pos_file_id record_start) physical_end
             then Err (decode_error Corruption)
             else Ok (DR_TxPreparedEnd footer)))
       | RT_PageEnd \<Rightarrow>
           and_then (decode_page_end E encoded record_start g) (\<lambda>_. Ok DR_PageEnd))))"

section \<open>The envelope checksum\<close>

definition EnvelopeCrc32c_new :: "env \<Rightarrow> u32" where
  "EnvelopeCrc32c_new E = crc32c E ENVELOPE_CRC_MAGIC"

definition crc_update :: "env \<Rightarrow> u32 \<Rightarrow> bytes list \<Rightarrow> u32" where
  "crc_update E checksum parts = foldl (crc32c_append E) checksum parts"

definition update_tx_begin :: "env \<Rightarrow> u32 \<Rightarrow> tx_begin \<Rightarrow> u32 res" where
  "update_tx_begin E checksum b =
     and_then (validate_tx_begin b) (\<lambda>_.
       Ok (crc_update E checksum
         [[record_type_byte RT_TxBegin], u32_to_le_bytes 52, u64_to_le_bytes (tb_commit_seq b),
          uuid_bytes (tb_tx_uuid b), u32_to_le_bytes (pos_file_id (tb_vlog_begin b)),
          u64_to_le_bytes (pos_offset (tb_vlog_begin b)),
          u64_to_le_bytes (tb_logical_op_count b), u64_to_le_bytes (tb_distinct_key_count b)]))"

definition update_kv_record :: "env \<Rightarrow> u32 \<Rightarrow> kv_record \<Rightarrow> u32 res" where
  "update_kv_record E checksum r =
     and_then (validate_identity (kv_commit_seq r) (kv_tx_uuid r)) (\<lambda>_.
     and_then (ok_or (u16_try_from (length (kv_key r))) (decode_error Corruption)) (\<lambda>key_len.
     and_then (ok_or (u16_try_from (length (kv_value r))) (decode_error Corruption)) (\<lambda>value_len.
     and_then (ok_or (usize_checked_add (length (kv_key r)) (length (kv_value r)))
                (decode_error Corruption)) (\<lambda>payload_len.
       if key_len = 0 \<or> payload_len > unat MAX_KEY_VALUE_SIZE then Err (decode_error Corruption)
       else
         and_then (ok_or (u32_try_from payload_len) (decode_error Corruption)) (\<lambda>payload_u32.
         and_then (ok_or (checked_add 36 payload_u32) (decode_error Corruption)) (\<lambda>body_len.
           Ok (crc_update E checksum
             [[record_type_byte RT_KvRecord], u32_to_le_bytes body_len,
              u64_to_le_bytes (kv_commit_seq r), uuid_bytes (kv_tx_uuid r),
              u64_to_le_bytes (kv_op_index r), u16_to_le_bytes key_len,
              u16_to_le_bytes value_len, kv_key r, kv_value r])))))))"

definition update_delete_record :: "env \<Rightarrow> u32 \<Rightarrow> delete_record \<Rightarrow> u32 res" where
  "update_delete_record E checksum r =
     and_then (validate_identity (dl_commit_seq r) (dl_tx_uuid r)) (\<lambda>_.
     and_then (ok_or (u16_try_from (length (dl_key r))) (decode_error Corruption)) (\<lambda>key_len.
       if key_len = 0 \<or> length (dl_key r) > unat MAX_KEY_VALUE_SIZE
       then Err (decode_error Corruption)
       else
         and_then (ok_or (checked_add 34 (ucast key_len)) (decode_error Corruption)) (\<lambda>body_len.
           Ok (crc_update E checksum
             [[record_type_byte RT_DeleteRecord], u32_to_le_bytes body_len,
              u64_to_le_bytes (dl_commit_seq r), uuid_bytes (dl_tx_uuid r),
              u64_to_le_bytes (dl_op_index r), u16_to_le_bytes key_len, dl_key r]))))"

definition finish_with_footer :: "env \<Rightarrow> u32 \<Rightarrow> tx_prepared_end \<Rightarrow> u32 res" where
  "finish_with_footer E checksum f =
     and_then (validate_tx_prepared_end f) (\<lambda>_.
       Ok (crc_update E checksum
         [[record_type_byte RT_TxPreparedEnd], u32_to_le_bytes 80,
          u64_to_le_bytes (te_commit_seq f), uuid_bytes (te_tx_uuid f),
          u32_to_le_bytes (pos_file_id (te_vlog_begin f)),
          u64_to_le_bytes (pos_offset (te_vlog_begin f)),
          u32_to_le_bytes (pos_file_id (te_vlog_end f)),
          u64_to_le_bytes (pos_offset (te_vlog_end f)),
          u64_to_le_bytes (te_logical_op_count f), u64_to_le_bytes (te_distinct_key_count f),
          u64_to_le_bytes (te_kv_record_count f), u64_to_le_bytes (te_delete_record_count f)]))"

section \<open>Frames\<close>

text \<open>
  Every record is a frame: the 39-byte header and a payload. All but the footer end in a
  checksum over both.
\<close>

definition header_bytes :: "env \<Rightarrow> record_type \<Rightarrow> u32 \<Rightarrow> u64 \<Rightarrow> uuid \<Rightarrow> bytes" where
  "header_bytes E t len seq uid =
     with_crc E (RECORD_HEADER_MAGIC @ u16_to_le_bytes VLOG_FORMAT_VERSION
       @ [record_type_byte t] @ u32_to_le_bytes len @ u64_to_le_bytes seq @ uuid_bytes uid)"

lemma length_header_bytes [simp]: "length (header_bytes E t len seq uid) = 39"
  by (simp add: header_bytes_def)

lemma RecordHeader_encode_new:
  "RecordHeader_encode E (RecordHeader_new t len seq uid) = Ok bs \<longleftrightarrow>
     seq \<noteq> 0 \<and> uid \<noteq> 0 \<and> bs = header_bytes E t len seq uid"
  by (auto simp: RecordHeader_encode_Ok RecordHeader_new_def header_bytes_def)

lemma RecordHeader_decode_header_bytes:
  "seq \<noteq> 0 \<Longrightarrow> uid \<noteq> 0 \<Longrightarrow>
   RecordHeader_decode E (header_bytes E t len seq uid @ rest) = Ok (RecordHeader_new t len seq uid)"
  by (rule RecordHeader_dec_enc) (simp add: RecordHeader_encode_new)

lemma RecordHeader_decode_iff:
  "RecordHeader_decode E bs = Ok h \<longleftrightarrow>
     39 \<le> length bs \<and> rh_commit_seq h \<noteq> 0 \<and> rh_tx_uuid h \<noteq> 0
     \<and> h = RecordHeader_new (rh_record_type h) (rh_encoded_len h) (rh_commit_seq h) (rh_tx_uuid h)
     \<and> take 39 bs = header_bytes E (rh_record_type h) (rh_encoded_len h) (rh_commit_seq h) (rh_tx_uuid h)"
  (is "_ \<longleftrightarrow> ?r")
proof
  assume a: "RecordHeader_decode E bs = Ok h"
  note d = RecordHeader_decode_Ok [OF a]
  have "rh_format_version h = VLOG_FORMAT_VERSION"
    using d(3) by (auto simp: RecordHeader_validate_def split: if_splits)
  then have "h = RecordHeader_new (rh_record_type h) (rh_encoded_len h) (rh_commit_seq h) (rh_tx_uuid h)"
    by (simp add: RecordHeader_new_def)
  with d(1,2) show ?r by (metis RecordHeader_encode_new)
next
  assume r: ?r
  then have "bs = header_bytes E (rh_record_type h) (rh_encoded_len h) (rh_commit_seq h) (rh_tx_uuid h)
      @ drop 39 bs" by (metis append_take_drop_id)
  with r show "RecordHeader_decode E bs = Ok h"
    using RecordHeader_decode_header_bytes by metis
qed

lemma RecordHeader_new_simps [simp]:
  "rh_record_type (RecordHeader_new t len seq uid) = t"
  "rh_encoded_len (RecordHeader_new t len seq uid) = len"
  "rh_commit_seq (RecordHeader_new t len seq uid) = seq"
  "rh_tx_uuid (RecordHeader_new t len seq uid) = uid"
  by (simp_all add: RecordHeader_new_def)

definition frame :: "env \<Rightarrow> record_type \<Rightarrow> u64 \<Rightarrow> uuid \<Rightarrow> bytes \<Rightarrow> bytes" where
  "frame E t seq uid payload =
     with_crc E (header_bytes E t (word_of_nat (43 + length payload)) seq uid @ payload)"

lemma length_frame [simp]: "length (frame E t seq uid payload) = 43 + length payload"
  by (simp add: frame_def)

lemma verify_with_crc:
  "length body \<le> 900000 \<Longrightarrow> verify_standard_record_crc E (with_crc E body) = Ok ()"
  by (simp add: verify_standard_record_crc_def usize_checked_sub_def read_defs codec_simps
      with_crc_def)

lemma verify_standard_record_crc_Ok:
  assumes "length bs \<le> 900000"
  shows "verify_standard_record_crc E bs = Ok u \<longleftrightarrow>
    4 \<le> length bs \<and> bs = with_crc E (take (length bs - 4) bs)"
proof
  assume "verify_standard_record_crc E bs = Ok u"
  then show "4 \<le> length bs \<and> bs = with_crc E (take (length bs - 4) bs)"
    using with_crc_take [of bs "length bs - 4" E]
    by (auto simp: verify_standard_record_crc_def usize_checked_sub_def read_defs read_range_Ok
        result_simps split: if_splits)
next
  assume "4 \<le> length bs \<and> bs = with_crc E (take (length bs - 4) bs)"
  then show "verify_standard_record_crc E bs = Ok u"
    using verify_with_crc [of "take (length bs - 4) bs" E] assms by simp
qed

section \<open>What the encoders write\<close>

definition identity_ok :: "u64 \<Rightarrow> uuid \<Rightarrow> bool" where
  "identity_ok seq uid \<longleftrightarrow> seq \<noteq> 0 \<and> uid \<noteq> 0"

definition position_ok :: "vlog_position \<Rightarrow> bool" where
  "position_ok p \<longleftrightarrow> unat (pos_file_id p) \<le> 999999 \<and> unat (pos_offset p) \<le> 4294967296"

definition counts_ok :: "u64 \<Rightarrow> u64 \<Rightarrow> bool" where
  "counts_ok ops keys \<longleftrightarrow> 0 < unat keys \<and> unat keys \<le> unat ops"

definition tx_begin_ok :: "tx_begin \<Rightarrow> bool" where
  "tx_begin_ok b \<longleftrightarrow> identity_ok (tb_commit_seq b) (tb_tx_uuid b) \<and> position_ok (tb_vlog_begin b)
     \<and> counts_ok (tb_logical_op_count b) (tb_distinct_key_count b)"

definition footer_ok :: "tx_prepared_end \<Rightarrow> bool" where
  "footer_ok f \<longleftrightarrow> identity_ok (te_commit_seq f) (te_tx_uuid f)
     \<and> position_ok (te_vlog_begin f) \<and> position_ok (te_vlog_end f)
     \<and> te_vlog_begin f < te_vlog_end f
     \<and> counts_ok (te_logical_op_count f) (te_distinct_key_count f)
     \<and> unat (te_kv_record_count f) + unat (te_delete_record_count f) = unat (te_logical_op_count f)"

definition kv_ok :: "kv_record \<Rightarrow> bool" where
  "kv_ok r \<longleftrightarrow> identity_ok (kv_commit_seq r) (kv_tx_uuid r)
     \<and> kv_key r \<noteq> [] \<and> length (kv_key r) + length (kv_value r) \<le> 60000"

definition delete_ok :: "delete_record \<Rightarrow> bool" where
  "delete_ok r \<longleftrightarrow> identity_ok (dl_commit_seq r) (dl_tx_uuid r)
     \<and> dl_key r \<noteq> [] \<and> length (dl_key r) \<le> 60000"

lemma validate_identity_Ok: "validate_identity seq uid = Ok u \<longleftrightarrow> identity_ok seq uid"
  by (auto simp: validate_identity_def identity_ok_def)

lemma VLogPosition_validate_Ok: "VLogPosition_validate p = Ok u \<longleftrightarrow> position_ok p"
  by (auto simp: VLogPosition_validate_def position_ok_def vlog_consts word_nat_simps)

lemma validate_tx_begin_Ok: "validate_tx_begin b = Ok u \<longleftrightarrow> tx_begin_ok b"
  by (auto simp: validate_tx_begin_def tx_begin_ok_def result_simps validate_identity_Ok
      VLogPosition_validate_Ok counts_ok_def word_nat_simps simp flip: unat_eq_zero)

lemma validate_tx_prepared_end_Ok: "validate_tx_prepared_end f = Ok u \<longleftrightarrow> footer_ok f"
proof -
  have "unat (te_kv_record_count f) + unat (te_delete_record_count f) = unat (te_logical_op_count f) \<longleftrightarrow>
    unat (te_kv_record_count f) + unat (te_delete_record_count f) < 2 ^ LENGTH(64)
    \<and> te_kv_record_count f + te_delete_record_count f = te_logical_op_count f"
    using unat_less_2p [of "te_logical_op_count f"]
    by (auto simp: word_unat_eq_iff unat_add_no_overflow)
  then show ?thesis
    by (auto simp: validate_tx_prepared_end_def footer_ok_def result_simps validate_identity_Ok
        VLogPosition_validate_Ok counts_ok_def word_nat_simps checked_add_Some
        simp flip: unat_eq_zero)
qed

definition tx_begin_payload :: "tx_begin \<Rightarrow> bytes" where
  "tx_begin_payload b = position_bytes (tb_vlog_begin b) @ u64_to_le_bytes (tb_logical_op_count b)
     @ u64_to_le_bytes (tb_distinct_key_count b)"

definition kv_payload :: "kv_record \<Rightarrow> bytes" where
  "kv_payload r = u64_to_le_bytes (kv_op_index r) @ u16_to_le_bytes (word_of_nat (length (kv_key r)))
     @ u16_to_le_bytes (word_of_nat (length (kv_value r))) @ kv_key r @ kv_value r"

definition delete_payload :: "delete_record \<Rightarrow> bytes" where
  "delete_payload r = u64_to_le_bytes (dl_op_index r)
     @ u16_to_le_bytes (word_of_nat (length (dl_key r))) @ dl_key r"

definition footer_bytes :: "env \<Rightarrow> tx_prepared_end \<Rightarrow> bytes" where
  "footer_bytes E f =
     (let body = header_bytes E RT_TxPreparedEnd 111 (te_commit_seq f) (te_tx_uuid f)
             @ position_bytes (te_vlog_begin f) @ position_bytes (te_vlog_end f)
             @ u64_to_le_bytes (te_logical_op_count f) @ u64_to_le_bytes (te_distinct_key_count f)
             @ u64_to_le_bytes (te_kv_record_count f) @ u64_to_le_bytes (te_delete_record_count f)
             @ u32_to_le_bytes (te_envelope_crc32c f);
          trailer = u32_to_le_bytes 111 @ END_TRAILER_MAGIC
      in body @ u32_to_le_bytes (crc32c_append E (crc32c E body) trailer) @ trailer)"

lemma length_position_bytes [simp]: "length (position_bytes p) = 12"
  by (simp add: position_bytes_def)

lemma length_payloads [simp]:
  "length (tx_begin_payload b) = 28"
  "length (kv_payload r) = 12 + length (kv_key r) + length (kv_value r)"
  "length (delete_payload d) = 10 + length (dl_key d)"
  "length (footer_bytes E f) = 111"
  by (simp_all add: tx_begin_payload_def kv_payload_def delete_payload_def footer_bytes_def Let_def)

lemma zeroed_record_Ok [simp]:
  "zeroed_record E n = Ok u \<longleftrightarrow> can_alloc E ''RecordBytes'' (unat n)"
  by (simp add: zeroed_record_def)

lemma encode_tx_begin_Ok:
  "encode_tx_begin E b = Ok bs \<longleftrightarrow> tx_begin_ok b \<and> can_alloc E ''RecordBytes'' 71
     \<and> bs = frame E RT_TxBegin (tb_commit_seq b) (tb_tx_uuid b) (tx_begin_payload b)"
  by (auto simp: encode_tx_begin_def result_simps validate_tx_begin_Ok TX_BEGIN_ENCODED_LEN_def
      RecordHeader_encode_new frame_def tx_begin_payload_def tx_begin_ok_def identity_ok_def)

lemma encode_kv_record_Ok:
  "encode_kv_record E r = Ok bs \<longleftrightarrow> kv_ok r
     \<and> can_alloc E ''RecordBytes'' (55 + length (kv_key r) + length (kv_value r))
     \<and> bs = frame E RT_KvRecord (kv_commit_seq r) (kv_tx_uuid r) (kv_payload r)"
proof (cases "kv_ok r")
  case True
  let ?n = "length (kv_key r) + length (kv_value r)"
  from True have b: "?n \<le> 60000" "kv_key r \<noteq> []" "identity_ok (kv_commit_seq r) (kv_tx_uuid r)"
    by (auto simp: kv_ok_def)
  have w: "unat (word_of_nat ?n :: u32) = ?n"
    by (rule unat_of_nat_small) (use b in simp)
  have "unat (55 + word_of_nat ?n :: u32) = 55 + ?n"
    by (subst unat_add_no_overflow) (use b w in simp_all)
  moreover have "(word_of_nat (length (kv_key r)) :: u16) \<noteq> 0"
    using b by (simp add: word_unat_eq_iff)
  moreover have "checked_add 55 (word_of_nat ?n :: u32) = Some (55 + word_of_nat ?n)"
    using b w by (simp add: checked_add_def)
  moreover have "55 + word_of_nat ?n = (word_of_nat (43 + length (kv_payload r)) :: u32)"
    by (simp add: algebra_simps)
  ultimately show ?thesis
    using True b
    by (auto simp: encode_kv_record_def result_simps validate_identity_Ok vlog_consts
        u16_try_from_def u32_try_from_def usize_checked_add_def usize_max_def
        RecordHeader_encode_new frame_def kv_payload_def identity_ok_def add.assoc
        simp del: of_nat_add)
next
  case False
  then show ?thesis
    by (auto simp: encode_kv_record_def result_simps validate_identity_Ok kv_ok_def vlog_consts
        u16_try_from_Some usize_checked_add_def split: if_splits)
qed

lemma encode_delete_record_Ok:
  "encode_delete_record E r = Ok bs \<longleftrightarrow> delete_ok r
     \<and> can_alloc E ''RecordBytes'' (53 + length (dl_key r))
     \<and> bs = frame E RT_DeleteRecord (dl_commit_seq r) (dl_tx_uuid r) (delete_payload r)"
proof (cases "delete_ok r")
  case True
  let ?n = "length (dl_key r)"
  from True have b: "?n \<le> 60000" "dl_key r \<noteq> []" "identity_ok (dl_commit_seq r) (dl_tx_uuid r)"
    by (auto simp: delete_ok_def)
  let ?k = "word_of_nat ?n :: u16"
  have w: "unat ?k = ?n"
    by (rule unat_of_nat_small) (use b in simp)
  have len: "unat (53 + ucast ?k :: u32) = 53 + ?n"
    by (subst unat_add_no_overflow) (use b w in simp_all)
  then have len': "53 + ucast ?k = (word_of_nat (53 + ?n) :: u32)"
    by (rule word_eq_of_nat)
  have "?k \<noteq> 0"
    using b w by (metis length_0_conv unat_0)
  moreover have "checked_add 53 (ucast ?k :: u32) = Some (53 + ucast ?k)"
    using b w by (simp add: checked_add_def)
  ultimately show ?thesis
    using True b len len'
    by (auto simp: encode_delete_record_def result_simps validate_identity_Ok vlog_consts
        u16_try_from_def RecordHeader_encode_new frame_def delete_payload_def identity_ok_def
        simp del: of_nat_add)
next
  case False
  then show ?thesis
    by (auto simp: encode_delete_record_def result_simps validate_identity_Ok delete_ok_def
        vlog_consts u16_try_from_Some split: if_splits)
qed

lemma encode_tx_prepared_end_Ok:
  "encode_tx_prepared_end E f = Ok bs \<longleftrightarrow>
     footer_ok f \<and> can_alloc E ''RecordBytes'' 111 \<and> bs = footer_bytes E f"
  by (auto simp: encode_tx_prepared_end_def result_simps validate_tx_prepared_end_Ok Let_def
      TX_PREPARED_END_ENCODED_LEN_def RecordHeader_encode_new footer_bytes_def footer_ok_def
      identity_ok_def)

definition page_rest :: "vlog_geometry \<Rightarrow> u64 \<Rightarrow> nat" where
  "page_rest g offset = unat (page_size g) - unat offset mod unat (page_size g)"

definition filler :: "env \<Rightarrow> u64 \<Rightarrow> uuid \<Rightarrow> nat \<Rightarrow> bytes" where
  "filler E seq uid n = frame E RT_PageEnd seq uid (replicate (n - 43) 0)"

lemma encode_page_end_Ok:
  assumes "geometry_ok g" and "validate_record_start pos g = Ok ()" and "43 \<le> page_rest g (pos_offset pos)"
    and "identity_ok seq uid" and "can_alloc E ''RecordBytes'' (page_rest g (pos_offset pos))"
  shows "encode_page_end E seq uid pos g = Ok (filler E seq uid (page_rest g (pos_offset pos)))"
proof -
  let ?n = "page_rest g (pos_offset pos)"
  have lt: "unat (pos_offset pos) < unat (max_file_size g)"
    using assms(2) by (simp add: validate_record_start_Ok)
  have "?n \<le> 65536"
    using geometry_okD(2) [OF assms(1)] by (simp add: page_rest_def)
  then have w: "unat (word_of_nat ?n :: u32) = ?n" "unat (word_of_nat ?n :: u64) = ?n" by simp_all
  obtain e where e: "page_end (pos_offset pos) g = Ok e"
    "checked_sub e (pos_offset pos) = Some (word_of_nat ?n)"
    using remaining_in_page_eval [OF assms(1) lt]
    by (auto simp: remaining_in_page_def page_rest_def result_simps)
  show ?thesis
    using assms w \<open>?n \<le> 65536\<close>
    by (simp add: encode_page_end_def e result_simps validate_identity_Ok
        VLogGeometry_validate_Ok u32_try_from_def PAGE_END_MIN_SIZE_def word_less_nat_alt
        RecordHeader_encode_new identity_ok_def filler_def frame_def)
qed

section \<open>Decoding at a position\<close>

text \<open>A record fits a position when it starts in a record area and ends in the same page.\<close>

definition fits :: "vlog_geometry \<Rightarrow> vlog_position \<Rightarrow> nat \<Rightarrow> bool" where
  "fits g pos n \<longleftrightarrow> geometry_ok g \<and> validate_record_start pos g = Ok () \<and> n \<le> page_rest g (pos_offset pos)"

lemma page_rest_le: "page_rest g off \<le> unat (page_size g)"
  by (simp add: page_rest_def)

lemma page_rest_end:
  "geometry_ok g \<Longrightarrow>
   npage_end (unat (page_size g)) (unat off) = unat off + page_rest g off"
  using npage_end_remaining [of "unat (page_size g)" "unat off"]
    npage_end_gt [of "unat (page_size g)" "unat off"] geometry_okD(1) [of g]
  by (simp add: page_rest_def)

lemma validate_record_bounds_fits:
  "geometry_ok g \<Longrightarrow> validate_record_bounds bs pos g = Ok u \<longleftrightarrow> fits g pos (length bs)"
  by (simp add: validate_record_bounds_Ok fits_def page_rest_end)

lemma fits_bound: "fits g pos n \<Longrightarrow> n \<le> 65536"
  using geometry_okD(2) [of g] page_rest_le [of g "pos_offset pos"] by (simp add: fits_def)

lemma decode_record_at_cases:
  "decode_record_at E bs pos g = Ok d \<longleftrightarrow>
     fits g pos (length bs) \<and> (\<exists>h. RecordHeader_decode E bs = Ok h
       \<and> unat (rh_encoded_len h) = length bs
       \<and> (case rh_record_type h of
            RT_TxBegin \<Rightarrow> map_ok DR_TxBegin (decode_tx_begin E bs h)
          | RT_KvRecord \<Rightarrow> map_ok DR_KvRecord (decode_kv_record E bs h)
          | RT_DeleteRecord \<Rightarrow> map_ok DR_DeleteRecord (decode_delete_record E bs h)
          | RT_TxPreparedEnd \<Rightarrow>
              and_then (decode_tx_prepared_end E bs h) (\<lambda>footer.
              and_then (ok_or (checked_add (pos_offset pos) (ucast (rh_encoded_len h)))
                         (decode_error Corruption)) (\<lambda>physical_end.
                if te_vlog_end footer \<noteq> VLogPosition (pos_file_id pos) physical_end
                then Err (decode_error Corruption)
                else Ok (DR_TxPreparedEnd footer)))
          | RT_PageEnd \<Rightarrow> and_then (decode_page_end E bs pos g) (\<lambda>_. Ok DR_PageEnd)) = Ok d)"
proof (cases "geometry_ok g")
  case True
  then have "validate_for_decode g = Ok ()"
    by (simp add: validate_for_decode_def VLogGeometry_validate_Ok)
  with True show ?thesis
    by (auto simp: decode_record_at_def result_simps validate_record_bounds_fits split: if_splits)
next
  case False
  then show ?thesis
    by (auto simp: decode_record_at_def result_simps validate_for_decode_def
        VLogGeometry_validate_Ok fits_def)
qed

lemma frame_header:
  "identity_ok seq uid \<Longrightarrow>
   RecordHeader_decode E (frame E t seq uid payload)
     = Ok (RecordHeader_new t (word_of_nat (43 + length payload)) seq uid)"
  using RecordHeader_decode_header_bytes [of seq uid E t "word_of_nat (43 + length payload)"]
  by (simp add: frame_def with_crc_def identity_ok_def)

lemma frame_crc:
  "length payload \<le> 70000 \<Longrightarrow> verify_standard_record_crc E (frame E t seq uid payload) = Ok ()"
  by (simp add: frame_def verify_with_crc)

definition frame_checksum :: "env \<Rightarrow> record_type \<Rightarrow> u64 \<Rightarrow> uuid \<Rightarrow> bytes \<Rightarrow> bytes" where
  "frame_checksum E t seq uid payload =
     u32_to_le_bytes (crc32c E (header_bytes E t (word_of_nat (43 + length payload)) seq uid @ payload))"

lemma drop_frame [codec_simps]:
  "39 \<le> k \<Longrightarrow> k \<le> 39 + length payload \<Longrightarrow>
   drop k (frame E t seq uid payload) = drop (k - 39) payload @ frame_checksum E t seq uid payload"
  by (simp add: frame_def with_crc_def frame_checksum_def)

lemma decode_tx_begin_frame:
  assumes "tx_begin_ok b"
  shows "decode_tx_begin E (frame E RT_TxBegin (tb_commit_seq b) (tb_tx_uuid b) (tx_begin_payload b))
    (RecordHeader_new RT_TxBegin 71 (tb_commit_seq b) (tb_tx_uuid b)) = Ok b"
  using assms
  by (simp add: decode_tx_begin_def TX_BEGIN_ENCODED_LEN_def frame_crc read_position_def read_defs
      codec_simps validate_tx_begin_Ok)
    (simp add: tx_begin_payload_def position_bytes_def validate_tx_begin_Ok Let_def and_then_Ok
      tx_begin_ok_def)

lemma decode_kv_record_frame:
  assumes "kv_ok r"
  shows "decode_kv_record E (frame E RT_KvRecord (kv_commit_seq r) (kv_tx_uuid r) (kv_payload r))
    (RecordHeader_new RT_KvRecord (word_of_nat (43 + length (kv_payload r))) (kv_commit_seq r)
       (kv_tx_uuid r)) = Ok r"
proof -
  have b: "length (kv_key r) + length (kv_value r) \<le> 60000" "kv_key r \<noteq> []"
    using assms by (auto simp: kv_ok_def)
  let ?n = "43 + length (kv_payload r)"
  have w: "unat (word_of_nat ?n :: u32) = ?n"
    by (rule unat_of_nat_small) (use b in simp)
  have l: "\<not> word_of_nat ?n < (56 :: u32)" "\<not> word_of_nat ?n > (60055 :: u32)"
    unfolding word_less_nat_alt w using b by (simp_all add: Suc_le_eq)
  have u: "usize_checked_add i j = Some (i + j)" if "i + j \<le> 70000" for i j
    using that by (simp add: usize_checked_add_def)
  show ?thesis
    using b l
    by (simp add: decode_kv_record_def MIN_KV_RECORD_LEN_def MAX_KV_RECORD_LEN_def
        MAX_KEY_VALUE_SIZE_def frame_crc read_defs codec_simps u del: of_nat_add)
      (simp add: kv_payload_def u frame_crc read_defs codec_simps)
qed

lemma decode_delete_record_frame:
  assumes "delete_ok r"
  shows "decode_delete_record E
    (frame E RT_DeleteRecord (dl_commit_seq r) (dl_tx_uuid r) (delete_payload r))
    (RecordHeader_new RT_DeleteRecord (word_of_nat (43 + length (delete_payload r)))
       (dl_commit_seq r) (dl_tx_uuid r)) = Ok r"
proof -
  have b: "length (dl_key r) \<le> 60000" "dl_key r \<noteq> []"
    using assms by (auto simp: delete_ok_def)
  let ?n = "43 + length (delete_payload r)"
  have w: "unat (word_of_nat ?n :: u32) = ?n"
    by (rule unat_of_nat_small) (use b in simp)
  have l: "\<not> word_of_nat ?n < (54 :: u32)" "\<not> word_of_nat ?n > (60053 :: u32)"
    unfolding word_less_nat_alt w using b by (simp_all add: Suc_le_eq)
  have u: "usize_checked_add i j = Some (i + j)" if "i + j \<le> 70000" for i j
    using that by (simp add: usize_checked_add_def)
  show ?thesis
    using b l
    by (simp add: decode_delete_record_def MIN_DELETE_RECORD_LEN_def
        MAX_KEY_VALUE_SIZE_def frame_crc read_defs codec_simps u del: of_nat_add)
      (simp add: delete_payload_def u frame_crc read_defs codec_simps)
qed

lemma footer_split:
  "footer_bytes E f = header_bytes E RT_TxPreparedEnd 111 (te_commit_seq f) (te_tx_uuid f)
     @ drop 39 (footer_bytes E f)"
  by (simp add: footer_bytes_def Let_def)

lemma footer_header:
  assumes "footer_ok f"
  shows "RecordHeader_decode E (footer_bytes E f)
    = Ok (RecordHeader_new RT_TxPreparedEnd 111 (te_commit_seq f) (te_tx_uuid f))"
  using assms RecordHeader_decode_header_bytes [of "te_commit_seq f" "te_tx_uuid f" E
      RT_TxPreparedEnd 111 "drop 39 (footer_bytes E f)"]
  by (simp flip: footer_split add: footer_ok_def identity_ok_def)

lemma decode_footer_bytes:
  assumes "footer_ok f"
  shows "decode_tx_prepared_end E (footer_bytes E f)
    (RecordHeader_new RT_TxPreparedEnd 111 (te_commit_seq f) (te_tx_uuid f)) = Ok f"
  using assms
  by (simp add: decode_tx_prepared_end_def TX_PREPARED_END_ENCODED_LEN_def read_position_def
      read_defs codec_simps)
    (simp add: footer_bytes_def position_bytes_def validate_tx_prepared_end_Ok Let_def and_then_Ok
      footer_ok_def)

lemma length_filler: "43 \<le> n \<Longrightarrow> length (filler E seq uid n) = n"
  by (simp add: filler_def)

lemma decode_filler:
  assumes "geometry_ok g" and "validate_record_start pos g = Ok ()"
    and n: "n = page_rest g (pos_offset pos)" and "43 \<le> n"
  shows "decode_page_end E (filler E seq uid n) pos g = Ok ()"
proof -
  have lt: "unat (pos_offset pos) < unat (max_file_size g)"
    using assms(2) by (simp add: validate_record_start_Ok)
  have le: "n \<le> 65536"
    using geometry_okD(2) [OF assms(1)] by (simp add: n page_rest_def)
  have e: "page_end (pos_offset pos) g = Ok (word_of_nat (unat (pos_offset pos) + n))"
    using page_end_eval [OF assms(1) lt] by (simp add: page_rest_end [OF assms(1)] n)
  have "unat (pos_offset pos) < 4294967296"
    using lt geometry_okD(3) [OF assms(1)] by simp
  then have a: "checked_add (pos_offset pos) (ucast (word_of_nat n :: u32))
      = Some (word_of_nat (unat (pos_offset pos) + n))"
    using le by (auto simp: checked_add_def unat_add_no_overflow intro!: word_eq_of_nat)
  have d: "drop 39 (filler E seq uid n) = replicate (n - 43) 0
      @ frame_checksum E RT_PageEnd seq uid (replicate (n - 43) 0)"
    by (simp add: filler_def codec_simps)
  have c: "verify_standard_record_crc E (filler E seq uid n) = Ok ()"
    using le by (simp add: filler_def frame_crc)
  show ?thesis
    using \<open>43 \<le> n\<close> le
    by (simp add: decode_page_end_def length_filler u32_try_from_def PAGE_END_MIN_SIZE_def
        word_less_nat_alt a e usize_checked_sub_def RECORD_HEADER_ENCODED_LEN_def d c del: of_nat_add)
qed

text \<open>
  The positional decoder inverts every encoder: the bytes of a well-formed record decode, at any
  position where they fit, to the record.
\<close>

lemma frame_encoded_len:
  "length payload \<le> 70000 \<Longrightarrow>
   unat (word_of_nat (43 + length payload) :: u32) = length (frame E t seq uid payload)"
  by (subst unat_of_nat_small) simp_all

lemma decode_record_at_frames:
  "tx_begin_ok b \<Longrightarrow> fits g pos 71 \<Longrightarrow>
   decode_record_at E (frame E RT_TxBegin (tb_commit_seq b) (tb_tx_uuid b) (tx_begin_payload b)) pos g
     = Ok (DR_TxBegin b)"
  "kv_ok r \<Longrightarrow> fits g pos (55 + (length (kv_key r) + length (kv_value r))) \<Longrightarrow>
   decode_record_at E (frame E RT_KvRecord (kv_commit_seq r) (kv_tx_uuid r) (kv_payload r)) pos g
     = Ok (DR_KvRecord r)"
  "delete_ok d \<Longrightarrow> fits g pos (53 + length (dl_key d)) \<Longrightarrow>
   decode_record_at E (frame E RT_DeleteRecord (dl_commit_seq d) (dl_tx_uuid d) (delete_payload d))
     pos g = Ok (DR_DeleteRecord d)"
proof -
  show "decode_record_at E (frame E RT_TxBegin (tb_commit_seq b) (tb_tx_uuid b) (tx_begin_payload b))
      pos g = Ok (DR_TxBegin b)" if "tx_begin_ok b" "fits g pos 71"
  proof -
    from that have "identity_ok (tb_commit_seq b) (tb_tx_uuid b)" by (simp add: tx_begin_ok_def)
    note h = frame_header [OF this, of E RT_TxBegin "tx_begin_payload b"]
    show ?thesis
      using that decode_tx_begin_frame [OF that(1), of E] h
      by (simp add: decode_record_at_cases)
  qed
  show "decode_record_at E (frame E RT_KvRecord (kv_commit_seq r) (kv_tx_uuid r) (kv_payload r)) pos g
      = Ok (DR_KvRecord r)" if "kv_ok r" "fits g pos (55 + (length (kv_key r) + length (kv_value r)))"
  proof -
    from that have i: "identity_ok (kv_commit_seq r) (kv_tx_uuid r)"
      and "length (kv_payload r) \<le> 70000" by (simp_all add: kv_ok_def)
    note l = frame_encoded_len [OF this(2), of E RT_KvRecord "kv_commit_seq r" "kv_tx_uuid r"]
    show ?thesis
      using that l decode_kv_record_frame [OF that(1), of E]
      by (simp add: decode_record_at_cases frame_header [OF i] del: of_nat_add)
  qed
  show "decode_record_at E (frame E RT_DeleteRecord (dl_commit_seq d) (dl_tx_uuid d)
      (delete_payload d)) pos g = Ok (DR_DeleteRecord d)"
    if "delete_ok d" "fits g pos (53 + length (dl_key d))"
  proof -
    from that have i: "identity_ok (dl_commit_seq d) (dl_tx_uuid d)"
      and "length (delete_payload d) \<le> 70000" by (simp_all add: delete_ok_def)
    note l = frame_encoded_len [OF this(2), of E RT_DeleteRecord "dl_commit_seq d" "dl_tx_uuid d"]
    show ?thesis
      using that l decode_delete_record_frame [OF that(1), of E]
      by (simp add: decode_record_at_cases frame_header [OF i] del: of_nat_add)
  qed
qed

lemma decode_record_at_footer:
  assumes "footer_ok f" and "fits g pos 111"
    and "te_vlog_end f = VLogPosition (pos_file_id pos) (pos_offset pos + 111)"
  shows "decode_record_at E (footer_bytes E f) pos g = Ok (DR_TxPreparedEnd f)"
proof -
  have "unat (pos_offset pos) < 4294967296"
    using assms(2) geometry_okD(3) [of g] by (auto simp: fits_def validate_record_start_Ok)
  then have "checked_add (pos_offset pos) 111 = Some (pos_offset pos + 111)"
    by (simp add: checked_add_def)
  then show ?thesis
    using assms by (simp add: decode_record_at_cases footer_header decode_footer_bytes result_simps)
qed

lemma decode_record_at_filler:
  assumes "fits g pos 43" and "identity_ok seq uid"
  shows "decode_record_at E (filler E seq uid (page_rest g (pos_offset pos))) pos g = Ok DR_PageEnd"
proof -
  let ?n = "page_rest g (pos_offset pos)"
  have n: "43 \<le> ?n" "?n \<le> 65536"
    using assms(1) fits_bound [of g pos ?n] by (auto simp: fits_def)
  have l: "unat (word_of_nat (43 + length (replicate (?n - 43) (0::u8))) :: u32) = ?n"
    using n by (subst unat_of_nat_small) simp_all
  have d: "decode_page_end E (filler E seq uid ?n) pos g = Ok ()"
    using assms n by (intro decode_filler) (simp_all add: fits_def)
  have h: "RecordHeader_decode E (filler E seq uid ?n)
      = Ok (RecordHeader_new RT_PageEnd (word_of_nat (43 + length (replicate (?n - 43) (0::u8)))) seq uid)"
    unfolding filler_def by (rule frame_header [OF assms(2)])
  have f: "fits g pos ?n" using assms(1) by (simp add: fits_def)
  show ?thesis
    unfolding decode_record_at_cases
    by (intro conjI exI, simp add: length_filler n f, rule h)
      (simp_all add: l length_filler n d del: of_nat_add length_replicate)
qed

section \<open>Only encodings are accepted\<close>

lemma frame_of_parts:
  assumes "verify_standard_record_crc E bs = Ok u" and "RecordHeader_decode E bs = Ok h"
    and "unat (rh_encoded_len h) = length bs" and "length bs \<le> 65536"
    and "43 \<le> length bs"
  shows "bs = frame E (rh_record_type h) (rh_commit_seq h) (rh_tx_uuid h)
      (take (length bs - 43) (drop 39 bs))"
    and "identity_ok (rh_commit_seq h) (rh_tx_uuid h)"
proof -
  have h: "rh_commit_seq h \<noteq> 0" "rh_tx_uuid h \<noteq> 0" "take 39 bs = header_bytes E (rh_record_type h)
      (rh_encoded_len h) (rh_commit_seq h) (rh_tx_uuid h)"
    using assms(2) unfolding RecordHeader_decode_iff by blast+
  then show "identity_ok (rh_commit_seq h) (rh_tx_uuid h)" by (simp add: identity_ok_def)
  have crc: "bs = with_crc E (take (length bs - 4) bs)"
    using assms(1,4) by (simp add: verify_standard_record_crc_Ok)
  have "take (length bs - 4) bs = take 39 bs @ take (length bs - 43) (drop 39 bs)"
    using take_add [of 39 "length bs - 43" bs] assms(5) by simp
  moreover have "rh_encoded_len h = word_of_nat (43 + length (take (length bs - 43) (drop 39 bs)))"
    using assms(3,5) by (intro word_eq_of_nat) simp
  ultimately show "bs = frame E (rh_record_type h) (rh_commit_seq h) (rh_tx_uuid h)
      (take (length bs - 43) (drop 39 bs))"
    using crc h(3) unfolding frame_def by simp
qed

lemma decode_tx_begin_canonical:
  assumes "decode_tx_begin E bs h = Ok b" and "RecordHeader_decode E bs = Ok h"
    and "unat (rh_encoded_len h) = length bs"
  shows "tx_begin_ok b" and "bs = frame E RT_TxBegin (tb_commit_seq b) (tb_tx_uuid b) (tx_begin_payload b)
    \<or> rh_record_type h \<noteq> RT_TxBegin"
proof -
  have len: "length bs = 71" and v: "verify_standard_record_crc E bs = Ok ()"
    using assms(1,3) by (auto simp: decode_tx_begin_def TX_BEGIN_ENCODED_LEN_def result_simps
        split: if_splits)
  have b: "b = \<lparr>tb_commit_seq = rh_commit_seq h, tb_tx_uuid = rh_tx_uuid h,
      tb_vlog_begin = VLogPosition (u32_from_le_bytes (take 4 (drop 39 bs)))
        (u64_from_le_bytes (take 8 (drop 43 bs))),
      tb_logical_op_count = u64_from_le_bytes (take 8 (drop 51 bs)),
      tb_distinct_key_count = u64_from_le_bytes (take 8 (drop 59 bs))\<rparr>" and ok: "tx_begin_ok b"
    using assms(1) by (auto simp: decode_tx_begin_def result_simps read_position_def read_defs
        read_range_Ok Let_def validate_tx_begin_Ok split: if_splits)
  show "tx_begin_ok b" by (rule ok)
  have p: "tx_begin_payload b = take 28 (drop 39 bs)"
    using len concat_fields [of "[4, 8, 8, 8]" "drop 39 bs"]
    by (simp add: b tx_begin_payload_def position_bytes_def to_from_bytes)
  show "bs = frame E RT_TxBegin (tb_commit_seq b) (tb_tx_uuid b) (tx_begin_payload b)
    \<or> rh_record_type h \<noteq> RT_TxBegin"
    using frame_of_parts(1) [OF v assms(2,3)] len by (auto simp: p) (simp add: b)
qed

lemma decode_kv_record_canonical:
  assumes "decode_kv_record E bs h = Ok r" and "RecordHeader_decode E bs = Ok h"
    and "unat (rh_encoded_len h) = length bs"
  shows "kv_ok r" and "bs = frame E RT_KvRecord (kv_commit_seq r) (kv_tx_uuid r) (kv_payload r)
    \<or> rh_record_type h \<noteq> RT_KvRecord"
proof -
  obtain kl vl where k: "unat (u16_from_le_bytes (take 2 (drop 47 bs))) = kl"
    and l: "unat (u16_from_le_bytes (take 2 (drop 49 bs))) = vl" by simp
  have len: "length bs = 55 + (kl + vl)" and b: "0 < kl" "kl + vl \<le> 60000"
    and v: "verify_standard_record_crc E bs = Ok ()"
    and r: "r = \<lparr>kv_commit_seq = rh_commit_seq h, kv_tx_uuid = rh_tx_uuid h,
      kv_op_index = u64_from_le_bytes (take 8 (drop 39 bs)), kv_key = take kl (drop 51 bs),
      kv_value = take vl (drop (51 + kl) bs)\<rparr>"
    using assms(1)
    by (auto simp: decode_kv_record_def result_simps read_defs read_range_Ok usize_checked_add_def k l
        MAX_KEY_VALUE_SIZE_def slice_get_eq_Some split: if_splits)
  have le: "length bs \<le> 65536" "43 \<le> length bs" using len b by linarith+
  note f = frame_of_parts [OF v assms(2,3) le]
  from f(2) show "kv_ok r"
    using len b by (auto simp: kv_ok_def r)
  have p: "kv_payload r = take (length bs - 43) (drop 39 bs)"
    using len concat_fields [of "[8, 2, 2, kl, vl]" "drop 39 bs"]
      word_eq_of_nat [OF k] word_eq_of_nat [OF l]
    by (simp add: r kv_payload_def from_bytes_eq_iff add.commute to_from_bytes)
  show "bs = frame E RT_KvRecord (kv_commit_seq r) (kv_tx_uuid r) (kv_payload r)
    \<or> rh_record_type h \<noteq> RT_KvRecord"
    using f(1) by (auto simp: p) (simp add: r)
qed

lemma decode_delete_record_canonical:
  assumes "decode_delete_record E bs h = Ok r" and "RecordHeader_decode E bs = Ok h"
    and "unat (rh_encoded_len h) = length bs"
  shows "delete_ok r"
    and "bs = frame E RT_DeleteRecord (dl_commit_seq r) (dl_tx_uuid r) (delete_payload r)
      \<or> rh_record_type h \<noteq> RT_DeleteRecord"
proof -
  obtain kl where k: "unat (u16_from_le_bytes (take 2 (drop 47 bs))) = kl" by simp
  have len: "length bs = 53 + kl" and b: "0 < kl" "kl \<le> 60000"
    and v: "verify_standard_record_crc E bs = Ok ()"
    and r: "r = \<lparr>dl_commit_seq = rh_commit_seq h, dl_tx_uuid = rh_tx_uuid h,
      dl_op_index = u64_from_le_bytes (take 8 (drop 39 bs)), dl_key = take kl (drop 49 bs)\<rparr>"
    using assms(1)
    by (auto simp: decode_delete_record_def result_simps read_defs read_range_Ok
        usize_checked_add_def k MAX_KEY_VALUE_SIZE_def slice_get_eq_Some split: if_splits)
  have le: "length bs \<le> 65536" "43 \<le> length bs" using len b by linarith+
  note f = frame_of_parts [OF v assms(2,3) le]
  from f(2) show "delete_ok r"
    using len b by (auto simp: delete_ok_def r)
  have p: "delete_payload r = take (length bs - 43) (drop 39 bs)"
    using len concat_fields [of "[8, 2, kl]" "drop 39 bs"] word_eq_of_nat [OF k]
    by (simp add: r delete_payload_def from_bytes_eq_iff add.commute to_from_bytes)
  show "bs = frame E RT_DeleteRecord (dl_commit_seq r) (dl_tx_uuid r) (delete_payload r)
    \<or> rh_record_type h \<noteq> RT_DeleteRecord"
    using f(1) by (auto simp: p) (simp add: r)
qed

lemma decode_footer_canonical:
  assumes "decode_tx_prepared_end E bs h = Ok f" and "RecordHeader_decode E bs = Ok h"
    and "unat (rh_encoded_len h) = length bs" and "rh_record_type h = RT_TxPreparedEnd"
  shows "footer_ok f" and "bs = footer_bytes E f"
proof -
  have l: "rh_encoded_len h = 111" and m: "take 4 (drop 107 bs) = END_TRAILER_MAGIC"
    and t: "take 4 (drop 103 bs) = u32_to_le_bytes 111"
    and c: "take 4 (drop 99 bs) = u32_to_le_bytes (crc32c_append E (crc32c E (take 99 bs))
              (take 8 (drop 103 bs)))"
    using assms(1)
    by (auto simp: decode_tx_prepared_end_def TX_PREPARED_END_ENCODED_LEN_def result_simps
        read_defs read_range_Ok from_bytes_eq_iff slice_get_eq_Some split: if_splits)
  then have len: "length bs = 111" using assms(3) by simp
  have f: "f = \<lparr>te_commit_seq = rh_commit_seq h, te_tx_uuid = rh_tx_uuid h,
      te_vlog_begin = VLogPosition (u32_from_le_bytes (take 4 (drop 39 bs)))
        (u64_from_le_bytes (take 8 (drop 43 bs))),
      te_vlog_end = VLogPosition (u32_from_le_bytes (take 4 (drop 51 bs)))
        (u64_from_le_bytes (take 8 (drop 55 bs))),
      te_logical_op_count = u64_from_le_bytes (take 8 (drop 63 bs)),
      te_distinct_key_count = u64_from_le_bytes (take 8 (drop 71 bs)),
      te_kv_record_count = u64_from_le_bytes (take 8 (drop 79 bs)),
      te_delete_record_count = u64_from_le_bytes (take 8 (drop 87 bs)),
      te_envelope_crc32c = u32_from_le_bytes (take 4 (drop 95 bs))\<rparr>" and ok: "footer_ok f"
    using assms(1) by (auto simp: decode_tx_prepared_end_def result_simps read_position_def
        read_defs read_range_Ok Let_def validate_tx_prepared_end_Ok split: if_splits)
  show "footer_ok f" by (rule ok)
  have h: "take 39 bs = header_bytes E RT_TxPreparedEnd 111 (rh_commit_seq h) (rh_tx_uuid h)"
    using assms(2,4) l unfolding RecordHeader_decode_iff by simp
  have body: "take 39 bs @ take 4 (drop 39 bs) @ take 8 (drop 43 bs) @ take 4 (drop 51 bs)
      @ take 8 (drop 55 bs) @ take 8 (drop 63 bs) @ take 8 (drop 71 bs) @ take 8 (drop 79 bs)
      @ take 8 (drop 87 bs) @ take 4 (drop 95 bs) = take 99 bs"
    using len concat_fields [of "[39, 4, 8, 4, 8, 8, 8, 8, 8, 4]" bs] by simp
  have trailer: "u32_to_le_bytes 111 @ END_TRAILER_MAGIC = take 8 (drop 103 bs)"
    using len concat_fields [of "[4, 4]" "drop 103 bs"] by (simp add: t m)
  have all: "take 99 bs @ u32_to_le_bytes (crc32c_append E (crc32c E (take 99 bs)) (take 8 (drop 103 bs)))
      @ take 8 (drop 103 bs) = bs"
    unfolding c [symmetric] using len concat_fields [of "[99, 4, 8]" bs] by simp
  show "bs = footer_bytes E f"
    unfolding footer_bytes_def Let_def trailer using len body all
    by (simp add: f position_bytes_def to_from_bytes h [symmetric])
qed

lemma decode_page_end_canonical:
  assumes "decode_page_end E bs pos g = Ok u" and "RecordHeader_decode E bs = Ok h"
    and "unat (rh_encoded_len h) = length bs" and "rh_record_type h = RT_PageEnd"
    and "fits g pos (length bs)"
  shows "bs = filler E (rh_commit_seq h) (rh_tx_uuid h) (page_rest g (pos_offset pos))"
    and "43 \<le> page_rest g (pos_offset pos)"
proof -
  have G: "geometry_ok g" and lt: "unat (pos_offset pos) < unat (max_file_size g)"
    and le: "length bs \<le> 65536"
    using assms(5) fits_bound [OF assms(5)] by (auto simp: fits_def validate_record_start_Ok)
  have lt': "unat (pos_offset pos) < 4294967296" using geometry_okD(3) [OF G] lt by simp
  let ?pad = "take (length bs - 43) (drop 39 bs)"
  have u: "ucast (word_of_nat (length bs) :: u32) = (word_of_nat (length bs) :: u64)"
    using le by (intro word_eq_of_nat) simp
  have l: "43 \<le> length bs" and e: "pos_offset pos + word_of_nat (length bs)
        = word_of_nat (npage_end (unat (page_size g)) (unat (pos_offset pos)))"
    and z: "\<forall>b \<in> set ?pad. b = 0"
    and v: "verify_standard_record_crc E bs = Ok ()"
    using assms(1) le
    by (auto simp: decode_page_end_def result_simps u32_try_from_def page_end_eval [OF G lt]
        PAGE_END_MIN_SIZE_def word_less_nat_alt checked_add_Some usize_checked_sub_def
        slice_get_eq_Some RECORD_HEADER_ENCODED_LEN_def u split: if_splits)
  have "unat (pos_offset pos + word_of_nat (length bs)) = unat (pos_offset pos) + length bs"
    using le lt' by (subst unat_add_no_overflow) simp_all
  then have n: "length bs = page_rest g (pos_offset pos)"
    using e unat_npage_end [OF G lt] by (simp add: page_rest_end [OF G])
  have "?pad = replicate (length bs - 43) 0"
    using z l by (intro replicate_eqI) simp_all
  then show "bs = filler E (rh_commit_seq h) (rh_tx_uuid h) (page_rest g (pos_offset pos))"
    using frame_of_parts(1) [OF v assms(2,3) le l] assms(4) n by (simp add: filler_def)
  show "43 \<le> page_rest g (pos_offset pos)" using n l by simp
qed

text \<open>
  The image of a decoded record at a position: what the encoder of its type writes there, with
  the position a footer names checked against where it lies.
\<close>

fun encode_decoded ::
  "env \<Rightarrow> u64 \<Rightarrow> uuid \<Rightarrow> vlog_position \<Rightarrow> vlog_geometry \<Rightarrow> decoded_record \<Rightarrow> bytes res" where
  "encode_decoded E seq uid pos g (DR_TxBegin b) = encode_tx_begin E b"
| "encode_decoded E seq uid pos g (DR_KvRecord r) = encode_kv_record E r"
| "encode_decoded E seq uid pos g (DR_DeleteRecord r) = encode_delete_record E r"
| "encode_decoded E seq uid pos g (DR_TxPreparedEnd f) = encode_tx_prepared_end E f"
| "encode_decoded E seq uid pos g DR_PageEnd = encode_page_end E seq uid pos g"

fun footer_lies_at :: "vlog_position \<Rightarrow> decoded_record \<Rightarrow> bool" where
  "footer_lies_at pos (DR_TxPreparedEnd f) \<longleftrightarrow>
     te_vlog_end f = VLogPosition (pos_file_id pos) (pos_offset pos + 111)"
| "footer_lies_at pos d \<longleftrightarrow> True"

lemma encode_page_end_cases:
  assumes "allocates E" and "fits g pos (length bs)" and "encode_page_end E seq uid pos g = Ok bs"
  shows "identity_ok seq uid" "43 \<le> page_rest g (pos_offset pos)"
    "bs = filler E seq uid (page_rest g (pos_offset pos))"
proof -
  have G: "geometry_ok g" "validate_record_start pos g = Ok ()"
    and lt: "unat (pos_offset pos) < unat (max_file_size g)"
    using assms(2) by (auto simp: fits_def validate_record_start_Ok)
  show i: "identity_ok seq uid"
    using assms(3) by (auto simp: encode_page_end_def result_simps validate_identity_Ok)
  let ?n = "page_rest g (pos_offset pos)"
  have "43 \<le> length bs"
    using assms(3)
    by (auto simp: encode_page_end_def result_simps RecordHeader_encode_new split: if_splits)
  then show n: "43 \<le> ?n" using assms(2) by (simp add: fits_def)
  show "bs = filler E seq uid ?n"
    using encode_page_end_Ok [OF G n i, of E] assms(1,3) by (simp add: allocates_def)
qed

lemma decode_encoded:
  assumes "allocates E" and "encode_decoded E seq uid pos g d = Ok bs" and "fits g pos (length bs)"
    and "footer_lies_at pos d"
  shows "decode_record_at E bs pos g = Ok d"
proof (cases d)
  case (DR_TxBegin b)
  then show ?thesis
    using assms decode_record_at_frames(1) [of b g pos E] by (simp add: encode_tx_begin_Ok)
next
  case (DR_KvRecord r)
  then show ?thesis
    using assms decode_record_at_frames(2) [of r g pos E] by (simp add: encode_kv_record_Ok)
next
  case (DR_DeleteRecord r)
  then show ?thesis
    using assms decode_record_at_frames(3) [of r g pos E] by (simp add: encode_delete_record_Ok)
next
  case (DR_TxPreparedEnd f)
  then show ?thesis
    using assms decode_record_at_footer [of f g pos E] by (simp add: encode_tx_prepared_end_Ok)
next
  case DR_PageEnd
  then show ?thesis
    using assms encode_page_end_cases [OF assms(1,3)] decode_record_at_filler [of g pos seq uid E]
    by (simp add: fits_def)
qed

lemma encode_decoded_record:
  assumes "allocates E" and "decode_record_at E bs pos g = Ok d"
  shows "fits g pos (length bs) \<and> footer_lies_at pos d
    \<and> (\<exists>h. RecordHeader_decode E bs = Ok h
         \<and> encode_decoded E (rh_commit_seq h) (rh_tx_uuid h) pos g d = Ok bs)"
proof -
  from assms(2) obtain h where f: "fits g pos (length bs)" and h: "RecordHeader_decode E bs = Ok h"
    and l: "unat (rh_encoded_len h) = length bs"
    by (auto simp: decode_record_at_cases)
  have c: "can_alloc E site n" for site n using assms(1) by (simp add: allocates_def)
  have i: "identity_ok (rh_commit_seq h) (rh_tx_uuid h)"
    using h by (simp add: RecordHeader_decode_iff identity_ok_def)
  have G: "geometry_ok g" "validate_record_start pos g = Ok ()" using f by (simp_all add: fits_def)
  show ?thesis
  proof (cases "rh_record_type h")
    case RT_TxBegin
    with assms(2) h l obtain b where "decode_tx_begin E bs h = Ok b" "d = DR_TxBegin b"
      by (auto simp: decode_record_at_cases result_simps)
    then show ?thesis
      using decode_tx_begin_canonical [OF _ h l, of b] f h c RT_TxBegin
      by (auto simp: encode_tx_begin_Ok)
  next
    case RT_KvRecord
    with assms(2) h l obtain r where "decode_kv_record E bs h = Ok r" "d = DR_KvRecord r"
      by (auto simp: decode_record_at_cases result_simps)
    then show ?thesis
      using decode_kv_record_canonical [OF _ h l, of r] f h c RT_KvRecord
      by (auto simp: encode_kv_record_Ok)
  next
    case RT_DeleteRecord
    with assms(2) h l obtain r where "decode_delete_record E bs h = Ok r" "d = DR_DeleteRecord r"
      by (auto simp: decode_record_at_cases result_simps)
    then show ?thesis
      using decode_delete_record_canonical [OF _ h l, of r] f h c RT_DeleteRecord
      by (auto simp: encode_delete_record_Ok)
  next
    case RT_TxPreparedEnd
    with assms(2) h l obtain r e where r: "decode_tx_prepared_end E bs h = Ok r" "d = DR_TxPreparedEnd r"
      and e: "te_vlog_end r = VLogPosition (pos_file_id pos) (pos_offset pos + ucast (rh_encoded_len h))"
      by (auto simp: decode_record_at_cases result_simps checked_add_Some split: if_splits)
    have "rh_encoded_len h = 111"
      using r(1) by (auto simp: decode_tx_prepared_end_def TX_PREPARED_END_ENCODED_LEN_def split: if_splits)
    then show ?thesis
      using decode_footer_canonical [OF r(1) h l] r e f h c RT_TxPreparedEnd
      by (auto simp: encode_tx_prepared_end_Ok)
  next
    case RT_PageEnd
    with assms(2) h l have d: "decode_page_end E bs pos g = Ok ()" "d = DR_PageEnd"
      by (auto simp: decode_record_at_cases result_simps)
    show ?thesis
      using decode_page_end_canonical [OF d(1) h l RT_PageEnd f] d f h c G i
      by (auto simp: encode_page_end_Ok)
  qed
qed

section \<open>Properties\<close>

text \<open>An environment with the same checksum and an allocator that never refuses.\<close>

definition with_memory :: "env \<Rightarrow> env" where
  "with_memory E = E\<lparr>can_alloc := \<lambda>_ _. True\<rparr>"

lemma allocates_with_memory: "allocates (with_memory E)"
  by (simp add: allocates_def with_memory_def)

lemma crc_with_memory: "crc32c_append (with_memory E) = crc32c_append E" "crc32c (with_memory E) = crc32c E"
  by (simp_all add: fun_eq_iff crc32c_append_def crc32c_def with_memory_def)

lemma decode_with_memory: "decode_record_at (with_memory E) = decode_record_at E"
  by (intro ext) (simp only: decode_record_at_def RecordHeader_decode_def decode_tx_begin_def
      decode_kv_record_def decode_delete_record_def decode_tx_prepared_end_def decode_page_end_def
      verify_standard_record_crc_def crc_with_memory)

text \<open>
  C15: the positional decoder accepts exactly what the encoders write. Bytes decode to a record at
  a position if and only if they fit into the page of that position and are the encoding of that
  record (for a page filler, of some transaction), and a footer names the place where it ends.
\<close>

theorem record_codec_exact:
  "decode_record_at E bs pos g = Ok d \<longleftrightarrow>
     fits g pos (length bs) \<and> footer_lies_at pos d
     \<and> (\<exists>seq uid. encode_decoded (with_memory E) seq uid pos g d = Ok bs)"
  using decode_encoded [OF allocates_with_memory, of E _ _ pos g d bs]
    encode_decoded_record [OF allocates_with_memory, of E bs pos g d]
  by (auto simp: decode_with_memory)

end
