(* ===== verification/Layout.thy ===== *)
theory Layout
  imports VLogRecords
begin

text \<open>
  Where the records of a transaction go: \<open>LayoutPlanner\<close> of \<open>src/vlog/format.rs\<close>. The planner
  keeps the end of the log; for each record it inserts the page header, file header or page
  filler that its position asks for and never lets a record cross a page or leave a remainder a
  filler cannot occupy. The lemmas give its result in closed form on every branch.
\<close>

section \<open>The planner\<close>

datatype layout_prelude =
  LP_PageHeader vlog_position u32
| LP_FileHeader vlog_position
| LP_PageEnd vlog_position u32

record record_placement =
  pl_preludes :: "layout_prelude list"
  pl_record_start :: vlog_position
  pl_encoded_len :: u32

record layout_planner =
  lp_geometry :: vlog_geometry
  lp_position :: vlog_position

definition LayoutPlanner_empty :: "vlog_geometry \<Rightarrow> layout_planner res" where
  "LayoutPlanner_empty g =
     and_then (VLogGeometry_validate g) (\<lambda>_.
       Ok \<lparr>lp_geometry = g, lp_position = VLogPosition 0 0\<rparr>)"

definition LayoutPlanner_from_position :: "vlog_geometry \<Rightarrow> vlog_position \<Rightarrow> layout_planner res" where
  "LayoutPlanner_from_position g position =
     and_then (VLogGeometry_validate g) (\<lambda>_.
       if pos_file_id position > max_file_id g \<or> pos_offset position > max_file_size g
       then Err (invalid_vlog_error InvalidArgument)
       else if pos_offset position \<noteq> 0 \<and> pos_offset position \<noteq> max_file_size g
               \<and> (let page_offset = pos_offset position mod page_size g;
                      minimum = (if pos_offset position < page_size g
                                 then FIRST_PAGE_RECORD_AREA_START
                                 else OTHER_PAGE_RECORD_AREA_OFFSET)
                  in page_offset \<noteq> 0 \<and> page_offset < minimum)
       then Err (invalid_vlog_error InvalidArgument)
       else Ok \<lparr>lp_geometry = g, lp_position = position\<rparr>)"

definition enter_next_file :: "layout_planner \<Rightarrow> layout_planner res" where
  "enter_next_file P =
     (let g = lp_geometry P; p = lp_position P in
      if pos_offset p = max_file_size g then
        if pos_file_id p \<ge> max_file_id g then Err capacity_error
        else and_then (ok_or (checked_add (pos_file_id p) 1) capacity_error) (\<lambda>file_id.
               Ok (P\<lparr>lp_position := VLogPosition file_id 0\<rparr>))
      else Ok P)"

definition enter_page ::
  "layout_planner \<Rightarrow> layout_prelude list \<Rightarrow> (layout_planner \<times> layout_prelude list) res" where
  "enter_page P preludes =
     (let g = lp_geometry P; p = lp_position P in
      if pos_offset p = 0 then
        Ok (P\<lparr>lp_position := VLogPosition (pos_file_id p) FIRST_PAGE_RECORD_AREA_START\<rparr>,
            preludes @ [LP_PageHeader p 0,
              LP_FileHeader (VLogPosition (pos_file_id p) (word_of_nat PAGE_HEADER_ENCODED_LEN))])
      else if is_multiple_of (pos_offset p) (page_size g) then
        and_then (ok_or (checked_div (pos_offset p) (page_size g)) (decode_error InvalidLayout))
          (\<lambda>page_no_u64.
        and_then (ok_or (u32_try_from (unat page_no_u64)) (decode_error InvalidLayout)) (\<lambda>page_no.
        and_then (ok_or (checked_add (pos_offset p) OTHER_PAGE_RECORD_AREA_OFFSET) capacity_error)
          (\<lambda>offset.
            Ok (P\<lparr>lp_position := VLogPosition (pos_file_id p) offset\<rparr>,
                preludes @ [LP_PageHeader p page_no]))))
      else Ok (P, preludes))"

definition ensure_record_area ::
  "layout_planner \<Rightarrow> layout_prelude list \<Rightarrow> (layout_planner \<times> layout_prelude list) res" where
  "ensure_record_area P preludes =
     and_then (enter_next_file P) (\<lambda>P.
     and_then (enter_page P preludes) (\<lambda>(P, preludes).
     and_then (validate_record_start (lp_position P) (lp_geometry P)) (\<lambda>_. Ok (P, preludes))))"

definition skip_to_page_end ::
  "layout_planner \<Rightarrow> u64 \<Rightarrow> layout_prelude list \<Rightarrow> (layout_planner \<times> layout_prelude list \<times> u64) res" where
  "skip_to_page_end P remaining preludes =
     (if remaining < ucast PAGE_END_MIN_SIZE then Err (decode_error InvalidLayout)
      else
        and_then (ok_or (u32_try_from (unat remaining)) (decode_error InvalidLayout))
          (\<lambda>page_end_len.
        and_then (ok_or (checked_add (pos_offset (lp_position P)) remaining)
                   (decode_error InvalidLayout)) (\<lambda>offset.
        and_then (ensure_record_area
                   (P\<lparr>lp_position := VLogPosition (pos_file_id (lp_position P)) offset\<rparr>)
                   (preludes @ [LP_PageEnd (lp_position P) page_end_len])) (\<lambda>(P, preludes).
        and_then (remaining_in_page (pos_offset (lp_position P)) (lp_geometry P)) (\<lambda>remaining.
          Ok (P, preludes, remaining))))))"

definition needs_page_end :: "u64 \<Rightarrow> u64 \<Rightarrow> bool" where
  "needs_page_end remaining record_len \<longleftrightarrow> record_len > remaining
     \<or> (case checked_sub remaining record_len of
          Some remainder \<Rightarrow> 1 \<le> remainder \<and> remainder \<le> 42
        | None \<Rightarrow> False)"

definition place_in_page ::
  "layout_planner \<Rightarrow> layout_prelude list \<Rightarrow> u64 \<Rightarrow> u32 \<Rightarrow> (layout_planner \<times> record_placement) res" where
  "place_in_page P preludes remaining encoded_len =
     (let record_len = (ucast encoded_len :: u64) in
      if record_len > remaining then Err (invalid_vlog_error InvalidArgument)
      else
        and_then (ok_or (checked_sub remaining record_len) (decode_error InvalidLayout)) (\<lambda>after.
          if after \<noteq> 0 \<and> after < ucast PAGE_END_MIN_SIZE then Err (decode_error InvalidLayout)
          else
            and_then (ok_or (checked_add (pos_offset (lp_position P)) record_len) capacity_error)
              (\<lambda>offset.
              if offset > max_file_size (lp_geometry P) then Err capacity_error
              else Ok (P\<lparr>lp_position := VLogPosition (pos_file_id (lp_position P)) offset\<rparr>,
                       \<lparr>pl_preludes = preludes, pl_record_start = lp_position P,
                        pl_encoded_len = encoded_len\<rparr>))))"

definition plan_record_inner ::
  "env \<Rightarrow> layout_planner \<Rightarrow> u32 \<Rightarrow> (layout_planner \<times> record_placement) res" where
  "plan_record_inner E P encoded_len =
     and_then (try_reserve E ''PlacementPreludes'' 4 (invalid_vlog_error ResourceExhausted)) (\<lambda>_.
     and_then (ensure_record_area P []) (\<lambda>(P, preludes).
     and_then (remaining_in_page (pos_offset (lp_position P)) (lp_geometry P)) (\<lambda>remaining.
     and_then (if needs_page_end remaining (ucast encoded_len)
               then skip_to_page_end P remaining preludes
               else Ok (P, preludes, remaining)) (\<lambda>(P, preludes, remaining).
       place_in_page P preludes remaining encoded_len))))"

text \<open>\<open>plan_record\<close> works on a copy of the planner and keeps it only on success.\<close>

definition plan_record ::
  "env \<Rightarrow> layout_planner \<Rightarrow> u32 \<Rightarrow> layout_planner \<times> record_placement res" where
  "plan_record E P encoded_len =
     (if encoded_len < PAGE_END_MIN_SIZE \<or> ucast encoded_len > page_size (lp_geometry P)
      then (P, Err (invalid_vlog_error InvalidArgument))
      else case plan_record_inner E P encoded_len of
             Ok (candidate, placement) \<Rightarrow> (candidate, Ok placement)
           | Err e \<Rightarrow> (P, Err e))"

section \<open>Log positions\<close>

text \<open>
  A log position is a page boundary or a place in a record area; the end of a transaction also
  leaves either nothing or room for a filler in its page.
\<close>

definition boundary :: "vlog_geometry \<Rightarrow> vlog_position \<Rightarrow> bool" where
  "boundary g p \<longleftrightarrow> unat (page_size g) dvd unat (pos_offset p)"

definition log_position :: "vlog_geometry \<Rightarrow> vlog_position \<Rightarrow> bool" where
  "log_position g p \<longleftrightarrow> unat (pos_file_id p) \<le> unat (max_file_id g)
     \<and> unat (pos_offset p) \<le> unat (max_file_size g)
     \<and> (boundary g p \<or> record_area_ok g (unat (pos_offset p)))"

definition tail_position :: "vlog_geometry \<Rightarrow> vlog_position \<Rightarrow> bool" where
  "tail_position g p \<longleftrightarrow> log_position g p \<and> (boundary g p \<or> 43 \<le> page_rest g (pos_offset p))"

definition planner_ok :: "layout_planner \<Rightarrow> bool" where
  "planner_ok P \<longleftrightarrow> geometry_ok (lp_geometry P) \<and> tail_position (lp_geometry P) (lp_position P)"

definition needs_new_file :: "vlog_geometry \<Rightarrow> vlog_position \<Rightarrow> bool" where
  "needs_new_file g p \<longleftrightarrow> pos_offset p = max_file_size g"

definition file_entry :: "vlog_geometry \<Rightarrow> vlog_position \<Rightarrow> vlog_position" where
  "file_entry g p = (if needs_new_file g p then VLogPosition (pos_file_id p + 1) 0 else p)"

definition area_start :: "vlog_geometry \<Rightarrow> vlog_position \<Rightarrow> vlog_position" where
  "area_start g p =
     (if pos_offset p = 0 then VLogPosition (pos_file_id p) 64
      else if boundary g p then VLogPosition (pos_file_id p) (pos_offset p + 16)
      else p)"

definition area_preludes :: "vlog_geometry \<Rightarrow> vlog_position \<Rightarrow> layout_prelude list" where
  "area_preludes g p =
     (if pos_offset p = 0 then [LP_PageHeader p 0, LP_FileHeader (VLogPosition (pos_file_id p) 16)]
      else if boundary g p
      then [LP_PageHeader p (word_of_nat (unat (pos_offset p) div unat (page_size g)))]
      else [])"

definition can_enter :: "vlog_geometry \<Rightarrow> vlog_position \<Rightarrow> bool" where
  "can_enter g p \<longleftrightarrow> (needs_new_file g p \<longrightarrow> unat (pos_file_id p) < unat (max_file_id g))"

lemma boundary_zero [simp]: "pos_offset p = 0 \<Longrightarrow> boundary g p"
  by (simp add: boundary_def)

lemma file_entry_position:
  assumes "geometry_ok g" and "log_position g p" and "can_enter g p"
  shows "log_position g (file_entry g p)" "unat (pos_offset (file_entry g p)) < unat (max_file_size g)"
proof -
  note G = geometry_okD [OF assms(1)]
  have a: "unat (pos_file_id p + 1) = unat (pos_file_id p) + 1" if "unat (pos_file_id p) < unat (max_file_id g)"
    using that G(5) by (subst unat_add_no_overflow) simp_all
  show "log_position g (file_entry g p)"
    using assms G a by (auto simp: file_entry_def log_position_def can_enter_def)
  show "unat (pos_offset (file_entry g p)) < unat (max_file_size g)"
    using assms G by (auto simp: file_entry_def log_position_def needs_new_file_def
        word_unat_eq_iff)
qed

lemma area_start_position:
  assumes "geometry_ok g" and "log_position g p" and "unat (pos_offset p) < unat (max_file_size g)"
  shows "validate_record_start (area_start g p) g = Ok ()"
    and "boundary g p \<Longrightarrow> unat (pos_offset (area_start g p))
           = unat (pos_offset p) + (if pos_offset p = 0 then 64 else 16)"
    and "pos_file_id (area_start g p) = pos_file_id p"
proof -
  let ?ps = "unat (page_size g)" and ?o = "unat (pos_offset p)"
  note G = geometry_okD [OF assms(1)]
  show "pos_file_id (area_start g p) = pos_file_id p" by (simp add: area_start_def)
  have o16: "unat (pos_offset p + 16) = ?o + 16"
    using G assms(3) by (subst unat_add_no_overflow) simp_all
  show b: "unat (pos_offset (area_start g p)) = ?o + (if pos_offset p = 0 then 64 else 16)"
    if "boundary g p"
    using that by (simp add: area_start_def o16)
  have end_le: "?o + ?ps \<le> unat (max_file_size g)" if "boundary g p"
    using npage_end_le [of ?ps "unat (max_file_size g)" ?o] that G assms(3)
    by (auto simp: boundary_def npage_end_def elim!: dvdE)
  show "validate_record_start (area_start g p) g = Ok ()"
  proof (cases "boundary g p")
    case True
    have "record_area_ok g (unat (pos_offset (area_start g p)))"
    proof (cases "pos_offset p = 0")
      case True
      then show ?thesis using G by (simp add: area_start_def record_area_ok_def)
    next
      case False
      then have "?ps \<le> ?o"
        using True by (intro dvd_imp_le) (simp_all add: boundary_def unat_gt_0)
      moreover have "(?o + 16) mod ?ps = 16"
        using True G by (simp add: boundary_def mod_add_left_eq [symmetric] mod_eq_0_iff_dvd [symmetric])
      ultimately show ?thesis using True False
        by (simp add: area_start_def record_area_ok_def o16)
    qed
    then show ?thesis
      using assms end_le [OF True] G b [OF True]
      by (auto simp: validate_record_start_Ok log_position_def area_start_def split: if_splits)
  next
    case False
    then show ?thesis
      using assms by (auto simp: validate_record_start_Ok log_position_def area_start_def)
  qed
qed

lemma enter_next_file_eval:
  assumes "geometry_ok (lp_geometry P)"
  shows "enter_next_file P =
    (if can_enter (lp_geometry P) (lp_position P)
     then Ok (P\<lparr>lp_position := file_entry (lp_geometry P) (lp_position P)\<rparr>)
     else Err capacity_error)"
  using geometry_okD(5) [OF assms]
  by (auto simp: enter_next_file_def Let_def can_enter_def file_entry_def needs_new_file_def
      checked_add_def word_nat_simps)

lemma enter_page_eval:
  assumes "geometry_ok (lp_geometry P)"
    and "unat (pos_offset (lp_position P)) < unat (max_file_size (lp_geometry P))"
  shows "enter_page P preludes =
    Ok (P\<lparr>lp_position := area_start (lp_geometry P) (lp_position P)\<rparr>,
        preludes @ area_preludes (lp_geometry P) (lp_position P))"
proof -
  let ?o = "unat (pos_offset (lp_position P))" and ?ps = "unat (page_size (lp_geometry P))"
  note G = geometry_okD [OF assms(1)]
  have "?o div ?ps \<le> unat (max_file_size (lp_geometry P)) div ?ps"
    using assms(2) by (intro div_le_mono) simp
  then have "?o div ?ps < 2 ^ 32" using G(7) by simp
  then show ?thesis
    using G assms(2)
    by (auto simp: enter_page_def Let_def area_start_def area_preludes_def vlog_consts
        is_multiple_of_nat boundary_def checked_div_def u32_try_from_def unat_div_distrib
        checked_add_def)
qed

lemma ensure_record_area_eval:
  assumes "geometry_ok (lp_geometry P)" and "log_position (lp_geometry P) (lp_position P)"
  shows "ensure_record_area P preludes =
    (if can_enter (lp_geometry P) (lp_position P)
     then let q = file_entry (lp_geometry P) (lp_position P) in
       Ok (P\<lparr>lp_position := area_start (lp_geometry P) q\<rparr>, preludes @ area_preludes (lp_geometry P) q)
     else Err capacity_error)"
proof (cases "can_enter (lp_geometry P) (lp_position P)")
  case True
  note q = file_entry_position [OF assms True]
  show ?thesis
    using True area_start_position(1) [OF assms(1) q] q
    by (simp add: ensure_record_area_def enter_next_file_eval assms enter_page_eval Let_def)
next
  case False
  then show ?thesis by (simp add: ensure_record_area_def enter_next_file_eval assms)
qed

section \<open>The plan of one record\<close>

text \<open>
  A record that leaves room for a filler even after the headers of a first page. Every record
  the write path encodes has such a length in the production geometry.
\<close>

definition record_len_ok :: "vlog_geometry \<Rightarrow> nat \<Rightarrow> bool" where
  "record_len_ok g n \<longleftrightarrow> 43 \<le> n \<and> n + 107 \<le> unat (page_size g)"

definition fits_here :: "vlog_geometry \<Rightarrow> vlog_position \<Rightarrow> nat \<Rightarrow> bool" where
  "fits_here g p n \<longleftrightarrow>
     n = page_rest g (pos_offset p) \<or> n + 43 \<le> page_rest g (pos_offset p)"

definition pos_add :: "vlog_position \<Rightarrow> nat \<Rightarrow> vlog_position" where
  "pos_add p n = VLogPosition (pos_file_id p) (pos_offset p + word_of_nat n)"

definition next_page :: "vlog_geometry \<Rightarrow> vlog_position \<Rightarrow> vlog_position" where
  "next_page g p = pos_add p (page_rest g (pos_offset p))"

definition stays :: "vlog_geometry \<Rightarrow> vlog_position \<Rightarrow> nat \<Rightarrow> bool" where
  "stays g p n \<longleftrightarrow> boundary g p \<or> fits_here g p n"

definition plan_entry :: "vlog_geometry \<Rightarrow> vlog_position \<Rightarrow> nat \<Rightarrow> vlog_position" where
  "plan_entry g p n = (if stays g p n then file_entry g p else file_entry g (next_page g p))"

definition plan_enters :: "vlog_geometry \<Rightarrow> vlog_position \<Rightarrow> nat \<Rightarrow> bool" where
  "plan_enters g p n \<longleftrightarrow> can_enter g (if stays g p n then p else next_page g p)"

definition plan_start :: "vlog_geometry \<Rightarrow> vlog_position \<Rightarrow> nat \<Rightarrow> vlog_position" where
  "plan_start g p n = area_start g (plan_entry g p n)"

definition plan_preludes :: "vlog_geometry \<Rightarrow> vlog_position \<Rightarrow> nat \<Rightarrow> layout_prelude list" where
  "plan_preludes g p n =
     (if stays g p n then [] else [LP_PageEnd p (word_of_nat (page_rest g (pos_offset p)))])
     @ area_preludes g (plan_entry g p n)"

lemma page_rest_bounds:
  assumes "geometry_ok g" and "unat off < unat (max_file_size g)"
  shows "0 < page_rest g off" "page_rest g off \<le> 65536"
    "unat off + page_rest g off \<le> unat (max_file_size g)"
proof -
  note G = geometry_okD [OF assms(1)]
  show "0 < page_rest g off" using G by (simp add: page_rest_def)
  show "page_rest g off \<le> 65536" using G page_rest_le [of g off] by simp
  show "unat off + page_rest g off \<le> unat (max_file_size g)"
    using npage_end_le [of "unat (page_size g)" "unat (max_file_size g)" "unat off"] G assms(2)
    by (simp add: page_rest_end [OF assms(1)])
qed

lemma unat_pos_add:
  "geometry_ok g \<Longrightarrow> unat (pos_offset p) + n \<le> unat (max_file_size g) \<Longrightarrow>
   unat (pos_offset (pos_add p n)) = unat (pos_offset p) + n"
  using geometry_okD(3) [of g] by (simp add: pos_add_def unat_add_no_overflow)

lemma pos_add_simps [simp]: "pos_file_id (pos_add p n) = pos_file_id p"
  by (simp add: pos_add_def)

lemma next_page_position:
  assumes "geometry_ok g" and "log_position g p" and "unat (pos_offset p) < unat (max_file_size g)"
  shows "boundary g (next_page g p)" "log_position g (next_page g p)"
proof -
  note R = page_rest_bounds [OF assms(1,3)]
  have u: "unat (pos_offset (next_page g p)) = npage_end (unat (page_size g)) (unat (pos_offset p))"
    using unat_pos_add [OF assms(1) R(3)] by (simp add: next_page_def page_rest_end [OF assms(1)])
  show b: "boundary g (next_page g p)" by (simp add: boundary_def u npage_end_def)
  show "log_position g (next_page g p)"
    using b assms R(3) unat_pos_add [OF assms(1) R(3)]
    by (simp add: log_position_def next_page_def)
qed

lemma boundary_area_rest:
  assumes "geometry_ok g" and "log_position g p" and "boundary g p"
    and "unat (pos_offset p) < unat (max_file_size g)"
  shows "page_rest g (pos_offset (area_start g p))
    = unat (page_size g) - (if pos_offset p = 0 then 64 else 16)"
proof -
  note G = geometry_okD [OF assms(1)]
  have "unat (pos_offset (area_start g p)) mod unat (page_size g) = (if pos_offset p = 0 then 64 else 16)"
    using assms(3) G
    by (simp add: area_start_position(2) [OF assms(1,2,4,3)] boundary_def mod_add_left_eq [symmetric]
        mod_eq_0_iff_dvd [symmetric])
  then show ?thesis by (simp add: page_rest_def)
qed

lemma area_start_id [simp]: "\<not> boundary g p \<Longrightarrow> area_start g p = p"
  by (auto simp: area_start_def)

lemma file_entry_id:
  assumes "geometry_ok g" and "\<not> boundary g p"
  shows "file_entry g p = p" "can_enter g p"
proof -
  have "\<not> needs_new_file g p"
    using assms geometry_okD(4) [OF assms(1)] by (auto simp: needs_new_file_def boundary_def)
  then show "file_entry g p = p" "can_enter g p" by (simp_all add: file_entry_def can_enter_def)
qed

lemma boundary_file_entry: "boundary g p \<Longrightarrow> boundary g (file_entry g p)"
  by (simp add: file_entry_def)

lemma fresh_page_roomy:
  assumes "geometry_ok g" and "log_position g p" and "boundary g p"
    and "unat (pos_offset p) < unat (max_file_size g)" and "record_len_ok g n"
  shows "n + 43 \<le> page_rest g (pos_offset (area_start g p))"
  using assms(5) by (auto simp: boundary_area_rest [OF assms(1-4)] record_len_ok_def)

lemma stays_entry:
  assumes "geometry_ok g" and "tail_position g p" and "plan_enters g p n" and "record_len_ok g n"
  shows "log_position g (plan_entry g p n)"
    and "unat (pos_offset (plan_entry g p n)) < unat (max_file_size g)"
    and "fits_here g (plan_start g p n) n"
    and "validate_record_start (plan_start g p n) g = Ok ()"
proof -
  let ?b = "if stays g p n then p else next_page g p"
  have lp: "log_position g p" using assms(2) by (simp add: tail_position_def)
  have lt: "unat (pos_offset p) < unat (max_file_size g)" if "\<not> boundary g p"
    using lp that geometry_okD(4) [OF assms(1)]
    by (auto simp: log_position_def boundary_def intro!: le_neq_implies_less)
  have lb: "log_position g ?b"
    using lp next_page_position(2) [OF assms(1) lp lt] by (simp add: stays_def)
  have ce: "can_enter g ?b" using assms(3) by (simp add: plan_enters_def)
  have e: "plan_entry g p n = file_entry g ?b" by (simp add: plan_entry_def)
  show lpe: "log_position g (plan_entry g p n)"
    and lte: "unat (pos_offset (plan_entry g p n)) < unat (max_file_size g)"
    unfolding e by (rule file_entry_position [OF assms(1) lb ce])+
  show "fits_here g (plan_start g p n) n"
  proof (cases "boundary g (plan_entry g p n)")
    case True
    then show ?thesis
      using fresh_page_roomy [OF assms(1) lpe True lte assms(4)] by (simp add: fits_here_def plan_start_def)
  next
    case False
    then have nb: "\<not> boundary g ?b" using boundary_file_entry e by metis
    then have "stays g p n"
      using next_page_position(1) [OF assms(1) lp lt] by (cases "stays g p n") (auto simp: stays_def)
    then have "fits_here g p n" "plan_entry g p n = p"
      using nb file_entry_id [OF assms(1)] by (auto simp: stays_def plan_entry_def)
    then show ?thesis using nb \<open>stays g p n\<close> by (simp add: plan_start_def)
  qed
  show "validate_record_start (plan_start g p n) g = Ok ()"
    unfolding plan_start_def by (rule area_start_position(1) [OF assms(1) lpe lte])
qed

lemma tail_not_boundary:
  assumes "geometry_ok g" and "tail_position g p" and "\<not> boundary g p"
  shows "log_position g p" "unat (pos_offset p) < unat (max_file_size g)"
    "43 \<le> page_rest g (pos_offset p)"
proof -
  show "log_position g p" "43 \<le> page_rest g (pos_offset p)"
    using assms by (simp_all add: tail_position_def)
  then show "unat (pos_offset p) < unat (max_file_size g)"
    using assms(3) geometry_okD(4) [OF assms(1)]
    by (auto simp: log_position_def boundary_def intro!: le_neq_implies_less)
qed

lemma pos_add_tail:
  assumes "geometry_ok g" and "validate_record_start p g = Ok ()" and "fits_here g p n"
  shows "tail_position g (pos_add p n)" "fits g p n"
    "unat (pos_offset (pos_add p n)) = unat (pos_offset p) + n"
proof -
  have lt: "unat (pos_offset p) < unat (max_file_size g)"
    using assms(2) by (simp add: validate_record_start_Ok)
  note R = page_rest_bounds [OF assms(1) lt] and G = geometry_okD [OF assms(1)]
  let ?ps = "unat (page_size g)" and ?o = "unat (pos_offset p)"
  have le: "n \<le> page_rest g (pos_offset p)" using assms(3) by (auto simp: fits_here_def)
  then show "fits g p n" using assms by (simp add: fits_def)
  show u: "unat (pos_offset (pos_add p n)) = ?o + n"
    using le R(3) by (intro unat_pos_add [OF assms(1)]) simp
  have "boundary g (pos_add p n) \<or> (record_area_ok g (?o + n) \<and> 43 \<le> page_rest g (pos_offset (pos_add p n)))"
  proof (cases "n = page_rest g (pos_offset p)")
    case True
    then have "pos_add p n = next_page g p" by (simp add: next_page_def)
    moreover have "log_position g p" using assms(2) by (simp add: log_position_def validate_record_start_Ok)
    ultimately show ?thesis using next_page_position(1) [OF assms(1) _ lt] by simp
  next
    case False
    then have n: "n + 43 \<le> ?ps - ?o mod ?ps" using assms(3) by (simp add: fits_here_def page_rest_def)
    have d: "(?o + n) mod ?ps = ?o mod ?ps + n"
      using n by (subst mod_add_left_eq [symmetric]) simp
    have "record_area_ok g ?o" using assms(2) by (simp add: validate_record_start_Ok)
    then show ?thesis using n d
      by (auto simp: record_area_ok_def page_rest_def u split: if_splits)
  qed
  then show "tail_position g (pos_add p n)"
    using assms(2) le R(3) u by (auto simp: tail_position_def log_position_def validate_record_start_Ok)
qed

lemma skip_to_page_end_eval:
  assumes "geometry_ok (lp_geometry P)" and "tail_position (lp_geometry P) (lp_position P)"
    and "\<not> boundary (lp_geometry P) (lp_position P)"
  shows "skip_to_page_end P (word_of_nat (page_rest (lp_geometry P) (pos_offset (lp_position P)))) ps =
    (let g = lp_geometry P; p = lp_position P; q = file_entry g (next_page g p) in
     if can_enter g (next_page g p)
     then Ok (P\<lparr>lp_position := area_start g q\<rparr>,
              ps @ [LP_PageEnd p (word_of_nat (page_rest g (pos_offset p)))] @ area_preludes g q,
              word_of_nat (page_rest g (pos_offset (area_start g q))))
     else Err capacity_error)"
proof -
  let ?g = "lp_geometry P" and ?p = "lp_position P"
  let ?r = "page_rest ?g (pos_offset ?p)" and ?q = "file_entry ?g (next_page ?g ?p)"
  note T = tail_not_boundary [OF assms] and G = geometry_okD [OF assms(1)]
  note R = page_rest_bounds [OF assms(1) T(2)]
  note N = next_page_position [OF assms(1) T(1,2)]
  have w: "unat (word_of_nat ?r :: u64) = ?r" "unat (word_of_nat ?r :: u32) = ?r"
    using R(2) by simp_all
  have c: "checked_add (pos_offset ?p) (word_of_nat ?r) = Some (pos_offset (next_page ?g ?p))"
    using R(3) G(3) w by (simp add: checked_add_def next_page_def pos_add_def)
  have f: "VLogPosition (pos_file_id ?p) (pos_offset (next_page ?g ?p)) = next_page ?g ?p"
    by (simp add: next_page_def pos_add_def)
  have e: "ensure_record_area (P\<lparr>lp_position := next_page ?g ?p\<rparr>) ps' =
      (if can_enter ?g (next_page ?g ?p)
       then Ok (P\<lparr>lp_position := area_start ?g ?q\<rparr>, ps' @ area_preludes ?g ?q)
       else Err capacity_error)" for ps'
    using ensure_record_area_eval [of "P\<lparr>lp_position := next_page ?g ?p\<rparr>" ps'] assms(1) N(2)
    by (simp add: Let_def)
  show ?thesis
  proof (cases "can_enter ?g (next_page ?g ?p)")
    case True
    note q = file_entry_position [OF assms(1) N(2) True]
    have "unat (pos_offset (area_start ?g ?q)) < unat (max_file_size ?g)"
      using area_start_position(1) [OF assms(1) q] by (simp add: validate_record_start_Ok)
    note rem = remaining_in_page_eval [OF assms(1) this]
    show ?thesis
      using True T(3) w R(2)
      by (simp add: skip_to_page_end_def PAGE_END_MIN_SIZE_def word_less_nat_alt u32_try_from_def
          c f e Let_def rem page_rest_def [symmetric])
  next
    case False
    then show ?thesis
      using T(3) w R(2)
      by (simp add: skip_to_page_end_def PAGE_END_MIN_SIZE_def word_less_nat_alt u32_try_from_def
          c f e Let_def)
  qed
qed

lemma needs_page_end_nat:
  assumes "r \<le> 65536"
  shows "needs_page_end (word_of_nat r) (ucast (n :: u32)) \<longleftrightarrow> \<not> (unat n = r \<or> unat n + 43 \<le> r)"
proof -
  have w: "unat (word_of_nat r :: u64) = r" using assms by simp
  show ?thesis
  proof (cases "unat n \<le> r")
    case True
    then have c: "checked_sub (word_of_nat r :: u64) (ucast n) = Some (word_of_nat r - ucast n)"
      and u: "unat (word_of_nat r - ucast n :: u64) = r - unat n"
      using w by (simp_all add: checked_sub_def word_le_nat_alt unat_sub)
    show ?thesis unfolding needs_page_end_def c using True w
      by (auto simp: word_le_nat_alt word_less_nat_alt u)
  next
    case False
    then show ?thesis using w by (auto simp: needs_page_end_def word_less_nat_alt)
  qed
qed

lemma VLogPosition_pos_add: "VLogPosition (pos_file_id p) (pos_offset (pos_add p n)) = pos_add p n"
  by (simp add: pos_add_def)

lemma place_in_page_eval:
  assumes "geometry_ok (lp_geometry P)" and "validate_record_start (lp_position P) (lp_geometry P) = Ok ()"
    and "fits_here (lp_geometry P) (lp_position P) (unat n)"
  shows "place_in_page P ps (word_of_nat (page_rest (lp_geometry P) (pos_offset (lp_position P)))) n
    = Ok (P\<lparr>lp_position := pos_add (lp_position P) (unat n)\<rparr>,
          \<lparr>pl_preludes = ps, pl_record_start = lp_position P, pl_encoded_len = n\<rparr>)"
proof -
  let ?g = "lp_geometry P" and ?p = "lp_position P"
  let ?r = "page_rest ?g (pos_offset ?p)"
  have lt: "unat (pos_offset ?p) < unat (max_file_size ?g)"
    using assms(2) by (simp add: validate_record_start_Ok)
  note R = page_rest_bounds [OF assms(1) lt] and G = geometry_okD [OF assms(1)]
  have w: "unat (word_of_nat ?r :: u64) = ?r" using R(2) by simp
  have le: "unat n \<le> ?r" using assms(3) by (auto simp: fits_here_def)
  let ?after = "word_of_nat ?r - ucast n :: u64"
  have c: "checked_sub (word_of_nat ?r :: u64) (ucast n) = Some ?after"
    and ua: "unat ?after = ?r - unat n"
    using le w by (simp_all add: checked_sub_def word_le_nat_alt unat_sub)
  have na: "\<not> (?after \<noteq> 0 \<and> ?after < 43)"
    using assms(3) by (auto simp: word_less_nat_alt ua fits_here_def word_unat_eq_iff)
  have u: "unat (pos_offset (pos_add ?p (unat n))) = unat (pos_offset ?p) + unat n"
    by (rule pos_add_tail(3) [OF assms])
  have a: "checked_add (pos_offset ?p) (ucast n) = Some (pos_offset (pos_add ?p (unat n)))"
    using le R(3) G(3) by (auto simp: checked_add_def pos_add_def)
  have m: "\<not> pos_offset (pos_add ?p (unat n)) > max_file_size ?g"
    using le R(3) by (simp add: word_less_nat_alt u)
  have "\<not> ucast n > (word_of_nat ?r :: u64)" using le w by (simp add: word_less_nat_alt)
  then show ?thesis
    using na by (simp add: place_in_page_def Let_def c a m PAGE_END_MIN_SIZE_def VLogPosition_pos_add)
qed

definition planned :: "vlog_geometry \<Rightarrow> vlog_position \<Rightarrow> u32 \<Rightarrow> record_placement" where
  "planned g p n = \<lparr>pl_preludes = plan_preludes g p (unat n), pl_record_start = plan_start g p (unat n),
     pl_encoded_len = n\<rparr>"

lemma plan_record_inner_eval:
  assumes "planner_ok P" and "record_len_ok (lp_geometry P) (unat n)"
    and "can_alloc E ''PlacementPreludes'' 4"
  shows "plan_record_inner E P n =
    (if plan_enters (lp_geometry P) (lp_position P) (unat n)
     then Ok (P\<lparr>lp_position := pos_add (plan_start (lp_geometry P) (lp_position P) (unat n)) (unat n)\<rparr>,
              planned (lp_geometry P) (lp_position P) n)
     else Err capacity_error)"
proof -
  let ?g = "lp_geometry P" and ?p = "lp_position P"
  have g: "geometry_ok ?g" and t: "tail_position ?g ?p" using assms(1) by (simp_all add: planner_ok_def)
  then have lp: "log_position ?g ?p" by (simp add: tail_position_def)
  have res: "try_reserve E ''PlacementPreludes'' 4 e = Ok ()" for e using assms(3) by simp
  note start = stays_entry [OF g t _ assms(2)]
  have place: "place_in_page (P\<lparr>lp_position := plan_start ?g ?p (unat n)\<rparr>) ps
      (word_of_nat (page_rest ?g (pos_offset (plan_start ?g ?p (unat n))))) n
    = Ok (P\<lparr>lp_position := pos_add (plan_start ?g ?p (unat n)) (unat n)\<rparr>,
          \<lparr>pl_preludes = ps, pl_record_start = plan_start ?g ?p (unat n), pl_encoded_len = n\<rparr>)"
    if "plan_enters ?g ?p (unat n)" for ps
    using place_in_page_eval [of "P\<lparr>lp_position := plan_start ?g ?p (unat n)\<rparr>" n ps] g
      start(3,4) [OF that] by simp
  show ?thesis
  proof (cases "can_enter ?g ?p")
    case False
    then have "boundary ?g ?p" using file_entry_id [OF g] by blast
    then have "\<not> plan_enters ?g ?p (unat n)" using False by (simp add: plan_enters_def stays_def)
    then show ?thesis
      using False by (simp add: plan_record_inner_def res ensure_record_area_eval [OF g lp])
  next
    case True
    let ?q = "file_entry ?g ?p"
    let ?s = "area_start ?g ?q"
    note q = file_entry_position [OF g lp True]
    have lt: "unat (pos_offset ?s) < unat (max_file_size ?g)"
      using area_start_position(1) [OF g q] by (simp add: validate_record_start_Ok)
    note rem = remaining_in_page_eval [OF g lt, folded page_rest_def]
    note np = needs_page_end_nat [OF page_rest_bounds(2) [OF g lt], of n]
    note ev = plan_record_inner_def res ensure_record_area_eval [OF g lp] Let_def rem
    show ?thesis
    proof (cases "stays ?g ?p (unat n)")
      case stay: True
      then have e: "plan_enters ?g ?p (unat n)" and ps: "?s = plan_start ?g ?p (unat n)"
        and pp: "area_preludes ?g ?q = plan_preludes ?g ?p (unat n)"
        using True by (simp_all add: plan_enters_def plan_start_def plan_entry_def plan_preludes_def)
      have "\<not> needs_page_end (word_of_nat (page_rest ?g (pos_offset ?s))) (ucast n)"
        using start(3) [OF e] unfolding np by (simp add: ps fits_here_def)
      then show ?thesis
        using True e by (simp add: ev planned_def place) (simp add: ps pp place)
    next
      case False
      then have nb: "\<not> boundary ?g ?p" and nf: "\<not> fits_here ?g ?p (unat n)" by (simp_all add: stays_def)
      have s: "?q = ?p" "?s = ?p" "area_preludes ?g ?q = []"
        using nb file_entry_id [OF g nb] by (auto simp: area_preludes_def)
      have ap: "area_preludes ?g ?p = []" using s by simp
      note rem = remaining_in_page_eval [OF g tail_not_boundary(2) [OF g t nb], folded page_rest_def]
      have "needs_page_end (word_of_nat (page_rest ?g (pos_offset ?p))) (ucast n)"
        using nf np nb by (simp add: s fits_here_def)
      moreover have "area_start ?g (file_entry ?g (next_page ?g ?p)) = plan_start ?g ?p (unat n)"
        using False by (simp add: plan_start_def plan_entry_def)
      moreover have "plan_preludes ?g ?p (unat n) = LP_PageEnd ?p (word_of_nat (page_rest ?g (pos_offset ?p)))
          # area_preludes ?g (file_entry ?g (next_page ?g ?p))"
        using False by (simp add: plan_preludes_def plan_entry_def)
      moreover have "plan_enters ?g ?p (unat n) \<longleftrightarrow> can_enter ?g (next_page ?g ?p)"
        using False by (simp add: plan_enters_def)
      ultimately show ?thesis
        using True skip_to_page_end_eval [OF g t nb, where ps = "[]"] place nb
        by (simp add: ev rem s(1) ap planned_def)
    qed
  qed
qed

text \<open>
  The result of planning, and what it keeps: the record lies in one page, the planner ends where
  the record does, and a refusal leaves the planner where it was.
\<close>

lemma plan_record_eval:
  assumes "planner_ok P" and "record_len_ok (lp_geometry P) (unat n)"
    and "can_alloc E ''PlacementPreludes'' 4"
  shows "plan_record E P n =
    (if plan_enters (lp_geometry P) (lp_position P) (unat n)
     then (P\<lparr>lp_position := pos_add (plan_start (lp_geometry P) (lp_position P) (unat n)) (unat n)\<rparr>,
           Ok (planned (lp_geometry P) (lp_position P) n))
     else (P, Err capacity_error))"
proof -
  have "\<not> (n < PAGE_END_MIN_SIZE \<or> ucast n > page_size (lp_geometry P))"
    using assms(2) by (simp add: record_len_ok_def PAGE_END_MIN_SIZE_def word_less_nat_alt)
  then show ?thesis using plan_record_inner_eval [OF assms] by (simp add: plan_record_def)
qed

lemma plan_record_keeps:
  assumes "planner_ok P" and "record_len_ok (lp_geometry P) (unat n)"
    and "can_alloc E ''PlacementPreludes'' 4" and "plan_record E P n = (P', r)"
  shows "planner_ok P'" "lp_geometry P' = lp_geometry P"
proof -
  let ?g = "lp_geometry P" and ?p = "lp_position P"
  have g: "geometry_ok ?g" and t: "tail_position ?g ?p" using assms(1) by (simp_all add: planner_ok_def)
  note st = stays_entry [OF g t _ assms(2)]
  have "tail_position ?g (pos_add (plan_start ?g ?p (unat n)) (unat n))" if "plan_enters ?g ?p (unat n)"
    by (rule pos_add_tail(1) [OF g st(4) [OF that] st(3) [OF that]])
  then show "planner_ok P'" "lp_geometry P' = lp_geometry P"
    using assms(4) g t plan_record_eval [OF assms(1-3)]
    by (auto simp: planner_ok_def split: if_splits)
qed

lemma planner_ok_empty: "LayoutPlanner_empty g = Ok P \<Longrightarrow> planner_ok P \<and> lp_geometry P = g"
  by (auto simp: LayoutPlanner_empty_def result_simps VLogGeometry_validate_Ok planner_ok_def
      tail_position_def log_position_def)

lemma LayoutPlanner_from_position_Ok:
  "LayoutPlanner_from_position g p = Ok P \<longleftrightarrow>
     geometry_ok g \<and> log_position g p \<and> P = \<lparr>lp_geometry = g, lp_position = p\<rparr>"
proof (cases "geometry_ok g")
  case True
  note G = geometry_okD [OF True]
  have m: "pos_offset p mod page_size g = 0 \<longleftrightarrow> boundary g p"
    by (simp add: boundary_def word_unat_eq_iff unat_mod_distrib mod_eq_0_iff_dvd)
  have b: "boundary g p" if "pos_offset p = max_file_size g"
    using G(4) that by (simp add: boundary_def)
  have r: "record_area_ok g (unat (pos_offset p)) \<longleftrightarrow>
      \<not> pos_offset p mod page_size g < record_area_offset (pos_offset p) g"
    by (auto simp: record_area_ok_def word_less_nat_alt unat_mod_distrib record_area_offset_nat)
  show ?thesis
    using True b
    by (auto simp: LayoutPlanner_from_position_def result_simps VLogGeometry_validate_Ok
        log_position_def word_less_nat_alt [symmetric] word_le_nat_alt [symmetric] Let_def r
        record_area_offset_def [symmetric] m not_less)
next
  case False
  then show ?thesis
    by (auto simp: LayoutPlanner_from_position_def result_simps VLogGeometry_validate_Ok)
qed

lemma geometry_ok_PRODUCTION [simp]: "geometry_ok PRODUCTION"
  by (simp add: geometry_ok_def PRODUCTION_def vlog_consts)

lemma record_len_ok_PRODUCTION: "43 \<le> n \<Longrightarrow> n \<le> 60055 \<Longrightarrow> record_len_ok PRODUCTION n"
  by (simp add: record_len_ok_def PRODUCTION_def vlog_consts)

section \<open>Properties\<close>



end
