(* ===== verification/Envelope.thy ===== *)
theory Envelope
  imports Layout
begin

text \<open>
  Preparing the envelope of a transaction (\<open>prepare_envelope\<close> and \<open>append_placement\<close> of
  \<open>src/vlog/format.rs\<close>): the operations are measured, the records placed, the envelope checksum
  computed and every chunk encoded before the planner moves. The lemmas give the plan of a whole
  transaction in closed form and the conditions under which preparing succeeds.
\<close>

section \<open>Preparing\<close>

datatype logical_operation = LO_Put bytes bytes | LO_Delete bytes

fun operation_key :: "logical_operation \<Rightarrow> bytes" where
  "operation_key (LO_Put key value) = key"
| "operation_key (LO_Delete key) = key"

record prepared_envelope =
  pe_commit_seq :: u64
  pe_tx_uuid :: uuid
  pe_vlog_begin :: vlog_position
  pe_vlog_end :: vlog_position
  pe_envelope_crc32c :: u32
  pe_chunks :: "physical_chunk list"
  pe_value_pointers :: "value_pointer option list"

record op_tally =
  ot_distinct_keys :: "bytes set"
  ot_kv_record_count :: u64
  ot_delete_record_count :: u64
  ot_record_lengths :: "u32 list"

definition tally_operation :: "op_tally \<Rightarrow> logical_operation \<Rightarrow> op_tally res" where
  "tally_operation t operation =
     (let key = operation_key operation in
      if key = [] \<or> length key > unat MAX_KEY_VALUE_SIZE then Err (invalid_vlog_error InvalidArgument)
      else
        let t = t\<lparr>ot_distinct_keys := insert key (ot_distinct_keys t)\<rparr> in
        case operation of
          LO_Put _ value \<Rightarrow>
            and_then (ok_or (usize_checked_add (length key) (length value))
                       (invalid_vlog_error InvalidArgument)) (\<lambda>combined_len.
            and_then (ok_or (u16_try_from (length key)) (invalid_vlog_error InvalidArgument)) (\<lambda>key_len.
            and_then (ok_or (u16_try_from (length value)) (invalid_vlog_error InvalidArgument)) (\<lambda>_.
              if key_len = 0 \<or> combined_len > unat MAX_KEY_VALUE_SIZE
              then Err (invalid_vlog_error InvalidArgument)
              else
                and_then (ok_or (u32_try_from combined_len) (invalid_vlog_error InvalidArgument)) (\<lambda>c.
                and_then (ok_or (checked_add KV_RECORD_FIXED_LEN_WITH_CRC c)
                           (invalid_vlog_error InvalidArgument)) (\<lambda>encoded_len.
                and_then (ok_or (checked_add (ot_kv_record_count t) 1)
                           (invalid_vlog_error CapacityExceeded)) (\<lambda>count.
                  Ok (t\<lparr>ot_record_lengths := ot_record_lengths t @ [encoded_len],
                        ot_kv_record_count := count\<rparr>)))))))
        | LO_Delete _ \<Rightarrow>
            and_then (ok_or (u16_try_from (length key)) (invalid_vlog_error InvalidArgument)) (\<lambda>key_len.
            and_then (ok_or (checked_add 53 (ucast key_len)) (invalid_vlog_error InvalidArgument))
              (\<lambda>encoded_len.
            and_then (ok_or (checked_add (ot_delete_record_count t) 1)
                       (invalid_vlog_error CapacityExceeded)) (\<lambda>count.
              Ok (t\<lparr>ot_record_lengths := ot_record_lengths t @ [encoded_len],
                    ot_delete_record_count := count\<rparr>)))))"

fun tally_operations :: "op_tally \<Rightarrow> logical_operation list \<Rightarrow> op_tally res" where
  "tally_operations t [] = Ok t"
| "tally_operations t (operation # operations) =
     and_then (tally_operation t operation) (\<lambda>t. tally_operations t operations)"

fun plan_records ::
  "env \<Rightarrow> layout_planner \<Rightarrow> u32 list \<Rightarrow> (layout_planner \<times> record_placement list) res" where
  "plan_records E P [] = Ok (P, [])"
| "plan_records E P (n # ns) =
     (case plan_record E P n of
        (P, Err e) \<Rightarrow> Err e
      | (P, Ok placement) \<Rightarrow>
          and_then (plan_records E P ns) (\<lambda>(P, placements). Ok (P, placement # placements)))"

fun kv_of :: "u64 \<Rightarrow> uuid \<Rightarrow> u64 \<Rightarrow> bytes \<Rightarrow> bytes \<Rightarrow> kv_record" where
  "kv_of seq uid i key value = \<lparr>kv_commit_seq = seq, kv_tx_uuid = uid, kv_op_index = i,
     kv_key = key, kv_value = value\<rparr>"

fun delete_of :: "u64 \<Rightarrow> uuid \<Rightarrow> u64 \<Rightarrow> bytes \<Rightarrow> delete_record" where
  "delete_of seq uid i key = \<lparr>dl_commit_seq = seq, dl_tx_uuid = uid, dl_op_index = i, dl_key = key\<rparr>"

fun crc_operations ::
  "env \<Rightarrow> u64 \<Rightarrow> uuid \<Rightarrow> u32 \<Rightarrow> usize \<Rightarrow> logical_operation list \<Rightarrow> u32 res" where
  "crc_operations E seq uid crc i [] = Ok crc"
| "crc_operations E seq uid crc i (operation # operations) =
     and_then (ok_or (u64_try_from i) (invalid_vlog_error CapacityExceeded)) (\<lambda>op_index.
     and_then (case operation of
                 LO_Put key value \<Rightarrow> update_kv_record E crc (kv_of seq uid op_index key value)
               | LO_Delete key \<Rightarrow> update_delete_record E crc (delete_of seq uid op_index key)) (\<lambda>crc.
       crc_operations E seq uid crc (Suc i) operations))"

definition try_copy_structural_bytes :: "env \<Rightarrow> bytes \<Rightarrow> bytes res" where
  "try_copy_structural_bytes E encoded =
     and_then (try_reserve E ''StructuralBytes'' (length encoded)
                (invalid_vlog_error ResourceExhausted)) (\<lambda>_. Ok encoded)"

fun prelude_chunk ::
  "env \<Rightarrow> uuid \<Rightarrow> u64 \<Rightarrow> uuid \<Rightarrow> vlog_geometry \<Rightarrow> layout_prelude \<Rightarrow> physical_chunk res" where
  "prelude_chunk E db seq uid g (LP_PageHeader position page_no) =
     and_then (PageHeader_encode E \<lparr>ph_file_id = pos_file_id position, ph_page_no = page_no\<rparr>) (\<lambda>encoded.
     and_then (try_copy_structural_bytes E encoded) (\<lambda>bytes.
       Ok \<lparr>chunk_position = position, chunk_bytes = bytes\<rparr>))"
| "prelude_chunk E db seq uid g (LP_FileHeader position) =
     and_then (VLogFileHeader_encode E (VLogFileHeader_new db (pos_file_id position))) (\<lambda>encoded.
     and_then (try_copy_structural_bytes E encoded) (\<lambda>bytes.
       Ok \<lparr>chunk_position = position, chunk_bytes = bytes\<rparr>))"
| "prelude_chunk E db seq uid g (LP_PageEnd position encoded_len) =
     and_then (encode_page_end E seq uid position g) (\<lambda>bytes.
       if length bytes \<noteq> unat encoded_len then Err (decode_error InvalidLayout)
       else Ok \<lparr>chunk_position = position, chunk_bytes = bytes\<rparr>)"

fun append_preludes ::
  "env \<Rightarrow> uuid \<Rightarrow> u64 \<Rightarrow> uuid \<Rightarrow> vlog_geometry \<Rightarrow> physical_chunk list \<Rightarrow> layout_prelude list \<Rightarrow>
   physical_chunk list res" where
  "append_preludes E db seq uid g chunks [] = Ok chunks"
| "append_preludes E db seq uid g chunks (p # ps) =
     and_then (prelude_chunk E db seq uid g p) (\<lambda>chunk.
       append_preludes E db seq uid g (chunks @ [chunk]) ps)"

definition append_placement ::
  "env \<Rightarrow> physical_chunk list \<Rightarrow> record_placement \<Rightarrow> bytes \<Rightarrow> uuid \<Rightarrow> u64 \<Rightarrow> uuid \<Rightarrow>
   vlog_geometry \<Rightarrow> physical_chunk list res" where
  "append_placement E chunks placement record_bytes db seq uid g =
     (if length record_bytes \<noteq> unat (pl_encoded_len placement) then Err (decode_error InvalidLayout)
      else
        and_then (append_preludes E db seq uid g chunks (pl_preludes placement)) (\<lambda>chunks.
          Ok (chunks @ [\<lparr>chunk_position = pl_record_start placement, chunk_bytes = record_bytes\<rparr>])))"

definition encode_operation ::
  "env \<Rightarrow> u64 \<Rightarrow> uuid \<Rightarrow> u64 \<Rightarrow> record_placement \<Rightarrow> logical_operation \<Rightarrow>
   (bytes \<times> value_pointer option) res" where
  "encode_operation E seq uid op_index placement operation =
     (case operation of
        LO_Put key value \<Rightarrow>
          and_then (encode_kv_record E (kv_of seq uid op_index key value)) (\<lambda>bytes.
          and_then (ok_or (u32_try_from (unat (pos_offset (pl_record_start placement))))
                     (decode_error InvalidLayout)) (\<lambda>record_offset.
          and_then (ok_or (u16_try_from (length value)) (invalid_vlog_error InvalidArgument))
            (\<lambda>value_len.
            Ok (bytes, Some \<lparr>vp_format_version = VALUE_POINTER_FORMAT_VERSION,
                             vp_file_id = pos_file_id (pl_record_start placement),
                             vp_record_offset = record_offset,
                             vp_record_len = pl_encoded_len placement,
                             vp_value_len = value_len\<rparr>))))
      | LO_Delete key \<Rightarrow>
          and_then (encode_delete_record E (delete_of seq uid op_index key)) (\<lambda>bytes.
            Ok (bytes, None)))"

fun append_operations ::
  "env \<Rightarrow> uuid \<Rightarrow> u64 \<Rightarrow> uuid \<Rightarrow> vlog_geometry \<Rightarrow> record_placement list \<Rightarrow> usize \<Rightarrow>
   physical_chunk list \<Rightarrow> value_pointer option list \<Rightarrow> logical_operation list \<Rightarrow>
   (physical_chunk list \<times> value_pointer option list) res" where
  "append_operations E db seq uid g placements i chunks pointers [] = Ok (chunks, pointers)"
| "append_operations E db seq uid g placements i chunks pointers (operation # operations) =
     and_then (ok_or (usize_checked_add i 1) (invalid_vlog_error CapacityExceeded)) (\<lambda>placement_index.
     and_then (ok_or (list_get placements placement_index) (decode_error InvalidLayout)) (\<lambda>placement.
     and_then (ok_or (u64_try_from i) (invalid_vlog_error CapacityExceeded)) (\<lambda>op_index.
     and_then (encode_operation E seq uid op_index placement operation) (\<lambda>(record_bytes, pointer).
     and_then (append_placement E chunks placement record_bytes db seq uid g) (\<lambda>chunks.
       append_operations E db seq uid g placements (Suc i) chunks (pointers @ [pointer]) operations)))))"

fun chunk_capacity :: "usize \<Rightarrow> record_placement list \<Rightarrow> usize option" where
  "chunk_capacity acc [] = Some acc"
| "chunk_capacity acc (p # ps) =
     (case usize_checked_add acc (length (pl_preludes p)) of
        Some acc \<Rightarrow> chunk_capacity acc ps
      | None \<Rightarrow> None)"

definition plan_envelope ::
  "env \<Rightarrow> layout_planner \<Rightarrow> logical_operation list \<Rightarrow>
   (op_tally \<times> layout_planner \<times> record_placement list) res" where
  "plan_envelope E P operations =
     and_then (try_reserve E ''DistinctKeys'' (length operations) (invalid_vlog_error ResourceExhausted))
       (\<lambda>_.
     and_then (ok_or (usize_checked_add (length operations) 2) (invalid_vlog_error CapacityExceeded))
       (\<lambda>n.
     and_then (try_reserve E ''RecordLengths'' n (invalid_vlog_error ResourceExhausted)) (\<lambda>_.
     and_then (tally_operations \<lparr>ot_distinct_keys = {}, ot_kv_record_count = 0,
                 ot_delete_record_count = 0, ot_record_lengths = [TX_BEGIN_ENCODED_LEN]\<rparr> operations)
       (\<lambda>tally.
     let record_lengths = ot_record_lengths tally @ [TX_PREPARED_END_ENCODED_LEN] in
     and_then (ok_or (u64_try_from (card (ot_distinct_keys tally)))
                (invalid_vlog_error CapacityExceeded)) (\<lambda>_.
     and_then (try_reserve E ''Placements'' (length record_lengths)
                (invalid_vlog_error ResourceExhausted)) (\<lambda>_.
     and_then (plan_records E P record_lengths) (\<lambda>(candidate, placements).
       Ok (tally, candidate, placements))))))))"

definition envelope_records ::
  "env \<Rightarrow> u64 \<Rightarrow> uuid \<Rightarrow> logical_operation list \<Rightarrow> tx_begin \<Rightarrow> tx_prepared_end \<Rightarrow>
   tx_prepared_end res" where
  "envelope_records E seq uid operations tb footer =
     and_then (update_tx_begin E (EnvelopeCrc32c_new E) tb) (\<lambda>crc.
     and_then (crc_operations E seq uid crc 0 operations) (\<lambda>crc.
     and_then (finish_with_footer E crc footer) (\<lambda>crc.
       Ok (footer\<lparr>te_envelope_crc32c := crc\<rparr>))))"

definition append_envelope ::
  "env \<Rightarrow> uuid \<Rightarrow> u64 \<Rightarrow> uuid \<Rightarrow> vlog_geometry \<Rightarrow> record_placement list \<Rightarrow>
   logical_operation list \<Rightarrow> tx_begin \<Rightarrow> tx_prepared_end \<Rightarrow>
   (physical_chunk list \<times> value_pointer option list) res" where
  "append_envelope E db seq uid g placements operations tb footer =
     and_then (ok_or (chunk_capacity (length placements) placements)
                (invalid_vlog_error CapacityExceeded)) (\<lambda>capacity.
     and_then (try_reserve E ''Chunks'' capacity (invalid_vlog_error ResourceExhausted)) (\<lambda>_.
     and_then (try_reserve E ''ValuePointers'' (length operations)
                (invalid_vlog_error ResourceExhausted)) (\<lambda>_.
     and_then (encode_tx_begin E tb) (\<lambda>begin_bytes.
     and_then (ok_or (list_get placements 0) (decode_error InvalidLayout)) (\<lambda>begin_placement.
     and_then (append_placement E [] begin_placement begin_bytes db seq uid g) (\<lambda>chunks.
     and_then (append_operations E db seq uid g placements 0 chunks [] operations)
       (\<lambda>(chunks, pointers).
     and_then (ok_or (if placements = [] then None else Some (last placements))
                (decode_error InvalidLayout)) (\<lambda>footer_placement.
     and_then (encode_tx_prepared_end E footer) (\<lambda>footer_bytes.
     and_then (append_placement E chunks footer_placement footer_bytes db seq uid g) (\<lambda>chunks.
       Ok (chunks, pointers)))))))))))"

definition prepare_candidate ::
  "env \<Rightarrow> layout_planner \<Rightarrow> uuid \<Rightarrow> u64 \<Rightarrow> uuid \<Rightarrow> logical_operation list \<Rightarrow>
   (layout_planner \<times> prepared_envelope) res" where
  "prepare_candidate E P db seq uid operations =
     and_then (map_err (\<lambda>_. invalid_vlog_error InvalidArgument) (validate_identity seq uid)) (\<lambda>_.
       if db = 0 \<or> operations = [] then Err (invalid_vlog_error InvalidArgument)
       else
         and_then (ok_or (u64_try_from (length operations)) (invalid_vlog_error CapacityExceeded))
           (\<lambda>logical_op_count.
         and_then (plan_envelope E P operations) (\<lambda>(tally, candidate, placements).
         let distinct_key_count = word_of_nat (card (ot_distinct_keys tally));
             vlog_begin = lp_position P;
             vlog_end = lp_position candidate;
             tb = \<lparr>tb_commit_seq = seq, tb_tx_uuid = uid, tb_vlog_begin = vlog_begin,
                      tb_logical_op_count = logical_op_count,
                      tb_distinct_key_count = distinct_key_count\<rparr>;
             footer = \<lparr>te_commit_seq = seq, te_tx_uuid = uid, te_vlog_begin = vlog_begin,
                       te_vlog_end = vlog_end, te_logical_op_count = logical_op_count,
                       te_distinct_key_count = distinct_key_count,
                       te_kv_record_count = ot_kv_record_count tally,
                       te_delete_record_count = ot_delete_record_count tally,
                       te_envelope_crc32c = 0\<rparr>
         in and_then (envelope_records E seq uid operations tb footer) (\<lambda>footer.
            and_then (append_envelope E db seq uid (lp_geometry P) placements operations tb footer)
              (\<lambda>(chunks, pointers).
              Ok (candidate,
                  \<lparr>pe_commit_seq = seq, pe_tx_uuid = uid, pe_vlog_begin = vlog_begin,
                   pe_vlog_end = vlog_end, pe_envelope_crc32c = te_envelope_crc32c footer,
                   pe_chunks = chunks, pe_value_pointers = pointers\<rparr>))))))"

text \<open>The planner is replaced only when the envelope is complete.\<close>

definition prepare_envelope ::
  "env \<Rightarrow> layout_planner \<Rightarrow> uuid \<Rightarrow> u64 \<Rightarrow> uuid \<Rightarrow> logical_operation list \<Rightarrow>
   layout_planner \<times> prepared_envelope res" where
  "prepare_envelope E P db seq uid operations =
     (case prepare_candidate E P db seq uid operations of
        Ok (candidate, prepared) \<Rightarrow> (candidate, Ok prepared)
      | Err e \<Rightarrow> (P, Err e))"

section \<open>Measuring the operations\<close>

fun op_ok :: "logical_operation \<Rightarrow> bool" where
  "op_ok (LO_Put key value) \<longleftrightarrow> key \<noteq> [] \<and> length key + length value \<le> 60000"
| "op_ok (LO_Delete key) \<longleftrightarrow> key \<noteq> [] \<and> length key \<le> 60000"

fun op_len :: "logical_operation \<Rightarrow> nat" where
  "op_len (LO_Put key value) = 55 + (length key + length value)"
| "op_len (LO_Delete key) = 53 + length key"

fun is_put :: "logical_operation \<Rightarrow> bool" where
  "is_put (LO_Put key value) = True"
| "is_put (LO_Delete key) = False"

definition puts :: "logical_operation list \<Rightarrow> nat" where
  "puts ops = length (filter is_put ops)"

definition deletes :: "logical_operation list \<Rightarrow> nat" where
  "deletes ops = length (filter (\<lambda>op. \<not> is_put op) ops)"

lemma puts_deletes: "puts ops + deletes ops = length ops"
  unfolding puts_def deletes_def by (rule sum_length_filter_compl)

lemma op_len_bounds: "op_ok op \<Longrightarrow> 43 \<le> op_len op \<and> op_len op \<le> 60055"
  by (cases op) auto

definition tallied :: "op_tally \<Rightarrow> logical_operation \<Rightarrow> op_tally" where
  "tallied t op = t\<lparr>ot_distinct_keys := insert (operation_key op) (ot_distinct_keys t),
     ot_record_lengths := ot_record_lengths t @ [word_of_nat (op_len op)],
     ot_kv_record_count := ot_kv_record_count t + (if is_put op then 1 else 0),
     ot_delete_record_count := ot_delete_record_count t + (if is_put op then 0 else 1)\<rparr>"

lemma tally_operation_eval:
  assumes "op_ok op"
    and "unat (ot_kv_record_count t) + 1 < 2 ^ 64" and "unat (ot_delete_record_count t) + 1 < 2 ^ 64"
  shows "tally_operation t op = Ok (tallied t op)"
proof (cases op)
  case (LO_Put key val)
  let ?n = "length key + length val"
  have b: "?n \<le> 60000" "key \<noteq> []" using assms(1) LO_Put by auto
  have k: "(word_of_nat (length key) :: u16) \<noteq> 0"
    using b by (simp add: word_unat_eq_iff)
  have c: "checked_add 55 (word_of_nat ?n :: u32) = Some (word_of_nat (55 + ?n))"
    using b by (simp add: checked_add_def del: of_nat_add) simp
  have d: "checked_add (ot_kv_record_count t) 1 = Some (ot_kv_record_count t + 1)"
    using assms(2) by (simp add: checked_add_def)
  show ?thesis
    using b k c
    by (simp add: LO_Put tally_operation_def Let_def vlog_consts usize_checked_add_def usize_max_def
        u16_try_from_def u32_try_from_def d tallied_def
        del: of_nat_add)
next
  case (LO_Delete key)
  have b: "length key \<le> 60000" "key \<noteq> []" using assms(1) LO_Delete by auto
  let ?k = "word_of_nat (length key) :: u16"
  have u: "unat ?k = length key" using b by simp
  have c: "checked_add 53 (ucast ?k :: u32) = Some (word_of_nat (53 + length key))"
    using b u by (auto simp: checked_add_def unat_add_no_overflow intro!: word_eq_of_nat)
  have d: "checked_add (ot_delete_record_count t) 1 = Some (ot_delete_record_count t + 1)"
    using assms(3) by (simp add: checked_add_def)
  show ?thesis
    using b c
    by (simp add: LO_Delete tally_operation_def Let_def vlog_consts u16_try_from_def
        d tallied_def del: of_nat_add)
qed

lemma tally_operation_bad: "\<not> op_ok op \<Longrightarrow> tally_operation t op = Err (invalid_vlog_error InvalidArgument)"
  by (cases op) (auto simp: tally_operation_def Let_def vlog_consts usize_checked_add_def
      u16_try_from_def and_then.simps split: if_splits)

lemma tally_operations_eval:
  assumes "\<forall>op \<in> set ops. op_ok op"
    and "unat (ot_kv_record_count t) + length ops < 2 ^ 64"
    and "unat (ot_delete_record_count t) + length ops < 2 ^ 64"
  shows "tally_operations t ops = Ok \<lparr>
    ot_distinct_keys = ot_distinct_keys t \<union> operation_key ` set ops,
    ot_kv_record_count = ot_kv_record_count t + word_of_nat (puts ops),
    ot_delete_record_count = ot_delete_record_count t + word_of_nat (deletes ops),
    ot_record_lengths = ot_record_lengths t @ map (\<lambda>op. word_of_nat (op_len op)) ops\<rparr>"
  using assms
proof (induction ops arbitrary: t)
  case Nil
  then show ?case by (simp add: puts_def deletes_def)
next
  case (Cons op ops)
  have a: "unat (ot_kv_record_count (tallied t op)) \<le> unat (ot_kv_record_count t) + 1"
    "unat (ot_delete_record_count (tallied t op)) \<le> unat (ot_delete_record_count t) + 1"
    using Cons.prems(2,3) by (auto simp: tallied_def unat_add_no_overflow)
  have "tally_operation t op = Ok (tallied t op)"
    using Cons.prems by (intro tally_operation_eval) auto
  then show ?case
    using Cons.prems a
    by (simp, subst Cons.IH) (auto simp: tallied_def puts_def deletes_def)
qed

section \<open>Planning the records\<close>

fun end_after :: "vlog_geometry \<Rightarrow> vlog_position \<Rightarrow> nat list \<Rightarrow> vlog_position" where
  "end_after g p [] = p"
| "end_after g p (n # ns) = end_after g (pos_add (plan_start g p n) n) ns"

fun all_enter :: "vlog_geometry \<Rightarrow> vlog_position \<Rightarrow> nat list \<Rightarrow> bool" where
  "all_enter g p [] = True"
| "all_enter g p (n # ns) \<longleftrightarrow> plan_enters g p n \<and> all_enter g (pos_add (plan_start g p n) n) ns"

fun planned_list :: "vlog_geometry \<Rightarrow> vlog_position \<Rightarrow> nat list \<Rightarrow> record_placement list" where
  "planned_list g p [] = []"
| "planned_list g p (n # ns) =
     planned g p (word_of_nat n) # planned_list g (pos_add (plan_start g p n) n) ns"

lemma length_planned_list [simp]: "length (planned_list g p ns) = length ns"
  by (induction ns arbitrary: p) simp_all

lemma record_len_ok_lt: "record_len_ok g n \<Longrightarrow> geometry_ok g \<Longrightarrow> n < 2 ^ 32"
  using geometry_okD(2) [of g] by (simp add: record_len_ok_def)

lemma plan_step_ok:
  assumes "geometry_ok g" and "tail_position g p" and "plan_enters g p n" and "record_len_ok g n"
  shows "tail_position g (pos_add (plan_start g p n) n)" "fits g (plan_start g p n) n"
    "unat (pos_offset (pos_add (plan_start g p n) n)) = unat (pos_offset (plan_start g p n)) + n"
  using pos_add_tail [OF assms(1) stays_entry(4) [OF assms] stays_entry(3) [OF assms]] by simp_all

lemma plan_records_eval:
  assumes "planner_ok P" and "\<forall>n \<in> set ns. record_len_ok (lp_geometry P) n"
    and "can_alloc E ''PlacementPreludes'' 4"
  shows "plan_records E P (map word_of_nat ns) =
    (if all_enter (lp_geometry P) (lp_position P) ns
     then Ok (P\<lparr>lp_position := end_after (lp_geometry P) (lp_position P) ns\<rparr>,
              planned_list (lp_geometry P) (lp_position P) ns)
     else Err capacity_error)"
  using assms
proof (induction ns arbitrary: P)
  case Nil
  then show ?case by simp
next
  case (Cons n ns)
  let ?g = "lp_geometry P" and ?p = "lp_position P"
  have g: "geometry_ok ?g" "tail_position ?g ?p" using Cons.prems(1) by (simp_all add: planner_ok_def)
  have n: "record_len_ok ?g n" using Cons.prems(2) by simp
  have u: "unat (word_of_nat n :: u32) = n"
    using record_len_ok_lt [OF n g(1)] by (intro unat_of_nat_small) simp
  note e = plan_record_eval [OF Cons.prems(1) _ Cons.prems(3), of "word_of_nat n", unfolded u, OF n]
  show ?case
  proof (cases "plan_enters ?g ?p n")
    case True
    let ?P = "P\<lparr>lp_position := pos_add (plan_start ?g ?p n) n\<rparr>"
    have "planner_ok ?P" using g plan_step_ok(1) [OF g True n] by (simp add: planner_ok_def)
    then show ?thesis using Cons.IH [of ?P] Cons.prems True by (simp add: e)
  next
    case False
    then show ?thesis by (simp add: e)
  qed
qed

section \<open>Appending the chunks\<close>

lemma append_preludes_Ok:
  "append_preludes E db seq uid g chunks ps = Ok out \<longleftrightarrow>
     (\<exists>hs. out = chunks @ hs \<and> list_all2 (\<lambda>p c. prelude_chunk E db seq uid g p = Ok c) ps hs)"
proof (induction ps arbitrary: chunks)
  case Nil
  then show ?case by auto
next
  case (Cons p ps)
  show ?case by (auto simp: result_simps Cons list_all2_Cons1)
qed

text \<open>The chunks of one record planned at a position: its preludes, then the record.\<close>

definition placed ::
  "env \<Rightarrow> uuid \<Rightarrow> u64 \<Rightarrow> uuid \<Rightarrow> vlog_geometry \<Rightarrow> vlog_position \<Rightarrow> bytes \<Rightarrow> physical_chunk list \<Rightarrow> bool"
where
  "placed E db seq uid g p bs cs \<longleftrightarrow>
     (\<exists>hs. list_all2 (\<lambda>p c. prelude_chunk E db seq uid g p = Ok c) (plan_preludes g p (length bs)) hs
        \<and> cs = hs @ [\<lparr>chunk_position = plan_start g p (length bs), chunk_bytes = bs\<rparr>])"

lemma append_placement_Ok:
  assumes "n < 2 ^ 32"
  shows "append_placement E chunks (planned g p (word_of_nat n)) bs db seq uid g = Ok out \<longleftrightarrow>
    length bs = n \<and> (\<exists>cs. out = chunks @ cs \<and> placed E db seq uid g p bs cs)"
proof -
  have u: "unat (word_of_nat n :: u32) = n" using assms by simp
  show ?thesis
    by (auto simp: append_placement_def planned_def u result_simps append_preludes_Ok placed_def)
qed

fun op_bytes :: "env \<Rightarrow> u64 \<Rightarrow> uuid \<Rightarrow> nat \<Rightarrow> logical_operation \<Rightarrow> bytes" where
  "op_bytes E seq uid i (LO_Put key val) =
     frame E RT_KvRecord seq uid (kv_payload (kv_of seq uid (word_of_nat i) key val))"
| "op_bytes E seq uid i (LO_Delete key) =
     frame E RT_DeleteRecord seq uid (delete_payload (delete_of seq uid (word_of_nat i) key))"

lemma length_op_bytes [simp]: "length (op_bytes E seq uid i op) = op_len op"
  by (cases op) simp_all

fun op_pointer :: "vlog_position \<Rightarrow> logical_operation \<Rightarrow> value_pointer option" where
  "op_pointer start (LO_Put key val) =
     Some \<lparr>vp_format_version = 0, vp_file_id = pos_file_id start,
           vp_record_offset = word_of_nat (unat (pos_offset start)),
           vp_record_len = word_of_nat (op_len (LO_Put key val)),
           vp_value_len = word_of_nat (length val)\<rparr>"
| "op_pointer start (LO_Delete key) = None"

lemma encode_operation_Ok:
  assumes "unat (pos_offset (pl_record_start pl)) < 2 ^ 32"
  shows "encode_operation E seq uid (word_of_nat i) pl op = Ok (bs, ptr) \<longleftrightarrow>
    identity_ok seq uid \<and> op_ok op \<and> can_alloc E ''RecordBytes'' (op_len op)
    \<and> bs = op_bytes E seq uid i op
    \<and> ptr = map_option (\<lambda>p. p\<lparr>vp_record_len := pl_encoded_len pl\<rparr>) (op_pointer (pl_record_start pl) op)"
  using assms
  by (cases op) (auto simp: encode_operation_def result_simps encode_kv_record_Ok
      encode_delete_record_Ok kv_ok_def delete_ok_def u32_try_from_def u16_try_from_def
      VALUE_POINTER_FORMAT_VERSION_def add.assoc)

fun ops_placed ::
  "env \<Rightarrow> uuid \<Rightarrow> u64 \<Rightarrow> uuid \<Rightarrow> vlog_geometry \<Rightarrow> vlog_position \<Rightarrow> nat \<Rightarrow> logical_operation list \<Rightarrow>
   physical_chunk list \<Rightarrow> bool" where
  "ops_placed E db seq uid g p i [] cs \<longleftrightarrow> cs = []"
| "ops_placed E db seq uid g p i (op # ops) cs \<longleftrightarrow>
     (\<exists>cs1 cs2. cs = cs1 @ cs2 \<and> placed E db seq uid g p (op_bytes E seq uid i op) cs1
        \<and> ops_placed E db seq uid g (pos_add (plan_start g p (op_len op)) (op_len op)) (Suc i) ops cs2)"

fun op_pointers :: "vlog_geometry \<Rightarrow> vlog_position \<Rightarrow> logical_operation list \<Rightarrow> value_pointer option list" where
  "op_pointers g p [] = []"
| "op_pointers g p (op # ops) = op_pointer (plan_start g p (op_len op)) op
     # op_pointers g (pos_add (plan_start g p (op_len op)) (op_len op)) ops"

lemma fits_start_lt: "fits g p n \<Longrightarrow> unat (pos_offset p) < 2 ^ 32"
  using geometry_okD(3) [of g] by (auto simp: fits_def validate_record_start_Ok)

lemma append_operations_Ok:
  assumes "geometry_ok g" and "tail_position g p" and "all_enter g p (map op_len ops)"
    and "\<forall>op \<in> set ops. record_len_ok g (op_len op)"
    and "i + length ops < 2 ^ 64" and "drop (Suc i) pls = planned_list g p (map op_len ops) @ rest"
  shows "append_operations E db seq uid g pls i chunks ptrs ops = Ok (chunks', ptrs') \<longleftrightarrow>
    (\<forall>op \<in> set ops. identity_ok seq uid \<and> op_ok op \<and> can_alloc E ''RecordBytes'' (op_len op))
    \<and> (\<exists>cs. chunks' = chunks @ cs \<and> ops_placed E db seq uid g p i ops cs)
    \<and> ptrs' = ptrs @ op_pointers g p ops"
  using assms
proof (induction ops arbitrary: p i chunks ptrs)
  case Nil
  then show ?case by auto
next
  case (Cons op ops)
  let ?n = "op_len op" and ?s = "plan_start g p (op_len op)"
  let ?p = "pos_add ?s ?n"
  have n: "record_len_ok g ?n" and e: "plan_enters g p ?n" using Cons.prems by simp_all
  note st = plan_step_ok [OF Cons.prems(1,2) e n]
  have n32: "?n < 2 ^ 32" by (rule record_len_ok_lt [OF n Cons.prems(1)])
  then have u: "unat (word_of_nat ?n :: u32) = ?n" by simp
  have pl: "list_get pls (Suc i) = Some (planned g p (word_of_nat ?n))"
  proof -
    have d: "drop (Suc i) pls = planned g p (word_of_nat ?n)
        # planned_list g ?p (map op_len ops) @ rest" using Cons.prems(6) by simp
    then have l: "Suc i < length pls" by (metis drop_all list.distinct(1) not_le)
    then have "pls ! Suc i = hd (drop (Suc i) pls)" by (rule hd_drop_conv_nth [symmetric])
    with d l show ?thesis by simp
  qed
  have d2: "drop (Suc (Suc i)) pls = planned_list g ?p (map op_len ops) @ rest"
  proof -
    have "drop (Suc (Suc i)) pls = tl (drop (Suc i) pls)" by (simp add: drop_Suc tl_drop)
    then show ?thesis using Cons.prems(6) by simp
  qed
  have start: "pl_record_start (planned g p (word_of_nat ?n)) = ?s"
    and len: "pl_encoded_len (planned g p (word_of_nat ?n)) = word_of_nat ?n"
    by (simp_all add: planned_def u)
  have ptr: "map_option (\<lambda>p. p\<lparr>vp_record_len := word_of_nat ?n\<rparr>) (op_pointer ?s op) = op_pointer ?s op"
    by (cases op) simp_all
  have i: "usize_checked_add i (Suc 0) = Some (Suc i)" "u64_try_from i = Some (word_of_nat i)"
    using Cons.prems(5) by (simp_all add: usize_checked_add_def usize_max_def u64_try_from_def)
  have eo: "encode_operation E seq uid (word_of_nat i) (planned g p (word_of_nat ?n)) op = Ok (bs, ptr') \<longleftrightarrow>
      identity_ok seq uid \<and> op_ok op \<and> can_alloc E ''RecordBytes'' ?n
      \<and> bs = op_bytes E seq uid i op \<and> ptr' = op_pointer ?s op" for bs ptr'
    using encode_operation_Ok [of "planned g p (word_of_nat ?n)" E seq uid i op bs ptr']
      fits_start_lt [OF st(2)] by (simp add: start len ptr)
  have IH: "append_operations E db seq uid g pls (Suc i) c q ops = Ok (chunks', ptrs') \<longleftrightarrow>
      (\<forall>op \<in> set ops. identity_ok seq uid \<and> op_ok op \<and> can_alloc E ''RecordBytes'' (op_len op))
      \<and> (\<exists>cs. chunks' = c @ cs \<and> ops_placed E db seq uid g ?p (Suc i) ops cs)
      \<and> ptrs' = q @ op_pointers g ?p ops" for c q
    using Cons.IH [OF Cons.prems(1) st(1), of "Suc i" c q] Cons.prems(3-5) d2 by simp
  have ap: "append_placement E chunks (planned g p (word_of_nat ?n)) (op_bytes E seq uid i op) db seq uid g
      = Ok c \<longleftrightarrow> (\<exists>cs. c = chunks @ cs \<and> placed E db seq uid g p (op_bytes E seq uid i op) cs)" for c
    by (simp add: append_placement_Ok [OF n32])
  have step: "append_operations E db seq uid g pls i chunks ptrs (op # ops) = Ok (chunks', ptrs') \<longleftrightarrow>
      identity_ok seq uid \<and> op_ok op \<and> can_alloc E ''RecordBytes'' ?n
      \<and> (\<exists>c. append_placement E chunks (planned g p (word_of_nat ?n)) (op_bytes E seq uid i op) db seq uid g
            = Ok c
          \<and> append_operations E db seq uid g pls (Suc i) c (ptrs @ [op_pointer ?s op]) ops = Ok (chunks', ptrs'))"
    by (simp add: i pl and_then_Ok eo split_paired_Ex)
  show ?case
    unfolding step IH ap ops_placed.simps op_pointers.simps list.set by (auto, blast)
qed

section \<open>The whole envelope\<close>

definition record_lens :: "logical_operation list \<Rightarrow> nat list" where
  "record_lens ops = 71 # map op_len ops @ [111]"

definition tx_begin_of :: "u64 \<Rightarrow> uuid \<Rightarrow> vlog_position \<Rightarrow> logical_operation list \<Rightarrow> tx_begin" where
  "tx_begin_of seq uid p ops = \<lparr>tb_commit_seq = seq, tb_tx_uuid = uid, tb_vlog_begin = p,
     tb_logical_op_count = word_of_nat (length ops),
     tb_distinct_key_count = word_of_nat (card (operation_key ` set ops))\<rparr>"

definition footer_of ::
  "u64 \<Rightarrow> uuid \<Rightarrow> vlog_position \<Rightarrow> vlog_position \<Rightarrow> u32 \<Rightarrow> logical_operation list \<Rightarrow> tx_prepared_end" where
  "footer_of seq uid p q crc ops = \<lparr>te_commit_seq = seq, te_tx_uuid = uid, te_vlog_begin = p,
     te_vlog_end = q, te_logical_op_count = word_of_nat (length ops),
     te_distinct_key_count = word_of_nat (card (operation_key ` set ops)),
     te_kv_record_count = word_of_nat (puts ops), te_delete_record_count = word_of_nat (deletes ops),
     te_envelope_crc32c = crc\<rparr>"

text \<open>Geometries whose pages hold the largest record with room for a filler behind it.\<close>

definition wide_pages :: "vlog_geometry \<Rightarrow> bool" where
  "wide_pages g \<longleftrightarrow> geometry_ok g \<and> 60162 \<le> unat (page_size g)"

lemma wide_pages_PRODUCTION [simp]: "wide_pages PRODUCTION"
  by (simp add: wide_pages_def) (simp add: PRODUCTION_def vlog_consts)

lemma record_len_ok_wide: "wide_pages g \<Longrightarrow> 43 \<le> n \<Longrightarrow> n \<le> 60055 \<Longrightarrow> record_len_ok g n"
  by (simp add: wide_pages_def record_len_ok_def)

lemma record_lens_ok:
  "wide_pages g \<Longrightarrow> \<forall>op \<in> set ops. op_ok op \<Longrightarrow> \<forall>n \<in> set (record_lens ops). record_len_ok g n"
  using op_len_bounds by (auto simp: record_lens_def intro!: record_len_ok_wide)

lemma tally_bad:
  "\<exists>op \<in> set ops. \<not> op_ok op \<Longrightarrow> \<exists>e. tally_operations t ops = Err e"
proof (induction ops arbitrary: t)
  case (Cons op ops)
  then show ?case
    by (cases "tally_operation t op") (auto simp: tally_operation_bad)
qed simp

lemma plan_envelope_Ok:
  assumes "planner_ok P" and "wide_pages (lp_geometry P)" and "length ops + 2 < 2 ^ 64"
  shows "plan_envelope E P ops = Ok (t, P', pls) \<longleftrightarrow>
    can_alloc E ''DistinctKeys'' (length ops) \<and> can_alloc E ''RecordLengths'' (length ops + 2)
    \<and> can_alloc E ''Placements'' (length ops + 2) \<and> (\<forall>op \<in> set ops. op_ok op)
    \<and> plan_records E P (map word_of_nat (record_lens ops)) = Ok (P', pls)
    \<and> t = \<lparr>ot_distinct_keys = operation_key ` set ops, ot_kv_record_count = word_of_nat (puts ops),
           ot_delete_record_count = word_of_nat (deletes ops),
           ot_record_lengths = 71 # map (\<lambda>op. word_of_nat (op_len op)) ops\<rparr>"
proof (cases "\<forall>op \<in> set ops. op_ok op")
  case True
  let ?t = "\<lparr>ot_distinct_keys = {}, ot_kv_record_count = 0, ot_delete_record_count = 0,
      ot_record_lengths = [TX_BEGIN_ENCODED_LEN]\<rparr>"
  have t: "tally_operations ?t ops = Ok \<lparr>ot_distinct_keys = operation_key ` set ops,
      ot_kv_record_count = word_of_nat (puts ops), ot_delete_record_count = word_of_nat (deletes ops),
      ot_record_lengths = 71 # map (\<lambda>op. word_of_nat (op_len op)) ops\<rparr>"
    using tally_operations_eval [of ops ?t] True assms(3) by (simp add: TX_BEGIN_ENCODED_LEN_def)
  have c: "card (operation_key ` set ops) \<le> length ops"
    using card_image_le [of "set ops" operation_key] card_length [of ops] by simp
  have n: "u64_try_from (card (operation_key ` set ops)) = Some (word_of_nat (card (operation_key ` set ops)))"
    using c assms(3) by (simp add: u64_try_from_def)
  have u: "usize_checked_add (length ops) 2 = Some (length ops + 2)"
    using assms(3) by (simp add: usize_checked_add_def usize_max_def)
  have l: "71 # map (\<lambda>op. word_of_nat (op_len op)) ops @ [111 :: u32] = map word_of_nat (record_lens ops)"
    by (simp add: record_lens_def)
  show ?thesis
    using True
    by (auto simp: plan_envelope_def u t n Let_def TX_PREPARED_END_ENCODED_LEN_def result_simps
        l [simplified])
next
  case False
  then obtain e where "tally_operations \<lparr>ot_distinct_keys = {}, ot_kv_record_count = 0,
      ot_delete_record_count = 0, ot_record_lengths = [TX_BEGIN_ENCODED_LEN]\<rparr> ops = Err e"
    using tally_bad by blast
  then show ?thesis using False by (auto simp: plan_envelope_def result_simps)
qed

text \<open>Positions of the parts of an envelope that starts at \<open>p\<close>.\<close>

definition ops_start :: "vlog_geometry \<Rightarrow> vlog_position \<Rightarrow> vlog_position" where
  "ops_start g p = pos_add (plan_start g p 71) 71"

definition footer_entry :: "vlog_geometry \<Rightarrow> vlog_position \<Rightarrow> logical_operation list \<Rightarrow> vlog_position" where
  "footer_entry g p ops = end_after g (ops_start g p) (map op_len ops)"

definition envelope_end :: "vlog_geometry \<Rightarrow> vlog_position \<Rightarrow> logical_operation list \<Rightarrow> vlog_position" where
  "envelope_end g p ops =
     pos_add (plan_start g (footer_entry g p ops) 111) 111"

lemma end_after_append: "end_after g p (ns @ ms) = end_after g (end_after g p ns) ms"
  by (induction ns arbitrary: p) simp_all

lemma all_enter_append:
  "all_enter g p (ns @ ms) \<longleftrightarrow> all_enter g p ns \<and> all_enter g (end_after g p ns) ms"
  by (induction ns arbitrary: p) simp_all

lemma planned_list_append:
  "planned_list g p (ns @ ms) = planned_list g p ns @ planned_list g (end_after g p ns) ms"
  by (induction ns arbitrary: p) simp_all

lemma envelope_parts:
  "end_after g p (record_lens ops) = envelope_end g p ops"
  "all_enter g p (record_lens ops) \<longleftrightarrow> plan_enters g p 71
     \<and> all_enter g (ops_start g p) (map op_len ops) \<and> plan_enters g (footer_entry g p ops) 111"
  "planned_list g p (record_lens ops) = planned g p 71 # planned_list g (ops_start g p) (map op_len ops)
     @ [planned g (footer_entry g p ops) 111]"
  by (simp_all add: record_lens_def end_after_append all_enter_append planned_list_append
      envelope_end_def footer_entry_def ops_start_def)

lemma end_after_tail:
  "geometry_ok g \<Longrightarrow> tail_position g p \<Longrightarrow> all_enter g p ns \<Longrightarrow> \<forall>n \<in> set ns. record_len_ok g n \<Longrightarrow>
   tail_position g (end_after g p ns)"
  by (induction ns arbitrary: p) (simp_all add: plan_step_ok(1))

definition envelope_crc ::
  "env \<Rightarrow> u64 \<Rightarrow> uuid \<Rightarrow> vlog_geometry \<Rightarrow> vlog_position \<Rightarrow> logical_operation list \<Rightarrow> u32 \<Rightarrow> bool" where
  "envelope_crc E seq uid g p ops crc \<longleftrightarrow>
     (\<exists>crc0 crc1. update_tx_begin E (EnvelopeCrc32c_new E) (tx_begin_of seq uid p ops) = Ok crc0
        \<and> crc_operations E seq uid crc0 0 ops = Ok crc1
        \<and> finish_with_footer E crc1 (footer_of seq uid p (envelope_end g p ops) 0 ops) = Ok crc)"

definition envelope_chunks ::
  "env \<Rightarrow> uuid \<Rightarrow> u64 \<Rightarrow> uuid \<Rightarrow> vlog_geometry \<Rightarrow> vlog_position \<Rightarrow> logical_operation list \<Rightarrow> u32 \<Rightarrow>
   physical_chunk list \<Rightarrow> bool" where
  "envelope_chunks E db seq uid g p ops crc cs \<longleftrightarrow>
     (\<exists>cs0 cs1 cs2. cs = cs0 @ cs1 @ cs2
        \<and> placed E db seq uid g p
            (frame E RT_TxBegin seq uid (tx_begin_payload (tx_begin_of seq uid p ops))) cs0
        \<and> ops_placed E db seq uid g (ops_start g p) 0 ops cs1
        \<and> placed E db seq uid g (footer_entry g p ops)
            (footer_bytes E (footer_of seq uid p (envelope_end g p ops) crc ops)) cs2)"

lemma footer_of_update:
  "(footer_of seq uid p q c ops)\<lparr>te_envelope_crc32c := crc\<rparr> = footer_of seq uid p q crc ops"
  by (simp add: footer_of_def)

lemma append_envelope_Ok:
  assumes "geometry_ok g" and "tail_position g p" and "all_enter g p (record_lens ops)"
    and "\<forall>op \<in> set ops. record_len_ok g (op_len op)" and "record_len_ok g 71" and "record_len_ok g 111"
    and "length ops < 2 ^ 64"
  shows "append_envelope E db seq uid g (planned_list g p (record_lens ops)) ops
      (tx_begin_of seq uid p ops) (footer_of seq uid p q crc ops) = Ok (cs, ptrs) \<longleftrightarrow>
    (\<exists>cap. chunk_capacity (length ops + 2) (planned_list g p (record_lens ops)) = Some cap
       \<and> can_alloc E ''Chunks'' cap) \<and> can_alloc E ''ValuePointers'' (length ops)
    \<and> can_alloc E ''RecordBytes'' 71 \<and> can_alloc E ''RecordBytes'' 111
    \<and> tx_begin_ok (tx_begin_of seq uid p ops) \<and> footer_ok (footer_of seq uid p q crc ops)
    \<and> (\<forall>op \<in> set ops. identity_ok seq uid \<and> op_ok op \<and> can_alloc E ''RecordBytes'' (op_len op))
    \<and> ptrs = op_pointers g (ops_start g p) ops
    \<and> (\<exists>cs0 cs1 cs2. cs = cs0 @ cs1 @ cs2
        \<and> placed E db seq uid g p
            (frame E RT_TxBegin seq uid (tx_begin_payload (tx_begin_of seq uid p ops))) cs0
        \<and> ops_placed E db seq uid g (ops_start g p) 0 ops cs1
        \<and> placed E db seq uid g (footer_entry g p ops) (footer_bytes E (footer_of seq uid p q crc ops)) cs2)"
proof -
  let ?pls = "planned_list g p (record_lens ops)"
  have e: "plan_enters g p 71" "all_enter g (ops_start g p) (map op_len ops)"
    using assms(3) by (simp_all add: envelope_parts)
  have t1: "tail_position g (ops_start g p)"
    unfolding ops_start_def by (rule plan_step_ok(1) [OF assms(1,2) e(1) assms(5)])
  have d: "drop (Suc 0) ?pls = planned_list g (ops_start g p) (map op_len ops)
      @ [planned g (footer_entry g p ops) 111]"
    by (simp add: envelope_parts)
  have ao: "append_operations E db seq uid g ?pls 0 chunks [] ops = Ok (cs', ptrs') \<longleftrightarrow>
      (\<forall>op \<in> set ops. identity_ok seq uid \<and> op_ok op \<and> can_alloc E ''RecordBytes'' (op_len op))
      \<and> (\<exists>cs. cs' = chunks @ cs \<and> ops_placed E db seq uid g (ops_start g p) 0 ops cs)
      \<and> ptrs' = op_pointers g (ops_start g p) ops" for chunks cs' ptrs'
    using append_operations_Ok [OF assms(1) t1 e(2) assms(4) _ d, of E db seq uid chunks "[]"] assms(7)
    by simp
  have p0: "list_get ?pls 0 = Some (planned g p 71)" and pl: "?pls \<noteq> []"
    and pf: "last ?pls = planned g (footer_entry g p ops) 111"
    and len: "length ?pls = length ops + 2"
    by (simp_all add: envelope_parts)
  have a0: "append_placement E [] (planned g p 71) bs db seq uid g = Ok out \<longleftrightarrow>
      length bs = 71 \<and> placed E db seq uid g p bs out" for bs out
    using append_placement_Ok [of 71 E "[]" g p bs db seq uid out] by auto
  have af: "append_placement E c (planned g (footer_entry g p ops) 111) bs db seq uid g = Ok out
      \<longleftrightarrow> length bs = 111 \<and> (\<exists>cs. out = c @ cs \<and> placed E db seq uid g (footer_entry g p ops) bs cs)" for bs c out
    using append_placement_Ok [of 111 E c g "footer_entry g p ops" bs db seq uid out] by simp
  have tb: "tb_commit_seq (tx_begin_of seq uid p ops) = seq" "tb_tx_uuid (tx_begin_of seq uid p ops) = uid"
    by (simp_all add: tx_begin_of_def)
  have eq: "append_envelope E db seq uid g ?pls ops (tx_begin_of seq uid p ops) (footer_of seq uid p q crc ops)
      = Ok (cs, ptrs) \<longleftrightarrow>
    (\<exists>cap. chunk_capacity (length ops + 2) ?pls = Some cap \<and> can_alloc E ''Chunks'' cap)
    \<and> can_alloc E ''ValuePointers'' (length ops) \<and> can_alloc E ''RecordBytes'' 71
    \<and> can_alloc E ''RecordBytes'' 111
    \<and> tx_begin_ok (tx_begin_of seq uid p ops) \<and> footer_ok (footer_of seq uid p q crc ops)
    \<and> (\<exists>c0 c1 c2. placed E db seq uid g p
          (frame E RT_TxBegin seq uid (tx_begin_payload (tx_begin_of seq uid p ops))) c0
        \<and> append_operations E db seq uid g ?pls 0 c0 [] ops = Ok (c1, ptrs)
        \<and> cs = c1 @ c2
        \<and> placed E db seq uid g (footer_entry g p ops) (footer_bytes E (footer_of seq uid p q crc ops)) c2)"
    unfolding append_envelope_def len
    by (auto simp: and_then_Ok pl pf p0 a0 af encode_tx_begin_Ok encode_tx_prepared_end_Ok tb
        simp del: add_2_eq_Suc')
  show ?thesis
    unfolding eq ao by (auto, blast, metis append.assoc)
qed

text \<open>What a successful preparation produces, whatever the allocator did.\<close>

lemma prepare_candidate_Ok:
  assumes "planner_ok P" and "wide_pages (lp_geometry P)"
    and "prepare_candidate E P db seq uid ops = Ok (P', e)"
  shows "identity_ok seq uid \<and> db \<noteq> 0 \<and> ops \<noteq> [] \<and> length ops + 2 < 2 ^ 64 \<and> (\<forall>op \<in> set ops. op_ok op)
    \<and> all_enter (lp_geometry P) (lp_position P) (record_lens ops)
    \<and> P' = P\<lparr>lp_position := envelope_end (lp_geometry P) (lp_position P) ops\<rparr>
    \<and> (\<exists>crc cs. envelope_crc E seq uid (lp_geometry P) (lp_position P) ops crc
        \<and> envelope_chunks E db seq uid (lp_geometry P) (lp_position P) ops crc cs
        \<and> tx_begin_ok (tx_begin_of seq uid (lp_position P) ops)
        \<and> footer_ok (footer_of seq uid (lp_position P) (envelope_end (lp_geometry P) (lp_position P) ops) crc ops)
        \<and> e = \<lparr>pe_commit_seq = seq, pe_tx_uuid = uid, pe_vlog_begin = lp_position P,
               pe_vlog_end = envelope_end (lp_geometry P) (lp_position P) ops,
               pe_envelope_crc32c = crc, pe_chunks = cs,
               pe_value_pointers = op_pointers (lp_geometry P) (ops_start (lp_geometry P) (lp_position P)) ops\<rparr>)"
proof -
  let ?g = "lp_geometry P" and ?p = "lp_position P"
  have g: "geometry_ok ?g" "tail_position ?g ?p" using assms(1) by (simp_all add: planner_ok_def)
  from assms(3) obtain t pls where i: "identity_ok seq uid" "db \<noteq> 0" "ops \<noteq> []" "length ops < 2 ^ 64"
    and pl: "plan_envelope E P ops = Ok (t, P', pls)"
    by (auto simp: prepare_candidate_def result_simps validate_identity_Ok u64_try_from_Some Let_def
        split: if_splits prod.splits)
  have len: "length ops + 2 < 2 ^ 64"
    using pl by (auto simp: plan_envelope_def result_simps usize_checked_add_def usize_max_def
        split: if_splits)
  note PE = plan_envelope_Ok [OF assms(1,2) len, THEN iffD1, OF pl]
  have ok: "\<forall>op \<in> set ops. op_ok op" using PE by blast
  note lens = record_lens_ok [OF assms(2) ok]
  have a: "can_alloc E ''PlacementPreludes'' 4"
    using PE by (auto simp: record_lens_def plan_record_def plan_record_inner_def result_simps
        split: if_splits result.splits prod.splits)
  have pr: "all_enter ?g ?p (record_lens ops)"
    "P' = P\<lparr>lp_position := envelope_end ?g ?p ops\<rparr>" "pls = planned_list ?g ?p (record_lens ops)"
    using PE plan_records_eval [OF assms(1) lens a]
    by (auto simp: envelope_parts(1) split: if_splits)
  have opl: "\<forall>op \<in> set ops. record_len_ok ?g (op_len op)" "record_len_ok ?g 71" "record_len_ok ?g 111"
    using lens by (auto simp: record_lens_def)
  have t: "t = \<lparr>ot_distinct_keys = operation_key ` set ops, ot_kv_record_count = word_of_nat (puts ops),
      ot_delete_record_count = word_of_nat (deletes ops),
      ot_record_lengths = 71 # map (\<lambda>op. word_of_nat (op_len op)) ops\<rparr>" using PE by blast
  let ?q = "envelope_end ?g ?p ops"
  from assms(3) pl i obtain f cs ptrs where
    er: "envelope_records E seq uid ops (tx_begin_of seq uid ?p ops) (footer_of seq uid ?p ?q 0 ops) = Ok f"
    and ae: "append_envelope E db seq uid ?g pls ops (tx_begin_of seq uid ?p ops) f = Ok (cs, ptrs)"
    and e: "e = \<lparr>pe_commit_seq = seq, pe_tx_uuid = uid, pe_vlog_begin = ?p, pe_vlog_end = ?q,
      pe_envelope_crc32c = te_envelope_crc32c f, pe_chunks = cs, pe_value_pointers = ptrs\<rparr>"
    by (auto simp: prepare_candidate_def and_then_Ok validate_identity_Ok u64_try_from_def Let_def t pr(2)
        tx_begin_of_def footer_of_def)
  from er obtain crc where c: "envelope_crc E seq uid ?g ?p ops crc" and f: "f = footer_of seq uid ?p ?q crc ops"
    by (auto simp: envelope_records_def and_then_Ok envelope_crc_def footer_of_update)
  have crc: "te_envelope_crc32c f = crc" by (simp add: f footer_of_def)
  note A = append_envelope_Ok [OF g pr(1) opl i(4), THEN iffD1, OF ae [unfolded pr(3) f]]
  show ?thesis
    using i len ok pr c A unfolding e crc envelope_chunks_def by blast
qed

section \<open>Preparing succeeds\<close>

lemmas position_order = less_eq_vlog_position_def less_vlog_position_def word_nat_simps

lemma file_entry_ge: "geometry_ok g \<Longrightarrow> can_enter g p \<Longrightarrow> p \<le> file_entry g p"
  using geometry_okD(5) [of g]
  by (auto simp: file_entry_def can_enter_def position_order unat_add_no_overflow)

lemma area_start_ge:
  assumes "geometry_ok g" and "log_position g p" and "unat (pos_offset p) < unat (max_file_size g)"
  shows "p \<le> area_start g p"
  using area_start_position(2,3) [OF assms] area_start_id [of g p]
  by (cases "boundary g p") (auto simp: position_order split: if_splits)

lemma plan_start_ge:
  assumes "geometry_ok g" and "tail_position g p" and "plan_enters g p n" and "record_len_ok g n"
  shows "p \<le> plan_start g p n"
proof -
  have lp: "log_position g p" using assms(2) by (simp add: tail_position_def)
  have "p \<le> next_page g p" if "\<not> boundary g p"
  proof -
    note T = tail_not_boundary [OF assms(1,2) that]
    note R = page_rest_bounds [OF assms(1) T(2)]
    show ?thesis using unat_pos_add [OF assms(1) R(3)] by (simp add: next_page_def position_order)
  qed
  then have "p \<le> plan_entry g p n"
    using assms(3) file_entry_ge [OF assms(1)]
    by (auto simp: plan_entry_def plan_enters_def stays_def intro: order_trans split: if_splits)
  also have "\<dots> \<le> plan_start g p n"
    unfolding plan_start_def by (rule area_start_ge [OF assms(1) stays_entry(1,2) [OF assms]])
  finally show ?thesis .
qed

lemma plan_step_less:
  assumes "geometry_ok g" and "tail_position g p" and "plan_enters g p n" and "record_len_ok g n"
  shows "p < pos_add (plan_start g p n) n"
proof (rule le_less_trans [OF plan_start_ge [OF assms]])
  have "0 < n" using assms(4) by (simp add: record_len_ok_def)
  then show "plan_start g p n < pos_add (plan_start g p n) n"
    using plan_step_ok(3) [OF assms] by (simp add: position_order)
qed

lemma end_after_ge:
  "geometry_ok g \<Longrightarrow> tail_position g p \<Longrightarrow> all_enter g p ns \<Longrightarrow> \<forall>n \<in> set ns. record_len_ok g n \<Longrightarrow>
   p \<le> end_after g p ns"
proof (induction ns arbitrary: p)
  case (Cons n ns)
  then have "pos_add (plan_start g p n) n \<le> end_after g (pos_add (plan_start g p n) n) ns"
    by (simp add: plan_step_ok(1))
  with plan_step_less [of g p n] Cons.prems show ?case by simp
qed simp

lemma position_ok_tail: "geometry_ok g \<Longrightarrow> tail_position g p \<Longrightarrow> position_ok p"
  using geometry_okD(3,5) [of g] by (simp add: tail_position_def log_position_def position_ok_def)

lemma update_kv_record_Ok: "kv_ok r \<Longrightarrow> \<exists>c. update_kv_record E crc r = Ok c"
proof -
  assume k: "kv_ok r"
  let ?n = "length (kv_key r) + length (kv_value r)"
  have b: "?n \<le> 60000" "kv_key r \<noteq> []" "identity_ok (kv_commit_seq r) (kv_tx_uuid r)"
    using k by (auto simp: kv_ok_def)
  have "(word_of_nat (length (kv_key r)) :: u16) \<noteq> 0"
    using b by (simp add: word_unat_eq_iff)
  moreover have "checked_add 36 (word_of_nat ?n :: u32) = Some (36 + word_of_nat ?n)"
    using b by (simp add: checked_add_def del: of_nat_add)
  ultimately show ?thesis
    using b by (simp add: update_kv_record_def result_simps validate_identity_Ok u16_try_from_def
        u32_try_from_def usize_checked_add_def usize_max_def MAX_KEY_VALUE_SIZE_def del: of_nat_add)
qed

lemma update_delete_record_Ok: "delete_ok r \<Longrightarrow> \<exists>c. update_delete_record E crc r = Ok c"
proof -
  assume d: "delete_ok r"
  let ?n = "length (dl_key r)"
  have b: "?n \<le> 60000" "dl_key r \<noteq> []" "identity_ok (dl_commit_seq r) (dl_tx_uuid r)"
    using d by (auto simp: delete_ok_def)
  have "(word_of_nat ?n :: u16) \<noteq> 0"
    using b by (simp add: word_unat_eq_iff)
  moreover have "checked_add 34 (ucast (word_of_nat ?n :: u16) :: u32) = Some (34 + ucast (word_of_nat ?n :: u16))"
    using b by (simp add: checked_add_def)
  ultimately show ?thesis
    using b by (simp add: update_delete_record_def result_simps validate_identity_Ok u16_try_from_def
        MAX_KEY_VALUE_SIZE_def)
qed

lemma crc_operations_Ok:
  assumes "identity_ok seq uid" and "\<forall>op \<in> set ops. op_ok op" and "i + length ops < 2 ^ 64"
  shows "\<exists>c. crc_operations E seq uid crc i ops = Ok c"
  using assms
proof (induction ops arbitrary: i crc)
  case (Cons op ops)
  have i: "u64_try_from i = Some (word_of_nat i)" using Cons.prems(3) by (simp add: u64_try_from_def)
  have "\<exists>c. (case op of
                 LO_Put key value \<Rightarrow> update_kv_record E crc (kv_of seq uid (word_of_nat i) key value)
               | LO_Delete key \<Rightarrow> update_delete_record E crc (delete_of seq uid (word_of_nat i) key)) = Ok c"
    using Cons.prems(1,2) update_kv_record_Ok update_delete_record_Ok
    by (cases op) (auto simp: kv_ok_def delete_ok_def)
  then obtain c where "(case op of
                 LO_Put key value \<Rightarrow> update_kv_record E crc (kv_of seq uid (word_of_nat i) key value)
               | LO_Delete key \<Rightarrow> update_delete_record E crc (delete_of seq uid (word_of_nat i) key)) = Ok c" ..
  then show ?case using Cons.IH [of "Suc i" c] Cons.prems i by simp
qed simp

lemma page_no_bound:
  assumes "geometry_ok g" and "unat off < unat (max_file_size g)"
  shows "unat off div unat (page_size g) \<le> 65535"
proof -
  note G = geometry_okD [OF assms(1)]
  have "unat off div unat (page_size g) < unat (max_file_size g) div unat (page_size g)"
    using G(4) assms(2) G(1) by (elim dvdE) (auto simp: div_less_iff_less_mult mult.commute)
  then show ?thesis using G(7) by simp
qed

lemma prelude_chunk_area:
  assumes "allocates E" and "geometry_ok g" and "db \<noteq> 0" and "log_position g q"
    and "unat (pos_offset q) < unat (max_file_size g)" and "lp \<in> set (area_preludes g q)"
  shows "\<exists>c. prelude_chunk E db seq uid g lp = Ok c"
proof -
  let ?n = "unat (pos_offset q) div unat (page_size g)"
  have f: "pos_file_id q \<le> 999999"
    using assms(2,4) geometry_okD(5) [OF assms(2)] by (simp add: log_position_def word_le_nat_alt)
  have "?n \<le> 65535" by (rule page_no_bound [OF assms(2,5)])
  then have "unat (word_of_nat ?n :: u32) \<le> 65535" by (subst unat_of_nat_small) simp_all
  then have n: "(word_of_nat ?n :: u32) \<le> 65535" by (simp add: word_le_nat_alt)
  show ?thesis
    using assms(1,3,6) f n
    by (auto simp: area_preludes_def PageHeader_encode_def VLogFileHeader_encode_def
        VLogFileHeader_validate_def VLogFileHeader_new_def try_copy_structural_bytes_def vlog_consts
        not_le [symmetric] split: if_splits)
qed

lemma list_all2_total:
  "(\<And>x. x \<in> set xs \<Longrightarrow> \<exists>y. R x y) \<Longrightarrow> \<exists>ys. list_all2 R xs ys"
proof (induction xs)
  case (Cons x xs)
  then obtain y ys where "R x y" "list_all2 R xs ys" by fastforce
  then have "list_all2 R (x # xs) (y # ys)" by simp
  then show ?case by blast
qed (auto intro: exI [of _ "[]"])

lemma placed_total:
  assumes "allocates E" and "geometry_ok g" and "tail_position g p" and "plan_enters g p (length bs)"
    and "record_len_ok g (length bs)" and "db \<noteq> 0" and "identity_ok seq uid"
  shows "\<exists>cs. placed E db seq uid g p bs cs"
proof -
  let ?n = "length bs"
  note S = stays_entry [OF assms(2-5)]
  have "\<exists>c. prelude_chunk E db seq uid g lp = Ok c" if "lp \<in> set (plan_preludes g p ?n)" for lp
  proof (cases "lp \<in> set (area_preludes g (plan_entry g p ?n))")
    case True
    then show ?thesis by (rule prelude_chunk_area [OF assms(1,2,6) S(1,2)])
  next
    case False
    with that have ns: "\<not> stays g p ?n" and lp: "lp = LP_PageEnd p (word_of_nat (page_rest g (pos_offset p)))"
      by (auto simp: plan_preludes_def split: if_splits)
    then have nb: "\<not> boundary g p" by (simp add: stays_def)
    note T = tail_not_boundary [OF assms(2,3) nb]
    have v: "validate_record_start p g = Ok ()"
      using T(1,2) nb by (simp add: validate_record_start_Ok log_position_def)
    have "encode_page_end E seq uid p g = Ok (filler E seq uid (page_rest g (pos_offset p)))"
      using encode_page_end_Ok [OF assms(2) v T(3) assms(7)] assms(1) by (simp add: allocates_def)
    moreover have "unat (word_of_nat (page_rest g (pos_offset p)) :: u32) = page_rest g (pos_offset p)"
      using page_rest_bounds(2) [OF assms(2) T(2)] by simp
    ultimately show ?thesis using T(3) by (simp add: lp length_filler)
  qed
  then have "\<exists>hs. list_all2 (\<lambda>p c. prelude_chunk E db seq uid g p = Ok c) (plan_preludes g p ?n) hs"
    by (rule list_all2_total)
  then show ?thesis by (auto simp: placed_def)
qed

lemma ops_placed_total:
  assumes "allocates E" and "geometry_ok g" and "tail_position g p"
    and "all_enter g p (map op_len ops)" and "\<forall>op \<in> set ops. record_len_ok g (op_len op)"
    and "db \<noteq> 0" and "identity_ok seq uid"
  shows "\<exists>cs. ops_placed E db seq uid g p i ops cs"
  using assms
proof (induction ops arbitrary: p i)
  case (Cons op ops)
  then have e: "plan_enters g p (op_len op)" and n: "record_len_ok g (op_len op)" by simp_all
  obtain cs1 where "placed E db seq uid g p (op_bytes E seq uid i op) cs1"
    using placed_total [of E g p "op_bytes E seq uid i op" db seq uid] Cons.prems e n by auto
  moreover obtain cs2 where
    "ops_placed E db seq uid g (pos_add (plan_start g p (op_len op)) (op_len op)) (Suc i) ops cs2"
    using Cons.IH [of "pos_add (plan_start g p (op_len op)) (op_len op)" "Suc i"] Cons.prems
      plan_step_ok(1) [OF Cons.prems(2,3) e n] by auto
  ultimately show ?case by auto
qed (auto intro: exI [of _ "[]"])

lemma length_plan_preludes: "length (plan_preludes g p n) \<le> 3"
  by (simp add: plan_preludes_def area_preludes_def)

lemma chunk_capacity_Some:
  assumes "acc + 3 * length pls \<le> usize_max" and "\<forall>pl \<in> set pls. length (pl_preludes pl) \<le> 3"
  shows "\<exists>cap. chunk_capacity acc pls = Some cap"
  using assms
proof (induction pls arbitrary: acc)
  case (Cons pl pls)
  have b: "length (pl_preludes pl) \<le> 3" using Cons.prems(2) by simp
  then have u: "usize_checked_add acc (length (pl_preludes pl)) = Some (acc + length (pl_preludes pl))"
    using Cons.prems(1) by (simp add: usize_checked_add_def)
  have "\<exists>cap. chunk_capacity (acc + length (pl_preludes pl)) pls = Some cap"
    by (rule Cons.IH) (use Cons.prems b in simp_all)
  then show ?case by (simp add: u)
qed simp

lemma planned_list_preludes: "pl \<in> set (planned_list g p ns) \<Longrightarrow> length (pl_preludes pl) \<le> 3"
  by (induction ns arbitrary: p) (auto simp: planned_def length_plan_preludes)

lemma tx_begin_of_ok:
  assumes "identity_ok seq uid" and "position_ok p" and "ops \<noteq> []" and "length ops < 2 ^ 64"
  shows "tx_begin_ok (tx_begin_of seq uid p ops)"
    and "position_ok q \<Longrightarrow> p < q \<Longrightarrow> footer_ok (footer_of seq uid p q crc ops)"
proof -
  have c: "0 < card (operation_key ` set ops)" "card (operation_key ` set ops) \<le> length ops"
    using assms(3) card_image_le [of "set ops" operation_key] card_length [of ops]
    by (simp_all add: card_gt_0_iff)
  have le: "puts ops \<le> length ops" "deletes ops \<le> length ops" using puts_deletes [of ops] by simp_all
  show "tx_begin_ok (tx_begin_of seq uid p ops)"
    using assms c by (simp add: tx_begin_ok_def tx_begin_of_def counts_ok_def)
  show "footer_ok (footer_of seq uid p q crc ops)" if "position_ok q" "p < q"
    using assms c le that by (simp add: footer_ok_def footer_of_def counts_ok_def puts_deletes)
qed

lemma envelope_positions:
  assumes "geometry_ok g" and "tail_position g p" and "all_enter g p (record_lens ops)"
    and "\<forall>n \<in> set (record_lens ops). record_len_ok g n"
  shows "tail_position g (ops_start g p)" "tail_position g (footer_entry g p ops)"
    "tail_position g (envelope_end g p ops)" "p < envelope_end g p ops"
proof -
  have l: "record_len_ok g 71" "record_len_ok g 111" "\<forall>n \<in> set (map op_len ops). record_len_ok g n"
    using assms(4) by (simp_all add: record_lens_def)
  have e: "plan_enters g p 71" "all_enter g (ops_start g p) (map op_len ops)"
    "plan_enters g (footer_entry g p ops) 111"
    using assms(3) by (simp_all add: envelope_parts)
  show t1: "tail_position g (ops_start g p)"
    unfolding ops_start_def by (rule plan_step_ok(1) [OF assms(1,2) e(1) l(1)])
  show t2: "tail_position g (footer_entry g p ops)"
    unfolding footer_entry_def by (rule end_after_tail [OF assms(1) t1 e(2) l(3)])
  show "tail_position g (envelope_end g p ops)"
    unfolding envelope_end_def by (rule plan_step_ok(1) [OF assms(1) t2 e(3) l(2)])
  have "p < ops_start g p"
    unfolding ops_start_def by (rule plan_step_less [OF assms(1,2) e(1) l(1)])
  also have "\<dots> \<le> footer_entry g p ops"
    unfolding footer_entry_def by (rule end_after_ge [OF assms(1) t1 e(2) l(3)])
  also have "\<dots> < envelope_end g p ops"
    unfolding envelope_end_def by (rule plan_step_less [OF assms(1) t2 e(3) l(2)])
  finally show "p < envelope_end g p ops" .
qed

lemma plan_envelope_full:
  assumes "allocates E" and "\<forall>op \<in> set ops. op_ok op" and "length ops + 2 < 2 ^ 64"
    and "plan_records E P (map word_of_nat (record_lens ops)) = Err e"
  shows "plan_envelope E P ops = Err e"
proof -
  let ?t = "\<lparr>ot_distinct_keys = {}, ot_kv_record_count = 0, ot_delete_record_count = 0,
      ot_record_lengths = [TX_BEGIN_ENCODED_LEN]\<rparr>"
  obtain t where t: "tally_operations ?t ops = Ok t"
    "ot_record_lengths t = 71 # map (\<lambda>op. word_of_nat (op_len op)) ops"
    "card (ot_distinct_keys t) \<le> length ops"
    using tally_operations_eval [OF assms(2), of ?t] assms(3)
      card_image_le [of "set ops" operation_key] card_length [of ops]
    by (simp add: TX_BEGIN_ENCODED_LEN_def)
  have "map word_of_nat (record_lens ops) = ot_record_lengths t @ [111 :: u32]"
    by (simp add: t record_lens_def)
  then show ?thesis
    using t(1,3) assms(1,3,4)
    by (simp add: plan_envelope_def usize_checked_add_def usize_max_def u64_try_from_def
        TX_PREPARED_END_ENCODED_LEN_def Let_def)
qed

text \<open>
  With memory to allocate, preparing a well-formed transaction fails only when the log has run
  out of file ids.
\<close>

lemma prepare_candidate_total:
  assumes "planner_ok P" and "wide_pages (lp_geometry P)" and "allocates E"
    and "identity_ok seq uid" and "db \<noteq> 0" and "ops \<noteq> []" and "\<forall>op \<in> set ops. op_ok op"
    and "length ops < 2 ^ 60"
  shows "if all_enter (lp_geometry P) (lp_position P) (record_lens ops)
    then \<exists>e. prepare_candidate E P db seq uid ops
           = Ok (P\<lparr>lp_position := envelope_end (lp_geometry P) (lp_position P) ops\<rparr>, e)
    else prepare_candidate E P db seq uid ops = Err capacity_error"
proof -
  let ?g = "lp_geometry P" and ?p = "lp_position P"
  let ?q = "envelope_end ?g ?p ops"
  have g: "geometry_ok ?g" "tail_position ?g ?p" using assms(1) by (simp_all add: planner_ok_def)
  have a: "can_alloc E site n" for site n using assms(3) by (simp add: allocates_def)
  have len: "length ops + 2 < 2 ^ 64" "length ops < 2 ^ 64" using assms(8) by simp_all
  have n: "u64_try_from (length ops) = Some (word_of_nat (length ops))"
    using len by (simp add: u64_try_from_def)
  note lens = record_lens_ok [OF assms(2,7)]
  note pr = plan_records_eval [OF assms(1) lens a]
  show ?thesis
  proof (cases "all_enter ?g ?p (record_lens ops)")
    case True
    note pos = envelope_positions [OF g True lens]
    have opl: "\<forall>op \<in> set ops. record_len_ok ?g (op_len op)" "record_len_ok ?g 71" "record_len_ok ?g 111"
      using lens by (auto simp: record_lens_def)
    have ent: "plan_enters ?g ?p 71" "all_enter ?g (ops_start ?g ?p) (map op_len ops)"
      "plan_enters ?g (footer_entry ?g ?p ops) 111" using True by (simp_all add: envelope_parts)
    note tok = tx_begin_of_ok [OF assms(4) position_ok_tail [OF g] assms(6) len(2)]
    note fok = tok(2) [OF position_ok_tail [OF g(1) pos(3)] pos(4)]
    obtain crc0 where c0: "update_tx_begin E (EnvelopeCrc32c_new E) (tx_begin_of seq uid ?p ops) = Ok crc0"
      using tok(1) by (simp add: update_tx_begin_def result_simps validate_tx_begin_Ok)
    obtain crc1 where c1: "crc_operations E seq uid crc0 0 ops = Ok crc1"
      using crc_operations_Ok [OF assms(4,7), of 0 E crc0] len by auto
    obtain crc where c: "finish_with_footer E crc1 (footer_of seq uid ?p ?q 0 ops) = Ok crc"
      using fok by (simp add: finish_with_footer_def result_simps validate_tx_prepared_end_Ok)
    obtain cap where cap: "chunk_capacity (length ops + 2) (planned_list ?g ?p (record_lens ops)) = Some cap"
    proof -
      have "length (record_lens ops) = length ops + 2" by (simp add: record_lens_def)
      then have "\<exists>cap. chunk_capacity (length ops + 2) (planned_list ?g ?p (record_lens ops)) = Some cap"
        using assms(8) planned_list_preludes
        by (intro chunk_capacity_Some) (simp_all add: usize_max_def)
      then show ?thesis using that by blast
    qed
    obtain cs0 where p0: "placed E db seq uid ?g ?p
        (frame E RT_TxBegin seq uid (tx_begin_payload (tx_begin_of seq uid ?p ops))) cs0"
      using placed_total [of E ?g ?p "frame E RT_TxBegin seq uid (tx_begin_payload (tx_begin_of seq uid ?p ops))"
          db seq uid] assms g ent opl by auto
    obtain cs1 where p1: "ops_placed E db seq uid ?g (ops_start ?g ?p) 0 ops cs1"
      using ops_placed_total [OF assms(3) g(1) pos(1) ent(2) opl(1) assms(5,4)] by auto
    obtain cs2 where p2: "placed E db seq uid ?g (footer_entry ?g ?p ops)
        (footer_bytes E (footer_of seq uid ?p ?q crc ops)) cs2"
      using placed_total [of E ?g "footer_entry ?g ?p ops" "footer_bytes E (footer_of seq uid ?p ?q crc ops)"
          db seq uid] assms g ent opl pos by auto
    have ae: "append_envelope E db seq uid ?g (planned_list ?g ?p (record_lens ops)) ops
        (tx_begin_of seq uid ?p ops) (footer_of seq uid ?p ?q crc ops)
        = Ok (cs0 @ cs1 @ cs2, op_pointers ?g (ops_start ?g ?p) ops)"
      unfolding append_envelope_Ok [OF g True opl len(2)]
      using a cap tok(1) fok assms(4,7) p0 p1 p2 by blast
    have pe: "plan_envelope E P ops = Ok (\<lparr>ot_distinct_keys = operation_key ` set ops,
        ot_kv_record_count = word_of_nat (puts ops), ot_delete_record_count = word_of_nat (deletes ops),
        ot_record_lengths = 71 # map (\<lambda>op. word_of_nat (op_len op)) ops\<rparr>,
        P\<lparr>lp_position := ?q\<rparr>, planned_list ?g ?p (record_lens ops))"
      unfolding plan_envelope_Ok [OF assms(1,2) len(1)] using a pr True assms(7)
      by (simp add: envelope_parts(1))
    have er: "envelope_records E seq uid ops (tx_begin_of seq uid ?p ops) (footer_of seq uid ?p ?q 0 ops)
        = Ok (footer_of seq uid ?p ?q crc ops)"
      by (simp add: envelope_records_def c0 c1 c footer_of_update)
    show ?thesis
      using True assms(4-6) ae er
      by (simp add: prepare_candidate_def and_then_Ok validate_identity_Ok n pe Let_def
          tx_begin_of_def footer_of_def)
  next
    case False
    have v: "validate_identity seq uid = Ok ()" using assms(4) by (simp add: validate_identity_Ok)
    have "plan_envelope E P ops = Err capacity_error"
      by (rule plan_envelope_full [OF assms(3,7) len(1)]) (use pr False in simp)
    then show ?thesis using False v n assms(5,6) by (simp add: prepare_candidate_def)
  qed
qed

end
