(* ===== verification/EnvelopeScan.thy ===== *)
theory EnvelopeScan
  imports Envelope
begin

text \<open>
  Reading envelopes back (\<open>src/vlog/format.rs\<close>): \<open>scan_prepared_envelope\<close> checks the chunks of
  a transaction and \<open>locate_footer_from_end\<close> finds the last record of a log. The main lemma is
  that every prepared envelope scans back to the transaction it was prepared from.
\<close>

section \<open>Scanning\<close>

record scanned_envelope =
  se_commit_seq :: u64
  se_tx_uuid :: uuid
  se_vlog_begin :: vlog_position
  se_vlog_end :: vlog_position
  se_logical_op_count :: u64
  se_distinct_key_count :: u64
  se_kv_record_count :: u64
  se_delete_record_count :: u64
  se_envelope_crc32c :: u32

record scan_state =
  sc_physical_end :: vlog_position
  sc_identity :: "(u64 \<times> uuid) option"
  sc_begin :: "tx_begin option"
  sc_footer :: "tx_prepared_end option"
  sc_envelope_crc :: u32
  sc_logical_op_count :: u64
  sc_kv_record_count :: u64
  sc_delete_record_count :: u64
  sc_distinct_keys :: "bytes set"
  sc_previous_was_page_end :: bool
  sc_expecting_file_header :: bool

abbreviation corrupt :: "'a res" where
  "corrupt \<equiv> Err (decode_error Corruption)"

definition scan_page_header ::
  "env \<Rightarrow> vlog_geometry \<Rightarrow> physical_chunk \<Rightarrow> scan_state \<Rightarrow> scan_state res" where
  "scan_page_header E g chunk s =
     (if sc_expecting_file_header s then corrupt
      else if length (chunk_bytes chunk) \<noteq> PAGE_HEADER_ENCODED_LEN then corrupt
      else
        and_then (PageHeader_decode E (chunk_bytes chunk)) (\<lambda>header.
        and_then (ok_or (checked_div (pos_offset (chunk_position chunk)) (page_size g))
                   (decode_error Corruption)) (\<lambda>n.
        and_then (ok_or (u32_try_from (unat n)) (decode_error Corruption)) (\<lambda>expected_page_no.
          if ph_file_id header \<noteq> pos_file_id (chunk_position chunk)
             \<or> ph_page_no header \<noteq> expected_page_no
          then corrupt
          else Ok (s\<lparr>sc_expecting_file_header := ph_page_no header = 0\<rparr>)))))"

definition scan_file_header ::
  "env \<Rightarrow> uuid \<Rightarrow> physical_chunk \<Rightarrow> scan_state \<Rightarrow> scan_state res" where
  "scan_file_header E db chunk s =
     (if \<not> sc_expecting_file_header s then corrupt
      else if length (chunk_bytes chunk) \<noteq> FILE_HEADER_ENCODED_LEN then corrupt
      else
        and_then (VLogFileHeader_decode E (chunk_bytes chunk)) (\<lambda>header.
          if fh_database_uuid header \<noteq> db
             \<or> fh_file_id header \<noteq> pos_file_id (chunk_position chunk)
          then corrupt
          else Ok (s\<lparr>sc_expecting_file_header := False\<rparr>)))"

definition count_record :: "bool \<Rightarrow> u32 \<Rightarrow> bytes \<Rightarrow> scan_state \<Rightarrow> scan_state res" where
  "count_record is_kv crc key s =
     and_then (ok_or (checked_add (sc_logical_op_count s) 1) (decode_error Corruption)) (\<lambda>ops.
     and_then (ok_or (checked_add (if is_kv then sc_kv_record_count s else sc_delete_record_count s) 1)
                (decode_error Corruption)) (\<lambda>n.
       Ok (if is_kv
           then s\<lparr>sc_envelope_crc := crc, sc_distinct_keys := insert key (sc_distinct_keys s),
                  sc_logical_op_count := ops, sc_kv_record_count := n,
                  sc_previous_was_page_end := False\<rparr>
           else s\<lparr>sc_envelope_crc := crc, sc_distinct_keys := insert key (sc_distinct_keys s),
                  sc_logical_op_count := ops, sc_delete_record_count := n,
                  sc_previous_was_page_end := False\<rparr>)))"

definition scan_footer ::
  "env \<Rightarrow> vlog_position \<Rightarrow> u32 option \<Rightarrow> bool \<Rightarrow> tx_prepared_end \<Rightarrow> scan_state \<Rightarrow> scan_state res" where
  "scan_footer E vlog_end expected_crc is_last found s =
     and_then (ok_or (sc_begin s) (decode_error Corruption)) (\<lambda>declared_begin.
     and_then (ok_or (u64_try_from (card (sc_distinct_keys s))) (decode_error Corruption))
       (\<lambda>distinct_key_count.
       if sc_footer s \<noteq> None
          \<or> te_commit_seq found \<noteq> tb_commit_seq declared_begin
          \<or> te_tx_uuid found \<noteq> tb_tx_uuid declared_begin
          \<or> te_vlog_begin found \<noteq> tb_vlog_begin declared_begin
          \<or> te_vlog_end found \<noteq> vlog_end
          \<or> te_logical_op_count found \<noteq> tb_logical_op_count declared_begin
          \<or> te_distinct_key_count found \<noteq> tb_distinct_key_count declared_begin
          \<or> te_logical_op_count found \<noteq> sc_logical_op_count s
          \<or> te_distinct_key_count found \<noteq> distinct_key_count
          \<or> te_kv_record_count found \<noteq> sc_kv_record_count s
          \<or> te_delete_record_count found \<noteq> sc_delete_record_count s
          \<or> \<not> is_last
       then corrupt
       else
         and_then (finish_with_footer E (sc_envelope_crc s) found) (\<lambda>calculated_crc.
           if calculated_crc \<noteq> te_envelope_crc32c found
              \<or> (case expected_crc of Some expected \<Rightarrow> expected \<noteq> calculated_crc | None \<Rightarrow> False)
           then corrupt
           else Ok (s\<lparr>sc_footer := Some found, sc_previous_was_page_end := False\<rparr>))))"

definition scan_decoded ::
  "env \<Rightarrow> vlog_position \<Rightarrow> vlog_position \<Rightarrow> u32 option \<Rightarrow> bool \<Rightarrow> decoded_record \<Rightarrow> scan_state \<Rightarrow>
   scan_state res" where
  "scan_decoded E vlog_begin vlog_end expected_crc is_last d s =
     (case d of
        DR_PageEnd \<Rightarrow>
          if sc_footer s \<noteq> None \<or> sc_previous_was_page_end s then corrupt
          else Ok (s\<lparr>sc_previous_was_page_end := True\<rparr>)
      | DR_TxBegin found \<Rightarrow>
          if sc_begin s \<noteq> None \<or> sc_footer s \<noteq> None \<or> sc_logical_op_count s \<noteq> 0 then corrupt
          else if tb_vlog_begin found \<noteq> vlog_begin then corrupt
          else
            and_then (update_tx_begin E (sc_envelope_crc s) found) (\<lambda>crc.
              Ok (s\<lparr>sc_envelope_crc := crc, sc_begin := Some found, sc_previous_was_page_end := False\<rparr>))
      | DR_KvRecord found \<Rightarrow>
          if sc_begin s = None \<or> sc_footer s \<noteq> None \<or> kv_op_index found \<noteq> sc_logical_op_count s
          then corrupt
          else
            and_then (update_kv_record E (sc_envelope_crc s) found) (\<lambda>crc.
              count_record True crc (kv_key found) s)
      | DR_DeleteRecord found \<Rightarrow>
          if sc_begin s = None \<or> sc_footer s \<noteq> None \<or> dl_op_index found \<noteq> sc_logical_op_count s
          then corrupt
          else
            and_then (update_delete_record E (sc_envelope_crc s) found) (\<lambda>crc.
              count_record False crc (dl_key found) s)
      | DR_TxPreparedEnd found \<Rightarrow> scan_footer E vlog_end expected_crc is_last found s)"

definition scan_record ::
  "env \<Rightarrow> vlog_geometry \<Rightarrow> vlog_position \<Rightarrow> vlog_position \<Rightarrow> u32 option \<Rightarrow> bool \<Rightarrow> physical_chunk \<Rightarrow>
   scan_state \<Rightarrow> (scan_state \<times> bool) res" where
  "scan_record E g vlog_begin vlog_end expected_crc is_last chunk s =
     (if sc_expecting_file_header s then corrupt
      else
        and_then (decode_record_at E (chunk_bytes chunk) (chunk_position chunk) g) (\<lambda>decoded.
        and_then (RecordHeader_decode E (chunk_bytes chunk)) (\<lambda>header.
        and_then (case sc_identity s of
                    Some (seq, uid) \<Rightarrow>
                      if rh_commit_seq header \<noteq> seq \<or> rh_tx_uuid header \<noteq> uid then corrupt else Ok s
                  | None \<Rightarrow> Ok (s\<lparr>sc_identity := Some (rh_commit_seq header, rh_tx_uuid header)\<rparr>)) (\<lambda>s.
        and_then (scan_decoded E vlog_begin vlog_end expected_crc is_last decoded s) (\<lambda>s.
          Ok (s, decoded \<noteq> DR_PageEnd))))))"

definition scan_chunk_at ::
  "env \<Rightarrow> vlog_geometry \<Rightarrow> uuid \<Rightarrow> vlog_position \<Rightarrow> vlog_position \<Rightarrow> u32 option \<Rightarrow> bool \<Rightarrow>
   vlog_position \<Rightarrow> physical_chunk \<Rightarrow> scan_state \<Rightarrow> scan_state res" where
  "scan_chunk_at E g db vlog_begin vlog_end expected_crc is_last expected_start chunk s =
     (if chunk_position chunk \<noteq> expected_start then corrupt
      else
        and_then (let page_offset = pos_offset (chunk_position chunk) mod page_size g in
                  if page_offset = 0
                  then map_ok (\<lambda>s. (s, False)) (scan_page_header E g chunk s)
                  else if pos_offset (chunk_position chunk) < page_size g
                          \<and> pos_offset (chunk_position chunk) = word_of_nat PAGE_HEADER_ENCODED_LEN
                  then map_ok (\<lambda>s. (s, False)) (scan_file_header E db chunk s)
                  else scan_record E g vlog_begin vlog_end expected_crc is_last chunk s)
          (\<lambda>(s, transaction_record).
        and_then (chunk_end chunk g) (\<lambda>physical_end.
        and_then (if transaction_record then validate_transaction_record_end physical_end g
                  else Ok ()) (\<lambda>_.
          Ok (s\<lparr>sc_physical_end := physical_end\<rparr>)))))"

definition scan_chunk ::
  "env \<Rightarrow> vlog_geometry \<Rightarrow> uuid \<Rightarrow> vlog_position \<Rightarrow> vlog_position \<Rightarrow> u32 option \<Rightarrow> vlog_position \<Rightarrow>
   usize \<Rightarrow> usize \<Rightarrow> physical_chunk \<Rightarrow> scan_state \<Rightarrow> scan_state res" where
  "scan_chunk E g db vlog_begin vlog_end expected_crc first_chunk_position chunk_count chunk_index chunk s =
     (if chunk_bytes chunk = [] then corrupt
      else
        and_then (if chunk_index = 0 then Ok first_chunk_position
                  else next_chunk_position (sc_physical_end s) g) (\<lambda>expected_start.
          scan_chunk_at E g db vlog_begin vlog_end expected_crc (chunk_index + 1 = chunk_count)
            expected_start chunk s))"

fun scan_chunks ::
  "env \<Rightarrow> vlog_geometry \<Rightarrow> uuid \<Rightarrow> vlog_position \<Rightarrow> vlog_position \<Rightarrow> u32 option \<Rightarrow> vlog_position \<Rightarrow>
   usize \<Rightarrow> usize \<Rightarrow> physical_chunk list \<Rightarrow> scan_state \<Rightarrow> scan_state res" where
  "scan_chunks E g db vb ve crc first n i [] s = Ok s"
| "scan_chunks E g db vb ve crc first n i (chunk # chunks) s =
     and_then (scan_chunk E g db vb ve crc first n i chunk s) (\<lambda>s.
       scan_chunks E g db vb ve crc first n (Suc i) chunks s)"

definition scan_init :: "env \<Rightarrow> vlog_position \<Rightarrow> scan_state" where
  "scan_init E vlog_begin =
     \<lparr>sc_physical_end = vlog_begin, sc_identity = None, sc_begin = None, sc_footer = None,
      sc_envelope_crc = EnvelopeCrc32c_new E, sc_logical_op_count = 0, sc_kv_record_count = 0,
      sc_delete_record_count = 0, sc_distinct_keys = {}, sc_previous_was_page_end = False,
      sc_expecting_file_header = False\<rparr>"

definition scan_prepared_envelope ::
  "env \<Rightarrow> physical_chunk list \<Rightarrow> vlog_geometry \<Rightarrow> uuid \<Rightarrow> vlog_position \<Rightarrow> vlog_position \<Rightarrow>
   u32 option \<Rightarrow> scanned_envelope res" where
  "scan_prepared_envelope E chunks g db vlog_begin vlog_end expected_crc =
     and_then (validate_for_decode g) (\<lambda>_.
     and_then (next_chunk_position vlog_begin g) (\<lambda>first_chunk_position.
       if chunks = [] \<or> db = 0 \<or> vlog_begin \<ge> vlog_end
          \<or> map_option chunk_position (list_get chunks 0) \<noteq> Some first_chunk_position
       then corrupt
       else
         and_then (try_reserve E ''ScanDistinctKeys'' (length chunks) (decode_error ResourceExhausted))
           (\<lambda>_.
         and_then (scan_chunks E g db vlog_begin vlog_end expected_crc first_chunk_position
                     (length chunks) 0 chunks (scan_init E vlog_begin)) (\<lambda>s.
           if sc_physical_end s \<noteq> vlog_end then corrupt
           else
             and_then (ok_or (sc_begin s) (decode_error Corruption)) (\<lambda>b.
             and_then (ok_or (sc_footer s) (decode_error Corruption)) (\<lambda>footer.
               Ok \<lparr>se_commit_seq = tb_commit_seq b, se_tx_uuid = tb_tx_uuid b,
                   se_vlog_begin = vlog_begin, se_vlog_end = vlog_end,
                   se_logical_op_count = sc_logical_op_count s,
                   se_distinct_key_count = te_distinct_key_count footer,
                   se_kv_record_count = sc_kv_record_count s,
                   se_delete_record_count = sc_delete_record_count s,
                   se_envelope_crc32c = te_envelope_crc32c footer\<rparr>))))))"

section \<open>Locating the footer\<close>

record located_footer =
  lf_record_start :: vlog_position
  lf_footer :: tx_prepared_end

definition locate_footer_from_end ::
  "env \<Rightarrow> vlog_position \<Rightarrow> bytes \<Rightarrow> vlog_position \<Rightarrow> vlog_geometry \<Rightarrow> located_footer res" where
  "locate_footer_from_end E tail_start tail vlog_end g =
     and_then (validate_for_decode g) (\<lambda>_.
       if pos_file_id tail_start \<noteq> pos_file_id vlog_end \<or> length tail < 8 then corrupt
       else
         and_then (ok_or (u64_try_from (length tail)) (decode_error Corruption)) (\<lambda>tail_len.
         and_then (ok_or (checked_add (pos_offset tail_start) tail_len) (decode_error Corruption))
           (\<lambda>calculated_tail_end.
           if calculated_tail_end \<noteq> pos_offset vlog_end \<or> pos_offset vlog_end > max_file_size g
           then corrupt
           else
             and_then (ok_or (usize_checked_sub (length tail) 8) (decode_error Corruption))
               (\<lambda>trailer_offset.
               if slice_get tail (trailer_offset + 4) (trailer_offset + 8) \<noteq> Some END_TRAILER_MAGIC
               then corrupt
               else
                 and_then (read_u32 tail trailer_offset) (\<lambda>end_record_len.
                 and_then (ok_or (checked_sub (pos_offset vlog_end) (ucast end_record_len))
                            (decode_error Corruption)) (\<lambda>record_start_offset.
                   if record_start_offset < pos_offset tail_start then corrupt
                   else
                     and_then (ok_or (checked_sub (pos_offset vlog_end) 1) (decode_error Corruption))
                       (\<lambda>last_byte.
                       if record_start_offset div page_size g \<noteq> last_byte div page_size g then corrupt
                       else
                         and_then (ok_or (checked_sub record_start_offset (pos_offset tail_start))
                                    (decode_error Corruption)) (\<lambda>relative_start.
                         and_then (ok_or (slice_get tail (unat relative_start) (length tail))
                                    (decode_error Corruption)) (\<lambda>record_bytes.
                         let record_start = VLogPosition (pos_file_id vlog_end) record_start_offset in
                         and_then (decode_record_at E record_bytes record_start g) (\<lambda>decoded.
                           case decoded of
                             DR_TxPreparedEnd footer \<Rightarrow>
                               if te_vlog_end footer = vlog_end
                               then Ok \<lparr>lf_record_start = record_start, lf_footer = footer\<rparr>
                               else corrupt
                           | _ \<Rightarrow> corrupt))))))))))"

section \<open>Steps of the scan\<close>

lemma next_chunk_position_eval:
  assumes "geometry_ok g" and "log_position g p"
  shows "next_chunk_position p g = (if can_enter g p then Ok (file_entry g p) else corrupt)"
proof -
  have "unat (pos_offset p) \<le> unat (max_file_size g)" "unat (max_file_id g) \<le> 999999"
    using assms geometry_okD(5) [OF assms(1)] by (simp_all add: log_position_def)
  then show ?thesis
    by (auto simp: next_chunk_position_def can_enter_def file_entry_def needs_new_file_def
        word_nat_simps checked_add_def word_unat_eq_iff)
qed

lemma chunk_end_eval:
  assumes "geometry_ok g" and "unat (pos_file_id (chunk_position c)) \<le> unat (max_file_id g)"
    and "unat (pos_offset (chunk_position c)) + length (chunk_bytes c) \<le> unat (max_file_size g)"
  shows "chunk_end c g = Ok (pos_add (chunk_position c) (length (chunk_bytes c)))"
proof -
  note G = geometry_okD [OF assms(1)]
  have l: "u64_try_from (length (chunk_bytes c)) = Some (word_of_nat (length (chunk_bytes c)))"
    using assms(3) G(3) by (simp add: u64_try_from_def)
  have "checked_add (pos_offset (chunk_position c)) (word_of_nat (length (chunk_bytes c)))
      = Some (pos_offset (pos_add (chunk_position c) (length (chunk_bytes c))))"
    using assms(3) G(3) by (simp add: checked_add_def pos_add_def)
  moreover have "\<not> pos_offset (pos_add (chunk_position c) (length (chunk_bytes c))) > max_file_size g"
    using unat_pos_add [OF assms(1,3)] assms(3) by (simp add: word_less_nat_alt)
  ultimately show ?thesis
    using assms(2) l by (simp add: chunk_end_def word_less_nat_alt VLogPosition_pos_add)
qed

lemma validate_tail_end:
  assumes "geometry_ok g" and "tail_position g p"
  shows "validate_transaction_record_end p g = Ok ()"
proof (cases "boundary g p")
  case True
  then show ?thesis
    using assms by (auto simp: validate_transaction_record_end_def tail_position_def log_position_def
        is_multiple_of_nat boundary_def word_less_nat_alt)
next
  case False
  note T = tail_not_boundary [OF assms False]
  have w: "unat (word_of_nat (page_rest g (pos_offset p)) :: u64) = page_rest g (pos_offset p)"
    using page_rest_bounds(2) [OF assms(1) T(2)] by simp
  have "\<not> (word_of_nat (page_rest g (pos_offset p)) :: u64) < 43"
    unfolding word_less_nat_alt w using T(3) by simp
  then show ?thesis
    using T(1,2) False remaining_in_page_eval [OF assms(1) T(2), folded page_rest_def]
    by (auto simp: validate_transaction_record_end_def log_position_def is_multiple_of_nat
        boundary_def word_less_nat_alt PAGE_END_MIN_SIZE_def)
qed

text \<open>One step without the chunk index, and the scan of a list of chunks with more to come.\<close>

definition scan_step ::
  "env \<Rightarrow> vlog_geometry \<Rightarrow> uuid \<Rightarrow> vlog_position \<Rightarrow> vlog_position \<Rightarrow> u32 option \<Rightarrow> bool \<Rightarrow>
   physical_chunk \<Rightarrow> scan_state \<Rightarrow> scan_state res" where
  "scan_step E g db vb ve crc is_last chunk s =
     and_then (next_chunk_position (sc_physical_end s) g) (\<lambda>start.
       scan_chunk_at E g db vb ve crc is_last start chunk s)"

fun scan_all ::
  "env \<Rightarrow> vlog_geometry \<Rightarrow> uuid \<Rightarrow> vlog_position \<Rightarrow> vlog_position \<Rightarrow> u32 option \<Rightarrow> nat \<Rightarrow>
   physical_chunk list \<Rightarrow> scan_state \<Rightarrow> scan_state res" where
  "scan_all E g db vb ve crc r [] s = Ok s"
| "scan_all E g db vb ve crc r (c # cs) s =
     and_then (scan_step E g db vb ve crc (cs = [] \<and> r = 0) c s) (\<lambda>s.
       scan_all E g db vb ve crc r cs s)"

lemma scan_chunk_step:
  assumes "chunk_bytes c \<noteq> []" and "i = 0 \<longrightarrow> next_chunk_position (sc_physical_end s) g = Ok first"
  shows "scan_chunk E g db vb ve crc first n i c s
    = scan_step E g db vb ve crc (n = Suc i) c s"
proof -
  have l: "(i + 1 = n) = (n = Suc i)" by auto
  show ?thesis using assms unfolding scan_step_def scan_chunk_def l by (cases "i = 0") simp_all
qed

lemma scan_chunks_all:
  assumes "\<forall>c \<in> set cs. chunk_bytes c \<noteq> []" and "i + length cs = n"
    and "i = 0 \<longrightarrow> next_chunk_position (sc_physical_end s) g = Ok first"
  shows "scan_chunks E g db vb ve crc first n i cs s = scan_all E g db vb ve crc 0 cs s"
  using assms
proof (induction cs arbitrary: i s)
  case (Cons c cs)
  have st: "scan_chunk E g db vb ve crc first n i c s = scan_step E g db vb ve crc (cs = []) c s"
  proof -
    have "n = Suc i \<longleftrightarrow> cs = []" using Cons.prems(2) by auto
    then show ?thesis using scan_chunk_step [of c i s g first E db vb ve crc n] Cons.prems by simp
  qed
  have "scan_chunks E g db vb ve crc first n (Suc i) cs = scan_all E g db vb ve crc 0 cs"
    using Cons.IH [of "Suc i"] Cons.prems by (intro ext) simp
  then show ?case using Cons.prems by (simp add: st)
qed simp

lemma scan_all_append:
  "scan_all E g db vb ve crc r (as @ bs) s
     = and_then (scan_all E g db vb ve crc (r + length bs) as s) (scan_all E g db vb ve crc r bs)"
proof (induction as arbitrary: s)
  case (Cons a as)
  show ?case
    by (cases "scan_step E g db vb ve crc (as @ bs = [] \<and> r = 0) a s") (auto simp: Cons conj_ac)
qed simp

lemma scan_all_nil: "and_then x (scan_all E g db vb ve crc r []) = x"
  by (cases x) simp_all

lemma record_start_branch:
  assumes "geometry_ok g" and "validate_record_start p g = Ok ()"
  shows "pos_offset p mod page_size g \<noteq> 0"
    "\<not> (pos_offset p < page_size g \<and> pos_offset p = 16)"
proof -
  have r: "record_area_ok g (unat (pos_offset p))" using assms(2) by (simp add: validate_record_start_Ok)
  then have "unat (pos_offset p) mod unat (page_size g) \<noteq> 0"
    by (auto simp: record_area_ok_def split: if_splits)
  then show "pos_offset p mod page_size g \<noteq> 0"
    by (simp add: word_unat_eq_iff unat_mod_distrib)
  show "\<not> (pos_offset p < page_size g \<and> pos_offset p = 16)"
    using r geometry_okD(1) [OF assms(1)] by (auto simp: record_area_ok_def word_less_nat_alt)
qed

text \<open>The state of a scan inside a transaction.\<close>

definition may_be :: "(u64 \<times> uuid) option \<Rightarrow> u64 \<Rightarrow> uuid \<Rightarrow> bool" where
  "may_be idn seq uid \<longleftrightarrow> idn = None \<or> idn = Some (seq, uid)"

lemma scan_record_step:
  assumes "geometry_ok g" and "validate_record_start p g = Ok ()"
    and "next_chunk_position (sc_physical_end s) g = Ok p" and "bs \<noteq> []" and "fits g p (length bs)"
    and "\<not> sc_expecting_file_header s" and "may_be (sc_identity s) seq uid"
    and "decode_record_at E bs p g = Ok d" and "RecordHeader_decode E bs = Ok h"
    and "rh_commit_seq h = seq" and "rh_tx_uuid h = uid"
  shows "scan_step E g db vb ve crc l \<lparr>chunk_position = p, chunk_bytes = bs\<rparr> s =
    and_then (scan_decoded E vb ve crc l d (s\<lparr>sc_identity := Some (seq, uid)\<rparr>)) (\<lambda>s.
    and_then (if d = DR_PageEnd then Ok ()
              else validate_transaction_record_end (pos_add p (length bs)) g) (\<lambda>_.
      Ok (s\<lparr>sc_physical_end := pos_add p (length bs)\<rparr>)))"
proof -
  note B = record_start_branch [OF assms(1,2)]
  have lt: "unat (pos_offset p) < unat (max_file_size g)" "unat (pos_file_id p) \<le> unat (max_file_id g)"
    using assms(2) by (simp_all add: validate_record_start_Ok)
  have "unat (pos_offset p) + length bs \<le> unat (max_file_size g)"
    using page_rest_bounds(3) [OF assms(1) lt(1)] assms(5) by (simp add: fits_def)
  then have e: "chunk_end \<lparr>chunk_position = p, chunk_bytes = bs\<rparr> g = Ok (pos_add p (length bs))"
    using chunk_end_eval [of g "\<lparr>chunk_position = p, chunk_bytes = bs\<rparr>"] assms(1) lt(2) by simp
  have idn: "(case sc_identity s of
      Some (a, b) \<Rightarrow> if rh_commit_seq h \<noteq> a \<or> rh_tx_uuid h \<noteq> b then corrupt else Ok s
    | None \<Rightarrow> Ok (s\<lparr>sc_identity := Some (rh_commit_seq h, rh_tx_uuid h)\<rparr>)) = Ok (s\<lparr>sc_identity := Some (seq, uid)\<rparr>)"
    using assms(7,10,11) by (auto simp: may_be_def)
  have r: "scan_record E g vb ve crc l \<lparr>chunk_position = p, chunk_bytes = bs\<rparr> s =
      and_then (scan_decoded E vb ve crc l d (s\<lparr>sc_identity := Some (seq, uid)\<rparr>)) (\<lambda>s. Ok (s, d \<noteq> DR_PageEnd))"
    using assms(6) by (simp add: scan_record_def assms(8,9) idn)
  have b: "\<not> (pos_offset p < page_size g \<and> pos_offset p = word_of_nat PAGE_HEADER_ENCODED_LEN)"
    using B(2) by (simp add: PAGE_HEADER_ENCODED_LEN_def)
  have "scan_step E g db vb ve crc l \<lparr>chunk_position = p, chunk_bytes = bs\<rparr> s =
      and_then (scan_record E g vb ve crc l \<lparr>chunk_position = p, chunk_bytes = bs\<rparr> s) (\<lambda>(s, t).
      and_then (if t then validate_transaction_record_end (pos_add p (length bs)) g else Ok ()) (\<lambda>_.
        Ok (s\<lparr>sc_physical_end := pos_add p (length bs)\<rparr>)))"
    using B(1) b by (auto simp add: scan_step_def assms(3) scan_chunk_at_def Let_def e)
  then show ?thesis
    unfolding r by (cases "scan_decoded E vb ve crc l d (s\<lparr>sc_identity := Some (seq, uid)\<rparr>)") auto
qed

section \<open>Scanning the preludes\<close>

lemma next_chunk_inside:
  "unat (pos_offset p) < unat (max_file_size g) \<Longrightarrow> next_chunk_position p g = Ok p"
  by (simp add: next_chunk_position_def word_less_nat_alt)

lemma scan_page_header_step:
  assumes "geometry_ok g" and "log_position g q" and "boundary g q"
    and "unat (pos_offset q) < unat (max_file_size g)"
    and "next_chunk_position (sc_physical_end s) g = Ok q" and "\<not> sc_expecting_file_header s"
    and "prelude_chunk E db seq uid g
      (LP_PageHeader q (word_of_nat (unat (pos_offset q) div unat (page_size g)))) = Ok c"
  shows "scan_step E g db vb ve crc l c s = Ok (s\<lparr>sc_physical_end := pos_add q 16,
    sc_expecting_file_header := pos_offset q = 0\<rparr>)"
proof -
  note G = geometry_okD [OF assms(1)]
  let ?n = "unat (pos_offset q) div unat (page_size g)"
  have nb: "?n \<le> 65535" by (rule page_no_bound [OF assms(1,4)])
  have z: "(word_of_nat ?n :: u32) = 0 \<longleftrightarrow> pos_offset q = 0"
  proof -
    have "(word_of_nat ?n :: u32) = 0 \<longleftrightarrow> ?n = 0"
      using nb by (simp add: word_unat_eq_iff)
    also have "\<dots> \<longleftrightarrow> unat (pos_offset q) = 0"
      using assms(3) G(1) by (auto simp: boundary_def div_eq_0_iff dest: dvd_imp_le)
    finally show ?thesis by (simp add: unat_eq_zero)
  qed
  from assms(7) obtain bs where bs: "PageHeader_encode E \<lparr>ph_file_id = pos_file_id q, ph_page_no = word_of_nat ?n\<rparr> = Ok bs"
    and c: "c = \<lparr>chunk_position = q, chunk_bytes = bs\<rparr>"
    by (auto simp: result_simps try_copy_structural_bytes_def)
  note d = PageHeader_dec_enc [OF bs] and len = encoded_widths(1) [OF bs]
  have "unat (pos_offset q) + unat (page_size g) \<le> unat (max_file_size g)"
    using npage_end_le [of "unat (page_size g)" "unat (max_file_size g)" "unat (pos_offset q)"]
      assms(3,4) G by (auto simp: boundary_def npage_end_def elim!: dvdE)
  then have e: "chunk_end c g = Ok (pos_add q 16)"
    using chunk_end_eval [of g c] assms(1,2) G(1) len by (simp add: c log_position_def)
  have u: "u32_try_from (unat (pos_offset q div page_size g)) = Some (word_of_nat ?n)"
    using nb by (simp add: u32_try_from_def unat_div_distrib)
  have m: "pos_offset q mod page_size g = 0"
    using assms(3) by (simp add: boundary_def word_unat_eq_iff unat_mod_distrib mod_eq_0_iff_dvd)
  have "scan_page_header E g c s = Ok (s\<lparr>sc_expecting_file_header := pos_offset q = 0\<rparr>)"
    using assms(6) len z G(8)
    by (simp add: scan_page_header_def c PAGE_HEADER_ENCODED_LEN_def d checked_div_def u)
  then show ?thesis
    using m by (simp add: scan_step_def assms(5) scan_chunk_at_def e) (simp add: c)
qed

lemma scan_file_header_step:
  assumes "geometry_ok g" and "unat f \<le> unat (max_file_id g)"
    and "sc_physical_end s = VLogPosition f 16" and "sc_expecting_file_header s"
    and "prelude_chunk E db seq uid g (LP_FileHeader (VLogPosition f 16)) = Ok c"
  shows "scan_step E g db vb ve crc l c s = Ok (s\<lparr>sc_physical_end := VLogPosition f 64,
    sc_expecting_file_header := False\<rparr>)"
proof -
  note G = geometry_okD [OF assms(1)]
  have le: "unat (page_size g) \<le> unat (max_file_size g)" using G(4,6) by (simp add: dvd_imp_le)
  from assms(5) obtain bs where bs: "VLogFileHeader_encode E (VLogFileHeader_new db f) = Ok bs"
    and c: "c = \<lparr>chunk_position = VLogPosition f 16, chunk_bytes = bs\<rparr>"
    by (auto simp: result_simps try_copy_structural_bytes_def)
  note d = VLogFileHeader_dec_enc [OF bs] and len = encoded_widths(2) [OF bs]
  have e: "chunk_end c g = Ok (VLogPosition f 64)"
    using chunk_end_eval [of g c] assms(1,2) G(1) le len by (simp add: c pos_add_def)
  have m: "(16 :: u64) mod page_size g \<noteq> 0" "(16 :: u64) < page_size g"
    using G(1) by (simp_all add: word_unat_eq_iff unat_mod_distrib word_less_nat_alt)
  have n: "next_chunk_position (VLogPosition f 16) g = Ok (VLogPosition f 16)"
    using G(1) le by (intro next_chunk_inside) simp
  have "scan_file_header E db c s = Ok (s\<lparr>sc_expecting_file_header := False\<rparr>)"
    using assms(4) len
    by (simp add: scan_file_header_def c FILE_HEADER_ENCODED_LEN_def d) (simp add: VLogFileHeader_new_def)
  then show ?thesis
    using m by (simp add: scan_step_def assms(3) n scan_chunk_at_def e) (simp add: c PAGE_HEADER_ENCODED_LEN_def)
qed

lemma scan_area:
  assumes "geometry_ok g" and "log_position g q" and "unat (pos_offset q) < unat (max_file_size g)"
    and "next_chunk_position (sc_physical_end s) g = Ok q" and "\<not> sc_expecting_file_header s"
    and "list_all2 (\<lambda>p c. prelude_chunk E db seq uid g p = Ok c) (area_preludes g q) hs"
  shows "\<exists>e. scan_all E g db vb ve crc r hs s = Ok (s\<lparr>sc_physical_end := e\<rparr>)
    \<and> next_chunk_position e g = Ok (area_start g q)"
proof (cases "boundary g q")
  case False
  then have "pos_offset q \<noteq> 0" by auto
  then have "hs = []" using False assms(6) by (simp add: area_preludes_def)
  then have "scan_all E g db vb ve crc r hs s = Ok (s\<lparr>sc_physical_end := sc_physical_end s\<rparr>)" by simp
  then show ?thesis using assms(4) False by (metis area_start_id)
next
  case b: True
  have a: "next_chunk_position (area_start g q) g = Ok (area_start g q)"
    using area_start_position(1) [OF assms(1-3)] by (intro next_chunk_inside) (simp add: validate_record_start_Ok)
  show ?thesis
  proof (cases "pos_offset q = 0")
    case True
    then obtain c1 c2 where hs: "hs = [c1, c2]" and p1: "prelude_chunk E db seq uid g (LP_PageHeader q 0) = Ok c1"
      and p2: "prelude_chunk E db seq uid g (LP_FileHeader (VLogPosition (pos_file_id q) 16)) = Ok c2"
      using assms(6) by (auto simp: area_preludes_def list_all2_Cons1)
    have s1: "scan_step E g db vb ve crc l c1 s = Ok (s\<lparr>sc_physical_end := VLogPosition (pos_file_id q) 16,
        sc_expecting_file_header := True\<rparr>)" for l
      using scan_page_header_step [OF assms(1,2) b assms(3-5)] p1 True by (simp add: pos_add_def)
    have f: "unat (pos_file_id q) \<le> unat (max_file_id g)" using assms(2) by (simp add: log_position_def)
    have "scan_all E g db vb ve crc r hs s = Ok (s\<lparr>sc_physical_end := area_start g q,
        sc_expecting_file_header := False\<rparr>)"
      using scan_file_header_step [OF assms(1) f _ _ p2] True by (simp add: hs s1 area_start_def)
    moreover have "s\<lparr>sc_physical_end := e, sc_expecting_file_header := False\<rparr> = s\<lparr>sc_physical_end := e\<rparr>" for e
      using assms(5) by (cases s) simp
    ultimately show ?thesis using a by (intro exI [of _ "area_start g q"]) simp
  next
    case False
    let ?no = "word_of_nat (unat (pos_offset q) div unat (page_size g)) :: u32"
    obtain c1 where hs: "hs = [c1]" and p1: "prelude_chunk E db seq uid g (LP_PageHeader q ?no) = Ok c1"
      using assms(6) b False by (auto simp: area_preludes_def list_all2_Cons1)
    have "scan_all E g db vb ve crc r hs s = Ok (s\<lparr>sc_physical_end := area_start g q\<rparr>)"
      using scan_page_header_step [OF assms(1,2) b assms(3-5) p1] b False assms(5)
      by (simp add: hs area_start_def pos_add_def)
    then show ?thesis using a by blast
  qed
qed

lemma next_page_add: "pos_add p (page_rest g (pos_offset p)) = next_page g p"
  by (simp add: next_page_def)

lemma scan_filler_step:
  assumes "geometry_ok g" and "tail_position g p" and "\<not> boundary g p" and "sc_physical_end s = p"
    and "\<not> sc_expecting_file_header s" and "may_be (sc_identity s) seq uid" and "sc_footer s = None"
    and "\<not> sc_previous_was_page_end s"
    and "prelude_chunk E db seq uid g (LP_PageEnd p n) = Ok c"
  shows "scan_step E g db vb ve crc l c s = Ok (s\<lparr>sc_physical_end := next_page g p,
    sc_identity := Some (seq, uid), sc_previous_was_page_end := True\<rparr>)"
proof -
  note T = tail_not_boundary [OF assms(1-3)]
  let ?n = "page_rest g (pos_offset p)"
  from assms(9) obtain bs where bs: "encode_page_end E seq uid p g = Ok bs"
    and c: "c = \<lparr>chunk_position = p, chunk_bytes = bs\<rparr>" by (auto simp: result_simps split: if_splits)
  have v: "validate_record_start p g = Ok ()"
    using T(1,2) assms(3) by (simp add: validate_record_start_Ok log_position_def)
  have i: "identity_ok seq uid"
    using bs by (auto simp: encode_page_end_def result_simps validate_identity_Ok)
  have f: "fits g p 43" "fits g p ?n" using assms(1) v T(3) by (simp_all add: fits_def)
  have F: "bs = filler E seq uid ?n"
  proof -
    have w: "unat (word_of_nat ?n :: u64) = ?n" "unat (word_of_nat ?n :: u32) = ?n"
      using page_rest_bounds(2) [OF assms(1) T(2)] by simp_all
    have u: "(ucast (word_of_nat ?n :: u64) :: u32) = word_of_nat ?n"
      using arg_cong [OF w(1), of "word_of_nat :: nat \<Rightarrow> u32"] by simp
    have a: "can_alloc E ''RecordBytes'' ?n"
      using bs remaining_in_page_eval [OF assms(1) T(2), folded page_rest_def] page_rest_bounds(2) [OF assms(1) T(2)]
      by (auto simp: encode_page_end_def result_simps remaining_in_page_def u32_try_from_def u w
          split: if_splits)
    show ?thesis using encode_page_end_Ok [OF assms(1) v T(3) i a] bs by simp
  qed
  have len: "length bs = ?n" using T(3) by (simp add: F length_filler)
  have ne: "bs \<noteq> []" using T(3) len by auto
  have h: "RecordHeader_decode E bs = Ok (RecordHeader_new RT_PageEnd
      (word_of_nat (43 + length (replicate (?n - 43) (0::u8)))) seq uid)"
    unfolding F filler_def by (rule frame_header [OF i])
  have "scan_step E g db vb ve crc l c s =
    and_then (scan_decoded E vb ve crc l DR_PageEnd (s\<lparr>sc_identity := Some (seq, uid)\<rparr>)) (\<lambda>s.
      Ok (s\<lparr>sc_physical_end := pos_add p (length bs)\<rparr>))"
    unfolding c using scan_record_step [OF assms(1) v _ ne _ assms(5,6) _ h, of DR_PageEnd db vb ve crc l]
      next_chunk_inside [OF T(2)] assms(4) f(2) len decode_record_at_filler [OF f(1) i]
    by (simp add: F)
  then show ?thesis
    using assms(7,8) by (simp add: scan_decoded_def len next_page_add)
qed

lemma scan_preludes:
  assumes "geometry_ok g" and "tail_position g p" and "plan_enters g p n" and "record_len_ok g n"
    and "sc_physical_end s = p" and "\<not> sc_expecting_file_header s" and "may_be (sc_identity s) seq uid"
    and "sc_footer s = None" and "\<not> sc_previous_was_page_end s"
    and "list_all2 (\<lambda>p c. prelude_chunk E db seq uid g p = Ok c) (plan_preludes g p n) hs"
  shows "\<exists>e idn pr. scan_all E g db vb ve crc r hs s
      = Ok (s\<lparr>sc_physical_end := e, sc_identity := idn, sc_previous_was_page_end := pr\<rparr>)
    \<and> may_be idn seq uid \<and> next_chunk_position e g = Ok (plan_start g p n)"
proof (cases "stays g p n")
  case True
  have lp: "log_position g p" using assms(2) by (simp add: tail_position_def)
  have e: "plan_entry g p n = file_entry g p" "can_enter g p"
    using True assms(3) by (simp_all add: plan_entry_def plan_enters_def)
  have n: "next_chunk_position (sc_physical_end s) g = Ok (file_entry g p)"
    using next_chunk_position_eval [OF assms(1) lp] e(2) assms(5) by simp
  have "list_all2 (\<lambda>p c. prelude_chunk E db seq uid g p = Ok c) (area_preludes g (file_entry g p)) hs"
    using assms(10) True by (simp add: plan_preludes_def e(1))
  from scan_area [OF assms(1) stays_entry(1,2) [OF assms(1-4), unfolded e(1)] n assms(6) this, of vb ve crc r]
  obtain e' where "scan_all E g db vb ve crc r hs s = Ok (s\<lparr>sc_physical_end := e'\<rparr>)"
    "next_chunk_position e' g = Ok (plan_start g p n)"
    by (auto simp: e(1) plan_start_def)
  then show ?thesis
    using assms(7) by (intro exI [of _ e'] exI [of _ "sc_identity s"]
        exI [of _ "sc_previous_was_page_end s"]) simp
next
  case False
  then have nb: "\<not> boundary g p" by (simp add: stays_def)
  note T = tail_not_boundary [OF assms(1,2) nb]
  note N = next_page_position [OF assms(1) T(1,2)]
  have e: "plan_entry g p n = file_entry g (next_page g p)" "can_enter g (next_page g p)"
    using False assms(3) by (simp_all add: plan_entry_def plan_enters_def)
  obtain c hs' where hs: "hs = c # hs'"
    and c: "prelude_chunk E db seq uid g (LP_PageEnd p (word_of_nat (page_rest g (pos_offset p)))) = Ok c"
    and h: "list_all2 (\<lambda>p c. prelude_chunk E db seq uid g p = Ok c) (area_preludes g (plan_entry g p n)) hs'"
    using assms(10) False by (auto simp: plan_preludes_def list_all2_Cons1)
  let ?s = "s\<lparr>sc_physical_end := next_page g p, sc_identity := Some (seq, uid),
    sc_previous_was_page_end := True\<rparr>"
  have n: "next_chunk_position (sc_physical_end ?s) g = Ok (plan_entry g p n)"
    using next_chunk_position_eval [OF assms(1) N(2)] e by simp
  have "\<not> sc_expecting_file_header ?s" using assms(6) by simp
  from scan_area [OF assms(1) stays_entry(1,2) [OF assms(1-4)] n this h, of vb ve crc r]
  obtain e' where "scan_all E g db vb ve crc r hs' ?s = Ok (?s\<lparr>sc_physical_end := e'\<rparr>)"
    "next_chunk_position e' g = Ok (plan_start g p n)"
    by (auto simp: plan_start_def)
  then show ?thesis
    using scan_filler_step [OF assms(1,2) nb assms(5-9) c]
    by (intro exI [of _ e'] exI [of _ "Some (seq, uid)"] exI [of _ True])
      (simp add: hs may_be_def)
qed

lemma scan_placed:
  assumes "geometry_ok g" and "tail_position g p" and "plan_enters g p (length bs)"
    and "record_len_ok g (length bs)"
    and "sc_physical_end s = p" and "\<not> sc_expecting_file_header s" and "may_be (sc_identity s) seq uid"
    and "sc_footer s = None" and "\<not> sc_previous_was_page_end s"
    and "placed E db seq uid g p bs cs"
    and "decode_record_at E bs (plan_start g p (length bs)) g = Ok d" and "d \<noteq> DR_PageEnd"
    and "RecordHeader_decode E bs = Ok h" and "rh_commit_seq h = seq" and "rh_tx_uuid h = uid"
  shows "\<exists>e pr. scan_all E g db vb ve crc r cs s =
    and_then (scan_decoded E vb ve crc (r = 0) d (s\<lparr>sc_physical_end := e,
        sc_previous_was_page_end := pr, sc_identity := Some (seq, uid)\<rparr>)) (\<lambda>s.
      Ok (s\<lparr>sc_physical_end := pos_add (plan_start g p (length bs)) (length bs)\<rparr>))"
proof -
  let ?q = "plan_start g p (length bs)"
  obtain hs where hs: "list_all2 (\<lambda>p c. prelude_chunk E db seq uid g p = Ok c) (plan_preludes g p (length bs)) hs"
    and cs: "cs = hs @ [\<lparr>chunk_position = ?q, chunk_bytes = bs\<rparr>]" using assms(10) by (auto simp: placed_def)
  obtain e idn pr where pre: "scan_all E g db vb ve crc (r + 1) hs s
      = Ok (s\<lparr>sc_physical_end := e, sc_identity := idn, sc_previous_was_page_end := pr\<rparr>)"
    and idn: "may_be idn seq uid" and n: "next_chunk_position e g = Ok ?q"
    using scan_preludes [OF assms(1-9) hs] by blast
  let ?s = "s\<lparr>sc_physical_end := e, sc_identity := idn, sc_previous_was_page_end := pr\<rparr>"
  note v = stays_entry(4) [OF assms(1-4)] and st = plan_step_ok [OF assms(1-4)]
  have ne: "bs \<noteq> []" using assms(4) by (auto simp: record_len_ok_def)
  have "scan_step E g db vb ve crc (r = 0) \<lparr>chunk_position = ?q, chunk_bytes = bs\<rparr> ?s =
    and_then (scan_decoded E vb ve crc (r = 0) d (?s\<lparr>sc_identity := Some (seq, uid)\<rparr>)) (\<lambda>s.
      Ok (s\<lparr>sc_physical_end := pos_add ?q (length bs)\<rparr>))"
    using scan_record_step [OF assms(1) v _ ne st(2) _ _ assms(11,13-15), of ?s db vb ve crc "r = 0"]
      n idn assms(6,12) validate_tail_end [OF assms(1) st(1)] by simp
  then show ?thesis
    using pre by (intro exI [of _ e] exI [of _ pr]) (simp add: cs scan_all_append scan_all_nil)
qed

section \<open>Scanning the records\<close>

definition mid_scan ::
  "u64 \<Rightarrow> uuid \<Rightarrow> vlog_position \<Rightarrow> tx_begin \<Rightarrow> u32 \<Rightarrow> nat \<Rightarrow> nat \<Rightarrow> nat \<Rightarrow> bytes set \<Rightarrow> scan_state" where
  "mid_scan seq uid p b crc n k d keys =
     \<lparr>sc_physical_end = p, sc_identity = Some (seq, uid), sc_begin = Some b, sc_footer = None,
      sc_envelope_crc = crc, sc_logical_op_count = word_of_nat n, sc_kv_record_count = word_of_nat k,
      sc_delete_record_count = word_of_nat d, sc_distinct_keys = keys,
      sc_previous_was_page_end = False, sc_expecting_file_header = False\<rparr>"

lemma checked_add_Suc: "Suc n < 2 ^ 64 \<Longrightarrow> checked_add (word_of_nat n :: u64) 1 = Some (word_of_nat (Suc n))"
proof -
  assume a: "Suc n < 2 ^ 64"
  have "word_of_nat (Suc n) = word_of_nat n + (1 :: u64)" by simp
  with a show ?thesis by (simp add: checked_add_def del: of_nat_Suc)
qed

definition update_operation :: "env \<Rightarrow> u64 \<Rightarrow> uuid \<Rightarrow> u32 \<Rightarrow> nat \<Rightarrow> logical_operation \<Rightarrow> u32 res" where
  "update_operation E seq uid crc i op = (case op of
     LO_Put key val \<Rightarrow> update_kv_record E crc (kv_of seq uid (word_of_nat i) key val)
   | LO_Delete key \<Rightarrow> update_delete_record E crc (delete_of seq uid (word_of_nat i) key))"

definition decoded_operation :: "u64 \<Rightarrow> uuid \<Rightarrow> nat \<Rightarrow> logical_operation \<Rightarrow> decoded_record" where
  "decoded_operation seq uid i op = (case op of
     LO_Put key val \<Rightarrow> DR_KvRecord (kv_of seq uid (word_of_nat i) key val)
   | LO_Delete key \<Rightarrow> DR_DeleteRecord (delete_of seq uid (word_of_nat i) key))"

lemma decode_op_bytes:
  assumes "identity_ok seq uid" and "op_ok op" and "fits g p (op_len op)"
  shows "decode_record_at E (op_bytes E seq uid i op) p g = Ok (decoded_operation seq uid i op)"
proof (cases op)
  case (LO_Put key val)
  then show ?thesis
    using assms decode_record_at_frames(2) [of "kv_of seq uid (word_of_nat i) key val" g p E]
    by (simp add: decoded_operation_def kv_ok_def)
next
  case (LO_Delete key)
  then show ?thesis
    using assms decode_record_at_frames(3) [of "delete_of seq uid (word_of_nat i) key" g p E]
    by (simp add: decoded_operation_def delete_ok_def)
qed

lemma op_bytes_header:
  assumes "identity_ok seq uid"
  shows "\<exists>h. RecordHeader_decode E (op_bytes E seq uid i op) = Ok h
    \<and> rh_commit_seq h = seq \<and> rh_tx_uuid h = uid"
  using frame_header [OF assms] by (cases op) auto

lemma scan_decoded_operation:
  assumes "update_operation E seq uid crc i op = Ok crc'" and "Suc i < 2 ^ 64" and "k + d = i"
  shows "\<exists>k' d'. k' = k + (if is_put op then 1 else 0) \<and> d' = d + (if is_put op then 0 else 1)
    \<and> scan_decoded E vb ve ec l (decoded_operation seq uid i op)
        ((mid_scan seq uid p b crc i k d keys)\<lparr>sc_physical_end := e, sc_previous_was_page_end := pr,
           sc_identity := Some (seq, uid)\<rparr>)
      = Ok ((mid_scan seq uid p b crc' (Suc i) k' d' (insert (operation_key op) keys))\<lparr>sc_physical_end := e\<rparr>)"
proof -
  have a: "checked_add (word_of_nat i :: u64) 1 = Some (word_of_nat (Suc i))"
    "checked_add (word_of_nat k :: u64) 1 = Some (word_of_nat (Suc k))"
    "checked_add (word_of_nat d :: u64) 1 = Some (word_of_nat (Suc d))"
    by (rule checked_add_Suc, use assms(2,3) in simp)+
  show ?thesis
    using assms(1)
    by (cases op) (simp_all add: update_operation_def decoded_operation_def scan_decoded_def
        mid_scan_def count_record_def a del: of_nat_Suc)
qed

lemma scan_operations:
  assumes "geometry_ok g" and "tail_position g p" and "all_enter g p (map op_len ops)"
    and "\<forall>op \<in> set ops. record_len_ok g (op_len op) \<and> op_ok op" and "identity_ok seq uid"
    and "ops_placed E db seq uid g p i ops cs" and "crc_operations E seq uid crc i ops = Ok crc'"
    and "i + length ops < 2 ^ 64" and "k + d = i"
  shows "scan_all E g db vb ve ec r cs (mid_scan seq uid p b crc i k d keys)
    = Ok (mid_scan seq uid (end_after g p (map op_len ops)) b crc' (i + length ops)
        (k + puts ops) (d + deletes ops) (keys \<union> operation_key ` set ops))"
  using assms
proof (induction ops arbitrary: p i cs crc k d keys)
  case Nil
  then show ?case by (simp add: puts_def deletes_def)
next
  case (Cons op ops)
  let ?n = "op_len op"
  let ?q = "pos_add (plan_start g p ?n) ?n"
  obtain cs1 cs2 where cs: "cs = cs1 @ cs2" and pl: "placed E db seq uid g p (op_bytes E seq uid i op) cs1"
    and rest: "ops_placed E db seq uid g ?q (Suc i) ops cs2" using Cons.prems(6) by auto
  have e: "plan_enters g p ?n" and n: "record_len_ok g ?n" and ok: "op_ok op" using Cons.prems by simp_all
  note st = plan_step_ok [OF Cons.prems(1,2) e n]
  have i: "u64_try_from i = Some (word_of_nat i)" using Cons.prems(8) by (simp add: u64_try_from_def)
  obtain crc1 where c1: "update_operation E seq uid crc i op = Ok crc1"
    and c2: "crc_operations E seq uid crc1 (Suc i) ops = Ok crc'"
    using Cons.prems(7) i by (auto simp: result_simps update_operation_def)
  obtain h where h: "RecordHeader_decode E (op_bytes E seq uid i op) = Ok h" "rh_commit_seq h = seq" "rh_tx_uuid h = uid"
    using op_bytes_header [OF Cons.prems(5)] by blast
  let ?s = "mid_scan seq uid p b crc i k d keys"
  have s: "sc_physical_end ?s = p" "\<not> sc_expecting_file_header ?s" "may_be (sc_identity ?s) seq uid"
    "sc_footer ?s = None" "\<not> sc_previous_was_page_end ?s" by (simp_all add: mid_scan_def may_be_def)
  have dec: "decode_record_at E (op_bytes E seq uid i op) (plan_start g p ?n) g = Ok (decoded_operation seq uid i op)"
    by (rule decode_op_bytes [OF Cons.prems(5) ok st(2)])
  have nd: "decoded_operation seq uid i op \<noteq> DR_PageEnd" by (cases op) (simp_all add: decoded_operation_def)
  obtain e' pr where sp: "scan_all E g db vb ve ec (r + length cs2) cs1 ?s =
      and_then (scan_decoded E vb ve ec (r + length cs2 = 0) (decoded_operation seq uid i op)
        (?s\<lparr>sc_physical_end := e', sc_previous_was_page_end := pr, sc_identity := Some (seq, uid)\<rparr>)) (\<lambda>s.
      Ok (s\<lparr>sc_physical_end := ?q\<rparr>))"
    using scan_placed [OF Cons.prems(1,2) _ _ s pl _ nd h, of vb ve ec "r + length cs2"] e n dec by auto
  define k' d' where "k' = k + (if is_put op then 1 else 0)" and "d' = d + (if is_put op then 0 else 1)"
  have sd: "scan_decoded E vb ve ec (r + length cs2 = 0) (decoded_operation seq uid i op)
        (?s\<lparr>sc_physical_end := e', sc_previous_was_page_end := pr, sc_identity := Some (seq, uid)\<rparr>)
      = Ok ((mid_scan seq uid p b crc1 (Suc i) k' d' (insert (operation_key op) keys))\<lparr>sc_physical_end := e'\<rparr>)"
    using scan_decoded_operation [OF c1 _ Cons.prems(9)] Cons.prems(8) by (auto simp: k'_def d'_def)
  have m: "(mid_scan seq uid p b crc1 (Suc i) k' d' keys')\<lparr>sc_physical_end := ?q\<rparr>
      = mid_scan seq uid ?q b crc1 (Suc i) k' d' keys'" for keys' by (simp add: mid_scan_def)
  have "scan_all E g db vb ve ec r cs2 (mid_scan seq uid ?q b crc1 (Suc i) k' d' (insert (operation_key op) keys))
      = Ok (mid_scan seq uid (end_after g ?q (map op_len ops)) b crc' (Suc i + length ops)
        (k' + puts ops) (d' + deletes ops) (insert (operation_key op) keys \<union> operation_key ` set ops))"
    by (rule Cons.IH) (use Cons.prems st(1) rest c2 in \<open>auto simp: k'_def d'_def\<close>)
  moreover have "scan_all E g db vb ve ec (r + length cs2) cs1 ?s
      = Ok (mid_scan seq uid ?q b crc1 (Suc i) k' d' (insert (operation_key op) keys))"
    unfolding sp sd by (simp add: m)
  ultimately show ?case
    by (simp add: cs scan_all_append) (simp add: k'_def d'_def puts_def deletes_def)
qed

section \<open>The whole scan\<close>

lemma scan_step_Ok:
  assumes "scan_step E g db vb ve crc l c s = Ok s'"
  shows "next_chunk_position (sc_physical_end s) g = Ok (chunk_position c)" "chunk_bytes c \<noteq> []"
proof -
  show "next_chunk_position (sc_physical_end s) g = Ok (chunk_position c)"
    using assms by (auto simp: scan_step_def scan_chunk_at_def result_simps split: if_splits)
  show "chunk_bytes c \<noteq> []"
  proof
    assume e: "chunk_bytes c = []"
    have "RecordHeader_decode E [] = Err (decode_error Corruption)"
      by (simp add: RecordHeader_decode_def RECORD_HEADER_ENCODED_LEN_def)
    then have "scan_record E g vb ve crc l c s \<noteq> Ok x" for x
      by (auto simp: scan_record_def e result_simps)
    then show False
      using assms e
      by (auto simp: scan_step_def scan_chunk_at_def result_simps scan_page_header_def
          scan_file_header_def PAGE_HEADER_ENCODED_LEN_def FILE_HEADER_ENCODED_LEN_def Let_def
          split: if_splits)
  qed
qed

lemma scan_all_Ok:
  "scan_all E g db vb ve crc r cs s = Ok s' \<Longrightarrow> \<forall>c \<in> set cs. chunk_bytes c \<noteq> []"
  by (induction cs arbitrary: s) (auto simp: result_simps dest: scan_step_Ok(2))

lemma scan_prepared_all:
  assumes "geometry_ok g" and "db \<noteq> 0" and "vb < ve" and "cs \<noteq> []"
    and "can_alloc E ''ScanDistinctKeys'' (length cs)"
    and "scan_all E g db vb ve crc 0 cs (scan_init E vb) = Ok s" and "sc_physical_end s = ve"
    and "sc_begin s = Some b" and "sc_footer s = Some f"
  shows "scan_prepared_envelope E cs g db vb ve crc = Ok \<lparr>se_commit_seq = tb_commit_seq b,
    se_tx_uuid = tb_tx_uuid b, se_vlog_begin = vb, se_vlog_end = ve,
    se_logical_op_count = sc_logical_op_count s, se_distinct_key_count = te_distinct_key_count f,
    se_kv_record_count = sc_kv_record_count s, se_delete_record_count = sc_delete_record_count s,
    se_envelope_crc32c = te_envelope_crc32c f\<rparr>"
proof -
  obtain c cs' where cs: "cs = c # cs'" using assms(4) by (cases cs) auto
  have n: "next_chunk_position vb g = Ok (chunk_position c)"
    using assms(6) scan_step_Ok(1) [of E g db vb ve crc _ c "scan_init E vb"]
    by (auto simp: cs result_simps scan_init_def)
  have v: "validate_for_decode g = Ok ()"
    using assms(1) by (simp add: validate_for_decode_def VLogGeometry_validate_Ok)
  have "scan_chunks E g db vb ve crc (chunk_position c) (length cs) 0 cs (scan_init E vb) = Ok s"
    using scan_chunks_all [OF scan_all_Ok [OF assms(6)]] assms(6) n by (simp add: scan_init_def)
  then show ?thesis
    using assms(2-5,7-9)
    by (simp add: scan_prepared_envelope_def v n and_then_Ok) (simp add: cs)
qed

lemma tx_begin_of_simps:
  "tb_commit_seq (tx_begin_of seq uid p ops) = seq" "tb_tx_uuid (tx_begin_of seq uid p ops) = uid"
  "tb_vlog_begin (tx_begin_of seq uid p ops) = p"
  "tb_logical_op_count (tx_begin_of seq uid p ops) = word_of_nat (length ops)"
  "tb_distinct_key_count (tx_begin_of seq uid p ops) = word_of_nat (card (operation_key ` set ops))"
  by (simp_all add: tx_begin_of_def)

lemma footer_of_simps:
  "te_commit_seq (footer_of seq uid p q crc ops) = seq" "te_tx_uuid (footer_of seq uid p q crc ops) = uid"
  "te_vlog_begin (footer_of seq uid p q crc ops) = p" "te_vlog_end (footer_of seq uid p q crc ops) = q"
  "te_logical_op_count (footer_of seq uid p q crc ops) = word_of_nat (length ops)"
  "te_distinct_key_count (footer_of seq uid p q crc ops) = word_of_nat (card (operation_key ` set ops))"
  "te_kv_record_count (footer_of seq uid p q crc ops) = word_of_nat (puts ops)"
  "te_delete_record_count (footer_of seq uid p q crc ops) = word_of_nat (deletes ops)"
  "te_envelope_crc32c (footer_of seq uid p q crc ops) = crc"
  by (simp_all add: footer_of_def)

lemma finish_with_footer_of:
  "finish_with_footer E c (footer_of seq uid p q x ops) = finish_with_footer E c (footer_of seq uid p q y ops)"
  by (simp add: finish_with_footer_def validate_tx_prepared_end_def footer_of_def)

lemma scan_tx_begin:
  assumes "geometry_ok g" and "tail_position g p" and "plan_enters g p 71" and "record_len_ok g 71"
    and "tx_begin_ok (tx_begin_of seq uid p ops)" and "identity_ok seq uid"
    and "placed E db seq uid g p
      (frame E RT_TxBegin seq uid (tx_begin_payload (tx_begin_of seq uid p ops))) cs"
    and "update_tx_begin E (EnvelopeCrc32c_new E) (tx_begin_of seq uid p ops) = Ok crc"
  shows "scan_all E g db p ve ec r cs (scan_init E p)
    = Ok (mid_scan seq uid (ops_start g p) (tx_begin_of seq uid p ops) crc 0 0 0 {})"
proof -
  let ?b = "tx_begin_of seq uid p ops"
  let ?bs = "frame E RT_TxBegin seq uid (tx_begin_payload ?b)"
  have s: "sc_physical_end (scan_init E p) = p" "\<not> sc_expecting_file_header (scan_init E p)"
    "may_be (sc_identity (scan_init E p)) seq uid" "sc_footer (scan_init E p) = None"
    "\<not> sc_previous_was_page_end (scan_init E p)" by (simp_all add: scan_init_def may_be_def)
  have tb: "tb_commit_seq ?b = seq" "tb_tx_uuid ?b = uid" "tb_vlog_begin ?b = p"
    by (simp_all add: tx_begin_of_def)
  have len: "length ?bs = 71" by simp
  have dec: "decode_record_at E ?bs (plan_start g p 71) g = Ok (DR_TxBegin ?b)"
    using decode_record_at_frames(1) [OF assms(5) plan_step_ok(2) [OF assms(1-4)], of E] by (simp add: tb)
  note h = frame_header [OF assms(6), of E RT_TxBegin "tx_begin_payload ?b"]
  obtain e pr where "scan_all E g db p ve ec r cs (scan_init E p) =
    and_then (scan_decoded E p ve ec (r = 0) (DR_TxBegin ?b) ((scan_init E p)\<lparr>sc_physical_end := e,
        sc_previous_was_page_end := pr, sc_identity := Some (seq, uid)\<rparr>)) (\<lambda>s.
      Ok (s\<lparr>sc_physical_end := ops_start g p\<rparr>))"
    using scan_placed [OF assms(1,2) _ _ s assms(7) _ _ h, of "DR_TxBegin ?b" p ve ec r] assms(3,4) dec
    unfolding len ops_start_def by auto
  then show ?thesis
    using assms(8) by (simp add: scan_decoded_def scan_init_def tb) (simp add: mid_scan_def)
qed

lemma scan_tx_end:
  assumes "geometry_ok g" and "tail_position g q" and "plan_enters g q 111" and "record_len_ok g 111"
    and "footer_ok (footer_of seq uid p (pos_add (plan_start g q 111) 111) crc ops)"
    and "placed E db seq uid g q
      (footer_bytes E (footer_of seq uid p (pos_add (plan_start g q 111) 111) crc ops)) cs"
    and "finish_with_footer E crc1 (footer_of seq uid p (pos_add (plan_start g q 111) 111) 0 ops) = Ok crc"
    and "expected = None \<or> expected = Some crc" and "length ops < 2 ^ 64"
  shows "\<exists>s. scan_all E g db p (pos_add (plan_start g q 111) 111) expected 0 cs
      (mid_scan seq uid q (tx_begin_of seq uid p ops) crc1 (length ops) (puts ops) (deletes ops)
        (operation_key ` set ops)) = Ok s
    \<and> sc_physical_end s = pos_add (plan_start g q 111) 111
    \<and> sc_begin s = Some (tx_begin_of seq uid p ops)
    \<and> sc_footer s = Some (footer_of seq uid p (pos_add (plan_start g q 111) 111) crc ops)
    \<and> sc_logical_op_count s = word_of_nat (length ops) \<and> sc_kv_record_count s = word_of_nat (puts ops)
    \<and> sc_delete_record_count s = word_of_nat (deletes ops)"
proof -
  let ?stop = "pos_add (plan_start g q 111) 111"
  let ?f = "footer_of seq uid p ?stop crc ops" and ?b = "tx_begin_of seq uid p ops"
  let ?s = "mid_scan seq uid q ?b crc1 (length ops) (puts ops) (deletes ops) (operation_key ` set ops)"
  have s: "sc_physical_end ?s = q" "\<not> sc_expecting_file_header ?s" "may_be (sc_identity ?s) seq uid"
    "sc_footer ?s = None" "\<not> sc_previous_was_page_end ?s" by (simp_all add: mid_scan_def may_be_def)
  have len: "length (footer_bytes E ?f) = 111" by simp
  have dec: "decode_record_at E (footer_bytes E ?f) (plan_start g q 111) g = Ok (DR_TxPreparedEnd ?f)"
    by (rule decode_record_at_footer [OF assms(5) plan_step_ok(2) [OF assms(1-4)]])
      (simp add: footer_of_def pos_add_def)
  have c: "card (operation_key ` set ops) \<le> length ops"
    using card_image_le [of "set ops" operation_key] card_length [of ops] by simp
  have u: "u64_try_from (card (operation_key ` set ops)) = Some (word_of_nat (card (operation_key ` set ops)))"
    using c assms(9) by (simp add: u64_try_from_def)
  have fin: "finish_with_footer E crc1 ?f = Ok crc" using assms(7) finish_with_footer_of by metis
  have h: "rh_commit_seq (RecordHeader_new RT_TxPreparedEnd 111 (te_commit_seq ?f) (te_tx_uuid ?f)) = seq"
    "rh_tx_uuid (RecordHeader_new RT_TxPreparedEnd 111 (te_commit_seq ?f) (te_tx_uuid ?f)) = uid"
    by (simp_all add: footer_of_def)
  obtain e pr where sp: "scan_all E g db p ?stop expected 0 cs ?s =
    and_then (scan_decoded E p ?stop expected True (DR_TxPreparedEnd ?f) (?s\<lparr>sc_physical_end := e,
        sc_previous_was_page_end := pr, sc_identity := Some (seq, uid)\<rparr>)) (\<lambda>s.
      Ok (s\<lparr>sc_physical_end := ?stop\<rparr>))"
    using scan_placed [OF assms(1,2) _ _ s assms(6) _ _ footer_header [OF assms(5)] h,
        of "DR_TxPreparedEnd ?f" p ?stop expected 0] assms(3,4) dec
    unfolding len by auto
  have sf: "scan_footer E ?stop expected True ?f (?s\<lparr>sc_physical_end := e, sc_previous_was_page_end := pr,
      sc_identity := Some (seq, uid)\<rparr>)
    = Ok (?s\<lparr>sc_physical_end := e, sc_footer := Some ?f, sc_previous_was_page_end := False\<rparr>)"
  proof -
    have "\<not> (case expected of Some x \<Rightarrow> x \<noteq> crc | None \<Rightarrow> False)" using assms(8) by auto
    then show ?thesis
      by (simp add: scan_footer_def mid_scan_def u fin tx_begin_of_simps footer_of_simps)
  qed
  show ?thesis
    unfolding sp by (simp add: scan_decoded_def sf) (simp add: mid_scan_def)
qed

text \<open>Every prepared envelope scans back to its transaction.\<close>

definition scanned_of ::
  "u64 \<Rightarrow> uuid \<Rightarrow> vlog_position \<Rightarrow> vlog_position \<Rightarrow> logical_operation list \<Rightarrow> u32 \<Rightarrow> scanned_envelope" where
  "scanned_of seq uid p q ops crc = \<lparr>se_commit_seq = seq, se_tx_uuid = uid, se_vlog_begin = p,
     se_vlog_end = q, se_logical_op_count = word_of_nat (length ops),
     se_distinct_key_count = word_of_nat (card (operation_key ` set ops)),
     se_kv_record_count = word_of_nat (puts ops), se_delete_record_count = word_of_nat (deletes ops),
     se_envelope_crc32c = crc\<rparr>"

lemma scan_prepared:
  assumes "planner_ok P" and "wide_pages (lp_geometry P)"
    and "prepare_candidate E P db seq uid ops = Ok (P', e)"
    and "can_alloc E ''ScanDistinctKeys'' (length (pe_chunks e))"
    and "expected = None \<or> expected = Some (pe_envelope_crc32c e)"
  shows "scan_prepared_envelope E (pe_chunks e) (lp_geometry P) db (pe_vlog_begin e) (pe_vlog_end e) expected
    = Ok (scanned_of seq uid (lp_position P) (lp_position P') ops (pe_envelope_crc32c e))"
proof -
  let ?g = "lp_geometry P" and ?p = "lp_position P"
  let ?q = "footer_entry ?g ?p ops" and ?stop = "envelope_end ?g ?p ops"
  let ?b = "tx_begin_of seq uid ?p ops"
  have g: "geometry_ok ?g" "tail_position ?g ?p" using assms(1) by (simp_all add: planner_ok_def)
  note C = prepare_candidate_Ok [OF assms(1-3)]
  from C obtain crc cs where
    c: "envelope_crc E seq uid ?g ?p ops crc" and ch: "envelope_chunks E db seq uid ?g ?p ops crc cs"
    and b: "tx_begin_ok ?b" and f: "footer_ok (footer_of seq uid ?p ?stop crc ops)"
    and e: "pe_chunks e = cs" "pe_vlog_begin e = ?p" "pe_vlog_end e = ?stop" "pe_envelope_crc32c e = crc"
    by auto
  from C have i: "identity_ok seq uid" "db \<noteq> 0" "length ops < 2 ^ 64" "\<forall>op \<in> set ops. op_ok op"
    and ae: "all_enter ?g ?p (record_lens ops)" and P': "lp_position P' = ?stop" by auto
  note lens = record_lens_ok [OF assms(2) i(4)]
  have l: "record_len_ok ?g 71" "record_len_ok ?g 111" "\<forall>op \<in> set ops. record_len_ok ?g (op_len op) \<and> op_ok op"
    using lens i(4) by (auto simp: record_lens_def)
  have ent: "plan_enters ?g ?p 71" "all_enter ?g (ops_start ?g ?p) (map op_len ops)" "plan_enters ?g ?q 111"
    using ae by (simp_all add: envelope_parts)
  note pos = envelope_positions [OF g ae lens]
  obtain crc0 crc1 where c0: "update_tx_begin E (EnvelopeCrc32c_new E) ?b = Ok crc0"
    and c1: "crc_operations E seq uid crc0 0 ops = Ok crc1"
    and c2: "finish_with_footer E crc1 (footer_of seq uid ?p ?stop 0 ops) = Ok crc"
    using c by (auto simp: envelope_crc_def)
  obtain cs0 cs1 cs2 where cs: "cs = cs0 @ cs1 @ cs2"
    and p0: "placed E db seq uid ?g ?p (frame E RT_TxBegin seq uid (tx_begin_payload ?b)) cs0"
    and p1: "ops_placed E db seq uid ?g (ops_start ?g ?p) 0 ops cs1"
    and p2: "placed E db seq uid ?g ?q (footer_bytes E (footer_of seq uid ?p ?stop crc ops)) cs2"
    using ch by (auto simp: envelope_chunks_def)
  note s0 = scan_tx_begin [OF g ent(1) l(1) b i(1) p0 c0]
  note s1 = scan_operations [OF g(1) pos(1) ent(2) l(3) i(1) p1 c1, where k = 0 and d = 0 and keys = "{}", simplified]
  have "expected = None \<or> expected = Some crc" using assms(5) e(4) by simp
  then obtain s where s2: "scan_all E ?g db ?p ?stop expected 0 cs2
      (mid_scan seq uid ?q ?b crc1 (length ops) (puts ops) (deletes ops) (operation_key ` set ops)) = Ok s"
    and fin: "sc_physical_end s = ?stop" "sc_begin s = Some ?b"
      "sc_footer s = Some (footer_of seq uid ?p ?stop crc ops)"
      "sc_logical_op_count s = word_of_nat (length ops)" "sc_kv_record_count s = word_of_nat (puts ops)"
      "sc_delete_record_count s = word_of_nat (deletes ops)"
    using scan_tx_end [OF g(1) pos(2) ent(3) l(2)] f p2 c2 i(3) unfolding envelope_end_def by blast
  have s: "scan_all E ?g db ?p ?stop expected 0 cs (scan_init E ?p) = Ok s"
    using s0 s1 s2 i(3) by (simp add: cs scan_all_append footer_entry_def)
  have ne: "cs \<noteq> []" using p0 by (auto simp: cs placed_def)
  show ?thesis
    using scan_prepared_all [OF g(1) i(2) pos(4) ne _ s fin(1-3)] assms(4)
    by (simp add: e P' fin tx_begin_of_simps footer_of_simps scanned_of_def)
qed

section \<open>Pointers and footers of a prepared envelope\<close>

lemma op_pointers_resolve:
  assumes "geometry_ok g" and "tail_position g p" and "all_enter g p (map op_len ops)"
    and "\<forall>op \<in> set ops. record_len_ok g (op_len op) \<and> op_ok op" and "identity_ok seq uid"
    and "ops_placed E db seq uid g p i ops cs" and "j < length ops" and "ops ! j = LO_Put key val"
  shows "\<exists>ptr bs. op_pointers g p ops ! j = Some ptr \<and> pointer_ok ptr
    \<and> \<lparr>chunk_position = VLogPosition (vp_file_id ptr) (ucast (vp_record_offset ptr)), chunk_bytes = bs\<rparr> \<in> set cs
    \<and> length bs = unat (vp_record_len ptr) \<and> unat (vp_value_len ptr) = length val
    \<and> decode_record_at E bs (VLogPosition (vp_file_id ptr) (ucast (vp_record_offset ptr))) g
        = Ok (DR_KvRecord (kv_of seq uid (word_of_nat (i + j)) key val))"
  using assms
proof (induction ops arbitrary: p i j cs)
  case (Cons op ops)
  let ?n = "op_len op"
  let ?st = "plan_start g p ?n"
  let ?q = "pos_add ?st ?n"
  obtain cs1 cs2 where cs: "cs = cs1 @ cs2" and pl: "placed E db seq uid g p (op_bytes E seq uid i op) cs1"
    and rest: "ops_placed E db seq uid g ?q (Suc i) ops cs2" using Cons.prems(6) by auto
  have e: "plan_enters g p ?n" and n: "record_len_ok g ?n" and ok: "op_ok op" using Cons.prems by simp_all
  note st = plan_step_ok [OF Cons.prems(1,2) e n]
  show ?case
  proof (cases j)
    case 0
    then have op: "op = LO_Put key val" using Cons.prems(8) by simp
    have o: "unat (word_of_nat (unat (pos_offset ?st)) :: u32) = unat (pos_offset ?st)"
      using fits_start_lt [OF st(2)] by (intro unat_of_nat_small) simp
    have w: "VLogPosition (pos_file_id ?st) (ucast (word_of_nat (unat (pos_offset ?st)) :: u32)) = ?st"
      by (rule vlog_position.expand) (simp add: word_unat_eq_iff o del: of_nat_unat)
    have b: "length key + length val \<le> 60000" "key \<noteq> []" using ok op by auto
    have u: "unat (word_of_nat ?n :: u32) = ?n" "unat (word_of_nat (length val) :: u16) = length val"
      by (rule unat_of_nat_small, use b op in simp)+
    have f: "unat (pos_file_id ?st) \<le> 999999"
      using st(2) geometry_okD(5) [OF Cons.prems(1)] by (auto simp: fits_def validate_record_start_Ok)
    have "\<lparr>chunk_position = ?st, chunk_bytes = op_bytes E seq uid i op\<rparr> \<in> set cs"
      using pl by (auto simp: cs placed_def)
    moreover have "decode_record_at E (op_bytes E seq uid i op) ?st g
        = Ok (DR_KvRecord (kv_of seq uid (word_of_nat (i + j)) key val))"
      using decode_op_bytes [OF Cons.prems(5) ok st(2), of E i] 0 op by (simp add: decoded_operation_def)
    moreover have "0 < length key" using b by simp
    ultimately show ?thesis
      using 0 op b u w f
      by (intro exI [of _ "the (op_pointer ?st op)"] exI [of _ "op_bytes E seq uid i op"])
        (simp add: pointer_ok_def Suc_le_eq del: op_bytes.simps of_nat_unat of_nat_add)
  next
    case (Suc j')
    have "\<exists>ptr bs. op_pointers g ?q ops ! j' = Some ptr \<and> pointer_ok ptr
      \<and> \<lparr>chunk_position = VLogPosition (vp_file_id ptr) (ucast (vp_record_offset ptr)), chunk_bytes = bs\<rparr> \<in> set cs2
      \<and> length bs = unat (vp_record_len ptr) \<and> unat (vp_value_len ptr) = length val
      \<and> decode_record_at E bs (VLogPosition (vp_file_id ptr) (ucast (vp_record_offset ptr))) g
          = Ok (DR_KvRecord (kv_of seq uid (word_of_nat (Suc i + j')) key val))"
      by (rule Cons.IH) (use Cons.prems st(1) rest Suc in auto)
    then show ?thesis by (auto simp: cs Suc)
  qed
qed simp

lemma locate_footer:
  assumes "fits g start 111" and "footer_ok f"
    and "te_vlog_end f = VLogPosition (pos_file_id start) (pos_offset start + 111)"
    and "unat off + length xs = unat (pos_offset start)"
  shows "locate_footer_from_end E (VLogPosition (pos_file_id start) off) (xs @ footer_bytes E f)
    (te_vlog_end f) g = Ok \<lparr>lf_record_start = start, lf_footer = f\<rparr>"
proof -
  have g: "geometry_ok g" and v: "validate_record_start start g = Ok ()" and r: "111 \<le> page_rest g (pos_offset start)"
    using assms(1) by (simp_all add: fits_def)
  have lt: "unat (pos_offset start) < unat (max_file_size g)" using v by (simp add: validate_record_start_Ok)
  note G = geometry_okD [OF g] and R = page_rest_bounds [OF g lt]
  let ?e = "pos_offset start + 111"
  have e: "unat ?e = unat (pos_offset start) + 111"
    using R(3) r G(3) by (subst unat_add_no_overflow) simp_all
  have le: "unat ?e \<le> unat (max_file_size g)" using R(3) r by (simp add: e)
  have vd: "validate_for_decode g = Ok ()" using g by (simp add: validate_for_decode_def VLogGeometry_validate_Ok)
  have n: "u64_try_from (length xs + 111) = Some (word_of_nat (length xs + 111))"
    using assms(4) lt G(3) by (simp add: u64_try_from_def)
  have c: "checked_add off (word_of_nat (length xs + 111)) = Some ?e"
  proof -
    have "unat (word_of_nat (length xs + 111) :: u64) = length xs + 111"
      using assms(4) lt G(3) by (intro unat_of_nat_small) simp
    then show ?thesis
      using assms(4) lt G(3) by (auto simp: checked_add_def word_unat_eq_iff e unat_add_no_overflow simp del: of_nat_add)
  qed
  have le': "\<not> ?e > max_file_size g" using le by (simp add: word_less_nat_alt)
  let ?t = "xs @ footer_bytes E f"
  have tr: "drop 107 (footer_bytes E f) = END_TRAILER_MAGIC" "read_u32 ?t (103 + length xs) = Ok 111"
    using assms(4) lt G(3)
    by (simp_all add: read_u32_def codec_simps usize_max_def) (simp_all add: footer_bytes_def Let_def)
  have s1: "checked_sub ?e 111 = Some (pos_offset start)" "checked_sub ?e 1 = Some (pos_offset start + 110)"
    by (simp_all add: checked_sub_def word_le_nat_alt e)
  have pg: "(pos_offset start + 110) div page_size g = pos_offset start div page_size g"
  proof -
    let ?o = "unat (pos_offset start)" and ?ps = "unat (page_size g)"
    have u: "unat (pos_offset start + 110) = ?o + 110"
      using lt G(3) by (subst unat_add_no_overflow) simp_all
    have m: "?o mod ?ps + 110 < ?ps" using r by (simp add: page_rest_def)
    have "(?o + 110) div ?ps = ?o div ?ps"
      using m by (simp add: div_add1_eq [of ?o 110 ?ps])
    then show ?thesis by (simp add: word_unat_eq_iff unat_div_distrib u)
  qed
  have rel: "checked_sub (pos_offset start) off = Some (pos_offset start - off)"
    "unat (pos_offset start - off) = length xs" "\<not> pos_offset start < off"
    using assms(4) by (auto simp: checked_sub_def word_le_nat_alt word_less_nat_alt unat_sub)
  have dec: "decode_record_at E (footer_bytes E f) start g = Ok (DR_TxPreparedEnd f)"
    by (rule decode_record_at_footer [OF assms(2,1,3)])
  have st: "VLogPosition (pos_file_id start) (pos_offset start) = start" by simp
  have "locate_footer_from_end E (VLogPosition (pos_file_id start) off) ?t
      (VLogPosition (pos_file_id start) ?e) g = Ok \<lparr>lf_record_start = start, lf_footer = f\<rparr>"
    unfolding locate_footer_from_end_def vd
    by (simp only: and_then.simps vlog_position.sel length_append length_payloads n c ok_or.simps)
      (simp add: le' usize_checked_sub_def tr s1 pg rel dec assms(3))
  then show ?thesis unfolding assms(3) .
qed

section \<open>Properties\<close>

lemma prepare_envelope_Ok_iff:
  "prepare_envelope E P db seq uid ops = (P', Ok e) \<longleftrightarrow> prepare_candidate E P db seq uid ops = Ok (P', e)"
  by (auto simp: prepare_envelope_def split: result.splits)

text \<open>A first transaction in an empty production log, for the witnesses.\<close>

abbreviation sample_planner :: layout_planner where
  "sample_planner \<equiv> \<lparr>lp_geometry = PRODUCTION, lp_position = VLogPosition 0 0\<rparr>"

abbreviation sample_ops :: "logical_operation list" where
  "sample_ops \<equiv> [LO_Put [107] [118], LO_Delete [107]]"

lemma sample_planner_ok: "planner_ok sample_planner"
  by (simp add: planner_ok_def tail_position_def log_position_def)

lemma enough_files:
  assumes "geometry_ok g" and "tail_position g p" and "\<forall>n \<in> set ns. record_len_ok g n"
    and "unat (pos_file_id p) + length ns \<le> unat (max_file_id g)"
  shows "all_enter g p ns"
  using assms
proof (induction ns arbitrary: p)
  case (Cons n ns)
  have e: "plan_enters g p n"
    using Cons.prems(4) by (auto simp: plan_enters_def can_enter_def next_page_def)
  have f: "unat (pos_file_id (file_entry g x)) \<le> unat (pos_file_id x) + 1" if "x = p \<or> x = next_page g p" for x
    using that Cons.prems(4) geometry_okD(5) [OF Cons.prems(1)]
    by (auto simp: file_entry_def next_page_def unat_add_no_overflow)
  have "pos_file_id (plan_start g p n) = pos_file_id (plan_entry g p n)"
    by (simp add: plan_start_def area_start_def)
  then have "unat (pos_file_id (pos_add (plan_start g p n) n)) \<le> unat (pos_file_id p) + 1"
    using f [of p] f [of "next_page g p"] by (auto simp: plan_entry_def next_page_def)
  then show ?case
    using Cons e plan_step_ok(1) [of g p n] by simp
qed simp

lemma sample_prepares:
  "\<exists>P' e. prepare_envelope sample_env sample_planner 1 1 1 sample_ops = (P', Ok e)"
proof -
  have "all_enter PRODUCTION (VLogPosition 0 0) (record_lens sample_ops)"
    using sample_planner_ok
    by (intro enough_files)
      (auto simp: planner_ok_def record_lens_def record_len_ok_PRODUCTION PRODUCTION_def vlog_consts
        record_len_ok_def)
  then show ?thesis
    using prepare_candidate_total [OF sample_planner_ok _ allocates_sample_env, of 1 1 1 sample_ops]
    by (auto simp: prepare_envelope_Ok_iff identity_ok_def)
qed

text \<open>
  C11: every prepared envelope scans back. From any position where a transaction may end, if
  preparing a transaction succeeds then scanning its chunks between the two log positions
  accepts them, whether or not the expected checksum is given, and returns the transaction's
  identity, its positions, the number of its operations, puts, deletes and distinct keys, and
  its envelope checksum.
\<close>

theorem prepared_envelope_scans_back:
  assumes "planner_ok P" and "wide_pages (lp_geometry P)" and "allocates E"
    and "prepare_envelope E P db seq uid ops = (P', Ok e)"
    and "expected = None \<or> expected = Some (pe_envelope_crc32c e)"
  shows "scan_prepared_envelope E (pe_chunks e) (lp_geometry P) db (pe_vlog_begin e) (pe_vlog_end e) expected
    = Ok (scanned_of seq uid (lp_position P) (lp_position P') ops (pe_envelope_crc32c e))"
  by (rule scan_prepared [OF assms(1,2) _ _ assms(5)])
    (use assms(3,4) in \<open>simp_all add: prepare_envelope_Ok_iff allocates_def\<close>)

theorem prepared_envelope_scans_back_witness:
  "\<exists>P' e. prepare_envelope sample_env sample_planner 1 1 1 sample_ops = (P', Ok e)
     \<and> scan_prepared_envelope sample_env (pe_chunks e) PRODUCTION 1 (pe_vlog_begin e) (pe_vlog_end e) None
       = Ok (scanned_of 1 1 (VLogPosition 0 0) (lp_position P') sample_ops (pe_envelope_crc32c e))"
  using sample_prepares
    prepared_envelope_scans_back [OF sample_planner_ok _ allocates_sample_env, of 1 1 1 sample_ops _ _ None]
  by auto

text \<open>
  C17: preparing is total. With memory to allocate, a transaction with an identity, at least one
  operation and only operations within the limits is prepared and the planner moves to its end,
  unless a record would need a file id beyond the last: then the error says so and the planner
  stays where it was.
\<close>

theorem prepare_envelope_total:
  assumes "planner_ok P" and "wide_pages (lp_geometry P)" and "allocates E"
    and "identity_ok seq uid" and "db \<noteq> 0" and "ops \<noteq> []" and "\<forall>op \<in> set ops. op_ok op"
    and "length ops < 2 ^ 60"
  shows "if all_enter (lp_geometry P) (lp_position P) (record_lens ops)
    then \<exists>e. prepare_envelope E P db seq uid ops
           = (P\<lparr>lp_position := envelope_end (lp_geometry P) (lp_position P) ops\<rparr>, Ok e)
    else prepare_envelope E P db seq uid ops = (P, Err capacity_error)"
  using prepare_candidate_total [OF assms]
  by (auto simp: prepare_envelope_def split: if_splits)

theorem prepare_envelope_total_witness:
  "\<exists>e. prepare_envelope sample_env sample_planner 1 1 1 sample_ops
     = (sample_planner\<lparr>lp_position := envelope_end PRODUCTION (VLogPosition 0 0) sample_ops\<rparr>, Ok e)"
proof -
  have "all_enter PRODUCTION (VLogPosition 0 0) (record_lens sample_ops)"
    using sample_planner_ok
    by (intro enough_files)
      (auto simp: planner_ok_def record_lens_def record_len_ok_PRODUCTION PRODUCTION_def vlog_consts
        record_len_ok_def)
  then show ?thesis
    using prepare_envelope_total [OF sample_planner_ok _ allocates_sample_env, of 1 1 1 sample_ops]
    by (simp add: identity_ok_def)
qed

lemma envelope_pointers_resolve:
  assumes "planner_ok P" and "wide_pages (lp_geometry P)"
    and "prepare_envelope E P db seq uid ops = (P', Ok e)" and "j < length ops"
    and "ops ! j = LO_Put key val"
  shows "\<exists>ptr bs. pe_value_pointers e ! j = Some ptr \<and> pointer_ok ptr
    \<and> \<lparr>chunk_position = VLogPosition (vp_file_id ptr) (ucast (vp_record_offset ptr)), chunk_bytes = bs\<rparr>
        \<in> set (pe_chunks e)
    \<and> length bs = unat (vp_record_len ptr) \<and> unat (vp_value_len ptr) = length val
    \<and> decode_record_at E bs (VLogPosition (vp_file_id ptr) (ucast (vp_record_offset ptr))) (lp_geometry P)
        = Ok (DR_KvRecord (kv_of seq uid (word_of_nat j) key val))"
proof -
  let ?g = "lp_geometry P" and ?p = "lp_position P"
  have g: "geometry_ok ?g" "tail_position ?g ?p" using assms(1) by (simp_all add: planner_ok_def)
  note C = prepare_candidate_Ok [OF assms(1,2) assms(3) [unfolded prepare_envelope_Ok_iff]]
  then obtain crc cs where ch: "envelope_chunks E db seq uid ?g ?p ops crc cs" "pe_chunks e = cs"
    "pe_value_pointers e = op_pointers ?g (ops_start ?g ?p) ops" by auto
  from C have i: "identity_ok seq uid" "\<forall>op \<in> set ops. op_ok op"
    and ae: "all_enter ?g ?p (record_lens ops)" by auto
  note lens = record_lens_ok [OF assms(2) i(2)]
  note pos = envelope_positions [OF g ae lens]
  have l: "\<forall>op \<in> set ops. record_len_ok ?g (op_len op) \<and> op_ok op"
    using lens i(2) by (auto simp: record_lens_def)
  have ent: "all_enter ?g (ops_start ?g ?p) (map op_len ops)" using ae by (simp add: envelope_parts)
  obtain cs0 cs1 cs2 where "cs = cs0 @ cs1 @ cs2" "ops_placed E db seq uid ?g (ops_start ?g ?p) 0 ops cs1"
    using ch(1) by (auto simp: envelope_chunks_def)
  then show ?thesis
    using op_pointers_resolve [OF g(1) pos(1) ent l i(1) _ assms(4,5), of E db 0 cs1] ch by auto
qed

text \<open>
  The value pointers of a prepared envelope resolve. The pointer recorded for the j-th
  operation, a put, has acceptable fields and names the start and length of a chunk of the
  envelope whose bytes decode there to the put's own key and value under the transaction's
  identity; a delete has no pointer.
\<close>

theorem prepared_pointers_resolve:
  assumes "planner_ok P" and "wide_pages (lp_geometry P)"
    and "prepare_envelope E P db seq uid ops = (P', Ok e)" and "j < length ops"
    and "ops ! j = LO_Put key val"
  shows "\<exists>ptr bs. pe_value_pointers e ! j = Some ptr \<and> pointer_ok ptr
    \<and> \<lparr>chunk_position = VLogPosition (vp_file_id ptr) (ucast (vp_record_offset ptr)), chunk_bytes = bs\<rparr>
        \<in> set (pe_chunks e)
    \<and> length bs = unat (vp_record_len ptr) \<and> unat (vp_value_len ptr) = length val
    \<and> decode_record_at E bs (VLogPosition (vp_file_id ptr) (ucast (vp_record_offset ptr))) (lp_geometry P)
        = Ok (DR_KvRecord (kv_of seq uid (word_of_nat j) key val))"
  by (rule envelope_pointers_resolve [OF assms])

theorem prepared_pointers_resolve_witness:
  "\<exists>P' e ptr. prepare_envelope sample_env sample_planner 1 1 1 sample_ops = (P', Ok e)
     \<and> pe_value_pointers e ! 0 = Some ptr \<and> pointer_ok ptr"
  using sample_prepares
    prepared_pointers_resolve [OF sample_planner_ok _, of sample_env 1 1 1 sample_ops _ _ 0 "[107]" "[118]"]
  by auto

text \<open>
  The footer is found from the end. Any tail of a log file that ends with the footer of a
  transaction yields that footer and its start, given the position where the footer ends.
\<close>

theorem footer_located_from_end:
  assumes "fits g start 111" and "footer_ok f"
    and "te_vlog_end f = VLogPosition (pos_file_id start) (pos_offset start + 111)"
    and "unat off + length xs = unat (pos_offset start)"
  shows "locate_footer_from_end E (VLogPosition (pos_file_id start) off) (xs @ footer_bytes E f)
    (te_vlog_end f) g = Ok \<lparr>lf_record_start = start, lf_footer = f\<rparr>"
  by (rule locate_footer [OF assms])

theorem footer_located_from_end_witness:
  "locate_footer_from_end sample_env (VLogPosition 0 100)
     (replicate 35 0 @ footer_bytes sample_env (footer_of 1 1 (VLogPosition 0 0) (VLogPosition 0 246) 7 sample_ops))
     (VLogPosition 0 246) PRODUCTION
   = Ok \<lparr>lf_record_start = VLogPosition 0 135,
        lf_footer = footer_of 1 1 (VLogPosition 0 0) (VLogPosition 0 246) 7 sample_ops\<rparr>"
  using footer_located_from_end [of PRODUCTION "VLogPosition 0 135"
      "footer_of 1 1 (VLogPosition 0 0) (VLogPosition 0 246) 7 sample_ops" 100 "replicate 35 0" sample_env]
  by (simp add: fits_def validate_record_start_Ok record_area_ok_def page_rest_def footer_ok_def footer_of_simps
      identity_ok_def position_ok_def counts_ok_def less_vlog_position_def puts_def deletes_def)
    (simp add: PRODUCTION_def vlog_consts)

end
