(* ===== verification/Descriptor.thy ===== *)
theory Descriptor
  imports VLogRecords
begin

text \<open>
  Transaction descriptors and system metadata (\<open>src/commit/descriptor.rs\<close>): the keys under
  which a transaction is stored in the index, its metadata record, its mutations with the state
  of each key before and after, and the records for the database identity, the durable frontier
  and the recovery state. \<open>VLogPos\<close> has the fields and the derived order of
  \<open>VLogPosition\<close>, so both are \<open>vlog_position\<close> here.
\<close>

section \<open>Errors\<close>

definition metadata_encode_error :: "storage_error_kind \<Rightarrow> retry_advice \<Rightarrow> storage_error" where
  "metadata_encode_error kind retry =
     codec_error kind Op_WriteBatch Preflight (Some NotCommitted) retry"

definition metadata_decode_error :: "storage_error_kind \<Rightarrow> retry_advice \<Rightarrow> storage_error" where
  "metadata_decode_error kind retry = codec_error kind Op_Recovery RecoveryStage None retry"

definition encode_invalid :: storage_error where
  "encode_invalid = metadata_encode_error InvalidArgument FixRequestAndRetrySameInstance"

definition encode_capacity :: storage_error where
  "encode_capacity = metadata_encode_error CapacityExceeded FixRequestAndRetrySameInstance"

definition encode_allocation :: storage_error where
  "encode_allocation = metadata_encode_error ResourceExhausted RetrySameInstance"

definition decode_corruption :: storage_error where
  "decode_corruption = metadata_decode_error Corruption RestoreOrRepair"

definition decode_incompatible :: storage_error where
  "decode_incompatible = metadata_decode_error IncompatibleFormat DoNotRetry"

definition decode_invalid_layout :: storage_error where
  "decode_invalid_layout = metadata_decode_error InvalidLayout RestoreOrRepair"

definition decode_allocation :: storage_error where
  "decode_allocation = metadata_decode_error ResourceExhausted FixEnvironmentAndReopen"

definition metadata_error_from_pointer :: "storage_error_kind \<Rightarrow> storage_error" where
  "metadata_error_from_pointer kind =
     (if kind = IncompatibleFormat then decode_incompatible else decode_corruption)"

definition invalid_metadata :: "bool \<Rightarrow> storage_error" where
  "invalid_metadata encoding = (if encoding then encode_invalid else decode_corruption)"

section \<open>Reads\<close>

definition read_array :: "nat \<Rightarrow> bytes \<Rightarrow> usize \<Rightarrow> bytes option" where
  "read_array n input offset =
     (case usize_checked_add offset n of
        Some end \<Rightarrow> slice_get input offset end
      | None \<Rightarrow> None)"

definition read_u16_le :: "bytes \<Rightarrow> usize \<Rightarrow> u16 option" where
  "read_u16_le input offset = map_option u16_from_le_bytes (read_array 2 input offset)"

definition read_u32_le :: "bytes \<Rightarrow> usize \<Rightarrow> u32 option" where
  "read_u32_le input offset = map_option u32_from_le_bytes (read_array 4 input offset)"

definition read_u64_le :: "bytes \<Rightarrow> usize \<Rightarrow> u64 option" where
  "read_u64_le input offset = map_option u64_from_le_bytes (read_array 8 input offset)"

definition read_u64_be :: "bytes \<Rightarrow> usize \<Rightarrow> u64 option" where
  "read_u64_be input offset = map_option u64_from_be_bytes (read_array 8 input offset)"

definition read_uuid :: "bytes \<Rightarrow> usize \<Rightarrow> uuid option" where
  "read_uuid input offset = map_option uuid_of_bytes (read_array 16 input offset)"

definition read_vlog_pos :: "bytes \<Rightarrow> usize \<Rightarrow> vlog_position option" where
  "read_vlog_pos input offset =
     (case read_u32_le input offset of
        None \<Rightarrow> None
      | Some file_id \<Rightarrow>
          (case usize_checked_add offset 4 of
             None \<Rightarrow> None
           | Some o4 \<Rightarrow> map_option (VLogPosition file_id) (read_u64_le input o4)))"

abbreviation dec :: "'a option \<Rightarrow> ('a \<Rightarrow> 'b res) \<Rightarrow> 'b res" where
  "dec v f \<equiv> and_then (ok_or v decode_corruption) f"

section \<open>Data\<close>

type_synonym commit_seq = u64

definition VLogPos_is_valid :: "vlog_position \<Rightarrow> bool" where
  "VLogPos_is_valid p \<longleftrightarrow> pos_file_id p \<le> 999999 \<and> pos_offset p \<le> 4294967296"

definition VLogPos_encode :: "vlog_position \<Rightarrow> bytes res" where
  "VLogPos_encode p = (if VLogPos_is_valid p then Ok (position_bytes p) else Err encode_invalid)"

definition VLogPos_decode :: "bytes \<Rightarrow> vlog_position res" where
  "VLogPos_decode encoded =
     (if length encoded \<noteq> 12 then Err decode_corruption
      else
        dec (read_u32_le encoded 0) (\<lambda>file_id.
        dec (read_u64_le encoded 4) (\<lambda>offset.
          let position = VLogPosition file_id offset in
          if VLogPos_is_valid position then Ok position else Err decode_corruption)))"

datatype durable_vlog_end = EmptyEnd | PositionEnd vlog_position

datatype transaction_kind = VLogEnvelope | IndexOnlyDelete

fun TransactionKind_encode :: "transaction_kind \<Rightarrow> u8" where
  "TransactionKind_encode VLogEnvelope = 0"
| "TransactionKind_encode IndexOnlyDelete = 1"

definition TransactionKind_decode :: "u8 \<Rightarrow> transaction_kind res" where
  "TransactionKind_decode encoded =
     (if encoded = 0 then Ok VLogEnvelope
      else if encoded = 1 then Ok IndexOnlyDelete
      else Err decode_corruption)"

record tx_meta =
  tm_transaction_kind :: transaction_kind
  tm_commit_seq :: commit_seq
  tm_tx_uuid :: uuid
  tm_prev_seq :: commit_seq
  tm_vlog_begin :: vlog_position
  tm_vlog_end :: vlog_position
  tm_logical_op_count :: u64
  tm_distinct_key_count :: u64
  tm_envelope_crc32c :: u32
  tm_descriptor_crc32c :: u32

datatype value_state = Absent | Present value_pointer

record tx_mutation =
  mu_user_key :: bytes
  mu_before_state :: value_state
  mu_after_state :: value_state

record transaction_descriptor =
  td_meta :: tx_meta
  td_mutations :: "tx_mutation list"

record encoded_mutation =
  em_key :: bytes
  em_value :: bytes

record encoded_descriptor =
  ed_meta_key :: bytes
  ed_meta_value :: bytes
  ed_mutations :: "encoded_mutation list"

record database_identity =
  di_identity_format_version :: u16
  di_database_format_version :: u32
  di_database_uuid :: uuid
  di_keyspace_layout_version :: u16

record durable_frontier =
  df_durable_seq :: commit_seq
  df_durable_vlog_seq :: commit_seq
  df_durable_vlog_end :: durable_vlog_end

datatype recovery_phase = PhaseUndo | PhaseTrim | PhaseFinalize

record recovery_state =
  rs_phase :: recovery_phase
  rs_original_head :: commit_seq
  rs_target_seq :: commit_seq
  rs_target_vlog_seq :: commit_seq
  rs_target_vlog_end :: durable_vlog_end
  rs_next_undo_seq :: commit_seq
  rs_trim_required :: bool

definition TX_KEY_MAGIC :: bytes where "TX_KEY_MAGIC = [0x54, 0x58]"
definition TX_META_MAGIC :: bytes where "TX_META_MAGIC = [0x52, 0x4B, 0x54, 0x4D]"
definition DESCRIPTOR_CRC_MAGIC :: bytes where
  "DESCRIPTOR_CRC_MAGIC = [0x52, 0x4B, 0x44, 0x45, 0x53, 0x43, 0x30]"
definition DATABASE_IDENTITY_MAGIC :: bytes where "DATABASE_IDENTITY_MAGIC = [0x52, 0x4B, 0x44, 0x49]"
definition DURABLE_FRONTIER_MAGIC :: bytes where "DURABLE_FRONTIER_MAGIC = [0x52, 0x4B, 0x44, 0x46]"
definition RECOVERY_STATE_MAGIC :: bytes where "RECOVERY_STATE_MAGIC = [0x52, 0x4B, 0x52, 0x53]"

lemma length_metadata_magics [simp]:
  "length TX_KEY_MAGIC = 2" "length TX_META_MAGIC = 4" "length DATABASE_IDENTITY_MAGIC = 4"
  "length DURABLE_FRONTIER_MAGIC = 4" "length RECOVERY_STATE_MAGIC = 4"
  by (simp_all add: TX_KEY_MAGIC_def TX_META_MAGIC_def DATABASE_IDENTITY_MAGIC_def
      DURABLE_FRONTIER_MAGIC_def RECOVERY_STATE_MAGIC_def)

section \<open>Keys of the transaction keyspace\<close>

definition encode_tx_meta_key :: "commit_seq \<Rightarrow> bytes res" where
  "encode_tx_meta_key seq =
     (if seq = 0 then Err encode_invalid else Ok (TX_KEY_MAGIC @ u64_to_be_bytes seq @ [0]))"

definition decode_tx_meta_key :: "bytes \<Rightarrow> commit_seq res" where
  "decode_tx_meta_key encoded =
     (if length encoded \<noteq> 11 \<or> slice_get encoded 0 2 \<noteq> Some TX_KEY_MAGIC
         \<or> list_get encoded 10 \<noteq> Some 0
      then Err decode_corruption
      else
        dec (read_u64_be encoded 2) (\<lambda>seq.
          if seq = 0 then Err decode_corruption else Ok seq))"

definition encode_tx_mutation_key :: "commit_seq \<Rightarrow> u64 \<Rightarrow> bytes res" where
  "encode_tx_mutation_key seq ordinal =
     (if seq = 0 then Err encode_invalid
      else Ok (TX_KEY_MAGIC @ u64_to_be_bytes seq @ [1] @ u64_to_be_bytes ordinal))"

definition decode_tx_mutation_key :: "bytes \<Rightarrow> (commit_seq \<times> u64) res" where
  "decode_tx_mutation_key encoded =
     (if length encoded \<noteq> 19 \<or> slice_get encoded 0 2 \<noteq> Some TX_KEY_MAGIC
         \<or> list_get encoded 10 \<noteq> Some 1
      then Err decode_corruption
      else
        dec (read_u64_be encoded 2) (\<lambda>seq.
        dec (read_u64_be encoded 11) (\<lambda>ordinal.
          if seq = 0 then Err decode_corruption else Ok (seq, ordinal))))"

section \<open>Transaction metadata\<close>

definition validate_tx_meta :: "tx_meta \<Rightarrow> bool \<Rightarrow> unit res" where
  "validate_tx_meta m encoding =
     (if tm_commit_seq m = 0
         \<or> tm_prev_seq m \<noteq> tm_commit_seq m - 1
         \<or> tm_tx_uuid m = 0
         \<or> tm_logical_op_count m = 0
         \<or> tm_distinct_key_count m = 0
         \<or> tm_distinct_key_count m > tm_logical_op_count m
      then Err (invalid_metadata encoding)
      else case tm_transaction_kind m of
        VLogEnvelope \<Rightarrow>
          if VLogPos_is_valid (tm_vlog_begin m) \<and> VLogPos_is_valid (tm_vlog_end m)
             \<and> tm_vlog_begin m < tm_vlog_end m
          then Ok () else Err (invalid_metadata encoding)
      | IndexOnlyDelete \<Rightarrow>
          if tm_vlog_begin m = VLogPosition 0 0 \<and> tm_vlog_end m = VLogPosition 0 0
             \<and> tm_envelope_crc32c m = 0
          then Ok () else Err (invalid_metadata encoding))"

definition tx_meta_prefix :: "tx_meta \<Rightarrow> bytes" where
  "tx_meta_prefix m =
     TX_META_MAGIC @ u16_to_le_bytes 0 @ [TransactionKind_encode (tm_transaction_kind m)]
     @ u64_to_le_bytes (tm_commit_seq m) @ uuid_bytes (tm_tx_uuid m) @ u64_to_le_bytes (tm_prev_seq m)
     @ position_bytes (tm_vlog_begin m) @ position_bytes (tm_vlog_end m)
     @ u64_to_le_bytes (tm_logical_op_count m) @ u64_to_le_bytes (tm_distinct_key_count m)
     @ u32_to_le_bytes (tm_envelope_crc32c m)"

definition encode_tx_meta :: "tx_meta \<Rightarrow> bytes res" where
  "encode_tx_meta m =
     and_then (validate_tx_meta m True) (\<lambda>_.
       Ok (tx_meta_prefix m @ u32_to_le_bytes (tm_descriptor_crc32c m)))"

definition decode_tx_meta :: "bytes \<Rightarrow> tx_meta res" where
  "decode_tx_meta encoded =
     (if length encoded \<noteq> 87 \<or> slice_get encoded 0 4 \<noteq> Some TX_META_MAGIC then Err decode_corruption
      else
        dec (read_u16_le encoded 4) (\<lambda>format_version.
          if format_version \<noteq> 0 then Err decode_incompatible
          else
            dec (list_get encoded 6) (\<lambda>tag.
            and_then (TransactionKind_decode tag) (\<lambda>kind.
            dec (read_u64_le encoded 7) (\<lambda>seq.
            dec (read_uuid encoded 15) (\<lambda>uid.
            dec (read_u64_le encoded 31) (\<lambda>prev.
            dec (read_vlog_pos encoded 39) (\<lambda>vbegin.
            dec (read_vlog_pos encoded 51) (\<lambda>vend.
            dec (read_u64_le encoded 63) (\<lambda>ops.
            dec (read_u64_le encoded 71) (\<lambda>keys.
            dec (read_u32_le encoded 79) (\<lambda>ecrc.
            dec (read_u32_le encoded 83) (\<lambda>dcrc.
              let m = \<lparr>tm_transaction_kind = kind, tm_commit_seq = seq, tm_tx_uuid = uid,
                       tm_prev_seq = prev, tm_vlog_begin = vbegin, tm_vlog_end = vend,
                       tm_logical_op_count = ops, tm_distinct_key_count = keys,
                       tm_envelope_crc32c = ecrc, tm_descriptor_crc32c = dcrc\<rparr>
              in and_then (validate_tx_meta m False) (\<lambda>_. Ok m))))))))))))))"

section \<open>Mutations\<close>

definition validate_user_key :: "bytes \<Rightarrow> bool \<Rightarrow> unit res" where
  "validate_user_key user_key encoding =
     (if user_key = [] \<or> length user_key > 60000 then Err (invalid_metadata encoding) else Ok ())"

fun value_state_encoded_len :: "value_state \<Rightarrow> usize" where
  "value_state_encoded_len Absent = 1"
| "value_state_encoded_len (Present p) = 17"

fun validate_value_state_key_len :: "value_state \<Rightarrow> usize \<Rightarrow> bool \<Rightarrow> unit res" where
  "validate_value_state_key_len Absent n encoding = Ok ()"
| "validate_value_state_key_len (Present pointer) n encoding =
     and_then (map_err (\<lambda>error. if encoding then encode_invalid
                              else metadata_error_from_pointer (err_kind error))
                (ValuePointer_layout pointer)) (\<lambda>layout.
       if unat (vl_key_len layout) \<noteq> n then Err (invalid_metadata encoding) else Ok ())"

fun encode_value_state :: "value_state \<Rightarrow> bytes res" where
  "encode_value_state Absent = Ok [0]"
| "encode_value_state (Present pointer) =
     and_then (ValuePointer_encode pointer) (\<lambda>encoded. Ok (1 # encoded))"

definition decode_value_state :: "bytes \<Rightarrow> (value_state \<times> usize) res" where
  "decode_value_state encoded =
     (if list_get encoded 0 = Some 0 then Ok (Absent, 1)
      else if list_get encoded 0 = Some 1 then
        dec (usize_checked_add 1 16) (\<lambda>pointer_end.
        dec (slice_get encoded 1 pointer_end) (\<lambda>pointer_bytes.
        and_then (map_err (\<lambda>error. metadata_error_from_pointer (err_kind error))
                   (ValuePointer_decode pointer_bytes)) (\<lambda>pointer.
          Ok (Present pointer, pointer_end))))
      else Err decode_corruption)"

definition mutation_encoded_len :: "tx_mutation \<Rightarrow> usize option" where
  "mutation_encoded_len m =
     (case usize_checked_add 2 (length (mu_user_key m)) of
        None \<Rightarrow> None
      | Some len \<Rightarrow>
          (case usize_checked_add len (value_state_encoded_len (mu_before_state m)) of
             None \<Rightarrow> None
           | Some len \<Rightarrow> usize_checked_add len (value_state_encoded_len (mu_after_state m))))"

definition encode_tx_mutation :: "env \<Rightarrow> tx_mutation \<Rightarrow> bytes res" where
  "encode_tx_mutation E m =
     and_then (validate_user_key (mu_user_key m) True) (\<lambda>_.
     and_then (validate_value_state_key_len (mu_before_state m) (length (mu_user_key m)) True) (\<lambda>_.
     and_then (validate_value_state_key_len (mu_after_state m) (length (mu_user_key m)) True) (\<lambda>_.
     and_then (ok_or (u16_try_from (length (mu_user_key m))) encode_capacity) (\<lambda>key_len.
     and_then (ok_or (mutation_encoded_len m) encode_capacity) (\<lambda>encoded_len.
     and_then (try_reserve E ''MutationValue'' encoded_len encode_allocation) (\<lambda>_.
     and_then (encode_value_state (mu_before_state m)) (\<lambda>before_bytes.
     and_then (encode_value_state (mu_after_state m)) (\<lambda>after_bytes.
       Ok (u16_to_le_bytes key_len @ mu_user_key m @ before_bytes @ after_bytes)))))))))"

definition decode_tx_mutation :: "env \<Rightarrow> bytes \<Rightarrow> tx_mutation res" where
  "decode_tx_mutation E encoded =
     and_then (map_ok unat (ok_or (read_u16_le encoded 0) decode_corruption)) (\<lambda>user_key_len.
       if user_key_len = 0 \<or> user_key_len > 60000 then Err decode_corruption
       else
         dec (usize_checked_add 2 user_key_len) (\<lambda>key_end.
         dec (slice_get encoded 2 key_end) (\<lambda>user_key.
         and_then (try_reserve E ''DecodedUserKey'' user_key_len decode_allocation) (\<lambda>_.
         dec (slice_get encoded key_end (length encoded)) (\<lambda>before_bytes.
         and_then (decode_value_state before_bytes) (\<lambda>(before_state, before_len).
         dec (usize_checked_add key_end before_len) (\<lambda>after_start.
         dec (slice_get encoded after_start (length encoded)) (\<lambda>after_bytes.
         and_then (decode_value_state after_bytes) (\<lambda>(after_state, after_len).
         dec (usize_checked_add after_start after_len) (\<lambda>consumed.
           if consumed \<noteq> length encoded then Err decode_corruption
           else
             and_then (validate_value_state_key_len before_state (length user_key) False) (\<lambda>_.
             and_then (validate_value_state_key_len after_state (length user_key) False) (\<lambda>_.
               Ok \<lparr>mu_user_key = user_key, mu_before_state = before_state,
                   mu_after_state = after_state\<rparr>))))))))))))"

section \<open>Descriptors\<close>

definition validate_transaction_mutations ::
  "transaction_kind \<Rightarrow> tx_mutation list \<Rightarrow> bool \<Rightarrow> unit res" where
  "validate_transaction_mutations kind mutations encoding =
     (if kind = IndexOnlyDelete \<and> (\<exists>m \<in> set mutations. mu_after_state m \<noteq> Absent)
      then Err (invalid_metadata encoding) else Ok ())"

fun encode_mutations ::
  "env \<Rightarrow> commit_seq \<Rightarrow> bytes set \<Rightarrow> usize \<Rightarrow> tx_mutation list \<Rightarrow> encoded_mutation list res" where
  "encode_mutations E seq seen index [] = Ok []"
| "encode_mutations E seq seen index (m # ms) =
     (if mu_user_key m \<in> seen then Err encode_invalid
      else
        and_then (ok_or (u64_try_from index) encode_capacity) (\<lambda>ordinal.
        and_then (encode_tx_mutation_key seq ordinal) (\<lambda>key.
        and_then (encode_tx_mutation E m) (\<lambda>val.
        and_then (encode_mutations E seq (insert (mu_user_key m) seen) (Suc index) ms) (\<lambda>rest.
          Ok (\<lparr>em_key = key, em_value = val\<rparr> # rest))))))"

fun descriptor_crc_mutations :: "env \<Rightarrow> bool \<Rightarrow> u32 \<Rightarrow> encoded_mutation list \<Rightarrow> u32 res" where
  "descriptor_crc_mutations E encoding crc [] = Ok crc"
| "descriptor_crc_mutations E encoding crc (m # ms) =
     and_then (ok_or (u32_try_from (length (em_value m)))
                (if encoding then encode_capacity else decode_corruption)) (\<lambda>value_len.
       descriptor_crc_mutations E encoding
         (crc32c_append E (crc32c_append E (crc32c_append E crc (em_key m))
           (u32_to_le_bytes value_len)) (em_value m)) ms)"

definition descriptor_crc :: "env \<Rightarrow> bytes \<Rightarrow> encoded_mutation list \<Rightarrow> bool \<Rightarrow> u32 res" where
  "descriptor_crc E meta_value mutations encoding =
     descriptor_crc_mutations E encoding
       (crc32c_append E (crc32c E DESCRIPTOR_CRC_MAGIC) (take 83 meta_value)) mutations"

definition encode_descriptor :: "env \<Rightarrow> transaction_descriptor \<Rightarrow> encoded_descriptor res" where
  "encode_descriptor E d =
     (let expected_count = unat (tm_distinct_key_count (td_meta d)) in
      if expected_count \<noteq> length (td_mutations d) then Err encode_invalid
      else
        and_then (validate_tx_meta (td_meta d) True) (\<lambda>_.
        and_then (validate_transaction_mutations (tm_transaction_kind (td_meta d)) (td_mutations d) True)
          (\<lambda>_.
        and_then (try_reserve E ''SeenKeys'' expected_count encode_allocation) (\<lambda>_.
        and_then (try_reserve E ''EncodedMutations'' expected_count encode_allocation) (\<lambda>_.
        and_then (encode_mutations E (tm_commit_seq (td_meta d)) {} 0 (td_mutations d)) (\<lambda>mutations.
        let m = (td_meta d)\<lparr>tm_descriptor_crc32c := 0\<rparr> in
        and_then (encode_tx_meta m) (\<lambda>meta_without_crc.
        and_then (descriptor_crc E meta_without_crc mutations True) (\<lambda>crc.
        let m = m\<lparr>tm_descriptor_crc32c := crc\<rparr> in
        and_then (encode_tx_meta_key (tm_commit_seq m)) (\<lambda>meta_key.
        and_then (encode_tx_meta m) (\<lambda>meta_value.
          Ok \<lparr>ed_meta_key = meta_key, ed_meta_value = meta_value, ed_mutations = mutations\<rparr>))))))))))"

fun decode_mutations ::
  "env \<Rightarrow> commit_seq \<Rightarrow> bytes set \<Rightarrow> usize \<Rightarrow> u32 \<Rightarrow> encoded_mutation list \<Rightarrow>
   (u32 \<times> tx_mutation list) res" where
  "decode_mutations E meta_seq seen index crc [] = Ok (crc, [])"
| "decode_mutations E meta_seq seen index crc (e # es) =
     and_then (decode_tx_mutation_key (em_key e)) (\<lambda>(seq, ordinal).
     dec (u64_try_from index) (\<lambda>expected_ordinal.
       if seq \<noteq> meta_seq \<or> ordinal \<noteq> expected_ordinal then Err decode_corruption
       else
         and_then (decode_tx_mutation E (em_value e)) (\<lambda>mutation.
         and_then (try_reserve E ''DuplicateKey'' (length (mu_user_key mutation)) decode_allocation) (\<lambda>_.
           if mu_user_key mutation \<in> seen then Err decode_corruption
           else
             dec (u32_try_from (length (em_value e))) (\<lambda>value_len.
             and_then (decode_mutations E meta_seq (insert (mu_user_key mutation) seen) (Suc index)
                (crc32c_append E (crc32c_append E (crc32c_append E crc (em_key e))
                  (u32_to_le_bytes value_len)) (em_value e)) es) (\<lambda>(crc, rest).
               Ok (crc, mutation # rest)))))))"

definition decode_descriptor ::
  "env \<Rightarrow> bytes \<Rightarrow> bytes \<Rightarrow> encoded_mutation list \<Rightarrow> transaction_descriptor res" where
  "decode_descriptor E meta_key meta_value entries =
     and_then (decode_tx_meta_key meta_key) (\<lambda>key_commit_seq.
     and_then (decode_tx_meta meta_value) (\<lambda>m.
       if key_commit_seq \<noteq> tm_commit_seq m then Err decode_corruption
       else
         let expected_count = unat (tm_distinct_key_count m) in
         if length entries \<noteq> expected_count then Err decode_corruption
         else
           and_then (try_reserve E ''DecodeSeenKeys'' expected_count decode_allocation) (\<lambda>_.
           and_then (try_reserve E ''DecodedMutations'' expected_count decode_allocation) (\<lambda>_.
           dec (slice_get meta_value 0 83) (\<lambda>prefix.
           and_then (decode_mutations E (tm_commit_seq m) {} 0
                      (crc32c_append E (crc32c E DESCRIPTOR_CRC_MAGIC) prefix) entries)
             (\<lambda>(crc, mutations).
             if crc \<noteq> tm_descriptor_crc32c m then Err decode_corruption
             else
               and_then (validate_transaction_mutations (tm_transaction_kind m) mutations False) (\<lambda>_.
                 Ok \<lparr>td_meta = m, td_mutations = mutations\<rparr>)))))))"

section \<open>Database identity\<close>

definition verify_crc :: "env \<Rightarrow> bytes \<Rightarrow> usize \<Rightarrow> usize \<Rightarrow> unit res" where
  "verify_crc E input covered_len crc_offset =
     dec (slice_get input 0 covered_len) (\<lambda>covered.
     dec (read_u32_le input crc_offset) (\<lambda>expected.
       if crc32c E covered \<noteq> expected then Err decode_corruption else Ok ()))"

definition DatabaseIdentity_encode :: "env \<Rightarrow> database_identity \<Rightarrow> bytes res" where
  "DatabaseIdentity_encode E d =
     (if di_identity_format_version d \<noteq> 0
         \<or> di_database_format_version d \<noteq> 0
         \<or> di_database_uuid d = 0
         \<or> di_keyspace_layout_version d \<noteq> 0
      then Err encode_invalid
      else Ok (with_crc E (DATABASE_IDENTITY_MAGIC @ u16_to_le_bytes (di_identity_format_version d)
             @ u32_to_le_bytes (di_database_format_version d) @ uuid_bytes (di_database_uuid d)
             @ u16_to_le_bytes (di_keyspace_layout_version d))))"

definition DatabaseIdentity_decode :: "env \<Rightarrow> bytes \<Rightarrow> database_identity res" where
  "DatabaseIdentity_decode E encoded =
     (if length encoded \<noteq> 32 \<or> slice_get encoded 0 4 \<noteq> Some DATABASE_IDENTITY_MAGIC
      then Err decode_corruption
      else
        and_then (verify_crc E encoded 28 28) (\<lambda>_.
        dec (read_u16_le encoded 4) (\<lambda>identity_version.
        dec (read_u16_le encoded 26) (\<lambda>layout_version.
          if identity_version \<noteq> 0 \<or> layout_version \<noteq> 0 then Err decode_incompatible
          else
            dec (read_u32_le encoded 6) (\<lambda>database_version.
            dec (read_uuid encoded 10) (\<lambda>uid.
              if uid = 0 then Err decode_corruption
              else Ok \<lparr>di_identity_format_version = identity_version,
                       di_database_format_version = database_version,
                       di_database_uuid = uid,
                       di_keyspace_layout_version = layout_version\<rparr>))))))"

definition DatabaseIdentity_validate_against :: "database_identity \<Rightarrow> u32 \<Rightarrow> uuid \<Rightarrow> unit res" where
  "DatabaseIdentity_validate_against d version uid =
     (if di_database_format_version d \<noteq> version \<or> di_database_uuid d \<noteq> uid
      then Err decode_invalid_layout else Ok ())"

section \<open>Sequence numbers and the durable frontier\<close>

definition encode_head_seq :: "commit_seq \<Rightarrow> bytes" where
  "encode_head_seq seq = u64_to_le_bytes seq"

definition decode_head_seq :: "bytes \<Rightarrow> commit_seq res" where
  "decode_head_seq encoded =
     (if length encoded \<noteq> 8 then Err decode_corruption
      else ok_or (read_u64_le encoded 0) decode_corruption)"

definition next_commit_seq :: "commit_seq \<Rightarrow> commit_seq res" where
  "next_commit_seq head_seq = ok_or (checked_add head_seq 1) encode_capacity"

fun durable_end_bytes :: "durable_vlog_end \<Rightarrow> bytes" where
  "durable_end_bytes EmptyEnd = replicate 13 0"
| "durable_end_bytes (PositionEnd p) = 1 # position_bytes p"

definition read_durable_end :: "bytes \<Rightarrow> usize \<Rightarrow> durable_vlog_end res" where
  "read_durable_end input offset =
     dec (list_get input offset) (\<lambda>tag.
     dec (usize_checked_add offset 1) (\<lambda>position_offset.
     dec (read_vlog_pos input position_offset) (\<lambda>position.
       if tag = 0 then
         if pos_file_id position = 0 \<and> pos_offset position = 0 then Ok EmptyEnd
         else Err decode_corruption
       else if tag = 1 then
         if VLogPos_is_valid position then Ok (PositionEnd position) else Err decode_corruption
       else Err decode_corruption)))"

fun validate_durable_end :: "commit_seq \<Rightarrow> durable_vlog_end \<Rightarrow> unit res" where
  "validate_durable_end seq EmptyEnd = (if seq = 0 then Ok () else Err decode_corruption)"
| "validate_durable_end seq (PositionEnd p) =
     (if seq = 0 then Err decode_corruption
      else if \<not> VLogPos_is_valid p then Err decode_corruption
      else Ok ())"

definition DurableFrontier_validate :: "durable_frontier \<Rightarrow> unit res" where
  "DurableFrontier_validate f =
     (if df_durable_vlog_seq f > df_durable_seq f then Err decode_corruption
      else validate_durable_end (df_durable_vlog_seq f) (df_durable_vlog_end f))"

definition DurableFrontier_encode :: "env \<Rightarrow> durable_frontier \<Rightarrow> bytes res" where
  "DurableFrontier_encode E f =
     and_then (map_err (\<lambda>_. encode_invalid) (DurableFrontier_validate f)) (\<lambda>_.
       Ok (with_crc E (DURABLE_FRONTIER_MAGIC @ u16_to_le_bytes 0
             @ u64_to_le_bytes (df_durable_seq f) @ u64_to_le_bytes (df_durable_vlog_seq f)
             @ durable_end_bytes (df_durable_vlog_end f))))"

definition DurableFrontier_decode :: "env \<Rightarrow> bytes \<Rightarrow> durable_frontier res" where
  "DurableFrontier_decode E encoded =
     (if length encoded \<noteq> 39 \<or> slice_get encoded 0 4 \<noteq> Some DURABLE_FRONTIER_MAGIC
      then Err decode_corruption
      else
        and_then (verify_crc E encoded 35 35) (\<lambda>_.
        dec (read_u16_le encoded 4) (\<lambda>format_version.
          if format_version \<noteq> 0 then Err decode_incompatible
          else
            dec (read_u64_le encoded 6) (\<lambda>durable_seq.
            dec (read_u64_le encoded 14) (\<lambda>durable_vlog_seq.
            and_then (read_durable_end encoded 22) (\<lambda>durable_end.
            let frontier = \<lparr>df_durable_seq = durable_seq, df_durable_vlog_seq = durable_vlog_seq,
                            df_durable_vlog_end = durable_end\<rparr>
            in and_then (DurableFrontier_validate frontier) (\<lambda>_. Ok frontier)))))))"

definition DurableFrontier_validate_against_head :: "durable_frontier \<Rightarrow> commit_seq \<Rightarrow> unit res" where
  "DurableFrontier_validate_against_head f head_seq =
     and_then (DurableFrontier_validate f) (\<lambda>_.
       if df_durable_seq f > head_seq then Err decode_corruption else Ok ())"

section \<open>Recovery state\<close>

definition RecoveryState_validate :: "recovery_state \<Rightarrow> unit res" where
  "RecoveryState_validate s =
     (if rs_target_vlog_seq s > rs_target_seq s
         \<or> rs_target_seq s > rs_next_undo_seq s
         \<or> rs_next_undo_seq s > rs_original_head s
      then Err decode_corruption
      else
        and_then (validate_durable_end (rs_target_vlog_seq s) (rs_target_vlog_end s)) (\<lambda>_.
          case rs_phase s of
            PhaseUndo \<Rightarrow> Ok ()
          | PhaseTrim \<Rightarrow>
              if rs_next_undo_seq s = rs_target_seq s \<and> rs_trim_required s
              then Ok () else Err decode_corruption
          | PhaseFinalize \<Rightarrow>
              if rs_next_undo_seq s = rs_target_seq s \<and> \<not> rs_trim_required s
              then Ok () else Err decode_corruption))"

fun phase_byte :: "recovery_phase \<Rightarrow> u8" where
  "phase_byte PhaseUndo = 1"
| "phase_byte PhaseTrim = 2"
| "phase_byte PhaseFinalize = 3"

definition phase_of_byte :: "u8 option \<Rightarrow> recovery_phase res" where
  "phase_of_byte b =
     (if b = Some 1 then Ok PhaseUndo
      else if b = Some 2 then Ok PhaseTrim
      else if b = Some 3 then Ok PhaseFinalize
      else Err decode_corruption)"

definition flag_of_byte :: "u8 option \<Rightarrow> bool res" where
  "flag_of_byte b =
     (if b = Some 0 then Ok False else if b = Some 1 then Ok True else Err decode_corruption)"

definition RecoveryState_encode :: "env \<Rightarrow> recovery_state \<Rightarrow> bytes res" where
  "RecoveryState_encode E s =
     and_then (map_err (\<lambda>_. encode_invalid) (RecoveryState_validate s)) (\<lambda>_.
       Ok (with_crc E (RECOVERY_STATE_MAGIC @ u16_to_le_bytes 0 @ [phase_byte (rs_phase s)]
             @ u64_to_le_bytes (rs_original_head s) @ u64_to_le_bytes (rs_target_seq s)
             @ u64_to_le_bytes (rs_target_vlog_seq s) @ durable_end_bytes (rs_target_vlog_end s)
             @ u64_to_le_bytes (rs_next_undo_seq s) @ [if rs_trim_required s then 1 else 0])))"

definition RecoveryState_decode :: "env \<Rightarrow> bytes \<Rightarrow> recovery_state res" where
  "RecoveryState_decode E encoded =
     (if length encoded \<noteq> 57 \<or> slice_get encoded 0 4 \<noteq> Some RECOVERY_STATE_MAGIC
      then Err decode_corruption
      else
        and_then (verify_crc E encoded 53 53) (\<lambda>_.
        dec (read_u16_le encoded 4) (\<lambda>format_version.
          if format_version \<noteq> 0 then Err decode_incompatible
          else
            and_then (phase_of_byte (list_get encoded 6)) (\<lambda>phase.
            and_then (flag_of_byte (list_get encoded 52)) (\<lambda>trim_required.
            dec (read_u64_le encoded 7) (\<lambda>original_head.
            dec (read_u64_le encoded 15) (\<lambda>target_seq.
            dec (read_u64_le encoded 23) (\<lambda>target_vlog_seq.
            and_then (read_durable_end encoded 31) (\<lambda>target_vlog_end.
            dec (read_u64_le encoded 44) (\<lambda>next_undo_seq.
            let s = \<lparr>rs_phase = phase, rs_original_head = original_head, rs_target_seq = target_seq,
                     rs_target_vlog_seq = target_vlog_seq, rs_target_vlog_end = target_vlog_end,
                     rs_next_undo_seq = next_undo_seq, rs_trim_required = trim_required\<rparr>
            in and_then (RecoveryState_validate s) (\<lambda>_. Ok s)))))))))))"

section \<open>Reads and keys\<close>

lemma read_array_eval [codec_simps]:
  "offset + n \<le> length input \<Longrightarrow> offset + n \<le> usize_max \<Longrightarrow>
   read_array n input offset = Some (take n (drop offset input))"
  by (simp add: read_array_def usize_checked_add_def)

lemma read_array_Some:
  "read_array n input offset = Some bs \<longleftrightarrow>
     offset + n \<le> usize_max \<and> offset + n \<le> length input \<and> bs = take n (drop offset input)"
  by (auto simp: read_array_def usize_checked_add_def slice_get_eq_Some)

lemmas metadata_reads = read_u16_le_def read_u32_le_def read_u64_le_def read_u64_be_def read_uuid_def

lemma read_vlog_pos_eval [codec_simps]:
  "offset + 12 \<le> length input \<Longrightarrow> offset + 12 \<le> usize_max \<Longrightarrow>
   read_vlog_pos input offset = Some (VLogPosition (u32_from_le_bytes (take 4 (drop offset input)))
     (u64_from_le_bytes (take 8 (drop (offset + 4) input))))"
  by (simp add: read_vlog_pos_def usize_checked_add_def metadata_reads codec_simps)

lemma tx_meta_key_codec: "decode_tx_meta_key bs = Ok seq \<longleftrightarrow> encode_tx_meta_key seq = Ok bs"
proof
  assume "encode_tx_meta_key seq = Ok bs"
  then show "decode_tx_meta_key bs = Ok seq"
    by (auto simp: encode_tx_meta_key_def decode_tx_meta_key_def metadata_reads codec_simps nth_append
        split: if_splits)
next
  assume a: "decode_tx_meta_key bs = Ok seq"
  then have l: "length bs = 11" and "bs ! 10 = 0" and "take 2 bs = TX_KEY_MAGIC"
    and "seq \<noteq> 0" and "seq = u64_from_be_bytes (take 8 (drop 2 bs))"
    by (auto simp: decode_tx_meta_key_def metadata_reads read_array_Some result_simps list_get_eq_Some
        split: if_splits)
  moreover have "drop 10 bs = [bs ! 10]" using l by (simp flip: Cons_nth_drop_Suc)
  ultimately show "encode_tx_meta_key seq = Ok bs"
    using concat_fields [of "[2, 8, 1]" bs] by (simp add: encode_tx_meta_key_def to_from_bytes)
qed

lemma tx_mutation_key_codec:
  "decode_tx_mutation_key bs = Ok (seq, k) \<longleftrightarrow> encode_tx_mutation_key seq k = Ok bs"
proof
  assume "encode_tx_mutation_key seq k = Ok bs"
  then show "decode_tx_mutation_key bs = Ok (seq, k)"
    by (auto simp: encode_tx_mutation_key_def decode_tx_mutation_key_def metadata_reads codec_simps
        nth_append split: if_splits)
next
  assume a: "decode_tx_mutation_key bs = Ok (seq, k)"
  then have l: "length bs = 19" and "bs ! 10 = 1" and "take 2 bs = TX_KEY_MAGIC"
    and "seq \<noteq> 0" and "seq = u64_from_be_bytes (take 8 (drop 2 bs))"
    and "k = u64_from_be_bytes (take 8 (drop 11 bs))"
    by (auto simp: decode_tx_mutation_key_def metadata_reads read_array_Some result_simps
        list_get_eq_Some split: if_splits)
  moreover have "take 1 (drop 10 bs) = [bs ! 10]" using l by (simp flip: Cons_nth_drop_Suc)
  ultimately show "encode_tx_mutation_key seq k = Ok bs"
    using concat_fields [of "[2, 8, 1, 8]" bs] by (simp add: encode_tx_mutation_key_def to_from_bytes)
qed

text \<open>Big-endian bytes compare as the numbers do.\<close>

lemma le_val_snoc: "le_val (bs @ [b]) = le_val bs + 256 ^ length bs * unat b"
  by (induction bs) (simp_all add: algebra_simps)

lemma be_less:
  assumes "length as = length bs"
  shows "as < bs \<longleftrightarrow> le_val (rev as) < le_val (rev bs)"
  using assms
proof (induction as bs rule: list_induct2)
  case (Cons a as b bs)
  let ?k = "256 ^ length as :: nat"
  have lt: "le_val (rev as) < ?k" "le_val (rev bs) < ?k"
    using le_val_lt [of "rev as"] le_val_lt [of "rev bs"] Cons by simp_all
  have "le_val (rev as) + ?k * unat a < le_val (rev bs) + ?k * unat b \<longleftrightarrow>
      unat a < unat b \<or> unat a = unat b \<and> le_val (rev as) < le_val (rev bs)"
  proof (cases "unat a" "unat b" rule: linorder_cases)
    case less
    then have "?k * Suc (unat a) \<le> ?k * unat b" by (intro mult_le_mono2) simp
    then show ?thesis using less lt by simp
  next
    case greater
    then have "?k * Suc (unat b) \<le> ?k * unat a" by (intro mult_le_mono2) simp
    then show ?thesis using greater lt by simp
  qed simp
  then show ?case
    using Cons by (simp add: le_val_snoc word_less_nat_alt word_unat_eq_iff)
qed simp

lemma u64_be_less: "u64_to_be_bytes a < u64_to_be_bytes b \<longleftrightarrow> a < b"
  using unat_less_2p [of a] unat_less_2p [of b]
  by (simp add: be_less word_less_nat_alt) (simp add: u64_to_be_bytes_def)

lemma u64_be_inject [simp]: "u64_to_be_bytes a = u64_to_be_bytes b \<longleftrightarrow> a = b"
  by (metis from_to_bytes(4))

lemma append_less_same_length:
  "length as = length bs \<Longrightarrow> (as @ cs < bs @ ds) \<longleftrightarrow> as < bs \<or> as = bs \<and> cs < (ds :: bytes)"
  by (induction as bs rule: list_induct2) auto

definition tx_meta_key :: "commit_seq \<Rightarrow> bytes" where
  "tx_meta_key seq = TX_KEY_MAGIC @ u64_to_be_bytes seq @ [0]"

definition tx_mutation_key :: "commit_seq \<Rightarrow> u64 \<Rightarrow> bytes" where
  "tx_mutation_key seq k = TX_KEY_MAGIC @ u64_to_be_bytes seq @ [1] @ u64_to_be_bytes k"

lemma tx_key_order:
  "tx_meta_key a < tx_meta_key b \<longleftrightarrow> a < b"
  "tx_meta_key a < tx_mutation_key b k \<longleftrightarrow> a \<le> b"
  "tx_mutation_key a k < tx_meta_key b \<longleftrightarrow> a < b"
  "tx_mutation_key a k < tx_mutation_key b p \<longleftrightarrow> a < b \<or> a = b \<and> k < p"
  by (auto simp: tx_meta_key_def tx_mutation_key_def append_less_same_length u64_be_less)

section \<open>Fixed-width records\<close>

lemma TransactionKind_decode_encode [simp]:
  "TransactionKind_decode (TransactionKind_encode k) = Ok k"
  by (cases k) (simp_all add: TransactionKind_decode_def)

lemma TransactionKind_decode_Ok:
  "TransactionKind_decode b = Ok k \<longleftrightarrow> b = TransactionKind_encode k"
  by (cases k) (auto simp: TransactionKind_decode_def split: if_splits)

lemma validate_tx_meta_mode: "validate_tx_meta m a = Ok u \<longleftrightarrow> validate_tx_meta m b = Ok u"
  by (auto simp: validate_tx_meta_def split: transaction_kind.splits if_splits)

lemma length_tx_meta_prefix [simp]: "length (tx_meta_prefix m) = 83"
  by (simp add: tx_meta_prefix_def)

lemma take_12_position:
  "12 \<le> length bs \<Longrightarrow>
   position_bytes (VLogPosition (u32_from_le_bytes (take 4 bs)) (u64_from_le_bytes (take 8 (drop 4 bs))))
     = take 12 bs"
  using take_add [of 4 8 bs] by (simp add: position_bytes_def to_from_bytes)

lemma read_vlog_pos_Some:
  assumes "read_vlog_pos input offset = Some p"
  shows "offset + 12 \<le> length input" "position_bytes p = take 12 (drop offset input)"
  using assms take_12_position [of "drop offset input"]
  by (auto simp: read_vlog_pos_def metadata_reads read_array_Some usize_checked_add_def add.commute
      split: option.splits if_splits)

lemma encode_tx_meta_Ok:
  "encode_tx_meta m = Ok bs \<longleftrightarrow> validate_tx_meta m True = Ok ()
     \<and> bs = tx_meta_prefix m @ u32_to_le_bytes (tm_descriptor_crc32c m)"
  by (auto simp: encode_tx_meta_def result_simps)

lemma tx_meta_dec_enc: "encode_tx_meta m = Ok bs \<Longrightarrow> decode_tx_meta bs = Ok m"
  using validate_tx_meta_mode [of m True "()" False]
  by (cases m) (auto simp: encode_tx_meta_Ok decode_tx_meta_def tx_meta_prefix_def metadata_reads codec_simps
      position_bytes_def nth_append Let_def)

lemma singleton_field: "i < length bs \<Longrightarrow> take 1 (drop i bs) = [bs ! i]"
  by (simp flip: Cons_nth_drop_Suc)

lemma tx_meta_enc_dec:
  assumes "decode_tx_meta bs = Ok m"
  shows "encode_tx_meta m = Ok bs"
proof -
  have l: "length bs = 87" and m0: "take 4 bs = TX_META_MAGIC" "take 2 (drop 4 bs) = u16_to_le_bytes 0"
    and k: "bs ! 6 = TransactionKind_encode (tm_transaction_kind m)"
    and f: "u64_to_le_bytes (tm_commit_seq m) = take 8 (drop 7 bs)"
      "uuid_bytes (tm_tx_uuid m) = take 16 (drop 15 bs)"
      "u64_to_le_bytes (tm_prev_seq m) = take 8 (drop 31 bs)"
      "position_bytes (tm_vlog_begin m) = take 12 (drop 39 bs)"
      "position_bytes (tm_vlog_end m) = take 12 (drop 51 bs)"
      "u64_to_le_bytes (tm_logical_op_count m) = take 8 (drop 63 bs)"
      "u64_to_le_bytes (tm_distinct_key_count m) = take 8 (drop 71 bs)"
      "u32_to_le_bytes (tm_envelope_crc32c m) = take 4 (drop 79 bs)"
      "u32_to_le_bytes (tm_descriptor_crc32c m) = take 4 (drop 83 bs)"
    and v: "validate_tx_meta m False = Ok ()"
    using assms
    by (auto simp: decode_tx_meta_def result_simps metadata_reads read_array_Some list_get_eq_Some
        TransactionKind_decode_Ok Let_def to_from_bytes from_bytes_eq_iff
        dest!: read_vlog_pos_Some(2) split: if_splits)
  show ?thesis
    unfolding encode_tx_meta_Ok using v validate_tx_meta_mode [of m True "()" False] l m0
      singleton_field [of 6 bs] concat_fields [of "[4, 2, 1, 8, 16, 8, 12, 12, 8, 8, 4, 4]" bs]
    by (simp add: tx_meta_prefix_def f k [symmetric])
qed

lemma encode_tx_meta_width: "encode_tx_meta m = Ok bs \<Longrightarrow> length bs = 87"
  by (auto simp: encode_tx_meta_Ok)

interpretation tm: fixed_codec encode_tx_meta decode_tx_meta 87
  by unfold_locales (rule tx_meta_dec_enc tx_meta_enc_dec encode_tx_meta_width, assumption)+

lemma verify_crc_Ok:
  assumes "length bs = n + 4" "n \<le> 1000"
  shows "verify_crc E bs n n = Ok u \<longleftrightarrow> with_crc E (take n bs) = bs"
proof -
  have "with_crc E (take n bs) = bs \<longleftrightarrow> u32_to_le_bytes (crc32c E (take n bs)) = drop n bs"
    unfolding with_crc_def by (metis append_take_drop_id same_append_eq)
  also have "\<dots> \<longleftrightarrow> crc32c E (take n bs) = u32_from_le_bytes (drop n bs)"
    using to_from_bytes(2) [of "drop n bs"] assms(1) by (metis add_diff_cancel_left' from_to_bytes(2) length_drop)
  finally show ?thesis
    using assms by (auto simp: verify_crc_def metadata_reads codec_simps)
qed

lemma verify_crc_with_crc [simp]:
  "length body = n \<Longrightarrow> n \<le> 1000 \<Longrightarrow> verify_crc E (with_crc E body) n n = Ok ()"
  using with_crc_simps(2) [of body E] by (subst verify_crc_Ok) simp_all

lemma position_bytes_inject [simp]: "position_bytes p = position_bytes q \<longleftrightarrow> p = q"
  by (cases p; cases q) (auto simp: position_bytes_def dest: arg_cong [of _ _ u32_from_le_bytes]
      arg_cong [of _ _ u64_from_le_bytes])

lemma read_vlog_pos_iff:
  assumes "k + 12 \<le> length bs" "k \<le> 1001"
  shows "read_vlog_pos bs k = Some p \<longleftrightarrow> take 12 (drop k bs) = position_bytes p"
proof -
  obtain q where "read_vlog_pos bs k = Some q" "position_bytes q = take 12 (drop k bs)"
    using assms read_vlog_pos_Some(2) [of bs k] by (auto simp: read_vlog_pos_eval)
  then show ?thesis by (metis option.inject position_bytes_inject)
qed

lemma length_durable_end_bytes [simp]: "length (durable_end_bytes e) = 13"
  by (cases e) simp_all

fun end_pos :: "durable_vlog_end \<Rightarrow> vlog_position" where
  "end_pos EmptyEnd = VLogPosition 0 0"
| "end_pos (PositionEnd p) = p"

fun end_valid :: "durable_vlog_end \<Rightarrow> bool" where
  "end_valid EmptyEnd = True"
| "end_valid (PositionEnd p) = VLogPos_is_valid p"

lemma le_bytes_0 [simp]: "le_bytes n 0 = replicate n 0"
  by (induction n) simp_all

lemma durable_end_bytes_eq:
  "durable_end_bytes e = (if e = EmptyEnd then 0 else 1) # position_bytes (end_pos e)"
  using replicate_Suc [of 12 "0 :: u8"]
  by (cases e) (simp_all add: position_bytes_def u32_to_le_bytes_def u64_to_le_bytes_def
      flip: replicate_add)

lemma read_durable_end_iff:
  assumes "k + 13 \<le> length bs" "k \<le> 1000"
  shows "read_durable_end bs k = Ok e \<longleftrightarrow> take 13 (drop k bs) = durable_end_bytes e \<and> end_valid e"
proof -
  obtain q where q: "read_vlog_pos bs (k + 1) = Some q"
    using assms by (auto simp: read_vlog_pos_eval)
  then have "take 12 (drop (k + 1) bs) = position_bytes q"
    using read_vlog_pos_iff [of "k + 1" bs q] assms by simp
  then have "take 13 (drop k bs) = bs ! k # position_bytes q"
    using assms by (simp add: numeral_eq_Suc flip: Cons_nth_drop_Suc)
  then show ?thesis
    using assms q by (cases e; cases q) (auto simp: read_durable_end_def usize_checked_add_def
        durable_end_bytes_eq split: if_splits)
qed

lemma validate_durable_end_Ok:
  "validate_durable_end seq e = Ok u \<longleftrightarrow> (seq = 0 \<longleftrightarrow> e = EmptyEnd) \<and> end_valid e"
  by (cases e) simp_all


text \<open>The identity record: an encoded identity is read back; the decoder leaves the
  database version to \<open>validate_against\<close>.\<close>

lemma DatabaseIdentity_encode_Ok:
  "DatabaseIdentity_encode E d = Ok bs \<longleftrightarrow>
     di_identity_format_version d = 0 \<and> di_database_format_version d = 0 \<and> di_database_uuid d \<noteq> 0
     \<and> di_keyspace_layout_version d = 0
     \<and> bs = with_crc E (DATABASE_IDENTITY_MAGIC @ u16_to_le_bytes (di_identity_format_version d)
             @ u32_to_le_bytes (di_database_format_version d) @ uuid_bytes (di_database_uuid d)
             @ u16_to_le_bytes (di_keyspace_layout_version d))"
  by (auto simp: DatabaseIdentity_encode_def)

lemma with_crc_reads [codec_simps]:
  "n \<le> length body \<Longrightarrow> take n (with_crc E body) = take n body"
  "i + n \<le> length body \<Longrightarrow> take n (drop i (with_crc E body)) = take n (drop i body)"
  "i < length body \<Longrightarrow> with_crc E body ! i = body ! i"
  by (simp_all add: with_crc_def nth_append)

lemma DatabaseIdentity_dec_enc:
  "DatabaseIdentity_encode E d = Ok bs \<Longrightarrow> DatabaseIdentity_decode E bs = Ok d"
  by (cases d) (auto simp: DatabaseIdentity_encode_Ok DatabaseIdentity_decode_def metadata_reads codec_simps)

lemma DatabaseIdentity_enc_dec:
  assumes "DatabaseIdentity_decode E bs = Ok d" "DatabaseIdentity_validate_against d 0 u = Ok ()"
  shows "DatabaseIdentity_encode E d = Ok bs" "di_database_uuid d = u"
proof -
  have l: "length bs = 32" using assms(1) by (auto simp: DatabaseIdentity_decode_def split: if_splits)
  then have "with_crc E (take 28 bs) = bs" "take 4 bs = DATABASE_IDENTITY_MAGIC"
    "u16_to_le_bytes (di_identity_format_version d) = take 2 (drop 4 bs)"
    "u16_to_le_bytes (di_keyspace_layout_version d) = take 2 (drop 26 bs)"
    "u32_to_le_bytes (di_database_format_version d) = take 4 (drop 6 bs)"
    "uuid_bytes (di_database_uuid d) = take 16 (drop 10 bs)"
    "di_identity_format_version d = 0" "di_keyspace_layout_version d = 0" "di_database_uuid d \<noteq> 0"
    using assms(1)
    by (auto simp: DatabaseIdentity_decode_def result_simps metadata_reads read_array_Some verify_crc_Ok
        to_from_bytes from_bytes_eq_iff split: if_splits)
  then show "DatabaseIdentity_encode E d = Ok bs" "di_database_uuid d = u"
    using assms(2) concat_fields [of "[4, 2, 4, 16, 2]" bs] l
    by (auto simp: DatabaseIdentity_encode_Ok DatabaseIdentity_validate_against_def split: if_splits)
qed

lemma DurableFrontier_validate_Ok:
  "DurableFrontier_validate f = Ok u \<longleftrightarrow> df_durable_vlog_seq f \<le> df_durable_seq f
     \<and> (df_durable_vlog_seq f = 0 \<longleftrightarrow> df_durable_vlog_end f = EmptyEnd) \<and> end_valid (df_durable_vlog_end f)"
  by (auto simp: DurableFrontier_validate_def validate_durable_end_Ok)

lemma DurableFrontier_dec_enc:
  assumes "DurableFrontier_encode E f = Ok bs"
  shows "DurableFrontier_decode E bs = Ok f"
proof -
  have v: "DurableFrontier_validate f = Ok ()" and bs: "bs = with_crc E (DURABLE_FRONTIER_MAGIC
      @ u16_to_le_bytes 0 @ u64_to_le_bytes (df_durable_seq f) @ u64_to_le_bytes (df_durable_vlog_seq f)
      @ durable_end_bytes (df_durable_vlog_end f))"
    using assms by (auto simp: DurableFrontier_encode_def result_simps)
  have "read_durable_end bs 22 = Ok (df_durable_vlog_end f)"
    using v by (subst read_durable_end_iff) (simp_all add: bs DurableFrontier_validate_Ok codec_simps)
  then show ?thesis
    using v by (cases f) (simp add: bs DurableFrontier_decode_def metadata_reads codec_simps Let_def)
qed

lemma DurableFrontier_enc_dec:
  assumes "DurableFrontier_decode E bs = Ok f"
  shows "DurableFrontier_encode E f = Ok bs"
proof -
  have l: "length bs = 39" using assms by (auto simp: DurableFrontier_decode_def split: if_splits)
  then have "with_crc E (take 35 bs) = bs" "take 4 bs = DURABLE_FRONTIER_MAGIC"
    "take 2 (drop 4 bs) = u16_to_le_bytes 0"
    "u64_to_le_bytes (df_durable_seq f) = take 8 (drop 6 bs)"
    "u64_to_le_bytes (df_durable_vlog_seq f) = take 8 (drop 14 bs)"
    "take 13 (drop 22 bs) = durable_end_bytes (df_durable_vlog_end f)"
    "DurableFrontier_validate f = Ok ()"
    using assms
    by (auto simp: DurableFrontier_decode_def result_simps metadata_reads read_array_Some verify_crc_Ok
        to_from_bytes from_bytes_eq_iff read_durable_end_iff Let_def split: if_splits)
  then show ?thesis
    using concat_fields [of "[4, 2, 8, 8, 13]" bs] l by (simp add: DurableFrontier_encode_def)
qed

lemma DurableFrontier_encode_width: "DurableFrontier_encode E f = Ok bs \<Longrightarrow> length bs = 39"
  by (auto simp: DurableFrontier_encode_def result_simps)

interpretation df: fixed_codec "DurableFrontier_encode E" "DurableFrontier_decode E" 39 for E
  by unfold_locales (rule DurableFrontier_dec_enc DurableFrontier_enc_dec DurableFrontier_encode_width,
      assumption)+


lemma phase_of_byte_Ok: "phase_of_byte b = Ok p \<longleftrightarrow> b = Some (phase_byte p)"
  by (cases p) (auto simp: phase_of_byte_def split: if_splits)

lemma flag_of_byte_Ok: "flag_of_byte b = Ok f \<longleftrightarrow> b = Some (if f then 1 else 0)"
  by (auto simp: flag_of_byte_def split: if_splits)

lemma RecoveryState_encode_Ok:
  "RecoveryState_encode E s = Ok bs \<longleftrightarrow> RecoveryState_validate s = Ok () \<and>
     bs = with_crc E (RECOVERY_STATE_MAGIC @ u16_to_le_bytes 0 @ [phase_byte (rs_phase s)]
             @ u64_to_le_bytes (rs_original_head s) @ u64_to_le_bytes (rs_target_seq s)
             @ u64_to_le_bytes (rs_target_vlog_seq s) @ durable_end_bytes (rs_target_vlog_end s)
             @ u64_to_le_bytes (rs_next_undo_seq s) @ [if rs_trim_required s then 1 else 0])"
  by (auto simp: RecoveryState_encode_def result_simps)

lemma RecoveryState_validate_end: "RecoveryState_validate s = Ok () \<Longrightarrow> end_valid (rs_target_vlog_end s)"
  by (auto simp: RecoveryState_validate_def result_simps validate_durable_end_Ok split: if_splits)

lemma RecoveryState_dec_enc:
  assumes "RecoveryState_encode E s = Ok bs"
  shows "RecoveryState_decode E bs = Ok s"
proof -
  have v: "RecoveryState_validate s = Ok ()" and bs: "bs = with_crc E (RECOVERY_STATE_MAGIC
      @ u16_to_le_bytes 0 @ [phase_byte (rs_phase s)]
             @ u64_to_le_bytes (rs_original_head s) @ u64_to_le_bytes (rs_target_seq s)
             @ u64_to_le_bytes (rs_target_vlog_seq s) @ durable_end_bytes (rs_target_vlog_end s)
             @ u64_to_le_bytes (rs_next_undo_seq s) @ [if rs_trim_required s then 1 else 0])"
    using assms by (simp_all add: RecoveryState_encode_Ok)
  have e: "read_durable_end bs 31 = Ok (rs_target_vlog_end s)"
    by (subst read_durable_end_iff) (simp_all add: bs codec_simps RecoveryState_validate_end [OF v])
  have p: "phase_of_byte (list_get bs 6) = Ok (rs_phase s)"
    "flag_of_byte (list_get bs 52) = Ok (rs_trim_required s)"
    by (simp_all add: phase_of_byte_Ok flag_of_byte_Ok bs codec_simps nth_append)
  show ?thesis
    unfolding RecoveryState_decode_def e p using v
    by (cases s) (simp add: bs metadata_reads codec_simps Let_def)
qed

lemma RecoveryState_enc_dec:
  assumes "RecoveryState_decode E bs = Ok s"
  shows "RecoveryState_encode E s = Ok bs"
proof -
  have l: "length bs = 57" using assms by (auto simp: RecoveryState_decode_def split: if_splits)
  then have "with_crc E (take 53 bs) = bs" "take 4 bs = RECOVERY_STATE_MAGIC"
    "take 2 (drop 4 bs) = u16_to_le_bytes 0" "phase_byte (rs_phase s) = bs ! 6"
    "u64_to_le_bytes (rs_original_head s) = take 8 (drop 7 bs)"
    "u64_to_le_bytes (rs_target_seq s) = take 8 (drop 15 bs)"
    "u64_to_le_bytes (rs_target_vlog_seq s) = take 8 (drop 23 bs)"
    "durable_end_bytes (rs_target_vlog_end s) = take 13 (drop 31 bs)"
    "u64_to_le_bytes (rs_next_undo_seq s) = take 8 (drop 44 bs)"
    "(if rs_trim_required s then 1 else 0) = bs ! 52"
    "RecoveryState_validate s = Ok ()"
    using assms
    by (auto simp: RecoveryState_decode_def result_simps metadata_reads read_array_Some verify_crc_Ok
        to_from_bytes from_bytes_eq_iff read_durable_end_iff Let_def phase_of_byte_Ok flag_of_byte_Ok
        list_get_eq_Some split: if_splits)
  then show ?thesis
    using concat_fields [of "[4, 2, 1, 8, 8, 8, 13, 8, 1]" bs] l singleton_field [of 6 bs]
      singleton_field [of 52 bs]
    by (simp add: RecoveryState_encode_Ok)
qed

lemma RecoveryState_encode_width: "RecoveryState_encode E s = Ok bs \<Longrightarrow> length bs = 57"
  by (simp add: RecoveryState_encode_Ok)

interpretation rs: fixed_codec "RecoveryState_encode E" "RecoveryState_decode E" 57 for E
  by unfold_locales (rule RecoveryState_dec_enc RecoveryState_enc_dec RecoveryState_encode_width,
      assumption)+

lemma head_seq_codec: "decode_head_seq bs = Ok seq \<longleftrightarrow> bs = encode_head_seq seq"
  by (auto simp: decode_head_seq_def encode_head_seq_def metadata_reads codec_simps from_bytes_eq_iff
      split: if_splits)

section \<open>Mutations and descriptors\<close>

lemma encode_value_state_len: "encode_value_state s = Ok bs \<Longrightarrow> length bs = value_state_encoded_len s"
  by (cases s) (auto simp: result_simps vp.enc_width)

lemma value_state_encoded_len_le: "value_state_encoded_len s \<le> 17"
  by (cases s) simp_all

lemma decode_value_state_iff:
  "decode_value_state bs = Ok (s, n) \<longleftrightarrow>
     n = value_state_encoded_len s \<and> n \<le> length bs \<and> encode_value_state s = Ok (take n bs)"
proof (cases bs)
  case Nil
  then show ?thesis by (cases s) (simp_all add: decode_value_state_def list_get_def)
next
  case (Cons b rest)
  then show ?thesis
    by (cases s) (auto simp: decode_value_state_def usize_checked_add_def result_simps
        vp.dec_iff_enc slice_get_eq_Some list_get_def dest: vp.enc_width split: if_splits)
qed

lemma validate_value_state_mode:
  "validate_value_state_key_len s n a = Ok u \<longleftrightarrow> validate_value_state_key_len s n b = Ok u"
  by (cases s) (auto simp: result_simps invalid_metadata_def split: if_splits)

definition mutation_ok :: "tx_mutation \<Rightarrow> bool" where
  "mutation_ok m \<longleftrightarrow> mu_user_key m \<noteq> [] \<and> length (mu_user_key m) \<le> 60000
     \<and> validate_value_state_key_len (mu_before_state m) (length (mu_user_key m)) True = Ok ()
     \<and> validate_value_state_key_len (mu_after_state m) (length (mu_user_key m)) True = Ok ()"

lemma encode_tx_mutation_Ok:
  assumes "allocates E"
  shows "encode_tx_mutation E m = Ok bs \<longleftrightarrow> mutation_ok m \<and>
     (\<exists>b a. encode_value_state (mu_before_state m) = Ok b \<and> encode_value_state (mu_after_state m) = Ok a
        \<and> bs = u16_to_le_bytes (word_of_nat (length (mu_user_key m))) @ mu_user_key m @ b @ a)"
proof -
  have "mutation_encoded_len m \<noteq> None" if "length (mu_user_key m) \<le> 60000"
    using that value_state_encoded_len_le [of "mu_before_state m"]
      value_state_encoded_len_le [of "mu_after_state m"]
    by (auto simp: mutation_encoded_len_def usize_checked_add_def usize_max_def)
  then show ?thesis
    using assms
    by (auto simp: encode_tx_mutation_def validate_user_key_def result_simps mutation_ok_def
        u16_try_from_Some)
qed

lemma decode_tx_mutation_Ok:
  assumes "allocates E"
  shows "decode_tx_mutation E bs = Ok m \<longleftrightarrow> mutation_ok m \<and>
     (\<exists>b a. encode_value_state (mu_before_state m) = Ok b \<and> encode_value_state (mu_after_state m) = Ok a
        \<and> bs = u16_to_le_bytes (word_of_nat (length (mu_user_key m))) @ mu_user_key m @ b @ a)"
    (is "?l \<longleftrightarrow> ?r")
proof
  assume ?r
  then obtain b a where v: "mutation_ok m" and ba: "encode_value_state (mu_before_state m) = Ok b"
      "encode_value_state (mu_after_state m) = Ok a"
    and bs: "bs = u16_to_le_bytes (word_of_nat (length (mu_user_key m))) @ mu_user_key m @ b @ a"
    by blast
  let ?k = "length (mu_user_key m)"
  have k: "0 < ?k" "?k \<le> 60000" using v by (auto simp: mutation_ok_def)
  have l: "length b \<le> 17" "length a \<le> 17" "length b = value_state_encoded_len (mu_before_state m)"
    "length a = value_state_encoded_len (mu_after_state m)"
    using ba by (simp_all add: encode_value_state_len value_state_encoded_len_le)
  have d: "decode_value_state (b @ a) = Ok (mu_before_state m, length b)"
    "decode_value_state a = Ok (mu_after_state m, length a)"
    using ba l(3,4) by (simp_all add: decode_value_state_iff)
  have vs: "validate_value_state_key_len (mu_before_state m) ?k False = Ok ()"
    "validate_value_state_key_len (mu_after_state m) ?k False = Ok ()"
    using v validate_value_state_mode [of _ _ True] by (auto simp: mutation_ok_def)
  show ?l
    using assms k l(1,2) vs d
    by (cases m) (simp add: bs decode_tx_mutation_def metadata_reads codec_simps usize_checked_add_def
        usize_max_def)
next
  assume ?l
  then obtain kl b n a j where kl: "kl = unat (u16_from_le_bytes (take 2 bs))" "0 < kl" "kl \<le> 60000"
      "2 + kl \<le> length bs" and m: "mu_user_key m = take kl (drop 2 bs)"
    and b: "decode_value_state (drop (2 + kl) bs) = Ok (mu_before_state m, n)"
    and a: "decode_value_state (drop (2 + kl + n) bs) = Ok (mu_after_state m, j)"
    and e: "2 + kl + n + j = length bs"
    and v: "validate_value_state_key_len (mu_before_state m) kl False = Ok ()"
      "validate_value_state_key_len (mu_after_state m) kl False = Ok ()"
    by (auto simp: decode_tx_mutation_def result_simps metadata_reads read_array_Some usize_checked_add_def
        slice_get_eq_Some split: if_splits)
  have lk: "length (mu_user_key m) = kl" using kl by (simp add: m)
  have "mutation_ok m"
    using v kl lk validate_value_state_mode [of _ _ False "()" True]
    by (auto simp: mutation_ok_def)
  moreover have "u16_to_le_bytes (word_of_nat kl) = take 2 bs"
    using kl by (simp add: to_from_bytes)
  ultimately show ?r
    using b a e concat_fields [of "[2, kl, n, j]" bs] lk m
    by (simp add: decode_value_state_iff add.commute)
qed

lemma tx_mutation_codec:
  "allocates E \<Longrightarrow> decode_tx_mutation E bs = Ok m \<longleftrightarrow> encode_tx_mutation E m = Ok bs"
  by (simp add: encode_tx_mutation_Ok decode_tx_mutation_Ok)


lemma mutations_codec:
  assumes "allocates E"
  shows "decode_mutations E seq seen i crc es = Ok (c, ms) \<longleftrightarrow>
    encode_mutations E seq seen i ms = Ok es \<and> descriptor_crc_mutations E enc crc es = Ok c"
proof (induction es arbitrary: seen i crc ms)
  case Nil
  then show ?case by (cases ms) (auto simp: result_simps split: if_splits)
next
  case (Cons e es)
  then show ?case
    using assms
    by (cases ms; cases e) (auto simp: result_simps tx_mutation_key_codec tx_mutation_codec split: if_splits)
qed

lemma validate_mutations_mode:
  "validate_transaction_mutations k ms a = Ok u \<longleftrightarrow> validate_transaction_mutations k ms b = Ok u"
  by (simp add: validate_transaction_mutations_def)

lemma tx_meta_crc_free [simp]:
  "tx_meta_prefix (m\<lparr>tm_descriptor_crc32c := c\<rparr>) = tx_meta_prefix m"
  "validate_tx_meta (m\<lparr>tm_descriptor_crc32c := c\<rparr>) b = validate_tx_meta m b"
  unfolding tx_meta_prefix_def validate_tx_meta_def by (cases m; simp only: tx_meta.simps)+

lemma encode_mutations_len: "encode_mutations E seq seen i ms = Ok es \<Longrightarrow> length es = length ms"
  by (induction E seq seen i ms arbitrary: es rule: encode_mutations.induct)
    (auto simp: result_simps split: if_splits)

lemma validate_tx_meta_seq: "validate_tx_meta m b = Ok u \<Longrightarrow> tm_commit_seq m \<noteq> 0"
  by (auto simp: validate_tx_meta_def split: if_splits)

text \<open>What the encoder writes: one metadata record under the transaction's key, then one record per
  mutation, and a checksum over all of them in the metadata record.\<close>

lemma encode_descriptor_Ok:
  assumes "allocates E"
  shows "encode_descriptor E d = Ok e \<longleftrightarrow>
    unat (tm_distinct_key_count (td_meta d)) = length (td_mutations d)
    \<and> validate_tx_meta (td_meta d) True = Ok ()
    \<and> validate_transaction_mutations (tm_transaction_kind (td_meta d)) (td_mutations d) True = Ok ()
    \<and> encode_mutations E (tm_commit_seq (td_meta d)) {} 0 (td_mutations d) = Ok (ed_mutations e)
    \<and> encode_tx_meta_key (tm_commit_seq (td_meta d)) = Ok (ed_meta_key e)
    \<and> (\<exists>crc. descriptor_crc_mutations E True (crc32c_append E (crc32c E DESCRIPTOR_CRC_MAGIC)
              (tx_meta_prefix (td_meta d))) (ed_mutations e) = Ok crc
         \<and> ed_meta_value e = tx_meta_prefix (td_meta d) @ u32_to_le_bytes crc)"
  using assms
  by (cases e) (auto simp: encode_descriptor_def Let_def result_simps encode_tx_meta_Ok descriptor_crc_def)

lemma decode_descriptor_Ok:
  assumes "allocates E"
  shows "decode_descriptor E (ed_meta_key e) (ed_meta_value e) (ed_mutations e) = Ok d \<longleftrightarrow>
    encode_descriptor E d = Ok e
    \<and> ed_meta_value e = tx_meta_prefix (td_meta d) @ u32_to_le_bytes (tm_descriptor_crc32c (td_meta d))"
    (is "?l \<longleftrightarrow> ?r")
proof
  assume ?l
  then have "decode_tx_meta_key (ed_meta_key e) = Ok (tm_commit_seq (td_meta d))"
    and m: "decode_tx_meta (ed_meta_value e) = Ok (td_meta d)"
    and "length (ed_mutations e) = unat (tm_distinct_key_count (td_meta d))"
    and x: "decode_mutations E (tm_commit_seq (td_meta d)) {} 0
      (crc32c_append E (crc32c E DESCRIPTOR_CRC_MAGIC) (take 83 (ed_meta_value e))) (ed_mutations e)
      = Ok (tm_descriptor_crc32c (td_meta d), td_mutations d)"
    and "validate_transaction_mutations (tm_transaction_kind (td_meta d)) (td_mutations d) False = Ok ()"
    by (auto simp: decode_descriptor_def result_simps Let_def slice_get_eq_Some split: if_splits)
  moreover have "length (td_mutations d) = length (ed_mutations e)"
    using x mutations_codec [OF assms, where enc = True] by (auto dest: encode_mutations_len)
  moreover have "encode_tx_meta (td_meta d) = Ok (ed_meta_value e)" using m by (rule tm.enc_dec)
  ultimately show ?r
    unfolding encode_descriptor_Ok [OF assms]
    using validate_mutations_mode [of _ _ False "()" True] mutations_codec [OF assms, where enc = True]
    by (auto simp: encode_tx_meta_Ok tx_meta_key_codec)
next
  assume ?r
  then have "encode_tx_meta (td_meta d) = Ok (ed_meta_value e)"
    and k: "unat (tm_distinct_key_count (td_meta d)) = length (ed_mutations e)"
      "validate_transaction_mutations (tm_transaction_kind (td_meta d)) (td_mutations d) False = Ok ()"
      "decode_tx_meta_key (ed_meta_key e) = Ok (tm_commit_seq (td_meta d))"
    and v: "take 83 (ed_meta_value e) = tx_meta_prefix (td_meta d)" "length (ed_meta_value e) = 87"
    and x: "decode_mutations E (tm_commit_seq (td_meta d)) {} 0
      (crc32c_append E (crc32c E DESCRIPTOR_CRC_MAGIC) (tx_meta_prefix (td_meta d))) (ed_mutations e)
      = Ok (tm_descriptor_crc32c (td_meta d), td_mutations d)"
    using validate_mutations_mode [of _ _ True "()" False] mutations_codec [OF assms, where enc = True]
    unfolding encode_descriptor_Ok [OF assms]
    by (auto simp: encode_tx_meta_Ok tx_meta_key_codec dest!: encode_mutations_len
        arg_cong [of "u32_to_le_bytes _" _ u32_from_le_bytes])
  then have "decode_tx_meta (ed_meta_value e) = Ok (td_meta d)" by (simp add: tm.dec_iff_enc)
  then show ?l
    using assms k v x by (simp add: decode_descriptor_def Let_def)
qed

lemma descriptor_crc_mutations_mode:
  "descriptor_crc_mutations E a crc es = Ok c \<longleftrightarrow> descriptor_crc_mutations E b crc es = Ok c"
  by (induction es arbitrary: crc) (auto simp: result_simps)

lemma descriptor_dec_enc:
  assumes "allocates E" "encode_descriptor E d = Ok e"
  shows "\<exists>crc. decode_descriptor E (ed_meta_key e) (ed_meta_value e) (ed_mutations e)
     = Ok (d\<lparr>td_meta := (td_meta d)\<lparr>tm_descriptor_crc32c := crc\<rparr>\<rparr>)"
  using assms(2) unfolding decode_descriptor_Ok [OF assms(1)] encode_descriptor_Ok [OF assms(1)] by auto


section \<open>Properties\<close>

text \<open>
  C21: the fixed-width records of the system keyspace. Transaction metadata, the durable frontier,
  the recovery state, the head sequence number and both kinds of transaction keys are accepted
  by their decoders exactly when they are what the encoder writes for the decoded value.
\<close>

theorem metadata_codecs_exact:
  "(decode_tx_meta bs = Ok m \<longleftrightarrow> encode_tx_meta m = Ok bs)
   \<and> (DurableFrontier_decode E bs = Ok f \<longleftrightarrow> DurableFrontier_encode E f = Ok bs)
   \<and> (RecoveryState_decode E bs = Ok s \<longleftrightarrow> RecoveryState_encode E s = Ok bs)
   \<and> (decode_head_seq bs = Ok seq \<longleftrightarrow> bs = encode_head_seq seq)
   \<and> (decode_tx_meta_key bs = Ok seq \<longleftrightarrow> encode_tx_meta_key seq = Ok bs)
   \<and> (decode_tx_mutation_key bs = Ok (seq, k) \<longleftrightarrow> encode_tx_mutation_key seq k = Ok bs)"
  by (intro conjI tm.dec_iff_enc df.dec_iff_enc rs.dec_iff_enc head_seq_codec tx_meta_key_codec
      tx_mutation_key_codec)

text \<open>
  the database identity. What is encoded is read back, and a decoded identity that passes the
  check against the FORMAT file is one the encoder writes, for the FORMAT file's database.
\<close>

theorem identity_record_exact:
  "(DatabaseIdentity_decode E bs = Ok d \<and> DatabaseIdentity_validate_against d 0 u = Ok ())
   \<longleftrightarrow> (DatabaseIdentity_encode E d = Ok bs \<and> di_database_uuid d = u)"
proof -
  have "DatabaseIdentity_validate_against d 0 u = Ok ()"
    if "DatabaseIdentity_encode E d = Ok bs" "di_database_uuid d = u"
    using that by (auto simp: DatabaseIdentity_validate_against_def DatabaseIdentity_encode_Ok)
  then show ?thesis
    using DatabaseIdentity_dec_enc [of E d bs] DatabaseIdentity_enc_dec [of E bs d u] by blast
qed

text \<open>
  C14: transaction descriptors. With memory available, the three parts read from the index decode to
  a descriptor exactly when they are what the encoder writes for it and its checksum field is the
  one stored; and every encoded descriptor is read back, unchanged but for that field.
\<close>

theorem descriptor_codec_exact:
  assumes "allocates E"
  shows "(decode_descriptor E (ed_meta_key e) (ed_meta_value e) (ed_mutations e) = Ok d \<longleftrightarrow>
          encode_descriptor E d = Ok e \<and> decode_tx_meta (ed_meta_value e) = Ok (td_meta d))
    \<and> (encode_descriptor E d = Ok e \<longrightarrow>
        (\<exists>crc. decode_descriptor E (ed_meta_key e) (ed_meta_value e) (ed_mutations e)
           = Ok (d\<lparr>td_meta := (td_meta d)\<lparr>tm_descriptor_crc32c := crc\<rparr>\<rparr>)))"
proof -
  have "ed_meta_value e = tx_meta_prefix (td_meta d) @ u32_to_le_bytes (tm_descriptor_crc32c (td_meta d))
      \<longleftrightarrow> decode_tx_meta (ed_meta_value e) = Ok (td_meta d)" if "encode_descriptor E d = Ok e"
    using that unfolding encode_descriptor_Ok [OF assms] by (simp add: tm.dec_iff_enc encode_tx_meta_Ok)
  then show ?thesis
    using descriptor_dec_enc [OF assms, of d e] decode_descriptor_Ok [OF assms, of e d] by blast
qed

abbreviation sample_descriptor :: transaction_descriptor where
  "sample_descriptor \<equiv> \<lparr>
     td_meta = \<lparr>tm_transaction_kind = IndexOnlyDelete, tm_commit_seq = 1, tm_tx_uuid = 5,
       tm_prev_seq = 0, tm_vlog_begin = VLogPosition 0 0, tm_vlog_end = VLogPosition 0 0,
       tm_logical_op_count = 1, tm_distinct_key_count = 1, tm_envelope_crc32c = 0,
       tm_descriptor_crc32c = 0\<rparr>,
     td_mutations = [\<lparr>mu_user_key = [7], mu_before_state = Absent, mu_after_state = Absent\<rparr>]\<rparr>"

lemma sample_descriptor_encodes: "\<exists>e. encode_descriptor sample_env sample_descriptor = Ok e"
proof -
  let ?m = "u16_to_le_bytes 1 @ [7, 0, 0]"
  let ?k = "TX_KEY_MAGIC @ u64_to_be_bytes 1 @ [1] @ u64_to_be_bytes 0"
  have m: "encode_mutations sample_env 1 {} 0 [\<lparr>mu_user_key = [7], mu_before_state = Absent, mu_after_state = Absent\<rparr>]
      = Ok [\<lparr>em_key = ?k, em_value = ?m\<rparr>]"
    by (simp add: encode_tx_mutation_key_def u64_try_from_def encode_tx_mutation_def validate_user_key_def
        u16_try_from_def mutation_encoded_len_def usize_checked_add_def usize_max_def)
  show ?thesis
    by (auto simp: encode_descriptor_def Let_def m validate_tx_meta_def validate_transaction_mutations_def
        encode_tx_meta_def descriptor_crc_def u32_try_from_def encode_tx_meta_key_def
        simp del: encode_mutations.simps)
qed

theorem descriptor_codec_exact_witness:
  "\<exists>(e :: encoded_descriptor) crc. decode_descriptor sample_env (ed_meta_key e) (ed_meta_value e) (ed_mutations e)
     = Ok (sample_descriptor\<lparr>td_meta := (td_meta sample_descriptor)\<lparr>tm_descriptor_crc32c := crc\<rparr>\<rparr>)"
proof -
  obtain e where "encode_descriptor sample_env sample_descriptor = Ok e"
    using sample_descriptor_encodes by blast
  from conjunct2 [OF descriptor_codec_exact [OF allocates_sample_env], THEN mp, OF this]
  show ?thesis by (rule exI)
qed

text \<open>
  The order of transaction keys. The byte order of the keyspace is the order of the log:
  transactions by sequence number, the metadata record of a transaction before its mutations, and
  the mutations by ordinal.
\<close>

theorem transaction_keys_ordered:
  assumes "encode_tx_meta_key a = Ok ka" and "encode_tx_meta_key b = Ok kb"
    and "encode_tx_mutation_key a i = Ok kai" and "encode_tx_mutation_key b j = Ok kbj"
  shows "(ka < kb \<longleftrightarrow> a < b) \<and> (ka < kbj \<longleftrightarrow> a \<le> b) \<and> (kai < kb \<longleftrightarrow> a < b)
    \<and> (kai < kbj \<longleftrightarrow> a < b \<or> a = b \<and> i < j)"
proof -
  have "ka = tx_meta_key a" "kb = tx_meta_key b" "kai = tx_mutation_key a i" "kbj = tx_mutation_key b j"
    using assms by (auto simp: encode_tx_meta_key_def encode_tx_mutation_key_def tx_meta_key_def
        tx_mutation_key_def split: if_splits)
  then show ?thesis by (simp add: tx_key_order)
qed

theorem transaction_keys_ordered_witness:
  "TX_KEY_MAGIC @ u64_to_be_bytes 255 @ [1] @ u64_to_be_bytes 9
    < TX_KEY_MAGIC @ u64_to_be_bytes 256 @ [0]"
  using transaction_keys_ordered [of 255 "TX_KEY_MAGIC @ u64_to_be_bytes 255 @ [0]" 256
      "TX_KEY_MAGIC @ u64_to_be_bytes 256 @ [0]" 9
      "TX_KEY_MAGIC @ u64_to_be_bytes 255 @ [1] @ u64_to_be_bytes 9" 3
      "TX_KEY_MAGIC @ u64_to_be_bytes 256 @ [1] @ u64_to_be_bytes 3"]
  by (simp add: encode_tx_meta_key_def encode_tx_mutation_key_def)

end
