(* ===== verification/Index.thy ===== *)
theory Index
  imports Descriptor
begin

text \<open>
  The index boundary (\<open>src/index/mod.rs\<close>) and the Fjall adapter behind it
  (\<open>src/index/fjall.rs\<close>): atomic batches and their validation, the initialization batch, key
  ranges, and the operations of \<open>FjallBackend\<close>. The store itself is the third-party crate
  \<open>fjall\<close>: it is the parameter \<open>F\<close>, a record of the calls the adapter makes, and the locale
  \<open>fjall_store\<close> names what the adapter relies on. The locale \<open>index_backend\<close> is the contract of
  the trait \<open>IndexBackend\<close>; the adapter's definitions satisfy it over every store.
\<close>

section \<open>Names and errors\<close>

definition ascii :: "string \<Rightarrow> bytes" where
  "ascii s = map (\<lambda>c. word_of_nat (of_char c)) s"

definition DATABASE_IDENTITY_KEY :: bytes where "DATABASE_IDENTITY_KEY = ascii ''database_identity''"
definition HEAD_SEQ_KEY :: bytes where "HEAD_SEQ_KEY = ascii ''head_seq''"
definition DURABLE_FRONTIER_KEY :: bytes where "DURABLE_FRONTIER_KEY = ascii ''durable_frontier''"

datatype internal_index_space = TransactionSpace | SystemSpace

datatype index_mutation =
  InitializeDatabaseIdentity bytes
| PutUser bytes bytes
| DeleteUser bytes
| PutInternal internal_index_space bytes bytes
| DeleteInternal internal_index_space bytes

datatype index_commit_mode = Buffer | SyncAll

datatype index_apply_state = NotApplied | ApplyUnknown

record internal_index_error =
  ie_kind :: storage_error_kind
  ie_os_code :: "int option"

definition InternalIndexError_new :: "storage_error_kind \<Rightarrow> int option \<Rightarrow> internal_index_error" where
  "InternalIndexError_new kind os_code = \<lparr>ie_kind = kind, ie_os_code = os_code\<rparr>"

definition index_invalid_batch :: internal_index_error where
  "index_invalid_batch = InternalIndexError_new InvalidArgument None"

definition index_resource_exhausted :: internal_index_error where
  "index_resource_exhausted = InternalIndexError_new ResourceExhausted None"

record index_commit_error =
  ce_apply_state :: index_apply_state
  ce_source :: internal_index_error

definition IndexCommitError_not_applied :: "internal_index_error \<Rightarrow> index_commit_error" where
  "IndexCommitError_not_applied source = \<lparr>ce_apply_state = NotApplied, ce_source = source\<rparr>"

definition IndexCommitError_unknown :: "internal_index_error \<Rightarrow> index_commit_error" where
  "IndexCommitError_unknown source = \<lparr>ce_apply_state = ApplyUnknown, ce_source = source\<rparr>"

definition invalid_commit_batch :: index_commit_error where
  "invalid_commit_batch = IndexCommitError_not_applied index_invalid_batch"

type_synonym 'a index_res = "('a, internal_index_error) result"

definition index_metadata_error :: "storage_error_kind \<Rightarrow> storage_error" where
  "index_metadata_error kind =
     codec_error kind Op_Open RecoveryStage None
       (if kind = IncompatibleFormat then DoNotRetry
        else if kind = InvalidLayout \<or> kind = Corruption then RestoreOrRepair
        else DoNotRetry)"

section \<open>Batches\<close>

record index_atomic_batch =
  ib_operations :: "index_mutation list"

definition has_valid_trailing_crc :: "env \<Rightarrow> bytes \<Rightarrow> usize \<Rightarrow> bool" where
  "has_valid_trailing_crc E encoded crc_offset =
     (case slice_get encoded 0 crc_offset of
        None \<Rightarrow> False
      | Some covered \<Rightarrow>
          (case slice_get encoded crc_offset (min usize_max (crc_offset + 4)) of
             None \<Rightarrow> False
           | Some encoded_crc \<Rightarrow>
               length encoded_crc = 4 \<and> crc32c E covered = u32_from_le_bytes encoded_crc))"

definition IndexIdentity_decode :: "env \<Rightarrow> bytes \<Rightarrow> database_identity res" where
  "IndexIdentity_decode E encoded =
     (if length encoded \<noteq> 32 \<or> slice_get encoded 0 4 \<noteq> Some DATABASE_IDENTITY_MAGIC
         \<or> \<not> has_valid_trailing_crc E encoded 28
      then Err (index_metadata_error Corruption)
      else
        let identity_format_version = u16_from_le_bytes (take 2 (drop 4 encoded));
            database_format_version = u32_from_le_bytes (take 4 (drop 6 encoded));
            database_uuid = uuid_of_bytes (take 16 (drop 10 encoded));
            keyspace_layout_version = u16_from_le_bytes (take 2 (drop 26 encoded))
        in if identity_format_version \<noteq> 0 \<or> keyspace_layout_version \<noteq> 0
           then Err (index_metadata_error IncompatibleFormat)
           else if database_uuid = 0 then Err (index_metadata_error Corruption)
           else Ok \<lparr>di_identity_format_version = identity_format_version,
                    di_database_format_version = database_format_version,
                    di_database_uuid = database_uuid,
                    di_keyspace_layout_version = keyspace_layout_version\<rparr>)"

definition IndexIdentity_validate_against :: "database_identity \<Rightarrow> u32 \<Rightarrow> uuid \<Rightarrow> unit res" where
  "IndexIdentity_validate_against d database_format_version database_uuid =
     (if di_database_format_version d \<noteq> database_format_version \<or> di_database_uuid d \<noteq> database_uuid
      then Err (index_metadata_error InvalidLayout) else Ok ())"

definition is_valid_initial_database_identity :: "env \<Rightarrow> bytes \<Rightarrow> bool" where
  "is_valid_initial_database_identity E encoded \<longleftrightarrow>
     length encoded = 32
     \<and> slice_get encoded 0 4 = Some DATABASE_IDENTITY_MAGIC
     \<and> slice_get encoded 4 10 = Some (replicate 6 0)
     \<and> (case slice_get encoded 10 26 of Some database_uuid \<Rightarrow> database_uuid \<noteq> replicate 16 0 | None \<Rightarrow> False)
     \<and> slice_get encoded 26 28 = Some (replicate 2 0)
     \<and> has_valid_trailing_crc E encoded 28"

definition is_encoded_head_seq_zero :: "bytes \<Rightarrow> bool" where
  "is_encoded_head_seq_zero encoded \<longleftrightarrow> length encoded = 8 \<and> encoded = replicate 8 0"

definition is_encoded_empty_durable_frontier :: "env \<Rightarrow> bytes \<Rightarrow> bool" where
  "is_encoded_empty_durable_frontier E encoded \<longleftrightarrow>
     length encoded = 39
     \<and> slice_get encoded 0 4 = Some DURABLE_FRONTIER_MAGIC
     \<and> slice_get encoded 4 35 = Some (replicate 31 0)
     \<and> has_valid_trailing_crc E encoded 35"

fun is_initialization_triple :: "env \<Rightarrow> index_mutation list \<Rightarrow> bool" where
  "is_initialization_triple E
     [InitializeDatabaseIdentity encoded_identity,
      PutInternal SystemSpace head_key encoded_head_seq_zero,
      PutInternal SystemSpace frontier_key encoded_empty_frontier] =
     (is_valid_initial_database_identity E encoded_identity
      \<and> head_key = HEAD_SEQ_KEY
      \<and> is_encoded_head_seq_zero encoded_head_seq_zero
      \<and> frontier_key = DURABLE_FRONTIER_KEY
      \<and> is_encoded_empty_durable_frontier E encoded_empty_frontier)"
| "is_initialization_triple E _ = False"

definition is_database_identity_key :: "internal_index_space \<Rightarrow> bytes \<Rightarrow> bool" where
  "is_database_identity_key space key \<longleftrightarrow> space = SystemSpace \<and> key = DATABASE_IDENTITY_KEY"

fun validate_ordinary_mutation :: "index_mutation \<Rightarrow> unit index_res" where
  "validate_ordinary_mutation (InitializeDatabaseIdentity encoded) = Err index_invalid_batch"
| "validate_ordinary_mutation (PutUser user_key encoded_pointer) =
     (if user_key = [] \<or> encoded_pointer = [] then Err index_invalid_batch else Ok ())"
| "validate_ordinary_mutation (DeleteUser user_key) =
     (if user_key = [] then Err index_invalid_batch else Ok ())"
| "validate_ordinary_mutation (PutInternal space key val) =
     (if key = [] \<or> val = [] \<or> is_database_identity_key space key
      then Err index_invalid_batch else Ok ())"
| "validate_ordinary_mutation (DeleteInternal space key) =
     (if key = [] \<or> is_database_identity_key space key then Err index_invalid_batch else Ok ())"

fun is_initialization :: "index_mutation \<Rightarrow> bool" where
  "is_initialization (InitializeDatabaseIdentity encoded) = True"
| "is_initialization _ = False"

definition index_try_copy :: "env \<Rightarrow> alloc_site \<Rightarrow> bytes \<Rightarrow> bytes index_res" where
  "index_try_copy E site bs =
     (if can_alloc E site (length bs) then Ok bs else Err index_resource_exhausted)"

definition IndexAtomicBatch_new :: index_atomic_batch where
  "IndexAtomicBatch_new = \<lparr>ib_operations = []\<rparr>"

definition IndexAtomicBatch_try_with_capacity :: "env \<Rightarrow> usize \<Rightarrow> index_atomic_batch index_res" where
  "IndexAtomicBatch_try_with_capacity E capacity =
     (if can_alloc E ''IndexOperations'' capacity then Ok \<lparr>ib_operations = []\<rparr>
      else Err index_resource_exhausted)"

definition IndexAtomicBatch_initialize_database ::
  "env \<Rightarrow> bytes \<Rightarrow> bytes \<Rightarrow> bytes \<Rightarrow> index_atomic_batch index_res" where
  "IndexAtomicBatch_initialize_database E encoded_identity encoded_head_seq_zero
     encoded_empty_durable_frontier =
     (if \<not> is_valid_initial_database_identity E encoded_identity
         \<or> \<not> is_encoded_head_seq_zero encoded_head_seq_zero
         \<or> \<not> is_encoded_empty_durable_frontier E encoded_empty_durable_frontier
      then Err index_invalid_batch
      else if \<not> can_alloc E ''IndexOperations'' 3 then Err index_resource_exhausted
      else
        and_then (index_try_copy E ''StaticKey'' HEAD_SEQ_KEY) (\<lambda>head_seq_key.
        and_then (index_try_copy E ''StaticKey'' DURABLE_FRONTIER_KEY) (\<lambda>durable_frontier_key.
          Ok \<lparr>ib_operations =
                [InitializeDatabaseIdentity encoded_identity,
                 PutInternal SystemSpace head_seq_key encoded_head_seq_zero,
                 PutInternal SystemSpace durable_frontier_key encoded_empty_durable_frontier]\<rparr>)))"

definition IndexAtomicBatch_try_push ::
  "env \<Rightarrow> index_atomic_batch \<Rightarrow> index_mutation \<Rightarrow> index_atomic_batch index_res" where
  "IndexAtomicBatch_try_push E batch mutation =
     and_then (validate_ordinary_mutation mutation) (\<lambda>_.
       if can_alloc E ''IndexOperation'' (Suc (length (ib_operations batch)))
       then Ok \<lparr>ib_operations = ib_operations batch @ [mutation]\<rparr>
       else Err index_resource_exhausted)"

definition is_database_initialization :: "env \<Rightarrow> index_atomic_batch \<Rightarrow> bool" where
  "is_database_initialization E batch = is_initialization_triple E (ib_operations batch)"

fun validate_ordinary_mutations :: "index_mutation list \<Rightarrow> (unit, index_commit_error) result" where
  "validate_ordinary_mutations [] = Ok ()"
| "validate_ordinary_mutations (m # ms) =
     and_then (map_err IndexCommitError_not_applied (validate_ordinary_mutation m))
       (\<lambda>_. validate_ordinary_mutations ms)"

definition validate_for_commit ::
  "env \<Rightarrow> index_atomic_batch \<Rightarrow> index_commit_mode \<Rightarrow> (unit, index_commit_error) result" where
  "validate_for_commit E batch mode =
     (if ib_operations batch = [] then Err invalid_commit_batch
      else
        let initialization_count = length (filter is_initialization (ib_operations batch)) in
        if initialization_count = 0 then validate_ordinary_mutations (ib_operations batch)
        else if initialization_count \<noteq> 1 \<or> mode \<noteq> SyncAll
             \<or> \<not> is_initialization_triple E (ib_operations batch)
        then Err invalid_commit_batch else Ok ())"

definition initialization_identity :: "env \<Rightarrow> u32 \<Rightarrow> uuid \<Rightarrow> bytes" where
  "initialization_identity E database_format_version database_uuid =
     with_crc E (DATABASE_IDENTITY_MAGIC @ replicate 2 0 @ u32_to_le_bytes database_format_version
       @ uuid_bytes database_uuid @ replicate 2 0)"

definition initialization_frontier :: "env \<Rightarrow> bytes" where
  "initialization_frontier E = with_crc E (DURABLE_FRONTIER_MAGIC @ replicate 31 0)"

definition initialization_batch :: "env \<Rightarrow> u32 \<Rightarrow> uuid \<Rightarrow> index_atomic_batch index_res" where
  "initialization_batch E database_format_version database_uuid =
     (if database_format_version \<noteq> 0 \<or> database_uuid = 0 then Err index_invalid_batch
      else
        and_then (index_try_copy E ''Fixed''
                   (initialization_identity E database_format_version database_uuid)) (\<lambda>identity.
        and_then (index_try_copy E ''Fixed'' (replicate 8 0)) (\<lambda>head_seq.
        and_then (index_try_copy E ''Fixed'' (initialization_frontier E)) (\<lambda>frontier.
          IndexAtomicBatch_initialize_database E identity head_seq frontier))))"

section \<open>Key ranges\<close>

datatype bound = Included bytes | Excluded bytes | Unbounded

record user_key_range =
  ur_start :: bound
  ur_end :: bound

definition UserKeyRange_all :: user_key_range where
  "UserKeyRange_all = \<lparr>ur_start = Unbounded, ur_end = Unbounded\<rparr>"

definition UserKeyRange_from_inclusive :: "bytes \<Rightarrow> user_key_range" where
  "UserKeyRange_from_inclusive start = \<lparr>ur_start = Included start, ur_end = Unbounded\<rparr>"

definition UserKeyRange_after :: "bytes \<Rightarrow> user_key_range" where
  "UserKeyRange_after start = \<lparr>ur_start = Excluded start, ur_end = Unbounded\<rparr>"

definition UserKeyRange_before :: "bytes \<Rightarrow> user_key_range" where
  "UserKeyRange_before stop = \<lparr>ur_start = Unbounded, ur_end = Excluded stop\<rparr>"

definition UserKeyRange_forward :: "bytes option \<Rightarrow> bytes option \<Rightarrow> user_key_range" where
  "UserKeyRange_forward start stop =
     \<lparr>ur_start = (case start of None \<Rightarrow> Unbounded | Some k \<Rightarrow> Included k),
      ur_end = (case stop of None \<Rightarrow> Unbounded | Some k \<Rightarrow> Excluded k)\<rparr>"

fun after_start :: "bound \<Rightarrow> bytes \<Rightarrow> bool" where
  "after_start (Included start) key = (key \<ge> start)"
| "after_start (Excluded start) key = (key > start)"
| "after_start Unbounded key = True"

fun before_end :: "bound \<Rightarrow> bytes \<Rightarrow> bool" where
  "before_end (Included stop) key = (key \<le> stop)"
| "before_end (Excluded stop) key = (key < stop)"
| "before_end Unbounded key = True"

definition UserKeyRange_contains :: "user_key_range \<Rightarrow> bytes \<Rightarrow> bool" where
  "UserKeyRange_contains rng key \<longleftrightarrow>
     after_start (ur_start rng) key \<and> before_end (ur_end rng) key"

record internal_key_range =
  ir_start_inclusive :: "bytes option"
  ir_end_exclusive :: "bytes option"

definition InternalKeyRange_all :: internal_key_range where
  "InternalKeyRange_all = \<lparr>ir_start_inclusive = None, ir_end_exclusive = None\<rparr>"

definition InternalKeyRange_new :: "bytes option \<Rightarrow> bytes option \<Rightarrow> internal_key_range index_res" where
  "InternalKeyRange_new start_inclusive end_exclusive =
     (case (start_inclusive, end_exclusive) of
        (Some start, Some stop) \<Rightarrow>
          if start > stop then Err index_invalid_batch
          else Ok \<lparr>ir_start_inclusive = start_inclusive, ir_end_exclusive = end_exclusive\<rparr>
      | _ \<Rightarrow> Ok \<lparr>ir_start_inclusive = start_inclusive, ir_end_exclusive = end_exclusive\<rparr>)"

record index_entry =
  en_key :: bytes
  en_value :: bytes

section \<open>The store behind the adapter\<close>

text \<open>
  The calls the adapter makes on the crate. A keyspace handle is one of the three the adapter
  opens; an error carries its variant and, for \<open>source()\<close>, the chain of the error and its causes,
  each either an I/O error with its OS code or something else.
\<close>

datatype keyspace = UserKeyspace | TransactionKeyspace | SystemKeyspace

datatype persist_mode = PersistBuffer | PersistSyncAll

datatype keyspace_write = KsInsert keyspace bytes bytes | KsRemove keyspace bytes

datatype fjall_variant =
  FjIo | FjStorage | FjJournalRecovery | FjDecompress | FjInvalidTrailer | FjInvalidTag
| FjInvalidVersion | FjPoisoned | FjKeyspaceDeleted | FjLocked | FjUnrecoverable | FjOther

record fjall_error =
  fe_variant :: fjall_variant
  fe_sources :: "int option option list"

record 'db fjall_ops =
  fj_get :: "'db \<Rightarrow> keyspace \<Rightarrow> bytes \<Rightarrow> (bytes option, fjall_error) result"
  fj_is_empty :: "'db \<Rightarrow> keyspace \<Rightarrow> (bool, fjall_error) result"
  fj_range :: "'db \<Rightarrow> keyspace \<Rightarrow> bound \<Rightarrow> bound \<Rightarrow> (bytes \<times> bytes, fjall_error) result list"
  fj_commit :: "'db \<Rightarrow> persist_mode \<Rightarrow> keyspace_write list \<Rightarrow> 'db \<times> (unit, fjall_error) result"

fun find_io_error :: "int option option list \<Rightarrow> int option option" where
  "find_io_error [] = None"
| "find_io_error (Some os_code # sources) = Some os_code"
| "find_io_error (None # sources) = find_io_error sources"

definition classify_fjall_error :: "fjall_error \<Rightarrow> storage_error_kind" where
  "classify_fjall_error error =
     (case fe_variant error of
        FjIo \<Rightarrow> Io
      | FjStorage \<Rightarrow> if find_io_error (fe_sources error) \<noteq> None then Io else Corruption
      | FjJournalRecovery \<Rightarrow> if find_io_error (fe_sources error) \<noteq> None then Io else Corruption
      | FjDecompress \<Rightarrow> Corruption
      | FjInvalidTrailer \<Rightarrow> Corruption
      | FjInvalidTag \<Rightarrow> Corruption
      | FjInvalidVersion \<Rightarrow> IncompatibleFormat
      | FjPoisoned \<Rightarrow> StoragePoisoned
      | FjKeyspaceDeleted \<Rightarrow> InvalidLayout
      | FjLocked \<Rightarrow> Busy
      | FjUnrecoverable \<Rightarrow> Unrecoverable
      | FjOther \<Rightarrow> Unrecoverable)"

definition internal_error_from_fjall :: "fjall_error \<Rightarrow> internal_index_error" where
  "internal_error_from_fjall error =
     InternalIndexError_new (classify_fjall_error error)
       (case find_io_error (fe_sources error) of None \<Rightarrow> None | Some os_code \<Rightarrow> os_code)"

definition sanitized_storage_error ::
  "storage_error_kind \<Rightarrow> int option \<Rightarrow> operation \<Rightarrow> protocol_stage \<Rightarrow> storage_error" where
  "sanitized_storage_error kind os_code operation stage =
     (codec_error kind operation stage
        (if operation = Op_WriteBatch \<or> operation = Op_Sync then Some NotCommitted else None)
        (if kind = InvalidArgument then FixRequestAndRetrySameInstance
         else if kind = Busy then RetrySameInstance
         else if kind = Io then FixEnvironmentAndReopen
         else if kind = StoragePoisoned then ReopenAndVerify
         else if kind \<in> {Corruption, InvalidLayout, IncompatibleFormat, Unrecoverable}
         then RestoreOrRepair
         else DoNotRetry))\<lparr>err_os_code := os_code\<rparr>"

definition storage_error_from_fjall ::
  "fjall_error \<Rightarrow> operation \<Rightarrow> protocol_stage \<Rightarrow> storage_error" where
  "storage_error_from_fjall error operation stage =
     sanitized_storage_error (classify_fjall_error error)
       (case find_io_error (fe_sources error) of None \<Rightarrow> None | Some os_code \<Rightarrow> os_code)
       operation stage"

definition fjall_try_copy_bytes ::
  "env \<Rightarrow> bytes \<Rightarrow> operation \<Rightarrow> protocol_stage \<Rightarrow> bytes res" where
  "fjall_try_copy_bytes E bs operation stage =
     and_then (try_reserve E ''FjallCopy'' (length bs)
                (sanitized_storage_error ResourceExhausted None operation stage)) (\<lambda>_. Ok bs)"

section \<open>The adapter\<close>

record 'db fjall_snapshot =
  sn_inner :: 'db
  sn_owner :: nat

record 'db fjall_backend =
  fb_database :: 'db
  fb_snapshot_owner :: nat
  fb_commit_lock_poisoned :: bool

fun space_keyspace :: "internal_index_space \<Rightarrow> keyspace" where
  "space_keyspace TransactionSpace = TransactionKeyspace"
| "space_keyspace SystemSpace = SystemKeyspace"

fun ensure_keyspaces_empty ::
  "'db fjall_ops \<Rightarrow> 'db \<Rightarrow> keyspace list \<Rightarrow> (unit, index_commit_error) result" where
  "ensure_keyspaces_empty F db [] = Ok ()"
| "ensure_keyspaces_empty F db (ks # rest) =
     and_then (map_err (\<lambda>error. IndexCommitError_not_applied (internal_error_from_fjall error))
                (fj_is_empty F db ks)) (\<lambda>is_empty.
       if is_empty then ensure_keyspaces_empty F db rest
       else Err (IndexCommitError_not_applied (InternalIndexError_new InvalidLayout None)))"

definition ensure_initialization_keyspaces_are_empty ::
  "'db fjall_ops \<Rightarrow> 'db \<Rightarrow> (unit, index_commit_error) result" where
  "ensure_initialization_keyspaces_are_empty F db =
     ensure_keyspaces_empty F db [UserKeyspace, TransactionKeyspace, SystemKeyspace]"

definition ensure_identity_is_initialized ::
  "'db fjall_ops \<Rightarrow> 'db \<Rightarrow> (unit, index_commit_error) result" where
  "ensure_identity_is_initialized F db =
     (case fj_get F db SystemKeyspace DATABASE_IDENTITY_KEY of
        Ok (Some _) \<Rightarrow> Ok ()
      | Ok None \<Rightarrow> Err (IndexCommitError_not_applied (InternalIndexError_new InvalidLayout None))
      | Err error \<Rightarrow> Err (IndexCommitError_not_applied (internal_error_from_fjall error)))"

fun keyspace_write_of :: "index_mutation \<Rightarrow> keyspace_write" where
  "keyspace_write_of (InitializeDatabaseIdentity encoded_identity) =
     KsInsert SystemKeyspace DATABASE_IDENTITY_KEY encoded_identity"
| "keyspace_write_of (PutUser user_key encoded_pointer) = KsInsert UserKeyspace user_key encoded_pointer"
| "keyspace_write_of (DeleteUser user_key) = KsRemove UserKeyspace user_key"
| "keyspace_write_of (PutInternal space key val) = KsInsert (space_keyspace space) key val"
| "keyspace_write_of (DeleteInternal space key) = KsRemove (space_keyspace space) key"

fun persist_mode_of :: "index_commit_mode \<Rightarrow> persist_mode" where
  "persist_mode_of Buffer = PersistBuffer"
| "persist_mode_of SyncAll = PersistSyncAll"

definition commit_preconditions ::
  "env \<Rightarrow> 'db fjall_ops \<Rightarrow> index_atomic_batch \<Rightarrow> index_commit_mode \<Rightarrow> 'db fjall_backend \<Rightarrow>
   (unit, index_commit_error) result" where
  "commit_preconditions E F batch mode s =
     and_then (validate_for_commit E batch mode) (\<lambda>_.
       if fb_commit_lock_poisoned s
       then Err (IndexCommitError_not_applied (InternalIndexError_new StoragePoisoned None))
       else if is_database_initialization E batch
       then ensure_initialization_keyspaces_are_empty F (fb_database s)
       else ensure_identity_is_initialized F (fb_database s))"

definition FjallBackend_commit_atomic ::
  "env \<Rightarrow> 'db fjall_ops \<Rightarrow> index_atomic_batch \<Rightarrow> index_commit_mode \<Rightarrow> 'db fjall_backend \<Rightarrow>
   'db fjall_backend \<times> (unit, index_commit_error) result" where
  "FjallBackend_commit_atomic E F batch mode s =
     (case commit_preconditions E F batch mode s of
        Err error \<Rightarrow> (s, Err error)
      | Ok _ \<Rightarrow>
          (case fj_commit F (fb_database s) (persist_mode_of mode)
                  (map keyspace_write_of (ib_operations batch)) of
             (db, outcome) \<Rightarrow>
               (s\<lparr>fb_database := db\<rparr>,
                map_err (\<lambda>error. IndexCommitError_unknown (internal_error_from_fjall error)) outcome)))"

definition copy_value ::
  "env \<Rightarrow> operation \<Rightarrow> protocol_stage \<Rightarrow> (bytes option, fjall_error) result \<Rightarrow> bytes option res" where
  "copy_value E operation stage fetched =
     and_then (map_err (\<lambda>error. storage_error_from_fjall error operation stage) fetched) (\<lambda>v.
       case v of
         None \<Rightarrow> Ok None
       | Some bs \<Rightarrow> map_ok Some (fjall_try_copy_bytes E bs operation stage))"

definition FjallBackend_get_database_identity ::
  "env \<Rightarrow> 'db fjall_ops \<Rightarrow> 'db fjall_backend \<Rightarrow> bytes option res" where
  "FjallBackend_get_database_identity E F s =
     copy_value E Op_Open Preflight (fj_get F (fb_database s) SystemKeyspace DATABASE_IDENTITY_KEY)"

definition validate_snapshot ::
  "'db fjall_backend \<Rightarrow> 'db fjall_snapshot \<Rightarrow> operation \<Rightarrow> unit res" where
  "validate_snapshot s snapshot operation =
     (if fb_snapshot_owner s = sn_owner snapshot then Ok ()
      else Err (sanitized_storage_error InvalidArgument None operation ReadStage))"

definition read_database ::
  "'db fjall_backend \<Rightarrow> 'db fjall_snapshot option \<Rightarrow> operation \<Rightarrow> 'db res" where
  "read_database s snapshot operation =
     (case snapshot of
        Some sn \<Rightarrow> and_then (validate_snapshot s sn operation) (\<lambda>_. Ok (sn_inner sn))
      | None \<Rightarrow> Ok (fb_database s))"

definition FjallBackend_get_user ::
  "env \<Rightarrow> 'db fjall_ops \<Rightarrow> 'db fjall_backend \<Rightarrow> bytes \<Rightarrow> 'db fjall_snapshot option \<Rightarrow>
   bytes option res" where
  "FjallBackend_get_user E F s key snapshot =
     and_then (read_database s snapshot Op_Get) (\<lambda>db.
       copy_value E Op_Get ReadStage (fj_get F db UserKeyspace key))"

definition FjallBackend_get_internal ::
  "env \<Rightarrow> 'db fjall_ops \<Rightarrow> 'db fjall_backend \<Rightarrow> internal_index_space \<Rightarrow> bytes \<Rightarrow> bytes option res" where
  "FjallBackend_get_internal E F s space key =
     copy_value E Op_Recovery RecoveryStage (fj_get F (fb_database s) (space_keyspace space) key)"

definition guard_to_entry ::
  "env \<Rightarrow> operation \<Rightarrow> protocol_stage \<Rightarrow> (bytes \<times> bytes, fjall_error) result \<Rightarrow> index_entry res" where
  "guard_to_entry E operation stage guard =
     and_then (map_err (\<lambda>error. storage_error_from_fjall error operation stage) guard) (\<lambda>(key, val).
     and_then (fjall_try_copy_bytes E key operation stage) (\<lambda>key'.
     and_then (fjall_try_copy_bytes E val operation stage) (\<lambda>val'.
       Ok \<lparr>en_key = key', en_value = val'\<rparr>)))"

text \<open>An iterator is the list of what its successive \<open>next\<close> calls return.\<close>

definition FjallBackend_scan_internal ::
  "env \<Rightarrow> 'db fjall_ops \<Rightarrow> 'db fjall_backend \<Rightarrow> internal_index_space \<Rightarrow> internal_key_range \<Rightarrow>
   index_entry res list res" where
  "FjallBackend_scan_internal E F s space rng =
     Ok (map (guard_to_entry E Op_Recovery RecoveryStage)
          (fj_range F (fb_database s) (space_keyspace space)
             (case ir_start_inclusive rng of None \<Rightarrow> Unbounded | Some k \<Rightarrow> Included k)
             (case ir_end_exclusive rng of None \<Rightarrow> Unbounded | Some k \<Rightarrow> Excluded k)))"

definition FjallBackend_snapshot :: "'db fjall_backend \<Rightarrow> 'db fjall_snapshot res" where
  "FjallBackend_snapshot s = Ok \<lparr>sn_inner = fb_database s, sn_owner = fb_snapshot_owner s\<rparr>"

definition FjallBackend_iter_user ::
  "env \<Rightarrow> 'db fjall_ops \<Rightarrow> 'db fjall_backend \<Rightarrow> 'db fjall_snapshot option \<Rightarrow>
   index_entry res list res" where
  "FjallBackend_iter_user E F s snapshot =
     and_then (read_database s snapshot Op_Iterator) (\<lambda>db.
       Ok (map (guard_to_entry E Op_Iterator ReadStage)
            (fj_range F db UserKeyspace Unbounded Unbounded)))"

definition FjallBackend_iter_user_range ::
  "env \<Rightarrow> 'db fjall_ops \<Rightarrow> 'db fjall_backend \<Rightarrow> 'db fjall_snapshot option \<Rightarrow> user_key_range \<Rightarrow>
   index_entry res list res" where
  "FjallBackend_iter_user_range E F s snapshot rng =
     and_then (read_database s snapshot Op_Iterator) (\<lambda>db.
       Ok (map (guard_to_entry E Op_Iterator ReadStage)
            (fj_range F db UserKeyspace (ur_start rng) (ur_end rng))))"

text \<open>The trait's own implementation of the range iterator, for backends without one.\<close>

definition default_iter_user_range ::
  "index_entry res list res \<Rightarrow> user_key_range \<Rightarrow> index_entry res list res" where
  "default_iter_user_range iterator rng =
     map_ok (filter (\<lambda>entry. case entry of
        Ok e \<Rightarrow> UserKeyRange_contains rng (en_key e) | Err _ \<Rightarrow> True)) iterator"

section \<open>The late-bound backend\<close>

record 'db late_bound_backend =
  lb_backend :: "'db fjall_backend option"

definition late_bound_backend_error :: "operation \<Rightarrow> protocol_stage \<Rightarrow> storage_error" where
  "late_bound_backend_error operation stage =
     codec_error StoragePoisoned operation stage None ReopenAndVerify"

definition LateBound_new :: "'db late_bound_backend" where
  "LateBound_new = \<lparr>lb_backend = None\<rparr>"

definition LateBound_bind ::
  "'db late_bound_backend \<Rightarrow> 'db fjall_backend \<Rightarrow>
   'db late_bound_backend \<times> (unit, 'db fjall_backend) result" where
  "LateBound_bind l backend =
     (case lb_backend l of
        None \<Rightarrow> (\<lparr>lb_backend = Some backend\<rparr>, Ok ())
      | Some _ \<Rightarrow> (l, Err backend))"

definition LateBound_backend ::
  "'db late_bound_backend \<Rightarrow> operation \<Rightarrow> protocol_stage \<Rightarrow> 'db fjall_backend res" where
  "LateBound_backend l operation stage =
     ok_or (lb_backend l) (late_bound_backend_error operation stage)"

definition LateBound_commit_atomic ::
  "env \<Rightarrow> 'db fjall_ops \<Rightarrow> index_atomic_batch \<Rightarrow> index_commit_mode \<Rightarrow> 'db late_bound_backend \<Rightarrow>
   'db late_bound_backend \<times> (unit, index_commit_error) result" where
  "LateBound_commit_atomic E F batch mode l =
     (case lb_backend l of
        None \<Rightarrow> (l, Err (IndexCommitError_not_applied (InternalIndexError_new StoragePoisoned None)))
      | Some s \<Rightarrow>
          (case FjallBackend_commit_atomic E F batch mode s of
             (s', outcome) \<Rightarrow> (\<lparr>lb_backend = Some s'\<rparr>, outcome)))"

definition LateBound_get_user ::
  "env \<Rightarrow> 'db fjall_ops \<Rightarrow> 'db late_bound_backend \<Rightarrow> bytes \<Rightarrow> 'db fjall_snapshot option \<Rightarrow>
   bytes option res" where
  "LateBound_get_user E F l key snapshot =
     and_then (LateBound_backend l Op_Get ReadStage) (\<lambda>s. FjallBackend_get_user E F s key snapshot)"

definition LateBound_get_internal ::
  "env \<Rightarrow> 'db fjall_ops \<Rightarrow> 'db late_bound_backend \<Rightarrow> internal_index_space \<Rightarrow> bytes \<Rightarrow>
   bytes option res" where
  "LateBound_get_internal E F l space key =
     and_then (LateBound_backend l Op_Recovery RecoveryStage) (\<lambda>s.
       FjallBackend_get_internal E F s space key)"

definition LateBound_get_database_identity ::
  "env \<Rightarrow> 'db fjall_ops \<Rightarrow> 'db late_bound_backend \<Rightarrow> bytes option res" where
  "LateBound_get_database_identity E F l =
     and_then (LateBound_backend l Op_Open Preflight) (FjallBackend_get_database_identity E F)"

definition LateBound_scan_internal ::
  "env \<Rightarrow> 'db fjall_ops \<Rightarrow> 'db late_bound_backend \<Rightarrow> internal_index_space \<Rightarrow> internal_key_range \<Rightarrow>
   index_entry res list res" where
  "LateBound_scan_internal E F l space rng =
     and_then (LateBound_backend l Op_Recovery RecoveryStage) (\<lambda>s.
       FjallBackend_scan_internal E F s space rng)"

definition LateBound_snapshot :: "'db late_bound_backend \<Rightarrow> 'db fjall_snapshot res" where
  "LateBound_snapshot l = and_then (LateBound_backend l Op_Snapshot ReadStage) FjallBackend_snapshot"

definition LateBound_iter_user ::
  "env \<Rightarrow> 'db fjall_ops \<Rightarrow> 'db late_bound_backend \<Rightarrow> 'db fjall_snapshot option \<Rightarrow>
   index_entry res list res" where
  "LateBound_iter_user E F l snapshot =
     and_then (LateBound_backend l Op_Iterator ReadStage) (\<lambda>s. FjallBackend_iter_user E F s snapshot)"

definition LateBound_iter_user_range ::
  "env \<Rightarrow> 'db fjall_ops \<Rightarrow> 'db late_bound_backend \<Rightarrow> 'db fjall_snapshot option \<Rightarrow> user_key_range \<Rightarrow>
   index_entry res list res" where
  "LateBound_iter_user_range E F l snapshot rng =
     and_then (LateBound_backend l Op_Iterator ReadStage) (\<lambda>s.
       FjallBackend_iter_user_range E F s snapshot rng)"

section \<open>Options of the adapter\<close>

datatype index_compression = NoCompression | Lz4

record fjall_index_options =
  fo_write_buffer_size :: usize
  fo_max_open_files :: usize
  fo_block_cache_size :: usize
  fo_block_size :: usize
  fo_block_restart_interval :: usize
  fo_max_file_size :: usize
  fo_compression :: index_compression

record validated_options =
  vo_original :: fjall_index_options
  vo_write_buffer_size :: u64
  vo_block_cache_size :: u64
  vo_block_size :: u32
  vo_block_restart_interval :: u8
  vo_max_file_size :: u64
  vo_compression :: index_compression

definition u8_try_from :: "nat \<Rightarrow> u8 option" where
  "u8_try_from n = (if n < 2 ^ 8 then Some (word_of_nat n) else None)"

definition open_invalid_argument :: storage_error where
  "open_invalid_argument = sanitized_storage_error InvalidArgument None Op_Open Preflight"

definition validate_options :: "fjall_index_options \<Rightarrow> validated_options res" where
  "validate_options options =
     and_then (ok_or (u64_try_from (fo_max_file_size options)) open_invalid_argument) (\<lambda>max_file_size.
       if fo_write_buffer_size options = 0
          \<or> fo_max_open_files options < 10
          \<or> \<not> (1024 \<le> fo_block_size options \<and> fo_block_size options \<le> 4 * 1024 * 1024)
          \<or> fo_block_restart_interval options = 0
          \<or> fo_block_restart_interval options > 255
          \<or> max_file_size = 0
          \<or> max_file_size > (- 1) div 4
       then Err open_invalid_argument
       else
         and_then (ok_or (u64_try_from (fo_write_buffer_size options)) open_invalid_argument) (\<lambda>wbs.
         and_then (ok_or (u64_try_from (fo_block_cache_size options)) open_invalid_argument) (\<lambda>bcs.
         and_then (ok_or (u32_try_from (fo_block_size options)) open_invalid_argument) (\<lambda>bs.
         and_then (ok_or (u8_try_from (fo_block_restart_interval options)) open_invalid_argument) (\<lambda>ri.
           Ok \<lparr>vo_original = options, vo_write_buffer_size = wbs, vo_block_cache_size = bcs,
               vo_block_size = bs, vo_block_restart_interval = ri,
               vo_max_file_size = max_file_size, vo_compression = fo_compression options\<rparr>)))))"

section \<open>What the index holds\<close>

text \<open>The three keyspaces as finite maps, and the effect of the writes of a batch on them.\<close>

type_synonym index_view = "keyspace \<Rightarrow> bytes \<Rightarrow> bytes option"

fun apply_write :: "keyspace_write \<Rightarrow> index_view \<Rightarrow> index_view" where
  "apply_write (KsInsert ks k v) V = V(ks := (V ks)(k \<mapsto> v))"
| "apply_write (KsRemove ks k) V = V(ks := (V ks)(k := None))"

definition apply_writes :: "keyspace_write list \<Rightarrow> index_view \<Rightarrow> index_view" where
  "apply_writes ws V = fold apply_write ws V"

fun write_target :: "keyspace_write \<Rightarrow> keyspace \<times> bytes" where
  "write_target (KsInsert ks k v) = (ks, k)"
| "write_target (KsRemove ks k) = (ks, k)"

fun write_result :: "keyspace_write \<Rightarrow> bytes option" where
  "write_result (KsInsert ks k v) = Some v"
| "write_result (KsRemove ks k) = None"

definition batch_writes :: "index_atomic_batch \<Rightarrow> keyspace_write list" where
  "batch_writes b = map keyspace_write_of (ib_operations b)"

definition distinct_targets :: "keyspace_write list \<Rightarrow> bool" where
  "distinct_targets ws \<longleftrightarrow> distinct (map write_target ws)"

lemma apply_write_other: "write_target w \<noteq> (ks, k) \<Longrightarrow> apply_write w V ks k = V ks k"
  by (cases w) auto

lemma apply_write_same: "write_target w = (ks, k) \<Longrightarrow> apply_write w V ks k = write_result w"
  by (cases w) auto

lemma apply_writes_other: "(ks, k) \<notin> write_target ` set ws \<Longrightarrow> apply_writes ws V ks k = V ks k"
  unfolding apply_writes_def by (induction ws arbitrary: V) (auto simp: apply_write_other)

lemma apply_writes_same:
  "distinct_targets ws \<Longrightarrow> w \<in> set ws \<Longrightarrow> write_target w = (ks, k) \<Longrightarrow>
   apply_writes ws V ks k = write_result w"
proof (induction ws arbitrary: V)
  case (Cons x ws)
  show ?case
  proof (cases "w = x")
    case True
    then have "(ks, k) \<notin> write_target ` set ws" using Cons.prems by (auto simp: distinct_targets_def)
    with True Cons.prems show ?thesis
      by (simp add: apply_writes_def apply_writes_other [unfolded apply_writes_def] apply_write_same)
  qed (use Cons in \<open>auto simp: apply_writes_def distinct_targets_def\<close>)
qed simp

text \<open>
  What the adapter relies on of the store: reads return what is stored, a commit applies all its
  writes or, when it reports an error, possibly none of them, and an iteration without errors
  returns the entries between its bounds in key order. Batches that name a key twice are left
  open.
\<close>

locale fjall_store =
  fixes F :: "'db fjall_ops"
    and view :: "'db \<Rightarrow> index_view"
  assumes get_view: "fj_get F db ks k = Ok v \<Longrightarrow> v = view db ks k"
    and is_empty_view: "fj_is_empty F db ks = Ok b \<Longrightarrow> b \<longleftrightarrow> view db ks = Map.empty"
    and commit_Ok: "distinct_targets ws \<Longrightarrow> fj_commit F db m ws = (db', Ok ()) \<Longrightarrow>
      view db' = apply_writes ws (view db)"
    and commit_Err: "distinct_targets ws \<Longrightarrow> fj_commit F db m ws = (db', Err e) \<Longrightarrow>
      view db' \<in> {view db, apply_writes ws (view db)}"
    and range_sorted: "fj_range F db ks lo hi = map Ok es \<Longrightarrow> sorted_wrt (<) (map fst es)"
    and range_entries: "fj_range F db ks lo hi = map Ok es \<Longrightarrow>
      (k, x) \<in> set es \<longleftrightarrow> view db ks k = Some x \<and> after_start lo k \<and> before_end hi k"

text \<open>
  The contract of the trait: a commit that succeeds has applied its batch, one that reports
  \<open>NotApplied\<close> has changed nothing, one that reports \<open>Unknown\<close> is one or the other; reads return
  what the keyspaces hold.
\<close>

locale index_backend =
  fixes commit :: "index_atomic_batch \<Rightarrow> index_commit_mode \<Rightarrow> 's \<Rightarrow> 's \<times> (unit, index_commit_error) result"
    and get_user :: "'s \<Rightarrow> bytes \<Rightarrow> bytes option res"
    and get_internal :: "'s \<Rightarrow> internal_index_space \<Rightarrow> bytes \<Rightarrow> bytes option res"
    and iview :: "'s \<Rightarrow> index_view"
  assumes commit_applies: "distinct_targets (batch_writes b) \<Longrightarrow> commit b m s = (s', Ok ()) \<Longrightarrow>
      iview s' = apply_writes (batch_writes b) (iview s)"
    and commit_not_applied: "commit b m s = (s', Err e) \<Longrightarrow> ce_apply_state e = NotApplied \<Longrightarrow>
      iview s' = iview s"
    and commit_unknown: "distinct_targets (batch_writes b) \<Longrightarrow> commit b m s = (s', Err e) \<Longrightarrow>
      iview s' \<in> {iview s, apply_writes (batch_writes b) (iview s)}"
    and get_user_view: "get_user s k = Ok v \<Longrightarrow> v = iview s UserKeyspace k"
    and get_internal_view: "get_internal s space k = Ok v \<Longrightarrow> v = iview s (space_keyspace space) k"
begin

lemma commit_outcomes:
  assumes "distinct_targets (batch_writes b)" "commit b m s = (s', r)"
  shows "iview s' = iview s \<or> iview s' = apply_writes (batch_writes b) (iview s)"
  using assms commit_applies [of b m s s'] commit_unknown [of b m s s'] by (cases r) fastforce+

lemma commit_keeps_others:
  assumes "distinct_targets (batch_writes b)" "commit b m s = (s', r)"
    and "(ks, k) \<notin> write_target ` set (batch_writes b)"
  shows "iview s' ks k = iview s ks k"
  using commit_outcomes [OF assms(1,2)] apply_writes_other [OF assms(3)] by auto

lemma get_user_after_commit:
  assumes "distinct_targets (batch_writes b)" "commit b m s = (s', Ok ())"
    and "op \<in> set (ib_operations b)" "write_target (keyspace_write_of op) = (UserKeyspace, k)"
    and "get_user s' k = Ok v"
  shows "v = write_result (keyspace_write_of op)"
  using get_user_view [OF assms(5)] commit_applies [OF assms(1,2)]
    apply_writes_same [OF assms(1), of "keyspace_write_of op" UserKeyspace k] assms(3,4)
  by (simp add: batch_writes_def)

end

lemma copy_value_Ok: "copy_value E operation stage r = Ok v \<Longrightarrow> r = Ok v"
  by (auto simp: copy_value_def result_simps fjall_try_copy_bytes_def split: option.splits)

lemma commit_atomic_cases:
  "FjallBackend_commit_atomic E F b m s = (s', r) \<longleftrightarrow>
    (case commit_preconditions E F b m s of
       Err e \<Rightarrow> s' = s \<and> r = Err e
     | Ok _ \<Rightarrow> (\<exists>db' out. fj_commit F (fb_database s) (persist_mode_of m) (batch_writes b) = (db', out)
         \<and> s' = s\<lparr>fb_database := db'\<rparr>
         \<and> map_err (\<lambda>e. IndexCommitError_unknown (internal_error_from_fjall e)) out = r))"
  by (auto simp: FjallBackend_commit_atomic_def batch_writes_def split: result.splits prod.splits)

lemma validate_ordinary_mutations_Err:
  "validate_ordinary_mutations ms = Err e \<Longrightarrow> ce_apply_state e = NotApplied"
  by (induction ms) (auto simp: result_simps IndexCommitError_not_applied_def)

lemma ensure_keyspaces_empty_Err:
  "ensure_keyspaces_empty F db kss = Err e \<Longrightarrow> ce_apply_state e = NotApplied"
  by (induction kss) (auto simp: result_simps IndexCommitError_not_applied_def split: if_splits)

lemma commit_preconditions_Err:
  "commit_preconditions E F b m s = Err e \<Longrightarrow> ce_apply_state e = NotApplied"
  by (auto simp: commit_preconditions_def validate_for_commit_def result_simps Let_def
      ensure_initialization_keyspaces_are_empty_def ensure_identity_is_initialized_def
      IndexCommitError_not_applied_def invalid_commit_batch_def
      dest: validate_ordinary_mutations_Err ensure_keyspaces_empty_Err
      split: if_splits result.splits option.splits)

context fjall_store
begin

lemma backend_laws:
  "distinct_targets (batch_writes b) \<Longrightarrow> FjallBackend_commit_atomic E F b m s = (s', Ok ()) \<Longrightarrow>
     view (fb_database s') = apply_writes (batch_writes b) (view (fb_database s))"
  "FjallBackend_commit_atomic E F b m s = (s', Err e) \<Longrightarrow> ce_apply_state e = NotApplied \<Longrightarrow>
     view (fb_database s') = view (fb_database s)"
  "distinct_targets (batch_writes b) \<Longrightarrow> FjallBackend_commit_atomic E F b m s = (s', Err e) \<Longrightarrow>
     view (fb_database s') \<in> {view (fb_database s), apply_writes (batch_writes b) (view (fb_database s))}"
  "FjallBackend_get_user E F s k None = Ok v \<Longrightarrow> v = view (fb_database s) UserKeyspace k"
  "FjallBackend_get_internal E F s space k = Ok v \<Longrightarrow> v = view (fb_database s) (space_keyspace space) k"
  by (auto simp: commit_atomic_cases result_simps IndexCommitError_unknown_def read_database_def
      FjallBackend_get_user_def FjallBackend_get_internal_def
      dest: commit_Ok commit_Err get_view copy_value_Ok split: result.splits)

end

sublocale fjall_store \<subseteq> fb: index_backend "FjallBackend_commit_atomic E F"
  "\<lambda>s k. FjallBackend_get_user E F s k None" "FjallBackend_get_internal E F" "\<lambda>s. view (fb_database s)"
  for E
  by unfold_locales (rule backend_laws, assumption+)+


lemma validate_ordinary_mutation_target:
  "validate_ordinary_mutation op = Ok u \<Longrightarrow>
   write_target (keyspace_write_of op) \<noteq> (SystemKeyspace, DATABASE_IDENTITY_KEY)"
  by (cases op) (auto simp: is_database_identity_key_def split: if_splits elim: space_keyspace.elims)

lemma validate_ordinary_mutations_Ok:
  "validate_ordinary_mutations ms = Ok u \<longleftrightarrow> (\<forall>op \<in> set ms. validate_ordinary_mutation op = Ok ())"
  by (induction ms) (auto simp: result_simps)

lemma ordinary_batch_targets:
  assumes "validate_for_commit E b m = Ok u" "\<not> is_database_initialization E b"
  shows "(SystemKeyspace, DATABASE_IDENTITY_KEY) \<notin> write_target ` set (batch_writes b)"
proof -
  have "\<forall>op \<in> set (ib_operations b). validate_ordinary_mutation op = Ok ()"
    using assms by (auto simp: validate_for_commit_def is_database_initialization_def Let_def
        validate_ordinary_mutations_Ok split: if_splits)
  then show ?thesis
    using validate_ordinary_mutation_target by (force simp: batch_writes_def)
qed

definition late_view :: "('db \<Rightarrow> index_view) \<Rightarrow> 'db late_bound_backend \<Rightarrow> index_view" where
  "late_view view l = (case lb_backend l of None \<Rightarrow> (\<lambda>_. Map.empty) | Some s \<Rightarrow> view (fb_database s))"

context fjall_store
begin

lemma late_bound_laws:
  "distinct_targets (batch_writes b) \<Longrightarrow> LateBound_commit_atomic E F b m l = (l', Ok ()) \<Longrightarrow>
     late_view view l' = apply_writes (batch_writes b) (late_view view l)"
  "LateBound_commit_atomic E F b m l = (l', Err e) \<Longrightarrow> ce_apply_state e = NotApplied \<Longrightarrow>
     late_view view l' = late_view view l"
  "distinct_targets (batch_writes b) \<Longrightarrow> LateBound_commit_atomic E F b m l = (l', Err e) \<Longrightarrow>
     late_view view l' \<in> {late_view view l, apply_writes (batch_writes b) (late_view view l)}"
  "LateBound_get_user E F l k None = Ok v \<Longrightarrow> v = late_view view l UserKeyspace k"
  "LateBound_get_internal E F l space k = Ok v \<Longrightarrow> v = late_view view l (space_keyspace space) k"
  using backend_laws
  by (fastforce simp: LateBound_commit_atomic_def LateBound_get_user_def LateBound_get_internal_def
      LateBound_backend_def late_view_def result_simps split: option.splits prod.splits)+

lemma commit_keeps_identity:
  assumes "FjallBackend_commit_atomic E F b m s = (s', r)" "distinct_targets (batch_writes b)"
    and "view (fb_database s) SystemKeyspace DATABASE_IDENTITY_KEY = Some x"
  shows "view (fb_database s') SystemKeyspace DATABASE_IDENTITY_KEY = Some x"
proof (cases "commit_preconditions E F b m s")
  case (Ok u)
  have "\<not> is_database_initialization E b"
    using Ok assms(3) is_empty_view [of "fb_database s" SystemKeyspace]
    by (auto simp: commit_preconditions_def ensure_initialization_keyspaces_are_empty_def result_simps
        split: if_splits)
  then have "(SystemKeyspace, DATABASE_IDENTITY_KEY) \<notin> write_target ` set (batch_writes b)"
    using Ok by (auto simp: commit_preconditions_def result_simps dest: ordinary_batch_targets)
  then show ?thesis using fb.commit_keeps_others [OF assms(2,1)] assms(3) by simp
qed (use assms in \<open>auto simp: commit_atomic_cases\<close>)

end

sublocale fjall_store \<subseteq> lb: index_backend "LateBound_commit_atomic E F"
  "\<lambda>l k. LateBound_get_user E F l k None" "LateBound_get_internal E F" "late_view view"
  for E
  by unfold_locales (rule late_bound_laws, assumption+)+

text \<open>
  A store to run the adapter on: three association lists, and a fault plan that says for which
  batches a commit reports an error, and whether the batch was applied all the same.
\<close>

type_synonym mem_db = "keyspace \<Rightarrow> (bytes \<times> bytes) list"

fun mem_write :: "keyspace_write \<Rightarrow> mem_db \<Rightarrow> mem_db" where
  "mem_write (KsInsert ks k v) db = db(ks := (k, v) # filter (\<lambda>e. fst e \<noteq> k) (db ks))"
| "mem_write (KsRemove ks k) db = db(ks := filter (\<lambda>e. fst e \<noteq> k) (db ks))"

definition mem_view :: "mem_db \<Rightarrow> index_view" where
  "mem_view db ks = map_of (db ks)"

definition mem_range :: "mem_db \<Rightarrow> keyspace \<Rightarrow> bound \<Rightarrow> bound \<Rightarrow> (bytes \<times> bytes) list" where
  "mem_range db ks lo hi =
     map (\<lambda>k. (k, the (map_of (db ks) k)))
       (filter (\<lambda>k. after_start lo k \<and> before_end hi k) (sort (remdups (map fst (db ks)))))"

definition mem_fjall :: "(keyspace_write list \<Rightarrow> (fjall_error \<times> bool) option) \<Rightarrow> mem_db fjall_ops" where
  "mem_fjall fault =
     \<lparr>fj_get = (\<lambda>db ks k. Ok (map_of (db ks) k)),
      fj_is_empty = (\<lambda>db ks. Ok (db ks = [])),
      fj_range = (\<lambda>db ks lo hi. map Ok (mem_range db ks lo hi)),
      fj_commit = (\<lambda>db m ws. case fault ws of
          None \<Rightarrow> (fold mem_write ws db, Ok ())
        | Some (e, applied) \<Rightarrow> (if applied then fold mem_write ws db else db, Err e))\<rparr>"

lemma mem_view_write: "mem_view (mem_write w db) = apply_write w (mem_view db)"
proof -
  have "map_of (filter (\<lambda>e. fst e \<noteq> k) xs) = (map_of xs)(k := None)" for k and xs :: "(bytes \<times> bytes) list"
    by (induction xs) auto
  then show ?thesis by (cases w) (auto simp: mem_view_def)
qed

lemma mem_view_writes: "mem_view (fold mem_write ws db) = apply_writes ws (mem_view db)"
  unfolding apply_writes_def by (induction ws arbitrary: db) (auto simp: mem_view_write)

lemma mem_view_empty: "mem_view db ks = Map.empty \<longleftrightarrow> db ks = []"
  by (auto simp: mem_view_def)

lemma mem_range_fst:
  "map fst (mem_range db ks lo hi)
     = filter (\<lambda>k. after_start lo k \<and> before_end hi k) (sort (remdups (map fst (db ks))))"
  by (simp add: mem_range_def comp_def)

lemma mem_range_sorted: "sorted_wrt (<) (map fst (mem_range db ks lo hi))"
  unfolding mem_range_fst strict_sorted_iff by (simp add: sorted_wrt_filter)

lemma mem_range_entries:
  "(k, x) \<in> set (mem_range db ks lo hi) \<longleftrightarrow>
     mem_view db ks k = Some x \<and> after_start lo k \<and> before_end hi k"
  by (auto simp: mem_range_def mem_view_def simp flip: dom_map_of_conv_image_fst)

interpretation mem: fjall_store "mem_fjall fault" mem_view for fault
proof unfold_locales
  fix db ks lo hi es k x
  assume "fj_range (mem_fjall fault) db ks lo hi = map Ok es"
  then have "es = mem_range db ks lo hi"
    by (auto simp: mem_fjall_def dest!: map_injective intro: injI)
  then show "sorted_wrt (<) (map fst es)"
    and "(k, x) \<in> set es \<longleftrightarrow> mem_view db ks k = Some x \<and> after_start lo k \<and> before_end hi k"
    by (simp_all add: mem_range_sorted mem_range_entries)
qed (auto simp: mem_fjall_def mem_view_def mem_view_empty [unfolded mem_view_def] mem_view_writes
    split: option.splits prod.splits if_splits)

section \<open>Initialization\<close>

lemma trailing_crc:
  "length bs = n + 4 \<Longrightarrow> n \<le> 1000 \<Longrightarrow> has_valid_trailing_crc E bs n \<longleftrightarrow> verify_crc E bs n n = Ok ()"
  by (auto simp: has_valid_trailing_crc_def verify_crc_def metadata_reads codec_simps usize_max_def min_def)

lemma IndexIdentity_decode_iff:
  "IndexIdentity_decode E bs = Ok d \<longleftrightarrow> DatabaseIdentity_decode E bs = Ok d"
proof (cases "length bs = 32")
  case True
  then show ?thesis
    by (cases "verify_crc E bs 28 28") (auto simp: IndexIdentity_decode_def DatabaseIdentity_decode_def
        trailing_crc metadata_reads codec_simps Let_def)
qed (auto simp: IndexIdentity_decode_def DatabaseIdentity_decode_def)

lemma to_le_bytes_0 [simp]:
  "u16_to_le_bytes 0 = replicate 2 0" "u32_to_le_bytes 0 = replicate 4 0" "u64_to_le_bytes 0 = replicate 8 0"
  by (simp_all add: u16_to_le_bytes_def u32_to_le_bytes_def u64_to_le_bytes_def)

lemma initialization_identity_encodes:
  "u \<noteq> 0 \<Longrightarrow> DatabaseIdentity_encode E \<lparr>di_identity_format_version = 0, di_database_format_version = 0,
     di_database_uuid = u, di_keyspace_layout_version = 0\<rparr> = Ok (initialization_identity E 0 u)"
  by (simp add: DatabaseIdentity_encode_def initialization_identity_def)

lemma initialization_frontier_encodes:
  "DurableFrontier_encode E \<lparr>df_durable_seq = 0, df_durable_vlog_seq = 0, df_durable_vlog_end = EmptyEnd\<rparr>
     = Ok (initialization_frontier E)"
  by (simp add: DurableFrontier_encode_def DurableFrontier_validate_def initialization_frontier_def
      flip: replicate_add)

lemma initial_records_valid:
  assumes "u \<noteq> 0"
  shows "is_valid_initial_database_identity E (initialization_identity E 0 u)"
    and "is_encoded_empty_durable_frontier E (initialization_frontier E)"
proof -
  have "uuid_bytes u \<noteq> replicate 16 0"
  proof
    assume "uuid_bytes u = replicate 16 0"
    then have "uuid_of_bytes (uuid_bytes u) = uuid_of_bytes (uuid_bytes 0)" by (simp add: uuid_bytes_def)
    then show False using assms by simp
  qed
  then show "is_valid_initial_database_identity E (initialization_identity E 0 u)"
    using replicate_add [of 2 4 "0 :: u8"]
    by (simp add: is_valid_initial_database_identity_def initialization_identity_def trailing_crc
        codec_simps)
  show "is_encoded_empty_durable_frontier E (initialization_frontier E)"
    by (simp add: is_encoded_empty_durable_frontier_def initialization_frontier_def trailing_crc codec_simps)
qed

lemma system_keys_distinct [simp]:
  "DATABASE_IDENTITY_KEY \<noteq> HEAD_SEQ_KEY" "HEAD_SEQ_KEY \<noteq> DATABASE_IDENTITY_KEY"
  "DATABASE_IDENTITY_KEY \<noteq> DURABLE_FRONTIER_KEY" "DURABLE_FRONTIER_KEY \<noteq> DATABASE_IDENTITY_KEY"
  "HEAD_SEQ_KEY \<noteq> DURABLE_FRONTIER_KEY" "DURABLE_FRONTIER_KEY \<noteq> HEAD_SEQ_KEY"
  by (auto simp: DATABASE_IDENTITY_KEY_def HEAD_SEQ_KEY_def DURABLE_FRONTIER_KEY_def ascii_def)

lemma initialization_batch_Ok:
  assumes "allocates E" "u \<noteq> 0"
  shows "initialization_batch E 0 u = Ok \<lparr>ib_operations =
      [InitializeDatabaseIdentity (initialization_identity E 0 u),
       PutInternal SystemSpace HEAD_SEQ_KEY (replicate 8 0),
       PutInternal SystemSpace DURABLE_FRONTIER_KEY (initialization_frontier E)]\<rparr>"
  using assms initial_records_valid [OF assms(2), of E]
  by (simp add: initialization_batch_def IndexAtomicBatch_initialize_database_def index_try_copy_def
      allocates_def is_encoded_head_seq_zero_def)

section \<open>Runs of commits and iterators\<close>

fun commit_all ::
  "env \<Rightarrow> 'db fjall_ops \<Rightarrow> 'db fjall_backend \<Rightarrow> (index_atomic_batch \<times> index_commit_mode) list \<Rightarrow>
   'db fjall_backend" where
  "commit_all E F s [] = s"
| "commit_all E F s ((b, m) # rest) = commit_all E F (fst (FjallBackend_commit_atomic E F b m s)) rest"

lemma sorted_entries_unique:
  assumes "sorted_wrt (<) (map fst xs)" "sorted_wrt (<) (map fst (ys :: (bytes \<times> bytes) list))"
    and "set xs = set ys"
  shows "xs = ys"
proof (rule map_sorted_distinct_set_unique [where f = fst])
  show "inj_on fst (set xs \<union> set ys)"
    using assms by (auto simp: strict_sorted_iff distinct_map)
qed (use assms in \<open>simp_all add: strict_sorted_iff\<close>)

lemma guard_to_entry_Ok:
  "allocates E \<Longrightarrow> guard_to_entry E operation stage (Ok kv) = Ok \<lparr>en_key = fst kv, en_value = snd kv\<rparr>"
  by (cases kv) (simp add: guard_to_entry_def fjall_try_copy_bytes_def)

context fjall_store
begin

lemma range_is_filter:
  assumes "fj_range F db ks Unbounded Unbounded = map Ok all" "fj_range F db ks lo hi = map Ok es"
  shows "es = filter (\<lambda>e. after_start lo (fst e) \<and> before_end hi (fst e)) all"
proof (rule sorted_entries_unique)
  show "sorted_wrt (<) (map fst (filter (\<lambda>e. after_start lo (fst e) \<and> before_end hi (fst e)) all))"
    using range_sorted [OF assms(1)] by (simp add: sorted_wrt_map sorted_wrt_filter)
  show "set es = set (filter (\<lambda>e. after_start lo (fst e) \<and> before_end hi (fst e)) all)"
    using range_entries [OF assms(1)] range_entries [OF assms(2)] by auto
qed (rule range_sorted [OF assms(2)])

end

lemma commit_not_applied_same:
  "FjallBackend_commit_atomic E F b m s = (s', Err e) \<Longrightarrow> ce_apply_state e = NotApplied \<Longrightarrow> s' = s"
  by (auto simp: commit_atomic_cases result_simps IndexCommitError_unknown_def split: result.splits)

section \<open>Properties\<close>


definition sample_store :: "mem_db fjall_backend" where
  "sample_store = \<lparr>fb_database = (\<lambda>ks. if ks = SystemKeyspace then [(DATABASE_IDENTITY_KEY, [1])] else []),
     fb_snapshot_owner = 0, fb_commit_lock_poisoned = False\<rparr>"

abbreviation sample_index_batch :: index_atomic_batch where
  "sample_index_batch \<equiv> \<lparr>ib_operations = [PutUser [1] [9], PutInternal SystemSpace HEAD_SEQ_KEY [5]]\<rparr>"

lemma sample_commit:
  "FjallBackend_commit_atomic sample_env (mem_fjall (\<lambda>_. None)) sample_index_batch Buffer sample_store
     = (fst (FjallBackend_commit_atomic sample_env (mem_fjall (\<lambda>_. None)) sample_index_batch Buffer
         sample_store), Ok ())"
  "distinct_targets (batch_writes sample_index_batch)"
  by (simp_all add: FjallBackend_commit_atomic_def commit_preconditions_def validate_for_commit_def
      is_database_identity_key_def sample_store_def ensure_identity_is_initialized_def mem_fjall_def
      is_database_initialization_def HEAD_SEQ_KEY_def ascii_def DATABASE_IDENTITY_KEY_def
      distinct_targets_def batch_writes_def)




text \<open>
  C22: initialization. With memory available, the initialization batch of a database exists, passes
  the backend's validation, and on an empty index leaves exactly the three system records: the
  identity of that database, head sequence zero and the empty durable frontier.
\<close>

theorem initialization_installs_metadata:
  assumes "allocates E" and "u \<noteq> 0"
  shows "\<exists>b. initialization_batch E 0 u = Ok b \<and> validate_for_commit E b SyncAll = Ok ()
    \<and> (let V = apply_writes (batch_writes b) (\<lambda>_. Map.empty) in
    V UserKeyspace = Map.empty \<and> V TransactionKeyspace = Map.empty
    \<and> dom (V SystemKeyspace) = {DATABASE_IDENTITY_KEY, HEAD_SEQ_KEY, DURABLE_FRONTIER_KEY}
    \<and> DatabaseIdentity_decode E (the (V SystemKeyspace DATABASE_IDENTITY_KEY))
        = Ok \<lparr>di_identity_format_version = 0, di_database_format_version = 0,
              di_database_uuid = u, di_keyspace_layout_version = 0\<rparr>
    \<and> decode_head_seq (the (V SystemKeyspace HEAD_SEQ_KEY)) = Ok 0
    \<and> DurableFrontier_decode E (the (V SystemKeyspace DURABLE_FRONTIER_KEY))
        = Ok \<lparr>df_durable_seq = 0, df_durable_vlog_seq = 0, df_durable_vlog_end = EmptyEnd\<rparr>)"
proof -
  have d: "DatabaseIdentity_decode E (initialization_identity E 0 u)
      = Ok \<lparr>di_identity_format_version = 0, di_database_format_version = 0,
            di_database_uuid = u, di_keyspace_layout_version = 0\<rparr>"
    "DurableFrontier_decode E (initialization_frontier E)
      = Ok \<lparr>df_durable_seq = 0, df_durable_vlog_seq = 0, df_durable_vlog_end = EmptyEnd\<rparr>"
    "decode_head_seq (replicate 8 0) = Ok 0"
    by (rule DatabaseIdentity_dec_enc [OF initialization_identity_encodes [OF assms(2)]])
      (simp_all add: df.dec_iff_enc initialization_frontier_encodes head_seq_codec encode_head_seq_def)
  show ?thesis
    by (intro exI conjI, rule initialization_batch_Ok [OF assms])
      (auto simp: validate_for_commit_def is_encoded_head_seq_zero_def initial_records_valid [OF assms(2)] d
        apply_writes_def batch_writes_def Let_def)
qed

theorem initialization_installs_metadata_witness:
  "\<exists>b. initialization_batch sample_env 0 7 = Ok b \<and> validate_for_commit sample_env b SyncAll = Ok ()"
  using initialization_installs_metadata [OF allocates_sample_env, of 7] by auto

text \<open>
  The two decoders of the identity record, the one of the index boundary and the one of the
  metadata codec, accept the same records and read the same identity from them.
\<close>

theorem identity_decoders_agree:
  "IndexIdentity_decode E bs = Ok d \<longleftrightarrow> DatabaseIdentity_decode E bs = Ok d"
  by (rule IndexIdentity_decode_iff)

text \<open>
  range iteration. Where the store iterates without errors, the adapter's native range
  iterator yields exactly what the trait's filtering implementation yields from a full iteration,
  from the live index as from a snapshot.
\<close>

theorem range_iterator_filters:
  assumes "fjall_store F view" and "allocates E" and "read_database s snapshot Op_Iterator = Ok db"
    and "fj_range F db UserKeyspace Unbounded Unbounded = map Ok entries"
    and "fj_range F db UserKeyspace (ur_start rng) (ur_end rng) = map Ok es"
  shows "FjallBackend_iter_user_range E F s snapshot rng
    = default_iter_user_range (FjallBackend_iter_user E F s snapshot) rng"
proof -
  have "es = filter (\<lambda>e. UserKeyRange_contains rng (fst e)) entries"
    using fjall_store.range_is_filter [OF assms(1,4,5)] by (simp add: UserKeyRange_contains_def)
  then show ?thesis
    using assms(2,3,4,5) by (simp add: FjallBackend_iter_user_range_def FjallBackend_iter_user_def
        default_iter_user_range_def guard_to_entry_Ok filter_map comp_def)
qed

theorem range_iterator_filters_witness:
  "FjallBackend_iter_user_range sample_env (mem_fjall (\<lambda>_. None)) sample_store None (UserKeyRange_after [3])
    = default_iter_user_range (FjallBackend_iter_user sample_env (mem_fjall (\<lambda>_. None)) sample_store None)
        (UserKeyRange_after [3])"
  by (rule range_iterator_filters [OF mem.fjall_store_axioms allocates_sample_env])
    (simp_all add: read_database_def mem_fjall_def)

end
