(* ===== verification/Protocol.thy ===== *)
theory Protocol
  imports Batch EnvelopeScan Index
begin

text \<open>
  Preparing a commit (\<open>src/commit/protocol.rs\<close>): a put, a delete or a batch is validated and its
  distinct keys are numbered; then the states of these keys before the write are read from the
  index, the envelope is prepared, the state of each key after the write is decided, and the
  transaction descriptor and the index batch are built. Nothing is written. The index read
  \<open>get_user\<close> and the random bytes for the transaction's UUID are parameters.
\<close>

unbundle bit_operations_syntax

section \<open>Errors\<close>

definition protocol_invalid_argument :: "operation \<Rightarrow> storage_error" where
  "protocol_invalid_argument operation =
     write_preflight InvalidArgument operation FixRequestAndRetrySameInstance"

definition protocol_capacity_exceeded :: "operation \<Rightarrow> storage_error" where
  "protocol_capacity_exceeded operation =
     write_preflight CapacityExceeded operation FixRequestAndRetrySameInstance"

definition permanent_capacity_exceeded :: "operation \<Rightarrow> storage_error" where
  "permanent_capacity_exceeded operation = write_preflight CapacityExceeded operation DoNotRetry"

definition protocol_resource_exhausted :: "operation \<Rightarrow> storage_error" where
  "protocol_resource_exhausted operation =
     write_preflight ResourceExhausted operation RetrySameInstance"

definition remap_index_read :: "storage_error \<Rightarrow> operation \<Rightarrow> storage_error" where
  "remap_index_read error operation =
     (let (state, retry) =
        (case err_kind error of
           ResourceExhausted \<Rightarrow> (Healthy, RetrySameInstance)
         | Busy \<Rightarrow> (Healthy, RetrySameInstance)
         | StorageWriteStopped \<Rightarrow> (WriteStopped, FixEnvironmentAndReopen)
         | Io \<Rightarrow> (Poisoned, ReopenAndVerify)
         | StoragePoisoned \<Rightarrow> (Poisoned, ReopenAndVerify)
         | Corruption \<Rightarrow> (Poisoned, RestoreOrRepair)
         | InvalidLayout \<Rightarrow> (Poisoned, RestoreOrRepair)
         | Unrecoverable \<Rightarrow> (Poisoned, RestoreOrRepair)
         | IncompatibleFormat \<Rightarrow> (Poisoned, DoNotRetry)
         | InvalidArgument \<Rightarrow> (Poisoned, DoNotRetry)
         | NotFound \<Rightarrow> (Poisoned, DoNotRetry)
         | Unsupported \<Rightarrow> (Poisoned, DoNotRetry)
         | CapacityExceeded \<Rightarrow> (Poisoned, DoNotRetry))
      in (write_preflight_in_state (err_kind error) operation state retry)
           \<lparr>err_os_code := err_os_code error\<rparr>)"

definition stored_pointer_error :: "storage_error_kind \<Rightarrow> operation \<Rightarrow> storage_error" where
  "stored_pointer_error kind operation =
     write_preflight_in_state kind operation Poisoned
       (if kind = IncompatibleFormat then DoNotRetry else RestoreOrRepair)"

definition remap_stored_pointer :: "storage_error \<Rightarrow> operation \<Rightarrow> storage_error" where
  "remap_stored_pointer error operation =
     (stored_pointer_error (err_kind error) operation)\<lparr>err_os_code := err_os_code error\<rparr>"

definition remap_preflight :: "storage_error \<Rightarrow> operation \<Rightarrow> storage_error" where
  "remap_preflight error operation =
     (let (state, retry) =
        (if err_kind error = ResourceExhausted then (Healthy, RetrySameInstance)
         else if err_kind error = Corruption \<or> err_kind error = InvalidLayout
         then (Poisoned, RestoreOrRepair)
         else if err_kind error = IncompatibleFormat then (Poisoned, DoNotRetry)
         else if err_kind error = CapacityExceeded \<and> err_retry error = DoNotRetry
         then (Healthy, DoNotRetry)
         else (Healthy, FixRequestAndRetrySameInstance))
      in (write_preflight_in_state (err_kind error) operation state retry)
           \<lparr>err_os_code := err_os_code error\<rparr>)"

definition map_index_construction_error :: "internal_index_error \<Rightarrow> operation \<Rightarrow> storage_error" where
  "map_index_construction_error error operation =
     write_preflight (ie_kind error) operation
       (if ie_kind error = ResourceExhausted then RetrySameInstance
        else FixRequestAndRetrySameInstance)"

definition try_vec_with_capacity :: "env \<Rightarrow> usize \<Rightarrow> operation \<Rightarrow> alloc_site \<Rightarrow> unit res" where
  "try_vec_with_capacity E capacity operation site =
     try_reserve E site capacity (protocol_resource_exhausted operation)"

definition try_clone_bytes :: "env \<Rightarrow> bytes \<Rightarrow> operation \<Rightarrow> alloc_site \<Rightarrow> bytes res" where
  "try_clone_bytes E bs operation site =
     and_then (try_reserve E site (length bs) (protocol_resource_exhausted operation)) (\<lambda>_. Ok bs)"

section \<open>Validation\<close>

datatype normalized_operation = NPut (nkey: bytes) bytes | NDelete (nkey: bytes)

record normalized_write =
  nw_operations :: "normalized_operation list"
  nw_sync :: bool

record validated_write =
  vw_normalized :: normalized_write
  vw_distinct_keys :: "bytes list"
  vw_operation_ordinals :: "usize list"
  vw_public_operation :: operation

fun is_nput :: "normalized_operation \<Rightarrow> bool" where
  "is_nput (NPut key val) = True"
| "is_nput (NDelete key) = False"

definition vw_transaction_kind :: "validated_write \<Rightarrow> transaction_kind" where
  "vw_transaction_kind w =
     (if \<exists>operation \<in> set (nw_operations (vw_normalized w)). is_nput operation
      then VLogEnvelope else IndexOnlyDelete)"

definition protocol_validate_key :: "bytes \<Rightarrow> operation \<Rightarrow> unit res" where
  "protocol_validate_key key operation =
     (if key = [] \<or> length key > 60000 then Err (protocol_invalid_argument operation)
      else and_then (ok_or (u16_try_from (length key)) (protocol_capacity_exceeded operation))
             (\<lambda>_. Ok ()))"

definition validate_put :: "bytes \<Rightarrow> bytes \<Rightarrow> operation \<Rightarrow> unit res" where
  "validate_put key val operation =
     and_then (protocol_validate_key key operation) (\<lambda>_.
     and_then (ok_or (u16_try_from (length val)) (protocol_capacity_exceeded operation)) (\<lambda>_.
     and_then (ok_or (usize_checked_add (length key) (length val))
                (protocol_capacity_exceeded operation)) (\<lambda>combined_len.
       if combined_len > 60000 then Err (protocol_invalid_argument operation) else Ok ())))"

definition validate_operation_count :: "usize \<Rightarrow> usize \<Rightarrow> operation \<Rightarrow> unit res" where
  "validate_operation_count operation_count max_operation_count operation =
     and_then (ok_or (usize_checked_add operation_count 2) (protocol_capacity_exceeded operation)) (\<lambda>_.
       if operation_count > max_operation_count
          \<or> u32_try_from operation_count = None \<or> u64_try_from operation_count = None
       then Err (protocol_capacity_exceeded operation) else Ok ())"

definition validate_put_encoding :: "bytes \<Rightarrow> bytes \<Rightarrow> operation \<Rightarrow> unit res" where
  "validate_put_encoding key val operation =
     and_then (validate_put key val operation) (\<lambda>_.
     and_then (ok_or (usize_checked_add (length key) (length val))
                (protocol_capacity_exceeded operation)) (\<lambda>combined_len.
     and_then (ok_or (case usize_checked_add (unat (MIN_KV_RECORD_LEN - 1)) combined_len of
                        Some len \<Rightarrow> u32_try_from len | None \<Rightarrow> None)
                (protocol_capacity_exceeded operation)) (\<lambda>encoded_len.
       if encoded_len > MAX_KV_RECORD_LEN then Err (protocol_invalid_argument operation) else Ok ())))"

definition validate_delete_encoding :: "bytes \<Rightarrow> operation \<Rightarrow> unit res" where
  "validate_delete_encoding key operation =
     and_then (protocol_validate_key key operation) (\<lambda>_.
     and_then (ok_or (case usize_checked_add (unat (MIN_DELETE_RECORD_LEN - 1)) (length key) of
                        Some len \<Rightarrow> u32_try_from len | None \<Rightarrow> None)
                (protocol_capacity_exceeded operation)) (\<lambda>_. Ok ()))"

fun validate_encodings :: "operation \<Rightarrow> normalized_operation list \<Rightarrow> unit res" where
  "validate_encodings operation [] = Ok ()"
| "validate_encodings operation (op # ops) =
     and_then (case op of
         NPut key val \<Rightarrow> validate_put_encoding key val operation
       | NDelete key \<Rightarrow> validate_delete_encoding key operation)
       (\<lambda>_. validate_encodings operation ops)"

fun assign_ordinals ::
  "operation \<Rightarrow> (bytes \<Rightarrow> usize option) \<Rightarrow> bytes list \<Rightarrow> usize list \<Rightarrow> normalized_operation list \<Rightarrow>
   (bytes list \<times> usize list) res" where
  "assign_ordinals operation ordinals distinct_keys operation_ordinals [] =
     Ok (distinct_keys, operation_ordinals)"
| "assign_ordinals operation ordinals distinct_keys operation_ordinals (op # ops) =
     (case ordinals (nkey op) of
        Some ordinal \<Rightarrow>
          assign_ordinals operation ordinals distinct_keys (operation_ordinals @ [ordinal]) ops
      | None \<Rightarrow>
          let ordinal = length distinct_keys in
          and_then (ok_or (u64_try_from ordinal) (protocol_capacity_exceeded operation)) (\<lambda>_.
            assign_ordinals operation (ordinals(nkey op \<mapsto> ordinal)) (distinct_keys @ [nkey op])
              (operation_ordinals @ [ordinal]) ops))"

definition validate_normalized ::
  "env \<Rightarrow> normalized_write \<Rightarrow> operation \<Rightarrow> usize \<Rightarrow> validated_write res" where
  "validate_normalized E normalized public_operation max_operation_count =
     (let operation_count = length (nw_operations normalized) in
      if operation_count = 0 then Err (protocol_invalid_argument public_operation)
      else
        and_then (validate_operation_count operation_count max_operation_count public_operation) (\<lambda>_.
        and_then (validate_encodings public_operation (nw_operations normalized)) (\<lambda>_.
        and_then (try_vec_with_capacity E operation_count public_operation ''DistinctKeys'') (\<lambda>_.
        and_then (try_vec_with_capacity E operation_count public_operation ''OperationOrdinals'') (\<lambda>_.
        and_then (try_vec_with_capacity E operation_count public_operation ''OrdinalMap'') (\<lambda>_.
        and_then (assign_ordinals public_operation Map.empty [] [] (nw_operations normalized))
          (\<lambda>(distinct_keys, operation_ordinals).
        let distinct_count = length distinct_keys in
        and_then (ok_or (u64_try_from distinct_count) (protocol_capacity_exceeded public_operation)) (\<lambda>_.
        and_then (ok_or (case usize_checked_mul distinct_count 2 of
                           Some count \<Rightarrow> usize_checked_add count 2 | None \<Rightarrow> None)
                   (protocol_capacity_exceeded public_operation)) (\<lambda>_.
          Ok \<lparr>vw_normalized = normalized, vw_distinct_keys = distinct_keys,
              vw_operation_ordinals = operation_ordinals,
              vw_public_operation = public_operation\<rparr>)))))))))"

definition preflight_put :: "env \<Rightarrow> bytes \<Rightarrow> bytes \<Rightarrow> bool \<Rightarrow> validated_write res" where
  "preflight_put E key val sync =
     and_then (validate_put key val Op_Put) (\<lambda>_.
     and_then (try_vec_with_capacity E 1 Op_Put ''Operations'') (\<lambda>_.
       validate_normalized E \<lparr>nw_operations = [NPut key val], nw_sync = sync\<rparr> Op_Put 4294967295))"

definition preflight_delete :: "env \<Rightarrow> bytes \<Rightarrow> bool \<Rightarrow> validated_write res" where
  "preflight_delete E key sync =
     and_then (protocol_validate_key key Op_Delete) (\<lambda>_.
     and_then (try_vec_with_capacity E 1 Op_Delete ''Operations'') (\<lambda>_.
       validate_normalized E \<lparr>nw_operations = [NDelete key], nw_sync = sync\<rparr> Op_Delete 4294967295))"

fun normalize :: "batch_operation \<Rightarrow> normalized_operation" where
  "normalize (Put key val) = NPut key val"
| "normalize (Delete key) = NDelete key"

definition preflight_batch_with_operation_limit ::
  "env \<Rightarrow> write_batch \<Rightarrow> bool \<Rightarrow> usize \<Rightarrow> validated_write res" where
  "preflight_batch_with_operation_limit E batch sync max_operation_count =
     and_then (validate_operation_count (WriteBatch_len batch) max_operation_count Op_WriteBatch) (\<lambda>_.
     and_then (validate_encodings Op_WriteBatch (map normalize (operations batch))) (\<lambda>_.
     and_then (try_vec_with_capacity E (WriteBatch_len batch) Op_WriteBatch ''Operations'') (\<lambda>_.
       validate_normalized E \<lparr>nw_operations = map normalize (operations batch), nw_sync = sync\<rparr>
         Op_WriteBatch max_operation_count)))"

definition preflight_batch :: "env \<Rightarrow> write_batch \<Rightarrow> bool \<Rightarrow> validated_write res" where
  "preflight_batch E batch sync = preflight_batch_with_operation_limit E batch sync 4294967295"

section \<open>Key plans\<close>

record key_plan =
  kp_user_key :: bytes
  kp_before_state :: value_state
  kp_after_state :: value_state

fun initial_plans ::
  "env \<Rightarrow> operation \<Rightarrow> bytes list \<Rightarrow> value_state list \<Rightarrow> key_plan list res" where
  "initial_plans E operation (key # keys) (before # befores) =
     and_then (try_clone_bytes E key operation ''KeyPlanUserKey'') (\<lambda>user_key.
     and_then (initial_plans E operation keys befores) (\<lambda>plans.
       Ok (\<lparr>kp_user_key = user_key, kp_before_state = before, kp_after_state = before\<rparr> # plans)))"
| "initial_plans E operation _ _ = Ok []"

definition operation_after_state ::
  "transaction_kind \<Rightarrow> value_pointer option list option \<Rightarrow> usize \<Rightarrow> normalized_operation \<Rightarrow>
   operation \<Rightarrow> value_state res" where
  "operation_after_state kind value_pointers operation_index op operation =
     (case kind of
        VLogEnvelope \<Rightarrow>
          and_then (ok_or (case value_pointers of
                             Some pointers \<Rightarrow> list_get pointers operation_index | None \<Rightarrow> None)
                     (protocol_invalid_argument operation)) (\<lambda>pointer.
            case (op, pointer) of
              (NPut _ _, Some p) \<Rightarrow> Ok (Present p)
            | (NDelete _, None) \<Rightarrow> Ok Absent
            | _ \<Rightarrow> Err (protocol_invalid_argument operation))
      | IndexOnlyDelete \<Rightarrow>
          (case op of
             NDelete _ \<Rightarrow> Ok Absent
           | NPut _ _ \<Rightarrow> Err (protocol_invalid_argument operation)))"

fun apply_operations ::
  "transaction_kind \<Rightarrow> value_pointer option list option \<Rightarrow> operation \<Rightarrow> usize \<Rightarrow> key_plan list \<Rightarrow>
   (normalized_operation \<times> usize) list \<Rightarrow> key_plan list res" where
  "apply_operations kind value_pointers operation operation_index plans [] = Ok plans"
| "apply_operations kind value_pointers operation operation_index plans ((op, ordinal) # ops) =
     and_then (ok_or (list_get plans ordinal) (protocol_invalid_argument operation)) (\<lambda>plan.
     and_then (operation_after_state kind value_pointers operation_index op operation) (\<lambda>after_state.
       apply_operations kind value_pointers operation (Suc operation_index)
         (plans[ordinal := plan\<lparr>kp_after_state := after_state\<rparr>]) ops))"

definition build_key_plans ::
  "env \<Rightarrow> validated_write \<Rightarrow> value_state list \<Rightarrow> transaction_kind \<Rightarrow>
   value_pointer option list option \<Rightarrow> key_plan list res" where
  "build_key_plans E w before_states kind value_pointers =
     (let ops = nw_operations (vw_normalized w); operation = vw_public_operation w in
      if length before_states \<noteq> length (vw_distinct_keys w)
         \<or> length (vw_operation_ordinals w) \<noteq> length ops
      then Err (protocol_invalid_argument operation)
      else if \<not> (case (kind, value_pointers) of
                   (VLogEnvelope, Some pointers) \<Rightarrow> length pointers = length ops
                 | (IndexOnlyDelete, None) \<Rightarrow> True
                 | _ \<Rightarrow> False)
      then Err (protocol_invalid_argument operation)
      else
        and_then (try_vec_with_capacity E (length (vw_distinct_keys w)) operation ''KeyPlans'') (\<lambda>_.
        and_then (initial_plans E operation (vw_distinct_keys w) before_states) (\<lambda>plans.
          apply_operations kind value_pointers operation 0 plans
            (zip ops (vw_operation_ordinals w)))))"

fun descriptor_mutation_list :: "env \<Rightarrow> operation \<Rightarrow> key_plan list \<Rightarrow> tx_mutation list res" where
  "descriptor_mutation_list E operation [] = Ok []"
| "descriptor_mutation_list E operation (plan # plans) =
     and_then (try_clone_bytes E (kp_user_key plan) operation ''DescriptorUserKey'') (\<lambda>user_key.
     and_then (descriptor_mutation_list E operation plans) (\<lambda>mutations.
       Ok (\<lparr>mu_user_key = user_key, mu_before_state = kp_before_state plan,
            mu_after_state = kp_after_state plan\<rparr> # mutations)))"

definition descriptor_mutations :: "env \<Rightarrow> key_plan list \<Rightarrow> operation \<Rightarrow> tx_mutation list res" where
  "descriptor_mutations E plans operation =
     and_then (try_vec_with_capacity E (length plans) operation ''DescriptorMutations'') (\<lambda>_.
       descriptor_mutation_list E operation plans)"

section \<open>The index batch\<close>

definition push_index ::
  "env \<Rightarrow> index_atomic_batch \<Rightarrow> index_mutation \<Rightarrow> operation \<Rightarrow> index_atomic_batch res" where
  "push_index E batch mutation operation =
     map_err (\<lambda>error. map_index_construction_error error operation)
       (IndexAtomicBatch_try_push E batch mutation)"

definition user_mutation :: "env \<Rightarrow> operation \<Rightarrow> key_plan \<Rightarrow> index_mutation res" where
  "user_mutation E operation plan =
     and_then (try_clone_bytes E (kp_user_key plan) operation ''IndexUserKey'') (\<lambda>user_key.
       case kp_after_state plan of
         Absent \<Rightarrow> Ok (DeleteUser user_key)
       | Present pointer \<Rightarrow>
           and_then (map_err (\<lambda>error. remap_preflight error operation) (ValuePointer_encode pointer))
             (\<lambda>encoded.
           and_then (try_clone_bytes E encoded operation ''IndexPointer'') (\<lambda>encoded_pointer.
             Ok (PutUser user_key encoded_pointer))))"

fun push_user_mutations ::
  "env \<Rightarrow> operation \<Rightarrow> index_atomic_batch \<Rightarrow> key_plan list \<Rightarrow> index_atomic_batch res" where
  "push_user_mutations E operation batch [] = Ok batch"
| "push_user_mutations E operation batch (plan # plans) =
     and_then (user_mutation E operation plan) (\<lambda>mutation.
     and_then (push_index E batch mutation operation) (\<lambda>batch.
       push_user_mutations E operation batch plans))"

fun push_descriptor_mutations ::
  "env \<Rightarrow> operation \<Rightarrow> index_atomic_batch \<Rightarrow> encoded_mutation list \<Rightarrow> index_atomic_batch res" where
  "push_descriptor_mutations E operation batch [] = Ok batch"
| "push_descriptor_mutations E operation batch (m # ms) =
     and_then (try_clone_bytes E (em_key m) operation ''IndexMutationKey'') (\<lambda>key.
     and_then (push_index E batch (PutInternal TransactionSpace key (em_value m)) operation) (\<lambda>batch.
       push_descriptor_mutations E operation batch ms))"

definition build_index_batch ::
  "env \<Rightarrow> key_plan list \<Rightarrow> encoded_descriptor \<Rightarrow> commit_seq \<Rightarrow> operation \<Rightarrow> index_atomic_batch res" where
  "build_index_batch E plans descriptor seq operation =
     and_then (ok_or (case usize_checked_mul (length plans) 2 of
                        Some count \<Rightarrow> usize_checked_add count 2 | None \<Rightarrow> None)
                (protocol_capacity_exceeded operation)) (\<lambda>capacity.
     and_then (map_err (\<lambda>error. map_index_construction_error error operation)
                (IndexAtomicBatch_try_with_capacity E capacity)) (\<lambda>batch.
     and_then (push_user_mutations E operation batch plans) (\<lambda>batch.
     and_then (try_clone_bytes E (ed_meta_key descriptor) operation ''IndexMetaKey'') (\<lambda>meta_key.
     and_then (try_clone_bytes E (ed_meta_value descriptor) operation ''IndexMetaValue'') (\<lambda>meta_value.
     and_then (push_index E batch (PutInternal TransactionSpace meta_key meta_value) operation) (\<lambda>batch.
     and_then (push_descriptor_mutations E operation batch (ed_mutations descriptor)) (\<lambda>batch.
     and_then (try_clone_bytes E HEAD_SEQ_KEY operation ''IndexHeadKey'') (\<lambda>head_key.
     and_then (try_clone_bytes E (encode_head_seq seq) operation ''IndexHeadValue'') (\<lambda>head_value.
       push_index E batch (PutInternal SystemSpace head_key head_value) operation)))))))))"

section \<open>Preparing\<close>

record prepared_commit =
  pc_commit_seq :: commit_seq
  pc_tx_uuid :: uuid
  pc_transaction_kind :: transaction_kind
  pc_envelope :: "prepared_envelope option"
  pc_index_batch :: index_atomic_batch
  pc_sync :: bool

definition decode_before_state_pointer :: "bytes \<Rightarrow> bytes \<Rightarrow> operation \<Rightarrow> value_state res" where
  "decode_before_state_pointer encoded_pointer user_key operation =
     and_then (map_err (\<lambda>error. remap_stored_pointer error operation)
                (ValuePointer_decode encoded_pointer)) (\<lambda>pointer.
     and_then (map_err (\<lambda>error. remap_stored_pointer error operation) (ValuePointer_layout pointer))
       (\<lambda>layout.
       if unat (vl_key_len layout) \<noteq> length user_key
       then Err (stored_pointer_error Corruption operation)
       else Ok (Present pointer)))"

fun read_before_states ::
  "(bytes \<Rightarrow> bytes option res) \<Rightarrow> operation \<Rightarrow> bytes list \<Rightarrow> value_state list res" where
  "read_before_states get_user operation [] = Ok []"
| "read_before_states get_user operation (key # keys) =
     and_then (map_err (\<lambda>error. remap_index_read error operation) (get_user key)) (\<lambda>found.
     and_then (case found of
         None \<Rightarrow> Ok Absent
       | Some encoded_pointer \<Rightarrow> decode_before_state_pointer encoded_pointer key operation) (\<lambda>state.
     and_then (read_before_states get_user operation keys) (\<lambda>states. Ok (state # states))))"

definition allocate_tx_uuid :: "(uuid, int option) result \<Rightarrow> operation \<Rightarrow> uuid res" where
  "allocate_tx_uuid random operation =
     (case random of
        Err os_code \<Rightarrow> Err ((write_preflight Io operation RetrySameInstance)\<lparr>err_os_code := os_code\<rparr>)
      | Ok u \<Rightarrow>
          let bs = uuid_bytes u;
              bs = bs[6 := ((bs ! 6) AND 0x0F) OR 0x40];
              bs = bs[8 := ((bs ! 8) AND 0x3F) OR 0x80]
          in Ok (uuid_of_bytes bs))"

fun logical_of :: "normalized_operation \<Rightarrow> logical_operation" where
  "logical_of (NPut key val) = LO_Put key val"
| "logical_of (NDelete key) = LO_Delete key"

definition logical_operations :: "env \<Rightarrow> validated_write \<Rightarrow> logical_operation list res" where
  "logical_operations E w =
     and_then (try_vec_with_capacity E (length (nw_operations (vw_normalized w)))
                (vw_public_operation w) ''LogicalOperations'') (\<lambda>_.
       Ok (map logical_of (nw_operations (vw_normalized w))))"

definition commit_envelope ::
  "env \<Rightarrow> validated_write \<Rightarrow> transaction_kind \<Rightarrow> commit_seq \<Rightarrow> uuid \<Rightarrow>
   (uuid \<times> vlog_position \<times> vlog_geometry) option \<Rightarrow> prepared_envelope option res" where
  "commit_envelope E w kind seq tx_uuid vlog_context =
     (case kind of
        VLogEnvelope \<Rightarrow>
          and_then (ok_or vlog_context (protocol_invalid_argument (vw_public_operation w)))
            (\<lambda>(database_uuid, append_cursor, geometry).
            if database_uuid = 0 then Err (protocol_invalid_argument (vw_public_operation w))
            else
              and_then (logical_operations E w) (\<lambda>ops.
              and_then (map_err (\<lambda>error. remap_preflight error (vw_public_operation w))
                         (LayoutPlanner_from_position geometry append_cursor)) (\<lambda>planner.
              and_then (map_err (\<lambda>error. remap_preflight error (vw_public_operation w))
                         (snd (prepare_envelope E planner database_uuid seq tx_uuid ops))) (\<lambda>envelope.
                Ok (Some envelope)))))
      | IndexOnlyDelete \<Rightarrow>
          if vlog_context \<noteq> None then Err (protocol_invalid_argument (vw_public_operation w))
          else Ok None)"

definition commit_descriptor ::
  "transaction_kind \<Rightarrow> commit_seq \<Rightarrow> uuid \<Rightarrow> commit_seq \<Rightarrow> prepared_envelope option \<Rightarrow> u64 \<Rightarrow> u64 \<Rightarrow>
   tx_mutation list \<Rightarrow> transaction_descriptor" where
  "commit_descriptor kind seq tx_uuid head_seq envelope logical_op_count distinct_key_count mutations =
     \<lparr>td_meta = \<lparr>tm_transaction_kind = kind, tm_commit_seq = seq, tm_tx_uuid = tx_uuid,
        tm_prev_seq = head_seq,
        tm_vlog_begin = (case envelope of Some e \<Rightarrow> pe_vlog_begin e | None \<Rightarrow> VLogPosition 0 0),
        tm_vlog_end = (case envelope of Some e \<Rightarrow> pe_vlog_end e | None \<Rightarrow> VLogPosition 0 0),
        tm_logical_op_count = logical_op_count, tm_distinct_key_count = distinct_key_count,
        tm_envelope_crc32c = (case envelope of Some e \<Rightarrow> pe_envelope_crc32c e | None \<Rightarrow> 0),
        tm_descriptor_crc32c = 0\<rparr>,
      td_mutations = mutations\<rparr>"

definition prepare_commit ::
  "env \<Rightarrow> validated_write \<Rightarrow> commit_seq \<Rightarrow> (uuid \<times> vlog_position \<times> vlog_geometry) option \<Rightarrow>
   (bytes \<Rightarrow> bytes option res) \<Rightarrow> (uuid, int option) result \<Rightarrow> prepared_commit res" where
  "prepare_commit E w head_seq vlog_context get_user random =
     and_then (map_err (\<lambda>_. permanent_capacity_exceeded (vw_public_operation w))
                (next_commit_seq head_seq)) (\<lambda>seq.
     and_then (try_vec_with_capacity E (length (vw_distinct_keys w)) (vw_public_operation w)
                ''BeforeStates'') (\<lambda>_.
     and_then (read_before_states get_user (vw_public_operation w) (vw_distinct_keys w))
       (\<lambda>before_states.
     and_then (allocate_tx_uuid random (vw_public_operation w)) (\<lambda>tx_uuid.
     let kind = vw_transaction_kind w in
     and_then (commit_envelope E w kind seq tx_uuid vlog_context) (\<lambda>envelope.
     and_then (build_key_plans E w before_states kind (map_option pe_value_pointers envelope))
       (\<lambda>key_plans.
     and_then (ok_or (u64_try_from (length (nw_operations (vw_normalized w))))
                (protocol_capacity_exceeded (vw_public_operation w))) (\<lambda>logical_op_count.
     and_then (ok_or (u64_try_from (length key_plans))
                (protocol_capacity_exceeded (vw_public_operation w))) (\<lambda>distinct_key_count.
     and_then (descriptor_mutations E key_plans (vw_public_operation w)) (\<lambda>mutations.
     and_then (map_err (\<lambda>error. remap_preflight error (vw_public_operation w))
                (encode_descriptor E (commit_descriptor kind seq tx_uuid head_seq envelope
                   logical_op_count distinct_key_count mutations))) (\<lambda>encoded_descriptor.
     and_then (build_index_batch E key_plans encoded_descriptor seq (vw_public_operation w))
       (\<lambda>index_batch.
       Ok \<lparr>pc_commit_seq = seq, pc_tx_uuid = tx_uuid, pc_transaction_kind = kind,
           pc_envelope = envelope, pc_index_batch = index_batch,
           pc_sync = nw_sync (vw_normalized w)\<rparr>)))))))))))"

section \<open>Validated writes\<close>

fun nop_ok :: "normalized_operation \<Rightarrow> bool" where
  "nop_ok (NPut key val) \<longleftrightarrow> key \<noteq> [] \<and> length key + length val \<le> 60000"
| "nop_ok (NDelete key) \<longleftrightarrow> key \<noteq> [] \<and> length key \<le> 60000"

abbreviation write_ops :: "validated_write \<Rightarrow> normalized_operation list" where
  "write_ops w \<equiv> nw_operations (vw_normalized w)"

text \<open>
  What validation establishes: operations within the limits, each distinct key once, and for each
  operation the position of its key among them.
\<close>

definition write_ok :: "validated_write \<Rightarrow> bool" where
  "write_ok w \<longleftrightarrow>
     write_ops w \<noteq> [] \<and> length (write_ops w) < 2 ^ 32 \<and> list_all nop_ok (write_ops w)
     \<and> distinct (vw_distinct_keys w) \<and> set (vw_distinct_keys w) = nkey ` set (write_ops w)
     \<and> length (vw_operation_ordinals w) = length (write_ops w)
     \<and> (\<forall>i < length (write_ops w). vw_operation_ordinals w ! i < length (vw_distinct_keys w)
          \<and> vw_distinct_keys w ! (vw_operation_ordinals w ! i) = nkey (write_ops w ! i))"

lemma protocol_validate_key_Ok:
  "protocol_validate_key key operation = Ok u \<longleftrightarrow> key \<noteq> [] \<and> length key \<le> 60000"
  by (auto simp: protocol_validate_key_def result_simps u16_try_from_def)

lemma validate_put_Ok:
  "validate_put key val operation = Ok u \<longleftrightarrow> nop_ok (NPut key val)"
  by (auto simp: validate_put_def result_simps protocol_validate_key_Ok u16_try_from_def
      usize_checked_add_def usize_max_def)

lemma validate_put_encoding_Ok:
  "validate_put_encoding key val operation = Ok u \<longleftrightarrow> nop_ok (NPut key val)"
  by (auto simp: validate_put_encoding_def result_simps validate_put_Ok usize_checked_add_def
      usize_max_def MIN_KV_RECORD_LEN_def MAX_KV_RECORD_LEN_def u32_try_from_def word_less_nat_alt
      simp del: of_nat_add)

lemma validate_delete_encoding_Ok:
  "validate_delete_encoding key operation = Ok u \<longleftrightarrow> nop_ok (NDelete key)"
  by (auto simp: validate_delete_encoding_def result_simps protocol_validate_key_Ok
      usize_checked_add_def usize_max_def MIN_DELETE_RECORD_LEN_def u32_try_from_def)

lemma validate_encodings_Ok:
  "validate_encodings operation ops = Ok u \<longleftrightarrow> list_all nop_ok ops"
  by (induction ops) (auto simp: result_simps validate_put_encoding_Ok validate_delete_encoding_Ok
      split: normalized_operation.splits)

lemma validate_operation_count_Ok:
  "validate_operation_count n m operation = Ok u \<longleftrightarrow> n \<le> m \<and> n < 2 ^ 32"
  by (auto simp: validate_operation_count_def result_simps usize_checked_add_def usize_max_def
      u32_try_from_def u64_try_from_def)

lemma assign_ordinals_Ok:
  assumes "distinct ks" "\<And>k i. om k = Some i \<longleftrightarrow> i < length ks \<and> ks ! i = k"
    and "length ks + length ops < 2 ^ 64"
  shows "\<exists>ks' os'. assign_ordinals operation om ks os ops = Ok (ks @ ks', os @ os')
     \<and> distinct (ks @ ks') \<and> set (ks @ ks') = set ks \<union> nkey ` set ops \<and> length ks' \<le> length ops
     \<and> length os' = length ops
     \<and> (\<forall>i < length ops. os' ! i < length (ks @ ks') \<and> (ks @ ks') ! (os' ! i) = nkey (ops ! i))"
  using assms
proof (induction ops arbitrary: om ks os)
  case (Cons op ops)
  show ?case
  proof (cases "om (nkey op)")
    case None
    have new: "nkey op \<notin> set ks"
      using None Cons.prems(2) by (metis in_set_conv_nth option.distinct(1))
    have upd: "(om(nkey op \<mapsto> length ks)) k = Some i \<longleftrightarrow> i < length (ks @ [nkey op]) \<and> (ks @ [nkey op]) ! i = k"
      for k i
      using new None Cons.prems(2) [of k i] by (auto simp: nth_append less_Suc_eq)
    have d: "distinct (ks @ [nkey op])" and n: "length (ks @ [nkey op]) + length ops < 2 ^ 64"
      using Cons.prems new by auto
    obtain ks' os' where r: "assign_ordinals operation (om(nkey op \<mapsto> length ks)) (ks @ [nkey op])
        (os @ [length ks]) ops = Ok ((ks @ [nkey op]) @ ks', (os @ [length ks]) @ os')"
      and p: "distinct ((ks @ [nkey op]) @ ks')" "set ((ks @ [nkey op]) @ ks') = set (ks @ [nkey op]) \<union> nkey ` set ops"
        "length ks' \<le> length ops" "length os' = length ops"
        "\<forall>i < length ops. os' ! i < length ((ks @ [nkey op]) @ ks')
           \<and> ((ks @ [nkey op]) @ ks') ! (os' ! i) = nkey (ops ! i)"
      using Cons.IH [OF d upd n] by blast
    show ?thesis
      by (rule exI [of _ "nkey op # ks'"], rule exI [of _ "length ks # os'"])
        (use r p None Cons.prems(3) in \<open>auto simp: u64_try_from_def nth_Cons split: nat.splits\<close>)
  next
    case (Some i)
    then have i: "i < length ks" "ks ! i = nkey op" using Cons.prems(2) by auto
    have n: "length ks + length ops < 2 ^ 64" using Cons.prems(3) by simp
    obtain ks' os' where r: "assign_ordinals operation om ks (os @ [i]) ops = Ok (ks @ ks', (os @ [i]) @ os')"
      and p: "distinct (ks @ ks')" "set (ks @ ks') = set ks \<union> nkey ` set ops" "length ks' \<le> length ops"
        "length os' = length ops"
        "\<forall>i < length ops. os' ! i < length (ks @ ks') \<and> (ks @ ks') ! (os' ! i) = nkey (ops ! i)"
      using Cons.IH [OF Cons.prems(1,2) n] by blast
    show ?thesis
      by (rule exI [of _ ks'], rule exI [of _ "i # os'"])
        (use r p Some i nth_mem [OF i(1)] in \<open>auto simp: nth_append nth_Cons split: nat.splits\<close>)
  qed
qed simp

lemma validate_normalized_spec:
  "validate_normalized E n operation m = Ok w \<Longrightarrow> write_ok w \<and> vw_normalized w = n \<and> vw_public_operation w = operation"
  "nw_operations n \<noteq> [] \<Longrightarrow> list_all nop_ok (nw_operations n) \<Longrightarrow> length (nw_operations n) < 2 ^ 32 \<Longrightarrow>
   length (nw_operations n) \<le> m \<Longrightarrow> allocates E \<Longrightarrow> is_ok (validate_normalized E n operation m)"
proof -
  let ?ops = "nw_operations n"
  have a: "\<exists>ks os. assign_ordinals operation Map.empty [] [] ?ops = Ok (ks, os)
      \<and> distinct ks \<and> set ks = nkey ` set ?ops \<and> length ks \<le> length ?ops \<and> length os = length ?ops
      \<and> (\<forall>i < length ?ops. os ! i < length ks \<and> ks ! (os ! i) = nkey (?ops ! i))"
    if "length ?ops < 2 ^ 32"
    using assign_ordinals_Ok [of "[]" Map.empty ?ops operation "[]"] that by auto
  show "write_ok w \<and> vw_normalized w = n \<and> vw_public_operation w = operation"
    if "validate_normalized E n operation m = Ok w"
    using that a
    by (auto simp: validate_normalized_def result_simps Let_def validate_operation_count_Ok
        validate_encodings_Ok write_ok_def split: if_splits)
  show "is_ok (validate_normalized E n operation m)"
    if h: "?ops \<noteq> []" "list_all nop_ok ?ops" "length ?ops < 2 ^ 32" "length ?ops \<le> m" "allocates E"
  proof -
    have "validate_operation_count (length ?ops) m operation = Ok ()"
      "validate_encodings operation ?ops = Ok ()"
      using h by (simp_all add: validate_operation_count_Ok validate_encodings_Ok)
    then show ?thesis
      using h a by (auto simp: validate_normalized_def Let_def try_vec_with_capacity_def u64_try_from_def
          usize_checked_mul_def usize_checked_add_def usize_max_def)
  qed
qed


lemma nop_ok_normalize [simp]: "nop_ok (normalize op) \<longleftrightarrow> valid_operation op"
  by (cases op) simp_all

lemma preflight_batch_Ok:
  "preflight_batch E b sync = Ok w \<Longrightarrow>
     write_ok w \<and> write_ops w = map normalize (operations b) \<and> nw_sync (vw_normalized w) = sync"
  by (auto simp: preflight_batch_def preflight_batch_with_operation_limit_def result_simps
      dest!: validate_normalized_spec(1))

lemma preflight_batch_total:
  "allocates E \<Longrightarrow> batch_inv b \<Longrightarrow> operations b \<noteq> [] \<Longrightarrow> is_ok (preflight_batch E b sync)"
  by (auto simp: preflight_batch_def preflight_batch_with_operation_limit_def batch_inv_def
      validate_operation_count_Ok validate_encodings_Ok try_vec_with_capacity_def WriteBatch_len_def
      list.pred_map comp_def is_ok_iff result_simps
      intro!: validate_normalized_spec(2) [unfolded is_ok_iff])

section \<open>Key plans\<close>

text \<open>The state of a key after a write: what the last operation on it says.\<close>

fun pointer_state :: "value_pointer option \<Rightarrow> value_state" where
  "pointer_state None = Absent"
| "pointer_state (Some p) = Present p"

fun final_state ::
  "(normalized_operation \<times> value_pointer option) list \<Rightarrow> bytes \<Rightarrow> value_state \<Rightarrow> value_state" where
  "final_state [] key state = state"
| "final_state ((op, p) # rest) key state =
     final_state rest key (if nkey op = key then pointer_state p else state)"

definition op_pointers_of ::
  "normalized_operation list \<Rightarrow> value_pointer option list option \<Rightarrow> value_pointer option list" where
  "op_pointers_of ops vps = (case vps of Some ps \<Rightarrow> ps | None \<Rightarrow> replicate (length ops) None)"

definition pointers_fit :: "normalized_operation list \<Rightarrow> value_pointer option list \<Rightarrow> bool" where
  "pointers_fit ops ps \<longleftrightarrow> list_all2 (\<lambda>op p. is_nput op \<longleftrightarrow> p \<noteq> None) ops ps"

lemma operation_after_state_Ok:
  assumes "case (kind, vps) of (VLogEnvelope, Some ps) \<Rightarrow> length ps = length ops
      | (IndexOnlyDelete, None) \<Rightarrow> True | _ \<Rightarrow> False"
    and "i < length ops"
  shows "operation_after_state kind vps i (ops ! i) operation = Ok s \<longleftrightarrow>
    (is_nput (ops ! i) \<longleftrightarrow> op_pointers_of ops vps ! i \<noteq> None) \<and> s = pointer_state (op_pointers_of ops vps ! i)"
proof (cases "ops ! i"; cases kind; cases vps)
  fix k v ps assume "ops ! i = NPut k v" "kind = VLogEnvelope" "vps = Some ps"
  then show ?thesis using assms
    by (cases "ps ! i") (auto simp: operation_after_state_def op_pointers_of_def)
next
  fix k ps assume "ops ! i = NDelete k" "kind = VLogEnvelope" "vps = Some ps"
  then show ?thesis using assms
    by (cases "ps ! i") (auto simp: operation_after_state_def op_pointers_of_def)
qed (use assms in \<open>auto simp: operation_after_state_def op_pointers_of_def\<close>)

lemma initial_plans_Ok:
  "length bs = length ks \<Longrightarrow> initial_plans E operation ks bs = Ok plans \<Longrightarrow>
   plans = map (\<lambda>(k, b). \<lparr>kp_user_key = k, kp_before_state = b, kp_after_state = b\<rparr>) (zip ks bs)"
proof (induction ks arbitrary: bs plans)
  case (Cons k ks)
  then show ?case by (cases bs) (auto simp: result_simps try_clone_bytes_def)
qed simp

lemma initial_plans_total: "allocates E \<Longrightarrow> is_ok (initial_plans E operation ks bs)"
  by (induction E operation ks bs rule: initial_plans.induct)
    (auto simp: is_ok_iff result_simps try_clone_bytes_def)

text \<open>Applying the operations updates one plan at a time; key by key that is \<open>final_state\<close>.\<close>

lemma plan_update:
  assumes "distinct (map kp_user_key plans)" "j < length plans" "kp_user_key (plans ! j) = nkey op"
  shows "map (\<lambda>q. q\<lparr>kp_after_state := final_state xs (kp_user_key q) (kp_after_state q)\<rparr>)
      (plans[j := (plans ! j)\<lparr>kp_after_state := pointer_state p\<rparr>])
    = map (\<lambda>q. q\<lparr>kp_after_state := final_state ((op, p) # xs) (kp_user_key q) (kp_after_state q)\<rparr>) plans"
proof (rule nth_equalityI)
  fix i assume "i < length (map (\<lambda>q. q\<lparr>kp_after_state := final_state xs (kp_user_key q) (kp_after_state q)\<rparr>)
      (plans[j := (plans ! j)\<lparr>kp_after_state := pointer_state p\<rparr>]))"
  then have i: "i < length plans" by simp
  moreover have "kp_user_key (plans ! i) = nkey op \<longleftrightarrow> i = j"
    using assms i nth_eq_iff_index_eq [OF assms(1), of i j] by simp
  ultimately show "map (\<lambda>q. q\<lparr>kp_after_state := final_state xs (kp_user_key q) (kp_after_state q)\<rparr>)
      (plans[j := (plans ! j)\<lparr>kp_after_state := pointer_state p\<rparr>]) ! i
    = map (\<lambda>q. q\<lparr>kp_after_state := final_state ((op, p) # xs) (kp_user_key q) (kp_after_state q)\<rparr>) plans ! i"
    by (cases "i = j") simp_all
qed simp

lemma apply_operations_Ok:
  assumes "distinct (map kp_user_key plans)" "length ords = length ops" "length ps = length ops"
    and "\<forall>i < length ops. ords ! i < length plans \<and> kp_user_key (plans ! (ords ! i)) = nkey (ops ! i)"
    and "\<forall>i < length ops. \<forall>s. operation_after_state kind vps (n + i) (ops ! i) operation = Ok s \<longleftrightarrow>
      (is_nput (ops ! i) \<longleftrightarrow> ps ! i \<noteq> None) \<and> s = pointer_state (ps ! i)"
  shows "apply_operations kind vps operation n plans (zip ops ords) = Ok plans' \<longleftrightarrow>
    pointers_fit ops ps \<and>
    plans' = map (\<lambda>q. q\<lparr>kp_after_state := final_state (zip ops ps) (kp_user_key q) (kp_after_state q)\<rparr>) plans"
  using assms
proof (induction ops arbitrary: n plans ords ps)
  case Nil
  then show ?case by (auto simp: pointers_fit_def)
next
  case (Cons op ops)
  obtain j ords' p ps' where l: "ords = j # ords'" "ps = p # ps'"
    using Cons.prems(2,3) by (cases ords; cases ps) auto
  let ?plan = "plans ! j" and ?s = "pointer_state p"
  let ?plans = "plans[j := ?plan\<lparr>kp_after_state := ?s\<rparr>]"
  have j: "j < length plans" "kp_user_key ?plan = nkey op" using Cons.prems(4) by (auto simp: l)
  have u: "map kp_user_key ?plans = map kp_user_key plans"
    using j(1) by (simp add: map_update list_update_same_conv)
  have q: "ords' ! i < length ?plans \<and> kp_user_key (?plans ! (ords' ! i)) = nkey (ops ! i)"
    if "i < length ops" for i
    using that Cons.prems(4) [rule_format, of "Suc i"] arg_cong [OF u, of "\<lambda>xs. xs ! (ords' ! i)"]
    by (simp add: l)
  have st: "operation_after_state kind vps n op operation = Ok s \<longleftrightarrow> (is_nput op \<longleftrightarrow> p \<noteq> None) \<and> s = ?s" for s
    using Cons.prems(5) [rule_format, of 0] by (simp add: l)
  have IH: "apply_operations kind vps operation (Suc n) ?plans (zip ops ords') = Ok plans' \<longleftrightarrow>
      pointers_fit ops ps' \<and>
      plans' = map (\<lambda>q. q\<lparr>kp_after_state := final_state (zip ops ps') (kp_user_key q) (kp_after_state q)\<rparr>) ?plans"
  proof (rule Cons.IH)
    show "distinct (map kp_user_key ?plans)" unfolding u by (rule Cons.prems(1))
    show "\<forall>i < length ops. \<forall>s. operation_after_state kind vps (Suc n + i) (ops ! i) operation = Ok s \<longleftrightarrow>
      (is_nput (ops ! i) \<longleftrightarrow> ps' ! i \<noteq> None) \<and> s = pointer_state (ps' ! i)"
    proof (intro allI impI)
      fix i s assume "i < length ops"
      then show "operation_after_state kind vps (Suc n + i) (ops ! i) operation = Ok s \<longleftrightarrow>
          (is_nput (ops ! i) \<longleftrightarrow> ps' ! i \<noteq> None) \<and> s = pointer_state (ps' ! i)"
        using Cons.prems(5) [rule_format, of "Suc i" s] by (simp add: l)
    qed
    show "\<forall>i < length ops. ords' ! i < length ?plans \<and> kp_user_key (?plans ! (ords' ! i)) = nkey (ops ! i)"
      using q by blast
  qed (use Cons.prems(2,3) in \<open>simp_all add: l\<close>)
  show ?case
    using st IH j by (auto simp: l result_simps pointers_fit_def plan_update [OF Cons.prems(1) j])
qed

lemma build_key_plans_Ok:
  assumes "write_ok w" and "length befores = length (vw_distinct_keys w)"
    and "build_key_plans E w befores kind vps = Ok plans"
  shows "pointers_fit (write_ops w) (op_pointers_of (write_ops w) vps)"
    and "plans = map (\<lambda>(k, b). \<lparr>kp_user_key = k, kp_before_state = b,
      kp_after_state = final_state (zip (write_ops w) (op_pointers_of (write_ops w) vps)) k b\<rparr>)
      (zip (vw_distinct_keys w) befores)"
proof -
  let ?ops = "write_ops w" and ?ps = "op_pointers_of (write_ops w) vps" and ?op = "vw_public_operation w"
  let ?init = "map (\<lambda>(k, b). \<lparr>kp_user_key = k, kp_before_state = b, kp_after_state = b\<rparr>)
      (zip (vw_distinct_keys w) befores)"
  have c: "case (kind, vps) of (VLogEnvelope, Some ps) \<Rightarrow> length ps = length ?ops
      | (IndexOnlyDelete, None) \<Rightarrow> True | _ \<Rightarrow> False"
    and a: "apply_operations kind vps ?op 0 ?init (zip ?ops (vw_operation_ordinals w)) = Ok plans"
    using assms(3) initial_plans_Ok [OF assms(2)]
    by (auto simp: build_key_plans_def Let_def result_simps split: if_splits)
  have k: "map kp_user_key ?init = vw_distinct_keys w"
    using assms(2) by (simp add: comp_def case_prod_unfold)
  have p: "length ?ps = length ?ops" using c by (auto simp: op_pointers_of_def split: option.splits transaction_kind.splits)
  have r: "pointers_fit ?ops ?ps \<and> plans = map (\<lambda>q. q\<lparr>kp_after_state :=
      final_state (zip ?ops ?ps) (kp_user_key q) (kp_after_state q)\<rparr>) ?init"
  proof (rule iffD1 [OF apply_operations_Ok a])
    show "\<forall>i < length ?ops. vw_operation_ordinals w ! i < length ?init
        \<and> kp_user_key (?init ! (vw_operation_ordinals w ! i)) = nkey (?ops ! i)"
      using assms(1,2) by (auto simp: write_ok_def)
    show "\<forall>i < length ?ops. \<forall>s. operation_after_state kind vps (0 + i) (?ops ! i) ?op = Ok s \<longleftrightarrow>
      (is_nput (?ops ! i) \<longleftrightarrow> ?ps ! i \<noteq> None) \<and> s = pointer_state (?ps ! i)"
      using operation_after_state_Ok [OF c] by simp
  qed (use assms k p in \<open>simp_all add: write_ok_def\<close>)
  then show "pointers_fit ?ops ?ps" by simp
  show "plans = map (\<lambda>(k, b). \<lparr>kp_user_key = k, kp_before_state = b,
      kp_after_state = final_state (zip ?ops ?ps) k b\<rparr>) (zip (vw_distinct_keys w) befores)"
    using r by (auto simp: comp_def)
qed

section \<open>The index batch of a transaction\<close>

definition pointer_bytes :: "value_pointer \<Rightarrow> bytes" where
  "pointer_bytes p = u16_to_le_bytes (vp_format_version p) @ u32_to_le_bytes (vp_file_id p)
     @ u32_to_le_bytes (vp_record_offset p) @ u32_to_le_bytes (vp_record_len p)
     @ u16_to_le_bytes (vp_value_len p)"

lemma ValuePointer_encode_iff: "ValuePointer_encode p = Ok bs \<longleftrightarrow> pointer_ok p \<and> bs = pointer_bytes p"
  by (auto simp: ValuePointer_encode_def result_simps ValuePointer_validate_fields_Ok pointer_bytes_def)

lemma pointer_bytes_nonempty [simp]: "pointer_bytes p \<noteq> []"
proof -
  have "length (pointer_bytes p) = 16" by (simp add: pointer_bytes_def)
  then show ?thesis by (metis list.size(3) zero_neq_numeral)
qed

fun state_ok :: "value_state \<Rightarrow> bool" where
  "state_ok Absent = True"
| "state_ok (Present p) = pointer_ok p"

fun state_bytes :: "value_state \<Rightarrow> bytes option" where
  "state_bytes Absent = None"
| "state_bytes (Present p) = Some (pointer_bytes p)"

definition plan_mutation :: "key_plan \<Rightarrow> index_mutation" where
  "plan_mutation p = (case kp_after_state p of
     Absent \<Rightarrow> DeleteUser (kp_user_key p) | Present q \<Rightarrow> PutUser (kp_user_key p) (pointer_bytes q))"

definition commit_mutations ::
  "key_plan list \<Rightarrow> encoded_descriptor \<Rightarrow> commit_seq \<Rightarrow> index_mutation list" where
  "commit_mutations plans d seq =
     map plan_mutation plans
     @ [PutInternal TransactionSpace (ed_meta_key d) (ed_meta_value d)]
     @ map (\<lambda>m. PutInternal TransactionSpace (em_key m) (em_value m)) (ed_mutations d)
     @ [PutInternal SystemSpace HEAD_SEQ_KEY (encode_head_seq seq)]"

lemma try_clone_bytes_Ok [simp]:
  "try_clone_bytes E bs operation site = Ok cs \<longleftrightarrow> can_alloc E site (length bs) \<and> cs = bs"
  by (auto simp: try_clone_bytes_def result_simps)

lemma push_index_Ok:
  "push_index E b m operation = Ok b' \<longleftrightarrow> validate_ordinary_mutation m = Ok ()
     \<and> can_alloc E ''IndexOperation'' (Suc (length (ib_operations b)))
     \<and> b' = \<lparr>ib_operations = ib_operations b @ [m]\<rparr>"
  by (auto simp: push_index_def IndexAtomicBatch_try_push_def result_simps)

lemma user_mutation_Ok:
  "user_mutation E operation plan = Ok m \<Longrightarrow> m = plan_mutation plan \<and> state_ok (kp_after_state plan)"
  by (auto simp: user_mutation_def plan_mutation_def result_simps ValuePointer_encode_iff
      split: value_state.splits)

lemma push_user_mutations_Ok:
  "push_user_mutations E operation b plans = Ok b' \<Longrightarrow>
     ib_operations b' = ib_operations b @ map plan_mutation plans
     \<and> (\<forall>p \<in> set plans. state_ok (kp_after_state p) \<and> validate_ordinary_mutation (plan_mutation p) = Ok ())"
  by (induction plans arbitrary: b)
    (auto simp: result_simps push_index_Ok dest!: user_mutation_Ok)

lemma push_descriptor_mutations_Ok:
  "push_descriptor_mutations E operation b ms = Ok b' \<Longrightarrow>
     ib_operations b' = ib_operations b @ map (\<lambda>m. PutInternal TransactionSpace (em_key m) (em_value m)) ms
     \<and> (\<forall>m \<in> set ms. validate_ordinary_mutation (PutInternal TransactionSpace (em_key m) (em_value m)) = Ok ())"
  by (induction ms arbitrary: b) (auto simp: result_simps push_index_Ok simp del: validate_ordinary_mutation.simps)

lemma build_index_batch_Ok:
  assumes "build_index_batch E plans d seq operation = Ok b"
  shows "ib_operations b = commit_mutations plans d seq"
    and "\<forall>p \<in> set plans. state_ok (kp_after_state p)"
    and "\<forall>m \<in> set (ib_operations b). validate_ordinary_mutation m = Ok ()"
proof -
  obtain b1 b2 b3 where "push_user_mutations E operation \<lparr>ib_operations = []\<rparr> plans = Ok b1"
    "push_index E b1 (PutInternal TransactionSpace (ed_meta_key d) (ed_meta_value d)) operation = Ok b2"
    "push_descriptor_mutations E operation b2 (ed_mutations d) = Ok b3"
    "push_index E b3 (PutInternal SystemSpace HEAD_SEQ_KEY (encode_head_seq seq)) operation = Ok b"
    using assms by (auto simp: build_index_batch_def result_simps IndexAtomicBatch_try_with_capacity_def
        split: if_splits)
  then show "ib_operations b = commit_mutations plans d seq"
    "\<forall>p \<in> set plans. state_ok (kp_after_state p)"
    "\<forall>m \<in> set (ib_operations b). validate_ordinary_mutation m = Ok ()"
    by (auto simp: commit_mutations_def push_index_Ok simp del: validate_ordinary_mutation.simps
        dest!: push_user_mutations_Ok push_descriptor_mutations_Ok)
qed

lemma encode_tx_keys:
  "encode_tx_meta_key seq = Ok bs \<longleftrightarrow> seq \<noteq> 0 \<and> bs = tx_meta_key seq"
  "encode_tx_mutation_key seq k = Ok bs \<longleftrightarrow> seq \<noteq> 0 \<and> bs = tx_mutation_key seq k"
  by (auto simp: encode_tx_meta_key_def encode_tx_mutation_key_def tx_meta_key_def tx_mutation_key_def)

lemma mutation_keys:
  assumes "encode_mutations E seq seen i ms = Ok es" "i \<le> 2 ^ 64"
  shows "map em_key es = map (\<lambda>j. tx_mutation_key seq (word_of_nat j)) [i..<i + length ms]
     \<and> i + length ms \<le> 2 ^ 64"
  using assms
proof (induction ms arbitrary: seen i es)
  case (Cons m ms)
  then obtain es' where e: "encode_mutations E seq (insert (mu_user_key m) seen) (Suc i) ms = Ok es'"
    "map em_key es = tx_mutation_key seq (word_of_nat i) # map em_key es'" "i < 2 ^ 64"
    by (auto simp: result_simps encode_tx_keys u64_try_from_Some split: if_splits)
  have "[i..<i + length (m # ms)] = i # [Suc i..<Suc i + length ms]"
    by (subst upt_conv_Cons) simp_all
  then show ?case using Cons.IH [OF e(1)] e(2,3) by simp
qed simp

lemma tx_mutation_key_inject [simp]:
  "tx_mutation_key a i = tx_mutation_key b j \<longleftrightarrow> a = b \<and> i = j"
  by (auto simp: tx_mutation_key_def)

lemma tx_keys_differ [simp]: "tx_meta_key a \<noteq> tx_mutation_key b i" "tx_mutation_key b i \<noteq> tx_meta_key a"
proof -
  have "length (tx_meta_key a) \<noteq> length (tx_mutation_key b i)"
    by (simp add: tx_meta_key_def tx_mutation_key_def)
  then show "tx_meta_key a \<noteq> tx_mutation_key b i" "tx_mutation_key b i \<noteq> tx_meta_key a" by metis+
qed

lemma word_of_nat_inj_on: "inj_on (word_of_nat :: nat \<Rightarrow> u64) {..<2 ^ 64}"
  by (rule inj_on_inverseI [where g = unat]) simp

lemma mutation_keys_distinct:
  assumes "encode_mutations E seq seen 0 ms = Ok es"
  shows "distinct (map em_key es)" "tx_meta_key a \<notin> set (map em_key es)"
proof -
  have m: "map em_key es = map (\<lambda>j. tx_mutation_key seq (word_of_nat j)) [0..<length ms]"
    "length ms \<le> 2 ^ 64" using mutation_keys [OF assms] by simp_all
  have "inj_on (\<lambda>j. tx_mutation_key seq (word_of_nat j)) (set [0..<length ms])"
    using m(2) inj_on_subset [OF word_of_nat_inj_on, of "{..<length ms}"] by (auto simp: inj_on_def)
  then show "distinct (map em_key es)" unfolding m by (simp add: distinct_map)
  show "tx_meta_key a \<notin> set (map em_key es)" unfolding m by auto
qed

lemma plan_mutation_target [simp]:
  "write_target (keyspace_write_of (plan_mutation p)) = (UserKeyspace, kp_user_key p)"
  "write_result (keyspace_write_of (plan_mutation p)) = state_bytes (kp_after_state p)"
  by (auto simp: plan_mutation_def split: value_state.splits)

lemma commit_mutations_distinct:
  assumes "distinct (map kp_user_key plans)" "distinct (ed_meta_key d # map em_key (ed_mutations d))"
  shows "distinct_targets (map keyspace_write_of (commit_mutations plans d seq))"
  using assms by (auto simp: distinct_targets_def commit_mutations_def comp_def distinct_map inj_on_def)

text \<open>What the batch leaves in the index.\<close>

lemma commit_mutations_effect:
  assumes "distinct (map kp_user_key plans)" "distinct (ed_meta_key d # map em_key (ed_mutations d))"
    and "V' = apply_writes (map keyspace_write_of (commit_mutations plans d seq)) V"
  shows "p \<in> set plans \<Longrightarrow> V' UserKeyspace (kp_user_key p) = state_bytes (kp_after_state p)"
    and "k \<notin> set (map kp_user_key plans) \<Longrightarrow> V' UserKeyspace k = V UserKeyspace k"
    and "V' TransactionKeyspace (ed_meta_key d) = Some (ed_meta_value d)"
    and "m \<in> set (ed_mutations d) \<Longrightarrow> V' TransactionKeyspace (em_key m) = Some (em_value m)"
    and "k \<notin> set (ed_meta_key d # map em_key (ed_mutations d)) \<Longrightarrow>
      V' TransactionKeyspace k = V TransactionKeyspace k"
    and "V' SystemKeyspace = (V SystemKeyspace)(HEAD_SEQ_KEY \<mapsto> encode_head_seq seq)"
proof -
  note d = commit_mutations_distinct [OF assms(1,2), of seq]
  let ?ws = "map keyspace_write_of (commit_mutations plans d seq)"
  have t: "V' ks k = write_result w" if "w \<in> set ?ws" "write_target w = (ks, k)" for w ks k
    unfolding assms(3) by (rule apply_writes_same [OF d that])
  have n: "V' ks k = V ks k" if "(ks, k) \<notin> write_target ` set ?ws" for ks k
    unfolding assms(3) by (rule apply_writes_other [OF that])
  show "V' UserKeyspace (kp_user_key p) = state_bytes (kp_after_state p)" if "p \<in> set plans"
    using t [of "keyspace_write_of (plan_mutation p)"] that by (simp add: commit_mutations_def)
  show "V' UserKeyspace k = V UserKeyspace k" if "k \<notin> set (map kp_user_key plans)"
    by (rule n) (use that in \<open>auto simp: commit_mutations_def\<close>)
  show "V' TransactionKeyspace (ed_meta_key d) = Some (ed_meta_value d)"
    using t [of "KsInsert TransactionKeyspace (ed_meta_key d) (ed_meta_value d)"]
    by (simp add: commit_mutations_def)
  show "V' TransactionKeyspace (em_key m) = Some (em_value m)" if "m \<in> set (ed_mutations d)"
    using t [of "KsInsert TransactionKeyspace (em_key m) (em_value m)"] that
    by (auto simp: commit_mutations_def)
  show "V' TransactionKeyspace k = V TransactionKeyspace k"
    if "k \<notin> set (ed_meta_key d # map em_key (ed_mutations d))"
    by (rule n) (use that in \<open>auto simp: commit_mutations_def\<close>)
  show "V' SystemKeyspace = (V SystemKeyspace)(HEAD_SEQ_KEY \<mapsto> encode_head_seq seq)"
  proof
    fix k
    have "V' SystemKeyspace k = V SystemKeyspace k" if "k \<noteq> HEAD_SEQ_KEY"
      by (rule n) (use that in \<open>auto simp: commit_mutations_def\<close>)
    then show "V' SystemKeyspace k = ((V SystemKeyspace)(HEAD_SEQ_KEY \<mapsto> encode_head_seq seq)) k"
      using t [of "KsInsert SystemKeyspace HEAD_SEQ_KEY (encode_head_seq seq)"]
      by (simp add: commit_mutations_def)
  qed
qed

section \<open>Prepared commits\<close>

lemma decode_before_state_pointer_Ok:
  "decode_before_state_pointer bs key operation = Ok s \<Longrightarrow> state_bytes s = Some bs \<and> state_ok s"
  by (auto simp: decode_before_state_pointer_def result_simps vp.dec_iff_enc ValuePointer_encode_iff
      split: if_splits)

lemma read_before_states_Ok:
  "read_before_states get_user operation ks = Ok ss \<Longrightarrow>
     list_all2 (\<lambda>k s. get_user k = Ok (state_bytes s) \<and> state_ok s) ks ss"
proof (induction ks arbitrary: ss)
  case (Cons k ks)
  then obtain v s ss' where "get_user k = Ok v" "ss = s # ss'"
    "read_before_states get_user operation ks = Ok ss'"
    "(case v of None \<Rightarrow> Ok Absent | Some bs \<Rightarrow> decode_before_state_pointer bs k operation) = Ok s"
    by (auto simp: result_simps)
  then show ?case using Cons.IH
    by (auto split: option.splits dest: decode_before_state_pointer_Ok)
qed simp

lemma descriptor_mutation_list_Ok:
  "descriptor_mutation_list E operation plans = Ok ms \<Longrightarrow>
     ms = map (\<lambda>p. \<lparr>mu_user_key = kp_user_key p, mu_before_state = kp_before_state p,
                   mu_after_state = kp_after_state p\<rparr>) plans"
  by (induction plans arbitrary: ms) (auto simp: result_simps)

lemma final_state_append: "final_state (xs @ ys) k s = final_state ys k (final_state xs k s)"
  by (induction xs k s rule: final_state.induct) auto

lemma final_state_other: "k \<notin> nkey ` fst ` set xs \<Longrightarrow> final_state xs k s = s"
  by (induction xs k s rule: final_state.induct) auto

lemma final_state_last:
  assumes "length ps = length ops" "i < length ops" "nkey (ops ! i) = k"
    and "\<And>j. i < j \<Longrightarrow> j < length ops \<Longrightarrow> nkey (ops ! j) \<noteq> k"
  shows "final_state (zip ops ps) k s = pointer_state (ps ! i)"
proof -
  let ?z = "zip ops ps"
  have z: "?z = take i ?z @ (ops ! i, ps ! i) # drop (Suc i) ?z"
    using assms by (simp add: id_take_nth_drop [of i ?z, symmetric] nth_zip [symmetric] del: nth_zip)
  have n: "k \<notin> nkey ` fst ` set (drop (Suc i) ?z)"
  proof
    assume "k \<in> nkey ` fst ` set (drop (Suc i) ?z)"
    then obtain j where "j < length (drop (Suc i) ?z)" "nkey (fst (drop (Suc i) ?z ! j)) = k"
      by (auto simp: in_set_conv_nth)
    moreover from this have "Suc i + j < length ops" using assms(1) by simp
    ultimately show False using assms(1) assms(4) [of "Suc i + j"] by simp
  qed
  have "final_state ?z k s = final_state (take i ?z @ (ops ! i, ps ! i) # drop (Suc i) ?z) k s"
    using z by (rule arg_cong)
  also have "\<dots> = pointer_state (ps ! i)"
    by (simp only: final_state_append final_state.simps assms(3) simp_thms if_True final_state_other [OF n])
  finally show ?thesis .
qed

text \<open>The stages of a successful preparation.\<close>

definition prepared_by ::
  "env \<Rightarrow> validated_write \<Rightarrow> commit_seq \<Rightarrow> (bytes \<Rightarrow> bytes option res) \<Rightarrow> prepared_commit \<Rightarrow>
   value_state list \<Rightarrow> key_plan list \<Rightarrow> encoded_descriptor \<Rightarrow> bool" where
  "prepared_by E w head get_user pc befores plans ed \<longleftrightarrow>
     pc_commit_seq pc = head + 1 \<and> pc_transaction_kind pc = vw_transaction_kind w
     \<and> list_all2 (\<lambda>k s. get_user k = Ok (state_bytes s) \<and> state_ok s) (vw_distinct_keys w) befores
     \<and> build_key_plans E w befores (vw_transaction_kind w) (map_option pe_value_pointers (pc_envelope pc)) = Ok plans
     \<and> encode_descriptor E (commit_descriptor (vw_transaction_kind w) (head + 1) (pc_tx_uuid pc) head
         (pc_envelope pc) (word_of_nat (length (write_ops w))) (word_of_nat (length plans))
         (map (\<lambda>p. \<lparr>mu_user_key = kp_user_key p, mu_before_state = kp_before_state p,
                   mu_after_state = kp_after_state p\<rparr>) plans)) = Ok ed
     \<and> build_index_batch E plans ed (head + 1) (vw_public_operation w) = Ok (pc_index_batch pc)
     \<and> pc_sync pc = nw_sync (vw_normalized w)"

lemma prepare_commit_Ok:
  assumes "prepare_commit E w head ctx get_user rnd = Ok pc"
  obtains befores plans ed where "prepared_by E w head get_user pc befores plans ed"
    "commit_envelope E w (vw_transaction_kind w) (head + 1) (pc_tx_uuid pc) ctx = Ok (pc_envelope pc)"
    "allocate_tx_uuid rnd (vw_public_operation w) = Ok (pc_tx_uuid pc)"
  using assms
  by (auto simp: prepare_commit_def prepared_by_def Let_def result_simps next_commit_seq_def checked_add_Some
      descriptor_mutations_def u64_try_from_Some
      dest!: read_before_states_Ok descriptor_mutation_list_Ok)


lemma list_all2_nth: "list_all2 P xs ys \<Longrightarrow> i < length xs \<Longrightarrow> P (xs ! i) (ys ! i)"
  by (simp add: list_all2_nthD)

text \<open>
  The effect of a prepared batch on the index whose keys were read: the state of each written key
  goes from its \<open>before\<close> to its \<open>after\<close> state, and the transaction is described under its own keys.
\<close>

lemma prepared_effect:
  assumes "write_ok w" and "prepared_by E w head get_user pc befores plans ed"
    and "\<forall>k v. get_user k = Ok v \<longrightarrow> v = V UserKeyspace k"
    and "V' = apply_writes (batch_writes (pc_index_batch pc)) V"
  shows "distinct_targets (batch_writes (pc_index_batch pc))"
    and "\<forall>m \<in> set (ib_operations (pc_index_batch pc)). validate_ordinary_mutation m = Ok ()"
    and "ib_operations (pc_index_batch pc) \<noteq> []"
    and "\<forall>p \<in> set plans. V UserKeyspace (kp_user_key p) = state_bytes (kp_before_state p)
      \<and> V' UserKeyspace (kp_user_key p) = state_bytes (kp_after_state p) \<and> state_ok (kp_after_state p)"
    and "k \<notin> nkey ` set (write_ops w) \<Longrightarrow> V' UserKeyspace k = V UserKeyspace k"
    and "V' SystemKeyspace = (V SystemKeyspace)(HEAD_SEQ_KEY \<mapsto> encode_head_seq (head + 1))"
    and "V' TransactionKeyspace (ed_meta_key ed) = Some (ed_meta_value ed)"
    and "m \<in> set (ed_mutations ed) \<Longrightarrow> V' TransactionKeyspace (em_key m) = Some (em_value m)"
    and "map kp_user_key plans = vw_distinct_keys w"
    and "distinct (ed_meta_key ed # map em_key (ed_mutations ed))"
proof -
  note P = assms(2) [unfolded prepared_by_def]
  have b: "list_all2 (\<lambda>k s. get_user k = Ok (state_bytes s) \<and> state_ok s) (vw_distinct_keys w) befores"
    and bk: "build_key_plans E w befores (vw_transaction_kind w)
      (map_option pe_value_pointers (pc_envelope pc)) = Ok plans"
    and bi: "build_index_batch E plans ed (head + 1) (vw_public_operation w) = Ok (pc_index_batch pc)"
    using P by blast+
  obtain ms seq where em: "encode_mutations E seq {} 0 ms = Ok (ed_mutations ed)"
    and mk: "encode_tx_meta_key seq = Ok (ed_meta_key ed)"
    using P by (auto simp: encode_descriptor_def Let_def result_simps split: if_splits)
  have len: "length befores = length (vw_distinct_keys w)" using b by (simp add: list_all2_lengthD)
  note plans = build_key_plans_Ok(2) [OF assms(1) len bk]
  show keys: "map kp_user_key plans = vw_distinct_keys w"
    using len by (simp add: plans comp_def case_prod_unfold)
  have d1: "distinct (map kp_user_key plans)" using assms(1) by (simp add: keys write_ok_def)
  show d2: "distinct (ed_meta_key ed # map em_key (ed_mutations ed))"
    using mutation_keys_distinct [OF em] mk by (auto simp: encode_tx_keys)
  note B = build_index_batch_Ok [OF bi]
  have V': "V' = apply_writes (map keyspace_write_of (commit_mutations plans ed (head + 1))) V"
    by (simp add: assms(4) batch_writes_def B)
  note eff = commit_mutations_effect [OF d1 d2 V']
  show "distinct_targets (batch_writes (pc_index_batch pc))"
    using commit_mutations_distinct [OF d1 d2] by (simp add: batch_writes_def B)
  show "\<forall>m \<in> set (ib_operations (pc_index_batch pc)). validate_ordinary_mutation m = Ok ()" by (rule B(3))
  show "ib_operations (pc_index_batch pc) \<noteq> []" by (simp add: B commit_mutations_def)
  show "V' SystemKeyspace = (V SystemKeyspace)(HEAD_SEQ_KEY \<mapsto> encode_head_seq (head + 1))" by (rule eff)
  show "V' TransactionKeyspace (ed_meta_key ed) = Some (ed_meta_value ed)" by (rule eff)
  show "m \<in> set (ed_mutations ed) \<Longrightarrow> V' TransactionKeyspace (em_key m) = Some (em_value m)" by (rule eff)
  show "k \<notin> nkey ` set (write_ops w) \<Longrightarrow> V' UserKeyspace k = V UserKeyspace k"
    using eff(2) [unfolded keys, of k] assms(1) by (simp add: write_ok_def)
  show "\<forall>p \<in> set plans. V UserKeyspace (kp_user_key p) = state_bytes (kp_before_state p)
      \<and> V' UserKeyspace (kp_user_key p) = state_bytes (kp_after_state p) \<and> state_ok (kp_after_state p)"
  proof
    fix p assume p: "p \<in> set plans"
    then obtain i where "i < length (vw_distinct_keys w)" "kp_user_key p = vw_distinct_keys w ! i"
      "kp_before_state p = befores ! i"
      using len by (auto simp: plans set_zip)
    then show "V UserKeyspace (kp_user_key p) = state_bytes (kp_before_state p)
      \<and> V' UserKeyspace (kp_user_key p) = state_bytes (kp_after_state p) \<and> state_ok (kp_after_state p)"
      using list_all2_nth [OF b] assms(3) eff(1) [OF p] B(2) p by auto
  qed
qed


lemma prepared_after_state:
  assumes "write_ok w" and "prepared_by E w head get_user pc befores plans ed"
    and "i < length (write_ops w)" and "\<And>j. i < j \<Longrightarrow> j < length (write_ops w) \<Longrightarrow>
      nkey (write_ops w ! j) \<noteq> nkey (write_ops w ! i)"
  defines "ps \<equiv> op_pointers_of (write_ops w) (map_option pe_value_pointers (pc_envelope pc))"
  shows "is_nput (write_ops w ! i) \<longleftrightarrow> ps ! i \<noteq> None"
    and "\<exists>p \<in> set plans. kp_user_key p = nkey (write_ops w ! i) \<and> kp_after_state p = pointer_state (ps ! i)"
proof -
  have b: "list_all2 (\<lambda>k s. get_user k = Ok (state_bytes s) \<and> state_ok s) (vw_distinct_keys w) befores"
    and bk: "build_key_plans E w befores (vw_transaction_kind w)
      (map_option pe_value_pointers (pc_envelope pc)) = Ok plans"
    using assms(2) by (simp_all add: prepared_by_def)
  have len: "length befores = length (vw_distinct_keys w)" using b by (simp add: list_all2_lengthD)
  note K = build_key_plans_Ok [OF assms(1) len bk, folded ps_def]
  have l: "length ps = length (write_ops w)" using K(1) by (auto simp: pointers_fit_def dest: list_all2_lengthD)
  show "is_nput (write_ops w ! i) \<longleftrightarrow> ps ! i \<noteq> None"
    using list_all2_nth [OF K(1) [unfolded pointers_fit_def] assms(3)] .
  have "nkey (write_ops w ! i) \<in> set (vw_distinct_keys w)" using assms(1,3) by (simp add: write_ok_def)
  then obtain j where j: "j < length (vw_distinct_keys w)" "vw_distinct_keys w ! j = nkey (write_ops w ! i)"
    by (auto simp: in_set_conv_nth)
  show "\<exists>p \<in> set plans. kp_user_key p = nkey (write_ops w ! i) \<and> kp_after_state p = pointer_state (ps ! i)"
  proof (rule bexI)
    have j': "j < length plans" using j len by (simp add: K(2))
    then show "plans ! j \<in> set plans" by (rule nth_mem)
    show "kp_user_key (plans ! j) = nkey (write_ops w ! i) \<and> kp_after_state (plans ! j) = pointer_state (ps ! i)"
      using j len final_state_last [OF l assms(3) refl assms(4)] by (simp add: K(2))
  qed
qed

lemma last_operation_wins:
  assumes "write_ok w" and "prepared_by E w head get_user pc befores plans ed"
    and "\<forall>k v. get_user k = Ok v \<longrightarrow> v = V UserKeyspace k"
    and "i < length (write_ops w)" and "\<And>j. i < j \<Longrightarrow> j < length (write_ops w) \<Longrightarrow>
      nkey (write_ops w ! j) \<noteq> nkey (write_ops w ! i)"
  shows "case write_ops w ! i of
      NDelete k \<Rightarrow> apply_writes (batch_writes (pc_index_batch pc)) V UserKeyspace k = None
    | NPut k v \<Rightarrow> (\<exists>e ptr. pc_envelope pc = Some e \<and> pe_value_pointers e ! i = Some ptr
        \<and> ValuePointer_encode ptr = Ok (pointer_bytes ptr)
        \<and> apply_writes (batch_writes (pc_index_batch pc)) V UserKeyspace k = Some (pointer_bytes ptr))"
proof -
  let ?ps = "op_pointers_of (write_ops w) (map_option pe_value_pointers (pc_envelope pc))"
  note A = prepared_after_state [OF assms(1,2,4,5)]
  obtain p where p: "p \<in> set plans" "kp_user_key p = nkey (write_ops w ! i)"
    "kp_after_state p = pointer_state (?ps ! i)" using A(2) by blast
  have e: "apply_writes (batch_writes (pc_index_batch pc)) V UserKeyspace (nkey (write_ops w ! i))
      = state_bytes (pointer_state (?ps ! i))" "state_ok (pointer_state (?ps ! i))"
    using prepared_effect(4) [where V = V, OF assms(1-3) refl] p by auto
  show ?thesis
    using A(1) e assms(4)
    by (cases "write_ops w ! i"; cases "?ps ! i"; cases "pc_envelope pc")
      (auto simp: op_pointers_of_def ValuePointer_encode_iff)
qed

lemma prepared_batch_valid:
  assumes "write_ok w" and "prepared_by E w head get_user pc befores plans ed"
  shows "validate_for_commit E (pc_index_batch pc) m = Ok ()"
    and "\<not> is_database_initialization E (pc_index_batch pc)"
    and "distinct_targets (batch_writes (pc_index_batch pc))"
proof -
  define V :: index_view where "V = (\<lambda>_ k. case get_user k of Ok v \<Rightarrow> v | Err _ \<Rightarrow> None)"
  have V: "\<forall>k v. get_user k = Ok v \<longrightarrow> v = V UserKeyspace k" by (simp add: V_def)
  note P = prepared_effect [where V = V, OF assms V refl]
  have n: "\<forall>op \<in> set (ib_operations (pc_index_batch pc)). \<not> is_initialization op"
    using P(2) by (metis is_initialization.elims(2) result.distinct(1) validate_ordinary_mutation.simps(1))
  then have f: "filter is_initialization (ib_operations (pc_index_batch pc)) = []"
    by (simp add: filter_empty_conv)
  show "validate_for_commit E (pc_index_batch pc) m = Ok ()"
    using P(2,3) f by (simp add: validate_for_commit_def validate_ordinary_mutations_Ok)
  show "\<not> is_database_initialization E (pc_index_batch pc)"
    using n by (auto simp: is_database_initialization_def elim: is_initialization_triple.elims)
  show "distinct_targets (batch_writes (pc_index_batch pc))" by (rule P(1))
qed

section \<open>Preparing succeeds\<close>

text \<open>A state that may stand for a key: no value, or a pointer whose record holds a key that long.\<close>

definition state_for :: "bytes \<Rightarrow> value_state \<Rightarrow> bool" where
  "state_for k s \<longleftrightarrow> validate_value_state_key_len s (length k) True = Ok ()"

lemma state_for_Absent [simp]: "state_for k Absent"
  by (simp add: state_for_def)

lemma layout_pointer_ok: "ValuePointer_layout p = Ok l \<Longrightarrow> pointer_ok p"
  by (auto simp: ValuePointer_layout_def result_simps ValuePointer_validate_fields_Ok)

lemma state_for_Present:
  "state_for k (Present p) \<longleftrightarrow> pointer_ok p \<and> (\<exists>l. ValuePointer_layout p = Ok l \<and> unat (vl_key_len l) = length k)"
  by (auto simp: state_for_def result_simps layout_pointer_ok split: if_splits)

lemma state_for_ok: "state_for k s \<Longrightarrow> state_ok s"
  by (cases s) (simp_all add: state_for_Present)

lemma read_before_states_total:
  assumes "\<forall>k \<in> set ks. \<exists>s. get_user k = Ok (state_bytes s) \<and> state_for k s"
  shows "\<exists>ss. read_before_states get_user operation ks = Ok ss \<and> list_all2 state_for ks ss"
  using assms
proof (induction ks)
  case (Cons k ks)
  then obtain s ss where s: "get_user k = Ok (state_bytes s)" "state_for k s"
    and ss: "read_before_states get_user operation ks = Ok ss" "list_all2 state_for ks ss" by auto
  have "(case state_bytes s of None \<Rightarrow> Ok Absent | Some bs \<Rightarrow> decode_before_state_pointer bs k operation) = Ok s"
  proof (cases s)
    case (Present p)
    then have "ValuePointer_decode (pointer_bytes p) = Ok p"
      using s(2) by (simp add: vp.dec_iff_enc ValuePointer_encode_iff state_for_Present)
    then show ?thesis using s(2) Present
      by (auto simp: decode_before_state_pointer_def state_for_Present)
  qed simp
  then show ?case using s ss by auto
qed simp

lemma allocate_tx_uuid_total: "\<exists>u'. allocate_tx_uuid (Ok u) operation = Ok u' \<and> u' \<noteq> 0"
proof -
  define bs where "bs = (uuid_bytes u)[6 := ((uuid_bytes u ! 6) AND 0x0F) OR 0x40]"
  define cs where "cs = bs[8 := ((bs ! 8) AND 0x3F) OR 0x80]"
  have "cs ! 6 = ((uuid_bytes u ! 6) AND 0x0F) OR 0x40" by (simp add: cs_def bs_def)
  moreover have "bit (((uuid_bytes u ! 6) AND 0x0F) OR 0x40 :: u8) 6" by (simp add: bit_simps)
  ultimately have "cs ! 6 \<noteq> 0" by (metis bit_0_eq bot_apply bot_bool_def)
  have l: "length cs = 16" by (simp add: cs_def bs_def)
  have "uuid_of_bytes cs \<noteq> 0"
  proof
    assume "uuid_of_bytes cs = 0"
    then have "cs = uuid_bytes 0" using to_from_bytes(5) [OF l] by simp
    then have "cs ! 6 = 0" by (simp add: uuid_bytes_def)
    with \<open>cs ! 6 \<noteq> 0\<close> show False by blast
  qed
  moreover have "allocate_tx_uuid (Ok u) operation = Ok (uuid_of_bytes cs)"
    by (simp add: allocate_tx_uuid_def Let_def cs_def bs_def)
  ultimately show ?thesis by blast
qed

text \<open>The pointers of a prepared envelope.\<close>

lemma op_pointers_nth:
  "j < length ops \<Longrightarrow> \<exists>st. op_pointers g p ops ! j = op_pointer st (ops ! j)"
proof (induction ops arbitrary: p j)
  case (Cons op ops)
  then show ?case by (cases j) auto
qed simp

lemma length_op_pointers [simp]: "length (op_pointers g p ops) = length ops"
  by (induction ops arbitrary: p) simp_all

lemma put_pointer_state_for:
  assumes "op_pointer st (LO_Put k v) = Some ptr" "op_ok (LO_Put k v)" "pointer_ok ptr"
  shows "state_for k (Present ptr)"
proof -
  have "unat (vp_record_len ptr) = 55 + (length k + length v)" "unat (vp_value_len ptr) = length v"
    using assms(1,2) by (auto simp del: of_nat_add)
  then show ?thesis
    using ValuePointer_layout_Ok [OF assms(3)] assms(3) unfolding state_for_Present
    by (metis (no_types, lifting) add.assoc add.commute add_left_cancel)
qed

lemma envelope_pointer_states:
  assumes "planner_ok P" and "wide_pages (lp_geometry P)"
    and "prepare_envelope E P db seq uid (map logical_of ops) = (P', Ok e)"
  shows "pointers_fit ops (pe_value_pointers e)"
    and "i < length ops \<Longrightarrow> state_for (nkey (ops ! i)) (pointer_state (pe_value_pointers e ! i))"
proof -
  let ?lo = "map logical_of ops"
  note C = prepare_candidate_Ok [OF assms(1,2) assms(3) [unfolded prepare_envelope_Ok_iff]]
  obtain g p where vp: "pe_value_pointers e = op_pointers g p ?lo" using C by auto
  have ok: "\<forall>op \<in> set ?lo. op_ok op" using C by blast
  have n: "\<exists>st. pe_value_pointers e ! i = op_pointer st (logical_of (ops ! i))" if "i < length ops" for i
    using op_pointers_nth [of i ?lo g p] that by (simp add: vp)
  show "pointers_fit ops (pe_value_pointers e)"
    unfolding pointers_fit_def list_all2_conv_all_nth
  proof (intro conjI allI impI)
    show "length ops = length (pe_value_pointers e)" by (simp add: vp)
    fix i assume "i < length ops"
    then show "is_nput (ops ! i) \<longleftrightarrow> pe_value_pointers e ! i \<noteq> None"
      using n [of i] by (cases "ops ! i") auto
  qed
  show "state_for (nkey (ops ! i)) (pointer_state (pe_value_pointers e ! i))" if i: "i < length ops"
  proof (cases "ops ! i")
    case (NPut k v)
    obtain ptr where "pe_value_pointers e ! i = Some ptr" "pointer_ok ptr"
      using envelope_pointers_resolve [OF assms, of i k v] i NPut by auto
    moreover have "op_ok (LO_Put k v)" using ok i NPut by (metis (no_types) image_eqI list.set_map logical_of.simps(1) nth_mem)
    ultimately show ?thesis
      using n [OF i] NPut put_pointer_state_for by (auto simp del: op_ok.simps op_pointer.simps)
  next
    case (NDelete k)
    then show ?thesis using n [OF i] by auto
  qed
qed


lemma build_key_plans_total:
  assumes "allocates E" and "write_ok w" and "length befores = length (vw_distinct_keys w)"
    and "case (kind, vps) of (VLogEnvelope, Some ps) \<Rightarrow> length ps = length (write_ops w)
      | (IndexOnlyDelete, None) \<Rightarrow> True | _ \<Rightarrow> False"
    and "pointers_fit (write_ops w) (op_pointers_of (write_ops w) vps)"
  shows "\<exists>plans. build_key_plans E w befores kind vps = Ok plans"
proof -
  let ?ops = "write_ops w" and ?ps = "op_pointers_of (write_ops w) vps" and ?op = "vw_public_operation w"
  let ?init = "map (\<lambda>(k, b). \<lparr>kp_user_key = k, kp_before_state = b, kp_after_state = b\<rparr>)
      (zip (vw_distinct_keys w) befores)"
  obtain init where i: "initial_plans E ?op (vw_distinct_keys w) befores = Ok init"
    using initial_plans_total [OF assms(1), of ?op "vw_distinct_keys w" befores] by (auto simp: is_ok_iff)
  have init: "init = ?init" by (rule initial_plans_Ok [OF assms(3) i])
  have k: "map kp_user_key ?init = vw_distinct_keys w"
    using assms(3) by (simp add: comp_def case_prod_unfold)
  have "\<exists>plans. apply_operations kind vps ?op 0 ?init (zip ?ops (vw_operation_ordinals w)) = Ok plans"
  proof (intro exI, rule iffD2 [OF apply_operations_Ok])
    show "\<forall>i < length ?ops. vw_operation_ordinals w ! i < length ?init
        \<and> kp_user_key (?init ! (vw_operation_ordinals w ! i)) = nkey (?ops ! i)"
      using assms(2,3) by (auto simp: write_ok_def)
    show "\<forall>i < length ?ops. \<forall>s. operation_after_state kind vps (0 + i) (?ops ! i) ?op = Ok s \<longleftrightarrow>
      (is_nput (?ops ! i) \<longleftrightarrow> ?ps ! i \<noteq> None) \<and> s = pointer_state (?ps ! i)"
      using operation_after_state_Ok [OF assms(4)] by simp
    show "length ?ps = length ?ops"
      using assms(5) by (auto simp: pointers_fit_def dest: list_all2_lengthD)
    show "distinct (map kp_user_key ?init)" unfolding k using assms(2) by (simp add: write_ok_def)
    show "length (vw_operation_ordinals w) = length ?ops" using assms(2) by (simp add: write_ok_def)
    show "pointers_fit ?ops ?ps \<and> map (\<lambda>q. q\<lparr>kp_after_state :=
      final_state (zip ?ops ?ps) (kp_user_key q) (kp_after_state q)\<rparr>) ?init
      = map (\<lambda>q. q\<lparr>kp_after_state := final_state (zip ?ops ?ps) (kp_user_key q) (kp_after_state q)\<rparr>) ?init"
      using assms(5) by simp
  qed
  then show ?thesis
    using assms i init by (auto simp: build_key_plans_def Let_def write_ok_def try_vec_with_capacity_def)
qed

text \<open>Every distinct key has a last operation.\<close>

lemma last_operation:
  assumes "k \<in> nkey ` set ops"
  obtains i where "i < length ops" "nkey (ops ! i) = k" "\<And>j. i < j \<Longrightarrow> j < length ops \<Longrightarrow> nkey (ops ! j) \<noteq> k"
proof -
  let ?S = "{i. i < length ops \<and> nkey (ops ! i) = k}"
  have f: "finite ?S" and n: "?S \<noteq> {}" using assms by (auto simp: in_set_conv_nth)
  show thesis
    by (rule that [of "Max ?S"]) (use Max_in [OF f n] Max_ge [OF f] in \<open>fastforce+\<close>)
qed

lemma encode_value_state_total: "state_ok s \<Longrightarrow> \<exists>bs. encode_value_state s = Ok bs"
  by (cases s) (auto simp: ValuePointer_encode_iff and_then_Ok)

lemma encode_tx_mutation_total:
  assumes "allocates E" "mu_user_key m \<noteq> []" "length (mu_user_key m) \<le> 60000"
    and "state_for (mu_user_key m) (mu_before_state m)" "state_for (mu_user_key m) (mu_after_state m)"
  shows "\<exists>bs. encode_tx_mutation E m = Ok bs \<and> bs \<noteq> [] \<and> length bs < 2 ^ 32"
proof -
  obtain b where b: "encode_value_state (mu_before_state m) = Ok b"
    using encode_value_state_total [OF state_for_ok [OF assms(4)]] by blast
  obtain a where a: "encode_value_state (mu_after_state m) = Ok a"
    using encode_value_state_total [OF state_for_ok [OF assms(5)]] by blast
  have l: "length b \<le> 17" "length a \<le> 17"
    using a b by (simp_all add: encode_value_state_len value_state_encoded_len_le)
  have "mutation_ok m" using assms by (simp add: mutation_ok_def state_for_def)
  then have "encode_tx_mutation E m
      = Ok (u16_to_le_bytes (word_of_nat (length (mu_user_key m))) @ mu_user_key m @ b @ a)"
    using a b by (simp add: encode_tx_mutation_Ok [OF assms(1)])
  then show ?thesis using l assms(2,3) by auto
qed

lemma encode_mutations_total:
  assumes "allocates E" "seq \<noteq> 0" "distinct (map mu_user_key ms)" "mu_user_key ` set ms \<inter> seen = {}"
    and "i + length ms < 2 ^ 64"
    and "\<forall>m \<in> set ms. mu_user_key m \<noteq> [] \<and> length (mu_user_key m) \<le> 60000
      \<and> state_for (mu_user_key m) (mu_before_state m) \<and> state_for (mu_user_key m) (mu_after_state m)"
  shows "\<exists>es. encode_mutations E seq seen i ms = Ok es
    \<and> (\<forall>e \<in> set es. em_key e \<noteq> [] \<and> em_value e \<noteq> [] \<and> length (em_value e) < 2 ^ 32)"
  using assms(3-6)
proof (induction ms arbitrary: seen i)
  case (Cons m ms)
  obtain es where e: "encode_mutations E seq (insert (mu_user_key m) seen) (Suc i) ms = Ok es"
    "\<forall>e \<in> set es. em_key e \<noteq> [] \<and> em_value e \<noteq> [] \<and> length (em_value e) < 2 ^ 32"
    using Cons.IH [of "insert (mu_user_key m) seen" "Suc i"] Cons.prems by auto
  obtain bs where "encode_tx_mutation E m = Ok bs" "bs \<noteq> []" "length bs < 2 ^ 32"
    using encode_tx_mutation_total [OF assms(1), of m] Cons.prems(4) by auto
  moreover have "mu_user_key m \<notin> seen" using Cons.prems(2) by auto
  ultimately show ?case
    using e Cons.prems(3) assms(2)
    by (auto simp: u64_try_from_def encode_tx_mutation_key_def TX_KEY_MAGIC_def)
qed simp

lemma descriptor_crc_total:
  "\<forall>e \<in> set es. length (em_value e) < 2 ^ 32 \<Longrightarrow> \<exists>c. descriptor_crc_mutations E b crc es = Ok c"
  by (induction es arbitrary: crc) (auto simp: u32_try_from_def)

lemma push_index_total:
  "allocates E \<Longrightarrow> validate_ordinary_mutation m = Ok () \<Longrightarrow>
   push_index E b m operation = Ok \<lparr>ib_operations = ib_operations b @ [m]\<rparr>"
  by (simp add: push_index_Ok allocates_def)

lemma push_user_mutations_total:
  assumes "allocates E" "\<forall>p \<in> set plans. kp_user_key p \<noteq> [] \<and> state_ok (kp_after_state p)"
  shows "\<exists>b'. push_user_mutations E operation b plans = Ok b'"
  using assms(2)
proof (induction plans arbitrary: b)
  case (Cons p plans)
  have "user_mutation E operation p = Ok (plan_mutation p)"
    using Cons.prems assms(1)
    by (cases "kp_after_state p") (auto simp: user_mutation_def plan_mutation_def ValuePointer_encode_iff
        try_clone_bytes_def and_then_Ok)
  moreover have "validate_ordinary_mutation (plan_mutation p) = Ok ()"
    using Cons.prems by (auto simp: plan_mutation_def split: value_state.splits)
  ultimately show ?case using Cons push_index_total [OF assms(1)] by auto
qed simp

lemma push_descriptor_mutations_total:
  assumes "allocates E" "\<forall>m \<in> set ms. em_key m \<noteq> [] \<and> em_value m \<noteq> []"
  shows "\<exists>b'. push_descriptor_mutations E operation b ms = Ok b'"
  using assms(2)
proof (induction ms arbitrary: b)
  case (Cons m ms)
  then show ?case using assms(1) push_index_total [OF assms(1)]
    by (auto simp: try_clone_bytes_def is_database_identity_key_def)
qed simp

lemma build_index_batch_total:
  assumes "allocates E" "\<forall>p \<in> set plans. kp_user_key p \<noteq> [] \<and> state_ok (kp_after_state p)"
    and "\<forall>m \<in> set (ed_mutations d). em_key m \<noteq> [] \<and> em_value m \<noteq> []"
    and "ed_meta_key d \<noteq> []" "ed_meta_value d \<noteq> []" "length plans < 2 ^ 32"
  shows "\<exists>b. build_index_batch E plans d seq operation = Ok b"
proof -
  obtain b1 where b1: "push_user_mutations E operation \<lparr>ib_operations = []\<rparr> plans = Ok b1"
    using push_user_mutations_total [OF assms(1,2)] by blast
  let ?b2 = "\<lparr>ib_operations = ib_operations b1 @ [PutInternal TransactionSpace (ed_meta_key d) (ed_meta_value d)]\<rparr>"
  obtain b3 where b3: "push_descriptor_mutations E operation ?b2 (ed_mutations d) = Ok b3"
    using push_descriptor_mutations_total [OF assms(1,3)] by blast
  have m: "validate_ordinary_mutation (PutInternal TransactionSpace (ed_meta_key d) (ed_meta_value d)) = Ok ()"
    "validate_ordinary_mutation (PutInternal SystemSpace HEAD_SEQ_KEY (encode_head_seq seq)) = Ok ()"
    using assms(4,5) length_to_bytes(3) [of seq]
    by (auto simp: is_database_identity_key_def encode_head_seq_def simp del: length_to_bytes)
      (simp add: HEAD_SEQ_KEY_def ascii_def)
  show ?thesis
    using assms(1,6) b1 b3 push_index_total [OF assms(1) m(1)] push_index_total [OF assms(1) m(2)]
    by (simp add: build_index_batch_def usize_checked_mul_def usize_checked_add_def usize_max_def
        IndexAtomicBatch_try_with_capacity_def allocates_def try_clone_bytes_def)
qed

definition commit_context_ok ::
  "validated_write \<Rightarrow> (uuid \<times> vlog_position \<times> vlog_geometry) option \<Rightarrow> bool" where
  "commit_context_ok w ctx \<longleftrightarrow>
     (case vw_transaction_kind w of
        IndexOnlyDelete \<Rightarrow> ctx = None
      | VLogEnvelope \<Rightarrow> (\<exists>db p g. ctx = Some (db, p, g) \<and> db \<noteq> 0 \<and> geometry_ok g \<and> wide_pages g
          \<and> tail_position g p \<and> all_enter g p (record_lens (map logical_of (write_ops w)))))"

lemma op_ok_logical [simp]: "op_ok (logical_of op) \<longleftrightarrow> nop_ok op"
  by (cases op) simp_all

text \<open>The envelope of a valid write, with the pointers the key plans need.\<close>

lemma commit_envelope_total:
  assumes "allocates E" "write_ok w" "commit_context_ok w ctx" "seq \<noteq> 0" "uid \<noteq> 0"
  obtains env where "commit_envelope E w (vw_transaction_kind w) seq uid ctx = Ok env"
    "case (vw_transaction_kind w, map_option pe_value_pointers env) of
       (VLogEnvelope, Some ps) \<Rightarrow> length ps = length (write_ops w) | (IndexOnlyDelete, None) \<Rightarrow> True | _ \<Rightarrow> False"
    "pointers_fit (write_ops w) (op_pointers_of (write_ops w) (map_option pe_value_pointers env))"
    "\<forall>i < length (write_ops w). state_for (nkey (write_ops w ! i))
       (pointer_state (op_pointers_of (write_ops w) (map_option pe_value_pointers env) ! i))"
    "case env of None \<Rightarrow> vw_transaction_kind w = IndexOnlyDelete
     | Some e \<Rightarrow> vw_transaction_kind w = VLogEnvelope \<and> VLogPos_is_valid (pe_vlog_begin e)
         \<and> VLogPos_is_valid (pe_vlog_end e) \<and> pe_vlog_begin e < pe_vlog_end e"
proof (cases "vw_transaction_kind w")
  case IndexOnlyDelete
  then have np: "\<forall>op \<in> set (write_ops w). \<not> is_nput op"
    by (auto simp: vw_transaction_kind_def split: if_splits)
  then have fit: "pointers_fit (write_ops w) (replicate (length (write_ops w)) None)"
    by (auto simp: pointers_fit_def list_all2_conv_all_nth)
  show thesis
    by (rule that [of None]) (use assms(3) IndexOnlyDelete fit in
      \<open>simp_all add: commit_envelope_def commit_context_ok_def op_pointers_of_def\<close>)
next
  case VLogEnvelope
  let ?ops = "write_ops w" let ?lo = "map logical_of ?ops"
  obtain db p g where c: "ctx = Some (db, p, g)" "db \<noteq> 0" "geometry_ok g" "wide_pages g"
    "tail_position g p" "all_enter g p (record_lens ?lo)"
    using assms(3) VLogEnvelope by (auto simp: commit_context_ok_def)
  let ?P = "\<lparr>lp_geometry = g, lp_position = p\<rparr>"
  have pl: "LayoutPlanner_from_position g p = Ok ?P" "planner_ok ?P"
    using c by (simp_all add: LayoutPlanner_from_position_Ok planner_ok_def tail_position_def)
  have oo: "?lo \<noteq> []" "\<forall>op \<in> set ?lo. op_ok op" "length ?lo < 2 ^ 60"
    using assms(2) by (simp_all add: write_ok_def list_all_iff)
  obtain P' e where pe: "prepare_candidate E ?P db seq uid ?lo = Ok (P', e)"
    using prepare_candidate_total [OF pl(2) _ assms(1) _ c(2) oo, of seq uid] c assms(4,5)
    by (auto simp: identity_ok_def)
  then have pe': "prepare_envelope E ?P db seq uid ?lo = (P', Ok e)" by (simp add: prepare_envelope_Ok_iff)
  have wide: "wide_pages (lp_geometry ?P)" using c by simp
  note st = envelope_pointer_states [OF pl(2) wide pe']
  note C = prepare_candidate_Ok [OF pl(2) wide pe]
  have e: "pe_vlog_begin e = p" "pe_vlog_end e = envelope_end g p ?lo" using C by auto
  note pos = envelope_positions [OF c(3,5,6) record_lens_ok [OF c(4) oo(2)]]
  have v: "VLogPos_is_valid q" if "tail_position g q" for q
    using position_ok_tail [OF c(3) that]
    by (simp add: position_ok_def VLogPos_is_valid_def word_le_nat_alt)
  have "length (pe_value_pointers e) = length ?ops"
    using st(1) by (auto simp: pointers_fit_def dest: list_all2_lengthD)
  then show thesis
    using pl pe' c assms(1) VLogEnvelope st v pos e
    by (intro that [of "Some e"]) (auto simp: commit_envelope_def logical_operations_def
        try_vec_with_capacity_def op_pointers_of_def)
qed


abbreviation plan_change :: "key_plan \<Rightarrow> tx_mutation" where
  "plan_change p \<equiv> \<lparr>mu_user_key = kp_user_key p, mu_before_state = kp_before_state p,
     mu_after_state = kp_after_state p\<rparr>"

lemma plans_for_keys:
  assumes "write_ok w" "list_all2 state_for (vw_distinct_keys w) befores"
    and "build_key_plans E w befores kind vps = Ok plans"
    and "\<forall>i < length (write_ops w).
      state_for (nkey (write_ops w ! i)) (pointer_state (op_pointers_of (write_ops w) vps ! i))"
    and "p \<in> set plans"
  shows "kp_user_key p \<noteq> []" "length (kp_user_key p) \<le> 60000"
    and "state_for (kp_user_key p) (kp_before_state p)" "state_for (kp_user_key p) (kp_after_state p)"
    and "\<exists>i < length (write_ops w). kp_after_state p = pointer_state (op_pointers_of (write_ops w) vps ! i)"
proof -
  let ?ps = "op_pointers_of (write_ops w) vps"
  have len: "length befores = length (vw_distinct_keys w)" using assms(2) by (simp add: list_all2_lengthD)
  note K = build_key_plans_Ok [OF assms(1) len assms(3)]
  have l: "length ?ps = length (write_ops w)" using K(1) by (auto simp: pointers_fit_def dest: list_all2_lengthD)
  obtain j where j: "j < length (vw_distinct_keys w)" "kp_user_key p = vw_distinct_keys w ! j"
    "kp_before_state p = befores ! j"
    "kp_after_state p = final_state (zip (write_ops w) ?ps) (vw_distinct_keys w ! j) (befores ! j)"
    using assms(5) len by (auto simp: K(2) set_zip)
  have "kp_user_key p \<in> nkey ` set (write_ops w)" using assms(1) j by (auto simp: write_ok_def)
  then obtain i where i: "i < length (write_ops w)" "nkey (write_ops w ! i) = kp_user_key p"
    "\<And>j. i < j \<Longrightarrow> j < length (write_ops w) \<Longrightarrow> nkey (write_ops w ! j) \<noteq> kp_user_key p"
    by (rule last_operation) auto
  have a: "kp_after_state p = pointer_state (?ps ! i)"
    using final_state_last [OF l i] j by simp
  have "nop_ok (write_ops w ! i)" using assms(1) i(1) by (simp add: write_ok_def list_all_length)
  then show "kp_user_key p \<noteq> []" "length (kp_user_key p) \<le> 60000"
    using i(2) by (cases "write_ops w ! i"; simp)+
  show "state_for (kp_user_key p) (kp_before_state p)"
    using list_all2_nth [OF assms(2) j(1)] j by simp
  show "state_for (kp_user_key p) (kp_after_state p)" using assms(4) i(1,2) a by auto
  show "\<exists>i < length (write_ops w). kp_after_state p = pointer_state (?ps ! i)" using a i(1) by blast
qed

lemma encode_descriptor_total:
  assumes "allocates E" "validate_tx_meta (td_meta d) True = Ok ()"
    and "unat (tm_distinct_key_count (td_meta d)) = length (td_mutations d)"
    and "validate_transaction_mutations (tm_transaction_kind (td_meta d)) (td_mutations d) True = Ok ()"
    and "distinct (map mu_user_key (td_mutations d))"
    and "\<forall>m \<in> set (td_mutations d). mu_user_key m \<noteq> [] \<and> length (mu_user_key m) \<le> 60000
      \<and> state_for (mu_user_key m) (mu_before_state m) \<and> state_for (mu_user_key m) (mu_after_state m)"
  shows "\<exists>e. encode_descriptor E d = Ok e \<and> ed_meta_key e \<noteq> [] \<and> ed_meta_value e \<noteq> []
    \<and> (\<forall>m \<in> set (ed_mutations e). em_key m \<noteq> [] \<and> em_value m \<noteq> [])"
proof -
  let ?m = "td_meta d"
  have s: "tm_commit_seq ?m \<noteq> 0" by (rule validate_tx_meta_seq [OF assms(2)])
  have n: "0 + length (td_mutations d) < 2 ^ 64"
    using assms(3) unat_less_2p [of "tm_distinct_key_count ?m"] by simp
  obtain es where es: "encode_mutations E (tm_commit_seq ?m) {} 0 (td_mutations d) = Ok es"
    "\<forall>e \<in> set es. em_key e \<noteq> [] \<and> em_value e \<noteq> [] \<and> length (em_value e) < 2 ^ 32"
    using encode_mutations_total [OF assms(1) s assms(5) _ n assms(6)] by auto
  obtain crc where crc: "descriptor_crc_mutations E True (crc32c_append E (crc32c E DESCRIPTOR_CRC_MAGIC)
      (tx_meta_prefix ?m)) es = Ok crc"
    using descriptor_crc_total [of es] es(2) by blast
  let ?e = "\<lparr>ed_meta_key = tx_meta_key (tm_commit_seq ?m),
      ed_meta_value = tx_meta_prefix ?m @ u32_to_le_bytes crc, ed_mutations = es\<rparr>"
  have "encode_descriptor E d = Ok ?e"
    unfolding encode_descriptor_Ok [OF assms(1)] using assms(2-4) es crc s by (simp add: encode_tx_keys)
  moreover have "tx_meta_prefix ?m \<noteq> []" using length_tx_meta_prefix [of ?m] by fastforce
  ultimately show ?thesis using es(2) by (auto simp: tx_meta_key_def)
qed

text \<open>The descriptor of a planned write encodes.\<close>

lemma commit_descriptor_encodes:
  assumes "allocates E" "write_ok w" "list_all2 state_for (vw_distinct_keys w) befores"
    and "build_key_plans E w befores (vw_transaction_kind w) (map_option pe_value_pointers env) = Ok plans"
    and "\<forall>i < length (write_ops w). state_for (nkey (write_ops w ! i))
       (pointer_state (op_pointers_of (write_ops w) (map_option pe_value_pointers env) ! i))"
    and "case env of None \<Rightarrow> vw_transaction_kind w = IndexOnlyDelete
     | Some e \<Rightarrow> vw_transaction_kind w = VLogEnvelope \<and> VLogPos_is_valid (pe_vlog_begin e)
         \<and> VLogPos_is_valid (pe_vlog_end e) \<and> pe_vlog_begin e < pe_vlog_end e"
    and "head + 1 \<noteq> 0" "uid \<noteq> 0"
  shows "length plans \<le> length (write_ops w)"
    and "\<exists>e. encode_descriptor E (commit_descriptor (vw_transaction_kind w) (head + 1) uid head env
        (word_of_nat (length (write_ops w))) (word_of_nat (length plans)) (map plan_change plans)) = Ok e
      \<and> ed_meta_key e \<noteq> [] \<and> ed_meta_value e \<noteq> []
      \<and> (\<forall>m \<in> set (ed_mutations e). em_key m \<noteq> [] \<and> em_value m \<noteq> [])"
proof -
  let ?kind = "vw_transaction_kind w" and ?ops = "write_ops w"
  let ?n = "word_of_nat (length ?ops) :: u64" and ?k = "word_of_nat (length plans) :: u64"
  let ?d = "commit_descriptor ?kind (head + 1) uid head env ?n ?k (map plan_change plans)"
  have len: "length befores = length (vw_distinct_keys w)" using assms(3) by (simp add: list_all2_lengthD)
  note pk = plans_for_keys [OF assms(2-5)]
  have keys: "map kp_user_key plans = vw_distinct_keys w"
    using build_key_plans_Ok(2) [OF assms(2) len assms(4)] len by (simp add: comp_def case_prod_unfold)
  then have nk: "length plans = length (vw_distinct_keys w)" by (metis length_map)
  have "length (vw_distinct_keys w) = card (nkey ` set ?ops)"
    using assms(2) by (metis distinct_card write_ok_def)
  also have "\<dots> \<le> length ?ops" by (meson card_image_le card_length finite_set le_trans)
  finally show kc: "length plans \<le> length ?ops" using nk by simp
  have ol: "length ?ops < 2 ^ 32" "?ops \<noteq> []" "plans \<noteq> []"
    using assms(2) nk by (auto simp: write_ok_def)
  have cnt: "unat ?k = length plans" "unat ?n = length ?ops" using kc ol by simp_all
  then have "?k \<noteq> 0" "?n \<noteq> 0" "\<not> ?k > ?n"
    using ol kc by (auto simp: word_less_nat_alt simp flip: unat_eq_zero)
  then have meta: "validate_tx_meta (td_meta ?d) True = Ok ()"
    using assms(6-8) by (cases env) (simp_all add: commit_descriptor_def validate_tx_meta_def)
  have after: "kp_after_state p = Absent" if "?kind = IndexOnlyDelete" "p \<in> set plans" for p
    using pk(5) [OF that(2)] assms(6) that(1) by (cases env) (auto simp: op_pointers_of_def)
  have "distinct (map mu_user_key (td_mutations ?d))"
    using assms(2) keys by (simp add: commit_descriptor_def comp_def write_ok_def)
  then show "\<exists>e. encode_descriptor E ?d = Ok e \<and> ed_meta_key e \<noteq> [] \<and> ed_meta_value e \<noteq> []
      \<and> (\<forall>m \<in> set (ed_mutations e). em_key m \<noteq> [] \<and> em_value m \<noteq> [])"
    by (intro encode_descriptor_total [OF assms(1) meta])
      (use cnt pk after in \<open>auto simp: commit_descriptor_def validate_transaction_mutations_def\<close>)
qed

lemma descriptor_mutations_total:
  assumes "allocates E"
  shows "descriptor_mutations E plans operation = Ok (map plan_change plans)"
proof -
  have "\<exists>ms. descriptor_mutation_list E operation plans = Ok ms"
    using assms by (induction plans) (auto simp: try_clone_bytes_def)
  then show ?thesis
    using assms by (auto simp: descriptor_mutations_def try_vec_with_capacity_def
        dest: descriptor_mutation_list_Ok)
qed

text \<open>
  A validated write is prepared whenever memory is available, the sequence numbers are not used
  up, random bytes can be had, the index answers with states that fit the keys, and the log has
  room.
\<close>

lemma prepare_commit_total:
  assumes "allocates E" "write_ok w" "commit_context_ok w ctx" "unat head + 1 < 2 ^ 64"
    and "\<forall>k \<in> set (vw_distinct_keys w). \<exists>s. get_user k = Ok (state_bytes s) \<and> state_for k s"
  shows "\<exists>pc. prepare_commit E w head ctx get_user (Ok u) = Ok pc"
proof -
  let ?op = "vw_public_operation w" and ?seq = "head + 1" and ?kind = "vw_transaction_kind w"
  have "unat ?seq = unat head + 1" using assms(4) by (simp add: unat_add_no_overflow)
  then have s0: "?seq \<noteq> 0" by (metis Suc_eq_plus1 nat.simps(3) unat_0)
  have nx: "next_commit_seq head = Ok ?seq" using assms(4) by (simp add: next_commit_seq_def checked_add_def)
  obtain befores where b: "read_before_states get_user ?op (vw_distinct_keys w) = Ok befores"
    "list_all2 state_for (vw_distinct_keys w) befores"
    using read_before_states_total [OF assms(5)] by blast
  have len: "length befores = length (vw_distinct_keys w)" using b(2) by (simp add: list_all2_lengthD)
  obtain uid where uid: "allocate_tx_uuid (Ok u) ?op = Ok uid" "uid \<noteq> 0"
    using allocate_tx_uuid_total by blast
  obtain env where env: "commit_envelope E w ?kind ?seq uid ctx = Ok env"
    "case (?kind, map_option pe_value_pointers env) of
       (VLogEnvelope, Some ps) \<Rightarrow> length ps = length (write_ops w) | (IndexOnlyDelete, None) \<Rightarrow> True | _ \<Rightarrow> False"
    "pointers_fit (write_ops w) (op_pointers_of (write_ops w) (map_option pe_value_pointers env))"
    "\<forall>i < length (write_ops w). state_for (nkey (write_ops w ! i))
       (pointer_state (op_pointers_of (write_ops w) (map_option pe_value_pointers env) ! i))"
    "case env of None \<Rightarrow> ?kind = IndexOnlyDelete
     | Some e \<Rightarrow> ?kind = VLogEnvelope \<and> VLogPos_is_valid (pe_vlog_begin e)
         \<and> VLogPos_is_valid (pe_vlog_end e) \<and> pe_vlog_begin e < pe_vlog_end e"
    using commit_envelope_total [OF assms(1-3) s0 uid(2)] by blast
  obtain plans where plans: "build_key_plans E w befores ?kind (map_option pe_value_pointers env) = Ok plans"
    using build_key_plans_total [OF assms(1,2) len env(2,3)] by blast
  note pk = plans_for_keys [OF assms(2) b(2) plans env(4)]
  note D = commit_descriptor_encodes [OF assms(1,2) b(2) plans env(4,5) s0 uid(2)]
  have ol: "length (write_ops w) < 2 ^ 32" using assms(2) by (simp add: write_ok_def)
  from D(2) obtain e where e: "encode_descriptor E (commit_descriptor ?kind ?seq uid head env
      (word_of_nat (length (write_ops w))) (word_of_nat (length plans)) (map plan_change plans)) = Ok e"
    "ed_meta_key e \<noteq> []" "ed_meta_value e \<noteq> []"
    "\<forall>m \<in> set (ed_mutations e). em_key m \<noteq> [] \<and> em_value m \<noteq> []" by blast
  have "\<exists>ib. build_index_batch E plans e ?seq ?op = Ok ib"
    by (rule build_index_batch_total [OF assms(1) _ e(4,2,3)]) (use pk(1) state_for_ok [OF pk(4)] D(1) ol in auto)
  then obtain ib where ib: "build_index_batch E plans e ?seq ?op = Ok ib" by blast
  show ?thesis
    using assms(1) e(1) D(1) ol
    by (simp add: prepare_commit_def nx b uid env plans descriptor_mutations_total ib Let_def
        try_vec_with_capacity_def u64_try_from_def)
qed

section \<open>Properties\<close>

lemma nkey_normalize [simp]: "nkey (normalize op) = op_key op"
  by (cases op) simp_all

text \<open>
  C9: the last write wins. When a batch has been validated and prepared against an index, the
  prepared index batch passes the backend's validation, names no key twice, leaves every key the
  batch does not mention as it was, maps a key whose last operation is a put to the encoded
  pointer of exactly that operation, removes a key whose last operation is a delete, and moves
  the head to the next sequence number.
\<close>

theorem last_write_wins:
  assumes "preflight_batch E b sync = Ok w"
    and "prepare_commit E w head ctx get_user random = Ok pc"
    and "\<forall>k v. get_user k = Ok v \<longrightarrow> v = V UserKeyspace k"
    and "V' = apply_writes (batch_writes (pc_index_batch pc)) V"
  shows "validate_for_commit E (pc_index_batch pc) mode = Ok ()
    \<and> distinct_targets (batch_writes (pc_index_batch pc))
    \<and> (\<forall>k. k \<notin> op_key ` set (operations b) \<longrightarrow> V' UserKeyspace k = V UserKeyspace k)
    \<and> (\<forall>i < length (operations b).
         (\<forall>j. i < j \<and> j < length (operations b) \<longrightarrow> op_key (operations b ! j) \<noteq> op_key (operations b ! i)) \<longrightarrow>
         (case operations b ! i of
            Delete k \<Rightarrow> V' UserKeyspace k = None
          | Put k v \<Rightarrow> (\<exists>e ptr bs. pc_envelope pc = Some e \<and> pe_value_pointers e ! i = Some ptr
              \<and> ValuePointer_encode ptr = Ok bs \<and> V' UserKeyspace k = Some bs)))
    \<and> V' SystemKeyspace = (V SystemKeyspace)(HEAD_SEQ_KEY \<mapsto> encode_head_seq (head + 1))"
proof -
  from preflight_batch_Ok [OF assms(1)] have w: "write_ok w" "write_ops w = map normalize (operations b)"
    by simp_all
  obtain befores plans ed where p: "prepared_by E w head get_user pc befores plans ed"
    using prepare_commit_Ok [OF assms(2)] by blast
  note eff = prepared_effect [where V = V, OF w(1) p assms(3,4)]
  note val = prepared_batch_valid [OF w(1) p]
  have last: "case operations b ! i of
            Delete k \<Rightarrow> V' UserKeyspace k = None
          | Put k v \<Rightarrow> (\<exists>e ptr bs. pc_envelope pc = Some e \<and> pe_value_pointers e ! i = Some ptr
              \<and> ValuePointer_encode ptr = Ok bs \<and> V' UserKeyspace k = Some bs)"
    if "i < length (operations b)"
      "\<forall>j. i < j \<and> j < length (operations b) \<longrightarrow> op_key (operations b ! j) \<noteq> op_key (operations b ! i)" for i
    using last_operation_wins [where V = V, OF w(1) p assms(3), of i] that
    by (cases "operations b ! i") (auto simp: w(2) assms(4))
  have other: "V' UserKeyspace k = V UserKeyspace k" if "k \<notin> op_key ` set (operations b)" for k
    using eff(5) [of k] that by (simp add: w(2) image_image)
  show ?thesis using val last other eff(6) by blast
qed

text \<open>A first put into an initialized, empty database, for the witnesses.\<close>

abbreviation sample_batch :: write_batch where
  "sample_batch \<equiv> \<lparr>operations = [Put [107] [118], Delete [107]]\<rparr>"

abbreviation sample_context :: "(uuid \<times> vlog_position \<times> vlog_geometry) option" where
  "sample_context \<equiv> Some (1, VLogPosition 0 0, PRODUCTION)"

lemma sample_batch_inv: "batch_inv sample_batch"
  by (simp add: batch_inv_def)

lemma sample_context_ok:
  assumes "write_ops w = [NPut [107] [118], NDelete [107]]"
  shows "commit_context_ok w sample_context"
proof -
  have "all_enter PRODUCTION (VLogPosition 0 0) (record_lens sample_ops)"
    using sample_planner_ok
    by (intro enough_files)
      (auto simp: planner_ok_def record_lens_def record_len_ok_PRODUCTION PRODUCTION_def vlog_consts
        record_len_ok_def)
  then show ?thesis
    using assms sample_planner_ok
    by (simp add: commit_context_ok_def vw_transaction_kind_def planner_ok_def)
qed

lemma sample_preflight: "\<exists>w. preflight_batch sample_env sample_batch sync = Ok w"
  using preflight_batch_total [OF allocates_sample_env sample_batch_inv, of sync] by (simp add: is_ok_iff)

lemma sample_prepared:
  assumes "preflight_batch sample_env sample_batch sync = Ok w"
  shows "\<exists>pc. prepare_commit sample_env w 0 sample_context (\<lambda>_. Ok None) (Ok 0) = Ok pc"
proof -
  have w: "write_ok w" "write_ops w = [NPut [107] [118], NDelete [107]]"
    using preflight_batch_Ok [OF assms] by simp_all
  show ?thesis
    by (rule prepare_commit_total [OF allocates_sample_env w(1) sample_context_ok [OF w(2)]])
      (auto intro: exI [of _ Absent])
qed

theorem last_write_wins_witness:
  "\<exists>w pc. preflight_batch sample_env sample_batch True = Ok w
     \<and> prepare_commit sample_env w 0 sample_context (\<lambda>_. Ok None) (Ok 0) = Ok pc
     \<and> apply_writes (batch_writes (pc_index_batch pc)) (\<lambda>_. Map.empty) UserKeyspace [107] = None
     \<and> apply_writes (batch_writes (pc_index_batch pc)) (\<lambda>_. Map.empty) SystemKeyspace HEAD_SEQ_KEY
         = Some (encode_head_seq 1)"
proof -
  obtain w where w: "preflight_batch sample_env sample_batch True = Ok w" using sample_preflight by blast
  obtain pc where pc: "prepare_commit sample_env w 0 sample_context (\<lambda>_. Ok None) (Ok 0) = Ok pc"
    using sample_prepared [OF w] by blast
  have "\<forall>k v. (\<lambda>_. Ok None) k = Ok v \<longrightarrow> v = (\<lambda>_. Map.empty) UserKeyspace (k :: bytes)" by simp
  from last_write_wins [where V = "\<lambda>_. Map.empty", OF w pc this refl]
  show ?thesis using w pc by (auto simp: less_Suc_eq)
qed

text \<open>
  C10: a transaction describes itself. After the prepared batch is applied, the transaction keyspace
  holds a descriptor under the next sequence number that decodes, links back to the head, and
  lists each written key once with its state in the index before the batch and after it: all
  that undoing the transaction needs.
\<close>

theorem descriptor_describes_change:
  assumes "allocates E" and "preflight_batch E b sync = Ok w"
    and "prepare_commit E w head ctx get_user random = Ok pc"
    and "\<forall>k v. get_user k = Ok v \<longrightarrow> v = V UserKeyspace k"
    and "V' = apply_writes (batch_writes (pc_index_batch pc)) V"
  shows "\<exists>mk mv es d. encode_tx_meta_key (head + 1) = Ok mk \<and> V' TransactionKeyspace mk = Some mv
    \<and> (\<forall>i < length es. encode_tx_mutation_key (head + 1) (word_of_nat i) = Ok (em_key (es ! i))
         \<and> V' TransactionKeyspace (em_key (es ! i)) = Some (em_value (es ! i)))
    \<and> decode_descriptor E mk mv es = Ok d
    \<and> tm_commit_seq (td_meta d) = head + 1 \<and> tm_prev_seq (td_meta d) = head
    \<and> distinct (map mu_user_key (td_mutations d))
    \<and> mu_user_key ` set (td_mutations d) = op_key ` set (operations b)
    \<and> (\<forall>m \<in> set (td_mutations d). V UserKeyspace (mu_user_key m) = state_bytes (mu_before_state m)
         \<and> V' UserKeyspace (mu_user_key m) = state_bytes (mu_after_state m))"
proof -
  from preflight_batch_Ok [OF assms(2)] have w: "write_ok w" "write_ops w = map normalize (operations b)"
    by simp_all
  obtain befores plans ed where p: "prepared_by E w head get_user pc befores plans ed"
    using prepare_commit_Ok [OF assms(3)] by blast
  note eff = prepared_effect [where V = V, OF w(1) p assms(4,5)]
  let ?d = "commit_descriptor (vw_transaction_kind w) (head + 1) (pc_tx_uuid pc) head (pc_envelope pc)
      (word_of_nat (length (write_ops w))) (word_of_nat (length plans)) (map plan_change plans)"
  have enc: "encode_descriptor E ?d = Ok ed" using p by (simp add: prepared_by_def)
  note D = enc [unfolded encode_descriptor_Ok [OF assms(1)]]
  obtain dd where dec: "decode_descriptor E (ed_meta_key ed) (ed_meta_value ed) (ed_mutations ed) = Ok dd"
    and dd: "tm_commit_seq (td_meta dd) = head + 1" "tm_prev_seq (td_meta dd) = head"
      "td_mutations dd = map plan_change plans"
    using descriptor_dec_enc [OF assms(1) enc] by (auto simp: commit_descriptor_def)
  have mk: "encode_tx_meta_key (head + 1) = Ok (ed_meta_key ed)"
    and em: "encode_mutations E (head + 1) {} 0 (map plan_change plans) = Ok (ed_mutations ed)"
    using D by (simp_all add: commit_descriptor_def)
  note keys = mutation_keys [OF em]
  have k: "encode_tx_mutation_key (head + 1) (word_of_nat i) = Ok (em_key (ed_mutations ed ! i))"
    if "i < length (ed_mutations ed)" for i
    using arg_cong [OF keys [THEN conjunct1], of "\<lambda>xs. xs ! i"] that encode_mutations_len [OF em] mk
    by (simp add: encode_tx_keys)
  have ks: "kp_user_key ` set plans = op_key ` set (operations b)"
    using arg_cong [OF eff(9), of set] w by (simp add: write_ok_def image_image)
  have es: "\<forall>i < length (ed_mutations ed).
      encode_tx_mutation_key (head + 1) (word_of_nat i) = Ok (em_key (ed_mutations ed ! i))
      \<and> V' TransactionKeyspace (em_key (ed_mutations ed ! i)) = Some (em_value (ed_mutations ed ! i))"
    using k eff(8) by simp
  have ch: "distinct (map mu_user_key (td_mutations dd))"
    "mu_user_key ` set (td_mutations dd) = op_key ` set (operations b)"
    "\<forall>m \<in> set (td_mutations dd). V UserKeyspace (mu_user_key m) = state_bytes (mu_before_state m)
         \<and> V' UserKeyspace (mu_user_key m) = state_bytes (mu_after_state m)"
    using eff(4,9) w(1) ks by (simp_all add: dd(3) comp_def write_ok_def image_image)
  show ?thesis
    by (rule exI [of _ "ed_meta_key ed"], rule exI [of _ "ed_meta_value ed"],
        rule exI [of _ "ed_mutations ed"], rule exI [of _ dd])
      (intro conjI mk eff(7) es dec dd(1,2) ch)
qed

theorem descriptor_describes_change_witness:
  "\<exists>w pc mk mv es d. preflight_batch sample_env sample_batch True = Ok w
     \<and> prepare_commit sample_env w 0 sample_context (\<lambda>_. Ok None) (Ok 0) = Ok pc
     \<and> decode_descriptor sample_env mk mv es = Ok d \<and> mu_user_key ` set (td_mutations d) = {[107]}"
proof -
  obtain w where w: "preflight_batch sample_env sample_batch True = Ok w" using sample_preflight by blast
  obtain pc where pc: "prepare_commit sample_env w 0 sample_context (\<lambda>_. Ok None) (Ok 0) = Ok pc"
    using sample_prepared [OF w] by blast
  have "\<forall>k v. (\<lambda>_. Ok None) k = Ok v \<longrightarrow> v = (\<lambda>_. Map.empty) UserKeyspace (k :: bytes)" by simp
  from descriptor_describes_change [where V = "\<lambda>_. Map.empty", OF allocates_sample_env w pc this refl]
  obtain mk mv es d where "decode_descriptor sample_env mk mv es = Ok d"
    "mu_user_key ` set (td_mutations d) = op_key ` set (operations sample_batch)"
    by (elim exE conjE) (rule that)
  then show ?thesis using w pc by auto
qed

text \<open>
  C18: a valid batch is always prepared. With memory, a sequence number left, random bytes, an index
  that answers for each written key with no value or with a pointer whose record holds a key
  of that length, and a log position with room for the records, validating and preparing
  a non-empty batch within the limits succeeds.
\<close>

theorem valid_batch_prepares:
  assumes "allocates E" and "batch_inv b" and "operations b \<noteq> []" and "unat head + 1 < 2 ^ 64"
    and "\<forall>k \<in> op_key ` set (operations b). \<exists>s. get_user k = Ok (state_bytes s) \<and> state_for k s"
    and "\<And>w. preflight_batch E b sync = Ok w \<Longrightarrow> commit_context_ok w ctx"
  shows "\<exists>w pc. preflight_batch E b sync = Ok w \<and> prepare_commit E w head ctx get_user (Ok u) = Ok pc"
proof -
  obtain w where w: "preflight_batch E b sync = Ok w"
    using preflight_batch_total [OF assms(1-3)] by (auto simp: is_ok_iff)
  note W = preflight_batch_Ok [OF w]
  have "set (vw_distinct_keys w) = op_key ` set (operations b)"
    using W by (simp add: write_ok_def image_image)
  then show ?thesis
    using prepare_commit_total [OF assms(1) _ assms(6) [OF w] assms(4)] assms(5) W w by auto
qed

theorem valid_batch_prepares_witness:
  "\<exists>w pc. preflight_batch sample_env sample_batch True = Ok w
     \<and> prepare_commit sample_env w 0 sample_context (\<lambda>_. Ok None) (Ok 0) = Ok pc"
  by (rule valid_batch_prepares [OF allocates_sample_env sample_batch_inv])
    (auto intro: exI [of _ Absent] sample_context_ok dest!: preflight_batch_Ok)

end
