(* ===== verification/Stats.thy ===== *)
theory Stats
  imports Errors
begin

text \<open>
  Statistics (\<open>src/stats.rs\<close>): the snapshot record behind the read-write lock, the two updates the
  runtime and the commit coordinator make to it, and the summary of a latched error. Each method
  takes the lock once, so each is one atomic step on the snapshot.
\<close>

record latched_error_summary =
  les_kind :: storage_error_kind
  les_operation :: operation
  les_protocol_stage :: protocol_stage
  les_retry_advice :: retry_advice
  les_os_code :: "int option"
  les_commit_seq :: "u64 option"
  les_vlog_file_id :: "u32 option"
  les_vlog_offset :: "u64 option"

record db_stats =
  st_schema_version :: u16
  st_instance_state :: instance_state
  st_state_epoch :: u64
  st_first_latched_error :: "latched_error_summary option"
  st_head_seq :: u64
  st_durable_seq :: u64
  st_durability_lag :: u64
  st_durable_vlog_end :: "(u32 \<times> u64) option"
  st_active_vlog_file_id :: "u32 option"
  st_vlog_file_count :: u32
  st_vlog_logical_bytes :: u64

definition StatsState_new :: db_stats where
  "StatsState_new =
     \<lparr>st_schema_version = 1, st_instance_state = Healthy, st_state_epoch = 0,
      st_first_latched_error = None, st_head_seq = 0, st_durable_seq = 0, st_durability_lag = 0,
      st_durable_vlog_end = None, st_active_vlog_file_id = None, st_vlog_file_count = 0,
      st_vlog_logical_bytes = 0\<rparr>"

definition update_runtime_state ::
  "instance_state \<Rightarrow> u64 \<Rightarrow> latched_error_summary option \<Rightarrow> db_stats \<Rightarrow> db_stats" where
  "update_runtime_state state epoch first_error s =
     (if epoch > st_state_epoch s \<or> epoch = st_state_epoch s \<and> state = st_instance_state s
      then s\<lparr>st_instance_state := state, st_state_epoch := epoch, st_first_latched_error := first_error\<rparr>
      else s)"

definition update_commit_state ::
  "u64 \<Rightarrow> u64 \<Rightarrow> (u32 \<times> u64) option \<Rightarrow> u32 option \<Rightarrow> u32 \<Rightarrow> u64 \<Rightarrow> db_stats \<Rightarrow> db_stats \<times> bool" where
  "update_commit_state head_seq durable_seq durable_vlog_end active_file file_count logical_bytes s =
     (if head_seq < durable_seq then (s, False)
      else (s\<lparr>st_head_seq := head_seq, st_durable_seq := durable_seq,
              st_durability_lag := head_seq - durable_seq, st_durable_vlog_end := durable_vlog_end,
              st_active_vlog_file_id := active_file, st_vlog_file_count := file_count,
              st_vlog_logical_bytes := logical_bytes\<rparr>, True))"

definition LatchedErrorSummary_from_storage_error :: "storage_error \<Rightarrow> latched_error_summary" where
  "LatchedErrorSummary_from_storage_error e =
     \<lparr>les_kind = err_kind e, les_operation = err_operation e, les_protocol_stage = err_stage e,
      les_retry_advice = err_retry e, les_os_code = err_os_code e, les_commit_seq = err_commit_seq e,
      les_vlog_file_id = err_vlog_file_id e, les_vlog_offset = err_vlog_offset e\<rparr>"

section \<open>The lag never wraps\<close>

text \<open>
  What every snapshot a reader can see satisfies: the durable sequence number is at most the head,
  and the lag is their difference.
\<close>

definition stats_ok :: "db_stats \<Rightarrow> bool" where
  "stats_ok s \<longleftrightarrow> st_durable_seq s \<le> st_head_seq s
     \<and> unat (st_durability_lag s) = unat (st_head_seq s) - unat (st_durable_seq s)"

lemma stats_ok_new: "stats_ok StatsState_new"
  by (simp add: stats_ok_def StatsState_new_def)

lemma stats_ok_runtime: "stats_ok s \<Longrightarrow> stats_ok (update_runtime_state st ep e s)"
  by (simp add: stats_ok_def update_runtime_state_def)

lemma stats_ok_commit:
  "stats_ok s \<Longrightarrow> stats_ok (fst (update_commit_state h d ve af fc lb s))"
  by (simp add: stats_ok_def update_commit_state_def unat_sub not_less)

datatype stats_update =
  RuntimeUpdate instance_state u64 "latched_error_summary option"
| CommitUpdate u64 u64 "(u32 \<times> u64) option" "u32 option" u32 u64

fun apply_update :: "stats_update \<Rightarrow> db_stats \<Rightarrow> db_stats" where
  "apply_update (RuntimeUpdate st ep e) s = update_runtime_state st ep e s"
| "apply_update (CommitUpdate h d ve af fc lb) s = fst (update_commit_state h d ve af fc lb s)"

lemma apply_update_ok: "stats_ok s \<Longrightarrow> stats_ok (apply_update u s)"
  by (cases u) (simp_all add: stats_ok_runtime stats_ok_commit)

lemma apply_update_epoch: "st_state_epoch s \<le> st_state_epoch (apply_update u s)"
  by (cases u) (auto simp: update_runtime_state_def update_commit_state_def)

lemma fold_update_epoch: "st_state_epoch s \<le> st_state_epoch (fold apply_update us s)"
proof (induction us arbitrary: s)
  case (Cons u us)
  then show ?case using apply_update_epoch [of s u] by (auto intro: order_trans)
qed simp

lemma fold_update_ok: "stats_ok s \<Longrightarrow> stats_ok (fold apply_update us s)"
  by (induction us arbitrary: s) (simp_all add: apply_update_ok)

text \<open>
  C40: statistics stay consistent. In whatever order the runtime and the coordinator publish, the
  durable sequence number never passes the head, the lag is their difference without wrap-around,
  and the published epoch never goes back.
\<close>

theorem stats_stay_consistent:
  "stats_ok (fold apply_update us StatsState_new)
   \<and> st_state_epoch (fold apply_update us StatsState_new)
       \<le> st_state_epoch (fold apply_update (us @ vs) StatsState_new)"
  by (simp add: fold_update_ok stats_ok_new fold_update_epoch)

end
