(* ===== verification/Runtime.thy ===== *)
theory Runtime
  imports Stats
begin

text \<open>
  The runtime control block (\<open>src/runtime/state.rs\<close>, \<open>src/runtime/write_gate.rs\<close>): the packed state
  word, the first latched error, the write gate with its queue and its active request, and the
  write requests. Requests are shared objects: the queue holds their ids, and their operation and
  phase live in a map from ids. The process-wide id counter is a field of the control block.

  Every method is split where the code releases the gate lock: a section runs under the lock, and
  what follows (marking requests, publishing statistics) runs after it. The whole methods are
  defined first; \<open>RuntimeSteps\<close> interleaves the sections of many threads.
\<close>

unbundle bit_operations_syntax

section \<open>The state word\<close>

definition STATE_BITS :: nat where
  "STATE_BITS = 2"

definition STATE_MASK :: u64 where
  "STATE_MASK = push_bit STATE_BITS 1 - 1"

record state_snapshot =
  ss_instance_state :: instance_state
  ss_state_epoch :: u64

record state_transition =
  tr_previous :: state_snapshot
  tr_current :: state_snapshot
  tr_changed :: bool
  tr_cancelled_writes :: nat

fun state_rank :: "instance_state \<Rightarrow> nat" where
  "state_rank Healthy = 0"
| "state_rank WriteStopped = 1"
| "state_rank Poisoned = 2"

definition is_upgrade :: "instance_state \<Rightarrow> instance_state \<Rightarrow> bool" where
  "is_upgrade current target \<longleftrightarrow> state_rank target > state_rank current"

definition encode_state :: "state_snapshot \<Rightarrow> u64" where
  "encode_state snapshot =
     (let state = (case ss_instance_state snapshot of Healthy \<Rightarrow> 0 | WriteStopped \<Rightarrow> 1 | Poisoned \<Rightarrow> 2)
      in push_bit STATE_BITS (ss_state_epoch snapshot) OR state)"

definition decode_state :: "u64 \<Rightarrow> state_snapshot" where
  "decode_state w =
     \<lparr>ss_instance_state =
        (if w AND STATE_MASK = 0 then Healthy
         else if w AND STATE_MASK = 1 then WriteStopped else Poisoned),
      ss_state_epoch = drop_bit STATE_BITS w\<rparr>"

definition u64_saturating_add :: "u64 \<Rightarrow> u64 \<Rightarrow> u64" where
  "u64_saturating_add a b = (case checked_add a b of Some c \<Rightarrow> c | None \<Rightarrow> -1)"

section \<open>Write requests\<close>

type_synonym request_id = u64

datatype request_phase = Queued | Started | Cancelled instance_state | Completed

record write_request =
  wr_operation :: operation
  wr_phase :: request_phase

definition WriteRequest_new :: "operation \<Rightarrow> write_request" where
  "WriteRequest_new operation = \<lparr>wr_operation = operation, wr_phase = Queued\<rparr>"

definition mark_started :: "write_request \<Rightarrow> write_request" where
  "mark_started r = (if wr_phase r = Queued then r\<lparr>wr_phase := Started\<rparr> else r)"

definition mark_completed :: "write_request \<Rightarrow> write_request" where
  "mark_completed r = (if wr_phase r = Started then r\<lparr>wr_phase := Completed\<rparr> else r)"

definition cancel_for_state :: "instance_state \<Rightarrow> write_request \<Rightarrow> write_request" where
  "cancel_for_state state r = (if wr_phase r = Queued then r\<lparr>wr_phase := Cancelled state\<rparr> else r)"

definition cancel_while_healthy :: "write_request \<Rightarrow> write_request" where
  "cancel_while_healthy r = cancel_for_state Healthy r"

definition abandoned_active_write_error :: "operation \<Rightarrow> storage_error" where
  "abandoned_active_write_error operation =
     (codec_error StoragePoisoned operation Lifecycle (Some CommitUnknown) ReopenAndVerify)
       \<lparr>err_state := Some Poisoned\<rparr>"

definition admission_error :: "operation \<Rightarrow> instance_state \<Rightarrow> storage_error" where
  "admission_error operation state =
     (let (kind, retry) =
        (case state of
           Healthy \<Rightarrow> (Busy, RetrySameInstance)
         | WriteStopped \<Rightarrow> (StorageWriteStopped, FixEnvironmentAndReopen)
         | Poisoned \<Rightarrow> (StoragePoisoned, ReopenAndVerify))
      in (codec_error kind operation Admission (Some NotCommitted) retry)\<lparr>err_state := Some state\<rparr>)"

definition cancelled_error :: "operation \<Rightarrow> instance_state \<Rightarrow> storage_error" where
  "cancelled_error operation state = admission_error operation state"

text \<open>Waiting: \<open>None\<close> stands for a thread that stays blocked on the condition variable.\<close>

definition wait_until_started :: "write_request \<Rightarrow> unit res option" where
  "wait_until_started r =
     (case wr_phase r of
        Started \<Rightarrow> Some (Ok ())
      | Completed \<Rightarrow> Some (Ok ())
      | Cancelled state \<Rightarrow> Some (Err (cancelled_error (wr_operation r) state))
      | Queued \<Rightarrow> None)"

definition wait_until_started_timeout :: "bool \<Rightarrow> write_request \<Rightarrow> bool res option" where
  "wait_until_started_timeout expired r =
     (case wr_phase r of
        Started \<Rightarrow> Some (Ok True)
      | Completed \<Rightarrow> Some (Ok True)
      | Cancelled state \<Rightarrow> Some (Err (cancelled_error (wr_operation r) state))
      | Queued \<Rightarrow> if expired then Some (Ok False) else None)"

section \<open>The control block\<close>

record write_gate_inner =
  accepting_writes :: bool
  ordered_queue :: "request_id list"
  active_request :: "request_id option"

definition WriteGateInner_new :: write_gate_inner where
  "WriteGateInner_new = \<lparr>accepting_writes = True, ordered_queue = [], active_request = None\<rparr>"

record runtime_control =
  rc_state_word :: u64
  rc_first_latched_error :: "latched_error_summary option"
  rc_gate :: write_gate_inner
  rc_stats :: db_stats
  rc_requests :: "request_id \<rightharpoonup> write_request"
  rc_next_request_id :: u64

definition runtime_state :: "runtime_control \<Rightarrow> state_snapshot" where
  "runtime_state rc = decode_state (rc_state_word rc)"

abbreviation inst :: "runtime_control \<Rightarrow> instance_state" where
  "inst rc \<equiv> ss_instance_state (runtime_state rc)"

abbreviation queue_of :: "runtime_control \<Rightarrow> request_id list" where
  "queue_of rc \<equiv> ordered_queue (rc_gate rc)"

abbreviation active_of :: "runtime_control \<Rightarrow> request_id option" where
  "active_of rc \<equiv> active_request (rc_gate rc)"

definition publish_stats :: "state_snapshot \<Rightarrow> runtime_control \<Rightarrow> runtime_control" where
  "publish_stats snapshot rc =
     rc\<lparr>rc_stats := update_runtime_state (ss_instance_state snapshot) (ss_state_epoch snapshot)
          (rc_first_latched_error rc) (rc_stats rc)\<rparr>"

definition RuntimeControl_new :: "db_stats \<Rightarrow> u64 \<Rightarrow> runtime_control" where
  "RuntimeControl_new stats next_id =
     publish_stats \<lparr>ss_instance_state = Healthy, ss_state_epoch = 0\<rparr>
       \<lparr>rc_state_word = encode_state \<lparr>ss_instance_state = Healthy, ss_state_epoch = 0\<rparr>,
        rc_first_latched_error = None, rc_gate = WriteGateInner_new, rc_stats = stats,
        rc_requests = Map.empty, rc_next_request_id = next_id\<rparr>"

definition at_request ::
  "(write_request \<Rightarrow> write_request) \<Rightarrow> request_id \<Rightarrow> runtime_control \<Rightarrow> runtime_control" where
  "at_request f rid rc =
     rc\<lparr>rc_requests := (rc_requests rc)(rid := map_option f (rc_requests rc rid))\<rparr>"

definition new_request :: "operation \<Rightarrow> runtime_control \<Rightarrow> runtime_control \<times> request_id" where
  "new_request operation rc =
     (let rid = rc_next_request_id rc
      in (rc\<lparr>rc_next_request_id := rid + 1,
             rc_requests := (rc_requests rc)(rid \<mapsto> WriteRequest_new operation)\<rparr>, rid))"

definition set_gate :: "(write_gate_inner \<Rightarrow> write_gate_inner) \<Rightarrow> runtime_control \<Rightarrow> runtime_control" where
  "set_gate f rc = rc\<lparr>rc_gate := f (rc_gate rc)\<rparr>"

section \<open>Sections under the gate lock\<close>

definition fast_check :: "operation \<Rightarrow> runtime_control \<Rightarrow> unit res" where
  "fast_check operation rc =
     ensure (inst rc = Healthy) (admission_error operation (inst rc))"

definition admission_section :: "operation \<Rightarrow> runtime_control \<Rightarrow> unit res" where
  "admission_section operation rc =
     ensure (\<not> (inst rc \<noteq> Healthy \<or> \<not> accepting_writes (rc_gate rc)))
       (admission_error operation (inst rc))"

definition enqueue_section ::
  "operation \<Rightarrow> request_id \<Rightarrow> runtime_control \<Rightarrow> runtime_control \<times> bool res" where
  "enqueue_section operation rid rc =
     (case admission_section operation rc of
        Err e \<Rightarrow> (rc, Err e)
      | Ok _ \<Rightarrow>
          if active_of rc = None \<and> queue_of rc = []
          then (set_gate (\<lambda>g. g\<lparr>active_request := Some rid\<rparr>) rc, Ok True)
          else (set_gate (\<lambda>g. g\<lparr>ordered_queue := ordered_queue g @ [rid]\<rparr>) rc, Ok False))"

definition close_section :: "runtime_control \<Rightarrow> runtime_control \<times> instance_state \<times> request_id list" where
  "close_section rc =
     (set_gate (\<lambda>g. g\<lparr>accepting_writes := False, ordered_queue := []\<rparr>) rc, inst rc, queue_of rc)"

definition required_failure_state :: "instance_state \<Rightarrow> storage_error \<Rightarrow> instance_state" where
  "required_failure_state target error =
     (let required =
        (if err_outcome error = Some CommitUnknown \<or> err_stage error = VLogSync
            \<or> err_kind error \<in> {Corruption, InvalidLayout, IncompatibleFormat, StoragePoisoned, Unrecoverable}
         then Poisoned
         else if err_kind error = StorageWriteStopped then WriteStopped
         else Healthy)
      in if state_rank required > state_rank target then required else target)"

definition latch_section ::
  "instance_state \<Rightarrow> latched_error_summary \<Rightarrow> runtime_control \<Rightarrow>
   runtime_control \<times> state_transition \<times> request_id list" where
  "latch_section target summary rc =
     (let previous = runtime_state rc in
      if \<not> is_upgrade (ss_instance_state previous) target
      then (rc, \<lparr>tr_previous = previous, tr_current = previous, tr_changed = False,
                 tr_cancelled_writes = 0\<rparr>, [])
      else
        let current = \<lparr>ss_instance_state = target,
                       ss_state_epoch = u64_saturating_add (ss_state_epoch previous) 1\<rparr>;
            first_error =
              (if ss_instance_state previous = Healthy \<and> rc_first_latched_error rc = None
               then Some summary else rc_first_latched_error rc);
            cancelled = queue_of rc
        in (set_gate (\<lambda>g. g\<lparr>accepting_writes := False, ordered_queue := []\<rparr>)
              (rc\<lparr>rc_first_latched_error := first_error, rc_state_word := encode_state current\<rparr>),
            \<lparr>tr_previous = previous, tr_current = current, tr_changed = True,
             tr_cancelled_writes = length cancelled\<rparr>, cancelled))"

definition remove_queued :: "request_id \<Rightarrow> runtime_control \<Rightarrow> runtime_control \<times> bool" where
  "remove_queued rid rc =
     (if rid \<in> set (queue_of rc)
      then (set_gate (\<lambda>g. g\<lparr>ordered_queue := remove1 rid (ordered_queue g)\<rparr>) rc, True)
      else (rc, False))"

definition abandon_section :: "request_id \<Rightarrow> runtime_control \<Rightarrow> runtime_control \<times> bool \<times> bool" where
  "abandon_section rid rc =
     (let (rc', removed) = remove_queued rid rc
      in (rc', removed, \<not> removed \<and> active_of rc' = Some rid))"

definition finish_section ::
  "request_id \<Rightarrow> runtime_control \<Rightarrow> runtime_control \<times> request_id option option" where
  "finish_section rid rc =
     (if active_of rc \<noteq> Some rid then (rc, None)
      else
        let rc' = set_gate (\<lambda>g. g\<lparr>active_request := None\<rparr>) rc in
        if inst rc = Healthy \<and> accepting_writes (rc_gate rc)
        then (case queue_of rc of
                next # rest \<Rightarrow>
                  (set_gate (\<lambda>g. g\<lparr>ordered_queue := rest, active_request := Some next\<rparr>) rc', Some (Some next))
              | [] \<Rightarrow> (rc', Some None))
        else (rc', Some None))"

section \<open>The methods\<close>

definition first_latched_error :: "runtime_control \<Rightarrow> latched_error_summary option" where
  "first_latched_error rc = rc_first_latched_error rc"

definition check_write_admission :: "operation \<Rightarrow> runtime_control \<Rightarrow> unit res" where
  "check_write_admission operation rc =
     and_then (fast_check operation rc) (\<lambda>_. admission_section operation rc)"

definition enqueue_write :: "operation \<Rightarrow> runtime_control \<Rightarrow> runtime_control \<times> request_id res" where
  "enqueue_write operation rc =
     (case fast_check operation rc of
        Err e \<Rightarrow> (rc, Err e)
      | Ok _ \<Rightarrow>
          let (rc, rid) = new_request operation rc in
          case enqueue_section operation rid rc of
            (rc, Err e) \<Rightarrow> (rc, Err e)
          | (rc, Ok starts_now) \<Rightarrow>
              ((if starts_now then at_request mark_started rid rc else rc), Ok rid))"

definition cancel_all :: "instance_state \<Rightarrow> request_id list \<Rightarrow> runtime_control \<Rightarrow> runtime_control" where
  "cancel_all state rids rc = fold (at_request (cancel_for_state state)) rids rc"

definition close_write_admission :: "runtime_control \<Rightarrow> runtime_control" where
  "close_write_admission rc =
     (let (rc, state, cancelled) = close_section rc in cancel_all state cancelled rc)"

definition latch_failure ::
  "instance_state \<Rightarrow> storage_error \<Rightarrow> runtime_control \<Rightarrow> runtime_control \<times> state_transition" where
  "latch_failure target error rc =
     (let target = required_failure_state target error;
          summary = LatchedErrorSummary_from_storage_error error;
          (rc, transition, cancelled) = latch_section target summary rc
      in if \<not> tr_changed transition then (rc, transition)
         else (publish_stats (tr_current transition) (cancel_all target cancelled rc), transition))"

definition runtime_stats :: "runtime_control \<Rightarrow> db_stats" where
  "runtime_stats rc =
     (let state = runtime_state rc
      in (rc_stats rc)
           \<lparr>st_instance_state := ss_instance_state state, st_state_epoch := ss_state_epoch state,
            st_first_latched_error :=
              (if ss_instance_state state = Healthy then None else rc_first_latched_error rc)\<rparr>)"

definition cancel_queued_write :: "request_id \<Rightarrow> runtime_control \<Rightarrow> runtime_control \<times> bool" where
  "cancel_queued_write rid rc =
     (let (rc, removed) = remove_queued rid rc
      in ((if removed then at_request cancel_while_healthy rid rc else rc), removed))"

definition finish_write :: "request_id \<Rightarrow> runtime_control \<Rightarrow> runtime_control \<times> bool" where
  "finish_write rid rc =
     (case finish_section rid rc of
        (rc, None) \<Rightarrow> (rc, False)
      | (rc, Some next) \<Rightarrow>
          let rc = at_request mark_completed rid rc
          in ((case next of Some n \<Rightarrow> at_request mark_started n rc | None \<Rightarrow> rc), True))"

definition abandon_write :: "request_id \<Rightarrow> operation \<Rightarrow> runtime_control \<Rightarrow> runtime_control" where
  "abandon_write rid operation rc =
     (let (rc, removed, was_active) = abandon_section rid rc in
      if removed then at_request cancel_while_healthy rid rc
      else if \<not> was_active then rc
      else
        let (rc, _) = latch_failure Poisoned (abandoned_active_write_error operation) rc;
            (rc, _) = finish_write rid rc
        in rc)"

definition WriteTicket_finish :: "request_id \<Rightarrow> operation \<Rightarrow> runtime_control \<Rightarrow> runtime_control \<times> bool" where
  "WriteTicket_finish rid operation rc =
     (let (rc, finished) = finish_write rid rc
      in ((if finished then rc else abandon_write rid operation rc), finished))"

definition WriteTicket_drop :: "request_id \<Rightarrow> operation \<Rightarrow> runtime_control \<Rightarrow> runtime_control" where
  "WriteTicket_drop rid operation rc = abandon_write rid operation rc"

definition WriteTicket_wait_until_started :: "request_id \<Rightarrow> runtime_control \<Rightarrow> unit res option" where
  "WriteTicket_wait_until_started rid rc =
     (case rc_requests rc rid of Some r \<Rightarrow> wait_until_started r | None \<Rightarrow> None)"

definition WriteTicket_wait_until_started_timeout ::
  "bool \<Rightarrow> request_id \<Rightarrow> runtime_control \<Rightarrow> bool res option" where
  "WriteTicket_wait_until_started_timeout expired rid rc =
     (case rc_requests rc rid of Some r \<Rightarrow> wait_until_started_timeout expired r | None \<Rightarrow> None)"

definition WriteTicket_cancel_queued :: "request_id \<Rightarrow> runtime_control \<Rightarrow> runtime_control \<times> bool" where
  "WriteTicket_cancel_queued rid rc = cancel_queued_write rid rc"

section \<open>The state word is faithful\<close>

lemma STATE_MASK_eq: "STATE_MASK = 3"
  by (simp add: STATE_MASK_def STATE_BITS_def)

lemma push_or_small:
  fixes e c :: u64
  assumes "unat e < 2 ^ 62" and "c \<in> {0, 1, 2}"
  shows "(push_bit 2 e OR c) AND 3 = c" and "drop_bit 2 (push_bit 2 e OR c) = e"
proof -
  have mask: "w AND 3 = take_bit 2 w" for w :: u64
    by (simp add: take_bit_eq_mask mask_eq_exp_minus_1)
  have "take_bit 2 (push_bit 2 e OR c) = take_bit 2 c" by (simp add: take_bit_push_bit)
  also have "\<dots> = c" using assms(2) by auto
  finally show "(push_bit 2 e OR c) AND 3 = c" unfolding mask .
  have "drop_bit 2 (push_bit 2 e) = e"
    using assms(1)
    by (simp add: word_unat_eq_iff unat_drop_bit_eq push_bit_eq_mult drop_bit_eq_div
        unat_word_ariths)
  then show "drop_bit 2 (push_bit 2 e OR c) = e" using assms(2) by auto
qed

lemma decode_encode_state:
  assumes "unat (ss_state_epoch s) < 2 ^ 62"
  shows "decode_state (encode_state s) = s"
  using push_or_small [OF assms]
  by (cases s) (auto simp: decode_state_def encode_state_def STATE_MASK_eq STATE_BITS_def Let_def
      split: instance_state.splits)


section \<open>What each section changes\<close>

lemma at_request_simps [simp]:
  "rc_state_word (at_request f rid rc) = rc_state_word rc"
  "rc_first_latched_error (at_request f rid rc) = rc_first_latched_error rc"
  "rc_gate (at_request f rid rc) = rc_gate rc"
  "rc_stats (at_request f rid rc) = rc_stats rc"
  "rc_next_request_id (at_request f rid rc) = rc_next_request_id rc"
  "rc_requests (at_request f rid rc) r
     = (if r = rid then map_option f (rc_requests rc r) else rc_requests rc r)"
  by (simp_all add: at_request_def)

lemma set_gate_simps [simp]:
  "rc_state_word (set_gate h rc) = rc_state_word rc"
  "rc_first_latched_error (set_gate h rc) = rc_first_latched_error rc"
  "rc_gate (set_gate h rc) = h (rc_gate rc)"
  "rc_stats (set_gate h rc) = rc_stats rc"
  "rc_requests (set_gate h rc) = rc_requests rc"
  "rc_next_request_id (set_gate h rc) = rc_next_request_id rc"
  by (simp_all add: set_gate_def)

lemma publish_stats_simps [simp]:
  "rc_state_word (publish_stats s rc) = rc_state_word rc"
  "rc_first_latched_error (publish_stats s rc) = rc_first_latched_error rc"
  "rc_gate (publish_stats s rc) = rc_gate rc"
  "rc_requests (publish_stats s rc) = rc_requests rc"
  "rc_next_request_id (publish_stats s rc) = rc_next_request_id rc"
  by (simp_all add: publish_stats_def)

lemma new_request_simps [simp]:
  "rc_state_word (fst (new_request op rc)) = rc_state_word rc"
  "rc_first_latched_error (fst (new_request op rc)) = rc_first_latched_error rc"
  "rc_gate (fst (new_request op rc)) = rc_gate rc"
  "rc_stats (fst (new_request op rc)) = rc_stats rc"
  "rc_requests (fst (new_request op rc)) = (rc_requests rc)(rc_next_request_id rc \<mapsto> WriteRequest_new op)"
  "rc_next_request_id (fst (new_request op rc)) = rc_next_request_id rc + 1"
  "snd (new_request op rc) = rc_next_request_id rc"
  by (simp_all add: new_request_def Let_def)

lemma runtime_state_cong: "rc_state_word rc = rc_state_word rc' \<Longrightarrow> runtime_state rc = runtime_state rc'"
  by (simp add: runtime_state_def)

lemma runtime_state_simps [simp]:
  "runtime_state (at_request f rid rc) = runtime_state rc"
  "runtime_state (set_gate h rc) = runtime_state rc"
  "runtime_state (publish_stats s rc) = runtime_state rc"
  "runtime_state (fst (new_request op rc)) = runtime_state rc"
  "runtime_state (rc\<lparr>rc_first_latched_error := e\<rparr>) = runtime_state rc"
  "runtime_state (rc\<lparr>rc_stats := st\<rparr>) = runtime_state rc"
  by (simp_all add: runtime_state_def)

lemma cancel_all_simps [simp]:
  "rc_state_word (cancel_all st rids rc) = rc_state_word rc"
  "rc_first_latched_error (cancel_all st rids rc) = rc_first_latched_error rc"
  "rc_gate (cancel_all st rids rc) = rc_gate rc"
  "rc_stats (cancel_all st rids rc) = rc_stats rc"
  "rc_next_request_id (cancel_all st rids rc) = rc_next_request_id rc"
  "runtime_state (cancel_all st rids rc) = runtime_state rc"
  unfolding cancel_all_def by (induction rids arbitrary: rc) simp_all

section \<open>The gate invariant\<close>

text \<open>
  What holds of the control block whenever no section is running: the epoch counts at most one
  step per rank, the first error is latched exactly when the instance is no longer healthy, a
  closed gate has an empty queue, and requests wait only while another one is active.
\<close>

definition gate_ok :: "runtime_control \<Rightarrow> bool" where
  "gate_ok rc \<longleftrightarrow>
     unat (ss_state_epoch (runtime_state rc)) \<le> state_rank (inst rc)
     \<and> (rc_first_latched_error rc = None \<longleftrightarrow> inst rc = Healthy)
     \<and> (accepting_writes (rc_gate rc) \<longrightarrow> inst rc = Healthy)
     \<and> (\<not> accepting_writes (rc_gate rc) \<longrightarrow> queue_of rc = [])
     \<and> (active_of rc = None \<longrightarrow> queue_of rc = [])
     \<and> distinct (queue_of rc) \<and> (\<forall>a. active_of rc = Some a \<longrightarrow> a \<notin> set (queue_of rc))"

lemma gate_ok_cong:
  assumes "gate_ok rc" and "rc_state_word rc' = rc_state_word rc"
    and "rc_first_latched_error rc' = rc_first_latched_error rc" and "rc_gate rc' = rc_gate rc"
  shows "gate_ok rc'"
  using assms runtime_state_cong [of rc' rc] by (simp add: gate_ok_def)

lemma state_rank_le: "state_rank st \<le> 2" by (cases st) simp_all

lemma state_rank_inject: "state_rank a = state_rank b \<longleftrightarrow> a = b" by (cases a; cases b) simp_all

lemma initial_state_word [simp]:
  "runtime_state (RuntimeControl_new stats n) = \<lparr>ss_instance_state = Healthy, ss_state_epoch = 0\<rparr>"
  by (simp add: RuntimeControl_new_def) (simp add: runtime_state_def decode_encode_state)

lemma gate_ok_new: "gate_ok (RuntimeControl_new stats n)"
  by (simp add: gate_ok_def) (simp add: RuntimeControl_new_def WriteGateInner_new_def)

lemma enqueue_section_cases:
  assumes "gate_ok rc" and "enqueue_section op rid rc = (rc', r)"
  shows "(\<exists>e. r = Err e \<and> rc' = rc)
    \<or> r = Ok True \<and> active_of rc = None \<and> queue_of rc = [] \<and> accepting_writes (rc_gate rc)
        \<and> rc' = set_gate (\<lambda>g. g\<lparr>active_request := Some rid\<rparr>) rc
    \<or> (\<exists>a. r = Ok False \<and> active_of rc = Some a \<and> accepting_writes (rc_gate rc)
        \<and> rc' = set_gate (\<lambda>g. g\<lparr>ordered_queue := ordered_queue g @ [rid]\<rparr>) rc)"
  using assms
  by (auto simp: enqueue_section_def admission_section_def ensure_def gate_ok_def
      split: result.splits if_splits)

lemma enqueue_section_ok:
  assumes "gate_ok rc" and "rid \<notin> set (queue_of rc)" and "active_of rc \<noteq> Some rid"
    and "enqueue_section op rid rc = (rc', r)"
  shows "gate_ok rc'"
  using enqueue_section_cases [OF assms(1,4)] assms(1-3) by (auto simp: gate_ok_def)

lemma close_section_ok: "gate_ok rc \<Longrightarrow> gate_ok (fst (close_section rc))"
  by (simp add: gate_ok_def close_section_def)

lemma remove_queued_ok: "gate_ok rc \<Longrightarrow> gate_ok (fst (remove_queued rid rc))"
  by (auto simp: gate_ok_def remove_queued_def dest: notin_set_remove1)

lemma finish_section_ok: "gate_ok rc \<Longrightarrow> gate_ok (fst (finish_section rid rc))"
  by (auto simp: gate_ok_def finish_section_def Let_def split: list.splits)

lemma latched_state:
  assumes "gate_ok rc" and "is_upgrade (inst rc) target"
  shows "runtime_state (fst (latch_section target summary rc))
      = \<lparr>ss_instance_state = target, ss_state_epoch = ss_state_epoch (runtime_state rc) + 1\<rparr>"
    and "unat (ss_state_epoch (runtime_state rc) + 1) \<le> state_rank target"
proof -
  let ?e = "ss_state_epoch (runtime_state rc)"
  have e: "unat ?e \<le> state_rank (inst rc)" "state_rank (inst rc) < state_rank target"
    using assms by (simp_all add: gate_ok_def is_upgrade_def)
  then have small: "unat ?e < 2" using state_rank_le [of target] by linarith
  then have u: "unat (?e + 1) = unat ?e + 1" by (simp add: unat_add_no_overflow)
  then show "unat (?e + 1) \<le> state_rank target" using e by simp
  have "checked_add ?e 1 = Some (?e + 1)" using small by (simp add: checked_add_Some)
  then show "runtime_state (fst (latch_section target summary rc))
      = \<lparr>ss_instance_state = target, ss_state_epoch = ?e + 1\<rparr>"
    using assms(2) small u
    by (simp add: latch_section_def Let_def u64_saturating_add_def)
      (simp add: runtime_state_def decode_encode_state)
qed

lemma latch_section_ok:
  assumes "gate_ok rc"
  shows "gate_ok (fst (latch_section target summary rc))"
proof (cases "is_upgrade (inst rc) target")
  case True
  note l = latched_state(1) [OF assms True, of summary] latched_state(2) [OF assms True]
  have "target \<noteq> Healthy" using True by (cases target) (simp_all add: is_upgrade_def)
  moreover have "rc_first_latched_error (fst (latch_section target summary rc)) \<noteq> None"
    using assms True by (auto simp: gate_ok_def latch_section_def Let_def)
  moreover have "rc_gate (fst (latch_section target summary rc))
      = (rc_gate rc)\<lparr>accepting_writes := False, ordered_queue := []\<rparr>"
    using True by (simp add: latch_section_def Let_def)
  ultimately show ?thesis using l by (simp add: gate_ok_def)
qed (use assms in \<open>simp add: latch_section_def Let_def\<close>)

end
