(* ===== verification/RuntimeSteps.thy ===== *)
theory RuntimeSteps
  imports Runtime "HOL-Library.Sublist"
begin

text \<open>
  Threads on the write gate. A thread's remaining work is a list of tasks; a task is a section
  under the gate lock or one of the small steps the code makes outside it (reading the state word
  on the fast path, taking a request id, marking a request, publishing statistics, handing out the
  ticket). A step of the system runs the first task of one thread, or an idle thread enters a
  method. Rust's ownership of a ticket is the map \<open>sys_ticket\<close>: only a held ticket can be
  finished or dropped, and only once.
\<close>

section \<open>Tasks\<close>

datatype task =
  MarkStarted request_id
| MarkCompleted request_id
| CancelFor request_id instance_state
| PublishStats state_snapshot
| FastCheck operation
| NewRequest operation
| Admit operation request_id
| Issue request_id
| Latch instance_state storage_error
| Finish request_id
| FinishTicket request_id operation
| CancelQueued request_id
| Abandon request_id operation
| CloseAdmission

definition after_finish :: "request_id \<Rightarrow> request_id option \<Rightarrow> task list" where
  "after_finish rid next =
     MarkCompleted rid # (case next of Some n \<Rightarrow> [MarkStarted n] | None \<Rightarrow> [])"

fun task_step :: "task \<Rightarrow> runtime_control \<Rightarrow> runtime_control \<times> task list" where
  "task_step (MarkStarted rid) rc = (at_request mark_started rid rc, [])"
| "task_step (MarkCompleted rid) rc = (at_request mark_completed rid rc, [])"
| "task_step (CancelFor rid state) rc = (at_request (cancel_for_state state) rid rc, [])"
| "task_step (PublishStats snapshot) rc = (publish_stats snapshot rc, [])"
| "task_step (FastCheck operation) rc =
     (rc, case fast_check operation rc of Ok _ \<Rightarrow> [NewRequest operation] | Err _ \<Rightarrow> [])"
| "task_step (NewRequest operation) rc =
     (let (rc, rid) = new_request operation rc in (rc, [Admit operation rid]))"
| "task_step (Admit operation rid) rc =
     (case enqueue_section operation rid rc of
        (rc, Err e) \<Rightarrow> (rc, [])
      | (rc, Ok starts_now) \<Rightarrow> (rc, (if starts_now then [MarkStarted rid] else []) @ [Issue rid]))"
| "task_step (Issue rid) rc = (rc, [])"
| "task_step (Latch target error) rc =
     (let target = required_failure_state target error;
          (rc, transition, cancelled) =
            latch_section target (LatchedErrorSummary_from_storage_error error) rc
      in (rc, if tr_changed transition
              then map (\<lambda>r. CancelFor r target) cancelled @ [PublishStats (tr_current transition)]
              else []))"
| "task_step (Finish rid) rc =
     (case finish_section rid rc of
        (rc, None) \<Rightarrow> (rc, [])
      | (rc, Some next) \<Rightarrow> (rc, after_finish rid next))"
| "task_step (FinishTicket rid operation) rc =
     (case finish_section rid rc of
        (rc, None) \<Rightarrow> (rc, [Abandon rid operation])
      | (rc, Some next) \<Rightarrow> (rc, after_finish rid next))"
| "task_step (CancelQueued rid) rc =
     (let (rc, removed) = remove_queued rid rc in (rc, if removed then [CancelFor rid Healthy] else []))"
| "task_step (Abandon rid operation) rc =
     (let (rc, removed, was_active) = abandon_section rid rc
      in (rc, if removed then [CancelFor rid Healthy]
              else if was_active
              then [Latch Poisoned (abandoned_active_write_error operation), Finish rid]
              else []))"
| "task_step CloseAdmission rc =
     (let (rc, state, cancelled) = close_section rc in (rc, map (\<lambda>r. CancelFor r state) cancelled))"

section \<open>A method is its tasks run in a row\<close>

text \<open>One thread alone.\<close>

inductive alone :: "task list \<Rightarrow> runtime_control \<Rightarrow> runtime_control \<Rightarrow> bool" where
  alone_nil: "alone [] rc rc"
| alone_task: "task_step task rc = (rc', new) \<Longrightarrow> alone (new @ rest) rc' rc'' \<Longrightarrow> alone (task # rest) rc rc''"

inductive_simps alone_nil_iff [simp]: "alone [] rc rc'"
inductive_simps alone_cons: "alone (task # rest) rc rc'"

lemma alone_cons_iff [simp]:
  "alone (task # rest) rc rc' \<longleftrightarrow> alone (snd (task_step task rc) @ rest) (fst (task_step task rc)) rc'"
  by (cases "task_step task rc") (simp add: alone_cons)

lemma alone_append: "alone xs rc rc' \<Longrightarrow> alone ys rc' rc'' \<Longrightarrow> alone (xs @ ys) rc rc''"
  by (induction rule: alone.induct) simp_all

lemma alone_deterministic: "alone ts rc rc1 \<Longrightarrow> alone ts rc rc2 \<Longrightarrow> rc1 = rc2"
  by (induction arbitrary: rc2 rule: alone.induct) simp_all

lemma alone_cancel [simp]:
  "alone (map (\<lambda>r. CancelFor r st) rids @ rest) rc rc' \<longleftrightarrow> alone rest (cancel_all st rids rc) rc'"
  by (induction rids arbitrary: rc) (simp_all add: cancel_all_def)

lemma alone_cancel_only [simp]:
  "alone (map (\<lambda>r. CancelFor r st) rids) rc rc' \<longleftrightarrow> rc' = cancel_all st rids rc"
  using alone_cancel [of st rids "[]" rc rc'] by auto

lemma alone_latch: "alone [Latch target error] rc (fst (latch_failure target error rc))"
  by (simp add: latch_failure_def Let_def split: prod.splits)

lemma alone_finish: "alone [Finish rid] rc (fst (finish_write rid rc))"
  by (simp add: finish_write_def after_finish_def Let_def split: prod.splits option.splits)

lemma alone_cancel_queued: "alone [CancelQueued rid] rc (fst (cancel_queued_write rid rc))"
  by (auto simp: cancel_queued_write_def cancel_while_healthy_def [abs_def] Let_def split: prod.splits)

lemma alone_abandon: "alone [Abandon rid op] rc (abandon_write rid op rc)"
proof (cases "abandon_section rid rc")
  case (fields rc' removed was_active)
  let ?e = "abandoned_active_write_error op"
  show ?thesis
  proof (cases "\<not> removed \<and> was_active")
    case True
    have "alone ([Latch Poisoned ?e] @ [Finish rid]) rc'
        (fst (finish_write rid (fst (latch_failure Poisoned ?e rc'))))"
      by (rule alone_append [OF alone_latch alone_finish])
    moreover have "abandon_write rid op rc = fst (finish_write rid (fst (latch_failure Poisoned ?e rc')))"
      using fields True by (simp add: abandon_write_def Let_def split: prod.splits)
    moreover have "task_step (Abandon rid op) rc = (rc', [Latch Poisoned ?e] @ [Finish rid])"
      using fields True by simp
    ultimately show ?thesis by (metis alone_task append_Nil2)
  qed (use fields in \<open>auto simp: abandon_write_def cancel_while_healthy_def [abs_def] Let_def\<close>)
qed

lemma alone_finish_ticket: "alone [FinishTicket rid op] rc (fst (WriteTicket_finish rid op rc))"
proof (cases "finish_section rid rc")
  case (Pair rc' nxt)
  show ?thesis
  proof (cases nxt)
    case None
    then have "task_step (FinishTicket rid op) rc = (rc', [Abandon rid op])" using Pair by simp
    moreover have "fst (WriteTicket_finish rid op rc) = abandon_write rid op rc'"
      using Pair None by (simp add: WriteTicket_finish_def finish_write_def)
    ultimately show ?thesis using alone_abandon [of rid op rc'] by (metis alone_task append_Nil2)
  qed (use Pair in \<open>auto simp: WriteTicket_finish_def finish_write_def after_finish_def Let_def
      split: option.splits\<close>)
qed

lemma alone_enqueue: "alone [FastCheck op] rc (fst (enqueue_write op rc))"
  by (auto simp: enqueue_write_def Let_def split: prod.splits result.splits)

lemma alone_close: "alone [CloseAdmission] rc (close_write_admission rc)"
  by (simp add: close_write_admission_def Let_def split: prod.splits)


section \<open>Many threads\<close>

type_synonym thread = nat

datatype ticket_place = Unborn | Created thread | Issuing thread | Held | Released

record system =
  sys_rc :: runtime_control
  sys_threads :: "thread \<Rightarrow> task list"
  sys_ticket :: "request_id \<Rightarrow> ticket_place"
  sys_admitted :: "request_id list"
  sys_activated :: "request_id list"

definition initial_system :: "db_stats \<Rightarrow> request_id \<Rightarrow> system" where
  "initial_system stats next_id =
     \<lparr>sys_rc = RuntimeControl_new stats next_id, sys_threads = (\<lambda>_. []), sys_ticket = (\<lambda>_. Unborn),
      sys_admitted = [], sys_activated = []\<rparr>"

text \<open>Where a task leaves the ticket of a request.\<close>

fun ticket_after ::
  "thread \<Rightarrow> task \<Rightarrow> runtime_control \<Rightarrow> (request_id \<Rightarrow> ticket_place) \<Rightarrow> request_id \<Rightarrow> ticket_place" where
  "ticket_after t (NewRequest op) rc place = place(rc_next_request_id rc := Created t)"
| "ticket_after t (Admit op rid) rc place =
     place(rid := (if is_ok (snd (enqueue_section op rid rc)) then Issuing t else Released))"
| "ticket_after t (Issue rid) rc place = place(rid := Held)"
| "ticket_after t _ rc place = place"

fun admitted_by :: "task \<Rightarrow> runtime_control \<Rightarrow> request_id list" where
  "admitted_by (Admit op rid) rc = (if is_ok (snd (enqueue_section op rid rc)) then [rid] else [])"
| "admitted_by _ rc = []"

definition activated_by :: "task \<Rightarrow> runtime_control \<Rightarrow> request_id list" where
  "activated_by task rc =
     (case active_of (fst (task_step task rc)) of
        Some a \<Rightarrow> if active_of rc = Some a then [] else [a]
      | None \<Rightarrow> [])"

fun free_call :: "task \<Rightarrow> bool" where
  "free_call (FastCheck _) = True"
| "free_call (Latch _ _) = True"
| "free_call CloseAdmission = True"
| "free_call _ = False"

fun release_call :: "request_id \<Rightarrow> task \<Rightarrow> bool" where
  "release_call rid (FinishTicket r _) \<longleftrightarrow> r = rid"
| "release_call rid (Abandon r _) \<longleftrightarrow> r = rid"
| "release_call rid _ \<longleftrightarrow> False"

definition run_task :: "thread \<Rightarrow> task \<Rightarrow> task list \<Rightarrow> system \<Rightarrow> system" where
  "run_task t task rest s =
     \<lparr>sys_rc = fst (task_step task (sys_rc s)),
      sys_threads = (sys_threads s)(t := snd (task_step task (sys_rc s)) @ rest),
      sys_ticket = ticket_after t task (sys_rc s) (sys_ticket s),
      sys_admitted = sys_admitted s @ admitted_by task (sys_rc s),
      sys_activated = sys_activated s @ activated_by task (sys_rc s)\<rparr>"

text \<open>
  The id counter is 64 bits wide and the code lets it wrap; the steps below end where it would.
\<close>

inductive sys_step :: "system \<Rightarrow> system \<Rightarrow> bool" where
  call: "sys_threads s t = [] \<Longrightarrow> free_call task \<Longrightarrow>
    sys_step s (s\<lparr>sys_threads := (sys_threads s)(t := [task])\<rparr>)"
| ask_cancel: "sys_threads s t = [] \<Longrightarrow> sys_ticket s rid = Held \<Longrightarrow>
    sys_step s (s\<lparr>sys_threads := (sys_threads s)(t := [CancelQueued rid])\<rparr>)"
| release: "sys_threads s t = [] \<Longrightarrow> sys_ticket s rid = Held \<Longrightarrow> release_call rid task \<Longrightarrow>
    sys_step s (s\<lparr>sys_threads := (sys_threads s)(t := [task]), sys_ticket := (sys_ticket s)(rid := Released)\<rparr>)"
| run: "sys_threads s t = task # rest \<Longrightarrow>
    (\<And>op. task = NewRequest op \<Longrightarrow> rc_next_request_id (sys_rc s) \<noteq> -1) \<Longrightarrow>
    sys_step s (run_task t task rest s)"

definition sys_reachable :: "db_stats \<Rightarrow> request_id \<Rightarrow> system \<Rightarrow> bool" where
  "sys_reachable stats next_id s \<longleftrightarrow> sys_step\<^sup>*\<^sup>* (initial_system stats next_id) s"

section \<open>The invariant\<close>

definition pending :: "(thread \<Rightarrow> task list) \<Rightarrow> task set" where
  "pending threads = (\<Union>t. set (threads t))"

fun releases :: "request_id \<Rightarrow> task \<Rightarrow> bool" where
  "releases rid (Finish r) \<longleftrightarrow> r = rid"
| "releases rid (FinishTicket r _) \<longleftrightarrow> r = rid"
| "releases rid (Abandon r _) \<longleftrightarrow> r = rid"
| "releases rid _ \<longleftrightarrow> False"

fun on_gate :: "ticket_place \<Rightarrow> bool" where
  "on_gate Unborn = False"
| "on_gate (Created t) = False"
| "on_gate _ = True"

definition phase_of :: "runtime_control \<Rightarrow> request_id \<Rightarrow> request_phase option" where
  "phase_of rc r = map_option wr_phase (rc_requests rc r)"

text \<open>
  One request: the place of its ticket, whether it is queued, whether it is active, its phase, and
  whether a task is pending that starts it, cancels it, completes it, or gives its ticket back.
\<close>

definition request_inv ::
  "ticket_place \<Rightarrow> bool \<Rightarrow> bool \<Rightarrow> request_phase option \<Rightarrow> bool \<Rightarrow> bool \<Rightarrow> bool \<Rightarrow> bool \<Rightarrow> bool" where
  "request_inv place queued active phase starts cancels completes releasing \<longleftrightarrow>
     (place = Unborn \<longrightarrow> phase = None)
     \<and> (place \<noteq> Unborn \<and> \<not> on_gate place \<longrightarrow> phase = Some Queued)
     \<and> (\<not> on_gate place \<longrightarrow> \<not> queued \<and> \<not> active \<and> \<not> starts \<and> \<not> cancels)
     \<and> (place \<noteq> Released \<longrightarrow> \<not> releasing \<and> \<not> completes)
     \<and> (queued \<longrightarrow> phase = Some Queued \<and> \<not> starts \<and> \<not> cancels)
     \<and> (active \<longrightarrow> \<not> cancels \<and> (phase = Some Started \<or> phase = Some Queued \<and> starts))
     \<and> (on_gate place \<and> place \<noteq> Released \<and> \<not> active \<and> \<not> queued \<longrightarrow>
          \<not> starts \<and> (phase = Some Queued \<and> cancels \<or> (\<exists>st. phase = Some (Cancelled st))))
     \<and> (place = Released \<and> (active \<or> queued) \<longrightarrow> releasing)
     \<and> (completes \<longrightarrow> \<not> active \<and> \<not> queued)"

definition has :: "task set \<Rightarrow> (task \<Rightarrow> bool) \<Rightarrow> bool" where
  "has P f \<longleftrightarrow> (\<exists>task \<in> P. f task)"

fun starts_it :: "request_id \<Rightarrow> task \<Rightarrow> bool" where
  "starts_it rid (MarkStarted r) \<longleftrightarrow> r = rid"
| "starts_it rid _ \<longleftrightarrow> False"

fun cancels_it :: "request_id \<Rightarrow> task \<Rightarrow> bool" where
  "cancels_it rid (CancelFor r _) \<longleftrightarrow> r = rid"
| "cancels_it rid _ \<longleftrightarrow> False"

fun completes_it :: "request_id \<Rightarrow> task \<Rightarrow> bool" where
  "completes_it rid (MarkCompleted r) \<longleftrightarrow> r = rid"
| "completes_it rid _ \<longleftrightarrow> False"

definition request_ok :: "runtime_control \<Rightarrow> task set \<Rightarrow> ticket_place \<Rightarrow> request_id \<Rightarrow> bool" where
  "request_ok rc P place r \<longleftrightarrow>
     request_inv place (r \<in> set (queue_of rc)) (active_of rc = Some r) (phase_of rc r)
       (has P (starts_it r)) (has P (cancels_it r)) (has P (completes_it r)) (has P (releases r))"

definition ids_fresh :: "runtime_control \<Rightarrow> (request_id \<Rightarrow> ticket_place) \<Rightarrow> bool" where
  "ids_fresh rc place \<longleftrightarrow> (\<forall>r \<ge> rc_next_request_id rc. place r = Unborn)"

text \<open>A thread that creates a request does nothing else, and nobody else admits that request.\<close>

definition thread_ok :: "(request_id \<Rightarrow> ticket_place) \<Rightarrow> thread \<Rightarrow> task list \<Rightarrow> bool" where
  "thread_ok place t ts \<longleftrightarrow>
     (\<forall>op r. Admit op r \<in> set ts \<longrightarrow> ts = [Admit op r] \<and> place r = Created t)
     \<and> (\<forall>r. Issue r \<in> set ts \<longrightarrow> ts \<in> {[Issue r], [MarkStarted r, Issue r]} \<and> place r = Issuing t)
     \<and> (\<forall>op. NewRequest op \<in> set ts \<or> FastCheck op \<in> set ts \<longrightarrow> length ts = 1)
     \<and> (\<forall>r. place r = Issuing t \<longrightarrow> Issue r \<in> set ts)"

definition history_ok :: "system \<Rightarrow> bool" where
  "history_ok s \<longleftrightarrow> subseq (sys_activated s @ queue_of (sys_rc s)) (sys_admitted s)
     \<and> distinct (sys_admitted s) \<and> (\<forall>r \<in> set (sys_admitted s). on_gate (sys_ticket s r))"

definition sys_ok :: "system \<Rightarrow> bool" where
  "sys_ok s \<longleftrightarrow> gate_ok (sys_rc s)
     \<and> (\<forall>r. request_ok (sys_rc s) (pending (sys_threads s)) (sys_ticket s r) r)
     \<and> (\<forall>r. Finish r \<in> pending (sys_threads s) \<longrightarrow> r \<notin> set (queue_of (sys_rc s)))
     \<and> ids_fresh (sys_rc s) (sys_ticket s)
     \<and> (\<forall>t. thread_ok (sys_ticket s) t (sys_threads s t))
     \<and> history_ok s"

lemma pending_upd: "pending (f(t := ts)) \<subseteq> set ts \<union> pending f"
  by (auto simp: pending_def split: if_splits)

lemma pending_call:
  assumes "f t = []"
  shows "pending (f(t := ts)) = set ts \<union> pending f"
proof -
  have "set (f t') \<subseteq> pending (f(t := ts))" for t'
    using assms by (cases "t' = t") (auto simp: pending_def)
  then show ?thesis by (auto simp: pending_def split: if_splits)
qed

lemma pending_run:
  assumes "f t = task # rest"
  shows "set new \<union> (pending f - {task}) \<subseteq> pending (f(t := new @ rest))"
    and "pending (f(t := new @ rest)) \<subseteq> set new \<union> pending f" and "task \<in> pending f"
proof -
  have "set (f t') - {task} \<subseteq> pending (f(t := new @ rest))" for t'
    using assms by (cases "t' = t") (auto simp: pending_def)
  then show "set new \<union> (pending f - {task}) \<subseteq> pending (f(t := new @ rest))"
    by (auto simp: pending_def)
  have "set ((f(t := new @ rest)) t') \<subseteq> set new \<union> set (f t')" for t'
    using assms by auto
  then show "pending (f(t := new @ rest)) \<subseteq> set new \<union> pending f" by (fastforce simp: pending_def)
  show "task \<in> pending f" using assms by (auto simp: pending_def intro!: exI [of _ t])
qed

lemma has_simps [simp]:
  "\<not> has {} f" "has (insert task P) f \<longleftrightarrow> f task \<or> has P f" "has (P \<union> Q) f \<longleftrightarrow> has P f \<or> has Q f"
  by (auto simp: has_def)

lemma has_cancels [simp]:
  "has (set (map (\<lambda>r. CancelFor r st) rids)) f \<longleftrightarrow> (\<exists>r \<in> set rids. f (CancelFor r st))"
  "has ((\<lambda>r. CancelFor r st) ` set rids) f \<longleftrightarrow> (\<exists>r \<in> set rids. f (CancelFor r st))"
  by (auto simp: has_def)

text \<open>The tasks pending before and after a thread ran a task that left new ones.\<close>

definition ran :: "task \<Rightarrow> task list \<Rightarrow> task set \<Rightarrow> task set \<Rightarrow> bool" where
  "ran task new P P' \<longleftrightarrow> set new \<union> (P - {task}) \<subseteq> P' \<and> P' \<subseteq> set new \<union> P \<and> task \<in> P"

lemma has_ran: "ran task new P P' \<Longrightarrow> \<not> f task \<Longrightarrow> has P' f \<longleftrightarrow> has P f \<or> has (set new) f"
  by (fastforce simp: has_def ran_def)

lemma has_ran_new: "ran task new P P' \<Longrightarrow> has (set new) f \<Longrightarrow> has P' f"
  by (auto simp: has_def ran_def)

lemma has_ran_task: "ran task new P P' \<Longrightarrow> f task \<Longrightarrow> has P f"
  by (auto simp: has_def ran_def)

lemma ran_pending:
  assumes "f t = task # rest"
  shows "ran task new (pending f) (pending (f(t := new @ rest)))"
  using pending_run [where f = f and t = t and task = task and rest = rest] assms
  by (simp add: ran_def)

lemma phase_of_empty [simp]: "rc_requests rc r = None \<Longrightarrow> phase_of rc r = None"
  by (simp add: phase_of_def)

lemma phase_of_cong [simp]:
  "phase_of (set_gate h rc) r = phase_of rc r" "phase_of (publish_stats s rc) r = phase_of rc r"
  by (simp_all add: phase_of_def)

lemma sys_ok_initial: "sys_ok (initial_system stats n)"
  by (auto simp: sys_ok_def initial_system_def gate_ok_new)
    (auto simp: request_ok_def ids_fresh_def thread_ok_def history_ok_def pending_def
      RuntimeControl_new_def WriteGateInner_new_def request_inv_def)

section \<open>Moves of one request\<close>

lemma inv_start:
  "request_inv pl q a ph True k c l \<Longrightarrow>
   request_inv pl q a (if ph = Some Queued then Some Started else ph) s k c l"
  by (cases pl) (auto simp: request_inv_def)

lemma inv_cancel:
  "request_inv pl q a ph s True c l \<Longrightarrow>
   request_inv pl q a (if ph = Some Queued then Some (Cancelled st) else ph) s k c l"
  by (cases pl) (auto simp: request_inv_def)

lemma inv_complete:
  "request_inv pl q a ph s k True l \<Longrightarrow>
   request_inv pl q a (if ph = Some Started then Some Completed else ph) s k c l"
  by (cases pl) (auto simp: request_inv_def)

lemma inv_create: "request_inv Unborn q a ph s k c l \<Longrightarrow> request_inv (Created t) q a (Some Queued) s k c l"
  by (auto simp: request_inv_def)

lemma inv_admit_start:
  "request_inv (Created t) q a ph s k c l \<Longrightarrow> request_inv (Issuing t) q True ph True k c l"
  by (auto simp: request_inv_def)

lemma inv_admit_queue:
  "request_inv (Created t) q a ph s k c l \<Longrightarrow> request_inv (Issuing t) True a ph s k c l"
  by (auto simp: request_inv_def)

lemma inv_refuse: "request_inv (Created t) q a ph s k c l \<Longrightarrow> request_inv Released q a ph s k c l"
  by (auto simp: request_inv_def)

lemma inv_issue: "request_inv (Issuing t) q a ph s k c l \<Longrightarrow> request_inv Held q a ph s k c l"
  by (auto simp: request_inv_def)

lemma inv_unqueue:
  "request_inv pl True a ph s k c l \<Longrightarrow> \<not> a \<Longrightarrow> (l' \<Longrightarrow> l) \<Longrightarrow> request_inv pl False a ph s True c l'"
  by (cases pl) (auto simp: request_inv_def)

lemma inv_activate:
  "request_inv pl True a ph s k c l \<Longrightarrow> request_inv pl False True ph True k c l"
  by (cases pl) (auto simp: request_inv_def)

lemma inv_finish:
  "request_inv pl False True ph s k c True \<Longrightarrow> request_inv pl False False ph s k True l"
  by (cases pl) (auto simp: request_inv_def)

lemma inv_give_up:
  "request_inv pl q a ph s k c True \<Longrightarrow> \<not> q \<Longrightarrow> \<not> a \<Longrightarrow> request_inv pl q a ph s k c l"
  by (cases pl) (auto simp: request_inv_def)

lemma inv_release: "request_inv Held q a ph s k c l \<Longrightarrow> request_inv Released q a ph s k c True"
  by (auto simp: request_inv_def)

lemma phase_of_marks:
  "phase_of (at_request mark_started rid rc) r
     = (if r = rid \<and> phase_of rc r = Some Queued then Some Started else phase_of rc r)"
  "phase_of (at_request mark_completed rid rc) r
     = (if r = rid \<and> phase_of rc r = Some Started then Some Completed else phase_of rc r)"
  "phase_of (at_request (cancel_for_state st) rid rc) r
     = (if r = rid \<and> phase_of rc r = Some Queued then Some (Cancelled st) else phase_of rc r)"
  by (cases "rc_requests rc r"; auto simp: phase_of_def mark_started_def mark_completed_def cancel_for_state_def)+

text \<open>A step that does not touch a request leaves its invariant alone.\<close>

lemma request_ok_other:
  assumes "request_ok rc P pl r" and "ran task new P P'"
    and "(r \<in> set (queue_of rc')) = (r \<in> set (queue_of rc))"
    and "(active_of rc' = Some r) = (active_of rc = Some r)" and "phase_of rc' r = phase_of rc r"
    and "\<forall>x \<in> set (task # new). \<not> starts_it r x \<and> \<not> cancels_it r x \<and> \<not> completes_it r x \<and> \<not> releases r x"
  shows "request_ok rc' P' pl r"
proof -
  have "\<not> has (set new) (starts_it r)" "\<not> has (set new) (cancels_it r)"
    "\<not> has (set new) (completes_it r)" "\<not> has (set new) (releases r)"
    using assms(6) by (auto simp: has_def)
  then have "has P' (starts_it r) = has P (starts_it r)" "has P' (cancels_it r) = has P (cancels_it r)"
    "has P' (completes_it r) = has P (completes_it r)" "has P' (releases r) = has P (releases r)"
    using has_ran [OF assms(2)] assms(6) by simp_all
  then show ?thesis using assms(1,3-5) by (simp add: request_ok_def)
qed

lemma request_ok_MarkStarted:
  assumes "request_ok rc P pl r" and "ran (MarkStarted rid) [] P P'"
  shows "request_ok (at_request mark_started rid rc) P' pl r"
proof (cases "r = rid")
  case True
  then show ?thesis using assms(1) has_ran_task [OF assms(2), of "starts_it r"]
    by (simp add: request_ok_def phase_of_marks has_ran [OF assms(2)] inv_start)
qed (use assms in \<open>auto intro: request_ok_other simp: phase_of_marks\<close>)

lemma request_ok_MarkCompleted:
  assumes "request_ok rc P pl r" and "ran (MarkCompleted rid) [] P P'"
  shows "request_ok (at_request mark_completed rid rc) P' pl r"
proof (cases "r = rid")
  case True
  then show ?thesis using assms(1) has_ran_task [OF assms(2), of "completes_it r"]
    by (simp add: request_ok_def phase_of_marks has_ran [OF assms(2)] inv_complete)
qed (use assms in \<open>auto intro: request_ok_other simp: phase_of_marks\<close>)

lemma request_ok_CancelFor:
  assumes "request_ok rc P pl r" and "ran (CancelFor rid st) [] P P'"
  shows "request_ok (at_request (cancel_for_state st) rid rc) P' pl r"
proof (cases "r = rid")
  case True
  then show ?thesis using assms(1) has_ran_task [OF assms(2), of "cancels_it r"]
    by (simp add: request_ok_def phase_of_marks has_ran [OF assms(2)] inv_cancel)
qed (use assms in \<open>auto intro: request_ok_other simp: phase_of_marks\<close>)


lemma active_not_queued: "gate_ok rc \<Longrightarrow> active_of rc = Some r \<Longrightarrow> r \<notin> set (queue_of rc)"
  by (auto simp: gate_ok_def)

lemma request_ok_NewRequest:
  assumes "request_ok rc P pl r" and "ran (NewRequest op) [Admit op (rc_next_request_id rc)] P P'"
    and "r = rc_next_request_id rc \<Longrightarrow> pl = Unborn"
  shows "request_ok (fst (new_request op rc)) P'
    (if r = rc_next_request_id rc then Created t else pl) r"
proof (cases "r = rc_next_request_id rc")
  case True
  then show ?thesis using assms
    by (simp add: request_ok_def has_ran [OF assms(2)] phase_of_def WriteRequest_new_def inv_create)
next
  case False
  then have "phase_of (fst (new_request op rc)) r = phase_of rc r" by (simp add: phase_of_def)
  then show ?thesis using request_ok_other [OF assms(1,2)] False by simp
qed

lemma request_ok_Admit:
  assumes "request_ok rc P pl r" and "gate_ok rc" and "task_step (Admit op rid) rc = (rc', new)"
    and "ran (Admit op rid) new P P'" and "r = rid \<Longrightarrow> pl = Created t"
  shows "request_ok rc' P'
    (if r = rid then if is_ok (snd (enqueue_section op rid rc)) then Issuing t else Released else pl) r"
proof -
  obtain rc1 x where e: "enqueue_section op rid rc = (rc1, x)" by (cases "enqueue_section op rid rc")
  from enqueue_section_cases [OF assms(2) e] consider
    e' where "x = Err e'" "rc' = rc" "new = []"
  | "x = Ok True" "active_of rc = None" "queue_of rc = []" "new = [MarkStarted rid, Issue rid]"
      "rc' = set_gate (\<lambda>g. g\<lparr>active_request := Some rid\<rparr>) rc"
  | b where "x = Ok False" "active_of rc = Some b" "new = [Issue rid]"
      "rc' = set_gate (\<lambda>g. g\<lparr>ordered_queue := ordered_queue g @ [rid]\<rparr>) rc"
    using assms(3) e by auto
  then show ?thesis
  proof cases
    case 1
    then show ?thesis using assms(1,5) e
      by (auto simp: request_ok_def has_ran [OF assms(4)] is_ok_iff intro: inv_refuse)
  next
    case 2
    then show ?thesis using assms(1,5) e
      by (simp add: request_ok_def has_ran [OF assms(4)] is_ok_iff)
        (auto intro: inv_admit_start)
  next
    case 3
    then show ?thesis using assms(1,5) e
      by (simp add: request_ok_def has_ran [OF assms(4)] is_ok_iff)
        (auto intro: inv_admit_queue)
  qed
qed

lemma request_ok_Issue:
  assumes "request_ok rc P pl r" and "ran (Issue rid) [] P P'" and "r = rid \<Longrightarrow> pl = Issuing t"
  shows "request_ok rc P' (if r = rid then Held else pl) r"
  using assms(1,3) by (auto simp: request_ok_def has_ran [OF assms(2)] intro: inv_issue)

text \<open>Closing the gate, by a failure or at shutdown.\<close>

lemma request_ok_emptied:
  assumes "request_ok rc P pl r" and "gate_ok rc" and "ran task new P P'"
    and "queue_of rc' = []" "active_of rc' = active_of rc" "rc_requests rc' = rc_requests rc"
    and "set new = (\<lambda>r. CancelFor r st) ` set (queue_of rc) \<union> Q" and "\<And>f. f \<in> {starts_it r, cancels_it r, completes_it r, releases r} \<Longrightarrow> \<not> f task \<and> \<not> has Q f"
  shows "request_ok rc' P' pl r"
proof -
  have ph: "phase_of rc' r = phase_of rc r" using assms(6) by (simp add: phase_of_def)
  note h = has_ran [OF assms(3)] assms(7) assms(8) [of "starts_it r"] assms(8) [of "cancels_it r"]
    assms(8) [of "completes_it r"] assms(8) [of "releases r"]
  show ?thesis
  proof (cases "r \<in> set (queue_of rc)")
    case True
    then have "active_of rc \<noteq> Some r" using active_not_queued [OF assms(2)] by blast
    then show ?thesis using assms(1,4,5) ph h True
      by (auto simp: request_ok_def intro: inv_unqueue)
  next
    case False
    then show ?thesis using assms(1,4,5) ph h by (auto simp: request_ok_def)
  qed
qed


lemma latch_section_gate:
  assumes "latch_section target summary rc = (rc', tr, cancelled)"
  shows "active_of rc' = active_of rc" "rc_requests rc' = rc_requests rc"
    "rc_next_request_id rc' = rc_next_request_id rc"
    "tr_changed tr \<Longrightarrow> queue_of rc' = [] \<and> cancelled = queue_of rc" "\<not> tr_changed tr \<Longrightarrow> rc' = rc"
  using assms by (auto simp: latch_section_def Let_def split: if_splits)

lemma request_ok_Latch:
  assumes "request_ok rc P pl r" and "gate_ok rc" and "task_step (Latch target error) rc = (rc', new)"
    and "ran (Latch target error) new P P'"
  shows "request_ok rc' P' pl r"
proof (cases "latch_section (required_failure_state target error) (LatchedErrorSummary_from_storage_error error) rc")
  case (fields rc1 tr cancelled)
  note g = latch_section_gate [OF fields]
  show ?thesis
  proof (cases "tr_changed tr")
    case True
    then have "rc' = rc1" and new: "new = map (\<lambda>r. CancelFor r (required_failure_state target error)) (queue_of rc)
        @ [PublishStats (tr_current tr)]"
      using assms(3) fields g(4) by auto
    then show ?thesis using g(1,2,4) True
      by (intro request_ok_emptied [OF assms(1,2,4), where Q = "{PublishStats (tr_current tr)}"]) auto
  next
    case False
    then show ?thesis using assms(3) fields g(5) request_ok_other [OF assms(1,4)] by simp
  qed
qed

lemma request_ok_Close:
  assumes "request_ok rc P pl r" and "gate_ok rc" and "task_step CloseAdmission rc = (rc', new)"
    and "ran CloseAdmission new P P'"
  shows "request_ok rc' P' pl r"
  using assms(3)
  by (intro request_ok_emptied [OF assms(1,2,4), where Q = "{}" and st = "inst rc"])
    (auto simp: close_section_def)

lemma finish_section_cases:
  assumes "gate_ok rc" and "finish_section rid rc = (rc', x)"
  shows "x = None \<and> active_of rc \<noteq> Some rid \<and> rc' = rc
    \<or> x = Some None \<and> active_of rc = Some rid \<and> queue_of rc = []
        \<and> rc' = set_gate (\<lambda>g. g\<lparr>active_request := None\<rparr>) rc
    \<or> (\<exists>n rest. x = Some (Some n) \<and> active_of rc = Some rid \<and> queue_of rc = n # rest
        \<and> rc' = set_gate (\<lambda>g. g\<lparr>ordered_queue := rest, active_request := Some n\<rparr>) rc)"
  using assms by (auto simp: finish_section_def gate_ok_def set_gate_def Let_def split: if_splits list.splits)

text \<open>Giving a ticket back, whichever task does it.\<close>

lemma request_ok_finished:
  assumes "request_ok rc P pl r" and "gate_ok rc" and "finish_section rid rc = (rc', Some x)"
    and "ran task (after_finish rid x) P P'" and "releases rid task"
  shows "request_ok rc' P' pl r"
proof -
  have act: "active_of rc = Some rid" using finish_section_cases [OF assms(2,3)] by auto
  have k: "\<not> starts_it r task \<and> \<not> cancels_it r task \<and> \<not> completes_it r task"
    "releases r task \<longleftrightarrow> r = rid" for r
    using assms(5) by (cases task; auto)+
  note q = active_not_queued [OF assms(2) act]
  show ?thesis
  proof (cases "r = rid")
    case True
    then show ?thesis
      using assms(1) finish_section_cases [OF assms(2,3)] q k has_ran_task [OF assms(4), of "releases r"]
      by (auto simp: request_ok_def has_ran [OF assms(4)] after_finish_def act) (erule inv_finish)+
  next
    case False
    have d: "distinct (queue_of rc)" using assms(2) by (simp add: gate_ok_def)
    show ?thesis
    proof (cases "x = Some r")
      case True
      then have "queue_of rc = r # queue_of rc'" "active_of rc' = Some r" "rc_requests rc' = rc_requests rc"
        using finish_section_cases [OF assms(2,3)] by auto
      then have "request_inv pl False True (phase_of rc r) True (has P (cancels_it r))
          (has P (completes_it r)) (has P (releases r))" and "phase_of rc' r = phase_of rc r"
        using assms(1) inv_activate by (auto simp: request_ok_def phase_of_def)
      then show ?thesis using True k False d \<open>queue_of rc = r # queue_of rc'\<close> \<open>active_of rc' = Some r\<close>
        by (simp add: request_ok_def has_ran [OF assms(4)] after_finish_def)
    next
      case no: False
      show ?thesis
        using finish_section_cases [OF assms(2,3)] q k False no act
        by (intro request_ok_other [OF assms(1,4)])
          (auto simp: after_finish_def split: option.splits)
    qed
  qed
qed

lemma request_ok_Finish:
  assumes "request_ok rc P pl r" and "gate_ok rc" and "task_step (Finish rid) rc = (rc', new)"
    and "ran (Finish rid) new P P'" and "active_of rc = Some rid \<or> rid \<notin> set (queue_of rc)"
  shows "request_ok rc' P' pl r"
proof (cases "finish_section rid rc")
  case (Pair rc1 x)
  show ?thesis
  proof (cases x)
    case None
    then have [simp]: "new = []" "rc' = rc" and a: "active_of rc \<noteq> Some rid"
      using Pair assms(3) finish_section_cases [OF assms(2) Pair] by auto
    show ?thesis
    proof (cases "r = rid")
      case True
      then show ?thesis using assms(1,5) a has_ran_task [OF assms(4), of "releases r"]
        by (auto simp: request_ok_def has_ran [OF assms(4)] intro: inv_give_up)
    qed (use request_ok_other [OF assms(1,4)] in simp)
  next
    case (Some n)
    then show ?thesis using request_ok_finished [OF assms(1,2)] Pair assms(3,4) by auto
  qed
qed


lemma request_ok_FinishTicket:
  assumes "request_ok rc P pl r" and "gate_ok rc" and "task_step (FinishTicket rid op) rc = (rc', new)"
    and "ran (FinishTicket rid op) new P P'"
  shows "request_ok rc' P' pl r"
proof (cases "finish_section rid rc")
  case (Pair rc1 x)
  show ?thesis
  proof (cases x)
    case None
    then have [simp]: "new = [Abandon rid op]" "rc' = rc"
      using Pair assms(3) finish_section_cases [OF assms(2) Pair] by auto
    show ?thesis
    proof (cases "r = rid")
      case True
      then show ?thesis
        using assms(1) has_ran_task [OF assms(4), of "releases r"] has_ran_new [OF assms(4), of "releases r"]
        by (simp add: request_ok_def has_ran [OF assms(4)])
    qed (use request_ok_other [OF assms(1,4)] in simp)
  next
    case (Some n)
    then show ?thesis using request_ok_finished [OF assms(1,2)] Pair assms(3,4) by auto
  qed
qed

text \<open>Taking a request out of the queue.\<close>

lemma request_ok_removed:
  assumes "request_ok rc P pl r" and "gate_ok rc" and "remove_queued rid rc = (rc', True)"
    and "ran task [CancelFor rid Healthy] P P'" and "task = CancelQueued rid \<or> task = Abandon rid op"
  shows "request_ok rc' P' pl r"
proof -
  have q: "rid \<in> set (queue_of rc)" "distinct (queue_of rc)"
    and rc': "rc' = set_gate (\<lambda>g. g\<lparr>ordered_queue := remove1 rid (ordered_queue g)\<rparr>) rc"
    using assms(2,3) by (auto simp: remove_queued_def gate_ok_def split: if_splits)
  show ?thesis
  proof (cases "r = rid")
    case True
    have "\<not> active_of rc = Some r" using active_not_queued [OF assms(2)] q True by blast
    moreover have "has P' (releases r) \<Longrightarrow> has P (releases r)"
      using assms(5) has_ran [OF assms(4), of "releases r"] has_ran_task [OF assms(4), of "releases r"] True
      by auto
    ultimately show ?thesis using assms(1,5) rc' q True
      by (auto simp: request_ok_def has_ran [OF assms(4)]) (erule inv_unqueue; simp)+
  next
    case False
    then show ?thesis using assms(5) rc' q by (intro request_ok_other [OF assms(1,4)]) auto
  qed
qed

lemma request_ok_CancelQueued:
  assumes "request_ok rc P pl r" and "gate_ok rc" and "task_step (CancelQueued rid) rc = (rc', new)"
    and "ran (CancelQueued rid) new P P'"
  shows "request_ok rc' P' pl r"
proof (cases "remove_queued rid rc")
  case (Pair rc1 removed)
  show ?thesis
  proof (cases removed)
    case True
    then show ?thesis using request_ok_removed [OF assms(1,2)] Pair assms(3,4) by auto
  next
    case False
    then have "rc1 = rc" using Pair by (auto simp: remove_queued_def split: if_splits)
    then show ?thesis using request_ok_other [OF assms(1,4)] Pair assms(3) False by simp
  qed
qed

lemma request_ok_Abandon:
  assumes "request_ok rc P pl r" and "gate_ok rc" and "task_step (Abandon rid op) rc = (rc', new)"
    and "ran (Abandon rid op) new P P'"
  shows "request_ok rc' P' pl r"
proof (cases "remove_queued rid rc")
  case (Pair rc1 removed)
  show ?thesis
  proof (cases removed)
    case True
    then show ?thesis using request_ok_removed [OF assms(1,2)] Pair assms(3,4)
      by (auto simp: abandon_section_def)
  next
    case False
    then have [simp]: "rc1 = rc" "rid \<notin> set (queue_of rc)"
      using Pair by (auto simp: remove_queued_def split: if_splits)
    have [simp]: "rc' = rc" using assms(3) Pair False by (simp add: abandon_section_def)
    show ?thesis
    proof (cases "r = rid")
      case True
      then show ?thesis
        using assms(1,3) Pair False has_ran_task [OF assms(4), of "releases r"]
          has_ran_new [OF assms(4), of "releases r"]
        by (auto simp: request_ok_def has_ran [OF assms(4)] abandon_section_def split: if_splits
            intro: inv_give_up)
    next
      case False
      then show ?thesis using assms(3) Pair \<open>\<not> removed\<close>
        by (intro request_ok_other [OF assms(1,4)]) (auto simp: abandon_section_def split: if_splits)
    qed
  qed
qed

section \<open>Steps of the system\<close>

lemma task_step_gate_ok:
  assumes "gate_ok rc" and "\<And>op rid. task = Admit op rid \<Longrightarrow> rid \<notin> set (queue_of rc) \<and> active_of rc \<noteq> Some rid"
  shows "gate_ok (fst (task_step task rc))"
proof (cases task)
  case (Admit op rid)
  obtain rc1 x where e: "enqueue_section op rid rc = (rc1, x)" by (cases "enqueue_section op rid rc")
  show ?thesis using enqueue_section_ok [OF assms(1) _ _ e] assms(2) [OF Admit] Admit e
    by (auto split: result.splits)
next
  case (Latch target error)
  then show ?thesis using latch_section_ok [OF assms(1)] by (auto simp: Let_def split: prod.splits) (metis fst_conv)+
next
  case (Finish rid)
  then show ?thesis using finish_section_ok [OF assms(1), of rid] by (auto split: prod.splits option.splits)
next
  case (FinishTicket rid op)
  then show ?thesis using finish_section_ok [OF assms(1), of rid] by (auto split: prod.splits option.splits)
next
  case (CancelQueued rid)
  then show ?thesis using remove_queued_ok [OF assms(1), of rid] by (auto split: prod.splits)
next
  case (Abandon rid op)
  then show ?thesis using remove_queued_ok [OF assms(1), of rid] by (auto simp: abandon_section_def Let_def split: prod.splits)
next
  case CloseAdmission
  then show ?thesis using close_section_ok [OF assms(1)] by (auto split: prod.splits)
qed (use assms(1) in \<open>auto intro: gate_ok_cong simp: new_request_def Let_def\<close>)

lemma request_ok_step:
  assumes "gate_ok rc" and "\<And>r. request_ok rc P (place r) r" and "ids_fresh rc place"
    and "task_step task rc = (rc', new)" and "ran task new P P'"
    and "\<And>op rid. task = Admit op rid \<Longrightarrow> place rid = Created t"
    and "\<And>rid. task = Issue rid \<Longrightarrow> place rid = Issuing t"
    and "\<And>rid. task = Finish rid \<Longrightarrow> rid \<notin> set (queue_of rc)"
  shows "request_ok rc' P' (ticket_after t task rc place r) r"
proof (cases task)
  case (MarkStarted rid)
  then show ?thesis using request_ok_MarkStarted [OF assms(2)] assms(4,5) by auto
next
  case (MarkCompleted rid)
  then show ?thesis using request_ok_MarkCompleted [OF assms(2)] assms(4,5) by auto
next
  case (CancelFor rid st)
  then show ?thesis using request_ok_CancelFor [OF assms(2)] assms(4,5) by auto
next
  case (PublishStats snap)
  then show ?thesis using request_ok_other [OF assms(2,5)] assms(4) by auto
next
  case (FastCheck op)
  then show ?thesis using request_ok_other [OF assms(2,5)] assms(4) by (auto split: result.splits)
next
  case (NewRequest op)
  then have "rc' = fst (new_request op rc)" "new = [Admit op (rc_next_request_id rc)]"
    using assms(4) by (auto simp: new_request_def Let_def)
  then show ?thesis
    using request_ok_NewRequest [OF assms(2), where op = op and t = t and r = r] assms(3,5) NewRequest
    by (auto simp: ids_fresh_def)
next
  case (Admit op rid)
  then show ?thesis using request_ok_Admit [OF assms(2,1), where op = op and rid = rid and t = t and r = r] assms(4-6)
    by auto
next
  case (Issue rid)
  then show ?thesis using request_ok_Issue [OF assms(2), where rid = rid and t = t and r = r] assms(4,5,7) by auto
next
  case (Latch target error)
  then show ?thesis using request_ok_Latch [OF assms(2,1)] assms(4,5) by auto
next
  case (Finish rid)
  then show ?thesis using request_ok_Finish [OF assms(2,1)] assms(4,5,8) by auto
next
  case (FinishTicket rid op)
  then show ?thesis using request_ok_FinishTicket [OF assms(2,1)] assms(4,5) by auto
next
  case (CancelQueued rid)
  then show ?thesis using request_ok_CancelQueued [OF assms(2,1)] assms(4,5) by auto
next
  case (Abandon rid op)
  then show ?thesis using request_ok_Abandon [OF assms(2,1)] assms(4,5) by auto
next
  case CloseAdmission
  then show ?thesis using request_ok_Close [OF assms(2,1)] assms(4,5) by auto
qed

text \<open>What a task does to the queue and the active request.\<close>

lemma no_new_active [simp]:
  "(case a of None \<Rightarrow> [] | Some x \<Rightarrow> if a = Some x then [] else [x]) = []"
  by (cases a) simp_all

lemma subseq_remove1 [simp]: "subseq (remove1 x xs) xs"
  by (induction xs) auto

lemma task_step_queue:
  assumes "gate_ok rc" and "task_step task rc = (rc', new)"
  shows "subseq (activated_by task rc @ queue_of rc') (queue_of rc @ admitted_by task rc)"
proof (cases task)
  case (Admit op rid)
  obtain rc1 x where e: "enqueue_section op rid rc = (rc1, x)" by (cases "enqueue_section op rid rc")
  show ?thesis using enqueue_section_cases [OF assms(1) e] assms(2) Admit e
    by (auto simp: activated_by_def is_ok_iff split: option.splits)
next
  case (Latch target error)
  then show ?thesis using assms(2) 
    by (auto simp: activated_by_def latch_section_def Let_def split: if_splits prod.splits)
next
  case (Finish rid)
  obtain rc1 x where e: "finish_section rid rc = (rc1, x)" by (cases "finish_section rid rc")
  show ?thesis using finish_section_cases [OF assms(1) e] assms(2) Finish e active_not_queued [OF assms(1)]
    by (auto simp: activated_by_def)
next
  case (FinishTicket rid op)
  obtain rc1 x where e: "finish_section rid rc = (rc1, x)" by (cases "finish_section rid rc")
  show ?thesis using finish_section_cases [OF assms(1) e] assms(2) FinishTicket e active_not_queued [OF assms(1)]
    by (auto simp: activated_by_def)
qed (use assms(2) in \<open>auto simp: activated_by_def new_request_def remove_queued_def abandon_section_def
    close_section_def Let_def split: if_splits option.splits\<close>)


lemma task_step_next_id:
  assumes "task_step task rc = (rc', new)"
  shows "rc_next_request_id rc' = (case task of NewRequest op \<Rightarrow> rc_next_request_id rc + 1 | _ \<Rightarrow> rc_next_request_id rc)"
  using assms
  by (cases task) (auto simp: new_request_def enqueue_section_def latch_section_def finish_section_def
      remove_queued_def abandon_section_def close_section_def Let_def
      split: if_splits result.splits prod.splits option.splits list.splits)

lemma word_Suc_not_above: "n \<noteq> (-1 :: 'a::len word) \<Longrightarrow> r \<ge> n + 1 \<Longrightarrow> r \<ge> n \<and> r \<noteq> n"
proof -
  assume n: "n \<noteq> -1" and r: "r \<ge> n + 1"
  have "n + 1 \<noteq> 0" using n by (metis eq_neg_iff_add_eq_0)
  then have "unat (n + 1) = Suc (unat n)" using unatSuc [of n] by (simp add: add.commute)
  then show ?thesis using r by (auto simp: word_le_nat_alt)
qed

lemma ids_fresh_step:
  assumes "ids_fresh rc place" and "task_step task rc = (rc', new)"
    and "\<And>op. task = NewRequest op \<Longrightarrow> rc_next_request_id rc \<noteq> -1"
    and "\<And>op rid. task = Admit op rid \<Longrightarrow> place rid = Created t"
    and "\<And>rid. task = Issue rid \<Longrightarrow> place rid = Issuing t"
  shows "ids_fresh rc' (ticket_after t task rc place)"
  unfolding ids_fresh_def
proof (intro allI impI)
  fix r assume r: "r \<ge> rc_next_request_id rc'"
  note next_id = task_step_next_id [OF assms(2)]
  show "ticket_after t task rc place r = Unborn"
  proof (cases task)
    case (NewRequest op)
    then show ?thesis using r next_id assms(1) word_Suc_not_above [OF assms(3) [OF NewRequest]]
      by (auto simp: ids_fresh_def)
  next
    case (Admit op rid)
    then show ?thesis using r next_id assms(1) assms(4) [OF Admit] by (auto simp: ids_fresh_def)
  next
    case (Issue rid)
    then show ?thesis using r next_id assms(1) assms(5) [OF Issue] by (auto simp: ids_fresh_def)
  qed (use r next_id assms(1) in \<open>auto simp: ids_fresh_def\<close>)
qed


lemma new_finish:
  assumes "task_step task rc = (rc', new)" and "Finish r \<in> set new"
  shows "rc' = rc \<and> active_of rc = Some r"
proof (cases task)
  case (Abandon rid op)
  then show ?thesis using assms
    by (auto simp: abandon_section_def remove_queued_def split: if_splits)
qed (use assms in \<open>auto simp: after_finish_def Let_def split: if_splits result.splits prod.splits option.splits\<close>)

lemma finish_not_queued_step:
  assumes "gate_ok rc" and "task_step task rc = (rc', new)" and "ran task new P P'"
    and "\<And>r. Finish r \<in> P \<Longrightarrow> r \<notin> set (queue_of rc)"
    and "\<And>op rid. task = Admit op rid \<Longrightarrow> Finish rid \<notin> P" and "Finish r \<in> P'"
  shows "r \<notin> set (queue_of rc')"
proof -
  have q: "set (queue_of rc') \<subseteq> set (queue_of rc) \<union> set (admitted_by task rc)"
  proof
    fix x assume "x \<in> set (queue_of rc')"
    then obtain y where "y \<in> set (queue_of rc @ admitted_by task rc)" "x = y"
      using list_emb_set [OF task_step_queue [OF assms(1,2)], of x] by auto
    then show "x \<in> set (queue_of rc) \<union> set (admitted_by task rc)" by simp
  qed
  have fresh: "Finish r \<in> P \<Longrightarrow> r \<notin> set (admitted_by task rc)"
    using assms(5) by (cases task) (auto split: if_splits)
  consider "Finish r \<in> P" | "Finish r \<in> set new" using assms(3,6) by (auto simp: ran_def)
  then show ?thesis
  proof cases
    case 1
    then show ?thesis using q fresh assms(4) by blast
  next
    case 2
    then show ?thesis using new_finish [OF assms(2)] active_not_queued [OF assms(1)] by blast
  qed
qed

fun plain :: "task \<Rightarrow> bool" where
  "plain (FastCheck _) = False"
| "plain (NewRequest _) = False"
| "plain (Admit _ _) = False"
| "plain (Issue _) = False"
| "plain _ = True"

lemma thread_ok_plain:
  assumes "\<forall>x \<in> set ts. plain x" and "\<And>r. place r \<noteq> Issuing t"
  shows "thread_ok place t ts"
  using assms by (force simp: thread_ok_def)

lemma thread_okD:
  assumes "thread_ok place t ts"
  shows "Admit op r \<in> set ts \<Longrightarrow> ts = [Admit op r] \<and> place r = Created t"
    and "Issue r \<in> set ts \<Longrightarrow> ts = [Issue r] \<or> ts = [MarkStarted r, Issue r]"
    and "Issue r \<in> set ts \<Longrightarrow> place r = Issuing t"
    and "NewRequest op \<in> set ts \<Longrightarrow> length ts = 1" and "FastCheck op \<in> set ts \<Longrightarrow> length ts = 1"
    and "place r = Issuing t \<Longrightarrow> Issue r \<in> set ts"
  using assms unfolding thread_ok_def by blast+

lemma plain_rest:
  assumes "thread_ok place t (task # rest)" and "plain task" and "\<And>r. task = MarkStarted r \<Longrightarrow> rest \<noteq> [Issue r]"
  shows "\<forall>x \<in> set rest. plain x" and "place r \<noteq> Issuing t"
proof -
  note d = thread_okD [OF assms(1)]
  have "plain x" if x: "x \<in> set rest" for x
  proof (cases x)
    case (Admit op r)
    then show ?thesis using d(1) [of op r] x assms(2) by auto
  next
    case (Issue r)
    then show ?thesis using d(2) [of r] x assms(2,3) by auto
  next
    case (NewRequest op)
    then show ?thesis using d(4) [of op] x assms(2) by auto
  next
    case (FastCheck op)
    then show ?thesis using d(5) [of op] x assms(2) by auto
  qed simp_all
  then show *: "\<forall>x \<in> set rest. plain x" by blast
  have "Issue r \<notin> set (task # rest)" using * assms(2) by auto
  then show "place r \<noteq> Issuing t" using d(6) [of r] by blast
qed

lemma plain_new:
  assumes "task_step task rc = (rc', new)" and "plain task"
  shows "\<forall>x \<in> set new. plain x"
  using assms
  by (cases task) (auto simp: after_finish_def Let_def split: if_splits prod.splits option.splits)

lemma thread_ok_one:
  assumes "thread_ok place t [task]" and "\<And>r. task \<noteq> Issue r"
  shows "place r \<noteq> Issuing t"
  using thread_okD(6) [OF assms(1), of r] assms(2) by auto

lemma thread_ok_own_step:
  assumes "thread_ok place t (task # rest)" and "task_step task rc = (rc', new)"
  shows "thread_ok (ticket_after t task rc place) t (new @ rest)"
proof -
  note d = thread_okD [OF assms(1)]
  show ?thesis
  proof (cases "plain task \<and> (\<forall>r. task = MarkStarted r \<longrightarrow> rest \<noteq> [Issue r])")
    case True
    then have p: "plain task" "\<And>r. task = MarkStarted r \<Longrightarrow> rest \<noteq> [Issue r]" by auto
    have "\<forall>x \<in> set (new @ rest). plain x"
      using plain_rest(1) [OF assms(1) p] plain_new [OF assms(2) p(1)] by auto
    moreover have "place r \<noteq> Issuing t" for r by (rule plain_rest(2) [OF assms(1) p])
    moreover have "ticket_after t task rc place = place" using True by (cases task) auto
    ultimately show ?thesis using thread_ok_plain by auto
  next
    case False
    then consider op where "task = FastCheck op" | op where "task = NewRequest op"
      | op r where "task = Admit op r" | r where "task = Issue r"
      | r where "task = MarkStarted r" "rest = [Issue r]" by (cases task) auto
    then show ?thesis
    proof cases
      case 1
      then have "rest = []" using d(5) [of op] by auto
      moreover then have "place r \<noteq> Issuing t" for r using thread_ok_one [of place t task r] assms(1) 1 by auto
      ultimately show ?thesis using assms(2) 1 by (auto simp: thread_ok_def split: result.splits)
    next
      case 2
      then have "rest = []" using d(4) [of op] by auto
      moreover then have "place r \<noteq> Issuing t" for r using thread_ok_one [of place t task r] assms(1) 2 by auto
      ultimately show ?thesis using assms(2) 2 by (auto simp: thread_ok_def new_request_def Let_def)
    next
      case 3
      then have "rest = []" using d(1) [of op r] by auto
      moreover then have "place r' \<noteq> Issuing t" for r' using thread_ok_one [of place t task r'] assms(1) 3 by auto
      ultimately show ?thesis using assms(2) 3
        by (auto simp: thread_ok_def is_ok_iff split: prod.splits result.splits if_splits)
    next
      case 4
      then have "rest = []" using d(2) [of r] by auto
      then show ?thesis using assms 4 by (auto simp: thread_ok_def)
    next
      case 5
      then show ?thesis using assms by (auto simp: thread_ok_def)
    qed
  qed
qed

lemma thread_ok_other_step:
  assumes "thread_ok place u ts" and "thread_ok place t (task # rest)" and "u \<noteq> t"
    and "place (rc_next_request_id rc) = Unborn"
  shows "thread_ok (ticket_after t task rc place) u ts"
proof -
  have same: "ticket_after t task rc place r = place r" if "place r = Created u \<or> place r = Issuing u" for r
  proof (cases task)
    case (Admit op rid)
    then show ?thesis using that assms(3) thread_okD(1) [OF assms(2), of op rid] by auto
  next
    case (Issue rid)
    then show ?thesis using that assms(3) thread_okD(3) [OF assms(2), of rid] by auto
  qed (use that assms(4) in auto)
  have origin: "place r = Issuing u" if "ticket_after t task rc place r = Issuing u" for r
    using that assms(3) by (cases task) (auto split: if_splits)
  note d = thread_okD [OF assms(1)]
  show ?thesis unfolding thread_ok_def
  proof (intro conjI allI impI)
    show "ticket_after t task rc place r = Created u" if "Admit op r \<in> set ts" for op r
      using d(1) [OF that] same [of r] by simp
    show "ticket_after t task rc place r = Issuing u" if "Issue r \<in> set ts" for r
      using d(3) [OF that] same [of r] by simp
    show "Issue r \<in> set ts" if "ticket_after t task rc place r = Issuing u" for r
      by (rule d(6) [OF origin [OF that]])
    show "ts \<in> {[Issue r], [MarkStarted r, Issue r]}" if "Issue r \<in> set ts" for r
      using d(2) [OF that] by simp
  qed (use d(1,4,5) in auto)
qed

lemma thread_ok_step:
  assumes "\<And>t. thread_ok place t (threads t)" and "threads t = task # rest"
    and "ids_fresh rc place" and "task_step task rc = (rc', new)"
  shows "thread_ok (ticket_after t task rc place) u ((threads(t := new @ rest)) u)"
proof -
  have t: "thread_ok place t (task # rest)" using assms(1) [of t] assms(2) by simp
  have "place (rc_next_request_id rc) = Unborn" using assms(3) by (simp add: ids_fresh_def)
  then show ?thesis
    using thread_ok_own_step [OF t assms(4)] thread_ok_other_step [OF assms(1) t] by (cases "u = t") auto
qed

lemma history_ok_step:
  assumes "history_ok s" and "gate_ok (sys_rc s)" and "ids_fresh (sys_rc s) (sys_ticket s)"
    and "\<And>op rid. task = Admit op rid \<Longrightarrow> sys_ticket s rid = Created t"
  shows "history_ok (run_task t task rest s)"
proof -
  obtain rc' new where e: "task_step task (sys_rc s) = (rc', new)" by (cases "task_step task (sys_rc s)")
  have h: "subseq (sys_activated s @ queue_of (sys_rc s)) (sys_admitted s)" "distinct (sys_admitted s)"
    "\<forall>r \<in> set (sys_admitted s). on_gate (sys_ticket s r)"
    using assms(1) by (simp_all add: history_ok_def)
  have new: "set (admitted_by task (sys_rc s)) \<inter> set (sys_admitted s) = {}" "distinct (admitted_by task (sys_rc s))"
    using h(3) assms(4) by (cases task; force split: if_splits)+
  have gates: "on_gate (ticket_after t task (sys_rc s) (sys_ticket s) r)"
    if "r \<in> set (sys_admitted s @ admitted_by task (sys_rc s))" for r
    using that h(3) assms(3,4) by (cases task) (auto simp: ids_fresh_def split: if_splits)
  have "subseq (sys_activated s @ (activated_by task (sys_rc s) @ queue_of rc'))
      (sys_activated s @ (queue_of (sys_rc s) @ admitted_by task (sys_rc s)))"
    by (rule list_emb_append_mono [OF subseq_order.refl task_step_queue [OF assms(2) e]])
  also have "subseq \<dots> (sys_admitted s @ admitted_by task (sys_rc s))"
    using list_emb_append_mono [OF h(1), of "admitted_by task (sys_rc s)" "admitted_by task (sys_rc s)"] by simp
  finally show ?thesis using h new gates e by (auto simp: history_ok_def run_task_def)
qed


lemma sys_okD:
  assumes "sys_ok s"
  shows "gate_ok (sys_rc s)" and "request_ok (sys_rc s) (pending (sys_threads s)) (sys_ticket s r) r"
    and "Finish r \<in> pending (sys_threads s) \<Longrightarrow> r \<notin> set (queue_of (sys_rc s))"
    and "ids_fresh (sys_rc s) (sys_ticket s)" and "thread_ok (sys_ticket s) t (sys_threads s t)"
    and "history_ok s"
  using assms by (simp_all add: sys_ok_def)

lemma request_ok_call:
  assumes "request_ok rc P pl r"
    and "\<not> starts_it r task \<and> \<not> cancels_it r task \<and> \<not> completes_it r task \<and> \<not> releases r task"
  shows "request_ok rc (insert task P) pl r"
  using assms by (simp add: request_ok_def)

lemma thread_ok_call:
  assumes "thread_ok place t ts" and "ts = []" and "\<And>op r. task \<noteq> Admit op r" and "\<And>r. task \<noteq> Issue r"
  shows "thread_ok place t [task]"
  using assms(2-4) thread_okD(6) [OF assms(1)] by (auto simp: thread_ok_def)

lemma thread_ok_released:
  assumes "thread_ok place t ts" and "place r = Held"
  shows "thread_ok (place(r := Released)) t ts"
  using assms(1) assms(2) by (force simp: thread_ok_def)

lemma sys_ok_call:
  assumes "sys_ok s" and "sys_threads s t = []" and "\<And>op r. task \<noteq> Admit op r" and "\<And>r. task \<noteq> Issue r"
    and "\<And>r. \<not> starts_it r task \<and> \<not> cancels_it r task \<and> \<not> completes_it r task \<and> \<not> releases r task"
  shows "sys_ok (s\<lparr>sys_threads := (sys_threads s)(t := [task])\<rparr>)"
proof -
  have p: "pending ((sys_threads s)(t := [task])) = insert task (pending (sys_threads s))"
    using pending_call [of "sys_threads s" t "[task]"] assms(2) by simp
  have nf: "task \<noteq> Finish r" for r using assms(5) [of r] by auto
  have "thread_ok (sys_ticket s) u (((sys_threads s)(t := [task])) u)" for u
    using sys_okD(5) [OF assms(1)] thread_ok_call [OF sys_okD(5) [OF assms(1)] assms(2-4)] by simp
  then show ?thesis using assms(1) request_ok_call [OF _ assms(5)] nf [symmetric]
    by (simp add: sys_ok_def p history_ok_def)
qed

lemma sys_ok_release:
  assumes "sys_ok s" and "sys_threads s t = []" and "sys_ticket s rid = Held" and "release_call rid task"
  shows "sys_ok (s\<lparr>sys_threads := (sys_threads s)(t := [task]), sys_ticket := (sys_ticket s)(rid := Released)\<rparr>)"
proof -
  have p: "pending ((sys_threads s)(t := [task])) = insert task (pending (sys_threads s))"
    using pending_call [of "sys_threads s" t "[task]"] assms(2) by simp
  have k: "\<not> starts_it r task \<and> \<not> cancels_it r task \<and> \<not> completes_it r task" "releases r task \<longleftrightarrow> r = rid"
    "task \<noteq> Finish r" "task \<noteq> Admit op r" "task \<noteq> Issue r" for r op
    using assms(4) by (cases task; auto)+
  have "request_ok (sys_rc s) (insert task (pending (sys_threads s))) (((sys_ticket s)(rid := Released)) r) r" for r
  proof (cases "r = rid")
    case True
    have "request_ok (sys_rc s) (pending (sys_threads s)) Held r"
      using sys_okD(2) [OF assms(1), of r] assms(3) True by simp
    then show ?thesis using k True by (simp add: request_ok_def inv_release)
  qed (use assms(1) k in \<open>simp add: sys_ok_def request_ok_def\<close>)
  moreover have "thread_ok ((sys_ticket s)(rid := Released)) u (((sys_threads s)(t := [task])) u)" for u
    using sys_okD(5) [OF assms(1)] thread_ok_call [OF sys_okD(5) [OF assms(1)] assms(2) k(4,5)] assms(3)
    by (simp add: thread_ok_released)
  moreover have "ids_fresh (sys_rc s) ((sys_ticket s)(rid := Released))"
    using assms(1,3) by (force simp: sys_ok_def ids_fresh_def)
  ultimately show ?thesis using assms(1) k(3) by (auto simp: sys_ok_def p history_ok_def)
qed

lemma sys_ok_run:
  assumes "sys_ok s" and "sys_threads s t = task # rest"
    and "\<And>op. task = NewRequest op \<Longrightarrow> rc_next_request_id (sys_rc s) \<noteq> -1"
  shows "sys_ok (run_task t task rest s)"
proof -
  let ?rc = "sys_rc s" and ?P = "pending (sys_threads s)"
  obtain rc' new where e: "task_step task ?rc = (rc', new)" by (cases "task_step task ?rc")
  let ?P' = "pending ((sys_threads s)(t := new @ rest))"
  have g: "gate_ok ?rc" and r: "\<And>r. request_ok ?rc ?P (sys_ticket s r) r"
    and f: "\<And>r. Finish r \<in> ?P \<Longrightarrow> r \<notin> set (queue_of ?rc)" and i: "ids_fresh ?rc (sys_ticket s)"
    and t: "\<And>t. thread_ok (sys_ticket s) t (sys_threads s t)" and h: "history_ok s"
    using sys_okD [OF assms(1)] by simp_all
  have ran: "ran task new ?P ?P'" using ran_pending [of "sys_threads s" t] assms(2) by simp
  then have tp: "task \<in> ?P" by (simp add: ran_def)
  have a: "sys_ticket s rid = Created t" if "task = Admit op rid" for op rid
    using thread_okD(1) [OF t, of op rid t] assms(2) that by simp
  have iss: "sys_ticket s rid = Issuing t" if "task = Issue rid" for rid
    using thread_okD(3) [OF t, of rid t] assms(2) that by simp
  have adm: "rid \<notin> set (queue_of ?rc) \<and> active_of ?rc \<noteq> Some rid \<and> Finish rid \<notin> ?P" if "task = Admit op rid" for op rid
    using r [of rid] a [OF that] by (auto simp: request_ok_def request_inv_def has_def)
  have "gate_ok rc'" using task_step_gate_ok [OF g, of task] adm e by auto
  moreover have "request_ok rc' ?P' (ticket_after t task ?rc (sys_ticket s) q) q" for q
    by (rule request_ok_step [OF g r i e ran]) (use a iss f tp in auto)
  moreover have "q \<notin> set (queue_of rc')" if "Finish q \<in> ?P'" for q
    using finish_not_queued_step [OF g e ran f _ that] adm by auto
  moreover have "ids_fresh rc' (ticket_after t task ?rc (sys_ticket s))"
    by (rule ids_fresh_step [OF i e assms(3) a iss])
  moreover have "thread_ok (ticket_after t task ?rc (sys_ticket s)) u (((sys_threads s)(t := new @ rest)) u)" for u
    by (rule thread_ok_step [OF t assms(2) i e])
  moreover have "history_ok (run_task t task rest s)" by (rule history_ok_step [OF h g i a])
  ultimately show ?thesis using e by (simp add: sys_ok_def run_task_def)
qed

lemma sys_ok_step: "sys_step s s' \<Longrightarrow> sys_ok s \<Longrightarrow> sys_ok s'"
proof (induction rule: sys_step.induct)
  case (call s t task)
  then show ?case using sys_ok_call [of s t task] by (cases task) auto
next
  case (ask_cancel s t rid)
  then show ?case using sys_ok_call [of s t "CancelQueued rid"] by auto
next
  case (release s t rid task)
  then show ?case using sys_ok_release by blast
next
  case (run s t task rest)
  then show ?case using sys_ok_run by blast
qed

lemma reachable_ok: "sys_reachable stats n s \<Longrightarrow> sys_ok s"
  unfolding sys_reachable_def
  by (induction rule: rtranclp_induct) (auto intro: sys_ok_step sys_ok_initial)


section \<open>What holds of every interleaving\<close>

text \<open>
  C26: one writer at a time. In every reachable state, whatever the interleaving, a request whose
  ticket is held and which has been started is the active one; so two such requests are the same.
\<close>

theorem one_active_writer:
  assumes "sys_reachable stats n s"
    and "sys_ticket s r = Held" "phase_of (sys_rc s) r = Some Started"
    and "sys_ticket s q = Held" "phase_of (sys_rc s) q = Some Started"
  shows "active_of (sys_rc s) = Some r \<and> q = r"
proof -
  have "active_of (sys_rc s) = Some x" if "sys_ticket s x = Held" "phase_of (sys_rc s) x = Some Started" for x
    using sys_okD(2) [OF reachable_ok [OF assms(1)], of x] that
    by (auto simp: request_ok_def request_inv_def)
  from this [OF assms(2,3)] this [OF assms(4,5)] show ?thesis by simp
qed

text \<open>
  C27: no lost wakeup. In every reachable state in which no thread has anything left to do, the
  holder of a ticket either is not waiting (its wait returns) or is queued behind an active request
  that has started and whose own ticket is still held, so that it can still be finished.
\<close>

theorem no_lost_wakeup:
  assumes "sys_reachable stats n s" and "\<And>t. sys_threads s t = []" and "sys_ticket s r = Held"
  shows "WriteTicket_wait_until_started r (sys_rc s) \<noteq> None
    \<or> (r \<in> set (queue_of (sys_rc s)) \<and> (\<exists>a. active_of (sys_rc s) = Some a
         \<and> phase_of (sys_rc s) a = Some Started \<and> sys_ticket s a = Held))"
proof -
  note ok = sys_okD [OF reachable_ok [OF assms(1)]]
  have none: "pending (sys_threads s) = {}" using assms(2) by (simp add: pending_def)
  have issuing: "sys_ticket s x \<noteq> Issuing t" for x t
    using thread_okD(6) [OF ok(5), of x t] assms(2) by auto
  show ?thesis
  proof (cases "r \<in> set (queue_of (sys_rc s))")
    case True
    then obtain a where a: "active_of (sys_rc s) = Some a" using ok(1) by (fastforce simp: gate_ok_def)
    have "phase_of (sys_rc s) a = Some Started \<and> sys_ticket s a = Held"
      using ok(2) [of a] a issuing [of a]
      by (cases "sys_ticket s a") (auto simp: request_ok_def request_inv_def none)
    then show ?thesis using True a by blast
  next
    case False
    then have "\<exists>p. phase_of (sys_rc s) r = Some p \<and> p \<noteq> Queued"
      using ok(2) [of r] assms(3) by (auto simp: request_ok_def request_inv_def none)
    then show ?thesis
      by (auto simp: phase_of_def WriteTicket_wait_until_started_def wait_until_started_def
          split: request_phase.splits)
  qed
qed

text \<open>
  C28: writes start in the order the gate admitted them. The requests made active so far, followed by
  those still queued, are a subsequence of the admitted requests, in which none occurs twice.
\<close>

theorem writes_start_in_admission_order:
  assumes "sys_reachable stats n s"
  shows "subseq (sys_activated s @ queue_of (sys_rc s)) (sys_admitted s) \<and> distinct (sys_admitted s)"
  using sys_okD(6) [OF reachable_ok [OF assms]] by (simp add: history_ok_def)

lemma latch_section_monotone:
  assumes "gate_ok rc" and "latch_section target summary rc = (rc', tr, cancelled)"
  shows "state_rank (inst rc) \<le> state_rank (inst rc')"
    and "rc_first_latched_error rc = Some e \<Longrightarrow> rc_first_latched_error rc' = Some e"
proof -
  show "state_rank (inst rc) \<le> state_rank (inst rc')"
  proof (cases "is_upgrade (inst rc) target")
    case True
    then show ?thesis using latched_state(1) [OF assms(1) True, of summary] assms(2) by (simp add: is_upgrade_def)
  qed (use assms(2) in \<open>simp add: latch_section_def Let_def\<close>)
  show "rc_first_latched_error rc' = Some e" if "rc_first_latched_error rc = Some e"
    using assms(2) that by (auto simp: latch_section_def Let_def split: if_splits)
qed

lemma task_step_state:
  assumes "task_step task rc = (rc', new)"
  shows "(runtime_state rc' = runtime_state rc \<and> rc_first_latched_error rc' = rc_first_latched_error rc)
    \<or> (\<exists>target summary tr cancelled. latch_section target summary rc = (rc', tr, cancelled))"
proof (cases task)
  case (Latch target error)
  then show ?thesis using assms by (auto simp: Let_def split: prod.splits)
qed (use assms in \<open>auto simp: new_request_def enqueue_section_def finish_section_def remove_queued_def
    abandon_section_def close_section_def runtime_state_def Let_def
    split: if_splits result.splits prod.splits option.splits list.splits\<close>)

lemma sys_step_monotone:
  assumes "sys_step s s'" and "sys_ok s"
  shows "state_rank (inst (sys_rc s)) \<le> state_rank (inst (sys_rc s'))
    \<and> (\<forall>e. rc_first_latched_error (sys_rc s) = Some e \<longrightarrow> rc_first_latched_error (sys_rc s') = Some e)"
  using assms
proof (cases rule: sys_step.cases)
  case (run t task rest)
  obtain rc' new where e: "task_step task (sys_rc s) = (rc', new)" by (cases "task_step task (sys_rc s)")
  then have "sys_rc s' = rc'" using run by (simp add: run_task_def)
  then show ?thesis
    using task_step_state [OF e] latch_section_monotone [OF sys_okD(1) [OF assms(2)]] by (auto; metis)
qed auto

text \<open>
  C29: failures are latched. Between two reachable states the instance only gets worse, the first
  latched error stays the one that was latched, it is there exactly when the instance is no longer
  healthy, the epoch is at most two, so that it never leaves its 62 bits of the state word, and
  once the instance is not healthy every write is refused with the error for its state.
\<close>

theorem failures_are_latched:
  assumes "sys_reachable stats n s" and "sys_step\<^sup>*\<^sup>* s s'"
  shows "state_rank (inst (sys_rc s)) \<le> state_rank (inst (sys_rc s'))
    \<and> (\<forall>e. rc_first_latched_error (sys_rc s) = Some e \<longrightarrow> rc_first_latched_error (sys_rc s') = Some e)
    \<and> (rc_first_latched_error (sys_rc s') = None \<longleftrightarrow> inst (sys_rc s') = Healthy)
    \<and> unat (ss_state_epoch (runtime_state (sys_rc s'))) \<le> 2
    \<and> (inst (sys_rc s) \<noteq> Healthy \<longrightarrow>
        enqueue_write op (sys_rc s') = (sys_rc s', Err (admission_error op (inst (sys_rc s')))))"
  using assms(2)
proof (induction rule: rtranclp_induct)
  case base
  have "gate_ok (sys_rc s)" by (rule sys_okD(1) [OF reachable_ok [OF assms(1)]])
  then show ?case using state_rank_le [of "inst (sys_rc s)"]
    by (auto simp: gate_ok_def enqueue_write_def fast_check_def ensure_def)
next
  case (step y z)
  have "sys_reachable stats n y" "sys_reachable stats n z"
    using assms(1) step.hyps by (auto simp: sys_reachable_def)
  then have ok: "sys_ok y" "gate_ok (sys_rc z)" using reachable_ok sys_okD(1) by blast+
  have "inst (sys_rc s) \<noteq> Healthy \<Longrightarrow> inst (sys_rc z) \<noteq> Healthy"
    using step.IH sys_step_monotone [OF step.hyps(2) ok(1)] state_rank_inject [of "inst (sys_rc s)" Healthy]
    by (cases "inst (sys_rc z)") auto
  then show ?case
    using step.IH sys_step_monotone [OF step.hyps(2) ok(1)] ok(2) state_rank_le [of "inst (sys_rc z)"]
    by (auto simp: gate_ok_def enqueue_write_def fast_check_def ensure_def)
qed

text \<open>A first run: one thread enqueues a put and receives its ticket.\<close>

lemma new_gate [simp]:
  "rc_gate (RuntimeControl_new stats n) = WriteGateInner_new"
  "rc_next_request_id (RuntimeControl_new stats n) = n" "rc_requests (RuntimeControl_new stats n) = Map.empty"
  by (simp_all add: RuntimeControl_new_def)

lemma enqueue_first:
  assumes "inst rc = Healthy" and "rc_gate rc = WriteGateInner_new"
  shows "enqueue_section op rid rc = (set_gate (\<lambda>g. g\<lparr>active_request := Some rid\<rparr>) rc, Ok True)"
  using assms by (simp add: enqueue_section_def admission_section_def ensure_def WriteGateInner_new_def)

abbreviation sample_rc :: runtime_control where
  "sample_rc \<equiv> RuntimeControl_new StatsState_new 1"

abbreviation sample_gate :: runtime_control where
  "sample_gate \<equiv> set_gate (\<lambda>g. g\<lparr>active_request := Some 1\<rparr>) (fst (new_request Op_Put sample_rc))"

lemma sample_tasks:
  "task_step (FastCheck Op_Put) sample_rc = (sample_rc, [NewRequest Op_Put])"
  "task_step (NewRequest Op_Put) sample_rc = (fst (new_request Op_Put sample_rc), [Admit Op_Put 1])"
  "task_step (Admit Op_Put 1) (fst (new_request Op_Put sample_rc)) = (sample_gate, [MarkStarted 1, Issue 1])"
  by (simp_all add: fast_check_def ensure_def case_prod_beta enqueue_first)

definition sample_started :: system where
  "sample_started =
     \<lparr>sys_rc = at_request mark_started 1 sample_gate, sys_threads = (\<lambda>_. []),
      sys_ticket = (\<lambda>_. Unborn)(1 := Held), sys_admitted = [1], sys_activated = [1]\<rparr>"

lemma sample_started_reachable: "sys_reachable StatsState_new 1 sample_started"
proof -
  let ?s0 = "initial_system StatsState_new 1"
  let ?s1 = "?s0\<lparr>sys_threads := (sys_threads ?s0)(0 := [FastCheck Op_Put])\<rparr>"
  let ?s2 = "run_task 0 (FastCheck Op_Put) [] ?s1"
  let ?s3 = "run_task 0 (NewRequest Op_Put) [] ?s2"
  let ?s4 = "run_task 0 (Admit Op_Put 1) [] ?s3"
  let ?s5 = "run_task 0 (MarkStarted 1) [Issue 1] ?s4"
  let ?s6 = "run_task 0 (Issue 1) [] ?s5"
  have e1: "sys_rc ?s1 = sample_rc" "sys_threads ?s1 0 = [FastCheck Op_Put]"
    by (simp_all add: initial_system_def)
  have e2: "sys_rc ?s2 = sample_rc" "sys_threads ?s2 0 = [NewRequest Op_Put]"
    using e1(1) sample_tasks(1) by (simp_all add: run_task_def del: task_step.simps)
  have e3: "sys_rc ?s3 = fst (new_request Op_Put sample_rc)" "sys_threads ?s3 0 = [Admit Op_Put 1]"
    using e2(1) sample_tasks(2) by (simp_all add: run_task_def del: task_step.simps)
  have e4: "sys_rc ?s4 = sample_gate" "sys_threads ?s4 0 = [MarkStarted 1, Issue 1]"
    using e3(1) sample_tasks(3) by (simp_all add: run_task_def del: task_step.simps)
  have e5: "sys_threads ?s5 0 = [Issue 1]" by (simp add: run_task_def)
  have e6: "?s6 = sample_started"
    using e1 e2 e3 e4
    by (simp add: sample_started_def run_task_def initial_system_def activated_by_def enqueue_first
        sample_tasks WriteGateInner_new_def fun_eq_iff del: task_step.simps(5-7))
  have steps: "sys_step ?s0 ?s1" "sys_step ?s1 ?s2" "sys_step ?s2 ?s3" "sys_step ?s3 ?s4" "sys_step ?s4 ?s5"
    "sys_step ?s5 ?s6"
    by (rule call run; use e1 e2 e3 e4 e5 in \<open>simp add: initial_system_def\<close>)+
  note * = converse_rtranclp_into_rtranclp [where r = sys_step]
  have "sys_step\<^sup>*\<^sup>* ?s0 ?s6" by (rule *, rule steps)+ (rule rtranclp.rtrancl_refl)
  then show ?thesis by (simp only: sys_reachable_def e6)
qed

lemma sample_started_phase: "phase_of (sys_rc sample_started) 1 = Some Started"
  by (simp add: sample_started_def phase_of_marks) (simp add: phase_of_def WriteRequest_new_def)

theorem one_active_writer_witness: "active_of (sys_rc sample_started) = Some 1"
  using one_active_writer [OF sample_started_reachable, of 1 1] sample_started_phase
  by (simp add: sample_started_def)

theorem no_lost_wakeup_witness: "WriteTicket_wait_until_started 1 (sys_rc sample_started) \<noteq> None"
  using no_lost_wakeup [OF sample_started_reachable, of 1]
  by (simp add: sample_started_def WriteGateInner_new_def)

theorem writes_start_in_admission_order_witness:
  "subseq (sys_activated sample_started @ queue_of (sys_rc sample_started)) (sys_admitted sample_started)"
  using writes_start_in_admission_order [OF sample_started_reachable] by blast

theorem failures_are_latched_witness:
  "rc_first_latched_error (sys_rc sample_started) = None \<longleftrightarrow> inst (sys_rc sample_started) = Healthy"
  using failures_are_latched [OF sample_started_reachable rtranclp.rtrancl_refl] by blast

end
