(* ===== verification/LifecycleControl.thy ===== *)
theory LifecycleControl
  imports Runtime
begin

text \<open>
  The lifecycle controller (\<open>src/runtime/lifecycle.rs\<close>): external leases (handles a client holds),
  operation guards (operations in flight) and the point where the last lease is dropped, which
  stops new operations and closes write admission. Every method is one section under the
  controller's lock, followed by the call into the bound runtime. The counters are \<open>usize\<close> and are
  decremented without a check; the steps count the leases and guards that clients hold.
\<close>

record lifecycle_inner =
  accepting_operations :: bool
  external_leases :: nat
  operation_guards :: nat

record lifecycle_snapshot =
  ls_accepting_operations :: bool
  ls_external_leases :: nat
  ls_operation_guards :: nat

record lifecycle_controller =
  lc_inner :: lifecycle_inner
  lc_bound :: bool
  lc_runtime :: runtime_control

definition is_quiescent :: "lifecycle_inner \<Rightarrow> bool" where
  "is_quiescent inner \<longleftrightarrow> external_leases inner = 0 \<and> operation_guards inner = 0"

definition new_with_external_lease :: "runtime_control \<Rightarrow> lifecycle_controller" where
  "new_with_external_lease rc =
     \<lparr>lc_inner = \<lparr>accepting_operations = True, external_leases = 1, operation_guards = 0\<rparr>,
      lc_bound = False, lc_runtime = rc\<rparr>"

definition bind_runtime :: "runtime_control \<Rightarrow> lifecycle_controller \<Rightarrow> lifecycle_controller \<times> bool" where
  "bind_runtime rc c = (if lc_bound c then (c, False) else (c\<lparr>lc_bound := True, lc_runtime := rc\<rparr>, True))"

definition acquire_operation :: "lifecycle_controller \<Rightarrow> lifecycle_controller \<times> bool" where
  "acquire_operation c =
     (if \<not> accepting_operations (lc_inner c) then (c, False)
      else (c\<lparr>lc_inner := (lc_inner c)\<lparr>operation_guards := operation_guards (lc_inner c) + 1\<rparr>\<rparr>, True))"

definition lifecycle_snapshot_of :: "lifecycle_controller \<Rightarrow> lifecycle_snapshot" where
  "lifecycle_snapshot_of c =
     \<lparr>ls_accepting_operations = accepting_operations (lc_inner c),
      ls_external_leases = external_leases (lc_inner c),
      ls_operation_guards = operation_guards (lc_inner c)\<rparr>"

text \<open>Waiting: \<open>None\<close> while the thread stays blocked on the condition variable.\<close>

definition wait_for_quiescence :: "bool \<Rightarrow> lifecycle_controller \<Rightarrow> bool option" where
  "wait_for_quiescence expired c =
     (if is_quiescent (lc_inner c) then Some True else if expired then Some False else None)"

definition clone_external_lease :: "lifecycle_controller \<Rightarrow> lifecycle_controller" where
  "clone_external_lease c =
     c\<lparr>lc_inner := (lc_inner c)\<lparr>external_leases := external_leases (lc_inner c) + 1\<rparr>\<rparr>"

definition release_external_lease :: "lifecycle_controller \<Rightarrow> lifecycle_controller \<times> bool" where
  "release_external_lease c =
     (let leases = external_leases (lc_inner c) - 1;
          closed = (leases = 0);
          inner = (lc_inner c)\<lparr>external_leases := leases,
            accepting_operations := (if closed then False else accepting_operations (lc_inner c))\<rparr>;
          runtime = (if closed \<and> lc_bound c then close_write_admission (lc_runtime c) else lc_runtime c)
      in (c\<lparr>lc_inner := inner, lc_runtime := runtime\<rparr>, is_quiescent inner))"

definition release_operation_guard :: "lifecycle_controller \<Rightarrow> lifecycle_controller \<times> bool" where
  "release_operation_guard c =
     (let inner = (lc_inner c)\<lparr>operation_guards := operation_guards (lc_inner c) - 1\<rparr>
      in (c\<lparr>lc_inner := inner\<rparr>, is_quiescent inner))"

section \<open>The life of a handle\<close>

text \<open>
  What clients can do: a lease is cloned from a held lease, and only held leases and guards are
  dropped. \<open>notified\<close> records whether the condition variable has been signalled.
\<close>

record lifecycle_system =
  ly_controller :: lifecycle_controller
  ly_leases :: nat
  ly_guards :: nat
  ly_notified :: bool

inductive lifecycle_step :: "lifecycle_system \<Rightarrow> lifecycle_system \<Rightarrow> bool" where
  clone_lease: "ly_leases s > 0 \<Longrightarrow>
    lifecycle_step s (s\<lparr>ly_controller := clone_external_lease (ly_controller s), ly_leases := ly_leases s + 1\<rparr>)"
| drop_lease: "ly_leases s > 0 \<Longrightarrow> release_external_lease (ly_controller s) = (c, notify) \<Longrightarrow>
    lifecycle_step s (s\<lparr>ly_controller := c, ly_leases := ly_leases s - 1, ly_notified := ly_notified s \<or> notify\<rparr>)"
| acquire: "acquire_operation (ly_controller s) = (c, True) \<Longrightarrow>
    lifecycle_step s (s\<lparr>ly_controller := c, ly_guards := ly_guards s + 1\<rparr>)"
| refuse: "acquire_operation (ly_controller s) = (c, False) \<Longrightarrow> lifecycle_step s (s\<lparr>ly_controller := c\<rparr>)"
| drop_guard: "ly_guards s > 0 \<Longrightarrow> release_operation_guard (ly_controller s) = (c, notify) \<Longrightarrow>
    lifecycle_step s (s\<lparr>ly_controller := c, ly_guards := ly_guards s - 1, ly_notified := ly_notified s \<or> notify\<rparr>)"
| runtime_call: "lifecycle_step s (s\<lparr>ly_controller := (ly_controller s)\<lparr>lc_runtime := rc\<rparr>\<rparr>)"
    if "\<not> accepting_writes (rc_gate (lc_runtime (ly_controller s))) \<longrightarrow> \<not> accepting_writes (rc_gate rc)"

definition initial_lifecycle :: "runtime_control \<Rightarrow> lifecycle_system" where
  "initial_lifecycle rc =
     \<lparr>ly_controller = fst (bind_runtime rc (new_with_external_lease rc)), ly_leases = 1, ly_guards = 0,
      ly_notified = False\<rparr>"

definition lifecycle_ok :: "lifecycle_system \<Rightarrow> bool" where
  "lifecycle_ok s \<longleftrightarrow>
     (let inner = lc_inner (ly_controller s) in
      external_leases inner = ly_leases s \<and> operation_guards inner = ly_guards s
      \<and> (accepting_operations inner \<longleftrightarrow> ly_leases s > 0) \<and> lc_bound (ly_controller s)
      \<and> (ly_leases s = 0 \<longrightarrow> \<not> accepting_writes (rc_gate (lc_runtime (ly_controller s))))
      \<and> (is_quiescent inner \<longleftrightarrow> ly_notified s))"

lemma close_write_admission_closes: "\<not> accepting_writes (rc_gate (close_write_admission rc))"
  by (simp add: close_write_admission_def close_section_def)

lemma lifecycle_ok_initial: "lifecycle_ok (initial_lifecycle rc)"
  by (simp add: lifecycle_ok_def initial_lifecycle_def bind_runtime_def new_with_external_lease_def
      is_quiescent_def)

lemma lifecycle_ok_step:
  assumes "lifecycle_step s s'" and "lifecycle_ok s"
  shows "lifecycle_ok s'"
  using assms
  by (induction rule: lifecycle_step.induct)
    (auto simp: lifecycle_ok_def clone_external_lease_def release_external_lease_def acquire_operation_def
      release_operation_guard_def is_quiescent_def Let_def close_write_admission_closes split: if_splits)

lemma lifecycle_reachable_ok: "lifecycle_step\<^sup>*\<^sup>* (initial_lifecycle rc) s \<Longrightarrow> lifecycle_ok s"
  by (induction rule: rtranclp_induct) (auto intro: lifecycle_ok_step lifecycle_ok_initial)

lemma quiescent_step:
  assumes "lifecycle_step s s'" and "lifecycle_ok s" and "ly_leases s = 0"
  shows "ly_leases s' = 0 \<and> ly_guards s' \<le> ly_guards s"
  using assms
  by (induction rule: lifecycle_step.induct) (auto simp: lifecycle_ok_def acquire_operation_def split: if_splits)


text \<open>A client drops the only lease of a new database.\<close>

definition sample_closed :: lifecycle_system where
  "sample_closed =
     (let s = initial_lifecycle (RuntimeControl_new StatsState_new 1);
          (c, notify) = release_external_lease (ly_controller s)
      in s\<lparr>ly_controller := c, ly_leases := 0, ly_notified := notify\<rparr>)"

lemma sample_closed_reachable:
  "lifecycle_step\<^sup>*\<^sup>* (initial_lifecycle (RuntimeControl_new StatsState_new 1)) sample_closed"
proof -
  let ?s = "initial_lifecycle (RuntimeControl_new StatsState_new 1)"
  obtain c n where e: "release_external_lease (ly_controller ?s) = (c, n)"
    by (cases "release_external_lease (ly_controller ?s)")
  have "lifecycle_step ?s sample_closed"
    using drop_lease [of ?s c n] e by (simp add: sample_closed_def initial_lifecycle_def)
  then show ?thesis by (rule r_into_rtranclp)
qed


end
