(* ===== verification/VLogFiles.thy ===== *)
theory VLogFiles
  imports Layout "HOL-Library.Mapping"
begin

text \<open>
  The files of the value log (\<open>src/vlog/file_set.rs\<close>): file names, the catalog of verified files,
  the directory, the bounded cache of read handles and positioned reads with their retry limits.

  The operating system is a parameter: a record of the calls the code makes on a directory whose
  state has an arbitrary type, each of which may fail at any time. What the code relies on is
  stated as the locale \<open>log_disk\<close>, after POSIX. The catalog and the handle cache are shared by the
  writer and the readers; together with the directory they are the state every operation passes on.
  Their locks are only ever poisoned by a panic, which the model has not.
\<close>

section \<open>State and errors in a row\<close>

type_synonym ('s, 'a, 'e) act = "'s \<Rightarrow> 's \<times> ('a, 'e) result"

definition act_return :: "'a \<Rightarrow> ('s, 'a, 'e) act" where
  "act_return x s = (s, Ok x)"

definition act_fail :: "'e \<Rightarrow> ('s, 'a, 'e) act" where
  "act_fail e s = (s, Err e)"

definition act_lift :: "('a, 'e) result \<Rightarrow> ('s, 'a, 'e) act" where
  "act_lift r s = (s, r)"

definition act_bind :: "('s, 'a, 'e) act \<Rightarrow> ('a \<Rightarrow> ('s, 'b, 'e) act) \<Rightarrow> ('s, 'b, 'e) act" where
  "act_bind m f s = (case m s of (s', Ok x) \<Rightarrow> f x s' | (s', Err e) \<Rightarrow> (s', Err e))"

definition act_map_err :: "('e \<Rightarrow> 'f) \<Rightarrow> ('s, 'a, 'e) act \<Rightarrow> ('s, 'a, 'f) act" where
  "act_map_err f m s = (case m s of (s', Ok x) \<Rightarrow> (s', Ok x) | (s', Err e) \<Rightarrow> (s', Err (f e)))"

lemma act_bind_Ok:
  "act_bind m f s = (s', Ok y) \<longleftrightarrow> (\<exists>t x. m s = (t, Ok x) \<and> f x t = (s', Ok y))"
  by (auto simp: act_bind_def split: prod.splits result.splits)

lemma act_bind_Err:
  "act_bind m f s = (s', Err e) \<longleftrightarrow>
     m s = (s', Err e) \<or> (\<exists>t x. m s = (t, Ok x) \<and> f x t = (s', Err e))"
  by (auto simp: act_bind_def split: prod.splits result.splits)

lemma act_map_err_Ok: "act_map_err f m s = (s', Ok x) \<longleftrightarrow> m s = (s', Ok x)"
  by (auto simp: act_map_err_def split: prod.splits result.splits)

lemma act_map_err_Err: "act_map_err f m s = (s', Err e) \<longleftrightarrow> (\<exists>e'. m s = (s', Err e') \<and> e = f e')"
  by (auto simp: act_map_err_def split: prod.splits result.splits)

lemma act_return_simps [simp]:
  "act_return x s = (s', r) \<longleftrightarrow> s' = s \<and> r = Ok x" "act_fail e s = (s', q) \<longleftrightarrow> s' = s \<and> q = Err e"
  "act_lift v s = (s', w) \<longleftrightarrow> s' = s \<and> w = v"
  by (auto simp: act_return_def act_fail_def act_lift_def)

lemmas act_simps = act_bind_Ok act_bind_Err act_map_err_Ok act_map_err_Err

section \<open>The operating system\<close>

datatype io_kind =
  IoNotFound | IoAlreadyExists | IoNotADirectory | IoInterrupted | IoWouldBlock | IoStorageFull | IoWriteZero
| IoInvalidInput | IoOther

record io_error =
  io_error_kind :: io_kind
  io_raw_os_error :: "int option"

type_synonym handle = nat

record file_identity =
  fi_device :: u64
  fi_inode :: u64

record file_metadata =
  md_is_file :: bool
  md_identity :: file_identity
  md_len :: u64

record 'd os_ops =
  os_open :: "string \<Rightarrow> bool \<Rightarrow> ('d, handle, io_error) act"
  os_create_new :: "string \<Rightarrow> ('d, handle, io_error) act"
  os_unlink :: "string \<Rightarrow> ('d, unit, io_error) act"
  os_metadata :: "handle \<Rightarrow> ('d, file_metadata, io_error) act"
  os_read_at :: "handle \<Rightarrow> nat \<Rightarrow> u64 \<Rightarrow> ('d, bytes, io_error) act"
  os_write_at :: "handle \<Rightarrow> bytes \<Rightarrow> u64 \<Rightarrow> ('d, nat, io_error) act"
  os_sync_file :: "handle \<Rightarrow> ('d, unit, io_error) act"
  os_sync_directory :: "('d, unit, io_error) act"
  os_set_len :: "handle \<Rightarrow> u64 \<Rightarrow> ('d, unit, io_error) act"

definition io_other :: "io_error" where
  "io_other = \<lparr>io_error_kind = IoOther, io_raw_os_error = None\<rparr>"

section \<open>Errors\<close>

definition EINTR_RETRY_LIMIT :: nat where "EINTR_RETRY_LIMIT = 8"
definition TRANSIENT_OPEN_RETRY_LIMIT :: nat where "TRANSIENT_OPEN_RETRY_LIMIT = 3"
definition EMFILE :: int where "EMFILE = 24"
definition ENFILE :: int where "ENFILE = 23"
definition ELOOP :: int where "ELOOP = 40"

definition file_read_io :: "u32 \<Rightarrow> u64 option \<Rightarrow> io_error \<Rightarrow> storage_error" where
  "file_read_io file_id offset error =
     (let kind = (if io_error_kind error \<in> {IoWouldBlock, IoInterrupted} then ResourceExhausted else Io)
      in (codec_error kind Op_Get ReadStage None
            (if kind = ResourceExhausted then RetrySameInstance else FixEnvironmentAndReopen))
           \<lparr>err_os_code := io_raw_os_error error, err_vlog_file_id := Some file_id,
            err_vlog_offset := offset\<rparr>)"

definition file_read_context :: "storage_error \<Rightarrow> u32 option \<Rightarrow> u64 option \<Rightarrow> storage_error" where
  "file_read_context error file_id offset =
     error\<lparr>err_operation := Op_Get, err_stage := ReadStage, err_outcome := None, err_state := None,
           err_vlog_file_id := file_id, err_vlog_offset := offset\<rparr>"

definition read_corruption :: "u32 \<Rightarrow> u64 option \<Rightarrow> storage_error" where
  "read_corruption file_id offset =
     (codec_error Corruption Op_Get ReadStage None RestoreOrRepair)
       \<lparr>err_vlog_file_id := Some file_id, err_vlog_offset := offset\<rparr>"

definition cache_internal_error :: storage_error where
  "cache_internal_error = codec_error StoragePoisoned Op_Get ReadStage None RestoreOrRepair"

definition directory_io :: "io_error \<Rightarrow> storage_error" where
  "directory_io error =
     (codec_error Io Op_Open Preflight None FixEnvironmentAndReopen)
       \<lparr>err_os_code := io_raw_os_error error\<rparr>"

definition classify_open_error :: "u32 \<Rightarrow> io_error \<Rightarrow> storage_error" where
  "classify_open_error file_id error =
     (if io_error_kind error = IoNotFound \<or> io_raw_os_error error = Some ELOOP
      then read_corruption file_id None
      else
        let kind = (if io_raw_os_error error \<in> {Some EMFILE, Some ENFILE}
                       \<or> io_error_kind error \<in> {IoWouldBlock, IoInterrupted}
                    then ResourceExhausted else Io);
            retry = (if kind = ResourceExhausted then RetrySameInstance else FixEnvironmentAndReopen)
        in (codec_error kind Op_Get ReadStage None retry)
             \<lparr>err_os_code := io_raw_os_error error, err_vlog_file_id := Some file_id\<rparr>)"

section \<open>File names\<close>

definition decimal_06 :: "nat \<Rightarrow> string" where
  "decimal_06 n = map (\<lambda>i. char_of (48 + n div 10 ^ i mod 10)) [5, 4, 3, 2, 1, 0]"

definition vlog_name :: "u32 \<Rightarrow> string" where
  "vlog_name file_id = ''D'' @ decimal_06 (unat file_id) @ ''.data''"

definition vlog_file_name :: "u32 \<Rightarrow> string res" where
  "vlog_file_name file_id =
     (if file_id > MAX_VLOG_FILE_ID then Err (read_corruption file_id None) else Ok (vlog_name file_id))"

definition vlog_file_name_c :: "u32 \<Rightarrow> (string, io_error) result" where
  "vlog_file_name_c file_id =
     (if file_id > MAX_VLOG_FILE_ID
      then Err \<lparr>io_error_kind = IoInvalidInput, io_raw_os_error = None\<rparr> else Ok (vlog_name file_id))"

section \<open>The shared state\<close>

record handle_cache =
  hc_handles :: "(u32, handle) mapping"
  hc_insertion_order :: "u32 list"

record 'd log_world =
  wd_disk :: 'd
  wd_catalog :: "(u32, file_identity) mapping"
  wd_cache :: handle_cache

type_synonym ('d, 'a) log_act = "('d log_world, 'a, storage_error) act"

definition on_disk :: "('d, 'a, 'e) act \<Rightarrow> ('d log_world, 'a, 'e) act" where
  "on_disk m w = (let (d, r) = m (wd_disk w) in (w\<lparr>wd_disk := d\<rparr>, r))"

section \<open>The directory\<close>

definition open_read_only :: "'d os_ops \<Rightarrow> u32 \<Rightarrow> ('d log_world, handle, io_error) act" where
  "open_read_only K file_id =
     act_bind (act_lift (vlog_file_name_c file_id)) (\<lambda>name. on_disk (os_open K name False))"

definition open_writable :: "'d os_ops \<Rightarrow> u32 \<Rightarrow> ('d log_world, handle, io_error) act" where
  "open_writable K file_id =
     act_bind (act_lift (vlog_file_name_c file_id)) (\<lambda>name. on_disk (os_open K name True))"

definition create_new :: "'d os_ops \<Rightarrow> u32 \<Rightarrow> ('d log_world, handle, io_error) act" where
  "create_new K file_id =
     act_bind (act_lift (vlog_file_name_c file_id)) (\<lambda>name. on_disk (os_create_new K name))"

definition remove_file :: "'d os_ops \<Rightarrow> u32 \<Rightarrow> ('d log_world, unit, io_error) act" where
  "remove_file K file_id =
     act_bind (act_lift (vlog_file_name_c file_id)) (\<lambda>name. on_disk (os_unlink K name))"

definition remove_file_for_destroy :: "'d os_ops \<Rightarrow> u32 \<Rightarrow> ('d log_world, unit, io_error) act" where
  "remove_file_for_destroy K file_id =
     act_bind (act_lift (vlog_file_name_c file_id)) (\<lambda>name. on_disk (os_unlink K name))"

definition directory_sync :: "'d os_ops \<Rightarrow> ('d log_world, unit, io_error) act" where
  "directory_sync K = on_disk (os_sync_directory K)"

section \<open>The catalog\<close>

definition catalog_identity :: "u32 \<Rightarrow> ('d, file_identity) log_act" where
  "catalog_identity file_id w =
     (w, ok_or (Mapping.lookup (wd_catalog w) file_id) (read_corruption file_id None))"

definition catalog_register :: "'d os_ops \<Rightarrow> u32 \<Rightarrow> handle \<Rightarrow> ('d, unit) log_act" where
  "catalog_register K file_id file =
     (if file_id > MAX_VLOG_FILE_ID then act_fail (read_corruption file_id None)
      else act_bind (act_map_err (file_read_io file_id None) (on_disk (os_metadata K file))) (\<lambda>metadata.
        if \<not> md_is_file metadata then act_fail (read_corruption file_id None)
        else (\<lambda>w.
          let identity = md_identity metadata in
          if (case Mapping.lookup (wd_catalog w) file_id of
                Some current \<Rightarrow> current \<noteq> identity | None \<Rightarrow> False)
          then (w, Err (read_corruption file_id None))
          else (w\<lparr>wd_catalog := Mapping.update file_id identity (wd_catalog w)\<rparr>, Ok ()))))"

definition catalog_unregister :: "u32 \<Rightarrow> ('d, unit) log_act" where
  "catalog_unregister file_id w =
     (w\<lparr>wd_catalog := Mapping.delete file_id (wd_catalog w)\<rparr>, Ok ())"

definition catalog_verify :: "'d os_ops \<Rightarrow> u32 \<Rightarrow> handle \<Rightarrow> ('d, unit) log_act" where
  "catalog_verify K file_id file =
     act_bind (catalog_identity file_id) (\<lambda>expected.
     act_bind (act_map_err (file_read_io file_id None) (on_disk (os_metadata K file))) (\<lambda>metadata.
       if \<not> md_is_file metadata \<or> md_identity metadata \<noteq> expected
       then act_fail (read_corruption file_id None) else act_return ()))"

definition catalog_file_ids :: "('d, u32 list) log_act" where
  "catalog_file_ids w = (w, Ok (Mapping.ordered_keys (wd_catalog w)))"

section \<open>The handle cache\<close>

definition cache_empty :: handle_cache where
  "cache_empty = \<lparr>hc_handles = Mapping.empty, hc_insertion_order = []\<rparr>"

definition cache_hit :: "u32 \<Rightarrow> handle_cache \<Rightarrow> handle option" where
  "cache_hit file_id c = Mapping.lookup (hc_handles c) file_id"

definition cache_insert_or_get ::
  "nat \<Rightarrow> u32 \<Rightarrow> handle \<Rightarrow> handle_cache \<Rightarrow> handle_cache \<times> handle res" where
  "cache_insert_or_get capacity file_id candidate c =
     (if capacity = 0 then (c, Ok candidate)
      else case Mapping.lookup (hc_handles c) file_id of
        Some existing \<Rightarrow> (c, Ok existing)
      | None \<Rightarrow>
          let insert = (\<lambda>c. \<lparr>hc_handles = Mapping.update file_id candidate (hc_handles c),
                            hc_insertion_order = hc_insertion_order c @ [file_id]\<rparr>)
          in if Mapping.size (hc_handles c) = capacity
             then (case hc_insertion_order c of
                     [] \<Rightarrow> (c, Err cache_internal_error)
                   | oldest # order \<Rightarrow>
                       (insert \<lparr>hc_handles = Mapping.delete oldest (hc_handles c),
                               hc_insertion_order = order\<rparr>, Ok candidate))
             else (insert c, Ok candidate))"

definition cache_remove :: "u32 \<Rightarrow> handle_cache \<Rightarrow> handle_cache" where
  "cache_remove file_id c =
     \<lparr>hc_handles = Mapping.delete file_id (hc_handles c),
      hc_insertion_order = filter (\<lambda>current. current \<noteq> file_id) (hc_insertion_order c)\<rparr>"

section \<open>Positioned reads\<close>

text \<open>
  \<open>got\<close> is what has been read so far and \<open>want\<close> how many bytes the rest of the buffer holds.
\<close>

function (sequential) read_exact_at_impl ::
  "(nat \<Rightarrow> u64 \<Rightarrow> ('s, bytes, io_error) act) \<Rightarrow> u32 \<Rightarrow> bytes \<Rightarrow> nat \<Rightarrow> u64 \<Rightarrow> nat \<Rightarrow> nat \<Rightarrow>
   ('s, bytes, storage_error) act" where
  "read_exact_at_impl read_at file_id got 0 offset interrupted transient s = (s, Ok got)"
| "read_exact_at_impl read_at file_id got want offset interrupted transient s =
     (case read_at want offset s of
        (s, Ok []) \<Rightarrow> (s, Err (read_corruption file_id (Some offset)))
      | (s, Ok data) \<Rightarrow>
          (case u64_try_from (length data) of
             None \<Rightarrow> (s, Err (read_corruption file_id (Some offset)))
           | Some read \<Rightarrow>
               (case checked_add offset read of
                  None \<Rightarrow> (s, Err (read_corruption file_id (Some offset)))
                | Some offset \<Rightarrow>
                    if length data > want then (s, Err (read_corruption file_id (Some offset)))
                    else read_exact_at_impl read_at file_id (got @ data) (want - length data) offset 0 0 s))
      | (s, Err error) \<Rightarrow>
          if io_error_kind error = IoInterrupted \<and> interrupted < EINTR_RETRY_LIMIT
          then read_exact_at_impl read_at file_id got want offset (Suc interrupted) transient s
          else if io_error_kind error = IoWouldBlock \<and> transient < TRANSIENT_OPEN_RETRY_LIMIT
          then read_exact_at_impl read_at file_id got want offset interrupted (Suc transient) s
          else (s, Err (file_read_io file_id (Some offset) error)))"
  by pat_completeness auto

termination
  by (relation "measures [\<lambda>(r, f, g, want, off, i, t, s). want,
       \<lambda>(r, f, g, want, off, i, t, s). (EINTR_RETRY_LIMIT - i) + (TRANSIENT_OPEN_RETRY_LIMIT - t)]") auto

definition read_exact_at :: "'d os_ops \<Rightarrow> handle \<Rightarrow> nat \<Rightarrow> u64 \<Rightarrow> u32 \<Rightarrow> ('d, bytes) log_act" where
  "read_exact_at K file len offset file_id =
     read_exact_at_impl (\<lambda>n off. on_disk (os_read_at K file n off)) file_id [] len offset 0 0"

section \<open>The file set\<close>

record file_set =
  fs_database_uuid :: uuid
  fs_geometry :: vlog_geometry
  fs_capacity :: nat

definition FileSet_new :: "uuid \<Rightarrow> vlog_geometry \<Rightarrow> nat \<Rightarrow> file_set res" where
  "FileSet_new database_uuid geometry capacity =
     (if database_uuid = 0 then Err (read_corruption 0 None)
      else and_then (map_err (\<lambda>error. file_read_context error None None) (LayoutPlanner_empty geometry)) (\<lambda>_.
        Ok \<lparr>fs_database_uuid = database_uuid, fs_geometry = geometry, fs_capacity = capacity\<rparr>))"

definition cache_clear :: "('d, unit) log_act" where
  "cache_clear w = (w\<lparr>wd_cache := cache_empty\<rparr>, Ok ())"

definition FileSet_evict :: "u32 \<Rightarrow> ('d, unit) log_act" where
  "FileSet_evict file_id w = (w\<lparr>wd_cache := cache_remove file_id (wd_cache w)\<rparr>, Ok ())"

definition FileSet_clear :: "('d, unit) log_act" where
  "FileSet_clear = cache_clear"

definition validate_candidate ::
  "env \<Rightarrow> 'd os_ops \<Rightarrow> file_set \<Rightarrow> u32 \<Rightarrow> file_identity \<Rightarrow> handle \<Rightarrow> ('d, unit) log_act" where
  "validate_candidate E K fs file_id expected file =
     act_bind (act_map_err (file_read_io file_id None) (on_disk (os_metadata K file))) (\<lambda>metadata.
     if \<not> md_is_file metadata \<or> md_identity metadata \<noteq> expected
        \<or> md_len metadata > max_file_size (fs_geometry fs)
     then act_fail (read_corruption file_id None)
     else
       act_bind (read_exact_at K file FILE_HEADER_ENCODED_LEN (word_of_nat PAGE_HEADER_ENCODED_LEN) file_id)
         (\<lambda>encoded_header.
       act_bind (act_lift (map_err
           (\<lambda>error. file_read_context error (Some file_id) (Some (word_of_nat PAGE_HEADER_ENCODED_LEN)))
           (VLogFileHeader_decode E encoded_header))) (\<lambda>file_header.
         if fh_file_id file_header \<noteq> file_id \<or> fh_database_uuid file_header \<noteq> fs_database_uuid fs
            \<or> ucast (fh_page_size file_header) \<noteq> VLOG_PAGE_SIZE
            \<or> fh_max_file_size file_header \<noteq> MAX_VLOG_FILE_SIZE
         then act_fail (read_corruption file_id None) else act_return ())))"

function open_candidate ::
  "env \<Rightarrow> 'd os_ops \<Rightarrow> file_set \<Rightarrow> u32 \<Rightarrow> file_identity \<Rightarrow> bool \<Rightarrow> nat \<Rightarrow> nat \<Rightarrow> ('d, handle) log_act" where
  "open_candidate E K fs file_id expected emfile_retried interrupted transient w =
     (case open_read_only K file_id w of
        (w, Ok file) \<Rightarrow>
          act_bind (validate_candidate E K fs file_id expected file) (\<lambda>_. act_return file) w
      | (w, Err error) \<Rightarrow>
          if io_raw_os_error error = Some EMFILE \<and> \<not> emfile_retried
          then open_candidate E K fs file_id expected True interrupted transient
                 (w\<lparr>wd_cache := cache_empty\<rparr>)
          else if io_error_kind error = IoInterrupted \<and> interrupted < EINTR_RETRY_LIMIT
          then open_candidate E K fs file_id expected emfile_retried (Suc interrupted) transient w
          else if io_error_kind error = IoWouldBlock \<and> transient < TRANSIENT_OPEN_RETRY_LIMIT
          then open_candidate E K fs file_id expected emfile_retried interrupted (Suc transient) w
          else if io_raw_os_error error = Some ENFILE \<and> transient < TRANSIENT_OPEN_RETRY_LIMIT
          then open_candidate E K fs file_id expected emfile_retried interrupted (Suc transient) w
          else (w, Err (classify_open_error file_id error)))"
  by pat_completeness auto

termination
  by (relation "measure (\<lambda>(E, K, fs, f, x, em, i, t, w). (if em then 0 else 1) + (EINTR_RETRY_LIMIT - i)
      + (TRANSIENT_OPEN_RETRY_LIMIT - t))") auto

definition FileSet_handle :: "env \<Rightarrow> 'd os_ops \<Rightarrow> file_set \<Rightarrow> u32 \<Rightarrow> ('d, handle) log_act" where
  "FileSet_handle E K fs file_id =
     act_bind (catalog_identity file_id) (\<lambda>expected_identity w.
       case cache_hit file_id (wd_cache w) of
         Some h \<Rightarrow> (w, Ok h)
       | None \<Rightarrow>
           act_bind (open_candidate E K fs file_id expected_identity False 0 0) (\<lambda>candidate w.
             let (c, r) = cache_insert_or_get (fs_capacity fs) file_id candidate (wd_cache w)
             in (w\<lparr>wd_cache := c\<rparr>, r)) w)"

lemma on_disk_eq: "on_disk m w = (w', r) \<longleftrightarrow> (\<exists>d. m (wd_disk w) = (d, r) \<and> w' = w\<lparr>wd_disk := d\<rparr>)"
  by (auto simp: on_disk_def Let_def split: prod.splits)

definition named_call ::
  "(string \<Rightarrow> ('d, 'a, io_error) act) \<Rightarrow> u32 \<Rightarrow> 'd log_world \<Rightarrow> 'd log_world \<Rightarrow> ('a, io_error) result \<Rightarrow> bool" where
  "named_call m file_id w w' r \<longleftrightarrow>
     (if file_id > MAX_VLOG_FILE_ID
      then w' = w \<and> r = Err \<lparr>io_error_kind = IoInvalidInput, io_raw_os_error = None\<rparr>
      else \<exists>d. m (vlog_name file_id) (wd_disk w) = (d, r) \<and> w' = w\<lparr>wd_disk := d\<rparr>)"

lemma directory_calls:
  "open_read_only K f w = (w', h) \<longleftrightarrow> named_call (\<lambda>n. os_open K n False) f w w' h"
  "open_writable K f w = (w', h) \<longleftrightarrow> named_call (\<lambda>n. os_open K n True) f w w' h"
  "create_new K f w = (w', h) \<longleftrightarrow> named_call (os_create_new K) f w w' h"
  "remove_file K f w = (w', u) \<longleftrightarrow> named_call (os_unlink K) f w w' u"
  by (auto simp: open_read_only_def open_writable_def create_new_def remove_file_def vlog_file_name_c_def
      act_bind_def act_lift_def on_disk_eq named_call_def)

declare read_exact_at_impl.simps [simp del] open_candidate.simps [simp del]

section \<open>What the code relies on\<close>

text \<open>
  A directory as its users see it: what each file holds, which name leads to which file, and what
  would survive a power failure (the bytes of a file, the entry of a name).
\<close>

record disk_view =
  dv_content :: "handle \<Rightarrow> bytes"
  dv_entry :: "string \<Rightarrow> handle option"
  dv_synced :: "handle \<Rightarrow> bool"
  dv_synced_entry :: "string \<Rightarrow> bool"

definition overwrite :: "bytes \<Rightarrow> nat \<Rightarrow> bytes \<Rightarrow> bytes" where
  "overwrite old off new =
     take off old @ replicate (off - length old) 0 @ new @ drop (off + length new) old"

lemma overwrite_at_end [simp]: "off = length old \<Longrightarrow> overwrite old off new = old @ new"
  by (simp add: overwrite_def)

text \<open>Nothing that was stable becomes unstable, apart from the file \<open>h\<close> and the name \<open>n\<close>.\<close>

definition stays_synced :: "handle set \<Rightarrow> string set \<Rightarrow> disk_view \<Rightarrow> disk_view \<Rightarrow> bool" where
  "stays_synced H N v v' \<longleftrightarrow>
     (\<forall>h. h \<notin> H \<longrightarrow> dv_synced v h \<longrightarrow> dv_synced v' h)
     \<and> (\<forall>n. n \<notin> N \<longrightarrow> dv_synced_entry v n \<longrightarrow> dv_synced_entry v' n)"

definition same_files :: "disk_view \<Rightarrow> disk_view \<Rightarrow> bool" where
  "same_files v v' \<longleftrightarrow> dv_content v' = dv_content v \<and> dv_entry v' = dv_entry v"

locale log_disk =
  fixes K :: "'d os_ops" and view :: "'d \<Rightarrow> disk_view" and ident :: "handle \<Rightarrow> file_identity"
  assumes open_ok: "os_open K nm wr d = (d', Ok h) \<Longrightarrow> dv_entry (view d) nm = Some h"
    and open_keeps: "os_open K nm wr d = (d', r) \<Longrightarrow> view d' = view d"
    and metadata_ok: "os_metadata K h d = (d', Ok m) \<Longrightarrow>
      md_identity m = ident h \<and> unat (md_len m) = length (dv_content (view d) h)"
    and metadata_keeps: "os_metadata K h d = (d', x) \<Longrightarrow> view d' = view d"
    and read_ok: "os_read_at K h n off d = (d', Ok data) \<Longrightarrow>
      \<exists>k \<le> n. data = take k (drop (unat off) (dv_content (view d) h))"
    and read_keeps: "os_read_at K h n off d = (d', y) \<Longrightarrow> view d' = view d"
    and create_ok: "os_create_new K nm d = (d', Ok h) \<Longrightarrow>
      dv_entry (view d) nm = None \<and> h \<notin> ran (dv_entry (view d))
      \<and> dv_entry (view d') = (dv_entry (view d))(nm \<mapsto> h)
      \<and> dv_content (view d') = (dv_content (view d))(h := [])
      \<and> stays_synced {h} {nm} (view d) (view d')"
    and create_err: "os_create_new K nm d = (d', Err e) \<Longrightarrow>
      same_files (view d) (view d') \<and> stays_synced {} {} (view d) (view d')"
    and write_ok: "os_write_at K h bs off d = (d', Ok k) \<Longrightarrow>
      k \<le> length bs \<and> dv_entry (view d') = dv_entry (view d)
      \<and> dv_content (view d') = (dv_content (view d))
          (h := overwrite (dv_content (view d) h) (unat off) (take k bs))
      \<and> stays_synced (if k = 0 then {} else {h}) {} (view d) (view d')"
    and write_err: "os_write_at K h bs off d = (d', Err e) \<Longrightarrow>
      same_files (view d) (view d') \<and> stays_synced {} {} (view d) (view d')"
    and sync_file_keeps: "os_sync_file K h d = (d', z) \<Longrightarrow>
      same_files (view d) (view d') \<and> stays_synced {h} {} (view d) (view d')"
    and sync_file_ok: "os_sync_file K h d = (d', Ok ()) \<Longrightarrow> dv_synced (view d') h"
    and sync_directory_keeps: "os_sync_directory K d = (d', z) \<Longrightarrow>
      same_files (view d) (view d') \<and> stays_synced {} {} (view d) (view d')"
    and sync_directory_ok: "os_sync_directory K d = (d', Ok ()) \<Longrightarrow> dv_synced_entry (view d') nm"
    and unlink_ok: "os_unlink K nm d = (d', Ok ()) \<Longrightarrow>
      dv_entry (view d') = (dv_entry (view d))(nm := None) \<and> dv_content (view d') = dv_content (view d)
      \<and> stays_synced {} {nm} (view d) (view d')"
    and unlink_err: "os_unlink K nm d = (d', Err e) \<Longrightarrow>
      same_files (view d) (view d') \<and> stays_synced {} {nm} (view d) (view d')"
    and set_len_ok: "os_set_len K h len d = (d', Ok ()) \<Longrightarrow>
      unat len \<le> length (dv_content (view d) h) \<Longrightarrow>
      dv_entry (view d') = dv_entry (view d)
      \<and> dv_content (view d') = (dv_content (view d))(h := take (unat len) (dv_content (view d) h))
      \<and> stays_synced {h} {} (view d) (view d')"
    and set_len_err: "os_set_len K h len d = (d', Err e) \<Longrightarrow>
      same_files (view d) (view d') \<and> stays_synced {h} {} (view d) (view d')"
begin

abbreviation wview :: "'d log_world \<Rightarrow> disk_view" where
  "wview w \<equiv> view (wd_disk w)"

lemma open_writable_ok:
  assumes "open_writable K f w = (w', Ok h)"
  shows "wd_catalog w' = wd_catalog w" "wd_cache w' = wd_cache w" "wview w' = wview w"
    "dv_entry (wview w) (vlog_name f) = Some h" "f \<le> MAX_VLOG_FILE_ID"
  using assms open_ok open_keeps by (auto simp: directory_calls named_call_def split: if_splits)

lemma open_keeps_world:
  "open_writable K f w = (w', r) \<Longrightarrow> wview w' = wview w \<and> wd_catalog w' = wd_catalog w \<and> wd_cache w' = wd_cache w"
  "open_read_only K f w = (w', r) \<Longrightarrow> wview w' = wview w \<and> wd_catalog w' = wd_catalog w \<and> wd_cache w' = wd_cache w"
  using open_keeps by (cases r; fastforce simp: directory_calls named_call_def split: if_splits)+

lemma read_exact_keeps:
  assumes "read_exact_at_impl (\<lambda>n off. on_disk (os_read_at K h n off)) f got want off i t w = (w', r)"
  shows "wview w' = wview w \<and> wd_catalog w' = wd_catalog w \<and> wd_cache w' = wd_cache w"
  using assms
proof (induction "\<lambda>n off. on_disk (os_read_at K h n off) :: ('d log_world, bytes, io_error) act" f got want off i t w
    arbitrary: w' r rule: read_exact_at_impl.induct)
  case (1 f got off i t w)
  then show ?case by (simp add: read_exact_at_impl.simps)
next
  case (2 f got n off i t w)
  obtain d x where e: "os_read_at K h (Suc n) off (wd_disk w) = (d, x)"
    by (cases "os_read_at K h (Suc n) off (wd_disk w)")
  have o: "on_disk (os_read_at K h (Suc n) off) w = (w\<lparr>wd_disk := d\<rparr>, x)" using e by (simp add: on_disk_def)
  note k = read_keeps [OF e]
  show ?case
  proof (cases x)
    case (Ok data)
    then show ?thesis
      using "2.prems" k "2.hyps"(1) [OF o [symmetric]] o
      by (auto simp: read_exact_at_impl.simps split: list.splits option.splits if_splits)
  next
    case (Err er)
    then show ?thesis
      using "2.prems" k "2.hyps"(2,3) [OF o [symmetric]] o
      by (auto simp: read_exact_at_impl.simps split: if_splits)
  qed
qed

lemma read_exact_data:
  assumes "read_exact_at_impl (\<lambda>n off. on_disk (os_read_at K h n off)) f got want off i t w = (w', Ok data)"
    and "unat off + want < 2 ^ 64"
  shows "data = got @ take want (drop (unat off) (dv_content (wview w) h)) \<and> length data = length got + want"
  using assms
proof (induction "\<lambda>n off. on_disk (os_read_at K h n off) :: ('d log_world, bytes, io_error) act" f got want off i t w
    arbitrary: w' data rule: read_exact_at_impl.induct)
  case (1 f got off i t w)
  then show ?case by (simp add: read_exact_at_impl.simps)
next
  case (2 f got n off i t w)
  obtain d x where e: "os_read_at K h (Suc n) off (wd_disk w) = (d, x)"
    by (cases "os_read_at K h (Suc n) off (wd_disk w)")
  have o: "on_disk (os_read_at K h (Suc n) off) w = (w\<lparr>wd_disk := d\<rparr>, x)" using e by (simp add: on_disk_def)
  note k = read_keeps [OF e]
  then have same: "wview (w\<lparr>wd_disk := d\<rparr>) = wview w" by simp
  show ?case
  proof (cases x)
    case (Ok part)
    with read_ok [of h "Suc n" off "wd_disk w" d part] e
    obtain m where m: "m \<le> Suc n" "part = take m (drop (unat off) (dv_content (wview w) h))" by auto
    from "2.prems"(1) o Ok have ne: "part \<noteq> []" and le: "length part \<le> Suc n"
      by (auto simp: read_exact_at_impl.simps split: list.splits option.splits if_splits)
    have "length part < 2 ^ 64" using le "2.prems"(2) by linarith
    then have len: "u64_try_from (length part) = Some (word_of_nat (length part))"
      and u: "unat (word_of_nat (length part) :: u64) = length part"
      by (simp_all add: u64_try_from_def unat_of_nat_small)
    then have add: "checked_add off (word_of_nat (length part)) = Some (off + word_of_nat (length part))"
      "unat (off + word_of_nat (length part)) = unat off + length part"
      using le "2.prems"(2) by (simp_all add: checked_add_Some unat_add_no_overflow)
    have rec: "read_exact_at_impl (\<lambda>n off. on_disk (os_read_at K h n off)) f (got @ part) (Suc n - length part)
        (off + word_of_nat (length part)) 0 0 (w\<lparr>wd_disk := d\<rparr>) = (w', Ok data)"
      using "2.prems"(1) o Ok ne le len add
      by (cases part) (simp_all add: read_exact_at_impl.simps)
    obtain b part' where p: "part = b # part'" using ne by (cases part) auto
    have "data = (got @ b # part') @ take (Suc n - length (b # part'))
          (drop (unat (off + word_of_nat (length part))) (dv_content (wview (w\<lparr>wd_disk := d\<rparr>)) h))
        \<and> length data = length (got @ b # part') + (Suc n - length (b # part'))"
    proof (rule "2.hyps"(1) [OF o [symmetric] Ok p])
      show "u64_try_from (length (b # part')) = Some (word_of_nat (length part))"
        "checked_add off (word_of_nat (length part)) = Some (off + word_of_nat (length part))"
        "\<not> Suc n < length (b # part')" using len add(1) le p by simp_all
      show "read_exact_at_impl (\<lambda>n off. on_disk (os_read_at K h n off)) f (got @ b # part')
          (Suc n - length (b # part')) (off + word_of_nat (length part)) 0 0 (w\<lparr>wd_disk := d\<rparr>) = (w', Ok data)"
        using rec unfolding p .
      show "unat (off + word_of_nat (length part)) + (Suc n - length (b # part')) < 2 ^ 64"
        using add(2) le "2.prems"(2) p by simp
    qed
    then have D: "data = (got @ part) @ take (Suc n - length part) (drop (unat off + length part) (dv_content (wview w) h))
        \<and> length data = length (got @ part) + (Suc n - length part)"
      unfolding add(2) p [symmetric] same .
    have T: "part @ take (Suc n - length part) (drop (unat off + length part) (dv_content (wview w) h))
        = take (Suc n) (drop (unat off) (dv_content (wview w) h))"
    proof -
      let ?c = "drop (unat off) (dv_content (wview w) h)"
      have "part = take (length part) ?c" using m by (simp add: min_def)
      moreover have "drop (unat off + length part) (dv_content (wview w) h) = drop (length part) ?c"
        by (simp add: add.commute)
      ultimately show ?thesis using le
        by (metis le_add_diff_inverse take_add)
    qed
    have "length data = length (got @ part) + (Suc n - length part)" using D by (rule conjunct2)
    then have "length data = length got + Suc n" using le by (simp only: length_append)
    moreover from D have "data = got @ take (Suc n) (drop (unat off) (dv_content (wview w) h))"
      unfolding append_assoc T by (rule conjunct1)
    ultimately show ?thesis by (rule conjI [rotated])
  next
    case (Err er)
    show ?thesis
    proof (cases "io_error_kind er = IoInterrupted \<and> i < EINTR_RETRY_LIMIT")
      case True
      then have "read_exact_at_impl (\<lambda>n off. on_disk (os_read_at K h n off)) f got (Suc n) off (Suc i) t
          (w\<lparr>wd_disk := d\<rparr>) = (w', Ok data)"
        using "2.prems"(1) o Err by (simp add: read_exact_at_impl.simps)
      from "2.hyps"(2) [OF o [symmetric] Err True this "2.prems"(2)] show ?thesis unfolding same .
    next
      case no: False
      then have tr: "io_error_kind er = IoWouldBlock \<and> t < TRANSIENT_OPEN_RETRY_LIMIT"
        and "read_exact_at_impl (\<lambda>n off. on_disk (os_read_at K h n off)) f got (Suc n) off i (Suc t)
          (w\<lparr>wd_disk := d\<rparr>) = (w', Ok data)"
        using "2.prems"(1) o Err by (auto simp: read_exact_at_impl.simps split: if_splits)
      from "2.hyps"(3) [OF o [symmetric] Err no tr this(2) "2.prems"(2)] show ?thesis unfolding same .
    qed
  qed
qed

lemma read_exact_at_data:
  assumes "read_exact_at K h len off f w = (w', Ok data)" and "unat off + len < 2 ^ 64"
  shows "data = take len (drop (unat off) (dv_content (wview w) h)) \<and> length data = len"
  using read_exact_data [OF assms(1) [unfolded read_exact_at_def] assms(2)] unfolding append_Nil list.size add_0 .

end

section \<open>Names\<close>

lemma decimal_06_inj:
  assumes "decimal_06 m = decimal_06 n" and "m < 10 ^ 6" and "n < 10 ^ 6"
  shows "m = n"
proof -
  define digit where "digit k i = 48 + k div 10 ^ i mod 10" for k i :: nat
  have small: "digit k i mod 256 = digit k i" for k i
  proof -
    have "k div 10 ^ i mod 10 < 10" by (rule mod_less_divisor) simp
    then have "digit k i < 256" unfolding digit_def by linarith
    then show ?thesis by (rule mod_less)
  qed
  have "\<forall>i \<in> set [5, 4, 3, 2, 1, 0]. char_of (digit m i) = (char_of (digit n i) :: char)"
    using assms(1) unfolding decimal_06_def digit_def [symmetric] map_eq_conv .
  then have same: "digit m i = digit n i" if "i \<in> set [5, 4, 3, 2, 1, 0]" for i
    using that small of_char_of [of "digit m i"] of_char_of [of "digit n i"] by metis
  have d: "m div p mod 10 = n div p mod 10" if "p = 10 ^ i" "i \<in> set [5, 4, 3, 2, 1, 0]" for p i
    using same [OF that(2)] unfolding digit_def that(1) by simp
  have up: "m div p = n div p"
    if "m div (p * 10) = n div (p * 10)" "m div p mod 10 = n div p mod 10" for p
  proof -
    have "k div p = 10 * (k div (p * 10)) + k div p mod 10" for k :: nat
      by (simp add: div_mult2_eq)
    from this [of m] this [of n] that show ?thesis by simp
  qed
  have "m div (100000 * 10) = n div (100000 * 10)" using assms(2,3) by simp
  from up [OF this d [of _ 5]] have "m div (10000 * 10) = n div (10000 * 10)" by simp
  from up [OF this d [of _ 4]] have "m div (1000 * 10) = n div (1000 * 10)" by simp
  from up [OF this d [of _ 3]] have "m div (100 * 10) = n div (100 * 10)" by simp
  from up [OF this d [of _ 2]] have "m div (10 * 10) = n div (10 * 10)" by simp
  from up [OF this d [of _ 1]] have "m div (1 * 10) = n div (1 * 10)" by simp
  from up [OF this d [of _ 0]] show ?thesis by simp
qed

lemma MAX_VLOG_FILE_ID_nat: "unat MAX_VLOG_FILE_ID = 999999"
  by (simp add: MAX_VLOG_FILE_ID_def)

lemma vlog_name_inj:
  assumes "vlog_name f = vlog_name g" and "f \<le> MAX_VLOG_FILE_ID" and "g \<le> MAX_VLOG_FILE_ID"
  shows "f = g"
proof -
  have "decimal_06 (unat f) = decimal_06 (unat g)" using assms(1) by (simp add: vlog_name_def)
  moreover have "unat f < 10 ^ 6" "unat g < 10 ^ 6"
    using assms(2,3) MAX_VLOG_FILE_ID_nat by (simp_all add: word_le_nat_alt)
  ultimately show ?thesis using decimal_06_inj by (metis word_unat_eq_iff)
qed

section \<open>A disk in memory\<close>

text \<open>
  A directory that keeps the contract and fails as an arbitrary schedule says: call number \<open>t\<close>
  fails with \<open>fault t\<close> when that is an error, and otherwise transfers at most \<open>limit t\<close> bytes.
\<close>

record mem_disk =
  mk_clock :: nat
  mk_next :: handle
  mk_entries :: "(string \<times> handle) list"
  mk_content :: "handle \<Rightarrow> bytes"
  mk_synced :: "handle \<Rightarrow> bool"
  mk_synced_entry :: "string \<Rightarrow> bool"

definition mem_disk_view :: "mem_disk \<Rightarrow> disk_view" where
  "mem_disk_view d =
     \<lparr>dv_content = mk_content d,
      dv_entry = map_of (filter (\<lambda>(n, h). h < mk_next d) (mk_entries d)),
      dv_synced = mk_synced d, dv_synced_entry = mk_synced_entry d\<rparr>"

definition mem_ident :: "handle \<Rightarrow> file_identity" where
  "mem_ident h = \<lparr>fi_device = 1, fi_inode = word_of_nat h\<rparr>"

definition mem_call ::
  "(nat \<Rightarrow> io_error option) \<Rightarrow> (mem_disk, 'a, io_error) act \<Rightarrow> (mem_disk, 'a, io_error) act" where
  "mem_call fault m d =
     (let d' = d\<lparr>mk_clock := Suc (mk_clock d)\<rparr> in
      case fault (mk_clock d) of Some e \<Rightarrow> (d', Err e) | None \<Rightarrow> m d')"

definition mem_os :: "(nat \<Rightarrow> io_error option) \<Rightarrow> (nat \<Rightarrow> nat) \<Rightarrow> mem_disk os_ops" where
  "mem_os fault limit =
     \<lparr>os_open = (\<lambda>n wr. mem_call fault (\<lambda>d.
        (d, case dv_entry (mem_disk_view d) n of
              Some h \<Rightarrow> Ok h | None \<Rightarrow> Err \<lparr>io_error_kind = IoNotFound, io_raw_os_error = Some 2\<rparr>))),
      os_create_new = (\<lambda>n. mem_call fault (\<lambda>d.
        if dv_entry (mem_disk_view d) n \<noteq> None then (d, Err io_other)
        else let h = mk_next d in
          (d\<lparr>mk_next := Suc h, mk_entries := (n, h) # filter (\<lambda>(m, i). m \<noteq> n \<and> i < h) (mk_entries d),
             mk_content := (mk_content d)(h := []), mk_synced := (mk_synced d)(h := False),
             mk_synced_entry := (mk_synced_entry d)(n := False)\<rparr>, Ok h))),
      os_unlink = (\<lambda>n. mem_call fault (\<lambda>d.
        (d\<lparr>mk_entries := filter (\<lambda>(m, i). m \<noteq> n) (mk_entries d),
           mk_synced_entry := (mk_synced_entry d)(n := False)\<rparr>, Ok ()))),
      os_metadata = (\<lambda>h. mem_call fault (\<lambda>d.
        (d, if length (mk_content d h) < 2 ^ 64
            then Ok \<lparr>md_is_file = True, md_identity = mem_ident h, md_len = word_of_nat (length (mk_content d h))\<rparr>
            else Err io_other))),
      os_read_at = (\<lambda>h n off. mem_call fault (\<lambda>d.
        (d, Ok (take (min n (limit (mk_clock d))) (drop (unat off) (mk_content d h)))))),
      os_write_at = (\<lambda>h bs off. mem_call fault (\<lambda>d.
        let k = min (length bs) (limit (mk_clock d)) in
        (d\<lparr>mk_content := (mk_content d)(h := overwrite (mk_content d h) (unat off) (take k bs)),
           mk_synced := (if bs = [] \<or> limit (mk_clock d) = 0 then mk_synced d else (mk_synced d)(h := False))\<rparr>, Ok k))),
      os_sync_file = (\<lambda>h. mem_call fault (\<lambda>d. (d\<lparr>mk_synced := (mk_synced d)(h := True)\<rparr>, Ok ()))),
      os_sync_directory = mem_call fault (\<lambda>d. (d\<lparr>mk_synced_entry := (\<lambda>_. True)\<rparr>, Ok ())),
      os_set_len = (\<lambda>h len. mem_call fault (\<lambda>d.
        (d\<lparr>mk_content := (mk_content d)(h := take (unat len) (mk_content d h @ replicate (unat len - length (mk_content d h)) 0)),
           mk_synced := (mk_synced d)(h := False)\<rparr>, Ok ())))\<rparr>"

lemma mem_disk_view_clock [simp]: "mem_disk_view (d\<lparr>mk_clock := t\<rparr>) = mem_disk_view d"
  by (simp add: mem_disk_view_def)

lemma mem_call_eq:
  "mem_call fault m d = (d', r) \<longleftrightarrow>
     (\<exists>e. fault (mk_clock d) = Some e \<and> r = Err e \<and> d' = d\<lparr>mk_clock := Suc (mk_clock d)\<rparr>)
     \<or> fault (mk_clock d) = None \<and> m (d\<lparr>mk_clock := Suc (mk_clock d)\<rparr>) = (d', r)"
  by (auto simp: mem_call_def Let_def split: option.splits)

lemma same_filesI [simp]: "same_files v v" "stays_synced H N v v"
  by (simp_all add: same_files_def stays_synced_def)

lemma map_of_unlink:
  "map_of (filter (\<lambda>(m, i). i < (h :: nat)) (filter (\<lambda>(m, i). m \<noteq> n) xs))
     = (map_of (filter (\<lambda>(m, i). i < h) xs))(n := None)"
  by (induction xs) auto

lemma map_of_create_other:
  "k \<noteq> n \<Longrightarrow> map_of (filter (\<lambda>(m, i). m \<noteq> n \<and> i < h) xs) k = map_of (filter (\<lambda>(m, i). i < h) xs) k"
  by (induction xs) auto

lemma map_of_create:
  "(map_of (filter (\<lambda>(m, i). m \<noteq> n \<and> i < h) xs))(n \<mapsto> h) = (map_of (filter (\<lambda>(m, i). i < h) xs))(n \<mapsto> h)"
  using map_of_create_other [of _ n h xs] by (simp add: fun_eq_iff)

lemma map_of_fresh: "(h :: nat) \<notin> ran (map_of (filter (\<lambda>(m, i). i < h) xs))"
proof
  assume "h \<in> ran (map_of (filter (\<lambda>(m, i). i < h) xs))"
  then obtain n where "map_of (filter (\<lambda>(m, i). i < h) xs) n = Some h" by (auto simp: ran_def)
  from map_of_SomeD [OF this] show False by simp
qed

interpretation mem: log_disk "mem_os fault limit" mem_disk_view mem_ident
proof (unfold_locales, goal_cases)
  case (1 nm wr d d' h)
  then show ?case by (auto simp: mem_os_def mem_call_eq split: option.splits)
next
  case (2 nm wr d d' r)
  then show ?case by (auto simp: mem_os_def mem_call_eq split: option.splits)
next
  case (3 h d d' m)
  then show ?case
    by (auto simp: mem_os_def mem_call_eq mem_disk_view_def unat_of_nat_small split: option.splits if_splits)
next
  case (4 h d d' x)
  then show ?case by (auto simp: mem_os_def mem_call_eq split: option.splits)
next
  case (5 h n off d d' data)
  then show ?case
    by (auto simp: mem_os_def mem_call_eq mem_disk_view_def split: option.splits intro!: exI [of _ "min n _"])
next
  case (6 h n off d d' y)
  then show ?case by (auto simp: mem_os_def mem_call_eq split: option.splits)
next
  case (7 nm d d' h)
  then show ?case
    by (auto simp: mem_os_def mem_call_eq mem_disk_view_def Let_def map_of_create map_of_fresh stays_synced_def
        simp del: filter.simps split: option.splits if_splits)
next
  case (8 nm d d' e)
  then show ?case by (auto simp: mem_os_def mem_call_eq Let_def split: option.splits if_splits)
qed (auto simp: mem_os_def mem_call_eq mem_disk_view_def Let_def map_of_unlink stays_synced_def same_files_def
    min_def simp del: filter_filter split: option.splits if_splits)

end
