(* ===== verification/Writer.thy ===== *)
theory Writer
  imports VLogFiles EnvelopeScan
begin

text \<open>
  The value log writer (\<open>src/vlog/writer.rs\<close>): appending the chunks of a prepared envelope, rolling
  to a new file, synchronizing the files a frontier needs, and the two ends of a frontier. The
  writer and the shared state of \<open>VLogFiles\<close> are passed along as a pair.
\<close>

section \<open>Errors\<close>

definition EAGAIN_RETRY_LIMIT :: nat where "EAGAIN_RETRY_LIMIT = 3"

definition append_layout :: "u32 \<Rightarrow> u64 \<Rightarrow> storage_error" where
  "append_layout file_id offset =
     (codec_error InvalidLayout Op_WriteBatch VLogAppend (Some NotCommitted) RestoreOrRepair)
       \<lparr>err_vlog_file_id := Some file_id, err_vlog_offset := Some offset\<rparr>"

definition accepted_header_corruption :: "u32 \<Rightarrow> u64 \<Rightarrow> storage_error" where
  "accepted_header_corruption file_id offset =
     (codec_error Corruption Op_Open RecoveryStage None RestoreOrRepair)
       \<lparr>err_vlog_file_id := Some file_id, err_vlog_offset := Some offset\<rparr>"

definition writer_claim_busy :: storage_error where
  "writer_claim_busy = codec_error Busy Op_Open RecoveryStage None RetrySameInstance"

definition append_io :: "u64 \<Rightarrow> u32 \<Rightarrow> u64 \<Rightarrow> bool \<Rightarrow> io_error \<Rightarrow> storage_error" where
  "append_io commit_seq file_id offset physical_progress source =
     (let transient_without_progress =
            (\<not> physical_progress \<and> io_error_kind source \<in> {IoInterrupted, IoWouldBlock});
          kind = (if io_error_kind source = IoStorageFull then CapacityExceeded
                  else if transient_without_progress then ResourceExhausted else Io)
      in (codec_error kind Op_WriteBatch VLogAppend (Some NotCommitted)
            (if transient_without_progress then RetrySameInstance else FixEnvironmentAndReopen))
           \<lparr>err_os_code := io_raw_os_error source, err_commit_seq := Some commit_seq,
            err_vlog_file_id := Some file_id, err_vlog_offset := Some offset\<rparr>)"

definition open_io :: "u32 \<Rightarrow> u64 \<Rightarrow> io_error \<Rightarrow> storage_error" where
  "open_io file_id offset source =
     (let kind = (if io_error_kind source = IoNotFound \<or> io_raw_os_error source = Some ELOOP
                  then Corruption else Io)
      in (codec_error kind Op_Open RecoveryStage None
            (if kind = Corruption then RestoreOrRepair else FixEnvironmentAndReopen))
           \<lparr>err_os_code := io_raw_os_error source, err_vlog_file_id := Some file_id,
            err_vlog_offset := Some offset\<rparr>)"

definition open_context :: "storage_error \<Rightarrow> vlog_position option \<Rightarrow> storage_error" where
  "open_context error position =
     (let error = error\<lparr>err_operation := Op_Open, err_stage := RecoveryStage, err_outcome := None,
                        err_state := None\<rparr>
      in case position of
           Some p \<Rightarrow> error\<lparr>err_vlog_file_id := Some (pos_file_id p), err_vlog_offset := Some (pos_offset p)\<rparr>
         | None \<Rightarrow> error)"

definition append_context :: "storage_error \<Rightarrow> u64 \<Rightarrow> u32 \<Rightarrow> u64 \<Rightarrow> storage_error" where
  "append_context error commit_seq file_id offset =
     error\<lparr>err_operation := Op_WriteBatch, err_stage := VLogAppend, err_outcome := Some NotCommitted,
           err_state := None, err_commit_seq := Some commit_seq, err_vlog_file_id := Some file_id,
           err_vlog_offset := Some offset\<rparr>"

definition sync_context ::
  "storage_error \<Rightarrow> u64 \<Rightarrow> vlog_position option \<Rightarrow> u32 \<Rightarrow> storage_error" where
  "sync_context error target_seq target_end file_id =
     error\<lparr>err_operation := Op_Sync, err_stage := VLogSync, err_outcome := Some NotCommitted,
           err_state := None, err_commit_seq := Some target_seq, err_vlog_file_id := Some file_id,
           err_vlog_offset :=
             (case target_end of
                Some p \<Rightarrow> if pos_file_id p = file_id then Some (pos_offset p) else None
              | None \<Rightarrow> None)\<rparr>"

definition at_position :: "vlog_position option \<Rightarrow> storage_error \<Rightarrow> storage_error" where
  "at_position position error =
     (case position of
        Some p \<Rightarrow> error\<lparr>err_vlog_file_id := Some (pos_file_id p), err_vlog_offset := Some (pos_offset p)\<rparr>
      | None \<Rightarrow> error)"

definition writer_stopped :: "u64 \<Rightarrow> vlog_position \<Rightarrow> storage_error" where
  "writer_stopped commit_seq position =
     at_position (Some position)
       ((codec_error StorageWriteStopped Op_WriteBatch Admission (Some NotCommitted) FixEnvironmentAndReopen)
          \<lparr>err_commit_seq := Some commit_seq\<rparr>)"

definition writer_busy :: "u64 \<Rightarrow> vlog_position \<Rightarrow> storage_error" where
  "writer_busy commit_seq position =
     at_position (Some position)
       ((codec_error Busy Op_WriteBatch Admission (Some NotCommitted) RetrySameInstance)
          \<lparr>err_commit_seq := Some commit_seq\<rparr>)"

definition sync_stopped :: "u64 \<Rightarrow> vlog_position option \<Rightarrow> storage_error" where
  "sync_stopped target_seq target_end =
     at_position target_end
       ((codec_error StorageWriteStopped Op_Sync Admission (Some NotCommitted) FixEnvironmentAndReopen)
          \<lparr>err_commit_seq := Some target_seq\<rparr>)"

definition sync_state_error :: "u64 \<Rightarrow> vlog_position option \<Rightarrow> storage_error" where
  "sync_state_error target_seq target_end =
     at_position target_end
       ((codec_error InvalidArgument Op_Sync VLogSync (Some NotCommitted) DoNotRetry)
          \<lparr>err_commit_seq := Some target_seq\<rparr>)"

definition sync_file_io :: "u64 \<Rightarrow> u32 \<Rightarrow> u64 option \<Rightarrow> io_error \<Rightarrow> storage_error" where
  "sync_file_io target_seq file_id offset source =
     (codec_error Io Op_Sync VLogSync (Some NotCommitted) FixEnvironmentAndReopen)
       \<lparr>err_os_code := io_raw_os_error source, err_commit_seq := Some target_seq,
        err_vlog_file_id := Some file_id, err_vlog_offset := offset\<rparr>"

definition sync_directory_io :: "u64 \<Rightarrow> vlog_position option \<Rightarrow> io_error \<Rightarrow> storage_error" where
  "sync_directory_io target_seq target_end source =
     at_position target_end
       ((codec_error Io Op_Sync VLogSync (Some NotCommitted) FixEnvironmentAndReopen)
          \<lparr>err_os_code := io_raw_os_error source, err_commit_seq := Some target_seq\<rparr>)"

section \<open>The writer\<close>

datatype append_state = AS_Empty | AS_Open u32 u64 handle | AS_AtFileLimit u32

record frontier_sync =
  sy_id :: u64
  sy_target_seq :: u64
  sy_target_end :: "vlog_position option"
  sy_files :: "u32 set"
  sy_directory_entries :: "u32 set"

record vlog_writer =
  lw_database_uuid :: uuid
  lw_geometry :: vlog_geometry
  lw_state :: append_state
  lw_dirty_files :: "u32 set"
  lw_pending_entries :: "(u32, u64) mapping"
  lw_pending_sync_id :: "u64 option"
  lw_next_sync_id :: u64
  lw_append_failed :: bool
  lw_last_appended :: "(u64 \<times> vlog_position) option"

type_synonym ('d, 'a) writer_act = "(vlog_writer \<times> 'd log_world, 'a, storage_error) act"

definition on_log :: "('d log_world, 'a, 'e) act \<Rightarrow> (vlog_writer \<times> 'd log_world, 'a, 'e) act" where
  "on_log m s = (let (w, r) = m (snd s) in ((fst s, w), r))"

definition state_position :: "vlog_geometry \<Rightarrow> append_state \<Rightarrow> vlog_position" where
  "state_position g state =
     (case state of
        AS_Empty \<Rightarrow> VLogPosition 0 0
      | AS_Open file_id offset _ \<Rightarrow> VLogPosition file_id offset
      | AS_AtFileLimit last_file_id \<Rightarrow> VLogPosition last_file_id (max_file_size g))"

definition lw_position :: "vlog_writer \<Rightarrow> vlog_position" where
  "lw_position lw = state_position (lw_geometry lw) (lw_state lw)"

definition active_file_id :: "vlog_writer \<Rightarrow> u32 option" where
  "active_file_id lw = (case lw_state lw of AS_Open file_id _ _ \<Rightarrow> Some file_id | _ \<Rightarrow> None)"

definition u32_saturating_add :: "u32 \<Rightarrow> u32 \<Rightarrow> u32" where
  "u32_saturating_add a b = (case checked_add a b of Some c \<Rightarrow> c | None \<Rightarrow> -1)"

definition file_count :: "vlog_writer \<Rightarrow> u32" where
  "file_count lw =
     (case lw_state lw of
        AS_Empty \<Rightarrow> 0
      | AS_Open file_id _ _ \<Rightarrow> u32_saturating_add file_id 1
      | AS_AtFileLimit last_file_id \<Rightarrow> u32_saturating_add last_file_id 1)"

definition logical_bytes :: "vlog_writer \<Rightarrow> u64" where
  "logical_bytes lw =
     (let position = lw_position lw;
          full = unat (pos_file_id position) * unat (max_file_size (lw_geometry lw));
          full = (if full < 2 ^ 64 then word_of_nat full else -1 :: u64)
      in case checked_add full (pos_offset position) of Some n \<Rightarrow> n | None \<Rightarrow> -1)"

definition validate_writer_identity :: "uuid \<Rightarrow> vlog_geometry \<Rightarrow> unit res" where
  "validate_writer_identity database_uuid geometry =
     (if database_uuid = 0 then Err (append_layout 0 0)
      else and_then (LayoutPlanner_empty geometry) (\<lambda>_. Ok ()))"

definition writer_of :: "uuid \<Rightarrow> vlog_geometry \<Rightarrow> append_state \<Rightarrow> vlog_writer" where
  "writer_of database_uuid geometry state =
     \<lparr>lw_database_uuid = database_uuid, lw_geometry = geometry, lw_state = state, lw_dirty_files = {},
      lw_pending_entries = Mapping.empty, lw_pending_sync_id = None, lw_next_sync_id = 1,
      lw_append_failed = False, lw_last_appended = None\<rparr>"

text \<open>The process-wide set of directories a writer has been claimed for.\<close>

definition claim_directory :: "(u64 \<times> u64) \<Rightarrow> (u64 \<times> u64) set \<Rightarrow> (u64 \<times> u64) set \<times> unit res" where
  "claim_directory identity claims =
     (if identity \<in> claims then (claims, Err writer_claim_busy) else (insert identity claims, Ok ()))"

definition release_directory :: "(u64 \<times> u64) \<Rightarrow> (u64 \<times> u64) set \<Rightarrow> (u64 \<times> u64) set" where
  "release_directory identity claims = claims - {identity}"

section \<open>Writing\<close>

function (sequential) write_all_positioned ::
  "(bytes \<Rightarrow> u64 \<Rightarrow> ('s, nat, io_error) act) \<Rightarrow> bytes \<Rightarrow> u64 \<Rightarrow> u64 \<Rightarrow> nat \<Rightarrow> nat \<Rightarrow>
   ('s, u64, u64 \<times> io_error) act" where
  "write_all_positioned write_at [] start written interrupted transient s = (s, Ok written)"
| "write_all_positioned write_at bs start written interrupted transient s =
     (case checked_add start written of
        None \<Rightarrow> (s, Err (written, io_other))
      | Some offset \<Rightarrow>
          (case write_at bs offset s of
             (s, Ok count) \<Rightarrow>
               if count = 0
               then (s, Err (written, \<lparr>io_error_kind = IoWriteZero, io_raw_os_error = None\<rparr>))
               else if count \<le> length bs
               then (case checked_add written (word_of_nat count) of
                       None \<Rightarrow> (s, Err (written, io_other))
                     | Some written \<Rightarrow> write_all_positioned write_at (drop count bs) start written 0 0 s)
               else (s, Err (written, io_other))
           | (s, Err error) \<Rightarrow>
               if io_error_kind error = IoInterrupted \<and> interrupted < EINTR_RETRY_LIMIT
               then write_all_positioned write_at bs start written (Suc interrupted) transient s
               else if io_error_kind error = IoWouldBlock \<and> transient < EAGAIN_RETRY_LIMIT
               then write_all_positioned write_at bs start written interrupted (Suc transient) s
               else (s, Err (written, error))))"
  by pat_completeness auto

termination
  by (relation "measures [\<lambda>(w, bs, st, n, i, t, s). length bs,
       \<lambda>(w, bs, st, n, i, t, s). (EINTR_RETRY_LIMIT - i) + (EAGAIN_RETRY_LIMIT - t)]") auto

declare write_all_positioned.simps [simp del]

definition next_chunk_start :: "vlog_position \<Rightarrow> vlog_geometry \<Rightarrow> vlog_position res" where
  "next_chunk_start position g =
     (if pos_offset position < max_file_size g then Ok position
      else if pos_offset position \<noteq> max_file_size g \<or> pos_file_id position \<ge> max_file_id g
      then Err (append_layout (pos_file_id position) (pos_offset position))
      else and_then (ok_or (checked_add (pos_file_id position) 1)
                      (append_layout (pos_file_id position) (pos_offset position)))
             (\<lambda>file_id. Ok (VLogPosition file_id 0)))"

definition writer_chunk_end :: "physical_chunk \<Rightarrow> vlog_geometry \<Rightarrow> vlog_position res" where
  "writer_chunk_end chunk g =
     (let error = append_layout (pos_file_id (chunk_position chunk)) (pos_offset (chunk_position chunk)) in
      and_then (ok_or (u64_try_from (length (chunk_bytes chunk))) error) (\<lambda>len.
      and_then (ok_or (checked_add (pos_offset (chunk_position chunk)) len) error) (\<lambda>offset.
        if pos_file_id (chunk_position chunk) > max_file_id g \<or> offset > max_file_size g
        then Err error else Ok (VLogPosition (pos_file_id (chunk_position chunk)) offset))))"

definition validate_structural_chunk :: "env \<Rightarrow> vlog_writer \<Rightarrow> physical_chunk \<Rightarrow> unit res" where
  "validate_structural_chunk E lw chunk =
     (let p = chunk_position chunk; g = lw_geometry lw; bs = chunk_bytes chunk;
          error = append_layout (pos_file_id p) (pos_offset p) in
      if pos_offset p mod page_size g = 0 then
        if length bs \<noteq> PAGE_HEADER_ENCODED_LEN then Err error
        else
          and_then (map_err (\<lambda>_. error) (PageHeader_decode E bs)) (\<lambda>header.
          and_then (ok_or (u32_try_from (unat (pos_offset p div page_size g))) error) (\<lambda>page_no.
            if ph_file_id header \<noteq> pos_file_id p \<or> ph_page_no header \<noteq> page_no then Err error else Ok ()))
      else if pos_offset p = word_of_nat PAGE_HEADER_ENCODED_LEN then
        if length bs \<noteq> FILE_HEADER_ENCODED_LEN then Err error
        else
          and_then (map_err (\<lambda>_. error) (VLogFileHeader_decode E bs)) (\<lambda>header.
            if fh_file_id header \<noteq> pos_file_id p \<or> fh_database_uuid header \<noteq> lw_database_uuid lw
               \<or> ucast (fh_page_size header) \<noteq> VLOG_PAGE_SIZE
               \<or> fh_max_file_size header \<noteq> MAX_VLOG_FILE_SIZE
            then Err error else Ok ())
      else Ok ())"

fun validate_chunks ::
  "env \<Rightarrow> vlog_writer \<Rightarrow> vlog_position \<Rightarrow> physical_chunk list \<Rightarrow> vlog_position res" where
  "validate_chunks E lw expected [] = Ok expected"
| "validate_chunks E lw expected (chunk # chunks) =
     (if chunk_position chunk \<noteq> expected \<or> chunk_bytes chunk = []
      then Err (append_layout (pos_file_id (chunk_position chunk)) (pos_offset (chunk_position chunk)))
      else
        and_then (validate_structural_chunk E lw chunk) (\<lambda>_.
        and_then (writer_chunk_end chunk (lw_geometry lw)) (\<lambda>expected.
        and_then (if pos_offset expected = max_file_size (lw_geometry lw) \<and> chunks \<noteq> []
                  then next_chunk_start expected (lw_geometry lw) else Ok expected) (\<lambda>expected.
          validate_chunks E lw expected chunks))))"

definition validate_envelope_chunks :: "env \<Rightarrow> vlog_writer \<Rightarrow> prepared_envelope \<Rightarrow> unit res" where
  "validate_envelope_chunks E lw envelope =
     (if pe_commit_seq envelope = 0 \<or> pe_tx_uuid envelope = 0
         \<or> pe_vlog_begin envelope \<noteq> lw_position lw \<or> \<not> pe_vlog_begin envelope < pe_vlog_end envelope
         \<or> pe_chunks envelope = []
      then Err (append_layout (pos_file_id (pe_vlog_begin envelope)) (pos_offset (pe_vlog_begin envelope)))
      else
        and_then (next_chunk_start (pe_vlog_begin envelope) (lw_geometry lw)) (\<lambda>expected.
        and_then (validate_chunks E lw expected (pe_chunks envelope)) (\<lambda>expected.
          if expected \<noteq> pe_vlog_end envelope
          then Err (append_layout (pos_file_id expected) (pos_offset expected)) else Ok ())))"

definition ensure_file_for_chunk ::
  "'d os_ops \<Rightarrow> u64 \<Rightarrow> vlog_position \<Rightarrow> ('d, append_state option) writer_act" where
  "ensure_file_for_chunk K commit_seq position s =
     (let (lw, w) = s; error = append_layout (pos_file_id position) (pos_offset position);
          create = (\<lambda>file_id.
            if file_id \<noteq> pos_file_id position \<or> pos_offset position \<noteq> 0
               \<or> file_id > max_file_id (lw_geometry lw)
            then ((lw, w), Err error)
            else case create_new K file_id w of
                (w, Err e) \<Rightarrow> ((lw, w), Err (append_io commit_seq file_id 0 False e))
              | (w, Ok file) \<Rightarrow>
                  ((lw\<lparr>lw_pending_entries := Mapping.update file_id commit_seq (lw_pending_entries lw),
                       lw_state := AS_Open file_id 0 file\<rparr>, w), Ok (Some (lw_state lw))))
      in case lw_state lw of
           AS_Empty \<Rightarrow> create 0
         | AS_Open file_id offset _ \<Rightarrow>
             if file_id = pos_file_id position \<and> offset = pos_offset position
             then ((lw, w), Ok None) else ((lw, w), Err error)
         | AS_AtFileLimit last_file_id \<Rightarrow>
             (case checked_add last_file_id 1 of
                None \<Rightarrow> ((lw, w), Err error)
              | Some file_id \<Rightarrow> create file_id))"

definition rollback_new_empty_file ::
  "'d os_ops \<Rightarrow> u32 \<Rightarrow> append_state \<Rightarrow> (vlog_writer \<times> 'd log_world, unit, io_error) act" where
  "rollback_new_empty_file K file_id previous_state s =
     (let (lw, w) = s;
          remove = (\<lambda>w. case remove_file K file_id w of
              (w, Err e) \<Rightarrow> ((lw, w), Err e)
            | (w, Ok _) \<Rightarrow>
                ((lw\<lparr>lw_state := previous_state,
                     lw_pending_entries := Mapping.delete file_id (lw_pending_entries lw),
                     lw_dirty_files := lw_dirty_files lw - {file_id}\<rparr>, w), Ok ()))
      in case lw_state lw of
           AS_Open current_file_id offset file \<Rightarrow>
             if current_file_id = file_id \<and> offset = 0
             then (case on_disk (os_metadata K file) w of
                     (w, Err e) \<Rightarrow> ((lw, w), Err e)
                   | (w, Ok metadata) \<Rightarrow>
                       if md_len metadata = 0 then remove w else ((lw, w), Err io_other))
             else ((lw, w), Err io_other)
         | _ \<Rightarrow> ((lw, w), Err io_other))"

text \<open>
  Writing the bytes of one chunk: the outcome is an error together with whether it was a
  transient one before any byte was written.
\<close>

definition write_chunk_bytes ::
  "'d os_ops \<Rightarrow> u64 \<Rightarrow> vlog_position \<Rightarrow> append_state option \<Rightarrow> physical_chunk \<Rightarrow>
   (vlog_writer \<times> 'd log_world, unit, storage_error \<times> bool) act" where
  "write_chunk_bytes K commit_seq envelope_begin previous_state chunk s =
     (let (lw, w) = s; p = chunk_position chunk in
      case lw_state lw of
        AS_Open file_id offset file \<Rightarrow>
          if file_id = pos_file_id p \<and> offset = pos_offset p
          then
            let (w, result) = write_all_positioned (\<lambda>bs off. on_disk (os_write_at K file bs off))
                                (chunk_bytes chunk) offset 0 0 0 w;
                written = (case result of Ok n \<Rightarrow> n | Err (n, _) \<Rightarrow> n);
                moved = (if written > 0 then checked_add offset written else Some offset)
            in case moved of
                 None \<Rightarrow> ((lw, w), Err (append_layout file_id offset, False))
               | Some offset \<Rightarrow>
                   let lw = (if written > 0
                             then lw\<lparr>lw_state := AS_Open file_id offset file,
                                     lw_dirty_files := insert file_id (lw_dirty_files lw)\<rparr>
                             else lw);
                       physical_progress =
                         (case previous_state of
                            Some previous \<Rightarrow>
                              if written = 0
                              then state_position (lw_geometry lw) previous \<noteq> envelope_begin
                              else file_id \<noteq> pos_file_id envelope_begin \<or> offset \<noteq> pos_offset envelope_begin
                          | None \<Rightarrow> file_id \<noteq> pos_file_id envelope_begin \<or> offset \<noteq> pos_offset envelope_begin)
                   in (case result of
                         Ok _ \<Rightarrow> ((lw, w), Ok ())
                       | Err (n, error) \<Rightarrow>
                           ((lw, w), Err (append_io commit_seq file_id offset physical_progress error,
                              n = 0 \<and> io_error_kind error \<in> {IoInterrupted, IoWouldBlock})))
          else ((lw, w), Err (append_layout (pos_file_id p) (pos_offset p), False))
      | _ \<Rightarrow> ((lw, w), Err (append_layout (pos_file_id p) (pos_offset p), False)))"

definition finish_chunk :: "'d os_ops \<Rightarrow> u64 \<Rightarrow> ('d, unit) writer_act" where
  "finish_chunk K commit_seq s =
     (let (lw, w) = s in
      case lw_state lw of
        AS_Open file_id offset file \<Rightarrow>
          (case (if offset \<ge> word_of_nat (PAGE_HEADER_ENCODED_LEN + FILE_HEADER_ENCODED_LEN)
                 then catalog_register K file_id file w else (w, Ok ())) of
             (w, Err e) \<Rightarrow> ((lw, w), Err (append_context e commit_seq file_id offset))
           | (w, Ok _) \<Rightarrow>
               (((if offset = max_file_size (lw_geometry lw)
                  then lw\<lparr>lw_state := AS_AtFileLimit file_id\<rparr> else lw), w), Ok ()))
      | _ \<Rightarrow> ((lw, w), Ok ()))"

definition write_chunk ::
  "'d os_ops \<Rightarrow> u64 \<Rightarrow> vlog_position \<Rightarrow> physical_chunk \<Rightarrow> ('d, unit) writer_act" where
  "write_chunk K commit_seq envelope_begin chunk s =
     (case ensure_file_for_chunk K commit_seq (chunk_position chunk) s of
        (s, Err e) \<Rightarrow> (s, Err e)
      | (s, Ok previous_state) \<Rightarrow>
          (case write_chunk_bytes K commit_seq envelope_begin previous_state chunk s of
             (s, Ok _) \<Rightarrow> finish_chunk K commit_seq s
           | (s, Err (error, transient_zero_progress)) \<Rightarrow>
               (case (transient_zero_progress, previous_state) of
                  (True, Some previous) \<Rightarrow>
                    (case lw_state (fst s) of
                       AS_Open file_id offset _ \<Rightarrow>
                         if offset = 0
                         then (case rollback_new_empty_file K file_id previous s of
                                 (s, Err e) \<Rightarrow> (s, Err (append_io commit_seq file_id 0 True e))
                               | (s, Ok _) \<Rightarrow> (s, Err error))
                         else (s, Err error)
                     | _ \<Rightarrow> (s, Err error))
                | _ \<Rightarrow> (s, Err error))))"

fun write_chunks ::
  "'d os_ops \<Rightarrow> u64 \<Rightarrow> vlog_position \<Rightarrow> physical_chunk list \<Rightarrow> ('d, unit) writer_act" where
  "write_chunks K commit_seq envelope_begin [] s = (s, Ok ())"
| "write_chunks K commit_seq envelope_begin (chunk # chunks) s =
     (case write_chunk K commit_seq envelope_begin chunk s of
        (s, Ok _) \<Rightarrow> write_chunks K commit_seq envelope_begin chunks s
      | (s, Err error) \<Rightarrow>
          if err_kind error = ResourceExhausted \<and> lw_position (fst s) = envelope_begin
          then (s, Err error)
          else ((fst s\<lparr>lw_append_failed := True\<rparr>, snd s), Err error))"

definition append_guard :: "vlog_writer \<Rightarrow> prepared_envelope \<Rightarrow> unit res" where
  "append_guard lw envelope =
     (if lw_append_failed lw then Err (writer_stopped (pe_commit_seq envelope) (pe_vlog_begin envelope))
      else if lw_pending_sync_id lw \<noteq> None
      then Err (writer_busy (pe_commit_seq envelope) (pe_vlog_begin envelope))
      else if (case lw_last_appended lw of
                 Some (seq, _) \<Rightarrow> pe_commit_seq envelope \<le> seq | None \<Rightarrow> False)
      then Err (append_layout (pos_file_id (pe_vlog_begin envelope)) (pos_offset (pe_vlog_begin envelope)))
      else Ok ())"

definition ValueLogWriter_append ::
  "env \<Rightarrow> 'd os_ops \<Rightarrow> prepared_envelope \<Rightarrow> ('d, unit) writer_act" where
  "ValueLogWriter_append E K envelope s =
     (case and_then (append_guard (fst s) envelope) (\<lambda>_. validate_envelope_chunks E (fst s) envelope) of
        Err e \<Rightarrow> (s, Err e)
      | Ok _ \<Rightarrow>
          (case write_chunks K (pe_commit_seq envelope) (pe_vlog_begin envelope) (pe_chunks envelope) s of
             (s, Err e) \<Rightarrow> (s, Err e)
           | ((lw, w), Ok _) \<Rightarrow>
               if lw_position lw \<noteq> pe_vlog_end envelope
               then ((lw\<lparr>lw_append_failed := True\<rparr>, w),
                     Err (append_layout (pos_file_id (pe_vlog_end envelope)) (pos_offset (pe_vlog_end envelope))))
               else ((lw\<lparr>lw_last_appended := Some (pe_commit_seq envelope, pe_vlog_end envelope)\<rparr>, w), Ok ())))"

section \<open>Synchronizing\<close>

definition sync_closed_file :: "'d os_ops \<Rightarrow> u32 \<Rightarrow> u64 \<Rightarrow> vlog_writer \<Rightarrow> ('d, unit) log_act" where
  "sync_closed_file K file_id target_seq lw =
     act_bind (act_map_err (sync_file_io target_seq file_id None) (open_writable K file_id)) (\<lambda>file.
     act_bind (act_map_err (\<lambda>e. sync_context e target_seq (Some (lw_position lw)) file_id)
                (catalog_verify K file_id file)) (\<lambda>_.
       act_map_err (sync_file_io target_seq file_id None) (on_disk (os_sync_file K file))))"

definition sync_one_file :: "'d os_ops \<Rightarrow> u32 \<Rightarrow> u64 \<Rightarrow> vlog_writer \<Rightarrow> ('d, unit) log_act" where
  "sync_one_file K file_id target_seq lw =
     (case lw_state lw of
        AS_Open active_id _ file \<Rightarrow>
          if active_id = file_id
          then act_map_err (sync_file_io target_seq file_id (Some (pos_offset (lw_position lw))))
                 (on_disk (os_sync_file K file))
          else sync_closed_file K file_id target_seq lw
      | _ \<Rightarrow> sync_closed_file K file_id target_seq lw)"

fun sync_files :: "'d os_ops \<Rightarrow> u64 \<Rightarrow> vlog_writer \<Rightarrow> u32 list \<Rightarrow> ('d, unit) log_act" where
  "sync_files K target_seq lw [] = act_return ()"
| "sync_files K target_seq lw (file_id # files) =
     act_bind (sync_one_file K file_id target_seq lw) (\<lambda>_. sync_files K target_seq lw files)"

definition sync_guard :: "vlog_writer \<Rightarrow> u64 \<Rightarrow> vlog_position option \<Rightarrow> unit res" where
  "sync_guard lw target_seq target_end =
     (if lw_append_failed lw then Err (sync_stopped target_seq target_end)
      else if lw_pending_sync_id lw \<noteq> None then Err (sync_state_error target_seq target_end)
      else
        and_then
          (case target_end of
             None \<Rightarrow>
               if target_seq = 0 \<and> lw_state lw = AS_Empty \<and> lw_dirty_files lw = {}
                  \<and> Mapping.is_empty (lw_pending_entries lw)
               then Ok () else Err (sync_state_error target_seq target_end)
           | Some end_pos \<Rightarrow>
               if target_seq = 0 then Err (sync_state_error target_seq target_end)
               else
                 and_then (map_err (\<lambda>e. sync_context e target_seq target_end (pos_file_id end_pos))
                            (LayoutPlanner_from_position (lw_geometry lw) end_pos)) (\<lambda>_.
                   if lw_state lw = AS_Empty \<or> end_pos \<noteq> lw_position lw
                   then Err (sync_state_error target_seq target_end) else Ok ()))
          (\<lambda>_.
          if (case lw_last_appended lw of
                Some (seq, stop) \<Rightarrow> target_seq \<noteq> seq \<or> target_end \<noteq> Some stop | None \<Rightarrow> False)
          then Err (sync_state_error target_seq target_end)
          else if \<exists>file_id \<in> Mapping.keys (lw_pending_entries lw).
                    (case Mapping.lookup (lw_pending_entries lw) file_id of
                       Some created_by \<Rightarrow> created_by > target_seq | None \<Rightarrow> False)
          then Err (sync_state_error target_seq target_end)
          else Ok ()))"

definition within_end :: "vlog_position option \<Rightarrow> u32 \<Rightarrow> bool" where
  "within_end target_end file_id =
     (case target_end of Some p \<Rightarrow> file_id \<le> pos_file_id p | None \<Rightarrow> False)"

definition frontier_files :: "vlog_writer \<Rightarrow> vlog_position option \<Rightarrow> u32 set" where
  "frontier_files lw target_end = Set.filter (within_end target_end) (lw_dirty_files lw)"

definition frontier_entries :: "vlog_writer \<Rightarrow> u64 \<Rightarrow> vlog_position option \<Rightarrow> u32 set" where
  "frontier_entries lw target_seq target_end =
     Set.filter (\<lambda>file_id.
       (case Mapping.lookup (lw_pending_entries lw) file_id of
          Some created_by \<Rightarrow> created_by \<le> target_seq | None \<Rightarrow> False)
       \<and> within_end target_end file_id) (Mapping.keys (lw_pending_entries lw))"

definition sync_through ::
  "'d os_ops \<Rightarrow> u64 \<Rightarrow> vlog_position option \<Rightarrow> ('d, frontier_sync) writer_act" where
  "sync_through K target_seq target_end s =
     (let (lw, w) = s; failed = (\<lambda>lw. lw\<lparr>lw_append_failed := True\<rparr>) in
      case sync_guard lw target_seq target_end of
        Err e \<Rightarrow> (s, Err e)
      | Ok _ \<Rightarrow>
          let files = frontier_files lw target_end;
              entries = frontier_entries lw target_seq target_end
          in (case sync_files K target_seq lw (sorted_list_of_set files) w of
                (w, Err e) \<Rightarrow> ((failed lw, w), Err e)
              | (w, Ok _) \<Rightarrow>
                  (case (if entries \<noteq> {}
                         then act_map_err (sync_directory_io target_seq target_end) (directory_sync K) w
                         else (w, Ok ())) of
                     (w, Err e) \<Rightarrow> ((failed lw, w), Err e)
                   | (w, Ok _) \<Rightarrow>
                       (case checked_add (lw_next_sync_id lw) 1 of
                          None \<Rightarrow> ((failed lw, w), Err (sync_state_error target_seq target_end))
                        | Some next_sync_id \<Rightarrow>
                            ((lw\<lparr>lw_next_sync_id := next_sync_id,
                                 lw_pending_sync_id := Some (lw_next_sync_id lw)\<rparr>, w),
                             Ok \<lparr>sy_id = lw_next_sync_id lw, sy_target_seq = target_seq,
                                 sy_target_end = target_end, sy_files = files,
                                 sy_directory_entries = entries\<rparr>)))))"

definition consume_sync :: "vlog_writer \<Rightarrow> frontier_sync \<Rightarrow> unit res" where
  "consume_sync lw synced =
     (if lw_pending_sync_id lw \<noteq> Some (sy_id synced)
      then Err (sync_state_error (sy_target_seq synced) (sy_target_end synced)) else Ok ())"

definition frontier_succeeded :: "frontier_sync \<Rightarrow> vlog_writer \<Rightarrow> vlog_writer \<times> unit res" where
  "frontier_succeeded synced lw =
     (case consume_sync lw synced of
        Err e \<Rightarrow> (lw, Err e)
      | Ok _ \<Rightarrow>
          (lw\<lparr>lw_dirty_files := lw_dirty_files lw - sy_files synced,
              lw_pending_entries :=
                Mapping.filter (\<lambda>file_id _. file_id \<notin> sy_directory_entries synced) (lw_pending_entries lw),
              lw_pending_sync_id := None\<rparr>, Ok ()))"

definition frontier_failed :: "frontier_sync \<Rightarrow> vlog_writer \<Rightarrow> vlog_writer \<times> unit res" where
  "frontier_failed synced lw =
     (case consume_sync lw synced of
        Err e \<Rightarrow> (lw, Err e)
      | Ok _ \<Rightarrow> (lw\<lparr>lw_pending_sync_id := None, lw_append_failed := True\<rparr>, Ok ()))"

section \<open>Opening\<close>

definition check_file_headers ::
  "env \<Rightarrow> 'd os_ops \<Rightarrow> uuid \<Rightarrow> u32 \<Rightarrow> handle \<Rightarrow> ('d, unit) log_act" where
  "check_file_headers E K database_uuid file_id file =
     act_bind (act_map_err (\<lambda>e. open_context e None)
                (read_exact_at K file (PAGE_HEADER_ENCODED_LEN + FILE_HEADER_ENCODED_LEN) 0 file_id)) (\<lambda>headers.
     act_bind (act_lift (map_err (\<lambda>e. open_context e (Some (VLogPosition file_id 0)))
                (PageHeader_decode E (take PAGE_HEADER_ENCODED_LEN headers)))) (\<lambda>page_header.
     if ph_file_id page_header \<noteq> file_id \<or> ph_page_no page_header \<noteq> 0
     then act_fail (accepted_header_corruption file_id 0)
     else
       act_bind (act_lift (map_err
           (\<lambda>e. open_context e (Some (VLogPosition file_id (word_of_nat PAGE_HEADER_ENCODED_LEN))))
           (VLogFileHeader_decode E (drop PAGE_HEADER_ENCODED_LEN headers)))) (\<lambda>file_header.
         if fh_database_uuid file_header \<noteq> database_uuid \<or> fh_file_id file_header \<noteq> file_id
            \<or> ucast (fh_page_size file_header) \<noteq> VLOG_PAGE_SIZE
            \<or> fh_max_file_size file_header \<noteq> MAX_VLOG_FILE_SIZE
         then act_fail (accepted_header_corruption file_id (word_of_nat PAGE_HEADER_ENCODED_LEN))
         else act_return ())))"

definition check_accepted_file ::
  "env \<Rightarrow> 'd os_ops \<Rightarrow> uuid \<Rightarrow> vlog_geometry \<Rightarrow> vlog_position \<Rightarrow> u32 \<Rightarrow> ('d, unit) log_act" where
  "check_accepted_file E K database_uuid geometry accepted_end file_id =
     act_bind (act_map_err (open_io file_id 0) (open_read_only K file_id)) (\<lambda>file.
     act_bind (act_map_err (\<lambda>e. open_context e None) (catalog_verify K file_id file)) (\<lambda>_.
     let expected_len = (if file_id < pos_file_id accepted_end then max_file_size geometry
                         else pos_offset accepted_end) in
     act_bind (act_map_err (open_io file_id expected_len) (on_disk (os_metadata K file))) (\<lambda>metadata.
       if md_len metadata \<noteq> expected_len
       then act_fail (open_context (append_layout file_id (md_len metadata))
              (Some (VLogPosition file_id (md_len metadata))))
       else check_file_headers E K database_uuid file_id file)))"

fun check_accepted_files ::
  "env \<Rightarrow> 'd os_ops \<Rightarrow> uuid \<Rightarrow> vlog_geometry \<Rightarrow> vlog_position \<Rightarrow> u32 list \<Rightarrow> ('d, unit) log_act" where
  "check_accepted_files E K database_uuid geometry accepted_end [] = act_return ()"
| "check_accepted_files E K database_uuid geometry accepted_end (file_id # files) =
     act_bind (check_accepted_file E K database_uuid geometry accepted_end file_id) (\<lambda>_.
       check_accepted_files E K database_uuid geometry accepted_end files)"

definition validate_accepted_catalog ::
  "env \<Rightarrow> 'd os_ops \<Rightarrow> uuid \<Rightarrow> vlog_geometry \<Rightarrow> vlog_position \<Rightarrow> ('d, unit) log_act" where
  "validate_accepted_catalog E K database_uuid geometry accepted_end =
     (let error = open_context (append_layout (pos_file_id accepted_end) (pos_offset accepted_end))
                    (Some accepted_end) in
      act_bind (act_lift (ok_or (checked_add (pos_file_id accepted_end) 1) error)) (\<lambda>expected_count.
      act_bind (act_map_err (\<lambda>e. open_context e (Some accepted_end)) catalog_file_ids) (\<lambda>file_ids.
        if map unat file_ids \<noteq> [0..<unat expected_count] then act_fail error
        else check_accepted_files E K database_uuid geometry accepted_end file_ids)))"

definition open_append_state ::
  "env \<Rightarrow> 'd os_ops \<Rightarrow> uuid \<Rightarrow> vlog_geometry \<Rightarrow> vlog_position option \<Rightarrow> ('d, append_state) log_act" where
  "open_append_state E K database_uuid geometry accepted_end =
     (case accepted_end of
        None \<Rightarrow>
          act_bind (act_map_err (\<lambda>e. open_context e None) catalog_file_ids) (\<lambda>file_ids.
            if file_ids \<noteq> [] then act_fail (open_context (append_layout 0 0) None)
            else act_return AS_Empty)
      | Some position \<Rightarrow>
          let error = open_context (append_layout (pos_file_id position) (pos_offset position)) (Some position) in
          if \<not> is_ok (LayoutPlanner_from_position geometry position) \<or> pos_offset position = 0
          then act_fail error
          else
            act_bind (act_map_err (open_io (pos_file_id position) (pos_offset position))
                       (open_writable K (pos_file_id position))) (\<lambda>file.
            act_bind (act_map_err (\<lambda>e. open_context e (Some position))
                       (catalog_verify K (pos_file_id position) file)) (\<lambda>_.
            act_bind (act_map_err (open_io (pos_file_id position) (pos_offset position))
                       (on_disk (os_metadata K file))) (\<lambda>metadata.
            if md_len metadata \<noteq> pos_offset position then act_fail error
            else
              act_bind (validate_accepted_catalog E K database_uuid geometry position) (\<lambda>_.
                if pos_offset position = max_file_size geometry
                then act_return (AS_AtFileLimit (pos_file_id position))
                else act_return (AS_Open (pos_file_id position) (pos_offset position) file))))))"

text \<open>
  A writer holds the claim on its directory; a failed open gives it back.
\<close>

definition with_claim ::
  "(u64 \<times> u64) \<Rightarrow> vlog_position option \<Rightarrow> ('d, 'a) log_act \<Rightarrow>
   ((u64 \<times> u64) set \<times> 'd log_world, 'a, storage_error) act" where
  "with_claim identity position m s =
     (case claim_directory identity (fst s) of
        (claims, Err e) \<Rightarrow> ((claims, snd s), Err (open_context e position))
      | (claims, Ok _) \<Rightarrow>
          (case m (snd s) of
             (w, Err e) \<Rightarrow> ((release_directory identity claims, w), Err e)
           | (w, Ok x) \<Rightarrow> ((claims, w), Ok x)))"

definition ValueLogWriter_open ::
  "env \<Rightarrow> 'd os_ops \<Rightarrow> (u64 \<times> u64) \<Rightarrow> uuid \<Rightarrow> vlog_geometry \<Rightarrow> vlog_position option \<Rightarrow>
   ((u64 \<times> u64) set \<times> 'd log_world, vlog_writer, storage_error) act" where
  "ValueLogWriter_open E K identity database_uuid geometry accepted_end =
     act_bind (act_lift (map_err (\<lambda>e. open_context e accepted_end)
                (validate_writer_identity database_uuid geometry))) (\<lambda>_.
       with_claim identity accepted_end
         (act_bind (open_append_state E K database_uuid geometry accepted_end) (\<lambda>state.
           act_return (writer_of database_uuid geometry state))))"

definition ValueLogWriter_empty ::
  "(u64 \<times> u64) \<Rightarrow> uuid \<Rightarrow> vlog_geometry \<Rightarrow>
   ((u64 \<times> u64) set \<times> 'd log_world, vlog_writer, storage_error) act" where
  "ValueLogWriter_empty identity database_uuid geometry =
     act_bind (act_lift (map_err (\<lambda>e. open_context e None)
                (validate_writer_identity database_uuid geometry))) (\<lambda>_.
       with_claim identity None
         (act_bind (act_map_err (\<lambda>e. open_context e None) catalog_file_ids) (\<lambda>file_ids.
           if file_ids \<noteq> [] then act_fail (open_context (append_layout 0 0) None)
           else act_return (writer_of database_uuid geometry AS_Empty))))"

end
