(* ===== verification/WriterLog.thy ===== *)
theory WriterLog
  imports Writer "HOL-Library.Sublist"
begin

text \<open>
  What the writer does to the files: the invariant that ties its append state and its dirty sets to
  the directory, that appending writes exactly the chunks of the envelope behind what was there,
  that a refused append has changed nothing, and that a completed synchronization leaves
  everything written so far on stable storage. All of it for any directory that keeps the contract
  \<open>log_disk\<close>.
\<close>

section \<open>What a write leaves on disk\<close>

definition wrote :: "handle \<Rightarrow> bytes \<Rightarrow> disk_view \<Rightarrow> disk_view \<Rightarrow> bool" where
  "wrote h data v v' \<longleftrightarrow> dv_entry v' = dv_entry v
     \<and> dv_content v' = (dv_content v)(h := dv_content v h @ data) \<and> stays_synced (if data = [] then {} else {h}) {} v v'"

lemma stays_synced_mono: "stays_synced H N v v' \<Longrightarrow> H \<subseteq> H' \<Longrightarrow> N \<subseteq> N' \<Longrightarrow> stays_synced H' N' v v'"
  by (auto simp: stays_synced_def)

lemma wrote_nothing: "same_files v v' \<Longrightarrow> stays_synced {} {} v v' \<Longrightarrow> wrote h [] v v'"
  by (simp add: wrote_def same_files_def)

lemma wrote_trans: "wrote h xs v v1 \<Longrightarrow> wrote h ys v1 v2 \<Longrightarrow> wrote h (xs @ ys) v v2"
  by (auto simp: wrote_def stays_synced_def split: if_splits)

definition same_rest :: "'d log_world \<Rightarrow> 'd log_world \<Rightarrow> bool" where
  "same_rest w w' \<longleftrightarrow> wd_catalog w' = wd_catalog w \<and> wd_cache w' = wd_cache w"

lemma same_rest_simps [simp]: "same_rest w w" "same_rest w (w\<lparr>wd_disk := d\<rparr>)"
  by (simp_all add: same_rest_def)

lemma same_rest_trans: "same_rest w w1 \<Longrightarrow> same_rest w1 w2 \<Longrightarrow> same_rest w w2"
  by (simp add: same_rest_def)

context log_disk
begin

lemma write_all_spec:
  assumes "write_all_positioned (\<lambda>bs off. on_disk (os_write_at K h bs off)) bs start n i t w = (w', r)"
    and "length (dv_content (wview w) h) = unat start + unat n" and "unat start + unat n + length bs < 2 ^ 64"
  shows "\<exists>k \<le> length bs. wrote h (take k bs) (wview w) (wview w') \<and> same_rest w w'
    \<and> (case r of Ok m \<Rightarrow> k = length bs \<and> unat m = unat n + k | Err (m, e) \<Rightarrow> unat m = unat n + k)"
  using assms
proof (induction "\<lambda>bs off. on_disk (os_write_at K h bs off) :: ('d log_world, nat, io_error) act" bs start n i t w
    arbitrary: w' r rule: write_all_positioned.induct)
  case (1 start n i t w)
  then show ?case
    by (auto simp: write_all_positioned.simps wrote_def stays_synced_def intro!: exI [of _ 0])
next
  case (2 b bs start n i t w)
  let ?W = "\<lambda>bs off. on_disk (os_write_at K h bs off) :: ('d log_world, nat, io_error) act"
  let ?off = "start + n"
  have off: "checked_add start n = Some ?off" "unat ?off = unat start + unat n"
    using "2.prems"(3) by (simp_all add: checked_add_Some unat_add_no_overflow)
  obtain d x where e: "os_write_at K h (b # bs) ?off (wd_disk w) = (d, x)"
    by (cases "os_write_at K h (b # bs) ?off (wd_disk w)")
  let ?w1 = "w\<lparr>wd_disk := d\<rparr>"
  have o: "on_disk (os_write_at K h (b # bs) ?off) w = (?w1, x)" using e by (simp add: on_disk_def)
  show ?case
  proof (cases x)
    case (Ok c)
    have c: "c \<le> length (b # bs)" and wr: "wrote h (take c (b # bs)) (wview w) (wview ?w1)"
      using write_ok [OF e [unfolded Ok]] "2.prems"(2) off(2) by (simp_all add: wrote_def)
    show ?thesis
    proof (cases "c = 0")
      case True
      then show ?thesis using "2.prems"(1) o Ok off wr
        by (auto simp: write_all_positioned.simps intro!: exI [of _ 0])
    next
      case False
      have u: "unat (word_of_nat c :: u64) = c" using c "2.prems"(3) by (simp add: unat_of_nat_small)
      have a: "checked_add n (word_of_nat c) = Some (n + word_of_nat c)"
        "unat (n + word_of_nat c) = unat n + c"
        using u c "2.prems"(3) by (simp_all add: checked_add_Some unat_add_no_overflow)
      have rec: "write_all_positioned ?W (drop c (b # bs)) start (n + word_of_nat c) 0 0 ?w1 = (w', r)"
        using "2.prems"(1) o Ok off False c a by (simp add: write_all_positioned.simps)
      have len: "length (dv_content (wview ?w1) h) = unat start + unat (n + word_of_nat c)"
        using wr "2.prems"(2) a(2) c by (simp add: wrote_def min_def)
      have bound: "unat start + unat (n + word_of_nat c) + length (drop c (b # bs)) < 2 ^ 64"
        using a(2) c "2.prems"(3) by simp
      obtain k where k: "k \<le> length (drop c (b # bs))" "wrote h (take k (drop c (b # bs))) (wview ?w1) (wview w')"
        "same_rest ?w1 w'" "case r of Ok m \<Rightarrow> k = length (drop c (b # bs)) \<and> unat m = unat (n + word_of_nat c) + k
          | Err (m, e) \<Rightarrow> unat m = unat (n + word_of_nat c) + k"
        using "2.hyps"(1) [OF off(1) o [symmetric] Ok False c a(1) rec len bound] by auto
      have "wrote h (take (c + k) (b # bs)) (wview w) (wview w')"
        using wrote_trans [OF wr k(2)] by (simp add: take_add)
      then show ?thesis using k a(2) c
        by (intro exI [of _ "c + k"]) (auto simp: same_rest_def split: result.splits prod.splits)
    qed
  next
    case (Err er)
    have same: "same_files (wview w) (wview ?w1)" "stays_synced {} {} (wview w) (wview ?w1)"
      using write_err [OF e [unfolded Err]] by simp_all
    note wr = wrote_nothing [OF this]
    have len: "length (dv_content (wview ?w1) h) = unat start + unat n"
      using same(1) "2.prems"(2) by (simp add: same_files_def)
    have step: ?thesis if "\<exists>k \<le> length (b # bs). wrote h (take k (b # bs)) (wview ?w1) (wview w') \<and> same_rest ?w1 w'
        \<and> (case r of Ok m \<Rightarrow> k = length (b # bs) \<and> unat m = unat n + k | Err (m, e) \<Rightarrow> unat m = unat n + k)"
      using that wrote_trans [OF wr] by (auto simp: same_rest_def)
    show ?thesis
    proof (cases "io_error_kind er = IoInterrupted \<and> i < EINTR_RETRY_LIMIT")
      case True
      then have "write_all_positioned ?W (b # bs) start n (Suc i) t ?w1 = (w', r)"
        using "2.prems"(1) o Err off by (simp add: write_all_positioned.simps)
      from "2.hyps"(2) [OF off(1) o [symmetric] Err True this len "2.prems"(3)] show ?thesis by (rule step)
    next
      case no: False
      show ?thesis
      proof (cases "io_error_kind er = IoWouldBlock \<and> t < EAGAIN_RETRY_LIMIT")
        case True
        then have "write_all_positioned ?W (b # bs) start n i (Suc t) ?w1 = (w', r)"
          using "2.prems"(1) o Err off no by (auto simp: write_all_positioned.simps)
        from "2.hyps"(3) [OF off(1) o [symmetric] Err no True this len "2.prems"(3)] show ?thesis by (rule step)
      next
        case False
        then have "w' = ?w1" "r = Err (n, er)"
          using "2.prems"(1) o Err off no by (auto simp: write_all_positioned.simps)
        then show ?thesis using wr by (auto intro!: exI [of _ 0])
      qed
    qed
  qed
qed

end

section \<open>The log invariant\<close>

definition file_handle :: "disk_view \<Rightarrow> u32 \<Rightarrow> handle option" where
  "file_handle v f = dv_entry v (vlog_name f)"

fun current_file :: "append_state \<Rightarrow> u32 option" where
  "current_file AS_Empty = None"
| "current_file (AS_Open f off h) = Some f"
| "current_file (AS_AtFileLimit f) = Some f"

definition in_log :: "append_state \<Rightarrow> u32 \<Rightarrow> bool" where
  "in_log st f \<longleftrightarrow> (case current_file st of Some g \<Rightarrow> f \<le> g | None \<Rightarrow> False)"

text \<open>The files of the log: names, lengths, and no file under two names.\<close>

definition files_inv :: "disk_view \<Rightarrow> vlog_geometry \<Rightarrow> append_state \<Rightarrow> bool" where
  "files_inv v g st \<longleftrightarrow> geometry_ok g
     \<and> (\<forall>f. current_file st = Some f \<longrightarrow> f \<le> max_file_id g)
     \<and> (\<forall>f \<le> MAX_VLOG_FILE_ID. file_handle v f \<noteq> None \<longleftrightarrow> in_log st f)
     \<and> (\<forall>f \<le> MAX_VLOG_FILE_ID. \<forall>f' \<le> MAX_VLOG_FILE_ID. \<forall>h.
          file_handle v f = Some h \<and> file_handle v f' = Some h \<longrightarrow> f = f')
     \<and> (\<forall>f off h. st = AS_Open f off h \<longrightarrow>
          file_handle v f = Some h \<and> length (dv_content v h) = unat off \<and> unat off \<le> unat (max_file_size g))
     \<and> (\<forall>f h. st = AS_AtFileLimit f \<and> file_handle v f = Some h \<longrightarrow>
          length (dv_content v h) = unat (max_file_size g))
     \<and> (\<forall>f h. in_log st f \<and> current_file st \<noteq> Some f \<and> file_handle v f = Some h \<longrightarrow>
          length (dv_content v h) = unat (max_file_size g))"

text \<open>What is not yet on stable storage is marked dirty.\<close>

definition dirty_inv :: "disk_view \<Rightarrow> append_state \<Rightarrow> u32 set \<Rightarrow> u32 set \<Rightarrow> bool" where
  "dirty_inv v st dirty entries \<longleftrightarrow>
     (\<forall>f \<le> MAX_VLOG_FILE_ID. \<forall>h. file_handle v f = Some h \<and> dv_content v h \<noteq> [] \<and> \<not> dv_synced v h \<longrightarrow> f \<in> dirty)
     \<and> (\<forall>f \<le> MAX_VLOG_FILE_ID. file_handle v f \<noteq> None \<and> \<not> dv_synced_entry v (vlog_name f) \<longrightarrow> f \<in> entries)
     \<and> (\<forall>f \<in> dirty. in_log st f) \<and> (\<forall>f \<in> entries. in_log st f)"

definition log_inv :: "disk_view \<Rightarrow> vlog_writer \<Rightarrow> bool" where
  "log_inv v lw \<longleftrightarrow> files_inv v (lw_geometry lw) (lw_state lw)
     \<and> dirty_inv v (lw_state lw) (lw_dirty_files lw) (Mapping.keys (lw_pending_entries lw))"

definition kept :: "disk_view \<Rightarrow> disk_view \<Rightarrow> bool" where
  "kept v v' \<longleftrightarrow> (\<forall>f \<le> MAX_VLOG_FILE_ID. \<forall>h. file_handle v f = Some h \<longrightarrow>
     file_handle v' f = Some h \<and> prefix (dv_content v h) (dv_content v' h))"

definition same_log :: "disk_view \<Rightarrow> disk_view \<Rightarrow> bool" where
  "same_log v v' \<longleftrightarrow> (\<forall>f \<le> MAX_VLOG_FILE_ID. file_handle v' f = file_handle v f
     \<and> (\<forall>h. file_handle v f = Some h \<longrightarrow> dv_content v' h = dv_content v h))"

definition stored :: "disk_view \<Rightarrow> physical_chunk \<Rightarrow> bool" where
  "stored v c \<longleftrightarrow> (\<exists>h. file_handle v (pos_file_id (chunk_position c)) = Some h
     \<and> take (length (chunk_bytes c)) (drop (unat (pos_offset (chunk_position c))) (dv_content v h)) = chunk_bytes c)"

lemma kept_refl [simp]: "kept v v" by (simp add: kept_def)

lemma kept_trans: "kept v v1 \<Longrightarrow> kept v1 v2 \<Longrightarrow> kept v v2"
  unfolding kept_def by (meson prefix_order.trans)

lemma same_log_kept: "same_log v v' \<Longrightarrow> kept v v'" by (simp add: same_log_def kept_def)

lemma same_log_refl [simp]: "same_log v v" by (simp add: same_log_def)

lemma same_files_log: "same_files v v' \<Longrightarrow> same_log v v'"
  by (simp add: same_files_def same_log_def file_handle_def)

lemma stored_kept:
  assumes "stored v c" and "kept v v'" and "pos_file_id (chunk_position c) \<le> MAX_VLOG_FILE_ID"
  shows "stored v' c"
proof -
  obtain h where h: "file_handle v (pos_file_id (chunk_position c)) = Some h"
    "take (length (chunk_bytes c)) (drop (unat (pos_offset (chunk_position c))) (dv_content v h)) = chunk_bytes c"
    using assms(1) by (auto simp: stored_def)
  then obtain zs where "file_handle v' (pos_file_id (chunk_position c)) = Some h" "dv_content v' h = dv_content v h @ zs"
    using assms(2,3) by (auto simp: kept_def prefix_def)
  moreover have "length (chunk_bytes c) \<le> length (dv_content v h) - unat (pos_offset (chunk_position c))"
    using arg_cong [OF h(2), of length] by simp
  ultimately show ?thesis using h(2) by (auto simp: stored_def)
qed

lemma max_file_id_le: "geometry_ok g \<Longrightarrow> f \<le> max_file_id g \<Longrightarrow> f \<le> MAX_VLOG_FILE_ID"
  using MAX_VLOG_FILE_ID_nat by (simp add: geometry_ok_def word_le_nat_alt)

lemma log_inv_same:
  assumes "log_inv v lw" and "same_files v v'" and "stays_synced {} {} v v'"
  shows "log_inv v' lw"
proof -
  have fh: "file_handle v' = file_handle v" "dv_content v' = dv_content v"
    using assms(2) by (auto simp: same_files_def file_handle_def)
  have "dirty_inv v' (lw_state lw) (lw_dirty_files lw) (Mapping.keys (lw_pending_entries lw))"
    using assms(1,3) fh by (auto simp: log_inv_def dirty_inv_def stays_synced_def)
  moreover have "files_inv v' (lw_geometry lw) (lw_state lw)"
    using assms(1) unfolding log_inv_def files_inv_def fh by (rule conjunct1)
  ultimately show ?thesis by (simp add: log_inv_def)
qed

text \<open>Appending bytes to the open file.\<close>

lemma log_inv_wrote:
  assumes "log_inv v lw" and "lw_state lw = AS_Open f off h" and "wrote h data v v'" and "data \<noteq> []"
    and "unat off + length data \<le> unat (max_file_size (lw_geometry lw))" and "unat off' = unat off + length data"
  shows "log_inv v' (lw\<lparr>lw_state := AS_Open f off' h, lw_dirty_files := insert f (lw_dirty_files lw)\<rparr>)"
    and "kept v v'"
proof -
  note inv = assms(1) [unfolded log_inv_def files_inv_def]
  have f: "f \<le> MAX_VLOG_FILE_ID" using inv assms(2) max_file_id_le by auto
  have h: "file_handle v f = Some h" "length (dv_content v h) = unat off" using inv assms(2) by auto
  have fh: "file_handle v' = file_handle v" "dv_content v' = (dv_content v)(h := dv_content v h @ data)"
    "stays_synced {h} {} v v'"
    using assms(3,4) by (auto simp: wrote_def file_handle_def)
  have other: "g = f" if "g \<le> MAX_VLOG_FILE_ID" "file_handle v g = Some h" for g
    using inv that f h by blast
  have "files_inv v' (lw_geometry lw) (AS_Open f off' h)"
    unfolding files_inv_def
  proof (intro conjI allI impI; (elim conjE)?)
    fix g k assume g: "in_log (AS_Open f off' h) g" "current_file (AS_Open f off' h) \<noteq> Some g" "file_handle v' g = Some k"
    have "g \<le> f" using g by (simp add: in_log_def)
    then have "g \<le> MAX_VLOG_FILE_ID" using f by simp
    then have "k \<noteq> h" using other g fh(1) by auto
    moreover have "length (dv_content v k) = unat (max_file_size (lw_geometry lw))"
      using inv assms(2) g fh(1) by (auto simp: in_log_def)
    ultimately show "length (dv_content v' k) = unat (max_file_size (lw_geometry lw))" using fh by simp
  qed (use inv assms(2,5,6) h fh in \<open>auto simp: in_log_def\<close>)
  moreover have "dirty_inv v' (AS_Open f off' h) (insert f (lw_dirty_files lw)) (Mapping.keys (lw_pending_entries lw))"
    unfolding dirty_inv_def
  proof (intro conjI allI impI ballI; (elim conjE)?)
    fix g k assume g: "g \<le> MAX_VLOG_FILE_ID" "file_handle v' g = Some k" "dv_content v' k \<noteq> []" "\<not> dv_synced v' k"
    show "g \<in> insert f (lw_dirty_files lw)"
    proof (cases "k = h")
      case True
      then show ?thesis using other g fh(1) by auto
    next
      case False
      then have "dv_content v k \<noteq> []" "\<not> dv_synced v k" using g fh by (auto simp: stays_synced_def)
      then show ?thesis using assms(1) g fh(1) by (auto simp: log_inv_def dirty_inv_def)
    qed
  qed (use assms(1,2) fh in \<open>auto simp: log_inv_def dirty_inv_def stays_synced_def in_log_def\<close>)
  ultimately show "log_inv v' (lw\<lparr>lw_state := AS_Open f off' h, lw_dirty_files := insert f (lw_dirty_files lw)\<rparr>)"
    by (simp add: log_inv_def)
  show "kept v v'" using fh by (auto simp: kept_def)
qed


text \<open>A new empty file behind the last one.\<close>

definition created :: "u32 \<Rightarrow> handle \<Rightarrow> disk_view \<Rightarrow> disk_view \<Rightarrow> bool" where
  "created f h v v' \<longleftrightarrow> dv_entry v (vlog_name f) = None \<and> h \<notin> ran (dv_entry v)
     \<and> dv_entry v' = (dv_entry v)(vlog_name f \<mapsto> h) \<and> dv_content v' = (dv_content v)(h := [])
     \<and> stays_synced {h} {vlog_name f} v v'"

definition next_file :: "append_state \<Rightarrow> u32 \<Rightarrow> bool" where
  "next_file st f \<longleftrightarrow> (case st of
     AS_Empty \<Rightarrow> f = 0 | AS_AtFileLimit g \<Rightarrow> checked_add g 1 = Some f | AS_Open _ _ _ \<Rightarrow> False)"

lemma next_file_le:
  assumes "next_file st f"
  shows "g \<le> f \<longleftrightarrow> in_log st g \<or> g = f" "\<not> in_log st f"
proof -
  have "unat f = Suc (unat l)" if "checked_add l 1 = Some f" for l
    using checked_add_unat [OF that] by simp
  then show "g \<le> f \<longleftrightarrow> in_log st g \<or> g = f" "\<not> in_log st f"
    using assms
    by (cases st; force simp: next_file_def in_log_def word_le_nat_alt word_unat_eq_iff)+
qed

lemma file_handle_created:
  assumes "created f h v v'" and "f \<le> MAX_VLOG_FILE_ID" and "g \<le> MAX_VLOG_FILE_ID"
  shows "file_handle v' g = (if g = f then Some h else file_handle v g)" "file_handle v f = None"
    "file_handle v g \<noteq> Some h"
  using assms vlog_name_inj [of g f] by (auto simp: created_def file_handle_def ran_def)

lemma log_inv_created:
  assumes "log_inv v lw" and "next_file (lw_state lw) f" and "f \<le> max_file_id (lw_geometry lw)"
    and "created f h v v'"
  shows "log_inv v' (lw\<lparr>lw_pending_entries := Mapping.update f seq (lw_pending_entries lw), lw_state := AS_Open f 0 h\<rparr>)"
    and "kept v v'"
proof -
  note inv = assms(1) [unfolded log_inv_def files_inv_def]
  have f: "f \<le> MAX_VLOG_FILE_ID" using inv assms(3) max_file_id_le by auto
  note fh = file_handle_created [OF assms(4) f]
  have c: "dv_content v' = (dv_content v)(h := [])" "stays_synced {h} {vlog_name f} v v'"
    using assms(4) by (simp_all add: created_def)
  note le = next_file_le [OF assms(2)]
  have "files_inv v' (lw_geometry lw) (AS_Open f 0 h)"
    unfolding files_inv_def
  proof (intro conjI allI impI; (elim conjE)?)
    fix g assume g: "g \<le> MAX_VLOG_FILE_ID"
    show "file_handle v' g \<noteq> None \<longleftrightarrow> in_log (AS_Open f 0 h) g"
      using inv fh(1) [OF g] le(1) [of g] g by (auto simp: in_log_def)
  next
    fix g g' k assume g: "g \<le> MAX_VLOG_FILE_ID" "g' \<le> MAX_VLOG_FILE_ID" "file_handle v' g = Some k" "file_handle v' g' = Some k"
    then show "g = g'" using fh(1,3) [OF g(1)] fh(1,3) [OF g(2)] inv by (auto split: if_splits)
  next
    fix g k assume g: "in_log (AS_Open f 0 h) g" "current_file (AS_Open f 0 h) \<noteq> Some g" "file_handle v' g = Some k"
    then have old: "in_log (lw_state lw) g" using le(1) [of g] by (simp add: in_log_def)
    have gm: "g \<le> MAX_VLOG_FILE_ID" using g(1) f by (simp add: in_log_def)
    have k: "file_handle v g = Some k" "k \<noteq> h" using fh(1,3) [OF gm] g by auto
    have "length (dv_content v k) = unat (max_file_size (lw_geometry lw))"
    proof (cases "current_file (lw_state lw) = Some g")
      case True
      then have "lw_state lw = AS_AtFileLimit g"
        using assms(2) by (cases "lw_state lw") (auto simp: next_file_def)
      then show ?thesis using inv k by blast
    next
      case False
      then show ?thesis using inv k old by blast
    qed
    then show "length (dv_content v' k) = unat (max_file_size (lw_geometry lw))" using c k by simp
  qed (use inv assms(3) fh(1) [OF f] c in \<open>auto\<close>)
  moreover have "dirty_inv v' (AS_Open f 0 h) (lw_dirty_files lw) (insert f (Mapping.keys (lw_pending_entries lw)))"
    unfolding dirty_inv_def
  proof (intro conjI allI impI ballI; (elim conjE)?)
    fix g k assume g: "g \<le> MAX_VLOG_FILE_ID" "file_handle v' g = Some k" "dv_content v' k \<noteq> []" "\<not> dv_synced v' k"
    then have "k \<noteq> h" "file_handle v g = Some k" using fh(1) [OF g(1)] c by (auto split: if_splits)
    then show "g \<in> lw_dirty_files lw"
      using assms(1) g c by (auto simp: log_inv_def dirty_inv_def stays_synced_def)
  next
    fix g assume g: "g \<le> MAX_VLOG_FILE_ID" "file_handle v' g \<noteq> None" "\<not> dv_synced_entry v' (vlog_name g)"
    show "g \<in> insert f (Mapping.keys (lw_pending_entries lw))"
    proof (cases "g = f")
      case False
      then have "vlog_name g \<noteq> vlog_name f" using vlog_name_inj [OF _ g(1) f] by blast
      then have "\<not> dv_synced_entry v (vlog_name g)" using g c by (auto simp: stays_synced_def)
      then show ?thesis using assms(1) g fh(1) [OF g(1)] False by (auto simp: log_inv_def dirty_inv_def)
    qed simp
  qed (use assms(1) le(1) in \<open>auto simp: log_inv_def dirty_inv_def in_log_def\<close>)
  ultimately show "log_inv v' (lw\<lparr>lw_pending_entries := Mapping.update f seq (lw_pending_entries lw), lw_state := AS_Open f 0 h\<rparr>)"
    by (simp add: log_inv_def)
  show "kept v v'" using fh c by (auto simp: kept_def)
qed

context log_disk
begin

lemma create_new_ok:
  assumes "create_new K f w = (w', Ok h)"
  shows "created f h (wview w) (wview w') \<and> same_rest w w' \<and> f \<le> MAX_VLOG_FILE_ID"
  using assms create_ok by (auto simp: directory_calls named_call_def created_def split: if_splits)

lemma create_new_err:
  assumes "create_new K f w = (w', Err e)"
  shows "same_files (wview w) (wview w') \<and> stays_synced {} {} (wview w) (wview w') \<and> same_rest w w'"
  using assms create_err by (auto simp: directory_calls named_call_def split: if_splits)

lemma ensure_file_spec:
  assumes "log_inv (wview w) lw" and "ensure_file_for_chunk K seq p (lw, w) = ((lw', w'), r)"
  shows "log_inv (wview w') lw' \<and> kept (wview w) (wview w') \<and> same_rest w w'
    \<and> (case r of
         Err e \<Rightarrow> lw' = lw \<and> same_log (wview w) (wview w')
       | Ok None \<Rightarrow> lw' = lw \<and> w' = w \<and> (\<exists>h. lw_state lw = AS_Open (pos_file_id p) (pos_offset p) h)
       | Ok (Some prev) \<Rightarrow> prev = lw_state lw \<and> next_file prev (pos_file_id p) \<and> pos_offset p = 0
           \<and> (\<exists>h. created (pos_file_id p) h (wview w) (wview w')
               \<and> lw' = lw\<lparr>lw_pending_entries := Mapping.update (pos_file_id p) seq (lw_pending_entries lw),
                         lw_state := AS_Open (pos_file_id p) 0 h\<rparr>))"
proof -
  let ?create = "\<lambda>file_id.
            if file_id \<noteq> pos_file_id p \<or> pos_offset p \<noteq> 0 \<or> file_id > max_file_id (lw_geometry lw)
            then ((lw, w), Err (append_layout (pos_file_id p) (pos_offset p)))
            else case create_new K file_id w of
                (w, Err e) \<Rightarrow> ((lw, w), Err (append_io seq file_id 0 False e))
              | (w, Ok file) \<Rightarrow>
                  ((lw\<lparr>lw_pending_entries := Mapping.update file_id seq (lw_pending_entries lw),
                       lw_state := AS_Open file_id 0 file\<rparr>, w), Ok (Some (lw_state lw)))"
  have create: ?thesis if c: "?create f = ((lw', w'), r)" and n: "next_file (lw_state lw) f" for f
  proof (cases "f \<noteq> pos_file_id p \<or> pos_offset p \<noteq> 0 \<or> f > max_file_id (lw_geometry lw)")
    case True
    then show ?thesis using c assms(1) by auto
  next
    case False
    obtain w1 x where e: "create_new K f w = (w1, x)" by (cases "create_new K f w")
    show ?thesis
    proof (cases x)
      case (Ok h)
      note cr = create_new_ok [OF e [unfolded Ok]]
      have "f \<le> max_file_id (lw_geometry lw)" using False by auto
      note inv = log_inv_created(1) [OF assms(1) n this conjunct1 [OF cr], of seq] log_inv_created(2) [OF assms(1) n this conjunct1 [OF cr]]
      from c e Ok False have
        "lw' = lw\<lparr>lw_pending_entries := Mapping.update f seq (lw_pending_entries lw), lw_state := AS_Open f 0 h\<rparr>"
        "w' = w1" "r = Ok (Some (lw_state lw))" by auto
      then show ?thesis using inv cr n False by auto
    next
      case (Err er)
      note ce = create_new_err [OF e [unfolded Err]]
      from c e Err False have "lw' = lw" "w' = w1" "\<exists>e. r = Err e" by auto
      then show ?thesis using ce log_inv_same [OF assms(1)] same_files_log same_log_kept by auto
    qed
  qed
  show ?thesis
  proof (cases "lw_state lw")
    case AS_Empty
    show ?thesis by (rule create [of 0]) (use assms(2) AS_Empty in \<open>auto simp: ensure_file_for_chunk_def next_file_def split: if_splits\<close>)
  next
    case (AS_Open f off h)
    then show ?thesis using assms by (auto simp: ensure_file_for_chunk_def split: if_splits)
  next
    case (AS_AtFileLimit l)
    show ?thesis
    proof (cases "checked_add l 1")
      case None
      then show ?thesis using assms AS_AtFileLimit by (auto simp: ensure_file_for_chunk_def)
    next
      case (Some f)
      show ?thesis
        by (rule create [of f]) (use assms(2) AS_AtFileLimit Some in \<open>auto simp: ensure_file_for_chunk_def next_file_def split: if_splits\<close>)
    qed
  qed
qed

end

section \<open>Writing a chunk\<close>

definition same_config :: "vlog_writer \<Rightarrow> vlog_writer \<Rightarrow> bool" where
  "same_config lw lw' \<longleftrightarrow> lw_database_uuid lw' = lw_database_uuid lw \<and> lw_geometry lw' = lw_geometry lw
     \<and> lw_pending_sync_id lw' = lw_pending_sync_id lw \<and> lw_next_sync_id lw' = lw_next_sync_id lw
     \<and> lw_append_failed lw' = lw_append_failed lw \<and> lw_last_appended lw' = lw_last_appended lw"

lemma same_config_refl [simp]: "same_config lw lw" by (simp add: same_config_def)

lemma same_config_trans: "same_config lw lw1 \<Longrightarrow> same_config lw1 lw2 \<Longrightarrow> same_config lw lw2"
  by (simp add: same_config_def)

lemma append_io_exhausted:
  "err_kind (append_io seq f off progress e) = ResourceExhausted
     \<longleftrightarrow> \<not> progress \<and> io_error_kind e \<in> {IoInterrupted, IoWouldBlock}"
  by (auto simp: append_io_def Let_def error_constructors)

lemma log_inv_same_log:
  assumes "log_inv v lw" and "same_log v v'"
    and "\<And>f h. f \<le> MAX_VLOG_FILE_ID \<Longrightarrow> file_handle v f = Some h \<Longrightarrow> dv_synced v h \<Longrightarrow> dv_synced v' h"
    and "\<And>f h. f \<le> MAX_VLOG_FILE_ID \<Longrightarrow> file_handle v f = Some h \<Longrightarrow> dv_synced_entry v (vlog_name f) \<Longrightarrow>
           dv_synced_entry v' (vlog_name f)"
  shows "log_inv v' lw"
proof -
  note inv = assms(1) [unfolded log_inv_def files_inv_def dirty_inv_def]
  have fh: "file_handle v' f = file_handle v f" if "f \<le> MAX_VLOG_FILE_ID" for f
    using assms(2) that by (simp add: same_log_def)
  have ct: "dv_content v' h = dv_content v h" if "f \<le> MAX_VLOG_FILE_ID" "file_handle v f = Some h" for f h
    using assms(2) that by (simp add: same_log_def)
  have cur: "f \<le> MAX_VLOG_FILE_ID" if "in_log (lw_state lw) f" for f
    using inv that max_file_id_le by (auto simp: in_log_def split: option.splits)
  have cf: "in_log (lw_state lw) f" if "current_file (lw_state lw) = Some f" for f
    using that by (simp add: in_log_def)
  have "files_inv v' (lw_geometry lw) (lw_state lw)"
    unfolding files_inv_def
  proof (intro conjI allI impI; (elim conjE)?)
    fix f off h assume s: "lw_state lw = AS_Open f off h"
    then have "f \<le> MAX_VLOG_FILE_ID" using cur cf by simp
    moreover have "file_handle v f = Some h" using inv s by blast
    ultimately show "file_handle v' f = Some h" "length (dv_content v' h) = unat off"
      "unat off \<le> unat (max_file_size (lw_geometry lw))"
      using inv s fh ct by auto
  next
    fix f h assume s: "lw_state lw = AS_AtFileLimit f" "file_handle v' f = Some h"
    then have "f \<le> MAX_VLOG_FILE_ID" using cur cf by simp
    then show "length (dv_content v' h) = unat (max_file_size (lw_geometry lw))" using inv s fh ct by auto
  next
    fix f h assume s: "in_log (lw_state lw) f" "current_file (lw_state lw) \<noteq> Some f" "file_handle v' f = Some h"
    note f = cur [OF s(1)]
    have "length (dv_content v h) = unat (max_file_size (lw_geometry lw))" using inv s f fh by auto
    then show "length (dv_content v' h) = unat (max_file_size (lw_geometry lw))" using s f fh ct by auto
  qed (use inv fh in \<open>simp_all, blast?\<close>)
  moreover have "dirty_inv v' (lw_state lw) (lw_dirty_files lw) (Mapping.keys (lw_pending_entries lw))"
    unfolding dirty_inv_def
  proof (intro conjI allI impI; (elim conjE)?)
    fix f h assume f: "f \<le> MAX_VLOG_FILE_ID" "file_handle v' f = Some h" "dv_content v' h \<noteq> []" "\<not> dv_synced v' h"
    then have h: "file_handle v f = Some h" using fh by simp
    then have "dv_content v h \<noteq> []" "\<not> dv_synced v h" using f ct [OF f(1) h] assms(3) [OF f(1) h] by auto
    then show "f \<in> lw_dirty_files lw" using inv f(1) h by blast
  next
    fix f assume f: "f \<le> MAX_VLOG_FILE_ID" "file_handle v' f \<noteq> None" "\<not> dv_synced_entry v' (vlog_name f)"
    then have "file_handle v f \<noteq> None" using fh by simp
    moreover from this have "\<not> dv_synced_entry v (vlog_name f)" using f assms(4) by blast
    ultimately show "f \<in> Mapping.keys (lw_pending_entries lw)" using inv f(1) by blast
  qed (use inv in blast)+
  ultimately show ?thesis by (simp add: log_inv_def)
qed

lemma delete_update_fresh: "f \<notin> Mapping.keys m \<Longrightarrow> Mapping.delete f (Mapping.update f x m) = m"
  unfolding keys_dom_lookup by transfer (auto simp: fun_eq_iff)

definition after_write :: "u32 \<Rightarrow> u64 \<Rightarrow> handle \<Rightarrow> vlog_writer \<Rightarrow> vlog_writer" where
  "after_write f off h lw = lw\<lparr>lw_state := AS_Open f off h, lw_dirty_files := insert f (lw_dirty_files lw)\<rparr>"

context log_disk
begin

lemma write_bytes_spec:
  assumes "lw_state lw = AS_Open (pos_file_id (chunk_position c)) (pos_offset (chunk_position c)) h"
    and "length (dv_content (wview w) h) = unat (pos_offset (chunk_position c))"
    and "unat (pos_offset (chunk_position c)) + length (chunk_bytes c) < 2 ^ 64"
    and "write_chunk_bytes K seq b prev c (lw, w) = ((lw', w'), r)"
  shows "\<exists>k \<le> length (chunk_bytes c). \<exists>off. unat off = unat (pos_offset (chunk_position c)) + k
    \<and> wrote h (take k (chunk_bytes c)) (wview w) (wview w') \<and> same_rest w w'
    \<and> lw' = (if k = 0 then lw else after_write (pos_file_id (chunk_position c)) off h lw)
    \<and> (case r of Ok _ \<Rightarrow> k = length (chunk_bytes c)
       | Err (e, transient) \<Rightarrow> (transient \<longrightarrow> k = 0) \<and> (k = 0 \<and> \<not> transient \<longrightarrow> err_kind e \<noteq> ResourceExhausted))"
proof -
  let ?p = "chunk_position c"
  obtain w1 x where e: "write_all_positioned (\<lambda>bs off. on_disk (os_write_at K h bs off)) (chunk_bytes c)
      (pos_offset ?p) 0 0 0 w = (w1, x)"
    by (cases "write_all_positioned (\<lambda>bs off. on_disk (os_write_at K h bs off)) (chunk_bytes c) (pos_offset ?p) 0 0 0 w")
  obtain k where k: "k \<le> length (chunk_bytes c)" "wrote h (take k (chunk_bytes c)) (wview w) (wview w1)" "same_rest w w1"
    "case x of Ok m \<Rightarrow> k = length (chunk_bytes c) \<and> unat m = k | Err (m, e) \<Rightarrow> unat m = k"
    using write_all_spec [OF e, unfolded unsigned_0 add_0 add_0_right, OF assms(2,3)] by blast
  define n :: u64 where "n = (case x of Ok m \<Rightarrow> m | Err (m, e) \<Rightarrow> m)"
  have n: "unat n = k" using k(4) by (auto simp: n_def split: result.splits)
  have n0: "n > 0 \<longleftrightarrow> k \<noteq> 0" using n by (simp add: word_less_nat_alt)
  have add: "checked_add (pos_offset ?p) n = Some (pos_offset ?p + n)"
    "unat (pos_offset ?p + n) = unat (pos_offset ?p) + k"
    using n k(1) assms(3) by (simp_all add: checked_add_Some unat_add_no_overflow)
  have step: "w' = w1 \<and> lw' = (if k = 0 then lw else after_write (pos_file_id ?p) (pos_offset ?p + n) h lw)
    \<and> (case x of Ok _ \<Rightarrow> r = Ok () | Err (m, er) \<Rightarrow>
        \<exists>off progress. r = Err (append_io seq (pos_file_id ?p) off progress er,
               m = 0 \<and> io_error_kind er \<in> {IoInterrupted, IoWouldBlock}))"
    using assms(4) unfolding write_chunk_bytes_def Let_def split_beta fst_conv snd_conv assms(1) append_state.case e
      n_def [symmetric] n0 add
    by (cases "k = 0"; cases x) (auto simp: after_write_def split: prod.splits)
  have z: "n = 0" if "k = 0" using n that by (simp add: word_unat_eq_iff)
  show ?thesis
  proof (cases x)
    case (Ok m)
    then show ?thesis using k step add(2) by (intro exI [of _ k] conjI exI [of _ "pos_offset ?p + n"]) auto
  next
    case (Err q)
    obtain m er where q: "q = (m, er)" by (cases q)
    then have m: "m = n" by (simp add: n_def Err)
    show ?thesis
      using k step add(2) Err q m n z by (intro exI [of _ k] conjI exI [of _ "pos_offset ?p + n"]) (auto simp: append_io_exhausted)
  qed
qed

lemma rollback_spec:
  assumes "log_inv v lw" and "next_file (lw_state lw) f" and "f \<le> max_file_id (lw_geometry lw)"
    and "created f h v v1" and "wrote h [] v1 (wview w)"
    and "rollback_new_empty_file K f (lw_state lw)
      (lw\<lparr>lw_pending_entries := Mapping.update f seq (lw_pending_entries lw), lw_state := AS_Open f 0 h\<rparr>, w) = ((lw', w'), r)"
  shows "kept v (wview w') \<and> same_config lw lw' \<and> same_rest w w'
    \<and> (r = Ok () \<longrightarrow> lw' = lw \<and> same_log v (wview w') \<and> log_inv (wview w') lw)"
proof -
  let ?lw = "lw\<lparr>lw_pending_entries := Mapping.update f seq (lw_pending_entries lw), lw_state := AS_Open f 0 h\<rparr>"
  have f: "f \<le> MAX_VLOG_FILE_ID" using assms(1,3) max_file_id_le by (auto simp: log_inv_def files_inv_def)
  have v1: "dv_entry v1 = (dv_entry v)(vlog_name f \<mapsto> h)" "dv_content v1 = (dv_content v)(h := [])"
    "stays_synced {h} {vlog_name f} v v1" "dv_entry v (vlog_name f) = None" "h \<notin> ran (dv_entry v)"
    using assms(4) by (simp_all add: created_def)
  have fresh: "f \<notin> Mapping.keys (lw_pending_entries lw)" "f \<notin> lw_dirty_files lw"
    using assms(1) next_file_le(2) [OF assms(2)] by (auto simp: log_inv_def dirty_inv_def)
  have same1: "dv_entry (wview w) = dv_entry v1" "dv_content (wview w) = dv_content v1"
    "stays_synced {} {} v1 (wview w)"
    using assms(5) by (simp_all add: wrote_def)
  have other: "vlog_name g \<noteq> vlog_name f" if "file_handle v g = Some k" for g k
    using v1(4) that by (auto simp: file_handle_def)
  have keepE: "kept v v'" if "same_files (wview w) v'" for v'
    using that same1 v1 other by (auto simp: kept_def same_files_def file_handle_def ran_def)
  have undone: "lw' = lw \<and> same_log v v' \<and> log_inv v' lw"
    if u: "dv_entry v' = (dv_entry (wview w))(vlog_name f := None)" "dv_content v' = dv_content (wview w)"
      "stays_synced {} {vlog_name f} (wview w) v'"
      and lw': "lw' = ?lw\<lparr>lw_state := lw_state lw, lw_pending_entries := Mapping.delete f (lw_pending_entries ?lw),
        lw_dirty_files := lw_dirty_files ?lw - {f}\<rparr>" for v'
  proof -
    have "Mapping.delete f (Mapping.update f seq (lw_pending_entries lw)) = lw_pending_entries lw"
      using fresh(1) by (rule delete_update_fresh)
    then have "lw' = lw" using lw' fresh(2) by simp
    moreover have same: "same_log v v'"
      using u same1 v1 by (auto simp: same_log_def file_handle_def ran_def)
    moreover have "log_inv v' lw"
    proof (rule log_inv_same_log [OF assms(1) same])
      fix g k assume g: "file_handle v g = Some k"
      have "k \<noteq> h" using g v1(5) by (auto simp: file_handle_def ran_def)
      then show "dv_synced v' k" if "dv_synced v k" using that u(3) same1(3) v1(3) by (simp add: stays_synced_def)
      show "dv_synced_entry v' (vlog_name g)" if "dv_synced_entry v (vlog_name g)"
        using that other [OF g] u(3) same1(3) v1(3) by (simp add: stays_synced_def)
    qed
    ultimately show ?thesis by blast
  qed
  obtain d x where m: "os_metadata K h (wd_disk w) = (d, x)" by (cases "os_metadata K h (wd_disk w)")
  note mk = metadata_keeps [OF m]
  have keep0: "kept v (wview w)" by (rule keepE) simp
  show ?thesis
  proof (cases "\<exists>md. x = Ok md \<and> md_len md = 0")
    case False
    then have "lw' = ?lw" "w' = w\<lparr>wd_disk := d\<rparr>" "r \<noteq> Ok ()"
      using assms(6) m by (auto simp: rollback_new_empty_file_def on_disk_def split: result.splits if_splits)
    then show ?thesis using keep0 mk by (simp add: same_config_def)
  next
    case True
    obtain w2 y where rm: "remove_file K f (w\<lparr>wd_disk := d\<rparr>) = (w2, y)" by (cases "remove_file K f (w\<lparr>wd_disk := d\<rparr>)")
    then obtain d2 where ul: "os_unlink K (vlog_name f) d = (d2, y)" "w2 = w\<lparr>wd_disk := d2\<rparr>"
      using f by (auto simp: directory_calls named_call_def split: if_splits)
    show ?thesis
    proof (cases y)
      case (Err e)
      then have "lw' = ?lw" "w' = w2" "r \<noteq> Ok ()"
        using assms(6) m True rm by (auto simp: rollback_new_empty_file_def on_disk_def)
      moreover have "kept v (view d2)" using keepE unlink_err [OF ul(1) [unfolded Err]] mk by simp
      ultimately show ?thesis using ul(2) by (simp add: same_config_def)
    next
      case (Ok z)
      then have lw': "lw' = ?lw\<lparr>lw_state := lw_state lw, lw_pending_entries := Mapping.delete f (lw_pending_entries ?lw),
        lw_dirty_files := lw_dirty_files ?lw - {f}\<rparr>" and w': "w' = w2"
        using assms(6) m True rm by (auto simp: rollback_new_empty_file_def on_disk_def)
      have "lw' = lw \<and> same_log v (view d2) \<and> log_inv (view d2) lw"
        using unlink_ok [of "vlog_name f" d d2] ul(1) Ok mk by (intro undone [OF _ _ _ lw']) simp_all
      then show ?thesis using same_log_kept ul(2) w' by auto
    qed
  qed
qed

lemma register_keeps:
  "catalog_register K f h w = (w', r) \<Longrightarrow> wview w' = wview w \<and> wd_cache w' = wd_cache w"
  by (cases r) (auto simp: catalog_register_def act_simps on_disk_eq Let_def dest!: metadata_keeps split: if_splits)

lemma finish_spec:
  assumes "log_inv (wview w) lw" and "finish_chunk K seq (lw, w) = ((lw', w'), r)"
  shows "log_inv (wview w') lw' \<and> wview w' = wview w \<and> same_config lw lw' \<and> lw_position lw' = lw_position lw"
proof (cases "lw_state lw")
  case (AS_Open f off h)
  obtain w1 x where e: "(if off \<ge> word_of_nat (PAGE_HEADER_ENCODED_LEN + FILE_HEADER_ENCODED_LEN)
      then catalog_register K f h w else (w, Ok ())) = (w1, x)" (is "?reg = _")
    by (cases ?reg)
  have keep: "wview w1 = wview w" using e register_keeps [of f h w] by (auto split: if_splits)
  have step: "w' = w1" "lw' = lw \<or> lw' = lw\<lparr>lw_state := AS_AtFileLimit f\<rparr> \<and> off = max_file_size (lw_geometry lw)"
    using assms(2) unfolding finish_chunk_def Let_def split_conv AS_Open append_state.case e
    by (cases x; auto split: if_splits)+
  have "log_inv (wview w) (lw\<lparr>lw_state := AS_AtFileLimit f\<rparr>)" if "off = max_file_size (lw_geometry lw)"
    using assms(1) AS_Open that unfolding log_inv_def files_inv_def dirty_inv_def in_log_def by simp
  then show ?thesis using step keep assms(1) AS_Open
    by (auto simp: same_config_def lw_position_def state_position_def)
qed (use assms in \<open>auto simp: finish_chunk_def\<close>)

end

definition chunk_stop :: "physical_chunk \<Rightarrow> vlog_position" where
  "chunk_stop c = VLogPosition (pos_file_id (chunk_position c))
     (pos_offset (chunk_position c) + word_of_nat (length (chunk_bytes c)))"

lemma log_inv_open:
  assumes "log_inv v lw" and "lw_state lw = AS_Open f off h"
  shows "file_handle v f = Some h \<and> length (dv_content v h) = unat off \<and> unat off \<le> unat (max_file_size (lw_geometry lw))
    \<and> f \<le> MAX_VLOG_FILE_ID"
  using assms max_file_id_le by (auto simp: log_inv_def files_inv_def)

lemma next_file_position: "next_file st f \<Longrightarrow> state_position g st \<le> VLogPosition f 0"
  using next_file_le [of st f]
  by (cases st) (force simp: next_file_def state_position_def less_eq_vlog_position_def in_log_def)+

text \<open>How one chunk may end: \<open>v\<close> and \<open>lw\<close> before, \<open>v'\<close> and \<open>lw'\<close> after.\<close>

definition chunk_outcome ::
  "disk_view \<Rightarrow> vlog_writer \<Rightarrow> physical_chunk \<Rightarrow> disk_view \<Rightarrow> vlog_writer \<Rightarrow> unit res \<Rightarrow> bool" where
  "chunk_outcome v lw c v' lw' r \<longleftrightarrow> kept v v' \<and> same_config lw lw'
     \<and> (case r of
          Ok _ \<Rightarrow> log_inv v' lw' \<and> stored v' c \<and> lw_position lw < lw_position lw' \<and> lw_position lw' = chunk_stop c
        | Err e \<Rightarrow> lw' = lw \<and> same_log v v' \<and> log_inv v' lw
            \<or> err_kind e \<noteq> ResourceExhausted \<or> lw_position lw < lw_position lw')"

definition fits_file :: "vlog_geometry \<Rightarrow> physical_chunk \<Rightarrow> bool" where
  "fits_file g c \<longleftrightarrow> chunk_bytes c \<noteq> []
     \<and> unat (pos_offset (chunk_position c)) + length (chunk_bytes c) \<le> unat (max_file_size g)"

lemma fits_file_bound: "fits_file g c \<Longrightarrow> unat (pos_offset (chunk_position c)) + length (chunk_bytes c) < 2 ^ 64"
proof -
  assume "fits_file g c"
  moreover have "unat (max_file_size g) < 2 ^ 64" using unat_less_2p [of "max_file_size g"] by simp
  ultimately show ?thesis unfolding fits_file_def by linarith
qed

lemma chunk_progress:
  assumes "log_inv v1 lw1" and "lw_state lw1 = AS_Open (pos_file_id (chunk_position c)) (pos_offset (chunk_position c)) h"
    and "kept v v1" and "same_config lw lw1" and "lw_position lw \<le> chunk_position c"
    and "wrote h (take k (chunk_bytes c)) v1 v2" and "k \<noteq> 0" and "k \<le> length (chunk_bytes c)"
    and "fits_file (lw_geometry lw) c" and "unat off = unat (pos_offset (chunk_position c)) + k"
  defines "lw2 \<equiv> after_write (pos_file_id (chunk_position c)) off h lw1"
  shows "log_inv v2 lw2 \<and> kept v v2 \<and> same_config lw lw2 \<and> lw_position lw < lw_position lw2
    \<and> (k = length (chunk_bytes c) \<longrightarrow> stored v2 c \<and> lw_position lw2 = chunk_stop c)"
proof -
  let ?p = "chunk_position c"
  have ne: "take k (chunk_bytes c) \<noteq> []" using assms(7,8) by auto
  have len: "length (take k (chunk_bytes c)) = k" using assms(8) by simp
  have g: "lw_geometry lw1 = lw_geometry lw" using assms(4) by (simp add: same_config_def)
  note w = log_inv_wrote [OF assms(1,2,6) ne, of off, unfolded len g]
  have inv: "log_inv v2 lw2" and k2: "kept v v2"
    using w assms(8-10) kept_trans [OF assms(3)] by (auto simp: lw2_def after_write_def fits_file_def)
  have pos: "lw_position lw2 = VLogPosition (pos_file_id ?p) off"
    by (simp add: lw2_def after_write_def lw_position_def state_position_def)
  have "?p < lw_position lw2"
    unfolding pos using assms(7,10) by (simp add: less_vlog_position_def word_less_nat_alt)
  then have lt: "lw_position lw < lw_position lw2" by (rule le_less_trans [OF assms(5)])
  have "stored v2 c \<and> lw_position lw2 = chunk_stop c" if all: "k = length (chunk_bytes c)"
  proof
    have "length (chunk_bytes c) < 2 ^ 64" using fits_file_bound [OF assms(9)] by simp
    then have "off = pos_offset ?p + word_of_nat (length (chunk_bytes c))"
      using assms(10) all fits_file_bound [OF assms(9)]
      by (simp add: word_unat_eq_iff unat_add_no_overflow unat_of_nat_small)
    then show "lw_position lw2 = chunk_stop c" by (simp add: pos chunk_stop_def)
    show "stored v2 c"
      using assms(6) all log_inv_open [OF assms(1,2)] by (auto simp: stored_def wrote_def file_handle_def)
  qed
  then show ?thesis using inv k2 lt assms(4) by (auto simp: same_config_def lw2_def after_write_def)
qed

context log_disk
begin

lemma write_chunk_spec:
  assumes inv: "log_inv (wview w) lw" and fits: "fits_file (lw_geometry lw) c"
    and run: "write_chunk K seq b c (lw, w) = ((lw', w'), r)"
  shows "chunk_outcome (wview w) lw c (wview w') lw' r"
proof -
  let ?p = "chunk_position c"
  let ?f = "pos_file_id ?p"
  obtain lw1 w1 x where e: "ensure_file_for_chunk K seq ?p (lw, w) = ((lw1, w1), x)" by (metis surj_pair)
  note en = ensure_file_spec [OF inv e]
  show ?thesis
  proof (cases x)
    case (Err er)
    then show ?thesis using run e en by (auto simp: write_chunk_def chunk_outcome_def)
  next
    case (Ok prev)
    have "\<exists>h. lw_state lw1 = AS_Open ?f (pos_offset ?p) h"
      using en Ok by (auto split: option.splits)
    then obtain h where st: "lw_state lw1 = AS_Open ?f (pos_offset ?p) h" ..
    have inv1: "log_inv (wview w1) lw1" and k1: "kept (wview w) (wview w1)" using en by auto
    note open1 = log_inv_open [OF inv1 st]
    have at: "VLogPosition ?f 0 = ?p" if "pos_offset ?p = 0" using that by (metis vlog_position.collapse)
    have conf: "same_config lw lw1" and le: "lw_position lw \<le> ?p"
      using en Ok next_file_position [of "lw_state lw" ?f "lw_geometry lw"] at
      by (auto simp: same_config_def lw_position_def state_position_def split: option.splits)
    obtain lw2 w2 y where wr: "write_chunk_bytes K seq b prev c (lw1, w1) = ((lw2, w2), y)" by (metis surj_pair)
    from write_bytes_spec [OF st _ fits_file_bound [OF fits] wr] open1
    obtain k off where k: "k \<le> length (chunk_bytes c)" "unat off = unat (pos_offset ?p) + k"
      "wrote h (take k (chunk_bytes c)) (wview w1) (wview w2)"
      "lw2 = (if k = 0 then lw1 else after_write ?f off h lw1)"
      and y: "case y of Ok _ \<Rightarrow> k = length (chunk_bytes c)
       | Err (e, transient) \<Rightarrow> (transient \<longrightarrow> k = 0) \<and> (k = 0 \<and> \<not> transient \<longrightarrow> err_kind e \<noteq> ResourceExhausted)"
      by auto
    show ?thesis
    proof (cases "k = 0")
      case False
      have lw2: "lw2 = after_write ?f off h lw1" using k(4) False by simp
      note pr = chunk_progress [OF inv1 st k1 conf le k(3) False k(1) fits k(2), folded lw2]
      show ?thesis
      proof (cases y)
        case (Err q)
        then have "lw' = lw2" "w' = w2" "\<exists>e. r = Err e" using run e Ok wr y False
          by (auto simp: write_chunk_def split: prod.splits bool.splits option.splits)
        then show ?thesis using pr by (auto simp: chunk_outcome_def)
      next
        case yok: (Ok z)
        then have "finish_chunk K seq (lw2, w2) = ((lw', w'), r)" using run e Ok wr by (simp add: write_chunk_def)
        from finish_spec [OF conjunct1 [OF pr] this] have f: "log_inv (wview w') lw'" "wview w' = wview w2"
          "same_config lw2 lw'" "lw_position lw' = lw_position lw2" by auto
        have "k = length (chunk_bytes c)" using y yok by simp
        moreover have "same_config lw lw'" using pr f(3) by (auto simp: same_config_def)
        moreover have "lw_position lw < lw_position lw'" unfolding f(4) using pr by blast
        ultimately show ?thesis using pr f by (cases r) (simp_all add: chunk_outcome_def)
      qed
    next
      case True
      then have lw2: "lw2 = lw1" and wn: "wrote h [] (wview w1) (wview w2)" using k by simp_all
      obtain er transient where yy: "y = Err (er, transient)"
        using y True fits by (cases y) (auto simp: fits_file_def)
      have same: "same_files (wview w1) (wview w2)" "stays_synced {} {} (wview w1) (wview w2)"
        using wn by (simp_all add: wrote_def same_files_def)
      have k2: "kept (wview w) (wview w2)"
        by (rule kept_trans [OF k1 same_log_kept [OF same_files_log [OF same(1)]]])
      have exh: "err_kind er \<noteq> ResourceExhausted" if "\<not> transient" using y yy True that by simp
      show ?thesis
      proof (cases prev)
        case None
        then have "lw' = lw2" "w' = w2" "r = Err er" using run e Ok wr yy
          by (auto simp: write_chunk_def split: bool.splits)
        moreover have "lw1 = lw" "w1 = w" using en Ok None by auto
        ultimately show ?thesis
          using same lw2 k2 log_inv_same [OF inv] same_files_log by (auto simp: chunk_outcome_def)
      next
        case (Some p)
        have p: "p = lw_state lw" "next_file p ?f" "pos_offset ?p = 0" "created ?f h (wview w) (wview w1)"
          "lw1 = lw\<lparr>lw_pending_entries := Mapping.update ?f seq (lw_pending_entries lw), lw_state := AS_Open ?f 0 h\<rparr>"
          using en Ok Some st by auto
        show ?thesis
        proof (cases transient)
          case False
          then have "lw' = lw2" "w' = w2" "r = Err er" using run e Ok wr yy by (auto simp: write_chunk_def)
          then show ?thesis using exh False k2 conf lw2 by (auto simp: chunk_outcome_def)
        next
          case True
          obtain lw3 w3 z where rb: "rollback_new_empty_file K ?f p (lw1, w2) = ((lw3, w3), z)" by (metis surj_pair)
          then have res: "lw' = lw3" "w' = w3" "case z of Ok _ \<Rightarrow> r = Err er | Err q \<Rightarrow> r = Err (append_io seq ?f 0 True q)"
            using run e Ok wr yy lw2 True Some st p(3) by (auto simp: write_chunk_def split: result.splits)
          have "?f \<le> max_file_id (lw_geometry lw)"
            using inv1 st conf by (auto simp: log_inv_def files_inv_def same_config_def)
          from rollback_spec [OF inv _ this p(4) wn] rb p(1,2,5)
          have "kept (wview w) (wview w3) \<and> same_config lw lw3
             \<and> (z = Ok () \<longrightarrow> lw3 = lw \<and> same_log (wview w) (wview w3) \<and> log_inv (wview w3) lw)" by auto
          then show ?thesis using res by (cases z) (auto simp: append_io_exhausted chunk_outcome_def)
        qed
      qed
    qed
  qed
qed

end

section \<open>Appending an envelope\<close>

lemma writer_chunk_end_Ok:
  assumes "writer_chunk_end c g = Ok p" and "chunk_bytes c \<noteq> []"
  shows "p = chunk_stop c \<and> fits_file g c \<and> pos_file_id (chunk_position c) \<le> max_file_id g"
proof -
  let ?p = "chunk_position c"
  from assms(1) obtain len off where l: "u64_try_from (length (chunk_bytes c)) = Some len"
    "checked_add (pos_offset ?p) len = Some off" "\<not> (pos_file_id ?p > max_file_id g \<or> off > max_file_size g)"
    "p = VLogPosition (pos_file_id ?p) off"
    by (auto simp: writer_chunk_end_def Let_def and_then_Ok split: if_splits)
  have n: "len = word_of_nat (length (chunk_bytes c))" "length (chunk_bytes c) < 2 ^ 64"
    using l(1) by (auto simp: u64_try_from_def split: if_splits)
  then have "unat off = unat (pos_offset ?p) + length (chunk_bytes c)"
    using checked_add_unat [OF l(2)] by (simp add: unat_of_nat_small)
  moreover have "off = pos_offset ?p + len" using l(2) by (simp add: checked_add_Some)
  ultimately show ?thesis using l(3,4) n(1) assms(2)
    by (simp add: fits_file_def chunk_stop_def word_le_nat_alt not_less)
qed

lemma validate_chunks_Ok:
  assumes "validate_chunks E lw p cs = Ok q"
  shows "\<forall>c \<in> set cs. fits_file (lw_geometry lw) c \<and> pos_file_id (chunk_position c) \<le> max_file_id (lw_geometry lw)"
    and "cs \<noteq> [] \<Longrightarrow> q = chunk_stop (last cs)"
proof -
  have "(\<forall>c \<in> set cs. fits_file (lw_geometry lw) c \<and> pos_file_id (chunk_position c) \<le> max_file_id (lw_geometry lw))
    \<and> (cs \<noteq> [] \<longrightarrow> q = chunk_stop (last cs))"
    using assms
  proof (induction cs arbitrary: p)
    case (Cons c cs)
    then obtain s t where c: "chunk_bytes c \<noteq> []" "writer_chunk_end c (lw_geometry lw) = Ok s"
      "validate_chunks E lw t cs = Ok q" "cs = [] \<longrightarrow> t = s"
      by (auto simp: and_then_Ok split: if_splits)
    show ?case using Cons.IH [OF c(3)] writer_chunk_end_Ok [OF c(2,1)] c(3,4) by auto
  qed simp
  then show "\<forall>c \<in> set cs. fits_file (lw_geometry lw) c \<and> pos_file_id (chunk_position c) \<le> max_file_id (lw_geometry lw)"
    and "cs \<noteq> [] \<Longrightarrow> q = chunk_stop (last cs)" by blast+
qed

definition chunks_outcome ::
  "vlog_position \<Rightarrow> disk_view \<Rightarrow> vlog_writer \<Rightarrow> physical_chunk list \<Rightarrow> disk_view \<Rightarrow> vlog_writer \<Rightarrow> unit res \<Rightarrow> bool" where
  "chunks_outcome b v lw cs v' lw' r \<longleftrightarrow> kept v v' \<and> same_config lw (lw'\<lparr>lw_append_failed := lw_append_failed lw\<rparr>)
     \<and> (case r of
          Ok _ \<Rightarrow> log_inv v' lw' \<and> same_config lw lw' \<and> (\<forall>c \<in> set cs. stored v' c)
            \<and> lw_position lw' = (if cs = [] then lw_position lw else chunk_stop (last cs))
        | Err e \<Rightarrow> lw_append_failed lw' \<or> lw' = lw \<and> same_log v v' \<and> log_inv v' lw \<and> lw_position lw = b)"

lemma log_inv_config:
  "log_inv v (lw\<lparr>lw_append_failed := x\<rparr>) = log_inv v lw" "log_inv v (lw\<lparr>lw_last_appended := y\<rparr>) = log_inv v lw"
  "log_inv v (lw\<lparr>lw_pending_sync_id := s\<rparr>) = log_inv v lw" "log_inv v (lw\<lparr>lw_next_sync_id := n\<rparr>) = log_inv v lw"
  by (simp_all add: log_inv_def)

context log_disk
begin

lemma write_chunks_spec:
  assumes "log_inv (wview w) lw" and "b \<le> lw_position lw"
    and "\<forall>c \<in> set cs. fits_file (lw_geometry lw) c \<and> pos_file_id (chunk_position c) \<le> MAX_VLOG_FILE_ID"
    and "write_chunks K seq b cs (lw, w) = ((lw', w'), r)"
  shows "chunks_outcome b (wview w) lw cs (wview w') lw' r"
  using assms
proof (induction cs arbitrary: lw w)
  case Nil
  then show ?case by (auto simp: chunks_outcome_def same_config_def)
next
  case (Cons c cs)
  obtain lw1 w1 x where e: "write_chunk K seq b c (lw, w) = ((lw1, w1), x)" by (metis surj_pair)
  have "fits_file (lw_geometry lw) c" using Cons.prems(3) by simp
  note o = write_chunk_spec [OF Cons.prems(1) this e, unfolded chunk_outcome_def]
  show ?case
  proof (cases x)
    case (Err er)
    then have "w' = w1" "r = Err er"
      "lw' = (if err_kind er = ResourceExhausted \<and> lw_position lw1 = b then lw1 else lw1\<lparr>lw_append_failed := True\<rparr>)"
      using Cons.prems(4) e by (auto split: if_splits)
    then show ?thesis using o Err Cons.prems(2)
      by (auto simp: chunks_outcome_def same_config_def not_less [symmetric])
  next
    case (Ok u)
    have o1: "kept (wview w) (wview w1)" "same_config lw lw1" "log_inv (wview w1) lw1" "stored (wview w1) c"
      "lw_position lw < lw_position lw1" "lw_position lw1 = chunk_stop c" using o Ok by auto
    have g: "lw_geometry lw1 = lw_geometry lw" using o1(2) by (simp add: same_config_def)
    have b: "b < lw_position lw1" using Cons.prems(2) o1(5) by simp
    have "write_chunks K seq b cs (lw1, w1) = ((lw', w'), r)" using Cons.prems(4) e Ok by simp
    from Cons.IH [OF o1(3) less_imp_le [OF b] _ this] Cons.prems(3) g
    have ih: "chunks_outcome b (wview w1) lw1 cs (wview w') lw' r" by simp
    then have k: "kept (wview w1) (wview w')" by (simp add: chunks_outcome_def)
    then have "kept (wview w) (wview w')" by (rule kept_trans [OF o1(1)])
    moreover have "stored (wview w') c" using stored_kept [OF o1(4) k] Cons.prems(3) by simp
    moreover have "lw_position lw' = chunk_stop (last (c # cs))" if "r = Ok ()"
      using ih that o1(6) by (simp add: chunks_outcome_def)
    ultimately show ?thesis using ih o1(2) b
      by (auto simp: chunks_outcome_def same_config_def split: result.splits)
  qed
qed

end

definition append_outcome ::
  "prepared_envelope \<Rightarrow> disk_view \<Rightarrow> vlog_writer \<Rightarrow> disk_view \<Rightarrow> vlog_writer \<Rightarrow> unit res \<Rightarrow> bool" where
  "append_outcome envelope v lw v' lw' r \<longleftrightarrow> kept v v' \<and> lw_geometry lw' = lw_geometry lw
     \<and> lw_pending_sync_id lw' = lw_pending_sync_id lw \<and> lw_next_sync_id lw' = lw_next_sync_id lw
     \<and> (case r of
          Ok _ \<Rightarrow> log_inv v' lw' \<and> (\<forall>c \<in> set (pe_chunks envelope). stored v' c)
            \<and> lw_position lw = pe_vlog_begin envelope \<and> lw_position lw' = pe_vlog_end envelope
            \<and> lw_last_appended lw' = Some (pe_commit_seq envelope, pe_vlog_end envelope)
            \<and> \<not> lw_append_failed lw' \<and> lw_pending_sync_id lw' = None
        | Err e \<Rightarrow> lw_append_failed lw' \<or> lw' = lw \<and> same_log v v' \<and> log_inv v' lw)"

lemma append_guard_Ok: "append_guard lw envelope = Ok u \<Longrightarrow> \<not> lw_append_failed lw \<and> lw_pending_sync_id lw = None"
  by (simp add: append_guard_def split: if_splits)

lemma validate_envelope_Ok:
  assumes "validate_envelope_chunks E lw envelope = Ok u" and "geometry_ok (lw_geometry lw)"
  shows "pe_vlog_begin envelope = lw_position lw" "pe_chunks envelope \<noteq> []"
    "pe_vlog_end envelope = chunk_stop (last (pe_chunks envelope))"
    "\<forall>c \<in> set (pe_chunks envelope). fits_file (lw_geometry lw) c \<and> pos_file_id (chunk_position c) \<le> MAX_VLOG_FILE_ID"
  using assms validate_chunks_Ok [of E lw _ "pe_chunks envelope"] max_file_id_le [OF assms(2)]
  by (auto simp: validate_envelope_chunks_def and_then_Ok split: if_splits)

text \<open>Everything in the log is on stable storage.\<close>

definition log_durable :: "disk_view \<Rightarrow> bool" where
  "log_durable v \<longleftrightarrow> (\<forall>f \<le> MAX_VLOG_FILE_ID. \<forall>h. file_handle v f = Some h \<longrightarrow>
     (dv_content v h = [] \<or> dv_synced v h) \<and> dv_synced_entry v (vlog_name f))"

definition durable_part :: "u32 set \<Rightarrow> u32 set \<Rightarrow> disk_view \<Rightarrow> bool" where
  "durable_part files entries v \<longleftrightarrow>
     (\<forall>f \<in> files. \<forall>h. f \<le> MAX_VLOG_FILE_ID \<and> file_handle v f = Some h \<longrightarrow> dv_synced v h)
     \<and> (\<forall>f \<in> entries. dv_synced_entry v (vlog_name f))"

lemma log_durable_clean:
  assumes "dirty_inv v st dirty entries" and "durable_part dirty entries v"
  shows "log_durable v"
  using assms unfolding log_durable_def dirty_inv_def durable_part_def by blast

lemma sync_guard_all:
  assumes "sync_guard lw seq stop = Ok u" and "dirty_inv v (lw_state lw) (lw_dirty_files lw) (Mapping.keys (lw_pending_entries lw))"
  shows "frontier_files lw stop = lw_dirty_files lw" "frontier_entries lw seq stop = Mapping.keys (lw_pending_entries lw)"
    "\<not> lw_append_failed lw" "lw_pending_sync_id lw = None"
proof -
  note g = assms(1) [unfolded sync_guard_def]
  show f: "\<not> lw_append_failed lw" "lw_pending_sync_id lw = None" using g by (auto split: if_splits)
  have w: "within_end stop f" if "in_log (lw_state lw) f" for f
  proof (cases stop)
    case None
    then have "lw_state lw = AS_Empty" using g f by (auto simp: and_then_Ok split: if_splits)
    then show ?thesis using that by (simp add: in_log_def)
  next
    case (Some p)
    then have "p = lw_position lw" using g f by (auto simp: and_then_Ok split: if_splits)
    then show ?thesis using that Some
      by (cases "lw_state lw") (simp_all add: in_log_def within_end_def lw_position_def state_position_def)
  qed
  then show "frontier_files lw stop = lw_dirty_files lw"
    using assms(2) by (auto simp: frontier_files_def dirty_inv_def)
  have "\<not> (\<exists>f \<in> Mapping.keys (lw_pending_entries lw).
      case Mapping.lookup (lw_pending_entries lw) f of Some created_by \<Rightarrow> created_by > seq | None \<Rightarrow> False)"
    using g f by (auto simp: and_then_Ok split: if_splits)
  then show "frontier_entries lw seq stop = Mapping.keys (lw_pending_entries lw)"
    using w assms(2) unfolding frontier_entries_def dirty_inv_def
    by (auto simp: not_less dest: in_keysD split: option.splits)
qed

context log_disk
begin

lemma append_spec:
  assumes "log_inv (wview w) lw" and "ValueLogWriter_append E K envelope (lw, w) = ((lw', w'), r)"
  shows "append_outcome envelope (wview w) lw (wview w') lw' r"
proof (cases "and_then (append_guard lw envelope) (\<lambda>_. validate_envelope_chunks E lw envelope)")
  case (Err e)
  then have "lw' = lw" "w' = w" "r = Err e" using assms(2) by (simp_all add: ValueLogWriter_append_def)
  then show ?thesis using assms(1) by (simp add: append_outcome_def)
next
  case (Ok u)
  have g: "geometry_ok (lw_geometry lw)" using assms(1) by (simp add: log_inv_def files_inv_def)
  from Ok have gd: "\<not> lw_append_failed lw" "lw_pending_sync_id lw = None"
    and ve: "validate_envelope_chunks E lw envelope = Ok u"
    using append_guard_Ok by (auto simp: and_then_Ok)
  note v = validate_envelope_Ok [OF ve g]
  let ?run = "write_chunks K (pe_commit_seq envelope) (pe_vlog_begin envelope) (pe_chunks envelope) (lw, w)"
  obtain lw1 w1 x where e: "?run = ((lw1, w1), x)" by (metis surj_pair)
  have "pe_vlog_begin envelope \<le> lw_position lw" using v(1) by simp
  note o = write_chunks_spec [OF assms(1) this v(4) e, unfolded chunks_outcome_def]
  show ?thesis
  proof (cases x)
    case Err
    then have "lw' = lw1" "w' = w1" "\<exists>e. r = Err e" using assms(2) Ok e by (auto simp: ValueLogWriter_append_def)
    then show ?thesis using o Err by (auto simp: append_outcome_def same_config_def)
  next
    case x: (Ok y)
    then have "lw' = lw1\<lparr>lw_last_appended := Some (pe_commit_seq envelope, pe_vlog_end envelope)\<rparr>" "w' = w1" "r = Ok ()"
      using assms(2) Ok e o v(2,3) by (auto simp: ValueLogWriter_append_def)
    then show ?thesis using o x v gd
      by (auto simp: append_outcome_def same_config_def log_inv_config) (simp add: lw_position_def)
  qed
qed

lemma verify_keeps: "catalog_verify K f h w = (w', r) \<Longrightarrow> wview w' = wview w"
  by (cases r) (auto simp: catalog_verify_def catalog_identity_def act_simps on_disk_eq dest!: metadata_keeps split: if_splits)

definition file_synced :: "u32 \<Rightarrow> 'd log_world \<Rightarrow> 'd log_world \<Rightarrow> unit res \<Rightarrow> bool" where
  "file_synced f w w' r \<longleftrightarrow> (\<exists>e. r = Err e \<and> wview w' = wview w)
    \<or> (\<exists>h d z. os_sync_file K h d = (wd_disk w', z) \<and> view d = wview w \<and> file_handle (wview w) f = Some h
         \<and> (r = Ok () \<longrightarrow> z = Ok ()))"

lemma file_syncedI:
  assumes "on_disk (os_sync_file K h) w1 = (w', z)" and "wview w1 = wview w" and "file_handle (wview w) f = Some h"
    and "r = Ok () \<longrightarrow> z = Ok ()"
  shows "file_synced f w w' r"
proof -
  obtain d where "os_sync_file K h (wd_disk w1) = (d, z)" "w' = w1\<lparr>wd_disk := d\<rparr>"
    using assms(1) by (auto simp: on_disk_eq)
  then have "os_sync_file K h (wd_disk w1) = (wd_disk w', z)" by simp
  then show ?thesis unfolding file_synced_def using assms(2-4) by blast
qed

lemma sync_closed_cases:
  assumes "sync_closed_file K f seq lw w = (w', r)"
  shows "file_synced f w w' r"
proof (cases r)
  case (Ok u)
  then obtain h w1 w2 where o: "open_writable K f w = (w1, Ok h)" and v: "catalog_verify K f h w1 = (w2, Ok ())"
    and s: "on_disk (os_sync_file K h) w2 = (w', Ok ())"
    using assms by (auto simp: sync_closed_file_def act_simps)
  from s show ?thesis
    by (rule file_syncedI) (use open_writable_ok [OF o] verify_keeps [OF v] in \<open>simp_all add: file_handle_def\<close>)
next
  case (Err e)
  then consider "\<exists>x. open_writable K f w = (w', Err x)"
    | h w1 x where "open_writable K f w = (w1, Ok h)" "catalog_verify K f h w1 = (w', Err x)"
    | h w1 w2 x where "open_writable K f w = (w1, Ok h)" "catalog_verify K f h w1 = (w2, Ok ())"
       "on_disk (os_sync_file K h) w2 = (w', Err x)"
    using assms by (auto simp: sync_closed_file_def act_simps)
  then show ?thesis
  proof cases
    case 1
    then show ?thesis using open_keeps_world(1) Err by (auto simp: file_synced_def)
  next
    case 2
    then show ?thesis using open_writable_ok(3) [OF 2(1)] verify_keeps [OF 2(2)] Err by (simp add: file_synced_def)
  next
    case 3
    from 3(3) show ?thesis
      by (rule file_syncedI) (use open_writable_ok [OF 3(1)] verify_keeps [OF 3(2)] Err in \<open>simp_all add: file_handle_def\<close>)
  qed
qed

lemma sync_one_cases:
  assumes "sync_one_file K f seq lw w = (w', r)" and "log_inv (wview w) lw"
  shows "file_synced f w w' r"
proof (cases "\<exists>off h. lw_state lw = AS_Open f off h")
  case False
  then have "sync_closed_file K f seq lw w = (w', r)"
    using assms(1) by (auto simp: sync_one_file_def split: append_state.splits)
  then show ?thesis by (rule sync_closed_cases)
next
  case True
  then obtain off h where st: "lw_state lw = AS_Open f off h" by blast
  then obtain z where z: "on_disk (os_sync_file K h) w = (w', z)" "r = Ok () \<longrightarrow> z = Ok ()"
    using assms(1) by (cases r) (auto simp: sync_one_file_def act_simps)
  then show ?thesis using log_inv_open [OF assms(2) st] by (intro file_syncedI) auto
qed

lemma sync_files_spec:
  assumes "sync_files K seq lw fs w = (w', r)" and "log_inv (wview w) lw"
  shows "same_files (wview w) (wview w')
    \<and> (r = Ok () \<longrightarrow> stays_synced {} {} (wview w) (wview w') \<and> durable_part (set fs) {} (wview w'))"
  using assms
proof (induction fs arbitrary: w)
  case Nil
  then show ?case by (simp add: durable_part_def)
next
  case (Cons f fs)
  obtain w1 x where e: "sync_one_file K f seq lw w = (w1, x)" by (metis surj_pair)
  note cs = sync_one_cases [OF e Cons.prems(2), unfolded file_synced_def]
  have same1: "same_files (wview w) (wview w1)" using cs sync_file_keeps by (auto simp: same_files_def)
  show ?case
  proof (cases x)
    case (Err er)
    then show ?thesis using Cons.prems(1) e same1 by (auto simp: act_bind_def)
  next
    case (Ok u)
    then obtain h d where h: "os_sync_file K h d = (wd_disk w1, Ok ())" "view d = wview w" "file_handle (wview w) f = Some h"
      using cs by auto
    have st: "stays_synced {} {} (wview w) (wview w1)" and sy: "dv_synced (wview w1) h"
      using sync_file_keeps [OF h(1)] sync_file_ok [OF h(1)] h(2) by (auto simp: stays_synced_def)
    have rest: "sync_files K seq lw fs w1 = (w', r)" using Cons.prems(1) e Ok by (simp add: act_bind_def)
    note ih = Cons.IH [OF rest log_inv_same [OF Cons.prems(2) same1 st]]
    have "file_handle (wview w') f = Some h" using h(3) same1 ih by (simp add: same_files_def file_handle_def)
    then show ?thesis using ih same1 st sy by (auto simp: same_files_def stays_synced_def durable_part_def)
  qed
qed

end

section \<open>Runs of the writer\<close>

text \<open>
  Everything a writer may be asked for, in any order and with any outcome. The tokens are the
  synchronizations that have been handed out and not yet been given back.
\<close>

type_synonym 'd writer_system = "vlog_writer \<times> 'd log_world \<times> frontier_sync set"

inductive writer_step :: "env \<Rightarrow> 'd os_ops \<Rightarrow> 'd writer_system \<Rightarrow> 'd writer_system \<Rightarrow> bool"
  for E :: env and K :: "'d os_ops" where
  append: "ValueLogWriter_append E K envelope (lw, w) = ((lw', w'), r) \<Longrightarrow>
    writer_step E K (lw, w, T) (lw', w', T)"
| sync: "sync_through K seq stop (lw, w) = ((lw', w'), Ok t) \<Longrightarrow>
    writer_step E K (lw, w, T) (lw', w', insert t T)"
| sync_error: "sync_through K seq stop (lw, w) = ((lw', w'), Err e) \<Longrightarrow>
    writer_step E K (lw, w, T) (lw', w', T)"
| succeeded: "t \<in> T \<Longrightarrow> frontier_succeeded t lw = (lw', r) \<Longrightarrow>
    writer_step E K (lw, w, T) (lw', w, T - {t})"
| failed: "t \<in> T \<Longrightarrow> frontier_failed t lw = (lw', r) \<Longrightarrow>
    writer_step E K (lw, w, T) (lw', w, T - {t})"

definition system_view :: "('d \<Rightarrow> disk_view) \<Rightarrow> 'd writer_system \<Rightarrow> disk_view" where
  "system_view view s = view (wd_disk (fst (snd s)))"

definition tokens_inv :: "disk_view \<Rightarrow> vlog_writer \<Rightarrow> frontier_sync set \<Rightarrow> bool" where
  "tokens_inv v lw T \<longleftrightarrow> (\<forall>t \<in> T. lw_pending_sync_id lw = Some (sy_id t) \<longrightarrow>
     durable_part (sy_files t) (sy_directory_entries t) v)"

definition writer_inv :: "('d \<Rightarrow> disk_view) \<Rightarrow> 'd writer_system \<Rightarrow> bool" where
  "writer_inv view s \<longleftrightarrow> (case s of (lw, w, T) \<Rightarrow>
     (\<forall>t \<in> T. sy_id t < lw_next_sync_id lw)
     \<and> (\<not> lw_append_failed lw \<longrightarrow> log_inv (view (wd_disk w)) lw \<and> tokens_inv (view (wd_disk w)) lw T))"

definition sync_outcome ::
  "disk_view \<Rightarrow> vlog_writer \<Rightarrow> disk_view \<Rightarrow> vlog_writer \<Rightarrow> frontier_sync res \<Rightarrow> bool" where
  "sync_outcome v lw v' lw' r \<longleftrightarrow> same_files v v' \<and> lw_next_sync_id lw \<le> lw_next_sync_id lw'
     \<and> (case r of
          Ok t \<Rightarrow> log_inv v' lw' \<and> log_durable v' \<and> sy_id t = lw_next_sync_id lw
            \<and> unat (lw_next_sync_id lw') = Suc (unat (lw_next_sync_id lw))
            \<and> lw' = lw\<lparr>lw_next_sync_id := lw_next_sync_id lw', lw_pending_sync_id := Some (sy_id t)\<rparr>
            \<and> lw_pending_sync_id lw = None \<and> sy_files t = lw_dirty_files lw
            \<and> sy_directory_entries t = Mapping.keys (lw_pending_entries lw)
            \<and> durable_part (sy_files t) (sy_directory_entries t) v'
        | Err e \<Rightarrow> lw_append_failed lw' \<or> lw' = lw \<and> v' = v)"

lemma succeeded_inv:
  assumes "log_inv v lw" and "durable_part (sy_files t) (sy_directory_entries t) v"
  shows "log_inv v (lw\<lparr>lw_dirty_files := lw_dirty_files lw - sy_files t,
      lw_pending_entries := Mapping.filter (\<lambda>f _. f \<notin> sy_directory_entries t) (lw_pending_entries lw),
      lw_pending_sync_id := None\<rparr>)"
proof -
  have keys: "Mapping.keys (Mapping.filter (\<lambda>f _. f \<notin> sy_directory_entries t) (lw_pending_entries lw))
      = Mapping.keys (lw_pending_entries lw) - sy_directory_entries t"
    by (auto simp: keys_dom_lookup lookup_filter split: option.splits if_splits)
  have "dirty_inv v (lw_state lw) (lw_dirty_files lw - sy_files t)
      (Mapping.keys (lw_pending_entries lw) - sy_directory_entries t)"
    using assms unfolding log_inv_def dirty_inv_def durable_part_def by blast
  then show ?thesis using assms(1) by (simp add: log_inv_def keys)
qed

context log_disk
begin

lemma append_busy:
  "lw_append_failed lw \<or> lw_pending_sync_id lw \<noteq> None \<Longrightarrow> \<exists>e. ValueLogWriter_append E K envelope (lw, w) = ((lw, w), Err e)"
  by (auto simp: ValueLogWriter_append_def append_guard_def)

lemma sync_busy:
  "lw_append_failed lw \<Longrightarrow> \<exists>e. sync_through K seq stop (lw, w) = ((lw, w), Err e)"
  by (auto simp: sync_through_def sync_guard_def)

lemma sync_spec:
  assumes "log_inv (wview w) lw" and "sync_through K seq stop (lw, w) = ((lw', w'), r)"
  shows "sync_outcome (wview w) lw (wview w') lw' r"
proof (cases "sync_guard lw seq stop")
  case (Err e)
  then show ?thesis using assms(2) by (auto simp: sync_through_def sync_outcome_def)
next
  case (Ok u)
  have di: "dirty_inv (wview w) (lw_state lw) (lw_dirty_files lw) (Mapping.keys (lw_pending_entries lw))"
    using assms(1) by (simp add: log_inv_def)
  note g = sync_guard_all [OF Ok di]
  let ?fs = "sorted_list_of_set (lw_dirty_files lw)" and ?es = "Mapping.keys (lw_pending_entries lw)"
  obtain w1 x where e1: "sync_files K seq lw ?fs w = (w1, x)" by (metis surj_pair)
  note s1 = sync_files_spec [OF e1 assms(1)]
  obtain w2 y where e2: "(if ?es \<noteq> {} then act_map_err (sync_directory_io seq stop) (directory_sync K) w1 else (w1, Ok ())) = (w2, y)"
    (is "?dir = _") by (metis surj_pair)
  have s2: "same_files (wview w1) (wview w2)" "stays_synced {} {} (wview w1) (wview w2)"
    "y = Ok () \<longrightarrow> durable_part {} ?es (wview w2)"
    using e2 sync_directory_keeps sync_directory_ok
    by (cases y; force simp: directory_sync_def on_disk_eq act_simps durable_part_def split: if_splits)+
  have r: "sync_through K seq stop (lw, w) = (case x of
      Err e \<Rightarrow> ((lw\<lparr>lw_append_failed := True\<rparr>, w1), Err e)
    | Ok _ \<Rightarrow> (case y of Err e \<Rightarrow> ((lw\<lparr>lw_append_failed := True\<rparr>, w2), Err e)
      | Ok _ \<Rightarrow> (case checked_add (lw_next_sync_id lw) 1 of
          None \<Rightarrow> ((lw\<lparr>lw_append_failed := True\<rparr>, w2), Err (sync_state_error seq stop))
        | Some n \<Rightarrow> ((lw\<lparr>lw_next_sync_id := n, lw_pending_sync_id := Some (lw_next_sync_id lw)\<rparr>, w2),
             Ok \<lparr>sy_id = lw_next_sync_id lw, sy_target_seq = seq, sy_target_end = stop,
                 sy_files = lw_dirty_files lw, sy_directory_entries = ?es\<rparr>))))"
    unfolding sync_through_def Let_def split_conv Ok result.case g e1 e2 by (cases x) (simp_all add: e2)
  show ?thesis
  proof (cases "x = Ok () \<and> y = Ok () \<and> checked_add (lw_next_sync_id lw) 1 \<noteq> None")
    case False
    then have "lw_append_failed lw'" "\<exists>e. r = Err e" "lw_next_sync_id lw' = lw_next_sync_id lw" "w' = w1 \<or> w' = w2"
      using assms(2) r by (auto split: result.splits option.splits)
    then show ?thesis using s1 s2(1) by (auto simp: sync_outcome_def same_files_def)
  next
    case True
    then obtain n where n: "checked_add (lw_next_sync_id lw) 1 = Some n" by auto
    have un: "unat n = Suc (unat (lw_next_sync_id lw))" using checked_add_unat [OF n] by simp
    have lw': "lw' = lw\<lparr>lw_next_sync_id := n, lw_pending_sync_id := Some (lw_next_sync_id lw)\<rparr>" "w' = w2"
      "r = Ok \<lparr>sy_id = lw_next_sync_id lw, sy_target_seq = seq, sy_target_end = stop,
                 sy_files = lw_dirty_files lw, sy_directory_entries = ?es\<rparr>"
      using assms(2) r True n by auto
    have same: "same_files (wview w) (wview w2)" "stays_synced {} {} (wview w) (wview w2)"
      using s1 s2 True by (auto simp: same_files_def stays_synced_def)
    have "durable_part (lw_dirty_files lw) {} (wview w1)" using s1 True by simp
    then have part: "durable_part (lw_dirty_files lw) ?es (wview w2)"
      using s2 True by (auto simp: durable_part_def same_files_def file_handle_def stays_synced_def)
    note inv2 = log_inv_same [OF assms(1) same]
    then have "log_durable (wview w2)" using part log_durable_clean by (auto simp: log_inv_def)
    then show ?thesis using same inv2 part lw' g un
      by (simp add: sync_outcome_def log_inv_config word_le_nat_alt)
  qed
qed

end

lemma consume_sync_Ok: "consume_sync lw t = Ok u \<longleftrightarrow> lw_pending_sync_id lw = Some (sy_id t)"
  by (simp add: consume_sync_def)

lemma succeeded_cases:
  assumes "frontier_succeeded t lw = (lw', r)"
  shows "lw' = lw \<or> lw_pending_sync_id lw = Some (sy_id t)
     \<and> lw' = lw\<lparr>lw_dirty_files := lw_dirty_files lw - sy_files t,
      lw_pending_entries := Mapping.filter (\<lambda>f _. f \<notin> sy_directory_entries t) (lw_pending_entries lw),
      lw_pending_sync_id := None\<rparr>"
  using assms by (auto simp: frontier_succeeded_def consume_sync_Ok split: result.splits)

lemma failed_cases:
  assumes "frontier_failed t lw = (lw', r)"
  shows "lw' = lw \<or> lw' = lw\<lparr>lw_pending_sync_id := None, lw_append_failed := True\<rparr>"
  using assms by (auto simp: frontier_failed_def split: result.splits)

context log_disk
begin

lemma append_keeps_inv:
  assumes "writer_inv view (lw, w, T)" and "ValueLogWriter_append E K envelope (lw, w) = ((lw', w'), r)"
  shows "writer_inv view (lw', w', T) \<and> kept (wview w) (wview w')"
proof (cases "lw_append_failed lw \<or> lw_pending_sync_id lw \<noteq> None")
  case True
  then show ?thesis using assms append_busy [of lw E envelope w] by auto
next
  case False
  then have "log_inv (wview w) lw" using assms(1) by (simp add: writer_inv_def)
  note o = append_spec [OF this assms(2), unfolded append_outcome_def]
  have "lw_pending_sync_id lw' = None" using o False by simp
  then have "tokens_inv (wview w') lw' T" by (simp add: tokens_inv_def)
  then show ?thesis using o assms(1) by (auto simp: writer_inv_def split: result.splits)
qed

lemma sync_keeps_inv:
  assumes "writer_inv view (lw, w, T)" and "sync_through K seq stop (lw, w) = ((lw', w'), r)"
  shows "writer_inv view (lw', w', case r of Ok t \<Rightarrow> insert t T | Err e \<Rightarrow> T) \<and> kept (wview w) (wview w')"
proof (cases "lw_append_failed lw \<or> sync_guard lw seq stop \<noteq> Ok ()")
  case True
  then have "\<exists>e. sync_through K seq stop (lw, w) = ((lw, w), Err e)"
    using sync_busy [of lw seq stop w] by (cases "sync_guard lw seq stop") (auto simp: sync_through_def)
  then show ?thesis using assms by auto
next
  case False
  then have inv: "log_inv (wview w) lw" using assms(1) by (simp add: writer_inv_def)
  note o = sync_spec [OF this assms(2), unfolded sync_outcome_def]
  have k: "kept (wview w) (wview w')" using o same_files_log same_log_kept by blast
  have ids: "\<forall>t \<in> T. sy_id t < lw_next_sync_id lw" using assms(1) by (simp add: writer_inv_def)
  show ?thesis
  proof (cases r)
    case (Ok t)
    then have up: "lw' = lw\<lparr>lw_next_sync_id := lw_next_sync_id lw', lw_pending_sync_id := Some (sy_id t)\<rparr>" using o unfolding Ok result.case by blast
    have t: "sy_id t = lw_next_sync_id lw" "lw_next_sync_id lw < lw_next_sync_id lw'"
      "durable_part (sy_files t) (sy_directory_entries t) (wview w')"
      using o Ok by (auto simp: word_less_nat_alt)
    have p: "lw_pending_sync_id lw' = Some (sy_id t)" by (subst up) simp
    have "tokens_inv (wview w') lw' (insert t T)"
      using ids t(1,3) p by (auto simp: tokens_inv_def)
    moreover have "\<forall>s \<in> insert t T. sy_id s < lw_next_sync_id lw'" using ids t(1,2) by auto
    ultimately show ?thesis using k o Ok by (auto simp: writer_inv_def)
  next
    case (Err e)
    have "lw_pending_sync_id lw = None"
      using sync_guard_all(4) [of lw seq stop] False inv by (auto simp: log_inv_def)
    then have tk: "tokens_inv (wview w') lw T" by (simp add: tokens_inv_def)
    have le: "lw_next_sync_id lw \<le> lw_next_sync_id lw'" using o by simp
    show ?thesis using k o Err ids tk le inv by (auto simp: writer_inv_def)
  qed
qed

lemma step_keeps_inv:
  assumes "writer_step E K s s'" and "writer_inv view s"
  shows "writer_inv view s' \<and> kept (system_view view s) (system_view view s')"
  using assms
proof cases
  case (append envelope lw w lw' w' r T)
  then show ?thesis using append_keeps_inv assms(2) by (simp add: system_view_def)
next
  case (sync seq stop lw w lw' w' t T)
  then show ?thesis using sync_keeps_inv [of lw w T seq stop lw' w' "Ok t"] assms(2) by (simp add: system_view_def)
next
  case (sync_error seq stop lw w lw' w' e T)
  then show ?thesis using sync_keeps_inv [of lw w T seq stop lw' w' "Err e"] assms(2) by (simp add: system_view_def)
next
  case (succeeded t T lw lw' r w)
  then show ?thesis
    using succeeded_cases [OF succeeded(4)] succeeded_inv [of "wview w" lw t] assms(2)
    by (auto simp: system_view_def writer_inv_def tokens_inv_def)
next
  case (failed t T lw lw' r w)
  then show ?thesis using failed_cases [OF failed(4)] assms(2)
    by (auto simp: system_view_def writer_inv_def tokens_inv_def)
qed

lemma run_keeps_inv:
  assumes "(writer_step E K)\<^sup>*\<^sup>* s s'" and "writer_inv view s"
  shows "writer_inv view s' \<and> kept (system_view view s) (system_view view s')"
  using assms
proof induction
  case base
  then show ?case by simp
next
  case (step s1 s2)
  then show ?case using step_keeps_inv [OF step.hyps(2)] kept_trans by blast
qed

end

section \<open>The writer's guarantees\<close>

text \<open>A log of one open file in memory, for the witnesses; every call transfers at most two bytes.\<close>

definition sample_os :: "mem_disk os_ops" where
  "sample_os = mem_os (\<lambda>_. None) (\<lambda>_. 2)"

definition sample_log :: "bool \<Rightarrow> mem_disk log_world" where
  "sample_log synced =
     \<lparr>wd_disk = \<lparr>mk_clock = 0, mk_next = 1, mk_entries = [(vlog_name 0, 0)], mk_content = (\<lambda>_. replicate 100 7),
        mk_synced = (\<lambda>_. synced), mk_synced_entry = (\<lambda>_. True)\<rparr>,
      wd_catalog = Mapping.empty, wd_cache = cache_empty\<rparr>"

definition sample_writer :: vlog_writer where
  "sample_writer = (writer_of 1 PRODUCTION (AS_Open 0 100 0))\<lparr>lw_dirty_files := {0}\<rparr>"

definition sample_append :: prepared_envelope where
  "sample_append =
     \<lparr>pe_commit_seq = 1, pe_tx_uuid = 1, pe_vlog_begin = VLogPosition 0 100, pe_vlog_end = VLogPosition 0 103,
      pe_envelope_crc32c = 0, pe_chunks = [\<lparr>chunk_position = VLogPosition 0 100, chunk_bytes = [1, 2, 3]\<rparr>],
      pe_value_pointers = []\<rparr>"

lemma sample_log_disk: "log_disk sample_os mem_disk_view mem_ident"
  unfolding sample_os_def by (rule mem.log_disk_axioms)

lemma sample_handle:
  "file_handle (mem_disk_view (wd_disk (sample_log s))) f = (if vlog_name f = vlog_name 0 then Some 0 else None)"
  by (simp add: file_handle_def mem_disk_view_def sample_log_def)

lemma sample_writer_inv: "log_inv (mem_disk_view (wd_disk (sample_log s))) sample_writer"
proof -
  have z: "vlog_name f = vlog_name 0 \<longleftrightarrow> f = 0" if "f \<le> MAX_VLOG_FILE_ID" for f
    using vlog_name_inj [of f 0] that by (auto simp: MAX_VLOG_FILE_ID_def)
  have "files_inv (mem_disk_view (wd_disk (sample_log s))) PRODUCTION (AS_Open 0 100 0)"
    unfolding files_inv_def sample_handle
    by (auto simp: z in_log_def sample_log_def mem_disk_view_def PRODUCTION_def geometry_ok_def
        MAX_VLOG_FILE_SIZE_def VLOG_PAGE_SIZE_def MAX_VLOG_FILE_ID_def)
  moreover have "dirty_inv (mem_disk_view (wd_disk (sample_log s))) (AS_Open 0 100 0) {0} {}"
    unfolding dirty_inv_def sample_handle
    by (auto simp: z in_log_def sample_log_def mem_disk_view_def)
  ultimately show ?thesis by (simp add: log_inv_def sample_writer_def writer_of_def)
qed

lemma append_stopped:
  assumes "lw_append_failed lw"
  shows "ValueLogWriter_append E K envelope (lw, w)
    = ((lw, w), Err (writer_stopped (pe_commit_seq envelope) (pe_vlog_begin envelope)))"
  using assms by (simp add: ValueLogWriter_append_def append_guard_def)

text \<open>
  C36: An append that succeeds has written exactly its envelope. On a directory that behaves as
  documented, from a writer whose state matches its files: the writer was at the beginning of the
  envelope and is now at its end, the bytes of every chunk stand at the chunk's position, every
  byte that was in the log is still there, and the writer's state matches its files again.
\<close>

theorem append_writes_envelope:
  assumes "log_disk K view ident" and "log_inv (view (wd_disk w)) lw"
    and "ValueLogWriter_append E K envelope (lw, w) = ((lw', w'), Ok ())"
  shows "lw_position lw = pe_vlog_begin envelope \<and> lw_position lw' = pe_vlog_end envelope
    \<and> (\<forall>c \<in> set (pe_chunks envelope). stored (view (wd_disk w')) c)
    \<and> kept (view (wd_disk w)) (view (wd_disk w')) \<and> log_inv (view (wd_disk w')) lw'"
  using log_disk.append_spec [OF assms] by (simp add: append_outcome_def)

lemma sample_append_runs:
  "\<exists>lw' w'. ValueLogWriter_append sample_env sample_os sample_append (sample_writer, sample_log s) = ((lw', w'), Ok ())"
  by (simp add: ValueLogWriter_append_def append_guard_def sample_writer_def writer_of_def sample_append_def
      validate_envelope_chunks_def lw_position_def state_position_def less_vlog_position_def next_chunk_start_def
      PRODUCTION_def MAX_VLOG_FILE_SIZE_def validate_structural_chunk_def VLOG_PAGE_SIZE_def Let_def
      PAGE_HEADER_ENCODED_LEN_def writer_chunk_end_def u64_try_from_def checked_add_def MAX_VLOG_FILE_ID_def
      write_chunk_def ensure_file_for_chunk_def write_chunk_bytes_def write_all_positioned.simps
      on_disk_def sample_os_def mem_os_def mem_call_def sample_log_def finish_chunk_def FILE_HEADER_ENCODED_LEN_def
      catalog_register_def act_bind_def act_map_err_def file_read_io_def)

theorem append_writes_envelope_witness:
  "\<exists>lw' w'. ValueLogWriter_append sample_env sample_os sample_append (sample_writer, sample_log True) = ((lw', w'), Ok ())
     \<and> lw_position lw' = VLogPosition 0 103
     \<and> stored (mem_disk_view (wd_disk w')) \<lparr>chunk_position = VLogPosition 0 100, chunk_bytes = [1, 2, 3]\<rparr>"
proof -
  obtain lw' w' where r: "ValueLogWriter_append sample_env sample_os sample_append (sample_writer, sample_log True)
      = ((lw', w'), Ok ())" using sample_append_runs by blast
  from append_writes_envelope [OF sample_log_disk sample_writer_inv r] r show ?thesis
    by (auto simp: sample_append_def)
qed

text \<open>
  C37: An append that fails loses nothing. Every byte that was in the log is still there; unless
  the writer has stopped for good, neither the writer nor any file of the log has changed, so
  that the same append may be tried again; and a writer that has stopped refuses every later
  append without touching the directory.
\<close>

theorem failed_append_is_harmless:
  assumes "log_disk K view ident" and "log_inv (view (wd_disk w)) lw"
    and "ValueLogWriter_append E K envelope (lw, w) = ((lw', w'), Err e)"
  shows "kept (view (wd_disk w)) (view (wd_disk w'))
    \<and> (\<not> lw_append_failed lw' \<longrightarrow>
         lw' = lw \<and> same_log (view (wd_disk w)) (view (wd_disk w')) \<and> log_inv (view (wd_disk w')) lw')
    \<and> (lw_append_failed lw' \<longrightarrow> (\<forall>next_envelope. ValueLogWriter_append E K next_envelope (lw', w')
         = ((lw', w'), Err (writer_stopped (pe_commit_seq next_envelope) (pe_vlog_begin next_envelope)))))"
  using log_disk.append_spec [OF assms] by (auto simp: append_outcome_def append_stopped)

text \<open>A directory on which every call would block.\<close>

definition blocked_os :: "mem_disk os_ops" where
  "blocked_os = mem_os (\<lambda>_. Some \<lparr>io_error_kind = IoWouldBlock, io_raw_os_error = None\<rparr>) (\<lambda>_. 2)"

lemma blocked_log_disk: "log_disk blocked_os mem_disk_view mem_ident"
  unfolding blocked_os_def by (rule mem.log_disk_axioms)

lemma blocked_append_runs:
  "\<exists>lw' w' e. ValueLogWriter_append sample_env blocked_os sample_append (sample_writer, sample_log s) = ((lw', w'), Err e)
     \<and> \<not> lw_append_failed lw'"
  by (simp add: ValueLogWriter_append_def append_guard_def sample_writer_def writer_of_def sample_append_def
      validate_envelope_chunks_def lw_position_def state_position_def less_vlog_position_def next_chunk_start_def
      PRODUCTION_def MAX_VLOG_FILE_SIZE_def validate_structural_chunk_def VLOG_PAGE_SIZE_def Let_def
      PAGE_HEADER_ENCODED_LEN_def writer_chunk_end_def u64_try_from_def checked_add_def MAX_VLOG_FILE_ID_def
      write_chunk_def ensure_file_for_chunk_def write_chunk_bytes_def write_all_positioned.simps
      on_disk_def blocked_os_def mem_os_def mem_call_def sample_log_def EAGAIN_RETRY_LIMIT_def
      append_io_exhausted)

theorem failed_append_is_harmless_witness:
  "\<exists>w' e. ValueLogWriter_append sample_env blocked_os sample_append (sample_writer, sample_log True)
       = ((sample_writer, w'), Err e)
     \<and> same_log (mem_disk_view (wd_disk (sample_log True))) (mem_disk_view (wd_disk w'))"
proof -
  obtain lw' w' e where r: "ValueLogWriter_append sample_env blocked_os sample_append (sample_writer, sample_log True)
      = ((lw', w'), Err e)" "\<not> lw_append_failed lw'" using blocked_append_runs by blast
  from failed_append_is_harmless [OF blocked_log_disk sample_writer_inv r(1)] r show ?thesis by auto
qed

text \<open>
  C38: A frontier synchronization that succeeds leaves every byte of every file of the log, and
  the directory entry of every file, on stable storage, and changes no file; reporting its success
  back leaves the writer with nothing marked as unsynchronized.
\<close>

theorem sync_makes_log_durable:
  assumes "log_disk K view ident" and "log_inv (view (wd_disk w)) lw"
    and "sync_through K target_seq target_end (lw, w) = ((lw', w'), Ok synced)"
  shows "log_durable (view (wd_disk w')) \<and> same_files (view (wd_disk w)) (view (wd_disk w'))
    \<and> (\<exists>done. frontier_succeeded synced lw' = (done, Ok ()) \<and> log_inv (view (wd_disk w')) done
         \<and> lw_position done = lw_position lw \<and> lw_dirty_files done = {}
         \<and> Mapping.keys (lw_pending_entries done) = {} \<and> lw_pending_sync_id done = None)"
proof -
  from log_disk.sync_spec [OF assms] have o: "log_inv (view (wd_disk w')) lw'" "log_durable (view (wd_disk w'))"
    "same_files (view (wd_disk w)) (view (wd_disk w'))" "sy_files synced = lw_dirty_files lw"
    "sy_directory_entries synced = Mapping.keys (lw_pending_entries lw)"
    "durable_part (sy_files synced) (sy_directory_entries synced) (view (wd_disk w'))"
    and up: "lw' = lw\<lparr>lw_next_sync_id := lw_next_sync_id lw', lw_pending_sync_id := Some (sy_id synced)\<rparr>"
    unfolding sync_outcome_def result.case by blast+
  let ?d = "lw'\<lparr>lw_dirty_files := lw_dirty_files lw' - sy_files synced,
      lw_pending_entries := Mapping.filter (\<lambda>f _. f \<notin> sy_directory_entries synced) (lw_pending_entries lw'),
      lw_pending_sync_id := None\<rparr>"
  have f: "lw_pending_sync_id lw' = Some (sy_id synced)" "lw_dirty_files lw' = lw_dirty_files lw"
    "lw_pending_entries lw' = lw_pending_entries lw" "lw_position lw' = lw_position lw"
    by (subst up, simp add: lw_position_def)+
  have "frontier_succeeded synced lw' = (?d, Ok ())" using f(1) by (simp add: frontier_succeeded_def consume_sync_def)
  moreover have "log_inv (view (wd_disk w')) ?d" by (rule succeeded_inv [OF o(1,6)])
  moreover have "lw_position ?d = lw_position lw" using f(4) by (simp add: lw_position_def)
  moreover have "Mapping.keys (lw_pending_entries ?d) = {}"
    using o(5) f(3) by (auto simp: keys_dom_lookup lookup_filter split: option.splits if_splits)
  ultimately show ?thesis using o(2,3,4) f(2) by (intro conjI exI [of _ ?d]) simp_all
qed

lemma sample_position:
  "LayoutPlanner_from_position PRODUCTION (VLogPosition 0 100) = Ok \<lparr>lp_geometry = PRODUCTION, lp_position = VLogPosition 0 100\<rparr>"
proof -
  have "VLogGeometry_validate PRODUCTION = Ok ()" by (simp add: VLogGeometry_validate_Ok)
  then show ?thesis unfolding LayoutPlanner_from_position_def
    by (simp add: PRODUCTION_def VLOG_PAGE_SIZE_def MAX_VLOG_FILE_SIZE_def MAX_VLOG_FILE_ID_def
        FIRST_PAGE_RECORD_AREA_START_def Let_def)
qed

lemma sample_sync_runs:
  "\<exists>lw' w' t. sync_through sample_os 1 (Some (VLogPosition 0 100)) (sample_writer, sample_log False) = ((lw', w'), Ok t)"
  by (simp add: sync_through_def sync_guard_def sample_writer_def writer_of_def sample_position
      lw_position_def state_position_def frontier_files_def frontier_entries_def within_end_def Let_def
      sync_one_file_def act_map_err_def act_bind_def on_disk_def sample_os_def mem_os_def mem_call_def sample_log_def
      checked_add_def act_return_def)

theorem sync_makes_log_durable_witness:
  "\<exists>lw' w' t. sync_through sample_os 1 (Some (VLogPosition 0 100)) (sample_writer, sample_log False) = ((lw', w'), Ok t)
     \<and> log_durable (mem_disk_view (wd_disk w'))"
proof -
  obtain lw' w' t where r: "sync_through sample_os 1 (Some (VLogPosition 0 100)) (sample_writer, sample_log False)
      = ((lw', w'), Ok t)" using sample_sync_runs by blast
  from sync_makes_log_durable [OF sample_log_disk sample_writer_inv r] r show ?thesis by blast
qed

text \<open>
  C39: The log only grows. Whatever is asked of a writer, in whatever order and with whatever
  outcome, appends, synchronizations and their completions: no byte already in a file of the log
  is lost or changed, and as long as the writer has not stopped its state matches its files and
  everything not marked as dirty is on stable storage.
\<close>

theorem log_only_grows:
  assumes "log_disk K view ident" and "writer_inv view s" and "(writer_step E K)\<^sup>*\<^sup>* s s'"
  shows "writer_inv view s' \<and> kept (system_view view s) (system_view view s')"
  by (rule log_disk.run_keeps_inv [OF assms(1,3,2)])

theorem log_only_grows_witness:
  "\<exists>lw' w'. (writer_step sample_env sample_os)\<^sup>*\<^sup>* (sample_writer, sample_log True, {}) (lw', w', {})
     \<and> lw_position lw' = VLogPosition 0 103
     \<and> kept (mem_disk_view (wd_disk (sample_log True))) (mem_disk_view (wd_disk w'))"
proof -
  obtain lw' w' where r: "ValueLogWriter_append sample_env sample_os sample_append (sample_writer, sample_log True)
      = ((lw', w'), Ok ())" using sample_append_runs by blast
  then have run: "(writer_step sample_env sample_os)\<^sup>*\<^sup>* (sample_writer, sample_log True, {}) (lw', w', {})"
    by (blast intro: writer_step.append)
  have "writer_inv mem_disk_view (sample_writer, sample_log True, {})"
    using sample_writer_inv by (simp add: writer_inv_def tokens_inv_def)
  from log_only_grows [OF sample_log_disk this run] have "kept (mem_disk_view (wd_disk (sample_log True))) (mem_disk_view (wd_disk w'))"
    by (simp add: system_view_def)
  moreover have "lw_position lw' = VLogPosition 0 103"
    using log_disk.append_spec [OF sample_log_disk sample_writer_inv r] by (simp add: append_outcome_def sample_append_def)
  ultimately show ?thesis using run by blast
qed

end
