(* ===== verification/VLogRecovery.thy ===== *)
theory VLogRecovery
  imports WriterLog
begin

text \<open>
  What recovery may do to the value log (\<open>ValueLogRecovery\<close> in \<open>src/vlog/writer.rs\<close>): make the
  accepted part durable, cut off what lies behind it, and become a writer. The hooks the trait
  \<open>WriterIo\<close> offers for fault injection do nothing outside the tests and are left out; a fault at
  such a point is a fault of the call next to it.
\<close>

section \<open>Errors\<close>

definition recovery_vlog_context :: "storage_error \<Rightarrow> u32 option \<Rightarrow> u64 option \<Rightarrow> storage_error" where
  "recovery_vlog_context error file_id offset =
     error\<lparr>err_operation := Op_Open, err_stage := RecoveryStage, err_outcome := None, err_state := None,
           err_vlog_file_id := file_id, err_vlog_offset := offset\<rparr>"

definition recovery_vlog_corruption :: storage_error where
  "recovery_vlog_corruption = codec_error Corruption Op_Open RecoveryStage None RestoreOrRepair"

definition recovery_vlog_corruption_at :: "u32 \<Rightarrow> u64 option \<Rightarrow> storage_error" where
  "recovery_vlog_corruption_at file_id offset =
     recovery_vlog_corruption\<lparr>err_vlog_file_id := Some file_id, err_vlog_offset := offset\<rparr>"

definition recovery_vlog_io :: "u32 \<Rightarrow> u64 option \<Rightarrow> io_error \<Rightarrow> storage_error" where
  "recovery_vlog_io file_id offset source =
     (if io_error_kind source = IoNotFound \<or> io_raw_os_error source = Some ELOOP
      then (recovery_vlog_corruption_at file_id offset)\<lparr>err_os_code := io_raw_os_error source\<rparr>
      else (codec_error Io Op_Open RecoveryStage None FixEnvironmentAndReopen)
             \<lparr>err_os_code := io_raw_os_error source, err_vlog_file_id := Some file_id,
              err_vlog_offset := offset\<rparr>)"

definition recovery_vlog_directory_io :: "io_error \<Rightarrow> storage_error" where
  "recovery_vlog_directory_io source =
     (codec_error Io Op_Open RecoveryStage None FixEnvironmentAndReopen)
       \<lparr>err_os_code := io_raw_os_error source\<rparr>"

section \<open>Operations\<close>

record vlog_recovery =
  vr_database_uuid :: uuid
  vr_geometry :: vlog_geometry

definition ValueLogRecovery_new ::
  "(u64 \<times> u64) \<Rightarrow> file_set \<Rightarrow> ((u64 \<times> u64) set \<times> 'd log_world, vlog_recovery, storage_error) act" where
  "ValueLogRecovery_new identity files =
     act_bind (act_lift (map_err (\<lambda>e. recovery_vlog_context e None None)
                (validate_writer_identity (fs_database_uuid files) (fs_geometry files)))) (\<lambda>_ s.
       case claim_directory identity (fst s) of
         (claims, Err e) \<Rightarrow> ((claims, snd s), Err (recovery_vlog_context e None None))
       | (claims, Ok _) \<Rightarrow>
           ((claims, snd s), Ok \<lparr>vr_database_uuid = fs_database_uuid files, vr_geometry = fs_geometry files\<rparr>))"

fun sync_range_files :: "'d os_ops \<Rightarrow> u32 list \<Rightarrow> ('d, unit) log_act" where
  "sync_range_files K [] = act_return ()"
| "sync_range_files K (file_id # rest) =
     act_bind (act_map_err (recovery_vlog_io file_id None) (open_writable K file_id)) (\<lambda>file.
     act_bind (act_map_err (\<lambda>e. recovery_vlog_context e (Some file_id) None) (catalog_verify K file_id file)) (\<lambda>_.
     act_bind (act_map_err (recovery_vlog_io file_id None) (on_disk (os_sync_file K file))) (\<lambda>_.
       sync_range_files K rest)))"

definition file_id_range :: "u32 \<Rightarrow> u32 \<Rightarrow> u32 list" where
  "file_id_range first_file_id last_file_id = map word_of_nat [unat first_file_id..<Suc (unat last_file_id)]"

definition sync_accepted_range ::
  "'d os_ops \<Rightarrow> vlog_recovery \<Rightarrow> vlog_position option \<Rightarrow> vlog_position option \<Rightarrow> ('d, unit) log_act" where
  "sync_accepted_range K vr durable_end accepted_end =
     (if durable_end = accepted_end then act_return ()
      else
        act_bind (act_lift (ok_or accepted_end recovery_vlog_corruption)) (\<lambda>accepted.
        if (case durable_end of Some durable \<Rightarrow> accepted \<le> durable | None \<Rightarrow> False)
           \<or> pos_file_id accepted > max_file_id (vr_geometry vr) \<or> pos_offset accepted = 0
           \<or> pos_offset accepted > max_file_size (vr_geometry vr)
        then act_fail recovery_vlog_corruption
        else
          let first_file_id = (case durable_end of Some durable \<Rightarrow> pos_file_id durable | None \<Rightarrow> 0);
              created_file = (case durable_end of
                  Some durable \<Rightarrow> pos_file_id durable < pos_file_id accepted | None \<Rightarrow> True)
          in act_bind (sync_range_files K (file_id_range first_file_id (pos_file_id accepted))) (\<lambda>_.
               if created_file then act_map_err recovery_vlog_directory_io (directory_sync K)
               else act_return ())))"

text \<open>
  The inventory is sorted by file id, so that a binary search in it is a test for membership.
\<close>

definition trim_accepted_file :: "'d os_ops \<Rightarrow> vlog_recovery \<Rightarrow> vlog_position \<Rightarrow> u32 list \<Rightarrow> ('d, unit) log_act" where
  "trim_accepted_file K vr accepted inventoried_file_ids =
     (let f = pos_file_id accepted; offset = pos_offset accepted in
      if f > max_file_id (vr_geometry vr) \<or> offset = 0 \<or> offset > max_file_size (vr_geometry vr)
         \<or> f \<notin> set inventoried_file_ids
      then act_fail recovery_vlog_corruption
      else
        act_bind (act_map_err (recovery_vlog_io f (Some offset)) (open_writable K f)) (\<lambda>file.
        act_bind (act_map_err (\<lambda>e. recovery_vlog_context e (Some f) (Some offset)) (catalog_verify K f file)) (\<lambda>_.
        act_bind (act_map_err (recovery_vlog_io f (Some offset)) (on_disk (os_metadata K file))) (\<lambda>metadata.
        if md_len metadata < offset then act_fail (recovery_vlog_corruption_at f (Some offset))
        else
          act_bind (if md_len metadata \<noteq> offset
                    then act_map_err (recovery_vlog_io f (Some offset)) (on_disk (os_set_len K file offset))
                    else act_return ()) (\<lambda>_.
            act_map_err (recovery_vlog_io f (Some offset)) (on_disk (os_sync_file K file)))))))"

fun trim_remove_files :: "'d os_ops \<Rightarrow> u32 list \<Rightarrow> ('d, unit) log_act" where
  "trim_remove_files K [] = act_return ()"
| "trim_remove_files K (file_id # rest) =
     act_bind (act_map_err (recovery_vlog_io file_id None) (remove_file K file_id)) (\<lambda>_.
     act_bind (act_map_err (\<lambda>e. recovery_vlog_context e (Some file_id) None) (catalog_unregister file_id)) (\<lambda>_.
       trim_remove_files K rest))"

definition trim_log ::
  "'d os_ops \<Rightarrow> vlog_recovery \<Rightarrow> vlog_position option \<Rightarrow> u32 list \<Rightarrow> ('d, unit) log_act" where
  "trim_log K vr accepted_end inventoried_file_ids =
     act_bind (act_map_err (\<lambda>e. recovery_vlog_context e None None) FileSet_clear) (\<lambda>_.
     act_bind (case accepted_end of
                 Some accepted \<Rightarrow> trim_accepted_file K vr accepted inventoried_file_ids
               | None \<Rightarrow> act_return ()) (\<lambda>_.
     act_bind (trim_remove_files K (filter (\<lambda>file_id.
                 case accepted_end of Some accepted \<Rightarrow> file_id > pos_file_id accepted | None \<Rightarrow> True)
                 (rev inventoried_file_ids))) (\<lambda>_.
       act_map_err recovery_vlog_directory_io (directory_sync K))))"

text \<open>Recovery gives its claim on the directory to the writer, or gives it up.\<close>

definition into_writer ::
  "env \<Rightarrow> 'd os_ops \<Rightarrow> (u64 \<times> u64) \<Rightarrow> vlog_recovery \<Rightarrow> vlog_position option \<Rightarrow>
   ((u64 \<times> u64) set \<times> 'd log_world, vlog_writer, storage_error) act" where
  "into_writer E K identity vr accepted_end s =
     (case open_append_state E K (vr_database_uuid vr) (vr_geometry vr) accepted_end (snd s) of
        (w, Err e) \<Rightarrow> ((release_directory identity (fst s), w), Err e)
      | (w, Ok state) \<Rightarrow> ((fst s, w), Ok (writer_of (vr_database_uuid vr) (vr_geometry vr) state)))"

section \<open>Cutting the log\<close>

lemma act_bindE:
  assumes "act_bind m f s = (s', r)"
  obtains (fail) e where "m s = (s', Err e)" "r = Err e" | (go) t x where "m s = (t, Ok x)" "f x t = (s', r)"
  using assms by (cases r) (auto simp: act_bind_Ok act_bind_Err)

lemma act_map_errE:
  assumes "act_map_err f m s = (s', r)"
  obtains (ok) x where "m s = (s', Ok x)" "r = Ok x" | (err) e where "m s = (s', Err e)" "r = Err (f e)"
  using assms by (cases r) (auto simp: act_map_err_Ok act_map_err_Err)

definition distinct_files :: "disk_view \<Rightarrow> bool" where
  "distinct_files v \<longleftrightarrow> (\<forall>f \<le> MAX_VLOG_FILE_ID. \<forall>f' \<le> MAX_VLOG_FILE_ID. \<forall>h.
     file_handle v f = Some h \<and> file_handle v f' = Some h \<longrightarrow> f = f')"

text \<open>The file at \<open>p\<close> has been cut at \<open>p\<close>, or nothing has happened yet.\<close>

definition cut_file :: "vlog_position \<Rightarrow> disk_view \<Rightarrow> disk_view \<Rightarrow> bool" where
  "cut_file p v v' \<longleftrightarrow> pos_file_id p \<le> MAX_VLOG_FILE_ID \<and> (\<exists>h. file_handle v (pos_file_id p) = Some h
     \<and> unat (pos_offset p) \<le> length (dv_content v h)
     \<and> dv_content v' = (dv_content v)(h := take (unat (pos_offset p)) (dv_content v h))
     \<and> stays_synced {h} {} v v' \<and> dv_entry v' = dv_entry v)"

definition cut_or_same :: "vlog_position \<Rightarrow> disk_view \<Rightarrow> disk_view \<Rightarrow> bool" where
  "cut_or_same p v v' \<longleftrightarrow> cut_file p v v' \<or> same_files v v'"

definition removed_files :: "vlog_position option \<Rightarrow> u32 list \<Rightarrow> u32 list" where
  "removed_files acc ids = filter (\<lambda>f. case acc of Some p \<Rightarrow> f > pos_file_id p | None \<Rightarrow> True) (rev ids)"

definition trimmed :: "vlog_position option \<Rightarrow> u32 set \<Rightarrow> disk_view \<Rightarrow> disk_view \<Rightarrow> bool" where
  "trimmed acc fs v v' \<longleftrightarrow> (\<exists>v1. (case acc of Some p \<Rightarrow> cut_or_same p v v1 | None \<Rightarrow> same_files v v1)
     \<and> dv_content v' = dv_content v1
     \<and> dv_entry v' = (\<lambda>n. if n \<in> vlog_name ` fs then None else dv_entry v1 n))"

context log_disk
begin

lemma on_sync_file:
  assumes "on_disk (os_sync_file K h) w = (w', r)"
  shows "same_files (wview w) (wview w') \<and> stays_synced {h} {} (wview w) (wview w') \<and> (r = Ok () \<longrightarrow> dv_synced (wview w') h)"
proof -
  obtain d where "os_sync_file K h (wd_disk w) = (d, r)" "w' = w\<lparr>wd_disk := d\<rparr>"
    using assms by (auto simp: on_disk_eq)
  then show ?thesis using sync_file_keeps sync_file_ok by fastforce
qed

lemma on_metadata:
  assumes "on_disk (os_metadata K h) w = (w', r)"
  shows "wview w' = wview w \<and> (\<forall>m. r = Ok m \<longrightarrow> unat (md_len m) = length (dv_content (wview w) h))"
proof -
  obtain d where "os_metadata K h (wd_disk w) = (d, r)" "w' = w\<lparr>wd_disk := d\<rparr>"
    using assms by (auto simp: on_disk_eq)
  then show ?thesis using metadata_keeps metadata_ok by fastforce
qed

lemma on_set_len:
  assumes "on_disk (os_set_len K h len) w = (w', r)" and "unat len \<le> length (dv_content (wview w) h)"
  shows "dv_entry (wview w') = dv_entry (wview w) \<and> stays_synced {h} {} (wview w) (wview w')
    \<and> (case r of Ok _ \<Rightarrow> dv_content (wview w') = (dv_content (wview w))(h := take (unat len) (dv_content (wview w) h))
       | Err e \<Rightarrow> dv_content (wview w') = dv_content (wview w))"
proof -
  obtain d where d: "os_set_len K h len (wd_disk w) = (d, r)" "w' = w\<lparr>wd_disk := d\<rparr>"
    using assms by (auto simp: on_disk_eq)
  then show ?thesis using set_len_ok [of h len "wd_disk w" d] set_len_err [of h len "wd_disk w" d] assms(2)
    by (cases r) (simp_all add: same_files_def)
qed

lemma cut_then_sync:
  assumes "cut_file p v (wview w)" and "on_disk (os_sync_file K h) w = (w', r)" and "file_handle v (pos_file_id p) = Some h"
  shows "cut_file p v (wview w') \<and> (r = Ok () \<longrightarrow> dv_synced (wview w') h)"
  using on_sync_file [OF assms(2)] assms(1,3)
  by (auto simp: cut_file_def same_files_def stays_synced_def)

lemma trim_tail:
  assumes "act_bind (if n \<noteq> pos_offset p then act_map_err F (on_disk (os_set_len K h (pos_offset p))) else act_return ())
      (\<lambda>_. act_map_err F (on_disk (os_sync_file K h))) w = (w', r)"
    and "unat n = length (dv_content (wview w) h)" and "pos_offset p \<le> n"
    and h: "file_handle (wview w) (pos_file_id p) = Some h" and f: "pos_file_id p \<le> MAX_VLOG_FILE_ID"
  shows "cut_or_same p (wview w) (wview w') \<and> (r = Ok () \<longrightarrow> cut_file p (wview w) (wview w') \<and> dv_synced (wview w') h)"
proof -
  have le: "unat (pos_offset p) \<le> length (dv_content (wview w) h)" using assms(2,3) by (simp add: word_le_nat_alt)
  have synced: ?thesis if "cut_file p (wview w) (wview w1)" "act_map_err F (on_disk (os_sync_file K h)) w1 = (w', r)" for w1
    using that(2) cut_then_sync [OF that(1) _ h] by (cases rule: act_map_errE) (auto simp: cut_or_same_def)
  show ?thesis
  proof (cases "n = pos_offset p")
    case True
    then have "dv_content (wview w) = (dv_content (wview w))(h := take (unat (pos_offset p)) (dv_content (wview w) h))"
      using assms(2) by simp
    then have "cut_file p (wview w) (wview w)" using h le f unfolding cut_file_def by fastforce
    then show ?thesis using assms(1) True by (intro synced) (auto simp: act_bind_def act_return_def)
  next
    case False
    from assms(1) [unfolded if_P [OF False]] show ?thesis
    proof (cases rule: act_bindE)
      case (fail e)
      then obtain e' where "on_disk (os_set_len K h (pos_offset p)) w = (w', Err e')" by (auto elim: act_map_errE)
      then show ?thesis using on_set_len [OF _ le] fail(2) by (auto simp: cut_or_same_def same_files_def)
    next
      case (go w1 u)
      then have s: "on_disk (os_set_len K h (pos_offset p)) w = (w1, Ok ())" by (simp add: act_map_err_Ok)
      have "cut_file p (wview w) (wview w1)" using on_set_len [OF s le] h le f by (auto simp: cut_file_def)
      then show ?thesis using go(2) by (rule synced)
    qed
  qed
qed

lemma trim_accepted_spec:
  assumes "trim_accepted_file K vr p ids w = (w', r)"
  shows "cut_or_same p (wview w) (wview w')
    \<and> (r = Ok () \<longrightarrow> cut_file p (wview w) (wview w') \<and> pos_file_id p \<le> max_file_id (vr_geometry vr)
         \<and> (\<forall>h. file_handle (wview w) (pos_file_id p) = Some h \<longrightarrow> dv_synced (wview w') h))"
proof (cases "pos_file_id p > max_file_id (vr_geometry vr) \<or> pos_offset p = 0
    \<or> pos_offset p > max_file_size (vr_geometry vr) \<or> pos_file_id p \<notin> set ids")
  case True
  then show ?thesis using assms by (auto simp: trim_accepted_file_def cut_or_same_def)
next
  case False
  let ?f = "pos_file_id p" and ?off = "pos_offset p"
  have refused: ?thesis if "wview w' = wview w" "r = Err e" for e
    using that by (simp add: cut_or_same_def)
  note run = assms [unfolded trim_accepted_file_def Let_def if_not_P [OF False]]
  from run show ?thesis
  proof (cases rule: act_bindE)
    case (fail e)
    then show ?thesis using open_keeps_world(1) by (intro refused) (auto elim!: act_map_errE)
  next
    case (go w1 h)
    then have "open_writable K ?f w = (w1, Ok h)" by (simp add: act_map_err_Ok)
    note o = open_writable_ok [OF this]
    from go(2) show ?thesis
    proof (cases rule: act_bindE)
      case (fail e)
      then show ?thesis using verify_keeps o(3) by (intro refused) (auto elim!: act_map_errE)
    next
      case (go w2 u)
      then have w2: "wview w2 = wview w" using verify_keeps o(3) by (auto elim!: act_map_errE)
      from go(2) show ?thesis
      proof (cases rule: act_bindE)
        case (fail e)
        then show ?thesis using on_metadata w2 by (intro refused) (auto elim!: act_map_errE)
      next
        case (go w3 m)
        then have "on_disk (os_metadata K h) w2 = (w3, Ok m)" by (simp add: act_map_err_Ok)
        note md = on_metadata [OF this]
        have v3: "wview w3 = wview w" and len: "unat (md_len m) = length (dv_content (wview w) h)"
          using md w2 by simp_all
        show ?thesis
        proof (cases "md_len m < ?off")
          case True
          then show ?thesis using go(2) v3 by (intro refused [where e = "recovery_vlog_corruption_at ?f (Some ?off)"]) auto
        next
          case False
          have h: "file_handle (wview w3) ?f = Some h" using o(4) v3 by (simp add: file_handle_def)
          show ?thesis
            using trim_tail [OF go(2) [unfolded if_not_P [OF False]] _ _ h o(5)] False len v3 h
              \<open>\<not> (pos_file_id p > _ \<or> _)\<close> by auto
        qed
      qed
    qed
  qed
qed

lemma remove_spec:
  assumes "remove_file K f w = (w', r)"
  shows "dv_content (wview w') = dv_content (wview w) \<and> stays_synced {} {vlog_name f} (wview w) (wview w')
    \<and> (case r of Ok _ \<Rightarrow> dv_entry (wview w') = (dv_entry (wview w))(vlog_name f := None)
       | Err e \<Rightarrow> dv_entry (wview w') = dv_entry (wview w))"
proof (cases "f > MAX_VLOG_FILE_ID")
  case True
  then show ?thesis using assms by (auto simp: directory_calls named_call_def)
next
  case False
  then obtain d where d: "os_unlink K (vlog_name f) (wd_disk w) = (d, r)" "w' = w\<lparr>wd_disk := d\<rparr>"
    using assms by (auto simp: directory_calls named_call_def)
  then show ?thesis using unlink_ok [of "vlog_name f" "wd_disk w" d] unlink_err [of "vlog_name f" "wd_disk w" d]
    by (cases r) (simp_all add: same_files_def)
qed

lemma trim_remove_spec:
  assumes "trim_remove_files K fs w = (w', r)"
  shows "\<exists>k \<le> length fs. dv_content (wview w') = dv_content (wview w)
    \<and> dv_entry (wview w') = (\<lambda>n. if n \<in> vlog_name ` set (take k fs) then None else dv_entry (wview w) n)
    \<and> stays_synced {} (vlog_name ` set fs) (wview w) (wview w') \<and> (r = Ok () \<longrightarrow> k = length fs)"
  using assms
proof (induction fs arbitrary: w)
  case Nil
  then show ?case by simp
next
  case (Cons f fs)
  from Cons.prems [unfolded trim_remove_files.simps] show ?case
  proof (cases rule: act_bindE)
    case (fail e)
    then obtain e' where "remove_file K f w = (w', Err e')" by (auto elim: act_map_errE)
    from remove_spec [OF this] fail(2) show ?thesis
      by (intro exI [of _ 0]) (auto simp: stays_synced_def)
  next
    case (go w1 u)
    then have "remove_file K f w = (w1, Ok ())" by (simp add: act_map_err_Ok)
    note rm = remove_spec [OF this]
    let ?w2 = "w1\<lparr>wd_catalog := Mapping.delete f (wd_catalog w1)\<rparr>"
    have run2: "trim_remove_files K fs ?w2 = (w', r)"
      using go(2) by (auto simp: act_bind_def act_map_err_def catalog_unregister_def)
    have v2: "wview ?w2 = wview w1" by simp
    obtain k where k: "k \<le> length fs" "dv_content (wview w') = dv_content (wview w1)"
      "dv_entry (wview w') = (\<lambda>n. if n \<in> vlog_name ` set (take k fs) then None else dv_entry (wview w1) n)"
      "stays_synced {} (vlog_name ` set fs) (wview w1) (wview w')" "r = Ok () \<longrightarrow> k = length fs"
      using Cons.IH [OF run2] unfolding v2 by blast
    show ?thesis using k rm by (intro exI [of _ "Suc k"]) (auto simp: fun_eq_iff stays_synced_def)
  qed
qed

lemma trim_spec:
  assumes "trim_log K vr acc ids w = (w', r)"
  shows "(\<exists>fs \<subseteq> set (removed_files acc ids). trimmed acc fs (wview w) (wview w'))
    \<and> (r = Ok () \<longrightarrow> (\<exists>v1. (case acc of
            Some p \<Rightarrow> cut_file p (wview w) v1 \<and> (\<forall>h. file_handle (wview w) (pos_file_id p) = Some h \<longrightarrow> dv_synced v1 h)
              \<and> pos_file_id p \<le> max_file_id (vr_geometry vr)
          | None \<Rightarrow> v1 = wview w)
         \<and> dv_content (wview w') = dv_content v1
         \<and> dv_entry (wview w') = (\<lambda>n. if n \<in> vlog_name ` set (removed_files acc ids) then None else dv_entry v1 n)
         \<and> (\<forall>h. dv_synced v1 h \<longrightarrow> dv_synced (wview w') h) \<and> (\<forall>n. dv_synced_entry (wview w') n)))"
proof -
  let ?w0 = "w\<lparr>wd_cache := cache_empty\<rparr>"
  let ?cut = "case acc of Some accepted \<Rightarrow> trim_accepted_file K vr accepted ids | None \<Rightarrow> act_return ()"
  have clear: "act_bind (act_map_err G FileSet_clear) f w = f () ?w0" for G and f :: "unit \<Rightarrow> ('d, unit) log_act"
    by (simp add: act_bind_def act_map_err_def FileSet_clear_def cache_clear_def)
  note run = assms [unfolded trim_log_def clear, folded removed_files_def]
  have cut: "(case acc of Some p \<Rightarrow> cut_or_same p (wview w) (wview w1) | None \<Rightarrow> wview w1 = wview w)
      \<and> (x = Ok () \<longrightarrow> (case acc of
            Some p \<Rightarrow> cut_file p (wview w) (wview w1) \<and> (\<forall>h. file_handle (wview w) (pos_file_id p) = Some h \<longrightarrow> dv_synced (wview w1) h)
              \<and> pos_file_id p \<le> max_file_id (vr_geometry vr)
          | None \<Rightarrow> wview w1 = wview w))" if "?cut ?w0 = (w1, x)" for w1 x
    using that trim_accepted_spec [of vr _ ids ?w0 w1 x] by (cases acc) (auto simp: act_return_def)
  have step: "trimmed acc fs (wview w) v'" if "case acc of Some p \<Rightarrow> cut_or_same p (wview w) v1 | None \<Rightarrow> v1 = wview w"
    "dv_content v' = dv_content v1" "dv_entry v' = (\<lambda>n. if n \<in> vlog_name ` fs then None else dv_entry v1 n)" for fs v1 v'
    unfolding trimmed_def using that by (intro exI [of _ v1]) (auto split: option.splits)
  from run show ?thesis
  proof (cases rule: act_bindE)
    case (fail e)
    then show ?thesis using cut [OF fail(1)] step [of "wview w'" "wview w'" "{}"] by auto
  next
    case (go w1 u)
    note c = cut [OF go(1)]
    obtain w2 x where rm: "trim_remove_files K (removed_files acc ids) w1 = (w2, x)" by (metis surj_pair)
    obtain k where k: "k \<le> length (removed_files acc ids)" "dv_content (wview w2) = dv_content (wview w1)"
      "dv_entry (wview w2) = (\<lambda>n. if n \<in> vlog_name ` set (take k (removed_files acc ids)) then None else dv_entry (wview w1) n)"
      "stays_synced {} (vlog_name ` set (removed_files acc ids)) (wview w1) (wview w2)"
      "x = Ok () \<longrightarrow> k = length (removed_files acc ids)"
      using trim_remove_spec [OF rm] by blast
    have t: "trimmed acc (set (take k (removed_files acc ids))) (wview w) v'" if "same_files (wview w2) v'" for v'
      using c k that by (intro step [of "wview w1"]) (auto simp: same_files_def split: option.splits)
    note sub = set_take_subset [of k "removed_files acc ids"]
    show ?thesis
    proof (cases x)
      case (Err e)
      then have "w' = w2" "r \<noteq> Ok ()" using go(2) rm by (auto simp: act_bind_def)
      then show ?thesis using t [of "wview w2"] sub by auto
    next
      case (Ok y)
      then have "act_map_err recovery_vlog_directory_io (directory_sync K) w2 = (w', r)"
        using go(2) rm by (simp add: act_bind_def)
      then obtain d z where d: "os_sync_directory K (wd_disk w2) = (d, z)" "w' = w2\<lparr>wd_disk := d\<rparr>" "r = Ok () \<longrightarrow> z = Ok ()"
        by (cases rule: act_map_errE) (auto simp: directory_sync_def on_disk_eq)
      have s: "same_files (wview w2) (wview w')" "stays_synced {} {} (wview w2) (wview w')"
        using sync_directory_keeps [OF d(1)] d(2) by simp_all
      have e: "dv_synced_entry (wview w') n" if "r = Ok ()" for n
        using sync_directory_ok d that by simp
      show ?thesis using t [OF s(1)] sub s k c Ok go(1) e
        by (intro conjI impI exI [of _ "wview w1"]) (auto simp: same_files_def stays_synced_def split: option.splits)
    qed
  qed
qed

end

section \<open>From recovery to a writer\<close>

context log_disk
begin

lemma read_keeps_view: "read_exact_at K h n off f w = (w', r) \<Longrightarrow> wview w' = wview w"
  unfolding read_exact_at_def using read_exact_keeps by blast

lemma check_headers_keeps:
  assumes "check_file_headers E K uuid f h w = (w', r)"
  shows "wview w' = wview w"
  using assms unfolding check_file_headers_def
  by (auto elim!: act_bindE act_map_errE dest!: read_keeps_view split: if_splits)

lemma check_accepted_file_spec:
  assumes "check_accepted_file E K uuid g p f w = (w', r)"
  shows "wview w' = wview w \<and> (r = Ok () \<longrightarrow> f \<le> MAX_VLOG_FILE_ID \<and> (\<exists>h. file_handle (wview w) f = Some h
    \<and> length (dv_content (wview w) h) = unat (if f < pos_file_id p then max_file_size g else pos_offset p)))"
  using assms [unfolded check_accepted_file_def Let_def]
proof (cases rule: act_bindE)
  case (fail e)
  then show ?thesis using open_keeps_world(2) by (auto elim!: act_map_errE)
next
  case (go w1 h)
  then have o: "open_read_only K f w = (w1, Ok h)" by (simp add: act_map_err_Ok)
  have w1: "wview w1 = wview w" using open_keeps_world(2) [OF o] by simp
  have h: "f \<le> MAX_VLOG_FILE_ID" "file_handle (wview w) f = Some h"
    using o open_ok by (auto simp: directory_calls named_call_def file_handle_def split: if_splits)
  from go(2) show ?thesis
  proof (cases rule: act_bindE)
    case (fail e)
    then show ?thesis using verify_keeps w1 by (auto elim!: act_map_errE)
  next
    case (go w2 u)
    then have w2: "wview w2 = wview w" using verify_keeps w1 by (auto elim!: act_map_errE)
    from go(2) show ?thesis
    proof (cases rule: act_bindE)
      case (fail e)
      then show ?thesis using on_metadata w2 by (auto elim!: act_map_errE)
    next
      case (go w3 m)
      then have "on_disk (os_metadata K h) w2 = (w3, Ok m)" by (simp add: act_map_err_Ok)
      note md = on_metadata [OF this]
      show ?thesis using go(2) md w2 h check_headers_keeps [of E uuid f h w3]
        by (auto split: if_splits)
    qed
  qed
qed

lemma check_accepted_files_spec:
  assumes "check_accepted_files E K uuid g p fs w = (w', r)"
  shows "wview w' = wview w \<and> (r = Ok () \<longrightarrow> (\<forall>f \<in> set fs. f \<le> MAX_VLOG_FILE_ID \<and> (\<exists>h. file_handle (wview w) f = Some h
    \<and> length (dv_content (wview w) h) = unat (if f < pos_file_id p then max_file_size g else pos_offset p))))"
  using assms
proof (induction fs arbitrary: w)
  case Nil
  then show ?case by simp
next
  case (Cons f fs)
  from Cons.prems [unfolded check_accepted_files.simps] show ?case
  proof (cases rule: act_bindE)
    case (fail e)
    then show ?thesis using check_accepted_file_spec by blast
  next
    case (go w1 u)
    then show ?thesis using check_accepted_file_spec [OF go(1)] Cons.IH [OF go(2)] by auto
  qed
qed

lemma validate_catalog_spec:
  assumes "validate_accepted_catalog E K uuid g p w = (w', r)"
  shows "wview w' = wview w \<and> (r = Ok () \<longrightarrow> (\<forall>f \<le> pos_file_id p. f \<le> MAX_VLOG_FILE_ID \<and> (\<exists>h. file_handle (wview w) f = Some h
    \<and> length (dv_content (wview w) h) = unat (if f < pos_file_id p then max_file_size g else pos_offset p))))"
proof (cases "checked_add (pos_file_id p) 1")
  case None
  then show ?thesis using assms by (auto simp: validate_accepted_catalog_def act_bind_def act_lift_def Let_def)
next
  case (Some n)
  let ?ids = "Mapping.ordered_keys (wd_catalog w)"
  have run: "(if map unat ?ids \<noteq> [0..<unat n]
      then (w, Err (open_context (append_layout (pos_file_id p) (pos_offset p)) (Some p)))
      else check_accepted_files E K uuid g p ?ids w) = (w', r)"
    using assms Some
    by (auto simp: validate_accepted_catalog_def act_bind_def act_lift_def act_map_err_def catalog_file_ids_def act_fail_def Let_def)
  show ?thesis
  proof (cases "map unat ?ids = [0..<unat n]")
    case False
    then show ?thesis using run by auto
  next
    case True
    have n: "unat n = Suc (unat (pos_file_id p))" using checked_add_unat [OF Some] by simp
    have mem: "f \<in> set ?ids" if "f \<le> pos_file_id p" for f
    proof -
      have "unat f \<in> set (map unat ?ids)" unfolding True using that n by (auto simp: word_le_nat_alt)
      then obtain x where "x \<in> set ?ids" "unat x = unat f" unfolding set_map by (metis imageE)
      then show ?thesis using word_unat_eq_iff [of x f] by blast
    qed
    show ?thesis using check_accepted_files_spec [of E uuid g p ?ids w w' r] run True mem by auto
  qed
qed

lemma open_append_state_spec:
  assumes "open_append_state E K uuid g acc w = (w', Ok st)"
  shows "wview w' = wview w \<and> (case acc of
      None \<Rightarrow> st = AS_Empty
    | Some p \<Rightarrow> geometry_ok g \<and> pos_file_id p \<le> max_file_id g \<and> pos_offset p \<le> max_file_size g
        \<and> (\<forall>f \<le> pos_file_id p. f \<le> MAX_VLOG_FILE_ID \<and> (\<exists>h. file_handle (wview w) f = Some h
             \<and> length (dv_content (wview w) h) = unat (if f < pos_file_id p then max_file_size g else pos_offset p)))
        \<and> (if pos_offset p = max_file_size g then st = AS_AtFileLimit (pos_file_id p)
           else \<exists>h. file_handle (wview w) (pos_file_id p) = Some h \<and> st = AS_Open (pos_file_id p) (pos_offset p) h))"
proof (cases acc)
  case None
  then show ?thesis using assms
    by (auto simp: open_append_state_def act_bind_def act_map_err_def catalog_file_ids_def act_fail_def act_return_def
        split: if_splits)
next
  case (Some p)
  obtain P where P: "LayoutPlanner_from_position g p = Ok P"
    using assms Some by (auto simp: open_append_state_def Let_def is_ok_iff split: if_splits)
  have g: "geometry_ok g" "pos_file_id p \<le> max_file_id g" "pos_offset p \<le> max_file_size g"
    using P by (auto simp: LayoutPlanner_from_position_def and_then_Ok VLogGeometry_validate_Ok not_less split: if_splits)
  from assms Some obtain h w1 w2 w3 w4 m where o: "open_writable K (pos_file_id p) w = (w1, Ok h)"
    and v: "catalog_verify K (pos_file_id p) h w1 = (w2, Ok ())" and md: "on_disk (os_metadata K h) w2 = (w3, Ok m)"
    and c: "validate_accepted_catalog E K uuid g p w3 = (w4, Ok ())"
    and r: "(if pos_offset p = max_file_size g then act_return (AS_AtFileLimit (pos_file_id p))
           else act_return (AS_Open (pos_file_id p) (pos_offset p) h)) w4 = (w', Ok st)"
    by (auto simp: open_append_state_def Let_def act_simps split: if_splits)
  have keep: "wview w3 = wview w" "wview w4 = wview w"
    using open_writable_ok(3) [OF o] verify_keeps [OF v] on_metadata [OF md] validate_catalog_spec [OF c] by simp_all
  have "\<forall>f \<le> pos_file_id p. f \<le> MAX_VLOG_FILE_ID \<and> (\<exists>h. file_handle (wview w) f = Some h
      \<and> length (dv_content (wview w) h) = unat (if f < pos_file_id p then max_file_size g else pos_offset p))"
    using validate_catalog_spec [OF c] keep by simp
  then show ?thesis using r keep g open_writable_ok(4) [OF o] Some by (auto simp: file_handle_def)
qed

text \<open>What a freshly opened writer finds is its log.\<close>

lemma opened_log_inv:
  assumes "open_append_state E K uuid g acc w = (w', Ok st)" and "geometry_ok g" and "distinct_files (wview w)"
    and "log_durable (wview w)"
    and "\<And>f. f \<le> MAX_VLOG_FILE_ID \<Longrightarrow> file_handle (wview w) f \<noteq> None \<Longrightarrow>
           (case acc of Some p \<Rightarrow> f \<le> pos_file_id p | None \<Rightarrow> False)"
  shows "log_inv (wview w') (writer_of uuid g st)"
proof -
  note o = open_append_state_spec [OF assms(1)]
  have v: "wview w' = wview w" using o by simp
  have dirty: "dirty_inv (wview w) st {} {}"
    using assms(4) by (auto simp: dirty_inv_def log_durable_def)
  have "files_inv (wview w) g st"
  proof (cases acc)
    case None
    then have "file_handle (wview w) f = None" if "f \<le> MAX_VLOG_FILE_ID" for f using assms(5) [OF that] by (cases "file_handle (wview w) f") auto
    then show ?thesis using None o assms(2,3) by (auto simp: files_inv_def in_log_def distinct_files_def)
  next
    case (Some p)
    have cf: "current_file st = Some (pos_file_id p)" using o Some by (auto split: if_splits)
    have le: "pos_file_id p \<le> max_file_id g" "pos_offset p \<le> max_file_size g"
      and len: "\<And>f. f \<le> pos_file_id p \<Longrightarrow> \<exists>h. file_handle (wview w) f = Some h
        \<and> length (dv_content (wview w) h) = unat (if f < pos_file_id p then max_file_size g else pos_offset p)"
      using o Some by auto
    have pres: "file_handle (wview w) f \<noteq> None \<longleftrightarrow> f \<le> pos_file_id p" if "f \<le> MAX_VLOG_FILE_ID" for f
      using len [of f] assms(5) [OF that] Some by fastforce
    show ?thesis unfolding files_inv_def
    proof (intro conjI allI impI; (elim conjE)?)
      fix f h assume "in_log st f" "current_file st \<noteq> Some f" "file_handle (wview w) f = Some h"
      then show "length (dv_content (wview w) h) = unat (max_file_size g)"
        using len [of f] cf by (auto simp: in_log_def split: if_splits)
    next
      fix f h assume st: "st = AS_AtFileLimit f" "file_handle (wview w) f = Some h"
      then have "f = pos_file_id p" "pos_offset p = max_file_size g" using o Some by (auto split: if_splits)
      then show "length (dv_content (wview w) h) = unat (max_file_size g)" using len [of f] st(2) by auto
    next
      fix f off h assume st: "st = AS_Open f off h"
      then have "f = pos_file_id p" "off = pos_offset p" "file_handle (wview w) f = Some h"
        using o Some by (auto split: if_splits)
      then show "file_handle (wview w) f = Some h" "length (dv_content (wview w) h) = unat off"
        "unat off \<le> unat (max_file_size g)" using len [of f] le(2) by (auto simp: word_le_nat_alt)
    qed (use assms(2,3) cf le(1) pres in \<open>auto simp: in_log_def distinct_files_def\<close>)
  qed
  then show ?thesis using dirty v by (simp add: log_inv_def writer_of_def)
qed

end

section \<open>What recovery does to the log\<close>

text \<open>Everything up to the accepted end is as it was.\<close>

definition accepted_kept :: "vlog_position option \<Rightarrow> disk_view \<Rightarrow> disk_view \<Rightarrow> bool" where
  "accepted_kept acc v v' \<longleftrightarrow> (case acc of None \<Rightarrow> True | Some p \<Rightarrow>
     (\<forall>f \<le> MAX_VLOG_FILE_ID. \<forall>h. f \<le> pos_file_id p \<and> file_handle v f = Some h \<longrightarrow>
        file_handle v' f = Some h
        \<and> (if f < pos_file_id p then dv_content v' h = dv_content v h
           else take (unat (pos_offset p)) (dv_content v' h) = take (unat (pos_offset p)) (dv_content v h))))"

definition accepted_file :: "vlog_position option \<Rightarrow> u32 \<Rightarrow> bool" where
  "accepted_file acc f \<longleftrightarrow> (case acc of Some p \<Rightarrow> f \<le> pos_file_id p | None \<Rightarrow> False)"

lemma removed_files_set: "set (removed_files acc ids) = {f \<in> set ids. \<not> accepted_file acc f}"
  by (auto simp: removed_files_def accepted_file_def split: option.splits)

lemma trimmed_handle:
  assumes "dv_entry v' = (\<lambda>n. if n \<in> vlog_name ` fs then None else dv_entry v n)" and "f \<le> MAX_VLOG_FILE_ID"
    and "\<forall>g \<in> fs. g \<le> MAX_VLOG_FILE_ID"
  shows "file_handle v' f = (if f \<in> fs then None else file_handle v f)"
  using assms vlog_name_inj by (auto simp: file_handle_def)

lemma trimmed_kept:
  assumes "trimmed acc fs v v'" and "distinct_files v" and "\<forall>g \<in> fs. \<not> accepted_file acc g \<and> g \<le> MAX_VLOG_FILE_ID"
  shows "accepted_kept acc v v'"
proof (cases acc)
  case (Some p)
  obtain v1 where c: "cut_or_same p v v1" "dv_content v' = dv_content v1"
    and e: "dv_entry v' = (\<lambda>n. if n \<in> vlog_name ` fs then None else dv_entry v1 n)"
    using assms(1) Some by (auto simp: trimmed_def)
  have e1: "dv_entry v1 = dv_entry v" using c(1) by (auto simp: cut_or_same_def cut_file_def same_files_def)
  show ?thesis unfolding accepted_kept_def Some option.case
  proof (intro allI impI, elim conjE)
    fix f h assume f: "f \<le> MAX_VLOG_FILE_ID" "f \<le> pos_file_id p" "file_handle v f = Some h"
    have "f \<notin> fs" using assms(3) f(2) Some by (auto simp: accepted_file_def)
    then have "file_handle v' f = Some h"
      using trimmed_handle [OF e f(1)] assms(3) f(3) e1 by (simp add: file_handle_def)
    moreover have "dv_content v1 h = dv_content v h" if "f < pos_file_id p"
    proof (cases "same_files v v1")
      case False
      then obtain k where k: "pos_file_id p \<le> MAX_VLOG_FILE_ID" "file_handle v (pos_file_id p) = Some k"
        "dv_content v1 = (dv_content v)(k := take (unat (pos_offset p)) (dv_content v k))"
        using c(1) by (auto simp: cut_or_same_def cut_file_def)
      then have "k \<noteq> h" using assms(2) f that unfolding distinct_files_def by fastforce
      then show ?thesis using k(3) by simp
    qed (simp add: same_files_def)
    moreover have "take (unat (pos_offset p)) (dv_content v1 h) = take (unat (pos_offset p)) (dv_content v h)"
      if "f = pos_file_id p"
      using c(1) f that by (auto simp: cut_or_same_def same_files_def cut_file_def)
    ultimately show "file_handle v' f = Some h \<and> (if f < pos_file_id p then dv_content v' h = dv_content v h
        else take (unat (pos_offset p)) (dv_content v' h) = take (unat (pos_offset p)) (dv_content v h))"
      using c(2) f(2) by auto
  qed
qed (simp add: accepted_kept_def)

lemma trim_kept:
  assumes "log_disk K view ident" and "distinct_files (view (wd_disk w))"
    and "\<forall>f \<in> set ids. f \<le> MAX_VLOG_FILE_ID"
    and "trim_log K vr acc ids w = (w', r)"
  shows "accepted_kept acc (view (wd_disk w)) (view (wd_disk w'))"
proof -
  obtain fs where "fs \<subseteq> set (removed_files acc ids)" "trimmed acc fs (view (wd_disk w)) (view (wd_disk w'))"
    using log_disk.trim_spec [OF assms(1,4)] by blast
  moreover from this have "\<forall>g \<in> fs. \<not> accepted_file acc g \<and> g \<le> MAX_VLOG_FILE_ID"
    using assms(3) by (auto simp: removed_files_set)
  ultimately show ?thesis using trimmed_kept assms(2) by blast
qed

definition accepted_durable :: "vlog_position option \<Rightarrow> disk_view \<Rightarrow> bool" where
  "accepted_durable acc v \<longleftrightarrow> (\<forall>p f h. acc = Some p \<and> f < pos_file_id p \<and> f \<le> MAX_VLOG_FILE_ID
     \<and> file_handle v f = Some h \<longrightarrow> dv_synced v h)"

definition inventoried :: "disk_view \<Rightarrow> u32 list \<Rightarrow> bool" where
  "inventoried v ids \<longleftrightarrow> (\<forall>f \<le> MAX_VLOG_FILE_ID. file_handle v f \<noteq> None \<longrightarrow> f \<in> set ids)
     \<and> (\<forall>f \<in> set ids. f \<le> MAX_VLOG_FILE_ID)"

context log_disk
begin

lemma trim_leaves_log:
  assumes "distinct_files (wview w)" and "inventoried (wview w) ids" and "accepted_durable acc (wview w)"
    and "trim_log K vr acc ids w = (w', Ok ())"
  shows "distinct_files (wview w') \<and> log_durable (wview w')
    \<and> (\<forall>f \<le> MAX_VLOG_FILE_ID. file_handle (wview w') f \<noteq> None \<longrightarrow> accepted_file acc f)"
proof -
  let ?v = "wview w" and ?v' = "wview w'"
  from trim_spec [OF assms(4)] obtain v1 where
    cut: "case acc of Some p \<Rightarrow> cut_file p ?v v1 \<and> (\<forall>h. file_handle ?v (pos_file_id p) = Some h \<longrightarrow> dv_synced v1 h)
        \<and> pos_file_id p \<le> max_file_id (vr_geometry vr) | None \<Rightarrow> v1 = ?v"
    and c: "dv_content ?v' = dv_content v1"
    and e: "dv_entry ?v' = (\<lambda>n. if n \<in> vlog_name ` set (removed_files acc ids) then None else dv_entry v1 n)"
    and s: "\<And>h. dv_synced v1 h \<Longrightarrow> dv_synced ?v' h" "\<And>n. dv_synced_entry ?v' n" by auto
  have e1: "dv_entry v1 = dv_entry ?v" using cut by (auto simp: cut_file_def split: option.splits)
  have fh: "file_handle ?v' f = (if accepted_file acc f then file_handle ?v f else None)" if f: "f \<le> MAX_VLOG_FILE_ID" for f
  proof -
    have "file_handle ?v' f = (if f \<in> set (removed_files acc ids) then None else file_handle ?v f)"
      using trimmed_handle [OF e f] assms(2) e1 by (simp add: removed_files_set inventoried_def file_handle_def)
    then show ?thesis using assms(2) f by (auto simp: removed_files_set inventoried_def)
  qed
  have "distinct_files ?v'" using assms(1) fh by (auto simp: distinct_files_def split: if_splits)
  moreover have "dv_synced ?v' h" if f: "f \<le> MAX_VLOG_FILE_ID" "file_handle ?v' f = Some h" for f h
  proof -
    obtain p where p: "acc = Some p" "f \<le> pos_file_id p" "file_handle ?v f = Some h"
      using fh [OF f(1)] f(2) by (auto simp: accepted_file_def split: if_splits option.splits)
    obtain k where k: "pos_file_id p \<le> MAX_VLOG_FILE_ID" "file_handle ?v (pos_file_id p) = Some k" "dv_synced v1 k"
      "stays_synced {k} {} ?v v1" using cut p(1) by (auto simp: cut_file_def)
    have "dv_synced v1 h"
    proof (cases "h = k")
      case False
      then have "f < pos_file_id p" using p(2,3) k(2) by (cases "f = pos_file_id p") auto
      then have "dv_synced ?v h" using assms(3) p(1,3) f(1) by (auto simp: accepted_durable_def)
      then show ?thesis using k(4) False by (simp add: stays_synced_def)
    qed (simp add: k(3))
    then show ?thesis by (rule s(1))
  qed
  ultimately show ?thesis using s(2) fh by (simp add: log_durable_def)
qed

end

text \<open>
  Trimming never touches the accepted part of the log. However it ends, also when a call on
  the directory fails half way, every file up to the accepted end is still there under its name,
  the files before the last accepted one hold exactly what they held, and the last accepted one
  holds the same bytes up to the accepted end.
\<close>

theorem trim_keeps_accepted_log:
  assumes "log_disk K view ident" and "distinct_files (view (wd_disk w))"
    and "\<forall>f \<in> set ids. f \<le> MAX_VLOG_FILE_ID"
    and "trim_log K vr acc ids w = (w', r)"
  shows "accepted_kept acc (view (wd_disk w)) (view (wd_disk w'))"
  by (rule trim_kept [OF assms])

text \<open>A log whose only file is cut at offset 70, for the witnesses.\<close>

definition sample_catalogued :: "mem_disk log_world" where
  "sample_catalogued = (sample_log True)\<lparr>wd_catalog := Mapping.update 0 (mem_ident 0) Mapping.empty\<rparr>"

definition sample_recovery :: vlog_recovery where
  "sample_recovery = \<lparr>vr_database_uuid = 1, vr_geometry = PRODUCTION\<rparr>"

lemma sample_distinct: "distinct_files (mem_disk_view (wd_disk (sample_log s)))"
  using sample_writer_inv [of s] by (simp add: log_inv_def files_inv_def distinct_files_def)

lemma sample_trim_runs:
  "\<exists>w'. trim_log sample_os sample_recovery (Some (VLogPosition 0 70)) [0] sample_catalogued = (w', Ok ())
     \<and> length (mk_content (wd_disk w') 0) = 70"
  by (simp add: trim_log_def trim_accepted_file_def sample_recovery_def PRODUCTION_def MAX_VLOG_FILE_ID_def
      MAX_VLOG_FILE_SIZE_def Let_def act_bind_def act_map_err_def FileSet_clear_def cache_clear_def open_writable_def
      act_lift_def vlog_file_name_c_def on_disk_def sample_os_def mem_os_def mem_call_def sample_catalogued_def
      sample_log_def mem_disk_view_def catalog_verify_def catalog_identity_def act_return_def directory_sync_def)

theorem trim_keeps_accepted_log_witness:
  "\<exists>w'. trim_log sample_os sample_recovery (Some (VLogPosition 0 70)) [0] sample_catalogued = (w', Ok ())
     \<and> length (mk_content (wd_disk w') 0) = 70
     \<and> accepted_kept (Some (VLogPosition 0 70)) (mem_disk_view (wd_disk sample_catalogued)) (mem_disk_view (wd_disk w'))"
proof -
  obtain w' where r: "trim_log sample_os sample_recovery (Some (VLogPosition 0 70)) [0] sample_catalogued = (w', Ok ())"
    "length (mk_content (wd_disk w') 0) = 70" using sample_trim_runs by blast
  have "distinct_files (mem_disk_view (wd_disk sample_catalogued))" using sample_distinct by (simp add: sample_catalogued_def)
  from trim_keeps_accepted_log [OF sample_log_disk this _ r(1)] r show ?thesis by auto
qed

text \<open>
  C35: After recovery the log is ready to be written. When trimming to the accepted end has
  succeeded on a directory whose inventory is complete, and the files before the accepted one
  were synchronized, the writer that recovery turns into stands at the accepted end, its state
  matches its files, everything in the log is on stable storage, and the accepted part is as it
  was before.
\<close>

theorem recovered_log_is_ready:
  assumes "log_disk K view ident" and "geometry_ok (vr_geometry vr)"
    and "distinct_files (view (wd_disk w))" and "inventoried (view (wd_disk w)) ids"
    and "accepted_durable acc (view (wd_disk w))"
    and "trim_log K vr acc ids w = (w1, Ok ())"
    and "into_writer E K identity vr acc (claims, w1) = ((claims', w2), Ok lw)"
  shows "log_inv (view (wd_disk w2)) lw \<and> log_durable (view (wd_disk w2))
    \<and> accepted_kept acc (view (wd_disk w)) (view (wd_disk w2))
    \<and> lw_position lw = (case acc of Some p \<Rightarrow> p | None \<Rightarrow> VLogPosition 0 0)"
proof -
  from assms(7) obtain st where o: "open_append_state E K (vr_database_uuid vr) (vr_geometry vr) acc w1 = (w2, Ok st)"
    and lw: "lw = writer_of (vr_database_uuid vr) (vr_geometry vr) st"
    by (auto simp: into_writer_def split: prod.splits result.splits)
  note t = log_disk.trim_leaves_log [OF assms(1,3-6)]
  note os = log_disk.open_append_state_spec [OF assms(1) o]
  have v: "view (wd_disk w2) = view (wd_disk w1)" using os by simp
  have "log_inv (view (wd_disk w2)) lw"
    unfolding lw using t by (intro log_disk.opened_log_inv [OF assms(1) o assms(2)]) (auto simp: accepted_file_def)
  moreover have "\<forall>f \<in> set ids. f \<le> MAX_VLOG_FILE_ID" using assms(4) by (simp add: inventoried_def)
  then have "accepted_kept acc (view (wd_disk w)) (view (wd_disk w2))"
    using trim_kept [OF assms(1,3) _ assms(6)] v by simp
  moreover have "lw_position lw = (case acc of Some p \<Rightarrow> p | None \<Rightarrow> VLogPosition 0 0)"
    using os unfolding lw
    by (auto simp: lw_position_def state_position_def writer_of_def split: option.splits if_splits
        intro!: vlog_position.expand)
  ultimately show ?thesis using t v by simp
qed

theorem recovered_log_is_ready_witness:
  "\<exists>w1 w2 lw. trim_log sample_os sample_recovery None [0] (sample_log True) = (w1, Ok ())
     \<and> into_writer sample_env sample_os (1, 1) sample_recovery None ({(1, 1)}, w1) = (({(1, 1)}, w2), Ok lw)
     \<and> log_inv (mem_disk_view (wd_disk w2)) lw \<and> lw_position lw = VLogPosition 0 0"
proof -
  have "\<exists>w1 w2 lw. trim_log sample_os sample_recovery None [0] (sample_log True) = (w1, Ok ())
     \<and> into_writer sample_env sample_os (1, 1) sample_recovery None ({(1, 1)}, w1) = (({(1, 1)}, w2), Ok lw)"
    by (simp add: trim_log_def into_writer_def open_append_state_def catalog_file_ids_def MAX_VLOG_FILE_ID_def
        act_bind_def act_map_err_def FileSet_clear_def cache_clear_def remove_file_def catalog_unregister_def
        act_lift_def vlog_file_name_c_def on_disk_def sample_os_def mem_os_def mem_call_def Let_def
        sample_log_def act_return_def directory_sync_def)
  then obtain w1 w2 lw where r: "trim_log sample_os sample_recovery None [0] (sample_log True) = (w1, Ok ())"
    "into_writer sample_env sample_os (1, 1) sample_recovery None ({(1, 1)}, w1) = (({(1, 1)}, w2), Ok lw)" by blast
  have g: "geometry_ok (vr_geometry sample_recovery)" by (simp add: sample_recovery_def)
  have i: "inventoried (mem_disk_view (wd_disk (sample_log True))) [0]"
    using vlog_name_inj [of _ 0] by (auto simp: inventoried_def sample_handle MAX_VLOG_FILE_ID_def)
  have a: "accepted_durable None (mem_disk_view (wd_disk (sample_log True)))" by (simp add: accepted_durable_def)
  from recovered_log_is_ready [OF sample_log_disk g sample_distinct i a r] r show ?thesis by auto
qed

end
