(* ===== verification/RecoveryBase.thy ===== *)
theory RecoveryBase
  imports Protocol VLogRecovery
begin

text \<open>
  What the parts of recovery share (\<open>src/recovery/mod.rs\<close>): its errors, the plan, and the batches it
  commits. The Rust functions are generic in the index backend; here the operations of the trait
  are a record \<open>B\<close> over an arbitrary state, and \<open>fjall_backend_ops\<close> is the adapter's.
\<close>

section \<open>Errors\<close>

definition recovery_corruption :: storage_error where
  "recovery_corruption = codec_error Corruption Op_Open RecoveryStage None RestoreOrRepair"

definition recovery_resource :: storage_error where
  "recovery_resource = codec_error ResourceExhausted Op_Open RecoveryStage None RetrySameInstance"

definition recovery_context :: "storage_error \<Rightarrow> storage_error" where
  "recovery_context error =
     error\<lparr>err_operation := Op_Open, err_stage := RecoveryStage, err_outcome := None, err_state := None\<rparr>"

fun recovery_retry_advice :: "storage_error_kind \<Rightarrow> retry_advice" where
  "recovery_retry_advice InvalidArgument = DoNotRetry"
| "recovery_retry_advice IncompatibleFormat = DoNotRetry"
| "recovery_retry_advice Busy = RetrySameInstance"
| "recovery_retry_advice ResourceExhausted = RetrySameInstance"
| "recovery_retry_advice Corruption = RestoreOrRepair"
| "recovery_retry_advice InvalidLayout = RestoreOrRepair"
| "recovery_retry_advice Unrecoverable = RestoreOrRepair"
| "recovery_retry_advice NotFound = RestoreOrRepair"
| "recovery_retry_advice Unsupported = DoNotRetry"
| "recovery_retry_advice CapacityExceeded = FixEnvironmentAndReopen"
| "recovery_retry_advice Io = FixEnvironmentAndReopen"
| "recovery_retry_advice StorageWriteStopped = FixEnvironmentAndReopen"
| "recovery_retry_advice StoragePoisoned = FixEnvironmentAndReopen"

definition recovery_commit_error :: "index_commit_error \<Rightarrow> storage_error" where
  "recovery_commit_error error =
     (codec_error (ie_kind (ce_source error)) Op_Open RecoveryStage None
        (case ce_apply_state error of
           ApplyUnknown \<Rightarrow> ReopenAndVerify
         | NotApplied \<Rightarrow> recovery_retry_advice (ie_kind (ce_source error))))
       \<lparr>err_os_code := ie_os_code (ce_source error)\<rparr>"

definition index_batch_context :: "internal_index_error \<Rightarrow> storage_error" where
  "index_batch_context error =
     (codec_error (ie_kind error) Op_Open RecoveryStage None (recovery_retry_advice (ie_kind error)))
       \<lparr>err_os_code := ie_os_code error\<rparr>"

definition try_copy_recovery_bytes :: "env \<Rightarrow> bytes \<Rightarrow> bytes res" where
  "try_copy_recovery_bytes E bs =
     and_then (try_reserve E ''RecoveryBytes'' (length bs) recovery_resource) (\<lambda>_. Ok bs)"

section \<open>The index backend\<close>

record 's backend_ops =
  bk_commit_atomic :: "index_atomic_batch \<Rightarrow> index_commit_mode \<Rightarrow> 's \<Rightarrow> 's \<times> (unit, index_commit_error) result"
  bk_get_user :: "'s \<Rightarrow> bytes \<Rightarrow> bytes option res"
  bk_get_internal :: "'s \<Rightarrow> internal_index_space \<Rightarrow> bytes \<Rightarrow> bytes option res"
  bk_get_database_identity :: "'s \<Rightarrow> bytes option res"
  bk_scan_internal :: "'s \<Rightarrow> internal_index_space \<Rightarrow> internal_key_range \<Rightarrow> index_entry res list res"

definition fjall_backend_ops :: "env \<Rightarrow> 'db fjall_ops \<Rightarrow> 'db fjall_backend backend_ops" where
  "fjall_backend_ops E F =
     \<lparr>bk_commit_atomic = FjallBackend_commit_atomic E F,
      bk_get_user = (\<lambda>s k. FjallBackend_get_user E F s k None),
      bk_get_internal = FjallBackend_get_internal E F,
      bk_get_database_identity = FjallBackend_get_database_identity E F,
      bk_scan_internal = FjallBackend_scan_internal E F\<rparr>"

definition commit_recovery_batch ::
  "'s backend_ops \<Rightarrow> index_atomic_batch \<Rightarrow> ('s, unit, storage_error) act" where
  "commit_recovery_batch B batch =
     act_map_err recovery_commit_error (bk_commit_atomic B batch SyncAll)"

definition required_internal :: "'s backend_ops \<Rightarrow> 's \<Rightarrow> bytes \<Rightarrow> bytes res" where
  "required_internal B s key =
     and_then (map_err recovery_context (bk_get_internal B s SystemSpace key)) (\<lambda>v.
       ok_or v recovery_corruption)"

section \<open>The plan\<close>

definition RECOVERY_STATE_KEY :: bytes where "RECOVERY_STATE_KEY = ascii ''recovery_state''"

datatype physical_tail = EmptyTail | PositionTail vlog_position

record recovery_plan =
  rp_database_identity :: bytes
  rp_durable_frontier :: durable_frontier
  rp_head_seq :: u64
  rp_accepted_seq :: u64
  rp_accepted_vlog_seq :: u64
  rp_published_end :: durable_vlog_end
  rp_accepted_end :: durable_vlog_end
  rp_physical_tail :: physical_tail
  rp_descriptors :: "transaction_descriptor list"
  rp_recovery_state :: "recovery_state option"
  rp_needs_undo :: bool
  rp_needs_promote :: bool
  rp_needs_trim :: bool

fun durable_end_position :: "durable_vlog_end \<Rightarrow> vlog_position option" where
  "durable_end_position EmptyEnd = None"
| "durable_end_position (PositionEnd position) = Some position"

fun append_position :: "durable_vlog_end \<Rightarrow> vlog_position" where
  "append_position EmptyEnd = VLogPosition 0 0"
| "append_position (PositionEnd position) = position"

fun durable_end_strictly_after :: "durable_vlog_end \<Rightarrow> durable_vlog_end \<Rightarrow> bool" where
  "durable_end_strictly_after (PositionEnd candidate) EmptyEnd = True"
| "durable_end_strictly_after (PositionEnd candidate) (PositionEnd base) = (candidate > base)"
| "durable_end_strictly_after EmptyEnd base = False"

section \<open>The batches recovery commits\<close>

definition push_recovery ::
  "env \<Rightarrow> index_atomic_batch \<Rightarrow> index_mutation \<Rightarrow> index_atomic_batch res" where
  "push_recovery E batch mutation = map_err index_batch_context (IndexAtomicBatch_try_push E batch mutation)"

definition recovery_batch_with_capacity :: "env \<Rightarrow> usize \<Rightarrow> index_atomic_batch res" where
  "recovery_batch_with_capacity E capacity =
     map_err index_batch_context (IndexAtomicBatch_try_with_capacity E capacity)"

definition push_system :: "env \<Rightarrow> index_atomic_batch \<Rightarrow> bytes \<Rightarrow> bytes \<Rightarrow> index_atomic_batch res" where
  "push_system E batch key val =
     and_then (try_copy_recovery_bytes E key) (\<lambda>key.
     and_then (try_copy_recovery_bytes E val) (\<lambda>val.
       push_recovery E batch (PutInternal SystemSpace key val)))"

definition push_recovery_state ::
  "env \<Rightarrow> index_atomic_batch \<Rightarrow> recovery_state \<Rightarrow> index_atomic_batch res" where
  "push_recovery_state E batch state =
     and_then (try_copy_recovery_bytes E RECOVERY_STATE_KEY) (\<lambda>key.
     and_then (map_err recovery_context (RecoveryState_encode E state)) (\<lambda>encoded.
     and_then (try_copy_recovery_bytes E encoded) (\<lambda>val.
       push_recovery E batch (PutInternal SystemSpace key val))))"

definition recovery_state_batch :: "env \<Rightarrow> recovery_state \<Rightarrow> index_atomic_batch res" where
  "recovery_state_batch E state =
     and_then (recovery_batch_with_capacity E 1) (\<lambda>batch. push_recovery_state E batch state)"

definition target_frontier_batch ::
  "env \<Rightarrow> u64 \<Rightarrow> durable_frontier \<Rightarrow> recovery_state option \<Rightarrow> index_atomic_batch res" where
  "target_frontier_batch E head_seq frontier state =
     (if head_seq \<noteq> df_durable_seq frontier then Err recovery_corruption
      else
        and_then (recovery_batch_with_capacity E (if state \<noteq> None then 3 else 2)) (\<lambda>batch.
        and_then (push_system E batch HEAD_SEQ_KEY (u64_to_le_bytes head_seq)) (\<lambda>batch.
        and_then (try_copy_recovery_bytes E DURABLE_FRONTIER_KEY) (\<lambda>key.
        and_then (map_err recovery_context (DurableFrontier_encode E frontier)) (\<lambda>encoded.
        and_then (try_copy_recovery_bytes E encoded) (\<lambda>val.
        and_then (push_recovery E batch (PutInternal SystemSpace key val)) (\<lambda>batch.
          case state of
            None \<Rightarrow> Ok batch
          | Some state \<Rightarrow> push_recovery_state E batch state)))))))"

definition delete_recovery_state_batch :: "env \<Rightarrow> index_atomic_batch res" where
  "delete_recovery_state_batch E =
     and_then (recovery_batch_with_capacity E 1) (\<lambda>batch.
     and_then (try_copy_recovery_bytes E RECOVERY_STATE_KEY) (\<lambda>key.
       push_recovery E batch (DeleteInternal SystemSpace key)))"

end
