(* ===== verification/Coordinator.thy ===== *)
theory Coordinator
  imports RecoveryBase Runtime
begin

text \<open>
  The commit coordinator (\<open>src/commit/coordinator.rs\<close>, \<open>src/commit/durability.rs\<close>). A write is
  prepared against the index, its envelope is appended to the value log, the log is synchronized
  when the write asks for it, and the prepared batch is committed to the index; only then do the
  head and the durable frontier in memory move.

  The state is what the coordinator's shared fields hold: the runtime control block with the
  statistics, the index, the log writer with its files, and the commit state. A started request
  runs from its start to the return of its ticket as one step, which the write gate justifies: at
  most one request is started at a time (\<open>RuntimeSteps.one_active_writer\<close>).
\<close>

section \<open>Durable frontiers\<close>

definition remap_construction :: "storage_error_kind \<Rightarrow> operation \<Rightarrow> storage_error" where
  "remap_construction kind operation =
     write_preflight kind operation
       (if kind = ResourceExhausted then RetrySameInstance else FixRequestAndRetrySameInstance)"

definition durability_map_index_error :: "internal_index_error \<Rightarrow> operation \<Rightarrow> storage_error" where
  "durability_map_index_error error operation = remap_construction (ie_kind error) operation"

definition durability_resource_exhausted :: "operation \<Rightarrow> storage_error" where
  "durability_resource_exhausted operation = write_preflight ResourceExhausted operation RetrySameInstance"

definition durability_try_copy :: "env \<Rightarrow> bytes \<Rightarrow> operation \<Rightarrow> bytes res" where
  "durability_try_copy E bs operation =
     and_then (try_reserve E ''FrontierBytes'' (length bs) (durability_resource_exhausted operation)) (\<lambda>_. Ok bs)"

definition add_frontier_to_batch ::
  "env \<Rightarrow> index_atomic_batch \<Rightarrow> durable_frontier \<Rightarrow> operation \<Rightarrow> index_atomic_batch res" where
  "add_frontier_to_batch E batch frontier operation =
     and_then (map_err (\<lambda>error. remap_construction (err_kind error) operation)
                (DurableFrontier_encode E frontier)) (\<lambda>encoded.
     and_then (durability_try_copy E DURABLE_FRONTIER_KEY operation) (\<lambda>key.
     and_then (durability_try_copy E encoded operation) (\<lambda>val.
       map_err (\<lambda>error. durability_map_index_error error operation)
         (IndexAtomicBatch_try_push E batch (PutInternal SystemSpace key val)))))"

definition frontier_only_batch :: "env \<Rightarrow> durable_frontier \<Rightarrow> operation \<Rightarrow> index_atomic_batch res" where
  "frontier_only_batch E frontier operation =
     and_then (map_err (\<lambda>error. durability_map_index_error error operation)
                (IndexAtomicBatch_try_with_capacity E 1)) (\<lambda>batch.
       add_frontier_to_batch E batch frontier operation)"

section \<open>The commit state\<close>

record commit_state =
  cs_head_seq :: commit_seq
  cs_durable_frontier :: durable_frontier
  cs_head_vlog_seq :: commit_seq
  cs_head_vlog_end :: "vlog_position option"

record commit_state_snapshot =
  sn_head_seq :: commit_seq
  sn_durable_seq :: commit_seq
  sn_head_vlog_seq :: commit_seq
  sn_durable_vlog_seq :: commit_seq
  sn_head_vlog_end :: "vlog_position option"
  sn_durable_vlog_end :: "vlog_position option"

record ('s, 'd) coordinator =
  co_runtime :: runtime_control
  co_index :: 's
  co_writer :: vlog_writer
  co_log :: "'d log_world"
  co_state :: commit_state

definition initial_state_error :: storage_error where
  "initial_state_error = codec_error InvalidLayout Op_Open Preflight None RestoreOrRepair"

fun descriptor_end_to_format :: "durable_vlog_end \<Rightarrow> vlog_position option" where
  "descriptor_end_to_format EmptyEnd = None"
| "descriptor_end_to_format (PositionEnd position) = Some position"

definition frontier_for :: "commit_seq \<Rightarrow> vlog_position \<Rightarrow> durable_frontier" where
  "frontier_for seq stop =
     \<lparr>df_durable_seq = seq, df_durable_vlog_seq = seq, df_durable_vlog_end = PositionEnd stop\<rparr>"

definition frontier_from_optional ::
  "commit_seq \<Rightarrow> commit_seq \<Rightarrow> vlog_position option \<Rightarrow> durable_frontier" where
  "frontier_from_optional seq vlog_seq stop =
     (case stop of
        None \<Rightarrow> \<lparr>df_durable_seq = seq, df_durable_vlog_seq = vlog_seq, df_durable_vlog_end = EmptyEnd\<rparr>
      | Some stop \<Rightarrow> \<lparr>df_durable_seq = seq, df_durable_vlog_seq = vlog_seq, df_durable_vlog_end = PositionEnd stop\<rparr>)"

definition validate_initial_state ::
  "commit_seq \<Rightarrow> durable_frontier \<Rightarrow> commit_seq \<Rightarrow> vlog_position option \<Rightarrow> vlog_writer \<Rightarrow> unit res" where
  "validate_initial_state head_seq frontier head_vlog_seq head_vlog_end lw =
     and_then (map_err (\<lambda>_. initial_state_error) (DurableFrontier_validate_against_head frontier head_seq)) (\<lambda>_.
       let valid_logical_frontier =
             (df_durable_seq frontier = head_seq \<and> df_durable_vlog_seq frontier = head_vlog_seq
              \<and> head_vlog_seq \<le> head_seq \<and> descriptor_end_to_format (df_durable_vlog_end frontier) = head_vlog_end);
           valid_vlog_frontier =
             (case head_vlog_end of
                None \<Rightarrow> head_vlog_seq = 0 \<and> lw_position lw = VLogPosition 0 0
              | Some stop \<Rightarrow> head_vlog_seq \<noteq> 0 \<and> stop = lw_position lw)
       in if lw_database_uuid lw = 0 \<or> \<not> valid_logical_frontier \<or> \<not> valid_vlog_frontier
          then Err initial_state_error else Ok ())"

definition stats_invariant_error :: storage_error where
  "stats_invariant_error =
     (codec_error Corruption Op_Background Maintenance None RestoreOrRepair)\<lparr>err_state := Some Poisoned\<rparr>"

definition publish_commit_stats :: "('s, 'd) coordinator \<Rightarrow> ('s, 'd) coordinator" where
  "publish_commit_stats co =
     (let state = co_state co; lw = co_writer co; rc = co_runtime co;
          durable_end = descriptor_end_to_format (df_durable_vlog_end (cs_durable_frontier state));
          (stats, updated) =
            update_commit_state (cs_head_seq state) (df_durable_seq (cs_durable_frontier state))
              (map_option (\<lambda>p. (pos_file_id p, pos_offset p)) durable_end)
              (active_file_id lw) (file_count lw) (logical_bytes lw) (rc_stats rc);
          rc = rc\<lparr>rc_stats := stats\<rparr>
      in co\<lparr>co_runtime := if updated then rc else fst (latch_failure Poisoned stats_invariant_error rc)\<rparr>)"

definition CommitCoordinator_new ::
  "runtime_control \<Rightarrow> 's \<Rightarrow> vlog_writer \<Rightarrow> 'd log_world \<Rightarrow> commit_seq \<Rightarrow> durable_frontier \<Rightarrow>
   commit_seq \<Rightarrow> vlog_position option \<Rightarrow> ('s, 'd) coordinator res" where
  "CommitCoordinator_new rc index lw w head_seq durable_frontier head_vlog_seq head_vlog_end =
     and_then (validate_initial_state head_seq durable_frontier head_vlog_seq head_vlog_end lw) (\<lambda>_.
       Ok (publish_commit_stats
         \<lparr>co_runtime = rc, co_index = index, co_writer = lw, co_log = w,
          co_state = \<lparr>cs_head_seq = head_seq, cs_durable_frontier = durable_frontier,
                      cs_head_vlog_seq = head_vlog_seq, cs_head_vlog_end = head_vlog_end\<rparr>\<rparr>))"

definition coordinator_snapshot :: "commit_state \<Rightarrow> commit_state_snapshot" where
  "coordinator_snapshot state =
     \<lparr>sn_head_seq = cs_head_seq state, sn_durable_seq = df_durable_seq (cs_durable_frontier state),
      sn_head_vlog_seq = cs_head_vlog_seq state,
      sn_durable_vlog_seq = df_durable_vlog_seq (cs_durable_frontier state),
      sn_head_vlog_end = cs_head_vlog_end state,
      sn_durable_vlog_end = descriptor_end_to_format (df_durable_vlog_end (cs_durable_frontier state))\<rparr>"

definition coordinator_state_snapshot :: "('s, 'd) coordinator \<Rightarrow> commit_state_snapshot" where
  "coordinator_state_snapshot co = coordinator_snapshot (co_state co)"

section \<open>Classifying failures\<close>

definition classify_vlog_append_failure :: "storage_error \<Rightarrow> bool \<Rightarrow> instance_state" where
  "classify_vlog_append_failure error terminal =
     (if \<not> terminal then Healthy
      else if err_kind error = CapacityExceeded \<or> err_os_code error \<in> {Some 28, Some 30, Some 69, Some 122}
      then WriteStopped else Poisoned)"

definition remap_writer_operation :: "storage_error \<Rightarrow> operation \<Rightarrow> storage_error" where
  "remap_writer_operation error operation = error\<lparr>err_operation := operation\<rparr>"

definition with_identity :: "(commit_seq \<times> uuid) option \<Rightarrow> storage_error \<Rightarrow> storage_error" where
  "with_identity identity error =
     (case identity of
        Some (seq, uid) \<Rightarrow> error\<lparr>err_commit_seq := Some seq, err_tx_uuid := Some uid\<rparr>
      | None \<Rightarrow> error)"

definition map_index_commit_error ::
  "index_commit_error \<Rightarrow> operation \<Rightarrow> protocol_stage \<Rightarrow> (commit_seq \<times> uuid) option \<Rightarrow>
   storage_error \<times> instance_state" where
  "map_index_commit_error error operation stage identity =
     (let kind = ie_kind (ce_source error);
          (outcome, state, retry) =
            (if ce_apply_state error = ApplyUnknown then (CommitUnknown, Poisoned, ReopenAndVerify)
             else if kind \<in> {Io, StoragePoisoned, Corruption, InvalidLayout, IncompatibleFormat, Unrecoverable}
             then (NotCommitted, Poisoned,
                   if kind \<in> {Corruption, InvalidLayout, Unrecoverable} then RestoreOrRepair
                   else if kind = IncompatibleFormat then DoNotRetry else ReopenAndVerify)
             else (NotCommitted, WriteStopped, FixEnvironmentAndReopen))
      in (with_identity identity
            ((write_protocol kind operation stage outcome state retry)\<lparr>err_os_code := ie_os_code (ce_source error)\<rparr>),
          state))"

definition retry_for_state :: "storage_error \<Rightarrow> instance_state \<Rightarrow> retry_advice" where
  "retry_for_state error state =
     (if err_outcome error = Some CommitUnknown then ReopenAndVerify
      else if err_state error = Some state then err_retry error
      else case state of
             Healthy \<Rightarrow> err_retry error
           | WriteStopped \<Rightarrow> FixEnvironmentAndReopen
           | Poisoned \<Rightarrow>
               if err_kind error \<in> {Corruption, InvalidLayout, Unrecoverable} then RestoreOrRepair
               else if err_kind error = IncompatibleFormat then DoNotRetry else ReopenAndVerify)"

section \<open>Requests\<close>

text \<open>\<open>Blocked\<close> is a caller that still waits for its request to be started.\<close>

datatype 'a progress = Blocked request_id | Done 'a

definition await_started ::
  "operation \<Rightarrow> request_id \<Rightarrow> runtime_control \<Rightarrow> runtime_control \<times> request_id res progress" where
  "await_started operation rid rc =
     (case WriteTicket_wait_until_started rid rc of
        None \<Rightarrow> (rc, Blocked rid)
      | Some (Ok _) \<Rightarrow> (rc, Done (Ok rid))
      | Some (Err e) \<Rightarrow> (WriteTicket_drop rid operation rc, Done (Err e)))"

definition start_request ::
  "operation \<Rightarrow> runtime_control \<Rightarrow> runtime_control \<times> request_id res progress" where
  "start_request operation rc =
     (case enqueue_write operation rc of
        (rc, Err e) \<Rightarrow> (rc, Done (Err e))
      | (rc, Ok rid) \<Rightarrow> await_started operation rid rc)"

definition finish_ticket :: "request_id \<Rightarrow> operation \<Rightarrow> ('s, 'd) coordinator \<Rightarrow> ('s, 'd) coordinator" where
  "finish_ticket rid operation co = co\<lparr>co_runtime := fst (WriteTicket_finish rid operation (co_runtime co))\<rparr>"

text \<open>What a failed stage hands to \<open>fail_started\<close>: the error, the state it asks for, the transaction.\<close>

type_synonym commit_failure = "storage_error \<times> instance_state option \<times> (commit_seq \<times> uuid) option"

definition fail_started ::
  "request_id \<Rightarrow> operation \<Rightarrow> commit_failure \<Rightarrow> ('s, 'd) coordinator \<Rightarrow> ('s, 'd) coordinator \<times> storage_error" where
  "fail_started rid operation failure co =
     (let (error, requested_state, identity) = failure;
          error = with_identity identity error;
          requested = (case requested_state of
                         Some state \<Rightarrow> state
                       | None \<Rightarrow> (case err_state error of Some state \<Rightarrow> state | None \<Rightarrow> Healthy));
          target = required_failure_state requested error;
          error = error\<lparr>err_retry := retry_for_state error target, err_state := Some target\<rparr>;
          rc = (if target \<noteq> Healthy then fst (latch_failure target error (co_runtime co)) else co_runtime co);
          state = inst rc;
          error = error\<lparr>err_retry := retry_for_state error state, err_state := Some state\<rparr>
      in (finish_ticket rid operation (publish_commit_stats (co\<lparr>co_runtime := rc\<rparr>)), error))"

section \<open>The stages of a commit\<close>

type_synonym ('s, 'd, 'a) commit_act = "(('s, 'd) coordinator, 'a, commit_failure) act"

definition on_writer :: "('d, 'a) writer_act \<Rightarrow> (('s, 'd) coordinator, 'a, storage_error) act" where
  "on_writer m co =
     (case m (co_writer co, co_log co) of ((lw, w), r) \<Rightarrow> (co\<lparr>co_writer := lw, co_log := w\<rparr>, r))"

text \<open>What has been prepared: the commit, the log's frontier after it, the durable frontier it sets.\<close>

record commit_plan =
  cp_prepared :: prepared_commit
  cp_target_vlog_seq :: commit_seq
  cp_target_vlog_end :: "vlog_position option"
  cp_frontier :: "durable_frontier option"

definition vlog_context_of ::
  "validated_write \<Rightarrow> vlog_writer \<Rightarrow> (uuid \<times> vlog_position \<times> vlog_geometry) option" where
  "vlog_context_of w lw =
     (case vw_transaction_kind w of
        VLogEnvelope \<Rightarrow> Some (lw_database_uuid lw, lw_position lw, lw_geometry lw)
      | IndexOnlyDelete \<Rightarrow> None)"

definition preparation_stage ::
  "env \<Rightarrow> 's backend_ops \<Rightarrow> validated_write \<Rightarrow> bool \<Rightarrow> (uuid, int option) result \<Rightarrow>
   ('s, 'd) coordinator \<Rightarrow> commit_plan res" where
  "preparation_stage E B w sync random co =
     (let state = co_state co in
      and_then (prepare_commit E w (cs_head_seq state) (vlog_context_of w (co_writer co))
                 (bk_get_user B (co_index co)) random) (\<lambda>prepared.
      let (target_vlog_seq, target_vlog_end) =
            (case pc_envelope prepared of
               Some envelope \<Rightarrow> (pc_commit_seq prepared, Some (pe_vlog_end envelope))
             | None \<Rightarrow> (cs_head_vlog_seq state, cs_head_vlog_end state));
          frontier = frontier_from_optional (pc_commit_seq prepared) target_vlog_seq target_vlog_end
      in if sync
         then and_then (add_frontier_to_batch E (pc_index_batch prepared) frontier (vw_public_operation w)) (\<lambda>batch.
                Ok \<lparr>cp_prepared = prepared\<lparr>pc_index_batch := batch\<rparr>, cp_target_vlog_seq = target_vlog_seq,
                    cp_target_vlog_end = target_vlog_end, cp_frontier = Some frontier\<rparr>)
         else Ok \<lparr>cp_prepared = prepared, cp_target_vlog_seq = target_vlog_seq,
                  cp_target_vlog_end = target_vlog_end, cp_frontier = None\<rparr>))"

definition append_stage ::
  "env \<Rightarrow> 'd os_ops \<Rightarrow> operation \<Rightarrow> prepared_commit \<Rightarrow> ('s, 'd, unit) commit_act" where
  "append_stage E K operation prepared co =
     (case pc_envelope prepared of
        None \<Rightarrow> (co, Ok ())
      | Some envelope \<Rightarrow>
          (case on_writer (ValueLogWriter_append E K envelope) co of
             (co, Ok _) \<Rightarrow> (co, Ok ())
           | (co, Err error) \<Rightarrow>
               let error = remap_writer_operation error operation in
               (co, Err (error, Some (classify_vlog_append_failure error (lw_append_failed (co_writer co))),
                         Some (pc_commit_seq prepared, pc_tx_uuid prepared)))))"

definition sync_stage ::
  "'d os_ops \<Rightarrow> operation \<Rightarrow> bool \<Rightarrow> commit_seq \<Rightarrow> vlog_position option \<Rightarrow> (commit_seq \<times> uuid) option \<Rightarrow>
   ('s, 'd, frontier_sync option) commit_act" where
  "sync_stage K operation needs_vlog_sync target_vlog_seq target_vlog_end identity co =
     (if needs_vlog_sync
      then (case on_writer (sync_through K target_vlog_seq target_vlog_end) co of
              (co, Ok synced) \<Rightarrow> (co, Ok (Some synced))
            | (co, Err error) \<Rightarrow> (co, Err (remap_writer_operation error operation, Some Poisoned, identity)))
      else (co, Ok None))"

definition finish_frontier_after_success ::
  "frontier_sync option \<Rightarrow> operation \<Rightarrow> ('s, 'd) coordinator \<Rightarrow> ('s, 'd) coordinator" where
  "finish_frontier_after_success synced operation co =
     (case synced of
        None \<Rightarrow> co
      | Some synced \<Rightarrow>
          (case frontier_succeeded synced (co_writer co) of
             (lw, Ok _) \<Rightarrow> co\<lparr>co_writer := lw\<rparr>
           | (lw, Err error) \<Rightarrow>
               co\<lparr>co_writer := lw, co_runtime := fst (latch_failure Poisoned
                   (error\<lparr>err_operation := operation, err_state := Some Poisoned, err_retry := ReopenAndVerify\<rparr>)
                   (co_runtime co))\<rparr>))"

definition abandon_frontier :: "frontier_sync option \<Rightarrow> ('s, 'd) coordinator \<Rightarrow> ('s, 'd) coordinator" where
  "abandon_frontier synced co =
     (case synced of
        None \<Rightarrow> co
      | Some synced \<Rightarrow> co\<lparr>co_writer := fst (frontier_failed synced (co_writer co))\<rparr>)"

definition index_stage ::
  "'s backend_ops \<Rightarrow> operation \<Rightarrow> protocol_stage \<Rightarrow> index_atomic_batch \<Rightarrow> index_commit_mode \<Rightarrow>
   frontier_sync option \<Rightarrow> (commit_seq \<times> uuid) option \<Rightarrow> ('s, 'd, unit) commit_act" where
  "index_stage B operation stage batch mode synced identity co =
     (case bk_commit_atomic B batch mode (co_index co) of
        (s, Ok _) \<Rightarrow> (finish_frontier_after_success synced operation (co\<lparr>co_index := s\<rparr>), Ok ())
      | (s, Err error) \<Rightarrow>
          let (storage_error, target) = map_index_commit_error error operation stage identity
          in (abandon_frontier synced (co\<lparr>co_index := s\<rparr>), Err (storage_error, Some target, None)))"

definition publish_nonempty_success ::
  "commit_seq \<Rightarrow> transaction_kind \<Rightarrow> commit_seq \<Rightarrow> vlog_position option \<Rightarrow> durable_frontier option \<Rightarrow>
   ('s, 'd) coordinator \<Rightarrow> ('s, 'd) coordinator" where
  "publish_nonempty_success seq kind target_vlog_seq target_vlog_end frontier co =
     (let state = (co_state co)\<lparr>cs_head_seq := seq\<rparr>;
          state = (if kind = VLogEnvelope
                   then state\<lparr>cs_head_vlog_seq := target_vlog_seq, cs_head_vlog_end := target_vlog_end\<rparr> else state);
          state = (case frontier of Some f \<Rightarrow> state\<lparr>cs_durable_frontier := f\<rparr> | None \<Rightarrow> state)
      in publish_commit_stats (co\<lparr>co_state := state\<rparr>))"

definition publish_empty_barrier_success ::
  "durable_frontier \<Rightarrow> ('s, 'd) coordinator \<Rightarrow> ('s, 'd) coordinator" where
  "publish_empty_barrier_success frontier co =
     publish_commit_stats (co\<lparr>co_state := (co_state co)\<lparr>cs_durable_frontier := frontier\<rparr>\<rparr>)"

definition commit_stages ::
  "env \<Rightarrow> 's backend_ops \<Rightarrow> 'd os_ops \<Rightarrow> operation \<Rightarrow> bool \<Rightarrow> commit_plan \<Rightarrow> ('s, 'd, unit) commit_act" where
  "commit_stages E B K operation sync plan co =
     (let prepared = cp_prepared plan;
          identity = Some (pc_commit_seq prepared, pc_tx_uuid prepared);
          durable_vlog_seq = df_durable_vlog_seq (cs_durable_frontier (co_state co)) in
      act_bind (append_stage E K operation prepared) (\<lambda>_.
      act_bind (sync_stage K operation (sync \<and> cp_target_vlog_seq plan > durable_vlog_seq)
                 (cp_target_vlog_seq plan) (cp_target_vlog_end plan) identity) (\<lambda>synced.
        index_stage B operation IndexCommit (pc_index_batch prepared) (if sync then SyncAll else Buffer)
          synced identity)) co)"

definition run_started ::
  "env \<Rightarrow> 's backend_ops \<Rightarrow> 'd os_ops \<Rightarrow> validated_write \<Rightarrow> bool \<Rightarrow> (uuid, int option) result \<Rightarrow> request_id \<Rightarrow>
   (('s, 'd) coordinator, unit, storage_error) act" where
  "run_started E B K w sync random rid co =
     (let operation = vw_public_operation w;
          failed = (\<lambda>failure co. let (co, e) = fail_started rid operation failure co in (co, Err e)) in
      case preparation_stage E B w sync random co of
        Err e \<Rightarrow> failed (e, None, None) co
      | Ok plan \<Rightarrow>
          (case commit_stages E B K operation sync plan co of
             (co, Err failure) \<Rightarrow> failed failure co
           | (co, Ok _) \<Rightarrow>
               (finish_ticket rid operation
                  (publish_nonempty_success (pc_commit_seq (cp_prepared plan)) (vw_transaction_kind w)
                     (cp_target_vlog_seq plan) (cp_target_vlog_end plan) (cp_frontier plan) co), Ok ())))"

definition commit_started ::
  "env \<Rightarrow> 's backend_ops \<Rightarrow> 'd os_ops \<Rightarrow> validated_write \<Rightarrow> bool \<Rightarrow> (uuid, int option) result \<Rightarrow>
   ('s, 'd) coordinator \<Rightarrow> ('s, 'd) coordinator \<times> unit res progress" where
  "commit_started E B K w sync random co =
     (case start_request (vw_public_operation w) (co_runtime co) of
        (rc, Blocked rid) \<Rightarrow> (co\<lparr>co_runtime := rc\<rparr>, Blocked rid)
      | (rc, Done (Err e)) \<Rightarrow> (co\<lparr>co_runtime := rc\<rparr>, Done (Err e))
      | (rc, Done (Ok rid)) \<Rightarrow>
          let (co, r) = run_started E B K w sync random rid (co\<lparr>co_runtime := rc\<rparr>) in (co, Done r))"

definition commit_nonempty ::
  "env \<Rightarrow> 's backend_ops \<Rightarrow> 'd os_ops \<Rightarrow> validated_write \<Rightarrow> (uuid, int option) result \<Rightarrow>
   ('s, 'd) coordinator \<Rightarrow> ('s, 'd) coordinator \<times> unit res progress" where
  "commit_nonempty E B K w random co = commit_started E B K w (nw_sync (vw_normalized w)) random co"

definition commit_empty_barrier ::
  "env \<Rightarrow> 's backend_ops \<Rightarrow> 'd os_ops \<Rightarrow> request_id \<Rightarrow> (('s, 'd) coordinator, unit, storage_error) act" where
  "commit_empty_barrier E B K rid co =
     (let captured = co_state co;
          failed = (\<lambda>failure co. let (co, e) = fail_started rid Op_WriteBatch failure co in (co, Err e)) in
      if cs_head_seq captured = df_durable_seq (cs_durable_frontier captured)
      then (finish_ticket rid Op_WriteBatch co, Ok ())
      else
        let target_end = cs_head_vlog_end captured;
            frontier = frontier_from_optional (cs_head_seq captured) (cs_head_vlog_seq captured) target_end in
        case frontier_only_batch E frontier Op_WriteBatch of
          Err e \<Rightarrow> failed (e, None, None) co
        | Ok batch \<Rightarrow>
            (case sync_stage K Op_WriteBatch
                    (cs_head_vlog_seq captured > df_durable_vlog_seq (cs_durable_frontier captured))
                    (cs_head_vlog_seq captured) target_end None co of
               (co, Err failure) \<Rightarrow> failed failure co
             | (co, Ok synced) \<Rightarrow>
                 if df_durable_seq (cs_durable_frontier (co_state co)) \<ge> cs_head_seq captured
                 then (finish_ticket rid Op_WriteBatch (finish_frontier_after_success synced Op_WriteBatch co), Ok ())
                 else
                   (case index_stage B Op_WriteBatch DurableFrontierStage batch SyncAll synced None co of
                      (co, Err failure) \<Rightarrow> failed failure co
                    | (co, Ok _) \<Rightarrow>
                        (finish_ticket rid Op_WriteBatch (publish_empty_barrier_success frontier co), Ok ()))))"

definition commit_empty_batch ::
  "env \<Rightarrow> 's backend_ops \<Rightarrow> 'd os_ops \<Rightarrow> bool \<Rightarrow> ('s, 'd) coordinator \<Rightarrow> ('s, 'd) coordinator \<times> unit res progress" where
  "commit_empty_batch E B K sync co =
     (if \<not> sync then (co, Done (check_write_admission Op_WriteBatch (co_runtime co)))
      else case start_request Op_WriteBatch (co_runtime co) of
             (rc, Blocked rid) \<Rightarrow> (co\<lparr>co_runtime := rc\<rparr>, Blocked rid)
           | (rc, Done (Err e)) \<Rightarrow> (co\<lparr>co_runtime := rc\<rparr>, Done (Err e))
           | (rc, Done (Ok rid)) \<Rightarrow>
               let (co, r) = commit_empty_barrier E B K rid (co\<lparr>co_runtime := rc\<rparr>) in (co, Done r))"

end
