(* ===== verification/Reader.thy ===== *)
theory Reader
  imports WriterLog EnvelopeScan
begin

text \<open>
  Reading the value log (\<open>src/vlog/reader.rs\<close>): a value through its pointer, and whole envelopes for
  recovery, chunk by chunk from their begin or found from their end. Reads go through the catalog
  and the handle cache of \<open>VLogFiles\<close> and may change the cache, nothing else.
\<close>

section \<open>Errors\<close>

definition reader_recovery_context :: "storage_error \<Rightarrow> storage_error" where
  "reader_recovery_context error =
     error\<lparr>err_operation := Op_Open, err_stage := RecoveryStage, err_outcome := None, err_state := None\<rparr>"

definition reader_recovery_corruption :: storage_error where
  "reader_recovery_corruption = codec_error Corruption Op_Open RecoveryStage None RestoreOrRepair"

definition recovery_corruption_at :: "u32 \<Rightarrow> u64 \<Rightarrow> storage_error" where
  "recovery_corruption_at file_id offset =
     reader_recovery_corruption\<lparr>err_vlog_file_id := Some file_id, err_vlog_offset := Some offset\<rparr>"

definition reader_recovery_resource :: "u32 \<Rightarrow> u64 \<Rightarrow> storage_error" where
  "reader_recovery_resource file_id offset =
     (codec_error ResourceExhausted Op_Open RecoveryStage None RetrySameInstance)
       \<lparr>err_vlog_file_id := Some file_id, err_vlog_offset := Some offset\<rparr>"

definition recovery_io :: "u32 \<Rightarrow> u64 \<Rightarrow> io_error \<Rightarrow> storage_error" where
  "recovery_io file_id offset source =
     (codec_error Io Op_Open RecoveryStage None FixEnvironmentAndReopen)
       \<lparr>err_os_code := io_raw_os_error source, err_vlog_file_id := Some file_id, err_vlog_offset := Some offset\<rparr>"

definition read_context :: "storage_error \<Rightarrow> u32 option \<Rightarrow> u64 option \<Rightarrow> storage_error" where
  "read_context error file_id offset =
     error\<lparr>err_operation := Op_Get, err_stage := ReadStage, err_outcome := None, err_state := None,
           err_vlog_file_id := file_id, err_vlog_offset := offset\<rparr>"

definition read_io :: "u32 \<Rightarrow> u32 \<Rightarrow> io_error \<Rightarrow> storage_error" where
  "read_io file_id offset source =
     (codec_error Io Op_Get ReadStage None FixEnvironmentAndReopen)
       \<lparr>err_os_code := io_raw_os_error source, err_vlog_file_id := Some file_id,
        err_vlog_offset := Some (ucast offset)\<rparr>"

definition read_resource :: "u32 \<Rightarrow> u32 \<Rightarrow> storage_error" where
  "read_resource file_id offset =
     (codec_error ResourceExhausted Op_Get ReadStage None RetrySameInstance)
       \<lparr>err_vlog_file_id := Some file_id, err_vlog_offset := Some (ucast offset)\<rparr>"

definition reader_configuration_error :: storage_error where
  "reader_configuration_error = codec_error InvalidArgument Op_Get ReadStage None FixRequestAndRetrySameInstance"

section \<open>The reader\<close>

record vlog_reader =
  vr_files :: file_set
  vr_geometry :: vlog_geometry

datatype envelope_value_state = EnvelopeAbsent | EnvelopePresent value_pointer

record envelope_final_state =
  fs_user_key :: bytes
  fs_state :: envelope_value_state

record recovery_envelope =
  re_scanned :: scanned_envelope
  re_final_states :: "envelope_final_state list"

definition ValueLogReader_new :: "file_set \<Rightarrow> vlog_geometry \<Rightarrow> vlog_reader res" where
  "ValueLogReader_new files geometry =
     and_then (map_err (\<lambda>error. read_context error None None) (LayoutPlanner_empty geometry)) (\<lambda>_.
       if fs_geometry files \<noteq> geometry then Err reader_configuration_error
       else Ok \<lparr>vr_files = files, vr_geometry = geometry\<rparr>)"

section \<open>Values\<close>

definition decode_value_record ::
  "env \<Rightarrow> vlog_reader \<Rightarrow> value_pointer \<Rightarrow> value_pointer_layout \<Rightarrow> bytes \<Rightarrow> bytes \<Rightarrow> bytes res" where
  "decode_value_record E R pointer pointer_layout expected_key encoded =
     (let pointer_offset = ucast (vp_record_offset pointer);
          start = VLogPosition (vp_file_id pointer) pointer_offset in
      and_then (map_err (\<lambda>error. read_context error (Some (vp_file_id pointer)) (Some pointer_offset))
                 (decode_record_at E encoded start (vr_geometry R))) (\<lambda>record.
        case record of
          DR_KvRecord record \<Rightarrow>
            if kv_key record \<noteq> expected_key
               \<or> length (kv_key record) \<noteq> unat (vl_key_len pointer_layout)
               \<or> length (kv_value record) \<noteq> unat (vp_value_len pointer)
            then Err (read_corruption (vp_file_id pointer) (Some (pos_offset start)))
            else
              and_then (try_reserve E ''ReadValue'' (length (kv_value record))
                         (read_resource (vp_file_id pointer) (vp_record_offset pointer))) (\<lambda>_.
                Ok (kv_value record))
        | _ \<Rightarrow> Err (read_corruption (vp_file_id pointer) (Some (pos_offset start)))))"

definition read_pointer ::
  "env \<Rightarrow> 'd os_ops \<Rightarrow> vlog_reader \<Rightarrow> value_pointer \<Rightarrow> bytes \<Rightarrow> ('d, bytes) log_act" where
  "read_pointer E K R pointer expected_key =
     (let pointer_offset = (ucast (vp_record_offset pointer) :: u64);
          in_context = (\<lambda>error. read_context error (Some (vp_file_id pointer)) (Some pointer_offset)) in
      act_bind (act_lift (map_err in_context (ValuePointer_layout pointer))) (\<lambda>_.
      act_bind (FileSet_handle E K (vr_files R) (vp_file_id pointer)) (\<lambda>h.
      act_bind (act_map_err (read_io (vp_file_id pointer) (vp_record_offset pointer)) (on_disk (os_metadata K h))) (\<lambda>metadata.
      act_bind (act_lift (map_err in_context (ValuePointer_validate_file_bounds pointer (md_len metadata)))) (\<lambda>pointer_layout.
      act_bind (act_lift (try_reserve E ''ReadRecord'' (unat (vp_record_len pointer))
                           (read_resource (vp_file_id pointer) (vp_record_offset pointer)))) (\<lambda>_.
      act_bind (read_exact_at K h (unat (vp_record_len pointer)) pointer_offset (vp_file_id pointer)) (\<lambda>encoded.
        act_lift (decode_value_record E R pointer pointer_layout expected_key encoded))))))))"

definition read_value ::
  "env \<Rightarrow> 'd os_ops \<Rightarrow> vlog_reader \<Rightarrow> bytes \<Rightarrow> bytes \<Rightarrow> ('d, bytes) log_act" where
  "read_value E K R encoded_pointer expected_key =
     act_bind (act_lift (map_err (\<lambda>error. read_context error None None) (ValuePointer_decode encoded_pointer))) (\<lambda>pointer.
       read_pointer E K R pointer expected_key)"

section \<open>Envelopes\<close>

definition read_recovery_bytes ::
  "env \<Rightarrow> 'd os_ops \<Rightarrow> vlog_reader \<Rightarrow> u32 \<Rightarrow> u64 \<Rightarrow> usize \<Rightarrow> ('d, bytes) log_act" where
  "read_recovery_bytes E K R file_id offset len =
     act_bind (act_map_err reader_recovery_context (FileSet_handle E K (vr_files R) file_id)) (\<lambda>h.
     act_bind (act_map_err (recovery_io file_id offset) (on_disk (os_metadata K h))) (\<lambda>metadata.
     act_bind (act_lift (ok_or (u64_try_from len) reader_recovery_corruption)) (\<lambda>len_u64.
     act_bind (act_lift (ok_or (checked_add offset len_u64) reader_recovery_corruption)) (\<lambda>stop.
       if stop > md_len metadata \<or> stop > max_file_size (vr_geometry R)
       then act_fail (recovery_corruption_at file_id offset)
       else
         act_bind (act_lift (try_reserve E ''RecoveryRead'' len (reader_recovery_resource file_id offset))) (\<lambda>_.
           act_map_err reader_recovery_context (read_exact_at K h len offset file_id))))))"

definition recovery_next_position :: "vlog_position \<Rightarrow> vlog_geometry \<Rightarrow> vlog_position res" where
  "recovery_next_position p g =
     (if pos_offset p < max_file_size g then Ok p
      else if pos_offset p \<noteq> max_file_size g \<or> pos_file_id p \<ge> max_file_id g
      then Err reader_recovery_corruption
      else map_ok (\<lambda>file_id. VLogPosition file_id 0)
             (ok_or (checked_add (pos_file_id p) 1) reader_recovery_corruption))"

definition chunk_encoded_len ::
  "env \<Rightarrow> 'd os_ops \<Rightarrow> vlog_reader \<Rightarrow> vlog_position \<Rightarrow> vlog_position \<Rightarrow> ('d, usize) log_act" where
  "chunk_encoded_len E K R vlog_end cursor =
     (if pos_offset cursor mod page_size (vr_geometry R) = 0 then act_return PAGE_HEADER_ENCODED_LEN
      else if pos_offset cursor = word_of_nat PAGE_HEADER_ENCODED_LEN then act_return FILE_HEADER_ENCODED_LEN
      else
        act_bind (act_lift (ok_or (checked_add (pos_offset cursor) (word_of_nat RECORD_HEADER_ENCODED_LEN))
                             reader_recovery_corruption)) (\<lambda>header_end.
        if pos_file_id cursor = pos_file_id vlog_end \<and> header_end > pos_offset vlog_end
        then act_fail (recovery_corruption_at (pos_file_id cursor) (pos_offset cursor))
        else
          act_bind (read_recovery_bytes E K R (pos_file_id cursor) (pos_offset cursor) RECORD_HEADER_ENCODED_LEN) (\<lambda>header.
          act_bind (act_lift (map_err reader_recovery_context (RecordHeader_decode E header))) (\<lambda>header.
            if unat (rh_encoded_len header) < RECORD_HEADER_ENCODED_LEN then act_fail reader_recovery_corruption
            else act_return (unat (rh_encoded_len header))))))"

definition recovery_page_end :: "vlog_geometry \<Rightarrow> u64 \<Rightarrow> u64 res" where
  "recovery_page_end g offset =
     ok_or (case checked_div offset (page_size g) of
              None \<Rightarrow> None
            | Some page_no \<Rightarrow>
                (case checked_add page_no 1 of None \<Rightarrow> None | Some page_no \<Rightarrow> checked_mul page_no (page_size g)))
       reader_recovery_corruption"

text \<open>One round of the loop: the chunk at the cursor, and where the next one starts.\<close>

definition read_recovery_chunk ::
  "env \<Rightarrow> 'd os_ops \<Rightarrow> vlog_reader \<Rightarrow> vlog_position \<Rightarrow> nat \<Rightarrow> vlog_position \<Rightarrow>
   ('d, physical_chunk \<times> vlog_position) log_act" where
  "read_recovery_chunk E K R vlog_end count cursor =
     (if pos_file_id cursor > pos_file_id vlog_end then act_fail reader_recovery_corruption
      else
        act_bind (chunk_encoded_len E K R vlog_end cursor) (\<lambda>encoded_len.
        if encoded_len = 0 then act_fail reader_recovery_corruption
        else
          act_bind (act_lift (ok_or (u64_try_from encoded_len) reader_recovery_corruption)) (\<lambda>encoded_len_u64.
          act_bind (act_lift (ok_or (checked_add (pos_offset cursor) encoded_len_u64) reader_recovery_corruption)) (\<lambda>stop.
          act_bind (act_lift (recovery_page_end (vr_geometry R) (pos_offset cursor))) (\<lambda>page_stop.
          if stop > page_stop \<or> stop > max_file_size (vr_geometry R) then act_fail reader_recovery_corruption
          else
            let chunk_end = VLogPosition (pos_file_id cursor) stop in
            if chunk_end > vlog_end then act_fail reader_recovery_corruption
            else
              act_bind (read_recovery_bytes E K R (pos_file_id cursor) (pos_offset cursor) encoded_len) (\<lambda>data.
              act_bind (act_lift (try_reserve E ''RecoveryChunk'' (Suc count)
                  (reader_recovery_resource (pos_file_id cursor) (pos_offset cursor)))) (\<lambda>_.
              act_bind (act_lift (if chunk_end = vlog_end then Ok chunk_end
                                  else recovery_next_position chunk_end (vr_geometry R))) (\<lambda>succ_cursor.
                act_return (\<lparr>chunk_position = cursor, chunk_bytes = data\<rparr>, succ_cursor)))))))))"

lemma Ok_flip:
  "Ok x = ok_or v e \<longleftrightarrow> v = Some x" "Ok y = map_err f r \<longleftrightarrow> r = Ok y"
  "Ok u = try_reserve E site n e' \<longleftrightarrow> can_alloc E site n"
  "Ok q = recovery_next_position p g \<longleftrightarrow> recovery_next_position p g = Ok q"
  by (cases v; cases r; auto simp: try_reserve_def ensure_def)+

lemma recovery_next_position_Ok:
  "recovery_next_position p g = Ok q \<Longrightarrow> q = p \<or>
     pos_offset p = max_file_size g \<and> pos_file_id p < max_file_id g \<and> checked_add (pos_file_id p) 1 = Some (pos_file_id q)
     \<and> pos_offset q = 0"
  by (auto simp: recovery_next_position_def result_simps split: if_splits)

lemma read_recovery_chunk_cursor:
  assumes "read_recovery_chunk E K R vlog_end count cursor w = (w', Ok (chunk, succ_cursor))"
  shows "pos_file_id cursor \<le> pos_file_id vlog_end
    \<and> (unat (pos_file_id cursor) < unat (pos_file_id succ_cursor)
       \<or> pos_file_id succ_cursor = pos_file_id cursor \<and> unat (pos_offset cursor) < unat (pos_offset succ_cursor))"
proof -
  from assms obtain n len stop where c: "n \<noteq> 0" "u64_try_from n = Some len"
    "checked_add (pos_offset cursor) len = Some stop" "pos_file_id cursor \<le> pos_file_id vlog_end"
    "VLogPosition (pos_file_id cursor) stop = succ_cursor
     \<or> recovery_next_position (VLogPosition (pos_file_id cursor) stop) (vr_geometry R) = Ok succ_cursor"
    by (auto simp: read_recovery_chunk_def act_simps Let_def Ok_flip split: if_splits)
  have "unat stop = unat (pos_offset cursor) + n"
    using c(2) checked_add_unat [OF c(3)] by (simp add: u64_try_from_Some unat_of_nat_small)
  then show ?thesis
    using c(1,4,5) checked_add_unat [of "pos_file_id cursor" 1 "pos_file_id succ_cursor"]
    by (auto dest!: recovery_next_position_Ok)
qed

function read_chunks_from ::
  "env \<Rightarrow> 'd os_ops \<Rightarrow> vlog_reader \<Rightarrow> vlog_position \<Rightarrow> physical_chunk list \<Rightarrow> vlog_position \<Rightarrow>
   ('d, physical_chunk list) log_act" where
  "read_chunks_from E K R vlog_end chunks cursor w =
     (if cursor < vlog_end
      then (case read_recovery_chunk E K R vlog_end (length chunks) cursor w of
              (w', Ok (chunk, succ_cursor)) \<Rightarrow> read_chunks_from E K R vlog_end (chunks @ [chunk]) succ_cursor w'
            | (w', Err e) \<Rightarrow> (w', Err e))
      else if cursor \<noteq> vlog_end then (w, Err reader_recovery_corruption)
      else (w, Ok chunks))"
  by pat_completeness auto

termination
proof (relation "measures [\<lambda>(E, K, R, vlog_end, chunks, cursor, w). Suc (unat (pos_file_id vlog_end)) - unat (pos_file_id cursor),
    \<lambda>(E, K, R, vlog_end, chunks, cursor, w). 2 ^ 64 - unat (pos_offset cursor)]", goal_cases)
  case (2 E K R vlog_end chunks cursor w w' r chunk_next chunk succ_cursor)
  then have "read_recovery_chunk E K R vlog_end (length chunks) cursor w = (w', Ok (chunk, succ_cursor))" by simp
  from read_recovery_chunk_cursor [OF this] unat_less_2p [of "pos_offset succ_cursor"] show ?case
    by (auto simp: word_le_nat_alt)
qed simp

declare read_chunks_from.simps [simp del]

definition read_recovery_chunks ::
  "env \<Rightarrow> 'd os_ops \<Rightarrow> vlog_reader \<Rightarrow> vlog_position \<Rightarrow> vlog_position \<Rightarrow> ('d, physical_chunk list) log_act" where
  "read_recovery_chunks E K R vlog_begin vlog_end =
     (let g = vr_geometry R in
      if vlog_begin \<ge> vlog_end
         \<or> pos_file_id vlog_begin > max_file_id g \<or> pos_file_id vlog_end > max_file_id g
         \<or> pos_offset vlog_begin > max_file_size g \<or> pos_offset vlog_end > max_file_size g
      then act_fail reader_recovery_corruption
      else act_bind (act_lift (recovery_next_position vlog_begin g)) (\<lambda>cursor.
             read_chunks_from E K R vlog_end [] cursor))"

definition reader_try_copy_bytes :: "env \<Rightarrow> bytes \<Rightarrow> bytes res" where
  "reader_try_copy_bytes E bs =
     and_then (try_reserve E ''RecoveryBytes'' (length bs) (reader_recovery_resource 0 0)) (\<lambda>_. Ok bs)"

definition record_state :: "vlog_position \<Rightarrow> usize \<Rightarrow> decoded_record \<Rightarrow> (bytes \<times> envelope_value_state) option res" where
  "record_state p len decoded =
     (case decoded of
        DR_KvRecord record \<Rightarrow>
          and_then (ok_or (u32_try_from (unat (pos_offset p))) reader_recovery_corruption) (\<lambda>record_offset.
          and_then (ok_or (u32_try_from len) reader_recovery_corruption) (\<lambda>record_len.
          and_then (ok_or (u16_try_from (length (kv_value record))) reader_recovery_corruption) (\<lambda>value_len.
            Ok (Some (kv_key record, EnvelopePresent
              \<lparr>vp_format_version = 0, vp_file_id = pos_file_id p, vp_record_offset = record_offset,
               vp_record_len = record_len, vp_value_len = value_len\<rparr>)))))
      | DR_DeleteRecord record \<Rightarrow> Ok (Some (dl_key record, EnvelopeAbsent))
      | _ \<Rightarrow> Ok None)"

fun collect_states ::
  "env \<Rightarrow> vlog_geometry \<Rightarrow> (bytes \<rightharpoonup> nat) \<Rightarrow> envelope_final_state list \<Rightarrow> physical_chunk list \<Rightarrow>
   envelope_final_state list res" where
  "collect_states E g key_indexes states [] = Ok states"
| "collect_states E g key_indexes states (chunk # chunks) =
     (let offset = pos_offset (chunk_position chunk) in
      if offset mod page_size g = 0 \<or> (offset < page_size g \<and> offset = word_of_nat PAGE_HEADER_ENCODED_LEN)
      then collect_states E g key_indexes states chunks
      else
        and_then (map_err reader_recovery_context (decode_record_at E (chunk_bytes chunk) (chunk_position chunk) g)) (\<lambda>decoded.
        and_then (record_state (chunk_position chunk) (length (chunk_bytes chunk)) decoded) (\<lambda>found.
          case found of
            None \<Rightarrow> collect_states E g key_indexes states chunks
          | Some (key, state) \<Rightarrow>
              (case key_indexes key of
                 Some index \<Rightarrow>
                   if index < length states
                   then collect_states E g key_indexes (states[index := (states ! index)\<lparr>fs_state := state\<rparr>]) chunks
                   else Err reader_recovery_corruption
               | None \<Rightarrow>
                   and_then (reader_try_copy_bytes E key) (\<lambda>map_key.
                   and_then (reader_try_copy_bytes E key) (\<lambda>state_key.
                     collect_states E g (key_indexes(map_key \<mapsto> length states))
                       (states @ [\<lparr>fs_user_key = state_key, fs_state = state\<rparr>]) chunks))))))"

definition collect_final_states ::
  "env \<Rightarrow> physical_chunk list \<Rightarrow> vlog_geometry \<Rightarrow> envelope_final_state list res" where
  "collect_final_states E chunks g =
     and_then (try_reserve E ''FinalKeys'' (length chunks) (reader_recovery_resource 0 0)) (\<lambda>_.
     and_then (try_reserve E ''FinalStates'' (length chunks) (reader_recovery_resource 0 0)) (\<lambda>_.
       collect_states E g Map.empty [] chunks))"

definition read_recovery_envelope ::
  "env \<Rightarrow> 'd os_ops \<Rightarrow> vlog_reader \<Rightarrow> vlog_position \<Rightarrow> vlog_position \<Rightarrow> u32 option \<Rightarrow> ('d, recovery_envelope) log_act" where
  "read_recovery_envelope E K R vlog_begin vlog_end expected_envelope_crc32c =
     act_bind (read_recovery_chunks E K R vlog_begin vlog_end) (\<lambda>chunks.
     act_bind (act_lift (map_err reader_recovery_context
         (scan_prepared_envelope E chunks (vr_geometry R) (fs_database_uuid (vr_files R)) vlog_begin vlog_end
            expected_envelope_crc32c))) (\<lambda>scanned.
     act_bind (act_lift (collect_final_states E chunks (vr_geometry R))) (\<lambda>final_states.
       act_return \<lparr>re_scanned = scanned, re_final_states = final_states\<rparr>)))"

definition stable_tail_start :: "vlog_geometry \<Rightarrow> vlog_position \<Rightarrow> u64 res" where
  "stable_tail_start g vlog_end =
     and_then (ok_or (checked_sub (pos_offset vlog_end) 1) reader_recovery_corruption) (\<lambda>containing_offset.
     and_then (ok_or (case checked_div containing_offset (page_size g) of
                        None \<Rightarrow> None | Some page_no \<Rightarrow> checked_mul page_no (page_size g))
                reader_recovery_corruption) (\<lambda>page_start.
       if page_start = 0 then Ok (word_of_nat (PAGE_HEADER_ENCODED_LEN + FILE_HEADER_ENCODED_LEN))
       else ok_or (checked_add page_start (word_of_nat PAGE_HEADER_ENCODED_LEN)) reader_recovery_corruption))"

definition read_stable_envelope_from_end ::
  "env \<Rightarrow> 'd os_ops \<Rightarrow> vlog_reader \<Rightarrow> vlog_position \<Rightarrow> ('d, recovery_envelope) log_act" where
  "read_stable_envelope_from_end E K R vlog_end =
     (let g = vr_geometry R in
      if pos_file_id vlog_end > max_file_id g \<or> pos_offset vlog_end = 0 \<or> pos_offset vlog_end > max_file_size g
      then act_fail reader_recovery_corruption
      else
        act_bind (act_lift (stable_tail_start g vlog_end)) (\<lambda>tail_start_offset.
        if tail_start_offset \<ge> pos_offset vlog_end then act_fail reader_recovery_corruption
        else
          act_bind (act_lift (ok_or (checked_sub (pos_offset vlog_end) tail_start_offset) reader_recovery_corruption)) (\<lambda>tail_len.
          act_bind (read_recovery_bytes E K R (pos_file_id vlog_end) tail_start_offset (unat tail_len)) (\<lambda>tail.
          act_bind (act_lift (map_err reader_recovery_context
              (locate_footer_from_end E (VLogPosition (pos_file_id vlog_end) tail_start_offset) tail vlog_end g))) (\<lambda>located.
            read_recovery_envelope E K R (te_vlog_begin (lf_footer located)) vlog_end
              (Some (te_envelope_crc32c (lf_footer located))))))))"

end
