(* ===== verification/ReaderLog.thy ===== *)
theory ReaderLog
  imports Reader
begin

text \<open>
  What reading the value log returns: never anything but what the files hold, and, for the chunks
  of an envelope that are all stored, exactly those chunks or an error that says nothing against
  the log.
\<close>

section \<open>What reads leave alone\<close>

definition leads_to :: "disk_view \<Rightarrow> u32 \<Rightarrow> handle \<Rightarrow> bool" where
  "leads_to v f h \<longleftrightarrow> f \<le> MAX_VLOG_FILE_ID \<and> file_handle v f = Some h"

definition cache_inv :: "disk_view \<Rightarrow> handle_cache \<Rightarrow> bool" where
  "cache_inv v c \<longleftrightarrow> (\<forall>f h. Mapping.lookup (hc_handles c) f = Some h \<longrightarrow> leads_to v f h)"

lemma cache_inv_empty [simp]: "cache_inv v cache_empty"
  by (simp add: cache_inv_def cache_empty_def)

lemma ok_or_case: "ok_or v e = (case v of None \<Rightarrow> Err e | Some x \<Rightarrow> Ok x)"
  by (cases v) simp_all

lemma lookup_delete_if: "Mapping.lookup (Mapping.delete k m) k' = (if k = k' then None else Mapping.lookup m k')"
  by simp

lemma cache_insert_inv:
  assumes "cache_inv v c" and "leads_to v f h" and "cache_insert_or_get n f h c = (c', r)"
  shows "cache_inv v c'" and "r = Ok h' \<Longrightarrow> leads_to v f h'" and "r = Err e \<Longrightarrow> err_kind e = StoragePoisoned"
  using assms
  by (auto simp: cache_insert_or_get_def cache_inv_def lookup_update' lookup_delete_if cache_internal_error_def codec_error_def StorageError_new_def
      Let_def split: if_splits option.splits list.splits)

definition benign :: "storage_error \<Rightarrow> bool" where
  "benign e \<longleftrightarrow> err_kind e \<notin> {Corruption, InvalidLayout, IncompatibleFormat}"

lemma benign_simps [simp]:
  "benign (reader_recovery_context e) = benign e" "benign (read_context e fo off) = benign e"
  "benign (recovery_io f off' er)" "benign (reader_recovery_resource f off')" "benign (file_read_io f off er)"
  "benign (read_io f k er)" "benign (read_resource f k)"
  by (simp_all add: benign_def reader_recovery_context_def read_context_def recovery_io_def reader_recovery_resource_def
      file_read_io_def codec_error_def StorageError_new_def Let_def read_io_def read_resource_def)

lemma classify_open_benign:
  "io_error_kind er \<noteq> IoNotFound \<Longrightarrow> io_raw_os_error er \<noteq> Some ELOOP \<Longrightarrow> benign (classify_open_error f er)"
  by (simp add: classify_open_error_def benign_def codec_error_def StorageError_new_def Let_def)

lemma decode_value_record_Ok:
  assumes "decode_value_record E R p l key d = Ok val"
  shows "\<exists>rec. decode_record_at E d (VLogPosition (vp_file_id p) (ucast (vp_record_offset p))) (vr_geometry R)
    = Ok (DR_KvRecord rec) \<and> kv_key rec = key \<and> kv_value rec = val"
proof -
  obtain x where "decode_record_at E d (VLogPosition (vp_file_id p) (ucast (vp_record_offset p))) (vr_geometry R) = Ok x"
    using assms by (auto simp: decode_value_record_def Let_def result_simps)
  then show ?thesis
    using assms by (cases x) (auto simp: decode_value_record_def Let_def result_simps split: if_splits)
qed

context log_disk
begin

definition reads :: "'d log_world \<Rightarrow> 'd log_world \<Rightarrow> bool" where
  "reads w w' \<longleftrightarrow> wview w' = wview w \<and> wd_catalog w' = wd_catalog w
     \<and> (cache_inv (wview w) (wd_cache w) \<longrightarrow> cache_inv (wview w') (wd_cache w'))"

lemma reads_refl [simp]: "reads w w" by (simp add: reads_def)

lemma reads_trans: "reads w w1 \<Longrightarrow> reads w1 w2 \<Longrightarrow> reads w w2" by (auto simp: reads_def)

lemma reads_metadata: "on_disk (os_metadata K h) w = (w', r) \<Longrightarrow> reads w w'"
  using metadata_keeps by (auto simp: on_disk_eq reads_def)

lemma reads_exact: "read_exact_at K h n off f w = (w', r) \<Longrightarrow> reads w w'"
  using read_exact_keeps [of h f "[]" n off 0 0 w w' r] by (simp add: read_exact_at_def reads_def)

lemma metadata_len: "on_disk (os_metadata K h) w = (w', Ok m) \<Longrightarrow> unat (md_len m) = length (dv_content (wview w) h)"
  using metadata_ok by (auto simp: on_disk_eq)

lemma validate_candidate_reads:
  assumes "validate_candidate E K fs f x h w = (w', r)"
  shows "reads w w'"
proof -
  obtain w1 r1 where m: "on_disk (os_metadata K h) w = (w1, r1)" by fastforce
  note k = reads_metadata [OF m]
  show ?thesis
  proof (cases r1)
    case (Err e)
    then show ?thesis using assms m k by (auto simp: validate_candidate_def act_bind_def act_map_err_def)
  next
    case (Ok md)
    obtain w2 r2 where r: "read_exact_at K h FILE_HEADER_ENCODED_LEN (word_of_nat PAGE_HEADER_ENCODED_LEN) f w1 = (w2, r2)"
      by fastforce
    have "w' = w1 \<or> w' = w2"
      using assms m Ok r
      by (auto simp: validate_candidate_def act_bind_def act_map_err_def split: result.splits if_splits prod.splits)
    then show ?thesis using k reads_trans [OF k reads_exact [OF r]] by auto
  qed
qed

lemma open_candidate_spec:
  assumes "open_candidate E K fs f x em i t w = (w', r)"
  shows "reads w w' \<and> (\<forall>h. r = Ok h \<longrightarrow> leads_to (wview w) f h)"
  using assms
proof (induction "(if em then 0 else 1) + (EINTR_RETRY_LIMIT - i) + (TRANSIENT_OPEN_RETRY_LIMIT - t)"
    arbitrary: em i t w rule: less_induct)
  case less
  obtain w1 r1 where o: "open_read_only K f w = (w1, r1)" by fastforce
  then have k: "reads w w1" "reads w (w1\<lparr>wd_cache := cache_empty\<rparr>)"
    using open_keeps_world(2) by (auto simp: reads_def)
  show ?case
  proof (cases r1)
    case (Ok h)
    have fh: "leads_to (wview w) f h"
      using o Ok open_ok by (auto simp: leads_to_def directory_calls named_call_def file_handle_def split: if_splits)
    obtain w2 r2 where v: "validate_candidate E K fs f x h w1 = (w2, r2)" by fastforce
    have "w' = w2" "r = Ok h' \<Longrightarrow> h' = h" for h'
      using less.prems o Ok v
      by (auto simp: open_candidate.simps [of E K fs f x em i t w] act_bind_def split: result.splits)
    then show ?thesis using k reads_trans validate_candidate_reads [OF v] fh by blast
  next
    case (Err e)
    have step: "reads w w' \<and> (\<forall>h. r = Ok h \<longrightarrow> leads_to (wview w) f h)" if "open_candidate E K fs f x em' i' t' w2 = (w', r)" "reads w w2"
      "(if em' then 0 else 1) + (EINTR_RETRY_LIMIT - i') + (TRANSIENT_OPEN_RETRY_LIMIT - t')
        < (if em then 0 else 1) + (EINTR_RETRY_LIMIT - i) + (TRANSIENT_OPEN_RETRY_LIMIT - t)" for em' i' t' w2
    proof -
      have "wview w2 = wview w" using that(2) by (simp add: reads_def)
      then show ?thesis using less.hyps [OF that(3,1)] reads_trans [OF that(2)] by simp
    qed
    show ?thesis
      using less.prems o Err step [OF _ k(2), of True i t] step [OF _ k(1), of em "Suc i" t] step [OF _ k(1), of em i "Suc t"] k(1)
      by (auto simp: open_candidate.simps [of E K fs f x em i t w] split: if_splits)
  qed
qed

lemma FileSet_handle_spec:
  assumes "FileSet_handle E K fs f w = (w', r)"
  shows "reads w w'" and "r = Ok h \<Longrightarrow> cache_inv (wview w) (wd_cache w) \<Longrightarrow> file_handle (wview w) f = Some h"
proof -
  have "reads w w' \<and> (r = Ok h \<longrightarrow> cache_inv (wview w) (wd_cache w) \<longrightarrow> file_handle (wview w) f = Some h)"
  proof (cases "Mapping.lookup (wd_catalog w) f")
    case None
    then show ?thesis using assms by (auto simp: FileSet_handle_def catalog_identity_def act_bind_def)
  next
    case (Some x)
    show ?thesis
    proof (cases "cache_hit f (wd_cache w)")
      case hit: (Some h')
      then show ?thesis
        using assms Some by (auto simp: FileSet_handle_def catalog_identity_def act_bind_def cache_inv_def leads_to_def cache_hit_def)
    next
      case miss: None
      obtain w1 r1 where o: "open_candidate E K fs f x False 0 0 w = (w1, r1)" by fastforce
      note S = open_candidate_spec [OF o]
      show ?thesis
      proof (cases r1)
        case (Err e)
        then show ?thesis
          using assms Some miss o S by (auto simp: FileSet_handle_def catalog_identity_def act_bind_def)
      next
        case (Ok c)
        obtain c' q where ins: "cache_insert_or_get (fs_capacity fs) f c (wd_cache w1) = (c', q)" by fastforce
        have e: "w' = w1\<lparr>wd_cache := c'\<rparr>" "r = q"
          using assms Some miss o Ok ins by (auto simp: FileSet_handle_def catalog_identity_def act_bind_def Let_def)
        have c: "leads_to (wview w) f c" using S Ok by simp
        have "reads w w'"
          using S e cache_insert_inv(1) [OF _ _ ins, of "wview w"] c by (auto simp: reads_def)
        moreover have "r = Ok h \<longrightarrow> cache_inv (wview w) (wd_cache w) \<longrightarrow> file_handle (wview w) f = Some h"
          using S e cache_insert_inv(2) [OF _ _ ins, of "wview w" h] c by (auto simp: reads_def leads_to_def)
        ultimately show ?thesis by blast
      qed
    qed
  qed
  then show "reads w w'" and "r = Ok h \<Longrightarrow> cache_inv (wview w) (wd_cache w) \<Longrightarrow> file_handle (wview w) f = Some h"
    by blast+
qed


lemma read_recovery_bytes_spec:
  assumes "read_recovery_bytes E K R f off n w = (w', r)"
  shows "reads w w'"
    and "r = Ok data \<Longrightarrow> cache_inv (wview w) (wd_cache w) \<Longrightarrow> \<exists>h. file_handle (wview w) f = Some h
      \<and> data = take n (drop (unat off) (dv_content (wview w) h)) \<and> length data = n"
proof -
  have "reads w w' \<and> (r = Ok data \<longrightarrow> cache_inv (wview w) (wd_cache w) \<longrightarrow> (\<exists>h. file_handle (wview w) f = Some h
      \<and> data = take n (drop (unat off) (dv_content (wview w) h)) \<and> length data = n))"
  proof -
    obtain w1 r1 where h: "FileSet_handle E K (vr_files R) f w = (w1, r1)" by fastforce
    note H = FileSet_handle_spec [OF h]
    show ?thesis
    proof (cases r1)
      case (Err e)
      then show ?thesis using assms h H by (auto simp: read_recovery_bytes_def act_bind_def act_map_err_def)
    next
      case (Ok c)
      obtain w2 r2 where m: "on_disk (os_metadata K c) w1 = (w2, r2)" by fastforce
      note k2 = reads_trans [OF H(1) reads_metadata [OF m]]
      show ?thesis
      proof (cases "\<exists>md len stop. r2 = Ok md \<and> u64_try_from n = Some len \<and> checked_add off len = Some stop
          \<and> stop \<le> md_len md \<and> stop \<le> max_file_size (vr_geometry R) \<and> can_alloc E ''RecoveryRead'' n")
        case False
        then have "w' = w2 \<and> \<not> is_ok r"
          using assms h Ok m
          by (auto simp: read_recovery_bytes_def act_bind_def act_map_err_def act_lift_def act_fail_def ok_or_case try_reserve_def ensure_def
              split: result.splits option.splits if_splits)
        then show ?thesis using k2 by auto
      next
        case True
        then obtain md len stop where t: "r2 = Ok md" "u64_try_from n = Some len" "checked_add off len = Some stop"
          "stop \<le> md_len md" "stop \<le> max_file_size (vr_geometry R)" "can_alloc E ''RecoveryRead'' n" by blast
        obtain w3 r3 where x: "read_exact_at K c n off f w2 = (w3, r3)" by fastforce
        have "read_recovery_bytes E K R f off n w = (w3, map_err reader_recovery_context r3)"
          using h Ok m t x
          by (cases r3) (simp_all add: read_recovery_bytes_def act_bind_def act_map_err_def act_lift_def try_reserve_def leD)
        then have e: "w' = w3" "r = Ok d \<longleftrightarrow> r3 = Ok d" for d using assms by auto
        have b: "unat off + n < 2 ^ 64"
          using t(2,3) by (auto simp: u64_try_from_Some checked_add_Some unat_of_nat_small)
        have v: "wview w2 = wview w" using k2 by (simp add: reads_def)
        have "data = take n (drop (unat off) (dv_content (wview w) c)) \<and> length data = n" if "r = Ok data"
          using read_exact_at_data [OF x [unfolded e(2) [THEN iffD1, OF that]] b] unfolding v .
        moreover have "reads w w'" using reads_trans [OF k2 reads_exact [OF x]] e(1) by simp
        moreover have "file_handle (wview w) f = Some c" if "cache_inv (wview w) (wd_cache w)"
          using H(2) Ok that by simp
        ultimately show ?thesis by blast
      qed
    qed
  qed
  then show "reads w w'" and "r = Ok data \<Longrightarrow> cache_inv (wview w) (wd_cache w) \<Longrightarrow> \<exists>h. file_handle (wview w) f = Some h
      \<and> data = take n (drop (unat off) (dv_content (wview w) h)) \<and> length data = n" by blast+
qed

lemma read_pointer_spec:
  assumes "read_pointer E K R p key w = (w', r)"
  shows "reads w w'"
    and "r = Ok val \<Longrightarrow> cache_inv (wview w) (wd_cache w) \<Longrightarrow> \<exists>h rec. file_handle (wview w) (vp_file_id p) = Some h
      \<and> decode_record_at E (take (unat (vp_record_len p)) (drop (unat (vp_record_offset p)) (dv_content (wview w) h)))
          (VLogPosition (vp_file_id p) (ucast (vp_record_offset p))) (vr_geometry R) = Ok (DR_KvRecord rec)
      \<and> kv_key rec = key \<and> kv_value rec = val"
proof -
  have "reads w w' \<and> (r = Ok val \<longrightarrow> cache_inv (wview w) (wd_cache w) \<longrightarrow> (\<exists>h rec. file_handle (wview w) (vp_file_id p) = Some h
      \<and> decode_record_at E (take (unat (vp_record_len p)) (drop (unat (vp_record_offset p)) (dv_content (wview w) h)))
          (VLogPosition (vp_file_id p) (ucast (vp_record_offset p))) (vr_geometry R) = Ok (DR_KvRecord rec)
      \<and> kv_key rec = key \<and> kv_value rec = val))"
  proof (cases "ValuePointer_layout p")
    case (Err e)
    then show ?thesis using assms by (auto simp: read_pointer_def act_bind_def act_lift_def Let_def)
  next
    case lay: (Ok l)
    obtain w1 r1 where h: "FileSet_handle E K (vr_files R) (vp_file_id p) w = (w1, r1)" by fastforce
    note H = FileSet_handle_spec [OF h]
    show ?thesis
    proof (cases r1)
      case (Err e)
      then show ?thesis using assms lay h H by (auto simp: read_pointer_def act_bind_def act_lift_def Let_def)
    next
      case (Ok c)
      obtain w2 r2 where m: "on_disk (os_metadata K c) w1 = (w2, r2)" by fastforce
      note k2 = reads_trans [OF H(1) reads_metadata [OF m]]
      show ?thesis
      proof (cases "\<exists>md l. r2 = Ok md \<and> ValuePointer_validate_file_bounds p (md_len md) = Ok l
          \<and> can_alloc E ''ReadRecord'' (unat (vp_record_len p))")
        case False
        then have "w' = w2 \<and> \<not> is_ok r"
          using assms lay h Ok m
          by (auto simp: read_pointer_def act_bind_def act_lift_def Let_def act_map_err_def try_reserve_def ensure_def
              split: result.splits if_splits)
        then show ?thesis using k2 by auto
      next
        case True
        then obtain md l where t: "r2 = Ok md" "ValuePointer_validate_file_bounds p (md_len md) = Ok l"
          "can_alloc E ''ReadRecord'' (unat (vp_record_len p))" by blast
        let ?off = "ucast (vp_record_offset p) :: u64"
        obtain w3 r3 where x: "read_exact_at K c (unat (vp_record_len p)) ?off (vp_file_id p) w2 = (w3, r3)"
          by fastforce
        have e: "w' = w3" "r = Ok val \<longleftrightarrow> (\<exists>d. r3 = Ok d \<and> decode_value_record E R p l key d = Ok val)"
          using assms lay h Ok m t x
          by (auto simp: read_pointer_def act_bind_def act_map_err_def act_lift_def Let_def try_reserve_def
              split: result.splits)
        have u: "unat ?off = unat (vp_record_offset p)" by simp
        have b: "unat ?off + unat (vp_record_len p) < 2 ^ 64"
          using unat_less_2p [of "vp_record_offset p"] unat_less_2p [of "vp_record_len p"] unfolding u by simp
        have v: "wview w2 = wview w" using k2 by (simp add: reads_def)
        have "\<exists>rec. decode_record_at E (take (unat (vp_record_len p)) (drop (unat (vp_record_offset p)) (dv_content (wview w) c)))
            (VLogPosition (vp_file_id p) ?off) (vr_geometry R) = Ok (DR_KvRecord rec)
          \<and> kv_key rec = key \<and> kv_value rec = val" if ok: "r = Ok val"
        proof -
          obtain d where d: "r3 = Ok d" "decode_value_record E R p l key d = Ok val" using e(2) ok by blast
          have "d = take (unat (vp_record_len p)) (drop (unat (vp_record_offset p)) (dv_content (wview w) c))"
            using read_exact_at_data [OF x [unfolded d(1)] b] v u by simp
          then show ?thesis
            using decode_value_record_Ok [OF d(2)] by simp
        qed
        moreover have "reads w w'" using reads_trans [OF k2 reads_exact [OF x]] e(1) by simp
        moreover have "file_handle (wview w) (vp_file_id p) = Some c" if "cache_inv (wview w) (wd_cache w)"
          using H(2) Ok that by simp
        ultimately show ?thesis by blast
      qed
    qed
  qed
  then show "reads w w'"
    and "r = Ok val \<Longrightarrow> cache_inv (wview w) (wd_cache w) \<Longrightarrow> \<exists>h rec. file_handle (wview w) (vp_file_id p) = Some h
      \<and> decode_record_at E (take (unat (vp_record_len p)) (drop (unat (vp_record_offset p)) (dv_content (wview w) h)))
          (VLogPosition (vp_file_id p) (ucast (vp_record_offset p))) (vr_geometry R) = Ok (DR_KvRecord rec)
      \<and> kv_key rec = key \<and> kv_value rec = val" by blast+
qed

end

section \<open>Directories that do not lie\<close>

text \<open>
  What POSIX adds for a directory whose entries are regular files: a file that is there is found,
  and a read inside a file that succeeds returns something.
\<close>

locale honest_disk = log_disk +
  assumes open_found: "os_open K nm wr d = (d', Err e) \<Longrightarrow> dv_entry (view d) nm \<noteq> None \<Longrightarrow>
      io_error_kind e \<noteq> IoNotFound \<and> io_raw_os_error e \<noteq> Some ELOOP"
    and metadata_file: "os_metadata K h d = (d', Ok m) \<Longrightarrow> md_is_file m"
    and read_progress: "os_read_at K h n off d = (d', Ok []) \<Longrightarrow> n = 0 \<or> length (dv_content (view d) h) \<le> unat off"

definition gentle :: "(nat \<Rightarrow> io_error option) \<Rightarrow> nat \<Rightarrow> io_error option" where
  "gentle fault t = map_option (\<lambda>e. \<lparr>io_error_kind = if io_error_kind e = IoNotFound then IoOther else io_error_kind e,
     io_raw_os_error = if io_raw_os_error e = Some ELOOP then None else io_raw_os_error e\<rparr>) (fault t)"

interpretation mem_honest: honest_disk "mem_os (gentle fault) (\<lambda>t. Suc (limit t))" mem_disk_view mem_ident
proof (unfold_locales, goal_cases)
  case (1 nm wr d d' e)
  then show ?case by (auto simp: mem_os_def mem_call_eq gentle_def split: option.splits if_splits)
next
  case (2 h d d' m)
  then show ?case by (auto simp: mem_os_def mem_call_eq split: if_splits)
next
  case (3 h n off d d')
  then show ?case by (auto simp: mem_os_def mem_call_eq mem_disk_view_def)
qed

text \<open>A file of the log that readers accept: catalogued, not too long, and with its own header.\<close>

definition file_ready ::
  "env \<Rightarrow> file_set \<Rightarrow> (handle \<Rightarrow> file_identity) \<Rightarrow> (u32, file_identity) mapping \<Rightarrow> disk_view \<Rightarrow> u32 \<Rightarrow> bool" where
  "file_ready E fs ident catalog v f \<longleftrightarrow> f \<le> MAX_VLOG_FILE_ID \<and> (\<exists>h header. file_handle v f = Some h
     \<and> Mapping.lookup catalog f = Some (ident h)
     \<and> length (dv_content v h) \<le> unat (max_file_size (fs_geometry fs))
     \<and> PAGE_HEADER_ENCODED_LEN + FILE_HEADER_ENCODED_LEN \<le> length (dv_content v h)
     \<and> VLogFileHeader_decode E (take FILE_HEADER_ENCODED_LEN (drop PAGE_HEADER_ENCODED_LEN (dv_content v h))) = Ok header
     \<and> fh_file_id header = f \<and> fh_database_uuid header = fs_database_uuid fs
     \<and> ucast (fh_page_size header) = VLOG_PAGE_SIZE \<and> fh_max_file_size header = MAX_VLOG_FILE_SIZE)"

context honest_disk
begin

lemma read_exact_benign:
  assumes "read_exact_at_impl (\<lambda>n off. on_disk (os_read_at K h n off)) f got want off i t w = (w', Err e)"
    and "unat off + want \<le> length (dv_content (wview w) h)" and "unat off + want < 2 ^ 64"
  shows "benign e"
  using assms
proof (induction "\<lambda>n off. on_disk (os_read_at K h n off) :: ('a log_world, bytes, io_error) act" f got want off i t w
    arbitrary: w' e rule: read_exact_at_impl.induct)
  case (1 f got off i t w)
  then show ?case by (simp add: read_exact_at_impl.simps)
next
  case (2 f got n off i t w)
  obtain d x where c: "os_read_at K h (Suc n) off (wd_disk w) = (d, x)" by fastforce
  have o: "on_disk (os_read_at K h (Suc n) off) w = (w\<lparr>wd_disk := d\<rparr>, x)" using c by (simp add: on_disk_def)
  have v: "wview (w\<lparr>wd_disk := d\<rparr>) = wview w" using read_keeps [OF c] by simp
  show ?case
  proof (cases x)
    case (Ok part)
    have ne: "part \<noteq> []" using read_progress [of h "Suc n" off "wd_disk w" d] c Ok "2.prems"(2) by auto
    obtain m where m: "m \<le> Suc n" "part = take m (drop (unat off) (dv_content (wview w) h))"
      using read_ok [of h "Suc n" off "wd_disk w" d part] c Ok by auto
    then have le: "length part \<le> Suc n" by simp
    then have u: "u64_try_from (length part) = Some (word_of_nat (length part))"
      "unat (word_of_nat (length part) :: u64) = length part"
      using "2.prems"(3) by (simp_all add: u64_try_from_def unat_of_nat_small)
    then have add: "checked_add off (word_of_nat (length part)) = Some (off + word_of_nat (length part))"
      "unat (off + word_of_nat (length part)) = unat off + length part"
      using le "2.prems"(3) by (simp_all add: checked_add_Some unat_add_no_overflow)
    obtain b part' where p: "part = b # part'" using ne by (cases part) auto
    show ?thesis
    proof (rule "2.hyps"(1) [OF o [symmetric] Ok p])
      show "u64_try_from (length (b # part')) = Some (word_of_nat (length part))"
        "checked_add off (word_of_nat (length part)) = Some (off + word_of_nat (length part))"
        "\<not> Suc n < length (b # part')" using u add(1) le p by simp_all
      show "read_exact_at_impl (\<lambda>n off. on_disk (os_read_at K h n off)) f (got @ b # part')
          (Suc n - length (b # part')) (off + word_of_nat (length part)) 0 0 (w\<lparr>wd_disk := d\<rparr>) = (w', Err e)"
        using "2.prems"(1) o Ok p u add le by (simp add: read_exact_at_impl.simps)
      show "unat (off + word_of_nat (length part)) + (Suc n - length (b # part'))
          \<le> length (dv_content (wview (w\<lparr>wd_disk := d\<rparr>)) h)"
        "unat (off + word_of_nat (length part)) + (Suc n - length (b # part')) < 2 ^ 64"
        unfolding v add(2) using le "2.prems"(2,3) p by simp_all
    qed
  next
    case (Err er)
    show ?thesis
      using "2.prems" o Err "2.hyps"(2,3) [OF o [symmetric] Err] unfolding v
      by (auto simp: read_exact_at_impl.simps split: if_splits)
  qed
qed

lemma read_exact_at_benign:
  "read_exact_at K h n off f w = (w', Err e) \<Longrightarrow> unat off + n \<le> length (dv_content (wview w) h) \<Longrightarrow>
   unat off + n < 2 ^ 64 \<Longrightarrow> benign e"
  unfolding read_exact_at_def by (rule read_exact_benign)

lemma validate_candidate_benign:
  assumes "validate_candidate E K fs f x h w = (w', Err e)" and "file_ready E fs ident (wd_catalog w) (wview w) f"
    and "file_handle (wview w) f = Some h" and "x = ident h"
  shows "benign e"
proof -
  obtain w1 r1 where m: "on_disk (os_metadata K h) w = (w1, r1)" by fastforce
  have v: "wview w1 = wview w" using reads_metadata [OF m] by (simp add: reads_def)
  show ?thesis
  proof (cases r1)
    case (Err er)
    then show ?thesis using assms(1) m by (auto simp: validate_candidate_def act_bind_def act_map_err_def)
  next
    case (Ok md)
    have md: "md_is_file md" "md_identity md = ident h" "\<not> md_len md > max_file_size (fs_geometry fs)"
      using m Ok metadata_file metadata_ok assms(2,3)
      by (auto simp: on_disk_eq file_ready_def word_less_nat_alt)
    obtain w2 r2 where r: "read_exact_at K h FILE_HEADER_ENCODED_LEN (word_of_nat PAGE_HEADER_ENCODED_LEN) f w1 = (w2, r2)"
      by fastforce
    have b: "unat (word_of_nat PAGE_HEADER_ENCODED_LEN :: u64) + FILE_HEADER_ENCODED_LEN \<le> length (dv_content (wview w1) h)"
      "unat (word_of_nat PAGE_HEADER_ENCODED_LEN :: u64) + FILE_HEADER_ENCODED_LEN < 2 ^ 64"
      using assms(2,3) v by (auto simp: file_ready_def vlog_consts)
    show ?thesis
    proof (cases r2)
      case (Err er)
      then have "e = er" using assms(1,4) m Ok md r by (simp add: validate_candidate_def act_bind_def act_map_err_def)
      then show ?thesis using read_exact_at_benign [OF r [unfolded Err] b] by simp
    next
      case d: (Ok bs)
      have "bs = take FILE_HEADER_ENCODED_LEN (drop PAGE_HEADER_ENCODED_LEN (dv_content (wview w) h))"
        using read_exact_at_data [OF r [unfolded d] b(2)] v by (simp add: vlog_consts)
      then show ?thesis
        using assms m Ok md r d
        by (auto simp: validate_candidate_def act_bind_def act_map_err_def act_lift_def act_fail_def file_ready_def)
    qed
  qed
qed

lemma open_candidate_benign:
  assumes "open_candidate E K fs f x em i t w = (w', Err e)" and "file_ready E fs ident (wd_catalog w) (wview w) f"
    and "file_handle (wview w) f = Some h" and "x = ident h"
  shows "benign e"
  using assms
proof (induction "(if em then 0 else 1) + (EINTR_RETRY_LIMIT - i) + (TRANSIENT_OPEN_RETRY_LIMIT - t)"
    arbitrary: em i t w rule: less_induct)
  case less
  obtain w1 r1 where o: "open_read_only K f w = (w1, r1)" by fastforce
  then have k: "wview w1 = wview w" "wd_catalog w1 = wd_catalog w" using open_keeps_world(2) by auto
  show ?case
  proof (cases r1)
    case (Ok h')
    have "h' = h"
      using o Ok open_ok less.prems(3) by (auto simp: directory_calls named_call_def file_handle_def split: if_splits)
    then obtain w2 where "validate_candidate E K fs f x h w1 = (w2, Err e)"
      using less.prems(1) o Ok
      by (auto simp: open_candidate.simps [of E K fs f x em i t w] act_bind_def split: result.splits prod.splits)
    then show ?thesis using validate_candidate_benign less.prems(2,3,4) k by metis
  next
    case (Err er)
    have c: "benign (classify_open_error f er)"
    proof (rule classify_open_benign)
      have f: "f \<le> MAX_VLOG_FILE_ID" using less.prems(2) by (simp add: file_ready_def)
      then obtain d where "os_open K (vlog_name f) False (wd_disk w) = (d, Err er)"
        using o Err by (auto simp: directory_calls named_call_def not_less [symmetric])
      from open_found [OF this] show "io_error_kind er \<noteq> IoNotFound" "io_raw_os_error er \<noteq> Some ELOOP"
        using less.prems(3) by (auto simp: file_handle_def)
    qed
    have step: "benign e" if "open_candidate E K fs f x em' i' t' w2 = (w', Err e)"
      "wview w2 = wview w" "wd_catalog w2 = wd_catalog w"
      "(if em' then 0 else 1) + (EINTR_RETRY_LIMIT - i') + (TRANSIENT_OPEN_RETRY_LIMIT - t')
        < (if em then 0 else 1) + (EINTR_RETRY_LIMIT - i) + (TRANSIENT_OPEN_RETRY_LIMIT - t)" for em' i' t' w2
      using less.hyps [OF that(4,1)] that(2,3) less.prems(2-4) by simp
    show ?thesis
      using less.prems(1) o Err k c step [of True i t "w1\<lparr>wd_cache := cache_empty\<rparr>"]
        step [of em "Suc i" t w1] step [of em i "Suc t" w1]
      by (auto simp: open_candidate.simps [of E K fs f x em i t w] split: if_splits)
  qed
qed

lemma FileSet_handle_benign:
  assumes "FileSet_handle E K fs f w = (w', Err e)" and "file_ready E fs ident (wd_catalog w) (wview w) f"
    and "cache_inv (wview w) (wd_cache w)"
  shows "benign e"
proof -
  obtain h where h: "file_handle (wview w) f = Some h" "Mapping.lookup (wd_catalog w) f = Some (ident h)"
    using assms(2) by (auto simp: file_ready_def)
  have miss: "cache_hit f (wd_cache w) = None"
    using assms(1) h(2) by (auto simp: FileSet_handle_def catalog_identity_def act_bind_def split: option.splits)
  obtain w1 r1 where o: "open_candidate E K fs f (ident h) False 0 0 w = (w1, r1)" by fastforce
  show ?thesis
  proof (cases r1)
    case (Err er)
    then have "e = er"
      using assms(1) h(2) miss o by (auto simp: FileSet_handle_def catalog_identity_def act_bind_def)
    then show ?thesis using open_candidate_benign [OF o [unfolded Err] assms(2) h(1) refl] by simp
  next
    case (Ok c)
    note S = open_candidate_spec [OF o]
    obtain c' where "cache_insert_or_get (fs_capacity fs) f c (wd_cache w1) = (c', Err e)"
      using assms(1) h(2) miss o Ok
      by (auto simp: FileSet_handle_def catalog_identity_def act_bind_def Let_def split: prod.splits)
    from cache_insert_inv(3) [OF _ _ this, of "wview w1" e] S Ok assms(3) h(1) show ?thesis
      by (auto simp: reads_def benign_def)
  qed
qed


lemma read_recovery_bytes_benign:
  assumes "read_recovery_bytes E K R f off n w = (w', Err e)"
    and "file_ready E (vr_files R) ident (wd_catalog w) (wview w) f" and "cache_inv (wview w) (wd_cache w)"
    and "file_handle (wview w) f = Some h" and "unat off + n \<le> length (dv_content (wview w) h)"
    and "unat off + n \<le> unat (max_file_size (vr_geometry R))"
  shows "benign e"
proof -
  obtain w1 r1 where hd: "FileSet_handle E K (vr_files R) f w = (w1, r1)" by fastforce
  note H = FileSet_handle_spec [OF hd]
  have big: "unat off + n < 2 ^ 64" using assms(6) unat_less_2p [of "max_file_size (vr_geometry R)"] by simp
  show ?thesis
  proof (cases r1)
    case (Err er)
    then have "e = reader_recovery_context er"
      using assms(1) hd by (auto simp: read_recovery_bytes_def act_bind_def act_map_err_def)
    then show ?thesis using FileSet_handle_benign [OF hd [unfolded Err] assms(2,3)] by simp
  next
    case (Ok c)
    then have c: "c = h" using H(2) assms(3,4) by simp
    obtain w2 r2 where m: "on_disk (os_metadata K h) w1 = (w2, r2)" by fastforce
    have v: "wview w1 = wview w" "wview w2 = wview w"
      using H(1) reads_trans [OF H(1) reads_metadata [OF m]] by (simp_all add: reads_def)
    show ?thesis
    proof (cases r2)
      case (Err er)
      then show ?thesis
        using assms(1) hd Ok c m by (auto simp: read_recovery_bytes_def act_bind_def act_map_err_def)
    next
      case md: (Ok md)
      have len: "unat (md_len md) = length (dv_content (wview w) h)" using metadata_len [OF m [unfolded md]] v by simp
      have n: "u64_try_from n = Some (word_of_nat n)" using big by (simp add: u64_try_from_def)
      have add: "checked_add off (word_of_nat n) = Some (off + word_of_nat n)" "unat (off + word_of_nat n) = unat off + n"
        using big by (simp_all add: checked_add_Some unat_of_nat_small unat_add_no_overflow)
      have le: "\<not> off + word_of_nat n > md_len md" "\<not> off + word_of_nat n > max_file_size (vr_geometry R)"
        using assms(5,6) len add(2) by (simp_all add: word_less_nat_alt)
      obtain w3 r3 where x: "read_exact_at K h n off f w2 = (w3, r3)" by fastforce
      have "read_recovery_bytes E K R f off n w = (if can_alloc E ''RecoveryRead'' n
          then (w3, map_err reader_recovery_context r3) else (w2, Err (reader_recovery_resource f off)))"
        using hd Ok c m md n add(1) le x
        by (cases r3) (simp_all add: read_recovery_bytes_def act_bind_def act_map_err_def act_lift_def try_reserve_def
            ensure_def)
      then show ?thesis
        using assms(1) read_exact_at_benign [OF _ assms(5) [folded v(2)] big, of f w3] x
        by (cases r3) (auto split: if_splits)
    qed
  qed
qed

end

section \<open>The chunks a scan accepts\<close>

lemma RecordHeader_decode_take:
  assumes "RecordHeader_decode E bs = Ok h"
  shows "RecordHeader_decode E (take RECORD_HEADER_ENCODED_LEN bs) = Ok h" "RECORD_HEADER_ENCODED_LEN \<le> length bs"
  using assms by (auto simp: RecordHeader_decode_iff RECORD_HEADER_ENCODED_LEN_def min_def)

lemma scan_step_chunk:
  assumes "geometry_ok g" and "scan_step E g db vb ve crc l c s = Ok s'"
  defines "off \<equiv> pos_offset (chunk_position c)" and "n \<equiv> length (chunk_bytes c)"
  shows "chunk_end c g = Ok (sc_physical_end s')"
    and "n \<le> page_rest g off"
    and "if off mod page_size g = 0 then n = PAGE_HEADER_ENCODED_LEN
      else if off = word_of_nat PAGE_HEADER_ENCODED_LEN then n = FILE_HEADER_ENCODED_LEN
      else \<exists>h. RecordHeader_decode E (chunk_bytes c) = Ok h \<and> unat (rh_encoded_len h) = n"
proof -
  note G = geometry_okD [OF assms(1)]
  show "chunk_end c g = Ok (sc_physical_end s')"
    using assms(2) by (auto simp: scan_step_def scan_chunk_at_def result_simps split: if_splits)
  have small: "(off < page_size g \<and> off = word_of_nat PAGE_HEADER_ENCODED_LEN) = (off = word_of_nat PAGE_HEADER_ENCODED_LEN)"
    using G(1) by (auto simp: word_less_nat_alt vlog_consts)
  consider (page) "off mod page_size g = 0" "n = PAGE_HEADER_ENCODED_LEN"
    | (hdr) "off mod page_size g \<noteq> 0" "off = word_of_nat PAGE_HEADER_ENCODED_LEN" "n = FILE_HEADER_ENCODED_LEN"
    | (recd) d h where "off mod page_size g \<noteq> 0" "off \<noteq> word_of_nat PAGE_HEADER_ENCODED_LEN"
        "decode_record_at E (chunk_bytes c) (chunk_position c) g = Ok d" "RecordHeader_decode E (chunk_bytes c) = Ok h"
    using assms(2)
    unfolding scan_step_def scan_chunk_at_def Let_def off_def [symmetric] small
    by (auto simp: result_simps scan_page_header_def scan_file_header_def scan_record_def n_def split: if_splits)
  note kinds = this
  show "if off mod page_size g = 0 then n = PAGE_HEADER_ENCODED_LEN
      else if off = word_of_nat PAGE_HEADER_ENCODED_LEN then n = FILE_HEADER_ENCODED_LEN
      else \<exists>h. RecordHeader_decode E (chunk_bytes c) = Ok h \<and> unat (rh_encoded_len h) = n"
  proof (cases rule: kinds)
    case (recd d h)
    then have "unat (rh_encoded_len h) = n" by (auto simp: decode_record_at_def result_simps n_def split: if_splits)
    then show ?thesis using recd by simp
  qed simp_all
  show "n \<le> page_rest g off"
  proof (cases rule: kinds)
    case page
    then have "unat off mod unat (page_size g) = 0" by (simp add: word_unat_eq_iff unat_mod_distrib)
    then show ?thesis using page G(1) by (simp add: page_rest_def vlog_consts)
  next
    case hdr
    then show ?thesis using G(1) by (simp add: page_rest_def vlog_consts)
  next
    case (recd d h)
    then have "validate_record_bounds (chunk_bytes c) (chunk_position c) g = Ok ()"
      by (auto simp: decode_record_at_def result_simps)
    then show ?thesis using validate_record_bounds_fits [OF assms(1)] by (simp add: fits_def off_def n_def)
  qed
qed

lemma chunk_end_Ok:
  "chunk_end c g = Ok q \<Longrightarrow> q = VLogPosition (pos_file_id (chunk_position c)) (pos_offset (chunk_position c) + word_of_nat (length (chunk_bytes c)))
   \<and> unat (pos_offset (chunk_position c)) + length (chunk_bytes c) \<le> unat (max_file_size g)
   \<and> unat (pos_offset q) = unat (pos_offset (chunk_position c)) + length (chunk_bytes c)
   \<and> pos_file_id (chunk_position c) \<le> max_file_id g"
  by (auto simp: chunk_end_def result_simps u64_try_from_Some checked_add_Some unat_of_nat_small unat_add_no_overflow
      word_less_nat_alt word_le_nat_alt split: if_splits)

lemma next_position_iff: "recovery_next_position p g = Ok q \<longleftrightarrow> next_chunk_position p g = Ok q"
  by (auto simp: recovery_next_position_def next_chunk_position_def result_simps)

lemma next_chunk_position_less:
  "next_chunk_position p g = Ok q \<Longrightarrow> p \<le> q"
  by (auto simp: next_chunk_position_def result_simps less_eq_vlog_position_def word_le_nat_alt word_less_nat_alt
      split: if_splits dest!: checked_add_unat)

lemma scan_step_grows:
  assumes "geometry_ok g" and "scan_step E g db vb ve crc l c s = Ok s'"
  shows "chunk_position c < sc_physical_end s'" "sc_physical_end s \<le> chunk_position c"
proof -
  note C = chunk_end_Ok [OF scan_step_chunk(1) [OF assms]]
  show "chunk_position c < sc_physical_end s'"
    using C scan_step_Ok(2) [OF assms(2)] by (auto simp: less_vlog_position_def word_less_nat_alt)
  show "sc_physical_end s \<le> chunk_position c"
    using next_chunk_position_less [OF scan_step_Ok(1) [OF assms(2)]] .
qed

lemma scan_all_grows:
  assumes "geometry_ok g" and "scan_all E g db vb ve crc r cs s = Ok s'"
  shows "sc_physical_end s \<le> sc_physical_end s'" "cs \<noteq> [] \<Longrightarrow> sc_physical_end s < sc_physical_end s'"
proof -
  have "sc_physical_end s \<le> sc_physical_end s' \<and> (cs \<noteq> [] \<longrightarrow> sc_physical_end s < sc_physical_end s')"
    using assms(2)
  proof (induction cs arbitrary: s)
    case (Cons c cs)
    then obtain s1 where s1: "scan_step E g db vb ve crc (cs = [] \<and> r = 0) c s = Ok s1" "scan_all E g db vb ve crc r cs s1 = Ok s'"
      by (auto simp: result_simps)
    from Cons.IH [OF s1(2)] scan_step_grows [OF assms(1) s1(1)] show ?case by auto
  qed simp
  then show "sc_physical_end s \<le> sc_physical_end s'" "cs \<noteq> [] \<Longrightarrow> sc_physical_end s < sc_physical_end s'" by blast+
qed

section \<open>Reading the chunks back\<close>

lemma recovery_page_end_eval:
  assumes "geometry_ok g" and "unat off + n \<le> unat (max_file_size g)" and "n \<le> page_rest g off" and "0 < n"
  shows "\<exists>stop. recovery_page_end g off = Ok stop \<and> unat off + n \<le> unat stop"
proof -
  have lt: "unat off < unat (max_file_size g)" using assms(2,4) by simp
  have "page_end off g = Ok x \<Longrightarrow> recovery_page_end g off = Ok x" for x
    by (cases "checked_div off (page_size g)"; cases "checked_add (the (checked_div off (page_size g))) 1")
      (auto simp: page_end_def recovery_page_end_def result_simps split: if_splits option.splits)
  then show ?thesis
    using page_end_eval [OF assms(1) lt] unat_npage_end [OF assms(1) lt] page_rest_end [OF assms(1), of off] assms(3)
    by auto
qed

lemma stored_bytes:
  assumes "stored v c" and "chunk_bytes c \<noteq> []" and "file_handle v (pos_file_id (chunk_position c)) = Some h"
  shows "take (length (chunk_bytes c)) (drop (unat (pos_offset (chunk_position c))) (dv_content v h)) = chunk_bytes c"
    and "unat (pos_offset (chunk_position c)) + length (chunk_bytes c) \<le> length (dv_content v h)"
proof -
  show t: "take (length (chunk_bytes c)) (drop (unat (pos_offset (chunk_position c))) (dv_content v h)) = chunk_bytes c"
    using assms by (auto simp: stored_def)
  have "length (take (length (chunk_bytes c)) (drop (unat (pos_offset (chunk_position c))) (dv_content v h))) = length (chunk_bytes c)"
    unfolding t ..
  moreover have "0 < length (chunk_bytes c)" using assms(2) by simp
  ultimately show "unat (pos_offset (chunk_position c)) + length (chunk_bytes c) \<le> length (dv_content v h)"
    unfolding length_take length_drop by linarith
qed

context log_disk
begin

text \<open>Reads inside the file never fail with an error that speaks against the log.\<close>

definition calm :: "env \<Rightarrow> vlog_reader \<Rightarrow> disk_view \<Rightarrow> (u32, file_identity) mapping \<Rightarrow> u32 \<Rightarrow> bool" where
  "calm E R v catalog f \<longleftrightarrow> (\<forall>h off n w w' e. wview w = v \<and> wd_catalog w = catalog \<and> cache_inv v (wd_cache w)
     \<and> file_handle v f = Some h \<and> unat off + n \<le> length (dv_content v h) \<and> unat off + n \<le> unat (max_file_size (vr_geometry R))
     \<and> read_recovery_bytes E K R f off n w = (w', Err e) \<longrightarrow> benign e)"

lemma read_stored:
  assumes "read_recovery_bytes E K R f off n w = (w', r)" and "cache_inv (wview w) (wd_cache w)"
    and "stored (wview w) c" and "chunk_bytes c \<noteq> []" and "f = pos_file_id (chunk_position c)" and "off = pos_offset (chunk_position c)"
    and "n \<le> length (chunk_bytes c)" and "unat off + length (chunk_bytes c) \<le> unat (max_file_size (vr_geometry R))"
  shows "reads w w'" and "r = Ok data \<Longrightarrow> data = take n (chunk_bytes c)"
    and "r = Err e \<Longrightarrow> calm E R (wview w) (wd_catalog w) f \<Longrightarrow> benign e"
proof -
  note S = read_recovery_bytes_spec [OF assms(1)]
  show "reads w w'" by (rule S)
  obtain h where h: "file_handle (wview w) f = Some h" using assms(3,5) by (auto simp: stored_def)
  note B = stored_bytes [OF assms(3,4) h [unfolded assms(5)]]
  show "data = take n (chunk_bytes c)" if r: "r = Ok data"
  proof -
    have "data = take n (drop (unat off) (dv_content (wview w) h))" using S(2) [OF r assms(2)] h by auto
    also have "\<dots> = take n (take (length (chunk_bytes c)) (drop (unat off) (dv_content (wview w) h)))"
      using assms(7) by (simp add: min_def)
    finally show ?thesis using B(1) assms(6) by simp
  qed
  show "benign e" if r: "r = Err e" "calm E R (wview w) (wd_catalog w) f"
  proof -
    have "unat off + n \<le> length (dv_content (wview w) h)" "unat off + n \<le> unat (max_file_size (vr_geometry R))"
      using B(2) assms(7,8) unfolding assms(6) by linarith+
    then show ?thesis using r(2) [unfolded calm_def] assms(1,2) r(1) h by blast
  qed
qed

lemma chunk_encoded_len_spec:
  assumes "chunk_encoded_len E K R vend (chunk_position c) w = (w', r)" and "geometry_ok (vr_geometry R)"
    and "scan_step E (vr_geometry R) db vb ve crc l c s = Ok s'" and "sc_physical_end s' \<le> vend"
    and "cache_inv (wview w) (wd_cache w)" and "stored (wview w) c"
  shows "reads w w'" and "r = Ok n \<Longrightarrow> n = length (chunk_bytes c)"
    and "r = Err e \<Longrightarrow> calm E R (wview w) (wd_catalog w) (pos_file_id (chunk_position c)) \<Longrightarrow> benign e"
proof -
  let ?p = "chunk_position c" and ?g = "vr_geometry R"
  note C = scan_step_chunk [OF assms(2,3)]
  note ce = chunk_end_Ok [OF C(1)]
  note ne = scan_step_Ok(2) [OF assms(3)]
  show "reads w w'" and "r = Ok n \<Longrightarrow> n = length (chunk_bytes c)"
    and "r = Err e \<Longrightarrow> calm E R (wview w) (wd_catalog w) (pos_file_id (chunk_position c)) \<Longrightarrow> benign e"
  proof (atomize (full), cases "pos_offset ?p mod page_size ?g = 0 \<or> pos_offset ?p = word_of_nat PAGE_HEADER_ENCODED_LEN")
    case True
    then have "w' = w \<and> r = Ok (length (chunk_bytes c))"
      using assms(1) C(3) by (auto simp: chunk_encoded_len_def split: if_splits)
    then show "reads w w' \<and> (r = Ok n \<longrightarrow> n = length (chunk_bytes c))
        \<and> (r = Err e \<longrightarrow> calm E R (wview w) (wd_catalog w) (pos_file_id ?p) \<longrightarrow> benign e)" by auto
  next
    case False
    then obtain hd where hd: "RecordHeader_decode E (chunk_bytes c) = Ok hd" "unat (rh_encoded_len hd) = length (chunk_bytes c)"
      using C(3) by (auto split: if_splits)
    note T = RecordHeader_decode_take [OF hd(1)]
    have u: "unat (word_of_nat RECORD_HEADER_ENCODED_LEN :: u64) = RECORD_HEADER_ENCODED_LEN"
      by (simp add: RECORD_HEADER_ENCODED_LEN_def)
    have b: "unat (pos_offset ?p) + RECORD_HEADER_ENCODED_LEN < 2 ^ 64"
      using ce T(2) unat_less_2p [of "max_file_size ?g"] by simp
    have add: "checked_add (pos_offset ?p) (word_of_nat RECORD_HEADER_ENCODED_LEN)
        = Some (pos_offset ?p + word_of_nat RECORD_HEADER_ENCODED_LEN)"
      "unat (pos_offset ?p + word_of_nat RECORD_HEADER_ENCODED_LEN) = unat (pos_offset ?p) + RECORD_HEADER_ENCODED_LEN"
      using b u by (simp_all add: checked_add_Some unat_add_no_overflow)
    have within: "\<not> (pos_file_id ?p = pos_file_id vend \<and> pos_offset ?p + word_of_nat RECORD_HEADER_ENCODED_LEN > pos_offset vend)"
    proof
      assume a: "pos_file_id ?p = pos_file_id vend \<and> pos_offset ?p + word_of_nat RECORD_HEADER_ENCODED_LEN > pos_offset vend"
      have "unat (pos_offset (sc_physical_end s')) \<le> unat (pos_offset vend)"
        using assms(4) ce a by (auto simp: less_eq_vlog_position_def word_le_nat_alt)
      moreover have "unat (pos_offset (sc_physical_end s')) = unat (pos_offset ?p) + length (chunk_bytes c)" using ce by blast
      ultimately show False using a add(2) T(2) by (simp add: word_less_nat_alt)
    qed
    obtain w1 r1 where rd: "read_recovery_bytes E K R (pos_file_id ?p) (pos_offset ?p) RECORD_HEADER_ENCODED_LEN w = (w1, r1)"
      by fastforce
    note RS = read_stored [OF rd assms(5,6) ne refl refl T(2)]
    have "r1 = Ok data \<Longrightarrow> data = take RECORD_HEADER_ENCODED_LEN (chunk_bytes c)" for data using RS(2) ce by simp
    then have "w' = w1 \<and> r = (case r1 of Ok _ \<Rightarrow> Ok (length (chunk_bytes c)) | Err e \<Rightarrow> Err e)"
      using assms(1) False add(1) within rd T hd(2)
      by (cases r1) (auto simp: chunk_encoded_len_def act_bind_def act_lift_def act_return_def)
    then show "reads w w' \<and> (r = Ok n \<longrightarrow> n = length (chunk_bytes c))
        \<and> (r = Err e \<longrightarrow> calm E R (wview w) (wd_catalog w) (pos_file_id ?p) \<longrightarrow> benign e)"
      using RS(1,3) ce by (cases r1) auto
  qed
qed


lemma read_recovery_chunk_spec:
  assumes "read_recovery_chunk E K R vend count (chunk_position c) w = (w', r)" and "geometry_ok (vr_geometry R)"
    and "scan_step E (vr_geometry R) db vb ve crc l c s = Ok s'" and "sc_physical_end s' \<le> vend"
    and "cache_inv (wview w) (wd_cache w)" and "stored (wview w) c"
  shows "reads w w'"
    and "r = Ok (c', q) \<Longrightarrow> c' = c \<and> (if sc_physical_end s' = vend then q = vend
      else next_chunk_position (sc_physical_end s') (vr_geometry R) = Ok q)"
    and "r = Err e \<Longrightarrow> calm E R (wview w) (wd_catalog w) (pos_file_id (chunk_position c)) \<Longrightarrow>
      sc_physical_end s' = vend \<or> is_ok (next_chunk_position (sc_physical_end s') (vr_geometry R)) \<Longrightarrow> benign e"
proof -
  let ?p = "chunk_position c" and ?g = "vr_geometry R" and ?n = "length (chunk_bytes c)" and ?q = "sc_physical_end s'"
  note C = scan_step_chunk [OF assms(2,3)]
  note ce = chunk_end_Ok [OF C(1)]
  note ne = scan_step_Ok(2) [OF assms(3)]
  have n0: "0 < ?n" using ne by simp
  have nu: "u64_try_from ?n = Some (word_of_nat ?n)"
    using ce unat_less_2p [of "max_file_size ?g"] by (simp add: u64_try_from_def)
  have add: "checked_add (pos_offset ?p) (word_of_nat ?n) = Some (pos_offset ?q)"
    using ce unat_less_2p [of "max_file_size ?g"] by (auto simp: checked_add_Some unat_of_nat_small)
  obtain stop where st: "recovery_page_end ?g (pos_offset ?p) = Ok stop" "unat (pos_offset ?p) + ?n \<le> unat stop"
    using recovery_page_end_eval [OF assms(2) _ C(2) n0] ce by auto
  have ok: "\<not> pos_offset ?q > stop" "\<not> pos_offset ?q > max_file_size ?g" "VLogPosition (pos_file_id ?p) (pos_offset ?q) = ?q"
    using ce st(2) by (auto simp: word_less_nat_alt)
  have fid: "\<not> pos_file_id ?p > pos_file_id vend"
    using ce assms(4) by (auto simp: less_eq_vlog_position_def)
  obtain w1 r1 where len: "chunk_encoded_len E K R vend ?p w = (w1, r1)" by fastforce
  note L = chunk_encoded_len_spec [OF len assms(2-6)]
  show "reads w w'"
    and "r = Ok (c', q) \<Longrightarrow> c' = c \<and> (if ?q = vend then q = vend else next_chunk_position ?q ?g = Ok q)"
    and "r = Err e \<Longrightarrow> calm E R (wview w) (wd_catalog w) (pos_file_id ?p) \<Longrightarrow>
      ?q = vend \<or> is_ok (next_chunk_position ?q ?g) \<Longrightarrow> benign e"
  proof (atomize (full), cases r1)
    case (Err er)
    then have "w' = w1 \<and> r = Err er" using assms(1) len fid by (auto simp: read_recovery_chunk_def act_bind_def)
    then show "reads w w' \<and> (r = Ok (c', q) \<longrightarrow> c' = c \<and> (if ?q = vend then q = vend else next_chunk_position ?q ?g = Ok q))
        \<and> (r = Err e \<longrightarrow> calm E R (wview w) (wd_catalog w) (pos_file_id ?p) \<longrightarrow>
          ?q = vend \<or> is_ok (next_chunk_position ?q ?g) \<longrightarrow> benign e)" using L(1,3) Err by auto
  next
    case (Ok k)
    then have k: "k = ?n" using L(2) by simp
    obtain w2 r2 where rd: "read_recovery_bytes E K R (pos_file_id ?p) (pos_offset ?p) ?n w1 = (w2, r2)" by fastforce
    have same: "wview w1 = wview w" "wd_catalog w1 = wd_catalog w" "cache_inv (wview w1) (wd_cache w1)"
      using L(1) assms(5) by (auto simp: reads_def)
    note RS = read_stored [OF rd same(3) assms(6) [folded same(1)] ne refl refl order_refl]
    have RS2: "r2 = Ok data \<Longrightarrow> data = chunk_bytes c" for data using RS(2) ce by simp
    have rw: "reads w w2" using reads_trans [OF L(1) RS(1)] ce by simp
    let ?next = "if ?q = vend then Ok ?q else recovery_next_position ?q ?g"
    have "w' = w2 \<and> r = (case r2 of Err e \<Rightarrow> Err e
        | Ok _ \<Rightarrow> if can_alloc E ''RecoveryChunk'' (Suc count) then map_ok (\<lambda>q. (c, q)) ?next
            else Err (reader_recovery_resource (pos_file_id ?p) (pos_offset ?p)))"
    proof (cases r2)
      case e: (Err er)
      then show ?thesis
        using assms(1) len fid Ok k n0 nu add st(1) ok rd assms(4)
        by (simp add: read_recovery_chunk_def act_bind_def act_lift_def Let_def leD)
    next
      case d: (Ok data)
      have cc: "\<lparr>chunk_position = ?p, chunk_bytes = data\<rparr> = c" using RS2 [OF d] by simp
      show ?thesis
        using assms(1) len fid Ok k n0 nu add st(1) ok rd assms(4) d
        by (cases ?next) (auto simp: read_recovery_chunk_def act_bind_def act_lift_def act_return_def Let_def leD
            try_reserve_def ensure_def cc split: if_splits)
    qed
    moreover have "r2 = Err e \<Longrightarrow> calm E R (wview w) (wd_catalog w) (pos_file_id ?p) \<Longrightarrow> benign e"
      using RS(3) ce same by simp
    moreover have "is_ok (next_chunk_position ?q ?g) \<Longrightarrow> ?next \<noteq> Err e"
      by (auto simp: is_ok_iff simp flip: next_position_iff)
    ultimately show "reads w w' \<and> (r = Ok (c', q) \<longrightarrow> c' = c \<and> (if ?q = vend then q = vend else next_chunk_position ?q ?g = Ok q))
        \<and> (r = Err e \<longrightarrow> calm E R (wview w) (wd_catalog w) (pos_file_id ?p) \<longrightarrow>
          ?q = vend \<or> is_ok (next_chunk_position ?q ?g) \<longrightarrow> benign e)"
      using rw by (auto simp: result_simps next_position_iff split: result.splits if_splits)
  qed
qed

lemma read_chunks_from_spec:
  assumes "read_chunks_from E K R vend acc cursor w = (w', r)" and "geometry_ok (vr_geometry R)"
    and "scan_all E (vr_geometry R) db vb ve crc k cs s = Ok s'" and "sc_physical_end s' = vend"
    and "cache_inv (wview w) (wd_cache w)" and "\<forall>c \<in> set cs. stored (wview w) c"
    and "if cs = [] then cursor = vend else next_chunk_position (sc_physical_end s) (vr_geometry R) = Ok cursor"
  shows "reads w w'" and "r = Ok xs \<Longrightarrow> xs = acc @ cs"
    and "r = Err e \<Longrightarrow> \<forall>c \<in> set cs. calm E R (wview w) (wd_catalog w) (pos_file_id (chunk_position c)) \<Longrightarrow> benign e"
proof -
  have "reads w w' \<and> (r = Ok xs \<longrightarrow> xs = acc @ cs)
    \<and> (r = Err e \<longrightarrow> (\<forall>c \<in> set cs. calm E R (wview w) (wd_catalog w) (pos_file_id (chunk_position c))) \<longrightarrow> benign e)"
    using assms
  proof (induction cs arbitrary: s acc cursor w)
    case Nil
    then show ?case by (auto simp: read_chunks_from.simps [of E K R vend acc vend w])
  next
    case (Cons c cs)
    let ?g = "vr_geometry R"
    obtain s1 where s1: "scan_step E ?g db vb ve crc (cs = [] \<and> k = 0) c s = Ok s1" "scan_all E ?g db vb ve crc k cs s1 = Ok s'"
      using Cons.prems(3) by (auto simp: result_simps)
    note G = scan_all_grows [OF Cons.prems(2) s1(2)]
    have cur: "cursor = chunk_position c" using Cons.prems(7) scan_step_Ok(1) [OF s1(1)] by simp
    have le: "sc_physical_end s1 \<le> vend" using G(1) Cons.prems(4) by simp
    then have lt: "cursor < vend" using scan_step_grows(1) [OF Cons.prems(2) s1(1)] cur by simp
    have e0: "sc_physical_end s1 = vend \<longleftrightarrow> cs = []" using G(2) Cons.prems(4) s1(2) by (cases cs) auto
    have nx: "sc_physical_end s1 = vend \<or> is_ok (next_chunk_position (sc_physical_end s1) ?g)"
      using e0 s1(2) scan_step_Ok(1) by (cases cs) (fastforce simp: result_simps is_ok_iff)+
    obtain w1 r1 where st: "read_recovery_chunk E K R vend (length acc) (chunk_position c) w = (w1, r1)" by fastforce
    note C = read_recovery_chunk_spec [OF st Cons.prems(2) s1(1) le Cons.prems(5)]
    have stc: "stored (wview w) c" using Cons.prems(6) by simp
    show ?case
    proof (cases r1)
      case (Err er)
      then have "w' = w1 \<and> r = Err er"
        using Cons.prems(1) lt cur st by (simp add: read_chunks_from.simps [of E K R vend acc "chunk_position c" w])
      then show ?thesis using C(1,3) stc nx Err by auto
    next
      case (Ok cq)
      obtain c' q where cq: "cq = (c', q)" by fastforce
      have q: "c' = c" "if cs = [] then q = vend else next_chunk_position (sc_physical_end s1) ?g = Ok q"
        using C(2) [OF stc] Ok cq e0 by auto
      have rd: "reads w w1" using C(1) stc by simp
      have rest: "read_chunks_from E K R vend (acc @ [c]) q w1 = (w', r)"
        using Cons.prems(1) lt cur st Ok cq q(1) by (simp add: read_chunks_from.simps [of E K R vend acc "chunk_position c" w])
      have same: "wview w1 = wview w" "wd_catalog w1 = wd_catalog w" "cache_inv (wview w1) (wd_cache w1)"
        using rd Cons.prems(5) by (auto simp: reads_def)
      have "\<forall>c \<in> set cs. stored (wview w1) c" using Cons.prems(6) same(1) by simp
      from Cons.IH [OF rest Cons.prems(2) s1(2) Cons.prems(4) same(3) this q(2)] show ?thesis
        using reads_trans [OF rd] same by auto
    qed
  qed
  then show "reads w w'" and "r = Ok xs \<Longrightarrow> xs = acc @ cs"
    and "r = Err e \<Longrightarrow> \<forall>c \<in> set cs. calm E R (wview w) (wd_catalog w) (pos_file_id (chunk_position c)) \<Longrightarrow> benign e" by blast+
qed

end

section \<open>A whole envelope\<close>

lemma scan_chunks_nonempty:
  "scan_chunks E g db vb ve crc first n i cs s = Ok s' \<Longrightarrow> \<forall>c \<in> set cs. chunk_bytes c \<noteq> []"
  by (induction cs arbitrary: s i) (auto simp: result_simps scan_chunk_def split: if_splits)

lemma scan_prepared_Ok:
  assumes "scan_prepared_envelope E cs g db vb ve crc = Ok x"
  obtains s where "scan_all E g db vb ve crc 0 cs (scan_init E vb) = Ok s" "sc_physical_end s = ve" "vb < ve" "cs \<noteq> []"
    "geometry_ok g" "sc_begin s \<noteq> None"
proof -
  from assms obtain first s where v: "validate_for_decode g = Ok ()" "next_chunk_position vb g = Ok first" "cs \<noteq> []" "vb < ve"
    and s: "scan_chunks E g db vb ve crc first (length cs) 0 cs (scan_init E vb) = Ok s" "sc_physical_end s = ve"
      "sc_begin s \<noteq> None"
    by (auto simp: scan_prepared_envelope_def result_simps split: if_splits)
  have "scan_chunks E g db vb ve crc first (length cs) 0 cs (scan_init E vb) = scan_all E g db vb ve crc 0 cs (scan_init E vb)"
    by (rule scan_chunks_all [OF scan_chunks_nonempty [OF s(1)]]) (simp_all add: v(2) scan_init_def)
  moreover have "geometry_ok g" using v(1) by (auto simp: validate_for_decode_def VLogGeometry_validate_Ok)
  ultimately show thesis using that s v by metis
qed

lemma scan_all_end:
  assumes "geometry_ok g" and "scan_all E g db vb ve crc r cs s = Ok s'" and "cs \<noteq> []"
  shows "pos_file_id (sc_physical_end s') \<le> max_file_id g \<and> pos_offset (sc_physical_end s') \<le> max_file_size g"
  using assms(2,3)
proof (induction cs arbitrary: s)
  case (Cons c cs)
  then obtain s1 where s1: "scan_step E g db vb ve crc (cs = [] \<and> r = 0) c s = Ok s1" "scan_all E g db vb ve crc r cs s1 = Ok s'"
    by (auto simp: result_simps)
  show ?case
  proof (cases "cs = []")
    case True
    then show ?thesis
      using s1(2) chunk_end_Ok [OF scan_step_chunk(1) [OF assms(1) s1(1)]] by (auto simp: word_le_nat_alt)
  qed (use Cons.IH s1(2) in blast)
qed simp

context log_disk
begin

lemma read_recovery_envelope_spec:
  assumes "read_recovery_envelope E K R vb ve crc w = (w', r)"
    and "scan_prepared_envelope E cs (vr_geometry R) (fs_database_uuid (vr_files R)) vb ve crc = Ok x"
    and "cache_inv (wview w) (wd_cache w)" and "\<forall>c \<in> set cs. stored (wview w) c"
  shows "reads w w'"
    and "r = Ok env \<Longrightarrow> re_scanned env = x \<and> collect_final_states E cs (vr_geometry R) = Ok (re_final_states env)"
    and "r = Err e \<Longrightarrow> \<forall>c \<in> set cs. calm E R (wview w) (wd_catalog w) (pos_file_id (chunk_position c)) \<Longrightarrow>
      is_ok (collect_final_states E cs (vr_geometry R)) \<Longrightarrow> benign e"
proof -
  let ?g = "vr_geometry R"
  obtain s where s: "scan_all E ?g (fs_database_uuid (vr_files R)) vb ve crc 0 cs (scan_init E vb) = Ok s"
    "sc_physical_end s = ve" "vb < ve" "cs \<noteq> []" "geometry_ok ?g"
    using scan_prepared_Ok [OF assms(2)] by blast
  obtain c cs' where cs: "cs = c # cs'" using s(4) by (cases cs) auto
  have first: "next_chunk_position vb ?g = Ok (chunk_position c)"
    using s(1) scan_step_Ok(1) [of E ?g _ vb ve crc _ c "scan_init E vb"]
    by (auto simp: cs result_simps) (simp add: scan_init_def)
  have "chunk_end c ?g = Ok q \<Longrightarrow> pos_file_id vb \<le> max_file_id ?g \<and> pos_offset vb \<le> max_file_size ?g" for q
    using first chunk_end_Ok [of c ?g q]
    by (auto simp: next_chunk_position_def result_simps word_le_nat_alt word_less_nat_alt split: if_splits)
  moreover obtain s1 where "scan_step E ?g (fs_database_uuid (vr_files R)) vb ve crc (cs' = []) c (scan_init E vb) = Ok s1"
    using s(1) by (auto simp: cs result_simps)
  ultimately have vb: "pos_file_id vb \<le> max_file_id ?g" "pos_offset vb \<le> max_file_size ?g"
    using scan_step_chunk(1) [OF s(5)] by blast+
  have ve: "pos_file_id ve \<le> max_file_id ?g" "pos_offset ve \<le> max_file_size ?g"
    using scan_all_end [OF s(5,1,4)] s(2) by simp_all
  obtain w1 r1 where ch: "read_chunks_from E K R ve [] (chunk_position c) w = (w1, r1)" by fastforce
  have "if cs = [] then chunk_position c = ve else next_chunk_position (sc_physical_end (scan_init E vb)) ?g = Ok (chunk_position c)"
    using first s(4) by (simp add: scan_init_def)
  note C = read_chunks_from_spec [OF ch s(5,1,2) assms(3,4) this]
  have rc: "read_recovery_chunks E K R vb ve w = (w1, r1)"
    using vb ve leD [of ve vb] s(3) first [folded next_position_iff] ch
    by (auto simp: read_recovery_chunks_def Let_def act_bind_def act_lift_def leD)
  have C2: "r1 = Ok xs \<Longrightarrow> xs = cs" for xs using C(2) by simp
  have res: "w' = w1 \<and> r = (case r1 of Err e \<Rightarrow> Err e
      | Ok _ \<Rightarrow> map_ok (\<lambda>fs. \<lparr>re_scanned = x, re_final_states = fs\<rparr>) (collect_final_states E cs ?g))"
    using assms(1,2) rc C2
    by (cases r1; cases "collect_final_states E cs ?g")
      (auto simp: read_recovery_envelope_def act_bind_def act_lift_def act_return_def)
  show "reads w w'" using res C(1) by simp
  show "re_scanned env = x \<and> collect_final_states E cs ?g = Ok (re_final_states env)" if "r = Ok env"
    using that res by (auto simp: result_simps split: result.splits)
  show "benign e" if "r = Err e" "\<forall>c \<in> set cs. calm E R (wview w) (wd_catalog w) (pos_file_id (chunk_position c))"
      "is_ok (collect_final_states E cs ?g)"
    using that res C(3) by (auto simp: result_simps is_ok_iff split: result.splits)
qed

end

section \<open>The final states of an envelope\<close>

fun put_state :: "bytes \<times> envelope_value_state \<Rightarrow> envelope_final_state list \<Rightarrow> envelope_final_state list" where
  "put_state (k, s) [] = [\<lparr>fs_user_key = k, fs_state = s\<rparr>]"
| "put_state (k, s) (x # xs) = (if fs_user_key x = k then x\<lparr>fs_state := s\<rparr> # xs else x # put_state (k, s) xs)"

definition state_of_pointer :: "value_pointer option \<Rightarrow> envelope_value_state" where
  "state_of_pointer p = (case p of None \<Rightarrow> EnvelopeAbsent | Some q \<Rightarrow> EnvelopePresent q)"

definition indexes :: "(bytes \<rightharpoonup> nat) \<Rightarrow> envelope_final_state list \<Rightarrow> bool" where
  "indexes idx xs \<longleftrightarrow> distinct (map fs_user_key xs)
     \<and> (\<forall>k i. idx k = Some i \<longleftrightarrow> i < length xs \<and> fs_user_key (xs ! i) = k)"

lemma put_state_update:
  "distinct (map fs_user_key xs) \<Longrightarrow> i < length xs \<Longrightarrow> fs_user_key (xs ! i) = k \<Longrightarrow>
   put_state (k, s) xs = xs[i := (xs ! i)\<lparr>fs_state := s\<rparr>]"
proof (induction xs arbitrary: i)
  case (Cons x xs)
  show ?case
  proof (cases i)
    case (Suc j)
    then have "fs_user_key x \<noteq> k" using Cons.prems by auto
    then show ?thesis using Cons Suc by simp
  qed (use Cons.prems in simp)
qed simp

lemma put_state_append: "k \<notin> set (map fs_user_key xs) \<Longrightarrow> put_state (k, s) xs = xs @ [\<lparr>fs_user_key = k, fs_state = s\<rparr>]"
  by (induction xs) auto

lemma keys_put_state:
  "map fs_user_key (put_state (k, s) xs) = map fs_user_key xs @ (if k \<in> set (map fs_user_key xs) then [] else [k])"
  by (induction xs) auto

lemma scan_decoded_count:
  assumes "scan_decoded E vb ve crc l d s = Ok s'"
  shows "(\<exists>k. d = DR_KvRecord k) \<or> (\<exists>k. d = DR_DeleteRecord k) \<Longrightarrow>
      unat (sc_logical_op_count s') = Suc (unat (sc_logical_op_count s))"
    and "\<not> ((\<exists>k. d = DR_KvRecord k) \<or> (\<exists>k. d = DR_DeleteRecord k)) \<Longrightarrow>
      sc_logical_op_count s' = sc_logical_op_count s \<and> record_state p n d = Ok None"
  using assms
  by (cases d; auto simp: scan_decoded_def result_simps count_record_def scan_footer_def record_state_def
      split: if_splits dest!: checked_add_unat)+

lemma scan_step_cases:
  assumes "scan_step E g db vb ve crc l c s = Ok s'"
  obtains (skip) "pos_offset (chunk_position c) mod page_size g = 0
      \<or> pos_offset (chunk_position c) < page_size g \<and> pos_offset (chunk_position c) = word_of_nat PAGE_HEADER_ENCODED_LEN"
      "sc_logical_op_count s' = sc_logical_op_count s"
  | (recd) d s0 s1 where "\<not> (pos_offset (chunk_position c) mod page_size g = 0
      \<or> pos_offset (chunk_position c) < page_size g \<and> pos_offset (chunk_position c) = word_of_nat PAGE_HEADER_ENCODED_LEN)"
      "decode_record_at E (chunk_bytes c) (chunk_position c) g = Ok d" "scan_decoded E vb ve crc l d s0 = Ok s1"
      "sc_logical_op_count s0 = sc_logical_op_count s" "sc_logical_op_count s' = sc_logical_op_count s1"
proof (cases "pos_offset (chunk_position c) mod page_size g = 0
      \<or> pos_offset (chunk_position c) < page_size g \<and> pos_offset (chunk_position c) = word_of_nat PAGE_HEADER_ENCODED_LEN")
  case True
  then have "sc_logical_op_count s' = sc_logical_op_count s"
    using assms
    by (auto simp: scan_step_def scan_chunk_at_def Let_def result_simps scan_page_header_def scan_file_header_def
        split: if_splits)
  then show thesis using skip True by blast
next
  case False
  then obtain t b q where t: "scan_record E g vb ve crc l c s = Ok (t, b)" "s' = t\<lparr>sc_physical_end := q\<rparr>"
    using assms by (auto simp: scan_step_def scan_chunk_at_def Let_def result_simps split: if_splits)
  have "\<exists>d s0. decode_record_at E (chunk_bytes c) (chunk_position c) g = Ok d
      \<and> scan_decoded E vb ve crc l d s0 = Ok t \<and> sc_logical_op_count s0 = sc_logical_op_count s"
    using t(1) by (cases "sc_identity s") (force simp: scan_record_def result_simps split: if_splits prod.splits)+
  then obtain d s0 where "decode_record_at E (chunk_bytes c) (chunk_position c) g = Ok d"
    "scan_decoded E vb ve crc l d s0 = Ok t" "sc_logical_op_count s0 = sc_logical_op_count s" by blast
  then show thesis using recd False t(2) by simp
qed

lemma scan_step_count:
  assumes "scan_step E g db vb ve crc l c s = Ok s'"
  shows "unat (sc_logical_op_count s) \<le> unat (sc_logical_op_count s')"
    and "sc_logical_op_count s' = sc_logical_op_count s \<Longrightarrow> collect_states E g idx st (c # cs) = collect_states E g idx st cs"
proof -
  show "unat (sc_logical_op_count s) \<le> unat (sc_logical_op_count s')"
    using assms
  proof (cases rule: scan_step_cases)
    case (recd d s0 s1)
    then show ?thesis
      using scan_decoded_count(1,2) [OF recd(3)]
      by (cases "(\<exists>k. d = DR_KvRecord k) \<or> (\<exists>k. d = DR_DeleteRecord k)") simp_all
  qed simp
  show "collect_states E g idx st (c # cs) = collect_states E g idx st cs"
    if same: "sc_logical_op_count s' = sc_logical_op_count s"
    using assms
  proof (cases rule: scan_step_cases)
    case (recd d s0 s1)
    have "\<not> ((\<exists>k. d = DR_KvRecord k) \<or> (\<exists>k. d = DR_DeleteRecord k))"
    proof
      assume "(\<exists>k. d = DR_KvRecord k) \<or> (\<exists>k. d = DR_DeleteRecord k)"
      from scan_decoded_count(1) [OF recd(3) this] recd(4,5) same show False by simp
    qed
    then have "record_state (chunk_position c) (length (chunk_bytes c)) d = Ok None"
      using scan_decoded_count(2) [OF recd(3)] by blast
    then show ?thesis using recd(1,2) by (simp add: Let_def)
  qed simp
qed

lemma scan_all_skips:
  assumes "scan_all E g db vb ve crc r hs s = Ok s'" and "sc_logical_op_count s' = sc_logical_op_count s"
  shows "collect_states E g idx st (hs @ cs) = collect_states E g idx st cs"
proof -
  have mono: "scan_all E g db vb ve crc r hs s = Ok s' \<Longrightarrow> unat (sc_logical_op_count s) \<le> unat (sc_logical_op_count s')" for hs s
  proof (induction hs arbitrary: s)
    case (Cons h hs)
    then obtain s1 where "scan_step E g db vb ve crc (hs = [] \<and> r = 0) h s = Ok s1" "scan_all E g db vb ve crc r hs s1 = Ok s'"
      by (auto simp: result_simps)
    then show ?case using Cons.IH [of s1] scan_step_count(1) [of E g db vb ve crc _ h s s1] by fastforce
  qed simp
  show ?thesis using assms
  proof (induction hs arbitrary: s)
    case (Cons h hs)
    then obtain s1 where s1: "scan_step E g db vb ve crc (hs = [] \<and> r = 0) h s = Ok s1" "scan_all E g db vb ve crc r hs s1 = Ok s'"
      by (auto simp: result_simps)
    have "unat (sc_logical_op_count s1) = unat (sc_logical_op_count s)"
      using mono [OF s1(2)] scan_step_count(1) [OF s1(1)] Cons.prems(2) by simp
    then have same: "sc_logical_op_count s1 = sc_logical_op_count s" by (simp add: word_unat_eq_iff)
    then show ?case using scan_step_count(2) [OF s1(1) same] Cons.IH [OF s1(2)] Cons.prems(2) by simp
  qed simp
qed

lemma collect_placed:
  assumes "geometry_ok g" and "tail_position g p" and "plan_enters g p (length bs)"
    and "record_len_ok g (length bs)" and "placed E db seq uid g p bs cs"
  shows "collect_states E g idx st (cs @ rest)
    = collect_states E g idx st (\<lparr>chunk_position = plan_start g p (length bs), chunk_bytes = bs\<rparr> # rest)"
proof -
  obtain hs where hs: "list_all2 (\<lambda>p c. prelude_chunk E db seq uid g p = Ok c) (plan_preludes g p (length bs)) hs"
    and cs: "cs = hs @ [\<lparr>chunk_position = plan_start g p (length bs), chunk_bytes = bs\<rparr>]"
    using assms(5) by (auto simp: placed_def)
  let ?s = "mid_scan seq uid p undefined 0 0 0 0 {}"
  have s: "sc_physical_end ?s = p" "\<not> sc_expecting_file_header ?s" "may_be (sc_identity ?s) seq uid"
    "sc_footer ?s = None" "\<not> sc_previous_was_page_end ?s" by (simp_all add: mid_scan_def may_be_def)
  obtain e idn pr where "scan_all E g db p p None 1 hs ?s
      = Ok (?s\<lparr>sc_physical_end := e, sc_identity := idn, sc_previous_was_page_end := pr\<rparr>)"
    using scan_preludes [OF assms(1-4) s hs] by blast
  from scan_all_skips [OF this] show ?thesis by (simp add: cs)
qed

lemma indexes_put:
  assumes "indexes idx xs"
  shows "idx k = Some i \<Longrightarrow> i < length xs \<and> put_state (k, s) xs = xs[i := (xs ! i)\<lparr>fs_state := s\<rparr>] \<and> indexes idx (put_state (k, s) xs)"
    and "idx k = None \<Longrightarrow> put_state (k, s) xs = xs @ [\<lparr>fs_user_key = k, fs_state = s\<rparr>] \<and> indexes (idx(k \<mapsto> length xs)) (put_state (k, s) xs)"
proof -
  have d: "distinct (map fs_user_key xs)" and I: "\<And>k i. idx k = Some i \<longleftrightarrow> i < length xs \<and> fs_user_key (xs ! i) = k"
    using assms by (simp_all add: indexes_def)
  show "i < length xs \<and> put_state (k, s) xs = xs[i := (xs ! i)\<lparr>fs_state := s\<rparr>] \<and> indexes idx (put_state (k, s) xs)"
    if k: "idx k = Some i"
  proof -
    have i: "i < length xs" "fs_user_key (xs ! i) = k" using k I by simp_all
    have u: "put_state (k, s) xs = xs[i := (xs ! i)\<lparr>fs_state := s\<rparr>]" by (rule put_state_update [OF d i])
    have "map fs_user_key (xs[i := (xs ! i)\<lparr>fs_state := s\<rparr>]) = map fs_user_key xs"
      using i(1) by (simp add: map_update list_update_same_conv)
    then have "indexes idx (xs[i := (xs ! i)\<lparr>fs_state := s\<rparr>])"
      using d I i(1) by (auto simp: indexes_def nth_list_update)
    then show ?thesis using i u by simp
  qed
  show "put_state (k, s) xs = xs @ [\<lparr>fs_user_key = k, fs_state = s\<rparr>] \<and> indexes (idx(k \<mapsto> length xs)) (put_state (k, s) xs)"
    if k: "idx k = None"
  proof -
    have n: "k \<notin> set (map fs_user_key xs)"
    proof
      assume "k \<in> set (map fs_user_key xs)"
      then obtain j where "j < length xs" "fs_user_key (xs ! j) = k" by (auto simp: in_set_conv_nth)
      then have "idx k = Some j" unfolding I by simp
      with k show False by simp
    qed
    have "indexes (idx(k \<mapsto> length xs)) (xs @ [\<lparr>fs_user_key = k, fs_state = s\<rparr>])"
      using d n I by (auto simp: indexes_def nth_append less_Suc_eq)
    then show ?thesis using put_state_append [OF n] by simp
  qed
qed

lemma collect_record:
  assumes "geometry_ok g" and "fits g q (op_len op)" and "identity_ok seq uid" and "op_ok op" and "allocates E" and "indexes idx st"
  shows "\<exists>idx'. indexes idx' (put_state (operation_key op, state_of_pointer (op_pointer q op)) st)
    \<and> collect_states E g idx st (\<lparr>chunk_position = q, chunk_bytes = op_bytes E seq uid i op\<rparr> # rest)
      = collect_states E g idx' (put_state (operation_key op, state_of_pointer (op_pointer q op)) st) rest"
proof -
  let ?s = "state_of_pointer (op_pointer q op)"
  have v: "validate_record_start q g = Ok ()" using assms(2) by (simp add: fits_def)
  note B = record_start_branch [OF assms(1) v]
  have b: "pos_offset q mod page_size g = 0 \<longleftrightarrow> False"
    "pos_offset q < page_size g \<and> pos_offset q = word_of_nat PAGE_HEADER_ENCODED_LEN \<longleftrightarrow> False"
    using B by (simp_all add: PAGE_HEADER_ENCODED_LEN_def)
  note dec = decode_op_bytes [OF assms(3,4,2), of E i]
  have rs: "record_state q (op_len op) (decoded_operation seq uid i op) = Ok (Some (operation_key op, ?s))"
    using fits_start_lt [OF assms(2)] assms(4)
    by (cases op) (auto simp: record_state_def decoded_operation_def state_of_pointer_def u32_try_from_def u16_try_from_def
        simp del: op_bytes.simps)
  have cp: "reader_try_copy_bytes E bs = Ok bs" for bs
    using assms(5) by (simp add: reader_try_copy_bytes_def allocates_def try_reserve_def)
  show ?thesis
  proof (cases "idx (operation_key op)")
    case (Some j)
    note P = indexes_put(1) [OF assms(6) Some, of ?s]
    have "collect_states E g idx st (\<lparr>chunk_position = q, chunk_bytes = op_bytes E seq uid i op\<rparr> # rest)
        = collect_states E g idx (st[j := (st ! j)\<lparr>fs_state := ?s\<rparr>]) rest"
      using P by (simp add: Let_def dec rs Some b)
    then show ?thesis using P by metis
  next
    case None
    note P = indexes_put(2) [OF assms(6) None, of ?s]
    have "collect_states E g idx st (\<lparr>chunk_position = q, chunk_bytes = op_bytes E seq uid i op\<rparr> # rest)
        = collect_states E g (idx(operation_key op \<mapsto> length st)) (st @ [\<lparr>fs_user_key = operation_key op, fs_state = ?s\<rparr>]) rest"
      by (simp add: Let_def dec rs None b cp)
    then show ?thesis using P by metis
  qed
qed

definition op_states :: "logical_operation list \<Rightarrow> value_pointer option list \<Rightarrow> (bytes \<times> envelope_value_state) list" where
  "op_states ops ptrs = zip (map operation_key ops) (map state_of_pointer ptrs)"

lemma collect_operations:
  assumes "geometry_ok g" and "tail_position g p" and "all_enter g p (map op_len ops)"
    and "\<forall>op \<in> set ops. record_len_ok g (op_len op) \<and> op_ok op" and "identity_ok seq uid"
    and "ops_placed E db seq uid g p i ops cs" and "allocates E" and "indexes idx st"
  shows "\<exists>idx'. indexes idx' (fold put_state (op_states ops (op_pointers g p ops)) st)
    \<and> collect_states E g idx st (cs @ rest)
      = collect_states E g idx' (fold put_state (op_states ops (op_pointers g p ops)) st) rest"
  using assms
proof (induction ops arbitrary: p i cs idx st)
  case Nil
  then show ?case by (auto simp: op_states_def)
next
  case (Cons op ops)
  let ?n = "op_len op"
  let ?q = "plan_start g p ?n"
  obtain cs1 cs2 where cs: "cs = cs1 @ cs2" and pl: "placed E db seq uid g p (op_bytes E seq uid i op) cs1"
    and rest: "ops_placed E db seq uid g (pos_add ?q ?n) (Suc i) ops cs2" using Cons.prems(6) by auto
  have e: "plan_enters g p ?n" and n: "record_len_ok g ?n" and ok: "op_ok op" using Cons.prems by simp_all
  note st = plan_step_ok [OF Cons.prems(1,2) e n]
  let ?st = "put_state (operation_key op, state_of_pointer (op_pointer ?q op)) st"
  have skip: "collect_states E g idx st (cs @ rest)
      = collect_states E g idx st (\<lparr>chunk_position = ?q, chunk_bytes = op_bytes E seq uid i op\<rparr> # cs2 @ rest)"
    using collect_placed [OF Cons.prems(1,2) _ _ pl, of idx st "cs2 @ rest"] e n by (simp add: cs)
  obtain idx1 where i1: "indexes idx1 ?st"
    and c1: "collect_states E g idx st (\<lparr>chunk_position = ?q, chunk_bytes = op_bytes E seq uid i op\<rparr> # cs2 @ rest)
      = collect_states E g idx1 ?st (cs2 @ rest)"
    using collect_record [OF Cons.prems(1) st(2) Cons.prems(5) ok Cons.prems(7,8)] by blast
  have "\<exists>idx'. indexes idx' (fold put_state (op_states ops (op_pointers g (pos_add ?q ?n) ops)) ?st)
    \<and> collect_states E g idx1 ?st (cs2 @ rest)
      = collect_states E g idx' (fold put_state (op_states ops (op_pointers g (pos_add ?q ?n) ops)) ?st) rest"
    by (rule Cons.IH [OF Cons.prems(1) st(1) _ _ Cons.prems(5) rest Cons.prems(7) i1]) (use Cons.prems in auto)
  then show ?case by (simp add: skip c1 op_states_def del: collect_states.simps)
qed

lemma collect_skips_record:
  assumes "geometry_ok g" and "fits g q (length bs)" and "decode_record_at E bs q g = Ok d"
    and "record_state q (length bs) d = Ok None"
  shows "collect_states E g idx st (\<lparr>chunk_position = q, chunk_bytes = bs\<rparr> # rest) = collect_states E g idx st rest"
proof -
  have "validate_record_start q g = Ok ()" using assms(2) by (simp add: fits_def)
  note B = record_start_branch [OF assms(1) this]
  show ?thesis using B assms(3,4) by (simp add: Let_def PAGE_HEADER_ENCODED_LEN_def)
qed

lemma collect_prepared:
  assumes "planner_ok P" and "wide_pages (lp_geometry P)" and "allocates E"
    and "prepare_envelope E P db seq uid ops = (P', Ok e)"
  shows "collect_final_states E (pe_chunks e) (lp_geometry P)
    = Ok (fold put_state (op_states ops (pe_value_pointers e)) [])"
proof -
  let ?g = "lp_geometry P" and ?p = "lp_position P"
  let ?q = "footer_entry ?g ?p ops" and ?stop = "envelope_end ?g ?p ops"
  let ?b = "tx_begin_of seq uid ?p ops"
  have g: "geometry_ok ?g" "tail_position ?g ?p" using assms(1) by (simp_all add: planner_ok_def)
  note C = prepare_candidate_Ok [OF assms(1,2) assms(4) [unfolded prepare_envelope_Ok_iff]]
  from C obtain crc cs where ch: "envelope_chunks E db seq uid ?g ?p ops crc cs"
    and b: "tx_begin_ok ?b" and f: "footer_ok (footer_of seq uid ?p ?stop crc ops)"
    and e: "pe_chunks e = cs" "pe_value_pointers e = op_pointers ?g (ops_start ?g ?p) ops"
    by auto
  from C have i: "identity_ok seq uid" "\<forall>op \<in> set ops. op_ok op"
    and ae: "all_enter ?g ?p (record_lens ops)" by auto
  note lens = record_lens_ok [OF assms(2) i(2)]
  have l: "record_len_ok ?g 71" "record_len_ok ?g 111" "\<forall>op \<in> set ops. record_len_ok ?g (op_len op) \<and> op_ok op"
    using lens i(2) by (auto simp: record_lens_def)
  have ent: "plan_enters ?g ?p 71" "all_enter ?g (ops_start ?g ?p) (map op_len ops)" "plan_enters ?g ?q 111"
    using ae by (simp_all add: envelope_parts)
  note pos = envelope_positions [OF g ae lens]
  obtain cs0 cs1 cs2 where cs: "cs = cs0 @ cs1 @ cs2"
    and p0: "placed E db seq uid ?g ?p (frame E RT_TxBegin seq uid (tx_begin_payload ?b)) cs0"
    and p1: "ops_placed E db seq uid ?g (ops_start ?g ?p) 0 ops cs1"
    and p2: "placed E db seq uid ?g ?q (footer_bytes E (footer_of seq uid ?p ?stop crc ops)) cs2"
    using ch by (auto simp: envelope_chunks_def)
  have len: "length (frame E RT_TxBegin seq uid (tx_begin_payload ?b)) = 71"
    "length (footer_bytes E (footer_of seq uid ?p ?stop crc ops)) = 111" by simp_all
  note f0 = plan_step_ok(2) [OF g ent(1) l(1)] and f2 = plan_step_ok(2) [OF g(1) pos(2) ent(3) l(2)]
  have d0: "decode_record_at E (frame E RT_TxBegin seq uid (tx_begin_payload ?b)) (plan_start ?g ?p 71) ?g = Ok (DR_TxBegin ?b)"
    using decode_record_at_frames(1) [of ?b ?g "plan_start ?g ?p 71" E] b f0 by (simp add: tx_begin_of_simps)
  have d2: "decode_record_at E (footer_bytes E (footer_of seq uid ?p ?stop crc ops)) (plan_start ?g ?q 111) ?g
      = Ok (DR_TxPreparedEnd (footer_of seq uid ?p ?stop crc ops))"
    by (rule decode_record_at_footer [OF f f2]) (simp add: footer_of_def pos_add_def envelope_end_def)
  have s0: "collect_states E ?g idx st (cs0 @ rest) = collect_states E ?g idx st rest" for idx st rest
    using collect_placed [OF g _ _ p0, of idx st rest] collect_skips_record [OF g(1) _ d0, of idx st rest] ent(1) l(1) f0
    unfolding len by (simp add: record_state_def)
  have s2: "collect_states E ?g idx st (cs2 @ rest) = collect_states E ?g idx st rest" for idx st rest
    using collect_placed [OF g(1) pos(2) _ _ p2, of idx st rest] collect_skips_record [OF g(1) _ d2, of idx st rest]
      ent(3) l(2) f2 unfolding len by (simp add: record_state_def)
  have "indexes Map.empty []" by (simp add: indexes_def)
  from collect_operations [OF g(1) pos(1) ent(2) l(3) i(1) p1 assms(3) this, of "cs2 @ []"]
  have "collect_states E ?g Map.empty [] (cs1 @ cs2) = Ok (fold put_state (op_states ops (pe_value_pointers e)) [])"
    using s2 [of _ _ "[]"] e(2) by auto
  then show ?thesis
    using assms(3) s0 [of Map.empty "[]" "cs1 @ cs2"]
    by (simp add: collect_final_states_def e(1) cs allocates_def try_reserve_def)
qed

context honest_disk
begin

lemma ready_calm: "file_ready E (vr_files R) ident catalog v f \<Longrightarrow> calm E R v catalog f"
  unfolding calm_def by (metis read_recovery_bytes_benign)

lemma prepared_reads_back:
  assumes "cache_inv (wview w) (wd_cache w)" and "planner_ok P" and "wide_pages (lp_geometry P)" and "allocates E"
    and "prepare_envelope E P db seq uid ops = (P', Ok e)"
    and "\<forall>c \<in> set (pe_chunks e). stored (wview w) c
      \<and> file_ready E (vr_files R) ident (wd_catalog w) (wview w) (pos_file_id (chunk_position c))"
    and "vr_geometry R = lp_geometry P" and "fs_database_uuid (vr_files R) = db"
    and "read_recovery_envelope E K R (pe_vlog_begin e) (pe_vlog_end e) (Some (pe_envelope_crc32c e)) w = (w', r)"
  shows "reads w w' \<and> (case r of
      Ok env \<Rightarrow> re_scanned env = scanned_of seq uid (lp_position P) (lp_position P') ops (pe_envelope_crc32c e)
        \<and> re_final_states env = fold put_state (op_states ops (pe_value_pointers e)) []
    | Err err \<Rightarrow> benign err)"
proof -
  have "scan_prepared_envelope E (pe_chunks e) (vr_geometry R) (fs_database_uuid (vr_files R)) (pe_vlog_begin e)
      (pe_vlog_end e) (Some (pe_envelope_crc32c e))
    = Ok (scanned_of seq uid (lp_position P) (lp_position P') ops (pe_envelope_crc32c e))"
    unfolding assms(7,8) by (rule scan_prepared [OF assms(2,3)])
      (use assms(4,5) in \<open>simp_all add: prepare_envelope_Ok_iff allocates_def\<close>)
  note S = read_recovery_envelope_spec [OF assms(9) this assms(1)]
  note F = collect_prepared [OF assms(2-5), folded assms(7)]
  show ?thesis
    using S assms(6) F ready_calm [of E R "wd_catalog w" "wview w"] by (cases r) auto
qed

end

lemma value_reads:
  assumes "log_disk K view ident" and "cache_inv (view (wd_disk w)) (wd_cache w)"
    and "planner_ok P" and "wide_pages (lp_geometry P)" and "prepare_envelope E P db seq uid ops = (P', Ok e)"
    and "\<forall>c \<in> set (pe_chunks e). stored (view (wd_disk w)) c" and "vr_geometry R = lp_geometry P"
    and "j < length ops" and "ops ! j = LO_Put key val" and "pe_value_pointers e ! j = Some p"
    and "read_pointer E K R p k w = (w', Ok v)"
  shows "k = key \<and> v = val"
proof -
  obtain bs where c: "\<lparr>chunk_position = VLogPosition (vp_file_id p) (ucast (vp_record_offset p)), chunk_bytes = bs\<rparr> \<in> set (pe_chunks e)"
    and len: "length bs = unat (vp_record_len p)"
    and dec: "decode_record_at E bs (VLogPosition (vp_file_id p) (ucast (vp_record_offset p))) (lp_geometry P)
        = Ok (DR_KvRecord (kv_of seq uid (word_of_nat j) key val))"
    using envelope_pointers_resolve [OF assms(3-5,8,9)] assms(10) by auto
  obtain h rec where h: "file_handle (view (wd_disk w)) (vp_file_id p) = Some h"
    "decode_record_at E (take (unat (vp_record_len p)) (drop (unat (vp_record_offset p)) (dv_content (view (wd_disk w)) h)))
      (VLogPosition (vp_file_id p) (ucast (vp_record_offset p))) (vr_geometry R) = Ok (DR_KvRecord rec)"
    "kv_key rec = k" "kv_value rec = v"
    using log_disk.read_pointer_spec(2) [OF assms(1,11) refl assms(2)] by blast
  have "take (unat (vp_record_len p)) (drop (unat (vp_record_offset p)) (dv_content (view (wd_disk w)) h)) = bs"
    using assms(6) c h(1) len by (auto simp: stored_def)
  then show ?thesis using h dec assms(7) by auto
qed

section \<open>Properties\<close>

text \<open>
  C33: a value reads back. Let an envelope be prepared, all its chunks stored in the log's files and
  the cache of open files be consistent with the directory. Whatever the directory does, if reading
  through the pointer recorded for a put returns a value then that value is the one put, and only
  under the key it was put under: a pointer never yields another key's value. The read changes
  no file.
\<close>

theorem stored_value_reads_back:
  assumes "log_disk K view ident" and "cache_inv (view (wd_disk w)) (wd_cache w)"
    and "planner_ok P" and "wide_pages (lp_geometry P)" and "prepare_envelope E P db seq uid ops = (P', Ok e)"
    and "\<forall>c \<in> set (pe_chunks e). stored (view (wd_disk w)) c" and "vr_geometry R = lp_geometry P"
    and "j < length ops" and "ops ! j = LO_Put key val" and "pe_value_pointers e ! j = Some p"
    and "ValuePointer_encode p = Ok bs" and "read_value E K R bs k w = (w', r)"
  shows "view (wd_disk w') = view (wd_disk w) \<and> cache_inv (view (wd_disk w')) (wd_cache w')
    \<and> (\<forall>v. r = Ok v \<longrightarrow> k = key \<and> v = val)"
proof -
  have rp: "read_pointer E K R p k w = (w', r)"
    using assms(12) vp.dec_enc [OF assms(11)] by (simp add: read_value_def act_bind_def act_lift_def)
  have "view (wd_disk w') = view (wd_disk w) \<and> cache_inv (view (wd_disk w')) (wd_cache w')"
    using log_disk.read_pointer_spec(1) [OF assms(1) rp] assms(2) unfolding log_disk.reads_def [OF assms(1)] by blast
  then show ?thesis using value_reads [OF assms(1-10)] rp by blast
qed

text \<open>
  C34: recovery reads back what was stored. Let an envelope be prepared, all its chunks stored, and
  the files that hold them be catalogued with their own headers, in a directory that behaves as
  POSIX says but may fail at any call. Reading the envelope for recovery either returns exactly
  the transaction (its identity, positions, counts and checksum, and for each key, in the order
  the keys first occur, the state its last operation leaves), or fails with an error that is none
  of those recovery takes as evidence of a torn transaction.
\<close>

theorem stored_envelope_reads_back:
  assumes "honest_disk K view ident" and "cache_inv (view (wd_disk w)) (wd_cache w)"
    and "planner_ok P" and "wide_pages (lp_geometry P)" and "allocates E"
    and "prepare_envelope E P db seq uid ops = (P', Ok e)"
    and "\<forall>c \<in> set (pe_chunks e). stored (view (wd_disk w)) c
      \<and> file_ready E (vr_files R) ident (wd_catalog w) (view (wd_disk w)) (pos_file_id (chunk_position c))"
    and "vr_geometry R = lp_geometry P" and "fs_database_uuid (vr_files R) = db"
    and "read_recovery_envelope E K R (pe_vlog_begin e) (pe_vlog_end e) (Some (pe_envelope_crc32c e)) w = (w', r)"
  shows "view (wd_disk w') = view (wd_disk w) \<and> (case r of
      Ok env \<Rightarrow> re_scanned env = scanned_of seq uid (lp_position P) (lp_position P') ops (pe_envelope_crc32c e)
        \<and> re_final_states env = fold put_state (op_states ops (pe_value_pointers e)) []
    | Err err \<Rightarrow> benign err)"
  using honest_disk.prepared_reads_back [OF assms]
  by (simp add: log_disk.reads_def [OF honest_disk.axioms(1) [OF assms(1)]])

lemma plan_start_inside:
  assumes "64 \<le> unat off" and "unat off + n + 43 \<le> 65536"
  shows "plan_start PRODUCTION (VLogPosition f off) n = VLogPosition f off"
proof -
  have p: "unat (page_size PRODUCTION) = 65536" by (simp add: PRODUCTION_def vlog_consts)
  have "off \<noteq> 0" using assms(1) by auto
  moreover have "\<not> 65536 dvd unat off"
  proof
    assume "65536 dvd unat off"
    then have "65536 \<le> unat off" using assms(1) by (intro dvd_imp_le) auto
    then show False using assms(2) by simp
  qed
  moreover have "off \<noteq> max_file_size PRODUCTION"
  proof
    assume "off = max_file_size PRODUCTION"
    then have "unat off = unat (max_file_size PRODUCTION)" by simp
    then show False using assms(2) by (simp add: PRODUCTION_def vlog_consts)
  qed
  moreover have "unat off mod 65536 = unat off" using assms(2) by simp
  moreover have "n + 43 \<le> 65536 - unat off" using assms(2) by linarith
  ultimately show ?thesis
    using p by (simp add: plan_start_def plan_entry_def stays_def fits_here_def boundary_def file_entry_def needs_new_file_def
        area_start_def page_rest_def)
qed

lemma sample_end: "envelope_end PRODUCTION (VLogPosition 0 0) sample_ops = VLogPosition 0 357"
proof -
  have z: "plan_start PRODUCTION (VLogPosition 0 0) 71 = VLogPosition 0 64"
    by (simp add: plan_start_def plan_entry_def stays_def boundary_def file_entry_def needs_new_file_def area_start_def
        PRODUCTION_def vlog_consts)
  show ?thesis
    by (simp add: envelope_end_def footer_entry_def ops_start_def z pos_add_def plan_start_inside)
qed


text \<open>A file that holds the chunks of a scan that stays in it, one after the other.\<close>

lemma scan_stored:
  assumes "geometry_ok g" and "scan_all E g db vb ve crc r cs s = Ok s'"
    and "pos_file_id (sc_physical_end s') = pos_file_id (sc_physical_end s)"
    and "length pre = unat (pos_offset (sc_physical_end s))"
    and "file_handle v (pos_file_id (sc_physical_end s)) = Some h" and "dv_content v h = pre @ concat (map chunk_bytes cs)"
  shows "(\<forall>c \<in> set cs. stored v c \<and> pos_file_id (chunk_position c) = pos_file_id (sc_physical_end s))
    \<and> length (dv_content v h) = unat (pos_offset (sc_physical_end s'))"
  using assms(2-6)
proof (induction cs arbitrary: s pre)
  case (Cons c cs)
  obtain s1 where s1: "scan_step E g db vb ve crc (cs = [] \<and> r = 0) c s = Ok s1" "scan_all E g db vb ve crc r cs s1 = Ok s'"
    using Cons.prems(1) by (auto simp: result_simps)
  note C = chunk_end_Ok [OF scan_step_chunk(1) [OF assms(1) s1(1)]]
  have le: "pos_file_id (chunk_position c) \<le> pos_file_id (sc_physical_end s')"
    using scan_all_grows(1) [OF assms(1) s1(2)] C by (auto simp: less_eq_vlog_position_def)
  have "chunk_position c = sc_physical_end s"
    using scan_step_Ok(1) [OF s1(1)] le Cons.prems(2) checked_add_unat [of "pos_file_id (sc_physical_end s)" 1]
    by (cases "chunk_position c") (auto simp: next_chunk_position_def result_simps word_le_nat_alt split: if_splits)
  moreover from this have "pos_file_id (sc_physical_end s1) = pos_file_id (sc_physical_end s)"
    "length (pre @ chunk_bytes c) = unat (pos_offset (sc_physical_end s1))" using C Cons.prems(3) by auto
  moreover have "stored v c" if "chunk_position c = sc_physical_end s"
    using that Cons.prems(3-5) by (auto simp: stored_def)
  ultimately show ?case
    using Cons.IH [OF s1(2), of "pre @ chunk_bytes c"] Cons.prems(2,4,5) by simp
qed simp

lemma scan_first_page:
  assumes "geometry_ok g" and "scan_step E g db vb ve crc l c s = Ok s'" and "sc_physical_end s = VLogPosition f 0"
  shows "length (chunk_bytes c) = PAGE_HEADER_ENCODED_LEN \<and> sc_physical_end s' = VLogPosition f (word_of_nat PAGE_HEADER_ENCODED_LEN)
    \<and> sc_expecting_file_header s' \<and> sc_begin s' = sc_begin s"
proof -
  note G = geometry_okD [OF assms(1)]
  have p: "chunk_position c = VLogPosition f 0"
    using scan_step_Ok(1) [OF assms(2)] assms(3) G(6) by (simp add: next_chunk_position_def word_less_nat_alt)
  note C = chunk_end_Ok [OF scan_step_chunk(1) [OF assms(1,2)]]
  have "length (chunk_bytes c) = PAGE_HEADER_ENCODED_LEN" using scan_step_chunk(3) [OF assms(1,2)] p by simp
  then have e: "sc_physical_end s' = VLogPosition f (word_of_nat PAGE_HEADER_ENCODED_LEN)" using C p by simp
  obtain s0 where "scan_page_header E g c s = Ok s0" "sc_expecting_file_header s' = sc_expecting_file_header s0"
    "sc_begin s' = sc_begin s0"
    using assms(2) p by (auto simp: scan_step_def scan_chunk_at_def result_simps Let_def split: if_splits)
  then have "sc_expecting_file_header s'" "sc_begin s' = sc_begin s"
    using p G(8) by (auto simp: scan_page_header_def result_simps checked_div_def u32_try_from_Some split: if_splits)
  then show ?thesis using \<open>length (chunk_bytes c) = PAGE_HEADER_ENCODED_LEN\<close> e by simp
qed

lemma scan_first_file:
  assumes "geometry_ok g" and "scan_step E g db vb ve crc l c s = Ok s'"
    and "sc_physical_end s = VLogPosition f (word_of_nat PAGE_HEADER_ENCODED_LEN)"
  shows "\<exists>h. VLogFileHeader_decode E (chunk_bytes c) = Ok h \<and> fh_database_uuid h = db \<and> fh_file_id h = f
    \<and> length (chunk_bytes c) = FILE_HEADER_ENCODED_LEN"
proof -
  note G = geometry_okD [OF assms(1)]
  have le: "unat (page_size g) \<le> unat (max_file_size g)" using G(4,6) by (rule dvd_imp_le)
  have p: "chunk_position c = VLogPosition f (word_of_nat PAGE_HEADER_ENCODED_LEN)"
    using scan_step_Ok(1) [OF assms(2)] assms(3) G(1) le
    by (simp add: next_chunk_position_def word_less_nat_alt PAGE_HEADER_ENCODED_LEN_def)
  have "(word_of_nat PAGE_HEADER_ENCODED_LEN :: u64) mod page_size g \<noteq> 0"
    using G(1) by (simp add: word_unat_eq_iff unat_mod_distrib PAGE_HEADER_ENCODED_LEN_def)
  moreover have "(word_of_nat PAGE_HEADER_ENCODED_LEN :: u64) < page_size g"
    using G(1) by (simp add: word_less_nat_alt PAGE_HEADER_ENCODED_LEN_def)
  ultimately obtain s0 where "scan_file_header E db c s = Ok s0"
    using assms(2) p by (auto simp: scan_step_def scan_chunk_at_def result_simps Let_def split: if_splits)
  then show ?thesis using p by (auto simp: scan_file_header_def result_simps split: if_splits)
qed

lemma file_prelude:
  assumes "geometry_ok g" and "scan_all E g db vb ve crc r cs s = Ok s'" and "sc_physical_end s = VLogPosition f 0"
    and "sc_begin s = None" and "sc_begin s' \<noteq> None"
  shows "\<exists>h. VLogFileHeader_decode E (take FILE_HEADER_ENCODED_LEN (drop PAGE_HEADER_ENCODED_LEN (concat (map chunk_bytes cs)))) = Ok h
    \<and> fh_database_uuid h = db \<and> fh_file_id h = f
    \<and> PAGE_HEADER_ENCODED_LEN + FILE_HEADER_ENCODED_LEN \<le> length (concat (map chunk_bytes cs))"
proof -
  obtain c1 cs1 where cs1: "cs = c1 # cs1" using assms(2,4,5) by (cases cs) auto
  obtain s1 where s1: "scan_step E g db vb ve crc (cs1 = [] \<and> r = 0) c1 s = Ok s1" "scan_all E g db vb ve crc r cs1 s1 = Ok s'"
    using assms(2) by (auto simp: cs1 result_simps)
  note P = scan_first_page [OF assms(1) s1(1) assms(3)]
  obtain c2 cs2 where cs2: "cs1 = c2 # cs2" using s1(2) assms(4,5) P by (cases cs1) auto
  obtain s2 where s2: "scan_step E g db vb ve crc (cs2 = [] \<and> r = 0) c2 s1 = Ok s2" using s1(2) by (auto simp: cs2 result_simps)
  from P have e1: "sc_physical_end s1 = VLogPosition f (word_of_nat PAGE_HEADER_ENCODED_LEN)" by blast
  from scan_first_file [OF assms(1) s2 e1] P show ?thesis by (auto simp: cs1 cs2)
qed


text \<open>A log of one file that holds one envelope, for the witnesses.\<close>

definition log_of :: "bytes \<Rightarrow> mem_disk log_world" where
  "log_of bs =
     \<lparr>wd_disk = \<lparr>mk_clock = 0, mk_next = 1, mk_entries = [(vlog_name 0, 0)], mk_content = (\<lambda>_. bs),
        mk_synced = (\<lambda>_. True), mk_synced_entry = (\<lambda>_. True)\<rparr>,
      wd_catalog = Mapping.update 0 (mem_ident 0) Mapping.empty, wd_cache = cache_empty\<rparr>"

definition sample_reader :: vlog_reader where
  "sample_reader = \<lparr>vr_files = \<lparr>fs_database_uuid = 1, fs_geometry = PRODUCTION, fs_capacity = 4\<rparr>, vr_geometry = PRODUCTION\<rparr>"

definition honest_os :: "mem_disk os_ops" where
  "honest_os = mem_os (gentle (\<lambda>_. None)) (\<lambda>_. Suc 1)"

lemma honest_os_disk: "honest_disk honest_os mem_disk_view mem_ident" "log_disk honest_os mem_disk_view mem_ident"
  unfolding honest_os_def by (rule mem_honest.honest_disk_axioms, rule mem.log_disk_axioms)

lemma log_of_simps:
  "file_handle (mem_disk_view (wd_disk (log_of bs))) 0 = Some 0" "dv_content (mem_disk_view (wd_disk (log_of bs))) h = bs"
  "cache_inv v (wd_cache (log_of bs))" "Mapping.lookup (wd_catalog (log_of bs)) 0 = Some (mem_ident 0)"
  by (simp_all add: log_of_def file_handle_def mem_disk_view_def)

lemma sample_envelope_stored:
  assumes "prepare_envelope sample_env sample_planner 1 1 1 sample_ops = (P', Ok e)"
  defines "w \<equiv> log_of (concat (map chunk_bytes (pe_chunks e)))"
  shows "\<forall>c \<in> set (pe_chunks e). stored (mem_disk_view (wd_disk w)) c
    \<and> file_ready sample_env (vr_files sample_reader) mem_ident (wd_catalog w) (mem_disk_view (wd_disk w)) (pos_file_id (chunk_position c))"
proof -
  let ?v = "mem_disk_view (wd_disk w)"
  have wide: "wide_pages (lp_geometry sample_planner)" by simp
  note C = prepare_candidate_Ok [OF sample_planner_ok wide assms(1) [unfolded prepare_envelope_Ok_iff]]
  have pos: "pe_vlog_begin e = VLogPosition 0 0" "pe_vlog_end e = VLogPosition 0 357" using C sample_end by auto
  have sc: "scan_prepared_envelope sample_env (pe_chunks e) PRODUCTION 1 (pe_vlog_begin e) (pe_vlog_end e) None
      = Ok (scanned_of 1 1 (VLogPosition 0 0) (lp_position P') sample_ops (pe_envelope_crc32c e))"
    using scan_prepared [OF sample_planner_ok wide assms(1) [unfolded prepare_envelope_Ok_iff], of None]
      allocates_sample_env by (simp add: allocates_def)
  from scan_prepared_Ok [OF sc] obtain s where s: "scan_all sample_env PRODUCTION 1 (pe_vlog_begin e) (pe_vlog_end e) None 0
      (pe_chunks e) (scan_init sample_env (pe_vlog_begin e)) = Ok s" "sc_physical_end s = pe_vlog_end e"
    "sc_begin s \<noteq> None" by blast
  have S: "(\<forall>c \<in> set (pe_chunks e). stored ?v c \<and> pos_file_id (chunk_position c) = 0)
      \<and> length (dv_content ?v 0) = 357"
    using scan_stored [OF geometry_ok_PRODUCTION s(1), of "[]" ?v 0] s(2) pos log_of_simps
    by (simp add: w_def scan_init_def)
  obtain h where h: "VLogFileHeader_decode sample_env
      (take FILE_HEADER_ENCODED_LEN (drop PAGE_HEADER_ENCODED_LEN (concat (map chunk_bytes (pe_chunks e))))) = Ok h"
    "fh_database_uuid h = 1" "fh_file_id h = 0"
    "PAGE_HEADER_ENCODED_LEN + FILE_HEADER_ENCODED_LEN \<le> length (concat (map chunk_bytes (pe_chunks e)))"
    using file_prelude [OF geometry_ok_PRODUCTION s(1), of 0] s(3) pos by (auto simp: scan_init_def)
  have v: "ucast (fh_page_size h) = VLOG_PAGE_SIZE" "fh_max_file_size h = MAX_VLOG_FILE_SIZE"
    using VLogFileHeader_enc_dec [OF h(1)]
    by (auto simp: VLogFileHeader_encode_def VLogFileHeader_validate_def result_simps vlog_consts split: if_splits)
  have "file_ready sample_env (vr_files sample_reader) mem_ident (wd_catalog w) ?v 0"
    unfolding file_ready_def using h v S log_of_simps(1,2,4)
    by (auto simp: w_def sample_reader_def PRODUCTION_def vlog_consts intro!: exI [of _ 0])
  then show ?thesis using S by auto
qed

theorem stored_envelope_reads_back_witness:
  "\<exists>P' e w' r. prepare_envelope sample_env sample_planner 1 1 1 sample_ops = (P', Ok e)
     \<and> read_recovery_envelope sample_env honest_os sample_reader (pe_vlog_begin e) (pe_vlog_end e) (Some (pe_envelope_crc32c e))
         (log_of (concat (map chunk_bytes (pe_chunks e)))) = (w', r)
     \<and> (case r of
          Ok env \<Rightarrow> re_final_states env = fold put_state (op_states sample_ops (pe_value_pointers e)) []
        | Err err \<Rightarrow> benign err)"
proof -
  obtain P' e where e: "prepare_envelope sample_env sample_planner 1 1 1 sample_ops = (P', Ok e)" using sample_prepares by blast
  obtain w' r where r: "read_recovery_envelope sample_env honest_os sample_reader (pe_vlog_begin e) (pe_vlog_end e)
      (Some (pe_envelope_crc32c e)) (log_of (concat (map chunk_bytes (pe_chunks e)))) = (w', r)" by fastforce
  have g: "vr_geometry sample_reader = lp_geometry sample_planner" "fs_database_uuid (vr_files sample_reader) = 1"
    by (simp_all add: sample_reader_def)
  have wide: "wide_pages (lp_geometry sample_planner)" by simp
  from stored_envelope_reads_back [OF honest_os_disk(1) log_of_simps(3) sample_planner_ok wide allocates_sample_env e
      sample_envelope_stored [OF e] g r]
  show ?thesis using e r by (auto split: result.splits)
qed

theorem stored_value_reads_back_witness:
  "\<exists>P' e p bs w' r. prepare_envelope sample_env sample_planner 1 1 1 sample_ops = (P', Ok e)
     \<and> pe_value_pointers e ! 0 = Some p \<and> ValuePointer_encode p = Ok bs
     \<and> read_value sample_env honest_os sample_reader bs [107] (log_of (concat (map chunk_bytes (pe_chunks e)))) = (w', r)
     \<and> (\<forall>v. r = Ok v \<longrightarrow> v = [118])"
proof -
  obtain P' e where e: "prepare_envelope sample_env sample_planner 1 1 1 sample_ops = (P', Ok e)" using sample_prepares by blast
  have wide: "wide_pages (lp_geometry sample_planner)" by simp
  have g: "vr_geometry sample_reader = lp_geometry sample_planner" by (simp add: sample_reader_def)
  obtain p where p: "pe_value_pointers e ! 0 = Some p" "pointer_ok p"
    using envelope_pointers_resolve [OF sample_planner_ok wide e, of 0 "[107]" "[118]"] by auto
  obtain bs where bs: "ValuePointer_encode p = Ok bs"
    using p(2) by (simp add: ValuePointer_encode_def result_simps ValuePointer_validate_fields_Ok)
  obtain w' r where r: "read_value sample_env honest_os sample_reader bs [107]
      (log_of (concat (map chunk_bytes (pe_chunks e)))) = (w', r)" by fastforce
  have st: "\<forall>c \<in> set (pe_chunks e). stored (mem_disk_view (wd_disk (log_of (concat (map chunk_bytes (pe_chunks e)))))) c"
    using sample_envelope_stored [OF e] by blast
  have "0 < length sample_ops" "sample_ops ! 0 = LO_Put [107] [118]" by simp_all
  from stored_value_reads_back [OF honest_os_disk(2) log_of_simps(3) sample_planner_ok wide e st g this p(1) bs r]
  show ?thesis using e p bs r by auto
qed

end
