(* ===== verification/Undo.thy ===== *)
theory Undo
  imports RecoveryBase
begin

text \<open>
  Undoing transactions in reverse order (\<open>src/recovery/undo.rs\<close>): load a descriptor from the index,
  compare it with the plan's, check that the keys are in the state it left them in, and commit
  the batch that puts them back. \<open>Undo\<close> goes one transaction at a time, each in a batch of its own
  that also moves the head and the recovery state.
\<close>

section \<open>Operations\<close>

record loaded_descriptor =
  ld_descriptor :: transaction_descriptor
  ld_meta :: index_entry
  ld_mutations :: "index_entry list"

definition expected_descriptor :: "recovery_plan \<Rightarrow> u64 \<Rightarrow> transaction_descriptor res" where
  "expected_descriptor plan commit_seq =
     and_then (ok_or (checked_sub commit_seq (df_durable_seq (rp_durable_frontier plan))) recovery_corruption) (\<lambda>n.
     and_then (ok_or (checked_sub n 1) recovery_corruption) (\<lambda>relative.
       ok_or (list_get (rp_descriptors plan) (unat relative)) recovery_corruption))"

definition tx_sequence_prefix :: "env \<Rightarrow> u64 \<Rightarrow> bytes res" where
  "tx_sequence_prefix E commit_seq =
     and_then (map_err recovery_context (encode_tx_meta_key commit_seq)) (\<lambda>key.
     and_then (ok_or (slice_get key 0 10) recovery_corruption) (try_copy_recovery_bytes E))"

definition descriptor_range :: "env \<Rightarrow> u64 \<Rightarrow> internal_key_range res" where
  "descriptor_range E commit_seq =
     and_then (tx_sequence_prefix E commit_seq) (\<lambda>start.
     and_then (case checked_add commit_seq 1 of
                 None \<Rightarrow> Ok None
               | Some succ_seq \<Rightarrow> map_ok Some (tx_sequence_prefix E succ_seq)) (\<lambda>stop.
       Ok \<lparr>ir_start_inclusive = Some start, ir_end_exclusive = stop\<rparr>))"

fun load_entries ::
  "env \<Rightarrow> u64 \<Rightarrow> index_entry option \<Rightarrow> index_entry list \<Rightarrow> index_entry res list \<Rightarrow>
   (index_entry option \<times> index_entry list) res" where
  "load_entries E commit_seq meta mutations [] = Ok (meta, mutations)"
| "load_entries E commit_seq meta mutations (entry # entries) =
     and_then (map_err recovery_context entry) (\<lambda>entry.
       if length (en_key entry) = 11 then
         and_then (map_err recovery_context (decode_tx_meta_key (en_key entry))) (\<lambda>seq.
           if seq \<noteq> commit_seq \<or> meta \<noteq> None then Err recovery_corruption
           else load_entries E commit_seq (Some entry) mutations entries)
       else if length (en_key entry) = 19 then
         and_then (map_err recovery_context (decode_tx_mutation_key (en_key entry))) (\<lambda>(seq, ordinal).
           if seq \<noteq> commit_seq then Err recovery_corruption
           else
             and_then (try_reserve E ''UndoMutation'' (Suc (length mutations)) recovery_resource) (\<lambda>_.
               load_entries E commit_seq meta (mutations @ [entry]) entries))
       else Err recovery_corruption)"

definition entry_ref :: "index_entry \<Rightarrow> encoded_mutation" where
  "entry_ref entry = \<lparr>em_key = en_key entry, em_value = en_value entry\<rparr>"

definition load_descriptor ::
  "env \<Rightarrow> 's backend_ops \<Rightarrow> 's \<Rightarrow> transaction_descriptor \<Rightarrow> loaded_descriptor res" where
  "load_descriptor E B s expected =
     (let commit_seq = tm_commit_seq (td_meta expected) in
      and_then (descriptor_range E commit_seq) (\<lambda>rng.
      and_then (map_err recovery_context (bk_scan_internal B s TransactionSpace rng)) (\<lambda>entries.
      and_then (try_reserve E ''UndoMutations'' (unat (tm_distinct_key_count (td_meta expected))) recovery_resource) (\<lambda>_.
      and_then (load_entries E commit_seq None [] entries) (\<lambda>(meta, mutations).
      and_then (ok_or meta recovery_corruption) (\<lambda>meta.
      and_then (try_reserve E ''UndoRefs'' (length mutations) recovery_resource) (\<lambda>_.
      and_then (map_err recovery_context
                 (decode_descriptor E (en_key meta) (en_value meta) (map entry_ref mutations))) (\<lambda>descriptor.
        if descriptor \<noteq> expected then Err recovery_corruption
        else Ok \<lparr>ld_descriptor = descriptor, ld_meta = meta, ld_mutations = mutations\<rparr>))))))))"

fun validate_after_states :: "'s backend_ops \<Rightarrow> 's \<Rightarrow> tx_mutation list \<Rightarrow> unit res" where
  "validate_after_states B s [] = Ok ()"
| "validate_after_states B s (mutation # mutations) =
     and_then (map_err recovery_context (bk_get_user B s (mu_user_key mutation))) (\<lambda>actual.
     and_then (case mu_after_state mutation of
                 Absent \<Rightarrow> Ok (actual = None)
               | Present pointer \<Rightarrow>
                   and_then (map_err recovery_context (ValuePointer_encode pointer)) (\<lambda>encoded.
                     Ok (actual = Some encoded))) (\<lambda>matches.
       if \<not> matches then Err recovery_corruption else validate_after_states B s mutations))"

definition validate_current_after_states :: "'s backend_ops \<Rightarrow> 's \<Rightarrow> transaction_descriptor \<Rightarrow> unit res" where
  "validate_current_after_states B s descriptor = validate_after_states B s (td_mutations descriptor)"

definition undo_mutation :: "env \<Rightarrow> tx_mutation \<Rightarrow> index_mutation res" where
  "undo_mutation E mutation =
     and_then (try_copy_recovery_bytes E (mu_user_key mutation)) (\<lambda>user_key.
       case mu_before_state mutation of
         Absent \<Rightarrow> Ok (DeleteUser user_key)
       | Present pointer \<Rightarrow>
           and_then (map_err recovery_context (ValuePointer_encode pointer)) (\<lambda>encoded.
           and_then (try_copy_recovery_bytes E encoded) (\<lambda>encoded_pointer.
             Ok (PutUser user_key encoded_pointer))))"

fun push_undo_mutations :: "env \<Rightarrow> index_atomic_batch \<Rightarrow> tx_mutation list \<Rightarrow> index_atomic_batch res" where
  "push_undo_mutations E batch [] = Ok batch"
| "push_undo_mutations E batch (mutation # mutations) =
     and_then (undo_mutation E mutation) (\<lambda>op.
     and_then (push_recovery E batch op) (\<lambda>batch. push_undo_mutations E batch mutations))"

fun push_deleted_entries :: "env \<Rightarrow> index_atomic_batch \<Rightarrow> index_entry list \<Rightarrow> index_atomic_batch res" where
  "push_deleted_entries E batch [] = Ok batch"
| "push_deleted_entries E batch (entry # entries) =
     and_then (push_recovery E batch (DeleteInternal TransactionSpace (en_key entry))) (\<lambda>batch.
       push_deleted_entries E batch entries)"

definition build_undo_batch ::
  "env \<Rightarrow> loaded_descriptor \<Rightarrow> recovery_state \<Rightarrow> index_atomic_batch res" where
  "build_undo_batch E loaded next_state =
     (let mutation_count = length (td_mutations (ld_descriptor loaded)) in
      if mutation_count * 2 + 3 > usize_max then Err recovery_resource
      else
        and_then (recovery_batch_with_capacity E (mutation_count * 2 + 3)) (\<lambda>batch.
        and_then (push_undo_mutations E batch (td_mutations (ld_descriptor loaded))) (\<lambda>batch.
        and_then (push_deleted_entries E batch (ld_mutations loaded)) (\<lambda>batch.
        and_then (push_recovery E batch (DeleteInternal TransactionSpace (en_key (ld_meta loaded)))) (\<lambda>batch.
        and_then (push_system E batch HEAD_SEQ_KEY (u64_to_le_bytes (rs_next_undo_seq next_state))) (\<lambda>batch.
          push_recovery_state E batch next_state))))))"

definition undo_step ::
  "env \<Rightarrow> 's backend_ops \<Rightarrow> recovery_plan \<Rightarrow> recovery_state \<Rightarrow> ('s, recovery_state, storage_error) act" where
  "undo_step E B plan state s =
     (let prepared =
        and_then (expected_descriptor plan (rs_next_undo_seq state)) (\<lambda>expected.
        and_then (load_descriptor E B s expected) (\<lambda>loaded.
        and_then (validate_current_after_states B s (ld_descriptor loaded)) (\<lambda>_.
        and_then (ok_or (checked_sub (rs_next_undo_seq state) 1) recovery_corruption) (\<lambda>next_undo_seq.
        let next_state = state\<lparr>rs_next_undo_seq := next_undo_seq\<rparr> in
        and_then (build_undo_batch E loaded next_state) (\<lambda>batch. Ok (batch, next_state))))))
      in case prepared of
           Err e \<Rightarrow> (s, Err e)
         | Ok (batch, next_state) \<Rightarrow>
             act_bind (commit_recovery_batch B batch) (\<lambda>_. act_return next_state) s)"

lemma undo_step_seq:
  "undo_step E B plan state s = (s', Ok next_state) \<Longrightarrow>
   checked_sub (rs_next_undo_seq state) 1 = Some (rs_next_undo_seq next_state)
   \<and> next_state = state\<lparr>rs_next_undo_seq := rs_next_undo_seq next_state\<rparr>"
  by (auto simp: undo_step_def Let_def result_simps act_simps split: result.splits prod.splits)

text \<open>The loop: each round lowers the sequence number still to be undone.\<close>

function undo_transactions ::
  "env \<Rightarrow> 's backend_ops \<Rightarrow> recovery_plan \<Rightarrow> recovery_state \<Rightarrow> 's \<Rightarrow> 's \<times> recovery_state res" where
  "undo_transactions E B plan state s =
     (if rs_next_undo_seq state > rs_target_seq state
      then (case undo_step E B plan state s of
              (s', Ok next_state) \<Rightarrow> undo_transactions E B plan next_state s'
            | (s', Err e) \<Rightarrow> (s', Err e))
      else (s, Ok state))"
  by pat_completeness auto

termination
proof (relation "measure (\<lambda>(E, B, plan, state, s). unat (rs_next_undo_seq state))", goal_cases)
  case (2 E B plan state s s' r next_state)
  then have "undo_step E B plan state s = (s', Ok next_state)" by simp
  from undo_step_seq [OF this] checked_sub_unat [of "rs_next_undo_seq state" 1 "rs_next_undo_seq next_state"]
  show ?case by simp
qed simp

declare undo_transactions.simps [simp del]

section \<open>The backend recovery relies on\<close>

definition in_key_range :: "internal_key_range \<Rightarrow> bytes \<Rightarrow> bool" where
  "in_key_range rng k \<longleftrightarrow> (case ir_start_inclusive rng of None \<Rightarrow> True | Some a \<Rightarrow> a \<le> k)
     \<and> (case ir_end_exclusive rng of None \<Rightarrow> True | Some b \<Rightarrow> k < b)"

locale recovery_backend =
  index_backend "bk_commit_atomic B" "bk_get_user B" "bk_get_internal B" iview
  for B :: "'s backend_ops" and iview :: "'s \<Rightarrow> index_view" +
  assumes scan_sorted: "bk_scan_internal B s space rng = Ok (map Ok es) \<Longrightarrow> sorted_wrt (<) (map en_key es)"
    and scan_entries: "bk_scan_internal B s space rng = Ok (map Ok es) \<Longrightarrow>
      e \<in> set es \<longleftrightarrow> iview s (space_keyspace space) (en_key e) = Some (en_value e) \<and> in_key_range rng (en_key e)"

lemma guard_to_entry_map:
  assumes "map (guard_to_entry E operation stage) gs = map Ok es"
  shows "gs = map (\<lambda>e. Ok (en_key e, en_value e)) es"
  using assms
proof (induction gs arbitrary: es)
  case (Cons g gs)
  then obtain e es' where es: "es = e # es'" "guard_to_entry E operation stage g = Ok e"
    "map (guard_to_entry E operation stage) gs = map Ok es'" by (cases es) auto
  then have "g = Ok (en_key e, en_value e)"
    by (auto simp: guard_to_entry_def result_simps fjall_try_copy_bytes_def)
  then show ?case using Cons.IH es by simp
qed simp

context fjall_store
begin

lemma scan_laws:
  assumes "FjallBackend_scan_internal E F s space rng = Ok (map Ok es)"
  shows "sorted_wrt (<) (map en_key es)"
    "e \<in> set es \<longleftrightarrow> view (fb_database s) (space_keyspace space) (en_key e) = Some (en_value e) \<and> in_key_range rng (en_key e)"
proof -
  let ?lo = "case ir_start_inclusive rng of None \<Rightarrow> Unbounded | Some k \<Rightarrow> Included k"
  let ?hi = "case ir_end_exclusive rng of None \<Rightarrow> Unbounded | Some k \<Rightarrow> Excluded k"
  let ?kvs = "map (\<lambda>e. (en_key e, en_value e)) es"
  from assms have "fj_range F (fb_database s) (space_keyspace space) ?lo ?hi = map (\<lambda>e. Ok (en_key e, en_value e)) es"
    by (intro guard_to_entry_map) (simp add: FjallBackend_scan_internal_def)
  then have r: "fj_range F (fb_database s) (space_keyspace space) ?lo ?hi = map Ok ?kvs" by (simp add: comp_def)
  show "sorted_wrt (<) (map en_key es)" using range_sorted [OF r] by (simp add: comp_def)
  have "inj (\<lambda>e :: index_entry. (en_key e, en_value e))" by (rule injI) (simp add: index_entry.equality)
  then have "(en_key e, en_value e) \<in> set ?kvs \<longleftrightarrow> e \<in> set es"
    using inj_image_mem_iff [of "\<lambda>e :: index_entry. (en_key e, en_value e)" e "set es"] by simp
  then show "e \<in> set es \<longleftrightarrow> view (fb_database s) (space_keyspace space) (en_key e) = Some (en_value e)
      \<and> in_key_range rng (en_key e)"
    using range_entries [OF r, of "en_key e" "en_value e"]
    by (auto simp: in_key_range_def split: option.splits)
qed

end

sublocale fjall_store \<subseteq> rb: recovery_backend "fjall_backend_ops E F" "\<lambda>s. view (fb_database s)" for E
proof (unfold_locales, unfold fjall_backend_ops_def backend_ops.simps, goal_cases)
  case (1 b m s s')
  then show ?case by (rule backend_laws)
next
  case (2 b m s s' e)
  then show ?case by (rule backend_laws)
next
  case (3 b m s s' e)
  then show ?case by (rule backend_laws)
next
  case (4 s k v)
  then show ?case by (rule backend_laws)
next
  case (5 s space k v)
  then show ?case by (rule backend_laws)
next
  case (6 s space rng es)
  then show ?case by (rule scan_laws)
next
  case (7 s space rng es e)
  then show ?case by (rule scan_laws)
qed

section \<open>The entries of a transaction\<close>

definition tx_prefix :: "u64 \<Rightarrow> bytes" where
  "tx_prefix seq = TX_KEY_MAGIC @ u64_to_be_bytes seq"

definition in_tx :: "u64 \<Rightarrow> bytes \<Rightarrow> bool" where
  "in_tx seq k \<longleftrightarrow> tx_prefix seq \<le> k \<and> (\<forall>n. checked_add seq 1 = Some n \<longrightarrow> k < tx_prefix n)"

lemma tx_sequence_prefix_Ok: "tx_sequence_prefix E seq = Ok bs \<Longrightarrow> seq \<noteq> 0 \<and> bs = tx_prefix seq"
  by (auto simp: tx_sequence_prefix_def result_simps encode_tx_keys tx_meta_key_def tx_prefix_def
      try_copy_recovery_bytes_def slice_get_def)

lemma descriptor_range_Ok:
  assumes "descriptor_range E seq = Ok rng"
  shows "seq \<noteq> 0 \<and> in_key_range rng k = in_tx seq k"
  using assms tx_sequence_prefix_Ok
  by (auto simp: descriptor_range_def result_simps in_key_range_def in_tx_def split: option.splits)

lemma tx_prefix_order:
  "a < b \<Longrightarrow> tx_prefix a @ s < tx_prefix b"
  using append_less_same_length [of "tx_prefix a" "tx_prefix b" s "[]"]
  by (simp add: tx_prefix_def append_less_same_length u64_be_less)

lemma in_tx_own: "in_tx seq (tx_prefix seq @ s)"
proof -
  have "tx_prefix seq \<le> tx_prefix seq @ s"
    using append_less_same_length [of "tx_prefix seq" "tx_prefix seq" "[]" s] by (cases s) auto
  moreover have "tx_prefix seq @ s < tx_prefix n" if "checked_add seq 1 = Some n" for n
    using checked_add_unat [OF that] by (intro tx_prefix_order) (simp add: word_less_nat_alt)
  ultimately show ?thesis by (simp add: in_tx_def)
qed

lemma in_tx_keys: "in_tx seq (tx_meta_key seq)" "in_tx seq (tx_mutation_key seq k)"
  using in_tx_own [of seq "[0]"] in_tx_own [of seq "1 # u64_to_be_bytes k"]
  by (simp_all add: tx_meta_key_def tx_mutation_key_def tx_prefix_def)

lemma length_tx_keys [simp]: "length (tx_meta_key seq) = 11" "length (tx_mutation_key seq k) = 19"
  by (simp_all add: tx_meta_key_def tx_mutation_key_def)

definition entry_len :: "nat \<Rightarrow> index_entry \<Rightarrow> bool" where
  "entry_len n e \<longleftrightarrow> length (en_key e) = n"

lemma load_entries_Ok:
  assumes "load_entries E seq meta muts entries = Ok (meta', muts')"
  shows "\<exists>xs. entries = map Ok xs \<and> muts' = muts @ filter (entry_len 19) xs
    \<and> (case meta of
         Some m \<Rightarrow> meta' = Some m \<and> filter (entry_len 11) xs = []
       | None \<Rightarrow> meta' = None \<and> filter (entry_len 11) xs = [] \<or> (\<exists>m. meta' = Some m \<and> filter (entry_len 11) xs = [m]))"
  using assms
proof (induction entries arbitrary: meta muts)
  case Nil
  then show ?case by (auto split: option.splits)
next
  case (Cons entry entries)
  from Cons.prems obtain e where e: "entry = Ok e" by (auto simp: result_simps)
  show ?case
  proof (cases "entry_len 11 e")
    case True
    then have m: "meta = None" and r: "load_entries E seq (Some e) muts entries = Ok (meta', muts')"
      using Cons.prems e by (auto simp: result_simps entry_len_def split: if_splits)
    have "\<not> entry_len 19 e" using True by (simp add: entry_len_def)
    moreover obtain xs where "entries = map Ok xs" "muts' = muts @ filter (entry_len 19) xs"
      "meta' = Some e" "filter (entry_len 11) xs = []" using Cons.IH [OF r] by auto
    ultimately show ?thesis using m e True by (intro exI [of _ "e # xs"]) simp
  next
    case False
    then have l: "entry_len 19 e" and r: "load_entries E seq meta (muts @ [e]) entries = Ok (meta', muts')"
      using Cons.prems e by (auto simp: result_simps entry_len_def split: if_splits)
    obtain xs where xs: "entries = map Ok xs" "muts' = (muts @ [e]) @ filter (entry_len 19) xs"
      "case meta of Some m \<Rightarrow> meta' = Some m \<and> filter (entry_len 11) xs = []
       | None \<Rightarrow> meta' = None \<and> filter (entry_len 11) xs = [] \<or> (\<exists>m. meta' = Some m \<and> filter (entry_len 11) xs = [m])"
      using Cons.IH [OF r] by blast
    then show ?thesis using e False l by (intro exI [of _ "e # xs"]) (simp split: option.splits)
  qed
qed

section \<open>Links of the history\<close>

text \<open>
  The view after transaction \<open>seq\<close> was committed on top of another, as far as undoing it is
  concerned: its entries, and the states of its keys before and after.
\<close>

definition tx_stored :: "env \<Rightarrow> u64 \<Rightarrow> bytes \<Rightarrow> encoded_mutation list \<Rightarrow> transaction_descriptor \<Rightarrow> bool" where
  "tx_stored E seq mv es d \<longleftrightarrow> seq \<noteq> 0 \<and> decode_descriptor E (tx_meta_key seq) mv es = Ok d
     \<and> map em_key es = map (\<lambda>j. tx_mutation_key seq (word_of_nat j)) [0..<length es] \<and> length es \<le> 2 ^ 64"

definition tx_link :: "env \<Rightarrow> u64 \<Rightarrow> index_view \<Rightarrow> transaction_descriptor \<Rightarrow> index_view \<Rightarrow> bool" where
  "tx_link E seq V d V' \<longleftrightarrow> (\<exists>mv es. tx_stored E seq mv es d
       \<and> V' TransactionKeyspace = ((V TransactionKeyspace)(tx_meta_key seq \<mapsto> mv)) ++ map_of (map (\<lambda>m. (em_key m, em_value m)) es))
     \<and> (\<forall>k. in_tx seq k \<longrightarrow> V TransactionKeyspace k = None)
     \<and> distinct (map mu_user_key (td_mutations d))
     \<and> (\<forall>m \<in> set (td_mutations d). V UserKeyspace (mu_user_key m) = state_bytes (mu_before_state m)
          \<and> V' UserKeyspace (mu_user_key m) = state_bytes (mu_after_state m))
     \<and> (\<forall>k. k \<notin> mu_user_key ` set (td_mutations d) \<longrightarrow> V' UserKeyspace k = V UserKeyspace k)"

definition same_core :: "index_view \<Rightarrow> index_view \<Rightarrow> bool" where
  "same_core V V' \<longleftrightarrow> V UserKeyspace = V' UserKeyspace \<and> V TransactionKeyspace = V' TransactionKeyspace"

lemma tx_stored_sorted:
  assumes "tx_stored E seq mv es d"
  shows "sorted_wrt (<) (map em_key es)"
proof -
  have "sorted_wrt (<) (map (\<lambda>j. tx_mutation_key seq (word_of_nat j)) [0..<length es])"
    using assms by (auto simp: tx_stored_def sorted_wrt_iff_nth_less tx_key_order word_less_nat_alt unat_of_nat_small)
  then show ?thesis using assms by (simp add: tx_stored_def)
qed

lemma tx_stored_keys:
  assumes "tx_stored E seq mv es d" and "m \<in> set es"
  shows "\<exists>j. em_key m = tx_mutation_key seq j"
proof -
  have "em_key m \<in> set (map em_key es)" using assms(2) by simp
  also have "map em_key es = map (\<lambda>j. tx_mutation_key seq (word_of_nat j)) [0..<length es]"
    using assms(1) by (simp add: tx_stored_def)
  finally show ?thesis by auto
qed

lemma tx_entries:
  assumes "tx_stored E seq mv es d" and "\<forall>k. in_tx seq k \<longrightarrow> T k = None"
    and "T' = (T(tx_meta_key seq \<mapsto> mv)) ++ map_of (map (\<lambda>m. (em_key m, em_value m)) es)"
  shows "T' k = Some x \<and> in_tx seq k \<longleftrightarrow> k = tx_meta_key seq \<and> x = mv \<or> (\<exists>m \<in> set es. k = em_key m \<and> x = em_value m)"
proof -
  let ?m = "map_of (map (\<lambda>m. (em_key m, em_value m)) es)"
  have d: "distinct (map em_key es)" using tx_stored_sorted [OF assms(1)] by (simp add: strict_sorted_iff)
  then have mem: "?m k = Some x \<longleftrightarrow> (\<exists>m \<in> set es. k = em_key m \<and> x = em_value m)"
    using map_of_eq_Some_iff [of "map (\<lambda>m. (em_key m, em_value m)) es" k x] by (auto simp: comp_def)
  have dom: "?m k = None \<longleftrightarrow> (\<forall>m \<in> set es. k \<noteq> em_key m)" by (auto simp: map_of_eq_None_iff image_image)
  have own: "in_tx seq (em_key m)" "em_key m \<noteq> tx_meta_key seq" if "m \<in> set es" for m
    using tx_stored_keys [OF assms(1) that] in_tx_keys length_tx_keys by (auto dest: arg_cong [of _ _ length])
  show ?thesis
  proof (cases "?m k")
    case None
    then show ?thesis using assms(2,3) mem dom in_tx_keys(1) by (auto simp: map_add_def)
  next
    case (Some y)
    then show ?thesis using assms(3) mem own dom by (auto simp: map_add_def)
  qed
qed

lemma tx_stored_meta: "tx_stored E seq mv es d \<Longrightarrow> tx_meta_key seq \<notin> em_key ` set es"
  using tx_stored_keys [of E seq mv es d] by (metis imageE tx_keys_differ(1))

context recovery_backend
begin

lemma load_descriptor_spec:
  assumes "load_descriptor E B s expected = Ok ld" and "tm_commit_seq (td_meta expected) = seq"
    and "tx_stored E seq mv es d" and "\<forall>k. in_tx seq k \<longrightarrow> T k = None"
    and "iview s TransactionKeyspace = (T(tx_meta_key seq \<mapsto> mv)) ++ map_of (map (\<lambda>m. (em_key m, em_value m)) es)"
  shows "ld_descriptor ld = d \<and> en_key (ld_meta ld) = tx_meta_key seq \<and> map entry_ref (ld_mutations ld) = es"
proof -
  from assms(1,2) obtain rng entries meta muts where r: "descriptor_range E seq = Ok rng"
    and sc: "bk_scan_internal B s TransactionSpace rng = Ok entries"
    and le: "load_entries E seq None [] entries = Ok (Some meta, muts)"
    and dec: "decode_descriptor E (en_key meta) (en_value meta) (map entry_ref muts) = Ok (ld_descriptor ld)"
    and ld: "ld_meta ld = meta" "ld_mutations ld = muts"
    by (auto simp: load_descriptor_def Let_def result_simps split: if_splits)
  obtain xs where xs: "entries = map Ok xs" "muts = filter (entry_len 19) xs" "filter (entry_len 11) xs = [meta]"
    using load_entries_Ok [OF le] by auto
  have mem: "e \<in> set xs \<longleftrightarrow> en_key e = tx_meta_key seq \<and> en_value e = mv
      \<or> (\<exists>m \<in> set es. en_key e = em_key m \<and> en_value e = em_value m)" for e
    using scan_entries [OF sc [unfolded xs(1)], of e] descriptor_range_Ok [OF r, of "en_key e"]
      tx_entries [OF assms(3,4,5), of "en_key e" "en_value e"] by simp
  have len: "length (em_key m) = 19" if "m \<in> set es" for m
    using tx_stored_keys [OF assms(3) that] by auto
  have m: "en_key meta = tx_meta_key seq" "en_value meta = mv"
  proof -
    have "meta \<in> set (filter (entry_len 11) xs)" using xs(3) by simp
    then show "en_key meta = tx_meta_key seq" "en_value meta = mv" using mem len by (auto simp: entry_len_def)
  qed
  have "map (\<lambda>e. (en_key e, en_value e)) muts = map (\<lambda>m. (em_key m, em_value m)) es"
  proof (rule sorted_entries_unique)
    show "sorted_wrt (<) (map fst (map (\<lambda>e. (en_key e, en_value e)) muts))"
      using sorted_wrt_filter [OF scan_sorted [OF sc [unfolded xs(1)]], of "\<lambda>k. length k = 19"] xs(2)
      by (simp add: filter_map comp_def entry_len_def [abs_def])
    show "sorted_wrt (<) (map fst (map (\<lambda>m. (em_key m, em_value m)) es))"
      using tx_stored_sorted [OF assms(3)] by (simp add: comp_def)
    have "e \<in> set muts \<longleftrightarrow> (\<exists>m \<in> set es. en_key e = em_key m \<and> en_value e = em_value m)" for e
      using mem [of e] len xs(2) tx_stored_meta [OF assms(3)] by (auto simp: entry_len_def) (metis imageI)
    then show "set (map (\<lambda>e. (en_key e, en_value e)) muts) = set (map (\<lambda>m. (em_key m, em_value m)) es)"
      by (auto simp: image_iff) (metis index_entry.select_convs)
  qed
  then have "map entry_ref muts = map (\<lambda>(k, x). \<lparr>em_key = k, em_value = x\<rparr>) (map (\<lambda>m. (em_key m, em_value m)) es)"
    by (metis (no_types, lifting) comp_def entry_ref_def map_eq_conv map_map old.prod.case)
  also have "\<dots> = es" by (simp add: comp_def) (rule map_idI, simp)
  finally have ref: "map entry_ref muts = es" .
  then have "ld_descriptor ld = d" using dec m assms(3) by (simp add: tx_stored_def)
  then show ?thesis using m ref ld by simp
qed

end

fun undo_op :: "tx_mutation \<Rightarrow> index_mutation" where
  "undo_op m = (case mu_before_state m of
     Absent \<Rightarrow> DeleteUser (mu_user_key m) | Present p \<Rightarrow> PutUser (mu_user_key m) (pointer_bytes p))"

declare undo_op.simps [simp del]

lemma undo_op_write:
  "write_target (keyspace_write_of (undo_op m)) = (UserKeyspace, mu_user_key m)"
  "write_result (keyspace_write_of (undo_op m)) = state_bytes (mu_before_state m)"
  by (simp_all add: undo_op.simps split: value_state.splits)

lemma push_recovery_Ok: "push_recovery E b op = Ok b' \<Longrightarrow> ib_operations b' = ib_operations b @ [op]"
  by (auto simp: push_recovery_def IndexAtomicBatch_try_push_def result_simps split: if_splits)

lemma undo_mutation_Ok: "undo_mutation E m = Ok op \<Longrightarrow> op = undo_op m"
  by (auto simp: undo_mutation_def result_simps try_copy_recovery_bytes_def undo_op.simps ValuePointer_encode_iff
      split: value_state.splits)

lemma push_undo_mutations_Ok:
  "push_undo_mutations E b ms = Ok b' \<Longrightarrow> ib_operations b' = ib_operations b @ map undo_op ms"
  by (induction ms arbitrary: b) (auto simp: result_simps dest!: push_recovery_Ok undo_mutation_Ok)

lemma push_deleted_entries_Ok:
  "push_deleted_entries E b es = Ok b' \<Longrightarrow>
   ib_operations b' = ib_operations b @ map (\<lambda>e. DeleteInternal TransactionSpace (en_key e)) es"
  by (induction es arbitrary: b) (auto simp: result_simps dest!: push_recovery_Ok)

lemma push_system_Ok:
  "push_system E b k v = Ok b' \<Longrightarrow> ib_operations b' = ib_operations b @ [PutInternal SystemSpace k v]"
  by (auto simp: push_system_def result_simps try_copy_recovery_bytes_def dest!: push_recovery_Ok)

lemma push_recovery_state_Ok:
  "push_recovery_state E b st = Ok b' \<Longrightarrow>
   \<exists>x. RecoveryState_encode E st = Ok x \<and> ib_operations b' = ib_operations b @ [PutInternal SystemSpace RECOVERY_STATE_KEY x]"
  by (auto simp: push_recovery_state_def result_simps try_copy_recovery_bytes_def dest!: push_recovery_Ok)

lemma recovery_batch_with_capacity_Ok: "recovery_batch_with_capacity E n = Ok b \<Longrightarrow> ib_operations b = []"
  by (auto simp: recovery_batch_with_capacity_def IndexAtomicBatch_try_with_capacity_def result_simps split: if_splits)

lemmas push_Oks = push_recovery_Ok push_undo_mutations_Ok push_deleted_entries_Ok push_system_Ok push_recovery_state_Ok
  recovery_batch_with_capacity_Ok

lemma build_undo_batch_Ok:
  assumes "build_undo_batch E ld st = Ok b"
  shows "\<exists>x. RecoveryState_encode E st = Ok x \<and> ib_operations b = map undo_op (td_mutations (ld_descriptor ld))
    @ map (\<lambda>e. DeleteInternal TransactionSpace (en_key e)) (ld_mutations ld)
    @ [DeleteInternal TransactionSpace (en_key (ld_meta ld)),
       PutInternal SystemSpace HEAD_SEQ_KEY (encode_head_seq (rs_next_undo_seq st)),
       PutInternal SystemSpace RECOVERY_STATE_KEY x]"
  using assms
  by (auto simp: build_undo_batch_def Let_def result_simps encode_head_seq_def dest!: push_Oks split: if_splits)


declare undo_op_write [simp]

definition undo_operations :: "tx_mutation list \<Rightarrow> bytes list \<Rightarrow> u64 \<Rightarrow> bytes \<Rightarrow> index_mutation list" where
  "undo_operations ms keys head x = map undo_op ms @ map (DeleteInternal TransactionSpace) keys
     @ [PutInternal SystemSpace HEAD_SEQ_KEY (encode_head_seq head), PutInternal SystemSpace RECOVERY_STATE_KEY x]"

lemma recovery_key_differs: "RECOVERY_STATE_KEY \<noteq> HEAD_SEQ_KEY" "HEAD_SEQ_KEY \<noteq> RECOVERY_STATE_KEY"
  by (simp_all add: RECOVERY_STATE_KEY_def HEAD_SEQ_KEY_def ascii_def)

lemma undo_operations_effect:
  assumes "distinct (map mu_user_key ms)" "distinct keys"
    and "ws = map keyspace_write_of (undo_operations ms keys head x)"
  shows "distinct_targets ws"
    and "m \<in> set ms \<Longrightarrow> apply_writes ws W UserKeyspace (mu_user_key m) = state_bytes (mu_before_state m)"
    and "k \<notin> mu_user_key ` set ms \<Longrightarrow> apply_writes ws W UserKeyspace k = W UserKeyspace k"
    and "apply_writes ws W TransactionKeyspace k = (if k \<in> set keys then None else W TransactionKeyspace k)"
    and "apply_writes ws W SystemKeyspace =
      (W SystemKeyspace)(HEAD_SEQ_KEY \<mapsto> encode_head_seq head, RECOVERY_STATE_KEY \<mapsto> x)"
proof -
  show d: "distinct_targets ws"
    using assms recovery_key_differs
    by (auto simp: distinct_targets_def undo_operations_def comp_def distinct_map inj_on_def)
  have t: "apply_writes ws W ks k = write_result w" if "w \<in> set ws" "write_target w = (ks, k)" for w ks k
    by (rule apply_writes_same [OF d that])
  have n: "apply_writes ws W ks k = W ks k" if "(ks, k) \<notin> write_target ` set ws" for ks k
    by (rule apply_writes_other [OF that])
  show "apply_writes ws W UserKeyspace (mu_user_key m) = state_bytes (mu_before_state m)" if "m \<in> set ms"
    using t [of "keyspace_write_of (undo_op m)"] that by (simp add: assms(3) undo_operations_def)
  show "apply_writes ws W UserKeyspace k = W UserKeyspace k" if "k \<notin> mu_user_key ` set ms"
    by (rule n) (use that in \<open>auto simp: assms(3) undo_operations_def\<close>)
  show "apply_writes ws W TransactionKeyspace k = (if k \<in> set keys then None else W TransactionKeyspace k)"
  proof (cases "k \<in> set keys")
    case True
    then show ?thesis
      using t [of "keyspace_write_of (DeleteInternal TransactionSpace k)" TransactionKeyspace k]
      by (simp add: assms(3) undo_operations_def)
  next
    case False
    have "apply_writes ws W TransactionKeyspace k = W TransactionKeyspace k"
      by (rule n) (use False in \<open>auto simp: assms(3) undo_operations_def\<close>)
    then show ?thesis using False by simp
  qed
  show "apply_writes ws W SystemKeyspace =
      (W SystemKeyspace)(HEAD_SEQ_KEY \<mapsto> encode_head_seq head, RECOVERY_STATE_KEY \<mapsto> x)"
  proof
    fix k
    have "apply_writes ws W SystemKeyspace k = W SystemKeyspace k" if "k \<noteq> HEAD_SEQ_KEY" "k \<noteq> RECOVERY_STATE_KEY"
      by (rule n) (use that in \<open>auto simp: assms(3) undo_operations_def\<close>)
    then show "apply_writes ws W SystemKeyspace k =
        ((W SystemKeyspace)(HEAD_SEQ_KEY \<mapsto> encode_head_seq head, RECOVERY_STATE_KEY \<mapsto> x)) k"
      using t [of "KsInsert SystemKeyspace HEAD_SEQ_KEY (encode_head_seq head)"]
        t [of "KsInsert SystemKeyspace RECOVERY_STATE_KEY x"]
      by (simp add: assms(3) undo_operations_def)
  qed
qed

text \<open>The batch for one transaction takes the view back across its link.\<close>

lemma undo_batch_effect:
  assumes "build_undo_batch E ld st = Ok b" and "ld_descriptor ld = d"
    and "en_key (ld_meta ld) = tx_meta_key seq" and "map entry_ref (ld_mutations ld) = es"
    and "tx_stored E seq mv es d"
    and "V' TransactionKeyspace = ((V TransactionKeyspace)(tx_meta_key seq \<mapsto> mv)) ++ map_of (map (\<lambda>m. (em_key m, em_value m)) es)"
    and "tx_link E seq V d V'" and "same_core W V'"
  shows "distinct_targets (batch_writes b)" and "same_core (apply_writes (batch_writes b) W) V"
    and "\<exists>x. RecoveryState_encode E st = Ok x \<and> apply_writes (batch_writes b) W SystemKeyspace =
      (W SystemKeyspace)(HEAD_SEQ_KEY \<mapsto> encode_head_seq (rs_next_undo_seq st), RECOVERY_STATE_KEY \<mapsto> x)"
proof -
  note L = assms(7) [unfolded tx_link_def]
  let ?keys = "map em_key es @ [tx_meta_key seq]"
  obtain x where x: "RecoveryState_encode E st = Ok x"
    "ib_operations b = map undo_op (td_mutations d) @ map (\<lambda>e. DeleteInternal TransactionSpace (en_key e)) (ld_mutations ld)
    @ [DeleteInternal TransactionSpace (tx_meta_key seq),
       PutInternal SystemSpace HEAD_SEQ_KEY (encode_head_seq (rs_next_undo_seq st)),
       PutInternal SystemSpace RECOVERY_STATE_KEY x]"
    using build_undo_batch_Ok [OF assms(1)] assms(2,3) by auto
  have "map en_key (ld_mutations ld) = map em_key es"
    using assms(4) by (auto simp: entry_ref_def)
  then have "map (\<lambda>e. DeleteInternal TransactionSpace (en_key e)) (ld_mutations ld)
      = map (DeleteInternal TransactionSpace) (map em_key es)"
    by (metis (no_types, lifting) comp_def map_map map_eq_conv)
  then have b: "batch_writes b = map keyspace_write_of
      (undo_operations (td_mutations d) ?keys (rs_next_undo_seq st) x)"
    by (simp add: batch_writes_def x undo_operations_def)
  have dk: "distinct ?keys"
    using tx_stored_sorted [OF assms(5)] tx_stored_meta [OF assms(5)] by (simp add: strict_sorted_iff)
  have du: "distinct (map mu_user_key (td_mutations d))" using L by blast
  note eff = undo_operations_effect [OF du dk b]
  show "distinct_targets (batch_writes b)" by (rule eff)
  show "\<exists>x. RecoveryState_encode E st = Ok x \<and> apply_writes (batch_writes b) W SystemKeyspace =
      (W SystemKeyspace)(HEAD_SEQ_KEY \<mapsto> encode_head_seq (rs_next_undo_seq st), RECOVERY_STATE_KEY \<mapsto> x)"
    using x(1) eff(5) by blast
  have u: "apply_writes (batch_writes b) W UserKeyspace k = V UserKeyspace k" for k
    using eff(2,3) [of _ W] L assms(8) by (cases "k \<in> mu_user_key ` set (td_mutations d)") (auto simp: same_core_def)
  have t: "apply_writes (batch_writes b) W TransactionKeyspace k = V TransactionKeyspace k" for k
  proof (cases "k \<in> set ?keys")
    case True
    then have "in_tx seq k" using in_tx_keys tx_stored_keys [OF assms(5)] by auto metis
    then show ?thesis using True eff(4) [of W k] L by simp
  next
    case False
    then have "V' TransactionKeyspace k = V TransactionKeyspace k"
      unfolding assms(6) using map_of_eq_None_iff [of "map (\<lambda>m. (em_key m, em_value m)) es" k]
      by (simp add: map_add_def image_image)
    then show ?thesis using False eff(4) [of W k] assms(8) by (simp add: same_core_def)
  qed
  show "same_core (apply_writes (batch_writes b) W) V" using u t by (auto simp: same_core_def)
qed

context recovery_backend
begin

lemma undo_step_spec:
  assumes "undo_step E B plan st s = (s', r)" and "seq = rs_next_undo_seq st"
    and "\<And>d. expected_descriptor plan seq = Ok d \<Longrightarrow> tm_commit_seq (td_meta d) = seq"
    and "tx_link E seq V d V'" and "same_core (iview s) V'"
  shows "iview s' = iview s \<and> \<not> is_ok r
    \<or> same_core (iview s') V \<and> (\<exists>n x. checked_sub seq 1 = Some n
        \<and> (\<forall>st'. r = Ok st' \<longrightarrow> st' = st\<lparr>rs_next_undo_seq := n\<rparr>)
        \<and> RecoveryState_encode E (st\<lparr>rs_next_undo_seq := n\<rparr>) = Ok x
        \<and> iview s' SystemKeyspace = (iview s SystemKeyspace)(HEAD_SEQ_KEY \<mapsto> encode_head_seq n, RECOVERY_STATE_KEY \<mapsto> x))"
proof -
  let ?p = "and_then (expected_descriptor plan (rs_next_undo_seq st)) (\<lambda>expected.
        and_then (load_descriptor E B s expected) (\<lambda>loaded.
        and_then (validate_current_after_states B s (ld_descriptor loaded)) (\<lambda>_.
        and_then (ok_or (checked_sub (rs_next_undo_seq st) 1) recovery_corruption) (\<lambda>next_undo_seq.
        let next_state = st\<lparr>rs_next_undo_seq := next_undo_seq\<rparr> in
        and_then (build_undo_batch E loaded next_state) (\<lambda>batch. Ok (batch, next_state))))))"
  show ?thesis
  proof (cases ?p)
    case (Err e)
    then show ?thesis using assms(1) unfolding undo_step_def Let_def by auto
  next
    case (Ok bn)
    then obtain d0 ld n b where p: "expected_descriptor plan seq = Ok d0" "load_descriptor E B s d0 = Ok ld"
      "checked_sub seq 1 = Some n" "build_undo_batch E ld (st\<lparr>rs_next_undo_seq := n\<rparr>) = Ok b"
      "bn = (b, st\<lparr>rs_next_undo_seq := n\<rparr>)"
      by (auto simp: result_simps Let_def assms(2))
    obtain mv es where t: "tx_stored E seq mv es d" "V' TransactionKeyspace =
        ((V TransactionKeyspace)(tx_meta_key seq \<mapsto> mv)) ++ map_of (map (\<lambda>m. (em_key m, em_value m)) es)"
      "\<forall>k. in_tx seq k \<longrightarrow> V TransactionKeyspace k = None"
      using assms(4) by (auto simp: tx_link_def)
    have ld: "ld_descriptor ld = d" "en_key (ld_meta ld) = tx_meta_key seq" "map entry_ref (ld_mutations ld) = es"
      using load_descriptor_spec [OF p(2) assms(3) [OF p(1)] t(1,3)] t(2) assms(5) by (simp_all add: same_core_def)
    note U = undo_batch_effect [OF p(4) ld t(1,2) assms(4,5)]
    obtain r0 where c: "bk_commit_atomic B b SyncAll s = (s', r0)"
      and r: "r = (case r0 of Ok _ \<Rightarrow> Ok (st\<lparr>rs_next_undo_seq := n\<rparr>) | Err e \<Rightarrow> Err (recovery_commit_error e))"
      using assms(1) Ok p(5) unfolding undo_step_def Let_def
      by (auto simp: act_bind_def act_map_err_def act_return_def commit_recovery_batch_def
          split: prod.splits result.splits)
    have fin: "same_core (iview s') V \<and> (\<exists>n x. checked_sub seq 1 = Some n
        \<and> (\<forall>st'. r = Ok st' \<longrightarrow> st' = st\<lparr>rs_next_undo_seq := n\<rparr>)
        \<and> RecoveryState_encode E (st\<lparr>rs_next_undo_seq := n\<rparr>) = Ok x
        \<and> iview s' SystemKeyspace = (iview s SystemKeyspace)(HEAD_SEQ_KEY \<mapsto> encode_head_seq n, RECOVERY_STATE_KEY \<mapsto> x))"
      if "iview s' = apply_writes (batch_writes b) (iview s)"
      using U(2,3) that p(3) r by (auto split: result.splits)
    show ?thesis
    proof (cases r0)
      case (Ok u)
      then show ?thesis using commit_applies [OF U(1)] c fin by simp
    next
      case (Err e)
      then show ?thesis using commit_outcomes [OF U(1) c] fin r by auto
    qed
  qed
qed

end

section \<open>Undoing a run of transactions\<close>

text \<open>What the system keyspace says when the transactions above \<open>i\<close> have been undone.\<close>

definition undone_to :: "env \<Rightarrow> recovery_state \<Rightarrow> index_view \<Rightarrow> index_view \<Rightarrow> u64 \<Rightarrow> bool" where
  "undone_to E st V V' i \<longleftrightarrow> i = rs_next_undo_seq st \<and> V' SystemKeyspace = V SystemKeyspace
     \<or> (\<exists>x. RecoveryState_encode E (st\<lparr>rs_next_undo_seq := i\<rparr>) = Ok x \<and> V' SystemKeyspace =
          (V SystemKeyspace)(HEAD_SEQ_KEY \<mapsto> encode_head_seq i, RECOVERY_STATE_KEY \<mapsto> x))"

lemma undone_to_trans:
  assumes "undone_to E st V W n" and "undone_to E (st\<lparr>rs_next_undo_seq := n\<rparr>) W W' i" 
  shows "undone_to E st V W' i"
  using assms recovery_key_differs by (auto simp: undone_to_def fun_upd_twist)

context recovery_backend
begin

lemma undo_transactions_spec:
  assumes "undo_transactions E B plan st s = (s', r)"
    and "\<And>seq d. expected_descriptor plan seq = Ok d \<Longrightarrow> tm_commit_seq (td_meta d) = seq"
    and "\<And>i. unat (rs_target_seq st) < i \<Longrightarrow> i \<le> unat (rs_next_undo_seq st) \<Longrightarrow>
      \<exists>d. tx_link E (word_of_nat i) (H (i - 1)) d (H i)"
    and "same_core (iview s) (H (unat (rs_next_undo_seq st)))"
    and "rs_target_seq st \<le> rs_next_undo_seq st"
  shows "\<exists>i. rs_target_seq st \<le> i \<and> i \<le> rs_next_undo_seq st \<and> same_core (iview s') (H (unat i))
    \<and> undone_to E st (iview s) (iview s') i
    \<and> (\<forall>st'. r = Ok st' \<longrightarrow> i = rs_target_seq st \<and> st' = st\<lparr>rs_next_undo_seq := i\<rparr>)"
  using assms
proof (induction "unat (rs_next_undo_seq st)" arbitrary: st s rule: less_induct)
  case (less st s)
  show ?case
  proof (cases "rs_next_undo_seq st > rs_target_seq st")
    case False
    then have "rs_next_undo_seq st = rs_target_seq st" using less.prems(5) by simp
    moreover have "s' = s" "r = Ok st" using less.prems(1) False by (simp_all add: undo_transactions.simps)
    ultimately show ?thesis using less.prems(4) by (intro exI [of _ "rs_target_seq st"]) (simp add: undone_to_def)
  next
    case True
    let ?seq = "rs_next_undo_seq st"
    obtain s1 r1 where step: "undo_step E B plan st s = (s1, r1)" by fastforce
    obtain d where "tx_link E (word_of_nat (unat ?seq)) (H (unat ?seq - 1)) d (H (unat ?seq))"
      using less.prems(3) [of "unat ?seq"] True by (auto simp: word_less_nat_alt)
    then have link: "tx_link E ?seq (H (unat ?seq - 1)) d (H (unat ?seq))" by simp
    note spec = undo_step_spec [OF step refl _ link less.prems(4), OF less.prems(2)]
    show ?thesis
    proof (cases r1)
      case (Err e)
      then have "s' = s1" "r = Err e" using less.prems(1) True step by (simp_all add: undo_transactions.simps)
      moreover have "(\<exists>n. checked_sub ?seq 1 = Some n \<and> same_core (iview s1) (H (unat n))
          \<and> undone_to E st (iview s) (iview s1) n) \<or> iview s1 = iview s"
        using spec checked_sub_unat [of ?seq 1] by (auto simp: undone_to_def)
      ultimately show ?thesis
      proof (elim disjE exE conjE)
        fix n
        assume "checked_sub ?seq 1 = Some n" "same_core (iview s1) (H (unat n))" "undone_to E st (iview s) (iview s1) n"
        then show ?thesis
          using \<open>s' = s1\<close> \<open>r = Err e\<close> True checked_sub_unat [of ?seq 1 n]
          by (intro exI [of _ n]) (auto simp: word_le_nat_alt word_less_nat_alt)
      next
        assume "iview s1 = iview s"
        then show ?thesis
          using \<open>s' = s1\<close> \<open>r = Err e\<close> less.prems(4,5) by (intro exI [of _ ?seq]) (simp add: undone_to_def)
      qed
    next
      case (Ok st1)
      have rest: "undo_transactions E B plan st1 s1 = (s', r)"
        using less.prems(1) True step Ok by (simp add: undo_transactions.simps)
      from spec Ok obtain n where a: "same_core (iview s1) (H (unat ?seq - 1))" "checked_sub ?seq 1 = Some n"
          "st1 = st\<lparr>rs_next_undo_seq := n\<rparr>" "undone_to E st (iview s) (iview s1) n"
        by (auto simp: undone_to_def)
      have n: "unat n = unat ?seq - 1" "unat n < unat ?seq" using checked_sub_unat [OF a(2)] by auto
      have "\<exists>i. rs_target_seq st1 \<le> i \<and> i \<le> rs_next_undo_seq st1 \<and> same_core (iview s') (H (unat i))
        \<and> undone_to E st1 (iview s1) (iview s') i
        \<and> (\<forall>st'. r = Ok st' \<longrightarrow> i = rs_target_seq st1 \<and> st' = st1\<lparr>rs_next_undo_seq := i\<rparr>)"
      proof (rule less.hyps [OF _ rest less.prems(2)])
        show "rs_target_seq st1 \<le> rs_next_undo_seq st1"
          using True n a(3) by (simp add: word_le_nat_alt word_less_nat_alt)
      qed (use a n less.prems(3) in auto)
      then obtain i where i: "rs_target_seq st1 \<le> i" "i \<le> rs_next_undo_seq st1" "same_core (iview s') (H (unat i))"
        "undone_to E st1 (iview s1) (iview s') i"
        "\<forall>st'. r = Ok st' \<longrightarrow> i = rs_target_seq st1 \<and> st' = st1\<lparr>rs_next_undo_seq := i\<rparr>" by blast
      show ?thesis
        using i(1,2,3,5) a(3) n(2) undone_to_trans [OF a(4), of "iview s'" i] i(4)
        by (intro exI [of _ i]) (auto simp: word_le_nat_alt)
    qed
  qed
qed

end


section \<open>The links commits make\<close>

text \<open>A commit on top of a head: a validated write, prepared against the view and applied to it.\<close>

definition committed :: "env \<Rightarrow> commit_seq \<Rightarrow> index_view \<Rightarrow> index_view \<Rightarrow> bool" where
  "committed E head V V' \<longleftrightarrow> (\<exists>w ctx get_user random pc. write_ok w
     \<and> prepare_commit E w head ctx get_user random = Ok pc
     \<and> (\<forall>k v. get_user k = Ok v \<longrightarrow> v = V UserKeyspace k)
     \<and> V' = apply_writes (batch_writes (pc_index_batch pc)) V)"

lemma in_tx_disjoint: "in_tx a k \<Longrightarrow> in_tx b k \<Longrightarrow> a = b"
proof (rule ccontr)
  assume k: "in_tx a k" "in_tx b k" "a \<noteq> b"
  have no: False if "in_tx x k" "in_tx y k" "x < y" for x y
  proof -
    have "checked_add x 1 = Some (x + 1)" "x + 1 \<le> y"
      using that(3) unat_less_2p [of y]
      by (auto simp: checked_add_Some word_less_nat_alt word_le_nat_alt unat_word_ariths)
    then have "k < tx_prefix (x + 1)" "tx_prefix (x + 1) \<le> tx_prefix y"
      using that(1) tx_prefix_order [of "x + 1" y "[]"] by (auto simp: in_tx_def order_le_less)
    then show False using that(2) by (auto simp: in_tx_def)
  qed
  show False using no [OF k(1,2)] no [OF k(2,1)] k(3) by (meson linorder_less_linear)
qed

lemma committed_link:
  assumes "allocates E" and "committed E head V V'" and "\<forall>k. in_tx (head + 1) k \<longrightarrow> V TransactionKeyspace k = None"
  shows "\<exists>d. tx_link E (head + 1) V d V'"
    and "head + 1 \<noteq> 0" and "\<not> in_tx (head + 1) k \<Longrightarrow> V' TransactionKeyspace k = V TransactionKeyspace k"
proof -
  obtain w ctx get_user random pc where w: "write_ok w" "prepare_commit E w head ctx get_user random = Ok pc"
    "\<forall>k v. get_user k = Ok v \<longrightarrow> v = V UserKeyspace k" "V' = apply_writes (batch_writes (pc_index_batch pc)) V"
    using assms(2) by (auto simp: committed_def)
  obtain befores plans ed where p: "prepared_by E w head get_user pc befores plans ed"
    using prepare_commit_Ok [OF w(2)] by blast
  note eff = prepared_effect [where V = V, OF w(1) p w(3,4)]
  let ?d = "commit_descriptor (vw_transaction_kind w) (head + 1) (pc_tx_uuid pc) head (pc_envelope pc)
      (word_of_nat (length (write_ops w))) (word_of_nat (length plans)) (map plan_change plans)"
  have enc: "encode_descriptor E ?d = Ok ed"
    and bi: "build_index_batch E plans ed (head + 1) (vw_public_operation w) = Ok (pc_index_batch pc)"
    using p by (simp_all add: prepared_by_def)
  obtain d where dec: "decode_descriptor E (ed_meta_key ed) (ed_meta_value ed) (ed_mutations ed) = Ok d"
    and d: "td_mutations d = map plan_change plans"
    using descriptor_dec_enc [OF assms(1) enc] by (auto simp: commit_descriptor_def)
  have mk: "head + 1 \<noteq> 0" "ed_meta_key ed = tx_meta_key (head + 1)"
    and em: "encode_mutations E (head + 1) {} 0 (map plan_change plans) = Ok (ed_mutations ed)"
    using enc [unfolded encode_descriptor_Ok [OF assms(1)]] by (simp_all add: commit_descriptor_def encode_tx_keys)
  have st: "tx_stored E (head + 1) (ed_meta_value ed) (ed_mutations ed) d"
    using mutation_keys [OF em] encode_mutations_len [OF em] dec mk by (simp add: tx_stored_def)
  have dk: "distinct (map kp_user_key plans)" using eff(9) w(1) by (simp add: write_ok_def)
  have V': "V' = apply_writes (map keyspace_write_of (commit_mutations plans ed (head + 1))) V"
    by (simp add: w(4) batch_writes_def build_index_batch_Ok(1) [OF bi])
  note ce = commit_mutations_effect [OF dk eff(10) V']
  let ?m = "map_of (map (\<lambda>m. (em_key m, em_value m)) (ed_mutations ed))"
  have "V' TransactionKeyspace k = (((V TransactionKeyspace)(tx_meta_key (head + 1) \<mapsto> ed_meta_value ed)) ++ ?m) k" for k
  proof (cases "?m k")
    case None
    then have "k \<notin> em_key ` set (ed_mutations ed)" by (simp add: map_of_eq_None_iff image_image)
    then show ?thesis using ce(3) ce(5) [of k] None mk(2) by (auto simp: map_add_def)
  next
    case (Some x)
    then obtain m where "m \<in> set (ed_mutations ed)" "k = em_key m" "x = em_value m" by (auto dest!: map_of_SomeD)
    then show ?thesis using ce(4) [of m] Some by (simp add: map_add_def)
  qed
  then have T: "V' TransactionKeyspace = ((V TransactionKeyspace)(tx_meta_key (head + 1) \<mapsto> ed_meta_value ed)) ++ ?m" ..
  have u: "\<forall>m \<in> set (td_mutations d). V UserKeyspace (mu_user_key m) = state_bytes (mu_before_state m)
          \<and> V' UserKeyspace (mu_user_key m) = state_bytes (mu_after_state m)"
    "\<forall>k. k \<notin> mu_user_key ` set (td_mutations d) \<longrightarrow> V' UserKeyspace k = V UserKeyspace k"
    "distinct (map mu_user_key (td_mutations d))"
    using eff(4) ce(2) dk by (simp_all add: d image_image comp_def)
  show "\<exists>d. tx_link E (head + 1) V d V'"
    unfolding tx_link_def using st T assms(3) u by blast
  show "head + 1 \<noteq> 0" by (rule mk)
  show "V' TransactionKeyspace k = V TransactionKeyspace k" if "\<not> in_tx (head + 1) k"
    using ce(5) [of k] that in_tx_keys tx_stored_keys [OF st] mk(2) by (metis (no_types, lifting) imageE list.set(2) insertE set_map)
qed

lemma history_links:
  assumes "allocates E" and "\<forall>i. t \<le> i \<and> i < n \<longrightarrow> committed E (word_of_nat i) (H i) (H (Suc i))"
    and "n < 2 ^ 64" and "\<forall>seq k. t < unat seq \<and> in_tx seq k \<longrightarrow> H t TransactionKeyspace k = None"
    and "t \<le> i" and "i \<le> n"
  shows "\<forall>seq k. i < unat seq \<and> in_tx seq k \<longrightarrow> H i TransactionKeyspace k = None"
    and "t < i \<Longrightarrow> \<exists>d. tx_link E (word_of_nat i) (H (i - 1)) d (H i)"
proof -
  have "(\<forall>seq k. i < unat seq \<and> in_tx seq k \<longrightarrow> H i TransactionKeyspace k = None)
      \<and> (t < i \<longrightarrow> (\<exists>d. tx_link E (word_of_nat i) (H (i - 1)) d (H i)))"
    using assms(5,6)
  proof (induction i rule: dec_induct)
    case base
    then show ?case using assms(4) by simp
  next
    case (step i)
    let ?s = "word_of_nat i + 1 :: u64"
    have s: "?s = word_of_nat (Suc i)" by (simp add: add.commute)
    have s': "unat ?s = Suc i" unfolding s using step.prems assms(3) by (simp add: unat_of_nat_small del: of_nat_Suc)
    have c: "committed E (word_of_nat i) (H i) (H (Suc i))" using assms(2) step by simp
    have IH: "\<forall>seq k. i < unat seq \<and> in_tx seq k \<longrightarrow> H i TransactionKeyspace k = None"
      using step by (meson Suc_leD)
    then have "\<forall>k. in_tx ?s k \<longrightarrow> H i TransactionKeyspace k = None" using s' by (metis lessI)
    note L = committed_link [OF assms(1) c this]
    have "H (Suc i) TransactionKeyspace k = None" if "Suc i < unat seq" "in_tx seq k" for seq k
    proof -
      have "seq \<noteq> ?s" using that(1) s' by auto
      then have "\<not> in_tx ?s k" using in_tx_disjoint that(2) by blast
      then show ?thesis using L(3) IH that by (metis Suc_lessD)
    qed
    then show ?case using L(1) unfolding s by (metis diff_Suc_1)
  qed
  then show "\<forall>seq k. i < unat seq \<and> in_tx seq k \<longrightarrow> H i TransactionKeyspace k = None"
    "t < i \<Longrightarrow> \<exists>d. tx_link E (word_of_nat i) (H (i - 1)) d (H i)" by blast+
qed


context fjall_store
begin

lemma undo_returns_to_history:
  assumes "allocates E" and "\<forall>i. t \<le> i \<and> i < n \<longrightarrow> committed E (word_of_nat i) (H i) (H (Suc i))"
    and "t \<le> n" and "n < 2 ^ 64" and "\<forall>seq k. t < unat seq \<and> in_tx seq k \<longrightarrow> H t TransactionKeyspace k = None"
    and "\<forall>seq d. expected_descriptor plan seq = Ok d \<longrightarrow> tm_commit_seq (td_meta d) = seq"
    and "same_core (view (fb_database s)) (H n)"
    and "rs_target_seq st = word_of_nat t" and "rs_next_undo_seq st = word_of_nat n"
    and "undo_transactions E (fjall_backend_ops E F) plan st s = (s', r)"
  shows "\<exists>i. t \<le> i \<and> i \<le> n \<and> same_core (view (fb_database s')) (H i)
    \<and> undone_to E st (view (fb_database s)) (view (fb_database s')) (word_of_nat i)
    \<and> (\<forall>st'. r = Ok st' \<longrightarrow> i = t \<and> st' = st\<lparr>rs_next_undo_seq := word_of_nat i\<rparr>)"
proof -
  have u: "unat (rs_target_seq st) = t" "unat (rs_next_undo_seq st) = n"
    using assms(3,4,8,9) by (simp_all add: unat_of_nat_small)
  have "\<exists>i. rs_target_seq st \<le> i \<and> i \<le> rs_next_undo_seq st \<and> same_core (view (fb_database s')) (H (unat i))
    \<and> undone_to E st (view (fb_database s)) (view (fb_database s')) i
    \<and> (\<forall>st'. r = Ok st' \<longrightarrow> i = rs_target_seq st \<and> st' = st\<lparr>rs_next_undo_seq := i\<rparr>)"
  proof (rule rb.undo_transactions_spec [OF assms(10)])
    show "\<exists>d. tx_link E (word_of_nat i) (H (i - 1)) d (H i)"
      if "unat (rs_target_seq st) < i" "i \<le> unat (rs_next_undo_seq st)" for i
      using history_links(2) [OF assms(1,2,4,5), of i] that u by simp
    show "rs_target_seq st \<le> rs_next_undo_seq st" using u assms(3) by (simp add: word_le_nat_alt)
  qed (use assms(6,7) u in auto)
  then obtain i where i: "rs_target_seq st \<le> i" "i \<le> rs_next_undo_seq st" "same_core (view (fb_database s')) (H (unat i))"
    "undone_to E st (view (fb_database s)) (view (fb_database s')) i"
    "\<forall>st'. r = Ok st' \<longrightarrow> i = rs_target_seq st \<and> st' = st\<lparr>rs_next_undo_seq := i\<rparr>" by blast
  moreover have "word_of_nat (unat i) = i" by simp
  moreover have "unat i = t" if "i = rs_target_seq st" using u that by simp
  ultimately show ?thesis
    using u unfolding word_le_nat_alt by (intro exI [of _ "unat i"]) metis
qed

end

section \<open>Properties\<close>

text \<open>
  C32: undoing goes back along the history. Let the index have gone from one view to the next by
  prepared commits, numbered from \<open>t\<close> to \<open>n\<close>, and hold the last view. However the backend fails,
  undoing from \<open>n\<close> to \<open>t\<close> leaves the user and transaction keyspaces exactly as they were after some
  commit of that range, with the head and the recovery state written for that very point (or not
  touched, when nothing was undone), so that the next attempt starts from a consistent index; and
  when it reports success, the index is back at \<open>t\<close>.
\<close>

theorem undo_is_crash_safe:
  assumes "fjall_store F view" and "allocates E"
    and "\<forall>i. t \<le> i \<and> i < n \<longrightarrow> committed E (word_of_nat i) (H i) (H (Suc i))"
    and "t \<le> n" and "n < 2 ^ 64" and "\<forall>seq k. t < unat seq \<and> in_tx seq k \<longrightarrow> H t TransactionKeyspace k = None"
    and "\<forall>seq d. expected_descriptor plan seq = Ok d \<longrightarrow> tm_commit_seq (td_meta d) = seq"
    and "same_core (view (fb_database s)) (H n)"
    and "rs_target_seq st = word_of_nat t" and "rs_next_undo_seq st = word_of_nat n"
    and "undo_transactions E (fjall_backend_ops E F) plan st s = (s', r)"
  shows "\<exists>i. t \<le> i \<and> i \<le> n \<and> same_core (view (fb_database s')) (H i)
    \<and> undone_to E st (view (fb_database s)) (view (fb_database s')) (word_of_nat i)
    \<and> (\<forall>st'. r = Ok st' \<longrightarrow> i = t \<and> st' = st\<lparr>rs_next_undo_seq := word_of_nat i\<rparr>)"
  using fjall_store.undo_returns_to_history [OF assms] .


lemma tx_stored_seq: "tx_stored E seq mv es d \<Longrightarrow> tm_commit_seq (td_meta d) = seq"
  by (auto simp: tx_stored_def decode_descriptor_def result_simps Let_def tx_meta_key_codec encode_tx_keys
      tx_meta_key_def split: if_splits)

text \<open>A plan to undo one transaction above an empty database, for the witness.\<close>

definition sample_undo_plan :: "transaction_descriptor \<Rightarrow> recovery_plan" where
  "sample_undo_plan d =
     \<lparr>rp_database_identity = [1], rp_durable_frontier = \<lparr>df_durable_seq = 0, df_durable_vlog_seq = 0, df_durable_vlog_end = EmptyEnd\<rparr>,
      rp_head_seq = 1, rp_accepted_seq = 0, rp_accepted_vlog_seq = 0, rp_published_end = EmptyEnd, rp_accepted_end = EmptyEnd,
      rp_physical_tail = EmptyTail, rp_descriptors = [d], rp_recovery_state = None,
      rp_needs_undo = True, rp_needs_promote = False, rp_needs_trim = False\<rparr>"

definition sample_undo_state :: recovery_state where
  "sample_undo_state = \<lparr>rs_phase = PhaseUndo, rs_original_head = 1, rs_target_seq = 0, rs_target_vlog_seq = 0,
     rs_target_vlog_end = EmptyEnd, rs_next_undo_seq = 1, rs_trim_required = False\<rparr>"

lemma sample_expected:
  "tm_commit_seq (td_meta d) = 1 \<Longrightarrow> expected_descriptor (sample_undo_plan d) seq = Ok d' \<Longrightarrow>
   tm_commit_seq (td_meta d') = seq"
  by (auto simp: expected_descriptor_def sample_undo_plan_def result_simps list_get_def checked_sub_Some unat_eq_zero
      split: if_splits)

lemma sample_committed: "\<exists>V'. committed sample_env 0 (\<lambda>_. Map.empty) V'"
proof -
  obtain w where w: "preflight_batch sample_env sample_batch True = Ok w" using sample_preflight by blast
  obtain pc where "prepare_commit sample_env w 0 sample_context (\<lambda>_. Ok None) (Ok 0) = Ok pc"
    using sample_prepared [OF w] by blast
  then show ?thesis using preflight_batch_Ok [OF w] unfolding committed_def by fastforce
qed

lemma mem_view_exists: "\<exists>db. mem_view db = apply_writes ws (\<lambda>_. Map.empty)"
proof
  have "mem_view (\<lambda>_. []) = (\<lambda>_. Map.empty)" by (simp add: mem_view_def fun_eq_iff)
  then show "mem_view (fold mem_write ws (\<lambda>_. [])) = apply_writes ws (\<lambda>_. Map.empty)"
    using mem_view_writes [of ws "\<lambda>_. []"] by simp
qed

theorem undo_is_crash_safe_witness:
  "\<exists>V d s s' r. committed sample_env 0 (\<lambda>_. Map.empty) V \<and> mem_view (fb_database s) = V
     \<and> undo_transactions sample_env (fjall_backend_ops sample_env (mem_fjall (\<lambda>_. None))) (sample_undo_plan d)
         sample_undo_state s = (s', r)
     \<and> (same_core (mem_view (fb_database s')) V \<or> same_core (mem_view (fb_database s')) (\<lambda>_. Map.empty))
     \<and> (is_ok r \<longrightarrow> same_core (mem_view (fb_database s')) (\<lambda>_. Map.empty))"
proof -
  obtain V where V: "committed sample_env 0 (\<lambda>_. Map.empty) V" using sample_committed by blast
  obtain db where db: "mem_view db = V" using V mem_view_exists unfolding committed_def by metis
  obtain d where "tx_link sample_env (0 + 1) (\<lambda>_. Map.empty) d V"
    using committed_link(1) [OF allocates_sample_env V] by auto
  then have d: "tm_commit_seq (td_meta d) = 1" using tx_stored_seq by (auto simp: tx_link_def)
  let ?s = "\<lparr>fb_database = db, fb_snapshot_owner = 0, fb_commit_lock_poisoned = False\<rparr>"
  let ?H = "\<lambda>i :: nat. if i = 0 then (\<lambda>_. Map.empty) else V"
  obtain s' r where u: "undo_transactions sample_env (fjall_backend_ops sample_env (mem_fjall (\<lambda>_. None)))
      (sample_undo_plan d) sample_undo_state ?s = (s', r)" by fastforce
  have "\<exists>i. 0 \<le> i \<and> i \<le> 1 \<and> same_core (mem_view (fb_database s')) (?H i)
    \<and> undone_to sample_env sample_undo_state (mem_view (fb_database ?s)) (mem_view (fb_database s')) (word_of_nat i)
    \<and> (\<forall>st'. r = Ok st' \<longrightarrow> i = 0 \<and> st' = sample_undo_state\<lparr>rs_next_undo_seq := word_of_nat i\<rparr>)"
  proof (rule undo_is_crash_safe [OF mem.fjall_store_axioms allocates_sample_env _ _ _ _ _ _ _ _ u])
    show "\<forall>i. 0 \<le> i \<and> i < 1 \<longrightarrow> committed sample_env (word_of_nat i) (?H i) (?H (Suc i))" using V by simp
    show "\<forall>seq d'. expected_descriptor (sample_undo_plan d) seq = Ok d' \<longrightarrow> tm_commit_seq (td_meta d') = seq"
      using sample_expected [OF d] by simp
    show "same_core (mem_view (fb_database ?s)) (?H 1)" using db by (simp add: same_core_def)
  qed (simp_all add: sample_undo_state_def)
  then obtain i where "i \<le> 1" "same_core (mem_view (fb_database s')) (?H i)" "is_ok r \<longrightarrow> i = 0"
    by (auto simp: is_ok_iff)
  then have "same_core (mem_view (fb_database s')) V \<or> same_core (mem_view (fb_database s')) (\<lambda>_. Map.empty)"
    "is_ok r \<longrightarrow> same_core (mem_view (fb_database s')) (\<lambda>_. Map.empty)"
    by (auto split: if_splits)
  then show ?thesis
    using V db u by (intro exI [of _ V] exI [of _ d] exI [of _ ?s] exI [of _ s'] exI [of _ r]) simp
qed

end
