(* ===== verification/CoordinatorLog.thy ===== *)
theory CoordinatorLog
  imports Coordinator ReaderLog Undo
begin

text \<open>
  What a commit means: the index and the value log together represent a map from keys to values,
  and a commit updates that map, or leaves it alone, or does not know. The representation is kept by
  every outcome of every stage, so a reader never meets a pointer without its value.
\<close>

section \<open>The gate around one request\<close>

lemma inst_encode [simp]: "ss_instance_state (decode_state (encode_state s)) = ss_instance_state s"
proof -
  have mask: "w AND 3 = take_bit 2 w" for w :: u64
    by (simp add: take_bit_eq_mask mask_eq_exp_minus_1)
  show ?thesis
    by (cases s; cases "ss_instance_state s")
      (simp_all add: decode_state_def encode_state_def STATE_MASK_eq STATE_BITS_def Let_def mask take_bit_push_bit)
qed

definition gate_idle :: "runtime_control \<Rightarrow> bool" where
  "gate_idle rc \<longleftrightarrow> active_of rc = None \<and> queue_of rc = []"

definition gate_busy :: "request_id \<Rightarrow> runtime_control \<Rightarrow> bool" where
  "gate_busy rid rc \<longleftrightarrow> active_of rc = Some rid \<and> queue_of rc = []"

lemma latch_failure_effect:
  "state_rank (inst (fst (latch_failure t e rc))) = max (state_rank (inst rc)) (state_rank (required_failure_state t e))"
  "active_of (fst (latch_failure t e rc)) = active_of rc"
  "queue_of rc = [] \<Longrightarrow> queue_of (fst (latch_failure t e rc)) = []"
proof -
  let ?t = "required_failure_state t e" and ?s = "LatchedErrorSummary_from_storage_error e"
  obtain rc' tr cancelled where l: "latch_section ?t ?s rc = (rc', tr, cancelled)" by (metis prod_cases3)
  have r: "inst (fst (latch_failure t e rc)) = inst rc'" "rc_gate (fst (latch_failure t e rc)) = rc_gate rc'"
    by (simp_all add: latch_failure_def l Let_def)
  have s: "rc_gate rc' = rc_gate rc \<and> inst rc' = inst rc \<and> \<not> is_upgrade (inst rc) ?t
     \<or> is_upgrade (inst rc) ?t \<and> inst rc' = ?t \<and> active_of rc' = active_of rc \<and> queue_of rc' = []"
    using l by (auto simp: latch_section_def Let_def runtime_state_def split: if_splits)
  show "state_rank (inst (fst (latch_failure t e rc))) = max (state_rank (inst rc)) (state_rank ?t)"
    using s unfolding r is_upgrade_def by auto
  show "active_of (fst (latch_failure t e rc)) = active_of rc" using s unfolding r by auto
  show "queue_of rc = [] \<Longrightarrow> queue_of (fst (latch_failure t e rc)) = []" using s unfolding r by auto
qed

lemma latch_failure_gate [simp]:
  "gate_idle rc \<Longrightarrow> gate_idle (fst (latch_failure t e rc))"
  "gate_busy rid rc \<Longrightarrow> gate_busy rid (fst (latch_failure t e rc))"
  by (simp_all add: gate_idle_def gate_busy_def latch_failure_effect)

lemma gate_stats [simp]:
  "gate_idle (rc\<lparr>rc_stats := st\<rparr>) = gate_idle rc" "gate_busy rid (rc\<lparr>rc_stats := st\<rparr>) = gate_busy rid rc"
  by (simp_all add: gate_idle_def gate_busy_def)

lemma required_failure_state_rank: "state_rank t \<le> state_rank (required_failure_state t e)"
  by (simp add: required_failure_state_def Let_def)

lemma latched_unhealthy:
  "required_failure_state t e \<noteq> Healthy \<Longrightarrow> inst (fst (latch_failure t e rc)) \<noteq> Healthy"
  using latch_failure_effect(1) [of t e rc] state_rank_inject [of "required_failure_state t e" Healthy]
  by (cases "inst (fst (latch_failure t e rc))") auto

lemma latched_still_unhealthy:
  "inst rc \<noteq> Healthy \<Longrightarrow> inst (fst (latch_failure t e rc)) \<noteq> Healthy"
  using latch_failure_effect(1) [of t e rc] state_rank_inject [of "inst rc" Healthy]
  by (cases "inst (fst (latch_failure t e rc))") auto

lemma start_request_idle:
  assumes "gate_idle rc" and "start_request op rc = (rc', x)"
  shows "inst rc' = inst rc"
    and "\<exists>r. x = Done r \<and> (case r of Ok rid \<Rightarrow> inst rc = Healthy \<and> gate_busy rid rc'
           | Err e \<Rightarrow> gate_idle rc' \<and> e = admission_error op (inst rc))"
proof -
  obtain rc1 rid where n: "new_request op rc = (rc1, rid)" by fastforce
  have a: "active_of rc = None" "queue_of rc = []" using assms(1) by (simp_all add: gate_idle_def)
  have rc1: "rc_gate rc1 = rc_gate rc" "runtime_state rc1 = runtime_state rc" "rid = rc_next_request_id rc"
    "rc_requests rc1 = (rc_requests rc)(rid \<mapsto> WriteRequest_new op)"
    using new_request_simps(3,5,7) [of op rc] runtime_state_simps(4) [of op rc] by (simp_all add: n)
  consider (unhealthy) "inst rc \<noteq> Healthy" | (closed) "inst rc = Healthy" "\<not> accepting_writes (rc_gate rc)"
    | (admitted) "inst rc = Healthy" "accepting_writes (rc_gate rc)" by blast
  then have "inst rc' = inst rc \<and> (\<exists>r. x = Done r \<and> (case r of Ok rid \<Rightarrow> inst rc = Healthy \<and> gate_busy rid rc'
           | Err e \<Rightarrow> gate_idle rc' \<and> e = admission_error op (inst rc)))"
  proof cases
    case unhealthy
    then have "enqueue_write op rc = (rc, Err (admission_error op (inst rc)))"
      by (simp add: enqueue_write_def fast_check_def ensure_def)
    then have "start_request op rc = (rc, Done (Err (admission_error op (inst rc))))" by (simp add: start_request_def)
    then show ?thesis using assms by auto
  next
    case closed
    then have "enqueue_write op rc = (rc1, Err (admission_error op (inst rc)))"
      by (simp add: enqueue_write_def fast_check_def ensure_def n rc1 enqueue_section_def admission_section_def)
    then have "start_request op rc = (rc1, Done (Err (admission_error op (inst rc))))" by (simp add: start_request_def)
    then show ?thesis using assms a rc1 by (auto simp: gate_idle_def)
  next
    case admitted
    let ?e = "at_request mark_started rid (set_gate (\<lambda>g. g\<lparr>active_request := Some rid\<rparr>) rc1)"
    have "enqueue_write op rc = (?e, Ok rid)"
      using admitted a by (simp add: enqueue_write_def fast_check_def ensure_def n rc1 enqueue_section_def admission_section_def)
    moreover have "WriteTicket_wait_until_started rid ?e = Some (Ok ())"
      by (simp add: rc1 WriteTicket_wait_until_started_def wait_until_started_def mark_started_def WriteRequest_new_def)
    ultimately have "start_request op rc = (?e, Done (Ok rid))" by (simp add: start_request_def await_started_def)
    then show ?thesis using assms admitted a rc1 by (auto simp: gate_busy_def)
  qed
  then show "inst rc' = inst rc"
    "\<exists>r. x = Done r \<and> (case r of Ok rid \<Rightarrow> inst rc = Healthy \<and> gate_busy rid rc'
           | Err e \<Rightarrow> gate_idle rc' \<and> e = admission_error op (inst rc))" by blast+
qed

lemma finish_ticket_busy:
  assumes "gate_busy rid (co_runtime co)"
  shows "gate_idle (co_runtime (finish_ticket rid op co))"
    "inst (co_runtime (finish_ticket rid op co)) = inst (co_runtime co)"
    "finish_ticket rid op co = co\<lparr>co_runtime := co_runtime (finish_ticket rid op co)\<rparr>"
proof -
  let ?rc = "co_runtime co"
  have b: "active_of ?rc = Some rid" "queue_of ?rc = []" using assms by (simp_all add: gate_busy_def)
  have f: "fst (WriteTicket_finish rid op ?rc) = at_request mark_completed rid (set_gate (\<lambda>g. g\<lparr>active_request := None\<rparr>) ?rc)"
    using b by (simp add: WriteTicket_finish_def finish_write_def finish_section_def Let_def)
  show "gate_idle (co_runtime (finish_ticket rid op co))"
    "inst (co_runtime (finish_ticket rid op co)) = inst (co_runtime co)"
    using b by (simp_all add: finish_ticket_def f gate_idle_def)
  show "finish_ticket rid op co = co\<lparr>co_runtime := co_runtime (finish_ticket rid op co)\<rparr>"
    by (simp add: finish_ticket_def)
qed

section \<open>The map the store represents\<close>

definition envelope_stored :: "disk_view \<Rightarrow> prepared_envelope \<Rightarrow> bool" where
  "envelope_stored v e \<longleftrightarrow> (\<forall>c \<in> set (pe_chunks e). stored v c \<and> pos_file_id (chunk_position c) \<le> MAX_VLOG_FILE_ID)"

lemma envelope_stored_kept: "envelope_stored v e \<Longrightarrow> kept v v' \<Longrightarrow> envelope_stored v' e"
  unfolding envelope_stored_def using stored_kept by blast

text \<open>The bytes of a pointer lead to a value: the pointer is that of a put of an envelope stored in the log.\<close>

definition holds_value :: "env \<Rightarrow> disk_view \<Rightarrow> vlog_geometry \<Rightarrow> bytes \<Rightarrow> bytes \<Rightarrow> bytes \<Rightarrow> bool" where
  "holds_value E v g bs key val \<longleftrightarrow> (\<exists>P P' db seq uid ops e j p.
     planner_ok P \<and> lp_geometry P = g \<and> prepare_envelope E P db seq uid ops = (P', Ok e)
     \<and> envelope_stored v e \<and> j < length ops \<and> ops ! j = LO_Put key val \<and> pe_value_pointers e ! j = Some p
     \<and> ValuePointer_encode p = Ok bs)"

definition represents :: "env \<Rightarrow> index_view \<Rightarrow> disk_view \<Rightarrow> vlog_geometry \<Rightarrow> (bytes \<rightharpoonup> bytes) \<Rightarrow> bool" where
  "represents E V v g m \<longleftrightarrow> (\<forall>k. case V UserKeyspace k of
     None \<Rightarrow> m k = None | Some bs \<Rightarrow> (\<exists>val. m k = Some val \<and> holds_value E v g bs k val))"

fun apply_op :: "normalized_operation \<Rightarrow> (bytes \<rightharpoonup> bytes) \<Rightarrow> (bytes \<rightharpoonup> bytes)" where
  "apply_op (NPut k val) m = m(k \<mapsto> val)"
| "apply_op (NDelete k) m = m(k := None)"

definition apply_ops :: "normalized_operation list \<Rightarrow> (bytes \<rightharpoonup> bytes) \<Rightarrow> (bytes \<rightharpoonup> bytes)" where
  "apply_ops ops = fold apply_op ops"

lemma apply_op_other: "nkey op \<noteq> k \<Longrightarrow> apply_op op m k = m k"
  by (cases op) auto

lemma apply_ops_other: "k \<notin> nkey ` set ops \<Longrightarrow> apply_ops ops m k = m k"
  unfolding apply_ops_def by (induction ops arbitrary: m) (auto simp: apply_op_other)

lemma apply_ops_last:
  assumes "i < length ops" and "\<And>j. i < j \<Longrightarrow> j < length ops \<Longrightarrow> nkey (ops ! j) \<noteq> nkey (ops ! i)"
  shows "apply_ops ops m (nkey (ops ! i)) = (case ops ! i of NPut _ val \<Rightarrow> Some val | NDelete _ \<Rightarrow> None)"
proof -
  have "nkey (ops ! i) \<notin> nkey ` set (drop (Suc i) ops)"
  proof
    assume "nkey (ops ! i) \<in> nkey ` set (drop (Suc i) ops)"
    then obtain n where "n < length ops - Suc i" "nkey (ops ! (Suc i + n)) = nkey (ops ! i)"
      by (auto simp: in_set_conv_nth)
    moreover from this(1) have "Suc i + n < length ops" by linarith
    ultimately show False using assms(2) [of "Suc i + n"] by simp
  qed
  moreover have "apply_ops ops m = apply_ops (drop (Suc i) ops) (apply_op (ops ! i) (apply_ops (take i ops) m))"
    using id_take_nth_drop [OF assms(1)] by (metis apply_ops_def comp_apply fold_Cons fold_append)
  ultimately show ?thesis
    by (simp add: apply_ops_other) (cases "ops ! i"; simp)
qed

lemma holds_valueI:
  "planner_ok P \<Longrightarrow> prepare_envelope E P db seq uid ops = (P', Ok e) \<Longrightarrow> envelope_stored v e \<Longrightarrow> j < length ops \<Longrightarrow>
   ops ! j = LO_Put key val \<Longrightarrow> pe_value_pointers e ! j = Some p \<Longrightarrow> ValuePointer_encode p = Ok bs \<Longrightarrow>
   holds_value E v (lp_geometry P) bs key val"
  unfolding holds_value_def by blast

lemma holds_value_kept: "holds_value E v g bs k val \<Longrightarrow> kept v v' \<Longrightarrow> holds_value E v' g bs k val"
  by (unfold holds_value_def, elim exE conjE) (use envelope_stored_kept in blast)

lemma represents_kept:
  assumes "represents E V v g m" and "kept v v'"
  shows "represents E V v' g m"
  unfolding represents_def
proof
  fix k
  show "case V UserKeyspace k of None \<Rightarrow> m k = None | Some bs \<Rightarrow> \<exists>val. m k = Some val \<and> holds_value E v' g bs k val"
    using spec [OF assms(1) [unfolded represents_def], of k] holds_value_kept [OF _ assms(2)]
    by (cases "V UserKeyspace k") auto
qed

lemma represents_cong: "represents E V v g m \<Longrightarrow> V' UserKeyspace = V UserKeyspace \<Longrightarrow> represents E V' v g m"
  by (simp add: represents_def)

text \<open>The envelope a commit prepares starts where the log ends and ends where the log may end.\<close>

lemma commit_envelope_Some:
  assumes "commit_envelope E w kind seq uid ctx = Ok (Some e)"
  obtains db p g P' where "ctx = Some (db, p, g)" "kind = VLogEnvelope"
    "prepare_envelope E \<lparr>lp_geometry = g, lp_position = p\<rparr> db seq uid (map logical_of (write_ops w)) = (P', Ok e)"
  using assms
  by (auto simp: commit_envelope_def result_simps logical_operations_def LayoutPlanner_from_position_Ok
      split: transaction_kind.splits if_splits option.splits)
    (metis prod.collapse)

lemma prepared_positions:
  assumes "geometry_ok g" and "tail_position g p" and "wide_pages g"
    and "prepare_envelope E \<lparr>lp_geometry = g, lp_position = p\<rparr> db seq uid ops = (P', Ok e)"
  shows "pe_vlog_begin e = p" "tail_position g (pe_vlog_end e)" "p < pe_vlog_end e" "pe_commit_seq e = seq"
    "planner_ok \<lparr>lp_geometry = g, lp_position = p\<rparr>"
proof -
  let ?P = "\<lparr>lp_geometry = g, lp_position = p\<rparr>"
  show P: "planner_ok ?P" using assms(1,2) by (simp add: planner_ok_def)
  note C = prepare_candidate_Ok [OF P _ assms(4) [unfolded prepare_envelope_Ok_iff]]
  have ok: "\<forall>op \<in> set ops. op_ok op" and ae: "all_enter g p (record_lens ops)" using C assms(3) by auto
  note pos = envelope_positions [OF assms(1,2) ae record_lens_ok [OF assms(3) ok]]
  show "pe_vlog_begin e = p" "tail_position g (pe_vlog_end e)" "p < pe_vlog_end e" "pe_commit_seq e = seq"
    using C assms(3) pos(3,4) by auto
qed

lemma commit_represents:
  assumes "represents E V v g m" and "kept v v'" and "write_ok w" and "wide_pages g"
    and "prepared_by E w head get_user pc befores plans ed"
    and "commit_envelope E w (vw_transaction_kind w) (head + 1) (pc_tx_uuid pc) (vlog_context_of w lw) = Ok (pc_envelope pc)"
    and "\<forall>k x. get_user k = Ok x \<longrightarrow> x = V UserKeyspace k"
    and "V' UserKeyspace = apply_writes (batch_writes (pc_index_batch pc)) V UserKeyspace"
    and "lw_geometry lw = g" and "tail_position g (lw_position lw)"
    and "\<And>e. pc_envelope pc = Some e \<Longrightarrow> envelope_stored v' e"
  shows "represents E V' v' g (apply_ops (write_ops w) m)"
  unfolding represents_def
proof
  fix k
  let ?V = "apply_writes (batch_writes (pc_index_batch pc)) V"
  note eff = prepared_effect [where V = V, OF assms(3,5,7) refl]
  show "case V' UserKeyspace k of None \<Rightarrow> apply_ops (write_ops w) m k = None
    | Some bs \<Rightarrow> \<exists>val. apply_ops (write_ops w) m k = Some val \<and> holds_value E v' g bs k val"
  proof (cases "k \<in> nkey ` set (write_ops w)")
    case False
    then have "V' UserKeyspace k = V UserKeyspace k" "apply_ops (write_ops w) m k = m k"
      using eff(5) by (simp_all add: assms(8) apply_ops_other)
    then show ?thesis using represents_kept [OF assms(1,2)] by (simp only: represents_def)
  next
    case True
    obtain i where i: "i < length (write_ops w)" "nkey (write_ops w ! i) = k"
      "\<And>j. i < j \<Longrightarrow> j < length (write_ops w) \<Longrightarrow> nkey (write_ops w ! j) \<noteq> k"
      using last_operation [OF True] by blast
    note L = last_operation_wins [where V = V, OF assms(3,5,7) i(1)] and A = apply_ops_last [OF i(1), of m]
    show ?thesis
    proof (cases "write_ops w ! i")
      case (NDelete k')
      then show ?thesis using L A i by (simp add: assms(8))
    next
      case (NPut k' val)
      then obtain e ptr where e: "pc_envelope pc = Some e" "pe_value_pointers e ! i = Some ptr"
        "ValuePointer_encode ptr = Ok (pointer_bytes ptr)" "V' UserKeyspace k = Some (pointer_bytes ptr)"
        using L i by (auto simp: assms(8))
      obtain P' where p: "prepare_envelope E \<lparr>lp_geometry = g, lp_position = lw_position lw\<rparr> (lw_database_uuid lw)
          (head + 1) (pc_tx_uuid pc) (map logical_of (write_ops w)) = (P', Ok e)"
        using commit_envelope_Some [OF assms(6) [unfolded e(1)]] assms(9)
        by (auto simp: vlog_context_of_def split: transaction_kind.splits)
      have g: "geometry_ok g" using assms(4) by (simp add: wide_pages_def)
      have "map logical_of (write_ops w) ! i = LO_Put k val" using i NPut by simp
      then have "holds_value E v' g (pointer_bytes ptr) k val"
        using holds_valueI [OF prepared_positions(5) [OF g assms(10,4) p] p assms(11) [OF e(1)] _ _ e(2,3)] i(1) by simp
      then show ?thesis using A i NPut e(4) by simp
    qed
  qed
qed

section \<open>The batch a commit applies\<close>

definition frontier_writes :: "env \<Rightarrow> durable_frontier option \<Rightarrow> keyspace_write list" where
  "frontier_writes E frontier = (case frontier of
     None \<Rightarrow> [] | Some f \<Rightarrow> (case DurableFrontier_encode E f of
       Ok bs \<Rightarrow> [KsInsert SystemKeyspace DURABLE_FRONTIER_KEY bs] | Err _ \<Rightarrow> []))"

lemma add_frontier_Ok:
  assumes "add_frontier_to_batch E b f operation = Ok b'"
  shows "batch_writes b' = batch_writes b @ frontier_writes E (Some f) \<and> is_ok (DurableFrontier_encode E f)"
proof -
  obtain bs where e: "DurableFrontier_encode E f = Ok bs"
    "ib_operations b' = ib_operations b @ [PutInternal SystemSpace DURABLE_FRONTIER_KEY bs]"
    using assms
    by (auto simp: add_frontier_to_batch_def result_simps durability_try_copy_def IndexAtomicBatch_try_push_def
        split: if_splits)
  then show ?thesis
    by (simp_all add: batch_writes_def frontier_writes_def is_ok_iff)
qed

lemma frontier_key_not_head [simp]: "DURABLE_FRONTIER_KEY \<noteq> HEAD_SEQ_KEY" "HEAD_SEQ_KEY \<noteq> DURABLE_FRONTIER_KEY"
  by (simp_all add: DURABLE_FRONTIER_KEY_def HEAD_SEQ_KEY_def ascii_def)

text \<open>What preparation hands to the other stages.\<close>

definition planned ::
  "env \<Rightarrow> 's backend_ops \<Rightarrow> validated_write \<Rightarrow> bool \<Rightarrow> ('s, 'd) coordinator \<Rightarrow> commit_plan \<Rightarrow> prepared_commit \<Rightarrow> bool" where
  "planned E B w sync co plan pc \<longleftrightarrow>
     (\<exists>befores plans ed. prepared_by E w (cs_head_seq (co_state co)) (bk_get_user B (co_index co)) pc befores plans ed)
     \<and> commit_envelope E w (vw_transaction_kind w) (cs_head_seq (co_state co) + 1) (pc_tx_uuid pc)
         (vlog_context_of w (co_writer co)) = Ok (pc_envelope pc)
     \<and> pc_envelope (cp_prepared plan) = pc_envelope pc \<and> pc_commit_seq (cp_prepared plan) = cs_head_seq (co_state co) + 1
     \<and> batch_writes (pc_index_batch (cp_prepared plan)) = batch_writes (pc_index_batch pc) @ frontier_writes E (cp_frontier plan)
     \<and> (cp_target_vlog_seq plan, cp_target_vlog_end plan) = (case pc_envelope pc of
          Some e \<Rightarrow> (cs_head_seq (co_state co) + 1, Some (pe_vlog_end e))
        | None \<Rightarrow> (cs_head_vlog_seq (co_state co), cs_head_vlog_end (co_state co)))
     \<and> cp_frontier plan = (if sync then Some (frontier_from_optional (cs_head_seq (co_state co) + 1)
          (cp_target_vlog_seq plan) (cp_target_vlog_end plan)) else None)
     \<and> (\<forall>f. cp_frontier plan = Some f \<longrightarrow> is_ok (DurableFrontier_encode E f))
     \<and> cs_head_seq (co_state co) < cs_head_seq (co_state co) + 1"

lemma preparation_planned:
  assumes "preparation_stage E B w sync random co = Ok plan"
  obtains pc where "planned E B w sync co plan pc"
proof -
  obtain pc where pc: "prepare_commit E w (cs_head_seq (co_state co)) (vlog_context_of w (co_writer co))
      (bk_get_user B (co_index co)) random = Ok pc"
    using assms by (auto simp: preparation_stage_def Let_def result_simps)
  obtain befores plans ed where p: "prepared_by E w (cs_head_seq (co_state co)) (bk_get_user B (co_index co)) pc befores plans ed"
    and ce: "commit_envelope E w (vw_transaction_kind w) (cs_head_seq (co_state co) + 1) (pc_tx_uuid pc)
         (vlog_context_of w (co_writer co)) = Ok (pc_envelope pc)"
    using prepare_commit_Ok [OF pc] by blast
  have seq: "pc_commit_seq pc = cs_head_seq (co_state co) + 1" using p by (simp add: prepared_by_def)
  have lt: "cs_head_seq (co_state co) < cs_head_seq (co_state co) + 1"
    using pc by (auto simp: prepare_commit_def result_simps next_commit_seq_def checked_add_Some word_less_nat_alt
        unat_word_ariths Let_def)
  have n: "frontier_writes E None = []" by (simp add: frontier_writes_def)
  have "planned E B w sync co plan pc"
    using assms p ce lt
    by (auto simp: planned_def preparation_stage_def pc seq n Let_def result_simps
        dest!: add_frontier_Ok split: option.splits if_splits)
  then show thesis by (rule that)
qed

lemma prepared_system_targets:
  assumes "prepared_by E w head get_user pc befores plans ed"
  shows "(SystemKeyspace, DURABLE_FRONTIER_KEY) \<notin> write_target ` set (batch_writes (pc_index_batch pc))"
  using assms build_index_batch_Ok(1) [of E plans ed "head + 1" "vw_public_operation w" "pc_index_batch pc"]
  by (auto simp: prepared_by_def batch_writes_def commit_mutations_def)

lemma apply_writes_append: "apply_writes (xs @ ys) V = apply_writes ys (apply_writes xs V)"
  by (simp add: apply_writes_def)

text \<open>The index after the batch: the keys, the head, the frontier.\<close>

lemma planned_effect:
  assumes "planned E B w sync co plan pc" and "write_ok w"
    and "\<forall>k x. bk_get_user B (co_index co) k = Ok x \<longrightarrow> x = V UserKeyspace k"
  defines "ws \<equiv> batch_writes (pc_index_batch (cp_prepared plan))"
  shows "distinct_targets ws"
    and "apply_writes ws V UserKeyspace = apply_writes (batch_writes (pc_index_batch pc)) V UserKeyspace"
    and "apply_writes ws V SystemKeyspace HEAD_SEQ_KEY = Some (encode_head_seq (cs_head_seq (co_state co) + 1))"
    and "apply_writes ws V SystemKeyspace DURABLE_FRONTIER_KEY = (case cp_frontier plan of
           None \<Rightarrow> V SystemKeyspace DURABLE_FRONTIER_KEY
         | Some f \<Rightarrow> (case DurableFrontier_encode E f of Ok bs \<Rightarrow> Some bs | Err _ \<Rightarrow> None))"
proof -
  let ?pw = "batch_writes (pc_index_batch pc)"
  obtain befores plans ed where p: "prepared_by E w (cs_head_seq (co_state co)) (bk_get_user B (co_index co)) pc befores plans ed"
    and ws: "ws = ?pw @ frontier_writes E (cp_frontier plan)"
    and enc: "\<forall>f. cp_frontier plan = Some f \<longrightarrow> is_ok (DurableFrontier_encode E f)"
    using assms(1) unfolding planned_def ws_def by blast
  note eff = prepared_effect [where V = V, OF assms(2) p assms(3) refl]
  note n = prepared_system_targets [OF p]
  have f: "frontier_writes E (cp_frontier plan) = [] \<and> cp_frontier plan = None
     \<or> (\<exists>f bs. cp_frontier plan = Some f \<and> DurableFrontier_encode E f = Ok bs
         \<and> frontier_writes E (cp_frontier plan) = [KsInsert SystemKeyspace DURABLE_FRONTIER_KEY bs])"
    using enc by (auto simp: frontier_writes_def is_ok_iff split: option.splits)
  show "distinct_targets ws"
    using eff(1) n f by (auto simp: ws distinct_targets_def)
  have fl: "apply_writes ws V ks k = apply_writes ?pw V ks k" if "(ks, k) \<noteq> (SystemKeyspace, DURABLE_FRONTIER_KEY)" for ks k
    using f that by (auto simp: ws apply_writes_append) (auto simp: apply_writes_def)
  then show "apply_writes ws V UserKeyspace = apply_writes ?pw V UserKeyspace" by auto
  show "apply_writes ws V SystemKeyspace HEAD_SEQ_KEY = Some (encode_head_seq (cs_head_seq (co_state co) + 1))"
    using fl [of SystemKeyspace HEAD_SEQ_KEY] eff(6) by simp
  show "apply_writes ws V SystemKeyspace DURABLE_FRONTIER_KEY = (case cp_frontier plan of
           None \<Rightarrow> V SystemKeyspace DURABLE_FRONTIER_KEY
         | Some f \<Rightarrow> (case DurableFrontier_encode E f of Ok bs \<Rightarrow> Some bs | Err _ \<Rightarrow> None))"
    using f eff(6) by (auto simp: ws apply_writes_append) (auto simp: apply_writes_def)
qed

section \<open>The stages\<close>

text \<open>The memory of the coordinator agrees with the index, and the writer with the files.\<close>

definition memory_matches :: "env \<Rightarrow> index_view \<Rightarrow> commit_state \<Rightarrow> bool" where
  "memory_matches E V st \<longleftrightarrow>
     V SystemKeyspace HEAD_SEQ_KEY = Some (encode_head_seq (cs_head_seq st))
     \<and> (\<exists>bs. DurableFrontier_encode E (cs_durable_frontier st) = Ok bs \<and> V SystemKeyspace DURABLE_FRONTIER_KEY = Some bs)
     \<and> df_durable_seq (cs_durable_frontier st) \<le> cs_head_seq st
     \<and> df_durable_vlog_seq (cs_durable_frontier st) \<le> cs_head_vlog_seq st \<and> cs_head_vlog_seq st \<le> cs_head_seq st
     \<and> (df_durable_seq (cs_durable_frontier st) = cs_head_seq st \<longrightarrow>
          df_durable_vlog_seq (cs_durable_frontier st) = cs_head_vlog_seq st)"

definition clean :: "vlog_writer \<Rightarrow> bool" where
  "clean lw \<longleftrightarrow> lw_dirty_files lw = {} \<and> Mapping.keys (lw_pending_entries lw) = {}"

lemma clean_durable: "log_inv v lw \<Longrightarrow> clean lw \<Longrightarrow> log_durable v"
  by (rule log_durable_clean [where st = "lw_state lw" and dirty = "{}" and entries = "{}"])
    (simp_all add: clean_def log_inv_def durable_part_def)

definition log_matches :: "disk_view \<Rightarrow> vlog_writer \<Rightarrow> commit_state \<Rightarrow> bool" where
  "log_matches v lw st \<longleftrightarrow> log_inv v lw \<and> \<not> lw_append_failed lw \<and> lw_pending_sync_id lw = None
     \<and> tail_position (lw_geometry lw) (lw_position lw)
     \<and> lw_position lw = (case cs_head_vlog_end st of Some p \<Rightarrow> p | None \<Rightarrow> VLogPosition 0 0)
     \<and> (cs_head_vlog_seq st \<le> df_durable_vlog_seq (cs_durable_frontier st) \<longrightarrow> clean lw)"

text \<open>Between a synchronization and its report the writer waits for that report.\<close>

definition sync_pending :: "disk_view \<Rightarrow> vlog_writer \<Rightarrow> frontier_sync option \<Rightarrow> bool" where
  "sync_pending v lw synced \<longleftrightarrow> (case synced of
     None \<Rightarrow> lw_pending_sync_id lw = None
   | Some t \<Rightarrow> lw_pending_sync_id lw = Some (sy_id t) \<and> log_durable v \<and> sy_files t = lw_dirty_files lw
       \<and> sy_directory_entries t = Mapping.keys (lw_pending_entries lw)
       \<and> durable_part (sy_files t) (sy_directory_entries t) v)"

locale commit_store =
  index_backend "bk_commit_atomic B" "bk_get_user B" "bk_get_internal B" iview + log_disk K view ident
  for B :: "'s backend_ops" and iview :: "'s \<Rightarrow> index_view"
    and K :: "'d os_ops" and view :: "'d \<Rightarrow> disk_view" and ident :: "handle \<Rightarrow> file_identity"
begin

abbreviation IV :: "('s, 'd) coordinator \<Rightarrow> index_view" where
  "IV co \<equiv> iview (co_index co)"

abbreviation LV :: "('s, 'd) coordinator \<Rightarrow> disk_view" where
  "LV co \<equiv> wview (co_log co)"

lemma append_file_ids:
  assumes "geometry_ok (lw_geometry lw)" and "ValueLogWriter_append E K e (lw, w) = (s', Ok u)" and "c \<in> set (pe_chunks e)"
  shows "pos_file_id (chunk_position c) \<le> MAX_VLOG_FILE_ID"
proof -
  have "\<exists>x. and_then (append_guard lw e) (\<lambda>_. validate_envelope_chunks E lw e) = Ok x"
    using assms(2) by (auto simp: ValueLogWriter_append_def split: result.splits)
  then obtain x where "validate_envelope_chunks E lw e = Ok x" by (auto simp: and_then_Ok)
  from validate_envelope_Ok(4) [OF this assms(1)] assms(3) show ?thesis by blast
qed

lemma append_stage_spec:
  assumes "log_inv (LV co) (co_writer co)" and "\<not> lw_append_failed (co_writer co)"
    and "lw_pending_sync_id (co_writer co) = None"
    and "append_stage E K operation pc co = (co', r)"
  shows "co' = co\<lparr>co_writer := co_writer co', co_log := co_log co'\<rparr> \<and> kept (LV co) (LV co')
    \<and> lw_geometry (co_writer co') = lw_geometry (co_writer co)
    \<and> (case r of
        Ok _ \<Rightarrow> log_inv (LV co') (co_writer co') \<and> \<not> lw_append_failed (co_writer co')
          \<and> lw_pending_sync_id (co_writer co') = None
          \<and> (case pc_envelope pc of None \<Rightarrow> co' = co
             | Some e \<Rightarrow> envelope_stored (LV co') e \<and> lw_position (co_writer co') = pe_vlog_end e)
      | Err (error, target, identity) \<Rightarrow> target = Some Healthy \<and> co_writer co' = co_writer co \<and> same_log (LV co) (LV co')
            \<and> log_inv (LV co') (co_writer co)
          \<or> (\<exists>t. target = Some t \<and> t \<noteq> Healthy))"
proof (cases "pc_envelope pc")
  case None
  then show ?thesis using assms by (auto simp: append_stage_def)
next
  case (Some e)
  let ?lw = "co_writer co"
  obtain lw' w' x where x: "ValueLogWriter_append E K e (?lw, co_log co) = ((lw', w'), x)" by (metis surj_pair)
  note o = append_spec [OF assms(1) x, unfolded append_outcome_def]
  have g: "geometry_ok (lw_geometry ?lw)" using assms(1) by (simp add: log_inv_def files_inv_def)
  show ?thesis
  proof (cases x)
    case (Ok u)
    have "envelope_stored (wview w') e"
      using o Ok append_file_ids [OF g, of E e "co_log co"] x by (auto simp: envelope_stored_def)
    then show ?thesis using assms(4) o Ok x Some by (auto simp: append_stage_def on_writer_def)
  next
    case (Err error)
    then have r: "co' = co\<lparr>co_writer := lw', co_log := w'\<rparr>"
      "r = Err (remap_writer_operation error operation,
         Some (classify_vlog_append_failure (remap_writer_operation error operation) (lw_append_failed lw')),
         Some (pc_commit_seq pc, pc_tx_uuid pc))"
      using assms(4) x Some by (auto simp: append_stage_def on_writer_def Let_def)
    show ?thesis using o Err assms(2) unfolding r
      by (cases "lw_append_failed lw'") (auto simp: classify_vlog_append_failure_def)
  qed
qed

lemma sync_stage_spec:
  assumes "log_inv (LV co) (co_writer co)" and "\<not> lw_append_failed (co_writer co)"
    and "lw_pending_sync_id (co_writer co) = None"
    and "sync_stage K operation needed seq stop identity co = (co', r)"
  shows "co' = co\<lparr>co_writer := co_writer co', co_log := co_log co'\<rparr> \<and> same_log (LV co) (LV co')
    \<and> lw_geometry (co_writer co') = lw_geometry (co_writer co)
    \<and> (case r of
        Ok synced \<Rightarrow> log_inv (LV co') (co_writer co') \<and> \<not> lw_append_failed (co_writer co')
          \<and> lw_position (co_writer co') = lw_position (co_writer co)
          \<and> sync_pending (LV co') (co_writer co') synced \<and> (if needed then synced \<noteq> None else synced = None \<and> co' = co)
      | Err (error, target, identity) \<Rightarrow> target = Some Poisoned)"
proof (cases needed)
  case False
  then show ?thesis using assms by (auto simp: sync_stage_def sync_pending_def)
next
  case True
  let ?lw = "co_writer co"
  obtain lw' w' x where x: "sync_through K seq stop (?lw, co_log co) = ((lw', w'), x)" by (metis surj_pair)
  note o = sync_spec [OF assms(1) x, unfolded sync_outcome_def]
  have s: "same_log (LV co) (wview w')" using o by (simp add: same_files_log)
  show ?thesis
  proof (cases x)
    case (Ok t)
    have t: "log_inv (wview w') lw'" "log_durable (wview w')" "durable_part (sy_files t) (sy_directory_entries t) (wview w')"
      and up: "lw' = ?lw\<lparr>lw_next_sync_id := lw_next_sync_id lw', lw_pending_sync_id := Some (sy_id t)\<rparr>"
      using o unfolding Ok result.case by blast+
    have u: "lw_geometry lw' = lw_geometry ?lw" "\<not> lw_append_failed lw'" "lw_position lw' = lw_position ?lw"
      "lw_pending_sync_id lw' = Some (sy_id t)" "lw_dirty_files lw' = lw_dirty_files ?lw"
      "lw_pending_entries lw' = lw_pending_entries ?lw"
      by (subst up; use assms(2) in \<open>simp add: lw_position_def\<close>)+
    have f: "sy_files t = lw_dirty_files ?lw" "sy_directory_entries t = Mapping.keys (lw_pending_entries ?lw)"
      using o unfolding Ok result.case by blast+
    have "co' = co\<lparr>co_writer := lw', co_log := w'\<rparr>" "r = Ok (Some t)"
      using assms(4) x Ok True by (auto simp: sync_stage_def on_writer_def)
    then show ?thesis using t u s f True by (simp add: sync_pending_def)
  next
    case (Err error)
    have g: "lw_geometry lw' = lw_geometry ?lw"
      using x Err by (auto simp: sync_through_def Let_def split: result.splits prod.splits option.splits if_splits)
    show ?thesis using assms(4) x Err True g s by (auto simp: sync_stage_def on_writer_def)
  qed
qed

lemma finish_frontier_spec:
  assumes "log_inv (LV co) (co_writer co)" and "sync_pending (LV co) (co_writer co) synced"
  shows "\<exists>lw. finish_frontier_after_success synced operation co = co\<lparr>co_writer := lw\<rparr> \<and> log_inv (LV co) lw
    \<and> lw_pending_sync_id lw = None \<and> lw_append_failed lw = lw_append_failed (co_writer co)
    \<and> lw_position lw = lw_position (co_writer co) \<and> lw_geometry lw = lw_geometry (co_writer co)
    \<and> (if synced = None then lw = co_writer co else clean lw)"
proof (cases synced)
  case None
  then show ?thesis using assms
    by (intro exI [of _ "co_writer co"]) (simp add: finish_frontier_after_success_def sync_pending_def)
next
  case (Some t)
  let ?lw = "(co_writer co)\<lparr>lw_dirty_files := lw_dirty_files (co_writer co) - sy_files t,
      lw_pending_entries := Mapping.filter (\<lambda>f _. f \<notin> sy_directory_entries t) (lw_pending_entries (co_writer co)),
      lw_pending_sync_id := None\<rparr>"
  have p: "lw_pending_sync_id (co_writer co) = Some (sy_id t)" "sy_files t = lw_dirty_files (co_writer co)"
    "sy_directory_entries t = Mapping.keys (lw_pending_entries (co_writer co))"
    "durable_part (sy_files t) (sy_directory_entries t) (LV co)"
    using assms(2) unfolding Some sync_pending_def option.case by blast+
  have "frontier_succeeded t (co_writer co) = (?lw, Ok ())"
    using p(1) by (simp add: frontier_succeeded_def consume_sync_def)
  moreover have "clean ?lw"
    using p(2,3) by (auto simp: clean_def keys_dom_lookup lookup_filter split: option.splits if_splits)
  moreover have "log_inv (LV co) ?lw" by (rule succeeded_inv [OF assms(1) p(4)])
  ultimately show ?thesis using Some
    by (intro exI [of _ ?lw]) (simp add: finish_frontier_after_success_def lw_position_def)
qed

lemma index_stage_spec:
  assumes "distinct_targets (batch_writes b)" and "index_stage B operation stage b mode synced identity co = (co', r)"
  shows "case r of
      Ok _ \<Rightarrow> \<exists>s. co' = finish_frontier_after_success synced operation (co\<lparr>co_index := s\<rparr>)
        \<and> iview s = apply_writes (batch_writes b) (IV co)
    | Err (error, target, identity') \<Rightarrow> (\<exists>s lw. co' = co\<lparr>co_index := s, co_writer := lw\<rparr> \<and> lw_geometry lw = lw_geometry (co_writer co))
        \<and> (\<exists>t. target = Some t \<and> t \<noteq> Healthy)
        \<and> (IV co' = IV co \<or> err_outcome error = Some CommitUnknown \<and> IV co' = apply_writes (batch_writes b) (IV co))"
proof -
  obtain s x where x: "bk_commit_atomic B b mode (co_index co) = (s, x)" by fastforce
  show ?thesis
  proof (cases x)
    case (Ok u)
    then show ?thesis using assms(2) x commit_applies [OF assms(1)] by (auto simp: index_stage_def intro!: exI [of _ s])
  next
    case (Err e)
    obtain error t where m: "map_index_commit_error e operation stage identity = (error, t)" by fastforce
    have t: "t \<noteq> Healthy" "ce_apply_state e = ApplyUnknown \<longrightarrow> err_outcome error = Some CommitUnknown"
      using m by (auto simp: map_index_commit_error_def with_identity_def error_constructors Let_def
          split: if_splits option.splits)
    have r: "co' = abandon_frontier synced (co\<lparr>co_index := s\<rparr>)" "r = Err (error, Some t, None)"
      using assms(2) x Err m by (auto simp: index_stage_def)
    have g: "\<exists>lw. co' = co\<lparr>co_index := s, co_writer := lw\<rparr> \<and> lw_geometry lw = lw_geometry (co_writer co)"
      unfolding r abandon_frontier_def
      by (cases synced) (auto simp: frontier_failed_def split: result.splits intro: exI [of _ "co_writer co"])
    have "iview s = IV co \<or> ce_apply_state e = ApplyUnknown \<and> iview s = apply_writes (batch_writes b) (IV co)"
      using commit_not_applied [OF x [unfolded Err]] commit_unknown [OF assms(1) x [unfolded Err]]
      by (cases "ce_apply_state e") auto
    then show ?thesis using g t unfolding r by auto
  qed
qed

end

context commit_store
begin

lemma planned_parts:
  assumes "planned E B w sync co plan pc" and "log_matches (LV co) (co_writer co) (co_state co)"
    and "memory_matches E (IV co) (co_state co)" and "wide_pages (lw_geometry (co_writer co))"
  shows "pc_envelope pc = Some e \<Longrightarrow> tail_position (lw_geometry (co_writer co)) (pe_vlog_end e)"
    and "pc_envelope pc = Some e \<Longrightarrow> cp_target_vlog_seq plan > df_durable_vlog_seq (cs_durable_frontier (co_state co))"
    and "pc_envelope pc = None \<Longrightarrow> cp_target_vlog_seq plan \<le> df_durable_vlog_seq (cs_durable_frontier (co_state co)) \<Longrightarrow>
      clean (co_writer co)"
proof -
  let ?g = "lw_geometry (co_writer co)" and ?st = "co_state co"
  note P = assms(1) [unfolded planned_def] and L = assms(2) [unfolded log_matches_def] and M = assms(3) [unfolded memory_matches_def]
  have g: "geometry_ok ?g" using assms(4) by (simp add: wide_pages_def)
  show "tail_position ?g (pe_vlog_end e)" if e: "pc_envelope pc = Some e"
  proof -
    have "commit_envelope E w (vw_transaction_kind w) (cs_head_seq ?st + 1) (pc_tx_uuid pc)
         (vlog_context_of w (co_writer co)) = Ok (Some e)" using P e by simp
    then obtain P' where "prepare_envelope E \<lparr>lp_geometry = ?g, lp_position = lw_position (co_writer co)\<rparr>
        (lw_database_uuid (co_writer co)) (cs_head_seq ?st + 1) (pc_tx_uuid pc) (map logical_of (write_ops w)) = (P', Ok e)"
      by (elim commit_envelope_Some) (auto simp: vlog_context_of_def split: transaction_kind.splits)
    from prepared_positions(2) [OF g _ assms(4) this] L show ?thesis by blast
  qed
  show "cp_target_vlog_seq plan > df_durable_vlog_seq (cs_durable_frontier ?st)" if "pc_envelope pc = Some e"
    using P M that by (auto simp: word_less_nat_alt word_le_nat_alt)
  show "clean (co_writer co)" if "pc_envelope pc = None"
    "cp_target_vlog_seq plan \<le> df_durable_vlog_seq (cs_durable_frontier ?st)"
    using P L that by auto
qed

text \<open>What can be said of the coordinator after the stages, whatever they did.\<close>

definition stages_outcome ::
  "env \<Rightarrow> validated_write \<Rightarrow> bool \<Rightarrow> commit_plan \<Rightarrow> prepared_commit \<Rightarrow> (bytes \<rightharpoonup> bytes) \<Rightarrow>
   ('s, 'd) coordinator \<Rightarrow> ('s, 'd) coordinator \<Rightarrow> (unit, commit_failure) result \<Rightarrow> bool" where
  "stages_outcome E w sync plan pc m co co' r \<longleftrightarrow>
     co_runtime co' = co_runtime co \<and> co_state co' = co_state co
     \<and> lw_geometry (co_writer co') = lw_geometry (co_writer co)
     \<and> (IV co' SystemKeyspace DURABLE_FRONTIER_KEY \<noteq> IV co SystemKeyspace DURABLE_FRONTIER_KEY \<longrightarrow> log_durable (LV co'))
     \<and> (case r of
          Ok _ \<Rightarrow> represents E (IV co') (LV co') (lw_geometry (co_writer co)) (apply_ops (write_ops w) m)
            \<and> IV co' = apply_writes (batch_writes (pc_index_batch (cp_prepared plan))) (IV co)
            \<and> log_inv (LV co') (co_writer co') \<and> \<not> lw_append_failed (co_writer co')
            \<and> lw_pending_sync_id (co_writer co') = None
            \<and> tail_position (lw_geometry (co_writer co)) (lw_position (co_writer co'))
            \<and> lw_position (co_writer co') = (case pc_envelope pc of Some e \<Rightarrow> pe_vlog_end e | None \<Rightarrow> lw_position (co_writer co))
            \<and> (sync \<or> pc_envelope pc = None \<and> clean (co_writer co) \<longrightarrow> clean (co_writer co'))
        | Err (error, target, identity) \<Rightarrow>
            (\<exists>t. target = Some t \<and> (t = Healthy \<longrightarrow> IV co' = IV co \<and> co_writer co' = co_writer co
               \<and> log_inv (LV co') (co_writer co)))
            \<and> (represents E (IV co') (LV co') (lw_geometry (co_writer co)) m
               \<or> err_outcome error = Some CommitUnknown
                 \<and> represents E (IV co') (LV co') (lw_geometry (co_writer co)) (apply_ops (write_ops w) m)))"

lemma commit_stages_spec:
  assumes "planned E B w sync co plan pc" and "log_matches (LV co) (co_writer co) (co_state co)"
    and "memory_matches E (IV co) (co_state co)" and "wide_pages (lw_geometry (co_writer co))"
    and "write_ok w" and "represents E (IV co) (LV co) (lw_geometry (co_writer co)) m"
    and "commit_stages E B K operation sync plan co = (co', r)"
  shows "stages_outcome E w sync plan pc m co co' r"
proof -
  let ?pc = "cp_prepared plan" and ?g = "lw_geometry (co_writer co)"
  let ?ws = "batch_writes (pc_index_batch ?pc)" and ?id = "Some (pc_commit_seq ?pc, pc_tx_uuid ?pc)"
  let ?need = "sync \<and> cp_target_vlog_seq plan > df_durable_vlog_seq (cs_durable_frontier (co_state co))"
  note L = assms(2) [unfolded log_matches_def]
  note parts = planned_parts [OF assms(1-4)]
  have env: "pc_envelope ?pc = pc_envelope pc" using assms(1) by (simp add: planned_def)
  obtain co1 r1 where s1: "append_stage E K operation ?pc co = (co1, r1)" by fastforce
  have l: "log_inv (LV co) (co_writer co)" "\<not> lw_append_failed (co_writer co)" "lw_pending_sync_id (co_writer co) = None"
    using L by blast+
  note A = append_stage_spec [OF l s1]
  note a = A [THEN conjunct1] A [THEN conjunct2, THEN conjunct1] A [THEN conjunct2, THEN conjunct2, THEN conjunct1]
    and a4 = A [THEN conjunct2, THEN conjunct2, THEN conjunct2]
  have c1: "co_index co1 = co_index co" "co_runtime co1 = co_runtime co" "co_state co1 = co_state co"
    by (subst a(1), simp)+
  have get: "\<forall>k x. bk_get_user B (co_index co) k = Ok x \<longrightarrow> x = IV co UserKeyspace k" using get_user_view by blast
  note eff = planned_effect [where V = "IV co", OF assms(1,5) get]
  show ?thesis
  proof (cases r1)
    case (Err f)
    then have e: "co' = co1" "r = Err f" using assms(7) s1 by (simp_all add: commit_stages_def Let_def act_bind_def)
    obtain error target identity where f: "f = (error, target, identity)" by (cases f)
    have "represents E (IV co1) (LV co1) ?g m" using represents_kept [OF assms(6) a(2)] c1 by simp
    then show ?thesis using a4 a(3) c1 unfolding stages_outcome_def e Err f by auto
  next
    case (Ok u)
    note a4 = a4 [unfolded Ok result.case]
    obtain co2 r2 where s2: "sync_stage K operation ?need (cp_target_vlog_seq plan) (cp_target_vlog_end plan) ?id co1 = (co2, r2)"
      by fastforce
    have l1: "log_inv (LV co1) (co_writer co1)" "\<not> lw_append_failed (co_writer co1)" "lw_pending_sync_id (co_writer co1) = None"
      using a4 by blast+
    note S = sync_stage_spec [OF l1 s2]
    note b = S [THEN conjunct1] S [THEN conjunct2, THEN conjunct1] S [THEN conjunct2, THEN conjunct2, THEN conjunct1, unfolded a(3)]
      and b4 = S [THEN conjunct2, THEN conjunct2, THEN conjunct2]
    have c2: "co_index co2 = co_index co" "co_runtime co2 = co_runtime co" "co_state co2 = co_state co"
      by (subst b(1), simp add: c1)+
    have k: "kept (LV co) (LV co2)" using kept_trans [OF a(2) same_log_kept [OF b(2)]] .
    have rk: "represents E (IV co) (LV co2) ?g m" by (rule represents_kept [OF assms(6) k])
    show ?thesis
    proof (cases r2)
      case (Err f)
      then have e: "co' = co2" "r = Err f"
        using assms(7) s1 s2 Ok by (simp_all add: commit_stages_def Let_def act_bind_def)
      obtain error target identity where f: "f = (error, target, identity)" by (cases f)
      show ?thesis using b4 b(3) c2 rk unfolding stages_outcome_def e Err f by auto
    next
      case r2: (Ok synced)
      note b4 = b4 [unfolded r2 result.case]
      obtain mode where s3: "index_stage B operation IndexCommit (pc_index_batch ?pc) mode synced ?id co2 = (co', r)"
        using assms(7) s1 s2 Ok r2 by (auto simp: commit_stages_def Let_def act_bind_def)
      note i3 = index_stage_spec [OF eff(1) s3]
      have stored: "envelope_stored (LV co2) e" if "pc_envelope pc = Some e" for e
        using a4 env that envelope_stored_kept same_log_kept [OF b(2)] by auto
      obtain befores plans ed where p: "prepared_by E w (cs_head_seq (co_state co)) (bk_get_user B (co_index co)) pc befores plans ed"
        and ce: "commit_envelope E w (vw_transaction_kind w) (cs_head_seq (co_state co) + 1) (pc_tx_uuid pc)
         (vlog_context_of w (co_writer co)) = Ok (pc_envelope pc)"
        using assms(1) by (auto simp: planned_def)
      have new: "represents E V' (LV co2) ?g (apply_ops (write_ops w) m)" if "V' = apply_writes ?ws (IV co)" for V'
        by (rule commit_represents [OF assms(6) k assms(5,4) p ce get _ refl _ stored])
          (use eff(2) that L in auto)
      have fresh: "IV co SystemKeyspace DURABLE_FRONTIER_KEY \<noteq> apply_writes ?ws (IV co) SystemKeyspace DURABLE_FRONTIER_KEY \<longrightarrow> sync"
        using eff(4) assms(1) by (auto simp: planned_def)
      have cl: "clean (co_writer co2)" if "synced = None" "sync \<or> pc_envelope pc = None \<and> clean (co_writer co)"
        using b4 a4 env that parts(2,3) by (cases "pc_envelope pc") (auto split: if_splits)
      have dur: "log_durable (LV co2)" if "sync"
        using b4 cl that clean_durable by (cases synced) (auto simp: sync_pending_def)
      show ?thesis
      proof (cases r)
        case (Err f)
        obtain error target identity where f: "f = (error, target, identity)" by (cases f)
        have i: "\<exists>s lw. co' = co2\<lparr>co_index := s, co_writer := lw\<rparr> \<and> lw_geometry lw = lw_geometry (co_writer co2)"
          "\<exists>t. target = Some t \<and> t \<noteq> Healthy"
          "IV co' = IV co \<or> err_outcome error = Some CommitUnknown \<and> IV co' = apply_writes ?ws (IV co)"
          using i3 c2 unfolding Err f by auto
        then have "LV co' = LV co2" "co_runtime co' = co_runtime co" "co_state co' = co_state co"
          "lw_geometry (co_writer co') = ?g" using c2 b(3) by auto
        then show ?thesis using i(2,3) new rk dur fresh unfolding stages_outcome_def Err f by auto
      next
        case r: (Ok x)
        obtain s where s: "co' = finish_frontier_after_success synced operation (co2\<lparr>co_index := s\<rparr>)"
          "iview s = apply_writes ?ws (IV co)" using i3 c2 unfolding r by auto
        obtain lw where lw: "co' = co2\<lparr>co_index := s, co_writer := lw\<rparr>" "log_inv (LV co2) lw"
          "lw_pending_sync_id lw = None" "\<not> lw_append_failed lw" "lw_position lw = lw_position (co_writer co2)"
          "lw_geometry lw = ?g" "if synced = None then lw = co_writer co2 else clean lw"
          using finish_frontier_spec [of "co2\<lparr>co_index := s\<rparr>" synced operation] s(1) b4 b(3) by auto
        have "lw_position lw = (case pc_envelope pc of Some e \<Rightarrow> pe_vlog_end e | None \<Rightarrow> lw_position (co_writer co))"
          using lw(5) b4 a4 env by (cases "pc_envelope pc") auto
        moreover from this have "tail_position ?g (lw_position lw)"
          using parts(1) L by (cases "pc_envelope pc") auto
        moreover have "sync \<or> pc_envelope pc = None \<and> clean (co_writer co) \<longrightarrow> clean lw"
          using lw(7) cl by (cases synced) auto
        ultimately show ?thesis using lw s(2) new dur fresh c2 unfolding stages_outcome_def r by auto
      qed
    qed
  qed
qed

end

section \<open>The invariant of the coordinator\<close>

lemma state_rank_simps [simp]: "state_rank s = 0 \<longleftrightarrow> s = Healthy" "2 \<le> state_rank s \<longleftrightarrow> s = Poisoned"
  by (cases s; simp)+

lemma latched_poisoned: "inst rc = Poisoned \<or> required_failure_state t e = Poisoned \<Longrightarrow> inst (fst (latch_failure t e rc)) = Poisoned"
  using latch_failure_effect(1) [of t e rc] state_rank_simps(2) [of "inst (fst (latch_failure t e rc))"] by auto

lemma publish_commit_stats_shape:
  fixes co
  defines "rc \<equiv> co_runtime (publish_commit_stats co)"
  shows "publish_commit_stats co = co\<lparr>co_runtime := rc\<rparr>"
    and "inst rc = Healthy \<Longrightarrow> inst (co_runtime co) = Healthy"
    and "inst (co_runtime co) = Poisoned \<Longrightarrow> inst rc = Poisoned"
    and "gate_busy rid (co_runtime co) \<Longrightarrow> gate_busy rid rc" and "gate_idle (co_runtime co) \<Longrightarrow> gate_idle rc"
proof -
  have "\<exists>st. rc = co_runtime co\<lparr>rc_stats := st\<rparr> \<or>
      rc = fst (latch_failure Poisoned stats_invariant_error (co_runtime co\<lparr>rc_stats := st\<rparr>))"
    by (auto simp: rc_def publish_commit_stats_def Let_def split: prod.split)
  then obtain st where rc: "rc = co_runtime co\<lparr>rc_stats := st\<rparr> \<or>
      rc = fst (latch_failure Poisoned stats_invariant_error (co_runtime co\<lparr>rc_stats := st\<rparr>))" ..
  show "publish_commit_stats co = co\<lparr>co_runtime := rc\<rparr>"
    by (simp add: rc_def publish_commit_stats_def Let_def split: prod.splits)
  show "inst rc = Healthy \<Longrightarrow> inst (co_runtime co) = Healthy"
    using rc latched_still_unhealthy [of "co_runtime co\<lparr>rc_stats := st\<rparr>" Poisoned stats_invariant_error] by auto
  show "inst (co_runtime co) = Poisoned \<Longrightarrow> inst rc = Poisoned"
    using rc latched_poisoned [of "co_runtime co\<lparr>rc_stats := st\<rparr>" Poisoned stats_invariant_error] by auto
  show "gate_busy rid (co_runtime co) \<Longrightarrow> gate_busy rid rc" "gate_idle (co_runtime co) \<Longrightarrow> gate_idle rc" using rc by auto
qed

text \<open>A failure is latched before the request is finished.\<close>

lemma fail_started_spec:
  assumes "gate_busy rid (co_runtime co)" and "fail_started rid operation (error, target, identity) co = (co', e)"
  shows "\<exists>rc. co' = co\<lparr>co_runtime := rc\<rparr> \<and> gate_idle rc
    \<and> (inst rc = Healthy \<longrightarrow> inst (co_runtime co) = Healthy \<and> (\<forall>t. target = Some t \<longrightarrow> t = Healthy))
    \<and> err_outcome e = err_outcome error \<and> (err_outcome error = Some CommitUnknown \<longrightarrow> inst rc = Poisoned)"
proof -
  define error1 where "error1 = with_identity identity error"
  define t where "t = required_failure_state (case target of Some s \<Rightarrow> s
    | None \<Rightarrow> (case err_state error1 of Some s \<Rightarrow> s | None \<Rightarrow> Healthy)) error1"
  define error2 where "error2 = error1\<lparr>err_retry := retry_for_state error1 t, err_state := Some t\<rparr>"
  define rc1 where "rc1 = (if t \<noteq> Healthy then fst (latch_failure t error2 (co_runtime co)) else co_runtime co)"
  have e: "err_outcome e = err_outcome error" and co': "co' = finish_ticket rid operation (publish_commit_stats (co\<lparr>co_runtime := rc1\<rparr>))"
    using assms(2)
    by (auto simp: fail_started_def Let_def error1_def t_def error2_def rc1_def with_identity_def split: option.splits)
  have o1: "err_outcome error1 = err_outcome error" by (simp add: error1_def with_identity_def split: option.splits)
  have req: "state_rank t \<le> state_rank (required_failure_state t error2)" by (rule required_failure_state_rank)
  have busy: "gate_busy rid rc1" using assms(1) by (simp add: rc1_def)
  have h: "inst rc1 = Healthy \<longrightarrow> inst (co_runtime co) = Healthy \<and> t = Healthy"
    using latch_failure_effect(1) [of t error2 "co_runtime co"] req state_rank_simps(1) [of t]
    by (auto simp: rc1_def split: if_splits)
  have tt: "s = Healthy" if "target = Some s" "t = Healthy" for s
    using required_failure_state_rank [of s error1] that state_rank_simps(1) [of s] by (simp add: t_def)
  have unk: "t = Poisoned" if "err_outcome error = Some CommitUnknown"
    using that by (simp add: t_def required_failure_state_def o1 Let_def not_less)
  have poi: "inst rc1 = Poisoned" if "err_outcome error = Some CommitUnknown"
    using unk [OF that] latched_poisoned [of "co_runtime co" t error2] req state_rank_simps(2) [of "required_failure_state t error2"]
    by (simp add: rc1_def)
  let ?co1 = "co\<lparr>co_runtime := rc1\<rparr>"
  define rc2 where "rc2 = co_runtime (publish_commit_stats ?co1)"
  note P = publish_commit_stats_shape [where co = ?co1, folded rc2_def]
  have rc2: "publish_commit_stats ?co1 = co\<lparr>co_runtime := rc2\<rparr>" using P(1) by simp
  have b2: "gate_busy rid (co_runtime (co\<lparr>co_runtime := rc2\<rparr>))" using P(4) busy by simp
  note f = finish_ticket_busy [OF b2, of operation]
  let ?rc = "fst (WriteTicket_finish rid operation rc2)"
  have r: "co' = co\<lparr>co_runtime := ?rc\<rparr>" "gate_idle ?rc" "inst ?rc = inst rc2"
    using f(1,2) by (simp_all add: co' rc2 finish_ticket_def)
  show ?thesis
  proof (intro exI [of _ ?rc] conjI impI allI)
    assume "inst ?rc = Healthy"
    then have "inst rc1 = Healthy" using r(3) P(2) by simp
    then show "inst (co_runtime co) = Healthy" "\<And>s. target = Some s \<Longrightarrow> s = Healthy" using h tt by blast+
  qed (use r e poi P(3) in auto)
qed

definition coord_inv ::
  "env \<Rightarrow> ('s \<Rightarrow> index_view) \<Rightarrow> ('d \<Rightarrow> disk_view) \<Rightarrow> ('s, 'd) coordinator \<Rightarrow> (bytes \<rightharpoonup> bytes) \<Rightarrow> bool" where
  "coord_inv E iview view co m \<longleftrightarrow>
     gate_idle (co_runtime co) \<and> wide_pages (lw_geometry (co_writer co))
     \<and> represents E (iview (co_index co)) (view (wd_disk (co_log co))) (lw_geometry (co_writer co)) m
     \<and> (inst (co_runtime co) = Healthy \<longrightarrow>
          memory_matches E (iview (co_index co)) (co_state co)
          \<and> log_matches (view (wd_disk (co_log co))) (co_writer co) (co_state co))"

text \<open>What a write does to the map: all of it, nothing, or one of the two when its error says so.\<close>

definition kv_outcome ::
  "normalized_operation list \<Rightarrow> (bytes \<rightharpoonup> bytes) \<Rightarrow> unit res \<Rightarrow> (bytes \<rightharpoonup> bytes) \<Rightarrow> bool" where
  "kv_outcome ops m r m' \<longleftrightarrow> (case r of
     Ok _ \<Rightarrow> m' = apply_ops ops m
   | Err e \<Rightarrow> m' = m \<or> err_outcome e = Some CommitUnknown \<and> m' = apply_ops ops m)"

definition published ::
  "validated_write \<Rightarrow> commit_plan \<Rightarrow> commit_state \<Rightarrow> commit_state" where
  "published w plan st =
     (let st = st\<lparr>cs_head_seq := pc_commit_seq (cp_prepared plan)\<rparr>;
          st = (if vw_transaction_kind w = VLogEnvelope
                then st\<lparr>cs_head_vlog_seq := cp_target_vlog_seq plan, cs_head_vlog_end := cp_target_vlog_end plan\<rparr> else st)
      in (case cp_frontier plan of Some f \<Rightarrow> st\<lparr>cs_durable_frontier := f\<rparr> | None \<Rightarrow> st))"

lemma frontier_from_optional_simps [simp]:
  "df_durable_seq (frontier_from_optional a b c) = a" "df_durable_vlog_seq (frontier_from_optional a b c) = b"
  by (simp_all add: frontier_from_optional_def split: option.splits)

context commit_store
begin

lemma planned_kind:
  assumes "planned E B w sync co plan pc"
  shows "pc_envelope pc \<noteq> None \<longleftrightarrow> vw_transaction_kind w = VLogEnvelope"
proof -
  have "commit_envelope E w (vw_transaction_kind w) (cs_head_seq (co_state co) + 1) (pc_tx_uuid pc)
      (vlog_context_of w (co_writer co)) = Ok (pc_envelope pc)" using assms by (simp add: planned_def)
  then show ?thesis
    by (cases "pc_envelope pc"; cases "vw_transaction_kind w")
      (auto simp: commit_envelope_def vlog_context_of_def result_simps split: if_splits)
qed

lemma published_matches:
  assumes "planned E B w sync co plan pc" and "log_matches (LV co) (co_writer co) (co_state co)"
    and "memory_matches E (IV co) (co_state co)" and "write_ok w"
    and "stages_outcome E w sync plan pc m co co' (Ok ())"
  shows "memory_matches E (IV co') (published w plan (co_state co))"
    and "log_matches (LV co') (co_writer co') (published w plan (co_state co))"
proof -
  let ?st = "co_state co" and ?st' = "published w plan (co_state co)"
  note L = assms(2) [unfolded log_matches_def] and M = assms(3) [unfolded memory_matches_def]
  have t: "(cp_target_vlog_seq plan, cp_target_vlog_end plan) = (case pc_envelope pc of
      Some e \<Rightarrow> (cs_head_seq ?st + 1, Some (pe_vlog_end e)) | None \<Rightarrow> (cs_head_vlog_seq ?st, cs_head_vlog_end ?st))"
    and f: "cp_frontier plan = (if sync then Some (frontier_from_optional (cs_head_seq ?st + 1)
          (cp_target_vlog_seq plan) (cp_target_vlog_end plan)) else None)"
    and e: "\<forall>f. cp_frontier plan = Some f \<longrightarrow> is_ok (DurableFrontier_encode E f)"
    and lt: "cs_head_seq ?st < cs_head_seq ?st + 1" and seq: "pc_commit_seq (cp_prepared plan) = cs_head_seq ?st + 1"
    using assms(1) unfolding planned_def by blast+
  note O = assms(5) [unfolded stages_outcome_def result.case]
  have get: "\<forall>k x. bk_get_user B (co_index co) k = Ok x \<longrightarrow> x = IV co UserKeyspace k" using get_user_view by blast
  note eff = planned_effect [where V = "IV co", OF assms(1,4) get]
  have I: "IV co' = apply_writes (batch_writes (pc_index_batch (cp_prepared plan))) (IV co)" using O by blast
  have st: "cs_head_seq ?st' = cs_head_seq ?st + 1"
    "cs_head_vlog_seq ?st' = cp_target_vlog_seq plan" "cs_head_vlog_end ?st' = cp_target_vlog_end plan"
    "cs_durable_frontier ?st' = (case cp_frontier plan of Some f \<Rightarrow> f | None \<Rightarrow> cs_durable_frontier ?st)"
    using t seq planned_kind [OF assms(1)]
    by (auto simp: published_def Let_def split: option.splits if_splits)
  have h: "cs_head_seq ?st \<le> cs_head_seq ?st + 1" using lt by (rule order_less_imp_le)
  have hv: "cs_head_vlog_seq ?st \<le> cs_head_seq ?st + 1" using M h by (meson order_trans)
  have le: "cs_head_vlog_seq ?st \<le> cp_target_vlog_seq plan" "cp_target_vlog_seq plan \<le> cs_head_seq ?st + 1"
    using t hv by (cases "pc_envelope pc"; simp)+
  have fr: "\<exists>bs. DurableFrontier_encode E (cs_durable_frontier ?st') = Ok bs \<and> IV co' SystemKeyspace DURABLE_FRONTIER_KEY = Some bs"
    using e M eff(4) unfolding st I by (cases "cp_frontier plan") (auto simp: is_ok_iff)
  have le2: "df_durable_seq (cs_durable_frontier ?st') \<le> cs_head_seq ?st + 1"
    "df_durable_vlog_seq (cs_durable_frontier ?st') \<le> cp_target_vlog_seq plan"
    using M le h unfolding st f by (cases sync; force intro: order_trans)+
  have up: "df_durable_seq (cs_durable_frontier ?st') = cs_head_seq ?st + 1 \<longrightarrow>
      df_durable_vlog_seq (cs_durable_frontier ?st') = cp_target_vlog_seq plan"
    using M lt unfolding st f by (cases sync) auto
  show "memory_matches E (IV co') ?st'"
    unfolding memory_matches_def st(1,2) using fr le le2 up eff(3) I by auto
  have pos: "lw_position (co_writer co') = (case cp_target_vlog_end plan of Some p \<Rightarrow> p | None \<Rightarrow> VLogPosition 0 0)"
    using O t L by (cases "pc_envelope pc") auto
  have cl: "clean (co_writer co')" if "cp_target_vlog_seq plan \<le> df_durable_vlog_seq (cs_durable_frontier ?st')"
  proof (cases sync)
    case True
    then show ?thesis using O by blast
  next
    case False
    then have "cs_durable_frontier ?st' = cs_durable_frontier ?st" using f st by simp
    then have "pc_envelope pc = None \<and> clean (co_writer co)"
      using that t lt L M by (cases "pc_envelope pc") (auto simp: word_le_nat_alt word_less_nat_alt)
    then show ?thesis using O by blast
  qed
  show "log_matches (LV co') (co_writer co') ?st'"
    unfolding log_matches_def st(2,3) using O pos cl by auto
qed

end

context commit_store
begin

abbreviation frontier_record :: "('s, 'd) coordinator \<Rightarrow> bytes option" where
  "frontier_record co \<equiv> IV co SystemKeyspace DURABLE_FRONTIER_KEY"

text \<open>A coordinator with a started request.\<close>

definition started_inv :: "env \<Rightarrow> request_id \<Rightarrow> ('s, 'd) coordinator \<Rightarrow> (bytes \<rightharpoonup> bytes) \<Rightarrow> bool" where
  "started_inv E rid co m \<longleftrightarrow> gate_busy rid (co_runtime co) \<and> wide_pages (lw_geometry (co_writer co))
     \<and> represents E (IV co) (LV co) (lw_geometry (co_writer co)) m
     \<and> memory_matches E (IV co) (co_state co) \<and> log_matches (LV co) (co_writer co) (co_state co)"

lemma failed_inv:
  assumes "gate_busy rid (co_runtime co)" and "fail_started rid operation (error, target, identity) co = (co', e)"
    and "wide_pages (lw_geometry (co_writer co))" and "represents E (IV co) (LV co) (lw_geometry (co_writer co)) m"
    and "(\<forall>t. target = Some t \<longrightarrow> t = Healthy) \<Longrightarrow>
      memory_matches E (IV co) (co_state co) \<and> log_matches (LV co) (co_writer co) (co_state co)"
  shows "coord_inv E iview view co' m \<and> IV co' = IV co \<and> LV co' = LV co
    \<and> err_outcome e = err_outcome error \<and> (err_outcome e = Some CommitUnknown \<longrightarrow> inst (co_runtime co') = Poisoned)"
proof -
  obtain rc where "co' = co\<lparr>co_runtime := rc\<rparr>" "gate_idle rc"
    "inst rc = Healthy \<longrightarrow> (\<forall>t. target = Some t \<longrightarrow> t = Healthy)" "err_outcome e = err_outcome error"
    "err_outcome error = Some CommitUnknown \<longrightarrow> inst rc = Poisoned"
    using fail_started_spec [OF assms(1,2)] by blast
  then show ?thesis using assms(3-5) by (auto simp: coord_inv_def)
qed

lemma run_started_spec:
  assumes "started_inv E rid co m" and "write_ok w" and "run_started E B K w sync random rid co = (co', r)"
  shows "\<exists>m'. coord_inv E iview view co' m' \<and> kv_outcome (write_ops w) m r m'
    \<and> (frontier_record co' \<noteq> frontier_record co \<longrightarrow> log_durable (LV co'))
    \<and> (r = Ok () \<and> sync \<longrightarrow> log_durable (LV co')
        \<and> df_durable_seq (cs_durable_frontier (co_state co')) = cs_head_seq (co_state co'))
    \<and> (\<forall>e. r = Err e \<and> err_outcome e = Some CommitUnknown \<longrightarrow> inst (co_runtime co') = Poisoned)"
proof -
  let ?op = "vw_public_operation w"
  note S = assms(1) [unfolded started_inv_def]
  have busy: "gate_busy rid (co_runtime co)" and wide: "wide_pages (lw_geometry (co_writer co))"
    and rep: "represents E (IV co) (LV co) (lw_geometry (co_writer co)) m"
    and mem: "memory_matches E (IV co) (co_state co)" and logm: "log_matches (LV co) (co_writer co) (co_state co)"
    using S by blast+
  show ?thesis
  proof (cases "preparation_stage E B w sync random co")
    case (Err error)
    obtain co1 e where f: "fail_started rid ?op (error, None, None) co = (co1, e)" by fastforce
    have r: "co' = co1" "r = Err e" using assms(3) Err f by (simp_all add: run_started_def Let_def)
    show ?thesis using failed_inv [OF busy f wide rep] mem logm unfolding r
      by (intro exI [of _ m]) (auto simp: kv_outcome_def)
  next
    case (Ok plan)
    obtain pc where pl: "planned E B w sync co plan pc" using preparation_planned [OF Ok] .
    obtain co1 r1 where s: "commit_stages E B K ?op sync plan co = (co1, r1)" by fastforce
    note O = commit_stages_spec [OF pl logm mem wide assms(2) rep s]
    have O1: "co_runtime co1 = co_runtime co" "co_state co1 = co_state co" "lw_geometry (co_writer co1) = lw_geometry (co_writer co)"
      "frontier_record co1 \<noteq> frontier_record co \<longrightarrow> log_durable (LV co1)"
      using O unfolding stages_outcome_def by blast+
    show ?thesis
    proof (cases r1)
      case (Err f)
      obtain error target identity where f: "f = (error, target, identity)" by (cases f)
      obtain t where t: "target = Some t" "t = Healthy \<longrightarrow> IV co1 = IV co \<and> co_writer co1 = co_writer co \<and> log_inv (LV co1) (co_writer co)"
        and m': "represents E (IV co1) (LV co1) (lw_geometry (co_writer co)) m
               \<or> err_outcome error = Some CommitUnknown
                 \<and> represents E (IV co1) (LV co1) (lw_geometry (co_writer co)) (apply_ops (write_ops w) m)"
        using O unfolding stages_outcome_def Err f by auto
      obtain co2 e where fs: "fail_started rid ?op (error, target, identity) co1 = (co2, e)" by fastforce
      have r: "co' = co2" "r = Err e" using assms(3) Ok s Err f fs by (simp_all add: run_started_def Let_def)
      have keep: "memory_matches E (IV co1) (co_state co1) \<and> log_matches (LV co1) (co_writer co1) (co_state co1)"
        if "\<forall>s. target = Some s \<longrightarrow> s = Healthy"
        using that t mem logm O1 by (auto simp: log_matches_def)
      obtain m' where m': "represents E (IV co1) (LV co1) (lw_geometry (co_writer co1)) m'"
        "m' = m \<or> err_outcome error = Some CommitUnknown \<and> m' = apply_ops (write_ops w) m"
        using m' O1(3) by metis
      note F = failed_inv [OF busy [folded O1(1)] fs wide [folded O1(3)] m'(1) keep]
      show ?thesis using F m'(2) O1(4) unfolding r by (intro exI [of _ m']) (auto simp: kv_outcome_def)
    next
      case r1: (Ok u)
      note pm = published_matches [OF pl logm mem assms(2) O [unfolded r1, simplified]]
      let ?co2 = "co1\<lparr>co_state := published w plan (co_state co1)\<rparr>"
      define rc where "rc = co_runtime (publish_commit_stats ?co2)"
      note P = publish_commit_stats_shape [where co = ?co2, folded rc_def]
      have b: "gate_busy rid (co_runtime (?co2\<lparr>co_runtime := rc\<rparr>))" using P(4) [of rid] busy O1(1) by simp
      let ?rc = "fst (WriteTicket_finish rid ?op rc)"
      have r: "co' = ?co2\<lparr>co_runtime := ?rc\<rparr>" "r = Ok ()"
        using assms(3) Ok s r1 P(1)
        by (simp_all add: run_started_def Let_def publish_nonempty_success_def published_def finish_ticket_def
            split: option.splits)
      have g: "gate_idle ?rc" using finish_ticket_busy(1) [OF b, of ?op] by (simp add: finish_ticket_def)
      have O2: "represents E (IV co1) (LV co1) (lw_geometry (co_writer co)) (apply_ops (write_ops w) m)"
        "sync \<longrightarrow> clean (co_writer co1)" "log_inv (LV co1) (co_writer co1)"
        using O unfolding stages_outcome_def r1 by auto
      have "coord_inv E iview view co' (apply_ops (write_ops w) m)"
        using g wide O1(2,3) O2(1) pm unfolding r coord_inv_def by simp
      moreover have "sync \<longrightarrow> log_durable (LV co1)" using O2(2,3) clean_durable by blast
      moreover have "sync \<longrightarrow> df_durable_seq (cs_durable_frontier (co_state co')) = cs_head_seq (co_state co')"
        using pl unfolding r by (auto simp: published_def planned_def Let_def)
      ultimately show ?thesis using O1(4) unfolding r
        by (intro exI [of _ "apply_ops (write_ops w) m"]) (auto simp: kv_outcome_def)
    qed
  qed
qed

end

lemma frontier_only_batch_Ok:
  assumes "frontier_only_batch E f operation = Ok b"
  obtains bs where "DurableFrontier_encode E f = Ok bs"
    "batch_writes b = [KsInsert SystemKeyspace DURABLE_FRONTIER_KEY bs]"
  using assms
  by (auto simp: frontier_only_batch_def result_simps IndexAtomicBatch_try_with_capacity_def batch_writes_def
      frontier_writes_def is_ok_iff dest!: add_frontier_Ok split: if_splits)

context commit_store
begin

lemma barrier_spec:
  assumes "started_inv E rid co m" and "commit_empty_barrier E B K rid co = (co', r)"
  shows "coord_inv E iview view co' m
    \<and> (frontier_record co' \<noteq> frontier_record co \<longrightarrow> log_durable (LV co'))
    \<and> (r = Ok () \<longrightarrow> log_durable (LV co')
        \<and> df_durable_seq (cs_durable_frontier (co_state co')) = cs_head_seq (co_state co'))
    \<and> (\<forall>e. r = Err e \<and> err_outcome e = Some CommitUnknown \<longrightarrow> inst (co_runtime co') = Poisoned)"
proof -
  let ?st = "co_state co" and ?op = Op_WriteBatch
  let ?need = "cs_head_vlog_seq ?st > df_durable_vlog_seq (cs_durable_frontier ?st)"
  let ?f = "frontier_from_optional (cs_head_seq ?st) (cs_head_vlog_seq ?st) (cs_head_vlog_end ?st)"
  have busy: "gate_busy rid (co_runtime co)" and wide: "wide_pages (lw_geometry (co_writer co))"
    and rep: "represents E (IV co) (LV co) (lw_geometry (co_writer co)) m"
    and mem: "memory_matches E (IV co) ?st" and logm: "log_matches (LV co) (co_writer co) ?st"
    using assms(1) unfolding started_inv_def by blast+
  note M = mem [unfolded memory_matches_def] and L = logm [unfolded log_matches_def]
  show ?thesis
  proof (cases "cs_head_seq ?st = df_durable_seq (cs_durable_frontier ?st)")
    case True
    then have r: "co' = finish_ticket rid ?op co" "r = Ok ()" using assms(2) by (simp_all add: commit_empty_barrier_def Let_def)
    have "log_durable (LV co)" using True M L clean_durable by auto
    then show ?thesis using finish_ticket_busy(1) [OF busy, of ?op] wide rep mem logm True unfolding r
      by (auto simp: coord_inv_def finish_ticket_def)
  next
    case lag: False
    show ?thesis
    proof (cases "frontier_only_batch E ?f ?op")
      case (Err error)
      obtain co1 e where f: "fail_started rid ?op (error, None, None) co = (co1, e)" by fastforce
      have r: "co' = co1" "r = Err e" using assms(2) Err f lag by (simp_all add: commit_empty_barrier_def Let_def)
      show ?thesis using failed_inv [OF busy f wide rep] mem logm unfolding r by auto
    next
      case (Ok b)
      obtain bs where bs: "DurableFrontier_encode E ?f = Ok bs"
        "batch_writes b = [KsInsert SystemKeyspace DURABLE_FRONTIER_KEY bs]" using frontier_only_batch_Ok [OF Ok] .
      obtain co1 r1 where s: "sync_stage K ?op ?need (cs_head_vlog_seq ?st) (cs_head_vlog_end ?st) None co = (co1, r1)" by fastforce
      have l: "log_inv (LV co) (co_writer co)" "\<not> lw_append_failed (co_writer co)" "lw_pending_sync_id (co_writer co) = None"
        using L by blast+
      note S = sync_stage_spec [OF l s]
      note a = S [THEN conjunct1] S [THEN conjunct2, THEN conjunct1] S [THEN conjunct2, THEN conjunct2, THEN conjunct1]
        and a4 = S [THEN conjunct2, THEN conjunct2, THEN conjunct2]
      have c1: "co_index co1 = co_index co" "co_runtime co1 = co_runtime co" "co_state co1 = ?st"
        by (subst a(1), simp)+
      have rep1: "represents E (IV co1) (LV co1) (lw_geometry (co_writer co1)) m"
        using represents_kept [OF rep same_log_kept [OF a(2)]] c1 a(3) by simp
      show ?thesis
      proof (cases r1)
        case (Err f)
        then obtain error identity where f: "f = (error, Some Poisoned, identity)" using a4 by (cases f) auto
        obtain co2 e where fs: "fail_started rid ?op f co1 = (co2, e)" by fastforce
        have r: "co' = co2" "r = Err e" using assms(2) Ok s Err fs lag by (simp_all add: commit_empty_barrier_def Let_def)
        show ?thesis using failed_inv [OF busy [folded c1(2)] fs [unfolded f] wide [folded a(3)] rep1] c1 unfolding r by auto
      next
        case r1: (Ok synced)
        note a4 = a4 [unfolded r1 result.case]
        have dur: "log_durable (LV co1)"
          using a4 L clean_durable by (cases synced) (auto simp: sync_pending_def not_less split: if_splits)
        have nd: "\<not> df_durable_seq (cs_durable_frontier (co_state co1)) \<ge> cs_head_seq ?st" using M lag c1(3) by auto
        obtain co2 r2 where i: "index_stage B ?op DurableFrontierStage b SyncAll synced None co1 = (co2, r2)" by fastforce
        have dt: "distinct_targets (batch_writes b)" by (simp add: bs(2) distinct_targets_def)
        note I = index_stage_spec [OF dt i]
        have user: "apply_writes (batch_writes b) V UserKeyspace = V UserKeyspace" for V
          by (simp add: bs(2) apply_writes_def fun_eq_iff)
        show ?thesis
        proof (cases r2)
          case (Err f)
          obtain error target identity where f: "f = (error, target, identity)" by (cases f)
          have J: "\<exists>s lw. co2 = co1\<lparr>co_index := s, co_writer := lw\<rparr> \<and> lw_geometry lw = lw_geometry (co_writer co1)"
            "\<exists>t. target = Some t \<and> t \<noteq> Healthy" "IV co2 = IV co1 \<or> IV co2 = apply_writes (batch_writes b) (IV co1)"
            using I unfolding Err f by auto
          have c2: "LV co2 = LV co1" "co_runtime co2 = co_runtime co" "lw_geometry (co_writer co2) = lw_geometry (co_writer co1)"
            using J(1) c1 by auto
          have rep2: "represents E (IV co2) (LV co2) (lw_geometry (co_writer co2)) m"
            using represents_cong [OF rep1, of "IV co2"] J(3) user c2 by auto
          obtain co3 e where fs: "fail_started rid ?op f co2 = (co3, e)" by fastforce
          have r: "co' = co3" "r = Err e"
            using assms(2) Ok s r1 i Err fs lag nd by (simp_all add: commit_empty_barrier_def Let_def)
          show ?thesis
            using failed_inv [OF busy [folded c2(2)] fs [unfolded f] wide [folded a(3), folded c2(3)] rep2] J(2) dur c2(1)
            unfolding r by auto
        next
          case r2: (Ok u)
          obtain s where s2: "co2 = finish_frontier_after_success synced ?op (co1\<lparr>co_index := s\<rparr>)"
            "iview s = apply_writes (batch_writes b) (IV co)" using I c1(1) unfolding r2 by auto
          obtain lw where lw: "co2 = co1\<lparr>co_index := s, co_writer := lw\<rparr>" "log_inv (LV co1) lw"
            "lw_pending_sync_id lw = None" "\<not> lw_append_failed lw" "lw_position lw = lw_position (co_writer co1)"
            "lw_geometry lw = lw_geometry (co_writer co)" "if synced = None then lw = co_writer co1 else clean lw"
            using finish_frontier_spec [of "co1\<lparr>co_index := s\<rparr>" synced ?op] s2(1) a4 a(3) by auto
          let ?co3 = "co2\<lparr>co_state := ?st\<lparr>cs_durable_frontier := ?f\<rparr>\<rparr>"
          define rc where "rc = co_runtime (publish_commit_stats ?co3)"
          note P = publish_commit_stats_shape [where co = ?co3, folded rc_def]
          have bz: "gate_busy rid (co_runtime (?co3\<lparr>co_runtime := rc\<rparr>))" using P(4) [of rid] busy c1(2) lw(1) by simp
          let ?rc = "fst (WriteTicket_finish rid ?op rc)"
          have r: "co' = ?co3\<lparr>co_runtime := ?rc\<rparr>" "r = Ok ()"
            using assms(2) Ok s r1 i r2 P(1) lag nd lw(1) c1(3)
            by (simp_all add: commit_empty_barrier_def Let_def publish_empty_barrier_success_def finish_ticket_def)
          have g: "gate_idle ?rc" using finish_ticket_busy(1) [OF bz, of ?op] by (simp add: finish_ticket_def)
          have cl: "clean lw" using lw(7) a4 L by (cases synced) (auto simp: not_less split: if_splits)
          have "memory_matches E (iview s) (?st\<lparr>cs_durable_frontier := ?f\<rparr>)"
            using M bs unfolding s2(2) memory_matches_def by (auto simp: apply_writes_def)
          moreover have "log_matches (LV co1) lw (?st\<lparr>cs_durable_frontier := ?f\<rparr>)"
            using L lw(2-6) a4 cl unfolding log_matches_def by auto
          moreover have "represents E (iview s) (LV co1) (lw_geometry lw) m"
            using represents_cong [OF rep1, of "iview s"] s2(2) user c1(1) a(3) lw(6) by simp
          ultimately show ?thesis using g wide lw(1,6) dur unfolding r coord_inv_def by simp
        qed
      qed
    qed
  qed
qed

end

end
