(* ===== verification/Database.thy ===== *)
theory Database
  imports CoordinatorLog LifecycleControl
begin

text \<open>
  The handle a client holds (\<open>src/db.rs\<close>): puts, deletes, batches and reads on top of the
  coordinator, the value log reader and the lifecycle controller. A read that fails may latch the
  instance; a snapshot is a view of the index that no later write changes (\<open>src/snapshot.rs\<close>).
  Parameters: the index backend \<open>B\<close>, the operating system \<open>K\<close> under the value log, and for each write
  the random bytes of its transaction id.
\<close>

section \<open>State\<close>

definition DB_MAX_KEY_VALUE_SIZE :: nat where
  "DB_MAX_KEY_VALUE_SIZE = 60000"

record user_index_snapshot =
  ix_get_user_pointer :: "bytes \<Rightarrow> bytes option res"
  ix_iter_user :: "index_entry res list res"
  ix_iter_user_range :: "user_key_range \<Rightarrow> index_entry res list res"

record snapshot =
  sp_db :: nat
  sp_view :: user_index_snapshot

record cleanup_worker =
  cw_sender :: bool
  cw_connected :: bool
  cw_pending :: bool

record ('s, 'd) database =
  db_id :: nat
  db_coordinator :: "('s, 'd) coordinator"
  db_lifecycle :: lifecycle_inner
  db_reader :: vlog_reader
  db_cleanup :: cleanup_worker

abbreviation db_runtime :: "('s, 'd) database \<Rightarrow> runtime_control" where
  "db_runtime db \<equiv> co_runtime (db_coordinator db)"

definition set_runtime :: "runtime_control \<Rightarrow> ('s, 'd) database \<Rightarrow> ('s, 'd) database" where
  "set_runtime rc db = db\<lparr>db_coordinator := (db_coordinator db)\<lparr>co_runtime := rc\<rparr>\<rparr>"

text \<open>The backend's view behind a snapshot.\<close>

definition fjall_snapshot_view :: "env \<Rightarrow> 'db fjall_ops \<Rightarrow> 'db fjall_backend \<Rightarrow> user_index_snapshot res" where
  "fjall_snapshot_view E F s =
     and_then (FjallBackend_snapshot s) (\<lambda>snapshot.
       Ok \<lparr>ix_get_user_pointer = (\<lambda>key. FjallBackend_get_user E F s key (Some snapshot)),
           ix_iter_user = FjallBackend_iter_user E F s (Some snapshot),
           ix_iter_user_range = FjallBackend_iter_user_range E F s (Some snapshot)\<rparr>)"

section \<open>Errors\<close>

definition poisoned_read_error :: "operation \<Rightarrow> storage_error" where
  "poisoned_read_error operation = read_operation_error StoragePoisoned operation Poisoned ReopenAndVerify"

definition invalid_read_argument :: "operation \<Rightarrow> instance_state \<Rightarrow> storage_error" where
  "invalid_read_argument operation state =
     read_operation_error InvalidArgument operation state FixRequestAndRetrySameInstance"

definition lifecycle_admission_error :: "operation \<Rightarrow> instance_state \<Rightarrow> storage_error" where
  "lifecycle_admission_error operation state =
     (codec_error StoragePoisoned operation Admission
        (if operation \<in> {Op_Put, Op_Delete, Op_WriteBatch, Op_Sync} then Some NotCommitted else None)
        ReopenAndVerify)\<lparr>err_state := Some state\<rparr>"

definition background_worker_stopped_error :: storage_error where
  "background_worker_stopped_error = codec_error StoragePoisoned Op_Background Maintenance None ReopenAndVerify"

datatype read_failure_domain = IndexDomain | ValueLogDomain

definition failure_target :: "read_failure_domain \<Rightarrow> storage_error_kind \<Rightarrow> instance_state option" where
  "failure_target domain kind =
     (if kind \<in> {Busy, ResourceExhausted} then None
      else if kind \<in> {Io, StorageWriteStopped} \<and> domain = ValueLogDomain then Some WriteStopped
      else if domain = IndexDomain \<and> kind = StorageWriteStopped then Some WriteStopped
      else Some Poisoned)"

definition read_retry_advice ::
  "read_failure_domain \<Rightarrow> storage_error_kind \<Rightarrow> instance_state \<Rightarrow> retry_advice" where
  "read_retry_advice domain kind final =
     (if final = Poisoned
      then (if kind \<in> {Corruption, InvalidLayout, Unrecoverable} then RestoreOrRepair
            else if kind \<in> {IncompatibleFormat, InvalidArgument, NotFound, Unsupported, CapacityExceeded} then DoNotRetry
            else ReopenAndVerify)
      else if kind = InvalidArgument then FixRequestAndRetrySameInstance
      else if kind \<in> {Busy, ResourceExhausted} then RetrySameInstance
      else if kind \<in> {Io, StorageWriteStopped} then FixEnvironmentAndReopen
      else if kind = StoragePoisoned then ReopenAndVerify
      else if kind \<in> {Corruption, InvalidLayout, Unrecoverable} then RestoreOrRepair
      else DoNotRetry)"

section \<open>Operations in flight\<close>

definition begin_operation :: "operation \<Rightarrow> (('s, 'd) database, unit, storage_error) act" where
  "begin_operation operation db =
     (case acquire_operation \<lparr>lc_inner = db_lifecycle db, lc_bound = True, lc_runtime = db_runtime db\<rparr> of
        (c, True) \<Rightarrow> (db\<lparr>db_lifecycle := lc_inner c\<rparr>, Ok ())
      | (c, False) \<Rightarrow> (db, Err (lifecycle_admission_error operation (inst (db_runtime db)))))"

definition end_operation :: "('s, 'd) database \<Rightarrow> ('s, 'd) database" where
  "end_operation db =
     (let (c, _) = release_operation_guard
        \<lparr>lc_inner = db_lifecycle db, lc_bound = True, lc_runtime = db_runtime db\<rparr>
      in db\<lparr>db_lifecycle := lc_inner c\<rparr>)"

definition in_operation ::
  "operation \<Rightarrow> (('s, 'd) database, 'a, storage_error) act \<Rightarrow> (('s, 'd) database, 'a, storage_error) act" where
  "in_operation operation body db =
     (case begin_operation operation db of
        (db, Err e) \<Rightarrow> (db, Err e)
      | (db, Ok _) \<Rightarrow> let (db, r) = body db in (end_operation db, r))"

section \<open>Reading\<close>

definition handle_read_failure ::
  "storage_error \<Rightarrow> read_failure_domain \<Rightarrow> operation \<Rightarrow> ('s, 'd) database \<Rightarrow> ('s, 'd) database \<times> storage_error" where
  "handle_read_failure error domain operation db =
     (let error = error\<lparr>err_operation := operation, err_stage := ReadStage, err_outcome := None\<rparr>;
          target = failure_target domain (err_kind error);
          expected_state = (case target of Some t \<Rightarrow> t | None \<Rightarrow> inst (db_runtime db));
          error = error\<lparr>err_retry := read_retry_advice domain (err_kind error) expected_state\<rparr>;
          (db, state) = (case target of
             Some t \<Rightarrow> let (rc, transition) = latch_failure t error (db_runtime db)
                        in (set_runtime rc db, ss_instance_state (tr_current transition))
           | None \<Rightarrow> (db, inst (db_runtime db)))
      in (db, error\<lparr>err_state := Some state, err_retry := read_retry_advice domain (err_kind error) state\<rparr>))"

definition begin_read :: "operation \<Rightarrow> ('s, 'd) database \<Rightarrow> state_snapshot res" where
  "begin_read operation db =
     (if inst (db_runtime db) = Poisoned then Err (poisoned_read_error operation)
      else Ok (runtime_state (db_runtime db)))"

definition complete_read :: "state_snapshot \<Rightarrow> operation \<Rightarrow> ('s, 'd) database \<Rightarrow> unit res" where
  "complete_read started operation db =
     (let current = runtime_state (db_runtime db) in
      if ss_instance_state current = Poisoned \<and> ss_state_epoch current \<noteq> ss_state_epoch started
      then Err (poisoned_read_error operation) else Ok ())"

definition belongs_to :: "snapshot \<Rightarrow> ('s, 'd) database \<Rightarrow> bool" where
  "belongs_to sn db \<longleftrightarrow> sp_db sn = db_id db"

definition on_values :: "('d, 'a) log_act \<Rightarrow> (('s, 'd) database, 'a, storage_error) act" where
  "on_values m db =
     (let (w, r) = m (co_log (db_coordinator db))
      in (db\<lparr>db_coordinator := (db_coordinator db)\<lparr>co_log := w\<rparr>\<rparr>, r))"

definition failing_read ::
  "storage_error \<Rightarrow> read_failure_domain \<Rightarrow> operation \<Rightarrow> (('s, 'd) database, 'a, storage_error) act" where
  "failing_read error domain operation db =
     (let (db, error) = handle_read_failure error domain operation db in (db, Err error))"

definition read_at ::
  "env \<Rightarrow> 'd os_ops \<Rightarrow> state_snapshot \<Rightarrow> operation \<Rightarrow> bytes \<Rightarrow> bytes \<Rightarrow> (('s, 'd) database, bytes, storage_error) act" where
  "read_at E K started operation encoded_pointer key db =
     (case on_values (read_value E K (db_reader db) encoded_pointer key) db of
        (db, Err error) \<Rightarrow> failing_read error ValueLogDomain operation db
      | (db, Ok val) \<Rightarrow>
          (case complete_read started operation db of Err e \<Rightarrow> (db, Err e) | Ok _ \<Rightarrow> (db, Ok val)))"

definition DbInner_get ::
  "env \<Rightarrow> 's backend_ops \<Rightarrow> 'd os_ops \<Rightarrow> snapshot option \<Rightarrow> bytes \<Rightarrow> (('s, 'd) database, bytes option, storage_error) act" where
  "DbInner_get E B K sn key db =
     (case begin_read Op_Get db of
        Err e \<Rightarrow> (db, Err e)
      | Ok started \<Rightarrow>
          if key = [] \<or> length key > DB_MAX_KEY_VALUE_SIZE
          then (db, Err (read_error InvalidArgument (ss_instance_state started) FixRequestAndRetrySameInstance))
          else if \<exists>s. sn = Some s \<and> \<not> belongs_to s db
          then (db, Err (invalid_read_argument Op_Get (ss_instance_state started)))
          else
            (case (case sn of
                     Some s \<Rightarrow> ix_get_user_pointer (sp_view s) key
                   | None \<Rightarrow> bk_get_user B (co_index (db_coordinator db)) key) of
               Err error \<Rightarrow> failing_read error IndexDomain Op_Get db
             | Ok None \<Rightarrow> (db, map_ok (\<lambda>_. None) (complete_read started Op_Get db))
             | Ok (Some encoded_pointer) \<Rightarrow>
                 (case read_at E K started Op_Get encoded_pointer key db of
                    (db, r) \<Rightarrow> (db, map_ok Some r))))"

definition Db_get ::
  "env \<Rightarrow> 's backend_ops \<Rightarrow> 'd os_ops \<Rightarrow> snapshot option \<Rightarrow> bytes \<Rightarrow> (('s, 'd) database, bytes option, storage_error) act" where
  "Db_get E B K sn key = in_operation Op_Get (DbInner_get E B K sn key)"

definition select_read_view ::
  "('s \<Rightarrow> user_index_snapshot res) \<Rightarrow> snapshot option \<Rightarrow> operation \<Rightarrow> state_snapshot \<Rightarrow>
   (('s, 'd) database, user_index_snapshot, storage_error) act" where
  "select_read_view V sn operation started db =
     (case sn of
        Some s \<Rightarrow> if belongs_to s db then (db, Ok (sp_view s))
                  else (db, Err (invalid_read_argument operation (ss_instance_state started)))
      | None \<Rightarrow>
          (case V (co_index (db_coordinator db)) of
             Ok view \<Rightarrow> (db, Ok view)
           | Err error \<Rightarrow> failing_read error IndexDomain operation db))"

definition Db_snapshot :: "('s \<Rightarrow> user_index_snapshot res) \<Rightarrow> (('s, 'd) database, snapshot, storage_error) act" where
  "Db_snapshot V =
     in_operation Op_Snapshot (\<lambda>db.
       case begin_read Op_Snapshot db of
         Err e \<Rightarrow> (db, Err e)
       | Ok started \<Rightarrow>
           (case select_read_view V None Op_Snapshot started db of
              (db, Err e) \<Rightarrow> (db, Err e)
            | (db, Ok view) \<Rightarrow>
                (case complete_read started Op_Snapshot db of
                   Err e \<Rightarrow> (db, Err e)
                 | Ok _ \<Rightarrow>
                     (db\<lparr>db_lifecycle := lc_inner (clone_external_lease
                          \<lparr>lc_inner = db_lifecycle db, lc_bound = True, lc_runtime = db_runtime db\<rparr>)\<rparr>,
                      Ok \<lparr>sp_db = db_id db, sp_view = view\<rparr>))))"

definition Db_stats :: "('s, 'd) database \<Rightarrow> db_stats" where
  "Db_stats db = runtime_stats (db_runtime db)"

section \<open>Writing\<close>

definition cleanup_trigger :: "('s, 'd) database \<Rightarrow> ('s, 'd) database" where
  "cleanup_trigger db =
     (let worker = db_cleanup db in
      if \<not> cw_sender worker then db
      else if cw_connected worker then db\<lparr>db_cleanup := worker\<lparr>cw_pending := True\<rparr>\<rparr>
      else set_runtime (fst (latch_failure Poisoned background_worker_stopped_error (db_runtime db))) db)"

definition commit_write ::
  "env \<Rightarrow> 's backend_ops \<Rightarrow> 'd os_ops \<Rightarrow> operation \<Rightarrow> validated_write res \<Rightarrow> bool \<Rightarrow> (uuid, int option) result \<Rightarrow>
   ('s, 'd) database \<Rightarrow> ('s, 'd) database \<times> unit res progress" where
  "commit_write E B K operation checked sync random db =
     (case check_write_admission operation (db_runtime db) of
        Err e \<Rightarrow> (db, Done (Err e))
      | Ok _ \<Rightarrow>
          (case checked of
             Err e \<Rightarrow> (db, Done (Err e))
           | Ok w \<Rightarrow>
               (case commit_nonempty E B K w random (db_coordinator db) of
                  (co, result) \<Rightarrow>
                    let db = db\<lparr>db_coordinator := co\<rparr>
                    in (if result = Done (Ok ()) \<and> sync then cleanup_trigger db else db, result))))"

text \<open>The guard of an operation is held until the operation is done.\<close>

definition write_operation ::
  "operation \<Rightarrow> (('s, 'd) database \<Rightarrow> ('s, 'd) database \<times> unit res progress) \<Rightarrow>
   ('s, 'd) database \<Rightarrow> ('s, 'd) database \<times> unit res progress" where
  "write_operation operation body db =
     (case begin_operation operation db of
        (db, Err e) \<Rightarrow> (db, Done (Err e))
      | (db, Ok _) \<Rightarrow>
          (case body db of
             (db, Blocked rid) \<Rightarrow> (db, Blocked rid)
           | (db, Done r) \<Rightarrow> (end_operation db, Done r)))"

definition Db_put ::
  "env \<Rightarrow> 's backend_ops \<Rightarrow> 'd os_ops \<Rightarrow> bool \<Rightarrow> bytes \<Rightarrow> bytes \<Rightarrow> (uuid, int option) result \<Rightarrow>
   ('s, 'd) database \<Rightarrow> ('s, 'd) database \<times> unit res progress" where
  "Db_put E B K sync key val random =
     write_operation Op_Put (commit_write E B K Op_Put (preflight_put E key val sync) sync random)"

definition Db_delete ::
  "env \<Rightarrow> 's backend_ops \<Rightarrow> 'd os_ops \<Rightarrow> bool \<Rightarrow> bytes \<Rightarrow> (uuid, int option) result \<Rightarrow>
   ('s, 'd) database \<Rightarrow> ('s, 'd) database \<times> unit res progress" where
  "Db_delete E B K sync key random =
     write_operation Op_Delete (commit_write E B K Op_Delete (preflight_delete E key sync) sync random)"

definition write_empty ::
  "env \<Rightarrow> 's backend_ops \<Rightarrow> 'd os_ops \<Rightarrow> bool \<Rightarrow> ('s, 'd) database \<Rightarrow> ('s, 'd) database \<times> unit res progress" where
  "write_empty E B K sync db =
     (let durable_before = sn_durable_seq (coordinator_state_snapshot (db_coordinator db));
          (co, result) = commit_empty_batch E B K sync (db_coordinator db);
          durable_after = sn_durable_seq (coordinator_state_snapshot co);
          db = db\<lparr>db_coordinator := co\<rparr>
      in (if result = Done (Ok ()) \<and> sync \<and> durable_after > durable_before then cleanup_trigger db else db, result))"

definition Db_write ::
  "env \<Rightarrow> 's backend_ops \<Rightarrow> 'd os_ops \<Rightarrow> bool \<Rightarrow> write_batch \<Rightarrow> (uuid, int option) result \<Rightarrow>
   ('s, 'd) database \<Rightarrow> ('s, 'd) database \<times> unit res progress" where
  "Db_write E B K sync batch random =
     write_operation Op_WriteBatch (\<lambda>db.
       if WriteBatch_is_empty batch then write_empty E B K sync db
       else commit_write E B K Op_WriteBatch (preflight_batch E batch sync) sync random db)"

end
