(* ===== verification/DatabaseLog.thy ===== *)
theory DatabaseLog
  imports Database
begin

text \<open>
  What clients of the handle rely on: the database is a map from keys to values. A write that
  returns Ok has happened, one that fails has not, unless its error says that it may have, and then
  no later write is accepted; a read returns what the map holds. Reads and writes share the value
  log's files, whose cached handles stay those of the files they were opened for.
\<close>

section \<open>The cache of open files\<close>

lemma on_disk_cache: "on_disk m w = (w', r) \<Longrightarrow> wd_cache w' = wd_cache w"
  by (auto simp: on_disk_eq)

lemma named_call_cache: "named_call m f w w' r \<Longrightarrow> wd_cache w' = wd_cache w"
  by (auto simp: named_call_def split: if_splits)

lemma act_bind_cases:
  assumes "act_bind m f s = (s', r)"
  obtains (err) e where "m s = (s', Err e)" "r = Err e" | (ok) x s1 where "m s = (s1, Ok x)" "f x s1 = (s', r)"
  using assms by (cases "m s"; cases "snd (m s)") (auto simp: act_bind_def)

lemma act_map_err_eq: "act_map_err g m s = (s', r) \<longleftrightarrow> (\<exists>x. m s = (s', x) \<and> r = map_err g x)"
  by (auto simp: act_map_err_def split: prod.splits result.splits)

lemma catalog_register_cache: "catalog_register K f h w = (w', r) \<Longrightarrow> wd_cache w' = wd_cache w"
  by (auto simp: catalog_register_def act_fail_def act_bind_def act_map_err_def on_disk_eq Let_def
      dest!: on_disk_cache split: if_splits prod.splits result.splits)

lemma catalog_verify_cache: "catalog_verify K f h w = (w', r) \<Longrightarrow> wd_cache w' = wd_cache w"
  by (auto simp: catalog_verify_def catalog_identity_def act_return_def act_fail_def act_bind_def act_map_err_def
      dest!: on_disk_cache split: if_splits prod.splits result.splits)

lemma write_all_cache:
  "write_all_positioned (\<lambda>bs off. on_disk (os_write_at K h bs off)) bs start n i t w = (w', r) \<Longrightarrow> wd_cache w' = wd_cache w"
proof (induction "\<lambda>bs off. on_disk (os_write_at K h bs off)" bs start n i t w rule: write_all_positioned.induct)
  case (1 start n i t w)
  then show ?case by (simp add: write_all_positioned.simps)
next
  case (2 b bs start n i t w)
  show ?case
  proof (cases "checked_add start n")
    case None
    then show ?thesis using "2.prems" by (simp add: write_all_positioned.simps(2))
  next
    case (Some off)
    obtain w1 x where x: "on_disk (os_write_at K h (b # bs) off) w = (w1, x)" by fastforce
    show ?thesis
    proof (cases x)
      case (Ok k)
      then show ?thesis using "2.prems" Some x on_disk_cache [OF x] "2.hyps"(1) [OF Some x [symmetric] Ok]
        by (auto simp: write_all_positioned.simps(2) split: if_splits option.splits)
    next
      case (Err e)
      then show ?thesis using "2.prems" Some x on_disk_cache [OF x] "2.hyps"(2-3) [OF Some x [symmetric] Err]
        by (auto simp: write_all_positioned.simps(2) split: if_splits)
    qed
  qed
qed

lemma ensure_file_cache: "ensure_file_for_chunk K seq p (lw, w) = ((lw', w'), r) \<Longrightarrow> wd_cache w' = wd_cache w"
  by (auto simp: ensure_file_for_chunk_def Let_def directory_calls dest!: named_call_cache
      split: append_state.splits option.splits prod.splits result.splits if_splits)

lemma rollback_cache: "rollback_new_empty_file K f st (lw, w) = ((lw', w'), r) \<Longrightarrow> wd_cache w' = wd_cache w"
  by (auto simp: rollback_new_empty_file_def Let_def directory_calls dest!: named_call_cache on_disk_cache
      split: append_state.splits prod.splits result.splits if_splits)

lemma write_chunk_bytes_cache: "write_chunk_bytes K seq b st c (lw, w) = ((lw', w'), r) \<Longrightarrow> wd_cache w' = wd_cache w"
  by (auto simp: write_chunk_bytes_def Let_def dest!: write_all_cache
      split: append_state.splits option.splits prod.splits result.splits if_splits)

lemma finish_chunk_cache: "finish_chunk K seq (lw, w) = ((lw', w'), r) \<Longrightarrow> wd_cache w' = wd_cache w"
  by (auto simp: finish_chunk_def Let_def dest!: catalog_register_cache
      split: append_state.splits prod.splits result.splits if_splits)

lemma write_chunk_cache:
  assumes "write_chunk K seq b c (lw, w) = ((lw', w'), r)"
  shows "wd_cache w' = wd_cache w"
proof -
  obtain lw1 w1 r1 where e: "ensure_file_for_chunk K seq (chunk_position c) (lw, w) = ((lw1, w1), r1)" by (metis surj_pair)
  note c1 = ensure_file_cache [OF e]
  show ?thesis
  proof (cases r1)
    case (Err x)
    then show ?thesis using assms e c1 by (simp add: write_chunk_def)
  next
    case (Ok st)
    obtain lw2 w2 r2 where wr: "write_chunk_bytes K seq b st c (lw1, w1) = ((lw2, w2), r2)" by (metis surj_pair)
    note c2 = write_chunk_bytes_cache [OF wr]
    show ?thesis
    proof (cases r2)
      case (Ok u)
      then show ?thesis using assms e \<open>r1 = Ok st\<close> wr c1 c2 finish_chunk_cache by (fastforce simp: write_chunk_def)
    next
      case (Err x)
      then show ?thesis using assms e Ok wr c1 c2
        by (auto simp: write_chunk_def dest!: rollback_cache
            split: append_state.splits option.splits prod.splits result.splits if_splits bool.splits)
    qed
  qed
qed

lemma write_chunks_cache: "write_chunks K seq b cs (lw, w) = ((lw', w'), r) \<Longrightarrow> wd_cache w' = wd_cache w"
proof (induction cs arbitrary: lw w)
  case (Cons c cs)
  obtain lw1 w1 r1 where s: "write_chunk K seq b c (lw, w) = ((lw1, w1), r1)" by (metis surj_pair)
  show ?case using Cons write_chunk_cache [OF s] s by (cases r1) (auto split: if_splits)
qed simp

lemma append_cache: "ValueLogWriter_append E K e (lw, w) = ((lw', w'), r) \<Longrightarrow> wd_cache w' = wd_cache w"
  by (auto simp: ValueLogWriter_append_def dest!: write_chunks_cache split: result.splits prod.splits if_splits)

lemma sync_one_cache: "sync_one_file K f seq lw w = (w', r) \<Longrightarrow> wd_cache w' = wd_cache w"
  by (auto simp: sync_one_file_def sync_closed_file_def act_bind_def act_map_err_def directory_calls
      dest!: named_call_cache on_disk_cache catalog_verify_cache
      split: append_state.splits prod.splits result.splits if_splits)

lemma sync_files_cache: "sync_files K seq lw fs w = (w', r) \<Longrightarrow> wd_cache w' = wd_cache w"
  by (induction fs arbitrary: w) (auto simp: act_return_def elim!: act_bind_cases dest!: sync_one_cache)

lemma sync_through_cache: "sync_through K seq stop (lw, w) = ((lw', w'), r) \<Longrightarrow> wd_cache w' = wd_cache w"
  by (auto simp: sync_through_def Let_def act_map_err_def directory_sync_def dest!: sync_files_cache on_disk_cache
      split: result.splits prod.splits if_splits option.splits)

section \<open>What a request leaves of the log\<close>

lemma grows_steps [simp]:
  "co_log (finish_ticket rid op co) = co_log co" "co_writer (finish_ticket rid op co) = co_writer co"
  "co_log (publish_commit_stats co) = co_log co" "co_writer (publish_commit_stats co) = co_writer co"
  "co_log (finish_frontier_after_success t op co) = co_log co" "co_log (abandon_frontier t co) = co_log co"
  by (simp_all add: finish_ticket_def publish_commit_stats_def finish_frontier_after_success_def abandon_frontier_def
      Let_def split: option.splits prod.splits result.splits)

lemma grows_geometry [simp]:
  "lw_geometry (co_writer (finish_frontier_after_success t op co)) = lw_geometry (co_writer co)"
  "lw_geometry (co_writer (abandon_frontier t co)) = lw_geometry (co_writer co)"
  by (simp_all add: finish_frontier_after_success_def abandon_frontier_def frontier_succeeded_def frontier_failed_def
      split: option.splits prod.splits result.splits)

lemma fail_started_log: "fail_started rid op f co = (co', e) \<Longrightarrow> co_log co' = co_log co \<and> co_writer co' = co_writer co"
  by (auto simp: fail_started_def Let_def split: prod.splits)

lemma append_stage_cache: "append_stage E K op pc co = (co', r) \<Longrightarrow> wd_cache (co_log co') = wd_cache (co_log co)"
  by (auto simp: append_stage_def on_writer_def Let_def dest!: append_cache split: option.splits prod.splits result.splits)

lemma sync_stage_cache:
  "sync_stage K op needed seq stop identity co = (co', r) \<Longrightarrow> wd_cache (co_log co') = wd_cache (co_log co)"
  by (auto simp: sync_stage_def on_writer_def dest!: sync_through_cache split: if_splits prod.splits result.splits)

lemma index_stage_log:
  "index_stage B op stage b mode t identity co = (co', r) \<Longrightarrow>
     co_log co' = co_log co \<and> lw_geometry (co_writer co') = lw_geometry (co_writer co)"
  by (auto simp: index_stage_def Let_def split: prod.splits result.splits)

context commit_store
begin

definition grows :: "('s, 'd) coordinator \<Rightarrow> ('s, 'd) coordinator \<Rightarrow> bool" where
  "grows co co' \<longleftrightarrow> kept (LV co) (LV co') \<and> wd_cache (co_log co') = wd_cache (co_log co)
     \<and> lw_geometry (co_writer co') = lw_geometry (co_writer co)"

lemma grows_refl [simp]: "grows co co" by (simp add: grows_def)

lemma grows_trans: "grows co co1 \<Longrightarrow> grows co1 co2 \<Longrightarrow> grows co co2"
  unfolding grows_def using kept_trans by metis

lemma grows_same: "co_log co' = co_log co \<Longrightarrow> lw_geometry (co_writer co') = lw_geometry (co_writer co) \<Longrightarrow> grows co co'"
  by (simp add: grows_def)

definition log_ready :: "('s, 'd) coordinator \<Rightarrow> bool" where
  "log_ready co \<longleftrightarrow> log_inv (LV co) (co_writer co) \<and> \<not> lw_append_failed (co_writer co)
     \<and> lw_pending_sync_id (co_writer co) = None"

lemma append_stage_grows:
  assumes "log_ready co" and "append_stage E K op pc co = (co', r)"
  shows "grows co co' \<and> (\<forall>u. r = Ok u \<longrightarrow> log_ready co')"
  using append_stage_spec [OF _ _ _ assms(2)] append_stage_cache [OF assms(2)] assms(1)
  by (cases r) (auto simp: grows_def log_ready_def)

lemma sync_stage_grows:
  assumes "log_ready co" and "sync_stage K op needed seq stop identity co = (co', r)"
  shows "grows co co'"
  using sync_stage_spec [OF _ _ _ assms(2)] sync_stage_cache [OF assms(2)] assms(1) same_log_kept
  by (auto simp: grows_def log_ready_def)

lemma commit_stages_grows:
  assumes "log_ready co" and "commit_stages E B K op sync plan co = (co', r)"
  shows "grows co co'"
proof -
  let ?i = "Some (pc_commit_seq (cp_prepared plan), pc_tx_uuid (cp_prepared plan))"
  obtain co1 r1 where a: "append_stage E K op (cp_prepared plan) co = (co1, r1)" by fastforce
  note A = append_stage_grows [OF assms(1) a]
  show ?thesis
  proof (cases r1)
    case (Err f)
    then show ?thesis using assms(2) a A by (simp add: commit_stages_def Let_def act_bind_def)
  next
    case (Ok u)
    obtain co2 r2 where s: "sync_stage K op (sync \<and> cp_target_vlog_seq plan > df_durable_vlog_seq (cs_durable_frontier (co_state co)))
        (cp_target_vlog_seq plan) (cp_target_vlog_end plan) ?i co1 = (co2, r2)" by fastforce
    have g2: "grows co co2" using grows_trans A sync_stage_grows [OF _ s] Ok by blast
    show ?thesis
      using assms(2) a Ok s g2 grows_trans [OF g2 grows_same]
      by (cases r2) (auto simp: commit_stages_def Let_def act_bind_def dest!: index_stage_log)
  qed
qed

lemma run_started_grows:
  assumes "log_ready co" and "run_started E B K w sync random rid co = (co', r)"
  shows "grows co co'"
proof (cases "preparation_stage E B w sync random co")
  case (Err e)
  then show ?thesis using assms(2) fail_started_log
    by (fastforce simp: run_started_def Let_def intro!: grows_same split: prod.splits)
next
  case (Ok plan)
  obtain co1 r1 where s: "commit_stages E B K (vw_public_operation w) sync plan co = (co1, r1)" by fastforce
  have "grows co1 co'" using assms(2) Ok s fail_started_log
    by (cases r1) (fastforce simp: run_started_def publish_nonempty_success_def Let_def intro!: grows_same split: prod.splits)+
  then show ?thesis using commit_stages_grows [OF assms(1) s] grows_trans by blast
qed

lemma barrier_grows:
  assumes "log_ready co" and "commit_empty_barrier E B K rid co = (co', r)"
  shows "grows co co'"
proof -
  let ?st = "co_state co"
  obtain co1 r1 where s: "sync_stage K Op_WriteBatch (cs_head_vlog_seq ?st > df_durable_vlog_seq (cs_durable_frontier ?st))
      (cs_head_vlog_seq ?st) (cs_head_vlog_end ?st) None co = (co1, r1)" by fastforce
  note S = sync_stage_grows [OF assms(1) s]
  have "grows co co' \<or> grows co1 co'"
    using assms(2) s
    by (auto simp: commit_empty_barrier_def publish_empty_barrier_success_def Let_def
        dest!: fail_started_log index_stage_log intro: grows_same split: if_splits result.splits prod.splits)
  then show ?thesis using S grows_trans by blast
qed

end

section \<open>Writes\<close>

lemma admission_error_outcome [simp]: "err_outcome (admission_error op st) = Some NotCommitted"
  by (simp add: admission_error_def error_constructors Let_def split: prod.splits)

lemma coord_inv_runtime:
  assumes "coord_inv E iv dv co m" and "gate_idle rc" and "inst rc = Healthy \<Longrightarrow> inst (co_runtime co) = Healthy"
  shows "coord_inv E iv dv (co\<lparr>co_runtime := rc\<rparr>) m"
  using assms by (auto simp: coord_inv_def)

lemma apply_ops_Nil [simp]: "apply_ops [] m = m" by (simp add: apply_ops_def)

context commit_store
begin

text \<open>What a write does, whatever happens to it.\<close>

definition write_effect ::
  "env \<Rightarrow> bool \<Rightarrow> normalized_operation list \<Rightarrow> ('s, 'd) coordinator \<Rightarrow> (bytes \<rightharpoonup> bytes) \<Rightarrow> unit res \<Rightarrow>
   ('s, 'd) coordinator \<Rightarrow> (bytes \<rightharpoonup> bytes) \<Rightarrow> bool" where
  "write_effect E sync ops co m r co' m' \<longleftrightarrow>
     coord_inv E iview view co' m' \<and> kv_outcome ops m r m' \<and> grows co co'
     \<and> (frontier_record co' \<noteq> frontier_record co \<longrightarrow> log_durable (LV co'))
     \<and> (r = Ok () \<and> sync \<longrightarrow> log_durable (LV co')
         \<and> df_durable_seq (cs_durable_frontier (co_state co')) = cs_head_seq (co_state co'))
     \<and> (\<forall>e. r = Err e \<and> err_outcome e = Some CommitUnknown \<longrightarrow> inst (co_runtime co') = Poisoned)
     \<and> (inst (co_runtime co) \<noteq> Healthy \<longrightarrow> inst (co_runtime co') \<noteq> Healthy
         \<and> (\<exists>e. r = Err e \<and> err_outcome e \<noteq> Some CommitUnknown))"

lemma write_refused:
  assumes "coord_inv E iview view co m" and "gate_idle rc" and "inst rc = inst (co_runtime co)"
    and "err_outcome e \<noteq> Some CommitUnknown"
  shows "write_effect E sync ops co m (Err e) (co\<lparr>co_runtime := rc\<rparr>) m"
  using coord_inv_runtime [OF assms(1,2)] assms(3,4) by (simp add: write_effect_def kv_outcome_def grows_def)

lemma started_from_idle:
  assumes "coord_inv E iview view co m" and "start_request op (co_runtime co) = (rc, x)"
  shows "(\<exists>rid. x = Done (Ok rid) \<and> inst (co_runtime co) = Healthy \<and> started_inv E rid (co\<lparr>co_runtime := rc\<rparr>) m)
    \<or> (\<exists>e. x = Done (Err e) \<and> write_effect E sync ops co m (Err e) (co\<lparr>co_runtime := rc\<rparr>) m)"
proof -
  have g: "gate_idle (co_runtime co)" using assms(1) by (simp add: coord_inv_def)
  from start_request_idle [OF g assms(2)] obtain r where r: "x = Done r" "inst rc = inst (co_runtime co)"
    "case r of Ok rid \<Rightarrow> inst (co_runtime co) = Healthy \<and> gate_busy rid rc
       | Err e \<Rightarrow> gate_idle rc \<and> e = admission_error op (inst (co_runtime co))" by blast
  show ?thesis
    using r assms(1) write_refused [OF assms(1) _ r(2)] by (cases r) (auto simp: started_inv_def coord_inv_def)
qed

lemma started_ready: "started_inv E rid co m \<Longrightarrow> log_ready co"
  by (simp add: started_inv_def log_matches_def log_ready_def)

lemma commit_nonempty_spec:
  assumes "coord_inv E iview view co m" and "write_ok w" and "commit_nonempty E B K w random co = (co', x)"
  shows "\<exists>r m'. x = Done r \<and> write_effect E (nw_sync (vw_normalized w)) (write_ops w) co m r co' m'"
proof -
  let ?sync = "nw_sync (vw_normalized w)"
  obtain rc y where s: "start_request (vw_public_operation w) (co_runtime co) = (rc, y)" by fastforce
  note C = assms(3) [unfolded commit_nonempty_def commit_started_def s]
  from started_from_idle [OF assms(1) s, of ?sync "write_ops w"] show ?thesis
  proof (elim disjE exE conjE)
    fix rid
    assume y: "y = Done (Ok rid)" and h: "inst (co_runtime co) = Healthy" and st: "started_inv E rid (co\<lparr>co_runtime := rc\<rparr>) m"
    obtain co1 r where r: "run_started E B K w ?sync random rid (co\<lparr>co_runtime := rc\<rparr>) = (co1, r)" by fastforce
    have x: "co' = co1" "x = Done r" using C r by (simp_all add: y)
    from run_started_spec [OF st assms(2) r] run_started_grows [OF started_ready [OF st] r]
    show ?thesis using h unfolding x write_effect_def grows_def by fastforce
  next
    fix e
    assume "y = Done (Err e)" "write_effect E ?sync (write_ops w) co m (Err e) (co\<lparr>co_runtime := rc\<rparr>) m"
    then show ?thesis using C by auto
  qed
qed

lemma commit_empty_batch_spec:
  assumes "coord_inv E iview view co m" and "commit_empty_batch E B K sync co = (co', x)"
  shows "\<exists>r. x = Done r \<and> write_effect E sync [] co m r co' m"
proof (cases sync)
  case False
  then have x: "co' = co" "x = Done (check_write_admission Op_WriteBatch (co_runtime co))"
    using assms(2) by (auto simp: commit_empty_batch_def)
  have "case check_write_admission Op_WriteBatch (co_runtime co) of
      Ok _ \<Rightarrow> inst (co_runtime co) = Healthy | Err e \<Rightarrow> err_outcome e = Some NotCommitted"
    by (auto simp: check_write_admission_def fast_check_def admission_section_def ensure_def split: result.splits if_splits)
  then show ?thesis using assms(1) False unfolding x
    by (auto simp: write_effect_def kv_outcome_def split: result.splits)
next
  case True
  obtain rc y where s: "start_request Op_WriteBatch (co_runtime co) = (rc, y)" by fastforce
  note C = assms(2) [unfolded commit_empty_batch_def s]
  from started_from_idle [OF assms(1) s, of sync "[]"] show ?thesis
  proof (elim disjE exE conjE)
    fix rid
    assume y: "y = Done (Ok rid)" and h: "inst (co_runtime co) = Healthy" and st: "started_inv E rid (co\<lparr>co_runtime := rc\<rparr>) m"
    obtain co1 r where r: "commit_empty_barrier E B K rid (co\<lparr>co_runtime := rc\<rparr>) = (co1, r)" by fastforce
    have x: "co' = co1" "x = Done r" using C r True by (simp_all add: y)
    from barrier_spec [OF st r] barrier_grows [OF started_ready [OF st] r]
    show ?thesis using h unfolding x write_effect_def grows_def kv_outcome_def by (fastforce split: result.splits)
  next
    fix e
    assume "y = Done (Err e)" "write_effect E sync [] co m (Err e) (co\<lparr>co_runtime := rc\<rparr>) m"
    then show ?thesis using C True by auto
  qed
qed

end

section \<open>Reads\<close>

context commit_store
begin

text \<open>What a read leaves of the database: everything that is stored, and a failure once latched.\<close>

definition read_frame :: "('s, 'd) database \<Rightarrow> ('s, 'd) database \<Rightarrow> bool" where
  "read_frame db db' \<longleftrightarrow> (let co = db_coordinator db; co' = db_coordinator db' in
     db_id db' = db_id db \<and> db_reader db' = db_reader db \<and> co_index co' = co_index co \<and> co_writer co' = co_writer co
     \<and> co_state co' = co_state co \<and> LV co' = LV co
     \<and> (cache_inv (LV co) (wd_cache (co_log co)) \<longrightarrow> cache_inv (LV co') (wd_cache (co_log co')))
     \<and> (gate_idle (co_runtime co) \<longrightarrow> gate_idle (co_runtime co'))
     \<and> (inst (co_runtime co') = Healthy \<longrightarrow> inst (co_runtime co) = Healthy))"

lemma read_frame_refl [simp]: "read_frame db db" by (simp add: read_frame_def Let_def)

lemma read_frame_trans: "read_frame db db1 \<Longrightarrow> read_frame db1 db2 \<Longrightarrow> read_frame db db2"
  by (auto simp: read_frame_def Let_def)

lemma begin_operation_frame:
  assumes "begin_operation op db = (db', r)"
  shows "read_frame db db'" and "r = Err e \<Longrightarrow> e = lifecycle_admission_error op (inst (db_runtime db))"
  using assms by (auto simp: begin_operation_def acquire_operation_def read_frame_def Let_def split: if_splits)

lemma end_operation_frame [simp]: "read_frame db (end_operation db)"
  by (simp add: end_operation_def release_operation_guard_def read_frame_def Let_def)

lemma set_runtime_latch_frame: "read_frame db (set_runtime (fst (latch_failure t e (db_runtime db))) db)"
  using latched_still_unhealthy by (fastforce simp: read_frame_def set_runtime_def Let_def)

lemma failing_read_frame:
  assumes "failing_read e domain op db = (db', r)"
  shows "read_frame db db' \<and> (\<exists>e'. r = Err e')"
proof -
  have "db' = db \<or> (\<exists>t e'. db' = set_runtime (fst (latch_failure t e' (db_runtime db))) db)"
    using assms
    by (auto simp: failing_read_def handle_read_failure_def Let_def split: option.splits prod.splits)
      (metis fst_conv)
  moreover have "\<exists>e'. r = Err e'" using assms by (auto simp: failing_read_def split: prod.splits)
  ultimately show ?thesis using set_runtime_latch_frame by auto
qed

lemma read_value_reads: "read_value E K R bs k w = (w', r) \<Longrightarrow> reads w w'"
  by (auto simp: read_value_def act_bind_def act_lift_def read_pointer_spec(1) split: result.splits)

lemma on_values_frame:
  assumes "on_values (read_value E K R bs k) db = (db', r)"
  shows "read_frame db db'"
proof -
  obtain w' where w: "read_value E K R bs k (co_log (db_coordinator db)) = (w', r)"
    "db' = db\<lparr>db_coordinator := (db_coordinator db)\<lparr>co_log := w'\<rparr>\<rparr>"
    using assms by (auto simp: on_values_def split: prod.splits)
  then show ?thesis using read_value_reads [OF w(1)] by (auto simp: read_frame_def reads_def Let_def)
qed

lemma holds_value_reads:
  assumes "holds_value E (wview w) g bs key val" and "cache_inv (wview w) (wd_cache w)" and "wide_pages g"
    and "vr_geometry R = g" and "read_value E K R bs k w = (w', Ok v)"
  shows "v = val"
proof -
  obtain P P' db seq uid ops e j p where h: "planner_ok P" "lp_geometry P = g" "prepare_envelope E P db seq uid ops = (P', Ok e)"
    "envelope_stored (wview w) e" "j < length ops" "ops ! j = LO_Put key val" "pe_value_pointers e ! j = Some p"
    "ValuePointer_encode p = Ok bs"
    using assms(1) unfolding holds_value_def by blast
  have "read_pointer E K R p k w = (w', Ok v)"
    using assms(5) vp.dec_enc [OF h(8)] by (simp add: read_value_def act_bind_def act_lift_def)
  moreover have "\<forall>c \<in> set (pe_chunks e). stored (wview w) c" using h(4) by (simp add: envelope_stored_def)
  ultimately show ?thesis
    using value_reads [OF log_disk_axioms assms(2) h(1) _ h(3) _ _ h(5-7), of R k w' v] assms(3,4) h(2) by simp
qed

lemma read_at_spec:
  assumes "read_at E K started op bs key db = (db', r)"
  shows "read_frame db db'" and "r = Ok v \<Longrightarrow> \<exists>w'. read_value E K (db_reader db) bs key (co_log (db_coordinator db)) = (w', Ok v)"
proof -
  obtain db1 x where o: "on_values (read_value E K (db_reader db) bs key) db = (db1, x)" by fastforce
  note f = on_values_frame [OF o]
  have v: "\<exists>w'. read_value E K (db_reader db) bs key (co_log (db_coordinator db)) = (w', x)"
    using o by (auto simp: on_values_def split: prod.splits)
  have "read_frame db db' \<and> (\<forall>v. r = Ok v \<longrightarrow> x = Ok v)"
    using assms o f read_frame_trans [OF f] failing_read_frame
    by (cases x) (auto simp: read_at_def split: result.splits, blast+)
  then show "read_frame db db'" "r = Ok v \<Longrightarrow> \<exists>w'. read_value E K (db_reader db) bs key (co_log (db_coordinator db)) = (w', Ok v)"
    using v by blast+
qed

text \<open>A lookup through a view of the index that stands for a map returns what the map holds.\<close>

definition source_of :: "snapshot option \<Rightarrow> ('s, 'd) database \<Rightarrow> bytes \<Rightarrow> bytes option res" where
  "source_of sn db = (case sn of Some s \<Rightarrow> ix_get_user_pointer (sp_view s) | None \<Rightarrow> bk_get_user B (co_index (db_coordinator db)))"

lemma DbInner_get_spec:
  assumes "DbInner_get E B K sn key db = (db', r)"
    and "\<forall>x. source_of sn db key = Ok x \<longrightarrow> x = V UserKeyspace key"
    and "represents E V (LV (db_coordinator db)) g m" and "wide_pages g" and "vr_geometry (db_reader db) = g"
    and "cache_inv (LV (db_coordinator db)) (wd_cache (co_log (db_coordinator db)))"
  shows "read_frame db db' \<and> (\<forall>v. r = Ok v \<longrightarrow> v = m key)"
proof (cases "read_frame db db' \<and> (\<exists>e. r = Err e)")
  case False
  have src: "(case sn of Some s \<Rightarrow> ix_get_user_pointer (sp_view s) key
      | None \<Rightarrow> bk_get_user B (co_index (db_coordinator db)) key) = source_of sn db key"
    by (simp add: source_of_def split: option.splits)
  obtain started x where b: "begin_read Op_Get db = Ok started" and x: "source_of sn db key = Ok x"
    and G: "(case x of None \<Rightarrow> (db, map_ok (\<lambda>_. None) (complete_read started Op_Get db))
      | Some bs \<Rightarrow> (case read_at E K started Op_Get bs key db of (db, r) \<Rightarrow> (db, map_ok Some r))) = (db', r)"
    using assms(1) False
    by (auto simp: DbInner_get_def src dest!: failing_read_frame split: result.splits if_splits)
  have V: "V UserKeyspace key = x" using assms(2) x by blast
  note R = spec [OF assms(3) [unfolded represents_def], of key]
  show ?thesis
  proof (cases x)
    case None
    then show ?thesis using G R V by (cases "complete_read started Op_Get db") auto
  next
    case (Some bs)
    obtain db1 r1 where a: "read_at E K started Op_Get bs key db = (db1, r1)" by fastforce
    have d: "db' = db1" "r = map_ok Some r1" using G Some a by auto
    obtain val where val: "m key = Some val" "holds_value E (LV (db_coordinator db)) g bs key val"
      using R V Some by auto
    show ?thesis
      using read_at_spec [OF a] holds_value_reads [OF val(2) assms(6,4,5)] val(1) unfolding d
      by (cases r1) auto
  qed
qed auto

end

section \<open>The database\<close>

definition db_inv ::
  "env \<Rightarrow> ('s \<Rightarrow> index_view) \<Rightarrow> ('d \<Rightarrow> disk_view) \<Rightarrow> ('s, 'd) database \<Rightarrow> (bytes \<rightharpoonup> bytes) \<Rightarrow> bool" where
  "db_inv E iv dv db m \<longleftrightarrow> (let co = db_coordinator db in
     coord_inv E iv dv co m \<and> cache_inv (dv (wd_disk (co_log co))) (wd_cache (co_log co))
     \<and> vr_geometry (db_reader db) = lw_geometry (co_writer co))"

lemma cache_inv_kept: "cache_inv v c \<Longrightarrow> kept v v' \<Longrightarrow> cache_inv v' c"
  by (auto simp: cache_inv_def leads_to_def kept_def)

text \<open>A write that fails before it is started has not happened.\<close>

definition refuses :: "'a res \<Rightarrow> bool" where
  "refuses r \<longleftrightarrow> (\<forall>e. r = Err e \<longrightarrow> err_outcome e = Some NotCommitted)"

lemma refuses_Ok [simp]: "refuses (Ok x)" and refuses_Err [simp]: "refuses (Err e) \<longleftrightarrow> err_outcome e = Some NotCommitted"
  by (simp_all add: refuses_def)

lemma refuses_and_then [intro!]: "refuses r \<Longrightarrow> (\<And>x. refuses (f x)) \<Longrightarrow> refuses (and_then r f)"
  by (cases r) (simp_all add: refuses_def)

lemma refuses_ok_or [intro!]: "err_outcome e = Some NotCommitted \<Longrightarrow> refuses (ok_or x e)"
  by (cases x) simp_all

lemma refuses_capacity [intro!]: "refuses (try_vec_with_capacity E n operation what)"
  by (simp add: try_vec_with_capacity_def try_reserve_def ensure_def protocol_resource_exhausted_def error_constructors)

lemma protocol_error_outcomes [simp]:
  "err_outcome (protocol_invalid_argument operation) = Some NotCommitted"
  "err_outcome (protocol_capacity_exceeded operation) = Some NotCommitted"
  by (simp_all add: protocol_invalid_argument_def protocol_capacity_exceeded_def error_constructors)

lemma validation_refuses [intro!]:
  "refuses (protocol_validate_key key operation)" "refuses (validate_put key val operation)"
  "refuses (validate_operation_count n m operation)" "refuses (validate_put_encoding key val operation)"
  "refuses (validate_delete_encoding key operation)"
proof -
  show k: "refuses (protocol_validate_key key operation)" by (auto simp: protocol_validate_key_def)
  show p: "refuses (validate_put key val operation)" using k by (auto simp: validate_put_def)
  show "refuses (validate_operation_count n m operation)" by (auto simp: validate_operation_count_def)
  show "refuses (validate_put_encoding key val operation)" using p by (auto simp: validate_put_encoding_def)
  show "refuses (validate_delete_encoding key operation)" using k by (auto simp: validate_delete_encoding_def)
qed

lemma validate_encodings_refuses [intro!]: "refuses (validate_encodings operation ops)"
  by (induction ops) (auto split: normalized_operation.splits)

lemma assign_ordinals_refuses [intro!]: "refuses (assign_ordinals operation seen keys os ops)"
  by (induction ops arbitrary: seen keys os) (auto simp: Let_def split: option.splits)

lemma validate_normalized_refuses [intro!]: "refuses (validate_normalized E n operation m)"
  by (auto simp: validate_normalized_def Let_def split: prod.splits)

lemma preflight_refuses:
  "refuses (preflight_put E k v sync)" "refuses (preflight_delete E k sync)" "refuses (preflight_batch E b sync)"
  by (auto simp: preflight_put_def preflight_delete_def preflight_batch_def preflight_batch_with_operation_limit_def)

lemma preflight_one_Ok:
  "preflight_put E k v sync = Ok w \<Longrightarrow> write_ok w \<and> write_ops w = [NPut k v] \<and> nw_sync (vw_normalized w) = sync"
  "preflight_delete E k sync = Ok w \<Longrightarrow> write_ok w \<and> write_ops w = [NDelete k] \<and> nw_sync (vw_normalized w) = sync"
  by (auto simp: preflight_put_def preflight_delete_def result_simps dest!: validate_normalized_spec(1))

context commit_store
begin

definition db_effect ::
  "env \<Rightarrow> bool \<Rightarrow> normalized_operation list \<Rightarrow> ('s, 'd) database \<Rightarrow> (bytes \<rightharpoonup> bytes) \<Rightarrow> unit res \<Rightarrow>
   ('s, 'd) database \<Rightarrow> (bytes \<rightharpoonup> bytes) \<Rightarrow> bool" where
  "db_effect E sync ops db m r db' m' \<longleftrightarrow> (let co = db_coordinator db; co' = db_coordinator db' in
     db_inv E iview view db' m' \<and> db_id db' = db_id db \<and> kept (LV co) (LV co') \<and> lw_geometry (co_writer co') = lw_geometry (co_writer co)
     \<and> kv_outcome ops m r m'
     \<and> (frontier_record co' \<noteq> frontier_record co \<longrightarrow> log_durable (LV co'))
     \<and> (r = Ok () \<and> sync \<longrightarrow> log_durable (LV co')
         \<and> df_durable_seq (cs_durable_frontier (co_state co')) = cs_head_seq (co_state co'))
     \<and> (\<forall>e. r = Err e \<and> err_outcome e = Some CommitUnknown \<longrightarrow> inst (co_runtime co') \<noteq> Healthy)
     \<and> (inst (co_runtime co) \<noteq> Healthy \<longrightarrow> inst (co_runtime co') \<noteq> Healthy
         \<and> (\<exists>e. r = Err e \<and> err_outcome e \<noteq> Some CommitUnknown)))"

lemma read_frame_db_inv:
  assumes "db_inv E iview view db m" and "read_frame db db'"
  shows "db_inv E iview view db' m"
  using assms unfolding db_inv_def read_frame_def coord_inv_def Let_def by auto

lemma db_effect_before:
  assumes "read_frame db db1" and "db_effect E sync ops db1 m r db' m'"
  shows "db_effect E sync ops db m r db' m'"
  using assms unfolding db_effect_def read_frame_def Let_def by auto

lemma db_effect_after:
  assumes "db_effect E sync ops db m r db1 m'" and "read_frame db1 db'"
  shows "db_effect E sync ops db m r db' m'"
  using assms read_frame_db_inv [OF _ assms(2)] unfolding db_effect_def read_frame_def Let_def by auto

lemma db_effect_refused:
  "db_inv E iview view db m \<Longrightarrow> err_outcome e \<noteq> Some CommitUnknown \<Longrightarrow> db_effect E sync ops db m (Err e) db m"
  by (simp add: db_effect_def Let_def kv_outcome_def)

lemma db_effect_write:
  assumes "db_inv E iview view db m" and "write_effect E sync ops (db_coordinator db) m r co m'"
  shows "db_effect E sync ops db m r (db\<lparr>db_coordinator := co\<rparr>) m'"
  using assms cache_inv_kept unfolding db_effect_def db_inv_def write_effect_def grows_def Let_def by auto

lemma cleanup_trigger_frame: "read_frame db (cleanup_trigger db)"
proof -
  have "read_frame db (db\<lparr>db_cleanup := cw\<rparr>)" for cw by (simp add: read_frame_def Let_def)
  then show ?thesis using set_runtime_latch_frame by (simp add: cleanup_trigger_def Let_def)
qed

lemma commit_write_spec:
  assumes "db_inv E iview view db m"
    and "\<And>w. checked = Ok w \<Longrightarrow> write_ok w \<and> write_ops w = ops \<and> nw_sync (vw_normalized w) = sync"
    and "refuses checked"
    and "commit_write E B K op checked sync random db = (db', x)"
  shows "\<exists>r m'. x = Done r \<and> db_effect E sync ops db m r db' m'"
proof (cases "check_write_admission op (db_runtime db)")
  case (Err e)
  then have "err_outcome e \<noteq> Some CommitUnknown"
    by (auto simp: check_write_admission_def fast_check_def admission_section_def ensure_def result_simps split: if_splits)
  from db_effect_refused [OF assms(1) this] show ?thesis using assms(4) Err by (auto simp: commit_write_def)
next
  case adm: (Ok u)
  show ?thesis
  proof (cases checked)
    case (Err e)
    then have "err_outcome e \<noteq> Some CommitUnknown" using assms(3) by simp
    from db_effect_refused [OF assms(1) this] show ?thesis using assms(4) adm Err by (auto simp: commit_write_def)
  next
    case (Ok w)
    note W = assms(2) [OF Ok]
    obtain co y where c: "commit_nonempty E B K w random (db_coordinator db) = (co, y)" by fastforce
    have "coord_inv E iview view (db_coordinator db) m" using assms(1) by (simp add: db_inv_def Let_def)
    from commit_nonempty_spec [OF this _ c] W obtain r m' where r: "y = Done r"
      "write_effect E sync ops (db_coordinator db) m r co m'" by auto
    note e = db_effect_write [OF assms(1) r(2)]
    have "read_frame (db\<lparr>db_coordinator := co\<rparr>) db'" "x = Done r"
      using assms(4) adm Ok c r(1) cleanup_trigger_frame by (auto simp: commit_write_def Let_def split: if_splits)
    then show ?thesis using db_effect_after [OF e] by blast
  qed
qed

lemma write_empty_spec:
  assumes "db_inv E iview view db m" and "write_empty E B K sync db = (db', x)"
  shows "\<exists>r. x = Done r \<and> db_effect E sync [] db m r db' m"
proof -
  obtain co y where c: "commit_empty_batch E B K sync (db_coordinator db) = (co, y)" by fastforce
  have "coord_inv E iview view (db_coordinator db) m" using assms(1) by (simp add: db_inv_def Let_def)
  from commit_empty_batch_spec [OF this c] obtain r where r: "y = Done r"
    "write_effect E sync [] (db_coordinator db) m r co m" by auto
  note e = db_effect_write [OF assms(1) r(2)]
  have "read_frame (db\<lparr>db_coordinator := co\<rparr>) db'" "x = Done r"
    using assms(2) c r(1) cleanup_trigger_frame by (auto simp: write_empty_def Let_def split: if_splits)
  then show ?thesis using db_effect_after [OF e] by blast
qed

lemma write_operation_spec:
  assumes "db_inv E iview view db m" and "write_operation op body db = (db', x)"
    and "\<And>db1 db2 y. db_inv E iview view db1 m \<Longrightarrow> body db1 = (db2, y) \<Longrightarrow> \<exists>r m'. y = Done r \<and> db_effect E sync ops db1 m r db2 m'"
  shows "\<exists>r m'. x = Done r \<and> db_effect E sync ops db m r db' m'"
proof -
  obtain db1 r1 where b: "begin_operation op db = (db1, r1)" by fastforce
  note f = begin_operation_frame(1) [OF b]
  show ?thesis
  proof (cases r1)
    case (Err e)
    then have "err_outcome e \<noteq> Some CommitUnknown"
      using begin_operation_frame(2) [OF b] by (simp add: lifecycle_admission_error_def error_constructors)
    from db_effect_after [OF db_effect_refused [OF assms(1) this] f] show ?thesis
      using assms(2) b Err by (auto simp: write_operation_def)
  next
    case (Ok u)
    obtain db2 y where y: "body db1 = (db2, y)" by fastforce
    from assms(3) [OF read_frame_db_inv [OF assms(1) f] y] obtain r m' where r: "y = Done r" "db_effect E sync ops db1 m r db2 m'"
      by blast
    have "db' = end_operation db2" "x = Done r" using assms(2) b Ok y r(1) by (auto simp: write_operation_def)
    then show ?thesis using db_effect_before [OF f db_effect_after [OF r(2) end_operation_frame]] by blast
  qed
qed

end

end
