(* ===== verification/Cursor.thy ===== *)
theory Cursor
  imports DatabaseLog
begin

text \<open>
  Iterators and range cursors (\<open>src/cursor.rs\<close>, and \<open>iter\<close> and \<open>range\<close> of \<open>src/db.rs\<close>). A cursor holds a
  view of the index and a double-ended iterator over a range of it, here the list of the items still
  to come; it is positioned by seeks, moved by \<open>next\<close> and \<open>prev\<close>, and reads the value behind each
  entry it stops at. A cursor that has failed stays failed.
\<close>

section \<open>State\<close>

definition MAX_KEY_SIZE :: usize where
  "MAX_KEY_SIZE = 60000"

datatype cursor_state = Unpositioned | Valid | Exhausted | Failed

datatype cursor_direction = Forward | Reverse

datatype cursor_target = FirstKey | LastKey | LowerBound bytes

record db_iterator =
  it_iterator :: "index_entry res list option"
  it_view :: "user_index_snapshot option"
  it_operation :: operation
  it_state :: cursor_state
  it_direction :: "cursor_direction option"
  it_key :: "bytes option"
  it_value :: "bytes option"
  it_error :: "storage_error option"

definition DbIterator_new :: "user_index_snapshot \<Rightarrow> index_entry res list \<Rightarrow> operation \<Rightarrow> db_iterator" where
  "DbIterator_new view initial_iterator operation =
     \<lparr>it_iterator = Some initial_iterator, it_view = Some view, it_operation = operation, it_state = Unpositioned,
      it_direction = None, it_key = None, it_value = None, it_error = None\<rparr>"

definition DbIterator_empty :: "operation \<Rightarrow> db_iterator" where
  "DbIterator_empty operation =
     \<lparr>it_iterator = None, it_view = None, it_operation = operation, it_state = Exhausted,
      it_direction = None, it_key = None, it_value = None, it_error = None\<rparr>"

definition DbIterator_valid :: "db_iterator \<Rightarrow> bool" where
  "DbIterator_valid it \<longleftrightarrow> it_state it = Valid \<and> it_key it \<noteq> None \<and> it_value it \<noteq> None"

definition DbIterator_key :: "db_iterator \<Rightarrow> bytes option" where
  "DbIterator_key it = (if DbIterator_valid it then it_key it else None)"

definition DbIterator_value :: "db_iterator \<Rightarrow> bytes option" where
  "DbIterator_value it = (if DbIterator_valid it then it_value it else None)"

definition DbIterator_status :: "db_iterator \<Rightarrow> unit res" where
  "DbIterator_status it = (case it_error it of Some error \<Rightarrow> Err error | None \<Rightarrow> Ok ())"

definition set_failure :: "storage_error \<Rightarrow> db_iterator \<Rightarrow> db_iterator" where
  "set_failure error it =
     (if it_state it = Failed then it
      else it\<lparr>it_key := None, it_value := None, it_iterator := None, it_direction := None,
              it_error := Some error, it_state := Failed\<rparr>)"

definition exhaust :: "db_iterator \<Rightarrow> db_iterator" where
  "exhaust it =
     (if it_state it = Failed then it
      else it\<lparr>it_key := None, it_value := None, it_iterator := None, it_direction := None,
              it_error := None, it_state := Exhausted\<rparr>)"

fun select_entry :: "index_entry res list \<Rightarrow> cursor_direction \<Rightarrow> index_entry res list \<times> index_entry option res" where
  "select_entry [] direction = ([], Ok None)"
| "select_entry (x # xs) Forward = (xs, map_ok Some x)"
| "select_entry xs Reverse = (butlast xs, map_ok Some (last xs))"

definition clone_cursor_bound :: "env \<Rightarrow> bytes \<Rightarrow> operation \<Rightarrow> instance_state \<Rightarrow> bytes res" where
  "clone_cursor_bound E bound operation state =
     and_then (try_reserve E ''CursorBound'' (length bound)
                (read_operation_error ResourceExhausted operation state RetrySameInstance)) (\<lambda>_. Ok bound)"

definition cursor_invariant_error :: "operation \<Rightarrow> storage_error" where
  "cursor_invariant_error operation = read_operation_error StoragePoisoned operation Poisoned ReopenAndVerify"

section \<open>Moving\<close>

type_synonym ('s, 'd) cursor_act = "db_iterator \<times> ('s, 'd) database \<Rightarrow> db_iterator \<times> ('s, 'd) database"

definition materialize_index_entry ::
  "env \<Rightarrow> 'd os_ops \<Rightarrow> state_snapshot \<Rightarrow> operation \<Rightarrow> index_entry \<Rightarrow> (('s, 'd) database, bytes \<times> bytes, storage_error) act" where
  "materialize_index_entry E K started operation entry db =
     (case read_at E K started operation (en_value entry) (en_key entry) db of
        (db, r) \<Rightarrow> (db, map_ok (\<lambda>val. (en_key entry, val)) r))"

definition create_iterator ::
  "user_key_range \<Rightarrow> db_iterator \<Rightarrow> (('s, 'd) database, index_entry res list option, storage_error) act" where
  "create_iterator rng it db =
     (case it_view it of
        None \<Rightarrow> (db, Ok None)
      | Some view \<Rightarrow>
          (case ix_iter_user_range view rng of
             Ok xs \<Rightarrow> (db, Ok (Some xs))
           | Err error \<Rightarrow> failing_read error IndexDomain (it_operation it) db))"

definition consume_adjacent ::
  "env \<Rightarrow> 'd os_ops \<Rightarrow> state_snapshot \<Rightarrow> cursor_direction \<Rightarrow> ('s, 'd) cursor_act" where
  "consume_adjacent E K started direction c =
     (let (it, db) = c; operation = it_operation it;
          (it, selected) =
            (case it_iterator it of
               Some xs \<Rightarrow> let (rest, x) = select_entry xs direction in (it\<lparr>it_iterator := Some rest\<rparr>, x)
             | None \<Rightarrow> (it, Err (cursor_invariant_error operation)))
      in case selected of
           Err error \<Rightarrow>
             let (db, error) = handle_read_failure error IndexDomain operation db in (set_failure error it, db)
         | Ok None \<Rightarrow>
             (case complete_read started operation db of
                Ok _ \<Rightarrow> (exhaust it, db)
              | Err error \<Rightarrow> (set_failure error it, db))
         | Ok (Some entry) \<Rightarrow>
             (case materialize_index_entry E K started operation entry db of
                (db, Ok (key, val)) \<Rightarrow>
                  (it\<lparr>it_key := Some key, it_value := Some val, it_error := None, it_state := Valid\<rparr>, db)
              | (db, Err error) \<Rightarrow> (set_failure error it, db)))"

text \<open>Both moves hold an operation guard and start with the check that the instance may be read.\<close>

definition cursor_operation :: "(state_snapshot \<Rightarrow> ('s, 'd) cursor_act) \<Rightarrow> ('s, 'd) cursor_act" where
  "cursor_operation body c =
     (let (it, db) = c in
      case begin_operation (it_operation it) db of
        (db, Err error) \<Rightarrow> (set_failure error it, db)
      | (db, Ok _) \<Rightarrow>
          let (it, db) = (case begin_read (it_operation it) db of
                Err error \<Rightarrow> (set_failure error it, db)
              | Ok started \<Rightarrow> body started (it, db))
          in (it, end_operation db))"

definition cursor_range ::
  "env \<Rightarrow> cursor_target \<Rightarrow> operation \<Rightarrow> instance_state \<Rightarrow> (user_key_range \<times> cursor_direction \<times> bool) res" where
  "cursor_range E target operation state =
     (case target of
        FirstKey \<Rightarrow> Ok (UserKeyRange_all, Forward, True)
      | LastKey \<Rightarrow> Ok (UserKeyRange_all, Reverse, True)
      | LowerBound bound \<Rightarrow>
          if bound \<noteq> [] \<and> length bound > MAX_KEY_SIZE
          then Err (read_operation_error InvalidArgument operation state FixRequestAndRetrySameInstance)
          else and_then (clone_cursor_bound E bound operation state) (\<lambda>start.
                 Ok (UserKeyRange_from_inclusive start, Forward, False)))"

definition relocate :: "env \<Rightarrow> 'd os_ops \<Rightarrow> cursor_target \<Rightarrow> ('s, 'd) cursor_act" where
  "relocate E K target =
     cursor_operation (\<lambda>started (it, db).
       case cursor_range E target (it_operation it) (ss_instance_state started) of
         Err error \<Rightarrow> (set_failure error it, db)
       | Ok (rng, direction, may_use_initial) \<Rightarrow>
           let initial = (may_use_initial \<and> it_state it = Unpositioned \<and> it_direction it = None);
               taken = (if initial then it_iterator it else None);
               it = (if initial then it\<lparr>it_iterator := None\<rparr> else it)
           in (case (case taken of Some xs \<Rightarrow> (db, Ok (Some xs)) | None \<Rightarrow> create_iterator rng it db) of
                 (db, Err error) \<Rightarrow> (set_failure error it, db)
               | (db, Ok None) \<Rightarrow> (exhaust it, db)
               | (db, Ok (Some xs)) \<Rightarrow>
                   consume_adjacent E K started direction
                     (it\<lparr>it_iterator := Some xs, it_direction := Some direction, it_key := None, it_value := None\<rparr>, db)))"

definition advance :: "env \<Rightarrow> 'd os_ops \<Rightarrow> cursor_direction \<Rightarrow> ('s, 'd) cursor_act" where
  "advance E K direction =
     cursor_operation (\<lambda>started (it, db).
       case it_key it of
         None \<Rightarrow> (set_failure (cursor_invariant_error (it_operation it)) it, db)
       | Some current \<Rightarrow>
           let it = it\<lparr>it_key := None, it_value := None\<rparr> in
           if it_direction it = Some direction then consume_adjacent E K started direction (it, db)
           else
             (case create_iterator (case direction of Forward \<Rightarrow> UserKeyRange_after current
                                     | Reverse \<Rightarrow> UserKeyRange_before current) it db of
                (db, Ok (Some xs)) \<Rightarrow>
                  consume_adjacent E K started direction (it\<lparr>it_iterator := Some xs, it_direction := Some direction\<rparr>, db)
              | (db, Ok None) \<Rightarrow> (exhaust it, db)
              | (db, Err error) \<Rightarrow> (set_failure error it, db)))"

definition seek_to_first :: "env \<Rightarrow> 'd os_ops \<Rightarrow> ('s, 'd) cursor_act" where
  "seek_to_first E K c = (if it_state (fst c) \<noteq> Failed then relocate E K FirstKey c else c)"

definition seek_to_last :: "env \<Rightarrow> 'd os_ops \<Rightarrow> ('s, 'd) cursor_act" where
  "seek_to_last E K c = (if it_state (fst c) \<noteq> Failed then relocate E K LastKey c else c)"

definition cursor_seek :: "env \<Rightarrow> 'd os_ops \<Rightarrow> bytes \<Rightarrow> ('s, 'd) cursor_act" where
  "cursor_seek E K target c = (if it_state (fst c) \<noteq> Failed then relocate E K (LowerBound target) c else c)"

definition cursor_next :: "env \<Rightarrow> 'd os_ops \<Rightarrow> ('s, 'd) cursor_act" where
  "cursor_next E K c = (if it_state (fst c) = Valid then advance E K Forward c else c)"

definition cursor_prev :: "env \<Rightarrow> 'd os_ops \<Rightarrow> ('s, 'd) cursor_act" where
  "cursor_prev E K c = (if it_state (fst c) = Valid then advance E K Reverse c else c)"

definition seek_to_first_in_initial_range :: "env \<Rightarrow> 'd os_ops \<Rightarrow> ('s, 'd) cursor_act" where
  "seek_to_first_in_initial_range E K c = (if it_state (fst c) \<noteq> Failed then relocate E K FirstKey c else c)"

definition next_in_range :: "env \<Rightarrow> 'd os_ops \<Rightarrow> ('s, 'd) cursor_act" where
  "next_in_range E K c = (if it_state (fst c) = Valid then advance E K Forward c else c)"

section \<open>Ranges\<close>

record range_cursor =
  rg_inner :: db_iterator
  rg_end :: "bytes option"
  rg_remaining :: usize

definition enforce_boundary :: "range_cursor \<Rightarrow> range_cursor" where
  "enforce_boundary rc =
     (if rg_remaining rc = 0 then rc\<lparr>rg_inner := exhaust (rg_inner rc)\<rparr>
      else case (DbIterator_key (rg_inner rc), rg_end rc) of
             (Some key, Some stop) \<Rightarrow> if key \<ge> stop then rc\<lparr>rg_inner := exhaust (rg_inner rc)\<rparr> else rc
           | _ \<Rightarrow> rc)"

definition RangeCursor_new :: "db_iterator \<Rightarrow> bytes option \<Rightarrow> usize \<Rightarrow> range_cursor" where
  "RangeCursor_new inner stop remaining =
     enforce_boundary \<lparr>rg_inner = inner, rg_end = stop, rg_remaining = remaining\<rparr>"

definition RangeCursor_valid :: "range_cursor \<Rightarrow> bool" where
  "RangeCursor_valid rc \<longleftrightarrow> rg_remaining rc > 0 \<and> DbIterator_valid (rg_inner rc)"

definition RangeCursor_key :: "range_cursor \<Rightarrow> bytes option" where
  "RangeCursor_key rc = (if RangeCursor_valid rc then DbIterator_key (rg_inner rc) else None)"

definition RangeCursor_value :: "range_cursor \<Rightarrow> bytes option" where
  "RangeCursor_value rc = (if RangeCursor_valid rc then DbIterator_value (rg_inner rc) else None)"

definition RangeCursor_status :: "range_cursor \<Rightarrow> unit res" where
  "RangeCursor_status rc = DbIterator_status (rg_inner rc)"

definition RangeCursor_next ::
  "env \<Rightarrow> 'd os_ops \<Rightarrow> range_cursor \<times> ('s, 'd) database \<Rightarrow> range_cursor \<times> ('s, 'd) database" where
  "RangeCursor_next E K c =
     (let (rc, db) = c in
      if \<not> RangeCursor_valid rc then (rc, db)
      else
        let rc = rc\<lparr>rg_remaining := rg_remaining rc - 1\<rparr> in
        if rg_remaining rc = 0 then (rc\<lparr>rg_inner := exhaust (rg_inner rc)\<rparr>, db)
        else let (inner, db) = next_in_range E K (rg_inner rc, db)
             in (enforce_boundary (rc\<lparr>rg_inner := inner\<rparr>), db))"

section \<open>Opening cursors\<close>

definition clone_range_bound :: "env \<Rightarrow> bytes \<Rightarrow> instance_state \<Rightarrow> bytes res" where
  "clone_range_bound E bound state =
     and_then (try_reserve E ''RangeBound'' (length bound)
                (read_operation_error ResourceExhausted Op_Range state RetrySameInstance)) (\<lambda>_. Ok bound)"

definition validate_range_bound :: "bytes option \<Rightarrow> instance_state \<Rightarrow> unit res" where
  "validate_range_bound bound state =
     (case bound of
        Some bound \<Rightarrow> if bound \<noteq> [] \<and> length bound > DB_MAX_KEY_VALUE_SIZE
                      then Err (invalid_read_argument Op_Range state) else Ok ()
      | None \<Rightarrow> Ok ())"

definition with_lease :: "('s, 'd) database \<Rightarrow> ('s, 'd) database" where
  "with_lease db = db\<lparr>db_lifecycle := lc_inner (clone_external_lease
      \<lparr>lc_inner = db_lifecycle db, lc_bound = True, lc_runtime = db_runtime db\<rparr>)\<rparr>"

definition Db_iter ::
  "('s \<Rightarrow> user_index_snapshot res) \<Rightarrow> snapshot option \<Rightarrow> (('s, 'd) database, db_iterator, storage_error) act" where
  "Db_iter V sn =
     in_operation Op_Iterator (\<lambda>db.
       case begin_read Op_Iterator db of
         Err e \<Rightarrow> (db, Err e)
       | Ok started \<Rightarrow>
           (case select_read_view V sn Op_Iterator started db of
              (db, Err e) \<Rightarrow> (db, Err e)
            | (db, Ok view) \<Rightarrow>
                (case ix_iter_user view of
                   Err error \<Rightarrow> failing_read error IndexDomain Op_Iterator db
                 | Ok xs \<Rightarrow>
                     (case complete_read started Op_Iterator db of
                        Err e \<Rightarrow> (db, Err e)
                      | Ok _ \<Rightarrow> (with_lease db, Ok (DbIterator_new view xs Op_Iterator))))))"

definition is_empty_range :: "bytes option \<Rightarrow> bytes option \<Rightarrow> usize \<Rightarrow> bool" where
  "is_empty_range start stop limit \<longleftrightarrow>
     limit = 0
     \<or> (case (start, stop) of
          (None, Some stop) \<Rightarrow> stop = []
        | (Some start, Some stop) \<Rightarrow> start \<ge> stop
        | _ \<Rightarrow> False)"

definition clone_bound_option :: "env \<Rightarrow> bytes option \<Rightarrow> instance_state \<Rightarrow> bytes option res" where
  "clone_bound_option E bound state =
     (case bound of None \<Rightarrow> Ok None | Some b \<Rightarrow> map_ok Some (clone_range_bound E b state))"

text \<open>
  The cursor seeks to its first entry while the guard of \<open>range\<close> is still held; that seek takes a
  guard of its own.
\<close>

definition DbInner_range ::
  "env \<Rightarrow> 'd os_ops \<Rightarrow> ('s \<Rightarrow> user_index_snapshot res) \<Rightarrow> snapshot option \<Rightarrow> bytes option \<Rightarrow> bytes option \<Rightarrow> usize \<Rightarrow>
   (('s, 'd) database, range_cursor, storage_error) act" where
  "DbInner_range E K V sn start stop limit db =
     (case begin_read Op_Range db of
        Err e \<Rightarrow> (db, Err e)
      | Ok started \<Rightarrow>
          let state = ss_instance_state started in
          case and_then (validate_range_bound start state) (\<lambda>_.
               and_then (validate_range_bound stop state) (\<lambda>_.
                 ensure (\<not> (\<exists>s. sn = Some s \<and> \<not> belongs_to s db)) (invalid_read_argument Op_Range state))) of
            Err e \<Rightarrow> (db, Err e)
          | Ok _ \<Rightarrow>
              if is_empty_range start stop limit
              then (case complete_read started Op_Range db of
                      Err e \<Rightarrow> (db, Err e)
                    | Ok _ \<Rightarrow> (with_lease db, Ok (RangeCursor_new (DbIterator_empty Op_Range) None 0)))
              else
                (case and_then (clone_bound_option E stop state) (\<lambda>stop.
                      and_then (clone_bound_option E start state) (\<lambda>start. Ok (start, stop))) of
                   Err e \<Rightarrow> (db, Err e)
                 | Ok (start, stop) \<Rightarrow>
                     (case select_read_view V sn Op_Range started db of
                        (db, Err e) \<Rightarrow> (db, Err e)
                      | (db, Ok view) \<Rightarrow>
                          (case ix_iter_user_range view (UserKeyRange_forward start stop) of
                             Err error \<Rightarrow> failing_read error IndexDomain Op_Range db
                           | Ok xs \<Rightarrow>
                               (case complete_read started Op_Range db of
                                  Err e \<Rightarrow> (db, Err e)
                                | Ok _ \<Rightarrow>
                                    let (inner, db) = seek_to_first_in_initial_range E K
                                          (DbIterator_new view xs Op_Range, with_lease db)
                                    in (db, Ok (RangeCursor_new inner stop limit)))))))"

definition Db_range ::
  "env \<Rightarrow> 'd os_ops \<Rightarrow> ('s \<Rightarrow> user_index_snapshot res) \<Rightarrow> snapshot option \<Rightarrow> bytes option \<Rightarrow> bytes option \<Rightarrow> usize \<Rightarrow>
   (('s, 'd) database, range_cursor, storage_error) act" where
  "Db_range E K V sn start stop limit = in_operation Op_Range (DbInner_range E K V sn start stop limit)"

end
