(* ===== verification/KvStore.thy ===== *)
theory KvStore
  imports DatabaseLog
begin

text \<open>
  The contract of the database: a map from keys to values with snapshots, served one request at a
  time. \<open>kv_next\<close> says which states a request and its response may lead to; the theorems say that
  every sequence of requests, whatever the index and the operating system answer, is one this
  contract allows.
\<close>

section \<open>The contract\<close>

datatype client_request =
    TakeSnapshot
  | Lookup "nat option" bytes
  | Store bool bytes bytes "(uuid, int option) result"
  | Remove bool bytes "(uuid, int option) result"
  | Apply bool write_batch "(uuid, int option) result"

datatype client_response =
    Took "unit res"
  | Found "bytes option res"
  | NoSuchSnapshot
  | Wrote "unit res progress"

fun request_ops :: "client_request \<Rightarrow> normalized_operation list option" where
  "request_ops (Store sync key val random) = Some [NPut key val]"
| "request_ops (Remove sync key random) = Some [NDelete key]"
| "request_ops (Apply sync batch random) = Some (map normalize (operations batch))"
| "request_ops TakeSnapshot = None"
| "request_ops (Lookup n key) = None"

fun wants_sync :: "client_request \<Rightarrow> bool" where
  "wants_sync (Store sync key val random) = sync"
| "wants_sync (Remove sync key random) = sync"
| "wants_sync (Apply sync batch random) = sync"
| "wants_sync TakeSnapshot = False"
| "wants_sync (Lookup n key) = False"

record kv_state =
  kv_stopped :: bool
  kv_map :: "bytes \<rightharpoonup> bytes"
  kv_snapshots :: "(bytes \<rightharpoonup> bytes) list"

definition kv_source :: "nat option \<Rightarrow> kv_state \<Rightarrow> (bytes \<rightharpoonup> bytes) option" where
  "kv_source n s = (case n of
     None \<Rightarrow> Some (kv_map s)
   | Some i \<Rightarrow> if i < length (kv_snapshots s) then Some (kv_snapshots s ! i) else None)"

definition kv_write :: "normalized_operation list \<Rightarrow> unit res \<Rightarrow> kv_state \<Rightarrow> kv_state list" where
  "kv_write ops r s = (case r of
     Ok _ \<Rightarrow> if kv_stopped s then [] else [s\<lparr>kv_map := apply_ops ops (kv_map s)\<rparr>]
   | Err e \<Rightarrow>
       if err_outcome e = Some CommitUnknown
       then (if kv_stopped s then []
             else [s\<lparr>kv_stopped := True\<rparr>, s\<lparr>kv_stopped := True, kv_map := apply_ops ops (kv_map s)\<rparr>])
       else [s])"

fun kv_next :: "client_request \<Rightarrow> client_response \<Rightarrow> kv_state \<Rightarrow> kv_state list" where
  "kv_next TakeSnapshot (Took (Ok _)) s = [s\<lparr>kv_snapshots := kv_snapshots s @ [kv_map s]\<rparr>]"
| "kv_next TakeSnapshot (Took (Err e)) s = [s]"
| "kv_next (Lookup n key) (Found (Ok v)) s =
     (case kv_source n s of Some m \<Rightarrow> if v = m key then [s] else [] | None \<Rightarrow> [])"
| "kv_next (Lookup n key) (Found (Err e)) s = (if kv_source n s = None then [] else [s])"
| "kv_next (Lookup n key) NoSuchSnapshot s = (if kv_source n s = None then [s] else [])"
| "kv_next request (Wrote (Done r)) s =
     (case request_ops request of Some ops \<Rightarrow> kv_write ops r s | None \<Rightarrow> [])"
| "kv_next request response s = []"

fun kv_run :: "(client_request \<times> client_response) list \<Rightarrow> kv_state \<Rightarrow> kv_state list" where
  "kv_run [] s = [s]"
| "kv_run ((request, response) # trace) s = concat (map (kv_run trace) (kv_next request response s))"

section \<open>The database serving requests\<close>

record ('s, 'd) session =
  se_db :: "('s, 'd) database"
  se_snapshots :: "snapshot list"

definition take_snapshot ::
  "('s \<Rightarrow> user_index_snapshot res) \<Rightarrow> ('s, 'd) session \<Rightarrow> ('s, 'd) session \<times> client_response" where
  "take_snapshot V se =
     (case Db_snapshot V (se_db se) of
        (db, Ok sn) \<Rightarrow> (se\<lparr>se_db := db, se_snapshots := se_snapshots se @ [sn]\<rparr>, Took (Ok ()))
      | (db, Err e) \<Rightarrow> (se\<lparr>se_db := db\<rparr>, Took (Err e)))"

definition look_up ::
  "env \<Rightarrow> 's backend_ops \<Rightarrow> 'd os_ops \<Rightarrow> nat option \<Rightarrow> bytes \<Rightarrow> ('s, 'd) session \<Rightarrow> ('s, 'd) session \<times> client_response" where
  "look_up E B K n key se =
     (if \<exists>i. n = Some i \<and> length (se_snapshots se) \<le> i then (se, NoSuchSnapshot)
      else let (db, r) = Db_get E B K (map_option (\<lambda>i. se_snapshots se ! i) n) key (se_db se)
           in (se\<lparr>se_db := db\<rparr>, Found r))"

fun serve_write ::
  "env \<Rightarrow> 's backend_ops \<Rightarrow> 'd os_ops \<Rightarrow> client_request \<Rightarrow> ('s, 'd) database \<Rightarrow> ('s, 'd) database \<times> unit res progress" where
  "serve_write E B K (Store sync key val random) db = Db_put E B K sync key val random db"
| "serve_write E B K (Remove sync key random) db = Db_delete E B K sync key random db"
| "serve_write E B K (Apply sync batch random) db = Db_write E B K sync batch random db"
| "serve_write E B K _ db = (db, Blocked 0)"

definition serve ::
  "env \<Rightarrow> 's backend_ops \<Rightarrow> ('s \<Rightarrow> user_index_snapshot res) \<Rightarrow> 'd os_ops \<Rightarrow> client_request \<Rightarrow>
   ('s, 'd) session \<Rightarrow> ('s, 'd) session \<times> client_response" where
  "serve E B V K request se =
     (case request of
        TakeSnapshot \<Rightarrow> take_snapshot V se
      | Lookup n key \<Rightarrow> look_up E B K n key se
      | _ \<Rightarrow> let (db, x) = serve_write E B K request (se_db se) in (se\<lparr>se_db := db\<rparr>, Wrote x))"

fun serve_all ::
  "env \<Rightarrow> 's backend_ops \<Rightarrow> ('s \<Rightarrow> user_index_snapshot res) \<Rightarrow> 'd os_ops \<Rightarrow> client_request list \<Rightarrow>
   ('s, 'd) session \<Rightarrow> ('s, 'd) session \<times> client_response list" where
  "serve_all E B V K [] se = (se, [])"
| "serve_all E B V K (request # requests) se =
     (let (se, response) = serve E B V K request se;
          (se, responses) = serve_all E B V K requests se
      in (se, response # responses))"

section \<open>The refinement\<close>

text \<open>A snapshot is a view the index gave in a state that represented the map.\<close>

definition snapshot_holds ::
  "env \<Rightarrow> ('s \<Rightarrow> index_view) \<Rightarrow> ('s \<Rightarrow> user_index_snapshot res) \<Rightarrow> disk_view \<Rightarrow> vlog_geometry \<Rightarrow> nat \<Rightarrow> snapshot \<Rightarrow>
   (bytes \<rightharpoonup> bytes) \<Rightarrow> bool" where
  "snapshot_holds E iv V v g ident sn m \<longleftrightarrow> sp_db sn = ident \<and> (\<exists>s. V s = Ok (sp_view sn) \<and> represents E (iv s) v g m)"

lemma snapshot_holds_kept: "snapshot_holds E iv V v g i sn m \<Longrightarrow> kept v v' \<Longrightarrow> snapshot_holds E iv V v' g i sn m"
  unfolding snapshot_holds_def using represents_kept by blast

definition session_inv ::
  "env \<Rightarrow> ('s \<Rightarrow> index_view) \<Rightarrow> ('s \<Rightarrow> user_index_snapshot res) \<Rightarrow> ('d \<Rightarrow> disk_view) \<Rightarrow> ('s, 'd) session \<Rightarrow> kv_state \<Rightarrow> bool" where
  "session_inv E iv V dv se s \<longleftrightarrow> (let db = se_db se; co = db_coordinator db in
     db_inv E iv dv db (kv_map s)
     \<and> list_all2 (snapshot_holds E iv V (dv (wd_disk (co_log co))) (lw_geometry (co_writer co)) (db_id db)) (se_snapshots se) (kv_snapshots s)
     \<and> (kv_stopped s \<longrightarrow> inst (co_runtime co) \<noteq> Healthy))"

locale database_store =
  commit_store B iview K view ident
  for B :: "'s backend_ops" and iview :: "'s \<Rightarrow> index_view"
    and K :: "'d os_ops" and view :: "'d \<Rightarrow> disk_view" and ident :: "handle \<Rightarrow> file_identity" +
  fixes V :: "'s \<Rightarrow> user_index_snapshot res"
  assumes snapshot_reads: "V s = Ok sv \<Longrightarrow> ix_get_user_pointer sv k = Ok x \<Longrightarrow> x = iview s UserKeyspace k"
begin

lemma session_frame:
  assumes "session_inv E iview V view se s" and "read_frame (se_db se) db"
  shows "session_inv E iview V view (se\<lparr>se_db := db\<rparr>) s"
  using assms read_frame_db_inv [OF _ assms(2)] unfolding session_inv_def read_frame_def Let_def by auto

end

context database_store
begin

lemma in_operation_result:
  assumes "in_operation op body db = (db', r)"
  obtains db1 db2 y where "read_frame db db1" "body db1 = (db2, y)" "r = y" "db' = end_operation db2" | "read_frame db db'" "\<exists>e. r = Err e"
proof -
  obtain db1 r1 where b: "begin_operation op db = (db1, r1)" by fastforce
  note f = begin_operation_frame(1) [OF b]
  obtain db2 y where y: "body db1 = (db2, y)" by fastforce
  show thesis using that assms b y f by (cases r1) (auto simp: in_operation_def)
qed

lemma Db_get_spec:
  assumes "Db_get E B K sn key db = (db', r)"
    and "\<And>x. source_of sn db key = Ok x \<Longrightarrow> x = V' UserKeyspace key"
    and "represents E V' (LV (db_coordinator db)) (lw_geometry (co_writer (db_coordinator db))) m"
    and "db_inv E iview view db m'"
  shows "read_frame db db' \<and> (\<forall>v. r = Ok v \<longrightarrow> v = m key)"
  using assms(1) unfolding Db_get_def
proof (rule in_operation_result)
  fix db1 db2 y
  assume f: "read_frame db db1" and g: "DbInner_get E B K sn key db1 = (db2, y)" and r: "r = y" "db' = end_operation db2"
  have s: "source_of sn db1 = source_of sn db" using f by (auto simp: source_of_def read_frame_def Let_def split: option.splits)
  let ?g = "lw_geometry (co_writer (db_coordinator db))"
  have i: "wide_pages ?g" "vr_geometry (db_reader db1) = ?g"
    "cache_inv (LV (db_coordinator db1)) (wd_cache (co_log (db_coordinator db1)))" "LV (db_coordinator db1) = LV (db_coordinator db)"
    using assms(4) f by (auto simp: db_inv_def coord_inv_def read_frame_def Let_def)
  have "read_frame db1 db2 \<and> (\<forall>v. y = Ok v \<longrightarrow> v = m key)"
    using DbInner_get_spec [OF g, of V' ?g m] assms(2,3) i s by simp
  then show ?thesis using read_frame_trans [OF f] read_frame_trans [OF _ end_operation_frame] unfolding r by blast
qed auto

lemma look_up_sim:
  assumes "session_inv E iview V view se s" and "look_up E B K n key se = (se', response)"
  shows "\<exists>s' \<in> set (kv_next (Lookup n key) response s). session_inv E iview V view se' s'"
proof -
  let ?db = "se_db se" and ?co = "db_coordinator (se_db se)"
  let ?sn = "map_option (\<lambda>i. se_snapshots se ! i) n"
  have I: "db_inv E iview view ?db (kv_map s)"
    and L: "list_all2 (snapshot_holds E iview V (LV ?co) (lw_geometry (co_writer ?co)) (db_id ?db)) (se_snapshots se) (kv_snapshots s)"
    using assms(1) by (simp_all add: session_inv_def Let_def)
  have len: "length (se_snapshots se) = length (kv_snapshots s)" using L by (rule list_all2_lengthD)
  show ?thesis
  proof (cases "kv_source n s")
    case None
    then show ?thesis using assms len
      by (auto simp: look_up_def kv_source_def not_less split: option.splits if_splits)
  next
    case (Some m)
    then have ok: "\<not> (\<exists>i. n = Some i \<and> length (se_snapshots se) \<le> i)"
      using len by (auto simp: kv_source_def split: option.splits if_splits)
    obtain db r where g: "Db_get E B K ?sn key ?db = (db, r)" by fastforce
    have R: "se' = se\<lparr>se_db := db\<rparr>" "response = Found r" using assms(2) ok g by (auto simp: look_up_def)
    have "\<exists>V'. (\<forall>x. source_of ?sn ?db key = Ok x \<longrightarrow> x = V' UserKeyspace key)
        \<and> represents E V' (LV ?co) (lw_geometry (co_writer ?co)) m"
    proof (cases n)
      case None
      then show ?thesis using Some I get_user_view
        by (intro exI [of _ "IV ?co"]) (auto simp: kv_source_def source_of_def db_inv_def coord_inv_def Let_def)
    next
      case n: (Some i)
      then have i: "i < length (kv_snapshots s)" "m = kv_snapshots s ! i" using Some by (auto simp: kv_source_def split: if_splits)
      then show ?thesis using list_all2_nthD2 [OF L i(1)] n snapshot_reads unfolding snapshot_holds_def source_of_def
        by (auto, metis)
    qed
    then obtain V' where V': "\<And>x. source_of ?sn ?db key = Ok x \<Longrightarrow> x = V' UserKeyspace key"
      "represents E V' (LV ?co) (lw_geometry (co_writer ?co)) m" by blast
    have G: "read_frame ?db db \<and> (\<forall>v. r = Ok v \<longrightarrow> v = m key)" using Db_get_spec [OF g V' I] .
    show ?thesis using G session_frame [OF assms(1)] Some unfolding R by (cases r) auto
  qed
qed

lemma Db_snapshot_spec:
  assumes "Db_snapshot V db = (db', r)"
  shows "read_frame db db' \<and> (\<forall>sn. r = Ok sn \<longrightarrow> sp_db sn = db_id db \<and> V (co_index (db_coordinator db)) = Ok (sp_view sn))"
  using assms unfolding Db_snapshot_def
proof (rule in_operation_result)
  fix db1 db2 y
  let ?body = "\<lambda>db :: ('s, 'd) database. case begin_read Op_Snapshot db of
         Err e \<Rightarrow> (db, Err e)
       | Ok started \<Rightarrow>
           (case select_read_view V None Op_Snapshot started db of
              (db, Err e) \<Rightarrow> (db, Err e)
            | (db, Ok view) \<Rightarrow>
                (case complete_read started Op_Snapshot db of
                   Err e \<Rightarrow> (db, Err e)
                 | Ok _ \<Rightarrow>
                     (db\<lparr>db_lifecycle := lc_inner (clone_external_lease
                          \<lparr>lc_inner = db_lifecycle db, lc_bound = True, lc_runtime = db_runtime db\<rparr>)\<rparr>,
                      Ok \<lparr>sp_db = db_id db, sp_view = view\<rparr>)))"
  assume f: "read_frame db db1" and g: "?body db1 = (db2, y)" and r: "r = y" "db' = end_operation db2"
  have same: "db_id db1 = db_id db" "co_index (db_coordinator db1) = co_index (db_coordinator db)"
    using f by (simp_all add: read_frame_def Let_def)
  have lease: "read_frame db1 (db1\<lparr>db_lifecycle := lc\<rparr>)" for lc by (simp add: read_frame_def Let_def)
  have "read_frame db1 db2 \<and> (\<forall>sn. y = Ok sn \<longrightarrow> sp_db sn = db_id db1 \<and> V (co_index (db_coordinator db1)) = Ok (sp_view sn))"
    using g lease
    by (auto simp: select_read_view_def dest: failing_read_frame split: result.splits prod.splits)
  then show ?thesis using read_frame_trans [OF f] read_frame_trans [OF _ end_operation_frame] same unfolding r by auto
qed auto

lemma take_snapshot_sim:
  assumes "session_inv E iview V view se s" and "take_snapshot V se = (se', response)"
  shows "\<exists>s' \<in> set (kv_next TakeSnapshot response s). session_inv E iview V view se' s'"
proof -
  obtain db r where d: "Db_snapshot V (se_db se) = (db, r)" by fastforce
  note S = Db_snapshot_spec [OF d]
  note F = session_frame [OF assms(1) S [THEN conjunct1]]
  show ?thesis
  proof (cases r)
    case (Err e)
    then show ?thesis using assms(2) d F by (auto simp: take_snapshot_def)
  next
    case (Ok sn)
    let ?co = "db_coordinator db"
    have "snapshot_holds E iview V (LV ?co) (lw_geometry (co_writer ?co)) (db_id db) sn (kv_map s)"
      using S Ok F snapshot_reads
      unfolding snapshot_holds_def session_inv_def db_inv_def coord_inv_def read_frame_def Let_def
      by (auto intro!: exI [of _ "co_index ?co"])
    then show ?thesis using assms(2) d F Ok by (auto simp: take_snapshot_def session_inv_def Let_def intro!: list_all2_appendI)
  qed
qed

end

context database_store
begin

lemma DbInner_get_frame: "DbInner_get E B K sn key db = (db', r) \<Longrightarrow> read_frame db db'"
  by (auto simp: DbInner_get_def dest: failing_read_frame read_at_spec(1) split: result.splits if_splits option.splits prod.splits)

lemma Db_get_frame:
  assumes "Db_get E B K sn key db = (db', r)"
  shows "read_frame db db'"
  using assms unfolding Db_get_def
  by (rule in_operation_result) (use DbInner_get_frame read_frame_trans end_operation_frame in blast)+

lemma serve_write_spec:
  assumes "db_inv E iview view db m" and "request_ops request = Some ops" and "serve_write E B K request db = (db', x)"
  shows "\<exists>r m'. x = Done r \<and> db_effect E (wants_sync request) ops db m r db' m'"
proof (cases request)
  case (Store sync key val random)
  have "commit_write E B K Op_Put (preflight_put E key val sync) sync random db1 = (db2, y) \<Longrightarrow> db_inv E iview view db1 m \<Longrightarrow>
      \<exists>r m'. y = Done r \<and> db_effect E sync ops db1 m r db2 m'" for db1 db2 y
    using commit_write_spec [of E db1 m _ ops sync, OF _ _ preflight_refuses(1)] preflight_one_Ok(1) assms(2) Store by fastforce
  then show ?thesis using write_operation_spec [OF assms(1)] assms(3) Store by (simp add: Db_put_def)
next
  case (Remove sync key random)
  have "commit_write E B K Op_Delete (preflight_delete E key sync) sync random db1 = (db2, y) \<Longrightarrow> db_inv E iview view db1 m \<Longrightarrow>
      \<exists>r m'. y = Done r \<and> db_effect E sync ops db1 m r db2 m'" for db1 db2 y
    using commit_write_spec [of E db1 m _ ops sync, OF _ _ preflight_refuses(2)] preflight_one_Ok(2) assms(2) Remove by fastforce
  then show ?thesis using write_operation_spec [OF assms(1)] assms(3) Remove by (simp add: Db_delete_def)
next
  case (Apply sync batch random)
  let ?body = "\<lambda>db. if WriteBatch_is_empty batch then write_empty E B K sync db
       else commit_write E B K Op_WriteBatch (preflight_batch E batch sync) sync random db"
  have "?body db1 = (db2, y) \<Longrightarrow> db_inv E iview view db1 m \<Longrightarrow>
      \<exists>r m'. y = Done r \<and> db_effect E sync ops db1 m r db2 m'" for db1 db2 y
    using commit_write_spec [of E db1 m _ ops sync, OF _ _ preflight_refuses(3)] preflight_batch_Ok write_empty_spec
      assms(2) Apply by (fastforce simp: WriteBatch_is_empty_def split: if_splits)
  then show ?thesis using write_operation_spec [OF assms(1), of Op_WriteBatch ?body] assms(3) Apply by (simp add: Db_write_def)
qed (use assms(2) in auto)

lemma serve_read_frame:
  assumes "serve E B V K request se = (se', response)" and "request_ops request = None"
  shows "read_frame (se_db se) (se_db se')"
proof (cases request)
  case TakeSnapshot
  then show ?thesis using assms(1) Db_snapshot_spec
    by (fastforce simp: serve_def take_snapshot_def split: prod.splits result.splits)
next
  case (Lookup n key)
  then show ?thesis using assms(1) Db_get_frame
    by (fastforce simp: serve_def look_up_def split: prod.splits if_splits)
qed (use assms(2) in auto)

lemma serve_write_sim:
  assumes "session_inv E iview V view se s" and "request_ops request = Some ops"
    and "serve_write E B K request (se_db se) = (db, x)"
  shows "\<exists>s' \<in> set (kv_next request (Wrote x) s). session_inv E iview V view (se\<lparr>se_db := db\<rparr>) s'"
proof -
  let ?co = "db_coordinator (se_db se)" and ?co' = "db_coordinator db"
  have I: "db_inv E iview view (se_db se) (kv_map s)"
    and L: "list_all2 (snapshot_holds E iview V (LV ?co) (lw_geometry (co_writer ?co)) (db_id (se_db se))) (se_snapshots se) (kv_snapshots s)"
    and st: "kv_stopped s \<longrightarrow> inst (co_runtime ?co) \<noteq> Healthy"
    using assms(1) by (simp_all add: session_inv_def Let_def)
  obtain r m' where x: "x = Done r" and e: "db_effect E (wants_sync request) ops (se_db se) (kv_map s) r db m'"
    using serve_write_spec [OF I assms(2,3)] by blast
  note D = e [unfolded db_effect_def Let_def]
  have L': "list_all2 (snapshot_holds E iview V (LV ?co') (lw_geometry (co_writer ?co')) (db_id db)) (se_snapshots se) (kv_snapshots s)"
  proof -
    have k: "kept (LV ?co) (LV ?co')" "db_id db = db_id (se_db se)" "lw_geometry (co_writer ?co') = lw_geometry (co_writer ?co)"
      using D by simp_all
    show ?thesis unfolding k(2,3) by (rule list_all2_mono [OF L]) (rule snapshot_holds_kept [OF _ k(1)])
  qed
  have inv: "session_inv E iview V view (se\<lparr>se_db := db\<rparr>) (s\<lparr>kv_stopped := b, kv_map := m'\<rparr>)"
    if "b \<longrightarrow> inst (co_runtime ?co') \<noteq> Healthy" for b
    using D L' that by (simp add: session_inv_def Let_def)
  have kv: "kv_next request (Wrote (Done r)) s = kv_write ops r s" using assms(2) by (cases request) auto
  have same: "s\<lparr>kv_stopped := kv_stopped s, kv_map := mm\<rparr> = s\<lparr>kv_map := mm\<rparr>" for mm by simp
  note inv_same = inv [of "kv_stopped s", unfolded same]
  show ?thesis
  proof (cases r)
    case (Ok u)
    then have "\<not> kv_stopped s" "m' = apply_ops ops (kv_map s)" using D st by (auto simp: kv_outcome_def)
    then show ?thesis using inv_same Ok unfolding x kv kv_write_def by simp
  next
    case (Err er)
    have m': "m' = kv_map s \<or> err_outcome er = Some CommitUnknown \<and> m' = apply_ops ops (kv_map s)"
      using D Err by (simp add: kv_outcome_def)
    show ?thesis
    proof (cases "err_outcome er = Some CommitUnknown")
      case True
      then have "\<not> kv_stopped s" "inst (co_runtime ?co') \<noteq> Healthy" using D st Err by auto
      then show ?thesis using inv [of True] m' True Err unfolding x kv kv_write_def by auto
    next
      case False
      then show ?thesis using inv_same m' D st Err unfolding x kv kv_write_def by auto
    qed
  qed
qed

lemma serve_sim:
  assumes "session_inv E iview V view se s" and "serve E B V K request se = (se', response)"
  shows "\<exists>s' \<in> set (kv_next request response s). session_inv E iview V view se' s'"
proof (cases "request_ops request")
  case None
  then show ?thesis using assms look_up_sim [OF assms(1)] take_snapshot_sim [OF assms(1)]
    by (cases request) (auto simp: serve_def)
next
  case (Some ops)
  then show ?thesis using assms(2) serve_write_sim [OF assms(1) Some]
    by (cases request) (auto simp: serve_def simp del: serve_write.simps kv_next.simps split: prod.splits)
qed

lemma serve_all_sim:
  assumes "session_inv E iview V view se s" and "serve_all E B V K requests se = (se', responses)"
  shows "length responses = length requests
    \<and> (\<exists>s' \<in> set (kv_run (zip requests responses) s). session_inv E iview V view se' s')"
  using assms
proof (induction requests arbitrary: se s responses)
  case (Cons request requests)
  obtain se1 response where a: "serve E B V K request se = (se1, response)" by fastforce
  obtain rs where b: "serve_all E B V K requests se1 = (se', rs)" "responses = response # rs"
    using Cons.prems(2) a by (auto split: prod.splits)
  obtain s1 where s1: "s1 \<in> set (kv_next request response s)" "session_inv E iview V view se1 s1"
    using serve_sim [OF Cons.prems(1) a] by blast
  from Cons.IH [OF s1(2) b(1)] s1(1) show ?case by (auto simp: b(2))
qed simp

text \<open>What is acknowledged as synchronized is on stable storage, and the frontier never runs ahead of it.\<close>

lemma serve_write_ahead:
  assumes "session_inv E iview V view se s" and "serve E B V K request se = (se', response)"
  defines "co \<equiv> db_coordinator (se_db se)" and "co' \<equiv> db_coordinator (se_db se')"
  shows "frontier_record co' \<noteq> frontier_record co \<longrightarrow> log_durable (LV co')"
    and "response = Wrote (Done (Ok ())) \<Longrightarrow> wants_sync request \<Longrightarrow> log_durable (LV co')
      \<and> df_durable_seq (cs_durable_frontier (co_state co')) = cs_head_seq (co_state co')"
proof -
  have "(frontier_record co' \<noteq> frontier_record co \<longrightarrow> log_durable (LV co'))
    \<and> (response = Wrote (Done (Ok ())) \<and> wants_sync request \<longrightarrow> log_durable (LV co')
      \<and> df_durable_seq (cs_durable_frontier (co_state co')) = cs_head_seq (co_state co'))"
  proof (cases "request_ops request")
    case (Some ops)
    obtain db x where w: "serve_write E B K request (se_db se) = (db, x)" by fastforce
    have I: "db_inv E iview view (se_db se) (kv_map s)" using assms(1) by (simp add: session_inv_def Let_def)
    have r: "se' = se\<lparr>se_db := db\<rparr>" "response = Wrote x"
      using assms(2) w Some by (cases request; simp add: serve_def del: serve_write.simps)+
    show ?thesis using serve_write_spec [OF I Some w] unfolding db_effect_def Let_def co_def co'_def r by auto
  next
    case None
    have "read_frame (se_db se) (se_db se')" by (rule serve_read_frame [OF assms(2) None])
    then show ?thesis using None assms(2) unfolding co_def co'_def read_frame_def Let_def
      by (cases request) auto
  qed
  then show "frontier_record co' \<noteq> frontier_record co \<longrightarrow> log_durable (LV co')"
    "response = Wrote (Done (Ok ())) \<Longrightarrow> wants_sync request \<Longrightarrow> log_durable (LV co')
      \<and> df_durable_seq (cs_durable_frontier (co_state co')) = cs_head_seq (co_state co')" by blast+
qed

end

section \<open>The stores the database runs on\<close>

locale stored_database = fjall_store F fview + log_disk K view ident
  for F :: "'db fjall_ops" and fview :: "'db \<Rightarrow> index_view"
    and K :: "'d os_ops" and view :: "'d \<Rightarrow> disk_view" and ident :: "handle \<Rightarrow> file_identity"

sublocale stored_database \<subseteq> sd: database_store "fjall_backend_ops E F" "\<lambda>s. fview (fb_database s)" K view ident
  "fjall_snapshot_view E F" for E
proof (unfold_locales, goal_cases)
  case (1 s sv k x)
  then have "fj_get F (fb_database s) UserKeyspace k = Ok x"
    by (auto simp: fjall_snapshot_view_def FjallBackend_snapshot_def FjallBackend_get_user_def read_database_def
        validate_snapshot_def result_simps split: if_splits dest!: copy_value_Ok)
  then show ?case by (rule get_view)
qed

interpretation mem_database: stored_database "mem_fjall fault" mem_view "mem_os fault' limit" mem_disk_view mem_ident
  for fault fault' limit ..

section \<open>Opening\<close>

lemma CommitCoordinator_new_inv:
  assumes "CommitCoordinator_new rc s lw w head_seq frontier head_vlog_seq head_vlog_end = Ok co"
    and "gate_idle rc" and "wide_pages (lw_geometry lw)" and "represents E (iview s) (view (wd_disk w)) (lw_geometry lw) m"
    and "iview s SystemKeyspace HEAD_SEQ_KEY = Some (encode_head_seq head_seq)"
    and "DurableFrontier_encode E frontier = Ok bs" and "iview s SystemKeyspace DURABLE_FRONTIER_KEY = Some bs"
    and "log_inv (view (wd_disk w)) lw" and "tail_position (lw_geometry lw) (lw_position lw)"
    and "clean lw" and "\<not> lw_append_failed lw" and "lw_pending_sync_id lw = None"
  shows "coord_inv E iview view co m"
proof -
  let ?st = "\<lparr>cs_head_seq = head_seq, cs_durable_frontier = frontier, cs_head_vlog_seq = head_vlog_seq, cs_head_vlog_end = head_vlog_end\<rparr>"
  let ?co = "\<lparr>co_runtime = rc, co_index = s, co_writer = lw, co_log = w, co_state = ?st\<rparr>"
  have v: "validate_initial_state head_seq frontier head_vlog_seq head_vlog_end lw = Ok ()"
    and co: "co = publish_commit_stats ?co"
    using assms(1) by (auto simp: CommitCoordinator_new_def result_simps)
  have f: "df_durable_seq frontier = head_seq" "df_durable_vlog_seq frontier = head_vlog_seq" "head_vlog_seq \<le> head_seq"
    "lw_position lw = (case head_vlog_end of Some p \<Rightarrow> p | None \<Rightarrow> VLogPosition 0 0)"
    using v by (auto simp: validate_initial_state_def result_simps Let_def split: option.splits if_splits)
  have idle: "gate_idle (co_runtime co)" using publish_commit_stats_shape(5) [of ?co] assms(2) unfolding co by simp
  have shape: "co = ?co\<lparr>co_runtime := co_runtime co\<rparr>" using publish_commit_stats_shape(1) [of ?co] unfolding co .
  show ?thesis
    using idle assms(3-12) f by (subst shape) (auto simp: coord_inv_def memory_matches_def log_matches_def)
qed

section \<open>A fresh database, for the witnesses\<close>

definition fresh_frontier :: durable_frontier where
  "fresh_frontier = \<lparr>df_durable_seq = 0, df_durable_vlog_seq = 0, df_durable_vlog_end = EmptyEnd\<rparr>"

definition fresh_frontier_bytes :: bytes where
  "fresh_frontier_bytes = (case DurableFrontier_encode sample_env fresh_frontier of Ok bs \<Rightarrow> bs | Err e \<Rightarrow> [])"

definition fresh_index :: "commit_seq \<Rightarrow> mem_db fjall_backend" where
  "fresh_index head = \<lparr>fb_database = (\<lambda>ks. if ks = SystemKeyspace then [(DATABASE_IDENTITY_KEY, [1]),
       (HEAD_SEQ_KEY, encode_head_seq head), (DURABLE_FRONTIER_KEY, fresh_frontier_bytes)] else []),
     fb_snapshot_owner = 0, fb_commit_lock_poisoned = False\<rparr>"

definition fresh_log :: "mem_disk log_world" where
  "fresh_log =
     \<lparr>wd_disk = \<lparr>mk_clock = 0, mk_next = 0, mk_entries = [], mk_content = (\<lambda>_. []),
        mk_synced = (\<lambda>_. True), mk_synced_entry = (\<lambda>_. True)\<rparr>,
      wd_catalog = Mapping.empty, wd_cache = cache_empty\<rparr>"

definition fresh_coordinator :: "(mem_db fjall_backend, mem_disk) coordinator res" where
  "fresh_coordinator = CommitCoordinator_new (RuntimeControl_new StatsState_new 0) (fresh_index 0)
     (writer_of 1 PRODUCTION AS_Empty) fresh_log 0 fresh_frontier 0 None"

definition fresh_session :: "(mem_db fjall_backend, mem_disk) coordinator \<Rightarrow> (mem_db fjall_backend, mem_disk) session" where
  "fresh_session co = \<lparr>se_db = \<lparr>db_id = 0, db_coordinator = co,
     db_lifecycle = lc_inner (new_with_external_lease (co_runtime co)), db_reader = sample_reader,
     db_cleanup = \<lparr>cw_sender = True, cw_connected = True, cw_pending = False\<rparr>\<rparr>, se_snapshots = []\<rparr>"

abbreviation mem_index :: "mem_db fjall_ops" where
  "mem_index \<equiv> mem_fjall (\<lambda>_. None)"

definition fresh_state :: kv_state where
  "fresh_state = \<lparr>kv_stopped = False, kv_map = Map.empty, kv_snapshots = []\<rparr>"

lemma fresh_frontier_encodes: "DurableFrontier_encode sample_env fresh_frontier = Ok fresh_frontier_bytes"
  by (simp add: fresh_frontier_bytes_def fresh_frontier_def DurableFrontier_encode_def DurableFrontier_validate_def)

lemma fresh_writer_inv: "log_inv (mem_disk_view (wd_disk fresh_log)) (writer_of 1 PRODUCTION AS_Empty)"
  by (simp add: log_inv_def files_inv_def dirty_inv_def in_log_def fresh_log_def mem_disk_view_def file_handle_def writer_of_def)

lemma gate_idle_new: "gate_idle (RuntimeControl_new stats n)"
  by (simp add: gate_idle_def RuntimeControl_new_def publish_stats_def WriteGateInner_new_def)

lemma fresh_view:
  "mem_view (fb_database (fresh_index head)) UserKeyspace = Map.empty"
  "mem_view (fb_database (fresh_index head)) SystemKeyspace HEAD_SEQ_KEY = Some (encode_head_seq head)"
  "mem_view (fb_database (fresh_index head)) SystemKeyspace DURABLE_FRONTIER_KEY = Some fresh_frontier_bytes"
  by (simp_all add: mem_view_def fresh_index_def HEAD_SEQ_KEY_def DURABLE_FRONTIER_KEY_def DATABASE_IDENTITY_KEY_def ascii_def)

lemma fresh_session_inv:
  "\<exists>co. fresh_coordinator = Ok co
     \<and> session_inv sample_env (\<lambda>s. mem_view (fb_database s)) (fjall_snapshot_view sample_env mem_index) mem_disk_view (fresh_session co) fresh_state"
proof -
  let ?lw = "writer_of 1 PRODUCTION AS_Empty"
  have v: "validate_initial_state 0 fresh_frontier 0 None ?lw = Ok ()"
    by (simp add: validate_initial_state_def DurableFrontier_validate_against_head_def DurableFrontier_validate_def
        fresh_frontier_def writer_of_def lw_position_def state_position_def Let_def)
  then obtain co where co: "fresh_coordinator = Ok co"
    "CommitCoordinator_new (RuntimeControl_new StatsState_new 0) (fresh_index 0) ?lw fresh_log 0 fresh_frontier 0 None = Ok co"
    by (simp add: fresh_coordinator_def CommitCoordinator_new_def)
  have rep: "represents sample_env (mem_view (fb_database (fresh_index head))) v PRODUCTION Map.empty" for v head
    by (simp add: represents_def fresh_view)
  have lw: "lw_geometry ?lw = PRODUCTION" "clean ?lw" "\<not> lw_append_failed ?lw" "lw_pending_sync_id ?lw = None"
    "tail_position PRODUCTION (lw_position ?lw)"
    by (simp_all add: writer_of_def clean_def lw_position_def state_position_def tail_position_def log_position_def boundary_def)
  have "coord_inv sample_env (\<lambda>s. mem_view (fb_database s)) mem_disk_view co Map.empty"
    by (rule CommitCoordinator_new_inv [OF co(2) gate_idle_new _ _ _ fresh_frontier_encodes])
      (use lw rep fresh_view fresh_writer_inv in simp_all)
  moreover have "lw_geometry (co_writer co) = PRODUCTION" "wd_cache (co_log co) = cache_empty"
    using co(2) v lw(1) by (auto simp: CommitCoordinator_new_def fresh_log_def)
  ultimately show ?thesis using co(1)
    by (auto simp: session_inv_def db_inv_def fresh_session_def fresh_state_def sample_reader_def Let_def)
qed

context stored_database
begin

lemmas requests_refine = sd.serve_all_sim
lemmas requests_write_ahead = sd.serve_write_ahead

end

section \<open>Properties\<close>

text \<open>
  C1: the database is a map. Let the index and the operating system behave as documented, though
  any call may fail, and let requests be served one at a time from a database that represents a
  map. Then every sequence of responses is one the map allows: a lookup that succeeds returns
  what the map, or the snapshot it names, holds under the key; an acknowledged write has applied
  all its operations in order; a failed write has applied none, unless its error says that the
  outcome is unknown, and after such an error no write is acknowledged any more. No request blocks.
\<close>

theorem database_refines_map:
  assumes "fjall_store F fview" and "log_disk K view ident"
    and "session_inv E (\<lambda>s. fview (fb_database s)) (fjall_snapshot_view E F) view se s"
    and "serve_all E (fjall_backend_ops E F) (fjall_snapshot_view E F) K requests se = (se', responses)"
  shows "length responses = length requests \<and> (\<exists>s' \<in> set (kv_run (zip requests responses) s).
      session_inv E (\<lambda>s. fview (fb_database s)) (fjall_snapshot_view E F) view se' s')"
  by (rule stored_database.requests_refine [OF _ assms(3,4)]) (use assms(1,2) in \<open>simp add: stored_database_def\<close>)

theorem database_refines_map_witness:
  "\<exists>co se' responses. fresh_coordinator = Ok co
     \<and> serve_all sample_env (fjall_backend_ops sample_env mem_index) (fjall_snapshot_view sample_env mem_index) sample_os
         [Store True [107] [118] (Ok 5), TakeSnapshot, Remove False [107] (Ok 6), Lookup (Some 0) [107]] (fresh_session co)
       = (se', responses)
     \<and> kv_run (zip [Store True [107] [118] (Ok 5), TakeSnapshot, Remove False [107] (Ok 6), Lookup (Some 0) [107]] responses)
         fresh_state \<noteq> []"
proof -
  obtain co where co: "fresh_coordinator = Ok co"
    "session_inv sample_env (\<lambda>s. mem_view (fb_database s)) (fjall_snapshot_view sample_env mem_index) mem_disk_view (fresh_session co) fresh_state"
    using fresh_session_inv by blast
  let ?rs = "[Store True [107] [118] (Ok 5), TakeSnapshot, Remove False [107] (Ok 6), Lookup (Some 0) [107]]"
  obtain se' responses where r: "serve_all sample_env (fjall_backend_ops sample_env mem_index)
      (fjall_snapshot_view sample_env mem_index) sample_os ?rs (fresh_session co) = (se', responses)" by fastforce
  show ?thesis
    using database_refines_map [OF mem.fjall_store_axioms sample_log_disk co(2) r] co(1) r by (metis empty_iff list.set(1))
qed


text \<open>
  C3: the frontier is written after the log. Whatever a request is and however it ends, when it changes
  the durable frontier recorded in the index, the whole value log is on stable storage: recovery
  never finds a frontier that promises more than the log holds.
\<close>

theorem frontier_follows_the_log:
  assumes "fjall_store F fview" and "log_disk K view ident"
    and "session_inv E (\<lambda>s. fview (fb_database s)) (fjall_snapshot_view E F) view se s"
    and "serve E (fjall_backend_ops E F) (fjall_snapshot_view E F) K request se = (se', response)"
    and "fview (fb_database (co_index (db_coordinator (se_db se')))) SystemKeyspace DURABLE_FRONTIER_KEY
      \<noteq> fview (fb_database (co_index (db_coordinator (se_db se)))) SystemKeyspace DURABLE_FRONTIER_KEY"
  shows "log_durable (view (wd_disk (co_log (db_coordinator (se_db se')))))"
proof -
  have "stored_database F fview K view ident" using assms(1,2) by (simp add: stored_database_def)
  from stored_database.requests_write_ahead(1) [OF this assms(3,4)] assms(5) show ?thesis by blast
qed

lemma start_request_ready:
  assumes "gate_idle rc" and "inst rc = Healthy" and "accepting_writes (rc_gate rc)"
  shows "\<exists>rc' rid. start_request op rc = (rc', Done (Ok rid))"
proof -
  obtain rc1 rid where n: "new_request op rc = (rc1, rid)" by fastforce
  have rc1: "rc_gate rc1 = rc_gate rc" "runtime_state rc1 = runtime_state rc"
    "rc_requests rc1 = (rc_requests rc)(rid \<mapsto> WriteRequest_new op)"
    using new_request_simps(3,5,7) [of op rc] runtime_state_simps(4) [of op rc] by (simp_all add: n)
  show ?thesis using assms
    by (simp add: start_request_def enqueue_write_def fast_check_def ensure_def n rc1 enqueue_section_def admission_section_def
        gate_idle_def await_started_def WriteTicket_wait_until_started_def wait_until_started_def mark_started_def WriteRequest_new_def)
qed

lemma fresh_runtime:
  assumes "fresh_coordinator = Ok co"
  shows "co = \<lparr>co_runtime = co_runtime co, co_index = fresh_index 0, co_writer = writer_of 1 PRODUCTION AS_Empty, co_log = fresh_log,
      co_state = \<lparr>cs_head_seq = 0, cs_durable_frontier = fresh_frontier, cs_head_vlog_seq = 0, cs_head_vlog_end = None\<rparr>\<rparr>"
    and "gate_idle (co_runtime co)" and "inst (co_runtime co) = Healthy" and "accepting_writes (rc_gate (co_runtime co))"
  using assms
  by (auto simp: fresh_coordinator_def CommitCoordinator_new_def result_simps publish_commit_stats_def update_commit_state_def
      fresh_frontier_def gate_idle_new RuntimeControl_new_def publish_stats_def WriteGateInner_new_def runtime_state_def gate_idle_def Let_def)

lemma empty_sync_serves:
  assumes "gate_idle (db_runtime db)" and "inst (db_runtime db) = Healthy" and "accepting_writes (rc_gate (db_runtime db))"
    and "accepting_operations (db_lifecycle db)"
    and "\<And>rid rc. \<exists>co'. commit_empty_barrier E B K rid ((db_coordinator db)\<lparr>co_runtime := rc\<rparr>) = (co', Ok ()) \<and> P (co_index co')"
  shows "\<exists>se'. serve E B V K (Apply True \<lparr>operations = []\<rparr> random) \<lparr>se_db = db, se_snapshots = sns\<rparr> = (se', Wrote (Done (Ok ())))
    \<and> P (co_index (db_coordinator (se_db se')))"
proof -
  obtain rc rid where s: "start_request Op_WriteBatch (db_runtime db) = (rc, Done (Ok rid))"
    using start_request_ready [OF assms(1-3)] by blast
  obtain co' where b: "commit_empty_barrier E B K rid ((db_coordinator db)\<lparr>co_runtime := rc\<rparr>) = (co', Ok ())" "P (co_index co')"
    using assms(5) by blast
  show ?thesis using assms(4) s b
    by (auto simp: serve_def Db_write_def WriteBatch_is_empty_def write_operation_def begin_operation_def acquire_operation_def
        write_empty_def commit_empty_batch_def end_operation_def release_operation_guard_def cleanup_trigger_def set_runtime_def
        Let_def split: prod.splits)
qed


section \<open>A commit that has not been synchronized\<close>

definition lagging_session :: "(mem_db fjall_backend, mem_disk) coordinator \<Rightarrow> (mem_db fjall_backend, mem_disk) session" where
  "lagging_session co = fresh_session (co\<lparr>co_index := fresh_index 1,
     co_state := \<lparr>cs_head_seq = 1, cs_durable_frontier = fresh_frontier, cs_head_vlog_seq = 0, cs_head_vlog_end = None\<rparr>\<rparr>)"

lemma lagging_inv:
  assumes "fresh_coordinator = Ok co"
  shows "session_inv sample_env (\<lambda>s. mem_view (fb_database s)) (fjall_snapshot_view sample_env mem_index) mem_disk_view (lagging_session co) fresh_state"
proof -
  have "session_inv sample_env (\<lambda>s. mem_view (fb_database s)) (fjall_snapshot_view sample_env mem_index) mem_disk_view (fresh_session co) fresh_state"
    using fresh_session_inv by (simp add: assms)
  moreover have "co_state co = \<lparr>cs_head_seq = 0, cs_durable_frontier = fresh_frontier, cs_head_vlog_seq = 0, cs_head_vlog_end = None\<rparr>"
    "co_index co = fresh_index 0" by (subst fresh_runtime(1) [OF assms], simp)+
  ultimately show ?thesis
    by (simp add: lagging_session_def session_inv_def db_inv_def fresh_session_def coord_inv_def Let_def memory_matches_def
        log_matches_def represents_def fresh_view fresh_frontier_encodes) (auto simp: fresh_frontier_def)
qed

lemma lagging_barrier:
  assumes "fresh_coordinator = Ok co"
  defines "db \<equiv> se_db (lagging_session co)"
  shows "\<exists>co'. commit_empty_barrier sample_env (fjall_backend_ops sample_env mem_index) sample_os rid
      ((db_coordinator db)\<lparr>co_runtime := rc\<rparr>) = (co', Ok ())
      \<and> mem_view (fb_database (co_index co')) SystemKeyspace DURABLE_FRONTIER_KEY \<noteq> Some fresh_frontier_bytes"
proof -
  let ?f = "frontier_from_optional 1 0 None"
  define bs where "bs = (case DurableFrontier_encode sample_env ?f of Ok bs \<Rightarrow> bs | Err e \<Rightarrow> [])"
  have bs: "DurableFrontier_encode sample_env ?f = Ok bs"
    by (simp add: bs_def frontier_from_optional_def DurableFrontier_encode_def DurableFrontier_validate_def)
  have ne: "bs \<noteq> []" using bs by (auto simp: DurableFrontier_encode_def result_simps with_crc_def DURABLE_FRONTIER_MAGIC_def ascii_def)
  have b: "frontier_only_batch sample_env ?f Op_WriteBatch = Ok \<lparr>ib_operations = [PutInternal SystemSpace DURABLE_FRONTIER_KEY bs]\<rparr>"
    using allocates_sample_env
    by (simp add: frontier_only_batch_def add_frontier_to_batch_def bs IndexAtomicBatch_try_with_capacity_def IndexAtomicBatch_try_push_def
        durability_try_copy_def allocates_def ne is_database_identity_key_def DURABLE_FRONTIER_KEY_def DATABASE_IDENTITY_KEY_def ascii_def)
  have c: "\<exists>s. FjallBackend_commit_atomic sample_env mem_index \<lparr>ib_operations = [PutInternal SystemSpace DURABLE_FRONTIER_KEY bs]\<rparr> SyncAll
      (fresh_index 1) = (s, Ok ())
      \<and> mem_view (fb_database s) SystemKeyspace DURABLE_FRONTIER_KEY = Some bs"
    by (simp add: FjallBackend_commit_atomic_def commit_preconditions_def validate_for_commit_def
      is_database_identity_key_def fresh_index_def ensure_identity_is_initialized_def mem_fjall_def
      is_database_initialization_def DURABLE_FRONTIER_KEY_def HEAD_SEQ_KEY_def ascii_def DATABASE_IDENTITY_KEY_def mem_view_def batch_writes_def ne)
  have "bs \<noteq> fresh_frontier_bytes"
  proof
    assume "bs = fresh_frontier_bytes"
    then have "fresh_frontier = ?f" using df.dec_enc [OF bs] df.dec_enc [OF fresh_frontier_encodes] by simp
    then show False by (simp add: fresh_frontier_def frontier_from_optional_def)
  qed
  then show ?thesis using c
    by (auto simp: db_def lagging_session_def fresh_session_def commit_empty_barrier_def Let_def fresh_frontier_def b sync_stage_def
        index_stage_def fjall_backend_ops_def finish_ticket_def publish_empty_barrier_success_def publish_commit_stats_def
        finish_frontier_after_success_def split: prod.splits)
qed

theorem frontier_follows_the_log_witness:
  "\<exists>co se' response. fresh_coordinator = Ok co
     \<and> serve sample_env (fjall_backend_ops sample_env mem_index) (fjall_snapshot_view sample_env mem_index) sample_os
         (Apply True \<lparr>operations = []\<rparr> (Ok 1)) (lagging_session co) = (se', response)
     \<and> log_durable (mem_disk_view (wd_disk (co_log (db_coordinator (se_db se')))))"
proof -
  obtain co where co: "fresh_coordinator = Ok co" using fresh_session_inv by blast
  let ?P = "\<lambda>s. mem_view (fb_database s) SystemKeyspace DURABLE_FRONTIER_KEY \<noteq> Some fresh_frontier_bytes"
  note b = lagging_barrier [OF co]
  have "\<exists>se'. serve sample_env (fjall_backend_ops sample_env mem_index) (fjall_snapshot_view sample_env mem_index) sample_os
      (Apply True \<lparr>operations = []\<rparr> (Ok 1)) \<lparr>se_db = se_db (lagging_session co), se_snapshots = []\<rparr> = (se', Wrote (Done (Ok ())))
      \<and> ?P (co_index (db_coordinator (se_db se')))"
    by (rule empty_sync_serves [where P = ?P, OF _ _ _ _ b])
      (use fresh_runtime(2-4) [OF co] in \<open>simp_all add: lagging_session_def fresh_session_def new_with_external_lease_def\<close>)
  moreover have "\<lparr>se_db = se_db (lagging_session co), se_snapshots = []\<rparr> = lagging_session co"
    by (simp add: lagging_session_def fresh_session_def)
  ultimately obtain se' where r: "serve sample_env (fjall_backend_ops sample_env mem_index) (fjall_snapshot_view sample_env mem_index)
      sample_os (Apply True \<lparr>operations = []\<rparr> (Ok 1)) (lagging_session co) = (se', Wrote (Done (Ok ())))"
    "?P (co_index (db_coordinator (se_db se')))" by auto
  have "mem_view (fb_database (co_index (db_coordinator (se_db se')))) SystemKeyspace DURABLE_FRONTIER_KEY
      \<noteq> mem_view (fb_database (co_index (db_coordinator (se_db (lagging_session co))))) SystemKeyspace DURABLE_FRONTIER_KEY"
    using r(2) by (simp add: lagging_session_def fresh_session_def fresh_view)
  from frontier_follows_the_log [where fview = mem_view and F = mem_index, OF mem.fjall_store_axioms sample_log_disk lagging_inv [OF co] r(1)] this co r(1)
  show ?thesis by auto
qed

end
