(* ===== verification/CursorLog.thy ===== *)
theory CursorLog
  imports Cursor KvStore
begin

text \<open>
  Where cursors go: every call moves a cursor to the key the call asks for in the view the cursor was
  opened on, with the value that view holds, or past the end, or into a failure it never leaves.
  Writes that happen meanwhile change nothing of this.
\<close>

section \<open>Iterators that may fail\<close>

text \<open>What is taken from the front of an iterator, up to its first error, is what it stands for.\<close>

fun front :: "('a, 'e) result list \<Rightarrow> 'a list \<Rightarrow> bool" where
  "front [] es = (es = [])"
| "front (Ok x # xs) es = (case es of [] \<Rightarrow> False | e # es' \<Rightarrow> x = e \<and> front xs es')"
| "front (Err error # xs) es = True"

definition oriented :: "cursor_direction \<Rightarrow> 'a list \<Rightarrow> 'a list" where
  "oriented d xs = (case d of Forward \<Rightarrow> xs | Reverse \<Rightarrow> rev xs)"

definition stands_for :: "('a, 'e) result list \<Rightarrow> 'a list \<Rightarrow> bool" where
  "stands_for xs es \<longleftrightarrow> (\<forall>d. front (oriented d xs) (oriented d es))"

lemma oriented_simps [simp]: "oriented d [] = []" "set (oriented d xs) = set xs" "oriented Forward xs = xs" "oriented Reverse xs = rev xs"
  "oriented d xs = [] \<longleftrightarrow> xs = []"
  by (cases d; simp add: oriented_def)+

lemma front_map:
  assumes "front xs es" and "\<And>x e. g (Ok x) = Ok e \<Longrightarrow> e = f x" and "\<And>er. \<exists>er'. g (Err er) = Err er'"
  shows "front (map g xs) (map f es)"
  using assms(1)
proof (induction xs es rule: front.induct)
  case (2 x xs es)
  then obtain es' where "es = x # es'" "front xs es'" by (auto split: list.splits)
  then show ?case using 2 assms(2) [of x] by (cases "g (Ok x)") (auto split: list.splits)
next
  case (3 er xs es)
  then show ?case using assms(3) [of er] by auto
qed simp

lemma front_Ok [simp]: "front (map Ok es) es"
  by (induction es) auto

lemma select_entry_front:
  assumes "front (oriented d xs) (oriented d es)" and "select_entry xs d = (rest, r)"
  shows "case r of Err _ \<Rightarrow> True | Ok None \<Rightarrow> es = []
    | Ok (Some e) \<Rightarrow> \<exists>es'. oriented d es = e # es' \<and> front (oriented d rest) es'"
proof (cases xs)
  case Nil
  then show ?thesis using assms by (cases d) auto
next
  case (Cons x xs')
  obtain y ys where o: "oriented d xs = y # ys" using Cons by (cases "oriented d xs") auto
  have s: "rest = oriented d ys" "r = map_ok Some y"
  proof -
    have "rest = oriented d ys \<and> r = map_ok Some y"
    proof (cases d)
      case Forward
      then show ?thesis using assms(2) Cons o by simp
    next
      case Reverse
      then have "xs = rev ys @ [y]" using o by (metis oriented_simps(4) rev.simps(2) rev_rev_ident)
      then show ?thesis using assms(2) Reverse Cons
        by (metis (no_types, lifting) butlast_snoc last_snoc oriented_simps(4) prod.inject select_entry.simps(3))
    qed
    then show "rest = oriented d ys" "r = map_ok Some y" by blast+
  qed
  have "oriented d (oriented d ys) = ys" by (cases d) simp_all
  then show ?thesis using assms(1) o s by (cases y) (auto split: list.splits)
qed

section \<open>Sorted entries\<close>

abbreviation sorted_entries :: "index_entry list \<Rightarrow> bool" where
  "sorted_entries es \<equiv> sorted_wrt (<) (map en_key es)"

text \<open>A move looks for the first entry, in its direction, whose key the move accepts.\<close>

definition beyond :: "cursor_direction \<Rightarrow> bytes \<Rightarrow> bytes \<Rightarrow> bool" where
  "beyond d k x \<longleftrightarrow> (case d of Forward \<Rightarrow> k < x | Reverse \<Rightarrow> x < k)"

definition candidates :: "cursor_direction \<Rightarrow> (bytes \<Rightarrow> bool) \<Rightarrow> index_entry list \<Rightarrow> index_entry list" where
  "candidates d P es = oriented d (filter (\<lambda>e. P (en_key e)) es)"

definition closed_in :: "cursor_direction \<Rightarrow> (bytes \<Rightarrow> bool) \<Rightarrow> bool" where
  "closed_in d P \<longleftrightarrow> (\<forall>k x. P k \<longrightarrow> beyond d k x \<longrightarrow> P x)"

lemma candidates_rest:
  assumes "sorted_entries es" and "closed_in d P" and "candidates d P es = e # rest"
  shows "candidates d (beyond d (en_key e)) es = rest"
proof -
  let ?Q = "\<lambda>x. beyond d (en_key e) (en_key x)"
  have e: "P (en_key e)" using assms(3) by (metis (no_types, lifting) candidates_def list.set_intros(1) mem_Collect_eq oriented_simps(2) set_filter)
  have s: "sorted_wrt (\<lambda>x y. beyond d (en_key x) (en_key y)) (oriented d (filter (\<lambda>e. P (en_key e)) es))"
    using assms(1) by (cases d) (simp_all add: beyond_def sorted_wrt_map sorted_wrt_filter sorted_wrt_rev)
  have all: "\<forall>x \<in> set rest. ?Q x" using s assms(3) by (simp add: candidates_def)
  have self: "\<not> ?Q e" by (cases d) (simp_all add: beyond_def)
  have "filter ?Q es = filter ?Q (filter (\<lambda>e. P (en_key e)) es)"
    using assms(2) e by (auto simp: closed_in_def intro!: filter_cong)
  then have "candidates d (beyond d (en_key e)) es = filter ?Q (candidates d P es)"
    by (cases d) (simp_all add: candidates_def rev_filter del: filter_filter)
  also have "\<dots> = rest" using all self unfolding assms(3) by (simp add: filter_True)
  finally show ?thesis .
qed

section \<open>Positions\<close>

datatype cursor_pos = Nowhere | At bytes | Gone | Broken

definition entries_hold :: "env \<Rightarrow> disk_view \<Rightarrow> vlog_geometry \<Rightarrow> (bytes \<rightharpoonup> bytes) \<Rightarrow> index_entry list \<Rightarrow> bool" where
  "entries_hold E v g m es \<longleftrightarrow> (\<forall>e \<in> set es. \<exists>val. m (en_key e) = Some val \<and> holds_value E v g (en_value e) (en_key e) val)"

lemma entries_hold_kept: "entries_hold E v g m es \<Longrightarrow> kept v v' \<Longrightarrow> entries_hold E v' g m es"
  unfolding entries_hold_def using holds_value_kept by blast

text \<open>A cursor at a position of the entries \<open>es\<close>, which hold the map \<open>m\<close>.\<close>

definition cursor_at :: "(bytes \<rightharpoonup> bytes) \<Rightarrow> index_entry list \<Rightarrow> cursor_pos \<Rightarrow> db_iterator \<Rightarrow> bool" where
  "cursor_at m es pos it \<longleftrightarrow> (case pos of
     Nowhere \<Rightarrow> it_state it = Unpositioned \<and> it_direction it = None \<and> it_error it = None
       \<and> (\<exists>xs. it_iterator it = Some xs \<and> stands_for xs es)
   | At k \<Rightarrow> it_state it = Valid \<and> it_key it = Some k \<and> it_value it = m k \<and> m k \<noteq> None \<and> it_error it = None
       \<and> (\<exists>xs d. it_iterator it = Some xs \<and> it_direction it = Some d
            \<and> front (oriented d xs) (candidates d (beyond d k) es))
   | Gone \<Rightarrow> it_state it = Exhausted \<and> it_error it = None
   | Broken \<Rightarrow> it_state it = Failed \<and> it_error it \<noteq> None)"

definition destination :: "cursor_direction \<Rightarrow> (bytes \<Rightarrow> bool) \<Rightarrow> index_entry list \<Rightarrow> cursor_pos" where
  "destination d P es = (case candidates d P es of [] \<Rightarrow> Gone | e # _ \<Rightarrow> At (en_key e))"

lemma set_failure_at: "it_state it \<noteq> Failed \<Longrightarrow> cursor_at m es Broken (set_failure e it)"
  by (simp add: cursor_at_def set_failure_def)

lemma exhaust_at: "it_state it \<noteq> Failed \<Longrightarrow> cursor_at m es Gone (exhaust it)"
  by (simp add: cursor_at_def exhaust_def)

lemma cursor_fields [simp]:
  "it_view (set_failure e it) = it_view it" "it_view (exhaust it) = it_view it"
  "it_operation (set_failure e it) = it_operation it" "it_operation (exhaust it) = it_operation it"
  by (simp_all add: set_failure_def exhaust_def)

context commit_store
begin

definition readable :: "env \<Rightarrow> ('s, 'd) database \<Rightarrow> (bytes \<rightharpoonup> bytes) \<Rightarrow> index_entry list \<Rightarrow> bool" where
  "readable E db m es \<longleftrightarrow> (let co = db_coordinator db in
     wide_pages (vr_geometry (db_reader db)) \<and> cache_inv (LV co) (wd_cache (co_log co))
     \<and> entries_hold E (LV co) (vr_geometry (db_reader db)) m es)"

lemma readable_frame: "readable E db m es \<Longrightarrow> read_frame db db' \<Longrightarrow> readable E db' m es"
  by (auto simp: readable_def read_frame_def Let_def)

lemma materialize_spec:
  assumes "materialize_index_entry E K started op e db = (db', r)" and "readable E db m es" and "e \<in> set es"
  shows "read_frame db db' \<and> (\<forall>k v. r = Ok (k, v) \<longrightarrow> k = en_key e \<and> m k = Some v)"
proof -
  obtain db1 r1 where a: "read_at E K started op (en_value e) (en_key e) db = (db1, r1)" by fastforce
  have d: "db' = db1" "r = map_ok (\<lambda>val. (en_key e, val)) r1" using assms(1) a by (auto simp: materialize_index_entry_def)
  obtain val where v: "m (en_key e) = Some val"
    "holds_value E (LV (db_coordinator db)) (vr_geometry (db_reader db)) (en_value e) (en_key e) val"
    using assms(2,3) by (auto simp: readable_def entries_hold_def Let_def)
  have c: "cache_inv (LV (db_coordinator db)) (wd_cache (co_log (db_coordinator db)))" "wide_pages (vr_geometry (db_reader db))"
    using assms(2) by (simp_all add: readable_def Let_def)
  show ?thesis
    using read_at_spec [OF a] holds_value_reads [OF v(2) c refl] v(1) unfolding d by (cases r1) auto
qed

lemma handle_read_failure_frame: "handle_read_failure e domain op db = (db', e') \<Longrightarrow> read_frame db db'"
  using failing_read_frame [of e domain op db db' "Err e'"] by (simp add: failing_read_def)

lemma consume_adjacent_spec:
  assumes "consume_adjacent E K started d (it, db) = (it', db')" and "readable E db m es" and "sorted_entries es"
    and "it_iterator it = Some xs" and "it_direction it = Some d" and "it_state it \<noteq> Failed"
    and "closed_in d P" and "front (oriented d xs) (candidates d P es)"
  shows "read_frame db db' \<and> it_view it' = it_view it \<and> it_operation it' = it_operation it
    \<and> (cursor_at m es Broken it' \<or> cursor_at m es (destination d P es) it')"
proof -
  obtain rest r where s: "select_entry xs d = (rest, r)" by fastforce
  let ?fs = "filter (\<lambda>e. P (en_key e)) es"
  have f: "front (oriented d xs) (oriented d ?fs)" using assms(8) by (simp add: candidates_def)
  note S = select_entry_front [OF f s]
  show ?thesis
  proof (cases r)
    case (Err e)
    then show ?thesis using assms(1,4,6) s handle_read_failure_frame
      by (auto simp: consume_adjacent_def Let_def set_failure_at split: prod.splits)
  next
    case (Ok sel)
    show ?thesis
    proof (cases sel)
      case None
      then have "destination d P es = Gone" using S Ok by (simp add: destination_def candidates_def)
      then show ?thesis using assms(1,4,6) s Ok None
        by (auto simp: consume_adjacent_def Let_def set_failure_at exhaust_at split: result.splits)
    next
      case (Some e)
      then obtain es' where es': "candidates d P es = e # es'" "front (oriented d rest) es'"
        using S Ok by (auto simp: candidates_def)
      have e: "e \<in> set es" using es'(1) by (metis (no_types, lifting) candidates_def filter_is_subset list.set_intros(1) oriented_simps(2) subset_iff)
      obtain db1 q where a: "materialize_index_entry E K started (it_operation it) e db = (db1, q)" by fastforce
      note M = materialize_spec [OF a assms(2) e]
      have dest: "destination d P es = At (en_key e)" using es'(1) by (simp add: destination_def)
      have fr: "front (oriented d rest) (candidates d (beyond d (en_key e)) es)"
        using es'(2) candidates_rest [OF assms(3,7) es'(1)] by simp
      show ?thesis
      proof (cases q)
        case (Err er)
        then show ?thesis using assms(1,4,6) s Ok Some a M
          by (auto simp: consume_adjacent_def Let_def set_failure_at)
      next
        case q: (Ok kv)
        obtain k v where kv: "kv = (k, v)" by (cases kv)
        have "db' = db1" "it' = it\<lparr>it_iterator := Some rest, it_key := Some k, it_value := Some v, it_error := None, it_state := Valid\<rparr>"
          using assms(1,4) s Ok Some a q kv by (auto simp: consume_adjacent_def Let_def)
        then show ?thesis using M q kv assms(5) fr dest by (auto simp: cursor_at_def)
      qed
    qed
  qed
qed

end

section \<open>Moves\<close>

definition view_lists :: "user_index_snapshot \<Rightarrow> index_entry list \<Rightarrow> bool" where
  "view_lists sv es \<longleftrightarrow> (\<forall>rng xs. ix_iter_user_range sv rng = Ok xs \<longrightarrow>
     stands_for xs (filter (\<lambda>e. UserKeyRange_contains rng (en_key e)) es))"

definition view_ok :: "db_iterator \<Rightarrow> index_entry list \<Rightarrow> bool" where
  "view_ok it es \<longleftrightarrow> (\<exists>sv. it_view it = Some sv \<and> view_lists sv es)"

fun target_move :: "cursor_target \<Rightarrow> cursor_direction \<times> (bytes \<Rightarrow> bool)" where
  "target_move FirstKey = (Forward, \<lambda>_. True)"
| "target_move LastKey = (Reverse, \<lambda>_. True)"
| "target_move (LowerBound bound) = (Forward, \<lambda>k. bound \<le> k)"

lemma target_closed: "target_move target = (d, P) \<Longrightarrow> closed_in d P"
  by (cases target) (auto simp: closed_in_def beyond_def)

lemma beyond_closed: "closed_in d (beyond d k)"
  by (cases d) (auto simp: closed_in_def beyond_def)

lemma range_candidates:
  "oriented d (filter (\<lambda>e. UserKeyRange_contains UserKeyRange_all (en_key e)) es) = oriented d es"
  "filter (\<lambda>e. UserKeyRange_contains (UserKeyRange_from_inclusive b) (en_key e)) es = filter (\<lambda>e. b \<le> en_key e) es"
  "filter (\<lambda>e. UserKeyRange_contains (UserKeyRange_after k) (en_key e)) es = filter (\<lambda>e. beyond Forward k (en_key e)) es"
  "filter (\<lambda>e. UserKeyRange_contains (UserKeyRange_before k) (en_key e)) es = filter (\<lambda>e. beyond Reverse k (en_key e)) es"
  by (simp_all add: UserKeyRange_contains_def UserKeyRange_all_def UserKeyRange_from_inclusive_def UserKeyRange_after_def
      UserKeyRange_before_def beyond_def)

lemma stands_candidates:
  assumes "stands_for xs (filter Q es)" and "filter Q es = filter (\<lambda>e. P (en_key e)) es"
  shows "front (oriented d xs) (candidates d P es)"
  using assms by (simp add: stands_for_def candidates_def)

lemma range_beyond:
  "filter (\<lambda>e. UserKeyRange_contains (case d of Forward \<Rightarrow> UserKeyRange_after k | Reverse \<Rightarrow> UserKeyRange_before k) (en_key e)) es
   = filter (\<lambda>e. beyond d k (en_key e)) es"
  by (cases d) (simp_all add: range_candidates)

lemma cursor_range_Ok:
  assumes "cursor_range E target op st = Ok (rng, d, initial)"
  obtains P where "target_move target = (d, P)" "initial \<longleftrightarrow> (\<forall>b. target \<noteq> LowerBound b)" "initial \<Longrightarrow> P = (\<lambda>_. True)"
    "\<And>es :: index_entry list. filter (\<lambda>e. UserKeyRange_contains rng (en_key e)) es = filter (\<lambda>e. P (en_key e)) es"
  using assms that
  by (cases target) (auto simp: cursor_range_def clone_cursor_bound_def result_simps range_candidates
      UserKeyRange_contains_def UserKeyRange_all_def UserKeyRange_from_inclusive_def split: if_splits)

context commit_store
begin

lemma cursor_operation_cases:
  assumes "cursor_operation body (it, db) = (it', db')"
  obtains (failed) e where "it' = set_failure e it" "read_frame db db'"
  | (ran) started db1 db2 where "read_frame db db1" "body started (it, db1) = (it', db2)" "db' = end_operation db2"
proof -
  obtain db1 r1 where b: "begin_operation (it_operation it) db = (db1, r1)" by fastforce
  note f = begin_operation_frame(1) [OF b]
  show thesis
  proof (cases r1)
    case (Err e)
    then show thesis using assms b f failed [of e] by (simp add: cursor_operation_def)
  next
    case (Ok u)
    show thesis
    proof (cases "begin_read (it_operation it) db1")
      case (Err e)
      then show thesis using assms b Ok failed [of e] read_frame_trans [OF f end_operation_frame] by (simp add: cursor_operation_def)
    next
      case r: (Ok started)
      obtain it2 db2 where y: "body started (it, db1) = (it2, db2)" by fastforce
      then show thesis using assms b Ok r ran [OF f] by (simp add: cursor_operation_def)
    qed
  qed
qed

lemma create_iterator_spec:
  assumes "create_iterator rng it db = (db', r)" and "view_ok it es"
  shows "read_frame db db' \<and> (case r of Err _ \<Rightarrow> True | Ok None \<Rightarrow> False
    | Ok (Some xs) \<Rightarrow> stands_for xs (filter (\<lambda>e. UserKeyRange_contains rng (en_key e)) es))"
  using assms by (auto simp: create_iterator_def view_ok_def view_lists_def dest: failing_read_frame split: result.splits)

definition moved ::
  "(bytes \<rightharpoonup> bytes) \<Rightarrow> index_entry list \<Rightarrow> cursor_pos \<Rightarrow> db_iterator \<times> ('s, 'd) database \<Rightarrow> db_iterator \<times> ('s, 'd) database \<Rightarrow> bool" where
  "moved m es pos c c' \<longleftrightarrow> read_frame (snd c) (snd c') \<and> it_view (fst c') = it_view (fst c)
     \<and> it_operation (fst c') = it_operation (fst c) \<and> (cursor_at m es Broken (fst c') \<or> cursor_at m es pos (fst c'))"

lemma moved_frames: "read_frame db db1 \<Longrightarrow> moved m es pos (it, db1) (it', db2) \<Longrightarrow> read_frame db2 db' \<Longrightarrow> moved m es pos (it, db) (it', db')"
  unfolding moved_def using read_frame_trans by (metis fst_conv snd_conv)

lemma moved_failure: "read_frame db db' \<Longrightarrow> it_state it \<noteq> Failed \<Longrightarrow> moved m es pos (it, db) (set_failure e it, db')"
  by (simp add: moved_def set_failure_at)

lemma relocate_spec:
  assumes "relocate E K target (it, db) = (it', db')" and "cursor_at m es pos it" and "pos \<noteq> Broken"
    and "readable E db m es" and "sorted_entries es" and "pos = Nowhere \<and> target = FirstKey \<or> view_ok it es"
    and "target_move target = (d, P)"
  shows "moved m es (destination d P es) (it, db) (it', db')"
proof -
  have nf: "it_state it \<noteq> Failed" using assms(2,3) by (cases pos) (auto simp: cursor_at_def)
  from assms(1) [unfolded relocate_def] show ?thesis
  proof (cases rule: cursor_operation_cases)
    case (failed e)
    then show ?thesis using moved_failure nf by blast
  next
    case (ran started db1 db2)
    note R = readable_frame [OF assms(4) ran(1)]
    have "moved m es (destination d P es) (it, db1) (it', db2)"
    proof (cases "cursor_range E target (it_operation it) (ss_instance_state started)")
      case (Err e)
      then show ?thesis using ran(2) moved_failure nf by auto
    next
      case (Ok x)
      obtain rng d' initial where x: "x = (rng, d', initial)" by (cases x)
      obtain P' where P': "target_move target = (d', P')" "initial \<longleftrightarrow> (\<forall>b. target \<noteq> LowerBound b)" "initial \<Longrightarrow> P' = (\<lambda>_. True)"
        "\<And>es :: index_entry list. filter (\<lambda>e. UserKeyRange_contains rng (en_key e)) es = filter (\<lambda>e. P' (en_key e)) es"
        using cursor_range_Ok [OF Ok [unfolded x]] by blast
      have P: "P' = P" "d' = d" using assms(7) P'(1) by simp_all
      define ini where "ini \<longleftrightarrow> initial \<and> it_state it = Unpositioned \<and> it_direction it = None"
      define it1 where "it1 = (if ini then it\<lparr>it_iterator := None\<rparr> else it)"
      have i1: "it_state it1 = it_state it" "it_view it1 = it_view it" "it_operation it1 = it_operation it" by (simp_all add: it1_def)
      obtain db3 r where c: "(case (if ini then it_iterator it else None) of Some xs \<Rightarrow> (db1, Ok (Some xs))
          | None \<Rightarrow> create_iterator rng it1 db1) = (db3, r)" by fastforce
      have C: "read_frame db1 db3 \<and> (case r of Err _ \<Rightarrow> True | Ok None \<Rightarrow> False | Ok (Some xs) \<Rightarrow> front (oriented d xs) (candidates d P es))"
      proof (cases "ini \<and> pos = Nowhere")
        case True
        then obtain xs where "it_iterator it = Some xs" "stands_for xs es" using assms(2) by (auto simp: cursor_at_def)
        then show ?thesis using c True P'(3) P by (auto simp: ini_def stands_for_def candidates_def)
      next
        case False
        have "\<not> ini" using False assms(2,3) by (cases pos) (auto simp: ini_def cursor_at_def)
        then have "create_iterator rng it1 db1 = (db3, r)" using c by simp
        moreover have "view_ok it1 es"
          using assms(6) False assms(2) P'(2) i1 by (auto simp: ini_def cursor_at_def view_ok_def)
        ultimately have "read_frame db1 db3 \<and> (case r of Err _ \<Rightarrow> True | Ok None \<Rightarrow> False
            | Ok (Some xs) \<Rightarrow> stands_for xs (filter (\<lambda>e. UserKeyRange_contains rng (en_key e)) es))" by (rule create_iterator_spec)
        then show ?thesis using stands_candidates [where P = P', OF _ P'(4)] P by (auto split: result.splits option.splits)
      qed
      have body: "(case r of Err e \<Rightarrow> (set_failure e it1, db3) | Ok None \<Rightarrow> (exhaust it1, db3)
          | Ok (Some xs) \<Rightarrow> consume_adjacent E K started d
              (it1\<lparr>it_iterator := Some xs, it_direction := Some d, it_key := None, it_value := None\<rparr>, db3)) = (it', db2)"
      proof -
        have "(case (db3, r) of (db, Err e) \<Rightarrow> (set_failure e it1, db) | (db, Ok None) \<Rightarrow> (exhaust it1, db)
            | (db, Ok (Some xs)) \<Rightarrow> consume_adjacent E K started d
                (it1\<lparr>it_iterator := Some xs, it_direction := Some d, it_key := None, it_value := None\<rparr>, db)) = (it', db2)"
          using ran(2) unfolding Ok x P(2) Let_def prod.case result.case c [symmetric] it1_def ini_def .
        then show ?thesis by simp
      qed
      show ?thesis
      proof (cases r)
        case (Err e)
        then show ?thesis using body C nf i1 set_failure_at [of it1] by (auto simp: moved_def)
      next
        case r: (Ok sel)
        then obtain xs where xs: "sel = Some xs" using C by (cases sel) auto
        from C r xs have f: "front (oriented d xs) (candidates d P es)" and fr: "read_frame db1 db3" by auto
        let ?it = "it1\<lparr>it_iterator := Some xs, it_direction := Some d, it_key := None, it_value := None\<rparr>"
        have "consume_adjacent E K started d (?it, db3) = (it', db2)" using body r xs by simp
        from consume_adjacent_spec [OF this readable_frame [OF R fr] assms(5) _ _ _ target_closed [OF assms(7)] f] nf i1
        show ?thesis using read_frame_trans [OF fr] by (auto simp: moved_def)
      qed
    qed
    then show ?thesis using moved_frames [OF ran(1) _ end_operation_frame] ran(3) by simp
  qed
qed

lemma advance_spec:
  assumes "advance E K d (it, db) = (it', db')" and "cursor_at m es (At k) it"
    and "readable E db m es" and "sorted_entries es" and "it_direction it = Some d \<or> view_ok it es"
  shows "moved m es (destination d (beyond d k) es) (it, db) (it', db')"
proof -
  have nf: "it_state it \<noteq> Failed" and key: "it_key it = Some k" using assms(2) by (auto simp: cursor_at_def)
  from assms(1) [unfolded advance_def] show ?thesis
  proof (cases rule: cursor_operation_cases)
    case (failed e)
    then show ?thesis using moved_failure nf by blast
  next
    case (ran started db1 db2)
    note R = readable_frame [OF assms(3) ran(1)]
    let ?it = "it\<lparr>it_key := None, it_value := None\<rparr>"
    let ?rng = "case d of Forward \<Rightarrow> UserKeyRange_after k | Reverse \<Rightarrow> UserKeyRange_before k"
    have "moved m es (destination d (beyond d k) es) (it, db1) (it', db2)"
    proof (cases "it_direction it = Some d")
      case True
      then obtain xs where xs: "it_iterator it = Some xs" "front (oriented d xs) (candidates d (beyond d k) es)"
        using assms(2) by (auto simp: cursor_at_def)
      have "consume_adjacent E K started d (?it, db1) = (it', db2)" using ran(2) True key by simp
      from consume_adjacent_spec [OF this R assms(4) _ _ _ beyond_closed xs(2)] xs(1) True nf
      show ?thesis by (auto simp: moved_def)
    next
      case False
      obtain db3 r where c: "create_iterator ?rng ?it db1 = (db3, r)" by fastforce
      have "view_ok ?it es" using assms(5) False by (simp add: view_ok_def)
      note C = create_iterator_spec [OF c this]
      have body: "(case r of Ok (Some xs) \<Rightarrow> consume_adjacent E K started d (?it\<lparr>it_iterator := Some xs, it_direction := Some d\<rparr>, db3)
          | Ok None \<Rightarrow> (exhaust ?it, db3) | Err e \<Rightarrow> (set_failure e ?it, db3)) = (it', db2)"
      proof -
        have "(case (db3, r) of (db, Ok (Some xs)) \<Rightarrow> consume_adjacent E K started d (?it\<lparr>it_iterator := Some xs, it_direction := Some d\<rparr>, db)
            | (db, Ok None) \<Rightarrow> (exhaust ?it, db) | (db, Err e) \<Rightarrow> (set_failure e ?it, db)) = (it', db2)"
          using ran(2) False unfolding key Let_def prod.case option.case c [symmetric] by simp
        then show ?thesis by simp
      qed
      show ?thesis
      proof (cases r)
        case (Err e)
        then show ?thesis using body C nf set_failure_at [of ?it] by (auto simp: moved_def)
      next
        case r: (Ok sel)
        then obtain xs where xs: "sel = Some xs" using C by (cases sel) auto
        have fr: "read_frame db1 db3" and "stands_for xs (filter (\<lambda>e. UserKeyRange_contains ?rng (en_key e)) es)"
          using C unfolding r xs by simp_all
        then have f: "front (oriented d xs) (candidates d (beyond d k) es)" using stands_candidates [where P = "beyond d k", OF _ range_beyond] by blast
        have "consume_adjacent E K started d (?it\<lparr>it_iterator := Some xs, it_direction := Some d\<rparr>, db3) = (it', db2)"
          using body r xs by simp
        from consume_adjacent_spec [OF this readable_frame [OF R fr] assms(4) _ _ _ beyond_closed f] nf
        show ?thesis using read_frame_trans [OF fr] by (auto simp: moved_def)
      qed
    qed
    then show ?thesis using moved_frames [OF ran(1) _ end_operation_frame] ran(3) by simp
  qed
qed

end

section \<open>Scans of the index\<close>

definition index_of :: "index_entry list \<Rightarrow> bytes \<rightharpoonup> bytes" where
  "index_of es = map_of (map (\<lambda>e. (en_key e, en_value e)) es)"

definition view_stands :: "user_index_snapshot \<Rightarrow> index_entry list \<Rightarrow> bool" where
  "view_stands sv es \<longleftrightarrow> sorted_entries es \<and> view_lists sv es \<and> (\<forall>xs. ix_iter_user sv = Ok xs \<longrightarrow> stands_for xs es)"

text \<open>
  What the cursors rely on of the store: an iterator may fail at any item, but up to its first error
  it returns the entries between its bounds in the order of their keys, from either end.
\<close>

locale scanned_store = fjall_store F fview
  for F :: "'db fjall_ops" and fview :: "'db \<Rightarrow> index_view" +
  assumes scan: "\<exists>kvs. sorted_wrt (<) (map fst kvs) \<and> map_of kvs = fview db UserKeyspace
    \<and> (\<forall>lo hi. stands_for (fj_range F db UserKeyspace lo hi) (filter (\<lambda>kv. after_start lo (fst kv) \<and> before_end hi (fst kv)) kvs))"
begin

lemma guard_to_entry_shape:
  "guard_to_entry E op stage (Ok kv) = Ok e \<Longrightarrow> e = \<lparr>en_key = fst kv, en_value = snd kv\<rparr>"
  "\<exists>e'. guard_to_entry E op stage (Err er) = Err e'"
  by (auto simp: guard_to_entry_def fjall_try_copy_bytes_def result_simps split: prod.splits)

lemma stands_for_map:
  assumes "stands_for xs kvs"
  shows "stands_for (map (guard_to_entry E op stage) xs) (map (\<lambda>kv. \<lparr>en_key = fst kv, en_value = snd kv\<rparr>) kvs)"
proof -
  have o: "oriented d (map f ys) = map f (oriented d ys)" for d and f :: "'x \<Rightarrow> 'y" and ys
    by (cases d) (simp_all add: rev_map)
  show ?thesis using assms front_map guard_to_entry_shape unfolding stands_for_def o by (metis (no_types, lifting))
qed

lemma snapshot_view_stands:
  assumes "fjall_snapshot_view E F s = Ok sv"
  shows "\<exists>es. view_stands sv es \<and> index_of es = fview (fb_database s) UserKeyspace"
proof -
  obtain kvs where k: "sorted_wrt (<) (map fst kvs)" "map_of kvs = fview (fb_database s) UserKeyspace"
    "\<And>lo hi. stands_for (fj_range F (fb_database s) UserKeyspace lo hi) (filter (\<lambda>kv. after_start lo (fst kv) \<and> before_end hi (fst kv)) kvs)"
    using scan [of "fb_database s"] by blast
  let ?entry = "\<lambda>kv :: bytes \<times> bytes. \<lparr>en_key = fst kv, en_value = snd kv\<rparr>"
  let ?es = "map ?entry kvs"
  have f: "filter (\<lambda>e. UserKeyRange_contains rng (en_key e)) ?es
      = map ?entry (filter (\<lambda>kv. after_start (ur_start rng) (fst kv) \<and> before_end (ur_end rng) (fst kv)) kvs)" for rng
    by (simp add: filter_map comp_def UserKeyRange_contains_def)
  have l: "view_lists sv ?es"
    using assms stands_for_map [OF k(3)] unfolding view_lists_def f
    by (auto simp: fjall_snapshot_view_def FjallBackend_snapshot_def FjallBackend_iter_user_range_def read_database_def
        validate_snapshot_def result_simps)
  have i: "\<forall>xs. ix_iter_user sv = Ok xs \<longrightarrow> stands_for xs ?es"
    using assms stands_for_map [OF k(3) [of Unbounded Unbounded]]
    by (auto simp: fjall_snapshot_view_def FjallBackend_snapshot_def FjallBackend_iter_user_def read_database_def
        validate_snapshot_def result_simps)
  have "view_stands sv ?es" "index_of ?es = fview (fb_database s) UserKeyspace"
    using k(1,2) l i by (simp_all add: view_stands_def index_of_def comp_def)
  then show ?thesis by blast
qed

end

lemma mem_range_filter:
  "mem_range db ks lo hi = filter (\<lambda>kv. after_start lo (fst kv) \<and> before_end hi (fst kv)) (mem_range db ks Unbounded Unbounded)"
  by (simp add: mem_range_def filter_map comp_def)

lemma mem_range_view: "map_of (mem_range db ks Unbounded Unbounded) = mem_view db ks"
proof
  fix k
  have "distinct (map fst (mem_range db ks Unbounded Unbounded))" using mem_range_sorted strict_sorted_iff by blast
  then have "map_of (mem_range db ks Unbounded Unbounded) k = Some x \<longleftrightarrow> mem_view db ks k = Some x" for x
    using mem_range_entries [of k x db ks Unbounded Unbounded] map_of_eq_Some_iff by fastforce
  then show "map_of (mem_range db ks Unbounded Unbounded) k = mem_view db ks k" by (metis option.exhaust)
qed

lemma stands_for_Ok [simp]: "stands_for (map Ok es) es"
  by (auto simp: stands_for_def oriented_def rev_map split: cursor_direction.splits)

interpretation mem_scans: scanned_store "mem_fjall fault" mem_view for fault
proof unfold_locales
  fix db
  have "stands_for (fj_range (mem_fjall fault) db UserKeyspace lo hi)
      (filter (\<lambda>kv. after_start lo (fst kv) \<and> before_end hi (fst kv)) (mem_range db UserKeyspace Unbounded Unbounded))" for lo hi
    unfolding mem_range_filter [symmetric] by (simp add: mem_fjall_def)
  then show "\<exists>kvs. sorted_wrt (<) (map fst kvs) \<and> map_of kvs = mem_view db UserKeyspace
    \<and> (\<forall>lo hi. stands_for (fj_range (mem_fjall fault) db UserKeyspace lo hi)
         (filter (\<lambda>kv. after_start lo (fst kv) \<and> before_end hi (fst kv)) kvs))"
    using mem_range_sorted mem_range_view by blast
qed

section \<open>Cursors over a map\<close>

datatype cursor_call = SeekToFirst | SeekToLast | Seek bytes | Next | Prev | Meanwhile client_request

text \<open>Where a call takes a cursor over the sorted keys \<open>ks\<close>.\<close>

definition nearest :: "cursor_direction \<Rightarrow> (bytes \<Rightarrow> bool) \<Rightarrow> bytes list \<Rightarrow> cursor_pos" where
  "nearest d P ks = (case oriented d (filter P ks) of [] \<Rightarrow> Gone | k # _ \<Rightarrow> At k)"

fun goes :: "bytes list \<Rightarrow> cursor_call \<Rightarrow> cursor_pos \<Rightarrow> cursor_pos" where
  "goes ks SeekToFirst pos = nearest Forward (\<lambda>_. True) ks"
| "goes ks SeekToLast pos = nearest Reverse (\<lambda>_. True) ks"
| "goes ks (Seek bound) pos = nearest Forward (\<lambda>k. bound \<le> k) ks"
| "goes ks Next (At key) = nearest Forward (\<lambda>k. key < k) ks"
| "goes ks Prev (At key) = nearest Reverse (\<lambda>k. k < key) ks"
| "goes ks call pos = pos"

definition pos_key :: "cursor_pos \<Rightarrow> bytes option" where
  "pos_key pos = (case pos of At k \<Rightarrow> Some k | _ \<Rightarrow> None)"

lemma destination_nearest: "destination d P es = nearest d P (map en_key es)"
  by (cases d) (simp_all add: destination_def nearest_def candidates_def filter_map rev_map comp_def split: list.splits)

lemma destination_simps [simp]: "destination d P es \<noteq> Broken" "destination d P es \<noteq> Nowhere"
  by (simp_all add: destination_def split: list.splits)

type_synonym ('s, 'd) cursor_session = "db_iterator \<times> ('s, 'd) session"

definition on_cursor :: "('s, 'd) cursor_act \<Rightarrow> ('s, 'd) cursor_session \<Rightarrow> ('s, 'd) cursor_session" where
  "on_cursor f c = (let (it, se) = c; (it, db) = f (it, se_db se) in (it, se\<lparr>se_db := db\<rparr>))"

fun cursor_act_of :: "env \<Rightarrow> 'd os_ops \<Rightarrow> cursor_call \<Rightarrow> ('s, 'd) cursor_act" where
  "cursor_act_of E K SeekToFirst = seek_to_first E K"
| "cursor_act_of E K SeekToLast = seek_to_last E K"
| "cursor_act_of E K (Seek bound) = cursor_seek E K bound"
| "cursor_act_of E K Next = cursor_next E K"
| "cursor_act_of E K Prev = cursor_prev E K"
| "cursor_act_of E K (Meanwhile request) = id"

definition cursor_do ::
  "env \<Rightarrow> 's backend_ops \<Rightarrow> ('s \<Rightarrow> user_index_snapshot res) \<Rightarrow> 'd os_ops \<Rightarrow> cursor_call \<Rightarrow>
   ('s, 'd) cursor_session \<Rightarrow> ('s, 'd) cursor_session" where
  "cursor_do E B V K call c = (case call of
     Meanwhile request \<Rightarrow> (fst c, fst (serve E B V K request (snd c)))
   | _ \<Rightarrow> on_cursor (cursor_act_of E K call) c)"

context commit_store
begin

lemma moved_refl: "cursor_at m es pos it \<Longrightarrow> moved m es pos (it, db) (it, db)"
  by (simp add: moved_def)

lemma cursor_moves:
  assumes "cursor_act_of E K call (it, db) = (it', db')" and "\<And>request. call \<noteq> Meanwhile request"
    and "cursor_at m es pos it" and "readable E db m es" and "sorted_entries es" and "view_ok it es"
  shows "moved m es (if pos = Broken then Broken else goes (map en_key es) call pos) (it, db) (it', db')"
proof (cases "pos = Broken")
  case True
  then show ?thesis using assms(1-3) moved_refl
    by (cases call) (auto simp: cursor_at_def seek_to_first_def seek_to_last_def cursor_seek_def cursor_next_def cursor_prev_def moved_def)
next
  case False
  have nf: "it_state it \<noteq> Failed" and v: "it_state it = Valid \<longleftrightarrow> (\<exists>k. pos = At k)"
    using assms(3) False by (cases pos; auto simp: cursor_at_def)+
  have seek: "relocate E K target (it, db) = (it', db') \<Longrightarrow> target_move target = (d, P) \<Longrightarrow>
      moved m es (nearest d P (map en_key es)) (it, db) (it', db')" for target d P
    using relocate_spec [OF _ assms(3) False assms(4,5)] assms(6) unfolding destination_nearest by blast
  have step: "advance E K d (it, db) = (it', db') \<Longrightarrow> pos = At k \<Longrightarrow>
      moved m es (nearest d (beyond d k) (map en_key es)) (it, db) (it', db')" for d k
    using advance_spec [OF _ _ assms(4,5)] assms(3,6) unfolding destination_nearest by blast
  have stay: "(it', db') = (it, db) \<Longrightarrow> moved m es pos (it, db) (it', db')" using moved_refl assms(3) by auto
  have fwd: "beyond Forward k = (\<lambda>x. k < x)" "beyond Reverse k = (\<lambda>x. x < k)" for k by (auto simp: beyond_def)
  have at: "goes ks c pos = pos" if "\<And>k. pos \<noteq> At k" "c = Next \<or> c = Prev" for ks c
    using that by (cases pos) auto
  show ?thesis
  proof (cases call)
    case SeekToFirst
    then show ?thesis using assms(1) nf False seek [of FirstKey] by (simp add: seek_to_first_def)
  next
    case SeekToLast
    then show ?thesis using assms(1) nf False seek [of LastKey] by (simp add: seek_to_last_def)
  next
    case (Seek b)
    then show ?thesis using assms(1) nf False seek [of "LowerBound b"] by (simp add: cursor_seek_def)
  next
    case Next
    then show ?thesis using assms(1) False v step [of Forward] stay at
      by (cases "\<exists>k. pos = At k") (auto simp: cursor_next_def fwd)
  next
    case Prev
    then show ?thesis using assms(1) False v step [of Reverse] stay at
      by (cases "\<exists>k. pos = At k") (auto simp: cursor_prev_def fwd)
  qed (use assms(2) in auto)
qed

end

end
