(* ===== verification/CursorMap.thy ===== *)
theory CursorMap
  imports CursorLog
begin

text \<open>
  Cursors and ranges of a database that serves requests: a cursor walks the keys of the map that its
  view stood for when it was opened, and a range returns the entries between its bounds.
\<close>

section \<open>Cursors while requests are served\<close>

lemma index_of_entries:
  assumes "sorted_entries es"
  shows "e \<in> set es \<Longrightarrow> index_of es (en_key e) = Some (en_value e)" and "dom (index_of es) = set (map en_key es)"
proof -
  have "distinct (map en_key es)" using assms strict_sorted_iff by blast
  then show "e \<in> set es \<Longrightarrow> index_of es (en_key e) = Some (en_value e)"
    by (auto simp: index_of_def comp_def map_of_eq_Some_iff)
  show "dom (index_of es) = set (map en_key es)" by (simp add: index_of_def dom_map_of_conv_image_fst image_image)
qed

lemma represents_entries:
  assumes "represents E V v g m" and "index_of es = V UserKeyspace" and "sorted_entries es"
  shows "entries_hold E v g m es" and "map en_key es = sorted_list_of_set (dom m)" and "finite (dom m)"
proof -
  have V: "V UserKeyspace k = None \<longleftrightarrow> m k = None" for k
    using spec [OF assms(1) [unfolded represents_def], of k] by (auto split: option.splits)
  have "\<exists>val. m (en_key e) = Some val \<and> holds_value E v g (en_value e) (en_key e) val" if "e \<in> set es" for e
  proof -
    have "V UserKeyspace (en_key e) = Some (en_value e)" using index_of_entries(1) [OF assms(3) that] unfolding assms(2) .
    then show ?thesis using spec [OF assms(1) [unfolded represents_def], of "en_key e"] by simp
  qed
  then show "entries_hold E v g m es" by (simp add: entries_hold_def)
  have "dom m = dom (V UserKeyspace)" using V by (simp add: dom_def)
  then have d: "dom m = set (map en_key es)" using index_of_entries(2) [OF assms(3)] unfolding assms(2) by simp
  then show "finite (dom m)" by simp
  show "map en_key es = sorted_list_of_set (dom m)" unfolding d
    using assms(3) strict_sorted_iff sorted_list_of_set.idem_if_sorted_distinct by metis
qed

locale cursor_store =
  database_store B iview K view ident V
  for B :: "'s backend_ops" and iview :: "'s \<Rightarrow> index_view" and K :: "'d os_ops" and view :: "'d \<Rightarrow> disk_view"
    and ident :: "handle \<Rightarrow> file_identity" and V :: "'s \<Rightarrow> user_index_snapshot res" +
  assumes view_scan: "V s = Ok sv \<Longrightarrow> \<exists>es. view_stands sv es \<and> index_of es = iview s UserKeyspace"
    and view_finite: "finite (dom (iview s UserKeyspace))"
begin

text \<open>Requests add to the log what cursors read, and change nothing of it.\<close>

lemma serve_keeps:
  assumes "session_inv E iview V view se s" and "serve E B V K request se = (se', response)"
  shows "kept (LV (db_coordinator (se_db se))) (LV (db_coordinator (se_db se')))
    \<and> lw_geometry (co_writer (db_coordinator (se_db se'))) = lw_geometry (co_writer (db_coordinator (se_db se)))"
proof (cases "request_ops request")
  case (Some ops)
  obtain db x where w: "serve_write E B K request (se_db se) = (db, x)" by fastforce
  have I: "db_inv E iview view (se_db se) (kv_map s)" using assms(1) by (simp add: session_inv_def Let_def)
  have r: "se' = se\<lparr>se_db := db\<rparr>"
    using assms(2) w Some by (cases request; simp add: serve_def del: serve_write.simps)
  show ?thesis using serve_write_spec [OF I Some w] unfolding db_effect_def Let_def r by auto
next
  case None
  then have "read_frame (se_db se) (se_db se')" by (rule serve_read_frame [OF assms(2)])
  then show ?thesis unfolding read_frame_def Let_def by auto
qed

definition session_entries :: "env \<Rightarrow> (bytes \<rightharpoonup> bytes) \<Rightarrow> index_entry list \<Rightarrow> ('s, 'd) session \<Rightarrow> bool" where
  "session_entries E m es se \<longleftrightarrow> sorted_entries es
     \<and> entries_hold E (LV (db_coordinator (se_db se))) (lw_geometry (co_writer (db_coordinator (se_db se)))) m es"

lemma session_readable: "session_inv E iview V view se s \<Longrightarrow> session_entries E m es se \<Longrightarrow> readable E (se_db se) m es"
  by (auto simp: session_inv_def session_entries_def readable_def db_inv_def coord_inv_def Let_def)

lemma session_entries_frame: "session_entries E m es se \<Longrightarrow> read_frame (se_db se) db \<Longrightarrow> session_entries E m es (se\<lparr>se_db := db\<rparr>)"
  by (auto simp: session_entries_def read_frame_def Let_def)

lemma serve_entries:
  assumes "session_inv E iview V view se s" and "session_entries E m es se" and "serve E B V K request se = (se', response)"
  shows "\<exists>s'. session_inv E iview V view se' s' \<and> session_entries E m es se'"
  using serve_sim [OF assms(1,3)] serve_keeps [OF assms(1,3)] assms(2) entries_hold_kept
  by (auto simp: session_entries_def)

definition cursor_ok :: "env \<Rightarrow> (bytes \<rightharpoonup> bytes) \<Rightarrow> index_entry list \<Rightarrow> cursor_pos \<Rightarrow> ('s, 'd) cursor_session \<Rightarrow> bool" where
  "cursor_ok E m es pos c \<longleftrightarrow> (\<exists>s. session_inv E iview V view (snd c) s) \<and> session_entries E m es (snd c)
     \<and> view_ok (fst c) es \<and> cursor_at m es pos (fst c)"

lemma cursor_do_step:
  assumes "cursor_ok E m es pos c"
  shows "cursor_ok E m es Broken (cursor_do E B V K call c)
    \<or> pos \<noteq> Broken \<and> cursor_ok E m es (goes (map en_key es) call pos) (cursor_do E B V K call c)"
proof -
  obtain it se where c: "c = (it, se)" by (cases c)
  from assms c obtain s where I: "session_inv E iview V view se s" "session_entries E m es se" "view_ok it es" "cursor_at m es pos it"
    by (auto simp: cursor_ok_def)
  show ?thesis
  proof (cases "\<exists>request. call = Meanwhile request")
    case True
    then obtain request where q: "call = Meanwhile request" by blast
    obtain se' response where r: "serve E B V K request se = (se', response)" by fastforce
    show ?thesis using serve_entries [OF I(1,2) r] I(3,4) q r c by (auto simp: cursor_ok_def cursor_do_def)
  next
    case False
    obtain it' db' where d: "cursor_act_of E K call (it, se_db se) = (it', db')" by fastforce
    have e: "cursor_do E B V K call c = (it', se\<lparr>se_db := db'\<rparr>)" using False d c by (cases call) (auto simp: cursor_do_def on_cursor_def)
    have "sorted_entries es" using I(2) by (simp add: session_entries_def)
    from cursor_moves [OF d _ I(4) session_readable [OF I(1,2)] this I(3)] False
    have M: "read_frame (se_db se) db'" "it_view it' = it_view it"
      "cursor_at m es Broken it' \<or> pos \<noteq> Broken \<and> cursor_at m es (goes (map en_key es) call pos) it'"
      by (auto simp: moved_def split: if_splits)
    show ?thesis using session_frame [OF I(1) M(1)] session_entries_frame [OF I(2) M(1)] I(3) M(2,3)
      unfolding e by (auto simp: cursor_ok_def view_ok_def)
  qed
qed

lemma cursor_run:
  assumes "cursor_ok E m es pos c"
  shows "cursor_ok E m es Broken (fold (cursor_do E B V K) calls c)
    \<or> pos \<noteq> Broken \<and> cursor_ok E m es (fold (goes (map en_key es)) calls pos) (fold (cursor_do E B V K) calls c)"
  using assms
proof (induction calls arbitrary: pos c)
  case (Cons call calls)
  from cursor_do_step [OF Cons.prems, of call] show ?case using Cons.IH by fastforce
qed (auto simp: cursor_ok_def)

end

section \<open>Opening cursors\<close>

context cursor_store
begin

lemma with_lease_frame: "read_frame db (with_lease db)"
  by (simp add: with_lease_def read_frame_def Let_def)

text \<open>The view a cursor is opened on stands for the map its source holds.\<close>

lemma select_read_view_spec:
  assumes "session_inv E iview V view se s" and "kv_source n s = Some m" and "read_frame (se_db se) db"
    and "select_read_view V (map_option (\<lambda>i. se_snapshots se ! i) n) op started db = (db', r)"
  shows "read_frame db db' \<and> (\<forall>sv. r = Ok sv \<longrightarrow> db' = db \<and> finite (dom m)
    \<and> (\<exists>es. view_stands sv es \<and> map en_key es = sorted_list_of_set (dom m) \<and> session_entries E m es se))"
proof (cases r)
  case (Err e)
  then show ?thesis using assms(4) by (auto simp: select_read_view_def dest: failing_read_frame split: option.splits if_splits result.splits)
next
  case (Ok sv)
  let ?co = "db_coordinator (se_db se)"
  have I: "db_inv E iview view (se_db se) (kv_map s)"
    and L: "list_all2 (snapshot_holds E iview V (LV ?co) (lw_geometry (co_writer ?co)) (db_id (se_db se))) (se_snapshots se) (kv_snapshots s)"
    using assms(1) by (simp_all add: session_inv_def Let_def)
  have ix: "co_index (db_coordinator db) = co_index ?co" using assms(3) by (simp add: read_frame_def Let_def)
  have d: "db' = db" using assms(4) Ok
    by (auto simp: select_read_view_def dest: failing_read_frame split: option.splits if_splits result.splits)
  have "\<exists>s0. V s0 = Ok sv \<and> represents E (iview s0) (LV ?co) (lw_geometry (co_writer ?co)) m"
  proof (cases n)
    case None
    then have "V (co_index ?co) = Ok sv" using assms(4) Ok ix
      by (auto simp: select_read_view_def dest: failing_read_frame split: result.splits)
    then show ?thesis using I assms(2) None by (auto simp: db_inv_def coord_inv_def kv_source_def Let_def)
  next
    case (Some i)
    then have i: "i < length (kv_snapshots s)" "m = kv_snapshots s ! i" using assms(2) by (auto simp: kv_source_def split: if_splits)
    then show ?thesis using list_all2_nthD2 [OF L i(1)] assms(4) Ok Some
      by (auto simp: snapshot_holds_def select_read_view_def split: if_splits)
  qed
  then obtain s0 es where rep: "represents E (iview s0) (LV ?co) (lw_geometry (co_writer ?co)) m" and es: "view_stands sv es"
    "index_of es = iview s0 UserKeyspace" using view_scan by blast
  then have so: "sorted_entries es" by (simp add: view_stands_def)
  note R = represents_entries [OF rep es(2) so]
  have "session_entries E m es se" using so R(1) by (simp add: session_entries_def)
  then show ?thesis using R(2,3) es(1) d Ok by auto
qed

lemma Db_iter_spec:
  assumes "session_inv E iview V view se s" and "kv_source n s = Some m"
    and "Db_iter V (map_option (\<lambda>i. se_snapshots se ! i) n) (se_db se) = (db, Ok it)"
  shows "finite (dom m) \<and> (\<exists>es. map en_key es = sorted_list_of_set (dom m) \<and> cursor_ok E m es Nowhere (it, se\<lparr>se_db := db\<rparr>))"
  using assms(3) unfolding Db_iter_def
proof (rule in_operation_result)
  let ?sn = "map_option (\<lambda>i. se_snapshots se ! i) n"
  fix db1 db2 y
  assume f: "read_frame (se_db se) db1" and y: "Ok it = y" "db = end_operation db2"
    and b: "(case begin_read Op_Iterator db1 of Err e \<Rightarrow> (db1, Err e)
       | Ok started \<Rightarrow>
           (case select_read_view V ?sn Op_Iterator started db1 of
              (db, Err e) \<Rightarrow> (db, Err e)
            | (db, Ok view) \<Rightarrow>
                (case ix_iter_user view of
                   Err error \<Rightarrow> failing_read error IndexDomain Op_Iterator db
                 | Ok xs \<Rightarrow>
                     (case complete_read started Op_Iterator db of
                        Err e \<Rightarrow> (db, Err e)
                      | Ok _ \<Rightarrow> (with_lease db, Ok (DbIterator_new view xs Op_Iterator)))))) = (db2, y)"
  obtain started where st: "begin_read Op_Iterator db1 = Ok started" using b y(1) by (auto split: result.splits)
  obtain db3 r where v: "select_read_view V ?sn Op_Iterator started db1 = (db3, r)" by fastforce
  note S = select_read_view_spec [OF assms(1,2) f v]
  obtain sv xs where o: "r = Ok sv" "ix_iter_user sv = Ok xs" "db2 = with_lease db3" "it = DbIterator_new sv xs Op_Iterator"
    using b y(1) st v by (auto dest: failing_read_frame split: result.splits)
  obtain es where es: "view_stands sv es" "map en_key es = sorted_list_of_set (dom m)" "session_entries E m es se" "finite (dom m)" "db3 = db1"
    using S o(1) by blast
  have fr: "read_frame (se_db se) db" unfolding y(2) o(3) es(5)
    using read_frame_trans [OF f read_frame_trans [OF with_lease_frame end_operation_frame]] .
  have "cursor_at m es Nowhere it" "view_ok it es"
    using es(1) o(2,4) by (simp_all add: cursor_at_def view_ok_def view_stands_def DbIterator_new_def)
  then show ?thesis using session_frame [OF assms(1) fr] session_entries_frame [OF es(3) fr] es(2,4)
    by (auto simp: cursor_ok_def)
qed auto

lemma cursor_at_shows:
  assumes "cursor_at m es pos it"
  shows "case DbIterator_status it of Err _ \<Rightarrow> pos = Broken \<and> \<not> DbIterator_valid it
    | Ok _ \<Rightarrow> DbIterator_key it = pos_key pos \<and> DbIterator_value it = Option.bind (pos_key pos) m"
  using assms
  by (cases pos) (auto simp: cursor_at_def DbIterator_status_def DbIterator_key_def DbIterator_value_def DbIterator_valid_def pos_key_def)

lemma cursor_walk:
  assumes "session_inv E iview V view se s" and "kv_source n s = Some m"
    and "Db_iter V (map_option (\<lambda>i. se_snapshots se ! i) n) (se_db se) = (db, Ok it)"
    and "fold (cursor_do E B V K) calls (it, se\<lparr>se_db := db\<rparr>) = (it', se')"
  shows "finite (dom m) \<and> (case DbIterator_status it' of Err _ \<Rightarrow> \<not> DbIterator_valid it'
    | Ok _ \<Rightarrow> (let pos = fold (goes (sorted_list_of_set (dom m))) calls Nowhere in
        DbIterator_key it' = pos_key pos \<and> DbIterator_value it' = Option.bind (pos_key pos) m))"
proof -
  obtain es where es: "map en_key es = sorted_list_of_set (dom m)" "cursor_ok E m es Nowhere (it, se\<lparr>se_db := db\<rparr>)" "finite (dom m)"
    using Db_iter_spec [OF assms(1-3)] by blast
  let ?pos = "fold (goes (sorted_list_of_set (dom m))) calls Nowhere"
  have "cursor_at m es Broken it' \<or> cursor_at m es ?pos it'"
    using cursor_run [OF es(2), of calls] unfolding assms(4) es(1) by (auto simp: cursor_ok_def)
  then show ?thesis
  proof
    assume "cursor_at m es Broken it'"
    then show ?thesis using cursor_at_shows [of m es Broken it'] es(3)
      by (auto simp: cursor_at_def DbIterator_status_def split: option.splits)
  next
    assume "cursor_at m es ?pos it'"
    from cursor_at_shows [OF this] es(3) show ?thesis by (auto simp: Let_def split: result.splits)
  qed
qed

end

section \<open>Ranges\<close>

datatype range_call = RangeNext | RangeMeanwhile client_request

definition range_do ::
  "env \<Rightarrow> 's backend_ops \<Rightarrow> ('s \<Rightarrow> user_index_snapshot res) \<Rightarrow> 'd os_ops \<Rightarrow> range_call \<Rightarrow>
   range_cursor \<times> ('s, 'd) session \<Rightarrow> range_cursor \<times> ('s, 'd) session" where
  "range_do E B V K call c = (let (rc, se) = c in case call of
     RangeNext \<Rightarrow> (let (rc, db) = RangeCursor_next E K (rc, se_db se) in (rc, se\<lparr>se_db := db\<rparr>))
   | RangeMeanwhile request \<Rightarrow> (rc, fst (serve E B V K request se)))"

definition in_range :: "bytes option \<Rightarrow> bytes option \<Rightarrow> bytes \<Rightarrow> bool" where
  "in_range start stop k \<longleftrightarrow> (case start of None \<Rightarrow> True | Some a \<Rightarrow> a \<le> k) \<and> (case stop of None \<Rightarrow> True | Some b \<Rightarrow> k < b)"

definition range_keys :: "(bytes \<rightharpoonup> bytes) \<Rightarrow> bytes option \<Rightarrow> bytes option \<Rightarrow> usize \<Rightarrow> bytes list" where
  "range_keys m start stop limit = take limit (filter (in_range start stop) (sorted_list_of_set (dom m)))"

definition nth_key :: "bytes list \<Rightarrow> nat \<Rightarrow> bytes option" where
  "nth_key ks i = (if i < length ks then Some (ks ! i) else None)"

text \<open>A cursor keeps the direction it was last moved in while it stands on an entry.\<close>

lemma stays_valid [simp]: "it_state (set_failure e it) \<noteq> Valid" "it_state (exhaust it) \<noteq> Valid"
  by (simp_all add: set_failure_def exhaust_def)

lemma consume_adjacent_direction:
  assumes "consume_adjacent E K started d (it, db) = (it', db')" and "it_state it' = Valid"
  shows "it_direction it' = it_direction it"
  using assms stays_valid
  by (auto simp: consume_adjacent_def Let_def split: option.splits result.splits prod.splits)

lemma cursor_operation_valid:
  assumes "cursor_operation body (it, db) = (it', db')" and "it_state it' = Valid"
  obtains started db1 db2 where "body started (it, db1) = (it', db2)"
proof -
  obtain db1 r1 where b: "begin_operation (it_operation it) db = (db1, r1)" by fastforce
  obtain it2 db2 where y: "\<And>started. begin_read (it_operation it) db1 = Ok started \<Longrightarrow> body started (it, db1) = (it2, db2)"
    by (metis result.inject(1) surj_pair)
  show thesis using assms b y that
    by (cases r1; cases "begin_read (it_operation it) db1") (auto simp: cursor_operation_def)
qed

lemma relocate_direction:
  assumes "relocate E K target (it, db) = (it', db')" and "it_state it' = Valid" and "target_move target = (d, P)"
  shows "it_direction it' = Some d"
  using assms(1) unfolding relocate_def
proof (rule cursor_operation_valid [OF _ assms(2)])
  fix started db1 db2
  assume b: "(case (it, db1) of (it, db) \<Rightarrow> case cursor_range E target (it_operation it) (ss_instance_state started) of
         Err error \<Rightarrow> (set_failure error it, db)
       | Ok (rng, direction, may_use_initial) \<Rightarrow>
           let initial = (may_use_initial \<and> it_state it = Unpositioned \<and> it_direction it = None);
               taken = (if initial then it_iterator it else None);
               it = (if initial then it\<lparr>it_iterator := None\<rparr> else it)
           in (case (case taken of Some xs \<Rightarrow> (db, Ok (Some xs)) | None \<Rightarrow> create_iterator rng it db) of
                 (db, Err error) \<Rightarrow> (set_failure error it, db)
               | (db, Ok None) \<Rightarrow> (exhaust it, db)
               | (db, Ok (Some xs)) \<Rightarrow>
                   consume_adjacent E K started direction
                     (it\<lparr>it_iterator := Some xs, it_direction := Some direction, it_key := None, it_value := None\<rparr>, db))) = (it', db2)"
  show ?thesis
  proof (cases "cursor_range E target (it_operation it) (ss_instance_state started)")
    case (Err e)
    then show ?thesis using b assms(2) by auto
  next
    case (Ok x)
    obtain rng d' initial where x: "x = (rng, d', initial)" by (cases x)
    have "d' = d" using cursor_range_Ok [OF Ok [unfolded x]] assms(3) by force
    define it1 where "it1 = (if initial \<and> it_state it = Unpositioned \<and> it_direction it = None then it\<lparr>it_iterator := None\<rparr> else it)"
    obtain db3 r where c: "(case (if initial \<and> it_state it = Unpositioned \<and> it_direction it = None then it_iterator it else None) of
        Some xs \<Rightarrow> (db1, Ok (Some xs)) | None \<Rightarrow> create_iterator rng it1 db1) = (db3, r)" by fastforce
    have "(case (db3, r) of (db, Err e) \<Rightarrow> (set_failure e it1, db) | (db, Ok None) \<Rightarrow> (exhaust it1, db)
        | (db, Ok (Some xs)) \<Rightarrow> consume_adjacent E K started d
            (it1\<lparr>it_iterator := Some xs, it_direction := Some d, it_key := None, it_value := None\<rparr>, db)) = (it', db2)"
      using b unfolding Ok x \<open>d' = d\<close> Let_def prod.case result.case c [symmetric] it1_def .
    then show ?thesis using assms(2) consume_adjacent_direction by (fastforce split: result.splits option.splits)
  qed
qed

lemma next_in_range_direction:
  assumes "advance E K d (it, db) = (it', db')" and "it_state it' = Valid" and "it_direction it = Some d"
  shows "it_direction it' = Some d"
  using assms(1) unfolding advance_def
  by (rule cursor_operation_valid [OF _ assms(2)])
    (use assms(2,3) consume_adjacent_direction in \<open>fastforce split: option.splits\<close>)

text \<open>
  The range cursor after \<open>i\<close> steps over the entries \<open>es\<close> of its range, with \<open>limit\<close> entries at most.
\<close>

definition range_at :: "(bytes \<rightharpoonup> bytes) \<Rightarrow> index_entry list \<Rightarrow> usize \<Rightarrow> nat \<Rightarrow> range_cursor \<Rightarrow> bool" where
  "range_at m es limit i rc \<longleftrightarrow>
     (\<forall>e \<in> set es. \<forall>stop. rg_end rc = Some stop \<longrightarrow> en_key e < stop)
     \<and> (cursor_at m es Broken (rg_inner rc)
        \<or> (case nth_key (take limit (map en_key es)) i of
             Some k \<Rightarrow> rg_remaining rc + i = limit \<and> cursor_at m es (At k) (rg_inner rc) \<and> it_direction (rg_inner rc) = Some Forward
           | None \<Rightarrow> cursor_at m es Gone (rg_inner rc)))"

lemma range_at_shows:
  assumes "range_at m es limit i rc"
  shows "case RangeCursor_status rc of Err _ \<Rightarrow> \<not> RangeCursor_valid rc
    | Ok _ \<Rightarrow> RangeCursor_key rc = nth_key (take limit (map en_key es)) i
        \<and> RangeCursor_value rc = Option.bind (nth_key (take limit (map en_key es)) i) m"
proof (cases "cursor_at m es Broken (rg_inner rc)")
  case True
  then show ?thesis by (auto simp: cursor_at_def RangeCursor_status_def DbIterator_status_def RangeCursor_valid_def DbIterator_valid_def split: option.splits)
next
  case False
  show ?thesis
  proof (cases "nth_key (take limit (map en_key es)) i")
    case None
    then show ?thesis using assms False
      by (auto simp: range_at_def cursor_at_def RangeCursor_status_def DbIterator_status_def RangeCursor_key_def RangeCursor_value_def
          RangeCursor_valid_def DbIterator_valid_def)
  next
    case (Some k)
    then have "rg_remaining rc + i = limit" "cursor_at m es (At k) (rg_inner rc)" "i < limit"
      using assms False by (auto simp: range_at_def nth_key_def split: if_splits)
    then show ?thesis using Some
      by (auto simp: cursor_at_def RangeCursor_status_def DbIterator_status_def RangeCursor_key_def RangeCursor_value_def
          RangeCursor_valid_def DbIterator_key_def DbIterator_value_def DbIterator_valid_def)
  qed
qed

lemma nth_key_take: "nth_key (take n ks) i = (if i < n then nth_key ks i else None)"
  by (simp add: nth_key_def)

lemma destination_first: "destination Forward (\<lambda>_. True) es = (case nth_key (map en_key es) 0 of None \<Rightarrow> Gone | Some k \<Rightarrow> At k)"
  by (cases es) (simp_all add: destination_def candidates_def nth_key_def)

lemma destination_next:
  assumes "sorted_entries es" and "nth_key (map en_key es) i = Some k"
  shows "destination Forward (beyond Forward k) es = (case nth_key (map en_key es) (Suc i) of None \<Rightarrow> Gone | Some k \<Rightarrow> At k)"
proof -
  have i: "i < length es" "k = en_key (es ! i)" using assms(2) by (auto simp: nth_key_def split: if_splits)
  have es: "es = take (Suc i) es @ drop (Suc i) es" by simp
  have "\<forall>e \<in> set (take (Suc i) es). \<not> k < en_key e"
    using assms(1) i by (force simp: in_set_conv_nth sorted_wrt_iff_nth_less less_Suc_eq)
  moreover have "\<forall>e \<in> set (drop (Suc i) es). k < en_key e"
    using assms(1) i by (auto simp: in_set_conv_nth sorted_wrt_iff_nth_less)
  ultimately have "filter (\<lambda>e. k < en_key e) es = drop (Suc i) es"
    by (subst es, subst filter_append) (simp add: filter_empty_conv)
  then have "candidates Forward (beyond Forward k) es = drop (Suc i) es" by (simp add: candidates_def beyond_def)
  then show ?thesis by (cases "Suc i < length es") (simp_all add: destination_def nth_key_def Cons_nth_drop_Suc [symmetric])
qed

text \<open>The bound of the cursor is one its entries already keep.\<close>

lemma enforce_boundary_keeps:
  assumes "range_at m es limit i rc"
  shows "range_at m es limit i (enforce_boundary rc)"
proof (cases "cursor_at m es Broken (rg_inner rc)")
  case True
  then have "enforce_boundary rc = rc"
    by (auto simp: enforce_boundary_def cursor_at_def exhaust_def DbIterator_key_def DbIterator_valid_def split: option.splits)
  then show ?thesis using assms by simp
next
  case False
  show ?thesis
  proof (cases "nth_key (take limit (map en_key es)) i")
    case None
    then have "cursor_at m es Gone (rg_inner rc)" using assms False by (simp add: range_at_def)
    then have "cursor_at m es Gone (rg_inner (enforce_boundary rc))" "rg_end (enforce_boundary rc) = rg_end rc"
      by (auto simp: enforce_boundary_def exhaust_at cursor_at_def [of _ _ Gone] exhaust_def split: option.splits)
    then show ?thesis using assms None by (simp add: range_at_def)
  next
    case (Some k)
    then have k: "i < limit" "rg_remaining rc + i = limit" "cursor_at m es (At k) (rg_inner rc)" "k \<in> set (map en_key es)"
      using assms False by (auto simp: range_at_def nth_key_def split: if_splits)
    then have "enforce_boundary rc = rc" using assms
      by (auto simp: enforce_boundary_def range_at_def cursor_at_def DbIterator_key_def split: option.splits if_splits)
    then show ?thesis using assms by simp
  qed
qed

context commit_store
begin

lemma next_in_range_spec:
  assumes "next_in_range E K (it, db) = (it', db')" and "cursor_at m es (At k) it" and "it_direction it = Some Forward"
    and "readable E db m es" and "sorted_entries es"
  shows "moved m es (destination Forward (beyond Forward k) es) (it, db) (it', db')
    \<and> (it_state it' = Valid \<longrightarrow> it_direction it' = Some Forward)"
proof -
  have a: "advance E K Forward (it, db) = (it', db')" using assms(1,2) by (simp add: next_in_range_def cursor_at_def)
  show ?thesis using advance_spec [OF a assms(2,4,5)] next_in_range_direction [OF a] assms(3) by blast
qed

lemma RangeCursor_next_spec:
  assumes "RangeCursor_next E K (rc, db) = (rc', db')" and "range_at m es limit i rc" and "readable E db m es" and "sorted_entries es"
  shows "read_frame db db' \<and> range_at m es limit (Suc i) rc'"
proof (cases "RangeCursor_valid rc")
  case False
  then have same: "rc' = rc" "db' = db" using assms(1) by (simp_all add: RangeCursor_next_def)
  have "cursor_at m es Broken (rg_inner rc) \<or> nth_key (take limit (map en_key es)) i = None \<and> cursor_at m es Gone (rg_inner rc)"
  proof (cases "nth_key (take limit (map en_key es)) i")
    case (Some k)
    then have "i < limit" by (simp add: nth_key_def split: if_splits)
    then show ?thesis using Some assms(2) False
      by (auto simp: range_at_def RangeCursor_valid_def DbIterator_valid_def cursor_at_def [of _ _ "At k"])
  qed (use assms(2) in \<open>simp add: range_at_def\<close>)
  then show ?thesis using assms(2) unfolding same by (auto simp: range_at_def nth_key_def split: if_splits)
next
  case True
  then have v: "it_state (rg_inner rc) = Valid" by (simp add: RangeCursor_valid_def DbIterator_valid_def)
  obtain k where k: "nth_key (take limit (map en_key es)) i = Some k" "rg_remaining rc + i = limit" "cursor_at m es (At k) (rg_inner rc)"
    "it_direction (rg_inner rc) = Some Forward" "i < limit"
    using assms(2) v by (auto simp: range_at_def cursor_at_def nth_key_def split: option.splits if_splits)
  let ?rc = "rc\<lparr>rg_remaining := rg_remaining rc - 1\<rparr>"
  have b: "\<forall>e \<in> set es. \<forall>stop. rg_end rc = Some stop \<longrightarrow> en_key e < stop" using assms(2) by (simp add: range_at_def)
  show ?thesis
  proof (cases "rg_remaining rc = 1")
    case r: True
    then have "rc' = ?rc\<lparr>rg_inner := exhaust (rg_inner rc)\<rparr>" "db' = db" using assms(1) True by (auto simp: RangeCursor_next_def Let_def)
    moreover have "nth_key (take limit (map en_key es)) (Suc i) = None" using k(2) r by (simp add: nth_key_def)
    ultimately show ?thesis using b exhaust_at [of "rg_inner rc"] v by (simp add: range_at_def)
  next
    case r: False
    obtain it' db1 where n: "next_in_range E K (rg_inner rc, db) = (it', db1)" by fastforce
    have e: "rc' = enforce_boundary (?rc\<lparr>rg_inner := it'\<rparr>)" "db' = db1"
      using assms(1) True r n k(2,5) by (auto simp: RangeCursor_next_def Let_def)
    have lt: "Suc i < limit" using r k(2,5) by linarith
    have ki: "nth_key (map en_key es) i = Some k" using k(1,5) by (simp add: nth_key_take)
    note N = next_in_range_spec [OF n k(3,4) assms(3,4), unfolded destination_next [OF assms(4) ki]]
    have "range_at m es limit (Suc i) (?rc\<lparr>rg_inner := it'\<rparr>)"
      using N b k(2) lt by (auto simp: range_at_def nth_key_take moved_def cursor_at_def [of _ _ "At _"] split: option.splits)
    then show ?thesis using enforce_boundary_keeps N unfolding e by (simp add: moved_def)
  qed
qed

end

context cursor_store
begin

definition range_ok :: "env \<Rightarrow> (bytes \<rightharpoonup> bytes) \<Rightarrow> index_entry list \<Rightarrow> usize \<Rightarrow> nat \<Rightarrow> range_cursor \<times> ('s, 'd) session \<Rightarrow> bool" where
  "range_ok E m es limit i c \<longleftrightarrow> (\<exists>s. session_inv E iview V view (snd c) s) \<and> session_entries E m es (snd c)
     \<and> range_at m es limit i (fst c)"

lemma range_do_step:
  assumes "range_ok E m es limit i c"
  shows "range_ok E m es limit (if call = RangeNext then Suc i else i) (range_do E B V K call c)"
proof -
  obtain rc se where c: "c = (rc, se)" by (cases c)
  from assms c obtain s where I: "session_inv E iview V view se s" "session_entries E m es se" "range_at m es limit i rc"
    by (auto simp: range_ok_def)
  show ?thesis
  proof (cases call)
    case RangeNext
    obtain rc' db' where n: "RangeCursor_next E K (rc, se_db se) = (rc', db')" by fastforce
    have "sorted_entries es" using I(2) by (simp add: session_entries_def)
    from RangeCursor_next_spec [OF n I(3) session_readable [OF I(1,2)] this] show ?thesis
      using session_frame [OF I(1)] session_entries_frame [OF I(2)] RangeNext n c by (auto simp: range_ok_def range_do_def)
  next
    case (RangeMeanwhile request)
    obtain se' response where r: "serve E B V K request se = (se', response)" by fastforce
    show ?thesis using serve_entries [OF I(1,2) r] I(3) RangeMeanwhile r c by (auto simp: range_ok_def range_do_def)
  qed
qed

lemma range_run:
  assumes "range_ok E m es limit i c"
  shows "range_ok E m es limit (i + length (filter (\<lambda>c. c = RangeNext) calls)) (fold (range_do E B V K) calls c)"
  using assms
proof (induction calls arbitrary: i c)
  case (Cons call calls)
  from Cons.IH [OF range_do_step [OF Cons.prems, of call]] show ?case by (cases call) simp_all
qed simp

end

lemma forward_range: "UserKeyRange_contains (UserKeyRange_forward start stop) k \<longleftrightarrow> in_range start stop k"
  by (auto simp: UserKeyRange_contains_def UserKeyRange_forward_def in_range_def split: option.splits)

lemma empty_range: "is_empty_range start stop limit \<Longrightarrow> range_keys m start stop limit = []"
  by (auto simp: is_empty_range_def range_keys_def in_range_def filter_empty_conv split: option.splits)

lemma clone_bounds_Ok:
  "and_then (clone_bound_option E stop st) (\<lambda>stop. and_then (clone_bound_option E start st) (\<lambda>start. Ok (start, stop))) = Ok (a, b)
   \<Longrightarrow> a = start \<and> b = stop"
  by (auto simp: clone_bound_option_def clone_range_bound_def result_simps split: option.splits)

context cursor_store
begin

text \<open>What a range opens with: its first entry, or nothing when the range holds none.\<close>

definition range_opened ::
  "env \<Rightarrow> (bytes \<rightharpoonup> bytes) \<Rightarrow> bytes option \<Rightarrow> bytes option \<Rightarrow> usize \<Rightarrow> ('s, 'd) session \<Rightarrow> range_cursor \<Rightarrow> bool" where
  "range_opened E m start stop limit se rc \<longleftrightarrow> finite (dom m)
     \<and> (\<exists>es. take limit (map en_key es) = range_keys m start stop limit \<and> session_entries E m es se \<and> range_at m es limit 0 rc)"

lemma session_entries_filter: "session_entries E m es se \<Longrightarrow> session_entries E m (filter P es) se"
  by (auto simp: session_entries_def entries_hold_def sorted_wrt_map sorted_wrt_filter)

lemma range_seek:
  assumes "session_inv E iview V view se s" and "session_entries E m es0 se" and "view_stands sv es0"
    and "map en_key es0 = sorted_list_of_set (dom m)" and "finite (dom m)"
    and "ix_iter_user_range sv (UserKeyRange_forward start stop) = Ok xs" and "limit \<noteq> 0" and "read_frame (se_db se) db"
    and "seek_to_first_in_initial_range E K (DbIterator_new sv xs Op_Range, db) = (it, db')"
  shows "read_frame db db' \<and> range_opened E m start stop limit se (RangeCursor_new it stop limit)"
proof -
  let ?es = "filter (\<lambda>e. in_range start stop (en_key e)) es0"
  let ?it = "DbIterator_new sv xs Op_Range"
  have at: "cursor_at m ?es Nowhere ?it"
  proof -
    have "stands_for xs ?es"
      using assms(3,6) unfolding view_stands_def view_lists_def forward_range [symmetric] by blast
    then show ?thesis by (simp add: cursor_at_def DbIterator_new_def)
  qed
  have es: "session_entries E m ?es se" by (rule session_entries_filter [OF assms(2)])
  have so: "sorted_entries ?es" using es by (simp add: session_entries_def)
  have "relocate E K FirstKey (?it, db) = (it, db')" using assms(9) by (simp add: seek_to_first_in_initial_range_def DbIterator_new_def)
  note R = relocate_spec [OF this at _ readable_frame [OF session_readable [OF assms(1) es] assms(8)] so, of Forward "\<lambda>_. True"]
    and D = relocate_direction [OF this, of Forward "\<lambda>_. True"]
  have M: "moved m ?es (destination Forward (\<lambda>_. True) ?es) (?it, db) (it, db')" using R by simp
  have bound: "\<forall>e \<in> set ?es. \<forall>b. stop = Some b \<longrightarrow> en_key e < b" by (auto simp: in_range_def)
  have "range_at m ?es limit 0 \<lparr>rg_inner = it, rg_end = stop, rg_remaining = limit\<rparr>"
  proof (cases "nth_key (map en_key ?es) 0")
    case None
    then show ?thesis using M bound unfolding destination_first by (auto simp: range_at_def moved_def nth_key_take)
  next
    case (Some k)
    have "cursor_at m ?es (At k) it \<Longrightarrow> it_direction it = Some Forward" using D by (simp add: cursor_at_def)
    then show ?thesis using M bound Some assms(7) unfolding destination_first by (auto simp: range_at_def moved_def nth_key_take)
  qed
  then have "range_at m ?es limit 0 (RangeCursor_new it stop limit)" unfolding RangeCursor_new_def by (rule enforce_boundary_keeps)
  moreover have "take limit (map en_key ?es) = range_keys m start stop limit"
    unfolding range_keys_def assms(4) [symmetric] by (simp add: filter_map comp_def)
  ultimately show ?thesis using M assms(5) es by (auto simp: range_opened_def moved_def)
qed

lemma source_finite:
  assumes "session_inv E iview V view se s" and "kv_source n s = Some m"
  shows "finite (dom m)"
proof -
  let ?co = "db_coordinator (se_db se)"
  have I: "db_inv E iview view (se_db se) (kv_map s)"
    and L: "list_all2 (snapshot_holds E iview V (LV ?co) (lw_geometry (co_writer ?co)) (db_id (se_db se))) (se_snapshots se) (kv_snapshots s)"
    using assms(1) by (simp_all add: session_inv_def Let_def)
  have "\<exists>s0. represents E (iview s0) (LV ?co) (lw_geometry (co_writer ?co)) m"
  proof (cases n)
    case None
    then show ?thesis using I assms(2) by (auto simp: db_inv_def coord_inv_def kv_source_def Let_def)
  next
    case (Some i)
    then have i: "i < length (kv_snapshots s)" "m = kv_snapshots s ! i" using assms(2) by (auto simp: kv_source_def split: if_splits)
    then show ?thesis using list_all2_nthD2 [OF L i(1)] by (auto simp: snapshot_holds_def)
  qed
  then obtain s0 where r: "represents E (iview s0) (LV ?co) (lw_geometry (co_writer ?co)) m" ..
  have "m k = None \<longleftrightarrow> iview s0 UserKeyspace k = None" for k
    using spec [OF r [unfolded represents_def], of k] by (auto split: option.splits)
  then have "dom m = dom (iview s0 UserKeyspace)" by (simp add: dom_def)
  then show ?thesis using view_finite by simp
qed

lemma range_opened_empty:
  "finite (dom m) \<Longrightarrow> is_empty_range start stop limit \<Longrightarrow>
     range_opened E m start stop limit se (RangeCursor_new (DbIterator_empty Op_Range) None 0)"
  by (auto simp: range_opened_def empty_range session_entries_def entries_hold_def range_at_def RangeCursor_new_def enforce_boundary_def
      nth_key_def exhaust_at DbIterator_empty_def intro!: exI [of _ "[]"])

lemma Db_range_spec:
  assumes "session_inv E iview V view se s" and "kv_source n s = Some m"
    and "Db_range E K V (map_option (\<lambda>i. se_snapshots se ! i) n) start stop limit (se_db se) = (db, Ok rc)"
  shows "read_frame (se_db se) db \<and> range_opened E m start stop limit se rc"
  using assms(3) unfolding Db_range_def
proof (rule in_operation_result)
  let ?sn = "map_option (\<lambda>i. se_snapshots se ! i) n"
  fix db1 db2 y
  assume f: "read_frame (se_db se) db1" and b: "DbInner_range E K V ?sn start stop limit db1 = (db2, y)"
    and y: "Ok rc = y" "db = end_operation db2"
  obtain started where st: "begin_read Op_Range db1 = Ok started"
    using b y(1) by (auto simp: DbInner_range_def split: result.splits)
  note F = source_finite [OF assms(1,2)]
  have "read_frame db1 db2 \<and> range_opened E m start stop limit se rc"
  proof (cases "is_empty_range start stop limit")
    case True
    then have "db2 = with_lease db1" "rc = RangeCursor_new (DbIterator_empty Op_Range) None 0"
      using b y(1) st by (auto simp: DbInner_range_def Let_def split: result.splits)
    then show ?thesis using range_opened_empty [OF F True] with_lease_frame by simp
  next
    case False
    obtain db3 r where v: "select_read_view V ?sn Op_Range started db1 = (db3, r)" by fastforce
    have "\<exists>sv xs. r = Ok sv \<and> ix_iter_user_range sv (UserKeyRange_forward start stop) = Ok xs
      \<and> (case seek_to_first_in_initial_range E K (DbIterator_new sv xs Op_Range, with_lease db3) of
            (inner, db) \<Rightarrow> (db, Ok (RangeCursor_new inner stop limit))) = (db2, y)"
      using b y(1) st v False clone_bounds_Ok
      by (auto simp: DbInner_range_def Let_def dest!: clone_bounds_Ok dest: failing_read_frame split: result.splits)
    then obtain sv xs where r: "r = Ok sv" "ix_iter_user_range sv (UserKeyRange_forward start stop) = Ok xs"
      "(case seek_to_first_in_initial_range E K (DbIterator_new sv xs Op_Range, with_lease db3) of
            (inner, db) \<Rightarrow> (db, Ok (RangeCursor_new inner stop limit))) = (db2, y)" by blast
    obtain it db4 where k: "seek_to_first_in_initial_range E K (DbIterator_new sv xs Op_Range, with_lease db3) = (it, db4)" by fastforce
    have "db2 = db4" "rc = RangeCursor_new it stop limit" using r(3) k y(1) by auto
    note o = r(1,2) k this
    obtain es where es: "view_stands sv es" "map en_key es = sorted_list_of_set (dom m)" "session_entries E m es se" "db3 = db1"
      using select_read_view_spec [OF assms(1,2) f v] o(1) by blast
    have lim: "limit \<noteq> 0" using False by (auto simp: is_empty_range_def)
    have fr: "read_frame db1 (with_lease db1)" by (rule with_lease_frame)
    from range_seek [OF assms(1) es(3,1,2) F o(2) lim read_frame_trans [OF f fr] o(3) [unfolded es(4)]] show ?thesis
      using read_frame_trans [OF fr] unfolding o(4,5) by blast
  qed
  then show ?thesis using read_frame_trans [OF f] read_frame_trans [OF _ end_operation_frame] unfolding y(2) by blast
qed auto

lemma range_walk:
  assumes "session_inv E iview V view se s" and "kv_source n s = Some m"
    and "Db_range E K V (map_option (\<lambda>i. se_snapshots se ! i) n) start stop limit (se_db se) = (db, Ok rc)"
    and "fold (range_do E B V K) calls (rc, se\<lparr>se_db := db\<rparr>) = (rc', se')"
  shows "finite (dom m) \<and> (case RangeCursor_status rc' of Err _ \<Rightarrow> \<not> RangeCursor_valid rc'
    | Ok _ \<Rightarrow> (let key = nth_key (range_keys m start stop limit) (length (filter (\<lambda>c. c = RangeNext) calls)) in
        RangeCursor_key rc' = key \<and> RangeCursor_value rc' = Option.bind key m))"
proof -
  note S = Db_range_spec [OF assms(1-3)]
  obtain es where es: "take limit (map en_key es) = range_keys m start stop limit" "session_entries E m es se" "range_at m es limit 0 rc"
    using S by (auto simp: range_opened_def)
  have "range_ok E m es limit 0 (rc, se\<lparr>se_db := db\<rparr>)"
    using S session_frame [OF assms(1)] session_entries_frame [OF es(2)] es(3) by (auto simp: range_ok_def)
  from range_run [OF this, of calls] assms(4) have "range_at m es limit (length (filter (\<lambda>c. c = RangeNext) calls)) rc'"
    by (simp add: range_ok_def)
  from range_at_shows [OF this] show ?thesis using S unfolding es(1) Let_def range_opened_def by blast
qed

end

section \<open>The stores cursors run on\<close>

locale scanned_database = scanned_store F fview + stored_database F fview K view ident
  for F :: "'db fjall_ops" and fview :: "'db \<Rightarrow> index_view"
    and K :: "'d os_ops" and view :: "'d \<Rightarrow> disk_view" and ident :: "handle \<Rightarrow> file_identity"

sublocale scanned_database \<subseteq> sc: cursor_store "fjall_backend_ops E F" "\<lambda>s. fview (fb_database s)" K view ident
  "fjall_snapshot_view E F" for E
proof (unfold_locales, goal_cases)
  case (1 s sv)
  then show ?case by (rule snapshot_view_stands)
next
  case (2 s)
  obtain kvs where "map_of kvs = fview (fb_database s) UserKeyspace" using scan by metis
  then show ?case by (metis finite_dom_map_of)
qed

interpretation mem_cursors: scanned_database "mem_fjall fault" mem_view "mem_os fault' limit" mem_disk_view mem_ident
  for fault fault' limit ..

context scanned_database
begin

lemmas cursor_walks = sc.cursor_walk
lemmas range_walks = sc.range_walk

end

lemma fresh_reads:
  assumes "fresh_coordinator = Ok co"
  shows "\<exists>db it. Db_iter (fjall_snapshot_view sample_env mem_index) None (se_db (fresh_session co)) = (db, Ok it)"
    and "\<exists>db rc. Db_range sample_env sample_os (fjall_snapshot_view sample_env mem_index) None (Some [1]) (Some [9]) 5
      (se_db (fresh_session co)) = (db, Ok rc)"
  using fresh_runtime(2-4) [OF assms]
  by (simp_all add: Db_iter_def Db_range_def DbInner_range_def in_operation_def begin_operation_def acquire_operation_def fresh_session_def
      new_with_external_lease_def begin_read_def complete_read_def select_read_view_def fjall_snapshot_view_def FjallBackend_snapshot_def
      FjallBackend_iter_user_def FjallBackend_iter_user_range_def read_database_def validate_snapshot_def Let_def is_empty_range_def
      validate_range_bound_def ensure_def clone_bound_option_def clone_range_bound_def DB_MAX_KEY_VALUE_SIZE_def split: prod.splits)

section \<open>Properties\<close>

text \<open>
  C4: a cursor walks its view. Open a cursor on the live database or on a snapshot, and call it in any
  order, with any requests served in between. Then the keys of the view are finite in number and, as long as the cursor
  reports no error, it stands exactly where the calls lead over their sorted sequence: at the first
  or the last key, at the first key not below the one sought, at the next or the previous one, or
  nowhere; and its value is the one the view holds. A cursor that has reported an error is not valid.
\<close>

theorem cursor_walks_its_view:
  assumes "scanned_store F fview" and "log_disk K view ident"
    and "session_inv E (\<lambda>s. fview (fb_database s)) (fjall_snapshot_view E F) view se s" and "kv_source n s = Some m"
    and "Db_iter (fjall_snapshot_view E F) (map_option (\<lambda>i. se_snapshots se ! i) n) (se_db se) = (db, Ok it)"
    and "fold (cursor_do E (fjall_backend_ops E F) (fjall_snapshot_view E F) K) calls (it, se\<lparr>se_db := db\<rparr>) = (it', se')"
  shows "finite (dom m) \<and> (case DbIterator_status it' of Err _ \<Rightarrow> \<not> DbIterator_valid it'
    | Ok _ \<Rightarrow> (let pos = fold (goes (sorted_list_of_set (dom m))) calls Nowhere in
        DbIterator_key it' = pos_key pos \<and> DbIterator_value it' = Option.bind (pos_key pos) m))"
proof -
  have "scanned_database F fview K view ident"
    using assms(1,2) scanned_store.axioms(1) [OF assms(1)] by (simp add: scanned_database_def stored_database_def)
  from scanned_database.cursor_walks [OF this assms(3-6)] show ?thesis .
qed

theorem cursor_walks_its_view_witness:
  "\<exists>co db it it' se'. fresh_coordinator = Ok co
     \<and> Db_iter (fjall_snapshot_view sample_env mem_index) None (se_db (fresh_session co)) = (db, Ok it)
     \<and> fold (cursor_do sample_env (fjall_backend_ops sample_env mem_index) (fjall_snapshot_view sample_env mem_index) sample_os)
         [Meanwhile (Store True [107] [118] (Ok 5)), SeekToFirst, Next, Seek [3]] (it, (fresh_session co)\<lparr>se_db := db\<rparr>) = (it', se')
     \<and> \<not> DbIterator_valid it'"
proof -
  let ?calls = "[Meanwhile (Store True [107] [118] (Ok 5)), SeekToFirst, Next, Seek [3]]"
  obtain co where co: "fresh_coordinator = Ok co"
    "session_inv sample_env (\<lambda>s. mem_view (fb_database s)) (fjall_snapshot_view sample_env mem_index) mem_disk_view (fresh_session co) fresh_state"
    using fresh_session_inv by blast
  obtain db it where i: "Db_iter (fjall_snapshot_view sample_env mem_index) None (se_db (fresh_session co)) = (db, Ok it)"
    using fresh_reads(1) [OF co(1)] by blast
  obtain it' se' where r: "fold (cursor_do sample_env (fjall_backend_ops sample_env mem_index) (fjall_snapshot_view sample_env mem_index)
      sample_os) ?calls (it, (fresh_session co)\<lparr>se_db := db\<rparr>) = (it', se')" by (metis surj_pair)
  have "kv_source None fresh_state = Some Map.empty" by (simp add: kv_source_def fresh_state_def)
  note W = cursor_walks_its_view [where n = None, OF mem_scans.scanned_store_axioms sample_log_disk co(2) this _ r, simplified, OF i]
  have "\<not> DbIterator_valid it'"
    using W by (cases "DbIterator_status it'") (auto simp: nearest_def pos_key_def DbIterator_key_def DbIterator_valid_def split: if_splits)
  then show ?thesis using co(1) i r by blast
qed

text \<open>
  C5: a range returns its entries. A range cursor over the live database or a snapshot that has been
  advanced \<open>i\<close> times, with any requests served in between, and reports no error stands at the \<open>i\<close>-th
  of the first \<open>limit\<close> keys of its view between the inclusive start and the exclusive end, with
  the value the view holds, and past the end when there are no more.
\<close>

theorem range_returns_its_entries:
  assumes "scanned_store F fview" and "log_disk K view ident"
    and "session_inv E (\<lambda>s. fview (fb_database s)) (fjall_snapshot_view E F) view se s" and "kv_source n s = Some m"
    and "Db_range E K (fjall_snapshot_view E F) (map_option (\<lambda>i. se_snapshots se ! i) n) start stop limit (se_db se) = (db, Ok rc)"
    and "fold (range_do E (fjall_backend_ops E F) (fjall_snapshot_view E F) K) calls (rc, se\<lparr>se_db := db\<rparr>) = (rc', se')"
  shows "finite (dom m) \<and> (case RangeCursor_status rc' of Err _ \<Rightarrow> \<not> RangeCursor_valid rc'
    | Ok _ \<Rightarrow> (let key = nth_key (range_keys m start stop limit) (length (filter (\<lambda>c. c = RangeNext) calls)) in
        RangeCursor_key rc' = key \<and> RangeCursor_value rc' = Option.bind key m))"
proof -
  have "scanned_database F fview K view ident"
    using assms(1,2) scanned_store.axioms(1) [OF assms(1)] by (simp add: scanned_database_def stored_database_def)
  from scanned_database.range_walks [OF this assms(3-6)] show ?thesis .
qed

theorem range_returns_its_entries_witness:
  "\<exists>co db rc rc' se'. fresh_coordinator = Ok co
     \<and> Db_range sample_env sample_os (fjall_snapshot_view sample_env mem_index) None (Some [1]) (Some [9]) 5 (se_db (fresh_session co))
         = (db, Ok rc)
     \<and> fold (range_do sample_env (fjall_backend_ops sample_env mem_index) (fjall_snapshot_view sample_env mem_index) sample_os)
         [RangeMeanwhile (Store True [7] [118] (Ok 5)), RangeNext] (rc, (fresh_session co)\<lparr>se_db := db\<rparr>) = (rc', se')
     \<and> RangeCursor_key rc' = None"
proof -
  let ?calls = "[RangeMeanwhile (Store True [7] [118] (Ok 5)), RangeNext]"
  obtain co where co: "fresh_coordinator = Ok co"
    "session_inv sample_env (\<lambda>s. mem_view (fb_database s)) (fjall_snapshot_view sample_env mem_index) mem_disk_view (fresh_session co) fresh_state"
    using fresh_session_inv by blast
  obtain db rc where i: "Db_range sample_env sample_os (fjall_snapshot_view sample_env mem_index) None (Some [1]) (Some [9]) 5
      (se_db (fresh_session co)) = (db, Ok rc)"
    using fresh_reads(2) [OF co(1)] by blast
  obtain rc' se' where r: "fold (range_do sample_env (fjall_backend_ops sample_env mem_index) (fjall_snapshot_view sample_env mem_index)
      sample_os) ?calls (rc, (fresh_session co)\<lparr>se_db := db\<rparr>) = (rc', se')" by (metis surj_pair)
  have "kv_source None fresh_state = Some Map.empty" by (simp add: kv_source_def fresh_state_def)
  note W = range_returns_its_entries [where n = None, OF mem_scans.scanned_store_axioms sample_log_disk co(2) this _ r, simplified, OF i]
  have "RangeCursor_key rc' = None"
    using W by (cases "RangeCursor_status rc'") (auto simp: nth_key_def range_keys_def RangeCursor_key_def)
  then show ?thesis using co(1) i r by blast
qed

end
