(* ===== verification/RootDir.thy ===== *)
theory RootDir
  imports VLogFiles
begin

text \<open>
  The root directory of a database (\<open>src/lock.rs\<close>): the lock that makes it exclusive, and the calls
  on its children, each of which checks first that the path still leads to the locked directory.
  The operating system is a parameter, a record of the calls the code makes; paths are strings, and
  the table of roots locked by this process is part of the state. The tree operations, which only
  the destruction of a database uses, are left out, and the platform is Linux.
\<close>

section \<open>The operating system\<close>

datatype file_kind = KindFile | KindDirectory | KindSymlink | KindOther

record root_metadata =
  rm_kind :: file_kind
  rm_len :: u64
  rm_identity :: file_identity

record dir_entry =
  de_name :: "string option"
  de_file_type :: "(file_kind, io_error) result"

record 'd root_ops =
  ro_metadata :: "string \<Rightarrow> ('d, root_metadata, io_error) act"
  ro_symlink_metadata :: "string \<Rightarrow> ('d, root_metadata, io_error) act"
  ro_canonicalize :: "string \<Rightarrow> ('d, string, io_error) act"
  ro_open :: "string \<Rightarrow> bool \<Rightarrow> ('d, handle, io_error) act"
  ro_create_new :: "string \<Rightarrow> ('d, handle, io_error) act"
  ro_handle_metadata :: "handle \<Rightarrow> ('d, root_metadata, io_error) act"
  ro_read_exact :: "handle \<Rightarrow> nat \<Rightarrow> ('d, bytes, io_error) act"
  ro_create_dir :: "string \<Rightarrow> ('d, unit, io_error) act"
  ro_remove_dir :: "string \<Rightarrow> ('d, unit, io_error) act"
  ro_remove_file :: "string \<Rightarrow> ('d, unit, io_error) act"
  ro_rename :: "string \<Rightarrow> string \<Rightarrow> ('d, unit, io_error) act"
  ro_read_dir :: "string \<Rightarrow> ('d, (dir_entry, io_error) result list, io_error) act"
  ro_sync_directory :: "handle \<Rightarrow> ('d, unit, io_error) act"
  ro_flock :: "handle \<Rightarrow> ('d, unit, io_error) act"
  ro_unlock :: "handle \<Rightarrow> 'd \<Rightarrow> 'd"

section \<open>Errors\<close>

definition open_io_error :: "io_error \<Rightarrow> storage_error" where
  "open_io_error error =
     (codec_error Io Op_Open Preflight None FixEnvironmentAndReopen)\<lparr>err_os_code := io_raw_os_error error\<rparr>"

definition layout_error :: storage_error where
  "layout_error = codec_error InvalidLayout Op_Open Preflight None RestoreOrRepair"

definition not_found_error :: storage_error where
  "not_found_error = codec_error NotFound Op_Open Preflight None DoNotRetry"

definition invalid_argument_error :: storage_error where
  "invalid_argument_error = codec_error InvalidArgument Op_Open Preflight None FixRequestAndRetrySameInstance"

definition busy_error :: storage_error where
  "busy_error = codec_error Busy Op_Open Preflight None RetrySameInstance"

definition io_kind_error :: "io_kind \<Rightarrow> io_error" where
  "io_kind_error kind = \<lparr>io_error_kind = kind, io_raw_os_error = None\<rparr>"

section \<open>Paths\<close>

datatype path_component = RootComponent | CurDir | ParentDir | Normal string

definition split_path :: "string \<Rightarrow> string list" where
  "split_path s = foldr (\<lambda>c acc. if c = CHR ''/'' then [] # acc
     else case acc of [] \<Rightarrow> [[c]] | p # ps \<Rightarrow> (c # p) # ps) s [[]]"

definition piece_component :: "bool \<Rightarrow> string \<Rightarrow> path_component list" where
  "piece_component leading p =
     (if p = '''' then []
      else if p = ''.'' then (if leading then [CurDir] else [])
      else if p = ''..'' then [ParentDir]
      else [Normal p])"

definition path_components :: "string \<Rightarrow> path_component list" where
  "path_components s =
     (let rooted = (s \<noteq> [] \<and> hd s = CHR ''/'') in
      (if rooted then [RootComponent] else [])
      @ (case split_path s of
           [] \<Rightarrow> []
         | p # ps \<Rightarrow> piece_component (\<not> rooted) p @ concat (map (piece_component False) ps)))"

definition path_join :: "string \<Rightarrow> string \<Rightarrow> string" where
  "path_join path name = path @ ''/'' @ name"

section \<open>Opening without following links\<close>

definition open_regular_nofollow :: "'d root_ops \<Rightarrow> string \<Rightarrow> bool \<Rightarrow> ('d, handle, io_error) act" where
  "open_regular_nofollow R path writable =
     act_bind (ro_symlink_metadata R path) (\<lambda>before.
     if rm_kind before \<noteq> KindFile then act_fail (io_kind_error IoInvalidInput)
     else
       act_bind (ro_open R path writable) (\<lambda>file.
       act_bind (ro_handle_metadata R file) (\<lambda>after.
       if rm_kind after \<noteq> KindFile \<or> rm_identity before \<noteq> rm_identity after
       then act_fail (io_kind_error IoInvalidInput)
       else act_return file)))"

definition open_directory_nofollow :: "'d root_ops \<Rightarrow> string \<Rightarrow> ('d, handle, io_error) act" where
  "open_directory_nofollow R path =
     act_bind (ro_symlink_metadata R path) (\<lambda>before.
     if rm_kind before \<noteq> KindDirectory then act_fail (io_kind_error IoNotADirectory)
     else
       act_bind (ro_open R path False) (\<lambda>file.
       act_bind (ro_handle_metadata R file) (\<lambda>after.
       if rm_kind after \<noteq> KindDirectory \<or> rm_identity before \<noteq> rm_identity after
       then act_fail (io_kind_error IoInvalidInput)
       else act_return file)))"

section \<open>The children of the root\<close>

datatype managed_entry_kind = Missing | RegularFile u64 | Directory | Symlink | OtherEntry

record root_path_identity =
  ri_canonical_path :: string
  ri_identity :: file_identity

record root_lock =
  rl_identity :: root_path_identity
  rl_root_directory :: handle
  rl_lock_file :: handle

definition classify_metadata :: "root_metadata \<Rightarrow> managed_entry_kind" where
  "classify_metadata metadata =
     (case rm_kind metadata of
        KindSymlink \<Rightarrow> Symlink
      | KindFile \<Rightarrow> RegularFile (rm_len metadata)
      | KindDirectory \<Rightarrow> Directory
      | KindOther \<Rightarrow> OtherEntry)"

definition ensure_path_identity :: "'d root_ops \<Rightarrow> root_lock \<Rightarrow> ('d, unit, storage_error) act" where
  "ensure_path_identity R root =
     act_bind (act_map_err open_io_error (ro_metadata R (ri_canonical_path (rl_identity root)))) (\<lambda>metadata.
     if rm_kind metadata \<noteq> KindDirectory \<or> rm_identity metadata \<noteq> ri_identity (rl_identity root)
     then act_fail layout_error else act_return ())"

definition checked_child_path :: "'d root_ops \<Rightarrow> root_lock \<Rightarrow> string \<Rightarrow> ('d, string, storage_error) act" where
  "checked_child_path R root name =
     act_bind (ensure_path_identity R root) (\<lambda>_.
     case path_components name of
       [Normal component] \<Rightarrow> act_return (path_join (ri_canonical_path (rl_identity root)) name)
     | _ \<Rightarrow> act_fail layout_error)"

definition inspect_child :: "'d root_ops \<Rightarrow> root_lock \<Rightarrow> string \<Rightarrow> ('d, managed_entry_kind, storage_error) act" where
  "inspect_child R root name =
     act_bind (checked_child_path R root name) (\<lambda>path d.
       case ro_symlink_metadata R path d of
         (d, Ok metadata) \<Rightarrow> (d, Ok (classify_metadata metadata))
       | (d, Err error) \<Rightarrow>
           if io_error_kind error = IoNotFound then (d, Ok Missing) else (d, Err (open_io_error error)))"

definition open_existing_regular :: "'d root_ops \<Rightarrow> root_lock \<Rightarrow> string \<Rightarrow> ('d, handle option, storage_error) act" where
  "open_existing_regular R root name =
     act_bind (checked_child_path R root name) (\<lambda>path.
     act_bind (inspect_child R root name) (\<lambda>kind.
     case kind of
       Missing \<Rightarrow> act_return None
     | RegularFile len \<Rightarrow>
         act_bind (act_map_err open_io_error (open_regular_nofollow R path False)) (\<lambda>file. act_return (Some file))
     | _ \<Rightarrow> act_fail layout_error))"

definition create_new_regular :: "'d root_ops \<Rightarrow> root_lock \<Rightarrow> string \<Rightarrow> ('d, handle, storage_error) act" where
  "create_new_regular R root name =
     act_bind (checked_child_path R root name) (\<lambda>path.
     act_bind (act_map_err open_io_error (ro_create_new R path)) (\<lambda>file.
     act_bind (act_map_err open_io_error (ro_handle_metadata R file)) (\<lambda>metadata.
     if rm_kind metadata \<noteq> KindFile then act_fail layout_error else act_return file)))"

definition create_directory :: "'d root_ops \<Rightarrow> root_lock \<Rightarrow> string \<Rightarrow> ('d, unit, storage_error) act" where
  "create_directory R root name =
     act_bind (checked_child_path R root name) (\<lambda>path. act_map_err open_io_error (ro_create_dir R path))"

definition read_directory ::
  "'d root_ops \<Rightarrow> root_lock \<Rightarrow> string \<Rightarrow> ('d, (dir_entry, io_error) result list, storage_error) act" where
  "read_directory R root name =
     act_bind (checked_child_path R root name) (\<lambda>path.
     act_bind (inspect_child R root name) (\<lambda>kind.
     if kind = Directory then act_map_err open_io_error (ro_read_dir R path) else act_fail layout_error))"

definition sync_directory :: "'d root_ops \<Rightarrow> root_lock \<Rightarrow> string \<Rightarrow> ('d, unit, storage_error) act" where
  "sync_directory R root name =
     act_bind (checked_child_path R root name) (\<lambda>path.
     act_bind (act_map_err open_io_error (open_directory_nofollow R path)) (\<lambda>directory.
       act_map_err open_io_error (ro_sync_directory R directory)))"

definition sync_root :: "'d root_ops \<Rightarrow> root_lock \<Rightarrow> ('d, unit, storage_error) act" where
  "sync_root R root =
     act_bind (ensure_path_identity R root) (\<lambda>_.
       act_map_err open_io_error (ro_sync_directory R (rl_root_directory root)))"

definition rename_child :: "'d root_ops \<Rightarrow> root_lock \<Rightarrow> string \<Rightarrow> string \<Rightarrow> ('d, unit, storage_error) act" where
  "rename_child R root from_name to_name =
     act_bind (checked_child_path R root from_name) (\<lambda>from_path.
     act_bind (checked_child_path R root to_name) (\<lambda>to_path.
       act_map_err open_io_error (ro_rename R from_path to_path)))"

definition remove_regular_child_tracked :: "'d root_ops \<Rightarrow> root_lock \<Rightarrow> string \<Rightarrow> ('d, bool, storage_error) act" where
  "remove_regular_child_tracked R root name =
     act_bind (checked_child_path R root name) (\<lambda>path.
     act_bind (inspect_child R root name) (\<lambda>kind.
     case kind of
       Missing \<Rightarrow> act_return False
     | RegularFile len \<Rightarrow> act_bind (act_map_err open_io_error (ro_remove_file R path)) (\<lambda>_. act_return True)
     | _ \<Rightarrow> act_fail layout_error))"

definition remove_regular_child_if_present :: "'d root_ops \<Rightarrow> root_lock \<Rightarrow> string \<Rightarrow> ('d, unit, storage_error) act" where
  "remove_regular_child_if_present R root name =
     act_bind (remove_regular_child_tracked R root name) (\<lambda>_. act_return ())"

definition remove_empty_directory_tracked :: "'d root_ops \<Rightarrow> root_lock \<Rightarrow> string \<Rightarrow> ('d, bool, storage_error) act" where
  "remove_empty_directory_tracked R root name =
     act_bind (checked_child_path R root name) (\<lambda>path.
     act_bind (inspect_child R root name) (\<lambda>kind.
     case kind of
       Missing \<Rightarrow> act_return False
     | Directory \<Rightarrow> act_bind (act_map_err open_io_error (ro_remove_dir R path)) (\<lambda>_. act_return True)
     | _ \<Rightarrow> act_fail layout_error))"

section \<open>Locking the root\<close>

definition LOCK_FILE_NAME :: string where "LOCK_FILE_NAME = ''LOCK''"

definition path_file_name :: "string \<Rightarrow> string option" where
  "path_file_name s = (case rev (path_components s) of Normal name # _ \<Rightarrow> Some name | _ \<Rightarrow> None)"

fun drop_trivial :: "string list \<Rightarrow> string list" where
  "drop_trivial [] = []"
| "drop_trivial (p # ps) =
     (let qs = drop_trivial ps in
      if qs = [] \<or> qs = [''.''] then (if p = [] then [] else [p]) else p # qs)"

fun join_pieces :: "string list \<Rightarrow> string" where
  "join_pieces [] = []"
| "join_pieces [p] = p"
| "join_pieces (p # ps) = p @ ''/'' @ join_pieces ps"

definition path_parent :: "string \<Rightarrow> string option" where
  "path_parent s =
     (case rev (path_components s) of
        [] \<Rightarrow> None
      | RootComponent # _ \<Rightarrow> None
      | _ # rest \<Rightarrow>
          Some (if rest = [RootComponent] then ''/''
                else join_pieces (drop_trivial (butlast (drop_trivial (split_path s))))))"

definition create_root :: "'d root_ops \<Rightarrow> string \<Rightarrow> ('d, string, storage_error) act" where
  "create_root R path =
     act_bind (act_lift (ok_or (path_file_name path) layout_error)) (\<lambda>name.
     let parent = (case path_parent path of Some p \<Rightarrow> if p = [] then ''.'' else p | None \<Rightarrow> ''.'') in
     act_bind (act_map_err open_io_error (ro_canonicalize R parent)) (\<lambda>canonical_parent.
     act_bind (act_map_err open_io_error (open_directory_nofollow R canonical_parent)) (\<lambda>parent_directory.
     let candidate = path_join canonical_parent name in
     act_bind (\<lambda>d. case ro_create_dir R candidate d of
                 (d, Ok _) \<Rightarrow> (d, Ok ())
               | (d, Err error) \<Rightarrow>
                   if io_error_kind error = IoAlreadyExists then (d, Ok ()) else (d, Err (open_io_error error))) (\<lambda>_.
     act_bind (act_map_err open_io_error (ro_canonicalize R candidate)) (\<lambda>canonical_candidate.
     act_bind (act_map_err open_io_error (ro_sync_directory R parent_directory)) (\<lambda>_.
       act_return canonical_candidate))))))"

definition open_or_create_lock_file :: "'d root_ops \<Rightarrow> string \<Rightarrow> ('d, handle, storage_error) act" where
  "open_or_create_lock_file R path d =
     (case ro_symlink_metadata R path d of
        (d, Ok metadata) \<Rightarrow>
          if rm_kind metadata = KindFile then act_map_err open_io_error (open_regular_nofollow R path True) d
          else (d, Err layout_error)
      | (d, Err error) \<Rightarrow>
          if io_error_kind error = IoNotFound
          then (case ro_create_new R path d of
                  (d, Ok file) \<Rightarrow> (d, Ok file)
                | (d, Err error) \<Rightarrow>
                    if io_error_kind error = IoAlreadyExists
                    then act_map_err open_io_error (open_regular_nofollow R path True) d
                    else (d, Err (open_io_error error)))
          else (d, Err (open_io_error error)))"

definition open_and_lock_file :: "'d root_ops \<Rightarrow> string \<Rightarrow> ('d, handle, storage_error) act" where
  "open_and_lock_file R root =
     act_bind (open_or_create_lock_file R (path_join root LOCK_FILE_NAME)) (\<lambda>file.
     act_bind (act_map_err open_io_error (ro_handle_metadata R file)) (\<lambda>metadata.
     if rm_kind metadata \<noteq> KindFile then act_fail layout_error
     else
       act_bind (act_map_err (\<lambda>error. if io_error_kind error = IoWouldBlock then busy_error else open_io_error error)
                  (ro_flock R file)) (\<lambda>_. act_return file)))"

definition resolve_root :: "'d root_ops \<Rightarrow> string \<Rightarrow> bool \<Rightarrow> ('d, string option, storage_error) act" where
  "resolve_root R path should_create_root d =
     (case ro_symlink_metadata R path d of
        (d, Ok _) \<Rightarrow> act_bind (act_map_err open_io_error (ro_canonicalize R path)) (\<lambda>p. act_return (Some p)) d
      | (d, Err error) \<Rightarrow>
          if io_error_kind error = IoNotFound
          then (if should_create_root then act_bind (create_root R path) (\<lambda>p. act_return (Some p)) d else (d, Ok None))
          else (d, Err (open_io_error error)))"

definition open_root_directory :: "'d root_ops \<Rightarrow> string \<Rightarrow> ('d, handle \<times> file_identity, storage_error) act" where
  "open_root_directory R canonical_path =
     act_bind (act_map_err (\<lambda>error. if io_error_kind error = IoNotADirectory then layout_error else open_io_error error)
                (open_directory_nofollow R canonical_path)) (\<lambda>root_directory.
     act_bind (act_map_err open_io_error (ro_handle_metadata R root_directory)) (\<lambda>metadata.
     if rm_kind metadata \<noteq> KindDirectory then act_fail layout_error
     else act_return (root_directory, rm_identity metadata)))"

text \<open>The state: the roots this process has locked, and the file system.\<close>

definition RootLock_acquire ::
  "'d root_ops \<Rightarrow> string \<Rightarrow> bool \<Rightarrow> (file_identity set \<times> 'd, root_lock option, storage_error) act" where
  "RootLock_acquire R path should_create_root s =
     (let (locked, d) = s in
      case resolve_root R path should_create_root d of
        (d, Err e) \<Rightarrow> ((locked, d), Err e)
      | (d, Ok None) \<Rightarrow> ((locked, d), Ok None)
      | (d, Ok (Some canonical_path)) \<Rightarrow>
          (case open_root_directory R canonical_path d of
             (d, Err e) \<Rightarrow> ((locked, d), Err e)
           | (d, Ok (root_directory, identity)) \<Rightarrow>
               if identity \<in> locked then ((locked, d), Err busy_error)
               else (case open_and_lock_file R canonical_path d of
                       (d, Err e) \<Rightarrow> ((insert identity locked - {identity}, d), Err e)
                     | (d, Ok lock_file) \<Rightarrow>
                         ((insert identity locked, d),
                          Ok (Some \<lparr>rl_identity = \<lparr>ri_canonical_path = canonical_path, ri_identity = identity\<rparr>,
                                    rl_root_directory = root_directory, rl_lock_file = lock_file\<rparr>)))))"

definition RootLock_drop :: "'d root_ops \<Rightarrow> root_lock \<Rightarrow> file_identity set \<times> 'd \<Rightarrow> file_identity set \<times> 'd" where
  "RootLock_drop R root s =
     (let (locked, d) = s in (locked - {ri_identity (rl_identity root)}, ro_unlock R (rl_lock_file root) d))"

section \<open>Exclusive roots\<close>

text \<open>A process that acquires roots, whatever the file system answers, and drops the locks it holds.\<close>

inductive root_reachable :: "'d root_ops \<Rightarrow> root_lock list \<Rightarrow> file_identity set \<times> 'd \<Rightarrow> bool" for R where
  start: "root_reachable R [] ({}, d)"
| acquired: "root_reachable R live s \<Longrightarrow> RootLock_acquire R path create s = (s', Ok (Some root)) \<Longrightarrow>
    root_reachable R (root # live) s'"
| refused: "root_reachable R live s \<Longrightarrow> RootLock_acquire R path create s = (s', r) \<Longrightarrow> \<forall>root. r \<noteq> Ok (Some root) \<Longrightarrow>
    root_reachable R live s'"
| dropped: "root_reachable R (live @ root # rest) s \<Longrightarrow> root_reachable R (live @ rest) (RootLock_drop R root s)"
| elsewhere: "root_reachable R live (locked, d) \<Longrightarrow> root_reachable R live (locked, d')"

abbreviation lock_identity :: "root_lock \<Rightarrow> file_identity" where
  "lock_identity root \<equiv> ri_identity (rl_identity root)"

lemma acquire_table:
  assumes "RootLock_acquire R path create s = (s', r)"
  shows "case r of Ok (Some root) \<Rightarrow> lock_identity root \<notin> fst s \<and> fst s' = insert (lock_identity root) (fst s)
    | _ \<Rightarrow> fst s' = fst s"
  using assms by (auto simp: RootLock_acquire_def split: result.splits option.splits prod.splits if_splits)

lemma root_reachable_table:
  assumes "root_reachable R live s"
  shows "fst s = lock_identity ` set live \<and> distinct (map lock_identity live)"
  using assms
proof (induction rule: root_reachable.induct)
  case (acquired live s path create s' root)
  then show ?case using acquire_table [OF acquired.hyps(2)] by auto
next
  case (refused live s path create s' r)
  then show ?case using acquire_table [OF refused.hyps(2)]
    by (auto split: result.splits option.splits)
next
  case (dropped live root rest s)
  then have "lock_identity root \<notin> lock_identity ` set live" "lock_identity root \<notin> lock_identity ` set rest" by auto
  then show ?case using dropped.IH by (auto simp: RootLock_drop_def image_iff split: prod.splits)
qed auto

section \<open>Properties\<close>

text \<open>
  C25: one lock per root. However the file system answers and whatever else happens to it, the roots a
  process holds locks on at the same time are different directories, by device and inode, under
  whatever paths they were opened; and an acquisition that succeeds never yields a directory
  that is already locked.
\<close>

theorem roots_are_exclusive:
  assumes "root_reachable R live s"
  shows "distinct (map lock_identity live)
    \<and> (\<forall>path create s' root. RootLock_acquire R path create s = (s', Ok (Some root)) \<longrightarrow>
         lock_identity root \<notin> lock_identity ` set live)"
proof -
  note T = root_reachable_table [OF assms]
  have "lock_identity root \<notin> lock_identity ` set live" if "RootLock_acquire R path create s = (s', Ok (Some root))" for path create s' root
    using acquire_table [OF that] T by simp
  then show ?thesis using T by blast
qed

section \<open>A directory in memory\<close>

text \<open>
  The root at \<open>/db\<close> with its lock and format files, the index directory and the directory of value
  log files of \<open>mem_disk\<close>. Every call may fail, as the fault function says.
\<close>

definition mem_node :: "u64 \<Rightarrow> string \<Rightarrow> mem_disk \<Rightarrow> (handle \<times> file_kind) option" where
  "mem_node format_len path d =
     (if path = ''/db'' then Some (0, KindDirectory)
      else if path = ''/db/LOCK'' then Some (1, KindFile)
      else if path = ''/db/FORMAT'' then Some (2, KindFile)
      else if path = ''/db/index'' then Some (3, KindDirectory)
      else if path = ''/db/vlog'' then Some (4, KindDirectory)
      else if take 9 path = ''/db/vlog/''
      then map_option (\<lambda>h. (h + 5, KindFile)) (dv_entry (mem_disk_view d) (drop 9 path))
      else None)"

definition mem_node_metadata :: "u64 \<Rightarrow> handle \<Rightarrow> mem_disk \<Rightarrow> root_metadata" where
  "mem_node_metadata format_len h d =
     \<lparr>rm_kind = (if h \<in> {0, 3, 4} then KindDirectory else KindFile),
      rm_len = (if h = 2 then format_len else if h < 5 then 0 else word_of_nat (length (mk_content d (h - 5)))),
      rm_identity = mem_ident h\<rparr>"

definition io_not_found :: io_error where
  "io_not_found = \<lparr>io_error_kind = IoNotFound, io_raw_os_error = Some 2\<rparr>"

definition mem_root :: "(nat \<Rightarrow> io_error option) \<Rightarrow> u64 \<Rightarrow> mem_disk root_ops" where
  "mem_root fault format_len =
     (let meta = (\<lambda>path. mem_call fault (\<lambda>d. (d, case mem_node format_len path d of
            Some (h, k) \<Rightarrow> Ok (mem_node_metadata format_len h d) | None \<Rightarrow> Err io_not_found)));
          opened = (\<lambda>path. mem_call fault (\<lambda>d. (d, case mem_node format_len path d of
            Some (h, k) \<Rightarrow> Ok h | None \<Rightarrow> Err io_not_found))) in
      \<lparr>ro_metadata = meta, ro_symlink_metadata = meta,
       ro_canonicalize = (\<lambda>path d. (d, Ok path)),
       ro_open = (\<lambda>path wr. opened path),
       ro_create_new = (\<lambda>path. mem_call fault (\<lambda>d. (d, Err io_other))),
       ro_handle_metadata = (\<lambda>h. mem_call fault (\<lambda>d. (d, Ok (mem_node_metadata format_len h d)))),
       ro_read_exact = (\<lambda>h n. mem_call fault (\<lambda>d.
         (d, if 5 \<le> h \<and> n \<le> length (mk_content d (h - 5)) then Ok (take n (mk_content d (h - 5))) else Err io_other))),
       ro_create_dir = (\<lambda>path. mem_call fault (\<lambda>d. (d, Err io_other))),
       ro_remove_dir = (\<lambda>path. mem_call fault (\<lambda>d. (d, Err io_other))),
       ro_remove_file = (\<lambda>path. mem_call fault (\<lambda>d. (d, Err io_other))),
       ro_rename = (\<lambda>old new. mem_call fault (\<lambda>d. (d, Err io_other))),
       ro_read_dir = (\<lambda>path. mem_call fault (\<lambda>d. (d,
         if path = ''/db/vlog''
         then Ok (map (\<lambda>(n, h). Ok \<lparr>de_name = Some n, de_file_type = Ok KindFile\<rparr>) (filter (\<lambda>(n, h). h < mk_next d) (mk_entries d)))
         else Err io_other))),
       ro_sync_directory = (\<lambda>h. mem_call fault (\<lambda>d. (d, Ok ()))),
       ro_flock = (\<lambda>h. mem_call fault (\<lambda>d. (d, Ok ()))),
       ro_unlock = (\<lambda>h d. d)\<rparr>)"

definition empty_disk :: mem_disk where
  "empty_disk = \<lparr>mk_clock = 0, mk_next = 0, mk_entries = [], mk_content = (\<lambda>_. []), mk_synced = (\<lambda>_. True), mk_synced_entry = (\<lambda>_. True)\<rparr>"

definition sample_root :: root_lock where
  "sample_root = \<lparr>rl_identity = \<lparr>ri_canonical_path = ''/db'', ri_identity = mem_ident 0\<rparr>, rl_root_directory = 0, rl_lock_file = 1\<rparr>"

lemmas acts_run = act_bind_def act_map_err_def act_return_def act_fail_def act_lift_def mem_call_def Let_def

lemma mem_node_root [simp]:
  "mem_node n ''/db'' d = Some (0, KindDirectory)" "mem_node n ''/db/LOCK'' d = Some (1, KindFile)"
  "mem_node n ''/db/FORMAT'' d = Some (2, KindFile)" "mem_node n ''/db/index'' d = Some (3, KindDirectory)"
  "mem_node n ''/db/vlog'' d = Some (4, KindDirectory)" "mem_node n ''/db/FORMAT.tmp'' d = None"
  by (simp_all add: mem_node_def)

lemma sample_acquire:
  "\<exists>d. RootLock_acquire (mem_root (\<lambda>_. None) n) ''/db'' False ({}, empty_disk) = (({mem_ident 0}, d), Ok (Some sample_root))"
  by (simp add: RootLock_acquire_def resolve_root_def open_root_directory_def open_directory_nofollow_def open_and_lock_file_def
      open_or_create_lock_file_def open_regular_nofollow_def mem_root_def acts_run mem_node_metadata_def sample_root_def
      path_join_def LOCK_FILE_NAME_def)

theorem roots_are_exclusive_witness:
  "\<exists>s. root_reachable (mem_root (\<lambda>_. None) 0) [sample_root] s
     \<and> (\<forall>path create s' root. RootLock_acquire (mem_root (\<lambda>_. None) 0) path create s = (s', Ok (Some root)) \<longrightarrow>
          lock_identity root \<noteq> mem_ident 0)"
proof -
  obtain d where a: "RootLock_acquire (mem_root (\<lambda>_. None) 0) ''/db'' False ({}, empty_disk) = (({mem_ident 0}, d), Ok (Some sample_root))"
    using sample_acquire by blast
  have "root_reachable (mem_root (\<lambda>_. None) 0) [sample_root] ({mem_ident 0}, d)"
    by (rule root_reachable.acquired [OF root_reachable.start a])
  from roots_are_exclusive [OF this] this show ?thesis by (auto simp: sample_root_def)
qed

end
