(* ===== verification/Topology.thy ===== *)
theory Topology
  imports RecoveryBase RootDir RootFormat
begin

text \<open>
  The managed files of a database and what recovery requires of them (\<open>src/recovery/topology.rs\<close>, and
  the inventory of \<open>src/db.rs\<close>): the inventory of the root directory, and the check that the files
  below the stable end of the log are all there, in full.
\<close>

section \<open>Errors\<close>

definition open_inventory_error :: "storage_error_kind \<Rightarrow> storage_error" where
  "open_inventory_error kind =
     codec_error kind Op_Open RecoveryStage None (if kind = IncompatibleFormat then DoNotRetry else RestoreOrRepair)"

definition topology_corruption_error :: storage_error where
  "topology_corruption_error = open_inventory_error Corruption"

definition open_header_decode_error :: "storage_error \<Rightarrow> storage_error" where
  "open_header_decode_error error = open_inventory_error (err_kind error)"

definition topology_resource_exhausted_error :: storage_error where
  "topology_resource_exhausted_error = codec_error ResourceExhausted Op_Open Preflight None RetrySameInstance"

section \<open>The inventory\<close>

record vlog_inventory_entry =
  ve_file_id :: u32
  ve_len :: u64
  ve_path :: string

record managed_inventory =
  mi_vlog_files :: "vlog_inventory_entry list"

definition FORMAT_FILE_NAME :: string where "FORMAT_FILE_NAME = ''FORMAT''"
definition FORMAT_TEMP_FILE_NAME :: string where "FORMAT_TEMP_FILE_NAME = ''FORMAT.tmp''"
definition INDEX_DIRECTORY_NAME :: string where "INDEX_DIRECTORY_NAME = ''index''"
definition VLOG_DIRECTORY_NAME :: string where "VLOG_DIRECTORY_NAME = ''vlog''"

definition VLOG_PREFIX_LEN :: usize where "VLOG_PREFIX_LEN = 1"
definition VLOG_DIGITS_LEN :: usize where "VLOG_DIGITS_LEN = 6"
definition VLOG_SUFFIX :: string where "VLOG_SUFFIX = ''.data''"

definition is_ascii_digit :: "char \<Rightarrow> bool" where
  "is_ascii_digit c \<longleftrightarrow> 48 \<le> (of_char c :: nat) \<and> (of_char c :: nat) \<le> 57"

definition parse_digits :: "string \<Rightarrow> nat" where
  "parse_digits ds = foldl (\<lambda>n c. n * 10 + ((of_char c :: nat) - 48)) 0 ds"

definition parse_u32 :: "string \<Rightarrow> u32 option" where
  "parse_u32 ds = u32_try_from (parse_digits ds)"

text \<open>A name that is not ASCII has no six digits in these places, whatever its length in bytes.\<close>

definition parse_vlog_file_name :: "string \<Rightarrow> u32 option" where
  "parse_vlog_file_name name =
     (let expected_len = VLOG_PREFIX_LEN + VLOG_DIGITS_LEN + length VLOG_SUFFIX in
      if length name \<noteq> expected_len \<or> take 1 name \<noteq> ''D'' \<or> drop (length name - length VLOG_SUFFIX) name \<noteq> VLOG_SUFFIX
      then None
      else
        let digits = take VLOG_DIGITS_LEN (drop VLOG_PREFIX_LEN name) in
        if \<not> list_all is_ascii_digit digits then None
        else
          case parse_u32 digits of
            None \<Rightarrow> None
          | Some file_id \<Rightarrow> if file_id \<le> MAX_VLOG_FILE_ID then Some file_id else None)"

definition require_regular :: "'d root_ops \<Rightarrow> root_lock \<Rightarrow> string \<Rightarrow> u64 option \<Rightarrow> ('d, unit, storage_error) act" where
  "require_regular R root name expected_len =
     act_bind (inspect_child R root name) (\<lambda>kind.
     case kind of
       RegularFile len \<Rightarrow>
         if (case expected_len of None \<Rightarrow> True | Some expected \<Rightarrow> expected = len) then act_return () else act_fail layout_error
     | _ \<Rightarrow> act_fail layout_error)"

definition require_directory :: "'d root_ops \<Rightarrow> root_lock \<Rightarrow> string \<Rightarrow> ('d, unit, storage_error) act" where
  "require_directory R root name =
     act_bind (inspect_child R root name) (\<lambda>kind. if kind = Directory then act_return () else act_fail layout_error)"

definition validate_file_identity ::
  "env \<Rightarrow> 'd root_ops \<Rightarrow> string \<Rightarrow> u32 \<Rightarrow> format_metadata \<Rightarrow> ('d, unit, storage_error) act" where
  "validate_file_identity E R path file_id format =
     act_bind (act_map_err open_io_error (open_regular_nofollow R path False)) (\<lambda>file.
     act_bind (act_map_err open_io_error
                (ro_read_exact R file (PAGE_HEADER_ENCODED_LEN + FILE_HEADER_ENCODED_LEN))) (\<lambda>encoded.
     act_bind (act_lift (map_err open_header_decode_error (PageHeader_decode E (take PAGE_HEADER_ENCODED_LEN encoded)))) (\<lambda>page_header.
     act_bind (act_lift (map_err open_header_decode_error (VLogFileHeader_decode E (drop PAGE_HEADER_ENCODED_LEN encoded)))) (\<lambda>file_header.
     if ph_file_id page_header \<noteq> file_id \<or> ph_page_no page_header \<noteq> 0 \<or> fh_file_id file_header \<noteq> file_id
        \<or> fh_database_uuid file_header \<noteq> fm_database_uuid format
        \<or> fh_format_version file_header \<noteq> fm_format_version format
        \<or> fh_page_size file_header \<noteq> fm_page_size format
        \<or> fh_max_file_size file_header \<noteq> MAX_VLOG_FILE_SIZE
     then act_fail topology_corruption_error else act_return ()))))"

definition inspect_vlog_entry ::
  "env \<Rightarrow> 'd root_ops \<Rightarrow> format_metadata \<Rightarrow> string \<Rightarrow> nat \<Rightarrow> (dir_entry, io_error) result \<Rightarrow>
   ('d, vlog_inventory_entry, storage_error) act" where
  "inspect_vlog_entry E R format vlog_path known entry =
     act_bind (act_lift (map_err open_io_error entry)) (\<lambda>entry.
     act_bind (act_lift (ok_or (de_name entry) layout_error)) (\<lambda>name.
     act_bind (act_lift (ok_or (parse_vlog_file_name name) layout_error)) (\<lambda>file_id.
     act_bind (act_lift (map_err open_io_error (de_file_type entry))) (\<lambda>file_type.
     if file_type \<noteq> KindFile then act_fail layout_error
     else
       let path = path_join vlog_path name in
       act_bind (act_map_err open_io_error (ro_symlink_metadata R path)) (\<lambda>metadata.
       if rm_kind metadata \<noteq> KindFile \<or> rm_len metadata > MAX_VLOG_FILE_SIZE then act_fail layout_error
       else
         act_bind (if unat (rm_len metadata) \<ge> PAGE_HEADER_ENCODED_LEN + FILE_HEADER_ENCODED_LEN
                   then validate_file_identity E R path file_id format else act_return ()) (\<lambda>_.
         act_bind (act_lift (try_reserve E ''Inventory'' (Suc known) topology_resource_exhausted_error)) (\<lambda>_.
           act_return \<lparr>ve_file_id = file_id, ve_len = rm_len metadata, ve_path = path\<rparr>)))))))"

fun inspect_vlog_entries ::
  "env \<Rightarrow> 'd root_ops \<Rightarrow> format_metadata \<Rightarrow> string \<Rightarrow> vlog_inventory_entry list \<Rightarrow> (dir_entry, io_error) result list \<Rightarrow>
   ('d, vlog_inventory_entry list, storage_error) act" where
  "inspect_vlog_entries E R format vlog_path files [] = act_return files"
| "inspect_vlog_entries E R format vlog_path files (entry # entries) =
     act_bind (inspect_vlog_entry E R format vlog_path (length files) entry) (\<lambda>file.
       inspect_vlog_entries E R format vlog_path (files @ [file]) entries)"

definition ManagedInventory_inspect ::
  "env \<Rightarrow> 'd root_ops \<Rightarrow> root_lock \<Rightarrow> format_metadata \<Rightarrow> ('d, managed_inventory, storage_error) act" where
  "ManagedInventory_inspect E R root format =
     act_bind (require_regular R root LOCK_FILE_NAME None) (\<lambda>_.
     act_bind (require_regular R root FORMAT_FILE_NAME (Some (word_of_nat FORMAT_ENCODED_LEN))) (\<lambda>_.
     act_bind (inspect_child R root FORMAT_TEMP_FILE_NAME) (\<lambda>temporary.
     if temporary \<noteq> Missing then act_fail layout_error
     else
       act_bind (require_directory R root INDEX_DIRECTORY_NAME) (\<lambda>_.
       act_bind (require_directory R root VLOG_DIRECTORY_NAME) (\<lambda>_.
       let vlog_path = path_join (ri_canonical_path (rl_identity root)) VLOG_DIRECTORY_NAME in
       act_bind (read_directory R root VLOG_DIRECTORY_NAME) (\<lambda>entries.
       act_bind (inspect_vlog_entries E R format vlog_path [] entries) (\<lambda>vlog_files.
         act_return \<lparr>mi_vlog_files = sort_key ve_file_id vlog_files\<rparr>)))))))"

section \<open>The topology\<close>

record recovery_topology =
  rt_physical_tail :: physical_tail
  rt_file_count :: usize

fun validate_order :: "vlog_geometry \<Rightarrow> u32 option \<Rightarrow> vlog_inventory_entry list \<Rightarrow> unit res" where
  "validate_order g previous [] = Ok ()"
| "validate_order g previous (entry # entries) =
     (if ve_file_id entry > max_file_id g \<or> ve_len entry > max_file_size g
         \<or> (case previous of Some file_id \<Rightarrow> file_id \<ge> ve_file_id entry | None \<Rightarrow> False)
      then Err topology_corruption_error
      else validate_order g (Some (ve_file_id entry)) entries)"

definition validate_inventory_order :: "managed_inventory \<Rightarrow> vlog_geometry \<Rightarrow> unit res" where
  "validate_inventory_order inventory g = validate_order g None (mi_vlog_files inventory)"

fun validate_files_below :: "vlog_geometry \<Rightarrow> vlog_position \<Rightarrow> u32 \<Rightarrow> vlog_inventory_entry list \<Rightarrow> unit res" where
  "validate_files_below g stable_end expected_file_id [] = Err topology_corruption_error"
| "validate_files_below g stable_end expected_file_id (entry # entries) =
     (if ve_file_id entry \<noteq> expected_file_id then Err topology_corruption_error
      else if ve_file_id entry < pos_file_id stable_end then
        if ve_len entry \<noteq> max_file_size g then Err topology_corruption_error
        else
          and_then (ok_or (checked_add expected_file_id 1) topology_corruption_error) (\<lambda>expected_file_id.
            validate_files_below g stable_end expected_file_id entries)
      else if ve_len entry < pos_offset stable_end then Err topology_corruption_error
      else Ok ())"

definition validate_stable_files :: "managed_inventory \<Rightarrow> durable_vlog_end \<Rightarrow> vlog_geometry \<Rightarrow> unit res" where
  "validate_stable_files inventory stable_end g =
     (case stable_end of
        EmptyEnd \<Rightarrow> Ok ()
      | PositionEnd stable_end \<Rightarrow>
          if pos_file_id stable_end > max_file_id g \<or> pos_offset stable_end > max_file_size g
          then Err topology_corruption_error
          else validate_files_below g stable_end 0
                 (takeWhile (\<lambda>entry. ve_file_id entry \<le> pos_file_id stable_end) (mi_vlog_files inventory)))"

definition analyze_with_geometry :: "managed_inventory \<Rightarrow> durable_vlog_end \<Rightarrow> vlog_geometry \<Rightarrow> recovery_topology res" where
  "analyze_with_geometry inventory stable_end g =
     and_then (validate_inventory_order inventory g) (\<lambda>_.
     and_then (validate_stable_files inventory stable_end g) (\<lambda>_.
       Ok \<lparr>rt_physical_tail =
             (if mi_vlog_files inventory = [] then EmptyTail
              else let entry = last (mi_vlog_files inventory) in PositionTail (VLogPosition (ve_file_id entry) (ve_len entry))),
           rt_file_count = length (mi_vlog_files inventory)\<rparr>))"

definition RecoveryTopology_analyze :: "managed_inventory \<Rightarrow> durable_vlog_end \<Rightarrow> recovery_topology res" where
  "RecoveryTopology_analyze inventory stable_end = analyze_with_geometry inventory stable_end PRODUCTION"

text \<open>The inventory is sorted by file id, so that a binary search in it finds the entry if there is one.\<close>

definition contains_end :: "managed_inventory \<Rightarrow> durable_vlog_end \<Rightarrow> bool" where
  "contains_end inventory stop =
     (case stop of
        EmptyEnd \<Rightarrow> True
      | PositionEnd position \<Rightarrow>
          (case find (\<lambda>entry. ve_file_id entry = pos_file_id position) (mi_vlog_files inventory) of
             Some entry \<Rightarrow> ve_len entry \<ge> pos_offset position
           | None \<Rightarrow> False))"

definition has_suffix_after :: "managed_inventory \<Rightarrow> durable_vlog_end \<Rightarrow> bool" where
  "has_suffix_after inventory accepted_end =
     (case accepted_end of
        EmptyEnd \<Rightarrow> mi_vlog_files inventory \<noteq> []
      | PositionEnd position \<Rightarrow>
          list_ex (\<lambda>entry. ve_file_id entry > pos_file_id position
            \<or> ve_file_id entry = pos_file_id position \<and> ve_len entry > pos_offset position) (mi_vlog_files inventory))"

definition physical_tail_matches :: "recovery_topology \<Rightarrow> durable_vlog_end \<Rightarrow> bool" where
  "physical_tail_matches topology stop =
     (case (rt_physical_tail topology, stop) of
        (EmptyTail, EmptyEnd) \<Rightarrow> True
      | (PositionTail actual, PositionEnd expected) \<Rightarrow> actual = expected
      | _ \<Rightarrow> False)"

section \<open>File names\<close>

lemma of_char_digit: "x < 10 \<Longrightarrow> (of_char (char_of (48 + x) :: char) :: nat) = 48 + x"
  by (simp add: of_char_of)

lemma digit_of_char: "is_ascii_digit c \<Longrightarrow> char_of (48 + ((of_char c :: nat) - 48)) = c \<and> (of_char c :: nat) - 48 < 10"
  by (auto simp: is_ascii_digit_def)

lemma six: "length ds = 6 \<Longrightarrow> \<exists>a b c d e f. ds = [a, b, c, d, e, f]"
  by (simp add: eval_nat_numeral length_Suc_conv) metis

lemma horner: "n div (p * 10) * 10 + n div p mod 10 = n div (p :: nat)"
proof -
  have "n div (p * 10) = n div p div 10" by (rule div_mult2_eq)
  then show ?thesis using div_mult_mod_eq [of "n div p" 10] by simp
qed

lemma parse_decimal:
  assumes "n < 10 ^ 6"
  shows "parse_digits (decimal_06 n) = n" and "list_all is_ascii_digit (decimal_06 n)"
proof -
  have d: "(of_char (char_of (48 + n div p mod 10) :: char) :: nat) = 48 + n div p mod 10" for p
    by (rule of_char_digit) simp
  have top: "n div 100000 mod 10 = n div 100000" using assms by simp
  have "n div 100000 * 10 + n div 10000 mod 10 = n div 10000" "n div 10000 * 10 + n div 1000 mod 10 = n div 1000"
    "n div 1000 * 10 + n div 100 mod 10 = n div 100" "n div 100 * 10 + n div 10 mod 10 = n div 10"
    "n div 10 * 10 + n mod 10 = n"
    using horner [of n 10000] horner [of n 1000] horner [of n 100] horner [of n 10] horner [of n 1] by simp_all
  note h = this
  have v: "(of_char (char_of (48 + n div 10 ^ i mod 10) :: char) :: nat) - 48 = n div 10 ^ i mod 10" for i
    unfolding d by simp
  have "parse_digits (decimal_06 n) = ((((n div 10 ^ 5 mod 10 * 10 + n div 10 ^ 4 mod 10) * 10 + n div 10 ^ 3 mod 10) * 10
      + n div 10 ^ 2 mod 10) * 10 + n div 10 ^ 1 mod 10) * 10 + n div 10 ^ 0 mod 10"
    unfolding parse_digits_def decimal_06_def list.map foldl_Cons foldl_Nil v by simp
  then show "parse_digits (decimal_06 n) = n" using h top by simp
  have "is_ascii_digit (char_of (48 + n div p mod 10))" for p
    unfolding is_ascii_digit_def d using mod_less_divisor [of 10 "n div p"] by linarith
  then show "list_all is_ascii_digit (decimal_06 n)" unfolding decimal_06_def list_all_iff set_map by blast
qed

lemma decimal_parse:
  assumes "length ds = 6" and "list_all is_ascii_digit ds"
  shows "decimal_06 (parse_digits ds) = ds" and "parse_digits ds < 10 ^ 6"
proof -
  obtain a b c d e f where ds: "ds = [a, b, c, d, e, f]" using assms(1) six by blast
  define v where "v x = (of_char x :: nat) - 48" for x :: char
  have v: "v x < 10" "char_of (48 + v x) = x" if "x \<in> set ds" for x
    using assms(2) digit_of_char [of x] that by (auto simp: v_def list_all_iff)
  have n: "parse_digits ds = ((((v a * 10 + v b) * 10 + v c) * 10 + v d) * 10 + v e) * 10 + v f"
    by (simp add: parse_digits_def ds v_def)
  have m: "(k * 10 + v x) mod 10 = v x" "(k * 10 + v x) div 10 = k" if "x \<in> set ds" for k x
    using v(1) [OF that] by auto
  have s: "k div 10 ^ 2 = k div 10 div 10" "k div 10 ^ 3 = k div 10 div 10 div 10" "k div 10 ^ 4 = k div 10 div 10 div 10 div 10"
    "k div 10 ^ 5 = k div 10 div 10 div 10 div 10 div 10" for k :: nat by (simp_all add: div_mult2_eq [symmetric])
  have in_ds: "a \<in> set ds" "b \<in> set ds" "c \<in> set ds" "d \<in> set ds" "e \<in> set ds" "f \<in> set ds" by (simp_all add: ds)
  let ?x1 = "v a * 10 + v b"
  let ?x2 = "?x1 * 10 + v c"
  let ?x3 = "?x2 * 10 + v d"
  let ?x4 = "?x3 * 10 + v e"
  have "parse_digits ds div 10 ^ 5 mod 10 = v a" "parse_digits ds div 10 ^ 4 mod 10 = v b" "parse_digits ds div 10 ^ 3 mod 10 = v c"
    "parse_digits ds div 10 ^ 2 mod 10 = v d" "parse_digits ds div 10 ^ 1 mod 10 = v e" "parse_digits ds div 10 ^ 0 mod 10 = v f"
  proof -
    have p: "parse_digits ds div 10 = ?x4" "?x4 div 10 = ?x3" "?x3 div 10 = ?x2" "?x2 div 10 = ?x1" "?x1 div 10 = v a"
      unfolding n by (rule m(2) [OF in_ds(6)] m(2) [OF in_ds(5)] m(2) [OF in_ds(4)] m(2) [OF in_ds(3)] m(2) [OF in_ds(2)])+
    have q: "parse_digits ds div 10 ^ 2 = ?x3" "parse_digits ds div 10 ^ 3 = ?x2" "parse_digits ds div 10 ^ 4 = ?x1"
      "parse_digits ds div 10 ^ 5 = v a" unfolding s p by (rule refl)+
    show "parse_digits ds div 10 ^ 5 mod 10 = v a" unfolding q by (rule mod_less [OF v(1) [OF in_ds(1)]])
    show "parse_digits ds div 10 ^ 4 mod 10 = v b" unfolding q by (rule m(1) [OF in_ds(2)])
    show "parse_digits ds div 10 ^ 3 mod 10 = v c" unfolding q by (rule m(1) [OF in_ds(3)])
    show "parse_digits ds div 10 ^ 2 mod 10 = v d" unfolding q by (rule m(1) [OF in_ds(4)])
    show "parse_digits ds div 10 ^ 1 mod 10 = v e" unfolding power_one_right p by (rule m(1) [OF in_ds(5)])
    show "parse_digits ds div 10 ^ 0 mod 10 = v f" unfolding power_0 div_by_1 n by (rule m(1) [OF in_ds(6)])
  qed
  then show "decimal_06 (parse_digits ds) = ds"
    unfolding decimal_06_def list.map using v(2) in_ds by (simp only: ds)
  show "parse_digits ds < 10 ^ 6"
    unfolding n using v(1) [OF in_ds(1)] v(1) [OF in_ds(2)] v(1) [OF in_ds(3)] v(1) [OF in_ds(4)] v(1) [OF in_ds(5)] v(1) [OF in_ds(6)]
    by simp
qed

lemma vlog_name_parts: "vlog_name f = CHR ''D'' # decimal_06 (unat f) @ ''.data''" "length (decimal_06 n) = 6"
  by (simp_all add: vlog_name_def decimal_06_def)

lemma file_id_small: "f \<le> MAX_VLOG_FILE_ID \<Longrightarrow> unat f < 10 ^ 6"
  by (simp add: MAX_VLOG_FILE_ID_def word_le_nat_alt)

lemma parse_vlog_name:
  assumes "f \<le> MAX_VLOG_FILE_ID"
  shows "parse_vlog_file_name (vlog_name f) = Some f"
proof -
  have p: "parse_digits (decimal_06 (unat f)) = unat f" "list_all is_ascii_digit (decimal_06 (unat f))"
    using parse_decimal [OF file_id_small [OF assms]] by blast+
  have "u32_try_from (unat f) = Some f" using unat_less_2p [of f] by (simp add: u32_try_from_def)
  then show ?thesis using p assms
    by (simp add: parse_vlog_file_name_def vlog_name_parts VLOG_PREFIX_LEN_def VLOG_DIGITS_LEN_def VLOG_SUFFIX_def parse_u32_def Let_def)
qed

lemma parse_vlog_name_Some:
  assumes "parse_vlog_file_name name = Some f"
  shows "f \<le> MAX_VLOG_FILE_ID \<and> name = vlog_name f"
proof -
  let ?ds = "take 6 (drop 1 name)"
  have n: "length name = 12" "take 1 name = ''D''" "drop 7 name = ''.data''" "list_all is_ascii_digit ?ds"
    and f: "u32_try_from (parse_digits ?ds) = Some f" "f \<le> MAX_VLOG_FILE_ID"
    using assms by (auto simp: parse_vlog_file_name_def VLOG_PREFIX_LEN_def VLOG_DIGITS_LEN_def VLOG_SUFFIX_def parse_u32_def Let_def
        split: if_splits option.splits)
  have "parse_digits ?ds = unat f" using f(1) by (auto simp: u32_try_from_Some)
  then have "decimal_06 (unat f) = ?ds" using decimal_parse(1) [of ?ds] n(1,4) by simp
  moreover have "name = take 1 name @ ?ds @ drop 7 name"
  proof -
    have "name = take 1 name @ drop 1 name" by simp
    also have "drop 1 name = ?ds @ drop 6 (drop 1 name)" by (rule append_take_drop_id [symmetric])
    finally show ?thesis by simp
  qed
  ultimately show ?thesis using n f(2) by (simp add: vlog_name_parts)
qed

section \<open>What a topology says\<close>

definition files_ordered :: "vlog_geometry \<Rightarrow> vlog_inventory_entry list \<Rightarrow> bool" where
  "files_ordered g es \<longleftrightarrow> sorted_wrt (<) (map ve_file_id es)
     \<and> (\<forall>e \<in> set es. ve_file_id e \<le> max_file_id g \<and> ve_len e \<le> max_file_size g)"

text \<open>The stable part of the log: every file below the last one is there in full, and the last one reaches the end.\<close>

definition stable_files :: "vlog_geometry \<Rightarrow> vlog_position \<Rightarrow> vlog_inventory_entry list \<Rightarrow> bool" where
  "stable_files g p es \<longleftrightarrow> pos_file_id p \<le> max_file_id g \<and> pos_offset p \<le> max_file_size g
     \<and> (\<forall>f < pos_file_id p. \<exists>e \<in> set es. ve_file_id e = f \<and> ve_len e = max_file_size g)
     \<and> (\<exists>e \<in> set es. ve_file_id e = pos_file_id p \<and> pos_offset p \<le> ve_len e)"

lemma validate_order_Ok:
  "validate_order g previous es = Ok () \<longleftrightarrow> files_ordered g es
     \<and> (\<forall>f e. previous = Some f \<and> e \<in> set es \<longrightarrow> f < ve_file_id e)"
proof (induction es arbitrary: previous)
  case (Cons e es)
  then show ?case by (auto simp: files_ordered_def split: option.splits)
qed (simp add: files_ordered_def)

lemma ordered_lookup:
  assumes "files_ordered g es" and "e \<in> set es" and "e' \<in> set es" and "ve_file_id e = ve_file_id e'"
  shows "e = e'"
  using assms unfolding files_ordered_def strict_sorted_iff by (metis distinct_map inj_onD)

lemma validate_below_Ok:
  assumes "files_ordered g es" and "\<forall>e \<in> set es. n \<le> ve_file_id e"
  shows "validate_files_below g p n (takeWhile (\<lambda>e. ve_file_id e \<le> pos_file_id p) es) = Ok () \<longleftrightarrow> n \<le> pos_file_id p
    \<and> (\<forall>f. n \<le> f \<and> f < pos_file_id p \<longrightarrow> (\<exists>e \<in> set es. ve_file_id e = f \<and> ve_len e = max_file_size g))
    \<and> (\<exists>e \<in> set es. ve_file_id e = pos_file_id p \<and> pos_offset p \<le> ve_len e)"
  using assms
proof (induction es arbitrary: n)
  case (Cons e es)
  let ?f = "ve_file_id e"
  have o: "files_ordered g es" "\<forall>e' \<in> set es. ?f < ve_file_id e'" using Cons.prems(1) by (auto simp: files_ordered_def)
  have n: "n \<le> ?f" using Cons.prems(2) by simp
  show ?case
  proof (cases "?f < pos_file_id p")
    case True
    have a: "checked_add ?f 1 = Some (?f + 1)" "\<And>x. ?f < x \<longleftrightarrow> ?f + 1 \<le> x"
      using True unat_less_2p [of "pos_file_id p"]
      by (auto simp: checked_add_Some word_less_nat_alt word_le_nat_alt unat_word_ariths)
    have rest: "validate_files_below g p (?f + 1) (takeWhile (\<lambda>e. ve_file_id e \<le> pos_file_id p) es) = Ok () \<longleftrightarrow> ?f + 1 \<le> pos_file_id p
        \<and> (\<forall>f. ?f + 1 \<le> f \<and> f < pos_file_id p \<longrightarrow> (\<exists>e \<in> set es. ve_file_id e = f \<and> ve_len e = max_file_size g))
        \<and> (\<exists>e \<in> set es. ve_file_id e = pos_file_id p \<and> pos_offset p \<le> ve_len e)"
      using o(2) a(2) by (intro Cons.IH [OF o(1)]) auto
    show ?thesis
    proof (cases "?f = n")
      case f: True
      have "validate_files_below g p n (takeWhile (\<lambda>e. ve_file_id e \<le> pos_file_id p) (e # es)) = Ok () \<longleftrightarrow>
          ve_len e = max_file_size g \<and> validate_files_below g p (?f + 1) (takeWhile (\<lambda>e. ve_file_id e \<le> pos_file_id p) es) = Ok ()"
        using True f a(1) by (auto simp: less_imp_le)
      also have "\<dots> \<longleftrightarrow> ve_len e = max_file_size g \<and> ?f + 1 \<le> pos_file_id p
        \<and> (\<forall>f. ?f + 1 \<le> f \<and> f < pos_file_id p \<longrightarrow> (\<exists>e \<in> set es. ve_file_id e = f \<and> ve_len e = max_file_size g))
        \<and> (\<exists>e \<in> set es. ve_file_id e = pos_file_id p \<and> pos_offset p \<le> ve_len e)" unfolding rest ..
      also have "\<dots> \<longleftrightarrow> n \<le> pos_file_id p
        \<and> (\<forall>f. n \<le> f \<and> f < pos_file_id p \<longrightarrow> (\<exists>e \<in> set (e # es). ve_file_id e = f \<and> ve_len e = max_file_size g))
        \<and> (\<exists>e \<in> set (e # es). ve_file_id e = pos_file_id p \<and> pos_offset p \<le> ve_len e)"
      proof -
        have A: "(\<exists>e' \<in> set (e # es). ve_file_id e' = ?f \<and> ve_len e' = max_file_size g) \<longleftrightarrow> ve_len e = max_file_size g"
          using o(2) by auto
        have B: "(\<exists>e' \<in> set (e # es). ve_file_id e' = f \<and> Q e') \<longleftrightarrow> (\<exists>e' \<in> set es. ve_file_id e' = f \<and> Q e')" if "?f < f" for f Q
          using that by auto
        have C: "(\<forall>f. ?f \<le> f \<and> f < pos_file_id p \<longrightarrow> X f) \<longleftrightarrow> X ?f \<and> (\<forall>f. ?f < f \<and> f < pos_file_id p \<longrightarrow> X f)" for X
          using True unfolding order_le_less by blast
        have D: "(\<forall>f. ?f < f \<and> f < pos_file_id p \<longrightarrow> (\<exists>e \<in> set (e # es). ve_file_id e = f \<and> ve_len e = max_file_size g))
          \<longleftrightarrow> (\<forall>f. ?f < f \<and> f < pos_file_id p \<longrightarrow> (\<exists>e \<in> set es. ve_file_id e = f \<and> ve_len e = max_file_size g))"
          by (intro all_cong1 imp_cong [OF refl] B) blast
        show ?thesis unfolding f [symmetric] C A D B [OF True] a(2) [symmetric] using True by (simp add: less_imp_le)
      qed
      finally show ?thesis .
    next
      case False
      then have "n < ?f" using n by simp
      then have "\<not> (\<exists>e \<in> set (e # es). ve_file_id e = n)" using o(2) by auto
      then show ?thesis using True False \<open>n < ?f\<close> by (auto simp: less_imp_le)
    qed
  next
    case ge: False
    have last: "e' \<in> set es \<Longrightarrow> ve_file_id e' \<noteq> pos_file_id p" for e' using o(2) ge by force
    show ?thesis
    proof (cases "?f = pos_file_id p")
      case True
      then show ?thesis using n last o(2) by (auto simp: order_le_less) (metis order_less_asym)+
    next
      case False
      then show ?thesis using ge last by (auto simp: not_less)
    qed
  qed
qed simp

definition stable_log :: "vlog_geometry \<Rightarrow> durable_vlog_end \<Rightarrow> vlog_inventory_entry list \<Rightarrow> bool" where
  "stable_log g stop es \<longleftrightarrow> (case stop of EmptyEnd \<Rightarrow> True | PositionEnd p \<Rightarrow> stable_files g p es)"

lemma validate_stable_Ok:
  assumes "files_ordered g (mi_vlog_files inventory)"
  shows "validate_stable_files inventory stop g = Ok () \<longleftrightarrow> stable_log g stop (mi_vlog_files inventory)"
  using validate_below_Ok [OF assms, of 0]
  by (auto simp: validate_stable_files_def stable_log_def stable_files_def not_less split: durable_vlog_end.splits)

lemma analyze_Ok:
  "analyze_with_geometry inventory stop g = Ok topology \<longleftrightarrow>
     files_ordered g (mi_vlog_files inventory) \<and> stable_log g stop (mi_vlog_files inventory)
     \<and> topology = \<lparr>rt_physical_tail = (if mi_vlog_files inventory = [] then EmptyTail
         else PositionTail (VLogPosition (ve_file_id (last (mi_vlog_files inventory))) (ve_len (last (mi_vlog_files inventory))))),
       rt_file_count = length (mi_vlog_files inventory)\<rparr>"
  using validate_order_Ok [of g None "mi_vlog_files inventory"] validate_stable_Ok [of g inventory stop]
  by (auto simp: analyze_with_geometry_def validate_inventory_order_def result_simps Let_def)

lemma ordered_last:
  assumes "files_ordered g es" and "e \<in> set es"
  shows "ve_file_id e < ve_file_id (last es) \<or> e = last es"
proof -
  have "es \<noteq> []" using assms(2) by auto
  then have es: "es = butlast es @ [last es]" by simp
  have "sorted_wrt (<) (map ve_file_id (butlast es @ [last es]))" using assms(1) es by (simp add: files_ordered_def)
  then have "\<forall>x \<in> set (butlast es). ve_file_id x < ve_file_id (last es)" by (simp add: sorted_wrt_append)
  moreover have "e \<in> set (butlast es) \<or> e = last es" using assms(2) es by (metis in_set_conv_decomp_last rotate1.simps(2) set_ConsD set_rotate1)
  ultimately show ?thesis by blast
qed

lemma tail_or_suffix:
  assumes "analyze_with_geometry inventory stop g = Ok topology"
  shows "contains_end inventory stop" and "physical_tail_matches topology stop \<longleftrightarrow> \<not> has_suffix_after inventory stop"
proof -
  let ?es = "mi_vlog_files inventory"
  have o: "files_ordered g ?es" "stable_log g stop ?es" and t: "rt_physical_tail topology = (if ?es = [] then EmptyTail
         else PositionTail (VLogPosition (ve_file_id (last ?es)) (ve_len (last ?es))))"
    using assms by (auto simp: analyze_Ok)
  have "contains_end inventory stop \<and> (physical_tail_matches topology stop \<longleftrightarrow> \<not> has_suffix_after inventory stop)"
  proof (cases stop)
    case EmptyEnd
    then show ?thesis using t by (simp add: contains_end_def physical_tail_matches_def has_suffix_after_def)
  next
    case (PositionEnd p)
    obtain e where e: "e \<in> set ?es" "ve_file_id e = pos_file_id p" "pos_offset p \<le> ve_len e"
      using o(2) PositionEnd by (auto simp: stable_log_def stable_files_def)
    have "find (\<lambda>entry. ve_file_id entry = pos_file_id p) ?es = Some e"
    proof (cases "find (\<lambda>entry. ve_file_id entry = pos_file_id p) ?es")
      case None
      then show ?thesis using e by (auto simp: find_None_iff)
    next
      case (Some e')
      then show ?thesis using ordered_lookup [OF o(1)] e by (auto simp: find_Some_iff)
    qed
    then have c: "contains_end inventory stop" using e(3) PositionEnd by (simp add: contains_end_def)
    have ne: "?es \<noteq> []" using e(1) by auto
    have s: "has_suffix_after inventory stop \<longleftrightarrow> (\<exists>e \<in> set ?es. ve_file_id e > pos_file_id p \<or> ve_file_id e = pos_file_id p \<and> ve_len e > pos_offset p)"
      by (auto simp: has_suffix_after_def PositionEnd list_ex_iff)
    have m: "physical_tail_matches topology stop \<longleftrightarrow> ve_file_id (last ?es) = pos_file_id p \<and> ve_len (last ?es) = pos_offset p"
      using t ne by (cases p) (auto simp: physical_tail_matches_def PositionEnd)
    show ?thesis
    proof (cases "e = last ?es")
      case True
      have "\<not> ve_file_id e' > pos_file_id p \<and> (ve_file_id e' = pos_file_id p \<longrightarrow> e' = e)" if "e' \<in> set ?es" for e'
        using ordered_last [OF o(1) that] ordered_lookup [OF o(1) that e(1)] e(2) True by auto
      then have "has_suffix_after inventory stop \<longleftrightarrow> ve_len e > pos_offset p" unfolding s using e(1,2) by blast
      moreover have "physical_tail_matches topology stop \<longleftrightarrow> ve_len e = pos_offset p" unfolding m using True e(2) by simp
      ultimately show ?thesis using c e(3) by auto
    next
      case False
      then have "pos_file_id p < ve_file_id (last ?es)" using ordered_last [OF o(1) e(1)] e(2) by auto
      then show ?thesis using c s m ne by (metis last_in_set order_less_irrefl)
    qed
  qed
  then show "contains_end inventory stop" "physical_tail_matches topology stop \<longleftrightarrow> \<not> has_suffix_after inventory stop" by blast+
qed

section \<open>Properties\<close>

text \<open>
  Names of log files. A name is accepted for a file id exactly when it is the name the writer
  gives that file, so that the inventory and the writer agree on every file of the directory.
\<close>

theorem file_names_agree:
  "parse_vlog_file_name name = Some file_id \<longleftrightarrow> file_id \<le> MAX_VLOG_FILE_ID \<and> name = vlog_name file_id"
  using parse_vlog_name parse_vlog_name_Some by blast

text \<open>
  C24: the topology of the log. An inventory is accepted for a stable end exactly when its files are in
  strictly ascending order within the limits of the geometry, every file before the one the end
  lies in is there at full length, and that one reaches the end. An accepted inventory
  contains the end, and its last file stops exactly there unless something lies behind it.
\<close>

theorem topology_is_exact:
  "(is_ok (analyze_with_geometry inventory stop g) \<longleftrightarrow>
      files_ordered g (mi_vlog_files inventory) \<and> stable_log g stop (mi_vlog_files inventory))
   \<and> (case analyze_with_geometry inventory stop g of Err _ \<Rightarrow> True
      | Ok topology \<Rightarrow> contains_end inventory stop
          \<and> (physical_tail_matches topology stop \<longleftrightarrow> \<not> has_suffix_after inventory stop))"
proof (cases "analyze_with_geometry inventory stop g")
  case (Ok topology)
  have "files_ordered g (mi_vlog_files inventory) \<and> stable_log g stop (mi_vlog_files inventory)" using Ok by (simp add: analyze_Ok)
  then show ?thesis unfolding Ok using tail_or_suffix [OF Ok] by (simp add: is_ok_iff)
next
  case (Err e)
  then show ?thesis using analyze_Ok [of inventory stop g] by (auto simp: is_ok_iff)
qed

end
