(* ===== verification/RecoveryAnalysis.thy ===== *)
theory RecoveryAnalysis
  imports Topology Undo ReaderLog
begin

text \<open>
  The analysis that opening a database starts with (\<open>src/recovery/mod.rs\<close>): read the durable frontier,
  the head and a recovery left unfinished, check the stable end of the log, load the descriptors
  above the frontier, and decide how far the published transactions can be accepted. Reading the
  log changes nothing but the cache of open files; the index is only read. The geometry is the
  one of the build, or one a test chooses.
\<close>

section \<open>The boundary\<close>

definition validate_stable_boundary ::
  "env \<Rightarrow> 'd os_ops \<Rightarrow> vlog_reader \<Rightarrow> durable_frontier \<Rightarrow> ('d, unit) log_act" where
  "validate_stable_boundary E K R frontier =
     (case df_durable_vlog_end frontier of
        EmptyEnd \<Rightarrow> if df_durable_vlog_seq frontier \<noteq> 0 then act_fail recovery_corruption else act_return ()
      | PositionEnd stop \<Rightarrow>
          if df_durable_vlog_seq frontier = 0 then act_fail recovery_corruption
          else
            act_bind (act_map_err recovery_context (read_stable_envelope_from_end E K R stop)) (\<lambda>envelope.
            if se_commit_seq (re_scanned envelope) \<noteq> df_durable_vlog_seq frontier \<or> se_vlog_end (re_scanned envelope) \<noteq> stop
            then act_fail recovery_corruption else act_return ()))"

fun envelope_state_matches :: "envelope_value_state \<Rightarrow> value_state \<Rightarrow> bool" where
  "envelope_state_matches EnvelopeAbsent Absent = True"
| "envelope_state_matches (EnvelopePresent actual) (Present expected) = (actual = expected)"
| "envelope_state_matches _ _ = False"

definition validate_envelope_against_descriptor :: "recovery_envelope \<Rightarrow> transaction_descriptor \<Rightarrow> unit res" where
  "validate_envelope_against_descriptor envelope descriptor =
     (let scanned = re_scanned envelope; meta = td_meta descriptor in
      if se_commit_seq scanned \<noteq> tm_commit_seq meta \<or> se_tx_uuid scanned \<noteq> tm_tx_uuid meta
         \<or> se_vlog_begin scanned \<noteq> tm_vlog_begin meta \<or> se_vlog_end scanned \<noteq> tm_vlog_end meta
         \<or> se_logical_op_count scanned \<noteq> tm_logical_op_count meta
         \<or> se_distinct_key_count scanned \<noteq> tm_distinct_key_count meta
         \<or> se_envelope_crc32c scanned \<noteq> tm_envelope_crc32c meta
         \<or> length (re_final_states envelope) \<noteq> length (td_mutations descriptor)
      then Err recovery_corruption
      else if list_all (\<lambda>(actual, expected). fs_user_key actual = mu_user_key expected
                \<and> envelope_state_matches (fs_state actual) (mu_after_state expected))
                (zip (re_final_states envelope) (td_mutations descriptor))
      then Ok () else Err recovery_corruption)"

definition read_and_validate_envelope ::
  "env \<Rightarrow> 'd os_ops \<Rightarrow> vlog_reader \<Rightarrow> transaction_descriptor \<Rightarrow> ('d, unit) log_act" where
  "read_and_validate_envelope E K R descriptor =
     (let meta = td_meta descriptor in
      if tm_transaction_kind meta \<noteq> VLogEnvelope then act_fail recovery_corruption
      else
        act_bind (read_recovery_envelope E K R (tm_vlog_begin meta) (tm_vlog_end meta) (Some (tm_envelope_crc32c meta))) (\<lambda>envelope.
          act_lift (validate_envelope_against_descriptor envelope descriptor)))"

definition is_rejectable_envelope_error :: "storage_error_kind \<Rightarrow> bool" where
  "is_rejectable_envelope_error kind \<longleftrightarrow> kind \<in> {Corruption, InvalidLayout, IncompatibleFormat}"

section \<open>The descriptors above the frontier\<close>

definition owned_tx_sequence_prefix :: "env \<Rightarrow> u64 \<Rightarrow> bytes res" where
  "owned_tx_sequence_prefix E commit_seq =
     and_then (map_err recovery_context (encode_tx_meta_key commit_seq)) (\<lambda>encoded.
     and_then (ok_or (slice_get encoded 0 10) recovery_corruption) (\<lambda>prefix.
     and_then (try_reserve E ''SequencePrefix'' (length prefix) recovery_resource) (\<lambda>_. Ok prefix)))"

definition unstable_descriptor_range :: "env \<Rightarrow> u64 \<Rightarrow> u64 \<Rightarrow> internal_key_range option res" where
  "unstable_descriptor_range E durable_seq head_seq =
     (if durable_seq > head_seq then Err recovery_corruption
      else if durable_seq = - 1 then Ok None
      else
        and_then (ok_or (checked_add durable_seq 1) recovery_corruption) (\<lambda>start_seq.
        and_then (owned_tx_sequence_prefix E start_seq) (\<lambda>start.
          Ok (Some \<lparr>ir_start_inclusive = Some start, ir_end_exclusive = None\<rparr>))))"

definition decode_descriptor_key :: "bytes \<Rightarrow> (u64 \<times> bool) res" where
  "decode_descriptor_key key =
     (if length key = 11 then map_err recovery_context (map_ok (\<lambda>commit_seq. (commit_seq, True)) (decode_tx_meta_key key))
      else if length key = 19
      then map_err recovery_context (map_ok (\<lambda>(commit_seq, _). (commit_seq, False)) (decode_tx_mutation_key key))
      else Err recovery_corruption)"

record encoded_descriptor_group =
  dg_meta :: "index_entry option"
  dg_mutations :: "index_entry list"

definition empty_group :: encoded_descriptor_group where
  "empty_group = \<lparr>dg_meta = None, dg_mutations = []\<rparr>"

definition add_to_group :: "env \<Rightarrow> bool \<Rightarrow> index_entry \<Rightarrow> encoded_descriptor_group \<Rightarrow> encoded_descriptor_group res" where
  "add_to_group E is_meta entry gr =
     (if is_meta then (if dg_meta gr \<noteq> None then Err recovery_corruption else Ok (gr\<lparr>dg_meta := Some entry\<rparr>))
      else
        and_then (try_reserve E ''GroupMutation'' (Suc (length (dg_mutations gr))) recovery_resource) (\<lambda>_.
          Ok (gr\<lparr>dg_mutations := dg_mutations gr @ [entry]\<rparr>)))"

fun collect_groups ::
  "env \<Rightarrow> u64 \<Rightarrow> u64 \<Rightarrow> encoded_descriptor_group list \<Rightarrow> index_entry res list \<Rightarrow> encoded_descriptor_group list res" where
  "collect_groups E durable_seq head_seq groups [] = Ok groups"
| "collect_groups E durable_seq head_seq groups (entry # entries) =
     and_then (map_err recovery_context entry) (\<lambda>entry.
     and_then (decode_descriptor_key (en_key entry)) (\<lambda>(commit_seq, is_meta).
       if commit_seq > head_seq then Err recovery_corruption
       else if commit_seq \<le> durable_seq then collect_groups E durable_seq head_seq groups entries
       else
         and_then (ok_or (checked_sub commit_seq durable_seq) recovery_corruption) (\<lambda>n.
         and_then (ok_or (checked_sub n 1) recovery_corruption) (\<lambda>relative.
         and_then (ok_or (list_get groups (unat relative)) recovery_corruption) (\<lambda>gr.
         and_then (add_to_group E is_meta entry gr) (\<lambda>gr.
           collect_groups E durable_seq head_seq (groups[unat relative := gr]) entries))))))"

definition decode_group :: "env \<Rightarrow> u64 \<Rightarrow> nat \<Rightarrow> encoded_descriptor_group \<Rightarrow> transaction_descriptor res" where
  "decode_group E durable_seq index gr =
     and_then (ok_or (u64_try_from index) recovery_corruption) (\<lambda>index.
     and_then (ok_or (checked_add durable_seq index) recovery_corruption) (\<lambda>n.
     and_then (ok_or (checked_add n 1) recovery_corruption) (\<lambda>expected_seq.
     and_then (ok_or (dg_meta gr) recovery_corruption) (\<lambda>meta.
     and_then (try_reserve E ''GroupRefs'' (length (dg_mutations gr)) recovery_resource) (\<lambda>_.
     and_then (map_err recovery_context
                (decode_descriptor E (en_key meta) (en_value meta) (map entry_ref (dg_mutations gr)))) (\<lambda>descriptor.
       if tm_commit_seq (td_meta descriptor) \<noteq> expected_seq then Err recovery_corruption else Ok descriptor))))))"

fun decode_groups :: "env \<Rightarrow> u64 \<Rightarrow> nat \<Rightarrow> encoded_descriptor_group list \<Rightarrow> transaction_descriptor list res" where
  "decode_groups E durable_seq index [] = Ok []"
| "decode_groups E durable_seq index (gr # groups) =
     and_then (decode_group E durable_seq index gr) (\<lambda>descriptor.
     and_then (decode_groups E durable_seq (Suc index) groups) (\<lambda>descriptors. Ok (descriptor # descriptors)))"

definition load_unstable_descriptors ::
  "env \<Rightarrow> 's backend_ops \<Rightarrow> 's \<Rightarrow> u64 \<Rightarrow> u64 \<Rightarrow> transaction_descriptor list res" where
  "load_unstable_descriptors E B s durable_seq head_seq =
     and_then (ok_or (checked_sub head_seq durable_seq) recovery_corruption) (\<lambda>count.
     let count = unat count in
     and_then (try_reserve E ''DescriptorGroups'' count recovery_resource) (\<lambda>_.
     and_then (unstable_descriptor_range E durable_seq head_seq) (\<lambda>rng.
     case rng of
       None \<Rightarrow> Ok []
     | Some rng \<Rightarrow>
         and_then (map_err recovery_context (bk_scan_internal B s TransactionSpace rng)) (\<lambda>entries.
         and_then (collect_groups E durable_seq head_seq (replicate count empty_group) entries) (\<lambda>groups.
         and_then (try_reserve E ''Descriptors'' count recovery_resource) (\<lambda>_.
           decode_groups E durable_seq 0 groups))))))"

section \<open>The target\<close>

record accepted =
  ac_seq :: u64
  ac_vlog_seq :: u64
  ac_end :: durable_vlog_end

definition accept_delete :: "transaction_descriptor \<Rightarrow> accepted \<Rightarrow> accepted" where
  "accept_delete descriptor ac = ac\<lparr>ac_seq := tm_commit_seq (td_meta descriptor)\<rparr>"

definition accept_envelope :: "transaction_descriptor \<Rightarrow> accepted \<Rightarrow> accepted" where
  "accept_envelope descriptor ac =
     ac\<lparr>ac_seq := tm_commit_seq (td_meta descriptor), ac_vlog_seq := tm_commit_seq (td_meta descriptor),
        ac_end := PositionEnd (tm_vlog_end (td_meta descriptor))\<rparr>"

fun accept_new :: "env \<Rightarrow> 'd os_ops \<Rightarrow> vlog_reader \<Rightarrow> accepted \<Rightarrow> transaction_descriptor list \<Rightarrow> ('d, accepted) log_act" where
  "accept_new E K R ac [] w = (w, Ok ac)"
| "accept_new E K R ac (descriptor # descriptors) w =
     (case tm_transaction_kind (td_meta descriptor) of
        IndexOnlyDelete \<Rightarrow> accept_new E K R (accept_delete descriptor ac) descriptors w
      | VLogEnvelope \<Rightarrow>
          if tm_vlog_begin (td_meta descriptor) \<noteq> append_position (ac_end ac) then (w, Ok ac)
          else
            (case read_and_validate_envelope E K R descriptor w of
               (w, Ok _) \<Rightarrow> accept_new E K R (accept_envelope descriptor ac) descriptors w
             | (w, Err error) \<Rightarrow>
                 if is_rejectable_envelope_error (err_kind error) then (w, Ok ac) else (w, Err error)))"

fun accept_fixed :: "env \<Rightarrow> 'd os_ops \<Rightarrow> vlog_reader \<Rightarrow> accepted \<Rightarrow> transaction_descriptor list \<Rightarrow> ('d, accepted) log_act" where
  "accept_fixed E K R ac [] w = (w, Ok ac)"
| "accept_fixed E K R ac (descriptor # descriptors) w =
     (case tm_transaction_kind (td_meta descriptor) of
        IndexOnlyDelete \<Rightarrow> accept_fixed E K R (accept_delete descriptor ac) descriptors w
      | VLogEnvelope \<Rightarrow>
          if tm_vlog_begin (td_meta descriptor) \<noteq> append_position (ac_end ac) then (w, Err recovery_corruption)
          else
            (case read_and_validate_envelope E K R descriptor w of
               (w, Ok _) \<Rightarrow> accept_fixed E K R (accept_envelope descriptor ac) descriptors w
             | (w, Err error) \<Rightarrow>
                 if is_rejectable_envelope_error (err_kind error) then (w, Err recovery_corruption) else (w, Err error)))"

definition accepted_from :: "durable_frontier \<Rightarrow> accepted" where
  "accepted_from frontier =
     \<lparr>ac_seq = df_durable_seq frontier, ac_vlog_seq = df_durable_vlog_seq frontier, ac_end = df_durable_vlog_end frontier\<rparr>"

definition published_end :: "durable_frontier \<Rightarrow> transaction_descriptor list \<Rightarrow> durable_vlog_end" where
  "published_end frontier descriptors =
     (case find (\<lambda>descriptor. tm_transaction_kind (td_meta descriptor) = VLogEnvelope) (rev descriptors) of
        Some descriptor \<Rightarrow> PositionEnd (tm_vlog_end (td_meta descriptor))
      | None \<Rightarrow> df_durable_vlog_end frontier)"

definition build_plan ::
  "bytes \<Rightarrow> durable_frontier \<Rightarrow> u64 \<Rightarrow> accepted \<Rightarrow> transaction_descriptor list \<Rightarrow> recovery_state option \<Rightarrow>
   managed_inventory \<Rightarrow> recovery_topology \<Rightarrow> recovery_plan res" where
  "build_plan database_identity frontier head_seq ac descriptors state inventory topology =
     (if ac_seq ac < df_durable_seq frontier \<or> ac_seq ac > head_seq
         \<or> ac_vlog_seq ac < df_durable_vlog_seq frontier \<or> ac_vlog_seq ac > ac_seq ac
      then Err recovery_corruption
      else if (case state of Some st \<Rightarrow> rs_target_vlog_seq st \<noteq> ac_vlog_seq ac \<or> rs_target_vlog_end st \<noteq> ac_end ac | None \<Rightarrow> False)
              \<or> \<not> contains_end inventory (ac_end ac)
      then Err recovery_corruption
      else Ok \<lparr>rp_database_identity = database_identity, rp_durable_frontier = frontier, rp_head_seq = head_seq,
               rp_accepted_seq = ac_seq ac, rp_accepted_vlog_seq = ac_vlog_seq ac,
               rp_published_end = published_end frontier descriptors, rp_accepted_end = ac_end ac,
               rp_physical_tail = rt_physical_tail topology, rp_descriptors = descriptors, rp_recovery_state = state,
               rp_needs_undo = (ac_seq ac < head_seq), rp_needs_promote = (ac_seq ac > df_durable_seq frontier),
               rp_needs_trim = has_suffix_after inventory (ac_end ac)\<rparr>)"

definition analyze_new_target ::
  "env \<Rightarrow> 'd os_ops \<Rightarrow> vlog_reader \<Rightarrow> bytes \<Rightarrow> durable_frontier \<Rightarrow> u64 \<Rightarrow> transaction_descriptor list \<Rightarrow>
   managed_inventory \<Rightarrow> recovery_topology \<Rightarrow> ('d, recovery_plan) log_act" where
  "analyze_new_target E K R database_identity frontier head_seq descriptors inventory topology =
     act_bind (accept_new E K R (accepted_from frontier) descriptors) (\<lambda>ac.
       act_lift (build_plan database_identity frontier head_seq ac descriptors None inventory topology))"

definition validate_recovery_state_against_current :: "recovery_state \<Rightarrow> durable_frontier \<Rightarrow> u64 \<Rightarrow> unit res" where
  "validate_recovery_state_against_current state frontier head_seq =
     (if rs_target_seq state < df_durable_seq frontier \<or> rs_target_vlog_seq state < df_durable_vlog_seq frontier
      then Err recovery_corruption
      else if (if rs_target_vlog_seq state = df_durable_vlog_seq frontier
               then rs_target_vlog_end state \<noteq> df_durable_vlog_end frontier
               else \<not> durable_end_strictly_after (rs_target_vlog_end state) (df_durable_vlog_end frontier))
      then Err recovery_corruption
      else case rs_phase state of
             PhaseUndo \<Rightarrow> if head_seq \<noteq> rs_next_undo_seq state then Err recovery_corruption else Ok ()
           | _ \<Rightarrow>
               if head_seq \<noteq> rs_target_seq state \<or> df_durable_seq frontier \<noteq> rs_target_seq state
                  \<or> df_durable_vlog_seq frontier \<noteq> rs_target_vlog_seq state
                  \<or> df_durable_vlog_end frontier \<noteq> rs_target_vlog_end state
                  \<or> rs_next_undo_seq state \<noteq> rs_target_seq state
               then Err recovery_corruption else Ok ())"

definition target_of :: "recovery_state \<Rightarrow> accepted" where
  "target_of state = \<lparr>ac_seq = rs_target_seq state, ac_vlog_seq = rs_target_vlog_seq state, ac_end = rs_target_vlog_end state\<rparr>"

definition check_fixed_target ::
  "env \<Rightarrow> 'd os_ops \<Rightarrow> vlog_reader \<Rightarrow> durable_frontier \<Rightarrow> transaction_descriptor list \<Rightarrow> recovery_state \<Rightarrow> ('d, unit) log_act" where
  "check_fixed_target E K R frontier descriptors state =
     (if rs_phase state \<noteq> PhaseUndo then act_return ()
      else
        act_bind (act_lift (ok_or (checked_sub (rs_target_seq state) (df_durable_seq frontier)) recovery_corruption)) (\<lambda>accepted_count.
        if unat accepted_count > length descriptors then act_fail recovery_corruption
        else
          act_bind (accept_fixed E K R (accepted_from frontier) (take (unat accepted_count) descriptors)) (\<lambda>ac.
          if ac \<noteq> target_of state then act_fail recovery_corruption else act_return ())))"

definition analyze_fixed_target ::
  "env \<Rightarrow> 'd os_ops \<Rightarrow> vlog_reader \<Rightarrow> bytes \<Rightarrow> durable_frontier \<Rightarrow> u64 \<Rightarrow> transaction_descriptor list \<Rightarrow> recovery_state \<Rightarrow>
   managed_inventory \<Rightarrow> recovery_topology \<Rightarrow> ('d, recovery_plan) log_act" where
  "analyze_fixed_target E K R database_identity frontier head_seq descriptors state inventory topology =
     act_bind (act_lift (validate_recovery_state_against_current state frontier head_seq)) (\<lambda>_.
     act_bind (check_fixed_target E K R frontier descriptors state) (\<lambda>_.
     act_bind (act_lift (build_plan database_identity frontier head_seq (target_of state) descriptors (Some state) inventory topology)) (\<lambda>plan.
     if (case rs_phase state of
           PhaseUndo \<Rightarrow> \<not> rs_trim_required state \<and> rp_needs_trim plan
         | PhaseTrim \<Rightarrow> \<not> rs_trim_required state
         | PhaseFinalize \<Rightarrow> rs_trim_required state \<or> rp_needs_trim plan)
     then act_fail recovery_corruption
     else act_return (plan\<lparr>rp_needs_undo := (rs_phase state = PhaseUndo \<and> head_seq > rs_target_seq state)\<rparr>))))"

section \<open>The analysis\<close>

definition read_identity :: "env \<Rightarrow> 's backend_ops \<Rightarrow> 's \<Rightarrow> format_metadata \<Rightarrow> bytes res" where
  "read_identity E B s format =
     and_then (map_err recovery_context (bk_get_database_identity B s)) (\<lambda>encoded.
     and_then (ok_or encoded recovery_corruption) (\<lambda>encoded.
     and_then (map_err recovery_context (DatabaseIdentity_decode E encoded)) (\<lambda>identity.
     and_then (map_err recovery_context
                (DatabaseIdentity_validate_against identity (fm_format_version format) (fm_database_uuid format))) (\<lambda>_.
       Ok encoded))))"

definition read_frontier_and_head :: "env \<Rightarrow> 's backend_ops \<Rightarrow> 's \<Rightarrow> (durable_frontier \<times> u64) res" where
  "read_frontier_and_head E B s =
     and_then (required_internal B s DURABLE_FRONTIER_KEY) (\<lambda>encoded_frontier.
     and_then (map_err recovery_context (DurableFrontier_decode E encoded_frontier)) (\<lambda>frontier.
     and_then (required_internal B s HEAD_SEQ_KEY) (\<lambda>encoded_head.
     and_then (map_err recovery_context (decode_head_seq encoded_head)) (\<lambda>head_seq.
     and_then (map_err recovery_context (DurableFrontier_validate_against_head frontier head_seq)) (\<lambda>_.
       Ok (frontier, head_seq))))))"

definition read_recovery_state :: "env \<Rightarrow> 's backend_ops \<Rightarrow> 's \<Rightarrow> recovery_state option res" where
  "read_recovery_state E B s =
     and_then (map_err recovery_context (bk_get_internal B s SystemSpace RECOVERY_STATE_KEY)) (\<lambda>encoded.
     case encoded of
       None \<Rightarrow> Ok None
     | Some encoded \<Rightarrow> map_err recovery_context (map_ok Some (RecoveryState_decode E encoded)))"

definition analyze_recovery_with_policy ::
  "env \<Rightarrow> 's backend_ops \<Rightarrow> 'd os_ops \<Rightarrow> vlog_geometry \<Rightarrow> 's \<Rightarrow> format_metadata \<Rightarrow> managed_inventory \<Rightarrow> vlog_reader \<Rightarrow>
   ('d, recovery_plan) log_act" where
  "analyze_recovery_with_policy E B K g s format inventory R =
     act_bind (act_lift (read_identity E B s format)) (\<lambda>database_identity.
     if vlog_reader.vr_geometry R \<noteq> g then act_fail recovery_corruption
     else
       act_bind (act_lift (read_frontier_and_head E B s)) (\<lambda>(frontier, head_seq).
       act_bind (act_lift (read_recovery_state E B s)) (\<lambda>state.
       act_bind (act_lift (analyze_with_geometry inventory (df_durable_vlog_end frontier) g)) (\<lambda>topology.
       act_bind (validate_stable_boundary E K R frontier) (\<lambda>_.
       act_bind (act_lift (load_unstable_descriptors E B s (df_durable_seq frontier) head_seq)) (\<lambda>descriptors.
       case state of
         Some state \<Rightarrow> analyze_fixed_target E K R database_identity frontier head_seq descriptors state inventory topology
       | None \<Rightarrow> analyze_new_target E K R database_identity frontier head_seq descriptors inventory topology))))))"

definition analyze_recovery ::
  "env \<Rightarrow> 's backend_ops \<Rightarrow> 'd os_ops \<Rightarrow> 's \<Rightarrow> format_metadata \<Rightarrow> managed_inventory \<Rightarrow> vlog_reader \<Rightarrow> ('d, recovery_plan) log_act" where
  "analyze_recovery E B K = analyze_recovery_with_policy E B K PRODUCTION"

end
