(* ===== verification/RecoveryRun.thy ===== *)
theory RecoveryRun
  imports RecoveryAnalysis
begin

text \<open>
  The execution of a recovery plan (\<open>src/recovery/mod.rs\<close>). When anything has to be undone or cut
  off, the decision is written to the index first; then transactions are undone, the frontier is
  moved, the log is trimmed and the record of the recovery removed, each step in a
  synchronized batch of its own, so that a crash between two steps leaves a state from which
  the analysis continues. That recovery and readers share one set of files holds here because
  there is only one.
\<close>

section \<open>State\<close>

record ('s, 'd) recovery_world =
  rw_index :: 's
  rw_log :: "'d log_world"
  rw_claims :: "(u64 \<times> u64) set"

type_synonym ('s, 'd, 'a) recovery_act = "(('s, 'd) recovery_world, 'a, storage_error) act"

definition on_index :: "('s, 'a, storage_error) act \<Rightarrow> ('s, 'd, 'a) recovery_act" where
  "on_index m w = (let (s, r) = m (rw_index w) in (w\<lparr>rw_index := s\<rparr>, r))"

definition on_log :: "('d, 'a) log_act \<Rightarrow> ('s, 'd, 'a) recovery_act" where
  "on_log m w = (let (l, r) = m (rw_log w) in (w\<lparr>rw_log := l\<rparr>, r))"

definition on_root :: "('d, 'a, storage_error) act \<Rightarrow> ('s, 'd, 'a) recovery_act" where
  "on_root m = on_log (on_disk m)"

definition read_index :: "('s \<Rightarrow> 'a res) \<Rightarrow> ('s, 'd, 'a) recovery_act" where
  "read_index f w = (w, f (rw_index w))"

record recovered_state =
  rc_head_seq :: u64
  rc_durable_frontier :: durable_frontier
  rc_writer :: vlog_writer

section \<open>Checks\<close>

definition VLogDirectory_open :: "'d root_ops \<Rightarrow> string \<Rightarrow> ('d, handle \<times> file_identity, storage_error) act" where
  "VLogDirectory_open RO path =
     act_map_err directory_io
       (act_bind (open_directory_nofollow RO path) (\<lambda>h.
        act_bind (ro_handle_metadata RO h) (\<lambda>metadata. act_return (h, rm_identity metadata))))"

definition writer_identity :: "file_identity \<Rightarrow> u64 \<times> u64" where
  "writer_identity identity = (fi_device identity, fi_inode identity)"

definition check_identity :: "env \<Rightarrow> 's backend_ops \<Rightarrow> recovery_plan \<Rightarrow> format_metadata \<Rightarrow> 's \<Rightarrow> unit res" where
  "check_identity E B plan format s =
     and_then (map_err recovery_context (bk_get_database_identity B s)) (\<lambda>current.
     and_then (ok_or current recovery_corruption) (\<lambda>current.
     if current \<noteq> rp_database_identity plan then Err recovery_corruption
     else
       and_then (map_err recovery_context (DatabaseIdentity_decode E current)) (\<lambda>identity.
         map_err recovery_context
           (DatabaseIdentity_validate_against identity (fm_format_version format) (fm_database_uuid format)))))"

definition validate_recovery_bindings ::
  "env \<Rightarrow> 's backend_ops \<Rightarrow> 'd root_ops \<Rightarrow> vlog_geometry \<Rightarrow> recovery_plan \<Rightarrow> root_lock \<Rightarrow> format_metadata \<Rightarrow> vlog_reader \<Rightarrow>
   vlog_recovery \<Rightarrow> (u64 \<times> u64) \<Rightarrow> ('s, 'd, unit) recovery_act" where
  "validate_recovery_bindings E B RO g plan root format R vr identity =
     (if vlog_recovery.vr_geometry vr \<noteq> g \<or> vlog_reader.vr_geometry R \<noteq> g
         \<or> fs_database_uuid (vr_files R) \<noteq> fm_database_uuid format \<or> vr_database_uuid vr \<noteq> fm_database_uuid format
      then act_fail recovery_corruption
      else
        act_bind (read_index (check_identity E B plan format)) (\<lambda>_.
        act_bind (on_root (act_map_err recovery_context
                   (VLogDirectory_open RO (path_join (ri_canonical_path (rl_identity root)) VLOG_DIRECTORY_NAME)))) (\<lambda>(_, expected).
        if writer_identity expected \<noteq> identity then act_fail recovery_corruption else act_return ())))"

definition target_frontier :: "recovery_plan \<Rightarrow> durable_frontier" where
  "target_frontier plan =
     \<lparr>df_durable_seq = rp_accepted_seq plan, df_durable_vlog_seq = rp_accepted_vlog_seq plan,
      df_durable_vlog_end = rp_accepted_end plan\<rparr>"

definition sync_new_accepted_vlog :: "'d os_ops \<Rightarrow> vlog_recovery \<Rightarrow> recovery_plan \<Rightarrow> ('d, unit) log_act" where
  "sync_new_accepted_vlog K vr plan =
     (let frontier = rp_durable_frontier plan in
      if rp_accepted_vlog_seq plan = df_durable_vlog_seq frontier
      then (if rp_accepted_end plan \<noteq> df_durable_vlog_end frontier then act_fail recovery_corruption else act_return ())
      else if rp_accepted_vlog_seq plan < df_durable_vlog_seq frontier then act_fail recovery_corruption
      else sync_accepted_range K vr (durable_end_position (df_durable_vlog_end frontier)) (durable_end_position (rp_accepted_end plan)))"

definition validate_accepted_boundary :: "env \<Rightarrow> 'd os_ops \<Rightarrow> vlog_reader \<Rightarrow> recovery_plan \<Rightarrow> ('d, unit) log_act" where
  "validate_accepted_boundary E K R plan =
     (let frontier = rp_durable_frontier plan in
      if rp_accepted_vlog_seq plan = df_durable_vlog_seq frontier
      then (if rp_accepted_end plan \<noteq> df_durable_vlog_end frontier then act_fail recovery_corruption
            else validate_stable_boundary E K R (target_frontier plan))
      else
        act_bind (act_lift
          (and_then (ok_or (checked_sub (rp_accepted_vlog_seq plan) (df_durable_seq frontier)) recovery_corruption) (\<lambda>n.
           and_then (ok_or (checked_sub n 1) recovery_corruption) (\<lambda>relative.
             ok_or (list_get (rp_descriptors plan) (unat relative)) recovery_corruption)))) (\<lambda>descriptor.
        if tm_commit_seq (td_meta descriptor) \<noteq> rp_accepted_vlog_seq plan
           \<or> tm_transaction_kind (td_meta descriptor) \<noteq> VLogEnvelope
           \<or> PositionEnd (tm_vlog_end (td_meta descriptor)) \<noteq> rp_accepted_end plan
        then act_fail recovery_corruption
        else read_and_validate_envelope E K R descriptor))"

definition owned_inventory_file_ids :: "env \<Rightarrow> managed_inventory \<Rightarrow> u32 list res" where
  "owned_inventory_file_ids E inventory =
     and_then (try_reserve E ''InventoryFileIds'' (length (mi_vlog_files inventory)) recovery_resource) (\<lambda>_.
       Ok (map ve_file_id (mi_vlog_files inventory)))"

definition verify_final_records ::
  "env \<Rightarrow> 's backend_ops \<Rightarrow> recovery_plan \<Rightarrow> format_metadata \<Rightarrow> u64 \<Rightarrow> durable_frontier \<Rightarrow> 's \<Rightarrow> durable_frontier res" where
  "verify_final_records E B plan format expected_head expected_frontier s =
     and_then (check_identity E B plan format s) (\<lambda>_.
     and_then (required_internal B s HEAD_SEQ_KEY) (\<lambda>encoded_head.
     and_then (map_err recovery_context (decode_head_seq encoded_head)) (\<lambda>actual_head.
     and_then (required_internal B s DURABLE_FRONTIER_KEY) (\<lambda>encoded_frontier.
     and_then (map_err recovery_context (DurableFrontier_decode E encoded_frontier)) (\<lambda>actual_frontier.
     and_then (map_err recovery_context (DurableFrontier_validate_against_head actual_frontier actual_head)) (\<lambda>_.
     if actual_head \<noteq> expected_head \<or> actual_frontier \<noteq> expected_frontier then Err recovery_corruption
     else
       and_then (map_err recovery_context (bk_get_internal B s SystemSpace RECOVERY_STATE_KEY)) (\<lambda>state.
         if state \<noteq> None then Err recovery_corruption else Ok actual_frontier)))))))"

definition inspect_topology ::
  "env \<Rightarrow> 'd root_ops \<Rightarrow> vlog_geometry \<Rightarrow> root_lock \<Rightarrow> format_metadata \<Rightarrow> durable_vlog_end \<Rightarrow> ('s, 'd, unit) recovery_act" where
  "inspect_topology E RO g root format stop =
     act_bind (on_root (act_map_err recovery_context (ManagedInventory_inspect E RO root format))) (\<lambda>inventory.
     act_bind (act_lift (analyze_with_geometry inventory stop g)) (\<lambda>topology.
     if \<not> physical_tail_matches topology stop then act_fail recovery_corruption else act_return ()))"

definition verify_final_state ::
  "env \<Rightarrow> 's backend_ops \<Rightarrow> 'd root_ops \<Rightarrow> vlog_geometry \<Rightarrow> recovery_plan \<Rightarrow> root_lock \<Rightarrow> format_metadata \<Rightarrow> u64 \<Rightarrow> durable_frontier \<Rightarrow>
   ('s, 'd, unit) recovery_act" where
  "verify_final_state E B RO g plan root format expected_head expected_frontier =
     act_bind (read_index (verify_final_records E B plan format expected_head expected_frontier)) (\<lambda>actual_frontier.
       inspect_topology E RO g root format (df_durable_vlog_end actual_frontier))"

section \<open>Stages\<close>

text \<open>The decision is made durable before anything is changed.\<close>

definition begin_recovery ::
  "env \<Rightarrow> 's backend_ops \<Rightarrow> 'd os_ops \<Rightarrow> vlog_reader \<Rightarrow> vlog_recovery \<Rightarrow> recovery_plan \<Rightarrow> ('s, 'd, recovery_state option) recovery_act" where
  "begin_recovery E B K R vr plan =
     (if rp_recovery_state plan = None \<and> (rp_needs_undo plan \<or> rp_needs_trim plan)
      then
        act_bind (on_log (sync_new_accepted_vlog K vr plan)) (\<lambda>_.
        act_bind (on_log (validate_accepted_boundary E K R plan)) (\<lambda>_.
        let state = \<lparr>rs_phase = PhaseUndo, rs_original_head = rp_head_seq plan, rs_target_seq = rp_accepted_seq plan,
                     rs_target_vlog_seq = rp_accepted_vlog_seq plan, rs_target_vlog_end = rp_accepted_end plan,
                     rs_next_undo_seq = rp_head_seq plan, rs_trim_required = rp_needs_trim plan\<rparr> in
        act_bind (act_lift (recovery_state_batch E state)) (\<lambda>batch.
        act_bind (on_index (commit_recovery_batch B batch)) (\<lambda>_.
          act_return (Some state)))))
      else act_return (rp_recovery_state plan))"

definition settle_recovery ::
  "env \<Rightarrow> 's backend_ops \<Rightarrow> 'd os_ops \<Rightarrow> vlog_reader \<Rightarrow> vlog_recovery \<Rightarrow> recovery_plan \<Rightarrow> recovery_state option \<Rightarrow>
   ('s, 'd, u64 \<times> durable_frontier \<times> recovery_state option) recovery_act" where
  "settle_recovery E B K R vr plan state =
     (case state of
        Some state \<Rightarrow>
          if rs_phase state = PhaseUndo
          then
            act_bind (on_index (undo_transactions E B plan state)) (\<lambda>undone.
            let next_state = undone\<lparr>rs_phase := (if rs_trim_required undone then PhaseTrim else PhaseFinalize),
                                    rs_next_undo_seq := rs_target_seq undone\<rparr> in
            act_bind (on_log (validate_accepted_boundary E K R plan)) (\<lambda>_.
            act_bind (act_lift (target_frontier_batch E (rp_accepted_seq plan) (target_frontier plan) (Some next_state))) (\<lambda>batch.
            act_bind (on_index (commit_recovery_batch B batch)) (\<lambda>_.
              act_return (rp_accepted_seq plan, target_frontier plan, Some next_state)))))
          else act_return (rp_head_seq plan, rp_durable_frontier plan, Some state)
      | None \<Rightarrow>
          if rp_needs_promote plan
          then
            act_bind (on_log (sync_new_accepted_vlog K vr plan)) (\<lambda>_.
            act_bind (on_log (validate_accepted_boundary E K R plan)) (\<lambda>_.
            act_bind (act_lift (target_frontier_batch E (rp_accepted_seq plan) (target_frontier plan) None)) (\<lambda>batch.
            act_bind (on_index (commit_recovery_batch B batch)) (\<lambda>_.
              act_return (rp_accepted_seq plan, target_frontier plan, None)))))
          else act_return (rp_head_seq plan, rp_durable_frontier plan, None))"

definition finish_recovery ::
  "env \<Rightarrow> 's backend_ops \<Rightarrow> 'd os_ops \<Rightarrow> 'd root_ops \<Rightarrow> vlog_geometry \<Rightarrow> recovery_plan \<Rightarrow> root_lock \<Rightarrow> format_metadata \<Rightarrow>
   vlog_recovery \<Rightarrow> recovery_state option \<Rightarrow> ('s, 'd, unit) recovery_act" where
  "finish_recovery E B K RO g plan root format vr state =
     (case state of
        None \<Rightarrow> act_return ()
      | Some state \<Rightarrow>
          act_bind (case rs_phase state of
              PhaseTrim \<Rightarrow>
                act_bind (on_root (act_map_err recovery_context (ManagedInventory_inspect E RO root format))) (\<lambda>before_trim.
                act_bind (act_lift (owned_inventory_file_ids E before_trim)) (\<lambda>file_ids.
                act_bind (on_log (trim_log K vr (durable_end_position (rp_accepted_end plan)) file_ids)) (\<lambda>_.
                  inspect_topology E RO g root format (rp_accepted_end plan))))
            | PhaseFinalize \<Rightarrow> act_return ()
            | PhaseUndo \<Rightarrow> act_fail recovery_corruption) (\<lambda>_.
          act_bind (act_lift (delete_recovery_state_batch E)) (\<lambda>batch.
            on_index (commit_recovery_batch B batch))))"

definition take_writer ::
  "env \<Rightarrow> 'd os_ops \<Rightarrow> (u64 \<times> u64) \<Rightarrow> vlog_recovery \<Rightarrow> vlog_position option \<Rightarrow> ('s, 'd, vlog_writer) recovery_act" where
  "take_writer E K identity vr accepted_end w =
     (let ((claims, l), r) = into_writer E K identity vr accepted_end (rw_claims w, rw_log w)
      in (w\<lparr>rw_log := l, rw_claims := claims\<rparr>, r))"

definition execute_recovery_with_policy ::
  "env \<Rightarrow> 's backend_ops \<Rightarrow> 'd os_ops \<Rightarrow> 'd root_ops \<Rightarrow> vlog_geometry \<Rightarrow> recovery_plan \<Rightarrow> root_lock \<Rightarrow> format_metadata \<Rightarrow> vlog_reader \<Rightarrow>
   vlog_recovery \<Rightarrow> (u64 \<times> u64) \<Rightarrow> ('s, 'd, recovered_state) recovery_act" where
  "execute_recovery_with_policy E B K RO g plan root format R vr identity =
     act_bind (validate_recovery_bindings E B RO g plan root format R vr identity) (\<lambda>_.
     act_bind (begin_recovery E B K R vr plan) (\<lambda>state.
     act_bind (settle_recovery E B K R vr plan state) (\<lambda>(current_head, current_frontier, state).
     act_bind (finish_recovery E B K RO g plan root format vr state) (\<lambda>_.
     act_bind (verify_final_state E B RO g plan root format current_head current_frontier) (\<lambda>_.
     act_bind (take_writer E K identity vr (durable_end_position (df_durable_vlog_end current_frontier))) (\<lambda>writer.
     if lw_position writer \<noteq> append_position (df_durable_vlog_end current_frontier) then act_fail recovery_corruption
     else act_return \<lparr>rc_head_seq = current_head, rc_durable_frontier = current_frontier, rc_writer = writer\<rparr>))))))"

definition execute_recovery ::
  "env \<Rightarrow> 's backend_ops \<Rightarrow> 'd os_ops \<Rightarrow> 'd root_ops \<Rightarrow> recovery_plan \<Rightarrow> root_lock \<Rightarrow> format_metadata \<Rightarrow> vlog_reader \<Rightarrow>
   vlog_recovery \<Rightarrow> (u64 \<times> u64) \<Rightarrow> ('s, 'd, recovered_state) recovery_act" where
  "execute_recovery E B K RO = execute_recovery_with_policy E B K RO PRODUCTION"

text \<open>The analysis works on a backend of its own, which is closed before the one that executes the plan is opened and checked.\<close>

definition handoff_recovery_backend ::
  "('a \<Rightarrow> 'p res) \<Rightarrow> ('w \<Rightarrow> 'w \<times> 'e res) \<Rightarrow> ('e \<Rightarrow> ('w, unit, storage_error) act) \<Rightarrow> ('e \<Rightarrow> 'p \<Rightarrow> ('w, 'r, storage_error) act) \<Rightarrow>
   ('w \<Rightarrow> 'w) \<Rightarrow> 'a \<Rightarrow> ('w, 'e \<times> 'r, storage_error) act" where
  "handoff_recovery_backend analyze open_execution_backend validate_execution_backend execute close_analysis analysis_backend =
     act_bind (act_lift (analyze analysis_backend)) (\<lambda>plan w.
       act_bind open_execution_backend (\<lambda>execution_backend.
       act_bind (validate_execution_backend execution_backend) (\<lambda>_.
       act_bind (execute execution_backend plan) (\<lambda>recovered.
         act_return (execution_backend, recovered)))) (close_analysis w))"

end
