(* ===== verification/RecoveryPlan.thy ===== *)
theory RecoveryPlan
  imports RecoveryRun
begin

text \<open>
  What the analysis decides: it changes no file, loads the descriptors above the durable frontier in
  order and without a gap, and accepts the longest prefix of them whose envelopes the log holds.
\<close>

section \<open>Reading\<close>

lemma act_lift_iff: "act_lift v s = (s', x) \<longleftrightarrow> s' = s \<and> v = x"
  by (auto simp: act_lift_def)

context log_disk
begin

text \<open>An action that only reads: it leaves the files and the catalogue alone and the cache consistent.\<close>

definition reading :: "('d, 'a) log_act \<Rightarrow> bool" where
  "reading m \<longleftrightarrow> (\<forall>w w' r. m w = (w', r) \<longrightarrow> reads w w')"

lemma readingD: "reading m \<Longrightarrow> m w = (w', r) \<Longrightarrow> reads w w'"
  by (simp add: reading_def)

lemma reading_basic [intro!, simp]: "reading (act_return x)" "reading (act_fail e)" "reading (act_lift y)"
  by (auto simp: reading_def)

lemma reading_bind [intro!]: "reading m \<Longrightarrow> (\<And>x. reading (f x)) \<Longrightarrow> reading (act_bind m f)"
  unfolding reading_def by (blast elim!: act_bindE intro: reads_trans)

lemma reading_map_err [intro!]: "reading m \<Longrightarrow> reading (act_map_err f m)"
  by (auto simp: reading_def elim!: act_map_errE)

lemma reading_bytes [intro!]: "reading (read_recovery_bytes E K R f off n)"
  unfolding reading_def using read_recovery_bytes_spec(1) by blast

lemma reading_chunk [intro!]: "reading (read_recovery_chunk E K R stop n cursor)"
  unfolding read_recovery_chunk_def chunk_encoded_len_def Let_def
  by (auto)

lemma reading_chunks_from [intro!]: "reading (read_chunks_from E K R stop cs cursor)"
proof -
  have "read_chunks_from E K' R stop cs cursor w = (w', r) \<Longrightarrow> K' = K \<Longrightarrow> reads w w'" for K' w w' r
  proof (induction E K' R stop cs cursor w arbitrary: w' r rule: read_chunks_from.induct)
    case (1 E K' R stop cs cursor w)
    obtain w1 r1 where c: "read_recovery_chunk E K R stop (length cs) cursor w = (w1, r1)" by fastforce
    note k = readingD [OF reading_chunk c]
    show ?case
      using "1.prems" "1.IH" [OF _ c [symmetric, folded "1.prems"(2)]] c k
      by (cases r1) (auto simp: read_chunks_from.simps [of E K R stop cs cursor w] split: if_splits prod.splits intro: reads_trans)
  qed
  then show ?thesis by (auto simp: reading_def)
qed

lemma reading_envelope [intro!]: "reading (read_recovery_envelope E K R a b crc)"
  unfolding read_recovery_envelope_def read_recovery_chunks_def Let_def by (auto)

lemma reading_stable [intro!]: "reading (read_stable_envelope_from_end E K R stop)"
  unfolding read_stable_envelope_from_end_def Let_def by (auto)

lemma reading_validate [intro!]: "reading (read_and_validate_envelope E K R d)"
  unfolding read_and_validate_envelope_def Let_def by (auto)

lemma reading_boundary [intro!]: "reading (validate_stable_boundary E K R frontier)"
  unfolding validate_stable_boundary_def by (auto split: durable_vlog_end.splits)

lemma reading_accepted_boundary [intro!]: "reading (validate_accepted_boundary E K R plan)"
  unfolding validate_accepted_boundary_def Let_def by (auto)

end

section \<open>Descriptors\<close>

text \<open>The descriptors are those of the sequence numbers above \<open>durable\<close>, in order and without a gap.\<close>

definition numbered :: "u64 \<Rightarrow> transaction_descriptor list \<Rightarrow> bool" where
  "numbered durable ds \<longleftrightarrow> (\<forall>j < length ds. unat (tm_commit_seq (td_meta (ds ! j))) = unat durable + j + 1)"

lemma collect_groups_length: "collect_groups E a h gs es = Ok gs' \<Longrightarrow> length gs' = length gs"
  by (induction E a h gs es rule: collect_groups.induct) (auto simp: result_simps split: if_splits)

lemma decode_group_seq:
  "decode_group E a i gr = Ok d \<Longrightarrow> unat (tm_commit_seq (td_meta d)) = unat a + i + 1"
  by (auto simp: decode_group_def result_simps u64_try_from_Some unat_of_nat_small dest!: checked_add_unat split: if_splits)

lemma decode_groups_seq:
  "decode_groups E a i gs = Ok ds \<Longrightarrow> length ds = length gs
   \<and> (\<forall>j < length ds. unat (tm_commit_seq (td_meta (ds ! j))) = unat a + i + j + 1)"
  by (induction gs arbitrary: i ds) (auto simp: result_simps nth_Cons dest!: decode_group_seq split: nat.splits)

lemma load_unstable_Ok:
  assumes "load_unstable_descriptors E B s a h = Ok ds"
  shows "a \<le> h" and "length ds = unat h - unat a" and "numbered a ds"
proof -
  from assms obtain n where n: "checked_sub h a = Some n"
    by (auto simp: load_unstable_descriptors_def result_simps)
  then have l: "a \<le> h" "unat n = unat h - unat a" by (simp_all add: checked_sub_Some word_le_nat_alt unat_sub)
  show "a \<le> h" by (rule l)
  have "length ds = unat n \<and> numbered a ds"
  proof (cases "a = - 1")
    case True
    then have "ds = []" using assms
      by (auto simp: load_unstable_descriptors_def result_simps unstable_descriptor_range_def Let_def n split: if_splits)
    moreover have "h = a" using l(1) True word_n1_ge [of h] by simp
    ultimately show ?thesis using l(2) by (simp add: numbered_def)
  next
    case False
    then obtain entries gs where "collect_groups E a h (replicate (unat n) empty_group) entries = Ok gs" "decode_groups E a 0 gs = Ok ds"
      using assms
      by (auto simp: load_unstable_descriptors_def result_simps unstable_descriptor_range_def Let_def n split: if_splits option.splits)
    then show ?thesis using collect_groups_length decode_groups_seq [of E a 0 gs ds] by (fastforce simp: numbered_def)
  qed
  then show "length ds = unat h - unat a" "numbered a ds" using l by simp_all
qed

lemma expected_numbered:
  assumes "numbered (df_durable_seq (rp_durable_frontier plan)) (rp_descriptors plan)"
    and "expected_descriptor plan seq = Ok d"
  shows "tm_commit_seq (td_meta d) = seq"
proof -
  from assms(2) obtain n m where e: "checked_sub seq (df_durable_seq (rp_durable_frontier plan)) = Some n"
    "checked_sub n 1 = Some m" "list_get (rp_descriptors plan) (unat m) = Some d"
    by (auto simp: expected_descriptor_def result_simps)
  then show ?thesis
    using assms(1) checked_sub_unat [OF e(1)] checked_sub_unat [OF e(2)]
    by (auto simp: numbered_def list_get_def word_unat_eq_iff split: if_splits)
qed

section \<open>The accepted prefix\<close>

text \<open>
  What is accepted after a run of descriptors: deletes need nothing of the log; the envelope of any
  other transaction has to start where the last one ended, and to be good.
\<close>

fun accepts :: "(transaction_descriptor \<Rightarrow> bool) \<Rightarrow> accepted \<Rightarrow> transaction_descriptor list \<Rightarrow> accepted option" where
  "accepts good ac [] = Some ac"
| "accepts good ac (d # ds) =
     (case tm_transaction_kind (td_meta d) of
        IndexOnlyDelete \<Rightarrow> accepts good (accept_delete d ac) ds
      | VLogEnvelope \<Rightarrow>
          if tm_vlog_begin (td_meta d) = append_position (ac_end ac) \<and> good d then accepts good (accept_envelope d ac) ds else None)"

text \<open>A read of the unchanged log finds the transaction's envelope, and it agrees with the descriptor.\<close>

definition matched :: "env \<Rightarrow> 'd os_ops \<Rightarrow> ('d \<Rightarrow> disk_view) \<Rightarrow> vlog_reader \<Rightarrow> disk_view \<Rightarrow> transaction_descriptor \<Rightarrow> bool" where
  "matched E K view R v d \<longleftrightarrow>
     (\<exists>w w'. view (wd_disk w) = v \<and> read_and_validate_envelope E K R d w = (w', Ok ()))"

text \<open>A read of the unchanged log finds that it is torn, or another's.\<close>

definition rejected :: "env \<Rightarrow> 'd os_ops \<Rightarrow> ('d \<Rightarrow> disk_view) \<Rightarrow> vlog_reader \<Rightarrow> disk_view \<Rightarrow> transaction_descriptor \<Rightarrow> bool" where
  "rejected E K view R v d \<longleftrightarrow>
     (\<exists>w w' e. view (wd_disk w) = v \<and> read_and_validate_envelope E K R d w = (w', Err e)
        \<and> is_rejectable_envelope_error (err_kind e))"

context log_disk
begin

lemma accept_new_spec:
  assumes "accept_new E K R ac ds w = (w', r)"
  shows "reads w w' \<and> (\<forall>ac'. r = Ok ac' \<longrightarrow> (\<exists>k \<le> length ds. accepts (matched E K view R (wview w)) ac (take k ds) = Some ac'
     \<and> (k < length ds \<longrightarrow> tm_transaction_kind (td_meta (ds ! k)) = VLogEnvelope
        \<and> (tm_vlog_begin (td_meta (ds ! k)) \<noteq> append_position (ac_end ac') \<or> rejected E K view R (wview w) (ds ! k)))))"
  using assms
proof (induction ds arbitrary: ac w)
  case (Cons d ds)
  let ?stop = "\<lambda>ds ac' k. k < length ds \<longrightarrow> tm_transaction_kind (td_meta (ds ! k)) = VLogEnvelope
        \<and> (tm_vlog_begin (td_meta (ds ! k)) \<noteq> append_position (ac_end ac') \<or> rejected E K view R (wview w) (ds ! k))"
  have shift: "\<exists>k \<le> length (d # ds). accepts (matched E K view R (wview w)) ac (take k (d # ds)) = Some ac' \<and> ?stop (d # ds) ac' k"
    if "k \<le> length ds" "accepts (matched E K view R (wview w)) ac1 (take k ds) = Some ac'" "?stop ds ac' k"
      "accepts (matched E K view R (wview w)) ac (d # take k ds) = accepts (matched E K view R (wview w)) ac1 (take k ds)" for ac1 ac' k
    using that by (intro exI [of _ "Suc k"]) simp
  show ?case
  proof (cases "tm_transaction_kind (td_meta d)")
    case IndexOnlyDelete
    with Cons.prems have r: "accept_new E K R (accept_delete d ac) ds w = (w', r)" by simp
    show ?thesis using Cons.IH [OF r] shift IndexOnlyDelete by fastforce
  next
    case VLogEnvelope
    show ?thesis
    proof (cases "tm_vlog_begin (td_meta d) = append_position (ac_end ac)")
      case False
      then show ?thesis using Cons.prems VLogEnvelope by auto
    next
      case True
      obtain w1 r1 where rv: "read_and_validate_envelope E K R d w = (w1, r1)" by fastforce
      note k = readingD [OF reading_validate rv]
      then have v: "wview w1 = wview w" by (simp add: reads_def)
      show ?thesis
      proof (cases r1)
        case (Err e)
        then have "rejected E K view R (wview w) d" if "is_rejectable_envelope_error (err_kind e)"
          using rv that by (auto simp: rejected_def)
        then show ?thesis
          using Cons.prems VLogEnvelope True rv Err k by (auto split: if_splits intro!: exI [of _ 0])
      next
        case (Ok u)
        then have m: "matched E K view R (wview w) d" using rv by (auto simp: matched_def)
        have r: "accept_new E K R (accept_envelope d ac) ds w1 = (w', r)"
          using Cons.prems VLogEnvelope True rv Ok by simp
        show ?thesis using Cons.IH [OF r] shift VLogEnvelope True m v reads_trans [OF k] by fastforce
      qed
    qed
  qed
qed auto

lemma accept_fixed_spec:
  assumes "accept_fixed E K R ac ds w = (w', r)"
  shows "reads w w' \<and> (\<forall>ac'. r = Ok ac' \<longrightarrow> accepts (matched E K view R (wview w)) ac ds = Some ac')"
  using assms
proof (induction ds arbitrary: ac w)
  case (Cons d ds)
  show ?case
  proof (cases "tm_transaction_kind (td_meta d)")
    case IndexOnlyDelete
    then show ?thesis using Cons by auto
  next
    case VLogEnvelope
    show ?thesis
    proof (cases "tm_vlog_begin (td_meta d) = append_position (ac_end ac)")
      case False
      then show ?thesis using Cons.prems VLogEnvelope by auto
    next
      case True
      obtain w1 r1 where rv: "read_and_validate_envelope E K R d w = (w1, r1)" by fastforce
      note k = readingD [OF reading_validate rv]
      then have v: "wview w1 = wview w" by (simp add: reads_def)
      show ?thesis
      proof (cases r1)
        case (Err e)
        then show ?thesis using Cons.prems VLogEnvelope True rv k by (auto split: if_splits)
      next
        case (Ok u)
        then have m: "matched E K view R (wview w) d" using rv by (auto simp: matched_def)
        have r: "accept_fixed E K R (accept_envelope d ac) ds w1 = (w', r)"
          using Cons.prems VLogEnvelope True rv Ok by simp
        show ?thesis using Cons.IH [OF r] VLogEnvelope True m v reads_trans [OF k] by auto
      qed
    qed
  qed
qed auto

end

section \<open>Plans\<close>

definition plan_target :: "recovery_plan \<Rightarrow> accepted" where
  "plan_target plan = \<lparr>ac_seq = rp_accepted_seq plan, ac_vlog_seq = rp_accepted_vlog_seq plan, ac_end = rp_accepted_end plan\<rparr>"

text \<open>What the execution relies on.\<close>

definition plan_ok :: "recovery_plan \<Rightarrow> bool" where
  "plan_ok plan \<longleftrightarrow> (let f = rp_durable_frontier plan in
     df_durable_seq f \<le> rp_accepted_seq plan \<and> rp_accepted_seq plan \<le> rp_head_seq plan
     \<and> df_durable_vlog_seq f \<le> rp_accepted_vlog_seq plan \<and> rp_accepted_vlog_seq plan \<le> rp_accepted_seq plan
     \<and> numbered (df_durable_seq f) (rp_descriptors plan)
     \<and> length (rp_descriptors plan) = unat (rp_head_seq plan) - unat (df_durable_seq f)
     \<and> (rp_needs_promote plan \<longleftrightarrow> df_durable_seq f < rp_accepted_seq plan)
     \<and> (rp_accepted_seq plan = df_durable_seq f \<longrightarrow> target_frontier plan = f)
     \<and> (case rp_recovery_state plan of
          None \<Rightarrow> rp_needs_undo plan \<longleftrightarrow> rp_accepted_seq plan < rp_head_seq plan
        | Some st \<Rightarrow> target_of st = plan_target plan
            \<and> (if rs_phase st = PhaseUndo then rs_next_undo_seq st = rp_head_seq plan
               else rp_head_seq plan = rp_accepted_seq plan \<and> f = target_frontier plan)))"

text \<open>The plan accepts a prefix of the descriptors, and a plan made from scratch the longest one.\<close>

definition plan_accepts :: "env \<Rightarrow> 'd os_ops \<Rightarrow> ('d \<Rightarrow> disk_view) \<Rightarrow> vlog_reader \<Rightarrow> disk_view \<Rightarrow> recovery_plan \<Rightarrow> bool" where
  "plan_accepts E K view R v plan \<longleftrightarrow>
     (let f = rp_durable_frontier plan; ds = rp_descriptors plan;
          k = unat (rp_accepted_seq plan) - unat (df_durable_seq f) in
      accepts (matched E K view R v) (accepted_from f) (take k ds) = Some (plan_target plan)
      \<and> (rp_recovery_state plan = None \<and> k < length ds \<longrightarrow> tm_transaction_kind (td_meta (ds ! k)) = VLogEnvelope
           \<and> (tm_vlog_begin (td_meta (ds ! k)) \<noteq> append_position (rp_accepted_end plan) \<or> rejected E K view R v (ds ! k))))"

lemma accepts_seq:
  assumes "accepts good ac ds = Some ac'" and "\<forall>j < length ds. unat (tm_commit_seq (td_meta (ds ! j))) = unat (ac_seq ac) + j + 1"
  shows "unat (ac_seq ac') = unat (ac_seq ac) + length ds"
  using assms
proof (induction ds arbitrary: ac)
  case (Cons d ds)
  let ?ac = "case tm_transaction_kind (td_meta d) of IndexOnlyDelete \<Rightarrow> accept_delete d ac | VLogEnvelope \<Rightarrow> accept_envelope d ac"
  have s: "unat (ac_seq ?ac) = unat (ac_seq ac) + 1"
    using Cons.prems(2) by (auto simp: accept_delete_def accept_envelope_def split: transaction_kind.splits)
  have "accepts good ?ac ds = Some ac'"
    using Cons.prems(1) by (auto split: transaction_kind.splits if_splits)
  moreover have "\<forall>j < length ds. unat (tm_commit_seq (td_meta (ds ! j))) = unat (ac_seq ?ac) + j + 1"
    using Cons.prems(2) s by auto
  ultimately show ?case using Cons.IH [of ?ac] s by simp
qed simp

lemma accepts_count:
  assumes "accepts good (accepted_from f) (take k ds) = Some ac" and "numbered (df_durable_seq f) ds" and "k \<le> length ds"
  shows "unat (ac_seq ac) - unat (df_durable_seq f) = k"
  using accepts_seq [OF assms(1)] assms(2,3) by (simp add: numbered_def accepted_from_def)

lemma build_plan_Ok:
  assumes "build_plan identity f h ac ds st inventory topo = Ok plan"
  shows "df_durable_seq f \<le> ac_seq ac" "ac_seq ac \<le> h" "df_durable_vlog_seq f \<le> ac_vlog_seq ac" "ac_vlog_seq ac \<le> ac_seq ac"
    "rp_durable_frontier plan = f" "rp_head_seq plan = h" "plan_target plan = ac" "rp_descriptors plan = ds"
    "rp_recovery_state plan = st" "rp_needs_undo plan \<longleftrightarrow> ac_seq ac < h" "rp_needs_promote plan \<longleftrightarrow> df_durable_seq f < ac_seq ac"
    "rp_database_identity plan = identity"
  using assms by (auto simp: build_plan_def plan_target_def split: if_splits)

lemma plan_target_sel:
  "plan_target plan = ac \<Longrightarrow> rp_accepted_seq plan = ac_seq ac \<and> rp_accepted_vlog_seq plan = ac_vlog_seq ac \<and> rp_accepted_end plan = ac_end ac"
  by (auto simp: plan_target_def)

lemma target_frontier_accepted: "target_frontier plan = f \<longleftrightarrow> plan_target plan = accepted_from f"
  by (cases f) (auto simp: target_frontier_def plan_target_def accepted_from_def)

lemma validate_state_Ok:
  "validate_recovery_state_against_current st f h = Ok () \<Longrightarrow>
   (if rs_phase st = PhaseUndo then rs_next_undo_seq st = h
    else h = rs_target_seq st \<and> accepted_from f = target_of st)"
  by (auto simp: validate_recovery_state_against_current_def accepted_from_def target_of_def split: if_splits recovery_phase.splits)

lemma plan_okI:
  assumes "build_plan identity f h ac ds st inventory topo = Ok plan"
    and "numbered (df_durable_seq f) ds" and "length ds = unat h - unat (df_durable_seq f)"
    and "k \<le> length ds" and "accepts good (accepted_from f) (take k ds) = Some ac"
    and "case st of None \<Rightarrow> True | Some s \<Rightarrow> target_of s = ac \<and> (if rs_phase s = PhaseUndo then rs_next_undo_seq s = h
       else h = ac_seq ac \<and> accepted_from f = ac)"
    and "st = None \<longrightarrow> u = rp_needs_undo plan"
  shows "plan_ok (plan\<lparr>rp_needs_undo := u\<rparr>)" and "unat (rp_accepted_seq plan) - unat (df_durable_seq f) = k"
proof -
  note b = build_plan_Ok [OF assms(1)]
  note c = accepts_count [OF assms(5,2,4)]
  note t = plan_target_sel [OF b(7)]
  show "unat (rp_accepted_seq plan) - unat (df_durable_seq f) = k" using c t by simp
  have tf: "target_frontier (plan\<lparr>rp_needs_undo := u\<rparr>) = f \<longleftrightarrow> ac = accepted_from f"
    "plan_target (plan\<lparr>rp_needs_undo := u\<rparr>) = ac"
    using b(7) target_frontier_accepted [of plan f] by (simp_all add: target_frontier_def plan_target_def)
  have "ac = accepted_from f" if "ac_seq ac = df_durable_seq f"
    using assms(5) c that by simp
  then show "plan_ok (plan\<lparr>rp_needs_undo := u\<rparr>)"
    unfolding plan_ok_def Let_def
    using b(1-6,8-11) t tf assms(2,3,6,7) by (auto split: option.splits if_splits)
qed

definition analysed ::
  "env \<Rightarrow> 'd os_ops \<Rightarrow> ('d \<Rightarrow> disk_view) \<Rightarrow> vlog_reader \<Rightarrow> disk_view \<Rightarrow> bytes \<Rightarrow> durable_frontier \<Rightarrow> u64 \<Rightarrow>
   recovery_state option \<Rightarrow> recovery_plan \<Rightarrow> bool" where
  "analysed E K view R v identity f h st plan \<longleftrightarrow> rp_database_identity plan = identity \<and> rp_durable_frontier plan = f
     \<and> rp_head_seq plan = h \<and> rp_recovery_state plan = st \<and> plan_ok plan \<and> plan_accepts E K view R v plan"

context log_disk
begin

lemma analyze_new_spec:
  assumes "analyze_new_target E K R identity f h ds inventory topo w = (w', r)"
    and "numbered (df_durable_seq f) ds" and "length ds = unat h - unat (df_durable_seq f)"
  shows "reads w w' \<and> (\<forall>plan. r = Ok plan \<longrightarrow> analysed E K view R (wview w) identity f h (None) plan)"
proof -
  obtain w1 r1 where a: "accept_new E K R (accepted_from f) ds w = (w1, r1)" by fastforce
  note A = accept_new_spec [OF a]
  have w': "w' = w1" using assms(1) a by (cases r1) (auto simp: analyze_new_target_def act_bind_def)
  have "analysed E K view R (wview w) identity f h (None) plan" if "r = Ok plan" for plan
  proof -
    from that assms(1) a obtain ac where ac: "r1 = Ok ac"
      and b: "build_plan identity f h ac ds None inventory topo = Ok plan"
      by (cases r1) (auto simp: analyze_new_target_def act_bind_def)
    obtain k where k: "k \<le> length ds" "accepts (matched E K view R (wview w)) (accepted_from f) (take k ds) = Some ac"
      "k < length ds \<longrightarrow> tm_transaction_kind (td_meta (ds ! k)) = VLogEnvelope
        \<and> (tm_vlog_begin (td_meta (ds ! k)) \<noteq> append_position (ac_end ac) \<or> rejected E K view R (wview w) (ds ! k))"
      using A ac by blast
    have p: "plan_ok (plan\<lparr>rp_needs_undo := rp_needs_undo plan\<rparr>)" "unat (rp_accepted_seq plan) - unat (df_durable_seq f) = k"
      by (rule plan_okI [OF b assms(2,3) k(1,2)]; simp)+
    have "plan_ok plan" using p(1) by simp
    then show ?thesis
      using p(2) k build_plan_Ok [OF b] plan_target_sel [OF build_plan_Ok(7) [OF b]] by (simp add: analysed_def plan_accepts_def Let_def)
  qed
  then show ?thesis using A w' by blast
qed

lemma analyze_fixed_spec:
  assumes "analyze_fixed_target E K R identity f h ds st inventory topo w = (w', r)"
    and "numbered (df_durable_seq f) ds" and "length ds = unat h - unat (df_durable_seq f)"
  shows "reads w w' \<and> (\<forall>plan. r = Ok plan \<longrightarrow> analysed E K view R (wview w) identity f h (Some st) plan)"
proof -
  let ?n = "unat (rs_target_seq st) - unat (df_durable_seq f)"
  obtain w1 r1 where c: "check_fixed_target E K R f ds st w = (w1, r1)" by fastforce
  have C: "reads w w1 \<and> (r1 = Ok () \<longrightarrow> rs_phase st = PhaseUndo \<longrightarrow>
      ?n \<le> length ds \<and> accepts (matched E K view R (wview w)) (accepted_from f) (take ?n ds) = Some (target_of st))"
    using c accept_fixed_spec [of E R "accepted_from f"]
    by (auto simp: check_fixed_target_def Let_def checked_sub_Some unat_sub word_le_nat_alt elim!: act_bindE dest!: Ok_flip(1) [THEN iffD1] split: if_splits)
  have w': "reads w w'" using assms(1) c C
    by (cases "validate_recovery_state_against_current st f h"; cases r1)
      (auto simp: analyze_fixed_target_def act_bind_def act_lift_def act_fail_def act_return_def split: result.splits if_splits)
  have "analysed E K view R (wview w) identity f h (Some st) plan" if r: "r = Ok plan" for plan
  proof -
    from r assms(1) c obtain p where v: "validate_recovery_state_against_current st f h = Ok ()" and ok: "r1 = Ok ()"
      and b: "build_plan identity f h (target_of st) ds (Some st) inventory topo = Ok p"
      and p: "plan = p\<lparr>rp_needs_undo := (rs_phase st = PhaseUndo \<and> h > rs_target_seq st)\<rparr>"
      by (auto simp: analyze_fixed_target_def act_simps act_lift_iff simp del: act_return_simps(3) split: if_splits)
    have k: "?n \<le> length ds \<and> accepts (matched E K view R (wview w)) (accepted_from f) (take ?n ds) = Some (target_of st)"
    proof (cases "rs_phase st = PhaseUndo")
      case False
      then have t: "accepted_from f = target_of st" using validate_state_Ok [OF v] by simp
      then have "rs_target_seq st = df_durable_seq f" by (auto simp: accepted_from_def target_of_def)
      then show ?thesis using t by simp
    qed (use C ok in blast)
    have "plan_ok (p\<lparr>rp_needs_undo := u\<rparr>)" "unat (rp_accepted_seq p) - unat (df_durable_seq f) = ?n" for u
      by (rule plan_okI [OF b assms(2,3)]; use k validate_state_Ok [OF v] in \<open>auto simp: target_of_def\<close>)+
    then show ?thesis
      using k build_plan_Ok [OF b] unfolding p by (simp add: analysed_def plan_accepts_def Let_def plan_target_def)
  qed
  then show ?thesis using w' by blast
qed

lemma analysis_spec:
  assumes "analyze_recovery_with_policy E B K g s format inventory R w = (w', r)"
  shows "reads w w' \<and> (\<forall>plan. r = Ok plan \<longrightarrow> (\<exists>identity f h st. analysed E K view R (wview w) identity f h st plan
    \<and> read_identity E B s format = Ok identity \<and> read_frontier_and_head E B s = Ok (f, h)
    \<and> read_recovery_state E B s = Ok st))"
proof -
  have boundary: "reads w w1" "wview w1 = wview w" if "validate_stable_boundary E K R f w = (w1, r1)" for f w1 r1
    using readingD [OF reading_boundary that] reads_def by blast+
  have targets: "reads w w2" "r = Ok plan \<Longrightarrow> analysed E K view R (wview w) identity f h st plan"
    if "validate_stable_boundary E K R f w = (w1, r1)" "load_unstable_descriptors E B s (df_durable_seq f) h = Ok ds"
      "(case st of Some state \<Rightarrow> analyze_fixed_target E K R identity f h ds state inventory topo
         | None \<Rightarrow> analyze_new_target E K R identity f h ds inventory topo) w1 = (w2, r)"
    for identity f h st ds topo w1 r1 w2 r plan
  proof -
    have "reads w1 w2 \<and> (\<forall>plan. r = Ok plan \<longrightarrow> analysed E K view R (wview w1) identity f h st plan)"
      using that(3) analyze_new_spec [OF _ load_unstable_Ok(3,2) [OF that(2)]]
        analyze_fixed_spec [OF _ load_unstable_Ok(3,2) [OF that(2)]] by (cases st) auto
    then show "reads w w2" "r = Ok plan \<Longrightarrow> analysed E K view R (wview w) identity f h st plan"
      using boundary [OF that(1)] reads_trans by auto
  qed
  show ?thesis
    using assms unfolding analyze_recovery_with_policy_def
    by (auto simp: act_lift_iff simp del: act_return_simps(3) elim!: act_bindE split: if_splits)
      (erule boundary(1), erule boundary(1), erule (2) targets(1), erule (2) targets(2) [OF _ _ _ refl])
qed

end

end
