(* ===== verification/RecoveryIndex.thy ===== *)
theory RecoveryIndex
  imports RecoveryPlan
begin

text \<open>
  What executing a plan does to the index. A state is recoverable when the index holds a run of
  commits on top of what the durable frontier says is stable, and its records say so; every attempt
  at recovery, however it ends, leads from a recoverable state to one, and a successful attempt
  to the one the plan aims at.
\<close>

section \<open>Index states recovery can work on\<close>

text \<open>A run of commits, numbered from \<open>t\<close> to \<open>n\<close>, with no transaction above it at the start.\<close>

definition history :: "env \<Rightarrow> (nat \<Rightarrow> index_view) \<Rightarrow> nat \<Rightarrow> nat \<Rightarrow> bool" where
  "history E H t n \<longleftrightarrow> (\<forall>i. t \<le> i \<and> i < n \<longrightarrow> committed E (word_of_nat i) (H i) (H (Suc i)))
     \<and> (\<forall>seq k. t < unat seq \<and> in_tx seq k \<longrightarrow> H t TransactionKeyspace k = None)"

text \<open>The index holds the commits up to \<open>h\<close>, of which those up to the frontier \<open>f\<close> are stable, and says so.\<close>

definition recoverable :: "env \<Rightarrow> (nat \<Rightarrow> index_view) \<Rightarrow> index_view \<Rightarrow> durable_frontier \<Rightarrow> u64 \<Rightarrow> bool" where
  "recoverable E H V f h \<longleftrightarrow>
     (\<exists>x. V SystemKeyspace DURABLE_FRONTIER_KEY = Some x \<and> DurableFrontier_encode E f = Ok x)
     \<and> V SystemKeyspace HEAD_SEQ_KEY = Some (encode_head_seq h)
     \<and> df_durable_seq f \<le> h \<and> history E H (unat (df_durable_seq f)) (unat h) \<and> same_core V (H (unat h))"

lemma history_sub:
  assumes "allocates E" and "history E H t n" and "n < 2 ^ 64" and "t \<le> a" and "a \<le> b" and "b \<le> n"
  shows "history E H a b"
proof -
  have "\<forall>seq k. a < unat seq \<and> in_tx seq k \<longrightarrow> H a TransactionKeyspace k = None"
    using history_links(1) [of E t n H a] assms by (simp add: history_def)
  then show ?thesis using assms by (simp add: history_def)
qed

lemma same_core_refl [simp]: "same_core V V" by (simp add: same_core_def)

lemma same_core_trans: "same_core U V \<Longrightarrow> same_core V W \<Longrightarrow> same_core U W" by (simp add: same_core_def)

lemma same_core_sym: "same_core U V \<Longrightarrow> same_core V U" by (simp add: same_core_def)

text \<open>Two views that differ at most in the record of an unfinished recovery.\<close>

definition same_but_state :: "index_view \<Rightarrow> index_view \<Rightarrow> bool" where
  "same_but_state V V' \<longleftrightarrow> same_core V V' \<and> (\<forall>k. k \<noteq> RECOVERY_STATE_KEY \<longrightarrow> V' SystemKeyspace k = V SystemKeyspace k)"

lemma same_but_state_refl [simp]: "same_but_state V V" by (simp add: same_but_state_def)

lemma same_but_state_trans: "same_but_state U V \<Longrightarrow> same_but_state V W \<Longrightarrow> same_but_state U W"
  by (auto simp: same_but_state_def same_core_def)

lemma record_keys_differ:
  "RECOVERY_STATE_KEY \<noteq> HEAD_SEQ_KEY" "RECOVERY_STATE_KEY \<noteq> DURABLE_FRONTIER_KEY" "HEAD_SEQ_KEY \<noteq> DURABLE_FRONTIER_KEY"
  "HEAD_SEQ_KEY \<noteq> RECOVERY_STATE_KEY" "DURABLE_FRONTIER_KEY \<noteq> RECOVERY_STATE_KEY" "DURABLE_FRONTIER_KEY \<noteq> HEAD_SEQ_KEY"
  by (simp_all add: RECOVERY_STATE_KEY_def HEAD_SEQ_KEY_def DURABLE_FRONTIER_KEY_def ascii_def)

lemma recoverable_same: "recoverable E H V f h \<Longrightarrow> same_but_state V V' \<Longrightarrow> recoverable E H V' f h"
  using record_keys_differ by (auto simp: recoverable_def same_but_state_def dest: same_core_sym intro: same_core_trans)

section \<open>The batches recovery commits\<close>

lemma recovery_state_batch_Ok:
  "recovery_state_batch E st = Ok b \<Longrightarrow> \<exists>x. batch_writes b = [KsInsert SystemKeyspace RECOVERY_STATE_KEY x]"
  by (auto simp: recovery_state_batch_def result_simps batch_writes_def dest!: push_Oks)

lemma delete_recovery_state_batch_Ok:
  "delete_recovery_state_batch E = Ok b \<Longrightarrow> batch_writes b = [KsRemove SystemKeyspace RECOVERY_STATE_KEY]"
  by (auto simp: delete_recovery_state_batch_def result_simps try_copy_recovery_bytes_def batch_writes_def dest!: push_Oks)

lemma target_frontier_batch_Ok:
  assumes "target_frontier_batch E h f st = Ok b"
  shows "h = df_durable_seq f \<and> (\<exists>x zs. DurableFrontier_encode E f = Ok x
    \<and> batch_writes b = KsInsert SystemKeyspace HEAD_SEQ_KEY (encode_head_seq h) # KsInsert SystemKeyspace DURABLE_FRONTIER_KEY x # zs
    \<and> (zs = [] \<or> (\<exists>y. zs = [KsInsert SystemKeyspace RECOVERY_STATE_KEY y])))"
  using assms
  by (cases st) (auto simp: target_frontier_batch_def result_simps try_copy_recovery_bytes_def batch_writes_def
      encode_head_seq_def dest!: push_Oks split: if_splits)

context recovery_backend
begin

lemma commit_recovery_spec:
  assumes "commit_recovery_batch B b s = (s', r)" and "distinct_targets (batch_writes b)"
  shows "iview s' = iview s \<and> \<not> is_ok r \<or> iview s' = apply_writes (batch_writes b) (iview s)"
proof -
  obtain r0 where c: "bk_commit_atomic B b SyncAll s = (s', r0)" and r: "is_ok r = is_ok r0"
    using assms(1) by (auto simp: commit_recovery_batch_def elim!: act_map_errE)
  show ?thesis using commit_outcomes [OF assms(2) c] commit_applies [OF assms(2)] c r by (cases r0) auto
qed

lemma state_commit:
  assumes "commit_recovery_batch B b s = (s', r)"
    and "batch_writes b = [KsInsert SystemKeyspace RECOVERY_STATE_KEY x] \<or> batch_writes b = [KsRemove SystemKeyspace RECOVERY_STATE_KEY]"
  shows "same_but_state (iview s) (iview s')"
  using commit_recovery_spec [OF assms(1)] assms(2)
  by (auto simp: distinct_targets_def apply_writes_def same_but_state_def same_core_def)

lemma frontier_commit:
  assumes "commit_recovery_batch B b s = (s', r)" and "target_frontier_batch E h f st = Ok b"
  shows "iview s' = iview s \<and> \<not> is_ok r \<or> same_core (iview s) (iview s')
    \<and> (\<exists>x. iview s' SystemKeyspace DURABLE_FRONTIER_KEY = Some x \<and> DurableFrontier_encode E f = Ok x)
    \<and> iview s' SystemKeyspace HEAD_SEQ_KEY = Some (encode_head_seq h)"
proof -
  obtain x zs where b: "DurableFrontier_encode E f = Ok x"
    "batch_writes b = KsInsert SystemKeyspace HEAD_SEQ_KEY (encode_head_seq h) # KsInsert SystemKeyspace DURABLE_FRONTIER_KEY x # zs"
    "zs = [] \<or> (\<exists>y. zs = [KsInsert SystemKeyspace RECOVERY_STATE_KEY y])"
    using target_frontier_batch_Ok [OF assms(2)] by blast
  have "distinct_targets (batch_writes b)" using b(2,3) record_keys_differ by (auto simp: distinct_targets_def)
  from commit_recovery_spec [OF assms(1) this] show ?thesis
    using b record_keys_differ by (auto simp: apply_writes_def same_core_def)
qed

end

section \<open>The stages\<close>

lemma on_index_iff: "on_index m w = (w', r) \<longleftrightarrow> (\<exists>s. m (rw_index w) = (s, r) \<and> w' = w\<lparr>rw_index := s\<rparr>)"
  by (auto simp: on_index_def split: prod.splits)

lemma on_log_iff: "on_log m w = (w', r) \<longleftrightarrow> (\<exists>l. m (rw_log w) = (l, r) \<and> w' = w\<lparr>rw_log := l\<rparr>)"
  by (auto simp: on_log_def split: prod.splits)

lemma read_index_iff: "read_index f w = (w', r) \<longleftrightarrow> w' = w \<and> f (rw_index w) = r"
  by (auto simp: read_index_def)

text \<open>An action that leaves the index alone.\<close>

definition index_kept :: "('s, 'd, 'a) recovery_act \<Rightarrow> bool" where
  "index_kept m \<longleftrightarrow> (\<forall>w w' r. m w = (w', r) \<longrightarrow> rw_index w' = rw_index w)"

lemma index_keptD: "index_kept m \<Longrightarrow> m w = (w', r) \<Longrightarrow> rw_index w' = rw_index w"
  by (simp add: index_kept_def)

lemma index_keptI: "(\<And>w w' r. m w = (w', r) \<Longrightarrow> rw_index w' = rw_index w) \<Longrightarrow> index_kept m"
  by (simp add: index_kept_def)

lemma index_kept_basic [intro!, simp]:
  "index_kept (act_return x)" "index_kept (act_fail e)" "index_kept (act_lift y)" "index_kept (on_log m)"
  "index_kept (on_root n)" "index_kept (read_index f)"
  by (auto simp: index_kept_def on_log_iff on_root_def read_index_iff)

lemma index_kept_bind [intro!]: "index_kept m \<Longrightarrow> (\<And>x. index_kept (f x)) \<Longrightarrow> index_kept (act_bind m f)"
  by (rule index_keptI, erule act_bindE) (simp_all add: index_keptD [of m] index_keptD [of "f _"])

lemma index_kept_bindings [intro!]: "index_kept (validate_recovery_bindings E B RO g plan root format R vr identity)"
  by (auto simp: validate_recovery_bindings_def)

lemma index_kept_topology [intro!]: "index_kept (inspect_topology E RO g root format stop)"
  by (auto simp: inspect_topology_def)

lemma index_kept_final [intro!]: "index_kept (verify_final_state E B RO g plan root format h f)"
  by (auto simp: verify_final_state_def)

lemma index_kept_writer [intro!]: "index_kept (take_writer E K identity vr p)"
  by (auto simp: index_kept_def take_writer_def Let_def split: prod.splits)

text \<open>What the stages may assume of the state of the recovery: it aims at the plan's target.\<close>

definition state_ok :: "recovery_plan \<Rightarrow> recovery_state option \<Rightarrow> bool" where
  "state_ok plan st \<longleftrightarrow> (case st of
      None \<Rightarrow> rp_head_seq plan = rp_accepted_seq plan
    | Some st \<Rightarrow> target_of st = plan_target plan
        \<and> (if rs_phase st = PhaseUndo then rs_next_undo_seq st = rp_head_seq plan
           else rp_head_seq plan = rp_accepted_seq plan \<and> rp_durable_frontier plan = target_frontier plan))"

context recovery_backend
begin

lemma begin_recovery_spec:
  assumes "begin_recovery E B K R vr plan w = (w', r)" and "plan_ok plan"
  shows "same_but_state (iview (rw_index w)) (iview (rw_index w')) \<and> (\<forall>st. r = Ok st \<longrightarrow> state_ok plan st)"
proof (cases "rp_recovery_state plan = None \<and> (rp_needs_undo plan \<or> rp_needs_trim plan)")
  case False
  then show ?thesis
    using assms by (auto simp: begin_recovery_def state_ok_def plan_ok_def Let_def split: option.splits if_splits)
next
  case True
  then show ?thesis
    using assms(1) state_commit recovery_state_batch_Ok
    by (fastforce simp: begin_recovery_def Let_def act_lift_iff on_index_iff on_log_iff state_ok_def target_of_def plan_target_def
        simp del: act_return_simps(3) elim!: act_bindE)
qed

end

definition settled :: "env \<Rightarrow> (nat \<Rightarrow> index_view) \<Rightarrow> recovery_plan \<Rightarrow> index_view \<Rightarrow> durable_frontier \<Rightarrow> u64 \<Rightarrow> bool" where
  "settled E H plan V f i \<longleftrightarrow> recoverable E H V f i \<and> rp_accepted_seq plan \<le> i \<and> i \<le> rp_head_seq plan
     \<and> f \<in> {rp_durable_frontier plan, target_frontier plan}"

lemma settled_same: "settled E H plan V f i \<Longrightarrow> same_but_state V V' \<Longrightarrow> settled E H plan V' f i"
  using recoverable_same unfolding settled_def by blast

lemma target_frontier_seq [simp]: "df_durable_seq (target_frontier plan) = rp_accepted_seq plan"
  by (simp add: target_frontier_def)

lemma history_part:
  assumes "allocates E" and "history E H (unat d) (unat h)" and "d \<le> a" and "a \<le> b" and "b \<le> (h :: u64)"
  shows "history E H (unat a) (unat b)"
  using history_sub [OF assms(1,2)] assms(3-5) unat_less_2p [of h] by (simp add: word_le_nat_alt)

lemma undone_records:
  assumes "undone_to E st V V' i" and "V SystemKeyspace HEAD_SEQ_KEY = Some (encode_head_seq (rs_next_undo_seq st))"
  shows "V' SystemKeyspace HEAD_SEQ_KEY = Some (encode_head_seq i)"
    and "V' SystemKeyspace DURABLE_FRONTIER_KEY = V SystemKeyspace DURABLE_FRONTIER_KEY"
  using assms record_keys_differ by (auto simp: undone_to_def)

definition recovered :: "recovery_plan \<Rightarrow> index_view \<Rightarrow> recovered_state \<Rightarrow> bool" where
  "recovered plan V rc \<longleftrightarrow> rc_head_seq rc = rp_accepted_seq plan \<and> rc_durable_frontier rc = target_frontier plan
     \<and> lw_position (rc_writer rc) = append_position (rp_accepted_end plan) \<and> V SystemKeyspace RECOVERY_STATE_KEY = None"

context recovery_backend
begin

lemma undo_settles:
  assumes "undo_transactions E B plan st s = (s', r)" and "plan_ok plan" and "allocates E"
    and "target_of st = plan_target plan" and "rs_next_undo_seq st = rp_head_seq plan"
    and "recoverable E H (iview s) (rp_durable_frontier plan) (rp_head_seq plan)"
  shows "\<exists>i. settled E H plan (iview s') (rp_durable_frontier plan) i \<and> (is_ok r \<longrightarrow> i = rp_accepted_seq plan)"
proof -
  let ?f = "rp_durable_frontier plan" and ?h = "rp_head_seq plan" and ?a = "rp_accepted_seq plan"
  have t: "rs_target_seq st = ?a" using assms(4) by (simp add: target_of_def plan_target_def)
  have p: "df_durable_seq ?f \<le> ?a" "?a \<le> ?h" "numbered (df_durable_seq ?f) (rp_descriptors plan)"
    using assms(2) by (simp_all add: plan_ok_def Let_def)
  have rec: "history E H (unat (df_durable_seq ?f)) (unat ?h)" "same_core (iview s) (H (unat ?h))"
    "iview s SystemKeyspace HEAD_SEQ_KEY = Some (encode_head_seq ?h)" using assms(6) by (simp_all add: recoverable_def)
  have hist: "history E H (unat ?a) (unat ?h)" by (rule history_part [OF assms(3) rec(1) p(1,2)]) simp
  have "\<exists>i. rs_target_seq st \<le> i \<and> i \<le> rs_next_undo_seq st \<and> same_core (iview s') (H (unat i))
    \<and> undone_to E st (iview s) (iview s') i
    \<and> (\<forall>st'. r = Ok st' \<longrightarrow> i = rs_target_seq st \<and> st' = st\<lparr>rs_next_undo_seq := i\<rparr>)"
  proof (rule undo_transactions_spec [OF assms(1) expected_numbered [OF p(3)]])
    show "\<exists>d. tx_link E (word_of_nat i) (H (i - 1)) d (H i)"
      if "unat (rs_target_seq st) < i" "i \<le> unat (rs_next_undo_seq st)" for i
      using history_links(2) [OF assms(3) hist [unfolded history_def, THEN conjunct1] _ hist [unfolded history_def, THEN conjunct2], of i]
        that t assms(5) unat_less_2p [of ?h] by simp
  qed (use rec t assms(5) p(2) in auto)
  then obtain i where i: "?a \<le> i" "i \<le> ?h" "same_core (iview s') (H (unat i))" "undone_to E st (iview s) (iview s') i"
    "is_ok r \<longrightarrow> i = ?a" unfolding t assms(5) by (auto simp: is_ok_iff)
  have "history E H (unat (df_durable_seq ?f)) (unat i)"
    by (rule history_part [OF assms(3) rec(1) _ _ i(2)]) (use p(1) i(1) in auto)
  then have "recoverable E H (iview s') ?f i"
    using assms(6) undone_records [OF i(4)] rec(3) assms(5) i(1,3) p(1) by (auto simp: recoverable_def)
  then show ?thesis using i by (intro exI [of _ i]) (simp add: settled_def)
qed

lemma frontier_settles:
  assumes "commit_recovery_batch B b s = (s', r)" and "target_frontier_batch E (rp_accepted_seq plan) (target_frontier plan) st = Ok b"
    and "settled E H plan (iview s) (rp_durable_frontier plan) (rp_accepted_seq plan)" and "allocates E"
    and "df_durable_seq (rp_durable_frontier plan) \<le> rp_accepted_seq plan"
  shows "\<exists>f. settled E H plan (iview s') f (rp_accepted_seq plan) \<and> (is_ok r \<longrightarrow> f = target_frontier plan)"
proof -
  let ?a = "rp_accepted_seq plan"
  have rec: "history E H (unat (df_durable_seq (rp_durable_frontier plan))) (unat ?a)" "same_core (iview s) (H (unat ?a))"
    using assms(3) by (simp_all add: settled_def recoverable_def)
  have hist: "history E H (unat ?a) (unat ?a)" by (rule history_part [OF assms(4) rec(1) assms(5)]) simp_all
  from frontier_commit [OF assms(1,2)] show ?thesis
  proof (elim disjE conjE)
    assume "same_core (iview s) (iview s')"
      "\<exists>x. iview s' SystemKeyspace DURABLE_FRONTIER_KEY = Some x \<and> DurableFrontier_encode E (target_frontier plan) = Ok x"
      "iview s' SystemKeyspace HEAD_SEQ_KEY = Some (encode_head_seq ?a)"
    then have "recoverable E H (iview s') (target_frontier plan) ?a"
      using hist rec(2) by (simp add: recoverable_def same_core_def)
    then show ?thesis using assms(3) by (intro exI [of _ "target_frontier plan"]) (simp add: settled_def)
  qed (use assms(3) in auto)
qed

text \<open>The common end of both ways: check the boundary, then publish the target.\<close>

lemma publish_spec:
  assumes "act_bind (on_log (validate_accepted_boundary E K R plan)) (\<lambda>_.
      act_bind (act_lift (target_frontier_batch E (rp_accepted_seq plan) (target_frontier plan) st)) (\<lambda>batch.
      act_bind (on_index (commit_recovery_batch B batch)) (\<lambda>_. act_return x))) w = (w', r)"
    and "settled E H plan (iview (rw_index w)) (rp_durable_frontier plan) (rp_accepted_seq plan)" and "allocates E"
    and "df_durable_seq (rp_durable_frontier plan) \<le> rp_accepted_seq plan"
  shows "\<exists>f. settled E H plan (iview (rw_index w')) f (rp_accepted_seq plan)
    \<and> (\<forall>y. r = Ok y \<longrightarrow> f = target_frontier plan \<and> y = x)"
  using assms(1)
proof (cases rule: act_bindE)
  case (fail e)
  then show ?thesis using assms(2) by (auto simp: on_log_iff)
next
  case (go w1 u)
  then have i: "rw_index w1 = rw_index w" by (auto simp: on_log_iff)
  from go(2) show ?thesis
  proof (cases rule: act_bindE)
    case (fail e)
    then show ?thesis using assms(2) i by (intro exI [of _ "rp_durable_frontier plan"]) simp
  next
    case (go w2 b)
    then have b: "target_frontier_batch E (rp_accepted_seq plan) (target_frontier plan) st = Ok b" and w2: "w2 = w1"
      by (simp_all add: act_lift_iff del: act_return_simps(3))
    obtain w3 r3 where c: "on_index (commit_recovery_batch B b) w1 = (w3, r3)" by fastforce
    then obtain s3 where s3: "commit_recovery_batch B b (rw_index w) = (s3, r3)" "rw_index w3 = s3"
      using i by (auto simp: on_index_iff)
    note F = frontier_settles [OF s3(1) b assms(2-4)]
    have "w' = w3 \<and> (\<forall>y. r = Ok y \<longrightarrow> is_ok r3 \<and> y = x)"
      using go(2) [unfolded w2 act_bind_def c] by (cases r3) auto
    then show ?thesis using F s3(2) by blast
  qed
qed

lemma settle_recovery_spec:
  assumes "settle_recovery E B K R vr plan st w = (w', r)" and "plan_ok plan" and "allocates E" and "state_ok plan st"
    and "recoverable E H (iview (rw_index w)) (rp_durable_frontier plan) (rp_head_seq plan)"
  shows "\<exists>f i. settled E H plan (iview (rw_index w')) f i
    \<and> (\<forall>h2 f2 st2. r = Ok (h2, f2, st2) \<longrightarrow> i = rp_accepted_seq plan \<and> f = target_frontier plan
        \<and> h2 = rp_accepted_seq plan \<and> f2 = target_frontier plan)"
proof -
  let ?f = "rp_durable_frontier plan" and ?h = "rp_head_seq plan" and ?a = "rp_accepted_seq plan"
  have p: "df_durable_seq ?f \<le> ?a" "?a \<le> ?h" "rp_needs_promote plan \<longleftrightarrow> df_durable_seq ?f < ?a"
    "?a = df_durable_seq ?f \<longrightarrow> target_frontier plan = ?f"
    using assms(2) by (simp_all add: plan_ok_def Let_def)
  have start: "settled E H plan (iview (rw_index w)) ?f ?h" using assms(5) p(2) by (simp add: settled_def)
  show ?thesis
  proof (cases "case st of Some st \<Rightarrow> rs_phase st = PhaseUndo | None \<Rightarrow> rp_needs_promote plan")
    case False
    then have r: "w' = w \<and> r = Ok (?h, ?f, st)"
      using assms(1) by (cases st) (simp_all add: settle_recovery_def)
    have "?h = ?a \<and> ?f = target_frontier plan"
    proof (cases st)
      case None
      then have "?h = ?a" "\<not> df_durable_seq ?f < ?a" using False assms(4) p(3) by (simp_all add: state_ok_def)
      then show ?thesis using p(1,4) by simp
    next
      case (Some x)
      then show ?thesis using False assms(4) by (simp add: state_ok_def)
    qed
    then show ?thesis using start r by auto
  next
    case True
    show ?thesis
    proof (cases st)
      case None
      then have h: "settled E H plan (iview (rw_index w)) ?f ?a" using assms(4) start by (simp add: state_ok_def)
      obtain w1 r1 where s: "on_log (sync_new_accepted_vlog K vr plan) w = (w1, r1)" by fastforce
      then have i: "settled E H plan (iview (rw_index w1)) ?f ?a" using h by (auto simp: on_log_iff)
      show ?thesis
      proof (cases r1)
        case (Err e)
        then show ?thesis using assms(1) None True s i by (auto simp: settle_recovery_def act_bind_def)
      next
        case (Ok u)
        with assms(1) None True s have "act_bind (on_log (validate_accepted_boundary E K R plan)) (\<lambda>_.
          act_bind (act_lift (target_frontier_batch E ?a (target_frontier plan) None)) (\<lambda>batch.
          act_bind (on_index (commit_recovery_batch B batch)) (\<lambda>_. act_return (?a, target_frontier plan, None)))) w1 = (w', r)"
          by (simp add: settle_recovery_def act_bind_def [of "on_log (sync_new_accepted_vlog K vr plan)"])
        from publish_spec [OF this i assms(3) p(1)] show ?thesis by fast
      qed
    next
      case (Some x)
      then have x: "rs_phase x = PhaseUndo" "target_of x = plan_target plan" "rs_next_undo_seq x = ?h"
        using True assms(4) by (auto simp: state_ok_def)
      obtain s1 r1 where u: "undo_transactions E B plan x (rw_index w) = (s1, r1)" by fastforce
      obtain i where i: "settled E H plan (iview s1) ?f i" "is_ok r1 \<longrightarrow> i = ?a"
        using undo_settles [OF u assms(2,3) x(2,3) assms(5)] by blast
      show ?thesis
      proof (cases r1)
        case (Err e)
        then have "w' = w\<lparr>rw_index := s1\<rparr>" "r = Err e"
          using assms(1) Some x(1) u by (auto simp: settle_recovery_def act_bind_def on_index_def)
        then show ?thesis using i(1) by auto
      next
        case (Ok st1)
        then have i': "settled E H plan (iview (rw_index (w\<lparr>rw_index := s1\<rparr>))) ?f ?a" using i by simp
        obtain nx where "act_bind (on_log (validate_accepted_boundary E K R plan)) (\<lambda>_.
          act_bind (act_lift (target_frontier_batch E ?a (target_frontier plan) (Some nx))) (\<lambda>batch.
          act_bind (on_index (commit_recovery_batch B batch)) (\<lambda>_. act_return (?a, target_frontier plan, Some nx))))
            (w\<lparr>rw_index := s1\<rparr>) = (w', r)"
          using assms(1) Some x(1) u Ok
          by (simp add: settle_recovery_def act_bind_def [of "on_index (undo_transactions E B plan x)"]
              on_index_def [of "undo_transactions E B plan x"] Let_def)
        from publish_spec [OF this i' assms(3) p(1)] show ?thesis by fast
      qed
    qed
  qed
qed

lemma finish_recovery_spec:
  assumes "finish_recovery E B K RO g plan root format vr st w = (w', r)"
  shows "same_but_state (iview (rw_index w)) (iview (rw_index w'))"
proof (cases st)
  case None
  then show ?thesis using assms by (simp add: finish_recovery_def)
next
  case (Some x)
  let ?m = "case rs_phase x of
              PhaseTrim \<Rightarrow>
                act_bind (on_root (act_map_err recovery_context (ManagedInventory_inspect E RO root format))) (\<lambda>before_trim.
                act_bind (act_lift (owned_inventory_file_ids E before_trim)) (\<lambda>file_ids.
                act_bind (on_log (trim_log K vr (durable_end_position (rp_accepted_end plan)) file_ids)) (\<lambda>_.
                  inspect_topology E RO g root format (rp_accepted_end plan))))
            | PhaseFinalize \<Rightarrow> act_return ()
            | PhaseUndo \<Rightarrow> act_fail recovery_corruption"
  have k: "index_kept ?m" by (auto split: recovery_phase.splits)
  have "act_bind ?m (\<lambda>_. act_bind (act_lift (delete_recovery_state_batch E)) (\<lambda>batch. on_index (commit_recovery_batch B batch))) w = (w', r)"
    using assms Some by (simp add: finish_recovery_def)
  then show ?thesis
  proof (cases rule: act_bindE)
    case (fail e)
    then show ?thesis using index_keptD [OF k fail(1)] by simp
  next
    case (go w1 u)
    have i: "rw_index w1 = rw_index w" by (rule index_keptD [OF k go(1)])
    from go(2) show ?thesis
    proof (cases rule: act_bindE)
      case (fail e)
      then show ?thesis using i by simp
    next
      case (go w2 b)
      then have b: "delete_recovery_state_batch E = Ok b" and w2: "w2 = w1" by (simp_all add: act_lift_iff del: act_return_simps(3))
      from go(2) w2 i show ?thesis using state_commit delete_recovery_state_batch_Ok [OF b] by (auto simp: on_index_iff)
    qed
  qed
qed

lemma required_internal_view: "required_internal B s k = Ok x \<Longrightarrow> iview s SystemKeyspace k = Some x"
  by (auto simp: required_internal_def result_simps dest!: get_internal_view)

lemma verify_final_Ok:
  "verify_final_records E B plan format h f s = Ok f' \<Longrightarrow> iview s SystemKeyspace RECOVERY_STATE_KEY = None"
  by (auto simp: verify_final_records_def result_simps dest!: get_internal_view split: if_splits)

text \<open>After the target is published, only the record of the recovery changes in the index.\<close>

lemma settle_done:
  assumes "act_bind (finish_recovery E B K RO g plan root format vr st) (\<lambda>_.
     act_bind (verify_final_state E B RO g plan root format (rp_accepted_seq plan) (target_frontier plan)) (\<lambda>_.
     act_bind (take_writer E K identity vr (durable_end_position (df_durable_vlog_end (target_frontier plan)))) (\<lambda>writer.
     if lw_position writer \<noteq> append_position (df_durable_vlog_end (target_frontier plan)) then act_fail recovery_corruption
     else act_return \<lparr>rc_head_seq = rp_accepted_seq plan, rc_durable_frontier = target_frontier plan, rc_writer = writer\<rparr>))) w = (w', r)"
  shows "same_but_state (iview (rw_index w)) (iview (rw_index w')) \<and> (\<forall>rc. r = Ok rc \<longrightarrow> recovered plan (iview (rw_index w')) rc)"
  using assms
proof (cases rule: act_bindE)
  case (fail e)
  then show ?thesis using finish_recovery_spec by auto
next
  case (go w1 u)
  note s1 = finish_recovery_spec [OF go(1)]
  from go(2) show ?thesis
  proof (cases rule: act_bindE)
    case (fail e)
    then show ?thesis using s1 index_keptD [OF index_kept_final fail(1)] by simp
  next
    case (go w2 v)
    have i2: "rw_index w2 = rw_index w1" by (rule index_keptD [OF index_kept_final go(1)])
    have n: "iview (rw_index w1) SystemKeyspace RECOVERY_STATE_KEY = None"
      using go(1) verify_final_Ok by (auto simp: verify_final_state_def act_bind_Ok read_index_iff)
    from go(2) show ?thesis
    proof (cases rule: act_bindE)
      case (fail e)
      then show ?thesis using s1 i2 index_keptD [OF index_kept_writer fail(1)] by simp
    next
      case (go w3 lw)
      have "rw_index w3 = rw_index w2" by (rule index_keptD [OF index_kept_writer go(1)])
      then show ?thesis
        using s1 i2 n go(2) by (auto simp: recovered_def target_frontier_def split: if_splits)
    qed
  qed
qed

lemma execute_recovery_spec:
  assumes "execute_recovery_with_policy E B K RO g plan root format R vr identity w = (w', r)"
    and "plan_ok plan" and "allocates E" and "recoverable E H (iview (rw_index w)) (rp_durable_frontier plan) (rp_head_seq plan)"
  shows "\<exists>f i. settled E H plan (iview (rw_index w')) f i
    \<and> (\<forall>rc. r = Ok rc \<longrightarrow> i = rp_accepted_seq plan \<and> f = target_frontier plan \<and> recovered plan (iview (rw_index w')) rc)"
proof -
  let ?f = "rp_durable_frontier plan" and ?h = "rp_head_seq plan"
  have start: "settled E H plan V ?f ?h" if "same_but_state (iview (rw_index w)) V" for V
    using recoverable_same [OF assms(4) that] assms(2) by (simp add: settled_def plan_ok_def Let_def)
  from assms(1) show ?thesis unfolding execute_recovery_with_policy_def
  proof (cases rule: act_bindE)
    case (fail e)
    then show ?thesis using start [of "iview (rw_index w')"] index_keptD [OF index_kept_bindings fail(1)] by auto
  next
    case (go w1 u)
    have i1: "rw_index w1 = rw_index w" by (rule index_keptD [OF index_kept_bindings go(1)])
    from go(2) show ?thesis
    proof (cases rule: act_bindE)
      case (fail e)
      then show ?thesis using start begin_recovery_spec [OF fail(1) assms(2)] i1 by auto
    next
      case (go w2 st)
      have b: "same_but_state (iview (rw_index w)) (iview (rw_index w2))" "state_ok plan st"
        using begin_recovery_spec [OF go(1) assms(2)] i1 by simp_all
      note rec = recoverable_same [OF assms(4) b(1)]
      from go(2) show ?thesis
      proof (cases rule: act_bindE)
        case (fail e)
        then show ?thesis using settle_recovery_spec [OF fail(1) assms(2,3) b(2) rec] by auto
      next
        case (go w3 x)
        obtain h3 f3 st3 where x: "x = (h3, f3, st3)" by (cases x)
        have s3: "settled E H plan (iview (rw_index w3)) (target_frontier plan) (rp_accepted_seq plan)"
          and hf: "h3 = rp_accepted_seq plan" "f3 = target_frontier plan"
          using settle_recovery_spec [OF go(1) assms(2,3) b(2) rec] x by auto
        from settle_done [OF go(2) [unfolded x prod.case hf]] s3 settled_same show ?thesis by blast
      qed
    qed
  qed
qed

end

end
