(* ===== verification/RecoveryLog.thy ===== *)
theory RecoveryLog
  imports RecoveryIndex
begin

text \<open>
  What executing a recovery plan does to the files of the log: the contract \<open>vlog_root\<close> of the directory
  as it is seen by path, and the lemmas that follow the log's files through the analysis of the recent
  transactions, the trimming of the rejected tail and the removal of the files behind it.
\<close>

section \<open>The directory as the root sees it\<close>

text \<open>
  The log's files are reached by two ways: by the calls of the open directory (\<open>log_disk\<close>) and by paths
  through the root. What recovery relies on: looking by path changes nothing, and the listing of the
  directory at \<open>vp\<close> leaves no file out, unless it reports an error.
\<close>

locale vlog_root = log_disk K view ident
  for K :: "'d os_ops" and view :: "'d \<Rightarrow> disk_view" and ident :: "handle \<Rightarrow> file_identity" +
  fixes RO :: "'d root_ops" and vp :: string
  assumes root_metadata_keeps: "ro_metadata RO p d = (d', r1) \<Longrightarrow> view d' = view d"
    and symlink_metadata_keeps: "ro_symlink_metadata RO p d = (d', r1) \<Longrightarrow> view d' = view d"
    and root_open_keeps: "ro_open RO p False d = (d', r2) \<Longrightarrow> view d' = view d"
    and handle_metadata_keeps: "ro_handle_metadata RO h d = (d', r1) \<Longrightarrow> view d' = view d"
    and root_read_keeps: "ro_read_exact RO h n d = (d', r3) \<Longrightarrow> view d' = view d"
    and read_dir_keeps: "ro_read_dir RO p d = (d', r4) \<Longrightarrow> view d' = view d"
    and read_dir_complete: "ro_read_dir RO vp d = (d', Ok es) \<Longrightarrow> dv_entry (view d) nm = Some k \<Longrightarrow>
      (\<exists>e. Err e \<in> set es) \<or> (\<exists>x. Ok x \<in> set es \<and> de_name x = Some nm)"
begin

definition quiet :: "('d, 'a, 'e) act \<Rightarrow> bool" where
  "quiet m \<longleftrightarrow> (\<forall>d d' r. m d = (d', r) \<longrightarrow> view d' = view d)"

lemma quietI: "(\<And>d d' r. m d = (d', r) \<Longrightarrow> view d' = view d) \<Longrightarrow> quiet m"
  by (simp add: quiet_def)

lemma quietD: "quiet m \<Longrightarrow> m d = (d', r) \<Longrightarrow> view d' = view d"
  by (simp add: quiet_def)

lemma quiet_calls [intro!]:
  "quiet (ro_metadata RO p)" "quiet (ro_symlink_metadata RO p)" "quiet (ro_open RO p False)" "quiet (ro_handle_metadata RO h)"
  "quiet (ro_read_exact RO h n)" "quiet (ro_read_dir RO p)"
  by (rule quietI, erule root_metadata_keeps symlink_metadata_keeps root_open_keeps handle_metadata_keeps root_read_keeps
      read_dir_keeps)+

lemma quiet_basic [intro!, simp]: "quiet (act_return x)" "quiet (act_fail e)" "quiet (act_lift y)"
  by (auto simp: quiet_def)

lemma quiet_bind [intro!]: "quiet m \<Longrightarrow> (\<And>x. quiet (f x)) \<Longrightarrow> quiet (act_bind m f)"
  by (rule quietI, erule act_bindE) (simp_all add: quietD [of m] quietD [of "f _"])

lemma quiet_map_err [intro!]: "quiet m \<Longrightarrow> quiet (act_map_err f m)"
  by (rule quietI, erule act_map_errE) (simp_all add: quietD [of m])

lemma quiet_checked_child [intro!]: "quiet (checked_child_path RO root name)"
  unfolding checked_child_path_def ensure_path_identity_def by (auto split: list.splits path_component.splits)

lemma quiet_inspect_child [intro!]: "quiet (inspect_child RO root name)"
  unfolding inspect_child_def
  by (intro quiet_bind quiet_checked_child quietI)
    (auto dest: symlink_metadata_keeps split: prod.splits result.splits if_splits)

lemma quiet_opens [intro!]: "quiet (open_regular_nofollow RO path False)" "quiet (open_directory_nofollow RO path)"
  unfolding open_regular_nofollow_def open_directory_nofollow_def by auto

lemma quiet_read_directory [intro!]: "quiet (read_directory RO root name)"
  unfolding read_directory_def by auto

lemma quiet_vlog_entry [intro!]: "quiet (inspect_vlog_entry E RO format path n e)"
  unfolding inspect_vlog_entry_def validate_file_identity_def Let_def by auto

lemma quiet_vlog_entries [intro!]: "quiet (inspect_vlog_entries E RO format path fs es)"
  by (induction es arbitrary: fs) auto

lemma quiet_inspect [intro!]: "quiet (ManagedInventory_inspect E RO root format)"
  unfolding ManagedInventory_inspect_def require_regular_def require_directory_def Let_def
  by (auto split: managed_entry_kind.splits)

lemma quiet_directory_open [intro!]: "quiet (VLogDirectory_open RO path)"
  unfolding VLogDirectory_open_def by auto

lemma inspect_entry_Ok:
  assumes "inspect_vlog_entry E RO format path n e d = (d', Ok fl)"
  shows "\<exists>x. e = Ok x \<and> de_name x \<noteq> None \<and> parse_vlog_file_name (the (de_name x)) = Some (ve_file_id fl)"
  using assms
  by (auto simp: inspect_vlog_entry_def act_simps act_lift_iff result_simps Let_def simp del: act_return_simps(3) split: if_splits)

lemma inspect_entries_Ok:
  assumes "inspect_vlog_entries E RO format path fs es d = (d', Ok files)"
  shows "\<forall>e \<in> set es. \<exists>x nm f. e = Ok x \<and> de_name x = Some nm \<and> parse_vlog_file_name nm = Some f \<and> f \<in> ve_file_id ` set files"
    and "ve_file_id ` set files \<subseteq> ve_file_id ` set fs \<union> {f. f \<le> MAX_VLOG_FILE_ID}" and "set fs \<subseteq> set files"
proof -
  have "(\<forall>e \<in> set es. \<exists>x nm f. e = Ok x \<and> de_name x = Some nm \<and> parse_vlog_file_name nm = Some f \<and> f \<in> ve_file_id ` set files)
      \<and> ve_file_id ` set files \<subseteq> ve_file_id ` set fs \<union> {f. f \<le> MAX_VLOG_FILE_ID} \<and> set fs \<subseteq> set files"
    using assms
  proof (induction es arbitrary: fs d)
    case (Cons e es)
    then obtain fl d1 where i: "inspect_vlog_entry E RO format path (length fs) e d = (d1, Ok fl)"
      and r: "inspect_vlog_entries E RO format path (fs @ [fl]) es d1 = (d', Ok files)" by (auto simp: act_simps)
    obtain x nm where x: "e = Ok x" "de_name x = Some nm" "parse_vlog_file_name nm = Some (ve_file_id fl)"
      using inspect_entry_Ok [OF i] by auto
    note IH = Cons.IH [OF r]
    have "ve_file_id fl \<le> MAX_VLOG_FILE_ID" using parse_vlog_name_Some [OF x(3)] by simp
    moreover have "fl \<in> set files" using IH by auto
    ultimately show ?case using IH x by auto
  qed auto
  then show "\<forall>e \<in> set es. \<exists>x nm f. e = Ok x \<and> de_name x = Some nm \<and> parse_vlog_file_name nm = Some f \<and> f \<in> ve_file_id ` set files"
    "ve_file_id ` set files \<subseteq> ve_file_id ` set fs \<union> {f. f \<le> MAX_VLOG_FILE_ID}" "set fs \<subseteq> set files" by blast+
qed

text \<open>An inventory names every file of the log.\<close>

lemma inspect_inventoried:
  assumes "ManagedInventory_inspect E RO root format d = (d', Ok inventory)"
    and "path_join (ri_canonical_path (rl_identity root)) VLOG_DIRECTORY_NAME = vp"
  shows "inventoried (view d) (map ve_file_id (mi_vlog_files inventory))" and "view d' = view d"
proof -
  show v: "view d' = view d" by (rule quietD [OF quiet_inspect assms(1)])
  obtain d1 d2 es files where rd: "read_directory RO root VLOG_DIRECTORY_NAME d1 = (d2, Ok es)"
    and ie: "inspect_vlog_entries E RO format vp [] es d2 = (d', Ok files)" and inv: "mi_vlog_files inventory = sort_key ve_file_id files"
    using assms by (auto simp: ManagedInventory_inspect_def act_simps Let_def split: if_splits)
  have v1: "view d2 = view d" "view d1 = view d"
    using quietD [OF quiet_vlog_entries ie] quietD [OF quiet_read_directory rd] v by simp_all
  obtain d3 d4 where dir: "ro_read_dir RO vp d3 = (d4, Ok es)" "view d3 = view d"
  proof -
    from rd obtain d3 d4 d5 p where a: "checked_child_path RO root VLOG_DIRECTORY_NAME d1 = (d3, Ok p)"
      "inspect_child RO root VLOG_DIRECTORY_NAME d3 = (d4, Ok Directory)" "ro_read_dir RO p d4 = (d5, Ok es)"
      by (auto simp: read_directory_def act_simps split: if_splits)
    have "p = vp" using a(1) assms(2)
      by (auto simp: checked_child_path_def act_simps split: list.splits path_component.splits)
    moreover have "view d4 = view d"
      using quietD [OF quiet_checked_child a(1)] quietD [OF quiet_inspect_child a(2)] v1 by simp
    ultimately show ?thesis using a(3) that by blast
  qed
  note I = inspect_entries_Ok [OF ie]
  have "f \<in> ve_file_id ` set files" if f: "f \<le> MAX_VLOG_FILE_ID" "file_handle (view d) f = Some h" for f h
  proof -
    have "dv_entry (view d3) (vlog_name f) = Some h" using f dir(2) by (simp add: file_handle_def)
    from read_dir_complete [OF dir(1) this] I(1) obtain x where x: "Ok x \<in> set es" "de_name x = Some (vlog_name f)" by fastforce
    then show ?thesis using I(1) parse_vlog_name [OF f(1)] by fastforce
  qed
  then show "inventoried (view d) (map ve_file_id (mi_vlog_files inventory))"
    using I(2) unfolding inventoried_def inv by auto
qed

end

section \<open>What the stages do to the log\<close>

lemma same_files_trans: "same_files u v \<Longrightarrow> same_files v w \<Longrightarrow> same_files u w"
  by (simp add: same_files_def)

lemma same_files_handle: "same_files v v' \<Longrightarrow> file_handle v' f = file_handle v f \<and> dv_content v' = dv_content v"
  by (simp add: same_files_def file_handle_def)

lemma accepted_kept_same:
  "same_files u v \<Longrightarrow> accepted_kept acc v v' \<Longrightarrow> same_files v' w \<Longrightarrow> accepted_kept acc u w"
  by (auto simp: accepted_kept_def same_files_handle split: option.splits)

lemma distinct_files_same: "same_files v v' \<Longrightarrow> distinct_files v \<Longrightarrow> distinct_files v'"
  by (simp add: distinct_files_def same_files_handle)

lemma accepted_kept_refl: "accepted_kept acc v v"
  by (auto simp: accepted_kept_def split: option.splits)

text \<open>An action of recovery that changes the content and the names of no file.\<close>

definition files_kept :: "('d \<Rightarrow> disk_view) \<Rightarrow> ('s, 'd, 'a) recovery_act \<Rightarrow> bool" where
  "files_kept view m \<longleftrightarrow> (\<forall>w w' r. m w = (w', r) \<longrightarrow> same_files (view (wd_disk (rw_log w))) (view (wd_disk (rw_log w'))))"

lemma files_keptI:
  "(\<And>w w' r. m w = (w', r) \<Longrightarrow> same_files (view (wd_disk (rw_log w))) (view (wd_disk (rw_log w')))) \<Longrightarrow> files_kept view m"
  by (simp add: files_kept_def)

lemma files_keptD:
  "files_kept view m \<Longrightarrow> m w = (w', r) \<Longrightarrow> same_files (view (wd_disk (rw_log w))) (view (wd_disk (rw_log w')))"
  by (simp add: files_kept_def)

lemma files_kept_basic [intro!, simp]:
  "files_kept view (act_return x)" "files_kept view (act_fail e)" "files_kept view (act_lift y)"
  "files_kept view (read_index f)" "files_kept view (on_index n)"
  by (auto simp: files_kept_def read_index_iff on_index_iff)

lemma files_kept_bind [intro!]:
  assumes "files_kept view m" and "\<And>x. files_kept view (f x)"
  shows "files_kept view (act_bind m f)"
proof (rule files_keptI, erule act_bindE)
  fix w w' r t x assume "m w = (t, Ok x)" "f x t = (w', r)"
  then show "same_files (view (wd_disk (rw_log w))) (view (wd_disk (rw_log w')))"
    using files_keptD [OF assms(1)] files_keptD [OF assms(2)] same_files_trans by blast
qed (simp add: files_keptD [OF assms(1)])

context log_disk
begin

text \<open>The same for an action on the log.\<close>

definition touching :: "('d log_world, 'a, 'e) act \<Rightarrow> bool" where
  "touching m \<longleftrightarrow> (\<forall>w w' r. m w = (w', r) \<longrightarrow> same_files (wview w) (wview w'))"

lemma touchingI: "(\<And>w w' r. m w = (w', r) \<Longrightarrow> same_files (wview w) (wview w')) \<Longrightarrow> touching m"
  by (simp add: touching_def)

lemma touchingD: "touching m \<Longrightarrow> m w = (w', r) \<Longrightarrow> same_files (wview w) (wview w')"
  by (simp add: touching_def)

lemma touching_basic [intro!, simp]: "touching (act_return x)" "touching (act_fail e)" "touching (act_lift y)"
  by (auto simp: touching_def)

lemma touching_reading: "reading m \<Longrightarrow> touching m"
  by (auto simp: touching_def reading_def reads_def)

lemma touching_bind [intro!]:
  assumes "touching m" and "\<And>x. touching (f x)"
  shows "touching (act_bind m f)"
proof (rule touchingI, erule act_bindE)
  fix w w' r t x assume "m w = (t, Ok x)" "f x t = (w', r)"
  then show "same_files (wview w) (wview w')"
    using touchingD [OF assms(1)] touchingD [OF assms(2)] same_files_trans by blast
qed (simp add: touchingD [OF assms(1)])

lemma touching_map_err [intro!]: "touching m \<Longrightarrow> touching (act_map_err f m)"
  by (rule touchingI, erule act_map_errE) (simp_all add: touchingD [of m])

lemma touching_calls [intro!]:
  "touching (open_writable K f)" "touching (catalog_verify K f h)" "touching (on_disk (os_sync_file K h))" "touching (directory_sync K)"
  using open_keeps_world verify_keeps on_sync_file sync_directory_keeps
  by (auto simp: touching_def directory_sync_def on_disk_eq)

lemma touching_range [intro!]: "touching (sync_range_files K fs)"
  by (induction fs) auto

lemma touching_sync [intro!]: "touching (sync_new_accepted_vlog K vr plan)"
  unfolding sync_new_accepted_vlog_def sync_accepted_range_def Let_def by auto

lemma touching_append_state: "touching (open_append_state E K uuid g acc)"
proof -
  have "touching catalog_file_ids" "touching (on_disk (os_metadata K h))" "touching (validate_accepted_catalog E K uuid g p)" for h p
    using on_metadata validate_catalog_spec by (auto simp: touching_def catalog_file_ids_def)
  then show ?thesis unfolding open_append_state_def Let_def by (auto split: option.splits)
qed

lemma kept_on_log: "touching m \<Longrightarrow> files_kept view (on_log m)"
  by (auto simp: touching_def files_kept_def on_log_iff)

lemma kept_sync [intro!]: "files_kept view (on_log (sync_new_accepted_vlog K vr plan))"
  and kept_boundary [intro!]: "files_kept view (on_log (validate_accepted_boundary E K R plan))"
  by (auto intro: kept_on_log touching_reading)

lemma kept_begin [intro!]: "files_kept view (begin_recovery E B K R vr plan)"
  unfolding begin_recovery_def Let_def by auto

lemma kept_settle [intro!]: "files_kept view (settle_recovery E B K R vr plan st)"
  unfolding settle_recovery_def Let_def by (auto split: option.splits)

end

text \<open>The log stops exactly at \<open>acc\<close>: every file up to it is complete, and there is no other file.\<close>

definition log_ends_at :: "vlog_geometry \<Rightarrow> vlog_position option \<Rightarrow> disk_view \<Rightarrow> bool" where
  "log_ends_at g acc v \<longleftrightarrow> (\<forall>f \<le> MAX_VLOG_FILE_ID. (file_handle v f \<noteq> None \<longleftrightarrow> accepted_file acc f)
     \<and> (\<forall>p h. acc = Some p \<and> file_handle v f = Some h \<longrightarrow>
          length (dv_content v h) = unat (if f < pos_file_id p then max_file_size g else pos_offset p)))"

context vlog_root
begin

lemma kept_on_root: "quiet m \<Longrightarrow> files_kept view (on_root m)"
  by (rule files_keptI) (auto simp: on_root_def on_log_iff on_disk_eq dest: quietD)

lemma kept_bindings [intro!]: "files_kept view (validate_recovery_bindings E B RO g plan root format R vr identity)"
  unfolding validate_recovery_bindings_def by (auto intro!: kept_on_root)

lemma kept_topology [intro!]: "files_kept view (inspect_topology E RO g root format stop)"
  unfolding inspect_topology_def by (auto intro!: kept_on_root)

lemma kept_verify [intro!]: "files_kept view (verify_final_state E B RO g plan root format h f)"
  unfolding verify_final_state_def by auto

lemma kept_then:
  assumes "files_kept view m" and "m w = (w', r)" and "accepted_kept acc v (wview (rw_log w))"
  shows "accepted_kept acc v (wview (rw_log w'))"
  using accepted_kept_same [OF _ assms(3) files_keptD [OF assms(1,2)]] by simp

lemma trim_stage_keeps:
  assumes "act_bind (on_root (act_map_err recovery_context (ManagedInventory_inspect E RO root format))) (\<lambda>before_trim.
      act_bind (act_lift (owned_inventory_file_ids E before_trim)) (\<lambda>file_ids.
      act_bind (on_log (trim_log K vr acc file_ids)) (\<lambda>_. inspect_topology E RO g root format stop))) w = (w', r)"
    and "path_join (ri_canonical_path (rl_identity root)) VLOG_DIRECTORY_NAME = vp" and "distinct_files (wview (rw_log w))"
  shows "accepted_kept acc (wview (rw_log w)) (wview (rw_log w'))"
  using assms(1)
proof (cases rule: act_bindE)
  case (fail e)
  then show ?thesis by (intro kept_then [OF kept_on_root fail(1)]) (auto simp: accepted_kept_refl)
next
  case (go w1 inventory)
  obtain l where l: "ManagedInventory_inspect E RO root format (wd_disk (rw_log w)) = (l, Ok inventory)"
    using go(1) by (auto simp: on_root_def on_log_iff on_disk_eq act_simps)
  have v1: "wview (rw_log w1) = wview (rw_log w)"
    using go(1) quietD [OF quiet_inspect] by (auto simp: on_root_def on_log_iff on_disk_eq act_simps)
  have ids: "\<forall>f \<in> set (map ve_file_id (mi_vlog_files inventory)). f \<le> MAX_VLOG_FILE_ID"
    using inspect_inventoried(1) [OF l assms(2)] by (simp add: inventoried_def)
  from go(2) show ?thesis
  proof (cases rule: act_bindE)
    case (fail e)
    then show ?thesis using v1 by (simp add: accepted_kept_refl)
  next
    case (go w2 file_ids)
    then have w2: "w2 = w1" and f: "file_ids = map ve_file_id (mi_vlog_files inventory)"
      by (simp_all add: act_lift_iff owned_inventory_file_ids_def result_simps del: act_return_simps(3))
    have t: "accepted_kept acc (wview (rw_log w)) (wview (rw_log w3))"
      if "on_log (trim_log K vr acc file_ids) w2 = (w3, x)" for w3 x
    proof -
      from that obtain l3 where l3: "trim_log K vr acc file_ids (rw_log w1) = (l3, x)" "w3 = w2\<lparr>rw_log := l3\<rparr>"
        by (auto simp: on_log_iff w2)
      show ?thesis using trim_kept [OF log_disk_axioms _ _ l3(1)] v1 assms(3) ids f l3(2) by simp
    qed
    from go(2) show ?thesis
    proof (cases rule: act_bindE)
      case (fail e)
      then show ?thesis using t by blast
    next
      case (go w3 u)
      show ?thesis by (rule kept_then [OF kept_topology go(2) t [OF go(1)]])
    qed
  qed
qed

lemma finish_keeps_accepted:
  assumes "finish_recovery E B K RO g plan root format vr st w = (w', r)"
    and "path_join (ri_canonical_path (rl_identity root)) VLOG_DIRECTORY_NAME = vp" and "distinct_files (wview (rw_log w))"
  shows "accepted_kept (durable_end_position (rp_accepted_end plan)) (wview (rw_log w)) (wview (rw_log w'))"
proof (cases st)
  case None
  then show ?thesis using assms(1) by (simp add: finish_recovery_def accepted_kept_refl)
next
  case (Some x)
  let ?m = "case rs_phase x of
              PhaseTrim \<Rightarrow>
                act_bind (on_root (act_map_err recovery_context (ManagedInventory_inspect E RO root format))) (\<lambda>before_trim.
                act_bind (act_lift (owned_inventory_file_ids E before_trim)) (\<lambda>file_ids.
                act_bind (on_log (trim_log K vr (durable_end_position (rp_accepted_end plan)) file_ids)) (\<lambda>_.
                  inspect_topology E RO g root format (rp_accepted_end plan))))
            | PhaseFinalize \<Rightarrow> act_return ()
            | PhaseUndo \<Rightarrow> act_fail recovery_corruption"
  have m: "accepted_kept (durable_end_position (rp_accepted_end plan)) (wview (rw_log w)) (wview (rw_log w1))" if "?m w = (w1, y)" for w1 y
    using that trim_stage_keeps [OF _ assms(2,3)] by (cases "rs_phase x") (auto simp: accepted_kept_refl)
  have "act_bind ?m (\<lambda>_. act_bind (act_lift (delete_recovery_state_batch E)) (\<lambda>batch. on_index (commit_recovery_batch B batch))) w = (w', r)"
    using assms(1) Some by (simp add: finish_recovery_def)
  then show ?thesis
  proof (cases rule: act_bindE)
    case (fail e)
    then show ?thesis using m by blast
  next
    case (go w1 u)
    have "files_kept view (act_bind (act_lift (delete_recovery_state_batch E)) (\<lambda>batch. on_index (commit_recovery_batch B batch)))"
      by auto
    from kept_then [OF this go(2) m [OF go(1)]] show ?thesis .
  qed
qed

text \<open>A writer that was taken over matches the files: they are complete up to its position, and there are no others.\<close>

lemma kept_writer [intro!]: "files_kept view (take_writer E K identity vr acc)"
proof (rule files_keptI)
  fix w w' r assume "take_writer E K identity vr acc w = (w', r)"
  then obtain x where "open_append_state E K (vr_database_uuid vr) (vlog_recovery.vr_geometry vr) acc (rw_log w) = (rw_log w', x)"
    by (auto simp: take_writer_def into_writer_def Let_def split: prod.splits result.splits)
  then show "same_files (wview (rw_log w)) (wview (rw_log w'))" by (rule touchingD [OF touching_append_state])
qed

lemma no_file_behind:
  assumes "inspect_topology E RO g root format stop w = (w', Ok ())"
    and "path_join (ri_canonical_path (rl_identity root)) VLOG_DIRECTORY_NAME = vp"
    and "f \<le> MAX_VLOG_FILE_ID" and "file_handle (wview (rw_log w)) f \<noteq> None"
  shows "accepted_file (durable_end_position stop) f"
proof -
  from assms(1) obtain l inventory topology where l: "ManagedInventory_inspect E RO root format (wd_disk (rw_log w)) = (l, Ok inventory)"
    and a: "analyze_with_geometry inventory stop g = Ok topology" "physical_tail_matches topology stop"
    by (auto simp: inspect_topology_def act_simps act_lift_iff on_root_def on_log_iff on_disk_eq simp del: act_return_simps(3) split: if_splits)
  have "f \<in> ve_file_id ` set (mi_vlog_files inventory)"
    using inspect_inventoried(1) [OF l assms(2)] assms(3,4) by (auto simp: inventoried_def)
  then show ?thesis
    using tail_or_suffix(2) [OF a(1)] a(2)
    by (cases stop) (auto simp: has_suffix_after_def accepted_file_def list_ex_iff not_less)
qed

lemma taken_log:
  assumes "take_writer E K identity vr acc w = (w', Ok lw)"
    and "\<And>f. f \<le> MAX_VLOG_FILE_ID \<Longrightarrow> file_handle (wview (rw_log w)) f \<noteq> None \<Longrightarrow> accepted_file acc f"
  shows "log_ends_at (vlog_recovery.vr_geometry vr) acc (wview (rw_log w')) \<and> wview (rw_log w') = wview (rw_log w)"
proof -
  obtain st where o: "open_append_state E K (vr_database_uuid vr) (vlog_recovery.vr_geometry vr) acc (rw_log w) = (rw_log w', Ok st)"
    using assms(1) by (auto simp: take_writer_def into_writer_def Let_def split: prod.splits result.splits)
  note S = open_append_state_spec [OF o]
  show ?thesis
  proof (cases acc)
    case None
    then have "file_handle (wview (rw_log w)) f = None" if "f \<le> MAX_VLOG_FILE_ID" for f
      using assms(2) [OF that] by (cases "file_handle (wview (rw_log w)) f") (auto simp: accepted_file_def)
    then show ?thesis using S None by (simp add: log_ends_at_def accepted_file_def)
  next
    case (Some p)
    have e: "\<exists>h. file_handle (wview (rw_log w)) f = Some h \<and> length (dv_content (wview (rw_log w)) h)
        = unat (if f < pos_file_id p then max_file_size (vlog_recovery.vr_geometry vr) else pos_offset p)" if "f \<le> pos_file_id p" for f
      using S Some that by simp
    have iff: "file_handle (wview (rw_log w)) f \<noteq> None \<longleftrightarrow> f \<le> pos_file_id p" if "f \<le> MAX_VLOG_FILE_ID" for f
      using assms(2) [OF that] e [of f] Some by (auto simp: accepted_file_def)
    have len: "length (dv_content (wview (rw_log w)) h)
        = unat (if f < pos_file_id p then max_file_size (vlog_recovery.vr_geometry vr) else pos_offset p)"
      if "f \<le> MAX_VLOG_FILE_ID" "file_handle (wview (rw_log w)) f = Some h" for f h
      using e [of f] iff [OF that(1)] that(2) by simp
    have v: "wview (rw_log w') = wview (rw_log w)" using S by simp
    show ?thesis unfolding log_ends_at_def v Some accepted_file_def option.case option.inject using iff len by blast
  qed
qed

lemma verify_records_same: "verify_final_records E B plan format h f s = Ok f' \<Longrightarrow> f' = f"
  by (auto simp: verify_final_records_def result_simps split: if_splits)

text \<open>A writer that was taken over matches the files: they are complete up to its position, and there are no others.\<close>

lemma final_log:
  assumes "verify_final_state E B RO g plan root format h f w = (w1, Ok ())"
    and "take_writer E K identity vr (durable_end_position (df_durable_vlog_end f)) w1 = (w2, Ok lw)"
    and "path_join (ri_canonical_path (rl_identity root)) VLOG_DIRECTORY_NAME = vp"
  shows "log_ends_at (vlog_recovery.vr_geometry vr) (durable_end_position (df_durable_vlog_end f)) (wview (rw_log w2))
    \<and> same_files (wview (rw_log w)) (wview (rw_log w2))"
proof -
  have t: "inspect_topology E RO g root format (df_durable_vlog_end f) w = (w1, Ok ())"
    using assms(1) verify_records_same by (fastforce simp: verify_final_state_def act_simps read_index_iff)
  have s: "same_files (wview (rw_log w)) (wview (rw_log w1))" by (rule files_keptD [OF kept_topology t])
  have "accepted_file (durable_end_position (df_durable_vlog_end f)) i"
    if "i \<le> MAX_VLOG_FILE_ID" "file_handle (wview (rw_log w1)) i \<noteq> None" for i
    using no_file_behind [OF t assms(3) that(1)] that(2) same_files_handle [OF s] by simp
  from taken_log [OF assms(2) this] s show ?thesis by auto
qed

lemma end_log:
  assumes "act_bind (finish_recovery E B K RO g plan root format vr st) (\<lambda>_.
     act_bind (verify_final_state E B RO g plan root format h f) (\<lambda>_.
     act_bind (take_writer E K identity vr (durable_end_position (df_durable_vlog_end f))) (\<lambda>writer.
     if lw_position writer \<noteq> append_position (df_durable_vlog_end f) then act_fail recovery_corruption
     else act_return \<lparr>rc_head_seq = h, rc_durable_frontier = f, rc_writer = writer\<rparr>))) w = (w', r)"
    and "path_join (ri_canonical_path (rl_identity root)) VLOG_DIRECTORY_NAME = vp" and "distinct_files (wview (rw_log w))"
  shows "accepted_kept (durable_end_position (rp_accepted_end plan)) (wview (rw_log w)) (wview (rw_log w'))
    \<and> (\<forall>rc. r = Ok rc \<longrightarrow>
        log_ends_at (vlog_recovery.vr_geometry vr) (durable_end_position (df_durable_vlog_end (rc_durable_frontier rc))) (wview (rw_log w'))
        \<and> lw_position (rc_writer rc) = append_position (df_durable_vlog_end (rc_durable_frontier rc)))"
  using assms(1)
proof (cases rule: act_bindE)
  case (fail e)
  then show ?thesis using finish_keeps_accepted [OF fail(1) assms(2,3)] by simp
next
  case (go w1 u)
  note k = finish_keeps_accepted [OF go(1) assms(2,3)]
  from go(2) show ?thesis
  proof (cases rule: act_bindE)
    case (fail e)
    then show ?thesis using kept_then [OF kept_verify fail(1) k] by simp
  next
    case (go w2 v)
    have ver: "verify_final_state E B RO g plan root format h f w1 = (w2, Ok ())" using go(1) by simp
    from go(2) show ?thesis
    proof (cases rule: act_bindE)
      case (fail e)
      then show ?thesis using kept_then [OF kept_writer fail(1) kept_then [OF kept_verify ver k]] by simp
    next
      case (go w3 lw)
      have "wview (rw_log w') = wview (rw_log w3)" using go(2) by (auto split: if_splits)
      moreover have "r = Ok rc \<Longrightarrow> rc = \<lparr>rc_head_seq = h, rc_durable_frontier = f, rc_writer = lw\<rparr> \<and> lw_position lw = append_position (df_durable_vlog_end f)" for rc
        using go(2) by (auto split: if_splits)
      ultimately show ?thesis
        using kept_then [OF kept_writer go(1) kept_then [OF kept_verify ver k]] final_log [OF ver go(1) assms(2)] by auto
    qed
  qed
qed

lemma execute_log:
  assumes "execute_recovery_with_policy E B K RO g plan root format R vr identity w = (w', r)"
    and "path_join (ri_canonical_path (rl_identity root)) VLOG_DIRECTORY_NAME = vp" and "distinct_files (wview (rw_log w))"
  shows "accepted_kept (durable_end_position (rp_accepted_end plan)) (wview (rw_log w)) (wview (rw_log w'))
    \<and> (\<forall>rc. r = Ok rc \<longrightarrow>
        log_ends_at g (durable_end_position (df_durable_vlog_end (rc_durable_frontier rc))) (wview (rw_log w'))
        \<and> lw_position (rc_writer rc) = append_position (df_durable_vlog_end (rc_durable_frontier rc)))"
proof -
  let ?acc = "durable_end_position (rp_accepted_end plan)"
  have geo: "vlog_recovery.vr_geometry vr = g" if "validate_recovery_bindings E B RO g plan root format R vr identity w = (w1, Ok u)" for w1 u
    using that by (auto simp: validate_recovery_bindings_def split: if_splits)
  from assms(1) show ?thesis unfolding execute_recovery_with_policy_def
  proof (cases rule: act_bindE)
    case (fail e)
    then show ?thesis using kept_then [OF kept_bindings fail(1) accepted_kept_refl] by auto
  next
    case (go w1 u)
    note g = geo [OF go(1)]
    have s1: "same_files (wview (rw_log w)) (wview (rw_log w1))" by (rule files_keptD [OF kept_bindings go(1)])
    from go(2) show ?thesis
    proof (cases rule: act_bindE)
      case (fail e)
      then show ?thesis using same_files_trans [OF s1 files_keptD [OF kept_begin fail(1)]]
        by (auto intro: accepted_kept_same [OF _ accepted_kept_refl])
    next
      case (go w2 st)
      have s2: "same_files (wview (rw_log w)) (wview (rw_log w2))"
        by (rule same_files_trans [OF s1 files_keptD [OF kept_begin go(1)]])
      from go(2) show ?thesis
      proof (cases rule: act_bindE)
        case (fail e)
        then show ?thesis using same_files_trans [OF s2 files_keptD [OF kept_settle fail(1)]]
          by (auto intro: accepted_kept_same [OF _ accepted_kept_refl])
      next
        case (go w3 x)
        have s3: "same_files (wview (rw_log w)) (wview (rw_log w3))"
          by (rule same_files_trans [OF s2 files_keptD [OF kept_settle go(1)]])
        obtain h3 f3 st3 where x: "x = (h3, f3, st3)" by (cases x)
        from end_log [OF go(2) [unfolded x prod.case] assms(2) distinct_files_same [OF s3 assms(3)]]
        show ?thesis using accepted_kept_same [OF s3, of ?acc _ "wview (rw_log w')"] g by auto
      qed
    qed
  qed
qed

end

end
