(* ===== verification/RecoverySafety.thy ===== *)
theory RecoverySafety
  imports RecoveryLog
begin

text \<open>
  What opening a database relies on: the analysis followed by the execution of its plan, on the
  index and on the log together.
\<close>

section \<open>The whole of recovery\<close>

context recovery_backend
begin

lemma read_records:
  assumes "read_frontier_and_head E B s = Ok (f', h')" and "recoverable E H (iview s) f h"
  shows "f' = f \<and> h' = h"
proof -
  from assms(1) obtain x y where r: "iview s SystemKeyspace DURABLE_FRONTIER_KEY = Some x" "DurableFrontier_decode E x = Ok f'"
    "iview s SystemKeyspace HEAD_SEQ_KEY = Some y" "decode_head_seq y = Ok h'"
    by (auto simp: read_frontier_and_head_def result_simps dest!: required_internal_view)
  then have "DurableFrontier_decode E x = Ok f" "y = encode_head_seq h"
    using assms(2) DurableFrontier_dec_enc by (auto simp: recoverable_def)
  then show ?thesis using r(2,4) head_seq_codec [of "encode_head_seq h" h] by simp
qed

end

context fjall_store
begin

lemma recovery_spec:
  assumes "log_disk K dview ident" and "allocates E" and "recoverable E H (view (fb_database (rw_index w))) f h"
    and "analyze_recovery_with_policy E (fjall_backend_ops E F) K g (rw_index w) format inventory R (rw_log w) = (l, Ok plan)"
    and "execute_recovery_with_policy E (fjall_backend_ops E F) K RO g plan root format R vr identity (w\<lparr>rw_log := l\<rparr>) = (w', r)"
  shows "rp_durable_frontier plan = f \<and> rp_head_seq plan = h
    \<and> (\<exists>f' i. settled E H plan (view (fb_database (rw_index w'))) f' i
        \<and> (\<forall>rc. r = Ok rc \<longrightarrow> i = rp_accepted_seq plan \<and> f' = target_frontier plan
             \<and> recovered plan (view (fb_database (rw_index w'))) rc))"
proof -
  from log_disk.analysis_spec [OF assms(1,4)] obtain f0 h0 where p: "plan_ok plan" "rp_durable_frontier plan = f0" "rp_head_seq plan = h0"
    and rd: "read_frontier_and_head E (fjall_backend_ops E F) (rw_index w) = Ok (f0, h0)"
    by (auto simp: analysed_def)
  have fh: "f0 = f" "h0 = h" using rb.read_records [OF rd assms(3)] by auto
  have rec: "recoverable E H (view (fb_database (rw_index (w\<lparr>rw_log := l\<rparr>)))) (rp_durable_frontier plan) (rp_head_seq plan)"
    using assms(3) p(2,3) fh by simp
  from rb.execute_recovery_spec [OF assms(5) p(1) assms(2) rec] show ?thesis using p(2,3) fh by auto
qed

end

section \<open>The directory in memory\<close>

interpretation mem_dir: vlog_root "mem_os fault limit" mem_disk_view mem_ident "mem_root faults n" "''/db/vlog''" for fault limit faults n
proof unfold_locales
  fix d d' :: mem_disk and es nm k
  assume "ro_read_dir (mem_root faults n) ''/db/vlog'' d = (d', Ok es)" and "dv_entry (mem_disk_view d) nm = Some k"
  then have e: "es = map (\<lambda>(n, h). Ok \<lparr>de_name = Some n, de_file_type = Ok KindFile\<rparr>) (filter (\<lambda>(n, h). h < mk_next d) (mk_entries d))"
    and "(nm, k) \<in> set (filter (\<lambda>(n, h). h < mk_next d) (mk_entries d))"
    by (auto simp: mem_root_def Let_def mem_call_eq mem_disk_view_def dest!: map_of_SomeD)
  then show "(\<exists>e. Err e \<in> set es) \<or> (\<exists>x. Ok x \<in> set es \<and> de_name x = Some nm)"
    unfolding e by (intro disjI2 exI [of _ "\<lparr>de_name = Some nm, de_file_type = Ok KindFile\<rparr>"]) force
qed (auto simp: mem_root_def mem_call_eq Let_def)

section \<open>Properties\<close>


text \<open>
  C6: recovery goes back along the history, and never loses its way. Let the index hold a run of commits
  on top of what its durable frontier says is stable. However the index, the log and the directory
  fail, analysing it and executing the plan leaves an index that again holds a run of those
  commits, up to a point between the accepted transaction and the old head, with records that
  say so; so the next attempt starts under the same conditions. When it reports success, the
  index is exactly at the accepted transaction, head and frontier name it, no recovery is
  left unfinished, and the writer stands at the accepted end of the log.
\<close>

theorem recovery_follows_history:
  assumes "fjall_store F view" and "log_disk K dview ident" and "allocates E"
    and "recoverable E H (view (fb_database (rw_index w))) f h"
    and "analyze_recovery_with_policy E (fjall_backend_ops E F) K g (rw_index w) format inventory R (rw_log w) = (l, Ok plan)"
    and "execute_recovery_with_policy E (fjall_backend_ops E F) K RO g plan root format R vr identity (w\<lparr>rw_log := l\<rparr>) = (w', r)"
  shows "\<exists>f' i. recoverable E H (view (fb_database (rw_index w'))) f' i
    \<and> rp_accepted_seq plan \<le> i \<and> i \<le> h \<and> f' \<in> {f, target_frontier plan}
    \<and> (\<forall>rc. r = Ok rc \<longrightarrow> i = rp_accepted_seq plan \<and> f' = target_frontier plan
         \<and> recovered plan (view (fb_database (rw_index w'))) rc)"
  using fjall_store.recovery_spec [OF assms] by (auto simp: settled_def)

text \<open>
  C8: recovery keeps the accepted log. However it ends, executing a plan leaves every file up to the
  accepted end under its name with the bytes it had up to that end. When it succeeds, the log
  stops exactly where the published frontier says: all files up to there are complete, there is
  no other file, and the writer stands there.
\<close>

theorem recovery_keeps_accepted_log:
  assumes "vlog_root K view ident RO vp"
    and "path_join (ri_canonical_path (rl_identity root)) VLOG_DIRECTORY_NAME = vp"
    and "distinct_files (view (wd_disk (rw_log w)))"
    and "execute_recovery_with_policy E B K RO g plan root format R vr identity w = (w', r)"
  shows "accepted_kept (durable_end_position (rp_accepted_end plan)) (view (wd_disk (rw_log w))) (view (wd_disk (rw_log w')))
    \<and> (\<forall>rc. r = Ok rc \<longrightarrow>
        log_ends_at g (durable_end_position (df_durable_vlog_end (rc_durable_frontier rc))) (view (wd_disk (rw_log w')))
        \<and> lw_position (rc_writer rc) = append_position (df_durable_vlog_end (rc_durable_frontier rc)))"
  using vlog_root.execute_log [OF assms(1,4,2,3)] .


section \<open>A run\<close>

text \<open>
  A fresh database with a torn first file: three bytes that no transaction accounts for. Recovery
  decides to cut them off, writes the decision, publishes the empty log, removes the file and
  removes the decision.
\<close>

definition torn_identity :: database_identity where
  "torn_identity = \<lparr>di_identity_format_version = 0, di_database_format_version = 0, di_database_uuid = 1, di_keyspace_layout_version = 0\<rparr>"

definition torn_format :: format_metadata where
  "torn_format = \<lparr>fm_magic = [], fm_format_version = 0, fm_database_uuid = 1, fm_page_size = 65536, fm_max_key_value_size = 0\<rparr>"

definition torn_frontier :: durable_frontier where
  "torn_frontier = \<lparr>df_durable_seq = 0, df_durable_vlog_seq = 0, df_durable_vlog_end = EmptyEnd\<rparr>"

definition torn_index :: "bytes \<Rightarrow> bytes \<Rightarrow> mem_db fjall_backend" where
  "torn_index ident front = \<lparr>fb_database = (\<lambda>ks. if ks = SystemKeyspace then [(DATABASE_IDENTITY_KEY, ident),
       (HEAD_SEQ_KEY, encode_head_seq 0), (DURABLE_FRONTIER_KEY, front)] else []),
     fb_snapshot_owner = 0, fb_commit_lock_poisoned = False\<rparr>"

definition torn_inventory :: managed_inventory where
  "torn_inventory = \<lparr>mi_vlog_files = [\<lparr>ve_file_id = 0, ve_len = 3, ve_path = ''/db/vlog/D000000.data''\<rparr>]\<rparr>"

definition torn_plan :: "bytes \<Rightarrow> recovery_plan" where
  "torn_plan ident =
     \<lparr>rp_database_identity = ident, rp_durable_frontier = torn_frontier, rp_head_seq = 0, rp_accepted_seq = 0,
      rp_accepted_vlog_seq = 0, rp_published_end = EmptyEnd, rp_accepted_end = EmptyEnd,
      rp_physical_tail = PositionTail (VLogPosition 0 3), rp_descriptors = [], rp_recovery_state = None,
      rp_needs_undo = False, rp_needs_promote = False, rp_needs_trim = True\<rparr>"

abbreviation torn_ops :: "mem_db fjall_backend backend_ops" where
  "torn_ops \<equiv> fjall_backend_ops sample_env (mem_fjall (\<lambda>_. None))"

lemma torn_codecs:
  assumes "DatabaseIdentity_encode sample_env torn_identity = Ok ident" and "DurableFrontier_encode sample_env torn_frontier = Ok front"
  shows "DatabaseIdentity_decode sample_env ident = Ok torn_identity" "DurableFrontier_decode sample_env front = Ok torn_frontier"
    "decode_head_seq (encode_head_seq 0) = Ok 0"
  using DatabaseIdentity_dec_enc [OF assms(1)] DurableFrontier_dec_enc [OF assms(2)] head_seq_codec by simp_all

lemma copy_Some: "copy_value sample_env op st (Ok (Some x)) = Ok (Some x)" "copy_value sample_env op st (Ok None) = Ok None"
  by (simp_all add: copy_value_def fjall_try_copy_bytes_def try_reserve_def ensure_def sample_env_def)

lemma torn_reads:
  assumes "DatabaseIdentity_encode sample_env torn_identity = Ok ident" and "DurableFrontier_encode sample_env torn_frontier = Ok front"
  shows "read_identity sample_env torn_ops (torn_index ident front) torn_format = Ok ident"
    "read_frontier_and_head sample_env torn_ops (torn_index ident front) = Ok (torn_frontier, 0)"
    "read_recovery_state sample_env torn_ops (torn_index ident front) = Ok None"
    "load_unstable_descriptors sample_env torn_ops (torn_index ident front) 0 0 = Ok []"
proof -
  note c = torn_codecs [OF assms]
  show "read_identity sample_env torn_ops (torn_index ident front) torn_format = Ok ident"
    using c by (simp add: read_identity_def fjall_backend_ops_def FjallBackend_get_database_identity_def mem_fjall_def torn_index_def
        copy_Some torn_identity_def torn_format_def DatabaseIdentity_validate_against_def)
  show "read_frontier_and_head sample_env torn_ops (torn_index ident front) = Ok (torn_frontier, 0)"
    using c by (simp add: read_frontier_and_head_def required_internal_def fjall_backend_ops_def FjallBackend_get_internal_def mem_fjall_def torn_index_def
        copy_Some DurableFrontier_validate_against_head_def DurableFrontier_validate_def torn_frontier_def
        DATABASE_IDENTITY_KEY_def DURABLE_FRONTIER_KEY_def HEAD_SEQ_KEY_def ascii_def)
  show "read_recovery_state sample_env torn_ops (torn_index ident front) = Ok None"
    by (simp add: read_recovery_state_def fjall_backend_ops_def FjallBackend_get_internal_def mem_fjall_def torn_index_def
        copy_Some DATABASE_IDENTITY_KEY_def DURABLE_FRONTIER_KEY_def HEAD_SEQ_KEY_def RECOVERY_STATE_KEY_def ascii_def)
  have n: "checked_sub (0 :: u64) 0 = Some 0" "checked_add (0 :: u64) 1 = Some 1" "encode_tx_meta_key 1 = Ok (tx_meta_key 1)"
    by (simp_all add: checked_sub_Some checked_add_Some encode_tx_keys)
  show "load_unstable_descriptors sample_env torn_ops (torn_index ident front) 0 0 = Ok []"
    by (simp add: load_unstable_descriptors_def unstable_descriptor_range_def owned_tx_sequence_prefix_def n
        fjall_backend_ops_def FjallBackend_scan_internal_def mem_fjall_def torn_index_def mem_range_def slice_get_def
        try_reserve_def ensure_def sample_env_def)
qed

lemma torn_analysis:
  assumes "DatabaseIdentity_encode sample_env torn_identity = Ok ident" and "DurableFrontier_encode sample_env torn_frontier = Ok front"
  shows "analyze_recovery_with_policy sample_env torn_ops K PRODUCTION (torn_index ident front) torn_format torn_inventory sample_reader w
    = (w, Ok (torn_plan ident))"
proof -
  have t: "analyze_with_geometry torn_inventory EmptyEnd PRODUCTION = Ok \<lparr>rt_physical_tail = PositionTail (VLogPosition 0 3), rt_file_count = Suc 0\<rparr>"
    by (simp add: analyze_with_geometry_def validate_inventory_order_def validate_stable_files_def torn_inventory_def
        PRODUCTION_def MAX_VLOG_FILE_ID_def MAX_VLOG_FILE_SIZE_def)
  note r = torn_reads [OF assms]
  have f: "df_durable_seq torn_frontier = 0" "df_durable_vlog_end torn_frontier = EmptyEnd" by (simp_all add: torn_frontier_def)
  have b: "validate_stable_boundary sample_env K sample_reader torn_frontier w = (w, Ok ())"
    by (simp add: validate_stable_boundary_def torn_frontier_def)
  have n: "analyze_new_target sample_env K sample_reader ident torn_frontier 0 [] torn_inventory
      \<lparr>rt_physical_tail = PositionTail (VLogPosition 0 3), rt_file_count = Suc 0\<rparr> w = (w, Ok (torn_plan ident))"
    by (simp add: analyze_new_target_def act_bind_def build_plan_def accepted_from_def published_end_def contains_end_def
        has_suffix_after_def torn_inventory_def torn_plan_def torn_frontier_def act_lift_def)
  have g: "vlog_reader.vr_geometry sample_reader = PRODUCTION" by (simp add: sample_reader_def)
  show ?thesis
    by (simp add: analyze_recovery_with_policy_def act_bind_def act_lift_def r f t b n g)
qed

lemma torn_codecs_exist:
  "\<exists>ident front. DatabaseIdentity_encode sample_env torn_identity = Ok ident \<and> DurableFrontier_encode sample_env torn_frontier = Ok front"
  by (simp add: DatabaseIdentity_encode_def torn_identity_def DurableFrontier_encode_def torn_frontier_def DurableFrontier_validate_def)


text \<open>Commits on the index in memory succeed.\<close>

lemma ordinary_batch:
  "\<forall>m \<in> set ms. validate_ordinary_mutation m = Ok () \<Longrightarrow> validate_ordinary_mutations ms = Ok () \<and> filter is_initialization ms = []"
  by (induction ms) (auto elim: validate_ordinary_mutation.elims split: if_splits)

lemma mem_commit:
  assumes "ib_operations b \<noteq> []" and "\<forall>m \<in> set (ib_operations b). validate_ordinary_mutation m = Ok ()"
    and "\<not> fb_commit_lock_poisoned s" and "mem_view (fb_database s) SystemKeyspace DATABASE_IDENTITY_KEY = Some ident"
  shows "\<exists>s'. commit_recovery_batch torn_ops b s = (s', Ok ()) \<and> \<not> fb_commit_lock_poisoned s'
    \<and> mem_view (fb_database s') = apply_writes (batch_writes b) (mem_view (fb_database s))"
proof -
  have v: "validate_for_commit sample_env b SyncAll = Ok ()"
    using ordinary_batch [OF assms(2)] assms(1) by (simp add: validate_for_commit_def)
  have i: "\<not> is_database_initialization sample_env b"
    using ordinary_batch [OF assms(2)]
    by (auto simp: is_database_initialization_def filter_empty_conv elim!: is_initialization_triple.elims)
  have p: "commit_preconditions sample_env (mem_fjall (\<lambda>_. None)) b SyncAll s = Ok ()"
    using v i assms(3,4) by (simp add: commit_preconditions_def ensure_identity_is_initialized_def mem_fjall_def mem_view_def)
  show ?thesis
    using p assms(3) mem_view_writes
    by (simp add: commit_recovery_batch_def act_map_err_def fjall_backend_ops_def FjallBackend_commit_atomic_def mem_fjall_def batch_writes_def)
qed

lemma mem_get:
  "bk_get_internal torn_ops s space k = Ok (mem_view (fb_database s) (space_keyspace space) k)"
  "bk_get_database_identity torn_ops s = Ok (mem_view (fb_database s) SystemKeyspace DATABASE_IDENTITY_KEY)"
  using copy_Some
  by (cases "map_of (fb_database s (space_keyspace space)) k"; cases "map_of (fb_database s SystemKeyspace) DATABASE_IDENTITY_KEY";
      simp add: fjall_backend_ops_def FjallBackend_get_internal_def FjallBackend_get_database_identity_def mem_fjall_def mem_view_def)+

abbreviation torn_state :: "recovery_phase \<Rightarrow> recovery_state" where
  "torn_state phase \<equiv> \<lparr>rs_phase = phase, rs_original_head = 0, rs_target_seq = 0, rs_target_vlog_seq = 0,
     rs_target_vlog_end = EmptyEnd, rs_next_undo_seq = 0, rs_trim_required = True\<rparr>"

lemma torn_state_encodes:
  assumes "phase \<noteq> PhaseFinalize"
  shows "\<exists>x. RecoveryState_encode sample_env (torn_state phase) = Ok x \<and> x \<noteq> []"
proof -
  have "\<exists>x. RecoveryState_encode sample_env (torn_state phase) = Ok x"
    using assms by (cases phase) (simp_all add: RecoveryState_encode_def RecoveryState_validate_def)
  then show ?thesis using RecoveryState_encode_width by fastforce
qed

lemma sample_alloc [simp]: "can_alloc sample_env site n" "try_reserve sample_env site n e = Ok ()"
  by (simp_all add: sample_env_def try_reserve_def ensure_def)

lemma record_keys_named:
  "RECOVERY_STATE_KEY \<noteq> DATABASE_IDENTITY_KEY" "HEAD_SEQ_KEY \<noteq> DATABASE_IDENTITY_KEY" "DURABLE_FRONTIER_KEY \<noteq> DATABASE_IDENTITY_KEY"
  "RECOVERY_STATE_KEY \<noteq> []" "HEAD_SEQ_KEY \<noteq> []" "DURABLE_FRONTIER_KEY \<noteq> []"
  by (simp_all add: RECOVERY_STATE_KEY_def HEAD_SEQ_KEY_def DURABLE_FRONTIER_KEY_def DATABASE_IDENTITY_KEY_def ascii_def)

lemmas batch_run = recovery_batch_with_capacity_def IndexAtomicBatch_try_with_capacity_def push_recovery_def IndexAtomicBatch_try_push_def
  push_system_def push_recovery_state_def try_copy_recovery_bytes_def is_database_identity_key_def record_keys_named

lemma torn_batches:
  assumes "RecoveryState_encode sample_env st = Ok x" "x \<noteq> []" and "DurableFrontier_encode sample_env torn_frontier = Ok front"
  shows "recovery_state_batch sample_env st = Ok \<lparr>ib_operations = [PutInternal SystemSpace RECOVERY_STATE_KEY x]\<rparr>"
    and "target_frontier_batch sample_env 0 torn_frontier (Some st) = Ok \<lparr>ib_operations = [PutInternal SystemSpace HEAD_SEQ_KEY (encode_head_seq 0),
       PutInternal SystemSpace DURABLE_FRONTIER_KEY front, PutInternal SystemSpace RECOVERY_STATE_KEY x]\<rparr>"
    and "delete_recovery_state_batch sample_env = Ok \<lparr>ib_operations = [DeleteInternal SystemSpace RECOVERY_STATE_KEY]\<rparr>"
proof -
  have ne: "front \<noteq> []" "u64_to_le_bytes 0 \<noteq> []"
    using DurableFrontier_encode_width [OF assms(3)] length_0_conv [of "u64_to_le_bytes 0"] by auto
  show "recovery_state_batch sample_env st = Ok \<lparr>ib_operations = [PutInternal SystemSpace RECOVERY_STATE_KEY x]\<rparr>"
    using assms(1,2) by (simp add: recovery_state_batch_def batch_run)
  show "target_frontier_batch sample_env 0 torn_frontier (Some st) = Ok \<lparr>ib_operations = [PutInternal SystemSpace HEAD_SEQ_KEY (encode_head_seq 0),
       PutInternal SystemSpace DURABLE_FRONTIER_KEY front, PutInternal SystemSpace RECOVERY_STATE_KEY x]\<rparr>"
    using assms ne by (simp add: target_frontier_batch_def batch_run torn_frontier_def encode_head_seq_def)
  show "delete_recovery_state_batch sample_env = Ok \<lparr>ib_operations = [DeleteInternal SystemSpace RECOVERY_STATE_KEY]\<rparr>"
    by (simp add: delete_recovery_state_batch_def batch_run)
qed

definition torn_world :: "mem_db fjall_backend \<Rightarrow> mem_disk log_world \<Rightarrow> (mem_db fjall_backend, mem_disk) recovery_world" where
  "torn_world s l = \<lparr>rw_index = s, rw_log = l, rw_claims = {(1, 4)}\<rparr>"

abbreviation torn_root :: "mem_disk root_ops" where
  "torn_root \<equiv> mem_root (\<lambda>_. None) (word_of_nat FORMAT_ENCODED_LEN)"

text \<open>Looking at the directory, with the file and without it.\<close>

lemma torn_bindings:
  assumes "DatabaseIdentity_encode sample_env torn_identity = Ok ident"
  shows "mem_view (fb_database s) SystemKeyspace DATABASE_IDENTITY_KEY = Some ident \<Longrightarrow>
    check_identity sample_env torn_ops (torn_plan ident) torn_format s = Ok ()"
    and "\<exists>d. VLogDirectory_open torn_root ''/db/vlog'' (wd_disk l) = (d, Ok (4, mem_ident 4)) \<and> d = (wd_disk l)\<lparr>mk_clock := mk_clock d\<rparr>"
proof -
  show "check_identity sample_env torn_ops (torn_plan ident) torn_format s = Ok ()"
    if "mem_view (fb_database s) SystemKeyspace DATABASE_IDENTITY_KEY = Some ident"
    using that DatabaseIdentity_dec_enc [OF assms]
    by (simp add: check_identity_def mem_get torn_plan_def torn_identity_def torn_format_def DatabaseIdentity_validate_against_def)
  show "\<exists>d. VLogDirectory_open torn_root ''/db/vlog'' (wd_disk l) = (d, Ok (4, mem_ident 4)) \<and> d = (wd_disk l)\<lparr>mk_clock := mk_clock d\<rparr>"
    by (simp add: VLogDirectory_open_def open_directory_nofollow_def mem_root_def acts_run mem_node_metadata_def)
qed

lemma sample_root_paths [simp]:
  "ri_canonical_path (rl_identity sample_root) = ''/db''" "ri_identity (rl_identity sample_root) = mem_ident 0"
  by (simp_all add: sample_root_def)

lemma torn_child:
  "path_components ''LOCK'' = [Normal ''LOCK'']" "path_components ''FORMAT'' = [Normal ''FORMAT'']"
  "path_components ''FORMAT.tmp'' = [Normal ''FORMAT.tmp'']" "path_components ''index'' = [Normal ''index'']"
  "path_components ''vlog'' = [Normal ''vlog'']"
  by (simp_all add: path_components_def split_path_def piece_component_def Let_def)

lemma torn_inspect_child:
  assumes "path_components name = [Normal name]"
  shows "inspect_child torn_root sample_root name d = (d\<lparr>mk_clock := Suc (Suc (mk_clock d))\<rparr>,
     Ok (case mem_node (word_of_nat FORMAT_ENCODED_LEN) (''/db/'' @ name) d of
           Some (h, k) \<Rightarrow> classify_metadata (mem_node_metadata (word_of_nat FORMAT_ENCODED_LEN) h d) | None \<Rightarrow> Missing))"
proof -
  have "mem_node n p (d\<lparr>mk_clock := c\<rparr>) = mem_node n p d" "mem_node_metadata n h (d\<lparr>mk_clock := c\<rparr>) = mem_node_metadata n h d" for n p h c
    by (simp_all add: mem_node_def mem_node_metadata_def)
  then show ?thesis using assms
    by (simp add: inspect_child_def checked_child_path_def ensure_path_identity_def mem_root_def acts_run path_join_def
        mem_node_metadata_def [of _ 0] io_not_found_def split: option.splits)
qed

lemma vlog_name_0: "vlog_name 0 = ''D000000.data''"
proof -
  have "of_char (CHR ''0'') = (48 :: nat)" by simp
  then have "char_of (48 :: nat) = CHR ''0''" by (metis char_of_char)
  then show ?thesis by (simp add: vlog_name_parts decimal_06_def)
qed

lemma torn_checked_child:
  assumes "path_components name = [Normal name]"
  shows "checked_child_path torn_root sample_root name d = (d\<lparr>mk_clock := Suc (mk_clock d)\<rparr>, Ok (''/db/'' @ name))"
  using assms by (simp add: checked_child_path_def ensure_path_identity_def mem_root_def acts_run path_join_def mem_node_metadata_def)

lemma torn_entry:
  assumes "mk_entries d = [(vlog_name 0, 0)]" and "mk_next d = 1" and "length (mk_content d 0) = 3"
  shows "inspect_vlog_entry sample_env torn_root torn_format ''/db/vlog'' 0 (Ok \<lparr>de_name = Some (vlog_name 0), de_file_type = Ok KindFile\<rparr>) d
    = (d\<lparr>mk_clock := Suc (mk_clock d)\<rparr>, Ok \<lparr>ve_file_id = 0, ve_len = 3, ve_path = ''/db/vlog/D000000.data''\<rparr>)"
proof -
  have p: "parse_vlog_file_name (vlog_name 0) = Some 0" by (rule parse_vlog_name) simp
  have n: "mem_node k ''/db/vlog/D000000.data'' (d\<lparr>mk_clock := c\<rparr>) = Some (5, KindFile)" for k c
    using assms by (simp add: mem_node_def mem_disk_view_def vlog_name_0)
  show ?thesis using assms(3)
    by (simp add: inspect_vlog_entry_def p vlog_name_0 n mem_root_def acts_run path_join_def mem_node_metadata_def
        MAX_VLOG_FILE_SIZE_def PAGE_HEADER_ENCODED_LEN_def FILE_HEADER_ENCODED_LEN_def p [unfolded vlog_name_0])
qed

lemma torn_inspect:
  assumes "mk_entries d = (if full then [(vlog_name 0, 0)] else [])" and "mk_next d = 1" and "length (mk_content d 0) = 3"
  shows "\<exists>c. ManagedInventory_inspect sample_env torn_root sample_root torn_format d =
    (d\<lparr>mk_clock := c\<rparr>, Ok (if full then torn_inventory else \<lparr>mi_vlog_files = []\<rparr>))"
proof -
  let ?t = "\<lambda>d :: mem_disk. d\<lparr>mk_clock := Suc (Suc (mk_clock d))\<rparr>"
  have kinds: "inspect_child torn_root sample_root LOCK_FILE_NAME d = (?t d, Ok (RegularFile 0))"
    "inspect_child torn_root sample_root FORMAT_FILE_NAME d = (?t d, Ok (RegularFile (word_of_nat FORMAT_ENCODED_LEN)))"
    "inspect_child torn_root sample_root FORMAT_TEMP_FILE_NAME d = (?t d, Ok Missing)"
    "inspect_child torn_root sample_root INDEX_DIRECTORY_NAME d = (?t d, Ok Directory)"
    "inspect_child torn_root sample_root VLOG_DIRECTORY_NAME d = (?t d, Ok Directory)" for d
    by (simp_all add: LOCK_FILE_NAME_def FORMAT_FILE_NAME_def FORMAT_TEMP_FILE_NAME_def INDEX_DIRECTORY_NAME_def VLOG_DIRECTORY_NAME_def
        torn_inspect_child torn_child classify_metadata_def mem_node_metadata_def)
  define c where "c = Suc (Suc (Suc (Suc (Suc (Suc (Suc (Suc (Suc (Suc (Suc (Suc (Suc (Suc (mk_clock d))))))))))))))"
  have rd: "ro_read_dir torn_root ''/db/vlog'' x = (x\<lparr>mk_clock := Suc (mk_clock x)\<rparr>,
      Ok (map (\<lambda>(n, h). Ok \<lparr>de_name = Some n, de_file_type = Ok KindFile\<rparr>) (filter (\<lambda>(n, h). h < mk_next x) (mk_entries x))))" for x
    by (simp add: mem_root_def acts_run)
  have c: "read_directory torn_root sample_root VLOG_DIRECTORY_NAME
      (d\<lparr>mk_clock := Suc (Suc (Suc (Suc (Suc (Suc (Suc (Suc (Suc (Suc (mk_clock d))))))))))\<rparr>) = (d\<lparr>mk_clock := c\<rparr>,
      Ok (if full then [Ok \<lparr>de_name = Some (vlog_name 0), de_file_type = Ok KindFile\<rparr>] else []))"
    using kinds(5) assms(1,2) unfolding read_directory_def VLOG_DIRECTORY_NAME_def c_def act_bind_def torn_checked_child [OF torn_child(5)]
    by (simp add: act_map_err_def rd)
  have e: "inspect_vlog_entries sample_env torn_root torn_format ''/db/vlog'' []
      (if full then [Ok \<lparr>de_name = Some (vlog_name 0), de_file_type = Ok KindFile\<rparr>] else []) (d\<lparr>mk_clock := c\<rparr>)
    = (d\<lparr>mk_clock := if full then Suc c else c\<rparr>, Ok (if full then mi_vlog_files torn_inventory else []))"
    using torn_entry [of "d\<lparr>mk_clock := c\<rparr>"] assms by (simp add: act_bind_def act_return_def torn_inventory_def)
  show ?thesis using c e
    by (intro exI [of _ "if full then Suc c else c"])
      (simp add: torn_inventory_def ManagedInventory_inspect_def require_regular_def require_directory_def kinds act_bind_def act_return_def Let_def
        path_join_def VLOG_DIRECTORY_NAME_def [symmetric])
qed

text \<open>Cutting the file off, and taking the log over.\<close>

definition torn_log :: "nat \<Rightarrow> mem_disk log_world" where
  "torn_log c = (log_of [1, 2, 3])\<lparr>wd_disk := (wd_disk (log_of [1, 2, 3]))\<lparr>mk_clock := c\<rparr>\<rparr>"

definition cut_log :: "nat \<Rightarrow> mem_disk log_world" where
  "cut_log c = \<lparr>wd_disk = (wd_disk (log_of [1, 2, 3]))\<lparr>mk_clock := c, mk_entries := [], mk_synced_entry := (\<lambda>_. True)\<rparr>,
     wd_catalog = Mapping.empty, wd_cache = cache_empty\<rparr>"

abbreviation torn_os :: "mem_disk os_ops" where
  "torn_os \<equiv> mem_os (\<lambda>_. None) (\<lambda>_. Suc 0)"

lemma torn_trim: "\<exists>c. trim_log torn_os sample_recovery None [0] (torn_log c0) = (cut_log c, Ok ())"
  by (simp add: torn_log_def cut_log_def trim_log_def acts_run FileSet_clear_def cache_clear_def remove_file_def catalog_unregister_def
      vlog_file_name_c_def on_disk_def mem_os_def log_of_def directory_sync_def MAX_VLOG_FILE_ID_def Mapping.delete_update)

text \<open>The stages, on an index that holds the identity.\<close>

definition torn_ready :: "bytes \<Rightarrow> mem_db fjall_backend \<Rightarrow> bool" where
  "torn_ready ident s \<longleftrightarrow> \<not> fb_commit_lock_poisoned s \<and> mem_view (fb_database s) SystemKeyspace DATABASE_IDENTITY_KEY = Some ident"

lemma torn_commit:
  assumes "torn_ready ident s" and "ms \<noteq> []" and "\<forall>m \<in> set ms. validate_ordinary_mutation m = Ok ()"
  shows "\<exists>s'. on_index (commit_recovery_batch torn_ops \<lparr>ib_operations = ms\<rparr>) (torn_world s l) = (torn_world s' l, Ok ())
    \<and> mem_view (fb_database s') = apply_writes (map keyspace_write_of ms) (mem_view (fb_database s)) \<and> \<not> fb_commit_lock_poisoned s'"
  using mem_commit [of "\<lparr>ib_operations = ms\<rparr>" s ident] assms
  by (auto simp: torn_ready_def on_index_def torn_world_def batch_writes_def)

lemma torn_look:
  "\<exists>c'. on_root (act_map_err f (ManagedInventory_inspect sample_env torn_root sample_root torn_format)) (torn_world s (torn_log c))
     = (torn_world s (torn_log c'), Ok torn_inventory)"
  "\<exists>c'. on_root (act_map_err f (ManagedInventory_inspect sample_env torn_root sample_root torn_format)) (torn_world s (cut_log c))
     = (torn_world s (cut_log c'), Ok \<lparr>mi_vlog_files = []\<rparr>)"
proof -
  obtain c' where "ManagedInventory_inspect sample_env torn_root sample_root torn_format (wd_disk (torn_log c))
      = ((wd_disk (torn_log c))\<lparr>mk_clock := c'\<rparr>, Ok torn_inventory)"
    using torn_inspect [of "wd_disk (torn_log c)" True] by (auto simp: torn_log_def log_of_def)
  then show "\<exists>c'. on_root (act_map_err f (ManagedInventory_inspect sample_env torn_root sample_root torn_format)) (torn_world s (torn_log c))
     = (torn_world s (torn_log c'), Ok torn_inventory)"
    by (intro exI [of _ c']) (simp add: on_root_def on_log_def on_disk_def act_map_err_def torn_world_def, simp add: torn_log_def)
  obtain c' where "ManagedInventory_inspect sample_env torn_root sample_root torn_format (wd_disk (cut_log c))
      = ((wd_disk (cut_log c))\<lparr>mk_clock := c'\<rparr>, Ok \<lparr>mi_vlog_files = []\<rparr>)"
    using torn_inspect [of "wd_disk (cut_log c)" False] by (auto simp: cut_log_def log_of_def)
  then show "\<exists>c'. on_root (act_map_err f (ManagedInventory_inspect sample_env torn_root sample_root torn_format)) (torn_world s (cut_log c))
     = (torn_world s (cut_log c'), Ok \<lparr>mi_vlog_files = []\<rparr>)"
    by (intro exI [of _ c']) (simp add: on_root_def on_log_def on_disk_def act_map_err_def torn_world_def, simp add: cut_log_def)
qed

lemma torn_topology:
  "\<exists>c'. inspect_topology sample_env torn_root PRODUCTION sample_root torn_format EmptyEnd (torn_world s (cut_log c)) = (torn_world s (cut_log c'), Ok ())"
proof -
  obtain c' where "on_root (act_map_err recovery_context (ManagedInventory_inspect sample_env torn_root sample_root torn_format)) (torn_world s (cut_log c))
     = (torn_world s (cut_log c'), Ok \<lparr>mi_vlog_files = []\<rparr>)" using torn_look(2) by blast
  then show ?thesis
    by (intro exI [of _ c']) (simp add: inspect_topology_def act_bind_def act_lift_def analyze_with_geometry_def validate_inventory_order_def
        validate_stable_files_def physical_tail_matches_def act_return_def)
qed

lemma torn_boundary: "on_log (validate_accepted_boundary E K R (torn_plan ident)) w = (w, Ok ())"
  "on_log (sync_new_accepted_vlog K vr (torn_plan ident)) w = (w, Ok ())"
  by (simp_all add: on_log_def validate_accepted_boundary_def sync_new_accepted_vlog_def torn_plan_def torn_frontier_def target_frontier_def
      validate_stable_boundary_def act_return_def Let_def)

lemma torn_target [simp]:
  "target_frontier (torn_plan ident) = torn_frontier" "rp_accepted_seq (torn_plan ident) = 0" "rp_head_seq (torn_plan ident) = 0"
  "rp_accepted_end (torn_plan ident) = EmptyEnd" "rp_accepted_vlog_seq (torn_plan ident) = 0" "rp_recovery_state (torn_plan ident) = None"
  "rp_needs_undo (torn_plan ident) = False" "rp_needs_trim (torn_plan ident) = True" "df_durable_vlog_end torn_frontier = EmptyEnd"
  "fm_database_uuid torn_format = 1"
  by (simp_all add: torn_plan_def target_frontier_def torn_frontier_def torn_format_def)

lemma torn_bind:
  assumes "DatabaseIdentity_encode sample_env torn_identity = Ok ident" and "torn_ready ident s"
  shows "\<exists>c'. validate_recovery_bindings sample_env torn_ops torn_root PRODUCTION (torn_plan ident) sample_root torn_format sample_reader
      sample_recovery (1, 4) (torn_world s (torn_log c)) = (torn_world s (torn_log c'), Ok ())"
proof -
  have i: "check_identity sample_env torn_ops (torn_plan ident) torn_format s = Ok ()"
    using torn_bindings(1) [OF assms(1)] assms(2) by (simp add: torn_ready_def)
  obtain d where d: "VLogDirectory_open torn_root ''/db/vlog'' (wd_disk (torn_log c)) = (d, Ok (4, mem_ident 4))"
    "d = (wd_disk (torn_log c))\<lparr>mk_clock := mk_clock d\<rparr>" using torn_bindings(2) [OF assms(1)] by blast
  have "(torn_log c)\<lparr>wd_disk := d\<rparr> = torn_log (mk_clock d)" by (subst d(2)) (simp add: torn_log_def)
  then have r: "on_root (act_map_err recovery_context (VLogDirectory_open torn_root ''/db/vlog'')) (torn_world s (torn_log c))
      = (torn_world s (torn_log (mk_clock d)), Ok (4, mem_ident 4))"
    using d(1) by (simp add: on_root_def on_log_def on_disk_def act_map_err_def torn_world_def)
  have ri: "read_index (check_identity sample_env torn_ops (torn_plan ident) torn_format) (torn_world s l) = (torn_world s l, Ok ())" for l
    using i by (simp add: read_index_def torn_world_def)
  show ?thesis
    by (intro exI [of _ "mk_clock d"])
      (simp add: validate_recovery_bindings_def act_bind_def ri path_join_def VLOG_DIRECTORY_NAME_def r writer_identity_def mem_ident_def
        sample_reader_def sample_recovery_def act_return_def)
qed

lemma torn_begin:
  assumes "torn_ready ident s"
  shows "\<exists>s'. begin_recovery sample_env torn_ops K R vr (torn_plan ident) (torn_world s l) = (torn_world s' l, Ok (Some (torn_state PhaseUndo)))
    \<and> torn_ready ident s'"
proof -
  obtain x where x: "RecoveryState_encode sample_env (torn_state PhaseUndo) = Ok x" "x \<noteq> []" using torn_state_encodes by blast
  have b: "recovery_state_batch sample_env (torn_state PhaseUndo) = Ok \<lparr>ib_operations = [PutInternal SystemSpace RECOVERY_STATE_KEY x]\<rparr>"
    using x by (simp add: recovery_state_batch_def batch_run)
  obtain s' where s': "on_index (commit_recovery_batch torn_ops \<lparr>ib_operations = [PutInternal SystemSpace RECOVERY_STATE_KEY x]\<rparr>) (torn_world s l) = (torn_world s' l, Ok ())"
    "mem_view (fb_database s') = apply_writes (map keyspace_write_of [PutInternal SystemSpace RECOVERY_STATE_KEY x]) (mem_view (fb_database s))"
    "\<not> fb_commit_lock_poisoned s'"
    using torn_commit [OF assms, of "[PutInternal SystemSpace RECOVERY_STATE_KEY x]" l] x(2) record_keys_named by (auto simp: is_database_identity_key_def)
  have "torn_ready ident s'" using s'(2,3) assms record_keys_named by (simp add: torn_ready_def apply_writes_def)
  moreover have "begin_recovery sample_env torn_ops K R vr (torn_plan ident) (torn_world s l) = (torn_world s' l, Ok (Some (torn_state PhaseUndo)))"
    using s'(1) b by (simp add: begin_recovery_def act_bind_def torn_boundary Let_def act_lift_def act_return_def)
  ultimately show ?thesis by blast
qed

definition torn_records :: "bytes \<Rightarrow> bytes \<Rightarrow> mem_db fjall_backend \<Rightarrow> bool" where
  "torn_records ident front s \<longleftrightarrow> torn_ready ident s \<and> mem_view (fb_database s) SystemKeyspace HEAD_SEQ_KEY = Some (encode_head_seq 0)
     \<and> mem_view (fb_database s) SystemKeyspace DURABLE_FRONTIER_KEY = Some front"

lemma torn_settle:
  assumes "torn_ready ident s" and "DurableFrontier_encode sample_env torn_frontier = Ok front"
  shows "\<exists>s'. settle_recovery sample_env torn_ops K R vr (torn_plan ident) (Some (torn_state PhaseUndo)) (torn_world s l)
      = (torn_world s' l, Ok (0, torn_frontier, Some (torn_state PhaseTrim))) \<and> torn_records ident front s'"
proof -
  obtain x where x: "RecoveryState_encode sample_env (torn_state PhaseTrim) = Ok x" "x \<noteq> []" using torn_state_encodes by blast
  let ?ms = "[PutInternal SystemSpace HEAD_SEQ_KEY (encode_head_seq 0), PutInternal SystemSpace DURABLE_FRONTIER_KEY front,
      PutInternal SystemSpace RECOVERY_STATE_KEY x]"
  have b: "target_frontier_batch sample_env 0 torn_frontier (Some (torn_state PhaseTrim)) = Ok \<lparr>ib_operations = ?ms\<rparr>"
    by (rule torn_batches(2) [OF x assms(2)])
  have ne: "front \<noteq> []" "encode_head_seq 0 \<noteq> []"
    using DurableFrontier_encode_width [OF assms(2)] by (auto simp: encode_head_seq_def simp flip: length_0_conv)
  obtain s' where s': "on_index (commit_recovery_batch torn_ops \<lparr>ib_operations = ?ms\<rparr>) (torn_world s l) = (torn_world s' l, Ok ())"
    "mem_view (fb_database s') = apply_writes (map keyspace_write_of ?ms) (mem_view (fb_database s))" "\<not> fb_commit_lock_poisoned s'"
    using torn_commit [OF assms(1), of ?ms l] x(2) ne record_keys_named by (auto simp: is_database_identity_key_def)
  have "torn_records ident front s'"
    using s'(2,3) assms record_keys_named record_keys_differ by (simp add: torn_records_def torn_ready_def apply_writes_def)
  moreover have "on_index (undo_transactions sample_env torn_ops (torn_plan ident) (torn_state PhaseUndo)) (torn_world s l)
      = (torn_world s l, Ok (torn_state PhaseUndo))"
    by (simp add: on_index_def undo_transactions.simps torn_world_def)
  then have "settle_recovery sample_env torn_ops K R vr (torn_plan ident) (Some (torn_state PhaseUndo)) (torn_world s l)
      = (torn_world s' l, Ok (0, torn_frontier, Some (torn_state PhaseTrim)))"
    using s'(1) b by (simp add: settle_recovery_def act_bind_def torn_boundary Let_def act_lift_def act_return_def)
  ultimately show ?thesis by blast
qed

lemma torn_finish:
  assumes "torn_records ident front s"
  shows "\<exists>s' c'. finish_recovery sample_env torn_ops torn_os torn_root PRODUCTION (torn_plan ident) sample_root torn_format sample_recovery
      (Some (torn_state PhaseTrim)) (torn_world s (torn_log c)) = (torn_world s' (cut_log c'), Ok ())
    \<and> torn_records ident front s' \<and> mem_view (fb_database s') SystemKeyspace RECOVERY_STATE_KEY = None"
proof -
  obtain c1 where c1: "on_root (act_map_err recovery_context (ManagedInventory_inspect sample_env torn_root sample_root torn_format))
      (torn_world s (torn_log c)) = (torn_world s (torn_log c1), Ok torn_inventory)" using torn_look(1) by blast
  obtain c2 where c2: "trim_log torn_os sample_recovery None [0] (torn_log c1) = (cut_log c2, Ok ())" using torn_trim by blast
  obtain c3 where c3: "inspect_topology sample_env torn_root PRODUCTION sample_root torn_format EmptyEnd (torn_world s (cut_log c2))
      = (torn_world s (cut_log c3), Ok ())" using torn_topology by blast
  let ?ms = "[DeleteInternal SystemSpace RECOVERY_STATE_KEY]"
  have b: "delete_recovery_state_batch sample_env = Ok \<lparr>ib_operations = ?ms\<rparr>"
    by (simp add: delete_recovery_state_batch_def batch_run)
  obtain s' where s': "on_index (commit_recovery_batch torn_ops \<lparr>ib_operations = ?ms\<rparr>) (torn_world s (cut_log c3)) = (torn_world s' (cut_log c3), Ok ())"
    "mem_view (fb_database s') = apply_writes (map keyspace_write_of ?ms) (mem_view (fb_database s))" "\<not> fb_commit_lock_poisoned s'"
    using torn_commit [of ident s ?ms "cut_log c3"] assms record_keys_named by (auto simp: is_database_identity_key_def torn_records_def)
  have t: "on_log (trim_log torn_os sample_recovery None [0]) (torn_world s (torn_log c1)) = (torn_world s (cut_log c2), Ok ())"
    using c2 by (simp add: on_log_def torn_world_def)
  have "torn_records ident front s' \<and> mem_view (fb_database s') SystemKeyspace RECOVERY_STATE_KEY = None"
    using s'(2,3) assms record_keys_named record_keys_differ by (simp add: torn_records_def torn_ready_def apply_writes_def)
  moreover have "owned_inventory_file_ids sample_env torn_inventory = Ok [0]"
    by (simp add: owned_inventory_file_ids_def torn_inventory_def)
  then have "finish_recovery sample_env torn_ops torn_os torn_root PRODUCTION (torn_plan ident) sample_root torn_format sample_recovery
      (Some (torn_state PhaseTrim)) (torn_world s (torn_log c)) = (torn_world s' (cut_log c3), Ok ())"
    using s'(1) b c1 t c3 by (simp add: finish_recovery_def act_bind_def act_lift_def)
  ultimately show ?thesis by blast
qed

lemma torn_verify:
  assumes "torn_records ident front s" and "mem_view (fb_database s) SystemKeyspace RECOVERY_STATE_KEY = None"
    and "DatabaseIdentity_encode sample_env torn_identity = Ok ident" and "DurableFrontier_encode sample_env torn_frontier = Ok front"
  shows "\<exists>c'. verify_final_state sample_env torn_ops torn_root PRODUCTION (torn_plan ident) sample_root torn_format 0 torn_frontier
      (torn_world s (cut_log c)) = (torn_world s (cut_log c'), Ok ())"
proof -
  have i: "check_identity sample_env torn_ops (torn_plan ident) torn_format s = Ok ()"
    using torn_bindings(1) [OF assms(3)] assms(1) by (simp add: torn_ready_def torn_records_def)
  have f: "DurableFrontier_validate_against_head torn_frontier 0 = Ok ()"
    by (simp add: DurableFrontier_validate_against_head_def DurableFrontier_validate_def torn_frontier_def)
  have "verify_final_records sample_env torn_ops (torn_plan ident) torn_format 0 torn_frontier s = Ok torn_frontier"
    using assms(1,2) torn_codecs [OF assms(3,4)] i f by (simp add: verify_final_records_def required_internal_def mem_get torn_records_def)
  then have r: "read_index (verify_final_records sample_env torn_ops (torn_plan ident) torn_format 0 torn_frontier) (torn_world s (cut_log c))
      = (torn_world s (cut_log c), Ok torn_frontier)" by (simp add: read_index_def torn_world_def)
  obtain c' where "inspect_topology sample_env torn_root PRODUCTION sample_root torn_format EmptyEnd (torn_world s (cut_log c))
      = (torn_world s (cut_log c'), Ok ())" using torn_topology by blast
  then show ?thesis using r by (intro exI [of _ c']) (simp add: verify_final_state_def act_bind_def)
qed

lemma torn_run:
  assumes "DatabaseIdentity_encode sample_env torn_identity = Ok ident" and "DurableFrontier_encode sample_env torn_frontier = Ok front"
    and "torn_ready ident s"
  shows "\<exists>w' rc. execute_recovery_with_policy sample_env torn_ops torn_os torn_root PRODUCTION (torn_plan ident) sample_root torn_format
      sample_reader sample_recovery (1, 4) (torn_world s (torn_log c)) = (w', Ok rc) \<and> rc_durable_frontier rc = torn_frontier"
proof -
  obtain c1 where c1: "validate_recovery_bindings sample_env torn_ops torn_root PRODUCTION (torn_plan ident) sample_root torn_format sample_reader
      sample_recovery (1, 4) (torn_world s (torn_log c)) = (torn_world s (torn_log c1), Ok ())" using torn_bind [OF assms(1,3)] by blast
  obtain s1 where s1: "begin_recovery sample_env torn_ops torn_os sample_reader sample_recovery (torn_plan ident) (torn_world s (torn_log c1))
      = (torn_world s1 (torn_log c1), Ok (Some (torn_state PhaseUndo)))" "torn_ready ident s1" using torn_begin [OF assms(3)] by blast
  obtain s2 where s2: "settle_recovery sample_env torn_ops torn_os sample_reader sample_recovery (torn_plan ident) (Some (torn_state PhaseUndo))
      (torn_world s1 (torn_log c1)) = (torn_world s2 (torn_log c1), Ok (0, torn_frontier, Some (torn_state PhaseTrim)))" "torn_records ident front s2"
    using torn_settle [OF s1(2) assms(2)] by blast
  obtain s3 c3 where s3: "finish_recovery sample_env torn_ops torn_os torn_root PRODUCTION (torn_plan ident) sample_root torn_format sample_recovery
      (Some (torn_state PhaseTrim)) (torn_world s2 (torn_log c1)) = (torn_world s3 (cut_log c3), Ok ())"
    "torn_records ident front s3" "mem_view (fb_database s3) SystemKeyspace RECOVERY_STATE_KEY = None"
    using torn_finish [OF s2(2)] by blast
  obtain c4 where c4: "verify_final_state sample_env torn_ops torn_root PRODUCTION (torn_plan ident) sample_root torn_format 0 torn_frontier
      (torn_world s3 (cut_log c3)) = (torn_world s3 (cut_log c4), Ok ())" using torn_verify [OF s3(2,3) assms(1,2)] by blast
  have t: "take_writer sample_env torn_os (1, 4) sample_recovery None (torn_world s3 (cut_log c4))
      = (torn_world s3 (cut_log c4), Ok (writer_of 1 PRODUCTION AS_Empty))"
    by (simp add: take_writer_def into_writer_def open_append_state_def catalog_file_ids_def acts_run cut_log_def torn_world_def sample_recovery_def)
  have p: "lw_position (writer_of 1 PRODUCTION AS_Empty) = VLogPosition 0 0"
    by (simp add: writer_of_def lw_position_def state_position_def)
  show ?thesis
    by (simp add: execute_recovery_with_policy_def act_bind_def c1 s1(1) s2(1) s3(1) c4 t p act_return_def)
qed

lemma torn_index_ready:
  "torn_ready ident (torn_index ident front)" "torn_log 0 = log_of [1, 2, 3]"
  by (simp_all add: torn_ready_def torn_index_def mem_view_def torn_log_def log_of_def)

lemma torn_recoverable:
  assumes "DurableFrontier_encode sample_env torn_frontier = Ok front"
  shows "recoverable sample_env (\<lambda>_ _. Map.empty) (mem_view (fb_database (torn_index ident front))) torn_frontier 0"
  using assms
  by (simp add: recoverable_def history_def same_core_def mem_view_def torn_index_def torn_frontier_def
      DATABASE_IDENTITY_KEY_def DURABLE_FRONTIER_KEY_def HEAD_SEQ_KEY_def ascii_def fun_eq_iff)

theorem recovery_follows_history_witness:
  "\<exists>ident front w' rc. recoverable sample_env (\<lambda>_ _. Map.empty) (mem_view (fb_database (torn_index ident front))) torn_frontier 0
     \<and> execute_recovery_with_policy sample_env torn_ops torn_os torn_root PRODUCTION (torn_plan ident) sample_root torn_format
         sample_reader sample_recovery (1, 4) (torn_world (torn_index ident front) (log_of [1, 2, 3])) = (w', Ok rc)
     \<and> recoverable sample_env (\<lambda>_ _. Map.empty) (mem_view (fb_database (rw_index w'))) torn_frontier 0
     \<and> recovered (torn_plan ident) (mem_view (fb_database (rw_index w'))) rc"
proof -
  obtain ident front where e: "DatabaseIdentity_encode sample_env torn_identity = Ok ident" "DurableFrontier_encode sample_env torn_frontier = Ok front"
    using torn_codecs_exist by blast
  let ?w = "torn_world (torn_index ident front) (log_of [1, 2, 3])"
  obtain w' rc where x: "execute_recovery_with_policy sample_env torn_ops torn_os torn_root PRODUCTION (torn_plan ident) sample_root torn_format
      sample_reader sample_recovery (1, 4) ?w = (w', Ok rc)"
    using torn_run [OF e torn_index_ready(1), of front 0] unfolding torn_index_ready(2) by blast
  have a: "analyze_recovery_with_policy sample_env torn_ops torn_os PRODUCTION (rw_index ?w) torn_format torn_inventory sample_reader (rw_log ?w)
      = (log_of [1, 2, 3], Ok (torn_plan ident))" using torn_analysis [OF e] by (simp add: torn_world_def)
  have r: "recoverable sample_env (\<lambda>_ _. Map.empty) (mem_view (fb_database (rw_index ?w))) torn_frontier 0"
    using torn_recoverable [OF e(2)] by (simp add: torn_world_def)
  have "execute_recovery_with_policy sample_env torn_ops torn_os torn_root PRODUCTION (torn_plan ident) sample_root torn_format
      sample_reader sample_recovery (1, 4) (?w\<lparr>rw_log := log_of [1, 2, 3]\<rparr>) = (w', Ok rc)" using x by (simp add: torn_world_def)
  from recovery_follows_history [OF mem.fjall_store_axioms mem.log_disk_axioms allocates_sample_env r a this]
  show ?thesis using x torn_recoverable [OF e(2)] by auto
qed

theorem recovery_keeps_accepted_log_witness:
  "\<exists>ident front w' rc. execute_recovery_with_policy sample_env torn_ops torn_os torn_root PRODUCTION (torn_plan ident) sample_root torn_format
         sample_reader sample_recovery (1, 4) (torn_world (torn_index ident front) (log_of [1, 2, 3])) = (w', Ok rc)
     \<and> log_ends_at PRODUCTION None (mem_disk_view (wd_disk (rw_log w'))) \<and> lw_position (rc_writer rc) = VLogPosition 0 0"
proof -
  obtain ident front where e: "DatabaseIdentity_encode sample_env torn_identity = Ok ident" "DurableFrontier_encode sample_env torn_frontier = Ok front"
    using torn_codecs_exist by blast
  let ?w = "torn_world (torn_index ident front) (log_of [1, 2, 3])"
  obtain w' rc where x: "execute_recovery_with_policy sample_env torn_ops torn_os torn_root PRODUCTION (torn_plan ident) sample_root torn_format
      sample_reader sample_recovery (1, 4) ?w = (w', Ok rc)" "rc_durable_frontier rc = torn_frontier"
    using torn_run [OF e torn_index_ready(1), of front 0] unfolding torn_index_ready(2) by blast
  have p: "path_join (ri_canonical_path (rl_identity sample_root)) VLOG_DIRECTORY_NAME = ''/db/vlog''"
    by (simp add: path_join_def VLOG_DIRECTORY_NAME_def)
  have d: "distinct_files (mem_disk_view (wd_disk (rw_log ?w)))"
    using vlog_name_inj by (auto simp: distinct_files_def file_handle_def torn_world_def log_of_def mem_disk_view_def split: if_splits)
  from recovery_keeps_accepted_log [OF mem_dir.vlog_root_axioms p d x(1)] x show ?thesis by auto
qed

end
