(* ===== verification/Spec2Isabelle.thy ===== *)
theory Spec2Isabelle
  imports RootFormat Batch EnvelopeScan Descriptor Index Protocol RuntimeSteps LifecycleControl CursorMap RecoverySafety
begin

text \<open>
  ExpirKV is an embedded key-value store written in Rust. Values live in a paged, append-only value
  log; an index (a Fjall database with a user, a transaction and a system keyspace) maps each key
  to a value pointer. A write is prepared as an envelope of log records and an atomic index batch,
  which also stores a descriptor from which the transaction can be undone and the new head. The
  envelope is appended before the batch is committed. The durable frontier, a record in the
  system keyspace, says up to where both are known to be on stable storage; recovery accepts what it
  can find in the log above the frontier, undoes the rest and cuts the log off.

  \<^bold>\<open>Conventions.\<close> Rust's integers are words of their width (\<open>Prelude\<close>), \<open>usize\<close> is a natural number
  with the bounds of a 64-bit target written out, byte strings are lists of \<open>8 word\<close>. A fallible
  function returns \<open>('a, storage_error) result\<close>; one that also changes state is an action
  \<open>'s \<Rightarrow> 's \<times> result\<close>. Loops are structural recursion or \<open>function\<close> with a measure; there is no fuel,
  and every loop terminates. Code outside the repository is a parameter: the running CRC and the
  allocator (\<open>env\<close>; every \<open>try_reserve\<close> may fail), Fjall (\<open>fjall_ops\<close>, contract \<open>fjall_store\<close>), the calls on
  the log's directory (\<open>os_ops\<close>, contract \<open>log_disk\<close>; \<open>honest_disk\<close> adds that calls fail only with errors
  of their own), the calls on the root by path (\<open>root_ops\<close>), and random UUIDs. Each contract
  is a locale, and each is shown to hold for an implementation in memory that injects arbitrary
  faults, on which the witnesses run. \<open>named_theorems\<close> (\<open>result_simps\<close>, \<open>codec_simps\<close>, \<open>eval_simps\<close>) and
  the lemma bundles \<open>act_simps\<close> and \<open>push_Oks\<close> carry the proofs about results, bytes and actions.

  \<^bold>\<open>Theories and sources\<close> (all under \<open>src/src\<close>).
  \<^item> \<open>Errors\<close>: \<open>error.rs\<close>. \<open>RootFormat\<close>: \<open>format.rs\<close>. \<open>Batch\<close>: \<open>batch.rs\<close>, with the limits every sequence of
    calls keeps. \<open>Stats\<close>: \<open>stats.rs\<close>.
  \<^item> \<open>VLogBase\<close>, \<open>VLogHeaders\<close>, \<open>VLogRecords\<close>, \<open>Layout\<close>, \<open>Envelope\<close>, \<open>EnvelopeScan\<close>: \<open>vlog/format.rs\<close>. Geometry and
    positions, headers and value pointers, the five record types, the planner that places records
    in pages and files, preparing an envelope and scanning it back. Shown: every decoder accepts
    exactly the encodings, records stay inside a page, preparing succeeds unless file ids run out, a
    prepared envelope scans back.
  \<^item> \<open>Descriptor\<close>: \<open>commit/descriptor.rs\<close>, the codecs of transaction keys, descriptors and system records.
  \<^item> \<open>Index\<close>: \<open>index/mod.rs\<close> and the reads, commits, snapshots and iterators of \<open>index/fjall.rs\<close>. The state
    is the adapter's; the lemmas speak of its view, three maps. Shown: a commit applies the whole
    batch or nothing, the identity is permanent. The locale \<open>index_backend\<close> is what clients use.
  \<^item> \<open>Protocol\<close>: \<open>commit/protocol.rs\<close>, validating a write and preparing the commit: the last write to a
    key wins, the descriptor describes the change, valid batches prepare.
  \<^item> \<open>Runtime\<close>, \<open>RuntimeSteps\<close>: \<open>runtime/state.rs\<close>, \<open>runtime/write_gate.rs\<close>. The methods as a whole, and all
    interleavings of their lock sections as a step relation: one active writer, admission order, no
    lost wakeup, failures are latched. \<open>LifecycleControl\<close>: \<open>runtime/lifecycle.rs\<close>.
  \<^item> \<open>VLogFiles\<close>, \<open>Writer\<close>, \<open>WriterLog\<close>: \<open>vlog/file_set.rs\<close>, \<open>vlog/writer.rs\<close>. The directory, the catalogue, the
    cache of handles, appending and synchronizing. The invariant \<open>log_inv\<close> ties the writer to the files
    and to what is on stable storage; every operation keeps it, also when a call fails half way.
  \<^item> \<open>Reader\<close>, \<open>ReaderLog\<close>: \<open>vlog/reader.rs\<close>. What was stored reads back, or fails with an error that is not
    taken for corruption.
  \<^item> \<open>Coordinator\<close>, \<open>CoordinatorLog\<close>: \<open>commit/coordinator.rs\<close>, \<open>commit/durability.rs\<close>. The stages of a
    commit and its failures. A started request is one step; \<open>RuntimeSteps.one_active_writer\<close> is the reason.
  \<^item> \<open>Database\<close>, \<open>DatabaseLog\<close>, \<open>KvStore\<close>: the operations of \<open>db.rs\<close> and \<open>snapshot.rs\<close>. \<open>KvStore\<close> states the
    abstract store, a map with snapshots, and shows that any sequence of requests refines it, that
    acknowledged synchronized writes are durable, and that the frontier never runs ahead of the log.
  \<^item> \<open>Cursor\<close>, \<open>CursorLog\<close>, \<open>CursorMap\<close>: \<open>cursor.rs\<close> and the iterators of \<open>db.rs\<close>. Every sequence of cursor calls
    stands where the same calls lead in the sorted view the cursor was opened on.
  \<^item> \<open>VLogRecovery\<close>: the recovery capability of \<open>vlog/writer.rs\<close> (synchronize, trim, hand over).
    \<open>RecoveryBase\<close>, \<open>Undo\<close>: the plan, the batches and \<open>recovery/undo.rs\<close>.
  \<^item> \<open>RootDir\<close>: \<open>lock.rs\<close>. The lock of a root with the table of locked roots, and the checked operations
    on its children. \<open>Topology\<close>: \<open>recovery/topology.rs\<close>, the inventory of the log and what is accepted of it.
  \<^item> \<open>RecoveryAnalysis\<close>, \<open>RecoveryRun\<close>: \<open>recovery/mod.rs\<close>, making a plan and executing it, split where the
    code splits (begin, settle, finish, verify, hand over). \<open>RecoveryPlan\<close> shows what the analysis accepts,
    \<open>RecoveryIndex\<close> what the execution does to the index, \<open>RecoveryLog\<close> what it does to the files, and
    \<open>RecoverySafety\<close> puts them together: an attempt at recovery, however it ends, leads from a recoverable
    index to a recoverable index along the committed history, keeps every accepted byte, and when it
    succeeds leaves index and log exactly at the accepted transaction.

  \<^bold>\<open>Interfaces.\<close> \<open>fixed_codec\<close> (a decoder inverts its encoder), \<open>index_backend\<close> and \<open>recovery_backend\<close> (the index as
  the coordinator and recovery see it, provided by \<open>fjall_store\<close>), \<open>log_disk\<close>, \<open>honest_disk\<close> and \<open>vlog_root\<close> (the
  directory, by handle and by path), \<open>stored_database\<close>, \<open>scanned_store\<close>, \<open>cursor_store\<close> and \<open>scanned_database\<close>
  (what requests and cursors need of index and log).

  \<^bold>\<open>Not modelled.\<close> Opening, initializing and destroying a database in \<open>db.rs\<close>, which chains the parts above
  with system calls and threads; the background cleanup of descriptors beyond its trigger; opening
  Fjall and its options (\<open>index/fjall.rs\<close>, \<open>options.rs\<close>); removing and synchronizing whole trees in
  \<open>lock.rs\<close>; formatting of errors; fault injection and counters for tests. Locks are taken to be free of
  poisoning except where the code stores the fact; a panic is outside the model. That recovery
  and the readers share one set of files holds because the model has only one.
\<close>

end
